(* ===== verification/Prelude.thy ===== *)
theory Prelude
  imports Main "HOL-Library.Word" "HOL-Library.Monad_Syntax"
begin

text \<open>
  The machine underneath the model: a flat byte memory, native words in either host byte
  order, and the 64-bit wrap-around of \<open>size_t\<close>.  C pointers to characters are addresses
  (natural numbers) into one memory, so that two buffers may alias, as the in-place
  conversions of the library require.  \<open>size_t\<close> and \<open>uint64_t\<close> values are natural numbers
  below \<open>2 ^ 64\<close>; every sum or product of the source that may exceed that bound is wrapped
  by \<open>u64\<close>.
\<close>

unbundle bit_operations_syntax

type_synonym byte = "8 word"
type_synonym addr = nat
type_synonym memory = "nat \<Rightarrow> byte"

named_theorems codec_defs \<open>encoders and decoders of the fixed-size ELF structures\<close>
named_theorems macro_defs \<open>the READ, WRITE and SWAP macros of the ELF structures\<close>

section \<open>Definitions\<close>

definition u64 :: "nat \<Rightarrow> nat" where
  "u64 n = n mod 18446744073709551616"

definition u32 :: "nat \<Rightarrow> nat" where
  "u32 n = n mod 4294967296"

definition bytes_at :: "memory \<Rightarrow> addr \<Rightarrow> nat \<Rightarrow> byte list" where
  "bytes_at m a n = map m [a..<a + n]"

definition put_bytes :: "memory \<Rightarrow> addr \<Rightarrow> byte list \<Rightarrow> memory" where
  "put_bytes m a bs = (\<lambda>x. if a \<le> x \<and> x < a + length bs then bs ! (x - a) else m x)"

text \<open>\<open>memcpy\<close> of non-overlapping (or identical) ranges.\<close>

definition memcpy :: "memory \<Rightarrow> addr \<Rightarrow> addr \<Rightarrow> nat \<Rightarrow> memory" where
  "memcpy m dst src n = put_bytes m dst (bytes_at m src n)"

text \<open>
  \<open>le_bytes n w\<close> are the \<open>n\<close> low bytes of \<open>w\<close>, least significant first; \<open>host_bytes be n w\<close>
  is the object representation of \<open>w\<close> on a big-endian (\<open>be\<close>) or little-endian host.
\<close>

definition le_bytes :: "nat \<Rightarrow> 'a::len word \<Rightarrow> byte list" where
  "le_bytes n w = map (\<lambda>i. ucast (drop_bit (8 * i) w)) [0..<n]"

primrec le_word :: "byte list \<Rightarrow> 'a::len word" where
  "le_word [] = 0"
| "le_word (b # bs) = ucast b OR push_bit 8 (le_word bs)"

definition host_bytes :: "bool \<Rightarrow> nat \<Rightarrow> 'a::len word \<Rightarrow> byte list" where
  "host_bytes be n w = (if be then rev (le_bytes n w) else le_bytes n w)"

definition host_word :: "bool \<Rightarrow> byte list \<Rightarrow> 'a::len word" where
  "host_word be bs = le_word (if be then rev bs else bs)"

text \<open>Two address ranges that share no byte.\<close>

definition disjoint_ranges :: "addr \<Rightarrow> nat \<Rightarrow> addr \<Rightarrow> nat \<Rightarrow> bool" where
  "disjoint_ranges a n b k \<longleftrightarrow> a + n \<le> b \<or> b + k \<le> a"

section \<open>Lemmas\<close>

lemma u64_small [simp]: "n < 18446744073709551616 \<Longrightarrow> u64 n = n"
  by (simp add: u64_def)

lemma u64_less [simp]: "u64 n < 18446744073709551616"
  by (simp add: u64_def)

lemma u32_small [simp]: "n < 4294967296 \<Longrightarrow> u32 n = n"
  by (simp add: u32_def)

lemma u64_le: "u64 n \<le> n"
  by (simp add: u64_def)

lemma length_bytes_at [simp]: "length (bytes_at m a n) = n"
  by (simp add: bytes_at_def)

lemma nth_bytes_at [simp]: "i < n \<Longrightarrow> bytes_at m a n ! i = m (a + i)"
  by (simp add: bytes_at_def)

lemma bytes_at_0 [simp]: "bytes_at m a 0 = []"
  by (simp add: bytes_at_def)

lemma bytes_at_add: "bytes_at m a (n + k) = bytes_at m a n @ bytes_at m (a + n) k"
  by (rule nth_equalityI) (auto simp: nth_append)

lemma take_bytes_at [simp]: "take k (bytes_at m a n) = bytes_at m a (min k n)"
  by (rule nth_equalityI) auto

lemma drop_bytes_at [simp]: "drop k (bytes_at m a n) = bytes_at m (a + k) (n - k)"
  by (rule nth_equalityI) (auto simp: add.assoc)

lemma bytes_at_eqI: "(\<And>i. i < n \<Longrightarrow> m (a + i) = m' (a' + i)) \<Longrightarrow> bytes_at m a n = bytes_at m' a' n"
  by (rule nth_equalityI) auto

lemma put_bytes_Nil [simp]: "put_bytes m a [] = m"
  by (rule ext) (auto simp: put_bytes_def)

lemma put_bytes_outside [simp]: "x < a \<or> a + length bs \<le> x \<Longrightarrow> put_bytes m a bs x = m x"
  by (auto simp: put_bytes_def)

lemma put_bytes_inside: "i < length bs \<Longrightarrow> put_bytes m a bs (a + i) = bs ! i"
  by (simp add: put_bytes_def)

lemma put_bytes_append:
  "put_bytes m a (xs @ ys) = put_bytes (put_bytes m a xs) (a + length xs) ys"
  by (rule ext) (auto simp: put_bytes_def nth_append diff_diff_left)

lemma bytes_at_put_same [simp]: "length bs = n \<Longrightarrow> bytes_at (put_bytes m a bs) a n = bs"
  by (rule nth_equalityI) (auto simp: put_bytes_inside)

lemma bytes_at_put_disjoint [simp]:
  "b + n \<le> a \<or> a + length bs \<le> b \<Longrightarrow> bytes_at (put_bytes m a bs) b n = bytes_at m b n"
  by (rule bytes_at_eqI) auto

lemma put_bytes_bytes_at [simp]: "put_bytes m a (bytes_at m a n) = m"
  by (rule ext) (auto simp: put_bytes_def)

lemma length_le_bytes [simp]: "length (le_bytes n w) = n"
  by (simp add: le_bytes_def)

lemma bit_le_word:
  "bit (le_word bs :: 'a::len word) k \<longleftrightarrow>
     k < LENGTH('a) \<and> k < 8 * length bs \<and> bit (bs ! (k div 8)) (k mod 8)"
proof (induction bs arbitrary: k)
  case Nil
  then show ?case by simp
next
  case (Cons b bs)
  show ?case
  proof (cases "k < 8")
    case True
    then show ?thesis by (auto simp: bit_simps)
  next
    case False
    then have k: "k div 8 = Suc ((k - 8) div 8)" "(k - 8) mod 8 = k mod 8"
      by (auto simp: le_div_geq le_mod_geq)
    have nb: "\<not> bit b k"
      using False bit_imp_le_length [of b k] by auto
    from False k nb show ?thesis
      by (auto simp: bit_simps Cons.IH)
  qed
qed

lemma le_word_le_bytes:
  "LENGTH('a::len) = 8 * n \<Longrightarrow> le_word (le_bytes n w) = (w :: 'a word)"
  by (rule bit_word_eqI) (auto simp: bit_le_word le_bytes_def bit_simps less_mult_imp_div_less)

lemma le_bytes_le_word:
  assumes "LENGTH('a::len) = 8 * n" "length bs = n"
  shows "le_bytes n (le_word bs :: 'a word) = bs"
proof (rule nth_equalityI)
  fix i assume "i < length (le_bytes n (le_word bs :: 'a word))"
  then have i: "i < n" by simp
  show "le_bytes n (le_word bs :: 'a word) ! i = bs ! i"
  proof (rule bit_word_eqI)
    fix j assume "j < LENGTH(8)"
    then have "j < 8" by simp
    with i assms have "8 * i + j < 8 * n" "(8 * i + j) div 8 = i" "(8 * i + j) mod 8 = j" by auto
    with i assms show "bit (le_bytes n (le_word bs :: 'a word) ! i) j = bit (bs ! i) j"
      by (simp add: le_bytes_def bit_simps bit_le_word \<open>j < 8\<close>)
  qed
qed (use assms in simp)

lemma length_host_bytes [simp]: "length (host_bytes be n w) = n"
  by (simp add: host_bytes_def)

lemma host_word_host_bytes [simp]:
  "LENGTH('a::len) = 8 * n \<Longrightarrow> host_word be (host_bytes be n w) = (w :: 'a word)"
  by (simp add: host_word_def host_bytes_def le_word_le_bytes)

lemma host_bytes_host_word [simp]:
  "LENGTH('a::len) = 8 * n \<Longrightarrow> length bs = n \<Longrightarrow> host_bytes be n (host_word be bs :: 'a word) = bs"
  by (simp add: host_word_def host_bytes_def le_bytes_le_word)

lemma rev_host_bytes: "rev (host_bytes be n w) = host_bytes (\<not> be) n w"
  by (simp add: host_bytes_def)

lemma le_bytes_Suc: "le_bytes (Suc k) w = le_bytes k w @ [ucast (drop_bit (8 * k) w)]"
  by (simp add: le_bytes_def)

lemma ucast_byte_AND:
  assumes "8 \<le> LENGTH('a::len)"
  shows "(ucast (ucast v :: byte) :: 'a word) = v AND 0xFF"
proof -
  have "(ucast (ucast v :: byte) :: 'a word) = take_bit 8 v"
    using assms by (auto intro!: bit_word_eqI simp: bit_simps)
  then show ?thesis by (simp add: take_bit_eq_mask mask_eq_exp_minus_1)
qed

lemma memcpy_outside: "x < dst \<or> dst + n \<le> x \<Longrightarrow> memcpy m dst src n x = m x"
  by (simp add: memcpy_def)

lemma bytes_at_memcpy [simp]: "bytes_at (memcpy m dst src n) dst n = bytes_at m src n"
  by (simp add: memcpy_def)

lemma bytes_at_concat:
  "bytes_at m a (n * k) = concat (map (\<lambda>i. bytes_at m (a + i * k) k) [0..<n])"
proof (induction n)
  case (Suc n)
  have "bytes_at m a (Suc n * k) = bytes_at m a (n * k + k)" by (simp add: add.commute)
  then show ?case by (simp only: bytes_at_add Suc.IH) simp
qed simp

lemma bytes_at_chunks:
  "(\<And>i. i < n \<Longrightarrow> bytes_at m (a + i * k) k = bytes_at m' (a' + i * k) k) \<Longrightarrow>
     bytes_at m a (n * k) = bytes_at m' a' (n * k)"
  unfolding bytes_at_concat by (intro arg_cong [where f = concat] map_cong) auto

end
