(* ===== verification/Elf_Types.thy ===== *)
theory Elf_Types
  imports Prelude
begin

text \<open>
  The data of the library: the enumerations of \<open>libelf.h\<close>, the constants and the on-disk
  structures of \<open>elfdefinitions.h\<close>, and the object representation of every structure.
  The 32-bit and the 64-bit variant of a structure are one record whose type parameter is
  the type of the members that differ in width.  The members of every structure are
  naturally aligned, so that its object representation is the concatenation of its members
  in declaration order, followed (for the Move entries only) by trailing padding;
  \<open>X_of\<close> and \<open>X_bytes\<close> read and build it for a host of the given byte order.
\<close>

section \<open>Constants and enumerations of libelf.h and elfdefinitions.h\<close>

abbreviation (input) EV_NONE :: nat where "EV_NONE \<equiv> 0"
abbreviation (input) EV_CURRENT :: nat where "EV_CURRENT \<equiv> 1"

abbreviation (input) ELFCLASSNONE :: int where "ELFCLASSNONE \<equiv> 0"
abbreviation (input) ELFCLASS32 :: int where "ELFCLASS32 \<equiv> 1"
abbreviation (input) ELFCLASS64 :: int where "ELFCLASS64 \<equiv> 2"

abbreviation (input) ELFDATANONE :: nat where "ELFDATANONE \<equiv> 0"
abbreviation (input) ELFDATA2LSB :: nat where "ELFDATA2LSB \<equiv> 1"
abbreviation (input) ELFDATA2MSB :: nat where "ELFDATA2MSB \<equiv> 2"

abbreviation (input) EI_CLASS :: nat where "EI_CLASS \<equiv> 4"
abbreviation (input) EI_DATA :: nat where "EI_DATA \<equiv> 5"
abbreviation (input) EI_VERSION :: nat where "EI_VERSION \<equiv> 6"
abbreviation (input) EI_NIDENT :: nat where "EI_NIDENT \<equiv> 16"

abbreviation (input) SHN_UNDEF :: nat where "SHN_UNDEF \<equiv> 0"
abbreviation (input) SHN_LORESERVE :: nat where "SHN_LORESERVE \<equiv> 0xFF00"
abbreviation (input) SHN_XINDEX :: nat where "SHN_XINDEX \<equiv> 0xFFFF"
abbreviation (input) PN_XNUM :: nat where "PN_XNUM \<equiv> 0xFFFF"

datatype Elf_Kind = ELF_K_NONE | ELF_K_AR | ELF_K_COFF | ELF_K_ELF | ELF_K_NUM

text \<open>
  The data types of the ELF(3) API in the order of the enumeration.  \<open>ELF_T_NUM\<close> stands for
  every value outside of the range \<open>ELF_T_FIRST\<close> to \<open>ELF_T_LAST\<close>.
\<close>

datatype Elf_Type =
    ELF_T_ADDR | ELF_T_BYTE | ELF_T_CAP | ELF_T_DYN | ELF_T_EHDR | ELF_T_HALF
  | ELF_T_LWORD | ELF_T_MOVE | ELF_T_MOVEP | ELF_T_NOTE | ELF_T_OFF | ELF_T_PHDR
  | ELF_T_REL | ELF_T_RELA | ELF_T_SHDR | ELF_T_SWORD | ELF_T_SXWORD | ELF_T_SYMINFO
  | ELF_T_SYM | ELF_T_VDEF | ELF_T_VNEED | ELF_T_WORD | ELF_T_XWORD | ELF_T_GNUHASH
  | ELF_T_NUM

datatype Elf_Cmd =
    ELF_C_NULL | ELF_C_CLR | ELF_C_FDDONE | ELF_C_FDREAD | ELF_C_RDWR | ELF_C_READ
  | ELF_C_SET | ELF_C_WRITE | ELF_C_NUM

datatype Elf_Error =
    ELF_E_NONE | ELF_E_ARCHIVE | ELF_E_ARGUMENT | ELF_E_CLASS | ELF_E_DATA | ELF_E_HEADER
  | ELF_E_IO | ELF_E_LAYOUT | ELF_E_MODE | ELF_E_RANGE | ELF_E_RESOURCE | ELF_E_SECTION
  | ELF_E_SEQUENCE | ELF_E_UNIMPL | ELF_E_VERSION | ELF_E_NUM

datatype direction = ELF_TOFILE | ELF_TOMEMORY

abbreviation (input) SHT_NULL :: "32 word" where "SHT_NULL \<equiv> 0"
abbreviation (input) SHT_PROGBITS :: "32 word" where "SHT_PROGBITS \<equiv> 1"
abbreviation (input) SHT_SYMTAB :: "32 word" where "SHT_SYMTAB \<equiv> 2"
abbreviation (input) SHT_STRTAB :: "32 word" where "SHT_STRTAB \<equiv> 3"
abbreviation (input) SHT_RELA :: "32 word" where "SHT_RELA \<equiv> 4"
abbreviation (input) SHT_HASH :: "32 word" where "SHT_HASH \<equiv> 5"
abbreviation (input) SHT_DYNAMIC :: "32 word" where "SHT_DYNAMIC \<equiv> 6"
abbreviation (input) SHT_NOTE :: "32 word" where "SHT_NOTE \<equiv> 7"
abbreviation (input) SHT_NOBITS :: "32 word" where "SHT_NOBITS \<equiv> 8"
abbreviation (input) SHT_REL :: "32 word" where "SHT_REL \<equiv> 9"
abbreviation (input) SHT_DYNSYM :: "32 word" where "SHT_DYNSYM \<equiv> 11"
abbreviation (input) SHT_INIT_ARRAY :: "32 word" where "SHT_INIT_ARRAY \<equiv> 14"
abbreviation (input) SHT_FINI_ARRAY :: "32 word" where "SHT_FINI_ARRAY \<equiv> 15"
abbreviation (input) SHT_PREINIT_ARRAY :: "32 word" where "SHT_PREINIT_ARRAY \<equiv> 16"
abbreviation (input) SHT_GROUP :: "32 word" where "SHT_GROUP \<equiv> 17"
abbreviation (input) SHT_SYMTAB_SHNDX :: "32 word" where "SHT_SYMTAB_SHNDX \<equiv> 18"
abbreviation (input) SHT_SUNW_dof :: "32 word" where "SHT_SUNW_dof \<equiv> 0x6FFFFFF4"
abbreviation (input) SHT_GNU_HASH :: "32 word" where "SHT_GNU_HASH \<equiv> 0x6FFFFFF6"
abbreviation (input) SHT_GNU_LIBLIST :: "32 word" where "SHT_GNU_LIBLIST \<equiv> 0x6FFFFFF7"
abbreviation (input) SHT_SUNW_move :: "32 word" where "SHT_SUNW_move \<equiv> 0x6FFFFFFA"
abbreviation (input) SHT_SUNW_syminfo :: "32 word" where "SHT_SUNW_syminfo \<equiv> 0x6FFFFFFC"
abbreviation (input) SHT_SUNW_verdef :: "32 word" where "SHT_SUNW_verdef \<equiv> 0x6FFFFFFD"
abbreviation (input) SHT_SUNW_verneed :: "32 word" where "SHT_SUNW_verneed \<equiv> 0x6FFFFFFE"
abbreviation (input) SHT_SUNW_versym :: "32 word" where "SHT_SUNW_versym \<equiv> 0x6FFFFFFF"
abbreviation (input) SHT_SUNW_cap :: "32 word" where "SHT_SUNW_cap \<equiv> 0x6FFFFFF5"

section \<open>The ELF structures\<close>

record 'w Elf_Cap =
  c_tag :: 'w
  c_val :: 'w

record 'w Elf_Dyn =
  d_tag :: 'w
  d_ptr :: 'w

record 'w Elf_Ehdr =
  e_ident :: "byte list"
  e_type :: "16 word"
  e_machine :: "16 word"
  e_version :: "32 word"
  e_entry :: 'w
  e_phoff :: 'w
  e_shoff :: 'w
  e_flags :: "32 word"
  e_ehsize :: "16 word"
  e_phentsize :: "16 word"
  e_phnum :: "16 word"
  e_shentsize :: "16 word"
  e_shnum :: "16 word"
  e_shstrndx :: "16 word"

record 'w Elf_Move =
  m_value :: "64 word"
  m_info :: 'w
  m_poffset :: 'w
  m_repeat :: "16 word"
  m_stride :: "16 word"

record 'w Elf_Phdr =
  p_type :: "32 word"
  p_offset :: 'w
  p_vaddr :: 'w
  p_paddr :: 'w
  p_filesz :: 'w
  p_memsz :: 'w
  p_flags :: "32 word"
  p_align :: 'w

record 'w Elf_Rel =
  r_offset :: 'w
  r_info :: 'w

record 'w Elf_Rela = "'w Elf_Rel" +
  r_addend :: 'w

record 'w Elf_Shdr =
  sh_name :: "32 word"
  sh_type :: "32 word"
  sh_flags :: 'w
  sh_addr :: 'w
  sh_offset :: 'w
  sh_size :: 'w
  sh_link :: "32 word"
  sh_info :: "32 word"
  sh_addralign :: 'w
  sh_entsize :: 'w

record Elf_Syminfo =
  si_boundto :: "16 word"
  si_flags :: "16 word"

record 'w Elf_Sym =
  st_name :: "32 word"
  st_value :: 'w
  st_size :: 'w
  st_info :: "8 word"
  st_other :: "8 word"
  st_shndx :: "16 word"

record Elf_Verdef =
  vd_version :: "16 word"
  vd_flags :: "16 word"
  vd_ndx :: "16 word"
  vd_cnt :: "16 word"
  vd_hash :: "32 word"
  vd_aux :: "32 word"
  vd_next :: "32 word"

record Elf_Verdaux =
  vda_name :: "32 word"
  vda_next :: "32 word"

record Elf_Verneed =
  vn_version :: "16 word"
  vn_cnt :: "16 word"
  vn_file :: "32 word"
  vn_aux :: "32 word"
  vn_next :: "32 word"

record Elf_Vernaux =
  vna_hash :: "32 word"
  vna_flags :: "16 word"
  vna_other :: "16 word"
  vna_name :: "32 word"
  vna_next :: "32 word"

record Elf_Note =
  n_namesz :: "32 word"
  n_descsz :: "32 word"
  n_type :: "32 word"

record Elf_GNU_Hash_Header =
  gh_nbuckets :: "32 word"
  gh_symndx :: "32 word"
  gh_maskwords :: "32 word"
  gh_shift2 :: "32 word"

type_synonym Elf32_Cap = "32 word Elf_Cap"
type_synonym Elf64_Cap = "64 word Elf_Cap"
type_synonym Elf32_Dyn = "32 word Elf_Dyn"
type_synonym Elf64_Dyn = "64 word Elf_Dyn"
type_synonym Elf32_Ehdr = "32 word Elf_Ehdr"
type_synonym Elf64_Ehdr = "64 word Elf_Ehdr"
type_synonym Elf32_Move = "32 word Elf_Move"
type_synonym Elf64_Move = "64 word Elf_Move"
type_synonym Elf32_Phdr = "32 word Elf_Phdr"
type_synonym Elf64_Phdr = "64 word Elf_Phdr"
type_synonym Elf32_Rel = "32 word Elf_Rel"
type_synonym Elf64_Rel = "64 word Elf_Rel"
type_synonym Elf32_Rela = "32 word Elf_Rela"
type_synonym Elf64_Rela = "64 word Elf_Rela"
type_synonym Elf32_Shdr = "32 word Elf_Shdr"
type_synonym Elf64_Shdr = "64 word Elf_Shdr"
type_synonym Elf32_Syminfo = Elf_Syminfo
type_synonym Elf64_Syminfo = Elf_Syminfo
type_synonym Elf32_Sym = "32 word Elf_Sym"
type_synonym Elf64_Sym = "64 word Elf_Sym"
type_synonym Elf32_Verdef = Elf_Verdef
type_synonym Elf64_Verdef = Elf_Verdef
type_synonym Elf32_Verdaux = Elf_Verdaux
type_synonym Elf64_Verdaux = Elf_Verdaux
type_synonym Elf32_Verneed = Elf_Verneed
type_synonym Elf64_Verneed = Elf_Verneed
type_synonym Elf32_Vernaux = Elf_Vernaux
type_synonym Elf64_Vernaux = Elf_Vernaux

section \<open>Object representations\<close>

definition Elf32_Cap_of :: "bool \<Rightarrow> byte list \<Rightarrow> Elf32_Cap" where [codec_defs]:
  "Elf32_Cap_of be bs =
    \<lparr>c_tag = host_word be (take 4 bs),
     c_val = host_word be (take 4 (drop 4 bs))\<rparr>"

definition Elf32_Cap_bytes :: "bool \<Rightarrow> Elf32_Cap \<Rightarrow> byte list" where [codec_defs]:
  "Elf32_Cap_bytes be t =
     host_bytes be 4 (c_tag t) @
     host_bytes be 4 (c_val t)"

definition Elf64_Cap_of :: "bool \<Rightarrow> byte list \<Rightarrow> Elf64_Cap" where [codec_defs]:
  "Elf64_Cap_of be bs =
    \<lparr>c_tag = host_word be (take 8 bs),
     c_val = host_word be (take 8 (drop 8 bs))\<rparr>"

definition Elf64_Cap_bytes :: "bool \<Rightarrow> Elf64_Cap \<Rightarrow> byte list" where [codec_defs]:
  "Elf64_Cap_bytes be t =
     host_bytes be 8 (c_tag t) @
     host_bytes be 8 (c_val t)"

definition Elf32_Dyn_of :: "bool \<Rightarrow> byte list \<Rightarrow> Elf32_Dyn" where [codec_defs]:
  "Elf32_Dyn_of be bs =
    \<lparr>d_tag = host_word be (take 4 bs),
     d_ptr = host_word be (take 4 (drop 4 bs))\<rparr>"

definition Elf32_Dyn_bytes :: "bool \<Rightarrow> Elf32_Dyn \<Rightarrow> byte list" where [codec_defs]:
  "Elf32_Dyn_bytes be t =
     host_bytes be 4 (d_tag t) @
     host_bytes be 4 (d_ptr t)"

definition Elf64_Dyn_of :: "bool \<Rightarrow> byte list \<Rightarrow> Elf64_Dyn" where [codec_defs]:
  "Elf64_Dyn_of be bs =
    \<lparr>d_tag = host_word be (take 8 bs),
     d_ptr = host_word be (take 8 (drop 8 bs))\<rparr>"

definition Elf64_Dyn_bytes :: "bool \<Rightarrow> Elf64_Dyn \<Rightarrow> byte list" where [codec_defs]:
  "Elf64_Dyn_bytes be t =
     host_bytes be 8 (d_tag t) @
     host_bytes be 8 (d_ptr t)"

definition Elf32_Ehdr_of :: "bool \<Rightarrow> byte list \<Rightarrow> Elf32_Ehdr" where [codec_defs]:
  "Elf32_Ehdr_of be bs =
    \<lparr>e_ident = take 16 bs,
     e_type = host_word be (take 2 (drop 16 bs)),
     e_machine = host_word be (take 2 (drop 18 bs)),
     e_version = host_word be (take 4 (drop 20 bs)),
     e_entry = host_word be (take 4 (drop 24 bs)),
     e_phoff = host_word be (take 4 (drop 28 bs)),
     e_shoff = host_word be (take 4 (drop 32 bs)),
     e_flags = host_word be (take 4 (drop 36 bs)),
     e_ehsize = host_word be (take 2 (drop 40 bs)),
     e_phentsize = host_word be (take 2 (drop 42 bs)),
     e_phnum = host_word be (take 2 (drop 44 bs)),
     e_shentsize = host_word be (take 2 (drop 46 bs)),
     e_shnum = host_word be (take 2 (drop 48 bs)),
     e_shstrndx = host_word be (take 2 (drop 50 bs))\<rparr>"

definition Elf32_Ehdr_bytes :: "bool \<Rightarrow> Elf32_Ehdr \<Rightarrow> byte list" where [codec_defs]:
  "Elf32_Ehdr_bytes be t =
     e_ident t @
     host_bytes be 2 (e_type t) @
     host_bytes be 2 (e_machine t) @
     host_bytes be 4 (e_version t) @
     host_bytes be 4 (e_entry t) @
     host_bytes be 4 (e_phoff t) @
     host_bytes be 4 (e_shoff t) @
     host_bytes be 4 (e_flags t) @
     host_bytes be 2 (e_ehsize t) @
     host_bytes be 2 (e_phentsize t) @
     host_bytes be 2 (e_phnum t) @
     host_bytes be 2 (e_shentsize t) @
     host_bytes be 2 (e_shnum t) @
     host_bytes be 2 (e_shstrndx t)"

definition Elf64_Ehdr_of :: "bool \<Rightarrow> byte list \<Rightarrow> Elf64_Ehdr" where [codec_defs]:
  "Elf64_Ehdr_of be bs =
    \<lparr>e_ident = take 16 bs,
     e_type = host_word be (take 2 (drop 16 bs)),
     e_machine = host_word be (take 2 (drop 18 bs)),
     e_version = host_word be (take 4 (drop 20 bs)),
     e_entry = host_word be (take 8 (drop 24 bs)),
     e_phoff = host_word be (take 8 (drop 32 bs)),
     e_shoff = host_word be (take 8 (drop 40 bs)),
     e_flags = host_word be (take 4 (drop 48 bs)),
     e_ehsize = host_word be (take 2 (drop 52 bs)),
     e_phentsize = host_word be (take 2 (drop 54 bs)),
     e_phnum = host_word be (take 2 (drop 56 bs)),
     e_shentsize = host_word be (take 2 (drop 58 bs)),
     e_shnum = host_word be (take 2 (drop 60 bs)),
     e_shstrndx = host_word be (take 2 (drop 62 bs))\<rparr>"

definition Elf64_Ehdr_bytes :: "bool \<Rightarrow> Elf64_Ehdr \<Rightarrow> byte list" where [codec_defs]:
  "Elf64_Ehdr_bytes be t =
     e_ident t @
     host_bytes be 2 (e_type t) @
     host_bytes be 2 (e_machine t) @
     host_bytes be 4 (e_version t) @
     host_bytes be 8 (e_entry t) @
     host_bytes be 8 (e_phoff t) @
     host_bytes be 8 (e_shoff t) @
     host_bytes be 4 (e_flags t) @
     host_bytes be 2 (e_ehsize t) @
     host_bytes be 2 (e_phentsize t) @
     host_bytes be 2 (e_phnum t) @
     host_bytes be 2 (e_shentsize t) @
     host_bytes be 2 (e_shnum t) @
     host_bytes be 2 (e_shstrndx t)"

definition Elf32_Move_of :: "bool \<Rightarrow> byte list \<Rightarrow> Elf32_Move" where [codec_defs]:
  "Elf32_Move_of be bs =
    \<lparr>m_value = host_word be (take 8 bs),
     m_info = host_word be (take 4 (drop 8 bs)),
     m_poffset = host_word be (take 4 (drop 12 bs)),
     m_repeat = host_word be (take 2 (drop 16 bs)),
     m_stride = host_word be (take 2 (drop 18 bs))\<rparr>"

definition Elf32_Move_bytes :: "bool \<Rightarrow> Elf32_Move \<Rightarrow> byte list" where [codec_defs]:
  "Elf32_Move_bytes be t =
     host_bytes be 8 (m_value t) @
     host_bytes be 4 (m_info t) @
     host_bytes be 4 (m_poffset t) @
     host_bytes be 2 (m_repeat t) @
     host_bytes be 2 (m_stride t)"

definition Elf64_Move_of :: "bool \<Rightarrow> byte list \<Rightarrow> Elf64_Move" where [codec_defs]:
  "Elf64_Move_of be bs =
    \<lparr>m_value = host_word be (take 8 bs),
     m_info = host_word be (take 8 (drop 8 bs)),
     m_poffset = host_word be (take 8 (drop 16 bs)),
     m_repeat = host_word be (take 2 (drop 24 bs)),
     m_stride = host_word be (take 2 (drop 26 bs))\<rparr>"

definition Elf64_Move_bytes :: "bool \<Rightarrow> Elf64_Move \<Rightarrow> byte list" where [codec_defs]:
  "Elf64_Move_bytes be t =
     host_bytes be 8 (m_value t) @
     host_bytes be 8 (m_info t) @
     host_bytes be 8 (m_poffset t) @
     host_bytes be 2 (m_repeat t) @
     host_bytes be 2 (m_stride t)"

definition Elf32_Phdr_of :: "bool \<Rightarrow> byte list \<Rightarrow> Elf32_Phdr" where [codec_defs]:
  "Elf32_Phdr_of be bs =
    \<lparr>p_type = host_word be (take 4 bs),
     p_offset = host_word be (take 4 (drop 4 bs)),
     p_vaddr = host_word be (take 4 (drop 8 bs)),
     p_paddr = host_word be (take 4 (drop 12 bs)),
     p_filesz = host_word be (take 4 (drop 16 bs)),
     p_memsz = host_word be (take 4 (drop 20 bs)),
     p_flags = host_word be (take 4 (drop 24 bs)),
     p_align = host_word be (take 4 (drop 28 bs))\<rparr>"

definition Elf32_Phdr_bytes :: "bool \<Rightarrow> Elf32_Phdr \<Rightarrow> byte list" where [codec_defs]:
  "Elf32_Phdr_bytes be t =
     host_bytes be 4 (p_type t) @
     host_bytes be 4 (p_offset t) @
     host_bytes be 4 (p_vaddr t) @
     host_bytes be 4 (p_paddr t) @
     host_bytes be 4 (p_filesz t) @
     host_bytes be 4 (p_memsz t) @
     host_bytes be 4 (p_flags t) @
     host_bytes be 4 (p_align t)"

definition Elf64_Phdr_of :: "bool \<Rightarrow> byte list \<Rightarrow> Elf64_Phdr" where [codec_defs]:
  "Elf64_Phdr_of be bs =
    \<lparr>p_type = host_word be (take 4 bs),
     p_offset = host_word be (take 8 (drop 8 bs)),
     p_vaddr = host_word be (take 8 (drop 16 bs)),
     p_paddr = host_word be (take 8 (drop 24 bs)),
     p_filesz = host_word be (take 8 (drop 32 bs)),
     p_memsz = host_word be (take 8 (drop 40 bs)),
     p_flags = host_word be (take 4 (drop 4 bs)),
     p_align = host_word be (take 8 (drop 48 bs))\<rparr>"

definition Elf64_Phdr_bytes :: "bool \<Rightarrow> Elf64_Phdr \<Rightarrow> byte list" where [codec_defs]:
  "Elf64_Phdr_bytes be t =
     host_bytes be 4 (p_type t) @
     host_bytes be 4 (p_flags t) @
     host_bytes be 8 (p_offset t) @
     host_bytes be 8 (p_vaddr t) @
     host_bytes be 8 (p_paddr t) @
     host_bytes be 8 (p_filesz t) @
     host_bytes be 8 (p_memsz t) @
     host_bytes be 8 (p_align t)"

definition Elf32_Rel_of :: "bool \<Rightarrow> byte list \<Rightarrow> Elf32_Rel" where [codec_defs]:
  "Elf32_Rel_of be bs =
    \<lparr>r_offset = host_word be (take 4 bs),
     r_info = host_word be (take 4 (drop 4 bs))\<rparr>"

definition Elf32_Rel_bytes :: "bool \<Rightarrow> Elf32_Rel \<Rightarrow> byte list" where [codec_defs]:
  "Elf32_Rel_bytes be t =
     host_bytes be 4 (r_offset t) @
     host_bytes be 4 (r_info t)"

definition Elf64_Rel_of :: "bool \<Rightarrow> byte list \<Rightarrow> Elf64_Rel" where [codec_defs]:
  "Elf64_Rel_of be bs =
    \<lparr>r_offset = host_word be (take 8 bs),
     r_info = host_word be (take 8 (drop 8 bs))\<rparr>"

definition Elf64_Rel_bytes :: "bool \<Rightarrow> Elf64_Rel \<Rightarrow> byte list" where [codec_defs]:
  "Elf64_Rel_bytes be t =
     host_bytes be 8 (r_offset t) @
     host_bytes be 8 (r_info t)"

definition Elf32_Rela_of :: "bool \<Rightarrow> byte list \<Rightarrow> Elf32_Rela" where [codec_defs]:
  "Elf32_Rela_of be bs =
    \<lparr>r_offset = host_word be (take 4 bs),
     r_info = host_word be (take 4 (drop 4 bs)),
     r_addend = host_word be (take 4 (drop 8 bs))\<rparr>"

definition Elf32_Rela_bytes :: "bool \<Rightarrow> Elf32_Rela \<Rightarrow> byte list" where [codec_defs]:
  "Elf32_Rela_bytes be t =
     host_bytes be 4 (r_offset t) @
     host_bytes be 4 (r_info t) @
     host_bytes be 4 (r_addend t)"

definition Elf64_Rela_of :: "bool \<Rightarrow> byte list \<Rightarrow> Elf64_Rela" where [codec_defs]:
  "Elf64_Rela_of be bs =
    \<lparr>r_offset = host_word be (take 8 bs),
     r_info = host_word be (take 8 (drop 8 bs)),
     r_addend = host_word be (take 8 (drop 16 bs))\<rparr>"

definition Elf64_Rela_bytes :: "bool \<Rightarrow> Elf64_Rela \<Rightarrow> byte list" where [codec_defs]:
  "Elf64_Rela_bytes be t =
     host_bytes be 8 (r_offset t) @
     host_bytes be 8 (r_info t) @
     host_bytes be 8 (r_addend t)"

definition Elf32_Shdr_of :: "bool \<Rightarrow> byte list \<Rightarrow> Elf32_Shdr" where [codec_defs]:
  "Elf32_Shdr_of be bs =
    \<lparr>sh_name = host_word be (take 4 bs),
     sh_type = host_word be (take 4 (drop 4 bs)),
     sh_flags = host_word be (take 4 (drop 8 bs)),
     sh_addr = host_word be (take 4 (drop 12 bs)),
     sh_offset = host_word be (take 4 (drop 16 bs)),
     sh_size = host_word be (take 4 (drop 20 bs)),
     sh_link = host_word be (take 4 (drop 24 bs)),
     sh_info = host_word be (take 4 (drop 28 bs)),
     sh_addralign = host_word be (take 4 (drop 32 bs)),
     sh_entsize = host_word be (take 4 (drop 36 bs))\<rparr>"

definition Elf32_Shdr_bytes :: "bool \<Rightarrow> Elf32_Shdr \<Rightarrow> byte list" where [codec_defs]:
  "Elf32_Shdr_bytes be t =
     host_bytes be 4 (sh_name t) @
     host_bytes be 4 (sh_type t) @
     host_bytes be 4 (sh_flags t) @
     host_bytes be 4 (sh_addr t) @
     host_bytes be 4 (sh_offset t) @
     host_bytes be 4 (sh_size t) @
     host_bytes be 4 (sh_link t) @
     host_bytes be 4 (sh_info t) @
     host_bytes be 4 (sh_addralign t) @
     host_bytes be 4 (sh_entsize t)"

definition Elf64_Shdr_of :: "bool \<Rightarrow> byte list \<Rightarrow> Elf64_Shdr" where [codec_defs]:
  "Elf64_Shdr_of be bs =
    \<lparr>sh_name = host_word be (take 4 bs),
     sh_type = host_word be (take 4 (drop 4 bs)),
     sh_flags = host_word be (take 8 (drop 8 bs)),
     sh_addr = host_word be (take 8 (drop 16 bs)),
     sh_offset = host_word be (take 8 (drop 24 bs)),
     sh_size = host_word be (take 8 (drop 32 bs)),
     sh_link = host_word be (take 4 (drop 40 bs)),
     sh_info = host_word be (take 4 (drop 44 bs)),
     sh_addralign = host_word be (take 8 (drop 48 bs)),
     sh_entsize = host_word be (take 8 (drop 56 bs))\<rparr>"

definition Elf64_Shdr_bytes :: "bool \<Rightarrow> Elf64_Shdr \<Rightarrow> byte list" where [codec_defs]:
  "Elf64_Shdr_bytes be t =
     host_bytes be 4 (sh_name t) @
     host_bytes be 4 (sh_type t) @
     host_bytes be 8 (sh_flags t) @
     host_bytes be 8 (sh_addr t) @
     host_bytes be 8 (sh_offset t) @
     host_bytes be 8 (sh_size t) @
     host_bytes be 4 (sh_link t) @
     host_bytes be 4 (sh_info t) @
     host_bytes be 8 (sh_addralign t) @
     host_bytes be 8 (sh_entsize t)"

definition Elf32_Syminfo_of :: "bool \<Rightarrow> byte list \<Rightarrow> Elf32_Syminfo" where [codec_defs]:
  "Elf32_Syminfo_of be bs =
    \<lparr>si_boundto = host_word be (take 2 bs),
     si_flags = host_word be (take 2 (drop 2 bs))\<rparr>"

definition Elf32_Syminfo_bytes :: "bool \<Rightarrow> Elf32_Syminfo \<Rightarrow> byte list" where [codec_defs]:
  "Elf32_Syminfo_bytes be t =
     host_bytes be 2 (si_boundto t) @
     host_bytes be 2 (si_flags t)"

definition Elf64_Syminfo_of :: "bool \<Rightarrow> byte list \<Rightarrow> Elf64_Syminfo" where [codec_defs]:
  "Elf64_Syminfo_of be bs =
    \<lparr>si_boundto = host_word be (take 2 bs),
     si_flags = host_word be (take 2 (drop 2 bs))\<rparr>"

definition Elf64_Syminfo_bytes :: "bool \<Rightarrow> Elf64_Syminfo \<Rightarrow> byte list" where [codec_defs]:
  "Elf64_Syminfo_bytes be t =
     host_bytes be 2 (si_boundto t) @
     host_bytes be 2 (si_flags t)"

definition Elf32_Sym_of :: "bool \<Rightarrow> byte list \<Rightarrow> Elf32_Sym" where [codec_defs]:
  "Elf32_Sym_of be bs =
    \<lparr>st_name = host_word be (take 4 bs),
     st_value = host_word be (take 4 (drop 4 bs)),
     st_size = host_word be (take 4 (drop 8 bs)),
     st_info = bs ! 12,
     st_other = bs ! 13,
     st_shndx = host_word be (take 2 (drop 14 bs))\<rparr>"

definition Elf32_Sym_bytes :: "bool \<Rightarrow> Elf32_Sym \<Rightarrow> byte list" where [codec_defs]:
  "Elf32_Sym_bytes be t =
     host_bytes be 4 (st_name t) @
     host_bytes be 4 (st_value t) @
     host_bytes be 4 (st_size t) @
     [st_info t] @
     [st_other t] @
     host_bytes be 2 (st_shndx t)"

definition Elf64_Sym_of :: "bool \<Rightarrow> byte list \<Rightarrow> Elf64_Sym" where [codec_defs]:
  "Elf64_Sym_of be bs =
    \<lparr>st_name = host_word be (take 4 bs),
     st_value = host_word be (take 8 (drop 8 bs)),
     st_size = host_word be (take 8 (drop 16 bs)),
     st_info = bs ! 4,
     st_other = bs ! 5,
     st_shndx = host_word be (take 2 (drop 6 bs))\<rparr>"

definition Elf64_Sym_bytes :: "bool \<Rightarrow> Elf64_Sym \<Rightarrow> byte list" where [codec_defs]:
  "Elf64_Sym_bytes be t =
     host_bytes be 4 (st_name t) @
     [st_info t] @
     [st_other t] @
     host_bytes be 2 (st_shndx t) @
     host_bytes be 8 (st_value t) @
     host_bytes be 8 (st_size t)"

definition Elf32_Verdef_of :: "bool \<Rightarrow> byte list \<Rightarrow> Elf32_Verdef" where [codec_defs]:
  "Elf32_Verdef_of be bs =
    \<lparr>vd_version = host_word be (take 2 bs),
     vd_flags = host_word be (take 2 (drop 2 bs)),
     vd_ndx = host_word be (take 2 (drop 4 bs)),
     vd_cnt = host_word be (take 2 (drop 6 bs)),
     vd_hash = host_word be (take 4 (drop 8 bs)),
     vd_aux = host_word be (take 4 (drop 12 bs)),
     vd_next = host_word be (take 4 (drop 16 bs))\<rparr>"

definition Elf32_Verdef_bytes :: "bool \<Rightarrow> Elf32_Verdef \<Rightarrow> byte list" where [codec_defs]:
  "Elf32_Verdef_bytes be t =
     host_bytes be 2 (vd_version t) @
     host_bytes be 2 (vd_flags t) @
     host_bytes be 2 (vd_ndx t) @
     host_bytes be 2 (vd_cnt t) @
     host_bytes be 4 (vd_hash t) @
     host_bytes be 4 (vd_aux t) @
     host_bytes be 4 (vd_next t)"

definition Elf64_Verdef_of :: "bool \<Rightarrow> byte list \<Rightarrow> Elf64_Verdef" where [codec_defs]:
  "Elf64_Verdef_of be bs =
    \<lparr>vd_version = host_word be (take 2 bs),
     vd_flags = host_word be (take 2 (drop 2 bs)),
     vd_ndx = host_word be (take 2 (drop 4 bs)),
     vd_cnt = host_word be (take 2 (drop 6 bs)),
     vd_hash = host_word be (take 4 (drop 8 bs)),
     vd_aux = host_word be (take 4 (drop 12 bs)),
     vd_next = host_word be (take 4 (drop 16 bs))\<rparr>"

definition Elf64_Verdef_bytes :: "bool \<Rightarrow> Elf64_Verdef \<Rightarrow> byte list" where [codec_defs]:
  "Elf64_Verdef_bytes be t =
     host_bytes be 2 (vd_version t) @
     host_bytes be 2 (vd_flags t) @
     host_bytes be 2 (vd_ndx t) @
     host_bytes be 2 (vd_cnt t) @
     host_bytes be 4 (vd_hash t) @
     host_bytes be 4 (vd_aux t) @
     host_bytes be 4 (vd_next t)"

definition Elf32_Verdaux_of :: "bool \<Rightarrow> byte list \<Rightarrow> Elf32_Verdaux" where [codec_defs]:
  "Elf32_Verdaux_of be bs =
    \<lparr>vda_name = host_word be (take 4 bs),
     vda_next = host_word be (take 4 (drop 4 bs))\<rparr>"

definition Elf32_Verdaux_bytes :: "bool \<Rightarrow> Elf32_Verdaux \<Rightarrow> byte list" where [codec_defs]:
  "Elf32_Verdaux_bytes be t =
     host_bytes be 4 (vda_name t) @
     host_bytes be 4 (vda_next t)"

definition Elf64_Verdaux_of :: "bool \<Rightarrow> byte list \<Rightarrow> Elf64_Verdaux" where [codec_defs]:
  "Elf64_Verdaux_of be bs =
    \<lparr>vda_name = host_word be (take 4 bs),
     vda_next = host_word be (take 4 (drop 4 bs))\<rparr>"

definition Elf64_Verdaux_bytes :: "bool \<Rightarrow> Elf64_Verdaux \<Rightarrow> byte list" where [codec_defs]:
  "Elf64_Verdaux_bytes be t =
     host_bytes be 4 (vda_name t) @
     host_bytes be 4 (vda_next t)"

definition Elf32_Verneed_of :: "bool \<Rightarrow> byte list \<Rightarrow> Elf32_Verneed" where [codec_defs]:
  "Elf32_Verneed_of be bs =
    \<lparr>vn_version = host_word be (take 2 bs),
     vn_cnt = host_word be (take 2 (drop 2 bs)),
     vn_file = host_word be (take 4 (drop 4 bs)),
     vn_aux = host_word be (take 4 (drop 8 bs)),
     vn_next = host_word be (take 4 (drop 12 bs))\<rparr>"

definition Elf32_Verneed_bytes :: "bool \<Rightarrow> Elf32_Verneed \<Rightarrow> byte list" where [codec_defs]:
  "Elf32_Verneed_bytes be t =
     host_bytes be 2 (vn_version t) @
     host_bytes be 2 (vn_cnt t) @
     host_bytes be 4 (vn_file t) @
     host_bytes be 4 (vn_aux t) @
     host_bytes be 4 (vn_next t)"

definition Elf64_Verneed_of :: "bool \<Rightarrow> byte list \<Rightarrow> Elf64_Verneed" where [codec_defs]:
  "Elf64_Verneed_of be bs =
    \<lparr>vn_version = host_word be (take 2 bs),
     vn_cnt = host_word be (take 2 (drop 2 bs)),
     vn_file = host_word be (take 4 (drop 4 bs)),
     vn_aux = host_word be (take 4 (drop 8 bs)),
     vn_next = host_word be (take 4 (drop 12 bs))\<rparr>"

definition Elf64_Verneed_bytes :: "bool \<Rightarrow> Elf64_Verneed \<Rightarrow> byte list" where [codec_defs]:
  "Elf64_Verneed_bytes be t =
     host_bytes be 2 (vn_version t) @
     host_bytes be 2 (vn_cnt t) @
     host_bytes be 4 (vn_file t) @
     host_bytes be 4 (vn_aux t) @
     host_bytes be 4 (vn_next t)"

definition Elf32_Vernaux_of :: "bool \<Rightarrow> byte list \<Rightarrow> Elf32_Vernaux" where [codec_defs]:
  "Elf32_Vernaux_of be bs =
    \<lparr>vna_hash = host_word be (take 4 bs),
     vna_flags = host_word be (take 2 (drop 4 bs)),
     vna_other = host_word be (take 2 (drop 6 bs)),
     vna_name = host_word be (take 4 (drop 8 bs)),
     vna_next = host_word be (take 4 (drop 12 bs))\<rparr>"

definition Elf32_Vernaux_bytes :: "bool \<Rightarrow> Elf32_Vernaux \<Rightarrow> byte list" where [codec_defs]:
  "Elf32_Vernaux_bytes be t =
     host_bytes be 4 (vna_hash t) @
     host_bytes be 2 (vna_flags t) @
     host_bytes be 2 (vna_other t) @
     host_bytes be 4 (vna_name t) @
     host_bytes be 4 (vna_next t)"

definition Elf64_Vernaux_of :: "bool \<Rightarrow> byte list \<Rightarrow> Elf64_Vernaux" where [codec_defs]:
  "Elf64_Vernaux_of be bs =
    \<lparr>vna_hash = host_word be (take 4 bs),
     vna_flags = host_word be (take 2 (drop 4 bs)),
     vna_other = host_word be (take 2 (drop 6 bs)),
     vna_name = host_word be (take 4 (drop 8 bs)),
     vna_next = host_word be (take 4 (drop 12 bs))\<rparr>"

definition Elf64_Vernaux_bytes :: "bool \<Rightarrow> Elf64_Vernaux \<Rightarrow> byte list" where [codec_defs]:
  "Elf64_Vernaux_bytes be t =
     host_bytes be 4 (vna_hash t) @
     host_bytes be 2 (vna_flags t) @
     host_bytes be 2 (vna_other t) @
     host_bytes be 4 (vna_name t) @
     host_bytes be 4 (vna_next t)"

end
