(* ===== verification/Libelf_Macros.thy ===== *)
theory Libelf_Macros
  imports Elf_Types
begin

text \<open>
  The macros of \<open>libelf_convert.c\<close> that swap, read and write integers and whole structures.
  A READ macro returns the value together with the advanced source pointer, a WRITE macro
  the new memory together with the advanced destination pointer.  The locale \<open>elf_codec\<close>
  is the contract between the macros of one structure and the converters built on them; it
  is interpreted for every structure of both classes.
\<close>

section \<open>Integers\<close>

text \<open>One round \<open>_t <<= 8; _x >>= 8; _t |= _x & 0xFF\<close> of the swap macros.\<close>

definition swap_step :: "'a::len word \<times> 'a word \<Rightarrow> 'a word \<times> 'a word" where
  "swap_step = (\<lambda>(t, x). let t = push_bit 8 t; x = drop_bit 8 x in (t OR (x AND 0xFF), x))"

definition SWAP_HALF :: "16 word \<Rightarrow> 16 word" where
  "SWAP_HALF X = fst (swap_step (X AND 0xFF, X))"

definition SWAP_WORD :: "32 word \<Rightarrow> 32 word" where
  "SWAP_WORD X = fst (swap_step (swap_step (swap_step (X AND 0xFF, X))))"

definition SWAP_WORD64 :: "64 word \<Rightarrow> 64 word" where
  "SWAP_WORD64 X =
     fst (swap_step (swap_step (swap_step (swap_step (swap_step (swap_step (swap_step (X AND 0xFF, X))))))))"

abbreviation "SWAP_ADDR32 \<equiv> SWAP_WORD"
abbreviation "SWAP_OFF32 \<equiv> SWAP_WORD"
abbreviation "SWAP_SWORD \<equiv> SWAP_WORD"
abbreviation "SWAP_ADDR64 \<equiv> SWAP_WORD64"
abbreviation "SWAP_LWORD \<equiv> SWAP_WORD64"
abbreviation "SWAP_OFF64 \<equiv> SWAP_WORD64"
abbreviation "SWAP_SXWORD \<equiv> SWAP_WORD64"
abbreviation "SWAP_XWORD \<equiv> SWAP_WORD64"

definition WRITE_BYTE :: "bool \<Rightarrow> memory \<Rightarrow> addr \<Rightarrow> byte \<Rightarrow> memory \<times> addr" where
  "WRITE_BYTE be m P X = (m(P := X), P + 1)"

definition WRITE_HALF :: "bool \<Rightarrow> memory \<Rightarrow> addr \<Rightarrow> 16 word \<Rightarrow> memory \<times> addr" where
  "WRITE_HALF be m P X = (let q = host_bytes be 2 X in (m(P := q ! 0, P + 1 := q ! 1), P + 2))"

definition WRITE_WORD :: "bool \<Rightarrow> memory \<Rightarrow> addr \<Rightarrow> 32 word \<Rightarrow> memory \<times> addr" where
  "WRITE_WORD be m P X = (let q = host_bytes be 4 X
     in (m(P := q ! 0, P + 1 := q ! 1, P + 2 := q ! 2, P + 3 := q ! 3), P + 4))"

definition WRITE_WORD64 :: "bool \<Rightarrow> memory \<Rightarrow> addr \<Rightarrow> 64 word \<Rightarrow> memory \<times> addr" where
  "WRITE_WORD64 be m P X = (let q = host_bytes be 8 X
     in (m(P := q ! 0, P + 1 := q ! 1, P + 2 := q ! 2, P + 3 := q ! 3,
           P + 4 := q ! 4, P + 5 := q ! 5, P + 6 := q ! 6, P + 7 := q ! 7), P + 8))"

abbreviation "WRITE_ADDR32 \<equiv> WRITE_WORD"
abbreviation "WRITE_OFF32 \<equiv> WRITE_WORD"
abbreviation "WRITE_SWORD \<equiv> WRITE_WORD"
abbreviation "WRITE_ADDR64 \<equiv> WRITE_WORD64"
abbreviation "WRITE_LWORD \<equiv> WRITE_WORD64"
abbreviation "WRITE_OFF64 \<equiv> WRITE_WORD64"
abbreviation "WRITE_SXWORD \<equiv> WRITE_WORD64"
abbreviation "WRITE_XWORD \<equiv> WRITE_WORD64"

definition WRITE_IDENT :: "bool \<Rightarrow> memory \<Rightarrow> addr \<Rightarrow> byte list \<Rightarrow> memory \<times> addr" where
  "WRITE_IDENT be m P X = (put_bytes m P (take EI_NIDENT X), P + EI_NIDENT)"

definition READ_BYTE :: "bool \<Rightarrow> memory \<Rightarrow> addr \<Rightarrow> byte \<times> addr" where
  "READ_BYTE be m P = (m P, P + 1)"

definition READ_HALF :: "bool \<Rightarrow> memory \<Rightarrow> addr \<Rightarrow> 16 word \<times> addr" where
  "READ_HALF be m P = (host_word be [m P, m (P + 1)], P + 2)"

definition READ_WORD :: "bool \<Rightarrow> memory \<Rightarrow> addr \<Rightarrow> 32 word \<times> addr" where
  "READ_WORD be m P = (host_word be [m P, m (P + 1), m (P + 2), m (P + 3)], P + 4)"

definition READ_WORD64 :: "bool \<Rightarrow> memory \<Rightarrow> addr \<Rightarrow> 64 word \<times> addr" where
  "READ_WORD64 be m P =
     (host_word be [m P, m (P + 1), m (P + 2), m (P + 3), m (P + 4), m (P + 5), m (P + 6), m (P + 7)],
      P + 8)"

abbreviation "READ_ADDR32 \<equiv> READ_WORD"
abbreviation "READ_OFF32 \<equiv> READ_WORD"
abbreviation "READ_SWORD \<equiv> READ_WORD"
abbreviation "READ_ADDR64 \<equiv> READ_WORD64"
abbreviation "READ_LWORD \<equiv> READ_WORD64"
abbreviation "READ_OFF64 \<equiv> READ_WORD64"
abbreviation "READ_SXWORD \<equiv> READ_WORD64"
abbreviation "READ_XWORD \<equiv> READ_WORD64"

definition READ_IDENT :: "bool \<Rightarrow> memory \<Rightarrow> addr \<Rightarrow> byte list \<times> addr" where
  "READ_IDENT be m P = (bytes_at m P EI_NIDENT, P + EI_NIDENT)"

definition ROUNDUP2 :: "32 word \<Rightarrow> 32 word \<Rightarrow> 32 word" where
  "ROUNDUP2 V N = (V + N - 1) AND NOT (N - 1)"

section \<open>Structures\<close>

definition READ_Elf32_Cap :: "bool \<Rightarrow> memory \<Rightarrow> addr \<Rightarrow> Elf32_Cap \<times> addr" where [macro_defs]:
  "READ_Elf32_Cap be m s =
    (let (c_tag, s) = READ_WORD be m s;
         (c_val, s) = READ_WORD be m s
     in (\<lparr>c_tag = c_tag, c_val = c_val\<rparr>, s))"

definition SWAP_Elf32_Cap :: "Elf32_Cap \<Rightarrow> Elf32_Cap" where [macro_defs]:
  "SWAP_Elf32_Cap t = t\<lparr>c_tag := SWAP_WORD (c_tag t),
     c_val := SWAP_WORD (c_val t)\<rparr>"

definition WRITE_Elf32_Cap :: "bool \<Rightarrow> memory \<Rightarrow> addr \<Rightarrow> Elf32_Cap \<Rightarrow> memory \<times> addr" where [macro_defs]:
  "WRITE_Elf32_Cap be m dst t =
    (let (m, dst) = WRITE_WORD be m dst (c_tag t);
         (m, dst) = WRITE_WORD be m dst (c_val t)
     in (m, dst))"

definition READ_Elf64_Cap :: "bool \<Rightarrow> memory \<Rightarrow> addr \<Rightarrow> Elf64_Cap \<times> addr" where [macro_defs]:
  "READ_Elf64_Cap be m s =
    (let (c_tag, s) = READ_XWORD be m s;
         (c_val, s) = READ_XWORD be m s
     in (\<lparr>c_tag = c_tag, c_val = c_val\<rparr>, s))"

definition SWAP_Elf64_Cap :: "Elf64_Cap \<Rightarrow> Elf64_Cap" where [macro_defs]:
  "SWAP_Elf64_Cap t = t\<lparr>c_tag := SWAP_XWORD (c_tag t),
     c_val := SWAP_XWORD (c_val t)\<rparr>"

definition WRITE_Elf64_Cap :: "bool \<Rightarrow> memory \<Rightarrow> addr \<Rightarrow> Elf64_Cap \<Rightarrow> memory \<times> addr" where [macro_defs]:
  "WRITE_Elf64_Cap be m dst t =
    (let (m, dst) = WRITE_XWORD be m dst (c_tag t);
         (m, dst) = WRITE_XWORD be m dst (c_val t)
     in (m, dst))"

definition READ_Elf32_Dyn :: "bool \<Rightarrow> memory \<Rightarrow> addr \<Rightarrow> Elf32_Dyn \<times> addr" where [macro_defs]:
  "READ_Elf32_Dyn be m s =
    (let (d_tag, s) = READ_SWORD be m s;
         (d_ptr, s) = READ_WORD be m s
     in (\<lparr>d_tag = d_tag, d_ptr = d_ptr\<rparr>, s))"

definition SWAP_Elf32_Dyn :: "Elf32_Dyn \<Rightarrow> Elf32_Dyn" where [macro_defs]:
  "SWAP_Elf32_Dyn t = t\<lparr>d_tag := SWAP_SWORD (d_tag t),
     d_ptr := SWAP_WORD (d_ptr t)\<rparr>"

definition WRITE_Elf32_Dyn :: "bool \<Rightarrow> memory \<Rightarrow> addr \<Rightarrow> Elf32_Dyn \<Rightarrow> memory \<times> addr" where [macro_defs]:
  "WRITE_Elf32_Dyn be m dst t =
    (let (m, dst) = WRITE_SWORD be m dst (d_tag t);
         (m, dst) = WRITE_WORD be m dst (d_ptr t)
     in (m, dst))"

definition READ_Elf64_Dyn :: "bool \<Rightarrow> memory \<Rightarrow> addr \<Rightarrow> Elf64_Dyn \<times> addr" where [macro_defs]:
  "READ_Elf64_Dyn be m s =
    (let (d_tag, s) = READ_SXWORD be m s;
         (d_ptr, s) = READ_XWORD be m s
     in (\<lparr>d_tag = d_tag, d_ptr = d_ptr\<rparr>, s))"

definition SWAP_Elf64_Dyn :: "Elf64_Dyn \<Rightarrow> Elf64_Dyn" where [macro_defs]:
  "SWAP_Elf64_Dyn t = t\<lparr>d_tag := SWAP_SXWORD (d_tag t),
     d_ptr := SWAP_XWORD (d_ptr t)\<rparr>"

definition WRITE_Elf64_Dyn :: "bool \<Rightarrow> memory \<Rightarrow> addr \<Rightarrow> Elf64_Dyn \<Rightarrow> memory \<times> addr" where [macro_defs]:
  "WRITE_Elf64_Dyn be m dst t =
    (let (m, dst) = WRITE_SXWORD be m dst (d_tag t);
         (m, dst) = WRITE_XWORD be m dst (d_ptr t)
     in (m, dst))"

definition READ_Elf32_Ehdr :: "bool \<Rightarrow> memory \<Rightarrow> addr \<Rightarrow> Elf32_Ehdr \<times> addr" where [macro_defs]:
  "READ_Elf32_Ehdr be m s =
    (let (e_ident, s) = READ_IDENT be m s;
         (e_type, s) = READ_HALF be m s;
         (e_machine, s) = READ_HALF be m s;
         (e_version, s) = READ_WORD be m s;
         (e_entry, s) = READ_ADDR32 be m s;
         (e_phoff, s) = READ_OFF32 be m s;
         (e_shoff, s) = READ_OFF32 be m s;
         (e_flags, s) = READ_WORD be m s;
         (e_ehsize, s) = READ_HALF be m s;
         (e_phentsize, s) = READ_HALF be m s;
         (e_phnum, s) = READ_HALF be m s;
         (e_shentsize, s) = READ_HALF be m s;
         (e_shnum, s) = READ_HALF be m s;
         (e_shstrndx, s) = READ_HALF be m s
     in (\<lparr>e_ident = e_ident, e_type = e_type, e_machine = e_machine, e_version = e_version, e_entry = e_entry, e_phoff = e_phoff, e_shoff = e_shoff, e_flags = e_flags, e_ehsize = e_ehsize, e_phentsize = e_phentsize, e_phnum = e_phnum, e_shentsize = e_shentsize, e_shnum = e_shnum, e_shstrndx = e_shstrndx\<rparr>, s))"

definition SWAP_Elf32_Ehdr :: "Elf32_Ehdr \<Rightarrow> Elf32_Ehdr" where [macro_defs]:
  "SWAP_Elf32_Ehdr t = t\<lparr>e_type := SWAP_HALF (e_type t),
     e_machine := SWAP_HALF (e_machine t),
     e_version := SWAP_WORD (e_version t),
     e_entry := SWAP_ADDR32 (e_entry t),
     e_phoff := SWAP_OFF32 (e_phoff t),
     e_shoff := SWAP_OFF32 (e_shoff t),
     e_flags := SWAP_WORD (e_flags t),
     e_ehsize := SWAP_HALF (e_ehsize t),
     e_phentsize := SWAP_HALF (e_phentsize t),
     e_phnum := SWAP_HALF (e_phnum t),
     e_shentsize := SWAP_HALF (e_shentsize t),
     e_shnum := SWAP_HALF (e_shnum t),
     e_shstrndx := SWAP_HALF (e_shstrndx t)\<rparr>"

definition WRITE_Elf32_Ehdr :: "bool \<Rightarrow> memory \<Rightarrow> addr \<Rightarrow> Elf32_Ehdr \<Rightarrow> memory \<times> addr" where [macro_defs]:
  "WRITE_Elf32_Ehdr be m dst t =
    (let (m, dst) = WRITE_IDENT be m dst (e_ident t);
         (m, dst) = WRITE_HALF be m dst (e_type t);
         (m, dst) = WRITE_HALF be m dst (e_machine t);
         (m, dst) = WRITE_WORD be m dst (e_version t);
         (m, dst) = WRITE_ADDR32 be m dst (e_entry t);
         (m, dst) = WRITE_OFF32 be m dst (e_phoff t);
         (m, dst) = WRITE_OFF32 be m dst (e_shoff t);
         (m, dst) = WRITE_WORD be m dst (e_flags t);
         (m, dst) = WRITE_HALF be m dst (e_ehsize t);
         (m, dst) = WRITE_HALF be m dst (e_phentsize t);
         (m, dst) = WRITE_HALF be m dst (e_phnum t);
         (m, dst) = WRITE_HALF be m dst (e_shentsize t);
         (m, dst) = WRITE_HALF be m dst (e_shnum t);
         (m, dst) = WRITE_HALF be m dst (e_shstrndx t)
     in (m, dst))"

definition READ_Elf64_Ehdr :: "bool \<Rightarrow> memory \<Rightarrow> addr \<Rightarrow> Elf64_Ehdr \<times> addr" where [macro_defs]:
  "READ_Elf64_Ehdr be m s =
    (let (e_ident, s) = READ_IDENT be m s;
         (e_type, s) = READ_HALF be m s;
         (e_machine, s) = READ_HALF be m s;
         (e_version, s) = READ_WORD be m s;
         (e_entry, s) = READ_ADDR64 be m s;
         (e_phoff, s) = READ_OFF64 be m s;
         (e_shoff, s) = READ_OFF64 be m s;
         (e_flags, s) = READ_WORD be m s;
         (e_ehsize, s) = READ_HALF be m s;
         (e_phentsize, s) = READ_HALF be m s;
         (e_phnum, s) = READ_HALF be m s;
         (e_shentsize, s) = READ_HALF be m s;
         (e_shnum, s) = READ_HALF be m s;
         (e_shstrndx, s) = READ_HALF be m s
     in (\<lparr>e_ident = e_ident, e_type = e_type, e_machine = e_machine, e_version = e_version, e_entry = e_entry, e_phoff = e_phoff, e_shoff = e_shoff, e_flags = e_flags, e_ehsize = e_ehsize, e_phentsize = e_phentsize, e_phnum = e_phnum, e_shentsize = e_shentsize, e_shnum = e_shnum, e_shstrndx = e_shstrndx\<rparr>, s))"

definition SWAP_Elf64_Ehdr :: "Elf64_Ehdr \<Rightarrow> Elf64_Ehdr" where [macro_defs]:
  "SWAP_Elf64_Ehdr t = t\<lparr>e_type := SWAP_HALF (e_type t),
     e_machine := SWAP_HALF (e_machine t),
     e_version := SWAP_WORD (e_version t),
     e_entry := SWAP_ADDR64 (e_entry t),
     e_phoff := SWAP_OFF64 (e_phoff t),
     e_shoff := SWAP_OFF64 (e_shoff t),
     e_flags := SWAP_WORD (e_flags t),
     e_ehsize := SWAP_HALF (e_ehsize t),
     e_phentsize := SWAP_HALF (e_phentsize t),
     e_phnum := SWAP_HALF (e_phnum t),
     e_shentsize := SWAP_HALF (e_shentsize t),
     e_shnum := SWAP_HALF (e_shnum t),
     e_shstrndx := SWAP_HALF (e_shstrndx t)\<rparr>"

definition WRITE_Elf64_Ehdr :: "bool \<Rightarrow> memory \<Rightarrow> addr \<Rightarrow> Elf64_Ehdr \<Rightarrow> memory \<times> addr" where [macro_defs]:
  "WRITE_Elf64_Ehdr be m dst t =
    (let (m, dst) = WRITE_IDENT be m dst (e_ident t);
         (m, dst) = WRITE_HALF be m dst (e_type t);
         (m, dst) = WRITE_HALF be m dst (e_machine t);
         (m, dst) = WRITE_WORD be m dst (e_version t);
         (m, dst) = WRITE_ADDR64 be m dst (e_entry t);
         (m, dst) = WRITE_OFF64 be m dst (e_phoff t);
         (m, dst) = WRITE_OFF64 be m dst (e_shoff t);
         (m, dst) = WRITE_WORD be m dst (e_flags t);
         (m, dst) = WRITE_HALF be m dst (e_ehsize t);
         (m, dst) = WRITE_HALF be m dst (e_phentsize t);
         (m, dst) = WRITE_HALF be m dst (e_phnum t);
         (m, dst) = WRITE_HALF be m dst (e_shentsize t);
         (m, dst) = WRITE_HALF be m dst (e_shnum t);
         (m, dst) = WRITE_HALF be m dst (e_shstrndx t)
     in (m, dst))"

definition READ_Elf32_Move :: "bool \<Rightarrow> memory \<Rightarrow> addr \<Rightarrow> Elf32_Move \<times> addr" where [macro_defs]:
  "READ_Elf32_Move be m s =
    (let (m_value, s) = READ_LWORD be m s;
         (m_info, s) = READ_WORD be m s;
         (m_poffset, s) = READ_WORD be m s;
         (m_repeat, s) = READ_HALF be m s;
         (m_stride, s) = READ_HALF be m s
     in (\<lparr>m_value = m_value, m_info = m_info, m_poffset = m_poffset, m_repeat = m_repeat, m_stride = m_stride\<rparr>, s))"

definition SWAP_Elf32_Move :: "Elf32_Move \<Rightarrow> Elf32_Move" where [macro_defs]:
  "SWAP_Elf32_Move t = t\<lparr>m_value := SWAP_LWORD (m_value t),
     m_info := SWAP_WORD (m_info t),
     m_poffset := SWAP_WORD (m_poffset t),
     m_repeat := SWAP_HALF (m_repeat t),
     m_stride := SWAP_HALF (m_stride t)\<rparr>"

definition WRITE_Elf32_Move :: "bool \<Rightarrow> memory \<Rightarrow> addr \<Rightarrow> Elf32_Move \<Rightarrow> memory \<times> addr" where [macro_defs]:
  "WRITE_Elf32_Move be m dst t =
    (let (m, dst) = WRITE_LWORD be m dst (m_value t);
         (m, dst) = WRITE_WORD be m dst (m_info t);
         (m, dst) = WRITE_WORD be m dst (m_poffset t);
         (m, dst) = WRITE_HALF be m dst (m_repeat t);
         (m, dst) = WRITE_HALF be m dst (m_stride t)
     in (m, dst))"

definition READ_Elf64_Move :: "bool \<Rightarrow> memory \<Rightarrow> addr \<Rightarrow> Elf64_Move \<times> addr" where [macro_defs]:
  "READ_Elf64_Move be m s =
    (let (m_value, s) = READ_LWORD be m s;
         (m_info, s) = READ_XWORD be m s;
         (m_poffset, s) = READ_XWORD be m s;
         (m_repeat, s) = READ_HALF be m s;
         (m_stride, s) = READ_HALF be m s
     in (\<lparr>m_value = m_value, m_info = m_info, m_poffset = m_poffset, m_repeat = m_repeat, m_stride = m_stride\<rparr>, s))"

definition SWAP_Elf64_Move :: "Elf64_Move \<Rightarrow> Elf64_Move" where [macro_defs]:
  "SWAP_Elf64_Move t = t\<lparr>m_value := SWAP_LWORD (m_value t),
     m_info := SWAP_XWORD (m_info t),
     m_poffset := SWAP_XWORD (m_poffset t),
     m_repeat := SWAP_HALF (m_repeat t),
     m_stride := SWAP_HALF (m_stride t)\<rparr>"

definition WRITE_Elf64_Move :: "bool \<Rightarrow> memory \<Rightarrow> addr \<Rightarrow> Elf64_Move \<Rightarrow> memory \<times> addr" where [macro_defs]:
  "WRITE_Elf64_Move be m dst t =
    (let (m, dst) = WRITE_LWORD be m dst (m_value t);
         (m, dst) = WRITE_XWORD be m dst (m_info t);
         (m, dst) = WRITE_XWORD be m dst (m_poffset t);
         (m, dst) = WRITE_HALF be m dst (m_repeat t);
         (m, dst) = WRITE_HALF be m dst (m_stride t)
     in (m, dst))"

definition READ_Elf32_Phdr :: "bool \<Rightarrow> memory \<Rightarrow> addr \<Rightarrow> Elf32_Phdr \<times> addr" where [macro_defs]:
  "READ_Elf32_Phdr be m s =
    (let (p_type, s) = READ_WORD be m s;
         (p_offset, s) = READ_OFF32 be m s;
         (p_vaddr, s) = READ_ADDR32 be m s;
         (p_paddr, s) = READ_ADDR32 be m s;
         (p_filesz, s) = READ_WORD be m s;
         (p_memsz, s) = READ_WORD be m s;
         (p_flags, s) = READ_WORD be m s;
         (p_align, s) = READ_WORD be m s
     in (\<lparr>p_type = p_type, p_offset = p_offset, p_vaddr = p_vaddr, p_paddr = p_paddr, p_filesz = p_filesz, p_memsz = p_memsz, p_flags = p_flags, p_align = p_align\<rparr>, s))"

definition SWAP_Elf32_Phdr :: "Elf32_Phdr \<Rightarrow> Elf32_Phdr" where [macro_defs]:
  "SWAP_Elf32_Phdr t = t\<lparr>p_type := SWAP_WORD (p_type t),
     p_offset := SWAP_OFF32 (p_offset t),
     p_vaddr := SWAP_ADDR32 (p_vaddr t),
     p_paddr := SWAP_ADDR32 (p_paddr t),
     p_filesz := SWAP_WORD (p_filesz t),
     p_memsz := SWAP_WORD (p_memsz t),
     p_flags := SWAP_WORD (p_flags t),
     p_align := SWAP_WORD (p_align t)\<rparr>"

definition WRITE_Elf32_Phdr :: "bool \<Rightarrow> memory \<Rightarrow> addr \<Rightarrow> Elf32_Phdr \<Rightarrow> memory \<times> addr" where [macro_defs]:
  "WRITE_Elf32_Phdr be m dst t =
    (let (m, dst) = WRITE_WORD be m dst (p_type t);
         (m, dst) = WRITE_OFF32 be m dst (p_offset t);
         (m, dst) = WRITE_ADDR32 be m dst (p_vaddr t);
         (m, dst) = WRITE_ADDR32 be m dst (p_paddr t);
         (m, dst) = WRITE_WORD be m dst (p_filesz t);
         (m, dst) = WRITE_WORD be m dst (p_memsz t);
         (m, dst) = WRITE_WORD be m dst (p_flags t);
         (m, dst) = WRITE_WORD be m dst (p_align t)
     in (m, dst))"

definition READ_Elf64_Phdr :: "bool \<Rightarrow> memory \<Rightarrow> addr \<Rightarrow> Elf64_Phdr \<times> addr" where [macro_defs]:
  "READ_Elf64_Phdr be m s =
    (let (p_type, s) = READ_WORD be m s;
         (p_flags, s) = READ_WORD be m s;
         (p_offset, s) = READ_OFF64 be m s;
         (p_vaddr, s) = READ_ADDR64 be m s;
         (p_paddr, s) = READ_ADDR64 be m s;
         (p_filesz, s) = READ_XWORD be m s;
         (p_memsz, s) = READ_XWORD be m s;
         (p_align, s) = READ_XWORD be m s
     in (\<lparr>p_type = p_type, p_offset = p_offset, p_vaddr = p_vaddr, p_paddr = p_paddr, p_filesz = p_filesz, p_memsz = p_memsz, p_flags = p_flags, p_align = p_align\<rparr>, s))"

definition SWAP_Elf64_Phdr :: "Elf64_Phdr \<Rightarrow> Elf64_Phdr" where [macro_defs]:
  "SWAP_Elf64_Phdr t = t\<lparr>p_type := SWAP_WORD (p_type t),
     p_flags := SWAP_WORD (p_flags t),
     p_offset := SWAP_OFF64 (p_offset t),
     p_vaddr := SWAP_ADDR64 (p_vaddr t),
     p_paddr := SWAP_ADDR64 (p_paddr t),
     p_filesz := SWAP_XWORD (p_filesz t),
     p_memsz := SWAP_XWORD (p_memsz t),
     p_align := SWAP_XWORD (p_align t)\<rparr>"

definition WRITE_Elf64_Phdr :: "bool \<Rightarrow> memory \<Rightarrow> addr \<Rightarrow> Elf64_Phdr \<Rightarrow> memory \<times> addr" where [macro_defs]:
  "WRITE_Elf64_Phdr be m dst t =
    (let (m, dst) = WRITE_WORD be m dst (p_type t);
         (m, dst) = WRITE_WORD be m dst (p_flags t);
         (m, dst) = WRITE_OFF64 be m dst (p_offset t);
         (m, dst) = WRITE_ADDR64 be m dst (p_vaddr t);
         (m, dst) = WRITE_ADDR64 be m dst (p_paddr t);
         (m, dst) = WRITE_XWORD be m dst (p_filesz t);
         (m, dst) = WRITE_XWORD be m dst (p_memsz t);
         (m, dst) = WRITE_XWORD be m dst (p_align t)
     in (m, dst))"

definition READ_Elf32_Rel :: "bool \<Rightarrow> memory \<Rightarrow> addr \<Rightarrow> Elf32_Rel \<times> addr" where [macro_defs]:
  "READ_Elf32_Rel be m s =
    (let (r_offset, s) = READ_ADDR32 be m s;
         (r_info, s) = READ_WORD be m s
     in (\<lparr>r_offset = r_offset, r_info = r_info\<rparr>, s))"

definition SWAP_Elf32_Rel :: "Elf32_Rel \<Rightarrow> Elf32_Rel" where [macro_defs]:
  "SWAP_Elf32_Rel t = t\<lparr>r_offset := SWAP_ADDR32 (r_offset t),
     r_info := SWAP_WORD (r_info t)\<rparr>"

definition WRITE_Elf32_Rel :: "bool \<Rightarrow> memory \<Rightarrow> addr \<Rightarrow> Elf32_Rel \<Rightarrow> memory \<times> addr" where [macro_defs]:
  "WRITE_Elf32_Rel be m dst t =
    (let (m, dst) = WRITE_ADDR32 be m dst (r_offset t);
         (m, dst) = WRITE_WORD be m dst (r_info t)
     in (m, dst))"

definition READ_Elf64_Rel :: "bool \<Rightarrow> memory \<Rightarrow> addr \<Rightarrow> Elf64_Rel \<times> addr" where [macro_defs]:
  "READ_Elf64_Rel be m s =
    (let (r_offset, s) = READ_ADDR64 be m s;
         (r_info, s) = READ_XWORD be m s
     in (\<lparr>r_offset = r_offset, r_info = r_info\<rparr>, s))"

definition SWAP_Elf64_Rel :: "Elf64_Rel \<Rightarrow> Elf64_Rel" where [macro_defs]:
  "SWAP_Elf64_Rel t = t\<lparr>r_offset := SWAP_ADDR64 (r_offset t),
     r_info := SWAP_XWORD (r_info t)\<rparr>"

definition WRITE_Elf64_Rel :: "bool \<Rightarrow> memory \<Rightarrow> addr \<Rightarrow> Elf64_Rel \<Rightarrow> memory \<times> addr" where [macro_defs]:
  "WRITE_Elf64_Rel be m dst t =
    (let (m, dst) = WRITE_ADDR64 be m dst (r_offset t);
         (m, dst) = WRITE_XWORD be m dst (r_info t)
     in (m, dst))"

definition READ_Elf32_Rela :: "bool \<Rightarrow> memory \<Rightarrow> addr \<Rightarrow> Elf32_Rela \<times> addr" where [macro_defs]:
  "READ_Elf32_Rela be m s =
    (let (r_offset, s) = READ_ADDR32 be m s;
         (r_info, s) = READ_WORD be m s;
         (r_addend, s) = READ_SWORD be m s
     in (\<lparr>r_offset = r_offset, r_info = r_info, r_addend = r_addend\<rparr>, s))"

definition SWAP_Elf32_Rela :: "Elf32_Rela \<Rightarrow> Elf32_Rela" where [macro_defs]:
  "SWAP_Elf32_Rela t = t\<lparr>r_offset := SWAP_ADDR32 (r_offset t),
     r_info := SWAP_WORD (r_info t),
     r_addend := SWAP_SWORD (r_addend t)\<rparr>"

definition WRITE_Elf32_Rela :: "bool \<Rightarrow> memory \<Rightarrow> addr \<Rightarrow> Elf32_Rela \<Rightarrow> memory \<times> addr" where [macro_defs]:
  "WRITE_Elf32_Rela be m dst t =
    (let (m, dst) = WRITE_ADDR32 be m dst (r_offset t);
         (m, dst) = WRITE_WORD be m dst (r_info t);
         (m, dst) = WRITE_SWORD be m dst (r_addend t)
     in (m, dst))"

definition READ_Elf64_Rela :: "bool \<Rightarrow> memory \<Rightarrow> addr \<Rightarrow> Elf64_Rela \<times> addr" where [macro_defs]:
  "READ_Elf64_Rela be m s =
    (let (r_offset, s) = READ_ADDR64 be m s;
         (r_info, s) = READ_XWORD be m s;
         (r_addend, s) = READ_SXWORD be m s
     in (\<lparr>r_offset = r_offset, r_info = r_info, r_addend = r_addend\<rparr>, s))"

definition SWAP_Elf64_Rela :: "Elf64_Rela \<Rightarrow> Elf64_Rela" where [macro_defs]:
  "SWAP_Elf64_Rela t = t\<lparr>r_offset := SWAP_ADDR64 (r_offset t),
     r_info := SWAP_XWORD (r_info t),
     r_addend := SWAP_SXWORD (r_addend t)\<rparr>"

definition WRITE_Elf64_Rela :: "bool \<Rightarrow> memory \<Rightarrow> addr \<Rightarrow> Elf64_Rela \<Rightarrow> memory \<times> addr" where [macro_defs]:
  "WRITE_Elf64_Rela be m dst t =
    (let (m, dst) = WRITE_ADDR64 be m dst (r_offset t);
         (m, dst) = WRITE_XWORD be m dst (r_info t);
         (m, dst) = WRITE_SXWORD be m dst (r_addend t)
     in (m, dst))"

definition READ_Elf32_Shdr :: "bool \<Rightarrow> memory \<Rightarrow> addr \<Rightarrow> Elf32_Shdr \<times> addr" where [macro_defs]:
  "READ_Elf32_Shdr be m s =
    (let (sh_name, s) = READ_WORD be m s;
         (sh_type, s) = READ_WORD be m s;
         (sh_flags, s) = READ_WORD be m s;
         (sh_addr, s) = READ_ADDR32 be m s;
         (sh_offset, s) = READ_OFF32 be m s;
         (sh_size, s) = READ_WORD be m s;
         (sh_link, s) = READ_WORD be m s;
         (sh_info, s) = READ_WORD be m s;
         (sh_addralign, s) = READ_WORD be m s;
         (sh_entsize, s) = READ_WORD be m s
     in (\<lparr>sh_name = sh_name, sh_type = sh_type, sh_flags = sh_flags, sh_addr = sh_addr, sh_offset = sh_offset, sh_size = sh_size, sh_link = sh_link, sh_info = sh_info, sh_addralign = sh_addralign, sh_entsize = sh_entsize\<rparr>, s))"

definition SWAP_Elf32_Shdr :: "Elf32_Shdr \<Rightarrow> Elf32_Shdr" where [macro_defs]:
  "SWAP_Elf32_Shdr t = t\<lparr>sh_name := SWAP_WORD (sh_name t),
     sh_type := SWAP_WORD (sh_type t),
     sh_flags := SWAP_WORD (sh_flags t),
     sh_addr := SWAP_ADDR32 (sh_addr t),
     sh_offset := SWAP_OFF32 (sh_offset t),
     sh_size := SWAP_WORD (sh_size t),
     sh_link := SWAP_WORD (sh_link t),
     sh_info := SWAP_WORD (sh_info t),
     sh_addralign := SWAP_WORD (sh_addralign t),
     sh_entsize := SWAP_WORD (sh_entsize t)\<rparr>"

definition WRITE_Elf32_Shdr :: "bool \<Rightarrow> memory \<Rightarrow> addr \<Rightarrow> Elf32_Shdr \<Rightarrow> memory \<times> addr" where [macro_defs]:
  "WRITE_Elf32_Shdr be m dst t =
    (let (m, dst) = WRITE_WORD be m dst (sh_name t);
         (m, dst) = WRITE_WORD be m dst (sh_type t);
         (m, dst) = WRITE_WORD be m dst (sh_flags t);
         (m, dst) = WRITE_ADDR32 be m dst (sh_addr t);
         (m, dst) = WRITE_OFF32 be m dst (sh_offset t);
         (m, dst) = WRITE_WORD be m dst (sh_size t);
         (m, dst) = WRITE_WORD be m dst (sh_link t);
         (m, dst) = WRITE_WORD be m dst (sh_info t);
         (m, dst) = WRITE_WORD be m dst (sh_addralign t);
         (m, dst) = WRITE_WORD be m dst (sh_entsize t)
     in (m, dst))"

definition READ_Elf64_Shdr :: "bool \<Rightarrow> memory \<Rightarrow> addr \<Rightarrow> Elf64_Shdr \<times> addr" where [macro_defs]:
  "READ_Elf64_Shdr be m s =
    (let (sh_name, s) = READ_WORD be m s;
         (sh_type, s) = READ_WORD be m s;
         (sh_flags, s) = READ_XWORD be m s;
         (sh_addr, s) = READ_ADDR64 be m s;
         (sh_offset, s) = READ_OFF64 be m s;
         (sh_size, s) = READ_XWORD be m s;
         (sh_link, s) = READ_WORD be m s;
         (sh_info, s) = READ_WORD be m s;
         (sh_addralign, s) = READ_XWORD be m s;
         (sh_entsize, s) = READ_XWORD be m s
     in (\<lparr>sh_name = sh_name, sh_type = sh_type, sh_flags = sh_flags, sh_addr = sh_addr, sh_offset = sh_offset, sh_size = sh_size, sh_link = sh_link, sh_info = sh_info, sh_addralign = sh_addralign, sh_entsize = sh_entsize\<rparr>, s))"

definition SWAP_Elf64_Shdr :: "Elf64_Shdr \<Rightarrow> Elf64_Shdr" where [macro_defs]:
  "SWAP_Elf64_Shdr t = t\<lparr>sh_name := SWAP_WORD (sh_name t),
     sh_type := SWAP_WORD (sh_type t),
     sh_flags := SWAP_XWORD (sh_flags t),
     sh_addr := SWAP_ADDR64 (sh_addr t),
     sh_offset := SWAP_OFF64 (sh_offset t),
     sh_size := SWAP_XWORD (sh_size t),
     sh_link := SWAP_WORD (sh_link t),
     sh_info := SWAP_WORD (sh_info t),
     sh_addralign := SWAP_XWORD (sh_addralign t),
     sh_entsize := SWAP_XWORD (sh_entsize t)\<rparr>"

definition WRITE_Elf64_Shdr :: "bool \<Rightarrow> memory \<Rightarrow> addr \<Rightarrow> Elf64_Shdr \<Rightarrow> memory \<times> addr" where [macro_defs]:
  "WRITE_Elf64_Shdr be m dst t =
    (let (m, dst) = WRITE_WORD be m dst (sh_name t);
         (m, dst) = WRITE_WORD be m dst (sh_type t);
         (m, dst) = WRITE_XWORD be m dst (sh_flags t);
         (m, dst) = WRITE_ADDR64 be m dst (sh_addr t);
         (m, dst) = WRITE_OFF64 be m dst (sh_offset t);
         (m, dst) = WRITE_XWORD be m dst (sh_size t);
         (m, dst) = WRITE_WORD be m dst (sh_link t);
         (m, dst) = WRITE_WORD be m dst (sh_info t);
         (m, dst) = WRITE_XWORD be m dst (sh_addralign t);
         (m, dst) = WRITE_XWORD be m dst (sh_entsize t)
     in (m, dst))"

definition READ_Elf32_Syminfo :: "bool \<Rightarrow> memory \<Rightarrow> addr \<Rightarrow> Elf32_Syminfo \<times> addr" where [macro_defs]:
  "READ_Elf32_Syminfo be m s =
    (let (si_boundto, s) = READ_HALF be m s;
         (si_flags, s) = READ_HALF be m s
     in (\<lparr>si_boundto = si_boundto, si_flags = si_flags\<rparr>, s))"

definition SWAP_Elf32_Syminfo :: "Elf32_Syminfo \<Rightarrow> Elf32_Syminfo" where [macro_defs]:
  "SWAP_Elf32_Syminfo t = t\<lparr>si_boundto := SWAP_HALF (si_boundto t),
     si_flags := SWAP_HALF (si_flags t)\<rparr>"

definition WRITE_Elf32_Syminfo :: "bool \<Rightarrow> memory \<Rightarrow> addr \<Rightarrow> Elf32_Syminfo \<Rightarrow> memory \<times> addr" where [macro_defs]:
  "WRITE_Elf32_Syminfo be m dst t =
    (let (m, dst) = WRITE_HALF be m dst (si_boundto t);
         (m, dst) = WRITE_HALF be m dst (si_flags t)
     in (m, dst))"

definition READ_Elf64_Syminfo :: "bool \<Rightarrow> memory \<Rightarrow> addr \<Rightarrow> Elf64_Syminfo \<times> addr" where [macro_defs]:
  "READ_Elf64_Syminfo be m s =
    (let (si_boundto, s) = READ_HALF be m s;
         (si_flags, s) = READ_HALF be m s
     in (\<lparr>si_boundto = si_boundto, si_flags = si_flags\<rparr>, s))"

definition SWAP_Elf64_Syminfo :: "Elf64_Syminfo \<Rightarrow> Elf64_Syminfo" where [macro_defs]:
  "SWAP_Elf64_Syminfo t = t\<lparr>si_boundto := SWAP_HALF (si_boundto t),
     si_flags := SWAP_HALF (si_flags t)\<rparr>"

definition WRITE_Elf64_Syminfo :: "bool \<Rightarrow> memory \<Rightarrow> addr \<Rightarrow> Elf64_Syminfo \<Rightarrow> memory \<times> addr" where [macro_defs]:
  "WRITE_Elf64_Syminfo be m dst t =
    (let (m, dst) = WRITE_HALF be m dst (si_boundto t);
         (m, dst) = WRITE_HALF be m dst (si_flags t)
     in (m, dst))"

definition READ_Elf32_Sym :: "bool \<Rightarrow> memory \<Rightarrow> addr \<Rightarrow> Elf32_Sym \<times> addr" where [macro_defs]:
  "READ_Elf32_Sym be m s =
    (let (st_name, s) = READ_WORD be m s;
         (st_value, s) = READ_ADDR32 be m s;
         (st_size, s) = READ_WORD be m s;
         (st_info, s) = READ_BYTE be m s;
         (st_other, s) = READ_BYTE be m s;
         (st_shndx, s) = READ_HALF be m s
     in (\<lparr>st_name = st_name, st_value = st_value, st_size = st_size, st_info = st_info, st_other = st_other, st_shndx = st_shndx\<rparr>, s))"

definition SWAP_Elf32_Sym :: "Elf32_Sym \<Rightarrow> Elf32_Sym" where [macro_defs]:
  "SWAP_Elf32_Sym t = t\<lparr>st_name := SWAP_WORD (st_name t),
     st_value := SWAP_ADDR32 (st_value t),
     st_size := SWAP_WORD (st_size t),
     st_shndx := SWAP_HALF (st_shndx t)\<rparr>"

definition WRITE_Elf32_Sym :: "bool \<Rightarrow> memory \<Rightarrow> addr \<Rightarrow> Elf32_Sym \<Rightarrow> memory \<times> addr" where [macro_defs]:
  "WRITE_Elf32_Sym be m dst t =
    (let (m, dst) = WRITE_WORD be m dst (st_name t);
         (m, dst) = WRITE_ADDR32 be m dst (st_value t);
         (m, dst) = WRITE_WORD be m dst (st_size t);
         (m, dst) = WRITE_BYTE be m dst (st_info t);
         (m, dst) = WRITE_BYTE be m dst (st_other t);
         (m, dst) = WRITE_HALF be m dst (st_shndx t)
     in (m, dst))"

definition READ_Elf64_Sym :: "bool \<Rightarrow> memory \<Rightarrow> addr \<Rightarrow> Elf64_Sym \<times> addr" where [macro_defs]:
  "READ_Elf64_Sym be m s =
    (let (st_name, s) = READ_WORD be m s;
         (st_info, s) = READ_BYTE be m s;
         (st_other, s) = READ_BYTE be m s;
         (st_shndx, s) = READ_HALF be m s;
         (st_value, s) = READ_ADDR64 be m s;
         (st_size, s) = READ_XWORD be m s
     in (\<lparr>st_name = st_name, st_value = st_value, st_size = st_size, st_info = st_info, st_other = st_other, st_shndx = st_shndx\<rparr>, s))"

definition SWAP_Elf64_Sym :: "Elf64_Sym \<Rightarrow> Elf64_Sym" where [macro_defs]:
  "SWAP_Elf64_Sym t = t\<lparr>st_name := SWAP_WORD (st_name t),
     st_shndx := SWAP_HALF (st_shndx t),
     st_value := SWAP_ADDR64 (st_value t),
     st_size := SWAP_XWORD (st_size t)\<rparr>"

definition WRITE_Elf64_Sym :: "bool \<Rightarrow> memory \<Rightarrow> addr \<Rightarrow> Elf64_Sym \<Rightarrow> memory \<times> addr" where [macro_defs]:
  "WRITE_Elf64_Sym be m dst t =
    (let (m, dst) = WRITE_WORD be m dst (st_name t);
         (m, dst) = WRITE_BYTE be m dst (st_info t);
         (m, dst) = WRITE_BYTE be m dst (st_other t);
         (m, dst) = WRITE_HALF be m dst (st_shndx t);
         (m, dst) = WRITE_ADDR64 be m dst (st_value t);
         (m, dst) = WRITE_XWORD be m dst (st_size t)
     in (m, dst))"

definition READ_Elf32_Verdef :: "bool \<Rightarrow> memory \<Rightarrow> addr \<Rightarrow> Elf32_Verdef \<times> addr" where [macro_defs]:
  "READ_Elf32_Verdef be m s =
    (let (vd_version, s) = READ_HALF be m s;
         (vd_flags, s) = READ_HALF be m s;
         (vd_ndx, s) = READ_HALF be m s;
         (vd_cnt, s) = READ_HALF be m s;
         (vd_hash, s) = READ_WORD be m s;
         (vd_aux, s) = READ_WORD be m s;
         (vd_next, s) = READ_WORD be m s
     in (\<lparr>vd_version = vd_version, vd_flags = vd_flags, vd_ndx = vd_ndx, vd_cnt = vd_cnt, vd_hash = vd_hash, vd_aux = vd_aux, vd_next = vd_next\<rparr>, s))"

definition SWAP_Elf32_Verdef :: "Elf32_Verdef \<Rightarrow> Elf32_Verdef" where [macro_defs]:
  "SWAP_Elf32_Verdef t = t\<lparr>vd_version := SWAP_HALF (vd_version t),
     vd_flags := SWAP_HALF (vd_flags t),
     vd_ndx := SWAP_HALF (vd_ndx t),
     vd_cnt := SWAP_HALF (vd_cnt t),
     vd_hash := SWAP_WORD (vd_hash t),
     vd_aux := SWAP_WORD (vd_aux t),
     vd_next := SWAP_WORD (vd_next t)\<rparr>"

definition WRITE_Elf32_Verdef :: "bool \<Rightarrow> memory \<Rightarrow> addr \<Rightarrow> Elf32_Verdef \<Rightarrow> memory \<times> addr" where [macro_defs]:
  "WRITE_Elf32_Verdef be m dst t =
    (let (m, dst) = WRITE_HALF be m dst (vd_version t);
         (m, dst) = WRITE_HALF be m dst (vd_flags t);
         (m, dst) = WRITE_HALF be m dst (vd_ndx t);
         (m, dst) = WRITE_HALF be m dst (vd_cnt t);
         (m, dst) = WRITE_WORD be m dst (vd_hash t);
         (m, dst) = WRITE_WORD be m dst (vd_aux t);
         (m, dst) = WRITE_WORD be m dst (vd_next t)
     in (m, dst))"

definition READ_Elf64_Verdef :: "bool \<Rightarrow> memory \<Rightarrow> addr \<Rightarrow> Elf64_Verdef \<times> addr" where [macro_defs]:
  "READ_Elf64_Verdef be m s =
    (let (vd_version, s) = READ_HALF be m s;
         (vd_flags, s) = READ_HALF be m s;
         (vd_ndx, s) = READ_HALF be m s;
         (vd_cnt, s) = READ_HALF be m s;
         (vd_hash, s) = READ_WORD be m s;
         (vd_aux, s) = READ_WORD be m s;
         (vd_next, s) = READ_WORD be m s
     in (\<lparr>vd_version = vd_version, vd_flags = vd_flags, vd_ndx = vd_ndx, vd_cnt = vd_cnt, vd_hash = vd_hash, vd_aux = vd_aux, vd_next = vd_next\<rparr>, s))"

definition SWAP_Elf64_Verdef :: "Elf64_Verdef \<Rightarrow> Elf64_Verdef" where [macro_defs]:
  "SWAP_Elf64_Verdef t = t\<lparr>vd_version := SWAP_HALF (vd_version t),
     vd_flags := SWAP_HALF (vd_flags t),
     vd_ndx := SWAP_HALF (vd_ndx t),
     vd_cnt := SWAP_HALF (vd_cnt t),
     vd_hash := SWAP_WORD (vd_hash t),
     vd_aux := SWAP_WORD (vd_aux t),
     vd_next := SWAP_WORD (vd_next t)\<rparr>"

definition WRITE_Elf64_Verdef :: "bool \<Rightarrow> memory \<Rightarrow> addr \<Rightarrow> Elf64_Verdef \<Rightarrow> memory \<times> addr" where [macro_defs]:
  "WRITE_Elf64_Verdef be m dst t =
    (let (m, dst) = WRITE_HALF be m dst (vd_version t);
         (m, dst) = WRITE_HALF be m dst (vd_flags t);
         (m, dst) = WRITE_HALF be m dst (vd_ndx t);
         (m, dst) = WRITE_HALF be m dst (vd_cnt t);
         (m, dst) = WRITE_WORD be m dst (vd_hash t);
         (m, dst) = WRITE_WORD be m dst (vd_aux t);
         (m, dst) = WRITE_WORD be m dst (vd_next t)
     in (m, dst))"

definition READ_Elf32_Verdaux :: "bool \<Rightarrow> memory \<Rightarrow> addr \<Rightarrow> Elf32_Verdaux \<times> addr" where [macro_defs]:
  "READ_Elf32_Verdaux be m s =
    (let (vda_name, s) = READ_WORD be m s;
         (vda_next, s) = READ_WORD be m s
     in (\<lparr>vda_name = vda_name, vda_next = vda_next\<rparr>, s))"

definition SWAP_Elf32_Verdaux :: "Elf32_Verdaux \<Rightarrow> Elf32_Verdaux" where [macro_defs]:
  "SWAP_Elf32_Verdaux t = t\<lparr>vda_name := SWAP_WORD (vda_name t),
     vda_next := SWAP_WORD (vda_next t)\<rparr>"

definition WRITE_Elf32_Verdaux :: "bool \<Rightarrow> memory \<Rightarrow> addr \<Rightarrow> Elf32_Verdaux \<Rightarrow> memory \<times> addr" where [macro_defs]:
  "WRITE_Elf32_Verdaux be m dst t =
    (let (m, dst) = WRITE_WORD be m dst (vda_name t);
         (m, dst) = WRITE_WORD be m dst (vda_next t)
     in (m, dst))"

definition READ_Elf64_Verdaux :: "bool \<Rightarrow> memory \<Rightarrow> addr \<Rightarrow> Elf64_Verdaux \<times> addr" where [macro_defs]:
  "READ_Elf64_Verdaux be m s =
    (let (vda_name, s) = READ_WORD be m s;
         (vda_next, s) = READ_WORD be m s
     in (\<lparr>vda_name = vda_name, vda_next = vda_next\<rparr>, s))"

definition SWAP_Elf64_Verdaux :: "Elf64_Verdaux \<Rightarrow> Elf64_Verdaux" where [macro_defs]:
  "SWAP_Elf64_Verdaux t = t\<lparr>vda_name := SWAP_WORD (vda_name t),
     vda_next := SWAP_WORD (vda_next t)\<rparr>"

definition WRITE_Elf64_Verdaux :: "bool \<Rightarrow> memory \<Rightarrow> addr \<Rightarrow> Elf64_Verdaux \<Rightarrow> memory \<times> addr" where [macro_defs]:
  "WRITE_Elf64_Verdaux be m dst t =
    (let (m, dst) = WRITE_WORD be m dst (vda_name t);
         (m, dst) = WRITE_WORD be m dst (vda_next t)
     in (m, dst))"

definition READ_Elf32_Verneed :: "bool \<Rightarrow> memory \<Rightarrow> addr \<Rightarrow> Elf32_Verneed \<times> addr" where [macro_defs]:
  "READ_Elf32_Verneed be m s =
    (let (vn_version, s) = READ_HALF be m s;
         (vn_cnt, s) = READ_HALF be m s;
         (vn_file, s) = READ_WORD be m s;
         (vn_aux, s) = READ_WORD be m s;
         (vn_next, s) = READ_WORD be m s
     in (\<lparr>vn_version = vn_version, vn_cnt = vn_cnt, vn_file = vn_file, vn_aux = vn_aux, vn_next = vn_next\<rparr>, s))"

definition SWAP_Elf32_Verneed :: "Elf32_Verneed \<Rightarrow> Elf32_Verneed" where [macro_defs]:
  "SWAP_Elf32_Verneed t = t\<lparr>vn_version := SWAP_HALF (vn_version t),
     vn_cnt := SWAP_HALF (vn_cnt t),
     vn_file := SWAP_WORD (vn_file t),
     vn_aux := SWAP_WORD (vn_aux t),
     vn_next := SWAP_WORD (vn_next t)\<rparr>"

definition WRITE_Elf32_Verneed :: "bool \<Rightarrow> memory \<Rightarrow> addr \<Rightarrow> Elf32_Verneed \<Rightarrow> memory \<times> addr" where [macro_defs]:
  "WRITE_Elf32_Verneed be m dst t =
    (let (m, dst) = WRITE_HALF be m dst (vn_version t);
         (m, dst) = WRITE_HALF be m dst (vn_cnt t);
         (m, dst) = WRITE_WORD be m dst (vn_file t);
         (m, dst) = WRITE_WORD be m dst (vn_aux t);
         (m, dst) = WRITE_WORD be m dst (vn_next t)
     in (m, dst))"

definition READ_Elf64_Verneed :: "bool \<Rightarrow> memory \<Rightarrow> addr \<Rightarrow> Elf64_Verneed \<times> addr" where [macro_defs]:
  "READ_Elf64_Verneed be m s =
    (let (vn_version, s) = READ_HALF be m s;
         (vn_cnt, s) = READ_HALF be m s;
         (vn_file, s) = READ_WORD be m s;
         (vn_aux, s) = READ_WORD be m s;
         (vn_next, s) = READ_WORD be m s
     in (\<lparr>vn_version = vn_version, vn_cnt = vn_cnt, vn_file = vn_file, vn_aux = vn_aux, vn_next = vn_next\<rparr>, s))"

definition SWAP_Elf64_Verneed :: "Elf64_Verneed \<Rightarrow> Elf64_Verneed" where [macro_defs]:
  "SWAP_Elf64_Verneed t = t\<lparr>vn_version := SWAP_HALF (vn_version t),
     vn_cnt := SWAP_HALF (vn_cnt t),
     vn_file := SWAP_WORD (vn_file t),
     vn_aux := SWAP_WORD (vn_aux t),
     vn_next := SWAP_WORD (vn_next t)\<rparr>"

definition WRITE_Elf64_Verneed :: "bool \<Rightarrow> memory \<Rightarrow> addr \<Rightarrow> Elf64_Verneed \<Rightarrow> memory \<times> addr" where [macro_defs]:
  "WRITE_Elf64_Verneed be m dst t =
    (let (m, dst) = WRITE_HALF be m dst (vn_version t);
         (m, dst) = WRITE_HALF be m dst (vn_cnt t);
         (m, dst) = WRITE_WORD be m dst (vn_file t);
         (m, dst) = WRITE_WORD be m dst (vn_aux t);
         (m, dst) = WRITE_WORD be m dst (vn_next t)
     in (m, dst))"

definition READ_Elf32_Vernaux :: "bool \<Rightarrow> memory \<Rightarrow> addr \<Rightarrow> Elf32_Vernaux \<times> addr" where [macro_defs]:
  "READ_Elf32_Vernaux be m s =
    (let (vna_hash, s) = READ_WORD be m s;
         (vna_flags, s) = READ_HALF be m s;
         (vna_other, s) = READ_HALF be m s;
         (vna_name, s) = READ_WORD be m s;
         (vna_next, s) = READ_WORD be m s
     in (\<lparr>vna_hash = vna_hash, vna_flags = vna_flags, vna_other = vna_other, vna_name = vna_name, vna_next = vna_next\<rparr>, s))"

definition SWAP_Elf32_Vernaux :: "Elf32_Vernaux \<Rightarrow> Elf32_Vernaux" where [macro_defs]:
  "SWAP_Elf32_Vernaux t = t\<lparr>vna_hash := SWAP_WORD (vna_hash t),
     vna_flags := SWAP_HALF (vna_flags t),
     vna_other := SWAP_HALF (vna_other t),
     vna_name := SWAP_WORD (vna_name t),
     vna_next := SWAP_WORD (vna_next t)\<rparr>"

definition WRITE_Elf32_Vernaux :: "bool \<Rightarrow> memory \<Rightarrow> addr \<Rightarrow> Elf32_Vernaux \<Rightarrow> memory \<times> addr" where [macro_defs]:
  "WRITE_Elf32_Vernaux be m dst t =
    (let (m, dst) = WRITE_WORD be m dst (vna_hash t);
         (m, dst) = WRITE_HALF be m dst (vna_flags t);
         (m, dst) = WRITE_HALF be m dst (vna_other t);
         (m, dst) = WRITE_WORD be m dst (vna_name t);
         (m, dst) = WRITE_WORD be m dst (vna_next t)
     in (m, dst))"

definition READ_Elf64_Vernaux :: "bool \<Rightarrow> memory \<Rightarrow> addr \<Rightarrow> Elf64_Vernaux \<times> addr" where [macro_defs]:
  "READ_Elf64_Vernaux be m s =
    (let (vna_hash, s) = READ_WORD be m s;
         (vna_flags, s) = READ_HALF be m s;
         (vna_other, s) = READ_HALF be m s;
         (vna_name, s) = READ_WORD be m s;
         (vna_next, s) = READ_WORD be m s
     in (\<lparr>vna_hash = vna_hash, vna_flags = vna_flags, vna_other = vna_other, vna_name = vna_name, vna_next = vna_next\<rparr>, s))"

definition SWAP_Elf64_Vernaux :: "Elf64_Vernaux \<Rightarrow> Elf64_Vernaux" where [macro_defs]:
  "SWAP_Elf64_Vernaux t = t\<lparr>vna_hash := SWAP_WORD (vna_hash t),
     vna_flags := SWAP_HALF (vna_flags t),
     vna_other := SWAP_HALF (vna_other t),
     vna_name := SWAP_WORD (vna_name t),
     vna_next := SWAP_WORD (vna_next t)\<rparr>"

definition WRITE_Elf64_Vernaux :: "bool \<Rightarrow> memory \<Rightarrow> addr \<Rightarrow> Elf64_Vernaux \<Rightarrow> memory \<times> addr" where [macro_defs]:
  "WRITE_Elf64_Vernaux be m dst t =
    (let (m, dst) = WRITE_WORD be m dst (vna_hash t);
         (m, dst) = WRITE_HALF be m dst (vna_flags t);
         (m, dst) = WRITE_HALF be m dst (vna_other t);
         (m, dst) = WRITE_WORD be m dst (vna_name t);
         (m, dst) = WRITE_WORD be m dst (vna_next t)
     in (m, dst))"

section \<open>Integer lemmas\<close>

lemma swap_step_le_word:
  assumes "8 \<le> LENGTH('a::len)"
  shows "swap_step (le_word (rev (le_bytes (Suc k) w)), drop_bit (8 * k) w) =
     (le_word (rev (le_bytes (Suc (Suc k)) w)), drop_bit (8 * Suc k) (w :: 'a word))"
  using assms
  by (simp add: swap_step_def le_bytes_Suc [of "Suc k"] ucast_byte_AND drop_bit_drop_bit
      add.commute or.commute Let_def)

lemma swap_step_funpow:
  assumes "8 \<le> LENGTH('a::len)"
  shows "(swap_step ^^ k) (w AND 0xFF, w) =
     (le_word (rev (le_bytes (Suc k) w)), drop_bit (8 * k) (w :: 'a word))"
proof (induction k)
  case 0
  then show ?case using assms by (simp add: le_bytes_def ucast_byte_AND)
next
  case (Suc k)
  then show ?case using swap_step_le_word [OF assms, of k w] by simp
qed

lemma SWAP_HALF_le: "SWAP_HALF w = le_word (rev (le_bytes 2 w))"
  using swap_step_funpow [of 1 w] by (simp add: SWAP_HALF_def numeral_nat)

lemma SWAP_WORD_le: "SWAP_WORD w = le_word (rev (le_bytes 4 w))"
  using swap_step_funpow [of 3 w] by (simp add: SWAP_WORD_def numeral_nat)

lemma SWAP_WORD64_le: "SWAP_WORD64 w = le_word (rev (le_bytes 8 w))"
  using swap_step_funpow [of 7 w] by (simp add: SWAP_WORD64_def numeral_nat)

lemma host_bytes_rev: "LENGTH('a::len) = 8 * n \<Longrightarrow>
    host_bytes be n (le_word (rev (le_bytes n w)) :: 'a word) = host_bytes (\<not> be) n (w :: 'a word)"
  by (simp add: host_bytes_def le_bytes_le_word)

text \<open>The swap macros reverse the object representation: the value's bytes in the other order.\<close>

lemma host_bytes_SWAP [simp]:
  "host_bytes be 2 (SWAP_HALF h) = host_bytes (\<not> be) 2 h"
  "host_bytes be 4 (SWAP_WORD w) = host_bytes (\<not> be) 4 w"
  "host_bytes be 8 (SWAP_WORD64 x) = host_bytes (\<not> be) 8 x"
  by (simp_all add: SWAP_HALF_le SWAP_WORD_le SWAP_WORD64_le host_bytes_rev)

lemma put_bytes_Cons: "put_bytes m a (b # bs) = put_bytes (m(a := b)) (Suc a) bs"
  by (rule ext) (auto simp: put_bytes_def nth_Cons' )

lemma upds_put_bytes:
  "length q = 2 \<Longrightarrow> m(P := q ! 0, P + 1 := q ! 1) = put_bytes m P q"
  "length q = 4 \<Longrightarrow> m(P := q ! 0, P + 1 := q ! 1, P + 2 := q ! 2, P + 3 := q ! 3) = put_bytes m P q"
  "length q = 8 \<Longrightarrow>
     m(P := q ! 0, P + 1 := q ! 1, P + 2 := q ! 2, P + 3 := q ! 3,
       P + 4 := q ! 4, P + 5 := q ! 5, P + 6 := q ! 6, P + 7 := q ! 7) = put_bytes m P q"
  by (auto simp: length_Suc_conv numeral_nat put_bytes_Cons)

lemma WRITE_simps [simp]:
  "WRITE_BYTE be m P b = (put_bytes m P [b], P + 1)"
  "WRITE_HALF be m P h = (put_bytes m P (host_bytes be 2 h), P + 2)"
  "WRITE_WORD be m P w = (put_bytes m P (host_bytes be 4 w), P + 4)"
  "WRITE_WORD64 be m P x = (put_bytes m P (host_bytes be 8 x), P + 8)"
  by (simp_all only: WRITE_BYTE_def WRITE_HALF_def WRITE_WORD_def WRITE_WORD64_def Let_def
      upds_put_bytes length_host_bytes put_bytes_Cons put_bytes_Nil)

lemma bytes_at_numeral:
  "bytes_at m P 2 = [m P, m (P + 1)]"
  "bytes_at m P 4 = [m P, m (P + 1), m (P + 2), m (P + 3)]"
  "bytes_at m P 8 = [m P, m (P + 1), m (P + 2), m (P + 3), m (P + 4), m (P + 5), m (P + 6), m (P + 7)]"
  by (simp_all add: bytes_at_def numeral_nat upt_rec)

lemma READ_simps [simp]:
  "READ_BYTE be m P = (m P, P + 1)"
  "READ_HALF be m P = (host_word be (bytes_at m P 2), P + 2)"
  "READ_WORD be m P = (host_word be (bytes_at m P 4), P + 4)"
  "READ_WORD64 be m P = (host_word be (bytes_at m P 8), P + 8)"
  "READ_IDENT be m P = (bytes_at m P 16, P + 16)"
  by (simp_all only: READ_BYTE_def READ_HALF_def READ_WORD_def READ_WORD64_def READ_IDENT_def
      bytes_at_numeral)

section \<open>The contract of a structure's macros\<close>

locale elf_codec =
  fixes of_bytes :: "bool \<Rightarrow> byte list \<Rightarrow> 'a"
    and to_bytes :: "bool \<Rightarrow> 'a \<Rightarrow> byte list"
    and READ :: "bool \<Rightarrow> memory \<Rightarrow> addr \<Rightarrow> 'a \<times> addr"
    and SWAP :: "'a \<Rightarrow> 'a"
    and WRITE :: "bool \<Rightarrow> memory \<Rightarrow> addr \<Rightarrow> 'a \<Rightarrow> memory \<times> addr"
    and fsz :: nat
    and ok :: "'a \<Rightarrow> bool"
  assumes length_to_bytes: "ok t \<Longrightarrow> length (to_bytes be t) = fsz"
    and of_to: "ok t \<Longrightarrow> of_bytes be (to_bytes be t) = t"
    and to_of: "length bs = fsz \<Longrightarrow> to_bytes be (of_bytes be bs) = bs"
    and ok_of: "length bs = fsz \<Longrightarrow> ok (of_bytes be bs)"
    and ok_SWAP: "ok t \<Longrightarrow> ok (SWAP t)"
    and to_SWAP: "to_bytes be (SWAP t) = to_bytes (\<not> be) t"
    and READ_eq: "READ be m s = (of_bytes be (bytes_at m s fsz), s + fsz)"
    and WRITE_eq: "ok t \<Longrightarrow> WRITE be m dst t = (put_bytes m dst (to_bytes be t), dst + fsz)"
begin

lemma SWAP_of: "length bs = fsz \<Longrightarrow> SWAP (of_bytes be bs) = of_bytes (\<not> be) bs"
  using of_to [of "SWAP (of_bytes be bs)" "\<not> be"] by (simp add: ok_of ok_SWAP to_SWAP to_of)

lemma SWAP_SWAP: "ok t \<Longrightarrow> SWAP (SWAP t) = t"
  using of_to [of t "True"] of_to [of "SWAP (SWAP t)" True] by (simp add: ok_SWAP to_SWAP)

lemma to_bytes_inj: "ok s \<Longrightarrow> ok t \<Longrightarrow> to_bytes be s = to_bytes be t \<Longrightarrow> s = t"
  by (metis of_to)

text \<open>The bytes of one object in the opposite byte order.\<close>

lemma flip_any:
  "length b = fsz \<Longrightarrow> to_bytes be (of_bytes (\<not> be) b) = to_bytes True (of_bytes False b)"
  using to_SWAP [of True "of_bytes True b"] by (cases be) (simp_all add: SWAP_of)

lemma object_bytes:
  "length b = fsz \<Longrightarrow>
     to_bytes be (of_bytes (be \<noteq> byteswap) b) = (if byteswap then to_bytes True (of_bytes False b) else b)"
  "length b = fsz \<Longrightarrow>
     to_bytes (be \<noteq> byteswap) (of_bytes be b) = (if byteswap then to_bytes True (of_bytes False b) else b)"
  using flip_any [of b be] flip_any [of b "\<not> be"] by (auto simp: to_of)

lemma flip_length: "length b = fsz \<Longrightarrow> length (to_bytes True (of_bytes False b)) = fsz"
  by (intro length_to_bytes ok_of)

lemma flip_flip:
  "length b = fsz \<Longrightarrow> to_bytes True (of_bytes False (to_bytes True (of_bytes False b))) = b"
proof -
  assume b: "length b = fsz"
  have "to_bytes True (of_bytes False b) = to_bytes False (of_bytes True b)"
    using flip_any [OF b, of False] by simp
  then have "of_bytes False (to_bytes True (of_bytes False b)) = of_bytes True b"
    using b by (simp add: of_to ok_of)
  then show ?thesis using b by (simp add: to_of)
qed

end

text \<open>Splitting a byte list of known length into the members of a structure.\<close>

lemma take_drop_join: "j = k + n \<Longrightarrow> take n (drop k bs) @ drop j bs = drop k bs"
  by (metis add.commute append_take_drop_id drop_drop)

lemma nth_Cons_drop: "j = Suc k \<Longrightarrow> k < length bs \<Longrightarrow> bs ! k # drop j bs = drop k bs"
  by (simp add: Cons_nth_drop_Suc)

lemmas codec_simps = take_drop_join nth_Cons_drop put_bytes_append put_bytes_Cons nth_append WRITE_IDENT_def
  Let_def case_prod_beta add.assoc

section \<open>Every structure meets the contract\<close>

interpretation elf32cap: elf_codec Elf32_Cap_of Elf32_Cap_bytes READ_Elf32_Cap SWAP_Elf32_Cap WRITE_Elf32_Cap 8 "\<lambda>_. True"
  by unfold_locales (simp_all add: codec_defs macro_defs codec_simps del: add_2_eq_Suc add_2_eq_Suc')

interpretation elf64cap: elf_codec Elf64_Cap_of Elf64_Cap_bytes READ_Elf64_Cap SWAP_Elf64_Cap WRITE_Elf64_Cap 16 "\<lambda>_. True"
  by unfold_locales (simp_all add: codec_defs macro_defs codec_simps del: add_2_eq_Suc add_2_eq_Suc')

interpretation elf32dyn: elf_codec Elf32_Dyn_of Elf32_Dyn_bytes READ_Elf32_Dyn SWAP_Elf32_Dyn WRITE_Elf32_Dyn 8 "\<lambda>_. True"
  by unfold_locales (simp_all add: codec_defs macro_defs codec_simps del: add_2_eq_Suc add_2_eq_Suc')

interpretation elf64dyn: elf_codec Elf64_Dyn_of Elf64_Dyn_bytes READ_Elf64_Dyn SWAP_Elf64_Dyn WRITE_Elf64_Dyn 16 "\<lambda>_. True"
  by unfold_locales (simp_all add: codec_defs macro_defs codec_simps del: add_2_eq_Suc add_2_eq_Suc')

interpretation elf32ehdr: elf_codec Elf32_Ehdr_of Elf32_Ehdr_bytes READ_Elf32_Ehdr SWAP_Elf32_Ehdr WRITE_Elf32_Ehdr 52 "\<lambda>t. length (e_ident t) = EI_NIDENT"
  by unfold_locales (simp_all add: codec_defs macro_defs codec_simps del: add_2_eq_Suc add_2_eq_Suc')

interpretation elf64ehdr: elf_codec Elf64_Ehdr_of Elf64_Ehdr_bytes READ_Elf64_Ehdr SWAP_Elf64_Ehdr WRITE_Elf64_Ehdr 64 "\<lambda>t. length (e_ident t) = EI_NIDENT"
  by unfold_locales (simp_all add: codec_defs macro_defs codec_simps del: add_2_eq_Suc add_2_eq_Suc')

interpretation elf32move: elf_codec Elf32_Move_of Elf32_Move_bytes READ_Elf32_Move SWAP_Elf32_Move WRITE_Elf32_Move 20 "\<lambda>_. True"
  by unfold_locales (simp_all add: codec_defs macro_defs codec_simps del: add_2_eq_Suc add_2_eq_Suc')

interpretation elf64move: elf_codec Elf64_Move_of Elf64_Move_bytes READ_Elf64_Move SWAP_Elf64_Move WRITE_Elf64_Move 28 "\<lambda>_. True"
  by unfold_locales (simp_all add: codec_defs macro_defs codec_simps del: add_2_eq_Suc add_2_eq_Suc')

interpretation elf32phdr: elf_codec Elf32_Phdr_of Elf32_Phdr_bytes READ_Elf32_Phdr SWAP_Elf32_Phdr WRITE_Elf32_Phdr 32 "\<lambda>_. True"
  by unfold_locales (simp_all add: codec_defs macro_defs codec_simps del: add_2_eq_Suc add_2_eq_Suc')

interpretation elf64phdr: elf_codec Elf64_Phdr_of Elf64_Phdr_bytes READ_Elf64_Phdr SWAP_Elf64_Phdr WRITE_Elf64_Phdr 56 "\<lambda>_. True"
  by unfold_locales (simp_all add: codec_defs macro_defs codec_simps del: add_2_eq_Suc add_2_eq_Suc')

interpretation elf32rel: elf_codec Elf32_Rel_of Elf32_Rel_bytes READ_Elf32_Rel SWAP_Elf32_Rel WRITE_Elf32_Rel 8 "\<lambda>_. True"
  by unfold_locales (simp_all add: codec_defs macro_defs codec_simps del: add_2_eq_Suc add_2_eq_Suc')

interpretation elf64rel: elf_codec Elf64_Rel_of Elf64_Rel_bytes READ_Elf64_Rel SWAP_Elf64_Rel WRITE_Elf64_Rel 16 "\<lambda>_. True"
  by unfold_locales (simp_all add: codec_defs macro_defs codec_simps del: add_2_eq_Suc add_2_eq_Suc')

interpretation elf32rela: elf_codec Elf32_Rela_of Elf32_Rela_bytes READ_Elf32_Rela SWAP_Elf32_Rela WRITE_Elf32_Rela 12 "\<lambda>_. True"
  by unfold_locales (simp_all add: codec_defs macro_defs codec_simps del: add_2_eq_Suc add_2_eq_Suc')

interpretation elf64rela: elf_codec Elf64_Rela_of Elf64_Rela_bytes READ_Elf64_Rela SWAP_Elf64_Rela WRITE_Elf64_Rela 24 "\<lambda>_. True"
  by unfold_locales (simp_all add: codec_defs macro_defs codec_simps del: add_2_eq_Suc add_2_eq_Suc')

interpretation elf32shdr: elf_codec Elf32_Shdr_of Elf32_Shdr_bytes READ_Elf32_Shdr SWAP_Elf32_Shdr WRITE_Elf32_Shdr 40 "\<lambda>_. True"
  by unfold_locales (simp_all add: codec_defs macro_defs codec_simps del: add_2_eq_Suc add_2_eq_Suc')

interpretation elf64shdr: elf_codec Elf64_Shdr_of Elf64_Shdr_bytes READ_Elf64_Shdr SWAP_Elf64_Shdr WRITE_Elf64_Shdr 64 "\<lambda>_. True"
  by unfold_locales (simp_all add: codec_defs macro_defs codec_simps del: add_2_eq_Suc add_2_eq_Suc')

interpretation elf32syminfo: elf_codec Elf32_Syminfo_of Elf32_Syminfo_bytes READ_Elf32_Syminfo SWAP_Elf32_Syminfo WRITE_Elf32_Syminfo 4 "\<lambda>_. True"
  by unfold_locales (simp_all add: codec_defs macro_defs codec_simps del: add_2_eq_Suc add_2_eq_Suc')

interpretation elf64syminfo: elf_codec Elf64_Syminfo_of Elf64_Syminfo_bytes READ_Elf64_Syminfo SWAP_Elf64_Syminfo WRITE_Elf64_Syminfo 4 "\<lambda>_. True"
  by unfold_locales (simp_all add: codec_defs macro_defs codec_simps del: add_2_eq_Suc add_2_eq_Suc')

interpretation elf32sym: elf_codec Elf32_Sym_of Elf32_Sym_bytes READ_Elf32_Sym SWAP_Elf32_Sym WRITE_Elf32_Sym 16 "\<lambda>_. True"
  by unfold_locales (simp_all add: codec_defs macro_defs codec_simps del: add_2_eq_Suc add_2_eq_Suc', simp add: add.commute)

interpretation elf64sym: elf_codec Elf64_Sym_of Elf64_Sym_bytes READ_Elf64_Sym SWAP_Elf64_Sym WRITE_Elf64_Sym 24 "\<lambda>_. True"
  by unfold_locales (simp_all add: codec_defs macro_defs codec_simps del: add_2_eq_Suc add_2_eq_Suc', simp add: add.commute)

interpretation elf32verdef: elf_codec Elf32_Verdef_of Elf32_Verdef_bytes READ_Elf32_Verdef SWAP_Elf32_Verdef WRITE_Elf32_Verdef 20 "\<lambda>_. True"
  by unfold_locales (simp_all add: codec_defs macro_defs codec_simps del: add_2_eq_Suc add_2_eq_Suc')

interpretation elf64verdef: elf_codec Elf64_Verdef_of Elf64_Verdef_bytes READ_Elf64_Verdef SWAP_Elf64_Verdef WRITE_Elf64_Verdef 20 "\<lambda>_. True"
  by unfold_locales (simp_all add: codec_defs macro_defs codec_simps del: add_2_eq_Suc add_2_eq_Suc')

interpretation elf32verdaux: elf_codec Elf32_Verdaux_of Elf32_Verdaux_bytes READ_Elf32_Verdaux SWAP_Elf32_Verdaux WRITE_Elf32_Verdaux 8 "\<lambda>_. True"
  by unfold_locales (simp_all add: codec_defs macro_defs codec_simps del: add_2_eq_Suc add_2_eq_Suc')

interpretation elf64verdaux: elf_codec Elf64_Verdaux_of Elf64_Verdaux_bytes READ_Elf64_Verdaux SWAP_Elf64_Verdaux WRITE_Elf64_Verdaux 8 "\<lambda>_. True"
  by unfold_locales (simp_all add: codec_defs macro_defs codec_simps del: add_2_eq_Suc add_2_eq_Suc')

interpretation elf32verneed: elf_codec Elf32_Verneed_of Elf32_Verneed_bytes READ_Elf32_Verneed SWAP_Elf32_Verneed WRITE_Elf32_Verneed 16 "\<lambda>_. True"
  by unfold_locales (simp_all add: codec_defs macro_defs codec_simps del: add_2_eq_Suc add_2_eq_Suc')

interpretation elf64verneed: elf_codec Elf64_Verneed_of Elf64_Verneed_bytes READ_Elf64_Verneed SWAP_Elf64_Verneed WRITE_Elf64_Verneed 16 "\<lambda>_. True"
  by unfold_locales (simp_all add: codec_defs macro_defs codec_simps del: add_2_eq_Suc add_2_eq_Suc')

interpretation elf32vernaux: elf_codec Elf32_Vernaux_of Elf32_Vernaux_bytes READ_Elf32_Vernaux SWAP_Elf32_Vernaux WRITE_Elf32_Vernaux 16 "\<lambda>_. True"
  by unfold_locales (simp_all add: codec_defs macro_defs codec_simps del: add_2_eq_Suc add_2_eq_Suc')

interpretation elf64vernaux: elf_codec Elf64_Vernaux_of Elf64_Vernaux_bytes READ_Elf64_Vernaux SWAP_Elf64_Vernaux WRITE_Elf64_Vernaux 16 "\<lambda>_. True"
  by unfold_locales (simp_all add: codec_defs macro_defs codec_simps del: add_2_eq_Suc add_2_eq_Suc')

end
