(* ===== verification/Libelf_Sizes.thy ===== *)
theory Libelf_Sizes
  imports Elf_Types
begin

text \<open>
  The size and alignment tables of \<open>libelf_fsize.c\<close>, \<open>libelf_msize.c\<close> and \<open>libelf_align.c\<close>
  and the map from section types to data types of \<open>libelf_data.c\<close>.  Functions that may set
  the library's error number return it next to their value.
\<close>

section \<open>Sizes of the C types\<close>

abbreviation (input) sizeof_Elf32_Addr :: nat where "sizeof_Elf32_Addr \<equiv> 4"
abbreviation (input) sizeof_Elf64_Addr :: nat where "sizeof_Elf64_Addr \<equiv> 8"
abbreviation (input) sizeof_Elf32_Half :: nat where "sizeof_Elf32_Half \<equiv> 2"
abbreviation (input) sizeof_Elf64_Half :: nat where "sizeof_Elf64_Half \<equiv> 2"
abbreviation (input) sizeof_Elf32_Off :: nat where "sizeof_Elf32_Off \<equiv> 4"
abbreviation (input) sizeof_Elf64_Off :: nat where "sizeof_Elf64_Off \<equiv> 8"
abbreviation (input) sizeof_Elf32_Sword :: nat where "sizeof_Elf32_Sword \<equiv> 4"
abbreviation (input) sizeof_Elf64_Sword :: nat where "sizeof_Elf64_Sword \<equiv> 4"
abbreviation (input) sizeof_Elf32_Word :: nat where "sizeof_Elf32_Word \<equiv> 4"
abbreviation (input) sizeof_Elf64_Word :: nat where "sizeof_Elf64_Word \<equiv> 4"
abbreviation (input) sizeof_Elf32_Lword :: nat where "sizeof_Elf32_Lword \<equiv> 8"
abbreviation (input) sizeof_Elf64_Lword :: nat where "sizeof_Elf64_Lword \<equiv> 8"
abbreviation (input) sizeof_Elf64_Xword :: nat where "sizeof_Elf64_Xword \<equiv> 8"
abbreviation (input) sizeof_Elf64_Sxword :: nat where "sizeof_Elf64_Sxword \<equiv> 8"
abbreviation (input) sizeof_Elf32_Cap :: nat where "sizeof_Elf32_Cap \<equiv> 8"
abbreviation (input) sizeof_Elf64_Cap :: nat where "sizeof_Elf64_Cap \<equiv> 16"
abbreviation (input) sizeof_Elf32_Dyn :: nat where "sizeof_Elf32_Dyn \<equiv> 8"
abbreviation (input) sizeof_Elf64_Dyn :: nat where "sizeof_Elf64_Dyn \<equiv> 16"
abbreviation (input) sizeof_Elf32_Ehdr :: nat where "sizeof_Elf32_Ehdr \<equiv> 52"
abbreviation (input) sizeof_Elf64_Ehdr :: nat where "sizeof_Elf64_Ehdr \<equiv> 64"
abbreviation (input) sizeof_Elf32_Move :: nat where "sizeof_Elf32_Move \<equiv> 24"
abbreviation (input) sizeof_Elf64_Move :: nat where "sizeof_Elf64_Move \<equiv> 32"
abbreviation (input) sizeof_Elf32_Phdr :: nat where "sizeof_Elf32_Phdr \<equiv> 32"
abbreviation (input) sizeof_Elf64_Phdr :: nat where "sizeof_Elf64_Phdr \<equiv> 56"
abbreviation (input) sizeof_Elf32_Rel :: nat where "sizeof_Elf32_Rel \<equiv> 8"
abbreviation (input) sizeof_Elf64_Rel :: nat where "sizeof_Elf64_Rel \<equiv> 16"
abbreviation (input) sizeof_Elf32_Rela :: nat where "sizeof_Elf32_Rela \<equiv> 12"
abbreviation (input) sizeof_Elf64_Rela :: nat where "sizeof_Elf64_Rela \<equiv> 24"
abbreviation (input) sizeof_Elf32_Shdr :: nat where "sizeof_Elf32_Shdr \<equiv> 40"
abbreviation (input) sizeof_Elf64_Shdr :: nat where "sizeof_Elf64_Shdr \<equiv> 64"
abbreviation (input) sizeof_Elf32_Syminfo :: nat where "sizeof_Elf32_Syminfo \<equiv> 4"
abbreviation (input) sizeof_Elf64_Syminfo :: nat where "sizeof_Elf64_Syminfo \<equiv> 4"
abbreviation (input) sizeof_Elf32_Sym :: nat where "sizeof_Elf32_Sym \<equiv> 16"
abbreviation (input) sizeof_Elf64_Sym :: nat where "sizeof_Elf64_Sym \<equiv> 24"
abbreviation (input) sizeof_Elf32_Verdef :: nat where "sizeof_Elf32_Verdef \<equiv> 20"
abbreviation (input) sizeof_Elf64_Verdef :: nat where "sizeof_Elf64_Verdef \<equiv> 20"
abbreviation (input) sizeof_Elf32_Verdaux :: nat where "sizeof_Elf32_Verdaux \<equiv> 8"
abbreviation (input) sizeof_Elf64_Verdaux :: nat where "sizeof_Elf64_Verdaux \<equiv> 8"
abbreviation (input) sizeof_Elf32_Verneed :: nat where "sizeof_Elf32_Verneed \<equiv> 16"
abbreviation (input) sizeof_Elf64_Verneed :: nat where "sizeof_Elf64_Verneed \<equiv> 16"
abbreviation (input) sizeof_Elf32_Vernaux :: nat where "sizeof_Elf32_Vernaux \<equiv> 16"
abbreviation (input) sizeof_Elf64_Vernaux :: nat where "sizeof_Elf64_Vernaux \<equiv> 16"

section \<open>Definitions\<close>

text \<open>A size together with the error number the call sets, if any.\<close>

fun fsize :: "Elf_Type \<Rightarrow> nat \<times> nat" where
  "fsize ELF_T_ADDR = (sizeof_Elf32_Addr, sizeof_Elf64_Addr)"
| "fsize ELF_T_BYTE = (1, 1)"
| "fsize ELF_T_CAP = (sizeof_Elf32_Word + sizeof_Elf32_Word,
      sizeof_Elf64_Xword + sizeof_Elf64_Xword)"
| "fsize ELF_T_DYN = (sizeof_Elf32_Sword + sizeof_Elf32_Word,
      sizeof_Elf64_Sxword + sizeof_Elf64_Xword)"
| "fsize ELF_T_EHDR = (EI_NIDENT + sizeof_Elf32_Half + sizeof_Elf32_Half + sizeof_Elf32_Word + sizeof_Elf32_Addr + sizeof_Elf32_Off + sizeof_Elf32_Off + sizeof_Elf32_Word + sizeof_Elf32_Half + sizeof_Elf32_Half + sizeof_Elf32_Half + sizeof_Elf32_Half + sizeof_Elf32_Half + sizeof_Elf32_Half,
      EI_NIDENT + sizeof_Elf64_Half + sizeof_Elf64_Half + sizeof_Elf64_Word + sizeof_Elf64_Addr + sizeof_Elf64_Off + sizeof_Elf64_Off + sizeof_Elf64_Word + sizeof_Elf64_Half + sizeof_Elf64_Half + sizeof_Elf64_Half + sizeof_Elf64_Half + sizeof_Elf64_Half + sizeof_Elf64_Half)"
| "fsize ELF_T_GNUHASH = (1, 1)"
| "fsize ELF_T_HALF = (sizeof_Elf32_Half, sizeof_Elf64_Half)"
| "fsize ELF_T_LWORD = (sizeof_Elf32_Lword, sizeof_Elf64_Lword)"
| "fsize ELF_T_MOVE = (sizeof_Elf32_Lword + sizeof_Elf32_Word + sizeof_Elf32_Word + sizeof_Elf32_Half + sizeof_Elf32_Half,
      sizeof_Elf64_Lword + sizeof_Elf64_Xword + sizeof_Elf64_Xword + sizeof_Elf64_Half + sizeof_Elf64_Half)"
| "fsize ELF_T_MOVEP = (0, 0)"
| "fsize ELF_T_NOTE = (1, 1)"
| "fsize ELF_T_OFF = (sizeof_Elf32_Off, sizeof_Elf64_Off)"
| "fsize ELF_T_PHDR = (sizeof_Elf32_Word + sizeof_Elf32_Off + sizeof_Elf32_Addr + sizeof_Elf32_Addr + sizeof_Elf32_Word + sizeof_Elf32_Word + sizeof_Elf32_Word + sizeof_Elf32_Word,
      sizeof_Elf64_Word + sizeof_Elf64_Word + sizeof_Elf64_Off + sizeof_Elf64_Addr + sizeof_Elf64_Addr + sizeof_Elf64_Xword + sizeof_Elf64_Xword + sizeof_Elf64_Xword)"
| "fsize ELF_T_REL = (sizeof_Elf32_Addr + sizeof_Elf32_Word,
      sizeof_Elf64_Addr + sizeof_Elf64_Xword)"
| "fsize ELF_T_RELA = (sizeof_Elf32_Addr + sizeof_Elf32_Word + sizeof_Elf32_Sword,
      sizeof_Elf64_Addr + sizeof_Elf64_Xword + sizeof_Elf64_Sxword)"
| "fsize ELF_T_SHDR = (sizeof_Elf32_Word + sizeof_Elf32_Word + sizeof_Elf32_Word + sizeof_Elf32_Addr + sizeof_Elf32_Off + sizeof_Elf32_Word + sizeof_Elf32_Word + sizeof_Elf32_Word + sizeof_Elf32_Word + sizeof_Elf32_Word,
      sizeof_Elf64_Word + sizeof_Elf64_Word + sizeof_Elf64_Xword + sizeof_Elf64_Addr + sizeof_Elf64_Off + sizeof_Elf64_Xword + sizeof_Elf64_Word + sizeof_Elf64_Word + sizeof_Elf64_Xword + sizeof_Elf64_Xword)"
| "fsize ELF_T_SWORD = (sizeof_Elf32_Sword, sizeof_Elf64_Sword)"
| "fsize ELF_T_SXWORD = (0, sizeof_Elf64_Sxword)"
| "fsize ELF_T_SYMINFO = (sizeof_Elf32_Half + sizeof_Elf32_Half,
      sizeof_Elf64_Half + sizeof_Elf64_Half)"
| "fsize ELF_T_SYM = (sizeof_Elf32_Word + sizeof_Elf32_Addr + sizeof_Elf32_Word + 1 + 1 + sizeof_Elf32_Half,
      sizeof_Elf64_Word + 1 + 1 + sizeof_Elf64_Half + sizeof_Elf64_Addr + sizeof_Elf64_Xword)"
| "fsize ELF_T_VDEF = (1, 1)"
| "fsize ELF_T_VNEED = (1, 1)"
| "fsize ELF_T_WORD = (sizeof_Elf32_Word, sizeof_Elf64_Word)"
| "fsize ELF_T_XWORD = (0, sizeof_Elf64_Xword)"
| "fsize ELF_T_NUM = (0, 0)"

fun msize :: "Elf_Type \<Rightarrow> nat \<times> nat" where
  "msize ELF_T_ADDR = (sizeof_Elf32_Addr, sizeof_Elf64_Addr)"
| "msize ELF_T_BYTE = (1, 1)"
| "msize ELF_T_CAP = (sizeof_Elf32_Cap, sizeof_Elf64_Cap)"
| "msize ELF_T_DYN = (sizeof_Elf32_Dyn, sizeof_Elf64_Dyn)"
| "msize ELF_T_EHDR = (sizeof_Elf32_Ehdr, sizeof_Elf64_Ehdr)"
| "msize ELF_T_GNUHASH = (1, 1)"
| "msize ELF_T_HALF = (sizeof_Elf32_Half, sizeof_Elf64_Half)"
| "msize ELF_T_LWORD = (sizeof_Elf32_Lword, sizeof_Elf64_Lword)"
| "msize ELF_T_MOVE = (sizeof_Elf32_Move, sizeof_Elf64_Move)"
| "msize ELF_T_MOVEP = (0, 0)"
| "msize ELF_T_NOTE = (1, 1)"
| "msize ELF_T_OFF = (sizeof_Elf32_Off, sizeof_Elf64_Off)"
| "msize ELF_T_PHDR = (sizeof_Elf32_Phdr, sizeof_Elf64_Phdr)"
| "msize ELF_T_REL = (sizeof_Elf32_Rel, sizeof_Elf64_Rel)"
| "msize ELF_T_RELA = (sizeof_Elf32_Rela, sizeof_Elf64_Rela)"
| "msize ELF_T_SHDR = (sizeof_Elf32_Shdr, sizeof_Elf64_Shdr)"
| "msize ELF_T_SWORD = (sizeof_Elf32_Sword, sizeof_Elf64_Sword)"
| "msize ELF_T_SXWORD = (0, sizeof_Elf64_Sxword)"
| "msize ELF_T_SYMINFO = (sizeof_Elf32_Syminfo, sizeof_Elf64_Syminfo)"
| "msize ELF_T_SYM = (sizeof_Elf32_Sym, sizeof_Elf64_Sym)"
| "msize ELF_T_VDEF = (1, 1)"
| "msize ELF_T_VNEED = (1, 1)"
| "msize ELF_T_WORD = (sizeof_Elf32_Word, sizeof_Elf64_Word)"
| "msize ELF_T_XWORD = (0, sizeof_Elf64_Xword)"
| "msize ELF_T_NUM = (0, 0)"

fun malign :: "Elf_Type \<Rightarrow> nat \<times> nat" where
  "malign ELF_T_ADDR = (4, 8)"
| "malign ELF_T_BYTE = (1, 1)"
| "malign ELF_T_CAP = (4, 8)"
| "malign ELF_T_DYN = (4, 8)"
| "malign ELF_T_EHDR = (4, 8)"
| "malign ELF_T_HALF = (2, 2)"
| "malign ELF_T_LWORD = (8, 8)"
| "malign ELF_T_MOVE = (8, 8)"
| "malign ELF_T_MOVEP = (0, 0)"
| "malign ELF_T_NOTE = (4, 4)"
| "malign ELF_T_OFF = (4, 8)"
| "malign ELF_T_PHDR = (4, 8)"
| "malign ELF_T_REL = (4, 8)"
| "malign ELF_T_RELA = (4, 8)"
| "malign ELF_T_SHDR = (4, 8)"
| "malign ELF_T_SWORD = (4, 4)"
| "malign ELF_T_SXWORD = (0, 8)"
| "malign ELF_T_SYM = (4, 8)"
| "malign ELF_T_SYMINFO = (2, 2)"
| "malign ELF_T_VDEF = (4, 4)"
| "malign ELF_T_VNEED = (4, 4)"
| "malign ELF_T_WORD = (4, 4)"
| "malign ELF_T_XWORD = (0, 8)"
| "malign ELF_T_GNUHASH = (4, 8)"
| "malign ELF_T_NUM = (0, 0)"

fun falign :: "Elf_Type \<Rightarrow> nat \<times> nat" where
  "falign ELF_T_ADDR = (4, 8)"
| "falign ELF_T_BYTE = (1, 1)"
| "falign ELF_T_CAP = (4, 8)"
| "falign ELF_T_DYN = (4, 8)"
| "falign ELF_T_EHDR = (4, 8)"
| "falign ELF_T_HALF = (2, 2)"
| "falign ELF_T_LWORD = (8, 8)"
| "falign ELF_T_MOVE = (8, 8)"
| "falign ELF_T_MOVEP = (0, 0)"
| "falign ELF_T_NOTE = (4, 4)"
| "falign ELF_T_OFF = (4, 8)"
| "falign ELF_T_PHDR = (4, 8)"
| "falign ELF_T_REL = (4, 8)"
| "falign ELF_T_RELA = (4, 8)"
| "falign ELF_T_SHDR = (4, 8)"
| "falign ELF_T_SWORD = (4, 4)"
| "falign ELF_T_SXWORD = (0, 8)"
| "falign ELF_T_SYM = (4, 8)"
| "falign ELF_T_SYMINFO = (2, 2)"
| "falign ELF_T_VDEF = (4, 4)"
| "falign ELF_T_VNEED = (4, 4)"
| "falign ELF_T_WORD = (4, 4)"
| "falign ELF_T_XWORD = (0, 8)"
| "falign ELF_T_GNUHASH = (4, 8)"
| "falign ELF_T_NUM = (0, 0)"

definition libelf_fsize :: "Elf_Type \<Rightarrow> int \<Rightarrow> nat \<Rightarrow> nat \<Rightarrow> nat \<times> Elf_Error option" where
  "libelf_fsize t ec v c =
     (let (sz, err) =
        (if v \<noteq> EV_CURRENT then (0, Some ELF_E_VERSION)
         else if t = ELF_T_NUM then (0, Some ELF_E_ARGUMENT)
         else let sz = (if ec = ELFCLASS64 then snd (fsize t) else fst (fsize t))
              in (sz, if sz = 0 then Some ELF_E_UNIMPL else None))
      in (u64 (sz * c), err))"

definition elf32_fsize :: "Elf_Type \<Rightarrow> nat \<Rightarrow> nat \<Rightarrow> nat \<times> Elf_Error option" where
  "elf32_fsize t c v = libelf_fsize t ELFCLASS32 v c"

definition elf64_fsize :: "Elf_Type \<Rightarrow> nat \<Rightarrow> nat \<Rightarrow> nat \<times> Elf_Error option" where
  "elf64_fsize t c v = libelf_fsize t ELFCLASS64 v c"

text \<open>
  \<open>_libelf_msize\<close> asserts that the class is 32 or 64 and that the type is in range; a failed
  assertion is \<open>None\<close>.
\<close>

definition libelf_msize :: "Elf_Type \<Rightarrow> int \<Rightarrow> nat \<Rightarrow> (nat \<times> Elf_Error option) option" where
  "libelf_msize t ec v =
     (if \<not> (ec = ELFCLASS32 \<or> ec = ELFCLASS64) \<or> t = ELF_T_NUM then None
      else if v \<noteq> EV_CURRENT then Some (0, Some ELF_E_VERSION)
      else Some (if ec = ELFCLASS32 then fst (msize t) else snd (msize t), None))"

definition libelf_malign :: "Elf_Type \<Rightarrow> int \<Rightarrow> nat" where
  "libelf_malign t ec =
     (if t = ELF_T_NUM then 0
      else if ec = ELFCLASS32 then fst (malign t) else snd (malign t))"

definition libelf_falign :: "Elf_Type \<Rightarrow> int \<Rightarrow> nat" where
  "libelf_falign t ec =
     (if t = ELF_T_NUM then 0
      else if ec = ELFCLASS32 then fst (falign t) else snd (falign t))"

text \<open>The data type of a section type; \<open>None\<close> is the result \<open>-1\<close>.\<close>

definition libelf_xlate_shtype :: "32 word \<Rightarrow> Elf_Type option" where
  "libelf_xlate_shtype sht =
    (if sht = SHT_DYNAMIC then Some ELF_T_DYN
     else if sht = SHT_DYNSYM then Some ELF_T_SYM
     else if sht = SHT_FINI_ARRAY then Some ELF_T_ADDR
     else if sht = SHT_GNU_HASH then Some ELF_T_GNUHASH
     else if sht = SHT_GNU_LIBLIST then Some ELF_T_WORD
     else if sht = SHT_GROUP then Some ELF_T_WORD
     else if sht = SHT_HASH then Some ELF_T_WORD
     else if sht = SHT_INIT_ARRAY then Some ELF_T_ADDR
     else if sht = SHT_NOBITS then Some ELF_T_BYTE
     else if sht = SHT_NOTE then Some ELF_T_NOTE
     else if sht = SHT_PREINIT_ARRAY then Some ELF_T_ADDR
     else if sht = SHT_PROGBITS then Some ELF_T_BYTE
     else if sht = SHT_REL then Some ELF_T_REL
     else if sht = SHT_RELA then Some ELF_T_RELA
     else if sht = SHT_STRTAB then Some ELF_T_BYTE
     else if sht = SHT_SYMTAB then Some ELF_T_SYM
     else if sht = SHT_SYMTAB_SHNDX then Some ELF_T_WORD
     else if sht = SHT_SUNW_dof then Some ELF_T_BYTE
     else if sht = SHT_SUNW_move then Some ELF_T_MOVE
     else if sht = SHT_SUNW_syminfo then Some ELF_T_SYMINFO
     else if sht = SHT_SUNW_verdef then Some ELF_T_VDEF
     else if sht = SHT_SUNW_verneed then Some ELF_T_VNEED
     else if sht = SHT_SUNW_versym then Some ELF_T_HALF
     else None)"

section \<open>Lemmas\<close>

text \<open>The types whose file representation is a sequence of fixed-size objects.\<close>

definition fixed_type :: "Elf_Type \<Rightarrow> bool" where
  "fixed_type t \<longleftrightarrow> t \<notin> {ELF_T_BYTE, ELF_T_GNUHASH, ELF_T_NOTE, ELF_T_VDEF, ELF_T_VNEED, ELF_T_MOVEP, ELF_T_NUM}"

definition fsz_of :: "Elf_Type \<Rightarrow> int \<Rightarrow> nat" where
  "fsz_of t ec = (if ec = ELFCLASS64 then snd (fsize t) else fst (fsize t))"

definition msz_of :: "Elf_Type \<Rightarrow> int \<Rightarrow> nat" where
  "msz_of t ec = (if ec = ELFCLASS32 then fst (msize t) else snd (msize t))"

lemma libelf_fsize_current [simp]:
  "t \<noteq> ELF_T_NUM \<Longrightarrow>
     libelf_fsize t ec EV_CURRENT c = (u64 (fsz_of t ec * c), if fsz_of t ec = 0 then Some ELF_E_UNIMPL else None)"
  by (simp add: libelf_fsize_def fsz_of_def)

lemma libelf_msize_current [simp]:
  "ec = ELFCLASS32 \<or> ec = ELFCLASS64 \<Longrightarrow> t \<noteq> ELF_T_NUM \<Longrightarrow>
     libelf_msize t ec EV_CURRENT = Some (msz_of t ec, None)"
  by (auto simp: libelf_msize_def msz_of_def)

lemma fsz_le_msz: "fsz_of t ec \<le> msz_of t ec" if "ec = ELFCLASS32 \<or> ec = ELFCLASS64"
  using that by (cases t) (auto simp: fsz_of_def msz_of_def)

lemma msz_bound: "msz_of t ec \<le> 64" and fsz_bound: "fsz_of t ec \<le> 64"
  by (cases t; simp add: fsz_of_def msz_of_def)+

text \<open>The size of one object, as the converters ask for it.\<close>

lemma elf_fsize_one [simp]:
  assumes "t \<noteq> ELF_T_NUM"
  shows "fst (elf32_fsize t (Suc 0) (Suc 0)) = fst (fsize t)"
    and "fst (elf64_fsize t (Suc 0) (Suc 0)) = snd (fsize t)"
proof -
  have "fst (fsize t) < 18446744073709551616" "snd (fsize t) < 18446744073709551616"
    using fsz_bound [of t ELFCLASS32] fsz_bound [of t ELFCLASS64] by (auto simp: fsz_of_def)
  then show "fst (elf32_fsize t (Suc 0) (Suc 0)) = fst (fsize t)"
    and "fst (elf64_fsize t (Suc 0) (Suc 0)) = snd (fsize t)"
    using assms by (auto simp: elf32_fsize_def elf64_fsize_def libelf_fsize_def Let_def)
qed

lemma libelf_xlate_shtype_range: "libelf_xlate_shtype sht = Some t \<Longrightarrow> t \<noteq> ELF_T_NUM"
  by (auto simp: libelf_xlate_shtype_def split: if_splits)

end
