(* ===== verification/Libelf_Convert.thy ===== *)
theory Libelf_Convert
  imports Libelf_Macros Libelf_Sizes
begin

text \<open>
  The converters of \<open>libelf_convert.c\<close> for integers and for the fixed-size structures.  A
  converter takes the host's byte order, the memory and the C arguments \<open>dst\<close>, \<open>dsz\<close>, \<open>src\<close>,
  \<open>count\<close> and \<open>byteswap\<close>; it returns the new memory and whether it succeeded.  All
  converters of one direction are instances of the loop in the source's m4 template:
  \<open>tof_loop\<close> walks forward over in-memory objects and writes their file representation,
  \<open>tom_loop\<close> walks backward from the last object, so that it may work in place even where
  the in-memory object is larger than the file object, and \<open>tom_fwd_loop\<close> is the forward
  loop of the integer converters.
\<close>

type_synonym converter =
  "bool \<Rightarrow> memory \<Rightarrow> addr \<Rightarrow> nat \<Rightarrow> addr \<Rightarrow> nat \<Rightarrow> bool \<Rightarrow> memory \<times> bool"

named_theorems cvt_defs \<open>definitions of the converters\<close>

section \<open>Definitions\<close>

text \<open>Integers as structures with a single member.\<close>

definition half_of :: "bool \<Rightarrow> byte list \<Rightarrow> 16 word" where "half_of be bs = host_word be (take 2 bs)"
definition word_of :: "bool \<Rightarrow> byte list \<Rightarrow> 32 word" where "word_of be bs = host_word be (take 4 bs)"
definition word64_of :: "bool \<Rightarrow> byte list \<Rightarrow> 64 word" where "word64_of be bs = host_word be (take 8 bs)"
definition half_bytes :: "bool \<Rightarrow> 16 word \<Rightarrow> byte list" where "half_bytes be w = host_bytes be 2 w"
definition word_bytes :: "bool \<Rightarrow> 32 word \<Rightarrow> byte list" where "word_bytes be w = host_bytes be 4 w"
definition word64_bytes :: "bool \<Rightarrow> 64 word \<Rightarrow> byte list" where "word64_bytes be w = host_bytes be 8 w"

text \<open>
  \<open>for (c = 0; c < count; c++) { t = *s++; if (byteswap) SWAP(t); WRITE(dst, t); }\<close>
\<close>

primrec tof_loop :: "(bool \<Rightarrow> byte list \<Rightarrow> 'a) \<Rightarrow> ('a \<Rightarrow> 'a) \<Rightarrow>
    (bool \<Rightarrow> memory \<Rightarrow> addr \<Rightarrow> 'a \<Rightarrow> memory \<times> addr) \<Rightarrow> nat \<Rightarrow> bool \<Rightarrow> bool \<Rightarrow> nat \<Rightarrow>
    memory \<Rightarrow> addr \<Rightarrow> addr \<Rightarrow> memory" where
  "tof_loop of_bytes SWAP WRITE msz be byteswap 0 m dst s = m"
| "tof_loop of_bytes SWAP WRITE msz be byteswap (Suc c) m dst s =
     (let t = of_bytes be (bytes_at m s msz);
          t = (if byteswap then SWAP t else t);
          (m, dst) = WRITE be m dst t
      in tof_loop of_bytes SWAP WRITE msz be byteswap c m dst (s + msz))"

text \<open>
  \<open>while (count--) { s = s0; READ(s, t); if (byteswap) SWAP(t); *d-- = t; s0 -= fsz; }\<close>
\<close>

primrec tom_loop :: "(bool \<Rightarrow> 'a \<Rightarrow> byte list) \<Rightarrow> (bool \<Rightarrow> memory \<Rightarrow> addr \<Rightarrow> 'a \<times> addr) \<Rightarrow>
    ('a \<Rightarrow> 'a) \<Rightarrow> nat \<Rightarrow> nat \<Rightarrow> bool \<Rightarrow> bool \<Rightarrow> nat \<Rightarrow> memory \<Rightarrow> addr \<Rightarrow> addr \<Rightarrow> memory" where
  "tom_loop to_bytes READ SWAP msz fsz be byteswap 0 m d s0 = m"
| "tom_loop to_bytes READ SWAP msz fsz be byteswap (Suc c) m d s0 =
     (let (t, s) = READ be m s0;
          t = (if byteswap then SWAP t else t);
          m = put_bytes m d (to_bytes be t)
      in tom_loop to_bytes READ SWAP msz fsz be byteswap c m (d - msz) (s0 - fsz))"

text \<open>
  \<open>for (c = 0; c < count; c++) { READ(src, t); if (byteswap) SWAP(t); *d++ = t; }\<close>; the integer
  converters reach this loop only with \<open>byteswap\<close> set.
\<close>

primrec tom_fwd_loop :: "(bool \<Rightarrow> 'a \<Rightarrow> byte list) \<Rightarrow> (bool \<Rightarrow> memory \<Rightarrow> addr \<Rightarrow> 'a \<times> addr) \<Rightarrow>
    ('a \<Rightarrow> 'a) \<Rightarrow> nat \<Rightarrow> bool \<Rightarrow> bool \<Rightarrow> nat \<Rightarrow> memory \<Rightarrow> addr \<Rightarrow> addr \<Rightarrow> memory" where
  "tom_fwd_loop to_bytes READ SWAP msz be byteswap 0 m d src = m"
| "tom_fwd_loop to_bytes READ SWAP msz be byteswap (Suc c) m d src =
     (let (t, src) = READ be m src;
          t = (if byteswap then SWAP t else t);
          m = put_bytes m d (to_bytes be t)
      in tom_fwd_loop to_bytes READ SWAP msz be byteswap c m (d + msz) src)"

definition libelf_cvt_BYTE_tox :: converter where [cvt_defs]:
  "libelf_cvt_BYTE_tox be m dst dsz src count byteswap =
     (if dsz < count then (m, False)
      else (if dst \<noteq> src then memcpy m dst src count else m, True))"

definition libelf_cvt_ADDR32_tof :: converter where [cvt_defs]:
  "libelf_cvt_ADDR32_tof be m dst dsz src count byteswap =
     (if \<not> byteswap then (memcpy m dst src (u64 (count * sizeof_Elf32_Addr)), True)
      else (tof_loop word_of SWAP_ADDR32 WRITE_ADDR32 sizeof_Elf32_Addr be True count m dst src, True))"

definition libelf_cvt_ADDR32_tom :: converter where [cvt_defs]:
  "libelf_cvt_ADDR32_tom be m dst dsz src count byteswap =
     (if dsz < u64 (count * sizeof_Elf32_Addr) then (m, False)
      else if \<not> byteswap then (memcpy m dst src (u64 (count * sizeof_Elf32_Addr)), True)
      else (tom_fwd_loop word_bytes READ_ADDR32 SWAP_ADDR32 sizeof_Elf32_Addr be True count m dst src, True))"

definition libelf_cvt_ADDR64_tof :: converter where [cvt_defs]:
  "libelf_cvt_ADDR64_tof be m dst dsz src count byteswap =
     (if \<not> byteswap then (memcpy m dst src (u64 (count * sizeof_Elf64_Addr)), True)
      else (tof_loop word64_of SWAP_ADDR64 WRITE_ADDR64 sizeof_Elf64_Addr be True count m dst src, True))"

definition libelf_cvt_ADDR64_tom :: converter where [cvt_defs]:
  "libelf_cvt_ADDR64_tom be m dst dsz src count byteswap =
     (if dsz < u64 (count * sizeof_Elf64_Addr) then (m, False)
      else if \<not> byteswap then (memcpy m dst src (u64 (count * sizeof_Elf64_Addr)), True)
      else (tom_fwd_loop word64_bytes READ_ADDR64 SWAP_ADDR64 sizeof_Elf64_Addr be True count m dst src, True))"

definition libelf_cvt32_CAP_tof :: converter where [cvt_defs]:
  "libelf_cvt32_CAP_tof be m dst dsz src count byteswap =
     (tof_loop Elf32_Cap_of SWAP_Elf32_Cap WRITE_Elf32_Cap sizeof_Elf32_Cap be byteswap count m dst src, True)"

definition libelf_cvt32_CAP_tom :: converter where [cvt_defs]:
  "libelf_cvt32_CAP_tom be m dst dsz src count byteswap =
     (let fsz = fst (elf32_fsize ELF_T_CAP 1 EV_CURRENT);
          d = dst + (count - 1) * sizeof_Elf32_Cap;
          s0 = src + (count - 1) * fsz
      in if dsz < u64 (count * sizeof_Elf32_Cap) then (m, False)
         else (tom_loop Elf32_Cap_bytes READ_Elf32_Cap SWAP_Elf32_Cap sizeof_Elf32_Cap fsz be byteswap count m d s0, True))"

definition libelf_cvt64_CAP_tof :: converter where [cvt_defs]:
  "libelf_cvt64_CAP_tof be m dst dsz src count byteswap =
     (tof_loop Elf64_Cap_of SWAP_Elf64_Cap WRITE_Elf64_Cap sizeof_Elf64_Cap be byteswap count m dst src, True)"

definition libelf_cvt64_CAP_tom :: converter where [cvt_defs]:
  "libelf_cvt64_CAP_tom be m dst dsz src count byteswap =
     (let fsz = fst (elf64_fsize ELF_T_CAP 1 EV_CURRENT);
          d = dst + (count - 1) * sizeof_Elf64_Cap;
          s0 = src + (count - 1) * fsz
      in if dsz < u64 (count * sizeof_Elf64_Cap) then (m, False)
         else (tom_loop Elf64_Cap_bytes READ_Elf64_Cap SWAP_Elf64_Cap sizeof_Elf64_Cap fsz be byteswap count m d s0, True))"

definition libelf_cvt32_DYN_tof :: converter where [cvt_defs]:
  "libelf_cvt32_DYN_tof be m dst dsz src count byteswap =
     (tof_loop Elf32_Dyn_of SWAP_Elf32_Dyn WRITE_Elf32_Dyn sizeof_Elf32_Dyn be byteswap count m dst src, True)"

definition libelf_cvt32_DYN_tom :: converter where [cvt_defs]:
  "libelf_cvt32_DYN_tom be m dst dsz src count byteswap =
     (let fsz = fst (elf32_fsize ELF_T_DYN 1 EV_CURRENT);
          d = dst + (count - 1) * sizeof_Elf32_Dyn;
          s0 = src + (count - 1) * fsz
      in if dsz < u64 (count * sizeof_Elf32_Dyn) then (m, False)
         else (tom_loop Elf32_Dyn_bytes READ_Elf32_Dyn SWAP_Elf32_Dyn sizeof_Elf32_Dyn fsz be byteswap count m d s0, True))"

definition libelf_cvt64_DYN_tof :: converter where [cvt_defs]:
  "libelf_cvt64_DYN_tof be m dst dsz src count byteswap =
     (tof_loop Elf64_Dyn_of SWAP_Elf64_Dyn WRITE_Elf64_Dyn sizeof_Elf64_Dyn be byteswap count m dst src, True)"

definition libelf_cvt64_DYN_tom :: converter where [cvt_defs]:
  "libelf_cvt64_DYN_tom be m dst dsz src count byteswap =
     (let fsz = fst (elf64_fsize ELF_T_DYN 1 EV_CURRENT);
          d = dst + (count - 1) * sizeof_Elf64_Dyn;
          s0 = src + (count - 1) * fsz
      in if dsz < u64 (count * sizeof_Elf64_Dyn) then (m, False)
         else (tom_loop Elf64_Dyn_bytes READ_Elf64_Dyn SWAP_Elf64_Dyn sizeof_Elf64_Dyn fsz be byteswap count m d s0, True))"

definition libelf_cvt32_EHDR_tof :: converter where [cvt_defs]:
  "libelf_cvt32_EHDR_tof be m dst dsz src count byteswap =
     (tof_loop Elf32_Ehdr_of SWAP_Elf32_Ehdr WRITE_Elf32_Ehdr sizeof_Elf32_Ehdr be byteswap count m dst src, True)"

definition libelf_cvt32_EHDR_tom :: converter where [cvt_defs]:
  "libelf_cvt32_EHDR_tom be m dst dsz src count byteswap =
     (let fsz = fst (elf32_fsize ELF_T_EHDR 1 EV_CURRENT);
          d = dst + (count - 1) * sizeof_Elf32_Ehdr;
          s0 = src + (count - 1) * fsz
      in if dsz < u64 (count * sizeof_Elf32_Ehdr) then (m, False)
         else (tom_loop Elf32_Ehdr_bytes READ_Elf32_Ehdr SWAP_Elf32_Ehdr sizeof_Elf32_Ehdr fsz be byteswap count m d s0, True))"

definition libelf_cvt64_EHDR_tof :: converter where [cvt_defs]:
  "libelf_cvt64_EHDR_tof be m dst dsz src count byteswap =
     (tof_loop Elf64_Ehdr_of SWAP_Elf64_Ehdr WRITE_Elf64_Ehdr sizeof_Elf64_Ehdr be byteswap count m dst src, True)"

definition libelf_cvt64_EHDR_tom :: converter where [cvt_defs]:
  "libelf_cvt64_EHDR_tom be m dst dsz src count byteswap =
     (let fsz = fst (elf64_fsize ELF_T_EHDR 1 EV_CURRENT);
          d = dst + (count - 1) * sizeof_Elf64_Ehdr;
          s0 = src + (count - 1) * fsz
      in if dsz < u64 (count * sizeof_Elf64_Ehdr) then (m, False)
         else (tom_loop Elf64_Ehdr_bytes READ_Elf64_Ehdr SWAP_Elf64_Ehdr sizeof_Elf64_Ehdr fsz be byteswap count m d s0, True))"

definition libelf_cvt_HALF_tof :: converter where [cvt_defs]:
  "libelf_cvt_HALF_tof be m dst dsz src count byteswap =
     (if \<not> byteswap then (memcpy m dst src (u64 (count * sizeof_Elf64_Half)), True)
      else (tof_loop half_of SWAP_HALF WRITE_HALF sizeof_Elf64_Half be True count m dst src, True))"

definition libelf_cvt_HALF_tom :: converter where [cvt_defs]:
  "libelf_cvt_HALF_tom be m dst dsz src count byteswap =
     (if dsz < u64 (count * sizeof_Elf64_Half) then (m, False)
      else if \<not> byteswap then (memcpy m dst src (u64 (count * sizeof_Elf64_Half)), True)
      else (tom_fwd_loop half_bytes READ_HALF SWAP_HALF sizeof_Elf64_Half be True count m dst src, True))"

definition libelf_cvt_LWORD_tof :: converter where [cvt_defs]:
  "libelf_cvt_LWORD_tof be m dst dsz src count byteswap =
     (if \<not> byteswap then (memcpy m dst src (u64 (count * sizeof_Elf64_Lword)), True)
      else (tof_loop word64_of SWAP_LWORD WRITE_LWORD sizeof_Elf64_Lword be True count m dst src, True))"

definition libelf_cvt_LWORD_tom :: converter where [cvt_defs]:
  "libelf_cvt_LWORD_tom be m dst dsz src count byteswap =
     (if dsz < u64 (count * sizeof_Elf64_Lword) then (m, False)
      else if \<not> byteswap then (memcpy m dst src (u64 (count * sizeof_Elf64_Lword)), True)
      else (tom_fwd_loop word64_bytes READ_LWORD SWAP_LWORD sizeof_Elf64_Lword be True count m dst src, True))"

definition libelf_cvt32_MOVE_tof :: converter where [cvt_defs]:
  "libelf_cvt32_MOVE_tof be m dst dsz src count byteswap =
     (tof_loop Elf32_Move_of SWAP_Elf32_Move WRITE_Elf32_Move sizeof_Elf32_Move be byteswap count m dst src, True)"

definition libelf_cvt32_MOVE_tom :: converter where [cvt_defs]:
  "libelf_cvt32_MOVE_tom be m dst dsz src count byteswap =
     (let fsz = fst (elf32_fsize ELF_T_MOVE 1 EV_CURRENT);
          d = dst + (count - 1) * sizeof_Elf32_Move;
          s0 = src + (count - 1) * fsz
      in if dsz < u64 (count * sizeof_Elf32_Move) then (m, False)
         else (tom_loop Elf32_Move_bytes READ_Elf32_Move SWAP_Elf32_Move sizeof_Elf32_Move fsz be byteswap count m d s0, True))"

definition libelf_cvt64_MOVE_tof :: converter where [cvt_defs]:
  "libelf_cvt64_MOVE_tof be m dst dsz src count byteswap =
     (tof_loop Elf64_Move_of SWAP_Elf64_Move WRITE_Elf64_Move sizeof_Elf64_Move be byteswap count m dst src, True)"

definition libelf_cvt64_MOVE_tom :: converter where [cvt_defs]:
  "libelf_cvt64_MOVE_tom be m dst dsz src count byteswap =
     (let fsz = fst (elf64_fsize ELF_T_MOVE 1 EV_CURRENT);
          d = dst + (count - 1) * sizeof_Elf64_Move;
          s0 = src + (count - 1) * fsz
      in if dsz < u64 (count * sizeof_Elf64_Move) then (m, False)
         else (tom_loop Elf64_Move_bytes READ_Elf64_Move SWAP_Elf64_Move sizeof_Elf64_Move fsz be byteswap count m d s0, True))"

definition libelf_cvt_OFF32_tof :: converter where [cvt_defs]:
  "libelf_cvt_OFF32_tof be m dst dsz src count byteswap =
     (if \<not> byteswap then (memcpy m dst src (u64 (count * sizeof_Elf32_Off)), True)
      else (tof_loop word_of SWAP_OFF32 WRITE_OFF32 sizeof_Elf32_Off be True count m dst src, True))"

definition libelf_cvt_OFF32_tom :: converter where [cvt_defs]:
  "libelf_cvt_OFF32_tom be m dst dsz src count byteswap =
     (if dsz < u64 (count * sizeof_Elf32_Off) then (m, False)
      else if \<not> byteswap then (memcpy m dst src (u64 (count * sizeof_Elf32_Off)), True)
      else (tom_fwd_loop word_bytes READ_OFF32 SWAP_OFF32 sizeof_Elf32_Off be True count m dst src, True))"

definition libelf_cvt_OFF64_tof :: converter where [cvt_defs]:
  "libelf_cvt_OFF64_tof be m dst dsz src count byteswap =
     (if \<not> byteswap then (memcpy m dst src (u64 (count * sizeof_Elf64_Off)), True)
      else (tof_loop word64_of SWAP_OFF64 WRITE_OFF64 sizeof_Elf64_Off be True count m dst src, True))"

definition libelf_cvt_OFF64_tom :: converter where [cvt_defs]:
  "libelf_cvt_OFF64_tom be m dst dsz src count byteswap =
     (if dsz < u64 (count * sizeof_Elf64_Off) then (m, False)
      else if \<not> byteswap then (memcpy m dst src (u64 (count * sizeof_Elf64_Off)), True)
      else (tom_fwd_loop word64_bytes READ_OFF64 SWAP_OFF64 sizeof_Elf64_Off be True count m dst src, True))"

definition libelf_cvt32_PHDR_tof :: converter where [cvt_defs]:
  "libelf_cvt32_PHDR_tof be m dst dsz src count byteswap =
     (tof_loop Elf32_Phdr_of SWAP_Elf32_Phdr WRITE_Elf32_Phdr sizeof_Elf32_Phdr be byteswap count m dst src, True)"

definition libelf_cvt32_PHDR_tom :: converter where [cvt_defs]:
  "libelf_cvt32_PHDR_tom be m dst dsz src count byteswap =
     (let fsz = fst (elf32_fsize ELF_T_PHDR 1 EV_CURRENT);
          d = dst + (count - 1) * sizeof_Elf32_Phdr;
          s0 = src + (count - 1) * fsz
      in if dsz < u64 (count * sizeof_Elf32_Phdr) then (m, False)
         else (tom_loop Elf32_Phdr_bytes READ_Elf32_Phdr SWAP_Elf32_Phdr sizeof_Elf32_Phdr fsz be byteswap count m d s0, True))"

definition libelf_cvt64_PHDR_tof :: converter where [cvt_defs]:
  "libelf_cvt64_PHDR_tof be m dst dsz src count byteswap =
     (tof_loop Elf64_Phdr_of SWAP_Elf64_Phdr WRITE_Elf64_Phdr sizeof_Elf64_Phdr be byteswap count m dst src, True)"

definition libelf_cvt64_PHDR_tom :: converter where [cvt_defs]:
  "libelf_cvt64_PHDR_tom be m dst dsz src count byteswap =
     (let fsz = fst (elf64_fsize ELF_T_PHDR 1 EV_CURRENT);
          d = dst + (count - 1) * sizeof_Elf64_Phdr;
          s0 = src + (count - 1) * fsz
      in if dsz < u64 (count * sizeof_Elf64_Phdr) then (m, False)
         else (tom_loop Elf64_Phdr_bytes READ_Elf64_Phdr SWAP_Elf64_Phdr sizeof_Elf64_Phdr fsz be byteswap count m d s0, True))"

definition libelf_cvt32_REL_tof :: converter where [cvt_defs]:
  "libelf_cvt32_REL_tof be m dst dsz src count byteswap =
     (tof_loop Elf32_Rel_of SWAP_Elf32_Rel WRITE_Elf32_Rel sizeof_Elf32_Rel be byteswap count m dst src, True)"

definition libelf_cvt32_REL_tom :: converter where [cvt_defs]:
  "libelf_cvt32_REL_tom be m dst dsz src count byteswap =
     (let fsz = fst (elf32_fsize ELF_T_REL 1 EV_CURRENT);
          d = dst + (count - 1) * sizeof_Elf32_Rel;
          s0 = src + (count - 1) * fsz
      in if dsz < u64 (count * sizeof_Elf32_Rel) then (m, False)
         else (tom_loop Elf32_Rel_bytes READ_Elf32_Rel SWAP_Elf32_Rel sizeof_Elf32_Rel fsz be byteswap count m d s0, True))"

definition libelf_cvt64_REL_tof :: converter where [cvt_defs]:
  "libelf_cvt64_REL_tof be m dst dsz src count byteswap =
     (tof_loop Elf64_Rel_of SWAP_Elf64_Rel WRITE_Elf64_Rel sizeof_Elf64_Rel be byteswap count m dst src, True)"

definition libelf_cvt64_REL_tom :: converter where [cvt_defs]:
  "libelf_cvt64_REL_tom be m dst dsz src count byteswap =
     (let fsz = fst (elf64_fsize ELF_T_REL 1 EV_CURRENT);
          d = dst + (count - 1) * sizeof_Elf64_Rel;
          s0 = src + (count - 1) * fsz
      in if dsz < u64 (count * sizeof_Elf64_Rel) then (m, False)
         else (tom_loop Elf64_Rel_bytes READ_Elf64_Rel SWAP_Elf64_Rel sizeof_Elf64_Rel fsz be byteswap count m d s0, True))"

definition libelf_cvt32_RELA_tof :: converter where [cvt_defs]:
  "libelf_cvt32_RELA_tof be m dst dsz src count byteswap =
     (tof_loop Elf32_Rela_of SWAP_Elf32_Rela WRITE_Elf32_Rela sizeof_Elf32_Rela be byteswap count m dst src, True)"

definition libelf_cvt32_RELA_tom :: converter where [cvt_defs]:
  "libelf_cvt32_RELA_tom be m dst dsz src count byteswap =
     (let fsz = fst (elf32_fsize ELF_T_RELA 1 EV_CURRENT);
          d = dst + (count - 1) * sizeof_Elf32_Rela;
          s0 = src + (count - 1) * fsz
      in if dsz < u64 (count * sizeof_Elf32_Rela) then (m, False)
         else (tom_loop Elf32_Rela_bytes READ_Elf32_Rela SWAP_Elf32_Rela sizeof_Elf32_Rela fsz be byteswap count m d s0, True))"

definition libelf_cvt64_RELA_tof :: converter where [cvt_defs]:
  "libelf_cvt64_RELA_tof be m dst dsz src count byteswap =
     (tof_loop Elf64_Rela_of SWAP_Elf64_Rela WRITE_Elf64_Rela sizeof_Elf64_Rela be byteswap count m dst src, True)"

definition libelf_cvt64_RELA_tom :: converter where [cvt_defs]:
  "libelf_cvt64_RELA_tom be m dst dsz src count byteswap =
     (let fsz = fst (elf64_fsize ELF_T_RELA 1 EV_CURRENT);
          d = dst + (count - 1) * sizeof_Elf64_Rela;
          s0 = src + (count - 1) * fsz
      in if dsz < u64 (count * sizeof_Elf64_Rela) then (m, False)
         else (tom_loop Elf64_Rela_bytes READ_Elf64_Rela SWAP_Elf64_Rela sizeof_Elf64_Rela fsz be byteswap count m d s0, True))"

definition libelf_cvt32_SHDR_tof :: converter where [cvt_defs]:
  "libelf_cvt32_SHDR_tof be m dst dsz src count byteswap =
     (tof_loop Elf32_Shdr_of SWAP_Elf32_Shdr WRITE_Elf32_Shdr sizeof_Elf32_Shdr be byteswap count m dst src, True)"

definition libelf_cvt32_SHDR_tom :: converter where [cvt_defs]:
  "libelf_cvt32_SHDR_tom be m dst dsz src count byteswap =
     (let fsz = fst (elf32_fsize ELF_T_SHDR 1 EV_CURRENT);
          d = dst + (count - 1) * sizeof_Elf32_Shdr;
          s0 = src + (count - 1) * fsz
      in if dsz < u64 (count * sizeof_Elf32_Shdr) then (m, False)
         else (tom_loop Elf32_Shdr_bytes READ_Elf32_Shdr SWAP_Elf32_Shdr sizeof_Elf32_Shdr fsz be byteswap count m d s0, True))"

definition libelf_cvt64_SHDR_tof :: converter where [cvt_defs]:
  "libelf_cvt64_SHDR_tof be m dst dsz src count byteswap =
     (tof_loop Elf64_Shdr_of SWAP_Elf64_Shdr WRITE_Elf64_Shdr sizeof_Elf64_Shdr be byteswap count m dst src, True)"

definition libelf_cvt64_SHDR_tom :: converter where [cvt_defs]:
  "libelf_cvt64_SHDR_tom be m dst dsz src count byteswap =
     (let fsz = fst (elf64_fsize ELF_T_SHDR 1 EV_CURRENT);
          d = dst + (count - 1) * sizeof_Elf64_Shdr;
          s0 = src + (count - 1) * fsz
      in if dsz < u64 (count * sizeof_Elf64_Shdr) then (m, False)
         else (tom_loop Elf64_Shdr_bytes READ_Elf64_Shdr SWAP_Elf64_Shdr sizeof_Elf64_Shdr fsz be byteswap count m d s0, True))"

definition libelf_cvt_SWORD_tof :: converter where [cvt_defs]:
  "libelf_cvt_SWORD_tof be m dst dsz src count byteswap =
     (if \<not> byteswap then (memcpy m dst src (u64 (count * sizeof_Elf64_Sword)), True)
      else (tof_loop word_of SWAP_SWORD WRITE_SWORD sizeof_Elf64_Sword be True count m dst src, True))"

definition libelf_cvt_SWORD_tom :: converter where [cvt_defs]:
  "libelf_cvt_SWORD_tom be m dst dsz src count byteswap =
     (if dsz < u64 (count * sizeof_Elf64_Sword) then (m, False)
      else if \<not> byteswap then (memcpy m dst src (u64 (count * sizeof_Elf64_Sword)), True)
      else (tom_fwd_loop word_bytes READ_SWORD SWAP_SWORD sizeof_Elf64_Sword be True count m dst src, True))"

definition libelf_cvt_SXWORD_tof :: converter where [cvt_defs]:
  "libelf_cvt_SXWORD_tof be m dst dsz src count byteswap =
     (if \<not> byteswap then (memcpy m dst src (u64 (count * sizeof_Elf64_Sxword)), True)
      else (tof_loop word64_of SWAP_SXWORD WRITE_SXWORD sizeof_Elf64_Sxword be True count m dst src, True))"

definition libelf_cvt_SXWORD_tom :: converter where [cvt_defs]:
  "libelf_cvt_SXWORD_tom be m dst dsz src count byteswap =
     (if dsz < u64 (count * sizeof_Elf64_Sxword) then (m, False)
      else if \<not> byteswap then (memcpy m dst src (u64 (count * sizeof_Elf64_Sxword)), True)
      else (tom_fwd_loop word64_bytes READ_SXWORD SWAP_SXWORD sizeof_Elf64_Sxword be True count m dst src, True))"

definition libelf_cvt32_SYMINFO_tof :: converter where [cvt_defs]:
  "libelf_cvt32_SYMINFO_tof be m dst dsz src count byteswap =
     (tof_loop Elf32_Syminfo_of SWAP_Elf32_Syminfo WRITE_Elf32_Syminfo sizeof_Elf32_Syminfo be byteswap count m dst src, True)"

definition libelf_cvt32_SYMINFO_tom :: converter where [cvt_defs]:
  "libelf_cvt32_SYMINFO_tom be m dst dsz src count byteswap =
     (let fsz = fst (elf32_fsize ELF_T_SYMINFO 1 EV_CURRENT);
          d = dst + (count - 1) * sizeof_Elf32_Syminfo;
          s0 = src + (count - 1) * fsz
      in if dsz < u64 (count * sizeof_Elf32_Syminfo) then (m, False)
         else (tom_loop Elf32_Syminfo_bytes READ_Elf32_Syminfo SWAP_Elf32_Syminfo sizeof_Elf32_Syminfo fsz be byteswap count m d s0, True))"

definition libelf_cvt64_SYMINFO_tof :: converter where [cvt_defs]:
  "libelf_cvt64_SYMINFO_tof be m dst dsz src count byteswap =
     (tof_loop Elf64_Syminfo_of SWAP_Elf64_Syminfo WRITE_Elf64_Syminfo sizeof_Elf64_Syminfo be byteswap count m dst src, True)"

definition libelf_cvt64_SYMINFO_tom :: converter where [cvt_defs]:
  "libelf_cvt64_SYMINFO_tom be m dst dsz src count byteswap =
     (let fsz = fst (elf64_fsize ELF_T_SYMINFO 1 EV_CURRENT);
          d = dst + (count - 1) * sizeof_Elf64_Syminfo;
          s0 = src + (count - 1) * fsz
      in if dsz < u64 (count * sizeof_Elf64_Syminfo) then (m, False)
         else (tom_loop Elf64_Syminfo_bytes READ_Elf64_Syminfo SWAP_Elf64_Syminfo sizeof_Elf64_Syminfo fsz be byteswap count m d s0, True))"

definition libelf_cvt32_SYM_tof :: converter where [cvt_defs]:
  "libelf_cvt32_SYM_tof be m dst dsz src count byteswap =
     (tof_loop Elf32_Sym_of SWAP_Elf32_Sym WRITE_Elf32_Sym sizeof_Elf32_Sym be byteswap count m dst src, True)"

definition libelf_cvt32_SYM_tom :: converter where [cvt_defs]:
  "libelf_cvt32_SYM_tom be m dst dsz src count byteswap =
     (let fsz = fst (elf32_fsize ELF_T_SYM 1 EV_CURRENT);
          d = dst + (count - 1) * sizeof_Elf32_Sym;
          s0 = src + (count - 1) * fsz
      in if dsz < u64 (count * sizeof_Elf32_Sym) then (m, False)
         else (tom_loop Elf32_Sym_bytes READ_Elf32_Sym SWAP_Elf32_Sym sizeof_Elf32_Sym fsz be byteswap count m d s0, True))"

definition libelf_cvt64_SYM_tof :: converter where [cvt_defs]:
  "libelf_cvt64_SYM_tof be m dst dsz src count byteswap =
     (tof_loop Elf64_Sym_of SWAP_Elf64_Sym WRITE_Elf64_Sym sizeof_Elf64_Sym be byteswap count m dst src, True)"

definition libelf_cvt64_SYM_tom :: converter where [cvt_defs]:
  "libelf_cvt64_SYM_tom be m dst dsz src count byteswap =
     (let fsz = fst (elf64_fsize ELF_T_SYM 1 EV_CURRENT);
          d = dst + (count - 1) * sizeof_Elf64_Sym;
          s0 = src + (count - 1) * fsz
      in if dsz < u64 (count * sizeof_Elf64_Sym) then (m, False)
         else (tom_loop Elf64_Sym_bytes READ_Elf64_Sym SWAP_Elf64_Sym sizeof_Elf64_Sym fsz be byteswap count m d s0, True))"

definition libelf_cvt_WORD_tof :: converter where [cvt_defs]:
  "libelf_cvt_WORD_tof be m dst dsz src count byteswap =
     (if \<not> byteswap then (memcpy m dst src (u64 (count * sizeof_Elf64_Word)), True)
      else (tof_loop word_of SWAP_WORD WRITE_WORD sizeof_Elf64_Word be True count m dst src, True))"

definition libelf_cvt_WORD_tom :: converter where [cvt_defs]:
  "libelf_cvt_WORD_tom be m dst dsz src count byteswap =
     (if dsz < u64 (count * sizeof_Elf64_Word) then (m, False)
      else if \<not> byteswap then (memcpy m dst src (u64 (count * sizeof_Elf64_Word)), True)
      else (tom_fwd_loop word_bytes READ_WORD SWAP_WORD sizeof_Elf64_Word be True count m dst src, True))"

definition libelf_cvt_XWORD_tof :: converter where [cvt_defs]:
  "libelf_cvt_XWORD_tof be m dst dsz src count byteswap =
     (if \<not> byteswap then (memcpy m dst src (u64 (count * sizeof_Elf64_Xword)), True)
      else (tof_loop word64_of SWAP_XWORD WRITE_XWORD sizeof_Elf64_Xword be True count m dst src, True))"

definition libelf_cvt_XWORD_tom :: converter where [cvt_defs]:
  "libelf_cvt_XWORD_tom be m dst dsz src count byteswap =
     (if dsz < u64 (count * sizeof_Elf64_Xword) then (m, False)
      else if \<not> byteswap then (memcpy m dst src (u64 (count * sizeof_Elf64_Xword)), True)
      else (tom_fwd_loop word64_bytes READ_XWORD SWAP_XWORD sizeof_Elf64_Xword be True count m dst src, True))"

section \<open>Correctness of the loops\<close>

text \<open>
  The contract of a structure whose in-memory size \<open>msz\<close> may exceed its file size by trailing
  padding.  \<open>be \<noteq> byteswap\<close> is the byte order of the file (true for big-endian).
\<close>

locale elf_struct = elf_codec +
  fixes msz :: nat
  assumes fsz_msz: "fsz \<le> msz"
    and of_take: "fsz \<le> length bs \<Longrightarrow> of_bytes be (take fsz bs) = of_bytes be bs"
begin

lemma of_bytes_at: "of_bytes be (bytes_at m s msz) = of_bytes be (bytes_at m s fsz)"
  using of_take [of "bytes_at m s msz" be] fsz_msz by (simp add: min_def)

lemma swapped_to: "to_bytes be (if byteswap then SWAP t else t) = to_bytes (be \<noteq> byteswap) t"
  by (auto simp: to_SWAP)

lemma swapped_ok: "ok t \<Longrightarrow> ok (if byteswap then SWAP t else t)"
  by (simp add: ok_SWAP)

lemma swapped_of:
  "(if byteswap then SWAP (of_bytes be (bytes_at m s fsz)) else of_bytes be (bytes_at m s fsz)) =
     of_bytes (be \<noteq> byteswap) (bytes_at m s fsz)"
  by (auto simp: SWAP_of)

lemma tof_step:
  "tof_loop of_bytes SWAP WRITE msz be byteswap (Suc c) m dst s =
     tof_loop of_bytes SWAP WRITE msz be byteswap c
       (put_bytes m dst (to_bytes (be \<noteq> byteswap) (of_bytes be (bytes_at m s fsz)))) (dst + fsz) (s + msz)"
proof -
  let ?t = "if byteswap then SWAP (of_bytes be (bytes_at m s fsz)) else of_bytes be (bytes_at m s fsz)"
  have "WRITE be m dst ?t = (put_bytes m dst (to_bytes be ?t), dst + fsz)"
    by (intro WRITE_eq swapped_ok ok_of) simp
  then show ?thesis by (simp add: of_bytes_at swapped_to Let_def)
qed

lemma tom_step:
  "tom_loop to_bytes READ SWAP msz fsz be byteswap (Suc c) m d s0 =
     tom_loop to_bytes READ SWAP msz fsz be byteswap c
       (put_bytes m d (to_bytes be (of_bytes (be \<noteq> byteswap) (bytes_at m s0 fsz)))) (d - msz) (s0 - fsz)"
  by (simp add: READ_eq swapped_of Let_def)

lemma length_object [simp]: "length (to_bytes be (of_bytes be' (bytes_at m a fsz))) = fsz"
  by (intro length_to_bytes ok_of) simp

lemma tof_loop_frame:
  "x < dst \<or> dst + n * fsz \<le> x \<Longrightarrow> tof_loop of_bytes SWAP WRITE msz be byteswap n m dst src x = m x"
  by (induction n arbitrary: m dst src) (auto simp: tof_step simp del: tof_loop.simps(2))

lemma tof_loop_object:
  assumes "dst \<le> src \<or> src + n * msz \<le> dst" "i < n"
  shows "bytes_at (tof_loop of_bytes SWAP WRITE msz be byteswap n m dst src) (dst + i * fsz) fsz =
     to_bytes (be \<noteq> byteswap) (of_bytes be (bytes_at m (src + i * msz) msz))"
  using assms
proof (induction n arbitrary: m dst src i)
  case 0
  then show ?case by simp
next
  case (Suc n)
  let ?m = "put_bytes m dst (to_bytes (be \<noteq> byteswap) (of_bytes be (bytes_at m src fsz)))"
  show ?case
  proof (cases i)
    case 0
    have "bytes_at (tof_loop of_bytes SWAP WRITE msz be byteswap n ?m (dst + fsz) (src + msz)) dst fsz =
      bytes_at ?m dst fsz"
      by (intro bytes_at_eqI tof_loop_frame) simp
    with 0 show ?thesis by (simp add: tof_step of_bytes_at del: tof_loop.simps(2))
  next
    case (Suc j)
    have "dst + fsz \<le> src + msz \<or> src + msz + n * msz \<le> dst + fsz"
      using Suc.prems(1) fsz_msz by auto
    moreover have "j < n" using Suc Suc.prems by simp
    ultimately have "bytes_at (tof_loop of_bytes SWAP WRITE msz be byteswap n ?m (dst + fsz) (src + msz))
        (dst + fsz + j * fsz) fsz = to_bytes (be \<noteq> byteswap) (of_bytes be (bytes_at ?m (src + msz + j * msz) msz))"
      by (rule Suc.IH)
    also have "bytes_at ?m (src + msz + j * msz) msz = bytes_at m (src + msz + j * msz) msz"
    proof -
      have "Suc j * msz \<le> n * msz" using \<open>j < n\<close> by (intro mult_le_mono1) simp
      with Suc.prems(1) fsz_msz show ?thesis by (intro bytes_at_put_disjoint) auto
    qed
    finally show ?thesis using Suc by (simp add: tof_step add.assoc del: tof_loop.simps(2))
  qed
qed

lemma tom_loop_frame:
  "x < dst \<or> dst + n * msz \<le> x \<Longrightarrow>
     tom_loop to_bytes READ SWAP msz fsz be byteswap n m (dst + (n - 1) * msz) s0 x = m x"
proof (induction n arbitrary: m s0)
  case (Suc n)
  have "put_bytes m (dst + n * msz) (to_bytes be (of_bytes (be \<noteq> byteswap) (bytes_at m s0 fsz))) x = m x"
    using Suc.prems fsz_msz by (intro put_bytes_outside) auto
  moreover have "n = 0 \<or> dst + n * msz - msz = dst + (n - 1) * msz"
    by (cases n) auto
  ultimately show ?case
    using Suc.IH Suc.prems by (auto simp: tom_step simp del: tom_loop.simps(2))
qed simp

lemma tom_loop_object:
  assumes "dst = src \<or> disjoint_ranges dst (n * msz) src (n * fsz)" "i < n"
  shows "bytes_at (tom_loop to_bytes READ SWAP msz fsz be byteswap n m
       (dst + (n - 1) * msz) (src + (n - 1) * fsz)) (dst + i * msz) fsz =
     to_bytes be (of_bytes (be \<noteq> byteswap) (bytes_at m (src + i * fsz) fsz))"
  using assms
proof (induction n arbitrary: m)
  case 0
  then show ?case by simp
next
  case (Suc n)
  let ?m = "put_bytes m (dst + n * msz) (to_bytes be (of_bytes (be \<noteq> byteswap) (bytes_at m (src + n * fsz) fsz)))"
  let ?loop = "tom_loop to_bytes READ SWAP msz fsz be byteswap n ?m (dst + (n - 1) * msz) (src + (n - 1) * fsz)"
  have step: "tom_loop to_bytes READ SWAP msz fsz be byteswap (Suc n) m
       (dst + (Suc n - 1) * msz) (src + (Suc n - 1) * fsz) = ?loop"
    by (cases n) (simp_all add: tom_step del: tom_loop.simps(2))
  show ?case
  proof (cases "i = n")
    case True
    have "bytes_at ?loop (dst + n * msz) fsz = bytes_at ?m (dst + n * msz) fsz"
      by (intro bytes_at_eqI tom_loop_frame) simp
    with True step show ?thesis by simp
  next
    case False
    with Suc.prems have i: "i < n" by simp
    then have le: "Suc i * fsz \<le> n * fsz" "Suc i * fsz \<le> n * msz"
      using fsz_msz by (metis Suc_leI mult_le_mono le_refl)+
    from Suc.prems(1) have "dst = src \<or> disjoint_ranges dst (n * msz) src (n * fsz)"
      by (auto simp: disjoint_ranges_def)
    then have "bytes_at ?loop (dst + i * msz) fsz =
        to_bytes be (of_bytes (be \<noteq> byteswap) (bytes_at ?m (src + i * fsz) fsz))"
      using i by (rule Suc.IH)
    also have "bytes_at ?m (src + i * fsz) fsz = bytes_at m (src + i * fsz) fsz"
      using Suc.prems(1) le fsz_msz by (intro bytes_at_put_disjoint) (auto simp: disjoint_ranges_def)
    finally show ?thesis using step by simp
  qed
qed

lemma tom_fwd_step:
  "tom_fwd_loop to_bytes READ SWAP msz be byteswap (Suc c) m d src =
     tom_fwd_loop to_bytes READ SWAP msz be byteswap c
       (put_bytes m d (to_bytes be (of_bytes (be \<noteq> byteswap) (bytes_at m src fsz)))) (d + msz) (src + fsz)"
  by (simp add: READ_eq swapped_of Let_def)

lemma tom_fwd_loop_frame:
  "x < d \<or> d + n * msz \<le> x \<Longrightarrow> tom_fwd_loop to_bytes READ SWAP msz be byteswap n m d src x = m x"
  using fsz_msz
  by (induction n arbitrary: m d src) (auto simp: tom_fwd_step simp del: tom_fwd_loop.simps(2))

lemma tom_fwd_loop_object:
  assumes "msz = fsz" "d \<le> src \<or> src + n * fsz \<le> d" "i < n"
  shows "bytes_at (tom_fwd_loop to_bytes READ SWAP msz be byteswap n m d src) (d + i * msz) fsz =
     to_bytes be (of_bytes (be \<noteq> byteswap) (bytes_at m (src + i * fsz) fsz))"
  using assms(2,3)
proof (induction n arbitrary: m d src i)
  case 0
  then show ?case by simp
next
  case (Suc n)
  let ?m = "put_bytes m d (to_bytes be (of_bytes (be \<noteq> byteswap) (bytes_at m src fsz)))"
  show ?case
  proof (cases i)
    case 0
    have "bytes_at (tom_fwd_loop to_bytes READ SWAP msz be byteswap n ?m (d + msz) (src + fsz)) d fsz =
      bytes_at ?m d fsz"
      using assms(1) by (intro bytes_at_eqI tom_fwd_loop_frame) simp
    with 0 show ?thesis by (simp add: tom_fwd_step del: tom_fwd_loop.simps(2))
  next
    case (Suc j)
    have "d + msz \<le> src + fsz \<or> src + fsz + n * fsz \<le> d + msz"
      using Suc.prems(1) assms(1) by auto
    moreover have "j < n" using Suc Suc.prems by simp
    ultimately have "bytes_at (tom_fwd_loop to_bytes READ SWAP msz be byteswap n ?m (d + msz) (src + fsz))
        (d + msz + j * msz) fsz = to_bytes be (of_bytes (be \<noteq> byteswap) (bytes_at ?m (src + fsz + j * fsz) fsz))"
      by (rule Suc.IH)
    also have "bytes_at ?m (src + fsz + j * fsz) fsz = bytes_at m (src + fsz + j * fsz) fsz"
    proof -
      have "Suc j * fsz \<le> n * fsz" using \<open>j < n\<close> by (intro mult_le_mono1) simp
      with Suc.prems(1) assms(1) show ?thesis by (intro bytes_at_put_disjoint) auto
    qed
    finally show ?thesis using Suc by (simp add: tom_fwd_step add.assoc del: tom_fwd_loop.simps(2))
  qed
qed

end

section \<open>The contract of a pair of converters\<close>

text \<open>
  What the rest of the library relies on: \<open>tom\<close> refuses a destination that is too small,
  otherwise it fills exactly the destination objects, in place or from a separate buffer;
  \<open>tof\<close> fills exactly the file image.  \<open>flip\<close> is the effect of a byte swap on one object.
\<close>

locale elf_translator =
  fixes tof tom :: converter
    and fsz msz :: nat
    and flip :: "byte list \<Rightarrow> byte list"
  assumes flip_length: "length b = fsz \<Longrightarrow> length (flip b) = fsz"
    and flip_flip: "length b = fsz \<Longrightarrow> flip (flip b) = b"
    and sizes: "0 < fsz" "fsz \<le> msz"
    and tom_small: "dsz < n * msz \<Longrightarrow> n * msz < 2 ^ 64 \<Longrightarrow> tom be m dst dsz src n bs = (m, False)"
    and tom_converts: "n * msz \<le> dsz \<Longrightarrow> dst = src \<or> disjoint_ranges dst (n * msz) src (n * fsz) \<Longrightarrow>
          n * msz < 2 ^ 64 \<Longrightarrow>
        \<exists>m'. tom be m dst dsz src n bs = (m', True) \<and>
          (\<forall>x. x < dst \<or> dst + n * msz \<le> x \<longrightarrow> m' x = m x) \<and>
          (\<forall>i<n. bytes_at m' (dst + i * msz) fsz =
             (if bs then flip (bytes_at m (src + i * fsz) fsz) else bytes_at m (src + i * fsz) fsz))"
    and tof_converts: "dst = src \<or> disjoint_ranges dst (n * fsz) src (n * msz) \<Longrightarrow> n * msz < 2 ^ 64 \<Longrightarrow>
        \<exists>m'. tof be m dst dsz src n bs = (m', True) \<and>
          (\<forall>x. x < dst \<or> dst + n * fsz \<le> x \<longrightarrow> m' x = m x) \<and>
          (\<forall>i<n. bytes_at m' (dst + i * fsz) fsz =
             (if bs then flip (bytes_at m (src + i * msz) fsz) else bytes_at m (src + i * msz) fsz))"
begin

text \<open>Reading a file image and writing it again reproduces it byte for byte.\<close>

lemma file_roundtrip:
  assumes "n * msz \<le> dsz" "n * msz < 2 ^ 64"
    and "mem = src \<or> disjoint_ranges mem (n * msz) src (n * fsz)"
    and "out = mem \<or> disjoint_ranges out (n * fsz) mem (n * msz)"
  shows "\<exists>m1 m2. tom be m mem dsz src n bs = (m1, True) \<and> tof be m1 out osz mem n bs = (m2, True) \<and>
    bytes_at m2 out (n * fsz) = bytes_at m src (n * fsz)"
proof -
  from tom_converts [OF assms(1,3,2)] obtain m1 where m1: "tom be m mem dsz src n bs = (m1, True)"
    and b1: "\<forall>i<n. bytes_at m1 (mem + i * msz) fsz =
      (if bs then flip (bytes_at m (src + i * fsz) fsz) else bytes_at m (src + i * fsz) fsz)"
    by blast
  from tof_converts [OF assms(4,2)] obtain m2 where m2: "tof be m1 out osz mem n bs = (m2, True)"
    and b2: "\<forall>i<n. bytes_at m2 (out + i * fsz) fsz =
      (if bs then flip (bytes_at m1 (mem + i * msz) fsz) else bytes_at m1 (mem + i * msz) fsz)"
    by blast
  have "bytes_at m2 out (n * fsz) = bytes_at m src (n * fsz)"
    using b1 b2 by (intro bytes_at_chunks) (simp add: flip_flip)
  with m1 m2 show ?thesis by blast
qed

text \<open>Writing in-memory objects out and reading them back preserves every object's members.\<close>

lemma memory_roundtrip:
  assumes "n * msz \<le> dsz" "n * msz < 2 ^ 64"
    and "out = mem \<or> disjoint_ranges out (n * fsz) mem (n * msz)"
    and "back = out \<or> disjoint_ranges back (n * msz) out (n * fsz)"
    and "i < n"
  shows "\<exists>m1 m2. tof be m out osz mem n bs = (m1, True) \<and> tom be m1 back dsz out n bs = (m2, True) \<and>
    bytes_at m2 (back + i * msz) fsz = bytes_at m (mem + i * msz) fsz"
proof -
  from tof_converts [OF assms(3,2)] obtain m1 where m1: "tof be m out osz mem n bs = (m1, True)"
    and b1: "\<forall>i<n. bytes_at m1 (out + i * fsz) fsz =
      (if bs then flip (bytes_at m (mem + i * msz) fsz) else bytes_at m (mem + i * msz) fsz)"
    by blast
  from tom_converts [OF assms(1,4,2)] obtain m2 where m2: "tom be m1 back dsz out n bs = (m2, True)"
    and b2: "\<forall>i<n. bytes_at m2 (back + i * msz) fsz =
      (if bs then flip (bytes_at m1 (out + i * fsz) fsz) else bytes_at m1 (out + i * fsz) fsz)"
    by blast
  have "bytes_at m2 (back + i * msz) fsz = bytes_at m (mem + i * msz) fsz"
    using b1 b2 assms(5) by (simp add: flip_flip)
  with m1 m2 show ?thesis by blast
qed

end

context elf_struct
begin

lemma struct_translator:
  assumes "0 < fsz"
    and tof: "\<And>be m dst dsz src n bs. tof be m dst dsz src n bs =
          (tof_loop of_bytes SWAP WRITE msz be bs n m dst src, True)"
    and tom: "\<And>be m dst dsz src n bs. tom be m dst dsz src n bs =
          (if dsz < u64 (n * msz) then (m, False)
           else (tom_loop to_bytes READ SWAP msz fsz be bs n m (dst + (n - 1) * msz) (src + (n - 1) * fsz), True))"
  shows "elf_translator tof tom fsz msz (\<lambda>b. to_bytes True (of_bytes False b))"
proof unfold_locales
  fix n dsz dst src be m bs
  assume a: "n * msz \<le> dsz" "dst = src \<or> disjoint_ranges dst (n * msz) src (n * fsz)" "n * msz < 2 ^ 64"
  let ?m' = "tom_loop to_bytes READ SWAP msz fsz be bs n m (dst + (n - 1) * msz) (src + (n - 1) * fsz)"
  have "tom be m dst dsz src n bs = (?m', True)" using a(1,3) by (simp add: tom)
  moreover have "\<forall>x. x < dst \<or> dst + n * msz \<le> x \<longrightarrow> ?m' x = m x" by (blast intro: tom_loop_frame)
  moreover have "bytes_at ?m' (dst + i * msz) fsz = (if bs then to_bytes True (of_bytes False
      (bytes_at m (src + i * fsz) fsz)) else bytes_at m (src + i * fsz) fsz)" if "i < n" for i
    by (simp only: tom_loop_object [OF a(2) that] object_bytes length_bytes_at)
  ultimately show "\<exists>m'. tom be m dst dsz src n bs = (m', True) \<and>
          (\<forall>x. x < dst \<or> dst + n * msz \<le> x \<longrightarrow> m' x = m x) \<and>
          (\<forall>i<n. bytes_at m' (dst + i * msz) fsz = (if bs then to_bytes True (of_bytes False
              (bytes_at m (src + i * fsz) fsz)) else bytes_at m (src + i * fsz) fsz))"
    by blast
next
  fix n dst src be m bs dsz
  assume a: "dst = src \<or> disjoint_ranges dst (n * fsz) src (n * msz)" "n * msz < 2 ^ 64"
  then have d: "dst \<le> src \<or> src + n * msz \<le> dst" by (auto simp: disjoint_ranges_def)
  let ?m' = "tof_loop of_bytes SWAP WRITE msz be bs n m dst src"
  have "bytes_at ?m' (dst + i * fsz) fsz = (if bs then to_bytes True (of_bytes False
      (bytes_at m (src + i * msz) fsz)) else bytes_at m (src + i * msz) fsz)" if "i < n" for i
    by (simp only: tof_loop_object [OF d that] of_bytes_at object_bytes length_bytes_at)
  then show "\<exists>m'. tof be m dst dsz src n bs = (m', True) \<and>
          (\<forall>x. x < dst \<or> dst + n * fsz \<le> x \<longrightarrow> m' x = m x) \<and>
          (\<forall>i<n. bytes_at m' (dst + i * fsz) fsz = (if bs then to_bytes True (of_bytes False
              (bytes_at m (src + i * msz) fsz)) else bytes_at m (src + i * msz) fsz))"
    unfolding tof by (blast intro: tof_loop_frame)
qed (use assms(1) fsz_msz in \<open>simp_all add: flip_length flip_flip tom\<close>)

end

lemma memcpy_chunk:
  assumes "i < n"
  shows "bytes_at (memcpy m dst src (n * k)) (dst + i * k) k = bytes_at m (src + i * k) k"
proof -
  have "Suc i * k \<le> n * k" using assms by (intro mult_le_mono1) simp
  then have k: "min k (n * k - i * k) = k" by simp
  have "take k (drop (i * k) (bytes_at (memcpy m dst src (n * k)) dst (n * k))) =
    take k (drop (i * k) (bytes_at m src (n * k)))" by (simp only: bytes_at_memcpy)
  then show ?thesis by (simp only: take_bytes_at drop_bytes_at k)
qed

context elf_struct
begin

lemma integer_translator:
  assumes "0 < fsz" "msz = fsz"
    and tof: "\<And>be m dst dsz src n bs. tof be m dst dsz src n bs =
          (if \<not> bs then (memcpy m dst src (u64 (n * msz)), True)
           else (tof_loop of_bytes SWAP WRITE msz be True n m dst src, True))"
    and tom: "\<And>be m dst dsz src n bs. tom be m dst dsz src n bs =
          (if dsz < u64 (n * msz) then (m, False)
           else if \<not> bs then (memcpy m dst src (u64 (n * msz)), True)
           else (tom_fwd_loop to_bytes READ SWAP msz be True n m dst src, True))"
  shows "elf_translator tof tom fsz msz (\<lambda>b. to_bytes True (of_bytes False b))"
proof unfold_locales
  fix n dsz dst src be m bs
  assume a: "n * msz \<le> dsz" "dst = src \<or> disjoint_ranges dst (n * msz) src (n * fsz)" "n * msz < 2 ^ 64"
  then have d: "dst \<le> src \<or> src + n * fsz \<le> dst" by (auto simp: disjoint_ranges_def)
  let ?m' = "if bs then tom_fwd_loop to_bytes READ SWAP msz be True n m dst src else memcpy m dst src (n * msz)"
  have "tom be m dst dsz src n bs = (?m', True)" using a(1,3) by (simp add: tom)
  moreover have "\<forall>x. x < dst \<or> dst + n * msz \<le> x \<longrightarrow> ?m' x = m x"
    by (simp add: tom_fwd_loop_frame memcpy_outside)
  moreover have "bytes_at ?m' (dst + i * msz) fsz = (if bs then to_bytes True (of_bytes False
      (bytes_at m (src + i * fsz) fsz)) else bytes_at m (src + i * fsz) fsz)" if "i < n" for i
    using tom_fwd_loop_object [OF assms(2) d that, of be True m]
      object_bytes(1) [of "bytes_at m (src + i * fsz) fsz" be True] memcpy_chunk [OF that] assms(2)
    by simp
  ultimately show "\<exists>m'. tom be m dst dsz src n bs = (m', True) \<and>
          (\<forall>x. x < dst \<or> dst + n * msz \<le> x \<longrightarrow> m' x = m x) \<and>
          (\<forall>i<n. bytes_at m' (dst + i * msz) fsz = (if bs then to_bytes True (of_bytes False
              (bytes_at m (src + i * fsz) fsz)) else bytes_at m (src + i * fsz) fsz))"
    by blast
next
  fix n dst src be m bs dsz
  assume a: "dst = src \<or> disjoint_ranges dst (n * fsz) src (n * msz)" "n * msz < 2 ^ 64"
  then have d: "dst \<le> src \<or> src + n * msz \<le> dst" by (auto simp: disjoint_ranges_def)
  let ?m' = "if bs then tof_loop of_bytes SWAP WRITE msz be True n m dst src else memcpy m dst src (n * msz)"
  have "tof be m dst dsz src n bs = (?m', True)" using a(2) by (simp add: tof)
  moreover have "\<forall>x. x < dst \<or> dst + n * fsz \<le> x \<longrightarrow> ?m' x = m x"
    using tof_loop_frame [of _ dst n be True m src] memcpy_outside [of _ dst "n * fsz" m src] assms(2)
    by (cases bs) simp_all
  moreover have "bytes_at ?m' (dst + i * fsz) fsz = (if bs then to_bytes True (of_bytes False
      (bytes_at m (src + i * msz) fsz)) else bytes_at m (src + i * msz) fsz)" if "i < n" for i
    using tof_loop_object [OF d that, of be True m]
      object_bytes(2) [of "bytes_at m (src + i * msz) fsz" be True] memcpy_chunk [OF that] assms(2)
    by simp
  ultimately show "\<exists>m'. tof be m dst dsz src n bs = (m', True) \<and>
          (\<forall>x. x < dst \<or> dst + n * fsz \<le> x \<longrightarrow> m' x = m x) \<and>
          (\<forall>i<n. bytes_at m' (dst + i * fsz) fsz = (if bs then to_bytes True (of_bytes False
              (bytes_at m (src + i * msz) fsz)) else bytes_at m (src + i * msz) fsz))"
    by blast
qed (use assms(1,2) in \<open>simp_all add: flip_length flip_flip tom\<close>)

end

section \<open>Interpretations\<close>

lemmas int_codec = half_of_def half_bytes_def word_of_def word_bytes_def word64_of_def word64_bytes_def

interpretation half: elf_struct half_of half_bytes READ_HALF SWAP_HALF WRITE_HALF 2 "\<lambda>_. True" 2
  by unfold_locales (simp_all add: int_codec del: add_2_eq_Suc')

interpretation word: elf_struct word_of word_bytes READ_WORD SWAP_WORD WRITE_WORD 4 "\<lambda>_. True" 4
  by unfold_locales (simp_all add: int_codec)

interpretation word64: elf_struct word64_of word64_bytes READ_WORD64 SWAP_WORD64 WRITE_WORD64 8 "\<lambda>_. True" 8
  by unfold_locales (simp_all add: int_codec)

interpretation elf32caps: elf_struct Elf32_Cap_of Elf32_Cap_bytes READ_Elf32_Cap SWAP_Elf32_Cap WRITE_Elf32_Cap 8 "\<lambda>_. True" 8
  by unfold_locales (simp_all add: codec_defs drop_take)

interpretation elf64caps: elf_struct Elf64_Cap_of Elf64_Cap_bytes READ_Elf64_Cap SWAP_Elf64_Cap WRITE_Elf64_Cap 16 "\<lambda>_. True" 16
  by unfold_locales (simp_all add: codec_defs drop_take)

interpretation elf32dyns: elf_struct Elf32_Dyn_of Elf32_Dyn_bytes READ_Elf32_Dyn SWAP_Elf32_Dyn WRITE_Elf32_Dyn 8 "\<lambda>_. True" 8
  by unfold_locales (simp_all add: codec_defs drop_take)

interpretation elf64dyns: elf_struct Elf64_Dyn_of Elf64_Dyn_bytes READ_Elf64_Dyn SWAP_Elf64_Dyn WRITE_Elf64_Dyn 16 "\<lambda>_. True" 16
  by unfold_locales (simp_all add: codec_defs drop_take)

interpretation elf32ehdrs: elf_struct Elf32_Ehdr_of Elf32_Ehdr_bytes READ_Elf32_Ehdr SWAP_Elf32_Ehdr WRITE_Elf32_Ehdr 52 "\<lambda>t. length (e_ident t) = EI_NIDENT" 52
  by unfold_locales (simp_all add: codec_defs drop_take)

interpretation elf64ehdrs: elf_struct Elf64_Ehdr_of Elf64_Ehdr_bytes READ_Elf64_Ehdr SWAP_Elf64_Ehdr WRITE_Elf64_Ehdr 64 "\<lambda>t. length (e_ident t) = EI_NIDENT" 64
  by unfold_locales (simp_all add: codec_defs drop_take)

interpretation elf32moves: elf_struct Elf32_Move_of Elf32_Move_bytes READ_Elf32_Move SWAP_Elf32_Move WRITE_Elf32_Move 20 "\<lambda>_. True" 24
  by unfold_locales (simp_all add: codec_defs drop_take)

interpretation elf64moves: elf_struct Elf64_Move_of Elf64_Move_bytes READ_Elf64_Move SWAP_Elf64_Move WRITE_Elf64_Move 28 "\<lambda>_. True" 32
  by unfold_locales (simp_all add: codec_defs drop_take)

interpretation elf32phdrs: elf_struct Elf32_Phdr_of Elf32_Phdr_bytes READ_Elf32_Phdr SWAP_Elf32_Phdr WRITE_Elf32_Phdr 32 "\<lambda>_. True" 32
  by unfold_locales (simp_all add: codec_defs drop_take)

interpretation elf64phdrs: elf_struct Elf64_Phdr_of Elf64_Phdr_bytes READ_Elf64_Phdr SWAP_Elf64_Phdr WRITE_Elf64_Phdr 56 "\<lambda>_. True" 56
  by unfold_locales (simp_all add: codec_defs drop_take)

interpretation elf32rels: elf_struct Elf32_Rel_of Elf32_Rel_bytes READ_Elf32_Rel SWAP_Elf32_Rel WRITE_Elf32_Rel 8 "\<lambda>_. True" 8
  by unfold_locales (simp_all add: codec_defs drop_take)

interpretation elf64rels: elf_struct Elf64_Rel_of Elf64_Rel_bytes READ_Elf64_Rel SWAP_Elf64_Rel WRITE_Elf64_Rel 16 "\<lambda>_. True" 16
  by unfold_locales (simp_all add: codec_defs drop_take)

interpretation elf32relas: elf_struct Elf32_Rela_of Elf32_Rela_bytes READ_Elf32_Rela SWAP_Elf32_Rela WRITE_Elf32_Rela 12 "\<lambda>_. True" 12
  by unfold_locales (simp_all add: codec_defs drop_take)

interpretation elf64relas: elf_struct Elf64_Rela_of Elf64_Rela_bytes READ_Elf64_Rela SWAP_Elf64_Rela WRITE_Elf64_Rela 24 "\<lambda>_. True" 24
  by unfold_locales (simp_all add: codec_defs drop_take)

interpretation elf32shdrs: elf_struct Elf32_Shdr_of Elf32_Shdr_bytes READ_Elf32_Shdr SWAP_Elf32_Shdr WRITE_Elf32_Shdr 40 "\<lambda>_. True" 40
  by unfold_locales (simp_all add: codec_defs drop_take)

interpretation elf64shdrs: elf_struct Elf64_Shdr_of Elf64_Shdr_bytes READ_Elf64_Shdr SWAP_Elf64_Shdr WRITE_Elf64_Shdr 64 "\<lambda>_. True" 64
  by unfold_locales (simp_all add: codec_defs drop_take)

interpretation elf32syminfos: elf_struct Elf32_Syminfo_of Elf32_Syminfo_bytes READ_Elf32_Syminfo SWAP_Elf32_Syminfo WRITE_Elf32_Syminfo 4 "\<lambda>_. True" 4
  by unfold_locales (simp_all add: codec_defs drop_take)

interpretation elf64syminfos: elf_struct Elf64_Syminfo_of Elf64_Syminfo_bytes READ_Elf64_Syminfo SWAP_Elf64_Syminfo WRITE_Elf64_Syminfo 4 "\<lambda>_. True" 4
  by unfold_locales (simp_all add: codec_defs drop_take)

interpretation elf32syms: elf_struct Elf32_Sym_of Elf32_Sym_bytes READ_Elf32_Sym SWAP_Elf32_Sym WRITE_Elf32_Sym 16 "\<lambda>_. True" 16
  by unfold_locales (simp_all add: codec_defs drop_take)

interpretation elf64syms: elf_struct Elf64_Sym_of Elf64_Sym_bytes READ_Elf64_Sym SWAP_Elf64_Sym WRITE_Elf64_Sym 24 "\<lambda>_. True" 24
  by unfold_locales (simp_all add: codec_defs drop_take)

interpretation cvt_ADDR32: elf_translator libelf_cvt_ADDR32_tof libelf_cvt_ADDR32_tom 4 4
    "\<lambda>b. word_bytes True (word_of False b)"
  by (rule word.integer_translator) (simp_all add: cvt_defs)

interpretation cvt_ADDR64: elf_translator libelf_cvt_ADDR64_tof libelf_cvt_ADDR64_tom 8 8
    "\<lambda>b. word64_bytes True (word64_of False b)"
  by (rule word64.integer_translator) (simp_all add: cvt_defs)

interpretation cvt_HALF: elf_translator libelf_cvt_HALF_tof libelf_cvt_HALF_tom 2 2
    "\<lambda>b. half_bytes True (half_of False b)"
  by (rule half.integer_translator) (simp_all add: cvt_defs)

interpretation cvt_LWORD: elf_translator libelf_cvt_LWORD_tof libelf_cvt_LWORD_tom 8 8
    "\<lambda>b. word64_bytes True (word64_of False b)"
  by (rule word64.integer_translator) (simp_all add: cvt_defs)

interpretation cvt_OFF32: elf_translator libelf_cvt_OFF32_tof libelf_cvt_OFF32_tom 4 4
    "\<lambda>b. word_bytes True (word_of False b)"
  by (rule word.integer_translator) (simp_all add: cvt_defs)

interpretation cvt_OFF64: elf_translator libelf_cvt_OFF64_tof libelf_cvt_OFF64_tom 8 8
    "\<lambda>b. word64_bytes True (word64_of False b)"
  by (rule word64.integer_translator) (simp_all add: cvt_defs)

interpretation cvt_SWORD: elf_translator libelf_cvt_SWORD_tof libelf_cvt_SWORD_tom 4 4
    "\<lambda>b. word_bytes True (word_of False b)"
  by (rule word.integer_translator) (simp_all add: cvt_defs)

interpretation cvt_SXWORD: elf_translator libelf_cvt_SXWORD_tof libelf_cvt_SXWORD_tom 8 8
    "\<lambda>b. word64_bytes True (word64_of False b)"
  by (rule word64.integer_translator) (simp_all add: cvt_defs)

interpretation cvt_WORD: elf_translator libelf_cvt_WORD_tof libelf_cvt_WORD_tom 4 4
    "\<lambda>b. word_bytes True (word_of False b)"
  by (rule word.integer_translator) (simp_all add: cvt_defs)

interpretation cvt_XWORD: elf_translator libelf_cvt_XWORD_tof libelf_cvt_XWORD_tom 8 8
    "\<lambda>b. word64_bytes True (word64_of False b)"
  by (rule word64.integer_translator) (simp_all add: cvt_defs)

interpretation cvt32_CAP: elf_translator libelf_cvt32_CAP_tof libelf_cvt32_CAP_tom 8 8
    "\<lambda>b. Elf32_Cap_bytes True (Elf32_Cap_of False b)"
  by (rule elf32caps.struct_translator) (simp_all add: cvt_defs Let_def)

interpretation cvt64_CAP: elf_translator libelf_cvt64_CAP_tof libelf_cvt64_CAP_tom 16 16
    "\<lambda>b. Elf64_Cap_bytes True (Elf64_Cap_of False b)"
  by (rule elf64caps.struct_translator) (simp_all add: cvt_defs Let_def)

interpretation cvt32_DYN: elf_translator libelf_cvt32_DYN_tof libelf_cvt32_DYN_tom 8 8
    "\<lambda>b. Elf32_Dyn_bytes True (Elf32_Dyn_of False b)"
  by (rule elf32dyns.struct_translator) (simp_all add: cvt_defs Let_def)

interpretation cvt64_DYN: elf_translator libelf_cvt64_DYN_tof libelf_cvt64_DYN_tom 16 16
    "\<lambda>b. Elf64_Dyn_bytes True (Elf64_Dyn_of False b)"
  by (rule elf64dyns.struct_translator) (simp_all add: cvt_defs Let_def)

interpretation cvt32_EHDR: elf_translator libelf_cvt32_EHDR_tof libelf_cvt32_EHDR_tom 52 52
    "\<lambda>b. Elf32_Ehdr_bytes True (Elf32_Ehdr_of False b)"
  by (rule elf32ehdrs.struct_translator) (simp_all add: cvt_defs Let_def)

interpretation cvt64_EHDR: elf_translator libelf_cvt64_EHDR_tof libelf_cvt64_EHDR_tom 64 64
    "\<lambda>b. Elf64_Ehdr_bytes True (Elf64_Ehdr_of False b)"
  by (rule elf64ehdrs.struct_translator) (simp_all add: cvt_defs Let_def)

interpretation cvt32_MOVE: elf_translator libelf_cvt32_MOVE_tof libelf_cvt32_MOVE_tom 20 24
    "\<lambda>b. Elf32_Move_bytes True (Elf32_Move_of False b)"
  by (rule elf32moves.struct_translator) (simp_all add: cvt_defs Let_def)

interpretation cvt64_MOVE: elf_translator libelf_cvt64_MOVE_tof libelf_cvt64_MOVE_tom 28 32
    "\<lambda>b. Elf64_Move_bytes True (Elf64_Move_of False b)"
  by (rule elf64moves.struct_translator) (simp_all add: cvt_defs Let_def)

interpretation cvt32_PHDR: elf_translator libelf_cvt32_PHDR_tof libelf_cvt32_PHDR_tom 32 32
    "\<lambda>b. Elf32_Phdr_bytes True (Elf32_Phdr_of False b)"
  by (rule elf32phdrs.struct_translator) (simp_all add: cvt_defs Let_def)

interpretation cvt64_PHDR: elf_translator libelf_cvt64_PHDR_tof libelf_cvt64_PHDR_tom 56 56
    "\<lambda>b. Elf64_Phdr_bytes True (Elf64_Phdr_of False b)"
  by (rule elf64phdrs.struct_translator) (simp_all add: cvt_defs Let_def)

interpretation cvt32_REL: elf_translator libelf_cvt32_REL_tof libelf_cvt32_REL_tom 8 8
    "\<lambda>b. Elf32_Rel_bytes True (Elf32_Rel_of False b)"
  by (rule elf32rels.struct_translator) (simp_all add: cvt_defs Let_def)

interpretation cvt64_REL: elf_translator libelf_cvt64_REL_tof libelf_cvt64_REL_tom 16 16
    "\<lambda>b. Elf64_Rel_bytes True (Elf64_Rel_of False b)"
  by (rule elf64rels.struct_translator) (simp_all add: cvt_defs Let_def)

interpretation cvt32_RELA: elf_translator libelf_cvt32_RELA_tof libelf_cvt32_RELA_tom 12 12
    "\<lambda>b. Elf32_Rela_bytes True (Elf32_Rela_of False b)"
  by (rule elf32relas.struct_translator) (simp_all add: cvt_defs Let_def)

interpretation cvt64_RELA: elf_translator libelf_cvt64_RELA_tof libelf_cvt64_RELA_tom 24 24
    "\<lambda>b. Elf64_Rela_bytes True (Elf64_Rela_of False b)"
  by (rule elf64relas.struct_translator) (simp_all add: cvt_defs Let_def)

interpretation cvt32_SHDR: elf_translator libelf_cvt32_SHDR_tof libelf_cvt32_SHDR_tom 40 40
    "\<lambda>b. Elf32_Shdr_bytes True (Elf32_Shdr_of False b)"
  by (rule elf32shdrs.struct_translator) (simp_all add: cvt_defs Let_def)

interpretation cvt64_SHDR: elf_translator libelf_cvt64_SHDR_tof libelf_cvt64_SHDR_tom 64 64
    "\<lambda>b. Elf64_Shdr_bytes True (Elf64_Shdr_of False b)"
  by (rule elf64shdrs.struct_translator) (simp_all add: cvt_defs Let_def)

interpretation cvt32_SYMINFO: elf_translator libelf_cvt32_SYMINFO_tof libelf_cvt32_SYMINFO_tom 4 4
    "\<lambda>b. Elf32_Syminfo_bytes True (Elf32_Syminfo_of False b)"
  by (rule elf32syminfos.struct_translator) (simp_all add: cvt_defs Let_def)

interpretation cvt64_SYMINFO: elf_translator libelf_cvt64_SYMINFO_tof libelf_cvt64_SYMINFO_tom 4 4
    "\<lambda>b. Elf64_Syminfo_bytes True (Elf64_Syminfo_of False b)"
  by (rule elf64syminfos.struct_translator) (simp_all add: cvt_defs Let_def)

interpretation cvt32_SYM: elf_translator libelf_cvt32_SYM_tof libelf_cvt32_SYM_tom 16 16
    "\<lambda>b. Elf32_Sym_bytes True (Elf32_Sym_of False b)"
  by (rule elf32syms.struct_translator) (simp_all add: cvt_defs Let_def)

interpretation cvt64_SYM: elf_translator libelf_cvt64_SYM_tof libelf_cvt64_SYM_tom 24 24
    "\<lambda>b. Elf64_Sym_bytes True (Elf64_Sym_of False b)"
  by (rule elf64syms.struct_translator) (simp_all add: cvt_defs Let_def)


end
