(* ===== verification/Libelf_Cvt_Gnuhash.thy ===== *)
theory Libelf_Cvt_Gnuhash
  imports Libelf_Convert
begin

text \<open>
  The converters of \<open>libelf_convert.c\<close> for GNU hash sections.  In 32-bit objects the section is
  a sequence of 32-bit words; in 64-bit objects a header of four words is followed by a bloom
  filter of 64-bit words and by 32-bit hash buckets and chains.
\<close>

section \<open>Definitions\<close>

abbreviation (input) sizeof_Elf_GNU_Hash_Header :: nat where "sizeof_Elf_GNU_Hash_Header \<equiv> 16"

definition Elf_GNU_Hash_Header_of :: "bool \<Rightarrow> byte list \<Rightarrow> Elf_GNU_Hash_Header" where [codec_defs]:
  "Elf_GNU_Hash_Header_of be bs =
    \<lparr>gh_nbuckets = host_word be (take 4 bs),
     gh_symndx = host_word be (take 4 (drop 4 bs)),
     gh_maskwords = host_word be (take 4 (drop 8 bs)),
     gh_shift2 = host_word be (take 4 (drop 12 bs))\<rparr>"

definition Elf_GNU_Hash_Header_bytes :: "bool \<Rightarrow> Elf_GNU_Hash_Header \<Rightarrow> byte list" where [codec_defs]:
  "Elf_GNU_Hash_Header_bytes be t =
     host_bytes be 4 (gh_nbuckets t) @
     host_bytes be 4 (gh_symndx t) @
     host_bytes be 4 (gh_maskwords t) @
     host_bytes be 4 (gh_shift2 t)"

definition libelf_cvt32_GNUHASH_tom :: converter where
  "libelf_cvt32_GNUHASH_tom be m dst dsz src srcsz byteswap =
     libelf_cvt_WORD_tom be m dst dsz src (srcsz div 4) byteswap"

definition libelf_cvt32_GNUHASH_tof :: converter where
  "libelf_cvt32_GNUHASH_tof be m dst dsz src srcsz byteswap =
     libelf_cvt_WORD_tof be m dst dsz src (srcsz div 4) byteswap"

definition libelf_cvt64_GNUHASH_tom :: converter where
  "libelf_cvt64_GNUHASH_tom be m dst dsz src srcsz byteswap =
    (let sz = 4 * 4
     in if dsz < sizeof_Elf_GNU_Hash_Header \<or> srcsz < sz then (m, False)
     else let
       (nbuckets, src) = READ_WORD be m src;
       (symndx, src) = READ_WORD be m src;
       (maskwords, src) = READ_WORD be m src;
       (shift2, src) = READ_WORD be m src;
       srcsz = srcsz - sz;
       nbuckets = (if byteswap then SWAP_WORD nbuckets else nbuckets);
       symndx = (if byteswap then SWAP_WORD symndx else symndx);
       maskwords = (if byteswap then SWAP_WORD maskwords else maskwords);
       shift2 = (if byteswap then SWAP_WORD shift2 else shift2);
       sz = unat nbuckets * 4 + unat maskwords * 8
     in if srcsz < sz \<or> dsz < sz + sizeof_Elf_GNU_Hash_Header then (m, False)
     else let
       m = put_bytes m dst (Elf_GNU_Hash_Header_bytes be
             \<lparr>gh_nbuckets = nbuckets, gh_symndx = symndx, gh_maskwords = maskwords, gh_shift2 = shift2\<rparr>);
       dsz = dsz - sizeof_Elf_GNU_Hash_Header;
       dst = dst + sizeof_Elf_GNU_Hash_Header;
       m = tom_fwd_loop word64_bytes READ_XWORD SWAP_XWORD 8 be byteswap (unat maskwords) m dst src;
       src = src + unat maskwords * 8;
       dst = dst + unat maskwords * 8;
       m = tom_fwd_loop word_bytes READ_WORD SWAP_WORD 4 be byteswap (unat nbuckets) m dst src;
       src = src + unat nbuckets * 4;
       dst = dst + unat nbuckets * 4;
       dsz = dsz - sz;
       srcsz = srcsz - sz
     in if dsz < srcsz then (m, False)
     else let nchains = u32 (srcsz div 4)
     in (tom_fwd_loop word_bytes READ_WORD SWAP_WORD 4 be byteswap nchains m dst src, True))"

definition libelf_cvt64_GNUHASH_tof :: converter where
  "libelf_cvt64_GNUHASH_tof be m dst dsz src srcsz byteswap =
    (let hdrsz = 4 * 4
     in if dsz < hdrsz \<or> srcsz < sizeof_Elf_GNU_Hash_Header then (m, False)
     else let
       gh = Elf_GNU_Hash_Header_of be (bytes_at m src sizeof_Elf_GNU_Hash_Header);
       nbuckets = gh_nbuckets gh;
       maskwords = gh_maskwords gh;
       t0 = nbuckets; t1 = gh_symndx gh; t2 = maskwords; t3 = gh_shift2 gh;
       src = src + sizeof_Elf_GNU_Hash_Header;
       srcsz = srcsz - sizeof_Elf_GNU_Hash_Header;
       dsz = dsz - hdrsz;
       sz = unat nbuckets * 4 + unat maskwords * 8
     in if srcsz < sz \<or> dsz < sz then (m, False)
     else let
       t0 = (if byteswap then SWAP_WORD t0 else t0);
       t1 = (if byteswap then SWAP_WORD t1 else t1);
       t2 = (if byteswap then SWAP_WORD t2 else t2);
       t3 = (if byteswap then SWAP_WORD t3 else t3);
       (m, dst) = WRITE_WORD be m dst t0;
       (m, dst) = WRITE_WORD be m dst t1;
       (m, dst) = WRITE_WORD be m dst t2;
       (m, dst) = WRITE_WORD be m dst t3;
       m = tof_loop word64_of SWAP_XWORD WRITE_WORD64 8 be byteswap (unat maskwords) m dst src;
       dst = dst + unat maskwords * 8;
       s32 = src + unat maskwords * 8;
       m = tof_loop word_of SWAP_WORD WRITE_WORD 4 be byteswap (unat nbuckets) m dst s32;
       dst = dst + unat nbuckets * 4;
       s32 = s32 + unat nbuckets * 4;
       srcsz = srcsz - sz;
       dsz = dsz - sz
     in if dsz < srcsz then (m, False)
     else let nchains = u32 (srcsz div 4)
     in (tof_loop word_of SWAP_WORD WRITE_WORD 4 be byteswap nchains m dst s32, True))"

section \<open>The reference conversion\<close>

text \<open>Reversing every \<open>k\<close>-byte group of a byte list, the effect of swapping a table of integers.\<close>

primrec rev_chunks :: "nat \<Rightarrow> nat \<Rightarrow> byte list \<Rightarrow> byte list" where
  "rev_chunks k 0 bs = []"
| "rev_chunks k (Suc n) bs = rev (take k bs) @ rev_chunks k n (drop k bs)"

definition conv_chunks :: "bool \<Rightarrow> nat \<Rightarrow> nat \<Rightarrow> byte list \<Rightarrow> byte list" where
  "conv_chunks swap k n bs = (if swap then rev_chunks k n bs else take (n * k) bs)"

text \<open>
  The image of a 64-bit GNU hash section in the other byte order, for a section with
  \<open>maskwords\<close> bloom filter words: everything but the bloom filter consists of 32-bit words.
\<close>

definition gnuhash64_image :: "bool \<Rightarrow> nat \<Rightarrow> byte list \<Rightarrow> byte list" where
  "gnuhash64_image swap maskwords bs =
     conv_chunks swap 4 4 bs @ conv_chunks swap 8 maskwords (drop 16 bs) @
     conv_chunks swap 4 ((length bs - 16 - maskwords * 8) div 4) (drop (16 + maskwords * 8) bs)"

section \<open>Lemmas\<close>

lemma host_object:
  "LENGTH('a::len) = 8 * n \<Longrightarrow> length b = n \<Longrightarrow>
     host_bytes be n (host_word be' b :: 'a word) = (if be = be' then b else rev b)"
  using rev_host_bytes [of be' n "host_word be' b :: 'a word"] by (cases be; cases be') simp_all

lemma word_object:
  "length b = 4 \<Longrightarrow> word_bytes be (word_of be' b) = (if be = be' then b else rev b)"
  "length c = 8 \<Longrightarrow> word64_bytes be (word64_of be' c) = (if be = be' then c else rev c)"
  by (simp_all add: int_codec host_object)

lemma length_rev_chunks [simp]: "n * k \<le> length bs \<Longrightarrow> length (rev_chunks k n bs) = n * k"
  by (induction n arbitrary: bs) auto

lemma length_conv_chunks [simp]: "n * k \<le> length bs \<Longrightarrow> length (conv_chunks swap k n bs) = n * k"
  by (simp add: conv_chunks_def)

lemma conv_chunks_Suc: "conv_chunks swap k (Suc n) bs =
    (if swap then rev (take k bs) else take k bs) @ conv_chunks swap k n (drop k bs)"
  by (simp add: conv_chunks_def take_add)

lemma conv_chunks_0 [simp]: "conv_chunks swap k 0 bs = []"
  by (simp add: conv_chunks_def)

lemma conv_chunks_conv: "n * k \<le> length bs \<Longrightarrow> conv_chunks swap k n (conv_chunks swap k n bs @ r) = take (n * k) bs"
proof (induction n arbitrary: bs)
  case (Suc n)
  have "n * k \<le> length (drop k bs)" using Suc.prems by simp
  from Suc.IH [OF this] Suc.prems show ?case by (auto simp: conv_chunks_Suc take_add)
qed simp

lemma conv_chunks_add:
  "conv_chunks swap k (a + b) bs = conv_chunks swap k a bs @ conv_chunks swap k b (drop (a * k) bs)"
  by (induction a arbitrary: bs) (simp_all add: conv_chunks_Suc add.commute)

lemma conv_chunks_bytes_at:
  assumes "\<And>i. i < n \<Longrightarrow> bytes_at m' (d + i * k) k =
      (if swap then rev (bytes_at m (s + i * k) k) else bytes_at m (s + i * k) k)"
    and "n * k \<le> N"
  shows "bytes_at m' d (n * k) = conv_chunks swap k n (bytes_at m s N)"
  using assms
proof (induction n arbitrary: d s N)
  case (Suc n)
  have "bytes_at m' (d + k) (n * k) = conv_chunks swap k n (bytes_at m (s + k) (N - k))"
  proof (rule Suc.IH)
    fix i assume "i < n"
    then show "bytes_at m' (d + k + i * k) k =
        (if swap then rev (bytes_at m (s + k + i * k) k) else bytes_at m (s + k + i * k) k)"
      using Suc.prems(1) [of "Suc i"] by (simp add: add.assoc)
  qed (use Suc.prems(2) in simp)
  then show ?case
    using Suc.prems(1) [of 0] Suc.prems(2) by (simp add: conv_chunks_Suc bytes_at_add min_def)
qed simp

text \<open>
  The part of a section that has been converted so far: the first \<open>n\<close> bytes of the
  destination hold \<open>img\<close>, the rest of the memory is untouched.
\<close>

definition converted :: "memory \<Rightarrow> memory \<Rightarrow> addr \<Rightarrow> nat \<Rightarrow> byte list \<Rightarrow> bool" where
  "converted m m' dst n img \<longleftrightarrow> bytes_at m' dst n = img \<and> (\<forall>x. x < dst \<or> dst + n \<le> x \<longrightarrow> m' x = m x)"

lemma converted_source:
  assumes "converted m m1 dst n img" "dst = src \<or> disjoint_ranges dst N src N" "n + k \<le> N"
  shows "bytes_at m1 (src + n) k = bytes_at m (src + n) k"
  using assms by (intro bytes_at_eqI) (auto simp: converted_def disjoint_ranges_def)

lemma converted_step:
  assumes "converted m m1 dst o1 img" "dst = src \<or> disjoint_ranges dst N src N" "o1 + n * k \<le> N"
    and frame: "\<And>x. x < dst + o1 \<or> dst + o1 + n * k \<le> x \<Longrightarrow> m2 x = m1 x"
    and obj: "\<And>i. i < n \<Longrightarrow> bytes_at m2 (dst + o1 + i * k) k =
      (if swap then rev (bytes_at m1 (src + o1 + i * k) k) else bytes_at m1 (src + o1 + i * k) k)"
  shows "converted m m2 dst (o1 + n * k) (img @ conv_chunks swap k n (drop o1 (bytes_at m src N)))"
proof -
  have "bytes_at m2 (dst + o1) (n * k) = conv_chunks swap k n (bytes_at m (src + o1) (N - o1))"
  proof (rule conv_chunks_bytes_at)
    fix i assume i: "i < n"
    have "Suc i * k \<le> n * k" using i by (intro mult_le_mono1) simp
    with assms(3) have "o1 + i * k + k \<le> N" by simp
    then have "bytes_at m1 (src + o1 + i * k) k = bytes_at m (src + o1 + i * k) k"
      using assms(1,2) by (intro bytes_at_eqI) (auto simp: converted_def disjoint_ranges_def)
    with obj [OF i] show "bytes_at m2 (dst + o1 + i * k) k =
      (if swap then rev (bytes_at m (src + o1 + i * k) k) else bytes_at m (src + o1 + i * k) k)" by simp
  qed (use assms(3) in simp)
  moreover have "bytes_at m2 dst o1 = bytes_at m1 dst o1" by (rule bytes_at_eqI) (simp add: frame)
  ultimately show ?thesis
    using assms(1) frame by (auto simp: converted_def bytes_at_add)
qed

lemma ahead:
  assumes "dst = src \<or> disjoint_ranges dst N src N" "o1 + n * k \<le> N"
  shows "dst + o1 \<le> src + o1 \<or> src + o1 + n * k \<le> dst + o1"
  using assms by (auto simp: disjoint_ranges_def)

lemma tom_word_step:
  assumes "converted m m1 dst o1 img" "dst = src \<or> disjoint_ranges dst N src N" "o1 + n * 4 \<le> N"
  shows "converted m (tom_fwd_loop word_bytes READ_WORD SWAP_WORD 4 be swap n m1 (dst + o1) (src + o1))
    dst (o1 + n * 4) (img @ conv_chunks swap 4 n (drop o1 (bytes_at m src N)))"
  using ahead [OF assms(2,3)]
  by (intro converted_step [OF assms] word.tom_fwd_loop_frame)
     (simp_all add: word.tom_fwd_loop_object word_object)

lemma tom_word64_step:
  assumes "converted m m1 dst o1 img" "dst = src \<or> disjoint_ranges dst N src N" "o1 + n * 8 \<le> N"
  shows "converted m (tom_fwd_loop word64_bytes READ_WORD64 SWAP_WORD64 8 be swap n m1 (dst + o1) (src + o1))
    dst (o1 + n * 8) (img @ conv_chunks swap 8 n (drop o1 (bytes_at m src N)))"
  using ahead [OF assms(2,3)]
  by (intro converted_step [OF assms] word64.tom_fwd_loop_frame)
     (simp_all add: word64.tom_fwd_loop_object word_object)

lemma tof_word_step:
  assumes "converted m m1 dst o1 img" "dst = src \<or> disjoint_ranges dst N src N" "o1 + n * 4 \<le> N"
  shows "converted m (tof_loop word_of SWAP_WORD WRITE_WORD 4 be swap n m1 (dst + o1) (src + o1))
    dst (o1 + n * 4) (img @ conv_chunks swap 4 n (drop o1 (bytes_at m src N)))"
  using ahead [OF assms(2,3)]
  by (intro converted_step [OF assms] word.tof_loop_frame)
     (simp_all add: word.tof_loop_object word_object)

lemma tof_word64_step:
  assumes "converted m m1 dst o1 img" "dst = src \<or> disjoint_ranges dst N src N" "o1 + n * 8 \<le> N"
  shows "converted m (tof_loop word64_of SWAP_WORD64 WRITE_WORD64 8 be swap n m1 (dst + o1) (src + o1))
    dst (o1 + n * 8) (img @ conv_chunks swap 8 n (drop o1 (bytes_at m src N)))"
  using ahead [OF assms(2,3)]
  by (intro converted_step [OF assms] word64.tof_loop_frame)
     (simp_all add: word64.tof_loop_object word_object)

lemma header_image:
  "conv_chunks swap 4 4 (bytes_at m a 16) =
     Elf_GNU_Hash_Header_bytes be (Elf_GNU_Hash_Header_of (be \<noteq> swap) (bytes_at m a 16))"
  by (simp add: codec_defs host_object numeral_nat(2) conv_chunks_Suc eval_nat_numeral)

lemma SWAP_WORD_host [simp]: "length b = 4 \<Longrightarrow> SWAP_WORD (host_word be b) = host_word (\<not> be) b"
  using word.SWAP_of [of b be] by (simp add: int_codec)

lemma conv_chunks_prefix: "n * k \<le> N \<Longrightarrow> conv_chunks swap k n (bytes_at m a N) = conv_chunks swap k n (bytes_at m a (n * k))"
proof (induction n arbitrary: a N)
  case (Suc n)
  then have "n * k \<le> N - k" by simp
  from Suc.IH [OF this, of "a + k"] Suc.prems show ?case by (simp add: conv_chunks_Suc min_def)
qed simp

text \<open>Writing the converted header starts the conversion of the section.\<close>

lemma converted_header:
  assumes "16 \<le> N"
  shows "converted m (put_bytes m dst (Elf_GNU_Hash_Header_bytes be (Elf_GNU_Hash_Header_of (be \<noteq> swap) (bytes_at m src 16))))
    dst 16 (conv_chunks swap 4 4 (bytes_at m src N))"
proof -
  have "conv_chunks swap 4 4 (bytes_at m src N) = conv_chunks swap 4 4 (bytes_at m src 16)"
    using conv_chunks_prefix [of 4 4 N swap m src] assms by simp
  moreover have "length (conv_chunks swap 4 4 (bytes_at m src 16)) = 16" by simp
  ultimately show ?thesis by (simp add: header_image [of swap m src be] converted_def)
qed

text \<open>Bloom filter, buckets and chains converted one after the other make up the section.\<close>

lemma converted_image:
  assumes "converted m m' dst (16 + mw * 8 + nb * 4 + nc * 4)
      (((conv_chunks swap 4 4 (bytes_at m src N) @ conv_chunks swap 8 mw (drop 16 (bytes_at m src N))) @
        conv_chunks swap 4 nb (drop (16 + mw * 8) (bytes_at m src N))) @
        conv_chunks swap 4 nc (drop (16 + mw * 8 + nb * 4) (bytes_at m src N)))"
    and "N = 16 + mw * 8 + nb * 4 + nc * 4"
  shows "converted m m' dst N (gnuhash64_image swap mw (bytes_at m src N))"
proof -
  have "(N - 16 - mw * 8) div 4 = nb + nc" using assms(2) by simp
  then have "gnuhash64_image swap mw (bytes_at m src N) =
    conv_chunks swap 4 4 (bytes_at m src N) @ conv_chunks swap 8 mw (drop 16 (bytes_at m src N)) @
    conv_chunks swap 4 (nb + nc) (drop (16 + mw * 8) (bytes_at m src N))"
    by (simp add: gnuhash64_image_def)
  with assms show ?thesis by (simp add: conv_chunks_add add.assoc)
qed

lemma chains_count:
  assumes "16 + nb * 4 + mw * 8 \<le> N" "N < 2 ^ 34" "4 dvd N"
  obtains nc :: nat where "N = 16 + mw * 8 + nb * 4 + nc * 4" "u32 ((N - 16 - (nb * 4 + mw * 8)) div 4) = nc"
proof
  have "4 dvd N - 16 - (nb * 4 + mw * 8)" using assms(1,3) by (auto intro!: dvd_diff_nat)
  then show "N = 16 + mw * 8 + nb * 4 + (N - 16 - (nb * 4 + mw * 8)) div 4 * 4" using assms(1) by auto
  show "u32 ((N - 16 - (nb * 4 + mw * 8)) div 4) = (N - 16 - (nb * 4 + mw * 8)) div 4"
    using assms(2) by simp
qed

lemma header_fields:
  "gh_nbuckets (Elf_GNU_Hash_Header_of e (bytes_at m a 16)) = host_word e (bytes_at m a 4)"
  "gh_symndx (Elf_GNU_Hash_Header_of e (bytes_at m a 16)) = host_word e (bytes_at m (a + 4) 4)"
  "gh_maskwords (Elf_GNU_Hash_Header_of e (bytes_at m a 16)) = host_word e (bytes_at m (a + 8) 4)"
  "gh_shift2 (Elf_GNU_Hash_Header_of e (bytes_at m a 16)) = host_word e (bytes_at m (a + 12) 4)"
  by (simp_all add: Elf_GNU_Hash_Header_of_def)

lemma header_eta:
  "\<lparr>gh_nbuckets = host_word e (bytes_at m a 4), gh_symndx = host_word e (bytes_at m (a + 4) 4),
    gh_maskwords = host_word e (bytes_at m (a + 8) 4), gh_shift2 = host_word e (bytes_at m (a + 12) 4)\<rparr> =
   Elf_GNU_Hash_Header_of e (bytes_at m a 16)"
  by (simp add: Elf_GNU_Hash_Header_of_def)

lemma swapped_field:
  "length b = 4 \<Longrightarrow> (if swap then SWAP_WORD (host_word be b) else host_word be b) = host_word (be \<noteq> swap) b"
  by (cases be; cases swap) simp_all

lemma libelf_cvt64_GNUHASH_tom_image:
  assumes h_def: "h = Elf_GNU_Hash_Header_of (be \<noteq> swap) (bytes_at m src 16)"
    and mw_def: "mw = unat (gh_maskwords h)" and nb_def: "nb = unat (gh_nbuckets h)"
    and "16 + nb * 4 + mw * 8 \<le> N" "N < 2 ^ 34" "4 dvd N" "N \<le> dsz"
    and d: "dst = src \<or> disjoint_ranges dst N src N"
  shows "\<exists>m'. libelf_cvt64_GNUHASH_tom be m dst dsz src N swap = (m', True) \<and>
    converted m m' dst N (gnuhash64_image swap mw (bytes_at m src N))"
proof -
  from chains_count [OF assms(4-6)] obtain nc where N: "N = 16 + mw * 8 + nb * 4 + nc * 4"
    and nc: "u32 ((N - 16 - (nb * 4 + mw * 8)) div 4) = nc" .
  let ?m1 = "put_bytes m dst (Elf_GNU_Hash_Header_bytes be h)"
  let ?m2 = "tom_fwd_loop word64_bytes READ_WORD64 SWAP_WORD64 8 be swap mw ?m1 (dst + 16) (src + 16)"
  let ?m3 = "tom_fwd_loop word_bytes READ_WORD SWAP_WORD 4 be swap nb ?m2 (dst + (16 + mw * 8)) (src + (16 + mw * 8))"
  let ?m4 = "tom_fwd_loop word_bytes READ_WORD SWAP_WORD 4 be swap nc ?m3
     (dst + (16 + mw * 8 + nb * 4)) (src + (16 + mw * 8 + nb * 4))"
  have "\<not> N - 16 < nb * 4 + mw * 8" "\<not> dsz - 16 - (nb * 4 + mw * 8) < N - 16 - (nb * 4 + mw * 8)"
    using assms(4,7) by linarith+
  then have "libelf_cvt64_GNUHASH_tom be m dst dsz src N swap = (?m4, True)"
    using assms(4,7) nc
    by (simp add: libelf_cvt64_GNUHASH_tom_def Let_def swapped_field mw_def nb_def h_def header_fields
        header_eta add.assoc)
  moreover have "converted m ?m4 dst (16 + mw * 8 + nb * 4 + nc * 4)
      (((conv_chunks swap 4 4 (bytes_at m src N) @ conv_chunks swap 8 mw (drop 16 (bytes_at m src N))) @
        conv_chunks swap 4 nb (drop (16 + mw * 8) (bytes_at m src N))) @
        conv_chunks swap 4 nc (drop (16 + mw * 8 + nb * 4) (bytes_at m src N)))"
    using N by (intro tom_word_step tom_word64_step d converted_header [of N m dst be swap src, folded h_def]) simp_all
  ultimately show ?thesis using converted_image [OF _ N] by blast
qed

lemma libelf_cvt64_GNUHASH_tof_image:
  assumes h_def: "h = Elf_GNU_Hash_Header_of be (bytes_at m src 16)"
    and mw_def: "mw = unat (gh_maskwords h)" and nb_def: "nb = unat (gh_nbuckets h)"
    and "16 + nb * 4 + mw * 8 \<le> N" "N < 2 ^ 34" "4 dvd N" "N \<le> dsz"
    and d: "dst = src \<or> disjoint_ranges dst N src N"
  shows "\<exists>m'. libelf_cvt64_GNUHASH_tof be m dst dsz src N swap = (m', True) \<and>
    converted m m' dst N (gnuhash64_image swap mw (bytes_at m src N))"
proof -
  from chains_count [OF assms(4-6)] obtain nc where N: "N = 16 + mw * 8 + nb * 4 + nc * 4"
    and nc: "u32 ((N - 16 - (nb * 4 + mw * 8)) div 4) = nc" .
  let ?h = "Elf_GNU_Hash_Header_of (be \<noteq> swap) (bytes_at m src 16)"
  let ?m1 = "put_bytes m dst (Elf_GNU_Hash_Header_bytes be ?h)"
  let ?m2 = "tof_loop word64_of SWAP_WORD64 WRITE_WORD64 8 be swap mw ?m1 (dst + 16) (src + 16)"
  let ?m3 = "tof_loop word_of SWAP_WORD WRITE_WORD 4 be swap nb ?m2 (dst + (16 + mw * 8)) (src + (16 + mw * 8))"
  let ?m4 = "tof_loop word_of SWAP_WORD WRITE_WORD 4 be swap nc ?m3
     (dst + (16 + mw * 8 + nb * 4)) (src + (16 + mw * 8 + nb * 4))"
  have "\<not> N - 16 < nb * 4 + mw * 8" "\<not> dsz - 16 - (nb * 4 + mw * 8) < N - 16 - (nb * 4 + mw * 8)"
    using assms(4,7) by linarith+
  then have "libelf_cvt64_GNUHASH_tof be m dst dsz src N swap = (?m4, True)"
    using assms(4,7) nc
    by (simp add: libelf_cvt64_GNUHASH_tof_def Let_def swapped_field mw_def nb_def h_def header_fields
        Elf_GNU_Hash_Header_bytes_def put_bytes_append add.assoc)
  moreover have "converted m ?m4 dst (16 + mw * 8 + nb * 4 + nc * 4)
      (((conv_chunks swap 4 4 (bytes_at m src N) @ conv_chunks swap 8 mw (drop 16 (bytes_at m src N))) @
        conv_chunks swap 4 nb (drop (16 + mw * 8) (bytes_at m src N))) @
        conv_chunks swap 4 nc (drop (16 + mw * 8 + nb * 4) (bytes_at m src N)))"
    using N by (intro tof_word_step tof_word64_step d converted_header) simp_all
  ultimately show ?thesis using converted_image [OF _ N] by blast
qed

lemma gnuhash64_image_twice:
  assumes "length bs = 16 + mw * 8 + k * 4"
  shows "gnuhash64_image swap mw (gnuhash64_image swap mw bs) = bs"
proof -
  let ?a = "conv_chunks swap 4 4 bs" and ?b = "conv_chunks swap 8 mw (drop 16 bs)"
    and ?c = "conv_chunks swap 4 k (drop (16 + mw * 8) bs)"
  have len: "length ?a = 16" "length ?b = mw * 8" "length ?c = k * 4" using assms by simp_all
  have img: "gnuhash64_image swap mw bs = ?a @ ?b @ ?c" using assms by (simp add: gnuhash64_image_def)
  have "gnuhash64_image swap mw (?a @ ?b @ ?c) =
    conv_chunks swap 4 4 (?a @ ?b @ ?c) @ conv_chunks swap 8 mw (?b @ ?c) @ conv_chunks swap 4 k (?c @ [])"
    unfolding gnuhash64_image_def using len by simp
  also have "\<dots> = take (4 * 4) bs @ take (mw * 8) (drop 16 bs) @ take (k * 4) (drop (16 + mw * 8) bs)"
    using assms by (simp only: conv_chunks_conv length_drop)
  also have "\<dots> = bs" using assms by (simp add: take_drop_join)
  finally show ?thesis using img by simp
qed

lemma gnuhash64_image_header:
  assumes "converted m m' dst N (gnuhash64_image swap mw (bytes_at m src N))" "16 \<le> N"
  shows "Elf_GNU_Hash_Header_of be (bytes_at m' dst 16) = Elf_GNU_Hash_Header_of (be \<noteq> swap) (bytes_at m src 16)"
proof -
  have "bytes_at m' dst 16 = take 16 (gnuhash64_image swap mw (bytes_at m src N))"
    using assms by (metis converted_def take_bytes_at min.absorb1)
  also have "\<dots> = conv_chunks swap 4 4 (bytes_at m src N)" using assms(2) by (simp add: gnuhash64_image_def)
  also have "\<dots> = conv_chunks swap 4 4 (bytes_at m src 16)"
    using conv_chunks_prefix [of 4 4 N swap m src] assms(2) by simp
  finally show ?thesis by (simp add: header_image [of swap m src be]) (simp add: codec_defs)
qed

section \<open>Properties\<close>

text \<open>
  C21. Reading the image of a 64-bit GNU hash section into memory and writing it out again
  reproduces it byte for byte, in either byte order, with each conversion done in place or
  between separate buffers.
\<close>

theorem libelf_cvt64_GNUHASH_roundtrip:
  assumes "h = Elf_GNU_Hash_Header_of (be \<noteq> byteswap) (bytes_at m src 16)"
    and "16 + unat (gh_nbuckets h) * 4 + unat (gh_maskwords h) * 8 \<le> srcsz"
    and "srcsz < 2 ^ 34" "4 dvd srcsz" "srcsz \<le> dsz" "srcsz \<le> osz"
    and "buf = src \<or> disjoint_ranges buf srcsz src srcsz"
    and "out = buf \<or> disjoint_ranges out srcsz buf srcsz"
  shows "\<exists>m1 m2. libelf_cvt64_GNUHASH_tom be m buf dsz src srcsz byteswap = (m1, True) \<and>
    libelf_cvt64_GNUHASH_tof be m1 out osz buf srcsz byteswap = (m2, True) \<and>
    bytes_at m2 out srcsz = bytes_at m src srcsz"
proof -
  let ?mw = "unat (gh_maskwords h)"
  obtain m1 where m1: "libelf_cvt64_GNUHASH_tom be m buf dsz src srcsz byteswap = (m1, True)"
    and c1: "converted m m1 buf srcsz (gnuhash64_image byteswap ?mw (bytes_at m src srcsz))"
    using libelf_cvt64_GNUHASH_tom_image [OF assms(1) refl refl assms(2-5,7)] by blast
  have h: "h = Elf_GNU_Hash_Header_of be (bytes_at m1 buf 16)"
    using gnuhash64_image_header [OF c1] assms(1,2) by simp
  obtain m2 where m2: "libelf_cvt64_GNUHASH_tof be m1 out osz buf srcsz byteswap = (m2, True)"
    and c2: "converted m1 m2 out srcsz (gnuhash64_image byteswap ?mw (bytes_at m1 buf srcsz))"
    using libelf_cvt64_GNUHASH_tof_image [OF h refl refl assms(2-4,6,8)] by blast
  obtain nc where nc: "srcsz = 16 + ?mw * 8 + (unat (gh_nbuckets h) + nc) * 4"
    using chains_count [OF assms(2-4)] by (auto simp: algebra_simps)
  have "bytes_at m2 out srcsz = bytes_at m src srcsz"
    using c1 c2 gnuhash64_image_twice [of "bytes_at m src srcsz" ?mw "unat (gh_nbuckets h) + nc" byteswap] nc
    by (simp add: converted_def)
  with m1 m2 show ?thesis by blast
qed

text \<open>A table with one bucket, one mask word and one chain, written by a big-endian machine.\<close>

definition sample_gnuhash :: memory where
  "sample_gnuhash = put_bytes (\<lambda>_. 0) 100
     ([0, 0, 0, 1] @ [0, 0, 0, 1] @ [0, 0, 0, 1] @ [0, 0, 0, 6] @ [0x12, 0x34, 0x56, 0x78, 0x9A, 0xBC, 0xDE, 0xF0] @
      [0, 0, 0, 1] @ [0xCA, 0xFE, 0xBA, 0xBF])"

theorem libelf_cvt64_GNUHASH_roundtrip_witness:
  "\<exists>m1 m2. libelf_cvt64_GNUHASH_tom False sample_gnuhash 200 32 100 32 True = (m1, True) \<and>
    libelf_cvt64_GNUHASH_tof False m1 200 32 200 32 True = (m2, True) \<and>
    bytes_at m2 200 32 = bytes_at sample_gnuhash 100 32"
proof -
  let ?h = "Elf_GNU_Hash_Header_of (False \<noteq> True) (bytes_at sample_gnuhash 100 16)"
  have "bytes_at sample_gnuhash 100 4 = [0, 0, 0, 1]" "bytes_at sample_gnuhash 108 4 = [0, 0, 0, 1]"
    by (simp_all add: sample_gnuhash_def put_bytes_def bytes_at_def upt_rec)
  then have "unat (gh_nbuckets ?h) = 1" "unat (gh_maskwords ?h) = 1"
    by (simp_all add: codec_defs host_word_def)
  then show ?thesis
    using libelf_cvt64_GNUHASH_roundtrip [OF refl, of False True sample_gnuhash 100 32 32 32 200 200]
    by (simp add: disjoint_ranges_def)
qed

end
