(* ===== verification/Libelf_Cvt_Note.thy ===== *)
theory Libelf_Cvt_Note
  imports Libelf_Cvt_Gnuhash
begin

text \<open>
  The converters of \<open>libelf_convert.c\<close> for note sections: a sequence of headers of three
  words, each followed by a name and a descriptor, both padded to four bytes.  Only the
  headers depend on the byte order.  The loop of the converter to memory always ends; the
  loop of the converter to the file format may run forever, which is the value \<open>None\<close>.
\<close>

section \<open>Definitions\<close>

abbreviation (input) sizeof_Elf_Note :: nat where "sizeof_Elf_Note \<equiv> 12"

definition Elf_Note_of :: "bool \<Rightarrow> byte list \<Rightarrow> Elf_Note" where [codec_defs]:
  "Elf_Note_of be bs =
    \<lparr>n_namesz = host_word be (take 4 bs),
     n_descsz = host_word be (take 4 (drop 4 bs)),
     n_type = host_word be (take 4 (drop 8 bs))\<rparr>"

definition Elf_Note_bytes :: "bool \<Rightarrow> Elf_Note \<Rightarrow> byte list" where [codec_defs]:
  "Elf_Note_bytes be t =
     host_bytes be 4 (n_namesz t) @
     host_bytes be 4 (n_descsz t) @
     host_bytes be 4 (n_type t)"

text \<open>\<open>while (count > hdrsz) { ... }\<close> of \<open>libelf_cvt_NOTE_tom\<close>\<close>

function note_tom_loop :: "bool \<Rightarrow> memory \<Rightarrow> addr \<Rightarrow> nat \<Rightarrow> addr \<Rightarrow> nat \<Rightarrow> memory \<times> bool" where
  "note_tom_loop be m dst dsz src count =
    (if 3 * 4 < count then
       (let (namesz, src) = READ_WORD be m src;
            (descsz, src) = READ_WORD be m src;
            (type, src) = READ_WORD be m src;
            namesz = SWAP_WORD namesz;
            descsz = SWAP_WORD descsz;
            type = SWAP_WORD type;
            m = put_bytes m dst (Elf_Note_bytes be \<lparr>n_namesz = namesz, n_descsz = descsz, n_type = type\<rparr>);
            dsz = dsz - sizeof_Elf_Note;
            dst = dst + sizeof_Elf_Note;
            count = count - 3 * 4;
            namesz = ROUNDUP2 namesz 4;
            descsz = ROUNDUP2 descsz 4;
            sz = unat (namesz + descsz)
        in if count < sz \<or> dsz < sz then (m, False)
           else note_tom_loop be (memcpy m dst src sz) (dst + sz) (dsz - sz) (src + sz) (count - sz))
     else (m, True))"
  by pat_completeness auto
termination
  by (relation "measure (\<lambda>(be, m, dst, dsz, src, count). count)") auto

declare note_tom_loop.simps [simp del]

definition libelf_cvt_NOTE_tom :: converter where
  "libelf_cvt_NOTE_tom be m dst dsz src count byteswap =
    (if dsz < count then (m, False)
     else let hdrsz = 3 * 4
     in if count < hdrsz then (m, False)
     else if \<not> byteswap then (memcpy m dst src count, True)
     else note_tom_loop be m dst dsz src count)"

text \<open>\<open>while (count > sizeof(Elf_Note)) { ... }\<close> of \<open>libelf_cvt_NOTE_tof\<close>\<close>

partial_function (option) note_tof_loop ::
    "bool \<Rightarrow> memory \<Rightarrow> addr \<Rightarrow> addr \<Rightarrow> nat \<Rightarrow> (memory \<times> bool) option" where
  "note_tof_loop be m dst src count =
    (if sizeof_Elf_Note < count then
       (let en = Elf_Note_of be (bytes_at m src sizeof_Elf_Note);
            namesz = SWAP_WORD (n_namesz en);
            descsz = SWAP_WORD (n_descsz en);
            type = SWAP_WORD (n_type en);
            (m, dst) = WRITE_WORD be m dst namesz;
            (m, dst) = WRITE_WORD be m dst descsz;
            (m, dst) = WRITE_WORD be m dst type;
            src = src + sizeof_Elf_Note;
            namesz = ROUNDUP2 namesz 4;
            descsz = ROUNDUP2 descsz 4;
            sz = unat (namesz + descsz);
            sz = (if count < sz then count else sz)
        in note_tof_loop be (memcpy m dst src sz) (dst + sz) (src + sz) (count - sz))
     else Some (m, True))"

definition libelf_cvt_NOTE_tof ::
    "bool \<Rightarrow> memory \<Rightarrow> addr \<Rightarrow> nat \<Rightarrow> addr \<Rightarrow> nat \<Rightarrow> bool \<Rightarrow> (memory \<times> bool) option" where
  "libelf_cvt_NOTE_tof be m dst dsz src count byteswap =
    (if dsz < count then Some (m, False)
     else if \<not> byteswap then Some (memcpy m dst src count, True)
     else note_tof_loop be m dst src count)"

section \<open>Notes\<close>

text \<open>
  The reference: a note is a header and a payload whose length the header determines; a
  note section is the concatenation of its notes in the byte order of the file or host.
\<close>

definition roundup4 :: "nat \<Rightarrow> nat" where
  "roundup4 n = (n + 3) div 4 * 4"

definition note_ok :: "Elf_Note \<times> byte list \<Rightarrow> bool" where
  "note_ok n \<longleftrightarrow> unat (n_namesz (fst n)) < 2 ^ 31 - 4 \<and> unat (n_descsz (fst n)) < 2 ^ 31 - 4 \<and>
     length (snd n) = roundup4 (unat (n_namesz (fst n))) + roundup4 (unat (n_descsz (fst n)))"

definition note_image :: "bool \<Rightarrow> (Elf_Note \<times> byte list) list \<Rightarrow> byte list" where
  "note_image ord ns = concat (map (\<lambda>(h, p). Elf_Note_bytes ord h @ p) ns)"

section \<open>Lemmas\<close>

lemma AND_NOT_mask_2: "x AND NOT (mask 2) = push_bit 2 (drop_bit 2 (x :: 32 word))"
proof (rule bit_word_eqI)
  fix i assume "i < LENGTH(32)"
  then show "bit (x AND NOT (mask 2)) i = bit (push_bit 2 (drop_bit 2 x)) i"
  proof (cases "2 \<le> i")
    case True
    then obtain j where "i = Suc (Suc j)" by (metis add_2_eq_Suc le_Suc_ex)
    with \<open>i < LENGTH(32)\<close> show ?thesis by (simp add: bit_simps)
  qed (simp add: bit_simps)
qed

lemma unat_AND_NOT: "unat (x AND NOT (4 - 1) :: 32 word) = unat x div 4 * 4"
proof -
  have "unat x div 4 < 1073741824" using unsigned_less [of x, where 'a = nat] by auto
  moreover have "(4 - 1 :: 32 word) = mask 2" by (simp add: mask_eq_exp_minus_1)
  ultimately show ?thesis
    by (simp only: AND_NOT_mask_2) (simp add: push_bit_eq_mult unat_word_ariths drop_bit_eq_div unat_div_distrib)
qed

lemma unat_ROUNDUP2: "unat V < 2 ^ 31 - 4 \<Longrightarrow> unat (ROUNDUP2 V 4) = roundup4 (unat V)"
proof -
  assume a: "unat V < 2 ^ 31 - 4"
  have "V + 4 - 1 = V + 3" by simp
  moreover have "unat (V + 3) = unat V + 3" using a by (subst unat_add_lem [THEN iffD1]) simp_all
  ultimately show ?thesis by (simp only: ROUNDUP2_def unat_AND_NOT roundup4_def)
qed

lemma roundup4_bound: "roundup4 n \<le> n + 3"
  by (simp add: roundup4_def)

lemma unat_sizes: "note_ok n \<Longrightarrow>
    unat (ROUNDUP2 (n_namesz (fst n)) 4 + ROUNDUP2 (n_descsz (fst n)) 4) = length (snd n)"
  using roundup4_bound [of "unat (n_namesz (fst n))"] roundup4_bound [of "unat (n_descsz (fst n))"]
  by (subst unat_add_lem [THEN iffD1]) (auto simp: note_ok_def unat_ROUNDUP2)

lemma length_Elf_Note_bytes [simp]: "length (Elf_Note_bytes be h) = 12"
  by (simp add: Elf_Note_bytes_def)

lemma Elf_Note_of_bytes [simp]: "Elf_Note_of be (Elf_Note_bytes be h @ r) = h"
  by (simp add: codec_defs)

lemma note_image_simps [simp]:
  "note_image ord [] = []"
  "note_image ord (n # ns) = Elf_Note_bytes ord (fst n) @ snd n @ note_image ord ns"
  by (simp_all add: note_image_def case_prod_beta)

lemma length_note_image: "length (note_image ord ns) = length (note_image ord' ns)"
  by (induction ns) simp_all

text \<open>The header that a conversion reads at the start of a note.\<close>

lemma note_header_read:
  "\<lparr>n_namesz = SWAP_WORD (host_word be (bytes_at m src 4)),
    n_descsz = SWAP_WORD (host_word be (bytes_at m (src + 4) 4)),
    n_type = SWAP_WORD (host_word be (bytes_at m (src + 8) 4))\<rparr> = Elf_Note_of (\<not> be) (bytes_at m src 12)"
  by (simp add: Elf_Note_of_def)

lemma note_tom_step:
  assumes "12 < count" "h = Elf_Note_of (\<not> be) (bytes_at m src 12)"
    and "sz = unat (ROUNDUP2 (n_namesz h) 4 + ROUNDUP2 (n_descsz h) 4)" "12 + sz \<le> count" "count \<le> dsz"
  shows "note_tom_loop be m dst dsz src count =
    note_tom_loop be (memcpy (put_bytes m dst (Elf_Note_bytes be h)) (dst + 12) (src + 12) sz)
      (dst + 12 + sz) (dsz - 12 - sz) (src + 12 + sz) (count - 12 - sz)"
proof -
  have "n_namesz h = SWAP_WORD (host_word be (bytes_at m src 4))"
    "n_descsz h = SWAP_WORD (host_word be (bytes_at m (src + 4) 4))"
    by (simp_all add: assms(2) Elf_Note_of_def)
  moreover have "\<not> (count - 12 < sz \<or> dsz - 12 < sz)" using assms(4,5) by auto
  ultimately show ?thesis
    using assms(1,3)
    by (subst note_tom_loop.simps) (simp add: Let_def note_header_read [symmetric] assms(2) add.assoc)
qed

lemma note_image_read:
  assumes "bytes_at m src N = Elf_Note_bytes ord h @ p @ r" "N = 12 + length p + length r"
  shows "Elf_Note_of ord (bytes_at m src 12) = h"
    and "bytes_at m (src + 12) (length p) = p"
    and "bytes_at m (src + 12 + length p) (length r) = r"
proof -
  have "take 12 (bytes_at m src N) = Elf_Note_bytes ord h" by (simp only: assms(1)) simp
  with assms(2) show "Elf_Note_of ord (bytes_at m src 12) = h"
    using Elf_Note_of_bytes [of ord h "[]"] by simp
  have "take (length p) (drop 12 (bytes_at m src N)) = p" by (simp only: assms(1)) simp
  with assms(2) show "bytes_at m (src + 12) (length p) = p" by simp
  have "drop (length p) (drop 12 (bytes_at m src N)) = r" by (simp only: assms(1)) simp
  with assms(2) show "bytes_at m (src + 12 + length p) (length r) = r" by simp
qed

lemma note_tom_loop_image:
  assumes "list_all note_ok ns" "ns \<noteq> [] \<longrightarrow> snd (last ns) \<noteq> []"
    and "bytes_at m src N = note_image (\<not> be) ns" "N = length (note_image be ns)" "N \<le> dsz"
    and "dst = src \<or> disjoint_ranges dst N src N"
  shows "\<exists>m'. note_tom_loop be m dst dsz src N = (m', True) \<and> converted m m' dst N (note_image be ns)"
  using assms
proof (induction ns arbitrary: m dst dsz src N)
  case Nil
  then show ?case by (subst note_tom_loop.simps) (simp add: converted_def)
next
  case (Cons n ns)
  let ?h = "fst n" and ?p = "snd n" and ?r = "note_image (\<not> be) ns"
  let ?k = "12 + length ?p" and ?R = "length ?r"
  have R: "length (note_image be ns) = ?R" by (rule length_note_image)
  have N: "N = 12 + length ?p + ?R" using Cons.prems(4) R by simp
  have "bytes_at m src N = Elf_Note_bytes (\<not> be) ?h @ ?p @ ?r" using Cons.prems(3) by simp
  note rd = note_image_read [OF this N]
  have big: "12 < N" using Cons.prems(2) N by (cases ns) (auto split: if_splits)
  have ok: "note_ok n" using Cons.prems(1) by simp
  let ?m = "memcpy (put_bytes m dst (Elf_Note_bytes be ?h)) (dst + 12) (src + 12) (length ?p)"
  have step: "note_tom_loop be m dst dsz src N =
      note_tom_loop be ?m (dst + ?k) (dsz - ?k) (src + ?k) ?R"
    using note_tom_step [OF big rd(1) [symmetric] unat_sizes [OF ok, symmetric], of dsz dst] N Cons.prems(5)
    by (simp add: add.assoc)
  have hdr: "bytes_at (put_bytes m dst (Elf_Note_bytes be ?h)) (src + 12) (length ?p) = ?p"
    using rd(2) Cons.prems(6) N by (subst bytes_at_put_disjoint) (auto simp: disjoint_ranges_def)
  have m: "?m = put_bytes m dst (Elf_Note_bytes be ?h @ ?p)"
    by (simp add: memcpy_def hdr put_bytes_append)
  have "\<exists>m'. note_tom_loop be ?m (dst + ?k) (dsz - ?k) (src + ?k) ?R = (m', True) \<and>
      converted ?m m' (dst + ?k) ?R (note_image be ns)"
  proof (rule Cons.IH)
    show "ns \<noteq> [] \<longrightarrow> snd (last ns) \<noteq> []" using Cons.prems(2) by auto
    show "bytes_at ?m (src + ?k) ?R = ?r"
      unfolding m using rd(3) Cons.prems(6) N
      by (subst bytes_at_put_disjoint) (auto simp: disjoint_ranges_def add.assoc)
    show "dst + ?k = src + ?k \<or> disjoint_ranges (dst + ?k) ?R (src + ?k) ?R"
      using Cons.prems(6) N by (auto simp: disjoint_ranges_def)
  qed (use Cons.prems(1,5) N R in auto)
  then obtain m' where m': "note_tom_loop be ?m (dst + ?k) (dsz - ?k) (src + ?k) ?R = (m', True)"
    and c: "converted ?m m' (dst + ?k) ?R (note_image be ns)" by blast
  have "bytes_at m' dst ?k = bytes_at ?m dst ?k"
    using c by (intro bytes_at_eqI) (auto simp: converted_def)
  also have "\<dots> = Elf_Note_bytes be ?h @ ?p" unfolding m by simp
  finally have "converted m m' dst N (note_image be (n # ns))"
    using c N m by (auto simp: converted_def bytes_at_add add.assoc)
  with step m' show ?case by auto
qed

lemma note_tom_loop_frame:
  "count \<le> dsz \<Longrightarrow> x < dst \<or> dst + dsz \<le> x \<Longrightarrow> fst (note_tom_loop be m dst dsz src count) x = m x"
proof (induction count arbitrary: m dst dsz src rule: less_induct)
  case (less count)
  let ?h = "Elf_Note_of (\<not> be) (bytes_at m src 12)"
  let ?sz = "unat (ROUNDUP2 (n_namesz ?h) 4 + ROUNDUP2 (n_descsz ?h) 4)"
  let ?m = "put_bytes m dst (Elf_Note_bytes be ?h)"
  have h: "n_namesz ?h = SWAP_WORD (host_word be (bytes_at m src 4))"
    "n_descsz ?h = SWAP_WORD (host_word be (bytes_at m (src + 4) 4))"
    by (simp_all add: Elf_Note_of_def)
  consider "count \<le> 12" | "12 < count" "count < 12 + ?sz" | "12 < count" "12 + ?sz \<le> count" by linarith
  then show ?case
  proof cases
    case 1
    then show ?thesis by (subst note_tom_loop.simps) simp
  next
    case 2
    then have "count - 12 < ?sz" by linarith
    with 2(1) have "note_tom_loop be m dst dsz src count = (?m, False)"
      by (subst note_tom_loop.simps) (simp add: Let_def h note_header_read [symmetric] add.assoc)
    with 2 less.prems show ?thesis by auto
  next
    case 3
    let ?m2 = "memcpy ?m (dst + 12) (src + 12) ?sz"
    note step = note_tom_step [OF 3(1) refl refl 3(2) less.prems(1), of dst]
    have "fst (note_tom_loop be ?m2 (dst + 12 + ?sz) (dsz - 12 - ?sz) (src + 12 + ?sz) (count - 12 - ?sz)) x = ?m2 x"
      using less.prems 3 by (intro less.IH) auto
    also have "?m2 x = m x" using less.prems 3 by (auto simp: memcpy_outside)
    finally show ?thesis using step by simp
  qed
qed

text \<open>A note without name and descriptor in an all-zero memory makes no progress.\<close>

lemma note_tof_loop_zero:
  assumes "note_tof_loop be m dst src count = Some y"
  shows "\<not> (m = (\<lambda>_. 0) \<and> 12 < count)"
proof (rule note_tof_loop.raw_induct [where P = "\<lambda>be m dst src count y. \<not> (m = (\<lambda>_. 0) \<and> 12 < count)"])
  fix loop :: "bool \<Rightarrow> memory \<Rightarrow> addr \<Rightarrow> addr \<Rightarrow> nat \<Rightarrow> (memory \<times> bool) option"
  fix be m dst src count y
  assume 1: "\<And>be m dst src count y. loop be m dst src count = Some y \<Longrightarrow> \<not> (m = (\<lambda>_. 0) \<and> 12 < count)"
    "(if 12 < count then
       (let en = Elf_Note_of be (bytes_at m src 12);
            namesz = SWAP_WORD (n_namesz en);
            descsz = SWAP_WORD (n_descsz en);
            type = SWAP_WORD (n_type en);
            (m, dst) = WRITE_WORD be m dst namesz;
            (m, dst) = WRITE_WORD be m dst descsz;
            (m, dst) = WRITE_WORD be m dst type;
            src = src + 12;
            namesz = ROUNDUP2 namesz 4;
            descsz = ROUNDUP2 descsz 4;
            sz = unat (namesz + descsz);
            sz = (if count < sz then count else sz)
        in loop be (memcpy m dst src sz) (dst + sz) (src + sz) (count - sz))
     else Some (m, True)) = Some y"
  show "\<not> (m = (\<lambda>_. 0) \<and> 12 < count)"
  proof
    assume a: "m = (\<lambda>_. 0) \<and> 12 < count"
    have z: "host_word be [0, 0, 0, 0 :: byte] = (0 :: 32 word)" by (simp add: host_word_def)
    have b: "bytes_at (\<lambda>_. 0) a 4 = [0, 0, 0, 0 :: byte]" for a by (simp add: bytes_at_numeral)
    have "host_bytes e 4 (0 :: 32 word) = [0, 0, 0, 0]" for e
      by (simp add: host_bytes_def le_bytes_def eval_nat_numeral)
    then have w: "put_bytes (\<lambda>_. 0) a (host_bytes e 4 (0 :: 32 word)) = (\<lambda>_. 0)" for a e
      by (auto simp: put_bytes_Cons fun_upd_def)
    have s: "SWAP_WORD 0 = 0" by (simp add: SWAP_WORD_def swap_step_def)
    have "loop be (\<lambda>_. 0) (dst + 12) (src + 12) count = Some y"
      using 1(2) a by (simp add: Let_def Elf_Note_of_def b z s w ROUNDUP2_def memcpy_def add.commute)
    with 1(1) a show False by blast
  qed
qed (fact assms)

section \<open>Properties\<close>

text \<open>
  C22. The converter to memory turns the file image of any list of well-formed notes whose
  last note carries a name or a descriptor into the image of the same notes in the byte order of the
  host, in place or between separate buffers, and touches nothing else.
\<close>

theorem libelf_cvt_NOTE_tom_image:
  assumes "list_all note_ok ns" "ns \<noteq> []" "snd (last ns) \<noteq> []"
    and "bytes_at m src count = note_image (be \<noteq> byteswap) ns"
    and "count = length (note_image be ns)" "count \<le> dsz"
    and "dst = src \<or> disjoint_ranges dst count src count"
  shows "\<exists>m'. libelf_cvt_NOTE_tom be m dst dsz src count byteswap = (m', True) \<and>
    converted m m' dst count (note_image be ns)"
proof (cases byteswap)
  case True
  with note_tom_loop_image [of ns m src count be dsz dst] assms
  have "\<exists>m'. note_tom_loop be m dst dsz src count = (m', True) \<and> converted m m' dst count (note_image be ns)"
    by simp
  moreover have "12 \<le> count" using assms(2,5) by (cases ns) auto
  ultimately show ?thesis using True assms(6) by (simp add: libelf_cvt_NOTE_tom_def)
next
  case False
  moreover have "12 \<le> count" using assms(2,5) by (cases ns) auto
  ultimately show ?thesis
    using assms(4,6) by (auto simp: libelf_cvt_NOTE_tom_def converted_def memcpy_outside)
qed

definition gnu_note :: "Elf_Note \<times> byte list" where
  "gnu_note = (\<lparr>n_namesz = 4, n_descsz = 2, n_type = 3\<rparr>, [71, 78, 85, 0, 1, 2, 0, 0])"

theorem libelf_cvt_NOTE_tom_image_witness:
  "\<exists>m'. libelf_cvt_NOTE_tom False (put_bytes (\<lambda>_. 0) 100 (note_image True [gnu_note, gnu_note])) 200 40 100 40 True =
      (m', True) \<and>
    converted (put_bytes (\<lambda>_. 0) 100 (note_image True [gnu_note, gnu_note])) m' 200 40 (note_image False [gnu_note, gnu_note])"
proof (rule libelf_cvt_NOTE_tom_image)
  show "list_all note_ok [gnu_note, gnu_note]" by (simp add: gnu_note_def note_ok_def roundup4_def)
qed (simp_all add: gnu_note_def disjoint_ranges_def)

text \<open>
  C23. Whatever the note headers say, the converter to memory writes inside the destination
  buffer only.
\<close>

theorem libelf_cvt_NOTE_tom_frame:
  assumes "x < dst \<or> dst + dsz \<le> x"
  shows "fst (libelf_cvt_NOTE_tom be m dst dsz src count byteswap) x = m x"
  using assms by (auto simp: libelf_cvt_NOTE_tom_def Let_def memcpy_outside note_tom_loop_frame)

theorem libelf_cvt_NOTE_tom_frame_witness:
  "fst (libelf_cvt_NOTE_tom False (\<lambda>_. 255) 200 40 100 40 True) 240 = 255"
  using libelf_cvt_NOTE_tom_frame [of 240 200 40 False "\<lambda>_. 255" 100 40 True] by simp

text \<open>
  A note section that ends in a note without name and descriptor is not converted
  completely: the loop runs only while more than a header is left, so a section that
  consists of one bare header is reported as converted while the destination is untouched.
\<close>

theorem libelf_cvt_NOTE_tom_bare:
  "12 \<le> dsz \<Longrightarrow> libelf_cvt_NOTE_tom be m dst dsz src 12 True = (m, True)"
  by (simp add: libelf_cvt_NOTE_tom_def) (subst note_tom_loop.simps, simp)

theorem libelf_cvt_NOTE_tom_bare_witness:
  "libelf_cvt_NOTE_tom False (\<lambda>_. 7) 200 12 100 12 True = (\<lambda>_. 7, True)"
  using libelf_cvt_NOTE_tom_bare [of 12] by simp

text \<open>
  The converter to the file format does not return when it has to swap a section longer than
  one header and all it reads are zeros, in the section and behind it: the count never changes and the
  loop runs on behind the section.
\<close>

theorem libelf_cvt_NOTE_tof_diverges:
  "12 < count \<Longrightarrow> count \<le> dsz \<Longrightarrow> libelf_cvt_NOTE_tof be (\<lambda>_. 0) dst dsz src count True = None"
  using note_tof_loop_zero [of be "\<lambda>_. 0" dst src count]
  by (cases "note_tof_loop be (\<lambda>_. 0) dst src count") (auto simp: libelf_cvt_NOTE_tof_def)

theorem libelf_cvt_NOTE_tof_diverges_witness:
  "libelf_cvt_NOTE_tof True (\<lambda>_. 0) 200 24 100 24 True = None"
  using libelf_cvt_NOTE_tof_diverges [of 24 24] by simp

text \<open>
  The converter to the file format takes the sizes it has already swapped for the
  lengths of name and descriptor and does not count the header: for a single note whose
  swapped lengths exceed the section it copies the whole section length behind the header
  and so overwrites the twelve bytes behind a destination of the right size.
\<close>

theorem libelf_cvt_NOTE_tof_overflow:
  assumes "12 < count" "count \<le> dsz" "h = Elf_Note_of (\<not> be) (bytes_at m src 12)"
    and "count \<le> unat (ROUNDUP2 (n_namesz h) 4 + ROUNDUP2 (n_descsz h) 4)"
    and "dst + 12 \<le> src" "i < 12"
  shows "\<exists>m'. libelf_cvt_NOTE_tof be m dst dsz src count True = Some (m', True) \<and>
    m' (dst + count + i) = m (src + count + i)"
proof -
  let ?m = "put_bytes m dst (Elf_Note_bytes be h)"
  let ?m' = "memcpy ?m (dst + 12) (src + 12) count"
  let ?sz = "unat (ROUNDUP2 (n_namesz h) 4 + ROUNDUP2 (n_descsz h) 4)"
  have sz: "\<not> count < ?sz \<Longrightarrow> ?sz = count" using assms(4) by simp
  have f: "SWAP_WORD (n_namesz (Elf_Note_of be (bytes_at m src 12))) = n_namesz h"
    "SWAP_WORD (n_descsz (Elf_Note_of be (bytes_at m src 12))) = n_descsz h"
    "SWAP_WORD (n_type (Elf_Note_of be (bytes_at m src 12))) = n_type h"
    by (simp_all add: assms(3) Elf_Note_of_def)
  have "note_tof_loop be m dst src count = note_tof_loop be ?m' (dst + 12 + count) (src + 12 + count) 0"
    using assms(1)
    by (subst note_tof_loop.simps)
       (simp add: Let_def f sz Elf_Note_bytes_def put_bytes_append add.assoc del: host_bytes_SWAP)
  also have "\<dots> = Some (?m', True)" by (subst note_tof_loop.simps) simp
  finally have "libelf_cvt_NOTE_tof be m dst dsz src count True = Some (?m', True)"
    using assms(2) by (simp add: libelf_cvt_NOTE_tof_def)
  moreover have "?m' (dst + count + i) = m (src + count + i)"
  proof -
    have "?m' (dst + 12 + (count + i - 12)) = bytes_at ?m (src + 12) count ! (count + i - 12)"
      unfolding memcpy_def by (rule put_bytes_inside) (use assms(1,6) in simp)
    with assms(1,5,6) show ?thesis by (simp add: add.assoc)
  qed
  ultimately show ?thesis by blast
qed

theorem libelf_cvt_NOTE_tof_overflow_witness:
  "\<exists>m'. libelf_cvt_NOTE_tof False (\<lambda>x. if x < 164 then 1 else 9) 100 16 148 16 True = Some (m', True) \<and>
    m' (100 + 16 + 11) = 9"
  using libelf_cvt_NOTE_tof_overflow
    [of 16 16 "Elf_Note_of True (bytes_at (\<lambda>x. if x < 164 then 1 else 9) 148 12)" False
      "\<lambda>x. if x < 164 then 1 else 9" 148 100 11]
  by (simp add: Elf_Note_of_def bytes_at_numeral host_word_def ROUNDUP2_def)

end
