(* ===== verification/Libelf_Cvt_Version.thy ===== *)
theory Libelf_Cvt_Version
  imports Libelf_Convert
begin

text \<open>
  The converters of \<open>libelf_convert.c\<close> for version definitions (\<open>ELF_T_VDEF\<close>) and version
  needs (\<open>ELF_T_VNEED\<close>).  A section of these types is a linked list of records, each with its
  own linked list of auxiliary records; links are byte offsets stored in the records, so the
  converters follow offsets found in the data they convert.  \<open>ver_aux_loop\<close> and \<open>ver_loop\<close>
  are the two nested loops of the source's template.  Both end on every input, because a
  link is either zero, which leaves the loop, or moves the pointers towards the end of the
  buffers; and whatever the links say, nothing outside the destination buffer is written.
\<close>

section \<open>Definitions\<close>

text \<open>
  \<open>while (dst2 + asz <= de && src2 + asz <= se) { CVT(dst2, src2); if (a->next == 0) break;
   dst2 += a->next; src2 += a->next; }\<close>
\<close>

function ver_aux_loop :: "(memory \<Rightarrow> addr \<Rightarrow> addr \<Rightarrow> memory) \<Rightarrow> (memory \<Rightarrow> addr \<Rightarrow> addr \<Rightarrow> nat) \<Rightarrow>
    nat \<Rightarrow> addr \<Rightarrow> addr \<Rightarrow> memory \<Rightarrow> addr \<Rightarrow> addr \<Rightarrow> memory \<times> addr \<times> addr" where
  "ver_aux_loop cvta anext asz de se m dst2 src2 =
     (if dst2 + asz \<le> de \<and> src2 + asz \<le> se then
        (let m = cvta m dst2 src2;
             next = anext m dst2 src2
         in if next = 0 then (m, dst2, src2)
            else ver_aux_loop cvta anext asz de se m (dst2 + next) (src2 + next))
      else (m, dst2, src2))"
  by pat_completeness auto
termination
  by (relation "measure (\<lambda>(cvta, anext, asz, de, se, m, dst2, src2). Suc de - dst2)") auto

function ver_loop :: "(memory \<Rightarrow> addr \<Rightarrow> addr \<Rightarrow> memory) \<Rightarrow> (memory \<Rightarrow> addr \<Rightarrow> addr \<Rightarrow> nat) \<Rightarrow>
    (memory \<Rightarrow> addr \<Rightarrow> addr \<Rightarrow> nat) \<Rightarrow> nat \<Rightarrow> (memory \<Rightarrow> addr \<Rightarrow> addr \<Rightarrow> memory) \<Rightarrow>
    (memory \<Rightarrow> addr \<Rightarrow> addr \<Rightarrow> nat) \<Rightarrow> nat \<Rightarrow> addr \<Rightarrow> addr \<Rightarrow> memory \<Rightarrow> addr \<Rightarrow> addr \<Rightarrow>
    memory \<times> bool" where
  "ver_loop cvtv aux vnext vsz cvta anext asz de se m dst src =
     (if dst + vsz \<le> de \<and> src + vsz \<le> se then
        (let m = cvtv m dst src;
             a = aux m dst src;
             (m, dst2, src2) = ver_aux_loop cvta anext asz de se m (dst + a) (src + a)
         in if de < dst2 + asz \<or> se < src2 + asz then (m, False)
            else let next = vnext m dst src
                 in if next = 0 then (m, \<not> (de < dst + vsz \<or> se < src + vsz))
                    else ver_loop cvtv aux vnext vsz cvta anext asz de se m (dst + next) (src + next))
      else (m, \<not> (de < dst + vsz \<or> se < src + vsz)))"
  by pat_completeness auto
termination
  by (relation "measure (\<lambda>(cvtv, aux, vnext, vsz, cvta, anext, asz, de, se, m, dst, src). Suc de - dst)") auto

declare ver_aux_loop.simps [simp del] ver_loop.simps [simp del]

definition libelf_cvt32_Verdef_tof :: "bool \<Rightarrow> bool \<Rightarrow> memory \<Rightarrow> addr \<Rightarrow> addr \<Rightarrow> memory" where [cvt_defs]:
  "libelf_cvt32_Verdef_tof be byteswap m dst src =
     (let t = Elf32_Verdef_of be (bytes_at m src sizeof_Elf32_Verdef);
          t = (if byteswap then SWAP_Elf32_Verdef t else t)
      in fst (WRITE_Elf32_Verdef be m dst t))"

definition libelf_cvt32_Verdef_tom :: "bool \<Rightarrow> bool \<Rightarrow> memory \<Rightarrow> addr \<Rightarrow> addr \<Rightarrow> memory" where [cvt_defs]:
  "libelf_cvt32_Verdef_tom be byteswap m dst src =
     (let (t, s) = READ_Elf32_Verdef be m src;
          t = (if byteswap then SWAP_Elf32_Verdef t else t)
      in put_bytes m dst (Elf32_Verdef_bytes be t))"

definition libelf_cvt64_Verdef_tof :: "bool \<Rightarrow> bool \<Rightarrow> memory \<Rightarrow> addr \<Rightarrow> addr \<Rightarrow> memory" where [cvt_defs]:
  "libelf_cvt64_Verdef_tof be byteswap m dst src =
     (let t = Elf64_Verdef_of be (bytes_at m src sizeof_Elf64_Verdef);
          t = (if byteswap then SWAP_Elf64_Verdef t else t)
      in fst (WRITE_Elf64_Verdef be m dst t))"

definition libelf_cvt64_Verdef_tom :: "bool \<Rightarrow> bool \<Rightarrow> memory \<Rightarrow> addr \<Rightarrow> addr \<Rightarrow> memory" where [cvt_defs]:
  "libelf_cvt64_Verdef_tom be byteswap m dst src =
     (let (t, s) = READ_Elf64_Verdef be m src;
          t = (if byteswap then SWAP_Elf64_Verdef t else t)
      in put_bytes m dst (Elf64_Verdef_bytes be t))"

definition libelf_cvt32_Verdaux_tof :: "bool \<Rightarrow> bool \<Rightarrow> memory \<Rightarrow> addr \<Rightarrow> addr \<Rightarrow> memory" where [cvt_defs]:
  "libelf_cvt32_Verdaux_tof be byteswap m dst src =
     (let t = Elf32_Verdaux_of be (bytes_at m src sizeof_Elf32_Verdaux);
          t = (if byteswap then SWAP_Elf32_Verdaux t else t)
      in fst (WRITE_Elf32_Verdaux be m dst t))"

definition libelf_cvt32_Verdaux_tom :: "bool \<Rightarrow> bool \<Rightarrow> memory \<Rightarrow> addr \<Rightarrow> addr \<Rightarrow> memory" where [cvt_defs]:
  "libelf_cvt32_Verdaux_tom be byteswap m dst src =
     (let (t, s) = READ_Elf32_Verdaux be m src;
          t = (if byteswap then SWAP_Elf32_Verdaux t else t)
      in put_bytes m dst (Elf32_Verdaux_bytes be t))"

definition libelf_cvt64_Verdaux_tof :: "bool \<Rightarrow> bool \<Rightarrow> memory \<Rightarrow> addr \<Rightarrow> addr \<Rightarrow> memory" where [cvt_defs]:
  "libelf_cvt64_Verdaux_tof be byteswap m dst src =
     (let t = Elf64_Verdaux_of be (bytes_at m src sizeof_Elf64_Verdaux);
          t = (if byteswap then SWAP_Elf64_Verdaux t else t)
      in fst (WRITE_Elf64_Verdaux be m dst t))"

definition libelf_cvt64_Verdaux_tom :: "bool \<Rightarrow> bool \<Rightarrow> memory \<Rightarrow> addr \<Rightarrow> addr \<Rightarrow> memory" where [cvt_defs]:
  "libelf_cvt64_Verdaux_tom be byteswap m dst src =
     (let (t, s) = READ_Elf64_Verdaux be m src;
          t = (if byteswap then SWAP_Elf64_Verdaux t else t)
      in put_bytes m dst (Elf64_Verdaux_bytes be t))"

definition libelf_cvt32_VDEF_tof :: converter where
  "libelf_cvt32_VDEF_tof be m dst dsz src count byteswap =
     ver_loop (libelf_cvt32_Verdef_tof be byteswap)
       (\<lambda>m dst src. unat (vd_aux (Elf32_Verdef_of be (bytes_at m src sizeof_Elf32_Verdef))))
       (\<lambda>m dst src. unat (vd_next (Elf32_Verdef_of be (bytes_at m src sizeof_Elf32_Verdef)))) sizeof_Elf32_Verdef
       (libelf_cvt32_Verdaux_tof be byteswap)
       (\<lambda>m dst2 src2. unat (vda_next (Elf32_Verdaux_of be (bytes_at m src2 sizeof_Elf32_Verdaux)))) sizeof_Elf32_Verdaux
       (dst + dsz) (src + count) m dst src"

definition libelf_cvt32_VDEF_tom :: converter where
  "libelf_cvt32_VDEF_tom be m dst dsz src count byteswap =
     ver_loop (libelf_cvt32_Verdef_tom be byteswap)
       (\<lambda>m dst src. unat (vd_aux (Elf32_Verdef_of be (bytes_at m dst sizeof_Elf32_Verdef))))
       (\<lambda>m dst src. unat (vd_next (Elf32_Verdef_of be (bytes_at m dst sizeof_Elf32_Verdef)))) sizeof_Elf32_Verdef
       (libelf_cvt32_Verdaux_tom be byteswap)
       (\<lambda>m dst2 src2. unat (vda_next (Elf32_Verdaux_of be (bytes_at m dst2 sizeof_Elf32_Verdaux)))) sizeof_Elf32_Verdaux
       (dst + dsz) (src + count) m dst src"

definition libelf_cvt64_VDEF_tof :: converter where
  "libelf_cvt64_VDEF_tof be m dst dsz src count byteswap =
     ver_loop (libelf_cvt64_Verdef_tof be byteswap)
       (\<lambda>m dst src. unat (vd_aux (Elf64_Verdef_of be (bytes_at m src sizeof_Elf64_Verdef))))
       (\<lambda>m dst src. unat (vd_next (Elf64_Verdef_of be (bytes_at m src sizeof_Elf64_Verdef)))) sizeof_Elf64_Verdef
       (libelf_cvt64_Verdaux_tof be byteswap)
       (\<lambda>m dst2 src2. unat (vda_next (Elf64_Verdaux_of be (bytes_at m src2 sizeof_Elf64_Verdaux)))) sizeof_Elf64_Verdaux
       (dst + dsz) (src + count) m dst src"

definition libelf_cvt64_VDEF_tom :: converter where
  "libelf_cvt64_VDEF_tom be m dst dsz src count byteswap =
     ver_loop (libelf_cvt64_Verdef_tom be byteswap)
       (\<lambda>m dst src. unat (vd_aux (Elf64_Verdef_of be (bytes_at m dst sizeof_Elf64_Verdef))))
       (\<lambda>m dst src. unat (vd_next (Elf64_Verdef_of be (bytes_at m dst sizeof_Elf64_Verdef)))) sizeof_Elf64_Verdef
       (libelf_cvt64_Verdaux_tom be byteswap)
       (\<lambda>m dst2 src2. unat (vda_next (Elf64_Verdaux_of be (bytes_at m dst2 sizeof_Elf64_Verdaux)))) sizeof_Elf64_Verdaux
       (dst + dsz) (src + count) m dst src"

definition libelf_cvt32_Verneed_tof :: "bool \<Rightarrow> bool \<Rightarrow> memory \<Rightarrow> addr \<Rightarrow> addr \<Rightarrow> memory" where [cvt_defs]:
  "libelf_cvt32_Verneed_tof be byteswap m dst src =
     (let t = Elf32_Verneed_of be (bytes_at m src sizeof_Elf32_Verneed);
          t = (if byteswap then SWAP_Elf32_Verneed t else t)
      in fst (WRITE_Elf32_Verneed be m dst t))"

definition libelf_cvt32_Verneed_tom :: "bool \<Rightarrow> bool \<Rightarrow> memory \<Rightarrow> addr \<Rightarrow> addr \<Rightarrow> memory" where [cvt_defs]:
  "libelf_cvt32_Verneed_tom be byteswap m dst src =
     (let (t, s) = READ_Elf32_Verneed be m src;
          t = (if byteswap then SWAP_Elf32_Verneed t else t)
      in put_bytes m dst (Elf32_Verneed_bytes be t))"

definition libelf_cvt64_Verneed_tof :: "bool \<Rightarrow> bool \<Rightarrow> memory \<Rightarrow> addr \<Rightarrow> addr \<Rightarrow> memory" where [cvt_defs]:
  "libelf_cvt64_Verneed_tof be byteswap m dst src =
     (let t = Elf64_Verneed_of be (bytes_at m src sizeof_Elf64_Verneed);
          t = (if byteswap then SWAP_Elf64_Verneed t else t)
      in fst (WRITE_Elf64_Verneed be m dst t))"

definition libelf_cvt64_Verneed_tom :: "bool \<Rightarrow> bool \<Rightarrow> memory \<Rightarrow> addr \<Rightarrow> addr \<Rightarrow> memory" where [cvt_defs]:
  "libelf_cvt64_Verneed_tom be byteswap m dst src =
     (let (t, s) = READ_Elf64_Verneed be m src;
          t = (if byteswap then SWAP_Elf64_Verneed t else t)
      in put_bytes m dst (Elf64_Verneed_bytes be t))"

definition libelf_cvt32_Vernaux_tof :: "bool \<Rightarrow> bool \<Rightarrow> memory \<Rightarrow> addr \<Rightarrow> addr \<Rightarrow> memory" where [cvt_defs]:
  "libelf_cvt32_Vernaux_tof be byteswap m dst src =
     (let t = Elf32_Vernaux_of be (bytes_at m src sizeof_Elf32_Vernaux);
          t = (if byteswap then SWAP_Elf32_Vernaux t else t)
      in fst (WRITE_Elf32_Vernaux be m dst t))"

definition libelf_cvt32_Vernaux_tom :: "bool \<Rightarrow> bool \<Rightarrow> memory \<Rightarrow> addr \<Rightarrow> addr \<Rightarrow> memory" where [cvt_defs]:
  "libelf_cvt32_Vernaux_tom be byteswap m dst src =
     (let (t, s) = READ_Elf32_Vernaux be m src;
          t = (if byteswap then SWAP_Elf32_Vernaux t else t)
      in put_bytes m dst (Elf32_Vernaux_bytes be t))"

definition libelf_cvt64_Vernaux_tof :: "bool \<Rightarrow> bool \<Rightarrow> memory \<Rightarrow> addr \<Rightarrow> addr \<Rightarrow> memory" where [cvt_defs]:
  "libelf_cvt64_Vernaux_tof be byteswap m dst src =
     (let t = Elf64_Vernaux_of be (bytes_at m src sizeof_Elf64_Vernaux);
          t = (if byteswap then SWAP_Elf64_Vernaux t else t)
      in fst (WRITE_Elf64_Vernaux be m dst t))"

definition libelf_cvt64_Vernaux_tom :: "bool \<Rightarrow> bool \<Rightarrow> memory \<Rightarrow> addr \<Rightarrow> addr \<Rightarrow> memory" where [cvt_defs]:
  "libelf_cvt64_Vernaux_tom be byteswap m dst src =
     (let (t, s) = READ_Elf64_Vernaux be m src;
          t = (if byteswap then SWAP_Elf64_Vernaux t else t)
      in put_bytes m dst (Elf64_Vernaux_bytes be t))"

definition libelf_cvt32_VNEED_tof :: converter where
  "libelf_cvt32_VNEED_tof be m dst dsz src count byteswap =
     ver_loop (libelf_cvt32_Verneed_tof be byteswap)
       (\<lambda>m dst src. unat (vn_aux (Elf32_Verneed_of be (bytes_at m src sizeof_Elf32_Verneed))))
       (\<lambda>m dst src. unat (vn_next (Elf32_Verneed_of be (bytes_at m src sizeof_Elf32_Verneed)))) sizeof_Elf32_Verneed
       (libelf_cvt32_Vernaux_tof be byteswap)
       (\<lambda>m dst2 src2. unat (vna_next (Elf32_Vernaux_of be (bytes_at m src2 sizeof_Elf32_Vernaux)))) sizeof_Elf32_Vernaux
       (dst + dsz) (src + count) m dst src"

definition libelf_cvt32_VNEED_tom :: converter where
  "libelf_cvt32_VNEED_tom be m dst dsz src count byteswap =
     ver_loop (libelf_cvt32_Verneed_tom be byteswap)
       (\<lambda>m dst src. unat (vn_aux (Elf32_Verneed_of be (bytes_at m dst sizeof_Elf32_Verneed))))
       (\<lambda>m dst src. unat (vn_next (Elf32_Verneed_of be (bytes_at m dst sizeof_Elf32_Verneed)))) sizeof_Elf32_Verneed
       (libelf_cvt32_Vernaux_tom be byteswap)
       (\<lambda>m dst2 src2. unat (vna_next (Elf32_Vernaux_of be (bytes_at m dst2 sizeof_Elf32_Vernaux)))) sizeof_Elf32_Vernaux
       (dst + dsz) (src + count) m dst src"

definition libelf_cvt64_VNEED_tof :: converter where
  "libelf_cvt64_VNEED_tof be m dst dsz src count byteswap =
     ver_loop (libelf_cvt64_Verneed_tof be byteswap)
       (\<lambda>m dst src. unat (vn_aux (Elf64_Verneed_of be (bytes_at m src sizeof_Elf64_Verneed))))
       (\<lambda>m dst src. unat (vn_next (Elf64_Verneed_of be (bytes_at m src sizeof_Elf64_Verneed)))) sizeof_Elf64_Verneed
       (libelf_cvt64_Vernaux_tof be byteswap)
       (\<lambda>m dst2 src2. unat (vna_next (Elf64_Vernaux_of be (bytes_at m src2 sizeof_Elf64_Vernaux)))) sizeof_Elf64_Vernaux
       (dst + dsz) (src + count) m dst src"

definition libelf_cvt64_VNEED_tom :: converter where
  "libelf_cvt64_VNEED_tom be m dst dsz src count byteswap =
     ver_loop (libelf_cvt64_Verneed_tom be byteswap)
       (\<lambda>m dst src. unat (vn_aux (Elf64_Verneed_of be (bytes_at m dst sizeof_Elf64_Verneed))))
       (\<lambda>m dst src. unat (vn_next (Elf64_Verneed_of be (bytes_at m dst sizeof_Elf64_Verneed)))) sizeof_Elf64_Verneed
       (libelf_cvt64_Vernaux_tom be byteswap)
       (\<lambda>m dst2 src2. unat (vna_next (Elf64_Vernaux_of be (bytes_at m dst2 sizeof_Elf64_Vernaux)))) sizeof_Elf64_Vernaux
       (dst + dsz) (src + count) m dst src"

section \<open>The contract of the records and the loops\<close>

text \<open>
  All the loops need to know of a record converter is that it stores, at its destination,
  an image of the source record of the same size.
\<close>

locale version_records =
  fixes cvtv :: "memory \<Rightarrow> addr \<Rightarrow> addr \<Rightarrow> memory" and vconv :: "byte list \<Rightarrow> byte list" and vsz :: nat
    and cvta :: "memory \<Rightarrow> addr \<Rightarrow> addr \<Rightarrow> memory" and aconv :: "byte list \<Rightarrow> byte list" and asz :: nat
  assumes cvtv_eq: "cvtv m dst src = put_bytes m dst (vconv (bytes_at m src vsz))"
    and cvta_eq: "cvta m dst src = put_bytes m dst (aconv (bytes_at m src asz))"
    and length_vconv: "length b = vsz \<Longrightarrow> length (vconv b) = vsz"
    and length_aconv: "length b = asz \<Longrightarrow> length (aconv b) = asz"
begin

text \<open>
  A property of the memory that every record conversion inside the buffers preserves holds
  after the loops.
\<close>

lemma ver_aux_loop_inv:
  assumes "P m"
    and "\<And>m k. P m \<Longrightarrow> dst2 + k + asz \<le> de \<Longrightarrow> src2 + k + asz \<le> se \<Longrightarrow> P (cvta m (dst2 + k) (src2 + k))"
  shows "P (fst (ver_aux_loop cvta anext asz de se m dst2 src2))"
  using assms
proof (induction "Suc de - dst2" arbitrary: m dst2 src2 rule: less_induct)
  case less
  let ?m = "cvta m dst2 src2"
  let ?next = "anext ?m dst2 src2"
  have step: "P ?m" if "dst2 + asz \<le> de" "src2 + asz \<le> se"
    using less.prems(2) [of m 0] less.prems(1) that by simp
  have "P (fst (ver_aux_loop cvta anext asz de se ?m (dst2 + ?next) (src2 + ?next)))"
    if "dst2 + asz \<le> de" "src2 + asz \<le> se" "?next \<noteq> 0"
  proof (rule less.hyps)
    show "Suc de - (dst2 + ?next) < Suc de - dst2" using that by auto
    show "P ?m" using step that by simp
    show "P (cvta m' (dst2 + ?next + k) (src2 + ?next + k))"
      if "P m'" "dst2 + ?next + k + asz \<le> de" "src2 + ?next + k + asz \<le> se" for m' k
      using less.prems(2) [of m' "?next + k"] that by (simp add: add.assoc)
  qed
  with step less.prems(1) show ?case
    by (subst ver_aux_loop.simps) (auto simp: Let_def)
qed

lemma ver_loop_inv:
  assumes "P m"
    and "\<And>m k. P m \<Longrightarrow> dst + k + vsz \<le> de \<Longrightarrow> src + k + vsz \<le> se \<Longrightarrow> P (cvtv m (dst + k) (src + k))"
    and "\<And>m k. P m \<Longrightarrow> dst + k + asz \<le> de \<Longrightarrow> src + k + asz \<le> se \<Longrightarrow> P (cvta m (dst + k) (src + k))"
  shows "P (fst (ver_loop cvtv aux vnext vsz cvta anext asz de se m dst src))"
  using assms
proof (induction "Suc de - dst" arbitrary: m dst src rule: less_induct)
  case less
  let ?m = "cvtv m dst src"
  let ?a = "aux ?m dst src"
  obtain m2 dst2 src2 where l: "ver_aux_loop cvta anext asz de se ?m (dst + ?a) (src + ?a) = (m2, dst2, src2)"
    by (cases "ver_aux_loop cvta anext asz de se ?m (dst + ?a) (src + ?a)")
  have m2: "P m2" if "dst + vsz \<le> de" "src + vsz \<le> se"
  proof -
    have "P (fst (ver_aux_loop cvta anext asz de se ?m (dst + ?a) (src + ?a)))"
    proof (rule ver_aux_loop_inv)
      show "P ?m" using less.prems(2) [of m 0] less.prems(1) that by simp
      show "P (cvta m' (dst + ?a + k) (src + ?a + k))"
        if "P m'" "dst + ?a + k + asz \<le> de" "src + ?a + k + asz \<le> se" for m' k
        using less.prems(3) [of m' "?a + k"] that by (simp add: add.assoc)
    qed
    with l show ?thesis by simp
  qed
  let ?next = "vnext m2 dst src"
  have "P (fst (ver_loop cvtv aux vnext vsz cvta anext asz de se m2 (dst + ?next) (src + ?next)))"
    if c: "dst + vsz \<le> de" "src + vsz \<le> se" "?next \<noteq> 0"
  proof (rule less.hyps)
    show "Suc de - (dst + ?next) < Suc de - dst" using c by auto
    show "P m2" using m2 c by simp
    show "P (cvtv m' (dst + ?next + k) (src + ?next + k))"
      if "P m'" "dst + ?next + k + vsz \<le> de" "src + ?next + k + vsz \<le> se" for m' k
      using less.prems(2) [of m' "?next + k"] that by (simp add: add.assoc)
    show "P (cvta m' (dst + ?next + k) (src + ?next + k))"
      if "P m'" "dst + ?next + k + asz \<le> de" "src + ?next + k + asz \<le> se" for m' k
      using less.prems(3) [of m' "?next + k"] that by (simp add: add.assoc)
  qed
  with m2 less.prems(1) l show ?case
    by (subst ver_loop.simps) (auto simp: Let_def)
qed

lemma ver_loop_frame:
  "x < dst \<or> de \<le> x \<Longrightarrow>
     fst (ver_loop cvtv aux vnext vsz cvta anext asz de se m dst src) x = m x"
  by (rule ver_loop_inv) (auto simp: cvtv_eq cvta_eq length_vconv length_aconv)

text \<open>Without a byte swap, every byte that changes becomes the byte of the source at its place.\<close>

lemma ver_loop_copies:
  assumes "\<And>b. vconv b = b" "\<And>b. aconv b = b" "disjoint_ranges dst (de - dst) src (se - src)"
  shows "\<forall>k. fst (ver_loop cvtv aux vnext vsz cvta anext asz de se m dst src) (dst + k) \<in>
     {m (dst + k), m (src + k)}"
proof -
  let ?P = "\<lambda>m'. (\<forall>k. m' (dst + k) \<in> {m (dst + k), m (src + k)}) \<and> (\<forall>y. src \<le> y \<and> y < se \<longrightarrow> m' y = m y)"
  have put: "?P (put_bytes m' (dst + k) (bytes_at m' (src + k) z))"
    if "?P m'" "dst + k + z \<le> de" "src + k + z \<le> se" for m' k z
  proof (intro conjI allI impI)
    fix y assume "src \<le> y \<and> y < se"
    moreover from this have "y < dst + k \<or> dst + k + z \<le> y"
      using assms(3) that(2) by (auto simp: disjoint_ranges_def)
    ultimately show "put_bytes m' (dst + k) (bytes_at m' (src + k) z) y = m y"
      using that(1) by simp
  next
    fix j
    show "put_bytes m' (dst + k) (bytes_at m' (src + k) z) (dst + j) \<in> {m (dst + j), m (src + j)}"
    proof (cases "k \<le> j \<and> j < k + z")
      case True
      then have "j - k < z" by auto
      with True have "put_bytes m' (dst + k) (bytes_at m' (src + k) z) (dst + j) = m' (src + j)"
        by (simp add: put_bytes_def add.assoc)
      also have "\<dots> = m (src + j)" using that True by simp
      finally show ?thesis by simp
    next
      case False
      then have "put_bytes m' (dst + k) (bytes_at m' (src + k) z) (dst + j) = m' (dst + j)"
        by (intro put_bytes_outside) auto
      with that(1) show ?thesis by simp
    qed
  qed
  have "?P (fst (ver_loop cvtv aux vnext vsz cvta anext asz de se m dst src))"
    by (rule ver_loop_inv) (use put in \<open>auto simp: cvtv_eq cvta_eq assms(1,2)\<close>)
  then show ?thesis by blast
qed

end

section \<open>Every version section converter meets the contract\<close>

lemma libelf_cvt32_Verdef_tof_eq:
  "libelf_cvt32_Verdef_tof be byteswap m dst src =
     put_bytes m dst (if byteswap then Elf32_Verdef_bytes True (Elf32_Verdef_of False (bytes_at m src 20))
       else bytes_at m src 20)"
  using elf32verdef.object_bytes [of "bytes_at m src 20" be byteswap]
  by (auto simp: libelf_cvt32_Verdef_tof_def elf32verdef.READ_eq elf32verdef.WRITE_eq elf32verdef.SWAP_of elf32verdef.to_SWAP Let_def)

lemma libelf_cvt32_Verdef_tom_eq:
  "libelf_cvt32_Verdef_tom be byteswap m dst src =
     put_bytes m dst (if byteswap then Elf32_Verdef_bytes True (Elf32_Verdef_of False (bytes_at m src 20))
       else bytes_at m src 20)"
  using elf32verdef.object_bytes [of "bytes_at m src 20" be byteswap]
  by (auto simp: libelf_cvt32_Verdef_tom_def elf32verdef.READ_eq elf32verdef.WRITE_eq elf32verdef.SWAP_of elf32verdef.to_SWAP Let_def)

lemma libelf_cvt64_Verdef_tof_eq:
  "libelf_cvt64_Verdef_tof be byteswap m dst src =
     put_bytes m dst (if byteswap then Elf64_Verdef_bytes True (Elf64_Verdef_of False (bytes_at m src 20))
       else bytes_at m src 20)"
  using elf64verdef.object_bytes [of "bytes_at m src 20" be byteswap]
  by (auto simp: libelf_cvt64_Verdef_tof_def elf64verdef.READ_eq elf64verdef.WRITE_eq elf64verdef.SWAP_of elf64verdef.to_SWAP Let_def)

lemma libelf_cvt64_Verdef_tom_eq:
  "libelf_cvt64_Verdef_tom be byteswap m dst src =
     put_bytes m dst (if byteswap then Elf64_Verdef_bytes True (Elf64_Verdef_of False (bytes_at m src 20))
       else bytes_at m src 20)"
  using elf64verdef.object_bytes [of "bytes_at m src 20" be byteswap]
  by (auto simp: libelf_cvt64_Verdef_tom_def elf64verdef.READ_eq elf64verdef.WRITE_eq elf64verdef.SWAP_of elf64verdef.to_SWAP Let_def)

lemma libelf_cvt32_Verdaux_tof_eq:
  "libelf_cvt32_Verdaux_tof be byteswap m dst src =
     put_bytes m dst (if byteswap then Elf32_Verdaux_bytes True (Elf32_Verdaux_of False (bytes_at m src 8))
       else bytes_at m src 8)"
  using elf32verdaux.object_bytes [of "bytes_at m src 8" be byteswap]
  by (auto simp: libelf_cvt32_Verdaux_tof_def elf32verdaux.READ_eq elf32verdaux.WRITE_eq elf32verdaux.SWAP_of elf32verdaux.to_SWAP Let_def)

lemma libelf_cvt32_Verdaux_tom_eq:
  "libelf_cvt32_Verdaux_tom be byteswap m dst src =
     put_bytes m dst (if byteswap then Elf32_Verdaux_bytes True (Elf32_Verdaux_of False (bytes_at m src 8))
       else bytes_at m src 8)"
  using elf32verdaux.object_bytes [of "bytes_at m src 8" be byteswap]
  by (auto simp: libelf_cvt32_Verdaux_tom_def elf32verdaux.READ_eq elf32verdaux.WRITE_eq elf32verdaux.SWAP_of elf32verdaux.to_SWAP Let_def)

lemma libelf_cvt64_Verdaux_tof_eq:
  "libelf_cvt64_Verdaux_tof be byteswap m dst src =
     put_bytes m dst (if byteswap then Elf64_Verdaux_bytes True (Elf64_Verdaux_of False (bytes_at m src 8))
       else bytes_at m src 8)"
  using elf64verdaux.object_bytes [of "bytes_at m src 8" be byteswap]
  by (auto simp: libelf_cvt64_Verdaux_tof_def elf64verdaux.READ_eq elf64verdaux.WRITE_eq elf64verdaux.SWAP_of elf64verdaux.to_SWAP Let_def)

lemma libelf_cvt64_Verdaux_tom_eq:
  "libelf_cvt64_Verdaux_tom be byteswap m dst src =
     put_bytes m dst (if byteswap then Elf64_Verdaux_bytes True (Elf64_Verdaux_of False (bytes_at m src 8))
       else bytes_at m src 8)"
  using elf64verdaux.object_bytes [of "bytes_at m src 8" be byteswap]
  by (auto simp: libelf_cvt64_Verdaux_tom_def elf64verdaux.READ_eq elf64verdaux.WRITE_eq elf64verdaux.SWAP_of elf64verdaux.to_SWAP Let_def)

lemma libelf_cvt32_Verneed_tof_eq:
  "libelf_cvt32_Verneed_tof be byteswap m dst src =
     put_bytes m dst (if byteswap then Elf32_Verneed_bytes True (Elf32_Verneed_of False (bytes_at m src 16))
       else bytes_at m src 16)"
  using elf32verneed.object_bytes [of "bytes_at m src 16" be byteswap]
  by (auto simp: libelf_cvt32_Verneed_tof_def elf32verneed.READ_eq elf32verneed.WRITE_eq elf32verneed.SWAP_of elf32verneed.to_SWAP Let_def)

lemma libelf_cvt32_Verneed_tom_eq:
  "libelf_cvt32_Verneed_tom be byteswap m dst src =
     put_bytes m dst (if byteswap then Elf32_Verneed_bytes True (Elf32_Verneed_of False (bytes_at m src 16))
       else bytes_at m src 16)"
  using elf32verneed.object_bytes [of "bytes_at m src 16" be byteswap]
  by (auto simp: libelf_cvt32_Verneed_tom_def elf32verneed.READ_eq elf32verneed.WRITE_eq elf32verneed.SWAP_of elf32verneed.to_SWAP Let_def)

lemma libelf_cvt64_Verneed_tof_eq:
  "libelf_cvt64_Verneed_tof be byteswap m dst src =
     put_bytes m dst (if byteswap then Elf64_Verneed_bytes True (Elf64_Verneed_of False (bytes_at m src 16))
       else bytes_at m src 16)"
  using elf64verneed.object_bytes [of "bytes_at m src 16" be byteswap]
  by (auto simp: libelf_cvt64_Verneed_tof_def elf64verneed.READ_eq elf64verneed.WRITE_eq elf64verneed.SWAP_of elf64verneed.to_SWAP Let_def)

lemma libelf_cvt64_Verneed_tom_eq:
  "libelf_cvt64_Verneed_tom be byteswap m dst src =
     put_bytes m dst (if byteswap then Elf64_Verneed_bytes True (Elf64_Verneed_of False (bytes_at m src 16))
       else bytes_at m src 16)"
  using elf64verneed.object_bytes [of "bytes_at m src 16" be byteswap]
  by (auto simp: libelf_cvt64_Verneed_tom_def elf64verneed.READ_eq elf64verneed.WRITE_eq elf64verneed.SWAP_of elf64verneed.to_SWAP Let_def)

lemma libelf_cvt32_Vernaux_tof_eq:
  "libelf_cvt32_Vernaux_tof be byteswap m dst src =
     put_bytes m dst (if byteswap then Elf32_Vernaux_bytes True (Elf32_Vernaux_of False (bytes_at m src 16))
       else bytes_at m src 16)"
  using elf32vernaux.object_bytes [of "bytes_at m src 16" be byteswap]
  by (auto simp: libelf_cvt32_Vernaux_tof_def elf32vernaux.READ_eq elf32vernaux.WRITE_eq elf32vernaux.SWAP_of elf32vernaux.to_SWAP Let_def)

lemma libelf_cvt32_Vernaux_tom_eq:
  "libelf_cvt32_Vernaux_tom be byteswap m dst src =
     put_bytes m dst (if byteswap then Elf32_Vernaux_bytes True (Elf32_Vernaux_of False (bytes_at m src 16))
       else bytes_at m src 16)"
  using elf32vernaux.object_bytes [of "bytes_at m src 16" be byteswap]
  by (auto simp: libelf_cvt32_Vernaux_tom_def elf32vernaux.READ_eq elf32vernaux.WRITE_eq elf32vernaux.SWAP_of elf32vernaux.to_SWAP Let_def)

lemma libelf_cvt64_Vernaux_tof_eq:
  "libelf_cvt64_Vernaux_tof be byteswap m dst src =
     put_bytes m dst (if byteswap then Elf64_Vernaux_bytes True (Elf64_Vernaux_of False (bytes_at m src 16))
       else bytes_at m src 16)"
  using elf64vernaux.object_bytes [of "bytes_at m src 16" be byteswap]
  by (auto simp: libelf_cvt64_Vernaux_tof_def elf64vernaux.READ_eq elf64vernaux.WRITE_eq elf64vernaux.SWAP_of elf64vernaux.to_SWAP Let_def)

lemma libelf_cvt64_Vernaux_tom_eq:
  "libelf_cvt64_Vernaux_tom be byteswap m dst src =
     put_bytes m dst (if byteswap then Elf64_Vernaux_bytes True (Elf64_Vernaux_of False (bytes_at m src 16))
       else bytes_at m src 16)"
  using elf64vernaux.object_bytes [of "bytes_at m src 16" be byteswap]
  by (auto simp: libelf_cvt64_Vernaux_tom_def elf64vernaux.READ_eq elf64vernaux.WRITE_eq elf64vernaux.SWAP_of elf64vernaux.to_SWAP Let_def)

interpretation cvt32_VDEF_tof: version_records "libelf_cvt32_Verdef_tof be byteswap"
    "if byteswap then \<lambda>b. Elf32_Verdef_bytes True (Elf32_Verdef_of False b) else (\<lambda>b. b)" 20
    "libelf_cvt32_Verdaux_tof be byteswap"
    "if byteswap then \<lambda>b. Elf32_Verdaux_bytes True (Elf32_Verdaux_of False b) else (\<lambda>b. b)" 8
    for be byteswap
  by unfold_locales (simp_all add: libelf_cvt32_Verdef_tof_eq libelf_cvt32_Verdaux_tof_eq codec_defs)

interpretation cvt32_VDEF_tom: version_records "libelf_cvt32_Verdef_tom be byteswap"
    "if byteswap then \<lambda>b. Elf32_Verdef_bytes True (Elf32_Verdef_of False b) else (\<lambda>b. b)" 20
    "libelf_cvt32_Verdaux_tom be byteswap"
    "if byteswap then \<lambda>b. Elf32_Verdaux_bytes True (Elf32_Verdaux_of False b) else (\<lambda>b. b)" 8
    for be byteswap
  by unfold_locales (simp_all add: libelf_cvt32_Verdef_tom_eq libelf_cvt32_Verdaux_tom_eq codec_defs)

interpretation cvt64_VDEF_tof: version_records "libelf_cvt64_Verdef_tof be byteswap"
    "if byteswap then \<lambda>b. Elf64_Verdef_bytes True (Elf64_Verdef_of False b) else (\<lambda>b. b)" 20
    "libelf_cvt64_Verdaux_tof be byteswap"
    "if byteswap then \<lambda>b. Elf64_Verdaux_bytes True (Elf64_Verdaux_of False b) else (\<lambda>b. b)" 8
    for be byteswap
  by unfold_locales (simp_all add: libelf_cvt64_Verdef_tof_eq libelf_cvt64_Verdaux_tof_eq codec_defs)

interpretation cvt64_VDEF_tom: version_records "libelf_cvt64_Verdef_tom be byteswap"
    "if byteswap then \<lambda>b. Elf64_Verdef_bytes True (Elf64_Verdef_of False b) else (\<lambda>b. b)" 20
    "libelf_cvt64_Verdaux_tom be byteswap"
    "if byteswap then \<lambda>b. Elf64_Verdaux_bytes True (Elf64_Verdaux_of False b) else (\<lambda>b. b)" 8
    for be byteswap
  by unfold_locales (simp_all add: libelf_cvt64_Verdef_tom_eq libelf_cvt64_Verdaux_tom_eq codec_defs)

interpretation cvt32_VNEED_tof: version_records "libelf_cvt32_Verneed_tof be byteswap"
    "if byteswap then \<lambda>b. Elf32_Verneed_bytes True (Elf32_Verneed_of False b) else (\<lambda>b. b)" 16
    "libelf_cvt32_Vernaux_tof be byteswap"
    "if byteswap then \<lambda>b. Elf32_Vernaux_bytes True (Elf32_Vernaux_of False b) else (\<lambda>b. b)" 16
    for be byteswap
  by unfold_locales (simp_all add: libelf_cvt32_Verneed_tof_eq libelf_cvt32_Vernaux_tof_eq codec_defs)

interpretation cvt32_VNEED_tom: version_records "libelf_cvt32_Verneed_tom be byteswap"
    "if byteswap then \<lambda>b. Elf32_Verneed_bytes True (Elf32_Verneed_of False b) else (\<lambda>b. b)" 16
    "libelf_cvt32_Vernaux_tom be byteswap"
    "if byteswap then \<lambda>b. Elf32_Vernaux_bytes True (Elf32_Vernaux_of False b) else (\<lambda>b. b)" 16
    for be byteswap
  by unfold_locales (simp_all add: libelf_cvt32_Verneed_tom_eq libelf_cvt32_Vernaux_tom_eq codec_defs)

interpretation cvt64_VNEED_tof: version_records "libelf_cvt64_Verneed_tof be byteswap"
    "if byteswap then \<lambda>b. Elf64_Verneed_bytes True (Elf64_Verneed_of False b) else (\<lambda>b. b)" 16
    "libelf_cvt64_Vernaux_tof be byteswap"
    "if byteswap then \<lambda>b. Elf64_Vernaux_bytes True (Elf64_Vernaux_of False b) else (\<lambda>b. b)" 16
    for be byteswap
  by unfold_locales (simp_all add: libelf_cvt64_Verneed_tof_eq libelf_cvt64_Vernaux_tof_eq codec_defs)

interpretation cvt64_VNEED_tom: version_records "libelf_cvt64_Verneed_tom be byteswap"
    "if byteswap then \<lambda>b. Elf64_Verneed_bytes True (Elf64_Verneed_of False b) else (\<lambda>b. b)" 16
    "libelf_cvt64_Vernaux_tom be byteswap"
    "if byteswap then \<lambda>b. Elf64_Vernaux_bytes True (Elf64_Vernaux_of False b) else (\<lambda>b. b)" 16
    for be byteswap
  by unfold_locales (simp_all add: libelf_cvt64_Verneed_tom_eq libelf_cvt64_Vernaux_tom_eq codec_defs)

lemmas version_defs =
  libelf_cvt32_VDEF_tof_def libelf_cvt32_VDEF_tom_def libelf_cvt64_VDEF_tof_def libelf_cvt64_VDEF_tom_def
  libelf_cvt32_VNEED_tof_def libelf_cvt32_VNEED_tom_def libelf_cvt64_VNEED_tof_def libelf_cvt64_VNEED_tom_def

lemmas version_frames =
  cvt32_VDEF_tof.ver_loop_frame cvt32_VDEF_tom.ver_loop_frame
  cvt64_VDEF_tof.ver_loop_frame cvt64_VDEF_tom.ver_loop_frame
  cvt32_VNEED_tof.ver_loop_frame cvt32_VNEED_tom.ver_loop_frame
  cvt64_VNEED_tof.ver_loop_frame cvt64_VNEED_tom.ver_loop_frame

lemmas version_copies =
  cvt32_VDEF_tof.ver_loop_copies [where byteswap = False, simplified]
  cvt32_VDEF_tom.ver_loop_copies [where byteswap = False, simplified]
  cvt64_VDEF_tof.ver_loop_copies [where byteswap = False, simplified]
  cvt64_VDEF_tom.ver_loop_copies [where byteswap = False, simplified]
  cvt32_VNEED_tof.ver_loop_copies [where byteswap = False, simplified]
  cvt32_VNEED_tom.ver_loop_copies [where byteswap = False, simplified]
  cvt64_VNEED_tof.ver_loop_copies [where byteswap = False, simplified]
  cvt64_VNEED_tom.ver_loop_copies [where byteswap = False, simplified]

section \<open>Properties\<close>

text \<open>
  C24. Whatever links a version definition or version needs section contains, all eight of its
  converters return and write inside the destination buffer only.
\<close>

theorem version_converters_frame:
  assumes "x < dst \<or> dst + dsz \<le> x"
    and "f \<in> {libelf_cvt32_VDEF_tof, libelf_cvt32_VDEF_tom, libelf_cvt64_VDEF_tof, libelf_cvt64_VDEF_tom,
      libelf_cvt32_VNEED_tof, libelf_cvt32_VNEED_tom, libelf_cvt64_VNEED_tof, libelf_cvt64_VNEED_tom}"
  shows "fst (f be m dst dsz src count byteswap) x = m x"
  using assms by (auto simp: version_defs version_frames)

theorem version_converters_frame_witness:
  "fst (libelf_cvt32_VDEF_tom True (\<lambda>_. 255) 100 28 300 28 True) 128 = 255"
  using version_converters_frame [of 128 100 28 libelf_cvt32_VDEF_tom True "\<lambda>_. 255" 300 28 True] by simp

text \<open>
  Without a byte swap, a version section is copied between separate buffers: every byte
  of the destination that changes becomes the byte of the source at the same offset.
\<close>

theorem version_converters_copy:
  assumes "disjoint_ranges dst dsz src count"
    and "f \<in> {libelf_cvt32_VDEF_tof, libelf_cvt32_VDEF_tom, libelf_cvt64_VDEF_tof, libelf_cvt64_VDEF_tom,
      libelf_cvt32_VNEED_tof, libelf_cvt32_VNEED_tom, libelf_cvt64_VNEED_tof, libelf_cvt64_VNEED_tom}"
  shows "fst (f be m dst dsz src count False) (dst + k) \<in> {m (dst + k), m (src + k)}"
proof -
  have d: "disjoint_ranges dst (dst + dsz - dst) src (src + count - src)" using assms(1) by simp
  show ?thesis using assms(2)
    by (elim insertE emptyE) (simp_all add: version_defs version_copies [OF d])
qed

theorem version_converters_copy_witness:
  "fst (libelf_cvt64_VNEED_tof True (\<lambda>x. of_nat x) 100 32 300 32 False) (100 + 20) \<in>
    {of_nat (100 + 20), of_nat (300 + 20)}"
  using version_converters_copy [of 100 32 300 32 libelf_cvt64_VNEED_tof True "\<lambda>x. of_nat x" 20]
  by (simp add: disjoint_ranges_def)

text \<open>
  Converting a version definition section to the file format in place while swapping
  bytes fails as soon as the byte-swapped offset of the first auxiliary record points behind
  the buffer: the converter reads the links from the source after it has overwritten them.
\<close>

theorem libelf_cvt32_VDEF_tof_in_place:
  assumes "20 \<le> dsz" "a = vd_aux (Elf32_Verdef_of be (bytes_at m buf 20))"
    and "dsz < unat (SWAP_WORD a) + 8"
  shows "snd (libelf_cvt32_VDEF_tof be m buf dsz buf dsz True) = False"
proof -
  let ?m = "libelf_cvt32_Verdef_tof be True m buf buf"
  let ?v = "Elf32_Verdef_of be (bytes_at m buf 20)"
  have "bytes_at ?m buf 20 = Elf32_Verdef_bytes True (Elf32_Verdef_of False (bytes_at m buf 20))"
    by (simp add: libelf_cvt32_Verdef_tof_eq elf32verdef.flip_length)
  also have "\<dots> = Elf32_Verdef_bytes be (Elf32_Verdef_of (\<not> be) (bytes_at m buf 20))"
    by (rule elf32verdef.flip_any [symmetric]) simp
  finally have "Elf32_Verdef_of be (bytes_at ?m buf 20) = SWAP_Elf32_Verdef ?v"
    by (simp add: elf32verdef.of_to elf32verdef.SWAP_of)
  then have a: "vd_aux (Elf32_Verdef_of be (bytes_at ?m buf 20)) = SWAP_WORD a"
    by (simp add: assms(2) SWAP_Elf32_Verdef_def)
  have "ver_aux_loop cvta anext 8 (buf + dsz) (buf + dsz) ?m (buf + unat (SWAP_WORD a)) (buf + unat (SWAP_WORD a)) =
      (?m, buf + unat (SWAP_WORD a), buf + unat (SWAP_WORD a))" for cvta anext
    using assms(3) by (subst ver_aux_loop.simps) simp
  with a assms(1,3) show ?thesis
    unfolding libelf_cvt32_VDEF_tof_def by (subst ver_loop.simps) (simp add: Let_def)
qed

theorem libelf_cvt32_VDEF_tof_in_place_witness:
  "snd (libelf_cvt32_VDEF_tof True (\<lambda>x. if x = 115 then 20 else 0) 100 28 100 28 True) = False"
  by (rule libelf_cvt32_VDEF_tof_in_place [OF _ refl])
     (simp_all add: Elf32_Verdef_of_def, simp add: host_word_def bytes_at_numeral SWAP_WORD_def swap_step_def)

end
