(* ===== verification/Libelf_Translator.thy ===== *)
theory Libelf_Translator
  imports Libelf_Cvt_Note Libelf_Cvt_Version
begin

text \<open>
  The table of converters at the end of \<open>libelf_convert.c\<close> and \<open>_libelf_get_translator\<close>, with
  what the rest of the library relies on: every type with a file size has a converter in
  both directions, and the converters of all fixed-size types are inverse to each other.
  A converter of the table returns \<open>None\<close> where the C function does not return.
\<close>

section \<open>Definitions\<close>

type_synonym translator =
  "bool \<Rightarrow> memory \<Rightarrow> addr \<Rightarrow> nat \<Rightarrow> addr \<Rightarrow> nat \<Rightarrow> bool \<Rightarrow> (memory \<times> bool) option"

definition total :: "converter \<Rightarrow> translator" where
  "total f = (\<lambda>be m dst dsz src cnt byteswap. Some (f be m dst dsz src cnt byteswap))"

record converters =
  tof32 :: "translator option"
  tom32 :: "translator option"
  tof64 :: "translator option"
  tom64 :: "translator option"

fun cvt :: "Elf_Type \<Rightarrow> converters" where
  "cvt ELF_T_ADDR =
     \<lparr>tof32 = Some (total libelf_cvt_ADDR32_tof), tom32 = Some (total libelf_cvt_ADDR32_tom),
      tof64 = Some (total libelf_cvt_ADDR64_tof), tom64 = Some (total libelf_cvt_ADDR64_tom)\<rparr>"
| "cvt ELF_T_CAP =
     \<lparr>tof32 = Some (total libelf_cvt32_CAP_tof), tom32 = Some (total libelf_cvt32_CAP_tom),
      tof64 = Some (total libelf_cvt64_CAP_tof), tom64 = Some (total libelf_cvt64_CAP_tom)\<rparr>"
| "cvt ELF_T_DYN =
     \<lparr>tof32 = Some (total libelf_cvt32_DYN_tof), tom32 = Some (total libelf_cvt32_DYN_tom),
      tof64 = Some (total libelf_cvt64_DYN_tof), tom64 = Some (total libelf_cvt64_DYN_tom)\<rparr>"
| "cvt ELF_T_EHDR =
     \<lparr>tof32 = Some (total libelf_cvt32_EHDR_tof), tom32 = Some (total libelf_cvt32_EHDR_tom),
      tof64 = Some (total libelf_cvt64_EHDR_tof), tom64 = Some (total libelf_cvt64_EHDR_tom)\<rparr>"
| "cvt ELF_T_HALF =
     \<lparr>tof32 = Some (total libelf_cvt_HALF_tof), tom32 = Some (total libelf_cvt_HALF_tom),
      tof64 = Some (total libelf_cvt_HALF_tof), tom64 = Some (total libelf_cvt_HALF_tom)\<rparr>"
| "cvt ELF_T_LWORD =
     \<lparr>tof32 = Some (total libelf_cvt_LWORD_tof), tom32 = Some (total libelf_cvt_LWORD_tom),
      tof64 = Some (total libelf_cvt_LWORD_tof), tom64 = Some (total libelf_cvt_LWORD_tom)\<rparr>"
| "cvt ELF_T_MOVE =
     \<lparr>tof32 = Some (total libelf_cvt32_MOVE_tof), tom32 = Some (total libelf_cvt32_MOVE_tom),
      tof64 = Some (total libelf_cvt64_MOVE_tof), tom64 = Some (total libelf_cvt64_MOVE_tom)\<rparr>"
| "cvt ELF_T_MOVEP =
     \<lparr>tof32 = None, tom32 = None,
      tof64 = None, tom64 = None\<rparr>"
| "cvt ELF_T_OFF =
     \<lparr>tof32 = Some (total libelf_cvt_OFF32_tof), tom32 = Some (total libelf_cvt_OFF32_tom),
      tof64 = Some (total libelf_cvt_OFF64_tof), tom64 = Some (total libelf_cvt_OFF64_tom)\<rparr>"
| "cvt ELF_T_PHDR =
     \<lparr>tof32 = Some (total libelf_cvt32_PHDR_tof), tom32 = Some (total libelf_cvt32_PHDR_tom),
      tof64 = Some (total libelf_cvt64_PHDR_tof), tom64 = Some (total libelf_cvt64_PHDR_tom)\<rparr>"
| "cvt ELF_T_REL =
     \<lparr>tof32 = Some (total libelf_cvt32_REL_tof), tom32 = Some (total libelf_cvt32_REL_tom),
      tof64 = Some (total libelf_cvt64_REL_tof), tom64 = Some (total libelf_cvt64_REL_tom)\<rparr>"
| "cvt ELF_T_RELA =
     \<lparr>tof32 = Some (total libelf_cvt32_RELA_tof), tom32 = Some (total libelf_cvt32_RELA_tom),
      tof64 = Some (total libelf_cvt64_RELA_tof), tom64 = Some (total libelf_cvt64_RELA_tom)\<rparr>"
| "cvt ELF_T_SHDR =
     \<lparr>tof32 = Some (total libelf_cvt32_SHDR_tof), tom32 = Some (total libelf_cvt32_SHDR_tom),
      tof64 = Some (total libelf_cvt64_SHDR_tof), tom64 = Some (total libelf_cvt64_SHDR_tom)\<rparr>"
| "cvt ELF_T_SWORD =
     \<lparr>tof32 = Some (total libelf_cvt_SWORD_tof), tom32 = Some (total libelf_cvt_SWORD_tom),
      tof64 = Some (total libelf_cvt_SWORD_tof), tom64 = Some (total libelf_cvt_SWORD_tom)\<rparr>"
| "cvt ELF_T_SXWORD =
     \<lparr>tof32 = None, tom32 = None,
      tof64 = Some (total libelf_cvt_SXWORD_tof), tom64 = Some (total libelf_cvt_SXWORD_tom)\<rparr>"
| "cvt ELF_T_SYMINFO =
     \<lparr>tof32 = Some (total libelf_cvt32_SYMINFO_tof), tom32 = Some (total libelf_cvt32_SYMINFO_tom),
      tof64 = Some (total libelf_cvt64_SYMINFO_tof), tom64 = Some (total libelf_cvt64_SYMINFO_tom)\<rparr>"
| "cvt ELF_T_SYM =
     \<lparr>tof32 = Some (total libelf_cvt32_SYM_tof), tom32 = Some (total libelf_cvt32_SYM_tom),
      tof64 = Some (total libelf_cvt64_SYM_tof), tom64 = Some (total libelf_cvt64_SYM_tom)\<rparr>"
| "cvt ELF_T_WORD =
     \<lparr>tof32 = Some (total libelf_cvt_WORD_tof), tom32 = Some (total libelf_cvt_WORD_tom),
      tof64 = Some (total libelf_cvt_WORD_tof), tom64 = Some (total libelf_cvt_WORD_tom)\<rparr>"
| "cvt ELF_T_XWORD =
     \<lparr>tof32 = None, tom32 = None,
      tof64 = Some (total libelf_cvt_XWORD_tof), tom64 = Some (total libelf_cvt_XWORD_tom)\<rparr>"
| "cvt ELF_T_BYTE =
     \<lparr>tof32 = Some (total libelf_cvt_BYTE_tox), tom32 = Some (total libelf_cvt_BYTE_tox),
      tof64 = Some (total libelf_cvt_BYTE_tox), tom64 = Some (total libelf_cvt_BYTE_tox)\<rparr>"
| "cvt ELF_T_GNUHASH =
     \<lparr>tof32 = Some (total libelf_cvt32_GNUHASH_tof), tom32 = Some (total libelf_cvt32_GNUHASH_tom),
      tof64 = Some (total libelf_cvt64_GNUHASH_tof), tom64 = Some (total libelf_cvt64_GNUHASH_tom)\<rparr>"
| "cvt ELF_T_NOTE =
     \<lparr>tof32 = Some libelf_cvt_NOTE_tof, tom32 = Some (total libelf_cvt_NOTE_tom),
      tof64 = Some libelf_cvt_NOTE_tof, tom64 = Some (total libelf_cvt_NOTE_tom)\<rparr>"
| "cvt ELF_T_VDEF =
     \<lparr>tof32 = Some (total libelf_cvt32_VDEF_tof), tom32 = Some (total libelf_cvt32_VDEF_tom),
      tof64 = Some (total libelf_cvt64_VDEF_tof), tom64 = Some (total libelf_cvt64_VDEF_tom)\<rparr>"
| "cvt ELF_T_VNEED =
     \<lparr>tof32 = Some (total libelf_cvt32_VNEED_tof), tom32 = Some (total libelf_cvt32_VNEED_tom),
      tof64 = Some (total libelf_cvt64_VNEED_tof), tom64 = Some (total libelf_cvt64_VNEED_tom)\<rparr>"
| "cvt ELF_T_NUM = \<lparr>tof32 = None, tom32 = None, tof64 = None, tom64 = None\<rparr>"

text \<open>
  \<open>_libelf_get_translator\<close>: \<open>None\<close> is a failed assertion, \<open>Some None\<close> the null pointer.
\<close>

definition libelf_get_translator :: "Elf_Type \<Rightarrow> direction \<Rightarrow> int \<Rightarrow> translator option option" where
  "libelf_get_translator t direction elfclass =
     (if \<not> (elfclass = ELFCLASS32 \<or> elfclass = ELFCLASS64) then None
      else if t = ELF_T_NUM then Some None
      else Some (if elfclass = ELFCLASS32
                 then (if direction = ELF_TOFILE then tof32 (cvt t) else tom32 (cvt t))
                 else (if direction = ELF_TOFILE then tof64 (cvt t) else tom64 (cvt t))))"

section \<open>The contract of the table\<close>

text \<open>
  \<open>fixed_translator t ec f g\<close>: the table holds the pair \<open>f\<close>, \<open>g\<close> of converters for type \<open>t\<close>
  in class \<open>ec\<close>, and the pair meets the contract with the sizes of the size tables.
\<close>

definition fixed_translator :: "Elf_Type \<Rightarrow> int \<Rightarrow> converter \<Rightarrow> converter \<Rightarrow> bool" where
  "fixed_translator t ec f g \<longleftrightarrow>
     libelf_get_translator t ELF_TOFILE ec = Some (Some (total f)) \<and>
     libelf_get_translator t ELF_TOMEMORY ec = Some (Some (total g)) \<and>
     (\<exists>flip. elf_translator f g (fsz_of t ec) (msz_of t ec) flip)"

lemma fixed_translatorI:
  assumes "elf_translator f g fsz msz flip" "fsz = fsz_of t ec" "msz = msz_of t ec"
    and "libelf_get_translator t ELF_TOFILE ec = Some (Some (total f))"
    and "libelf_get_translator t ELF_TOMEMORY ec = Some (Some (total g))"
  shows "\<exists>f g. fixed_translator t ec f g"
  using assms by (auto simp: fixed_translator_def)

lemmas fixed_translators =
  cvt_ADDR32.elf_translator_axioms [THEN fixed_translatorI]
  cvt_ADDR64.elf_translator_axioms [THEN fixed_translatorI]
  cvt32_CAP.elf_translator_axioms [THEN fixed_translatorI]
  cvt64_CAP.elf_translator_axioms [THEN fixed_translatorI]
  cvt32_DYN.elf_translator_axioms [THEN fixed_translatorI]
  cvt64_DYN.elf_translator_axioms [THEN fixed_translatorI]
  cvt32_EHDR.elf_translator_axioms [THEN fixed_translatorI]
  cvt64_EHDR.elf_translator_axioms [THEN fixed_translatorI]
  cvt_HALF.elf_translator_axioms [THEN fixed_translatorI]
  cvt_LWORD.elf_translator_axioms [THEN fixed_translatorI]
  cvt32_MOVE.elf_translator_axioms [THEN fixed_translatorI]
  cvt64_MOVE.elf_translator_axioms [THEN fixed_translatorI]
  cvt_OFF32.elf_translator_axioms [THEN fixed_translatorI]
  cvt_OFF64.elf_translator_axioms [THEN fixed_translatorI]
  cvt32_PHDR.elf_translator_axioms [THEN fixed_translatorI]
  cvt64_PHDR.elf_translator_axioms [THEN fixed_translatorI]
  cvt32_REL.elf_translator_axioms [THEN fixed_translatorI]
  cvt64_REL.elf_translator_axioms [THEN fixed_translatorI]
  cvt32_RELA.elf_translator_axioms [THEN fixed_translatorI]
  cvt64_RELA.elf_translator_axioms [THEN fixed_translatorI]
  cvt32_SHDR.elf_translator_axioms [THEN fixed_translatorI]
  cvt64_SHDR.elf_translator_axioms [THEN fixed_translatorI]
  cvt_SWORD.elf_translator_axioms [THEN fixed_translatorI]
  cvt_SXWORD.elf_translator_axioms [THEN fixed_translatorI]
  cvt32_SYMINFO.elf_translator_axioms [THEN fixed_translatorI]
  cvt64_SYMINFO.elf_translator_axioms [THEN fixed_translatorI]
  cvt32_SYM.elf_translator_axioms [THEN fixed_translatorI]
  cvt64_SYM.elf_translator_axioms [THEN fixed_translatorI]
  cvt_WORD.elf_translator_axioms [THEN fixed_translatorI]
  cvt_XWORD.elf_translator_axioms [THEN fixed_translatorI]

lemmas table_simps = fsz_of_def msz_of_def libelf_get_translator_def

lemma translators32:
  "\<exists>f g. fixed_translator ELF_T_ADDR ELFCLASS32 f g"
  "\<exists>f g. fixed_translator ELF_T_CAP ELFCLASS32 f g"
  "\<exists>f g. fixed_translator ELF_T_DYN ELFCLASS32 f g"
  "\<exists>f g. fixed_translator ELF_T_EHDR ELFCLASS32 f g"
  "\<exists>f g. fixed_translator ELF_T_HALF ELFCLASS32 f g"
  "\<exists>f g. fixed_translator ELF_T_LWORD ELFCLASS32 f g"
  "\<exists>f g. fixed_translator ELF_T_MOVE ELFCLASS32 f g"
  "\<exists>f g. fixed_translator ELF_T_OFF ELFCLASS32 f g"
  "\<exists>f g. fixed_translator ELF_T_PHDR ELFCLASS32 f g"
  "\<exists>f g. fixed_translator ELF_T_REL ELFCLASS32 f g"
  "\<exists>f g. fixed_translator ELF_T_RELA ELFCLASS32 f g"
  "\<exists>f g. fixed_translator ELF_T_SHDR ELFCLASS32 f g"
  "\<exists>f g. fixed_translator ELF_T_SWORD ELFCLASS32 f g"
  "\<exists>f g. fixed_translator ELF_T_SYMINFO ELFCLASS32 f g"
  "\<exists>f g. fixed_translator ELF_T_SYM ELFCLASS32 f g"
  "\<exists>f g. fixed_translator ELF_T_WORD ELFCLASS32 f g"
  by ((rule fixed_translators, (simp add: table_simps; fail)+)+)

lemma translators64:
  "\<exists>f g. fixed_translator ELF_T_ADDR ELFCLASS64 f g"
  "\<exists>f g. fixed_translator ELF_T_CAP ELFCLASS64 f g"
  "\<exists>f g. fixed_translator ELF_T_DYN ELFCLASS64 f g"
  "\<exists>f g. fixed_translator ELF_T_EHDR ELFCLASS64 f g"
  "\<exists>f g. fixed_translator ELF_T_HALF ELFCLASS64 f g"
  "\<exists>f g. fixed_translator ELF_T_LWORD ELFCLASS64 f g"
  "\<exists>f g. fixed_translator ELF_T_MOVE ELFCLASS64 f g"
  "\<exists>f g. fixed_translator ELF_T_OFF ELFCLASS64 f g"
  "\<exists>f g. fixed_translator ELF_T_PHDR ELFCLASS64 f g"
  "\<exists>f g. fixed_translator ELF_T_REL ELFCLASS64 f g"
  "\<exists>f g. fixed_translator ELF_T_RELA ELFCLASS64 f g"
  "\<exists>f g. fixed_translator ELF_T_SHDR ELFCLASS64 f g"
  "\<exists>f g. fixed_translator ELF_T_SWORD ELFCLASS64 f g"
  "\<exists>f g. fixed_translator ELF_T_SXWORD ELFCLASS64 f g"
  "\<exists>f g. fixed_translator ELF_T_SYMINFO ELFCLASS64 f g"
  "\<exists>f g. fixed_translator ELF_T_SYM ELFCLASS64 f g"
  "\<exists>f g. fixed_translator ELF_T_WORD ELFCLASS64 f g"
  "\<exists>f g. fixed_translator ELF_T_XWORD ELFCLASS64 f g"
  by ((rule fixed_translators, (simp add: table_simps; fail)+)+)

lemma fixed_type_translator:
  assumes "fixed_type t" "ec = ELFCLASS32 \<or> ec = ELFCLASS64" "fsz_of t ec \<noteq> 0"
  shows "\<exists>f g. fixed_translator t ec f g"
proof -
  have "\<exists>f g. fixed_translator t ELFCLASS32 f g" if "fixed_type t" "fsz_of t ELFCLASS32 \<noteq> 0"
    using that translators32 by (cases t) (simp_all add: fixed_type_def fsz_of_def)
  moreover have "\<exists>f g. fixed_translator t ELFCLASS64 f g" if "fixed_type t"
    using that translators64 by (cases t) (simp_all add: fixed_type_def)
  ultimately show ?thesis using assms by blast
qed

text \<open>Whatever has a size in the file has a converter, a size in memory and an alignment.\<close>

lemma translator_exists:
  assumes "ec = ELFCLASS32 \<or> ec = ELFCLASS64" "fsz_of t ec \<noteq> 0"
  obtains f where "libelf_get_translator t d ec = Some (Some f)"
  using assms by (cases t; cases d) (auto simp: libelf_get_translator_def fsz_of_def)

lemma malign_msize_pos:
  assumes "ec = ELFCLASS32 \<or> ec = ELFCLASS64" "fsz_of t ec \<noteq> 0"
  shows "0 < libelf_malign t ec" "0 < msz_of t ec"
  using assms by (cases t; auto simp: libelf_malign_def fsz_of_def msz_of_def)+

section \<open>Properties\<close>

text \<open>
  C12. For every fixed-size type and class, converting the file image of any number of
  objects to memory and back reproduces it byte for byte, in both byte orders, each step in
  place or between separate buffers.  The converter to memory refuses a destination that cannot hold the
  objects, and then leaves the memory alone.
\<close>

theorem translator_file_roundtrip:
  assumes "fixed_type t" "ec = ELFCLASS32 \<or> ec = ELFCLASS64" "fsz_of t ec \<noteq> 0" "n * msz_of t ec < 2 ^ 64"
  shows "\<exists>tof tom. libelf_get_translator t ELF_TOMEMORY ec = Some (Some tom) \<and>
    libelf_get_translator t ELF_TOFILE ec = Some (Some tof) \<and>
    (dsz < n * msz_of t ec \<longrightarrow> tom be m buf dsz src n byteswap = Some (m, False)) \<and>
    (n * msz_of t ec \<le> dsz \<longrightarrow> buf = src \<or> disjoint_ranges buf (n * msz_of t ec) src (n * fsz_of t ec) \<longrightarrow>
     out = buf \<or> disjoint_ranges out (n * fsz_of t ec) buf (n * msz_of t ec) \<longrightarrow>
     (\<exists>m1 m2. tom be m buf dsz src n byteswap = Some (m1, True) \<and> tof be m1 out osz buf n byteswap = Some (m2, True) \<and>
       bytes_at m2 out (n * fsz_of t ec) = bytes_at m src (n * fsz_of t ec)))"
proof -
  from fixed_type_translator [OF assms(1-3)] obtain f g flip
    where t: "libelf_get_translator t ELF_TOFILE ec = Some (Some (total f))"
      "libelf_get_translator t ELF_TOMEMORY ec = Some (Some (total g))"
      and e: "elf_translator f g (fsz_of t ec) (msz_of t ec) flip"
    by (auto simp: fixed_translator_def)
  note small = elf_translator.tom_small [OF e _ assms(4)]
  note rt = elf_translator.file_roundtrip [OF e _ assms(4), of dsz buf src out be m byteswap osz]
  show ?thesis
    by (rule exI [of _ "total f"], rule exI [of _ "total g"]) (use t small rt in \<open>auto simp: total_def\<close>)
qed

theorem translator_file_roundtrip_witness:
  "\<exists>tof tom. libelf_get_translator ELF_T_MOVE ELF_TOMEMORY ELFCLASS32 = Some (Some tom) \<and>
    libelf_get_translator ELF_T_MOVE ELF_TOFILE ELFCLASS32 = Some (Some tof) \<and>
    (\<exists>m1 m2. tom True (\<lambda>x. of_nat x) 128 48 128 2 True = Some (m1, True) \<and>
      tof True m1 128 40 128 2 True = Some (m2, True) \<and>
      bytes_at m2 128 40 = bytes_at (\<lambda>x. of_nat x) 128 40)"
  using translator_file_roundtrip [of ELF_T_MOVE ELFCLASS32 2 48 True "\<lambda>x. of_nat x" 128 128 True 128 40]
  by (auto simp: fixed_type_def fsz_of_def msz_of_def)

text \<open>
  C13. Writing in-memory objects of a fixed-size type out to the file format and reading them
  back preserves every member of every object.
\<close>

theorem translator_memory_roundtrip:
  assumes "fixed_type t" "ec = ELFCLASS32 \<or> ec = ELFCLASS64" "fsz_of t ec \<noteq> 0"
    and "n * msz_of t ec \<le> dsz" "n * msz_of t ec < 2 ^ 64"
    and "out = buf \<or> disjoint_ranges out (n * fsz_of t ec) buf (n * msz_of t ec)"
    and "back = out \<or> disjoint_ranges back (n * msz_of t ec) out (n * fsz_of t ec)"
    and "i < n"
  shows "\<exists>tof tom m1 m2. libelf_get_translator t ELF_TOMEMORY ec = Some (Some tom) \<and>
    libelf_get_translator t ELF_TOFILE ec = Some (Some tof) \<and>
    tof be m out osz buf n byteswap = Some (m1, True) \<and>
    tom be m1 back dsz out n byteswap = Some (m2, True) \<and>
    bytes_at m2 (back + i * msz_of t ec) (fsz_of t ec) = bytes_at m (buf + i * msz_of t ec) (fsz_of t ec)"
proof -
  from fixed_type_translator [OF assms(1-3)] obtain f g flip
    where t: "libelf_get_translator t ELF_TOFILE ec = Some (Some (total f))"
      "libelf_get_translator t ELF_TOMEMORY ec = Some (Some (total g))"
      and "elf_translator f g (fsz_of t ec) (msz_of t ec) flip"
    by (auto simp: fixed_translator_def)
  note rt = elf_translator.memory_roundtrip [OF this(3) assms(4-8), of be m osz byteswap]
  then show ?thesis using t by (auto simp: total_def)
qed

theorem translator_memory_roundtrip_witness:
  "\<exists>tof tom m1 m2. libelf_get_translator ELF_T_SYM ELF_TOMEMORY ELFCLASS64 = Some (Some tom) \<and>
    libelf_get_translator ELF_T_SYM ELF_TOFILE ELFCLASS64 = Some (Some tof) \<and>
    tof False (\<lambda>x. of_nat x) 200 72 100 3 True = Some (m1, True) \<and>
    tom False m1 300 72 200 3 True = Some (m2, True) \<and>
    bytes_at m2 (300 + 48) 24 = bytes_at (\<lambda>x. of_nat x) (100 + 48) 24"
  using translator_memory_roundtrip [of ELF_T_SYM ELFCLASS64 3 72 200 100 300 2 False "\<lambda>x. of_nat x" 72 True]
  by (simp add: fixed_type_def fsz_of_def msz_of_def disjoint_ranges_def)

end
