(* ===== verification/Libelf_State.thy ===== *)
theory Libelf_State
  imports Libelf_Translator
begin

text \<open>
  The state of the library and the operations on descriptors that do not look at the
  contents of a file: \<open>libelf_allocate.c\<close>, \<open>elf_version.c\<close>, \<open>elf_errno.c\<close>, \<open>elf_errmsg.c\<close>,
  \<open>elf_fill.c\<close>, \<open>elf_kind.c\<close>, \<open>elf_flag.c\<close>, \<open>elf_cntl.c\<close>, \<open>elf_getbase.c\<close>, \<open>elf_getident.c\<close>,
  \<open>elf_rawfile.c\<close>, \<open>gelf_getclass.c\<close> and \<open>gelf_fsize.c\<close>.

  The library's globals, the byte memory and the descriptors are one record that every
  operation takes and returns.  Descriptors are found under their address; the address 0 is
  the null pointer.  An operation yields \<open>None\<close> where the program fails an assertion or
  follows a dangling pointer.  \<open>malloc\<close> hands out fresh, disjoint blocks aligned to 16 bytes
  until the arena is exhausted; freed blocks are not handed out again.  The section header
  is the first member of a section descriptor, so it is kept in the byte memory at the
  address of the descriptor.
\<close>

section \<open>Types\<close>

type_synonym flags = "32 word"

abbreviation (input) ELF_F_DIRTY :: flags where "ELF_F_DIRTY \<equiv> 0x2"
abbreviation (input) ELF_F_LAYOUT :: flags where "ELF_F_LAYOUT \<equiv> 0x1"
abbreviation (input) ELF_F_ARCHIVE :: flags where "ELF_F_ARCHIVE \<equiv> 0x100"
abbreviation (input) ELF_F_ARCHIVE_SYSV :: flags where "ELF_F_ARCHIVE_SYSV \<equiv> 0x200"
abbreviation (input) LIBELF_F_DATA_MALLOCED :: flags where "LIBELF_F_DATA_MALLOCED \<equiv> 0x10000"
abbreviation (input) LIBELF_F_MMAP :: flags where "LIBELF_F_MMAP \<equiv> 0x20000"
abbreviation (input) LIBELF_F_SHDRS_LOADED :: flags where "LIBELF_F_SHDRS_LOADED \<equiv> 0x40000"

abbreviation (input) NULL :: addr where "NULL \<equiv> 0"

text \<open>
  \<open>struct _Elf\<close>.  The members of the two variants of the union \<open>e_u\<close> are listed one after the
  other; \<open>e_elf_flags\<close> and \<open>e_elf_version\<close> are the members \<open>e_flags\<close> and \<open>e_version\<close>.
\<close>

record Elf =
  e_activations :: int
  e_arhdr :: addr
  e_byteorder :: nat
  e_class :: int
  e_cmd :: Elf_Cmd
  e_fd :: int
  e_elf_flags :: flags
  e_kind :: Elf_Kind
  e_parent :: addr
  e_rawfile :: addr
  e_rawsize :: nat
  e_elf_version :: nat
  e_next :: int
  e_nchildren :: int
  e_rawstrtab :: addr
  e_rawstrtabsz :: nat
  e_rawsymtab :: addr
  e_rawsymtabsz :: nat
  e_symtab :: addr
  e_symtabsz :: nat
  e_ehdr :: addr
  e_phdr :: addr
  e_scn :: "addr list"
  e_nphdr :: nat
  e_nscn :: nat
  e_strndx :: nat

record Elf_Scn =
  s_data :: "addr list"
  s_rawdata :: "addr list"
  s_elf :: addr
  s_flags :: flags
  s_ndx :: nat
  s_offset :: nat
  s_rawoff :: nat
  s_size :: nat

record Elf_Data =
  d_align :: nat
  d_buf :: addr
  d_off :: nat
  d_size :: nat
  d_type :: Elf_Type
  d_version :: nat
  d_scn :: addr
  d_flags :: flags

record Elf_Arhdr =
  ar_name :: addr
  ar_gid :: nat
  ar_mode :: nat
  ar_rawname :: addr
  ar_size :: nat
  ar_uid :: nat
  ar_flags :: flags

text \<open>
  The globals of \<open>struct _libelf_globals\<close> that the program uses, the byte order of the host,
  the memory, the descriptors and the operating system's files and \<open>errno\<close>.  The two parts of
  the error number, the library's code and the operating system's, are kept apart.
\<close>

record libelf =
  host_be :: bool
  libelf_byteorder :: nat
  libelf_error :: Elf_Error
  libelf_oserror :: int
  libelf_fillchar :: int
  libelf_version :: nat
  mem :: memory
  heap_next :: nat
  heap_limit :: nat
  elfs :: "addr \<rightharpoonup> Elf"
  scns :: "addr \<rightharpoonup> Elf_Scn"
  datas :: "addr \<rightharpoonup> Elf_Data"
  arhdrs :: "addr \<rightharpoonup> Elf_Arhdr"
  files :: "int \<rightharpoonup> byte list"
  os_errno :: int

section \<open>Memory and errors\<close>

definition LIBELF_SET_ERROR :: "Elf_Error \<Rightarrow> int \<Rightarrow> libelf \<Rightarrow> libelf" where
  "LIBELF_SET_ERROR E oserr l = l\<lparr>libelf_error := E, libelf_oserror := oserr\<rparr>"

definition malloc :: "nat \<Rightarrow> libelf \<Rightarrow> addr \<times> libelf" where
  "malloc n l =
     (let a = heap_next l; sz = (max n 1 + 15) div 16 * 16
      in if heap_limit l < a + sz then (NULL, l) else (a, l\<lparr>heap_next := a + sz\<rparr>))"

definition calloc :: "nat \<Rightarrow> nat \<Rightarrow> libelf \<Rightarrow> addr \<times> libelf" where
  "calloc c n l =
     (if 2 ^ 64 \<le> c * n then (NULL, l)
      else let (a, l) = malloc (c * n) l
           in if a = NULL then (NULL, l)
              else (a, l\<lparr>mem := put_bytes (mem l) a (replicate (c * n) 0)\<rparr>))"

abbreviation (input) sizeof_Elf :: nat where "sizeof_Elf \<equiv> 136"
abbreviation (input) sizeof_Elf_Scn :: nat where "sizeof_Elf_Scn \<equiv> 152"
abbreviation (input) sizeof_Elf_Data :: nat where "sizeof_Elf_Data \<equiv> 64"
abbreviation (input) sizeof_s_shdr :: nat where "sizeof_s_shdr \<equiv> 64"

definition upd_elf :: "addr \<Rightarrow> (Elf \<Rightarrow> Elf) \<Rightarrow> libelf \<Rightarrow> libelf" where
  "upd_elf e f l = l\<lparr>elfs := (elfs l)(e := map_option f (elfs l e))\<rparr>"

definition upd_scn :: "addr \<Rightarrow> (Elf_Scn \<Rightarrow> Elf_Scn) \<Rightarrow> libelf \<Rightarrow> libelf" where
  "upd_scn s f l = l\<lparr>scns := (scns l)(s := map_option f (scns l s))\<rparr>"

definition upd_data :: "addr \<Rightarrow> (Elf_Data \<Rightarrow> Elf_Data) \<Rightarrow> libelf \<Rightarrow> libelf" where
  "upd_data d f l = l\<lparr>datas := (datas l)(d := map_option f (datas l d))\<rparr>"

definition set_mem :: "memory \<Rightarrow> libelf \<Rightarrow> libelf" where
  "set_mem m l = l\<lparr>mem := m\<rparr>"

section \<open>Allocation of descriptors\<close>

definition libelf_allocate_elf :: "libelf \<Rightarrow> addr \<times> libelf" where
  "libelf_allocate_elf l =
    (let (e, l) = malloc sizeof_Elf l
     in if e = NULL then (NULL, LIBELF_SET_ERROR ELF_E_RESOURCE (os_errno l) l)
     else (e, l\<lparr>elfs := (elfs l)(e \<mapsto>
       \<lparr>e_activations = 1, e_arhdr = NULL, e_byteorder = ELFDATANONE, e_class = ELFCLASSNONE,
        e_cmd = ELF_C_NULL, e_fd = -1, e_elf_flags = 0, e_kind = ELF_K_NONE, e_parent = NULL,
        e_rawfile = NULL, e_rawsize = 0, e_elf_version = libelf_version l,
        e_next = 0, e_nchildren = 0, e_rawstrtab = NULL, e_rawstrtabsz = 0, e_rawsymtab = NULL,
        e_rawsymtabsz = 0, e_symtab = NULL, e_symtabsz = 0,
        e_ehdr = NULL, e_phdr = NULL, e_scn = [], e_nphdr = 0, e_nscn = 0, e_strndx = 0\<rparr>)\<rparr>))"

definition libelf_init_elf :: "addr \<Rightarrow> Elf_Kind \<Rightarrow> libelf \<Rightarrow> libelf option" where
  "libelf_init_elf e kind l =
    do { E \<leftarrow> elfs l e;
         if e_kind E \<noteq> ELF_K_NONE then None
         else Some (upd_elf e (\<lambda>E. if kind = ELF_K_ELF then E\<lparr>e_kind := kind, e_scn := []\<rparr>
                                   else E\<lparr>e_kind := kind\<rparr>) l) }"

text \<open>The memory of a released descriptor is gone: later uses of its address fail.\<close>

definition libelf_release_elf :: "addr \<Rightarrow> libelf \<Rightarrow> libelf option" where
  "libelf_release_elf e l =
    do { E \<leftarrow> elfs l e;
         if e_kind E = ELF_K_ELF then
           (if e_scn E \<noteq> [] then None
            else Some (l\<lparr>arhdrs := (arhdrs l)(e_arhdr E := None), elfs := (elfs l)(e := None)\<rparr>))
         else Some (l\<lparr>elfs := (elfs l)(e := None)\<rparr>) }"

definition libelf_allocate_data :: "addr \<Rightarrow> libelf \<Rightarrow> addr \<times> libelf" where
  "libelf_allocate_data s l =
    (let (d, l) = calloc 1 sizeof_Elf_Data l
     in if d = NULL then (NULL, LIBELF_SET_ERROR ELF_E_RESOURCE 0 l)
     else (d, l\<lparr>datas := (datas l)(d \<mapsto>
       \<lparr>d_align = 0, d_buf = NULL, d_off = 0, d_size = 0, d_type = ELF_T_ADDR, d_version = 0,
        d_scn = s, d_flags = 0\<rparr>)\<rparr>))"

definition libelf_release_data :: "addr \<Rightarrow> libelf \<Rightarrow> libelf option" where
  "libelf_release_data d l =
    do { _ \<leftarrow> datas l d; Some (l\<lparr>datas := (datas l)(d := None)\<rparr>) }"

definition libelf_allocate_scn :: "addr \<Rightarrow> nat \<Rightarrow> libelf \<Rightarrow> (addr \<times> libelf) option" where
  "libelf_allocate_scn e ndx l =
    (let (s, l) = calloc 1 sizeof_Elf_Scn l
     in if s = NULL then Some (NULL, LIBELF_SET_ERROR ELF_E_RESOURCE (os_errno l) l)
     else do {
       _ \<leftarrow> elfs l e;
       let l = l\<lparr>scns := (scns l)(s \<mapsto>
         \<lparr>s_data = [], s_rawdata = [], s_elf = e, s_flags = 0, s_ndx = ndx, s_offset = 0,
          s_rawoff = 0, s_size = 0\<rparr>)\<rparr>;
       Some (s, upd_elf e (\<lambda>E. E\<lparr>e_scn := e_scn E @ [s]\<rparr>) l) })"

text \<open>
  \<open>STAILQ_FOREACH_SAFE(d, list) { STAILQ_REMOVE; _libelf_release_data(d); }\<close>; for raw data,
  the flag \<open>LIBELF_F_DATA_MALLOCED\<close> must not be set.
\<close>

primrec release_datas :: "bool \<Rightarrow> addr list \<Rightarrow> libelf \<Rightarrow> libelf option" where
  "release_datas raw [] l = Some l"
| "release_datas raw (d # ds) l =
    do { D \<leftarrow> datas l d;
         if raw \<and> d_flags D AND LIBELF_F_DATA_MALLOCED \<noteq> 0 then None
         else do { l \<leftarrow> libelf_release_data d l; release_datas raw ds l } }"

definition libelf_release_scn :: "addr \<Rightarrow> libelf \<Rightarrow> libelf option" where
  "libelf_release_scn s l =
    (if s = NULL then None
     else do {
       S \<leftarrow> scns l s;
       l \<leftarrow> release_datas False (s_data S) l;
       l \<leftarrow> release_datas True (s_rawdata S) l;
       let e = s_elf S;
       if e = NULL then None
       else do {
         E \<leftarrow> elfs l e;
         if s \<notin> set (e_scn E) then None
         else let l = upd_elf e (\<lambda>E. E\<lparr>e_scn := remove1 s (e_scn E)\<rparr>) l in
         Some (l\<lparr>scns := (scns l)(s := None)\<rparr>) } })"

section \<open>Globals\<close>

text \<open>The initial values of \<open>elf.c\<close>; the byte order is set by \<open>elf_version\<close>.\<close>

definition elf_version :: "nat \<Rightarrow> libelf \<Rightarrow> nat \<times> libelf" where
  "elf_version v l =
    (let l = l\<lparr>libelf_byteorder := (if host_be l then ELFDATA2MSB else ELFDATA2LSB)\<rparr>;
         old = libelf_version l;
         old = (if old = EV_NONE then EV_CURRENT else old)
     in if v = EV_NONE then (old, l)
     else if v > EV_CURRENT then (EV_NONE, LIBELF_SET_ERROR ELF_E_VERSION 0 l)
     else (old, l\<lparr>libelf_version := v\<rparr>))"

definition elf_errno :: "libelf \<Rightarrow> Elf_Error \<times> libelf" where
  "elf_errno l = (libelf_error l, l\<lparr>libelf_error := ELF_E_NONE, libelf_oserror := 0\<rparr>)"

definition elf_fill :: "int \<Rightarrow> libelf \<Rightarrow> libelf" where
  "elf_fill fill l = l\<lparr>libelf_fillchar := fill\<rparr>"

section \<open>Queries\<close>

definition elf_kind :: "addr \<Rightarrow> libelf \<Rightarrow> Elf_Kind option" where
  "elf_kind e l =
    (if e = NULL then Some ELF_K_NONE
     else do {
       E \<leftarrow> elfs l e;
       Some (if e_kind E = ELF_K_AR \<or> e_kind E = ELF_K_ELF then e_kind E else ELF_K_NONE) })"

definition gelf_getclass :: "addr \<Rightarrow> libelf \<Rightarrow> int option" where
  "gelf_getclass e l = (if e \<noteq> NULL then map_option e_class (elfs l e) else Some ELFCLASSNONE)"

definition gelf_fsize :: "addr \<Rightarrow> Elf_Type \<Rightarrow> nat \<Rightarrow> nat \<Rightarrow> libelf \<Rightarrow> (nat \<times> libelf) option" where
  "gelf_fsize e t c v l =
    (if e = NULL then Some (0, LIBELF_SET_ERROR ELF_E_ARGUMENT 0 l)
     else do {
       E \<leftarrow> elfs l e;
       if e_class E = ELFCLASS32 \<or> e_class E = ELFCLASS64 then
         (case libelf_fsize t (e_class E) v c of
            (sz, None) \<Rightarrow> Some (sz, l)
          | (sz, Some err) \<Rightarrow> Some (sz, LIBELF_SET_ERROR err 0 l))
       else Some (0, LIBELF_SET_ERROR ELF_E_ARGUMENT 0 l) })"

definition elf_getbase :: "addr \<Rightarrow> libelf \<Rightarrow> (int \<times> libelf) option" where
  "elf_getbase e l =
    (if e = NULL then Some (-1, LIBELF_SET_ERROR ELF_E_ARGUMENT 0 l)
     else do {
       E \<leftarrow> elfs l e;
       if e_parent E = NULL then Some (0, l)
       else do { P \<leftarrow> elfs l (e_parent E); Some (int (e_rawfile E) - int (e_rawfile P), l) } })"

abbreviation (input) SARMAG :: nat where "SARMAG \<equiv> 8"

text \<open>Returns the address, the value stored through \<open>sz\<close> and the state.\<close>

definition elf_getident :: "addr \<Rightarrow> libelf \<Rightarrow> (addr \<times> nat \<times> libelf) option" where
  "elf_getident e l =
    (if e = NULL then Some (NULL, 0, LIBELF_SET_ERROR ELF_E_ARGUMENT 0 l)
     else do {
       E \<leftarrow> elfs l e;
       if e_cmd E = ELF_C_WRITE \<and> e_rawfile E = NULL then
         Some (NULL, 0, LIBELF_SET_ERROR ELF_E_SEQUENCE 0 l)
       else if \<not> (e_kind E \<noteq> ELF_K_AR \<or> e_cmd E = ELF_C_READ) then None
       else Some (e_rawfile E,
         if e_kind E = ELF_K_AR then SARMAG else if e_kind E = ELF_K_ELF then EI_NIDENT else e_rawsize E, l) })"

definition elf_rawfile :: "addr \<Rightarrow> libelf \<Rightarrow> (addr \<times> nat \<times> libelf) option" where
  "elf_rawfile e l =
    (if e = NULL then Some (NULL, 0, LIBELF_SET_ERROR ELF_E_ARGUMENT 0 l)
     else do {
       E \<leftarrow> elfs l e;
       Some (e_rawfile E, e_rawsize E,
         if e_rawfile E = NULL \<and> e_cmd E = ELF_C_WRITE then LIBELF_SET_ERROR ELF_E_SEQUENCE 0 l else l) })"

definition elf_cntl :: "addr \<Rightarrow> Elf_Cmd \<Rightarrow> libelf \<Rightarrow> (int \<times> libelf) option" where
  "elf_cntl e c l =
    (if e = NULL \<or> (c \<noteq> ELF_C_FDDONE \<and> c \<noteq> ELF_C_FDREAD) then
       Some (-1, LIBELF_SET_ERROR ELF_E_ARGUMENT 0 l)
     else do {
       E \<leftarrow> elfs l e;
       if e_parent E \<noteq> NULL then Some (-1, LIBELF_SET_ERROR ELF_E_ARCHIVE 0 l)
       else if c = ELF_C_FDREAD then
         (if e_cmd E = ELF_C_WRITE then Some (-1, LIBELF_SET_ERROR ELF_E_MODE 0 l) else Some (0, l))
       else Some (0, upd_elf e (\<lambda>E. E\<lparr>e_fd := -1\<rparr>) l) })"

section \<open>Flags\<close>

definition set_clr :: "Elf_Cmd \<Rightarrow> flags \<Rightarrow> flags \<Rightarrow> flags" where
  "set_clr c flags old = (if c = ELF_C_SET then old OR flags else old AND NOT flags)"

definition elf_flagarhdr :: "addr \<Rightarrow> Elf_Cmd \<Rightarrow> flags \<Rightarrow> libelf \<Rightarrow> (flags \<times> libelf) option" where
  "elf_flagarhdr a c flags l =
    (if a = NULL then Some (0, l)
     else if (c \<noteq> ELF_C_SET \<and> c \<noteq> ELF_C_CLR) \<or> flags AND NOT ELF_F_DIRTY \<noteq> 0 then
       Some (0, LIBELF_SET_ERROR ELF_E_ARGUMENT 0 l)
     else do {
       A \<leftarrow> arhdrs l a;
       let r = set_clr c flags (ar_flags A);
       Some (r, l\<lparr>arhdrs := (arhdrs l)(a \<mapsto> A\<lparr>ar_flags := r\<rparr>)\<rparr>) })"

definition elf_flagdata :: "addr \<Rightarrow> Elf_Cmd \<Rightarrow> flags \<Rightarrow> libelf \<Rightarrow> (flags \<times> libelf) option" where
  "elf_flagdata d c flags l =
    (if d = NULL then Some (0, l)
     else if c \<noteq> ELF_C_SET \<and> c \<noteq> ELF_C_CLR then Some (0, LIBELF_SET_ERROR ELF_E_ARGUMENT 0 l)
     else do {
       D \<leftarrow> datas l d;
       if d_scn D = NULL then Some (0, LIBELF_SET_ERROR ELF_E_ARGUMENT 0 l)
       else do {
         S \<leftarrow> scns l (d_scn D);
         if s_elf S = NULL then Some (0, LIBELF_SET_ERROR ELF_E_ARGUMENT 0 l)
         else do {
           E \<leftarrow> elfs l (s_elf S);
           if e_kind E \<noteq> ELF_K_ELF \<or> flags AND NOT ELF_F_DIRTY \<noteq> 0 then
             Some (0, LIBELF_SET_ERROR ELF_E_ARGUMENT 0 l)
           else
             let r = set_clr c flags (s_flags S)
             in Some (r, upd_scn (d_scn D) (\<lambda>S. S\<lparr>s_flags := r\<rparr>) l) } } })"

definition elf_flagelf :: "addr \<Rightarrow> Elf_Cmd \<Rightarrow> flags \<Rightarrow> libelf \<Rightarrow> (flags \<times> libelf) option" where
  "elf_flagelf e c flags l =
    (if e = NULL then Some (0, l)
     else do {
       E \<leftarrow> elfs l e;
       if (c \<noteq> ELF_C_SET \<and> c \<noteq> ELF_C_CLR) \<or> e_kind E \<noteq> ELF_K_ELF \<or>
          flags AND NOT (ELF_F_ARCHIVE OR ELF_F_ARCHIVE_SYSV OR ELF_F_DIRTY OR ELF_F_LAYOUT) \<noteq> 0 then
         Some (0, LIBELF_SET_ERROR ELF_E_ARGUMENT 0 l)
       else if flags AND ELF_F_ARCHIVE_SYSV \<noteq> 0 \<and> flags AND ELF_F_ARCHIVE = 0 then
         Some (0, LIBELF_SET_ERROR ELF_E_ARGUMENT 0 l)
       else if flags AND ELF_F_ARCHIVE \<noteq> 0 \<and> e_cmd E \<noteq> ELF_C_WRITE then
         Some (0, LIBELF_SET_ERROR ELF_E_MODE 0 l)
       else
         let r = set_clr c flags (e_elf_flags E)
         in Some (r, upd_elf e (\<lambda>E. E\<lparr>e_elf_flags := r\<rparr>) l) })"

text \<open>\<open>elf_flagehdr\<close> and \<open>elf_flagphdr\<close> differ in the pointer they want to be set.\<close>

definition flaghdr :: "(Elf \<Rightarrow> addr) \<Rightarrow> addr \<Rightarrow> Elf_Cmd \<Rightarrow> flags \<Rightarrow> libelf \<Rightarrow> (flags \<times> libelf) option" where
  "flaghdr hdr e c flags l =
    (if e = NULL then Some (0, l)
     else do {
       E \<leftarrow> elfs l e;
       if (c \<noteq> ELF_C_SET \<and> c \<noteq> ELF_C_CLR) \<or> e_kind E \<noteq> ELF_K_ELF \<or> flags AND NOT ELF_F_DIRTY \<noteq> 0 \<or>
          (e_class E \<noteq> ELFCLASS32 \<and> e_class E \<noteq> ELFCLASS64) then
         Some (0, LIBELF_SET_ERROR ELF_E_ARGUMENT 0 l)
       else if hdr E = NULL then Some (0, LIBELF_SET_ERROR ELF_E_SEQUENCE 0 l)
       else elf_flagelf e c flags l })"

definition elf_flagehdr :: "addr \<Rightarrow> Elf_Cmd \<Rightarrow> flags \<Rightarrow> libelf \<Rightarrow> (flags \<times> libelf) option" where
  "elf_flagehdr = flaghdr e_ehdr"

definition elf_flagphdr :: "addr \<Rightarrow> Elf_Cmd \<Rightarrow> flags \<Rightarrow> libelf \<Rightarrow> (flags \<times> libelf) option" where
  "elf_flagphdr = flaghdr e_phdr"

definition elf_flagscn :: "addr \<Rightarrow> Elf_Cmd \<Rightarrow> flags \<Rightarrow> libelf \<Rightarrow> (flags \<times> libelf) option" where
  "elf_flagscn s c flags l =
    (if s = NULL then Some (0, l)
     else if (c \<noteq> ELF_C_SET \<and> c \<noteq> ELF_C_CLR) \<or> flags AND NOT ELF_F_DIRTY \<noteq> 0 then
       Some (0, LIBELF_SET_ERROR ELF_E_ARGUMENT 0 l)
     else do {
       S \<leftarrow> scns l s;
       let r = set_clr c flags (s_flags S);
       Some (r, upd_scn s (\<lambda>S. S\<lparr>s_flags := r\<rparr>) l) })"

definition elf_flagshdr :: "addr \<Rightarrow> Elf_Cmd \<Rightarrow> flags \<Rightarrow> libelf \<Rightarrow> (flags \<times> libelf) option" where
  "elf_flagshdr s c flags l = elf_flagscn s c flags l"

end
