(* ===== verification/Libelf_Xlate.thy ===== *)
theory Libelf_Xlate
  imports Libelf_State
begin

text \<open>
  The translation functions of the API, \<open>libelf_xlate.c\<close> and \<open>gelf_xlate.c\<close>: the checks on the
  two data descriptors around the converters of \<open>Libelf_Translator\<close>.
\<close>

section \<open>Definitions\<close>

definition set_error_option :: "Elf_Error option \<Rightarrow> libelf \<Rightarrow> libelf" where
  "set_error_option err l = (case err of None \<Rightarrow> l | Some E \<Rightarrow> LIBELF_SET_ERROR E 0 l)"

text \<open>The end of \<open>_libelf_xlate\<close>, from the check of the source size on.\<close>

definition libelf_xlate_objects :: "addr \<Rightarrow> Elf_Data \<Rightarrow> Elf_Data \<Rightarrow> nat \<Rightarrow> int \<Rightarrow> direction \<Rightarrow> nat \<Rightarrow> nat \<Rightarrow>
    libelf \<Rightarrow> (addr \<times> libelf) option" where
  "libelf_xlate_objects dst D S encoding elfclass direction fsz msz l =
    (if d_size S mod (if direction = ELF_TOMEMORY then fsz else msz) \<noteq> 0 then
       Some (NULL, LIBELF_SET_ERROR ELF_E_DATA 0 l)
     else let
       cnt = (if direction = ELF_TOMEMORY then d_size S div fsz else d_size S div msz);
       dsz = (if direction = ELF_TOMEMORY then u64 (cnt * msz) else u64 (cnt * fsz))
     in if d_size D < dsz then Some (NULL, LIBELF_SET_ERROR ELF_E_DATA 0 l)
     else let
       sb = d_buf S;
       se = u64 (sb + d_size S);
       db = d_buf D;
       de = u64 (db + d_size D)
     in if db \<noteq> sb \<and> de > sb \<and> se > db then Some (NULL, LIBELF_SET_ERROR ELF_E_DATA 0 l)
     else if libelf_malign (d_type S) elfclass = 0 then None
     else if (if direction = ELF_TOMEMORY then db else sb) mod libelf_malign (d_type S) elfclass \<noteq> 0 then
       Some (NULL, LIBELF_SET_ERROR ELF_E_DATA 0 l)
     else let
       l = upd_data dst (\<lambda>D. D\<lparr>d_type := d_type S, d_size := dsz\<rparr>) l;
       byteswap = (encoding \<noteq> libelf_byteorder l)
     in if d_size S = 0 \<or> (db = sb \<and> \<not> byteswap \<and> fsz = msz) then Some (dst, l)
     else do {
       xlator \<leftarrow> libelf_get_translator (d_type S) direction elfclass;
       f \<leftarrow> xlator;
       (m, ok) \<leftarrow> f (host_be l) (mem l) db dsz sb cnt byteswap;
       let l = set_mem m l;
       if \<not> ok then Some (NULL, LIBELF_SET_ERROR ELF_E_DATA 0 l)
       else Some (dst, l) })"

definition libelf_xlate :: "addr \<Rightarrow> addr \<Rightarrow> nat \<Rightarrow> int \<Rightarrow> direction \<Rightarrow> libelf \<Rightarrow> (addr \<times> libelf) option" where
  "libelf_xlate dst src encoding elfclass direction l =
    (let encoding = (if encoding = ELFDATANONE then libelf_byteorder l else encoding)
     in if (encoding \<noteq> ELFDATA2LSB \<and> encoding \<noteq> ELFDATA2MSB) \<or> dst = NULL \<or> src = NULL \<or> dst = src then
       Some (NULL, LIBELF_SET_ERROR ELF_E_ARGUMENT 0 l)
     else if \<not> (elfclass = ELFCLASS32 \<or> elfclass = ELFCLASS64) then None
     else do {
       D \<leftarrow> datas l dst;
       S \<leftarrow> datas l src;
       if d_version D \<noteq> d_version S then Some (NULL, LIBELF_SET_ERROR ELF_E_UNIMPL 0 l)
       else if d_buf S = NULL \<or> d_buf D = NULL then Some (NULL, LIBELF_SET_ERROR ELF_E_DATA 0 l)
       else if d_type S = ELF_T_NUM then Some (NULL, LIBELF_SET_ERROR ELF_E_DATA 0 l)
       else let
         (fsz, err) = (if elfclass = ELFCLASS32 then elf32_fsize (d_type S) 1 (d_version S)
                       else elf64_fsize (d_type S) 1 (d_version S));
         l = set_error_option err l
       in if fsz = 0 then Some (NULL, l)
       else do {
         (msz, err) \<leftarrow> libelf_msize (d_type S) elfclass (d_version S);
         let l = set_error_option err l;
         if msz = 0 then None
         else libelf_xlate_objects dst D S encoding elfclass direction fsz msz l } })"

definition elf32_xlatetof :: "addr \<Rightarrow> addr \<Rightarrow> nat \<Rightarrow> libelf \<Rightarrow> (addr \<times> libelf) option" where
  "elf32_xlatetof dst src encoding l = libelf_xlate dst src encoding ELFCLASS32 ELF_TOFILE l"

definition elf64_xlatetof :: "addr \<Rightarrow> addr \<Rightarrow> nat \<Rightarrow> libelf \<Rightarrow> (addr \<times> libelf) option" where
  "elf64_xlatetof dst src encoding l = libelf_xlate dst src encoding ELFCLASS64 ELF_TOFILE l"

definition elf32_xlatetom :: "addr \<Rightarrow> addr \<Rightarrow> nat \<Rightarrow> libelf \<Rightarrow> (addr \<times> libelf) option" where
  "elf32_xlatetom dst src encoding l = libelf_xlate dst src encoding ELFCLASS32 ELF_TOMEMORY l"

definition elf64_xlatetom :: "addr \<Rightarrow> addr \<Rightarrow> nat \<Rightarrow> libelf \<Rightarrow> (addr \<times> libelf) option" where
  "elf64_xlatetom dst src encoding l = libelf_xlate dst src encoding ELFCLASS64 ELF_TOMEMORY l"

definition gelf_xlatetom :: "addr \<Rightarrow> addr \<Rightarrow> addr \<Rightarrow> nat \<Rightarrow> libelf \<Rightarrow> (addr \<times> libelf) option" where
  "gelf_xlatetom e dst src encoding l =
    (if e \<noteq> NULL then do { E \<leftarrow> elfs l e; libelf_xlate dst src encoding (e_class E) ELF_TOMEMORY l }
     else Some (NULL, LIBELF_SET_ERROR ELF_E_ARGUMENT 0 l))"

definition gelf_xlatetof :: "addr \<Rightarrow> addr \<Rightarrow> addr \<Rightarrow> nat \<Rightarrow> libelf \<Rightarrow> (addr \<times> libelf) option" where
  "gelf_xlatetof e dst src encoding l =
    (if e \<noteq> NULL then do { E \<leftarrow> elfs l e; libelf_xlate dst src encoding (e_class E) ELF_TOFILE l }
     else Some (NULL, LIBELF_SET_ERROR ELF_E_ARGUMENT 0 l))"

section \<open>Lemmas\<close>

lemma set_error_option_simps [simp]:
  "set_error_option None l = l" "set_error_option (Some E) l = LIBELF_SET_ERROR E 0 l"
  by (simp_all add: set_error_option_def)

lemma set_error_simps [simp]:
  "mem (LIBELF_SET_ERROR E n l) = mem l" "datas (LIBELF_SET_ERROR E n l) = datas l"
  "elfs (LIBELF_SET_ERROR E n l) = elfs l" "scns (LIBELF_SET_ERROR E n l) = scns l"
  "libelf_error (LIBELF_SET_ERROR E n l) = E" "libelf_byteorder (LIBELF_SET_ERROR E n l) = libelf_byteorder l"
  "host_be (LIBELF_SET_ERROR E n l) = host_be l" "libelf_version (LIBELF_SET_ERROR E n l) = libelf_version l"
  by (simp_all add: LIBELF_SET_ERROR_def)

lemma upd_data_simps [simp]:
  "mem (upd_data d f l) = mem l" "elfs (upd_data d f l) = elfs l" "scns (upd_data d f l) = scns l"
  "libelf_byteorder (upd_data d f l) = libelf_byteorder l" "host_be (upd_data d f l) = host_be l"
  "datas (upd_data d f l) = (datas l)(d := map_option f (datas l d))"
  "libelf_error (upd_data d f l) = libelf_error l"
  by (simp_all add: upd_data_def)

lemma set_mem_simps [simp]:
  "mem (set_mem m l) = m" "datas (set_mem m l) = datas l" "elfs (set_mem m l) = elfs l"
  "scns (set_mem m l) = scns l" "libelf_byteorder (set_mem m l) = libelf_byteorder l"
  "host_be (set_mem m l) = host_be l" "libelf_error (set_mem m l) = libelf_error l"
  by (simp_all add: set_mem_def)

lemma elf_fsize_class:
  assumes "ec = ELFCLASS32 \<or> ec = ELFCLASS64" "t \<noteq> ELF_T_NUM"
  shows "(if ec = ELFCLASS32 then elf32_fsize t 1 v else elf64_fsize t 1 v) =
    (if v = EV_CURRENT then (fsz_of t ec, if fsz_of t ec = 0 then Some ELF_E_UNIMPL else None)
     else (0, Some ELF_E_VERSION))"
proof -
  have "fsz_of t ec < 18446744073709551616" using fsz_bound [of t ec] by linarith
  then show ?thesis
    using assms by (auto simp: elf32_fsize_def elf64_fsize_def libelf_fsize_def fsz_of_def Let_def)
qed

text \<open>A converter of the table returns unless it is the converter of notes to the file format.\<close>

lemma cvt_total:
  assumes "t \<noteq> ELF_T_NOTE"
  shows "tof32 (cvt t) = Some f \<Longrightarrow> \<exists>g. f = total g" "tof64 (cvt t) = Some f \<Longrightarrow> \<exists>g. f = total g"
    and "tom32 (cvt t) = Some f \<Longrightarrow> \<exists>g. f = total g" "tom64 (cvt t) = Some f \<Longrightarrow> \<exists>g. f = total g"
  using assms by (cases t; simp; blast)+

lemma translator_returns:
  assumes "libelf_get_translator t d ec = Some (Some f)" "\<not> (t = ELF_T_NOTE \<and> d = ELF_TOFILE)"
  shows "f be m dst dsz src cnt byteswap \<noteq> None"
proof -
  have "\<exists>g. f = total g"
  proof (cases "t = ELF_T_NOTE")
    case True
    with assms show ?thesis by (cases d) (auto simp: libelf_get_translator_def split: if_splits)
  next
    case False
    with assms(1) show ?thesis
      by (auto simp: libelf_get_translator_def split: if_splits intro: cvt_total)
  qed
  then show ?thesis by (auto simp: total_def)
qed

lemma if_not_None: "(c \<Longrightarrow> a \<noteq> None) \<Longrightarrow> (\<not> c \<Longrightarrow> b \<noteq> None) \<Longrightarrow> (if c then a else b) \<noteq> None"
  by simp

text \<open>With a current descriptor of a type that has a file size, the checks reduce to a few.\<close>

lemma libelf_xlate_current:
  assumes "datas l dst = Some D" "datas l src = Some S"
    and "ec = ELFCLASS32 \<or> ec = ELFCLASS64" "d_type S \<noteq> ELF_T_NUM" "d_version S = EV_CURRENT"
    and "fsz_of (d_type S) ec \<noteq> 0"
  shows "libelf_xlate dst src encoding ec dir l =
    (let enc = (if encoding = ELFDATANONE then libelf_byteorder l else encoding)
     in if (enc \<noteq> ELFDATA2LSB \<and> enc \<noteq> ELFDATA2MSB) \<or> dst = NULL \<or> src = NULL \<or> dst = src then
       Some (NULL, LIBELF_SET_ERROR ELF_E_ARGUMENT 0 l)
     else if d_version D \<noteq> d_version S then Some (NULL, LIBELF_SET_ERROR ELF_E_UNIMPL 0 l)
     else if d_buf S = NULL \<or> d_buf D = NULL then Some (NULL, LIBELF_SET_ERROR ELF_E_DATA 0 l)
     else libelf_xlate_objects dst D S enc ec dir (fsz_of (d_type S) ec) (msz_of (d_type S) ec) l)"
proof -
  have m: "libelf_msize (d_type S) ec (d_version S) = Some (msz_of (d_type S) ec, None)"
    unfolding assms(5) by (rule libelf_msize_current [OF assms(3,4)])
  show ?thesis
    unfolding libelf_xlate_def assms(1,2) bind.bind_lunit elf_fsize_class [OF assms(3,4)] m
    using assms(3-6) malign_msize_pos(2) [OF assms(3,6)] by (simp add: Let_def)
qed

lemma libelf_xlate_not_current:
  assumes "datas l dst = Some D" "datas l src = Some S"
    and "ec = ELFCLASS32 \<or> ec = ELFCLASS64" "d_type S = ELF_T_NUM \<or> d_version S \<noteq> EV_CURRENT \<or> fsz_of (d_type S) ec = 0"
  shows "\<exists>E. libelf_xlate dst src encoding ec dir l = Some (NULL, LIBELF_SET_ERROR E 0 l)"
proof (cases "d_type S = ELF_T_NUM")
  case True
  then show ?thesis unfolding libelf_xlate_def assms(1,2) bind.bind_lunit using assms(3) by (auto simp: Let_def)
next
  case False
  with assms(4) show ?thesis
    unfolding libelf_xlate_def assms(1,2) bind.bind_lunit elf_fsize_class [OF assms(3) False]
    using assms(3) by (auto simp: Let_def)
qed

lemma set_mem_id [simp]: "mem l = m \<Longrightarrow> set_mem m l = l"
  by (auto simp: set_mem_def)

text \<open>The buffers of two descriptors are the same or separate, and end inside the address space.\<close>

definition buffers_ok :: "Elf_Data \<Rightarrow> Elf_Data \<Rightarrow> bool" where
  "buffers_ok D S \<longleftrightarrow> (d_buf D = d_buf S \<or> disjoint_ranges (d_buf D) (d_size D) (d_buf S) (d_size S)) \<and>
     d_buf S + d_size S < 2 ^ 64 \<and> d_buf D + d_size D < 2 ^ 64 \<and> d_buf D \<noteq> NULL \<and> d_buf S \<noteq> NULL"

lemma buffers_ok_check:
  "buffers_ok D S \<Longrightarrow> \<not> (d_buf D \<noteq> d_buf S \<and> u64 (d_buf D + d_size D) > d_buf S \<and> u64 (d_buf S + d_size S) > d_buf D)"
  by (auto simp: buffers_ok_def disjoint_ranges_def)

lemma buffers_ok_ranges:
  "buffers_ok D S \<Longrightarrow> a \<le> d_size D \<Longrightarrow> b \<le> d_size S \<Longrightarrow>
     d_buf D = d_buf S \<or> disjoint_ranges (d_buf D) a (d_buf S) b"
  by (auto simp: buffers_ok_def disjoint_ranges_def)

lemma libelf_xlate_run:
  assumes "datas l dst = Some D" "datas l src = Some S"
    and "ec = ELFCLASS32 \<or> ec = ELFCLASS64" "d_type S \<noteq> ELF_T_NUM" "d_version S = EV_CURRENT"
    and "fsz_of (d_type S) ec \<noteq> 0" "enc = ELFDATA2LSB \<or> enc = ELFDATA2MSB"
    and "dst \<noteq> NULL" "src \<noteq> NULL" "dst \<noteq> src" "d_version D = EV_CURRENT" "buffers_ok D S"
  shows "libelf_xlate dst src enc ec dir l =
    libelf_xlate_objects dst D S enc ec dir (fsz_of (d_type S) ec) (msz_of (d_type S) ec) l"
proof -
  have "enc \<noteq> ELFDATANONE" "(enc \<noteq> ELFDATA2LSB \<and> enc \<noteq> ELFDATA2MSB) = False" using assms(7) by auto
  moreover have "d_buf S \<noteq> NULL" "d_buf D \<noteq> NULL" using assms(12) by (auto simp: buffers_ok_def)
  ultimately show ?thesis
    unfolding libelf_xlate_current [OF assms(1-6)] Let_def
    by (simp only: assms(5,8-11) if_False simp_thms)
qed

lemma xlate_objects_tom:
  assumes tr: "elf_translator f g fsz msz flip"
    and "libelf_get_translator (d_type S) ELF_TOMEMORY ec = Some (Some (total g))"
    and sz: "d_size S = n * fsz" "n * msz \<le> d_size D" "n * msz < 2 ^ 64" and b: "buffers_ok D S"
    and al: "0 < libelf_malign (d_type S) ec" "libelf_malign (d_type S) ec dvd d_buf D"
  shows "\<exists>m'. libelf_xlate_objects dst D S enc ec ELF_TOMEMORY fsz msz l =
      Some (dst, set_mem m' (upd_data dst (\<lambda>D. D\<lparr>d_type := d_type S, d_size := n * msz\<rparr>) l)) \<and>
    (\<forall>i<n. bytes_at m' (d_buf D + i * msz) fsz =
      (if enc \<noteq> libelf_byteorder l then flip (bytes_at (mem l) (d_buf S + i * fsz) fsz)
       else bytes_at (mem l) (d_buf S + i * fsz) fsz))"
proof -
  let ?bs = "enc \<noteq> libelf_byteorder l"
  have fsz: "0 < fsz" "fsz \<le> msz" using elf_translator.sizes [OF tr] .
  have n: "d_size S mod fsz = 0" "d_size S div fsz = n" "d_size S = 0 \<longleftrightarrow> n = 0" using sz(1) fsz by auto
  obtain m' where m': "g (host_be l) (mem l) (d_buf D) (n * msz) (d_buf S) n ?bs = (m', True)"
    and o: "\<forall>i<n. bytes_at m' (d_buf D + i * msz) fsz =
      (if ?bs then flip (bytes_at (mem l) (d_buf S + i * fsz) fsz) else bytes_at (mem l) (d_buf S + i * fsz) fsz)"
    using elf_translator.tom_converts [OF tr le_refl buffers_ok_ranges [OF b] sz(3), of "host_be l" "mem l" ?bs]
      sz(1,2) by auto
  let ?skip = "d_size S = 0 \<or> (d_buf D = d_buf S \<and> \<not> ?bs \<and> fsz = msz)"
  have "libelf_xlate_objects dst D S enc ec ELF_TOMEMORY fsz msz l =
      Some (dst, set_mem (if ?skip then mem l else m') (upd_data dst (\<lambda>D. D\<lparr>d_type := d_type S, d_size := n * msz\<rparr>) l))"
    using n sz(2,3) al assms(2) m'
    by (simp add: libelf_xlate_objects_def Let_def total_def mod_eq_0_iff_dvd buffers_ok_check [OF b])
  moreover have "bytes_at (if ?skip then mem l else m') (d_buf D + i * msz) fsz =
      (if ?bs then flip (bytes_at (mem l) (d_buf S + i * fsz) fsz) else bytes_at (mem l) (d_buf S + i * fsz) fsz)"
    if "i < n" for i using that o n(3) by auto
  ultimately show ?thesis by blast
qed

lemma xlate_objects_tof:
  assumes tr: "elf_translator f g fsz msz flip"
    and "libelf_get_translator (d_type S) ELF_TOFILE ec = Some (Some (total f))"
    and sz: "d_size S = n * msz" "n * fsz \<le> d_size D" "n * msz < 2 ^ 64" and b: "buffers_ok D S"
    and al: "0 < libelf_malign (d_type S) ec" "libelf_malign (d_type S) ec dvd d_buf S"
  shows "\<exists>m'. libelf_xlate_objects dst D S enc ec ELF_TOFILE fsz msz l =
      Some (dst, set_mem m' (upd_data dst (\<lambda>D. D\<lparr>d_type := d_type S, d_size := n * fsz\<rparr>) l)) \<and>
    (\<forall>i<n. bytes_at m' (d_buf D + i * fsz) fsz =
      (if enc \<noteq> libelf_byteorder l then flip (bytes_at (mem l) (d_buf S + i * msz) fsz)
       else bytes_at (mem l) (d_buf S + i * msz) fsz))"
proof -
  let ?bs = "enc \<noteq> libelf_byteorder l"
  have fsz: "0 < fsz" "fsz \<le> msz" using elf_translator.sizes [OF tr] .
  have n: "d_size S mod msz = 0" "d_size S div msz = n" "d_size S = 0 \<longleftrightarrow> n = 0" using sz(1) fsz by auto
  have "n * fsz \<le> n * msz" using fsz by simp
  with sz(3) have nf: "n * fsz < 2 ^ 64" by linarith
  obtain m' where m': "f (host_be l) (mem l) (d_buf D) (n * fsz) (d_buf S) n ?bs = (m', True)"
    and o: "\<forall>i<n. bytes_at m' (d_buf D + i * fsz) fsz =
      (if ?bs then flip (bytes_at (mem l) (d_buf S + i * msz) fsz) else bytes_at (mem l) (d_buf S + i * msz) fsz)"
    using elf_translator.tof_converts [OF tr buffers_ok_ranges [OF b] sz(3), of "host_be l" "mem l" "n * fsz" ?bs]
      sz(1,2) by auto
  let ?skip = "d_size S = 0 \<or> (d_buf D = d_buf S \<and> \<not> ?bs \<and> fsz = msz)"
  have "libelf_xlate_objects dst D S enc ec ELF_TOFILE fsz msz l =
      Some (dst, set_mem (if ?skip then mem l else m') (upd_data dst (\<lambda>D. D\<lparr>d_type := d_type S, d_size := n * fsz\<rparr>) l))"
    using n sz(2) nf al assms(2) m'
    by (simp add: libelf_xlate_objects_def Let_def total_def mod_eq_0_iff_dvd buffers_ok_check [OF b])
  moreover have "bytes_at (if ?skip then mem l else m') (d_buf D + i * fsz) fsz =
      (if ?bs then flip (bytes_at (mem l) (d_buf S + i * msz) fsz) else bytes_at (mem l) (d_buf S + i * msz) fsz)"
    if "i < n" for i using that o n(3) by auto
  ultimately show ?thesis by blast
qed

text \<open>A state with the given memory and data descriptors, for examples.\<close>

definition data_at :: "addr \<Rightarrow> nat \<Rightarrow> Elf_Type \<Rightarrow> Elf_Data" where
  "data_at buf sz t = \<lparr>d_align = 1, d_buf = buf, d_off = 0, d_size = sz, d_type = t, d_version = EV_CURRENT,
     d_scn = NULL, d_flags = 0\<rparr>"

definition xlate_state :: "memory \<Rightarrow> (addr \<times> Elf_Data) list \<Rightarrow> libelf" where
  "xlate_state m ds = \<lparr>host_be = False, libelf_byteorder = ELFDATA2LSB, libelf_error = ELF_E_NONE,
     libelf_oserror = 0, libelf_fillchar = 0, libelf_version = EV_CURRENT, mem = m, heap_next = 65536,
     heap_limit = 1048576, elfs = Map.empty, scns = Map.empty, datas = map_of ds, arhdrs = Map.empty,
     files = Map.empty, os_errno = 0\<rparr>"

section \<open>Properties\<close>

text \<open>
  C20. A translation between two existing data descriptors never aborts, whatever their
  contents: its assertion on the size in memory, the division by the alignment and the call
  through the converter table are all safe.  The one exception is the conversion of notes to
  the file format, which may not return.
\<close>

theorem libelf_xlate_safe:
  assumes "datas l dst = Some D" "datas l src = Some S"
    and "ec = ELFCLASS32 \<or> ec = ELFCLASS64"
    and "\<not> (d_type S = ELF_T_NOTE \<and> dir = ELF_TOFILE)"
  shows "libelf_xlate dst src encoding ec dir l \<noteq> None"
proof (cases "d_type S = ELF_T_NUM \<or> d_version S \<noteq> EV_CURRENT \<or> fsz_of (d_type S) ec = 0")
  case True
  then show ?thesis using libelf_xlate_not_current [OF assms(1-3) True, of encoding dir] by auto
next
  case False
  then have f: "fsz_of (d_type S) ec \<noteq> 0" by simp
  obtain xl where xl: "libelf_get_translator (d_type S) dir ec = Some (Some xl)"
    using translator_exists [OF assms(3) f] .
  have ret: "xl be m a n b c bs \<noteq> None" for be m a n b c bs
    using translator_returns [OF xl assms(4)] .
  have "libelf_xlate_objects dst D S enc ec dir fsz msz l \<noteq> None" for enc fsz msz
    unfolding libelf_xlate_objects_def Let_def
    by (intro if_not_None) (use malign_msize_pos(1) [OF assms(3) f] ret in
         \<open>auto simp: xl bind_eq_None_conv split: prod.split\<close>)
  then show ?thesis
    using False libelf_xlate_current [OF assms(1-3), of encoding dir] by (auto simp: Let_def)
qed

theorem libelf_xlate_safe_witness:
  "libelf_xlate 16 32 ELFDATANONE ELFCLASS32 ELF_TOMEMORY
     (xlate_state (\<lambda>x. of_nat x) [(16, data_at 4096 100 ELF_T_SYM), (32, data_at 8192 33 ELF_T_VDEF)]) \<noteq> None"
  using libelf_xlate_safe [of "xlate_state (\<lambda>x. of_nat x) [(16, data_at 4096 100 ELF_T_SYM), (32, data_at 8192 33 ELF_T_VDEF)]"
      16 "data_at 4096 100 ELF_T_SYM" 32 "data_at 8192 33 ELF_T_VDEF" ELFCLASS32 ELF_TOMEMORY ELFDATANONE]
  by (simp add: xlate_state_def data_at_def)

text \<open>
  C1. At the level of the API: translating the file image of any fixed-size type to memory
  and the result back to the file format, in the same or in separate buffers, succeeds and
  reproduces the image; the descriptor of the result has the type and the size of the image.
\<close>

theorem libelf_xlate_roundtrip:
  assumes "datas l src = Some S" "datas l buf = Some B" "datas l out = Some Z"
    and "src \<noteq> NULL" "buf \<noteq> NULL" "out \<noteq> NULL" "distinct [src, buf, out]"
    and "d_version S = EV_CURRENT" "d_version B = EV_CURRENT" "d_version Z = EV_CURRENT"
    and "fixed_type (d_type S)" "ec = ELFCLASS32 \<or> ec = ELFCLASS64" "fsz_of (d_type S) ec \<noteq> 0"
    and "enc = ELFDATA2LSB \<or> enc = ELFDATA2MSB"
    and "d_size S = n * fsz_of (d_type S) ec" "d_size B = n * msz_of (d_type S) ec" "d_size S \<le> d_size Z"
    and "buffers_ok B S" "buffers_ok Z B" "libelf_malign (d_type S) ec dvd d_buf B"
  shows "\<exists>l1 l2 Z'. libelf_xlate buf src enc ec ELF_TOMEMORY l = Some (buf, l1) \<and>
    libelf_xlate out buf enc ec ELF_TOFILE l1 = Some (out, l2) \<and>
    bytes_at (mem l2) (d_buf Z) (d_size S) = bytes_at (mem l) (d_buf S) (d_size S) \<and>
    datas l2 out = Some Z' \<and> d_type Z' = d_type S \<and> d_size Z' = d_size S"
proof -
  let ?f = "fsz_of (d_type S) ec" and ?m = "msz_of (d_type S) ec"
  from fixed_type_translator [OF assms(11-13)] obtain f g flip
    where tab: "libelf_get_translator (d_type S) ELF_TOFILE ec = Some (Some (total f))"
      "libelf_get_translator (d_type S) ELF_TOMEMORY ec = Some (Some (total g))"
      and tr: "elf_translator f g ?f ?m flip"
    by (auto simp: fixed_translator_def)
  have t: "d_type S \<noteq> ELF_T_NUM" using assms(11) by (auto simp: fixed_type_def)
  have al: "0 < libelf_malign (d_type S) ec" using malign_msize_pos(1) [OF assms(12,13)] .
  have nm: "n * ?m < 2 ^ 64" using assms(16,18) by (auto simp: buffers_ok_def)
  let ?l = "upd_data buf (\<lambda>D. D\<lparr>d_type := d_type S, d_size := n * ?m\<rparr>) l"
  let ?B = "B\<lparr>d_type := d_type S, d_size := n * ?m\<rparr>"
  obtain m1 where x1: "libelf_xlate_objects buf B S enc ec ELF_TOMEMORY ?f ?m l = Some (buf, set_mem m1 ?l)"
    and o1: "\<forall>i<n. bytes_at m1 (d_buf B + i * ?m) ?f =
      (if enc \<noteq> libelf_byteorder l then flip (bytes_at (mem l) (d_buf S + i * ?f) ?f)
       else bytes_at (mem l) (d_buf S + i * ?f) ?f)"
    using xlate_objects_tom [OF tr tab(2) assms(15) _ nm assms(18) al assms(20), of buf enc l] assms(16) by auto
  have c1: "libelf_xlate buf src enc ec ELF_TOMEMORY l = Some (buf, set_mem m1 ?l)"
    using libelf_xlate_run [OF assms(2,1,12) t assms(8,13,14,5,4) _ assms(9,18)] x1 assms(7) by auto
  have tB: "d_type ?B = d_type S" by simp
  have bZ: "buffers_ok Z ?B" using assms(16,19) by (simp add: buffers_ok_def)
  obtain m2 where x2: "libelf_xlate_objects out Z ?B enc ec ELF_TOFILE ?f ?m (set_mem m1 ?l) =
      Some (out, set_mem m2 (upd_data out (\<lambda>D. D\<lparr>d_type := d_type ?B, d_size := n * ?f\<rparr>) (set_mem m1 ?l)))"
    and o2: "\<forall>i<n. bytes_at m2 (d_buf Z + i * ?f) ?f =
      (if enc \<noteq> libelf_byteorder l then flip (bytes_at m1 (d_buf B + i * ?m) ?f)
       else bytes_at m1 (d_buf B + i * ?m) ?f)"
    using xlate_objects_tof [where D = Z and S = ?B and dst = out and enc = enc and l = "set_mem m1 ?l", unfolded tB,
        OF tr tab(1) _ _ nm bZ al] assms(15,17,20) by auto
  let ?l2 = "set_mem m2 (upd_data out (\<lambda>D. D\<lparr>d_type := d_type S, d_size := n * ?f\<rparr>) (set_mem m1 ?l))"
  have dB: "datas (set_mem m1 ?l) buf = Some ?B" and dZ: "datas (set_mem m1 ?l) out = Some Z"
    using assms(2,3,7) by simp_all
  have c2: "libelf_xlate out buf enc ec ELF_TOFILE (set_mem m1 ?l) = Some (out, ?l2)"
    using libelf_xlate_run [OF dZ dB assms(12) _ _ _ assms(14,6,5) _ assms(10) bZ] x2 t assms(7,9,13) by auto
  have "bytes_at m2 (d_buf Z) (n * ?f) = bytes_at (mem l) (d_buf S) (n * ?f)"
    using o1 o2 elf_translator.flip_flip [OF tr] by (intro bytes_at_chunks) simp
  then have "bytes_at (mem ?l2) (d_buf Z) (d_size S) = bytes_at (mem l) (d_buf S) (d_size S)"
    by (simp add: assms(15))
  moreover have "datas ?l2 out = Some (Z\<lparr>d_type := d_type S, d_size := n * ?f\<rparr>)" using assms(3,7) by simp
  moreover have "d_size (Z\<lparr>d_type := d_type S, d_size := n * ?f\<rparr>) = d_size S" by (simp add: assms(15))
  ultimately show ?thesis using c1 c2 by fastforce
qed

definition xlate_example :: libelf where
  "xlate_example = xlate_state (\<lambda>x. of_nat x)
     [(16, data_at 4096 40 ELF_T_MOVE), (32, data_at 8192 48 ELF_T_BYTE), (48, data_at 8192 48 ELF_T_BYTE)]"

theorem libelf_xlate_roundtrip_witness:
  "\<exists>l1 l2 Z'. libelf_xlate 32 16 ELFDATA2MSB ELFCLASS32 ELF_TOMEMORY xlate_example = Some (32, l1) \<and>
    libelf_xlate 48 32 ELFDATA2MSB ELFCLASS32 ELF_TOFILE l1 = Some (48, l2) \<and>
    bytes_at (mem l2) 8192 40 = bytes_at (mem xlate_example) 4096 40 \<and>
    datas l2 48 = Some Z' \<and> d_type Z' = ELF_T_MOVE \<and> d_size Z' = 40"
  using libelf_xlate_roundtrip [of xlate_example 16 "data_at 4096 40 ELF_T_MOVE" 32 "data_at 8192 48 ELF_T_BYTE"
      48 "data_at 8192 48 ELF_T_BYTE" ELFCLASS32 ELFDATA2MSB 2]
  by (simp add: xlate_example_def xlate_state_def data_at_def fixed_type_def fsz_of_def msz_of_def buffers_ok_def
      disjoint_ranges_def libelf_malign_def)

end
