(* ===== verification/Libelf_Open.thy ===== *)
theory Libelf_Open
  imports Libelf_Xlate
begin

text \<open>
  Opening and closing descriptors: \<open>elf_begin.c\<close>, \<open>elf_memory.c\<close>, \<open>elf_end.c\<close>, and archives
  with \<open>libelf_ar.c\<close>, \<open>libelf_ar_util.c\<close>, \<open>elf_next.c\<close> and \<open>elf_rand.c\<close>.  The files of the
  operating system are byte lists found under their descriptors; mapping a file copies it to
  a fresh block of memory.
\<close>

section \<open>Archives\<close>

text \<open>\<open>struct ar_hdr\<close> of \<open>ar.h\<close>: offsets and lengths of its character arrays.\<close>

abbreviation (input) sizeof_ar_hdr :: nat where "sizeof_ar_hdr \<equiv> 60"
abbreviation (input) off_ar_name :: nat where "off_ar_name \<equiv> 0"
abbreviation (input) off_ar_uid :: nat where "off_ar_uid \<equiv> 28"
abbreviation (input) off_ar_gid :: nat where "off_ar_gid \<equiv> 34"
abbreviation (input) off_ar_mode :: nat where "off_ar_mode \<equiv> 40"
abbreviation (input) off_ar_size :: nat where "off_ar_size \<equiv> 48"
abbreviation (input) off_ar_fmag :: nat where "off_ar_fmag \<equiv> 58"

abbreviation (input) chr_space :: byte where "chr_space \<equiv> 0x20"
abbreviation (input) chr_slash :: byte where "chr_slash \<equiv> 0x2F"
abbreviation (input) chr_0 :: byte where "chr_0 \<equiv> 0x30"
abbreviation (input) chr_9 :: byte where "chr_9 \<equiv> 0x39"
abbreviation (input) chr_backquote :: byte where "chr_backquote \<equiv> 0x60"
abbreviation (input) chr_newline :: byte where "chr_newline \<equiv> 0x0A"

definition ARMAG :: "byte list" where
  "ARMAG = [0x21, 0x3C, 0x61, 0x72, 0x63, 0x68, 0x3E, 0x0A]"

definition LIBELF_ADJUST_AR_SIZE :: "nat \<Rightarrow> nat" where
  "LIBELF_ADJUST_AR_SIZE S = unat ((of_nat (u64 (S + 1)) :: 64 word) AND 0xFFFFFFFE)"

text \<open>
  The digit loop of \<open>_libelf_ar_get_number\<close>: \<open>None\<close> for a character that is not a digit.  A
  blank or a digit outside of the base ends the number.
\<close>

primrec ar_digits :: "nat \<Rightarrow> byte list \<Rightarrow> nat \<Rightarrow> nat option" where
  "ar_digits base [] r = Some r"
| "ar_digits base (c # cs) r =
    (if c = chr_space then Some r
     else if c < chr_0 \<or> c > chr_9 then None
     else let v = unat c - unat chr_0
          in if v \<ge> base then Some r
             else ar_digits base cs (u64 (u64 (r * base) + v)))"

definition libelf_ar_get_number :: "memory \<Rightarrow> addr \<Rightarrow> nat \<Rightarrow> nat \<Rightarrow> nat option option" where
  "libelf_ar_get_number m s sz base =
    (if \<not> base \<le> 10 then None
     else Some (ar_digits base (dropWhile (\<lambda>c. c = chr_space) (bytes_at m s sz)) 0))"

text \<open>
  The loop of \<open>_libelf_ar_open\<close> over the first two members: the result is the position it
  ends at, or \<open>None\<close> inside for a malformed archive.
\<close>

primrec ar_open_loop :: "nat \<Rightarrow> addr \<Rightarrow> addr \<Rightarrow> addr \<Rightarrow> libelf \<Rightarrow> (addr option \<times> libelf) option" where
  "ar_open_loop 0 e s lim l = Some (Some s, l)"
| "ar_open_loop (Suc i) e s lim l =
    (if s + sizeof_ar_hdr > lim then Some (None, LIBELF_SET_ERROR ELF_E_ARCHIVE 0 l)
     else if mem l (s + off_ar_fmag) \<noteq> chr_backquote \<or> mem l (s + off_ar_fmag + 1) \<noteq> chr_newline then
       Some (None, LIBELF_SET_ERROR ELF_E_ARCHIVE 0 l)
     else if mem l (s + off_ar_name) \<noteq> chr_slash then Some (Some s, l)
     else do {
       n \<leftarrow> libelf_ar_get_number (mem l) (s + off_ar_size) 10 10;
       case n of
         None \<Rightarrow> Some (None, LIBELF_SET_ERROR ELF_E_ARCHIVE 0 l)
       | Some sz \<Rightarrow>
           if \<not> sz > 0 then None
           else let
             name1 = mem l (s + off_ar_name + 1);
             name2 = mem l (s + off_ar_name + 2);
             s = s + sizeof_ar_hdr;
             l = (if name1 = chr_space then upd_elf e (\<lambda>E. E\<lparr>e_rawsymtab := s, e_rawsymtabsz := sz\<rparr>) l
                  else if name1 = chr_slash \<and> name2 = chr_space then
                    upd_elf e (\<lambda>E. E\<lparr>e_rawstrtab := s, e_rawstrtabsz := sz\<rparr>) l
                  else l);
             sz = LIBELF_ADJUST_AR_SIZE sz
           in ar_open_loop i e (s + sz) lim l })"

definition libelf_ar_open :: "addr \<Rightarrow> libelf \<Rightarrow> (addr \<times> libelf) option" where
  "libelf_ar_open e l =
    do {
      E \<leftarrow> elfs l e;
      let l = upd_elf e (\<lambda>E. E\<lparr>e_kind := ELF_K_AR, e_nchildren := 0, e_next := -1\<rparr>) l;
      let s = e_rawfile E + SARMAG;
      let lim = e_rawfile E + e_rawsize E;
      if \<not> e_rawsize E > 0 then None
      else do {
        (r, l) \<leftarrow> ar_open_loop 2 e s lim l;
        case r of
          None \<Rightarrow> Some (NULL, l)
        | Some s \<Rightarrow> Some (e, upd_elf e (\<lambda>E. E\<lparr>e_next := int s - int (e_rawfile E)\<rparr>) l) } }"

section \<open>Opening\<close>

definition LIBELF_IS_ELF :: "memory \<Rightarrow> addr \<Rightarrow> bool" where
  "LIBELF_IS_ELF m P \<longleftrightarrow> m P = 0x7F \<and> m (P + 1) = 0x45 \<and> m (P + 2) = 0x4C \<and> m (P + 3) = 0x46"

definition elf_memory :: "addr \<Rightarrow> nat \<Rightarrow> libelf \<Rightarrow> (addr \<times> libelf) option" where
  "elf_memory img sz l =
    (if libelf_version l = EV_NONE then Some (NULL, LIBELF_SET_ERROR ELF_E_SEQUENCE 0 l)
     else if img = NULL \<or> sz = 0 then Some (NULL, LIBELF_SET_ERROR ELF_E_ARGUMENT 0 l)
     else let (e, l) = libelf_allocate_elf l
     in if e = NULL then Some (NULL, l)
     else let l = upd_elf e (\<lambda>E. E\<lparr>e_cmd := ELF_C_READ, e_rawfile := img, e_rawsize := sz\<rparr>) l
     in if sz > EI_NIDENT \<and> LIBELF_IS_ELF (mem l) img then
       do {
         l \<leftarrow> libelf_init_elf e ELF_K_ELF l;
         let cls = int (unat (mem l (img + EI_CLASS)));
         let dat = unat (mem l (img + EI_DATA));
         let ver = unat (mem l (img + EI_VERSION));
         let l = upd_elf e (\<lambda>E. E\<lparr>e_class := cls, e_byteorder := dat, e_elf_version := ver\<rparr>) l;
         if ver > EV_CURRENT then
           do { l \<leftarrow> libelf_release_elf e l; Some (NULL, LIBELF_SET_ERROR ELF_E_VERSION 0 l) }
         else if (dat \<noteq> ELFDATA2LSB \<and> dat \<noteq> ELFDATA2MSB) \<or> (cls \<noteq> ELFCLASS32 \<and> cls \<noteq> ELFCLASS64) then
           do { l \<leftarrow> libelf_release_elf e l; Some (NULL, LIBELF_SET_ERROR ELF_E_HEADER 0 l) }
         else Some (e, l) }
     else if sz \<ge> SARMAG \<and> bytes_at (mem l) img SARMAG = ARMAG then
       do { l \<leftarrow> libelf_init_elf e ELF_K_AR l; libelf_ar_open e l }
     else do { l \<leftarrow> libelf_init_elf e ELF_K_NONE l; Some (e, l) })"

definition libelf_ar_open_member :: "int \<Rightarrow> Elf_Cmd \<Rightarrow> addr \<Rightarrow> libelf \<Rightarrow> (addr \<times> libelf) option" where
  "libelf_ar_open_member fd c elf l =
    do {
      A \<leftarrow> elfs l elf;
      if e_kind A \<noteq> ELF_K_AR then None
      else if e_next A = 0 then Some (NULL, l)
      else if odd (e_next A) then None
      else let arh = nat (int (e_rawfile A) + e_next A)
      in do {
        n \<leftarrow> libelf_ar_get_number (mem l) (arh + off_ar_size) 10 10;
        case n of
          None \<Rightarrow> Some (NULL, LIBELF_SET_ERROR ELF_E_ARCHIVE 0 l)
        | Some sz \<Rightarrow>
            if \<not> sz > 0 then None
            else do {
              (e, l) \<leftarrow> elf_memory (arh + sizeof_ar_hdr) sz l;
              if e = NULL then Some (NULL, l)
              else let
                l = upd_elf e (\<lambda>E. E\<lparr>e_fd := fd, e_cmd := c\<rparr>) l;
                l = upd_elf elf (\<lambda>A. A\<lparr>e_nchildren := e_nchildren A + 1\<rparr>) l
              in Some (e, upd_elf e (\<lambda>E. E\<lparr>e_parent := elf\<rparr>) l) } } }"

section \<open>Closing\<close>

primrec release_scns :: "addr list \<Rightarrow> libelf \<Rightarrow> libelf option" where
  "release_scns [] l = Some l"
| "release_scns (s # ss) l = do { l \<leftarrow> libelf_release_scn s l; release_scns ss l }"

text \<open>
  \<open>while (e && e->e_activations == 0) { ... }\<close> of \<open>elf_end\<close>; the chain of parents it follows is
  as long as archives are nested.
\<close>

partial_function (option) elf_end_loop :: "addr \<Rightarrow> libelf \<Rightarrow> (int \<times> libelf) option" where
  "elf_end_loop e l =
    (if e = NULL then Some (0, l)
     else do {
       E \<leftarrow> elfs l e;
       if e_activations E \<noteq> 0 then Some (0, l)
       else if e_kind E = ELF_K_AR \<and> e_nchildren E > 0 then Some (0, l)
       else if e_kind E = ELF_K_NUM then None
       else do {
         l \<leftarrow> (if e_kind E = ELF_K_ELF then release_scns (e_scn E) l else Some l);
         let p = e_parent E;
         l \<leftarrow> (if p \<noteq> NULL then
                 do { _ \<leftarrow> elfs l p; Some (upd_elf p (\<lambda>P. P\<lparr>e_nchildren := e_nchildren P - 1\<rparr>) l) }
               else Some l);
         l \<leftarrow> libelf_release_elf e l;
         elf_end_loop p l } })"

definition elf_end :: "addr \<Rightarrow> libelf \<Rightarrow> (int \<times> libelf) option" where
  "elf_end e l =
    (if e = NULL then Some (0, l)
     else do {
       E \<leftarrow> elfs l e;
       if e_activations E = 0 then Some (0, l)
       else let
         n = e_activations E - 1;
         l = upd_elf e (\<lambda>E. E\<lparr>e_activations := n\<rparr>) l
       in if n > 0 then Some (n, l)
       else if n \<noteq> 0 then None
       else elf_end_loop e l })"

section \<open>\<open>elf_begin\<close>\<close>

text \<open>\<open>mmap\<close> of a whole file: an empty file cannot be mapped.\<close>

definition mmap :: "int \<Rightarrow> libelf \<Rightarrow> addr \<times> libelf" where
  "mmap fd l =
    (case files l fd of
       None \<Rightarrow> (NULL, l)
     | Some bs \<Rightarrow>
         if bs = [] then (NULL, l)
         else let (a, l) = malloc (length bs) l
              in if a = NULL then (NULL, l) else (a, set_mem (put_bytes (mem l) a bs) l))"

definition libelf_open_object :: "int \<Rightarrow> Elf_Cmd \<Rightarrow> libelf \<Rightarrow> (addr \<times> libelf) option" where
  "libelf_open_object fd c l =
    (case files l fd of
       None \<Rightarrow> Some (NULL, LIBELF_SET_ERROR ELF_E_IO (os_errno l) l)
     | Some bs \<Rightarrow>
         let (m, l) = mmap fd l
         in if m = NULL then Some (NULL, LIBELF_SET_ERROR ELF_E_IO (os_errno l) l)
         else do {
           (e, l) \<leftarrow> elf_memory m (length bs) l;
           if e = NULL then Some (NULL, l)
           else do {
             E \<leftarrow> elfs l e;
             let l = upd_elf e (\<lambda>E. E\<lparr>e_elf_flags := e_elf_flags E OR LIBELF_F_MMAP, e_fd := fd, e_cmd := c\<rparr>) l;
             if c = ELF_C_RDWR \<and> e_kind E = ELF_K_AR then
               do { (_, l) \<leftarrow> elf_end e l; Some (NULL, LIBELF_SET_ERROR ELF_E_ARGUMENT 0 l) }
             else Some (e, l) } })"

text \<open>\<open>case ELF_C_READ\<close> and the code behind the switch of \<open>elf_begin\<close>\<close>

definition elf_begin_read :: "int \<Rightarrow> Elf_Cmd \<Rightarrow> addr \<Rightarrow> libelf \<Rightarrow> (addr \<times> libelf) option" where
  "elf_begin_read fd c a l =
    (if a = NULL then libelf_open_object fd c l
     else do {
       A \<leftarrow> elfs l a;
       if (e_fd A \<noteq> -1 \<and> e_fd A \<noteq> fd) \<or> c \<noteq> e_cmd A then
         Some (NULL, LIBELF_SET_ERROR ELF_E_ARGUMENT 0 l)
       else if e_kind A = ELF_K_AR then libelf_ar_open_member (e_fd A) c a l
       else Some (a, upd_elf a (\<lambda>A. A\<lparr>e_activations := e_activations A + 1\<rparr>) l) })"

definition elf_begin :: "int \<Rightarrow> Elf_Cmd \<Rightarrow> addr \<Rightarrow> libelf \<Rightarrow> (addr \<times> libelf) option" where
  "elf_begin fd c a l =
    (if libelf_version l = EV_NONE then Some (NULL, LIBELF_SET_ERROR ELF_E_SEQUENCE 0 l)
     else case c of
       ELF_C_NULL \<Rightarrow> Some (NULL, l)
     | ELF_C_WRITE \<Rightarrow>
         if a \<noteq> NULL then Some (NULL, LIBELF_SET_ERROR ELF_E_ARGUMENT 0 l)
         else (case files l fd of
           None \<Rightarrow> Some (NULL, LIBELF_SET_ERROR ELF_E_IO (os_errno l) l)
         | Some _ \<Rightarrow>
             let l = l\<lparr>files := (files l)(fd \<mapsto> [])\<rparr>;
                 (e, l) = libelf_allocate_elf l
             in if e = NULL then Some (NULL, l)
             else do {
               l \<leftarrow> libelf_init_elf e ELF_K_ELF l;
               Some (e, upd_elf e (\<lambda>E. E\<lparr>e_byteorder := libelf_byteorder l, e_fd := fd, e_cmd := c\<rparr>) l) })
     | ELF_C_RDWR \<Rightarrow>
         if a \<noteq> NULL then Some (NULL, LIBELF_SET_ERROR ELF_E_ARGUMENT 0 l)
         else elf_begin_read fd c a l
     | ELF_C_READ \<Rightarrow> elf_begin_read fd c a l
     | _ \<Rightarrow> Some (NULL, LIBELF_SET_ERROR ELF_E_ARGUMENT 0 l))"

section \<open>Archive members\<close>

text \<open>Conversion to the signed 64-bit type \<open>off_t\<close>.\<close>

definition off_t :: "nat \<Rightarrow> int" where
  "off_t n = (if u64 n < 2 ^ 63 then int (u64 n) else int (u64 n) - 2 ^ 64)"

definition elf_next :: "addr \<Rightarrow> libelf \<Rightarrow> (Elf_Cmd \<times> libelf) option" where
  "elf_next e l =
    (if e = NULL then Some (ELF_C_NULL, l)
     else do {
       E \<leftarrow> elfs l e;
       let parent = e_parent E;
       if parent = NULL then Some (ELF_C_NULL, LIBELF_SET_ERROR ELF_E_ARGUMENT 0 l)
       else do {
         P \<leftarrow> elfs l parent;
         if e_kind P \<noteq> ELF_K_AR \<or> e_cmd P \<noteq> ELF_C_READ \<or> odd (e_rawfile E) \<or> \<not> e_rawfile E > e_rawfile P then None
         else let
           next = off_t (e_rawfile E - e_rawfile P + e_rawsize E);
           next = (next + 1) div 2 * 2
         in Some (ELF_C_READ, upd_elf parent
              (\<lambda>P. P\<lparr>e_next := (if next \<ge> off_t (e_rawsize P) then 0 else next)\<rparr>) l) } })"

definition elf_rand :: "addr \<Rightarrow> int \<Rightarrow> libelf \<Rightarrow> (int \<times> libelf) option" where
  "elf_rand ar offset l =
    (if ar = NULL then Some (0, LIBELF_SET_ERROR ELF_E_ARGUMENT 0 l)
     else do {
       A \<leftarrow> elfs l ar;
       if e_kind A \<noteq> ELF_K_AR \<or> odd offset \<or> offset < int SARMAG \<or>
          u64 (nat offset + sizeof_ar_hdr) \<ge> e_rawsize A then
         Some (0, LIBELF_SET_ERROR ELF_E_ARGUMENT 0 l)
       else let arh = e_rawfile A + nat offset
       in if mem l (arh + off_ar_fmag) \<noteq> chr_backquote \<or> mem l (arh + off_ar_fmag + 1) \<noteq> chr_newline then
         Some (0, LIBELF_SET_ERROR ELF_E_ARCHIVE 0 l)
       else Some (offset, upd_elf ar (\<lambda>A. A\<lparr>e_next := offset\<rparr>) l) })"

end
