(* ===== verification/Libelf_Header.thy ===== *)
theory Libelf_Header
  imports Libelf_Open
begin

text \<open>
  The headers of an object: \<open>libelf_ehdr.c\<close>, \<open>libelf_phdr.c\<close>, \<open>libelf_shdr.c\<close>, \<open>libelf_extended.c\<close>,
  \<open>elf_scn.c\<close>, \<open>elf_phnum.c\<close>, \<open>elf_shnum.c\<close> and \<open>elf_shstrndx.c\<close>.  The executable header and
  the program header table are blocks of the byte memory; accesses through pointers to the
  structures of either class decode and encode those bytes.
\<close>

section \<open>Access to headers\<close>

text \<open>
  The members of the headers the library uses, read from a structure of class \<open>ec\<close>; numbers
  are widened as the C code does.
\<close>

definition ehdr32 :: "libelf \<Rightarrow> addr \<Rightarrow> Elf32_Ehdr" where
  "ehdr32 l p = Elf32_Ehdr_of (host_be l) (bytes_at (mem l) p sizeof_Elf32_Ehdr)"

definition ehdr64 :: "libelf \<Rightarrow> addr \<Rightarrow> Elf64_Ehdr" where
  "ehdr64 l p = Elf64_Ehdr_of (host_be l) (bytes_at (mem l) p sizeof_Elf64_Ehdr)"

definition shdr32 :: "libelf \<Rightarrow> addr \<Rightarrow> Elf32_Shdr" where
  "shdr32 l p = Elf32_Shdr_of (host_be l) (bytes_at (mem l) p sizeof_Elf32_Shdr)"

definition shdr64 :: "libelf \<Rightarrow> addr \<Rightarrow> Elf64_Shdr" where
  "shdr64 l p = Elf64_Shdr_of (host_be l) (bytes_at (mem l) p sizeof_Elf64_Shdr)"

definition put_ehdr32 :: "addr \<Rightarrow> (Elf32_Ehdr \<Rightarrow> Elf32_Ehdr) \<Rightarrow> libelf \<Rightarrow> libelf" where
  "put_ehdr32 p f l = set_mem (put_bytes (mem l) p (Elf32_Ehdr_bytes (host_be l) (f (ehdr32 l p)))) l"

definition put_ehdr64 :: "addr \<Rightarrow> (Elf64_Ehdr \<Rightarrow> Elf64_Ehdr) \<Rightarrow> libelf \<Rightarrow> libelf" where
  "put_ehdr64 p f l = set_mem (put_bytes (mem l) p (Elf64_Ehdr_bytes (host_be l) (f (ehdr64 l p)))) l"

definition put_shdr32 :: "addr \<Rightarrow> (Elf32_Shdr \<Rightarrow> Elf32_Shdr) \<Rightarrow> libelf \<Rightarrow> libelf" where
  "put_shdr32 p f l = set_mem (put_bytes (mem l) p (Elf32_Shdr_bytes (host_be l) (f (shdr32 l p)))) l"

definition put_shdr64 :: "addr \<Rightarrow> (Elf64_Shdr \<Rightarrow> Elf64_Shdr) \<Rightarrow> libelf \<Rightarrow> libelf" where
  "put_shdr64 p f l = set_mem (put_bytes (mem l) p (Elf64_Shdr_bytes (host_be l) (f (shdr64 l p)))) l"

text \<open>The call of a converter through the table; a null pointer there ends the program.\<close>

definition call_xlator :: "Elf_Type \<Rightarrow> direction \<Rightarrow> int \<Rightarrow> addr \<Rightarrow> nat \<Rightarrow> addr \<Rightarrow> nat \<Rightarrow> bool \<Rightarrow> libelf \<Rightarrow>
    (bool \<times> libelf) option" where
  "call_xlator t direction ec dst dsz src cnt byteswap l =
    do {
      xlator \<leftarrow> libelf_get_translator t direction ec;
      f \<leftarrow> xlator;
      (m, ok) \<leftarrow> f (host_be l) (mem l) dst dsz src cnt byteswap;
      Some (ok, set_mem m l) }"

section \<open>The executable header\<close>

definition libelf_load_extended :: "addr \<Rightarrow> int \<Rightarrow> nat \<Rightarrow> nat \<Rightarrow> nat \<Rightarrow> libelf \<Rightarrow> (bool \<times> libelf) option" where
  "libelf_load_extended e ec shoff phnum strndx l =
    do {
      E \<leftarrow> elfs l e;
      if e_scn E \<noteq> [] then None
      else let
        (fsz, err) = libelf_fsize ELF_T_SHDR ec (e_elf_version E) 1;
        l = set_error_option err l
      in if fsz = 0 then None
      else if e_rawsize E < u64 (shoff + fsz) then Some (False, LIBELF_SET_ERROR ELF_E_HEADER 0 l)
      else do {
        (scn, l) \<leftarrow> libelf_allocate_scn e 0 l;
        if scn = NULL then Some (False, l)
        else do {
          (_, l) \<leftarrow> call_xlator ELF_T_SHDR ELF_TOMEMORY ec scn sizeof_s_shdr (e_rawfile E + shoff) 1
                     (e_byteorder E \<noteq> libelf_byteorder l) l;
          let shtype = (if ec = ELFCLASS32 then sh_type (shdr32 l scn) else sh_type (shdr64 l scn));
          if shtype \<noteq> SHT_NULL then Some (False, LIBELF_SET_ERROR ELF_E_SECTION 0 l)
          else let
            size = (if ec = ELFCLASS32 then unat (sh_size (shdr32 l scn)) else unat (sh_size (shdr64 l scn)));
            info = (if ec = ELFCLASS32 then unat (sh_info (shdr32 l scn)) else unat (sh_info (shdr64 l scn)));
            link = (if ec = ELFCLASS32 then unat (sh_link (shdr32 l scn)) else unat (sh_link (shdr64 l scn)))
          in Some (True, upd_elf e (\<lambda>E. E\<lparr>e_nscn := size,
               e_nphdr := (if phnum \<noteq> PN_XNUM then phnum else info),
               e_strndx := (if strndx \<noteq> SHN_XINDEX then strndx else link)\<rparr>) l) } } }"

abbreviation (input) EI_MAG0 :: nat where "EI_MAG0 \<equiv> 0"
abbreviation (input) EI_MAG1 :: nat where "EI_MAG1 \<equiv> 1"
abbreviation (input) EI_MAG2 :: nat where "EI_MAG2 \<equiv> 2"
abbreviation (input) EI_MAG3 :: nat where "EI_MAG3 \<equiv> 3"

definition EHDR_INIT32 :: "addr \<Rightarrow> libelf \<Rightarrow> libelf" where
  "EHDR_INIT32 p l = put_ehdr32 p (\<lambda>eh. eh\<lparr>
     e_ident := (e_ident eh)[EI_MAG0 := 0x7F, EI_MAG1 := 0x45, EI_MAG2 := 0x4C, EI_MAG3 := 0x46,
       EI_CLASS := 1, EI_DATA := 0, EI_VERSION := of_nat (libelf_version l)],
     e_machine := 0, e_type := 0, e_version := of_nat (libelf_version l)\<rparr>) l"

definition EHDR_INIT64 :: "addr \<Rightarrow> libelf \<Rightarrow> libelf" where
  "EHDR_INIT64 p l = put_ehdr64 p (\<lambda>eh. eh\<lparr>
     e_ident := (e_ident eh)[EI_MAG0 := 0x7F, EI_MAG1 := 0x45, EI_MAG2 := 0x4C, EI_MAG3 := 0x46,
       EI_CLASS := 2, EI_DATA := 0, EI_VERSION := of_nat (libelf_version l)],
     e_machine := 0, e_type := 0, e_version := of_nat (libelf_version l)\<rparr>) l"

text \<open>
  The part of \<open>_libelf_ehdr\<close> behind the translation: the counts of sections and program
  headers, which extended numbering keeps in the first section header.
\<close>

definition libelf_ehdr_counts :: "addr \<Rightarrow> int \<Rightarrow> addr \<Rightarrow> libelf \<Rightarrow> (addr \<times> libelf) option" where
  "libelf_ehdr_counts e ec ehdr l =
    (let
       phnum = (if ec = ELFCLASS32 then unat (e_phnum (ehdr32 l ehdr)) else unat (e_phnum (ehdr64 l ehdr)));
       shnum = (if ec = ELFCLASS32 then unat (e_shnum (ehdr32 l ehdr)) else unat (e_shnum (ehdr64 l ehdr)));
       shoff = (if ec = ELFCLASS32 then unat (e_shoff (ehdr32 l ehdr)) else unat (e_shoff (ehdr64 l ehdr)));
       strndx = (if ec = ELFCLASS32 then unat (e_shstrndx (ehdr32 l ehdr)) else unat (e_shstrndx (ehdr64 l ehdr)))
     in if shnum \<ge> SHN_LORESERVE \<or> (shoff = 0 \<and> (shnum \<noteq> 0 \<or> phnum = PN_XNUM \<or> strndx = SHN_XINDEX)) then
       Some (NULL, LIBELF_SET_ERROR ELF_E_HEADER 0 l)
     else if shnum \<noteq> 0 \<or> shoff = 0 then
       Some (ehdr, upd_elf e (\<lambda>E. E\<lparr>e_nphdr := phnum, e_nscn := shnum, e_strndx := strndx\<rparr>) l)
     else do {
       (ok, l) \<leftarrow> libelf_load_extended e ec shoff phnum strndx l;
       Some (if ok then ehdr else NULL, l) })"

definition libelf_ehdr :: "addr \<Rightarrow> int \<Rightarrow> bool \<Rightarrow> libelf \<Rightarrow> (addr \<times> libelf) option" where
  "libelf_ehdr e ec allocate l =
    (if \<not> (ec = ELFCLASS32 \<or> ec = ELFCLASS64) then None
     else if e = NULL then Some (NULL, LIBELF_SET_ERROR ELF_E_ARGUMENT 0 l)
     else do {
       E \<leftarrow> elfs l e;
       if e_kind E \<noteq> ELF_K_ELF then Some (NULL, LIBELF_SET_ERROR ELF_E_ARGUMENT 0 l)
       else if e_class E \<noteq> ELFCLASSNONE \<and> e_class E \<noteq> ec then Some (NULL, LIBELF_SET_ERROR ELF_E_CLASS 0 l)
       else if e_elf_version E \<noteq> EV_CURRENT then Some (NULL, LIBELF_SET_ERROR ELF_E_VERSION 0 l)
       else let l = (if e_class E = ELFCLASSNONE then upd_elf e (\<lambda>E. E\<lparr>e_class := ec\<rparr>) l else l)
       in if e_ehdr E \<noteq> NULL then Some (e_ehdr E, l)
       else let
         (fsz, err) = libelf_fsize ELF_T_EHDR ec (e_elf_version E) 1;
         l = set_error_option err l
       in if fsz = 0 then None
       else if e_cmd E \<noteq> ELF_C_WRITE \<and> e_rawsize E < fsz then Some (NULL, LIBELF_SET_ERROR ELF_E_HEADER 0 l)
       else do {
         (msz, err) \<leftarrow> libelf_msize ELF_T_EHDR ec EV_CURRENT;
         let l = set_error_option err l;
         if msz = 0 then None
         else let (ehdr, l) = calloc 1 msz l
         in if ehdr = NULL then Some (NULL, LIBELF_SET_ERROR ELF_E_RESOURCE 0 l)
         else let
           l = upd_elf e (\<lambda>E. E\<lparr>e_ehdr := ehdr\<rparr>) l;
           l = (if ec = ELFCLASS32 then EHDR_INIT32 ehdr l else EHDR_INIT64 ehdr l);
           l = (if allocate then upd_elf e (\<lambda>E. E\<lparr>e_elf_flags := e_elf_flags E OR ELF_F_DIRTY\<rparr>) l else l)
         in if e_cmd E = ELF_C_WRITE then Some (ehdr, l)
         else do {
           (_, l) \<leftarrow> call_xlator ELF_T_EHDR ELF_TOMEMORY ec ehdr msz (e_rawfile E) 1
                      (e_byteorder E \<noteq> libelf_byteorder l) l;
           libelf_ehdr_counts e ec ehdr l } } })"

section \<open>The program header table\<close>

text \<open>
  The word of the union \<open>e_u\<close> that \<open>_libelf_getphdr\<close> takes for the pointer to the program
  header table.  For an archive it holds the number of open members.
\<close>

definition e_u_phdr :: "bool \<Rightarrow> Elf \<Rightarrow> addr" where
  "e_u_phdr be E =
    (if e_kind E = ELF_K_AR then
       (if be then 2 ^ 32 * nat (e_nchildren E mod 2 ^ 32) else nat (e_nchildren E mod 2 ^ 32))
     else e_phdr E)"

definition libelf_getphdr :: "addr \<Rightarrow> int \<Rightarrow> libelf \<Rightarrow> (addr \<times> libelf) option" where
  "libelf_getphdr e ec l =
    (if \<not> (ec = ELFCLASS32 \<or> ec = ELFCLASS64) then None
     else if e = NULL then Some (NULL, LIBELF_SET_ERROR ELF_E_ARGUMENT 0 l)
     else do {
       E \<leftarrow> elfs l e;
       let phdr = e_u_phdr (host_be l) E;
       if phdr \<noteq> NULL then Some (phdr, l)
       else do {
         (ehdr, l) \<leftarrow> libelf_ehdr e ec False l;
         if ehdr = NULL then Some (NULL, l)
         else do {
           E \<leftarrow> elfs l e;
           let phnum = e_nphdr E;
           let phoff = (if ec = ELFCLASS32 then unat (e_phoff (ehdr32 l ehdr)) else unat (e_phoff (ehdr64 l ehdr)));
           (fsz, l) \<leftarrow> gelf_fsize e ELF_T_PHDR phnum (e_elf_version E) l;
           if fsz = 0 then None
           else if e_rawsize E < u64 (phoff + fsz) then Some (NULL, LIBELF_SET_ERROR ELF_E_HEADER 0 l)
           else do {
             (msz, err) \<leftarrow> libelf_msize ELF_T_PHDR ec EV_CURRENT;
             let l = set_error_option err l;
             if msz = 0 then None
             else let (phdr, l) = calloc phnum msz l
             in if phdr = NULL then Some (NULL, LIBELF_SET_ERROR ELF_E_RESOURCE 0 l)
             else let l = upd_elf e (\<lambda>E. E\<lparr>e_phdr := phdr\<rparr>) l
             in do {
               (_, l) \<leftarrow> call_xlator ELF_T_PHDR ELF_TOMEMORY ec phdr (u64 (phnum * msz)) (e_rawfile E + phoff) phnum
                          (e_byteorder E \<noteq> libelf_byteorder l) l;
               Some (phdr, l) } } } } })"

definition libelf_newphdr :: "addr \<Rightarrow> int \<Rightarrow> nat \<Rightarrow> libelf \<Rightarrow> (addr \<times> libelf) option" where
  "libelf_newphdr e ec count l =
    (if e = NULL then Some (NULL, LIBELF_SET_ERROR ELF_E_ARGUMENT 0 l)
     else do {
       (ehdr, l) \<leftarrow> libelf_ehdr e ec False l;
       if ehdr = NULL then Some (NULL, LIBELF_SET_ERROR ELF_E_SEQUENCE 0 l)
       else do {
         E \<leftarrow> elfs l e;
         if e_class E \<noteq> ec \<or> \<not> (ec = ELFCLASS32 \<or> ec = ELFCLASS64) \<or> e_elf_version E \<noteq> EV_CURRENT then None
         else do {
           (msz, err) \<leftarrow> libelf_msize ELF_T_PHDR ec (e_elf_version E);
           let l = set_error_option err l;
           if msz = 0 then None
           else let (newphdr, l) = (if count > 0 then calloc count msz l else (NULL, l))
           in if count > 0 \<and> newphdr = NULL then Some (NULL, LIBELF_SET_ERROR ELF_E_RESOURCE 0 l)
           else let l = upd_elf e (\<lambda>E. E\<lparr>e_phdr := newphdr, e_nphdr := count\<rparr>) l
           in do {
             (_, l) \<leftarrow> elf_flagphdr e ELF_C_SET ELF_F_DIRTY l;
             Some (newphdr, l) } } } })"

section \<open>Section headers\<close>

definition libelf_getshdr :: "addr \<Rightarrow> int \<Rightarrow> libelf \<Rightarrow> (addr \<times> libelf) option" where
  "libelf_getshdr s ec l =
    (if s = NULL then Some (NULL, LIBELF_SET_ERROR ELF_E_ARGUMENT 0 l)
     else do {
       S \<leftarrow> scns l s;
       if s_elf S = NULL then Some (NULL, LIBELF_SET_ERROR ELF_E_ARGUMENT 0 l)
       else do {
         E \<leftarrow> elfs l (s_elf S);
         if e_kind E \<noteq> ELF_K_ELF then Some (NULL, LIBELF_SET_ERROR ELF_E_ARGUMENT 0 l)
         else let ec = (if ec = ELFCLASSNONE then e_class E else ec)
         in if ec \<noteq> e_class E then Some (NULL, LIBELF_SET_ERROR ELF_E_CLASS 0 l)
         else Some (s, l) } })"

text \<open>\<open>for (; i < shnum; i++, src += fsz)\<close> of \<open>_libelf_load_section_headers\<close>, for \<open>n\<close> more headers\<close>

primrec load_shdrs :: "nat \<Rightarrow> nat \<Rightarrow> addr \<Rightarrow> int \<Rightarrow> nat \<Rightarrow> addr \<Rightarrow> bool \<Rightarrow> libelf \<Rightarrow> (bool \<times> libelf) option" where
  "load_shdrs 0 i e ec fsz src swapbytes l = Some (True, l)"
| "load_shdrs (Suc n) i e ec fsz src swapbytes l =
    do {
      (scn, l) \<leftarrow> libelf_allocate_scn e i l;
      if scn = NULL then Some (False, l)
      else do {
        (_, l) \<leftarrow> call_xlator ELF_T_SHDR ELF_TOMEMORY ec scn sizeof_s_shdr src 1 swapbytes l;
        let off = (if ec = ELFCLASS32 then unat (sh_offset (shdr32 l scn)) else unat (sh_offset (shdr64 l scn)));
        let size = (if ec = ELFCLASS32 then unat (sh_size (shdr32 l scn)) else unat (sh_size (shdr64 l scn)));
        let l = upd_scn scn (\<lambda>S. S\<lparr>s_offset := off, s_rawoff := off, s_size := size\<rparr>) l;
        load_shdrs n (Suc i) e ec fsz (src + fsz) swapbytes l } }"

definition libelf_load_section_headers :: "addr \<Rightarrow> addr \<Rightarrow> libelf \<Rightarrow> (bool \<times> libelf) option" where
  "libelf_load_section_headers e ehdr l =
    (if e = NULL \<or> ehdr = NULL then None
     else do {
       E \<leftarrow> elfs l e;
       if e_elf_flags E AND LIBELF_F_SHDRS_LOADED \<noteq> 0 then None
       else let
         ec = e_class E;
         (fsz, err) = libelf_fsize ELF_T_SHDR ec (e_elf_version E) 1;
         l = set_error_option err l;
         shnum = e_nscn E;
         shoff = (if ec = ELFCLASS32 then unat (e_shoff (ehdr32 l ehdr)) else unat (e_shoff (ehdr64 l ehdr)));
         shentsize = (if ec = ELFCLASS32 then unat (e_shentsize (ehdr32 l ehdr)) else unat (e_shentsize (ehdr64 l ehdr)))
       in if fsz = 0 then None
       else if fsz \<noteq> shentsize \<or> u64 (shoff + u64 (fsz * shnum)) > e_rawsize E then
         Some (False, LIBELF_SET_ERROR ELF_E_HEADER 0 l)
       else let
         swapbytes = (e_byteorder E \<noteq> libelf_byteorder l);
         src = e_rawfile E + shoff
       in if e_scn E \<noteq> [] \<and> length (e_scn E) \<noteq> 1 then None
       else let i = (if e_scn E = [] then 0 else 1)
       in do {
         (ok, l) \<leftarrow> load_shdrs (shnum - i) i e ec fsz (src + i * fsz) swapbytes l;
         if \<not> ok then Some (False, l)
         else Some (True, upd_elf e (\<lambda>E. E\<lparr>e_elf_flags := e_elf_flags E OR LIBELF_F_SHDRS_LOADED\<rparr>) l) } })"

text \<open>Loading the section headers unless they are there or the object is being created.\<close>

definition ensure_shdrs :: "addr \<Rightarrow> addr \<Rightarrow> libelf \<Rightarrow> (bool \<times> libelf) option" where
  "ensure_shdrs e ehdr l =
    do {
      E \<leftarrow> elfs l e;
      if e_cmd E \<noteq> ELF_C_WRITE \<and> e_elf_flags E AND LIBELF_F_SHDRS_LOADED = 0
      then libelf_load_section_headers e ehdr l
      else Some (True, l) }"

primrec find_scn :: "nat \<Rightarrow> addr list \<Rightarrow> libelf \<Rightarrow> addr option" where
  "find_scn index [] l = Some NULL"
| "find_scn index (s # ss) l =
    do { S \<leftarrow> scns l s; if s_ndx S = index then Some s else find_scn index ss l }"

definition elf_getscn :: "addr \<Rightarrow> nat \<Rightarrow> libelf \<Rightarrow> (addr \<times> libelf) option" where
  "elf_getscn e index l =
    (if e = NULL then Some (NULL, LIBELF_SET_ERROR ELF_E_ARGUMENT 0 l)
     else do {
       E \<leftarrow> elfs l e;
       let ec = e_class E;
       if e_kind E \<noteq> ELF_K_ELF \<or> (ec \<noteq> ELFCLASS32 \<and> ec \<noteq> ELFCLASS64) then
         Some (NULL, LIBELF_SET_ERROR ELF_E_ARGUMENT 0 l)
       else do {
         (ehdr, l) \<leftarrow> libelf_ehdr e ec False l;
         if ehdr = NULL then Some (NULL, l)
         else do {
           (ok, l) \<leftarrow> ensure_shdrs e ehdr l;
           if \<not> ok then Some (NULL, l)
           else do {
             E \<leftarrow> elfs l e;
             s \<leftarrow> find_scn index (e_scn E) l;
             if s \<noteq> NULL then Some (s, l) else Some (NULL, LIBELF_SET_ERROR ELF_E_ARGUMENT 0 l) } } } })"

definition elf_ndxscn :: "addr \<Rightarrow> libelf \<Rightarrow> (nat \<times> libelf) option" where
  "elf_ndxscn s l =
    (if s = NULL then Some (SHN_UNDEF, LIBELF_SET_ERROR ELF_E_ARGUMENT 0 l)
     else do { S \<leftarrow> scns l s; Some (s_ndx S, l) })"

definition elf_newscn :: "addr \<Rightarrow> libelf \<Rightarrow> (addr \<times> libelf) option" where
  "elf_newscn e l =
    (if e = NULL then Some (NULL, LIBELF_SET_ERROR ELF_E_ARGUMENT 0 l)
     else do {
       E \<leftarrow> elfs l e;
       let ec = e_class E;
       if e_kind E \<noteq> ELF_K_ELF then Some (NULL, LIBELF_SET_ERROR ELF_E_ARGUMENT 0 l)
       else if ec \<noteq> ELFCLASS32 \<and> ec \<noteq> ELFCLASS64 then Some (NULL, LIBELF_SET_ERROR ELF_E_CLASS 0 l)
       else do {
         (ehdr, l) \<leftarrow> libelf_ehdr e ec False l;
         if ehdr = NULL then Some (NULL, l)
         else do {
           (ok, l) \<leftarrow> ensure_shdrs e ehdr l;
           if \<not> ok then Some (NULL, l)
           else do {
             E \<leftarrow> elfs l e;
             (ok, l) \<leftarrow>
               (if e_scn E = [] then
                  (if e_nscn E \<noteq> 0 then None
                   else do {
                     (scn, l) \<leftarrow> libelf_allocate_scn e SHN_UNDEF l;
                     if scn = NULL then Some (False, l)
                     else Some (True, upd_elf e (\<lambda>E. E\<lparr>e_nscn := e_nscn E + 1\<rparr>) l) })
                else Some (True, l));
             if \<not> ok then Some (NULL, l)
             else do {
               E \<leftarrow> elfs l e;
               if \<not> e_nscn E > 0 then None
               else do {
                 (scn, l) \<leftarrow> libelf_allocate_scn e (e_nscn E) l;
                 if scn = NULL then Some (NULL, l)
                 else do {
                   let l = upd_elf e (\<lambda>E. E\<lparr>e_nscn := e_nscn E + 1\<rparr>) l;
                   (_, l) \<leftarrow> elf_flagscn scn ELF_C_SET ELF_F_DIRTY l;
                   Some (scn, l) } } } } } } })"

text \<open>The element behind \<open>x\<close> in a list, 0 at its end: \<open>STAILQ_NEXT\<close>\<close>

primrec stailq_next :: "addr \<Rightarrow> addr list \<Rightarrow> addr" where
  "stailq_next x [] = NULL"
| "stailq_next x (y # ys) = (if x = y then (case ys of [] \<Rightarrow> NULL | z # _ \<Rightarrow> z) else stailq_next x ys)"

definition elf_nextscn :: "addr \<Rightarrow> addr \<Rightarrow> libelf \<Rightarrow> (addr \<times> libelf) option" where
  "elf_nextscn e s l =
    (if e = NULL then Some (NULL, LIBELF_SET_ERROR ELF_E_ARGUMENT 0 l)
     else do {
       E \<leftarrow> elfs l e;
       if e_kind E \<noteq> ELF_K_ELF then Some (NULL, LIBELF_SET_ERROR ELF_E_ARGUMENT 0 l)
       else if s = NULL then elf_getscn e 1 l
       else do {
         S \<leftarrow> scns l s;
         if s_elf S \<noteq> e then Some (NULL, LIBELF_SET_ERROR ELF_E_ARGUMENT 0 l)
         else Some (stailq_next s (e_scn E), l) } })"

section \<open>Extended numbering\<close>

definition libelf_getscn0 :: "addr \<Rightarrow> libelf \<Rightarrow> (addr \<times> libelf) option" where
  "libelf_getscn0 e l =
    do { E \<leftarrow> elfs l e;
         case e_scn E of s # _ \<Rightarrow> Some (s, l) | [] \<Rightarrow> libelf_allocate_scn e SHN_UNDEF l }"

text \<open>
  \<open>_libelf_setshnum\<close>, \<open>_libelf_setshstrndx\<close> and \<open>_libelf_setphnum\<close>: a count that does not fit
  the executable header goes to the first section header.  The members are 16 and 32 bits
  wide; assignments truncate.
\<close>

definition libelf_setshnum :: "addr \<Rightarrow> addr \<Rightarrow> int \<Rightarrow> nat \<Rightarrow> libelf \<Rightarrow> (bool \<times> libelf) option" where
  "libelf_setshnum e eh ec shnum l =
    do {
      ((ok, shnum), l) \<leftarrow>
        (if shnum \<ge> SHN_LORESERVE then do {
           (scn, l) \<leftarrow> libelf_getscn0 e l;
           if scn = NULL then Some ((False, shnum), l)
           else do {
             S \<leftarrow> scns l scn;
             if s_ndx S \<noteq> SHN_UNDEF then None
             else do {
               let l = (if ec = ELFCLASS32 then put_shdr32 scn (\<lambda>h. h\<lparr>sh_size := of_nat shnum\<rparr>) l
                        else put_shdr64 scn (\<lambda>h. h\<lparr>sh_size := of_nat shnum\<rparr>) l);
               (_, l) \<leftarrow> elf_flagshdr scn ELF_C_SET ELF_F_DIRTY l;
               Some ((True, 0), l) } } }
         else Some ((True, shnum), l));
      if \<not> ok then Some (False, l)
      else Some (True, if ec = ELFCLASS32 then put_ehdr32 eh (\<lambda>h. h\<lparr>e_shnum := of_nat shnum\<rparr>) l
                       else put_ehdr64 eh (\<lambda>h. h\<lparr>e_shnum := of_nat shnum\<rparr>) l) }"

definition libelf_setshstrndx :: "addr \<Rightarrow> addr \<Rightarrow> int \<Rightarrow> nat \<Rightarrow> libelf \<Rightarrow> (bool \<times> libelf) option" where
  "libelf_setshstrndx e eh ec shstrndx l =
    do {
      ((ok, shstrndx), l) \<leftarrow>
        (if shstrndx \<ge> SHN_LORESERVE then do {
           (scn, l) \<leftarrow> libelf_getscn0 e l;
           if scn = NULL then Some ((False, shstrndx), l)
           else do {
             S \<leftarrow> scns l scn;
             if s_ndx S \<noteq> SHN_UNDEF then None
             else do {
               let l = (if ec = ELFCLASS32 then put_shdr32 scn (\<lambda>h. h\<lparr>sh_link := of_nat shstrndx\<rparr>) l
                        else put_shdr64 scn (\<lambda>h. h\<lparr>sh_link := of_nat shstrndx\<rparr>) l);
               (_, l) \<leftarrow> elf_flagshdr scn ELF_C_SET ELF_F_DIRTY l;
               Some ((True, SHN_XINDEX), l) } } }
         else Some ((True, shstrndx), l));
      if \<not> ok then Some (False, l)
      else Some (True, if ec = ELFCLASS32 then put_ehdr32 eh (\<lambda>h. h\<lparr>e_shstrndx := of_nat shstrndx\<rparr>) l
                       else put_ehdr64 eh (\<lambda>h. h\<lparr>e_shstrndx := of_nat shstrndx\<rparr>) l) }"

definition libelf_setphnum :: "addr \<Rightarrow> addr \<Rightarrow> int \<Rightarrow> nat \<Rightarrow> libelf \<Rightarrow> (bool \<times> libelf) option" where
  "libelf_setphnum e eh ec phnum l =
    do {
      ((ok, phnum), l) \<leftarrow>
        (if phnum \<ge> PN_XNUM then do {
           (scn, l) \<leftarrow> libelf_getscn0 e l;
           if scn = NULL then Some ((False, phnum), l)
           else do {
             S \<leftarrow> scns l scn;
             if s_ndx S \<noteq> SHN_UNDEF then None
             else do {
               let l = (if ec = ELFCLASS32 then put_shdr32 scn (\<lambda>h. h\<lparr>sh_info := of_nat phnum\<rparr>) l
                        else put_shdr64 scn (\<lambda>h. h\<lparr>sh_info := of_nat phnum\<rparr>) l);
               (_, l) \<leftarrow> elf_flagshdr scn ELF_C_SET ELF_F_DIRTY l;
               Some ((True, PN_XNUM), l) } } }
         else Some ((True, phnum), l));
      if \<not> ok then Some (False, l)
      else Some (True, if ec = ELFCLASS32 then put_ehdr32 eh (\<lambda>h. h\<lparr>e_phnum := of_nat phnum\<rparr>) l
                       else put_ehdr64 eh (\<lambda>h. h\<lparr>e_phnum := of_nat phnum\<rparr>) l) }"

section \<open>Counts\<close>

text \<open>
  The three functions that return a member of the descriptor once the executable header has
  been read: the result is 0 together with the value, or -1.
\<close>

definition get_count :: "(Elf \<Rightarrow> nat) \<Rightarrow> addr \<Rightarrow> libelf \<Rightarrow> (int \<times> nat option \<times> libelf) option" where
  "get_count member e l =
    (if e = NULL then Some (-1, None, LIBELF_SET_ERROR ELF_E_ARGUMENT 0 l)
     else do {
       E \<leftarrow> elfs l e;
       let ec = e_class E;
       if e_kind E \<noteq> ELF_K_ELF \<or> (ec \<noteq> ELFCLASS32 \<and> ec \<noteq> ELFCLASS64) then
         Some (-1, None, LIBELF_SET_ERROR ELF_E_ARGUMENT 0 l)
       else do {
         (eh, l) \<leftarrow> libelf_ehdr e ec False l;
         if eh = NULL then Some (-1, None, l)
         else do { E \<leftarrow> elfs l e; Some (0, Some (member E), l) } } })"

definition libelf_getphdrnum :: "addr \<Rightarrow> libelf \<Rightarrow> (int \<times> nat option \<times> libelf) option" where
  "libelf_getphdrnum = get_count e_nphdr"

definition libelf_getshdrnum :: "addr \<Rightarrow> libelf \<Rightarrow> (int \<times> nat option \<times> libelf) option" where
  "libelf_getshdrnum = get_count e_nscn"

definition libelf_getshdrstrndx :: "addr \<Rightarrow> libelf \<Rightarrow> (int \<times> nat option \<times> libelf) option" where
  "libelf_getshdrstrndx = get_count e_strndx"

definition elf_getphdrnum :: "addr \<Rightarrow> libelf \<Rightarrow> (int \<times> nat option \<times> libelf) option" where
  "elf_getphdrnum e l = libelf_getphdrnum e l"

definition elf_getshdrnum :: "addr \<Rightarrow> libelf \<Rightarrow> (int \<times> nat option \<times> libelf) option" where
  "elf_getshdrnum e l = libelf_getshdrnum e l"

definition elf_getshdrstrndx :: "addr \<Rightarrow> libelf \<Rightarrow> (int \<times> nat option \<times> libelf) option" where
  "elf_getshdrstrndx e l = libelf_getshdrstrndx e l"

text \<open>The deprecated functions return whether the value has been stored.\<close>

definition elf_getphnum :: "addr \<Rightarrow> libelf \<Rightarrow> (bool \<times> nat option \<times> libelf) option" where
  "elf_getphnum e l = do { (r, n, l) \<leftarrow> libelf_getphdrnum e l; Some (r \<ge> 0, n, l) }"

definition elf_getshnum :: "addr \<Rightarrow> libelf \<Rightarrow> (bool \<times> nat option \<times> libelf) option" where
  "elf_getshnum e l = do { (r, n, l) \<leftarrow> libelf_getshdrnum e l; Some (r \<ge> 0, n, l) }"

definition elf_getshstrndx :: "addr \<Rightarrow> libelf \<Rightarrow> (bool \<times> nat option \<times> libelf) option" where
  "elf_getshstrndx e l = do { (r, n, l) \<leftarrow> libelf_getshdrstrndx e l; Some (r \<ge> 0, n, l) }"

definition elf_setshstrndx :: "addr \<Rightarrow> nat \<Rightarrow> libelf \<Rightarrow> (bool \<times> libelf) option" where
  "elf_setshstrndx e strndx l =
    (if e = NULL then Some (False, LIBELF_SET_ERROR ELF_E_ARGUMENT 0 l)
     else do {
       E \<leftarrow> elfs l e;
       let ec = e_class E;
       if e_kind E \<noteq> ELF_K_ELF \<or> (ec \<noteq> ELFCLASS32 \<and> ec \<noteq> ELFCLASS64) then
         Some (False, LIBELF_SET_ERROR ELF_E_ARGUMENT 0 l)
       else do {
         (eh, l) \<leftarrow> libelf_ehdr e ec False l;
         if eh = NULL then Some (False, LIBELF_SET_ERROR ELF_E_ARGUMENT 0 l)
         else libelf_setshstrndx e eh ec strndx l } })"

end
