(* ===== verification/Libelf_Data.thy ===== *)
theory Libelf_Data
  imports Libelf_Header
begin

text \<open>
  The data of sections: \<open>elf_data.c\<close>, \<open>elf_strptr.c\<close>, \<open>libelf_checksum.c\<close> and
  \<open>gelf_checksum.c\<close>, and the section header functions of \<open>gelf_shdr.c\<close> that they use.
\<close>

section \<open>Class-independent access to section headers\<close>

text \<open>
  Structures of either class in memory are read and written through their codecs.  A
  conversion to a 32-bit structure assigns the members one after the other and returns early
  when a value does not fit (\<open>LIBELF_COPY_U32\<close>, \<open>LIBELF_COPY_S32\<close>): the members before it
  have been assigned.  The pair holds the structure so far and whether to go on.
\<close>

definition rd :: "(bool \<Rightarrow> byte list \<Rightarrow> 'a) \<Rightarrow> nat \<Rightarrow> addr \<Rightarrow> libelf \<Rightarrow> 'a" where
  "rd of_bytes n p l = of_bytes (host_be l) (bytes_at (mem l) p n)"

definition wr :: "(bool \<Rightarrow> 'a \<Rightarrow> byte list) \<Rightarrow> addr \<Rightarrow> 'a \<Rightarrow> libelf \<Rightarrow> libelf" where
  "wr to_bytes p x l = set_mem (put_bytes (mem l) p (to_bytes (host_be l) x)) l"

definition assign :: "('a \<Rightarrow> 'a) \<Rightarrow> 'a \<times> bool \<Rightarrow> 'a \<times> bool" where
  "assign f h = (if snd h then (f (fst h), True) else h)"

definition LIBELF_COPY_U32 :: "(32 word \<Rightarrow> 'a \<Rightarrow> 'a) \<Rightarrow> 64 word \<Rightarrow> 'a \<times> bool \<Rightarrow> 'a \<times> bool" where
  "LIBELF_COPY_U32 f v h =
     (if \<not> snd h then h else if unat v > 4294967295 then (fst h, False) else (f (ucast v) (fst h), True))"

definition LIBELF_COPY_S32 :: "(32 word \<Rightarrow> 'a \<Rightarrow> 'a) \<Rightarrow> 64 word \<Rightarrow> 'a \<times> bool \<Rightarrow> 'a \<times> bool" where
  "LIBELF_COPY_S32 f v h =
     (if \<not> snd h then h else if sint v > 2147483647 \<or> sint v < -2147483648 then (fst h, False)
      else (f (ucast v) (fst h), True))"

definition elf32_getshdr :: "addr \<Rightarrow> libelf \<Rightarrow> (addr \<times> libelf) option" where
  "elf32_getshdr s l = libelf_getshdr s ELFCLASS32 l"

definition elf64_getshdr :: "addr \<Rightarrow> libelf \<Rightarrow> (addr \<times> libelf) option" where
  "elf64_getshdr s l = libelf_getshdr s ELFCLASS64 l"

definition widen_shdr :: "Elf32_Shdr \<Rightarrow> Elf64_Shdr" where
  "widen_shdr h =
     \<lparr>sh_name = sh_name h, sh_type = sh_type h, sh_flags = ucast (sh_flags h), sh_addr = ucast (sh_addr h),
      sh_offset = ucast (sh_offset h), sh_size = ucast (sh_size h), sh_link = sh_link h, sh_info = sh_info h,
      sh_addralign = ucast (sh_addralign h), sh_entsize = ucast (sh_entsize h)\<rparr>"

text \<open>
  The value that \<open>gelf_getshdr\<close> stores, \<open>None\<close> when it fails.  Functions that call it with the
  address of a local variable use the value directly.
\<close>

definition gelf_shdr_value :: "addr \<Rightarrow> libelf \<Rightarrow> (Elf64_Shdr option \<times> libelf) option" where
  "gelf_shdr_value s l =
    do {
      (sh, l) \<leftarrow> libelf_getshdr s ELFCLASSNONE l;
      if sh = NULL then Some (None, l)
      else do {
        S \<leftarrow> scns l s;
        E \<leftarrow> elfs l (s_elf S);
        let ec = e_class E;
        if \<not> (ec = ELFCLASS32 \<or> ec = ELFCLASS64) then None
        else Some (Some (if ec = ELFCLASS32 then widen_shdr (shdr32 l sh) else shdr64 l sh), l) } }"

definition gelf_getshdr :: "addr \<Rightarrow> addr \<Rightarrow> libelf \<Rightarrow> (addr \<times> libelf) option" where
  "gelf_getshdr s d l =
    (if d = NULL then Some (NULL, LIBELF_SET_ERROR ELF_E_ARGUMENT 0 l)
     else do {
       (v, l) \<leftarrow> gelf_shdr_value s l;
       case v of None \<Rightarrow> Some (NULL, l) | Some h \<Rightarrow> Some (d, wr Elf64_Shdr_bytes d h l) })"

definition narrow_shdr :: "Elf64_Shdr \<Rightarrow> Elf32_Shdr \<Rightarrow> Elf32_Shdr \<times> bool" where
  "narrow_shdr s h =
     LIBELF_COPY_U32 (\<lambda>v h. h\<lparr>sh_entsize := v\<rparr>) (sh_entsize s)
      (LIBELF_COPY_U32 (\<lambda>v h. h\<lparr>sh_addralign := v\<rparr>) (sh_addralign s)
       (assign (\<lambda>h. h\<lparr>sh_link := sh_link s, sh_info := sh_info s\<rparr>)
        (LIBELF_COPY_U32 (\<lambda>v h. h\<lparr>sh_size := v\<rparr>) (sh_size s)
         (LIBELF_COPY_U32 (\<lambda>v h. h\<lparr>sh_offset := v\<rparr>) (sh_offset s)
          (LIBELF_COPY_U32 (\<lambda>v h. h\<lparr>sh_addr := v\<rparr>) (sh_addr s)
           (LIBELF_COPY_U32 (\<lambda>v h. h\<lparr>sh_flags := v\<rparr>) (sh_flags s)
            (h\<lparr>sh_name := sh_name s, sh_type := sh_type s\<rparr>, True)))))))"

definition gelf_update_shdr :: "addr \<Rightarrow> addr \<Rightarrow> libelf \<Rightarrow> (bool \<times> libelf) option" where
  "gelf_update_shdr scn s l =
    (if s = NULL \<or> scn = NULL then Some (False, LIBELF_SET_ERROR ELF_E_ARGUMENT 0 l)
     else do {
       S \<leftarrow> scns l scn;
       if s_elf S = NULL then Some (False, LIBELF_SET_ERROR ELF_E_ARGUMENT 0 l)
       else do {
         E \<leftarrow> elfs l (s_elf S);
         let ec = e_class E;
         if e_kind E \<noteq> ELF_K_ELF \<or> (ec \<noteq> ELFCLASS32 \<and> ec \<noteq> ELFCLASS64) then
           Some (False, LIBELF_SET_ERROR ELF_E_ARGUMENT 0 l)
         else if e_cmd E = ELF_C_READ then Some (False, LIBELF_SET_ERROR ELF_E_MODE 0 l)
         else do {
           (_, l) \<leftarrow> elf_flagscn scn ELF_C_SET ELF_F_DIRTY l;
           if ec = ELFCLASS64 then Some (True, wr Elf64_Shdr_bytes scn (shdr64 l s) l)
           else let
             (h, ok) = narrow_shdr (shdr64 l s) (shdr32 l scn);
             l = wr Elf32_Shdr_bytes scn h l
           in Some (ok, if ok then l else LIBELF_SET_ERROR ELF_E_RANGE 0 l) } } })"

section \<open>Section data\<close>

text \<open>The members \<open>sh_type\<close>, \<open>sh_offset\<close>, \<open>sh_size\<close> and \<open>sh_addralign\<close> of a section of class \<open>ec\<close>.\<close>

definition shdr_members :: "int \<Rightarrow> addr \<Rightarrow> libelf \<Rightarrow> 32 word \<times> nat \<times> nat \<times> nat" where
  "shdr_members ec s l =
    (if ec = ELFCLASS32 then
       (sh_type (shdr32 l s), unat (sh_offset (shdr32 l s)), unat (sh_size (shdr32 l s)), unat (sh_addralign (shdr32 l s)))
     else
       (sh_type (shdr64 l s), unat (sh_offset (shdr64 l s)), unat (sh_size (shdr64 l s)), unat (sh_addralign (shdr64 l s))))"

text \<open>
  The part of \<open>elf_getdata\<close> that brings in the data of a section of type \<open>elftype\<close>; \<open>fill_data\<close> is
  what follows the allocation of the descriptor \<open>d\<close>.
\<close>

definition fill_data :: "addr \<Rightarrow> Elf \<Rightarrow> Elf_Type \<Rightarrow> bool \<Rightarrow> nat \<Rightarrow> nat \<Rightarrow> nat \<Rightarrow> nat \<Rightarrow> addr \<Rightarrow> libelf \<Rightarrow>
    (addr \<times> libelf) option" where
  "fill_data s E elftype nobits shoffset shalign msz count d l =
    (let l = upd_data d (\<lambda>D. D\<lparr>d_buf := NULL, d_off := 0, d_align := shalign, d_size := u64 (msz * count),
               d_type := elftype, d_version := e_elf_version E\<rparr>) l
     in if nobits then Some (d, l)
     else let (buf, l) = malloc (u64 (msz * count)) l
     in if buf = NULL then
       do { l \<leftarrow> libelf_release_data d l; Some (NULL, LIBELF_SET_ERROR ELF_E_RESOURCE 0 l) }
     else let l = upd_data d (\<lambda>D. D\<lparr>d_buf := buf, d_flags := d_flags D OR LIBELF_F_DATA_MALLOCED\<rparr>) l
     in do {
       (ok, l) \<leftarrow> call_xlator elftype ELF_TOMEMORY (e_class E) buf (u64 (msz * count)) (e_rawfile E + shoffset) count
                   (e_byteorder E \<noteq> libelf_byteorder l) l;
       if \<not> ok then
         do { l \<leftarrow> libelf_release_data d l; Some (NULL, LIBELF_SET_ERROR ELF_E_DATA 0 l) }
       else Some (d, upd_scn s (\<lambda>S. S\<lparr>s_data := s_data S @ [d]\<rparr>) l) })"

definition load_data :: "addr \<Rightarrow> Elf \<Rightarrow> Elf_Type \<Rightarrow> bool \<Rightarrow> nat \<Rightarrow> nat \<Rightarrow> nat \<Rightarrow> libelf \<Rightarrow> (addr \<times> libelf) option" where
  "load_data s E elftype nobits shoffset shsize shalign l =
    (let
       elfclass = e_class E;
       (fsz, err) = (if elfclass = ELFCLASS32 then elf32_fsize elftype 1 (e_elf_version E)
                     else elf64_fsize elftype 1 (e_elf_version E));
       l = set_error_option err l
     in if fsz = 0 then Some (NULL, LIBELF_SET_ERROR ELF_E_UNIMPL 0 l)
     else if shsize mod fsz \<noteq> 0 then Some (NULL, LIBELF_SET_ERROR ELF_E_SECTION 0 l)
     else let count = shsize div fsz
     in do {
       (msz, err) \<leftarrow> libelf_msize elftype elfclass (e_elf_version E);
       let l = set_error_option err l;
       if msz = 0 then None
       else let (d, l) = libelf_allocate_data s l
       in if d = NULL then Some (NULL, l)
       else fill_data s E elftype nobits shoffset shalign msz count d l })"

definition elf_getdata :: "addr \<Rightarrow> addr \<Rightarrow> libelf \<Rightarrow> (addr \<times> libelf) option" where
  "elf_getdata s d l =
    (if s = NULL then Some (NULL, LIBELF_SET_ERROR ELF_E_ARGUMENT 0 l)
     else do {
       S \<leftarrow> scns l s;
       if s_elf S = NULL then Some (NULL, LIBELF_SET_ERROR ELF_E_ARGUMENT 0 l)
       else do {
         E \<leftarrow> elfs l (s_elf S);
         foreign \<leftarrow> (if d \<noteq> NULL then map_option (\<lambda>D. s \<noteq> d_scn D) (datas l d) else Some False);
         if foreign then Some (NULL, LIBELF_SET_ERROR ELF_E_ARGUMENT 0 l)
         else if e_kind E \<noteq> ELF_K_ELF then None
         else if d = NULL \<and> s_data S \<noteq> [] then Some (hd (s_data S), l)
         else if d \<noteq> NULL then Some (stailq_next d (s_data S), l)
         else if e_rawfile E = NULL then Some (NULL, LIBELF_SET_ERROR ELF_E_ARGUMENT 0 l)
         else if \<not> (e_class E = ELFCLASS32 \<or> e_class E = ELFCLASS64) then None
         else let (shtype, shoffset, shsize, shalign) = shdr_members (e_class E) s l
         in if shtype = SHT_NULL then Some (NULL, l)
         else case libelf_xlate_shtype shtype of
           None \<Rightarrow> Some (NULL, LIBELF_SET_ERROR ELF_E_SECTION 0 l)
         | Some elftype \<Rightarrow>
             if shtype \<noteq> SHT_NOBITS \<and> u64 (shoffset + shsize) > e_rawsize E then
               Some (NULL, LIBELF_SET_ERROR ELF_E_SECTION 0 l)
             else load_data s E elftype (shtype = SHT_NOBITS) shoffset shsize shalign l } })"

definition elf_newdata :: "addr \<Rightarrow> libelf \<Rightarrow> (addr \<times> libelf) option" where
  "elf_newdata s l =
    (if s = NULL then Some (NULL, LIBELF_SET_ERROR ELF_E_ARGUMENT 0 l)
     else do {
       S \<leftarrow> scns l s;
       if s_elf S = NULL then Some (NULL, LIBELF_SET_ERROR ELF_E_ARGUMENT 0 l)
       else do {
         E \<leftarrow> elfs l (s_elf S);
         if e_kind E \<noteq> ELF_K_ELF then None
         else do {
           (ok, l) \<leftarrow> (if e_rawfile E \<noteq> NULL \<and> s_size S > 0 \<and> s_data S = []
                       then do { (d, l) \<leftarrow> elf_getdata s NULL l; Some (d \<noteq> NULL, l) }
                       else Some (True, l));
           if \<not> ok then Some (NULL, l)
           else let (d, l) = libelf_allocate_data s l
           in if d = NULL then Some (NULL, l)
           else do {
             let l = upd_scn s (\<lambda>S. S\<lparr>s_data := s_data S @ [d]\<rparr>) l;
             let l = upd_data d (\<lambda>D. D\<lparr>d_align := 1, d_buf := NULL, d_off := 2 ^ 64 - 1, d_size := 0,
                       d_type := ELF_T_BYTE, d_version := libelf_version l\<rparr>) l;
             (_, l) \<leftarrow> elf_flagscn s ELF_C_SET ELF_F_DIRTY l;
             Some (d, l) } } } })"

definition elf_rawdata :: "addr \<Rightarrow> addr \<Rightarrow> libelf \<Rightarrow> (addr \<times> libelf) option" where
  "elf_rawdata s d l =
    (if s = NULL then Some (NULL, LIBELF_SET_ERROR ELF_E_ARGUMENT 0 l)
     else do {
       S \<leftarrow> scns l s;
       if s_elf S = NULL then Some (NULL, LIBELF_SET_ERROR ELF_E_ARGUMENT 0 l)
       else do {
         E \<leftarrow> elfs l (s_elf S);
         if e_rawfile E = NULL then Some (NULL, LIBELF_SET_ERROR ELF_E_ARGUMENT 0 l)
         else if e_kind E \<noteq> ELF_K_ELF then None
         else if d = NULL \<and> s_rawdata S \<noteq> [] then Some (hd (s_rawdata S), l)
         else if d \<noteq> NULL then Some (stailq_next d (s_rawdata S), l)
         else if \<not> (e_class E = ELFCLASS32 \<or> e_class E = ELFCLASS64) then None
         else let (shtype, shoffset, shsize, shalign) = shdr_members (e_class E) s l
         in if shtype = SHT_NULL then Some (NULL, l)
         else let (d, l) = libelf_allocate_data s l
         in if d = NULL then Some (NULL, l)
         else let l = upd_data d (\<lambda>D. D\<lparr>d_buf := (if shtype = SHT_NOBITS then NULL else e_rawfile E + shoffset),
                        d_off := 0, d_align := shalign, d_size := shsize, d_type := ELF_T_BYTE,
                        d_version := e_elf_version E\<rparr>) l
         in Some (d, upd_scn s (\<lambda>S. S\<lparr>s_rawdata := s_rawdata S @ [d]\<rparr>) l) } })"

section \<open>Strings\<close>

text \<open>The loop of \<open>elf_strptr\<close> for objects whose layout the application determines.\<close>

partial_function (option) strptr_layout :: "addr \<Rightarrow> addr \<Rightarrow> nat \<Rightarrow> libelf \<Rightarrow> (addr \<times> libelf) option" where
  "strptr_layout s d offset l =
    do {
      (d, l) \<leftarrow> elf_getdata s d l;
      if d = NULL then Some (NULL, LIBELF_SET_ERROR ELF_E_ARGUMENT 0 l)
      else do {
        D \<leftarrow> datas l d;
        if d_buf D = NULL \<or> d_size D = 0 then strptr_layout s d offset l
        else if d_type D \<noteq> ELF_T_BYTE then Some (NULL, LIBELF_SET_ERROR ELF_E_DATA 0 l)
        else if offset \<ge> d_off D \<and> offset < u64 (d_off D + d_size D) then
          Some (d_buf D + (offset - d_off D), l)
        else strptr_layout s d offset l } }"

definition roundup2 :: "nat \<Rightarrow> nat \<Rightarrow> nat" where
  "roundup2 x y = u64 (u64 (x + (y - 1)) div y * y)"

definition not_power_of_2 :: "nat \<Rightarrow> bool" where
  "not_power_of_2 n \<longleftrightarrow> (of_nat n :: 64 word) AND (of_nat n - 1) \<noteq> 0"

text \<open>The other loop, which computes offsets with the holes that alignment leaves.\<close>

partial_function (option) strptr_holes :: "addr \<Rightarrow> addr \<Rightarrow> nat \<Rightarrow> nat \<Rightarrow> libelf \<Rightarrow> (addr \<times> libelf) option" where
  "strptr_holes s d count offset l =
    do {
      (d, l) \<leftarrow> elf_getdata s d l;
      if \<not> (d \<noteq> NULL \<and> count \<le> offset) then Some (NULL, LIBELF_SET_ERROR ELF_E_ARGUMENT 0 l)
      else do {
        D \<leftarrow> datas l d;
        if d_buf D = NULL \<or> d_size D = 0 then strptr_holes s d count offset l
        else if d_type D \<noteq> ELF_T_BYTE then Some (NULL, LIBELF_SET_ERROR ELF_E_DATA 0 l)
        else if d_align D > 1 \<and> not_power_of_2 (d_align D) then Some (NULL, LIBELF_SET_ERROR ELF_E_DATA 0 l)
        else let count = (if d_align D > 1 then roundup2 count (d_align D) else count)
        in if offset < count then Some (NULL, LIBELF_SET_ERROR ELF_E_ARGUMENT 0 l)
        else if offset < u64 (count + d_size D) then Some (d_buf D + (offset - count), l)
        else strptr_holes s d (u64 (count + d_size D)) offset l } }"

definition elf_strptr :: "addr \<Rightarrow> nat \<Rightarrow> nat \<Rightarrow> libelf \<Rightarrow> (addr \<times> libelf) option" where
  "elf_strptr e scndx offset l =
    (if e = NULL then Some (NULL, LIBELF_SET_ERROR ELF_E_ARGUMENT 0 l)
     else do {
       E \<leftarrow> elfs l e;
       if e_kind E \<noteq> ELF_K_ELF then Some (NULL, LIBELF_SET_ERROR ELF_E_ARGUMENT 0 l)
       else do {
         (s, l) \<leftarrow> elf_getscn e scndx l;
         if s = NULL then Some (NULL, l)
         else do {
           (v, l) \<leftarrow> gelf_shdr_value s l;
           case v of
             None \<Rightarrow> Some (NULL, l)
           | Some shdr \<Rightarrow>
               if sh_type shdr \<noteq> SHT_STRTAB \<or> offset \<ge> unat (sh_size shdr) then
                 Some (NULL, LIBELF_SET_ERROR ELF_E_ARGUMENT 0 l)
               else do {
                 E \<leftarrow> elfs l e;
                 if e_elf_flags E AND ELF_F_LAYOUT \<noteq> 0 then strptr_layout s NULL offset l
                 else strptr_holes s NULL 0 offset l } } } })"

section \<open>Checksum\<close>

text \<open>\<open>unsigned long\<close> is 64 bits wide.\<close>

definition libelf_sum :: "nat \<Rightarrow> memory \<Rightarrow> addr \<Rightarrow> nat \<Rightarrow> nat" where
  "libelf_sum c m s sz =
    (if s = NULL \<or> sz = 0 then c
     else foldl (\<lambda>c b. u64 (c + unat b)) c (bytes_at m s sz))"

text \<open>\<open>while ((d = elf_rawdata(scn, d)) != NULL)\<close>; a section has one raw data descriptor.\<close>

partial_function (option) sum_rawdata :: "addr \<Rightarrow> addr \<Rightarrow> nat \<Rightarrow> libelf \<Rightarrow> (nat \<times> libelf) option" where
  "sum_rawdata scn d checksum l =
    do {
      (d, l) \<leftarrow> elf_rawdata scn d l;
      if d = NULL then Some (checksum, l)
      else do {
        D \<leftarrow> datas l d;
        sum_rawdata scn d (libelf_sum checksum (mem l) (d_buf D) (d_size D)) l } }"

abbreviation (input) SHF_ALLOC :: "64 word" where "SHF_ALLOC \<equiv> 2"

text \<open>
  The loop over the \<open>n\<close> sections from \<open>shn\<close> on; \<open>None\<close> for the sum is the early return of 0.
\<close>

primrec checksum_loop :: "nat \<Rightarrow> nat \<Rightarrow> addr \<Rightarrow> nat \<Rightarrow> libelf \<Rightarrow> (nat option \<times> libelf) option" where
  "checksum_loop 0 shn e checksum l = Some (Some checksum, l)"
| "checksum_loop (Suc n) shn e checksum l =
    do {
      (scn, l) \<leftarrow> elf_getscn e shn l;
      if scn = NULL then Some (None, l)
      else do {
        (v, l) \<leftarrow> gelf_shdr_value scn l;
        case v of
          None \<Rightarrow> Some (None, l)
        | Some shdr \<Rightarrow>
            if sh_flags shdr AND SHF_ALLOC = 0 \<or> sh_type shdr = SHT_DYNAMIC \<or> sh_type shdr = SHT_DYNSYM then
              checksum_loop n (Suc shn) e checksum l
            else do {
              (checksum, l) \<leftarrow> sum_rawdata scn NULL checksum l;
              checksum_loop n (Suc shn) e checksum l } } }"

end
