(* ===== verification/Libelf_Gelf.thy ===== *)
theory Libelf_Gelf
  imports Libelf_Data
begin

text \<open>
  The class-independent API: \<open>gelf_ehdr.c\<close>, \<open>gelf_phdr.c\<close>, \<open>gelf_sym.c\<close>, \<open>gelf_rel.c\<close>,
  \<open>gelf_rela.c\<close>, \<open>gelf_dyn.c\<close>, \<open>gelf_move.c\<close>, \<open>gelf_cap.c\<close>, \<open>gelf_syminfo.c\<close>, \<open>gelf_symshndx.c\<close>,
  \<open>libelf_checksum.c\<close> and \<open>gelf_checksum.c\<close>.  The structures \<open>GElf_*\<close> are the 64-bit structures.
  The functions that read and update one entry of a section have the same text except for
  the type and the assignment of the members; \<open>gelf_get\<close> and \<open>gelf_update\<close> are that text.
\<close>

section \<open>The executable header\<close>

definition elf32_getehdr :: "addr \<Rightarrow> libelf \<Rightarrow> (addr \<times> libelf) option" where
  "elf32_getehdr e l = libelf_ehdr e ELFCLASS32 False l"

definition elf64_getehdr :: "addr \<Rightarrow> libelf \<Rightarrow> (addr \<times> libelf) option" where
  "elf64_getehdr e l = libelf_ehdr e ELFCLASS64 False l"

definition widen_ehdr :: "Elf32_Ehdr \<Rightarrow> Elf64_Ehdr" where
  "widen_ehdr h =
     \<lparr>e_ident = e_ident h, e_type = e_type h, e_machine = e_machine h, e_version = e_version h,
      e_entry = ucast (e_entry h), e_phoff = ucast (e_phoff h), e_shoff = ucast (e_shoff h),
      e_flags = e_flags h, e_ehsize = e_ehsize h, e_phentsize = e_phentsize h, e_phnum = e_phnum h,
      e_shentsize = e_shentsize h, e_shnum = e_shnum h, e_shstrndx = e_shstrndx h\<rparr>"

text \<open>The value that \<open>gelf_getehdr\<close> stores, for callers that pass a local variable.\<close>

definition gelf_ehdr_value :: "addr \<Rightarrow> libelf \<Rightarrow> (Elf64_Ehdr option \<times> libelf) option" where
  "gelf_ehdr_value e l =
    (if e = NULL then Some (None, LIBELF_SET_ERROR ELF_E_ARGUMENT 0 l)
     else do {
       E \<leftarrow> elfs l e;
       let ec = e_class E;
       if ec \<noteq> ELFCLASS32 \<and> ec \<noteq> ELFCLASS64 then Some (None, LIBELF_SET_ERROR ELF_E_ARGUMENT 0 l)
       else do {
         (eh, l) \<leftarrow> libelf_ehdr e ec False l;
         if eh = NULL then Some (None, l)
         else Some (Some (if ec = ELFCLASS32 then widen_ehdr (ehdr32 l eh) else ehdr64 l eh), l) } })"

definition gelf_getehdr :: "addr \<Rightarrow> addr \<Rightarrow> libelf \<Rightarrow> (addr \<times> libelf) option" where
  "gelf_getehdr e d l =
    (if d = NULL then Some (NULL, LIBELF_SET_ERROR ELF_E_ARGUMENT 0 l)
     else do {
       (v, l) \<leftarrow> gelf_ehdr_value e l;
       case v of None \<Rightarrow> Some (NULL, l) | Some h \<Rightarrow> Some (d, wr Elf64_Ehdr_bytes d h l) })"

definition elf32_newehdr :: "addr \<Rightarrow> libelf \<Rightarrow> (addr \<times> libelf) option" where
  "elf32_newehdr e l = libelf_ehdr e ELFCLASS32 True l"

definition elf64_newehdr :: "addr \<Rightarrow> libelf \<Rightarrow> (addr \<times> libelf) option" where
  "elf64_newehdr e l = libelf_ehdr e ELFCLASS64 True l"

definition gelf_newehdr :: "addr \<Rightarrow> int \<Rightarrow> libelf \<Rightarrow> (addr \<times> libelf) option" where
  "gelf_newehdr e ec l =
    (if e \<noteq> NULL \<and> (ec = ELFCLASS32 \<or> ec = ELFCLASS64) then libelf_ehdr e ec True l
     else Some (NULL, LIBELF_SET_ERROR ELF_E_ARGUMENT 0 l))"

definition narrow_ehdr :: "Elf64_Ehdr \<Rightarrow> Elf32_Ehdr \<Rightarrow> Elf32_Ehdr \<times> bool" where
  "narrow_ehdr s h =
     assign (\<lambda>h. h\<lparr>e_flags := e_flags s, e_ehsize := e_ehsize s, e_phentsize := e_phentsize s, e_phnum := e_phnum s,
                  e_shentsize := e_shentsize s, e_shnum := e_shnum s, e_shstrndx := e_shstrndx s\<rparr>)
      (LIBELF_COPY_U32 (\<lambda>v h. h\<lparr>e_shoff := v\<rparr>) (e_shoff s)
       (LIBELF_COPY_U32 (\<lambda>v h. h\<lparr>e_phoff := v\<rparr>) (e_phoff s)
        (LIBELF_COPY_U32 (\<lambda>v h. h\<lparr>e_entry := v\<rparr>) (e_entry s)
         (h\<lparr>e_ident := e_ident s, e_type := e_type s, e_machine := e_machine s, e_version := e_version s\<rparr>, True))))"

definition gelf_update_ehdr :: "addr \<Rightarrow> addr \<Rightarrow> libelf \<Rightarrow> (bool \<times> libelf) option" where
  "gelf_update_ehdr e s l =
    (if s = NULL \<or> e = NULL then Some (False, LIBELF_SET_ERROR ELF_E_ARGUMENT 0 l)
     else do {
       E \<leftarrow> elfs l e;
       let ec = e_class E;
       if e_kind E \<noteq> ELF_K_ELF \<or> (ec \<noteq> ELFCLASS32 \<and> ec \<noteq> ELFCLASS64) then
         Some (False, LIBELF_SET_ERROR ELF_E_ARGUMENT 0 l)
       else if e_cmd E = ELF_C_READ then Some (False, LIBELF_SET_ERROR ELF_E_MODE 0 l)
       else do {
         (ehdr, l) \<leftarrow> libelf_ehdr e ec False l;
         if ehdr = NULL then Some (False, l)
         else do {
           (_, l) \<leftarrow> elf_flagehdr e ELF_C_SET ELF_F_DIRTY l;
           if ec = ELFCLASS64 then Some (True, wr Elf64_Ehdr_bytes ehdr (ehdr64 l s) l)
           else let
             (h, ok) = narrow_ehdr (ehdr64 l s) (ehdr32 l ehdr);
             l = wr Elf32_Ehdr_bytes ehdr h l
           in Some (ok, if ok then l else LIBELF_SET_ERROR ELF_E_RANGE 0 l) } } })"

section \<open>The program header table\<close>

definition elf32_getphdr :: "addr \<Rightarrow> libelf \<Rightarrow> (addr \<times> libelf) option" where
  "elf32_getphdr e l = libelf_getphdr e ELFCLASS32 l"

definition elf64_getphdr :: "addr \<Rightarrow> libelf \<Rightarrow> (addr \<times> libelf) option" where
  "elf64_getphdr e l = libelf_getphdr e ELFCLASS64 l"

definition widen_phdr :: "Elf32_Phdr \<Rightarrow> Elf64_Phdr" where
  "widen_phdr h =
     \<lparr>p_type = p_type h, p_offset = ucast (p_offset h), p_vaddr = ucast (p_vaddr h), p_paddr = ucast (p_paddr h),
      p_filesz = ucast (p_filesz h), p_memsz = ucast (p_memsz h), p_flags = p_flags h, p_align = ucast (p_align h)\<rparr>"

definition gelf_getphdr :: "addr \<Rightarrow> int \<Rightarrow> addr \<Rightarrow> libelf \<Rightarrow> (addr \<times> libelf) option" where
  "gelf_getphdr e index d l =
    (if d = NULL \<or> e = NULL then Some (NULL, LIBELF_SET_ERROR ELF_E_ARGUMENT 0 l)
     else do {
       E \<leftarrow> elfs l e;
       let ec = e_class E;
       if (ec \<noteq> ELFCLASS32 \<and> ec \<noteq> ELFCLASS64) \<or> e_kind E \<noteq> ELF_K_ELF \<or> index < 0 then
         Some (NULL, LIBELF_SET_ERROR ELF_E_ARGUMENT 0 l)
       else do {
         (eh, l) \<leftarrow> libelf_ehdr e ec False l;
         if eh = NULL then Some (NULL, l)
         else do {
           (ep, l) \<leftarrow> libelf_getphdr e ec l;
           if ep = NULL then Some (NULL, l)
           else if index \<ge> (if ec = ELFCLASS32 then uint (e_phnum (ehdr32 l eh)) else uint (e_phnum (ehdr64 l eh))) then
             Some (NULL, LIBELF_SET_ERROR ELF_E_ARGUMENT 0 l)
           else if ec = ELFCLASS32 then
             Some (d, wr Elf64_Phdr_bytes d
               (widen_phdr (rd Elf32_Phdr_of sizeof_Elf32_Phdr (ep + nat index * sizeof_Elf32_Phdr) l)) l)
           else
             Some (d, wr Elf64_Phdr_bytes d
               (rd Elf64_Phdr_of sizeof_Elf64_Phdr (ep + nat index * sizeof_Elf64_Phdr) l) l) } } })"

definition elf32_newphdr :: "addr \<Rightarrow> nat \<Rightarrow> libelf \<Rightarrow> (addr \<times> libelf) option" where
  "elf32_newphdr e count l = libelf_newphdr e ELFCLASS32 count l"

definition elf64_newphdr :: "addr \<Rightarrow> nat \<Rightarrow> libelf \<Rightarrow> (addr \<times> libelf) option" where
  "elf64_newphdr e count l = libelf_newphdr e ELFCLASS64 count l"

definition gelf_newphdr :: "addr \<Rightarrow> nat \<Rightarrow> libelf \<Rightarrow> (addr \<times> libelf) option" where
  "gelf_newphdr e count l =
    (if e = NULL then Some (NULL, LIBELF_SET_ERROR ELF_E_ARGUMENT 0 l)
     else do { E \<leftarrow> elfs l e; libelf_newphdr e (e_class E) count l })"

definition narrow_phdr :: "Elf64_Phdr \<Rightarrow> Elf32_Phdr \<Rightarrow> Elf32_Phdr \<times> bool" where
  "narrow_phdr s h =
     LIBELF_COPY_U32 (\<lambda>v h. h\<lparr>p_align := v\<rparr>) (p_align s)
      (LIBELF_COPY_U32 (\<lambda>v h. h\<lparr>p_memsz := v\<rparr>) (p_memsz s)
       (LIBELF_COPY_U32 (\<lambda>v h. h\<lparr>p_filesz := v\<rparr>) (p_filesz s)
        (LIBELF_COPY_U32 (\<lambda>v h. h\<lparr>p_paddr := v\<rparr>) (p_paddr s)
         (LIBELF_COPY_U32 (\<lambda>v h. h\<lparr>p_vaddr := v\<rparr>) (p_vaddr s)
          (LIBELF_COPY_U32 (\<lambda>v h. h\<lparr>p_offset := v\<rparr>) (p_offset s)
           (h\<lparr>p_type := p_type s, p_flags := p_flags s\<rparr>, True))))))"

definition gelf_update_phdr :: "addr \<Rightarrow> int \<Rightarrow> addr \<Rightarrow> libelf \<Rightarrow> (bool \<times> libelf) option" where
  "gelf_update_phdr e ndx s l =
    (if s = NULL \<or> e = NULL then Some (False, LIBELF_SET_ERROR ELF_E_ARGUMENT 0 l)
     else do {
       E \<leftarrow> elfs l e;
       let ec = e_class E;
       if e_kind E \<noteq> ELF_K_ELF \<or> (ec \<noteq> ELFCLASS32 \<and> ec \<noteq> ELFCLASS64) then
         Some (False, LIBELF_SET_ERROR ELF_E_ARGUMENT 0 l)
       else if e_cmd E = ELF_C_READ then Some (False, LIBELF_SET_ERROR ELF_E_MODE 0 l)
       else do {
         (ehdr, l) \<leftarrow> libelf_ehdr e ec False l;
         if ehdr = NULL then Some (False, l)
         else let phnum = (if ec = ELFCLASS32 then uint (e_phnum (ehdr32 l ehdr)) else uint (e_phnum (ehdr64 l ehdr)))
         in if ndx < 0 \<or> ndx > phnum then Some (False, LIBELF_SET_ERROR ELF_E_ARGUMENT 0 l)
         else do {
           (_, l) \<leftarrow> elf_flagphdr e ELF_C_SET ELF_F_DIRTY l;
           E \<leftarrow> elfs l e;
           let gp = rd Elf64_Phdr_of sizeof_Elf64_Phdr s l;
           if e_phdr E = NULL then None
           else if ec = ELFCLASS64 then
             Some (True, wr Elf64_Phdr_bytes (e_phdr E + nat ndx * sizeof_Elf64_Phdr) gp l)
           else let
             ph32 = e_phdr E + nat ndx * sizeof_Elf32_Phdr;
             (h, ok) = narrow_phdr gp (rd Elf32_Phdr_of sizeof_Elf32_Phdr ph32 l);
             l = wr Elf32_Phdr_bytes ph32 h l
           in Some (ok, if ok then l else LIBELF_SET_ERROR ELF_E_RANGE 0 l) } } })"

section \<open>Entries of sections\<close>

text \<open>
  The checks at the start of every function on entries: \<open>Some (ec, p)\<close> is the class of the
  object and the address of the entry, \<open>None\<close> the failure with the error number set.  An
  access through a null pointer is the outer \<open>None\<close>.
\<close>

definition gelf_entry :: "Elf_Type \<Rightarrow> addr \<Rightarrow> int \<Rightarrow> addr \<Rightarrow> libelf \<Rightarrow> ((int \<times> addr) option \<times> libelf) option" where
  "gelf_entry t d ndx dst l =
    (if d = NULL \<or> ndx < 0 \<or> dst = NULL then Some (None, LIBELF_SET_ERROR ELF_E_ARGUMENT 0 l)
     else do {
       D \<leftarrow> datas l d;
       let scn = d_scn D;
       if scn = NULL then Some (None, LIBELF_SET_ERROR ELF_E_ARGUMENT 0 l)
       else do {
         S \<leftarrow> scns l scn;
         if s_elf S = NULL then Some (None, LIBELF_SET_ERROR ELF_E_ARGUMENT 0 l)
         else do {
           E \<leftarrow> elfs l (s_elf S);
           let ec = e_class E;
           if \<not> (ec = ELFCLASS32 \<or> ec = ELFCLASS64) then None
           else let shtype = (if ec = ELFCLASS32 then sh_type (shdr32 l scn) else sh_type (shdr64 l scn))
           in if libelf_xlate_shtype shtype \<noteq> Some t then Some (None, LIBELF_SET_ERROR ELF_E_ARGUMENT 0 l)
           else do {
             (msz, err) \<leftarrow> libelf_msize t ec (e_elf_version E);
             let l = set_error_option err l;
             if msz = 0 then None
             else if u64 (msz * nat ndx) \<ge> d_size D then Some (None, LIBELF_SET_ERROR ELF_E_ARGUMENT 0 l)
             else if d_buf D = NULL then None
             else Some (Some (ec, d_buf D + nat ndx * msz), l) } } } })"

definition gelf_get :: "Elf_Type \<Rightarrow> (bool \<Rightarrow> byte list \<Rightarrow> 'n) \<Rightarrow> (bool \<Rightarrow> byte list \<Rightarrow> 'w) \<Rightarrow> (bool \<Rightarrow> 'w \<Rightarrow> byte list) \<Rightarrow>
    nat \<Rightarrow> nat \<Rightarrow> ('n \<Rightarrow> 'w) \<Rightarrow> addr \<Rightarrow> int \<Rightarrow> addr \<Rightarrow> libelf \<Rightarrow> (addr \<times> libelf) option" where
  "gelf_get t of32 of64 to64 sz32 sz64 widen d ndx dst l =
    do {
      (r, l) \<leftarrow> gelf_entry t d ndx dst l;
      case r of
        None \<Rightarrow> Some (NULL, l)
      | Some (ec, p) \<Rightarrow>
          Some (dst, wr to64 dst (if ec = ELFCLASS32 then widen (rd of32 sz32 p l) else rd of64 sz64 p l) l) }"

definition gelf_update :: "Elf_Type \<Rightarrow> (bool \<Rightarrow> byte list \<Rightarrow> 'n) \<Rightarrow> (bool \<Rightarrow> 'n \<Rightarrow> byte list) \<Rightarrow> (bool \<Rightarrow> byte list \<Rightarrow> 'w) \<Rightarrow>
    (bool \<Rightarrow> 'w \<Rightarrow> byte list) \<Rightarrow> nat \<Rightarrow> nat \<Rightarrow> ('w \<Rightarrow> 'n \<Rightarrow> 'n \<times> bool) \<Rightarrow> addr \<Rightarrow> int \<Rightarrow> addr \<Rightarrow> libelf \<Rightarrow>
    (bool \<times> libelf) option" where
  "gelf_update t of32 to32 of64 to64 sz32 sz64 narrow d ndx src l =
    do {
      (r, l) \<leftarrow> gelf_entry t d ndx src l;
      case r of
        None \<Rightarrow> Some (False, l)
      | Some (ec, p) \<Rightarrow>
          let g = rd of64 sz64 src l
          in if ec = ELFCLASS32 then
            let (h, ok) = narrow g (rd of32 sz32 p l);
                l = wr to32 p h l
            in Some (ok, if ok then l else LIBELF_SET_ERROR ELF_E_RANGE 0 l)
          else Some (True, wr to64 p g l) }"

subsection \<open>Symbols\<close>

definition ELF32_ST_BIND :: "byte \<Rightarrow> byte" where "ELF32_ST_BIND i = drop_bit 4 i"
definition ELF32_ST_TYPE :: "byte \<Rightarrow> byte" where "ELF32_ST_TYPE i = i AND 0xF"
definition ELF64_ST_INFO :: "byte \<Rightarrow> byte \<Rightarrow> byte" where "ELF64_ST_INFO b t = push_bit 4 b + (t AND 0xF)"

definition widen_sym :: "Elf32_Sym \<Rightarrow> Elf64_Sym" where
  "widen_sym s =
     \<lparr>st_name = st_name s, st_value = ucast (st_value s), st_size = ucast (st_size s),
      st_info = ELF64_ST_INFO (ELF32_ST_BIND (st_info s)) (ELF32_ST_TYPE (st_info s)),
      st_other = st_other s, st_shndx = st_shndx s\<rparr>"

definition narrow_sym :: "Elf64_Sym \<Rightarrow> Elf32_Sym \<Rightarrow> Elf32_Sym \<times> bool" where
  "narrow_sym gs s =
     LIBELF_COPY_U32 (\<lambda>v s. s\<lparr>st_size := v\<rparr>) (st_size gs)
      (LIBELF_COPY_U32 (\<lambda>v s. s\<lparr>st_value := v\<rparr>) (st_value gs)
       (s\<lparr>st_name := st_name gs, st_info := st_info gs, st_other := st_other gs, st_shndx := st_shndx gs\<rparr>, True))"

definition gelf_getsym :: "addr \<Rightarrow> int \<Rightarrow> addr \<Rightarrow> libelf \<Rightarrow> (addr \<times> libelf) option" where
  "gelf_getsym = gelf_get ELF_T_SYM Elf32_Sym_of Elf64_Sym_of Elf64_Sym_bytes sizeof_Elf32_Sym sizeof_Elf64_Sym widen_sym"

definition gelf_update_sym :: "addr \<Rightarrow> int \<Rightarrow> addr \<Rightarrow> libelf \<Rightarrow> (bool \<times> libelf) option" where
  "gelf_update_sym = gelf_update ELF_T_SYM Elf32_Sym_of Elf32_Sym_bytes Elf64_Sym_of Elf64_Sym_bytes
     sizeof_Elf32_Sym sizeof_Elf64_Sym narrow_sym"

subsection \<open>Relocations\<close>

definition ELF32_R_SYM :: "'a::len word \<Rightarrow> 'a word" where "ELF32_R_SYM i = drop_bit 8 i"
definition ELF32_R_TYPE :: "'a::len word \<Rightarrow> byte" where "ELF32_R_TYPE i = ucast i"
definition ELF32_R_INFO :: "64 word \<Rightarrow> 64 word \<Rightarrow> 64 word" where
  "ELF32_R_INFO s t = push_bit 8 s + ucast (ucast t :: byte)"
definition ELF64_R_SYM :: "64 word \<Rightarrow> 64 word" where "ELF64_R_SYM i = drop_bit 32 i"
definition ELF64_R_TYPE :: "64 word \<Rightarrow> 64 word" where "ELF64_R_TYPE i = i AND 0xFFFFFFFF"
definition ELF64_R_INFO :: "64 word \<Rightarrow> 64 word \<Rightarrow> 64 word" where
  "ELF64_R_INFO s t = push_bit 32 s + (t AND 0xFFFFFFFF)"

definition widen_r_info :: "32 word \<Rightarrow> 64 word" where
  "widen_r_info i = ELF64_R_INFO (ucast (ELF32_R_SYM i)) (ucast (ELF32_R_TYPE i))"

text \<open>
  The check of the range of \<open>r_info\<close> and its assignment; \<open>~0UL\<close> is 64 bits wide and \<open>~0U\<close> 32.
\<close>

definition narrow_r_info :: "(32 word \<Rightarrow> 'a \<Rightarrow> 'a) \<Rightarrow> 64 word \<Rightarrow> 'a \<times> bool \<Rightarrow> 'a \<times> bool" where
  "narrow_r_info f i h =
    (if \<not> snd h then h
     else if ELF64_R_SYM i > ELF32_R_SYM (NOT 0) \<or> ELF64_R_TYPE i > ucast (ELF32_R_TYPE (NOT 0 :: 32 word)) then
       (fst h, False)
     else (f (ucast (ELF32_R_INFO (ELF64_R_SYM i) (ELF64_R_TYPE i))) (fst h), True))"

definition widen_rel :: "Elf32_Rel \<Rightarrow> Elf64_Rel" where
  "widen_rel r = \<lparr>r_offset = ucast (r_offset r), r_info = widen_r_info (r_info r)\<rparr>"

definition narrow_rel :: "Elf64_Rel \<Rightarrow> Elf32_Rel \<Rightarrow> Elf32_Rel \<times> bool" where
  "narrow_rel dr r =
     narrow_r_info (\<lambda>v r. r\<lparr>r_info := v\<rparr>) (r_info dr)
      (LIBELF_COPY_U32 (\<lambda>v r. r\<lparr>r_offset := v\<rparr>) (r_offset dr) (r, True))"

definition gelf_getrel :: "addr \<Rightarrow> int \<Rightarrow> addr \<Rightarrow> libelf \<Rightarrow> (addr \<times> libelf) option" where
  "gelf_getrel = gelf_get ELF_T_REL Elf32_Rel_of Elf64_Rel_of Elf64_Rel_bytes sizeof_Elf32_Rel sizeof_Elf64_Rel widen_rel"

definition gelf_update_rel :: "addr \<Rightarrow> int \<Rightarrow> addr \<Rightarrow> libelf \<Rightarrow> (bool \<times> libelf) option" where
  "gelf_update_rel = gelf_update ELF_T_REL Elf32_Rel_of Elf32_Rel_bytes Elf64_Rel_of Elf64_Rel_bytes
     sizeof_Elf32_Rel sizeof_Elf64_Rel narrow_rel"

definition widen_rela :: "Elf32_Rela \<Rightarrow> Elf64_Rela" where
  "widen_rela r = \<lparr>r_offset = ucast (r_offset r), r_info = widen_r_info (r_info r), r_addend = scast (r_addend r)\<rparr>"

definition narrow_rela :: "Elf64_Rela \<Rightarrow> Elf32_Rela \<Rightarrow> Elf32_Rela \<times> bool" where
  "narrow_rela dr r =
     LIBELF_COPY_S32 (\<lambda>v r. r\<lparr>r_addend := v\<rparr>) (r_addend dr)
      (narrow_r_info (\<lambda>v r. r\<lparr>r_info := v\<rparr>) (r_info dr)
       (LIBELF_COPY_U32 (\<lambda>v r. r\<lparr>r_offset := v\<rparr>) (r_offset dr) (r, True)))"

definition gelf_getrela :: "addr \<Rightarrow> int \<Rightarrow> addr \<Rightarrow> libelf \<Rightarrow> (addr \<times> libelf) option" where
  "gelf_getrela = gelf_get ELF_T_RELA Elf32_Rela_of Elf64_Rela_of Elf64_Rela_bytes sizeof_Elf32_Rela sizeof_Elf64_Rela widen_rela"

definition gelf_update_rela :: "addr \<Rightarrow> int \<Rightarrow> addr \<Rightarrow> libelf \<Rightarrow> (bool \<times> libelf) option" where
  "gelf_update_rela = gelf_update ELF_T_RELA Elf32_Rela_of Elf32_Rela_bytes Elf64_Rela_of Elf64_Rela_bytes
     sizeof_Elf32_Rela sizeof_Elf64_Rela narrow_rela"

subsection \<open>Dynamic entries, moves, capabilities and symbol information\<close>

definition widen_dyn :: "Elf32_Dyn \<Rightarrow> Elf64_Dyn" where
  "widen_dyn d = \<lparr>d_tag = scast (d_tag d), d_ptr = ucast (d_ptr d)\<rparr>"

definition narrow_dyn :: "Elf64_Dyn \<Rightarrow> Elf32_Dyn \<Rightarrow> Elf32_Dyn \<times> bool" where
  "narrow_dyn ds d =
     LIBELF_COPY_U32 (\<lambda>v d. d\<lparr>d_ptr := v\<rparr>) (d_ptr ds)
      (LIBELF_COPY_S32 (\<lambda>v d. d\<lparr>d_tag := v\<rparr>) (d_tag ds) (d, True))"

definition gelf_getdyn :: "addr \<Rightarrow> int \<Rightarrow> addr \<Rightarrow> libelf \<Rightarrow> (addr \<times> libelf) option" where
  "gelf_getdyn = gelf_get ELF_T_DYN Elf32_Dyn_of Elf64_Dyn_of Elf64_Dyn_bytes sizeof_Elf32_Dyn sizeof_Elf64_Dyn widen_dyn"

definition gelf_update_dyn :: "addr \<Rightarrow> int \<Rightarrow> addr \<Rightarrow> libelf \<Rightarrow> (bool \<times> libelf) option" where
  "gelf_update_dyn = gelf_update ELF_T_DYN Elf32_Dyn_of Elf32_Dyn_bytes Elf64_Dyn_of Elf64_Dyn_bytes
     sizeof_Elf32_Dyn sizeof_Elf64_Dyn narrow_dyn"

definition widen_move :: "Elf32_Move \<Rightarrow> Elf64_Move" where
  "widen_move m =
     \<lparr>m_value = m_value m, m_info = ucast (m_info m), m_poffset = ucast (m_poffset m), m_repeat = m_repeat m,
      m_stride = m_stride m\<rparr>"

definition narrow_move :: "Elf64_Move \<Rightarrow> Elf32_Move \<Rightarrow> Elf32_Move \<times> bool" where
  "narrow_move gm m =
     assign (\<lambda>m. m\<lparr>m_repeat := m_repeat gm, m_stride := m_stride gm\<rparr>)
      (LIBELF_COPY_U32 (\<lambda>v m. m\<lparr>m_poffset := v\<rparr>) (m_poffset gm)
       (LIBELF_COPY_U32 (\<lambda>v m. m\<lparr>m_info := v\<rparr>) (m_info gm) (m\<lparr>m_value := m_value gm\<rparr>, True)))"

definition gelf_getmove :: "addr \<Rightarrow> int \<Rightarrow> addr \<Rightarrow> libelf \<Rightarrow> (addr \<times> libelf) option" where
  "gelf_getmove = gelf_get ELF_T_MOVE Elf32_Move_of Elf64_Move_of Elf64_Move_bytes sizeof_Elf32_Move sizeof_Elf64_Move widen_move"

definition gelf_update_move :: "addr \<Rightarrow> int \<Rightarrow> addr \<Rightarrow> libelf \<Rightarrow> (bool \<times> libelf) option" where
  "gelf_update_move = gelf_update ELF_T_MOVE Elf32_Move_of Elf32_Move_bytes Elf64_Move_of Elf64_Move_bytes
     sizeof_Elf32_Move sizeof_Elf64_Move narrow_move"

definition widen_cap :: "Elf32_Cap \<Rightarrow> Elf64_Cap" where
  "widen_cap c = \<lparr>c_tag = ucast (c_tag c), c_val = ucast (c_val c)\<rparr>"

definition narrow_cap :: "Elf64_Cap \<Rightarrow> Elf32_Cap \<Rightarrow> Elf32_Cap \<times> bool" where
  "narrow_cap gc c =
     LIBELF_COPY_U32 (\<lambda>v c. c\<lparr>c_val := v\<rparr>) (c_val gc)
      (LIBELF_COPY_U32 (\<lambda>v c. c\<lparr>c_tag := v\<rparr>) (c_tag gc) (c, True))"

definition gelf_getcap :: "addr \<Rightarrow> int \<Rightarrow> addr \<Rightarrow> libelf \<Rightarrow> (addr \<times> libelf) option" where
  "gelf_getcap = gelf_get ELF_T_CAP Elf32_Cap_of Elf64_Cap_of Elf64_Cap_bytes sizeof_Elf32_Cap sizeof_Elf64_Cap widen_cap"

definition gelf_update_cap :: "addr \<Rightarrow> int \<Rightarrow> addr \<Rightarrow> libelf \<Rightarrow> (bool \<times> libelf) option" where
  "gelf_update_cap = gelf_update ELF_T_CAP Elf32_Cap_of Elf32_Cap_bytes Elf64_Cap_of Elf64_Cap_bytes
     sizeof_Elf32_Cap sizeof_Elf64_Cap narrow_cap"

definition narrow_syminfo :: "Elf64_Syminfo \<Rightarrow> Elf32_Syminfo \<Rightarrow> Elf32_Syminfo \<times> bool" where
  "narrow_syminfo gs s = (s\<lparr>si_boundto := si_boundto gs, si_flags := si_flags gs\<rparr>, True)"

definition widen_syminfo :: "Elf32_Syminfo \<Rightarrow> Elf64_Syminfo" where
  "widen_syminfo s = \<lparr>si_boundto = si_boundto s, si_flags = si_flags s\<rparr>"

definition gelf_getsyminfo :: "addr \<Rightarrow> int \<Rightarrow> addr \<Rightarrow> libelf \<Rightarrow> (addr \<times> libelf) option" where
  "gelf_getsyminfo = gelf_get ELF_T_SYMINFO Elf32_Syminfo_of Elf64_Syminfo_of Elf64_Syminfo_bytes
     sizeof_Elf32_Syminfo sizeof_Elf64_Syminfo widen_syminfo"

definition gelf_update_syminfo :: "addr \<Rightarrow> int \<Rightarrow> addr \<Rightarrow> libelf \<Rightarrow> (bool \<times> libelf) option" where
  "gelf_update_syminfo = gelf_update ELF_T_SYMINFO Elf32_Syminfo_of Elf32_Syminfo_bytes Elf64_Syminfo_of Elf64_Syminfo_bytes
     sizeof_Elf32_Syminfo sizeof_Elf64_Syminfo narrow_syminfo"

subsection \<open>Symbols with extended section indices\<close>

text \<open>
  The check of the index section \<open>id\<close> common to both functions; \<open>typed\<close> is the test of the
  descriptor's data type, \<open>id->d_type\<close> in one function and \<open>d->d_type\<close> in the other.
\<close>

definition xindex_entry :: "(Elf_Data \<Rightarrow> Elf_Data \<Rightarrow> Elf_Type) \<Rightarrow> addr \<Rightarrow> addr \<Rightarrow> int \<Rightarrow> libelf \<Rightarrow>
    (addr option \<times> libelf) option" where
  "xindex_entry typed d idx ndx l =
    (if idx = NULL then Some (None, LIBELF_SET_ERROR ELF_E_ARGUMENT 0 l)
     else do {
       D \<leftarrow> datas l d;
       I \<leftarrow> datas l idx;
       let scn = d_scn I;
       if scn = NULL then Some (None, LIBELF_SET_ERROR ELF_E_ARGUMENT 0 l)
       else do {
         S \<leftarrow> scns l scn;
         if s_elf S = NULL then Some (None, LIBELF_SET_ERROR ELF_E_ARGUMENT 0 l)
         else do {
           SD \<leftarrow> scns l (d_scn D);
           E \<leftarrow> elfs l (s_elf S);
           let ec = e_class E;
           if s_elf S \<noteq> s_elf SD then Some (None, LIBELF_SET_ERROR ELF_E_ARGUMENT 0 l)
           else if \<not> (ec = ELFCLASS32 \<or> ec = ELFCLASS64) then None
           else let shtype = (if ec = ELFCLASS32 then sh_type (shdr32 l scn) else sh_type (shdr64 l scn))
           in if libelf_xlate_shtype shtype \<noteq> Some ELF_T_WORD \<or> typed D I \<noteq> ELF_T_WORD then
             Some (None, LIBELF_SET_ERROR ELF_E_ARGUMENT 0 l)
           else do {
             (msz, err) \<leftarrow> libelf_msize ELF_T_WORD ec (e_elf_version E);
             let l = set_error_option err l;
             if msz = 0 then None
             else if u64 (msz * nat ndx) \<ge> d_size I then Some (None, LIBELF_SET_ERROR ELF_E_ARGUMENT 0 l)
             else if d_buf I = NULL then None
             else Some (Some (d_buf I + nat ndx * 4), l) } } } })"

definition gelf_getsymshndx :: "addr \<Rightarrow> addr \<Rightarrow> int \<Rightarrow> addr \<Rightarrow> addr \<Rightarrow> libelf \<Rightarrow> (addr \<times> libelf) option" where
  "gelf_getsymshndx d idx ndx dst shindex l =
    do {
      (r, l) \<leftarrow> gelf_getsym d ndx dst l;
      if r = NULL then Some (NULL, l)
      else if shindex = NULL then Some (NULL, LIBELF_SET_ERROR ELF_E_ARGUMENT 0 l)
      else do {
        (p, l) \<leftarrow> xindex_entry (\<lambda>D I. d_type I) d idx ndx l;
        case p of
          None \<Rightarrow> Some (NULL, l)
        | Some p \<Rightarrow> Some (dst, wr word_bytes shindex (rd word_of 4 p l) l) } }"

definition gelf_update_symshndx :: "addr \<Rightarrow> addr \<Rightarrow> int \<Rightarrow> addr \<Rightarrow> 32 word \<Rightarrow> libelf \<Rightarrow> (bool \<times> libelf) option" where
  "gelf_update_symshndx d idx ndx gs xindex l =
    do {
      (ok, l) \<leftarrow> gelf_update_sym d ndx gs l;
      if \<not> ok then Some (False, l)
      else do {
        (p, l) \<leftarrow> xindex_entry (\<lambda>D I. d_type D) d idx ndx l;
        case p of
          None \<Rightarrow> Some (False, l)
        | Some p \<Rightarrow> Some (True, wr word_bytes p xindex l) } }"

section \<open>Checksum\<close>

definition libelf_checksum :: "addr \<Rightarrow> int \<Rightarrow> libelf \<Rightarrow> (nat \<times> libelf) option" where
  "libelf_checksum e elfclass l =
    (if e = NULL then Some (0, LIBELF_SET_ERROR ELF_E_ARGUMENT 0 l)
     else do {
       E \<leftarrow> elfs l e;
       if e_class E \<noteq> elfclass then Some (0, LIBELF_SET_ERROR ELF_E_CLASS 0 l)
       else do {
         (eh, l) \<leftarrow> gelf_ehdr_value e l;
         if eh = None then Some (0, l)
         else do {
           E \<leftarrow> elfs l e;
           (c, l) \<leftarrow> checksum_loop (e_nscn E - 1) 1 e 0 l;
           case c of
             None \<Rightarrow> Some (0, l)
           | Some checksum \<Rightarrow> Some (checksum div 2 ^ 16 mod 2 ^ 16 + checksum mod 2 ^ 16, l) } } })"

definition elf32_checksum :: "addr \<Rightarrow> libelf \<Rightarrow> (nat \<times> libelf) option" where
  "elf32_checksum e l = libelf_checksum e ELFCLASS32 l"

definition elf64_checksum :: "addr \<Rightarrow> libelf \<Rightarrow> (nat \<times> libelf) option" where
  "elf64_checksum e l = libelf_checksum e ELFCLASS64 l"

definition gelf_checksum :: "addr \<Rightarrow> libelf \<Rightarrow> (nat \<times> libelf) option" where
  "gelf_checksum e l =
    (if e = NULL then Some (0, LIBELF_SET_ERROR ELF_E_ARGUMENT 0 l)
     else do {
       E \<leftarrow> elfs l e;
       if e_class E \<noteq> ELFCLASS32 \<and> e_class E \<noteq> ELFCLASS64 then Some (0, LIBELF_SET_ERROR ELF_E_ARGUMENT 0 l)
       else libelf_checksum e (e_class E) l })"

section \<open>Lemmas\<close>

lemma wr_simps [simp]:
  "datas (wr f p x l) = datas l" "scns (wr f p x l) = scns l" "elfs (wr f p x l) = elfs l"
  "host_be (wr f p x l) = host_be l" "mem (wr f p x l) = put_bytes (mem l) p (f (host_be l) x)"
  "libelf_byteorder (wr f p x l) = libelf_byteorder l"
  by (simp_all add: wr_def)

lemma rd_other:
  "disjoint_ranges a n p (length (f (host_be l) x)) \<Longrightarrow> rd g n a (wr f p x l) = rd g n a l"
  by (auto simp: rd_def disjoint_ranges_def)

text \<open>The type of the section a descriptor belongs to.\<close>

definition entry_shtype :: "int \<Rightarrow> addr \<Rightarrow> libelf \<Rightarrow> 32 word" where
  "entry_shtype ec scn l = (if ec = ELFCLASS32 then sh_type (shdr32 l scn) else sh_type (shdr64 l scn))"

lemma entry_shtype_wr:
  assumes "disjoint_ranges scn 64 p (length (f (host_be l) x))"
  shows "entry_shtype ec scn (wr f p x l) = entry_shtype ec scn l"
proof -
  have "bytes_at (put_bytes (mem l) p (f (host_be l) x)) scn n = bytes_at (mem l) scn n" if "n \<le> 64" for n
    using assms that by (intro bytes_at_put_disjoint) (auto simp: disjoint_ranges_def)
  then show ?thesis by (simp add: entry_shtype_def shdr32_def shdr64_def)
qed

text \<open>An entry that the checks let pass.\<close>

definition has_entry :: "Elf_Type \<Rightarrow> addr \<Rightarrow> int \<Rightarrow> int \<Rightarrow> addr \<Rightarrow> libelf \<Rightarrow> bool" where
  "has_entry t d ndx ec p l \<longleftrightarrow> d \<noteq> NULL \<and> 0 \<le> ndx \<and>
     (\<exists>D S E. datas l d = Some D \<and> d_scn D \<noteq> NULL \<and> scns l (d_scn D) = Some S \<and> s_elf S \<noteq> NULL \<and>
       elfs l (s_elf S) = Some E \<and> e_class E = ec \<and> (ec = ELFCLASS32 \<or> ec = ELFCLASS64) \<and>
       e_elf_version E = EV_CURRENT \<and> libelf_xlate_shtype (entry_shtype ec (d_scn D) l) = Some t \<and>
       msz_of t ec \<noteq> 0 \<and> u64 (msz_of t ec * nat ndx) < d_size D \<and> d_buf D \<noteq> NULL \<and> p = d_buf D + nat ndx * msz_of t ec)"

lemma libelf_msize_eq:
  assumes "ec = ELFCLASS32 \<or> ec = ELFCLASS64" "t \<noteq> ELF_T_NUM"
  shows "libelf_msize t ec v =
    Some (if v = EV_CURRENT then (msz_of t ec, None) else (0, Some ELF_E_VERSION))"
  using assms by (auto simp: libelf_msize_def msz_of_def)

lemma gelf_entry_Some:
  assumes "t \<noteq> ELF_T_NUM"
  shows "gelf_entry t d ndx dst l = Some (Some (ec, p), l') \<longleftrightarrow> has_entry t d ndx ec p l \<and> dst \<noteq> NULL \<and> l' = l"
proof (cases "d = NULL \<or> ndx < 0 \<or> dst = NULL \<or> datas l d = None")
  case True
  then show ?thesis by (auto simp: gelf_entry_def has_entry_def)
next
  case False
  then obtain D where D: "datas l d = Some D" by auto
  show ?thesis
  proof (cases "d_scn D = NULL \<or> scns l (d_scn D) = None")
    case True
    with False D show ?thesis by (auto simp: gelf_entry_def has_entry_def Let_def)
  next
    case scn: False
    then obtain S where S: "scns l (d_scn D) = Some S" by auto
    show ?thesis
    proof (cases "s_elf S = NULL \<or> elfs l (s_elf S) = None")
      case True
      with False D scn S show ?thesis by (auto simp: gelf_entry_def has_entry_def Let_def)
    next
      case elf: False
      then obtain E where E: "elfs l (s_elf S) = Some E" by auto
      show ?thesis
        using False D scn S elf E assms
        by (auto simp: gelf_entry_def has_entry_def Let_def entry_shtype_def [symmetric] libelf_msize_eq
            split: if_splits)
    qed
  qed
qed

lemma has_entry_wr:
  assumes "has_entry t d ndx ec p l" "datas l d = Some D"
    and "disjoint_ranges (d_scn D) 64 q (length (f (host_be l) x))"
  shows "has_entry t d ndx ec p (wr f q x l)"
  using assms by (auto simp: has_entry_def entry_shtype_wr)

end
