(* ===== verification/Libelf_Update.thy ===== *)
theory Libelf_Update
  imports Libelf_Gelf
begin

text \<open>
  Layout and writing of ELF files: \<open>elf_update.c\<close>.  A value of the signed type \<open>off_t\<close> is kept as
  the natural number below \<open>2 ^ 64\<close> with the same bits, as most of its uses are unsigned.
\<close>

section \<open>Offsets\<close>

abbreviation (input) OFF_MINUS_1 :: nat where "OFF_MINUS_1 \<equiv> 18446744073709551615"

definition off_neg :: "nat \<Rightarrow> bool" where
  "off_neg n \<longleftrightarrow> off_t n < 0"

text \<open>Signed comparison of two values of type \<open>off_t\<close>\<close>

definition off_greater :: "nat \<Rightarrow> nat \<Rightarrow> bool" where
  "off_greater a b \<longleftrightarrow> sint (of_nat a :: 64 word) > sint (of_nat b :: 64 word)"

text \<open>\<open>if ((size_t) *rc < off + size) *rc = off + size;\<close>\<close>

definition extend_rc :: "nat \<Rightarrow> nat \<Rightarrow> nat \<Rightarrow> nat" where
  "extend_rc rc off sz = (if rc < u64 (off + sz) then u64 (off + sz) else rc)"

text \<open>\<open>_libelf_fsize\<close> with the error it sets\<close>

definition fsize_call :: "Elf_Type \<Rightarrow> int \<Rightarrow> nat \<Rightarrow> nat \<Rightarrow> libelf \<Rightarrow> nat \<times> libelf" where
  "fsize_call t ec v c l = (case libelf_fsize t ec v c of (n, err) \<Rightarrow> (n, set_error_option err l))"

section \<open>Extents of sections\<close>

text \<open>\<open>sh_type\<close>, \<open>sh_addralign\<close>, \<open>sh_entsize\<close>, \<open>sh_offset\<close> and \<open>sh_size\<close> of the header of a section\<close>

definition extent_members :: "int \<Rightarrow> addr \<Rightarrow> libelf \<Rightarrow> 32 word \<times> nat \<times> nat \<times> nat \<times> nat" where
  "extent_members ec s l =
    (if ec = ELFCLASS32 then let h = shdr32 l s in
       (sh_type h, unat (sh_addralign h), unat (sh_entsize h), unat (sh_offset h), unat (sh_size h))
     else let h = shdr64 l s in
       (sh_type h, unat (sh_addralign h), unat (sh_entsize h), unat (sh_offset h), unat (sh_size h)))"

text \<open>The loop that checks the data descriptors and computes the alignment of the section\<close>

primrec data_alignment :: "nat \<Rightarrow> nat \<Rightarrow> addr list \<Rightarrow> nat \<Rightarrow> libelf \<Rightarrow> (Elf_Error + nat) option" where
  "data_alignment v sh_align [] scn_alignment l = Some (Inr scn_alignment)"
| "data_alignment v sh_align (d # ds) scn_alignment l =
    do {
      D \<leftarrow> datas l d;
      if d_version D \<noteq> v then Some (Inl ELF_E_VERSION)
      else if d_align D mod sh_align \<noteq> 0 then Some (Inl ELF_E_LAYOUT)
      else let al = (if d_align D = 0 then 1 else d_align D)
      in if not_power_of_2 al then Some (Inl ELF_E_DATA)
      else data_alignment v sh_align ds (if al > scn_alignment then al else scn_alignment) l }"

text \<open>The loop that computes the size of the section and, unless the application does, the offsets of its data\<close>

primrec layout_data :: "bool \<Rightarrow> nat \<Rightarrow> addr list \<Rightarrow> nat \<Rightarrow> libelf \<Rightarrow> (nat \<times> libelf) option" where
  "layout_data lay scn_alignment [] scn_size l = Some (scn_size, l)"
| "layout_data lay scn_alignment (d # ds) scn_size l =
    do {
      D \<leftarrow> datas l d;
      if lay then layout_data lay scn_alignment ds (extend_rc scn_size (d_off D) (d_size D)) l
      else let scn_size = roundup2 scn_size scn_alignment
      in layout_data lay scn_alignment ds (u64 (scn_size + d_size D)) (upd_data d (\<lambda>D. D\<lparr>d_off := scn_size\<rparr>) l) }"

text \<open>The members of the section header that the library computes\<close>

definition put_extent :: "int \<Rightarrow> addr \<Rightarrow> nat \<Rightarrow> nat \<Rightarrow> nat \<Rightarrow> nat \<Rightarrow> libelf \<Rightarrow> libelf" where
  "put_extent ec s al entsize off sz l =
    (if ec = ELFCLASS32 then
       put_shdr32 s (\<lambda>h. h\<lparr>sh_addralign := of_nat al, sh_entsize := of_nat entsize, sh_offset := of_nat off, sh_size := of_nat sz\<rparr>) l
     else
       put_shdr64 s (\<lambda>h. h\<lparr>sh_addralign := of_nat al, sh_entsize := of_nat entsize, sh_offset := of_nat off, sh_size := of_nat sz\<rparr>) l)"

text \<open>Returns the result, the value of \<open>*rc\<close> and the state.\<close>

definition libelf_compute_section_extents :: "addr \<Rightarrow> addr \<Rightarrow> nat \<Rightarrow> libelf \<Rightarrow> ((bool \<times> nat) \<times> libelf) option" where
  "libelf_compute_section_extents e s rc l =
    do {
      E \<leftarrow> elfs l e;
      S \<leftarrow> scns l s;
      let ec = e_class E;
      let lay = (e_elf_flags E AND ELF_F_LAYOUT \<noteq> 0);
      let (type, sh_align, entsize, off, sz) = extent_members ec s l;
      if type = SHT_NULL \<or> type = SHT_NOBITS then Some ((True, rc), l)
      else if s_flags S AND ELF_F_DIRTY = 0 \<or> (e_cmd E = ELF_C_RDWR \<and> s_data S = []) then
        Some ((True, extend_rc rc off sz), l)
      else case libelf_xlate_shtype type of
        None \<Rightarrow> Some ((False, rc), LIBELF_SET_ERROR ELF_E_SECTION 0 l)
      | Some elftype \<Rightarrow>
          let sh_align = (if sh_align = 0 then libelf_falign elftype ec else sh_align)
          in if sh_align = 0 then None
          else do {
            al \<leftarrow> data_alignment (e_elf_version E) sh_align (s_data S) 0 l;
            case al of
              Inl err \<Rightarrow> Some ((False, rc), LIBELF_SET_ERROR err 0 l)
            | Inr scn_alignment \<Rightarrow> do {
                (scn_size, l) \<leftarrow> layout_data lay scn_alignment (s_data S) 0 l;
                if lay then
                  if scn_alignment > sh_align \<or> off mod sh_align \<noteq> 0 \<or> sz < scn_size then
                    Some ((False, rc), LIBELF_SET_ERROR ELF_E_LAYOUT 0 l)
                  else Some ((True, extend_rc rc off sz), upd_scn s (\<lambda>S. S\<lparr>s_size := sz, s_offset := off\<rparr>) l)
                else let
                  sh_align = (if scn_alignment > sh_align then scn_alignment else sh_align);
                  (fsz, l) = (if entsize = 0 then fsize_call elftype ec (e_elf_version E) 1 l else (entsize, l));
                  entsize = (if entsize = 0 \<and> fsz = 1 then 0 else fsz);
                  sz = scn_size;
                  off = roundup2 rc sh_align;
                  l = put_extent ec s sh_align entsize off sz l
                in Some ((True, extend_rc rc off sz), upd_scn s (\<lambda>S. S\<lparr>s_size := sz, s_offset := off\<rparr>) l) } } }"

section \<open>Order of sections\<close>

text \<open>
  The loop of \<open>_libelf_insert_section\<close>: the section to insert after, null for the head of the
  list, or \<open>None\<close> inside for an overlap.
\<close>

primrec insert_after :: "nat \<Rightarrow> nat \<Rightarrow> addr \<Rightarrow> addr list \<Rightarrow> libelf \<Rightarrow> addr option option" where
  "insert_after smin smax prevt [] l = Some (Some prevt)"
| "insert_after smin smax prevt (t # ts) l =
    do {
      T \<leftarrow> scns l t;
      if u64 (s_offset T + s_size T) \<le> smin then insert_after smin smax t ts l
      else if smax \<le> s_offset T then Some (Some prevt)
      else Some None }"

text \<open>\<open>STAILQ_INSERT_AFTER\<close>\<close>

primrec stailq_insert_after :: "addr \<Rightarrow> addr \<Rightarrow> addr list \<Rightarrow> addr list" where
  "stailq_insert_after p s [] = []"
| "stailq_insert_after p s (x # xs) = (if x = p then x # s # xs else x # stailq_insert_after p s xs)"

definition libelf_insert_section :: "addr \<Rightarrow> addr \<Rightarrow> libelf \<Rightarrow> (bool \<times> libelf) option" where
  "libelf_insert_section e s l =
    do {
      E \<leftarrow> elfs l e;
      S \<leftarrow> scns l s;
      let smin = s_offset S;
      let smax = u64 (smin + s_size S);
      p \<leftarrow> insert_after smin smax NULL (e_scn E) l;
      case p of
        None \<Rightarrow> Some (False, LIBELF_SET_ERROR ELF_E_LAYOUT 0 l)
      | Some prevt \<Rightarrow>
          Some (True, upd_elf e (\<lambda>E. E\<lparr>e_scn := (if prevt \<noteq> NULL then stailq_insert_after prevt s (e_scn E)
            else s # e_scn E)\<rparr>) l) }"

text \<open>The first loop of \<open>_libelf_resync_sections\<close>\<close>

primrec extents_loop :: "addr \<Rightarrow> addr list \<Rightarrow> nat \<Rightarrow> libelf \<Rightarrow> ((bool \<times> nat) \<times> libelf) option" where
  "extents_loop e [] nrc l = Some ((True, nrc), l)"
| "extents_loop e (s # ss) nrc l =
    do {
      ((ok, nrc), l) \<leftarrow> libelf_compute_section_extents e s nrc l;
      if \<not> ok then Some ((False, nrc), l) else extents_loop e ss nrc l }"

text \<open>
  The second loop: the successor \<open>ts\<close> of a section is read before the section is moved.  The
  result is the final \<open>rc\<close>, or \<open>None\<close> inside after an error.
\<close>

partial_function (option) sort_loop :: "addr \<Rightarrow> int \<Rightarrow> addr \<Rightarrow> nat \<Rightarrow> libelf \<Rightarrow> (nat option \<times> libelf) option" where
  "sort_loop e ec s rc l =
    (if s = NULL then Some (Some rc, l)
     else do {
       E \<leftarrow> elfs l e;
       S \<leftarrow> scns l s;
       let ts = stailq_next s (e_scn E);
       let type = fst (extent_members ec s l);
       if type = SHT_NOBITS \<or> type = SHT_NULL then sort_loop e ec ts rc l
       else if s_offset S < rc then
         if u64 (s_offset S + s_size S) < rc then
           if s \<notin> set (e_scn E) then None
           else do {
             (ok, l) \<leftarrow> libelf_insert_section e s (upd_elf e (\<lambda>E. E\<lparr>e_scn := remove1 s (e_scn E)\<rparr>) l);
             if \<not> ok then Some (None, l) else sort_loop e ec ts rc l }
         else Some (None, LIBELF_SET_ERROR ELF_E_LAYOUT 0 l)
       else sort_loop e ec ts (u64 (s_offset S + s_size S)) l })"

text \<open>The third loop: no section overlaps the section header table.\<close>

primrec clear_of_shdrs :: "nat \<Rightarrow> nat \<Rightarrow> addr list \<Rightarrow> libelf \<Rightarrow> bool option" where
  "clear_of_shdrs shdr_start shdr_end [] l = Some True"
| "clear_of_shdrs shdr_start shdr_end (s # ss) l =
    do {
      S \<leftarrow> scns l s;
      if s_offset S \<ge> shdr_end \<or> u64 (s_offset S + s_size S) \<le> shdr_start then clear_of_shdrs shdr_start shdr_end ss l
      else Some False }"

definition libelf_resync_sections :: "addr \<Rightarrow> nat \<Rightarrow> libelf \<Rightarrow> (nat \<times> libelf) option" where
  "libelf_resync_sections e rc l =
    do {
      E \<leftarrow> elfs l e;
      let ec = e_class E;
      ((ok, nrc), l) \<leftarrow> extents_loop e (e_scn E) rc l;
      if \<not> ok then Some (OFF_MINUS_1, l)
      else do {
        E \<leftarrow> elfs l e;
        (r, l) \<leftarrow> sort_loop e ec (case e_scn E of [] \<Rightarrow> NULL | s # _ \<Rightarrow> s) rc l;
        case r of
          None \<Rightarrow> Some (OFF_MINUS_1, l)
        | Some rc \<Rightarrow> do {
            E \<leftarrow> elfs l e;
            (clear, l) \<leftarrow>
              (if e_elf_flags E AND ELF_F_LAYOUT \<noteq> 0 then
                 if e_ehdr E = NULL then None
                 else let
                   shdr_start = (if ec = ELFCLASS32 then unat (e_shoff (ehdr32 l (e_ehdr E))) else unat (e_shoff (ehdr64 l (e_ehdr E))));
                   (fsz, l) = fsize_call ELF_T_SHDR ec (e_elf_version E) (e_nscn E) l
                 in map_option (\<lambda>c. (c, l)) (clear_of_shdrs shdr_start (u64 (shdr_start + fsz)) (e_scn E) l)
               else Some (True, l));
            if \<not> clear then Some (OFF_MINUS_1, LIBELF_SET_ERROR ELF_E_LAYOUT 0 l)
            else if nrc \<noteq> rc then None
            else Some (rc, l) } } }"

section \<open>The headers\<close>

text \<open>\<open>e_ident[EI_DATA]\<close>, \<open>e_ident[EI_CLASS]\<close>, \<open>e_phoff\<close>, \<open>e_shoff\<close> and \<open>e_version\<close> of the executable header\<close>

definition ehdr_members :: "int \<Rightarrow> addr \<Rightarrow> libelf \<Rightarrow> nat \<times> int \<times> nat \<times> nat \<times> nat" where
  "ehdr_members ec ehdr l =
    (if ec = ELFCLASS32 then let h = ehdr32 l ehdr in
       (unat (e_ident h ! EI_DATA), int (unat (e_ident h ! EI_CLASS)), unat (e_phoff h), unat (e_shoff h), unat (e_version h))
     else let h = ehdr64 l ehdr in
       (unat (e_ident h ! EI_DATA), int (unat (e_ident h ! EI_CLASS)), unat (e_phoff h), unat (e_shoff h), unat (e_version h)))"

definition INITIALIZE_EHDR :: "addr \<Rightarrow> int \<Rightarrow> nat \<Rightarrow> nat \<Rightarrow> libelf \<Rightarrow> libelf" where
  "INITIALIZE_EHDR ehdr ec v phnum l =
    (let
       ident = (\<lambda>id. id[EI_MAG0 := 0x7F, EI_MAG1 := 0x45, EI_MAG2 := 0x4C, EI_MAG3 := 0x46,
         EI_CLASS := word_of_int ec, EI_VERSION := of_nat v]);
       (ehsize, l) = fsize_call ELF_T_EHDR ec v 1 l;
       (phentsize, l) = (if phnum = 0 then (0, l) else fsize_call ELF_T_PHDR ec v 1 l);
       (shentsize, l) = fsize_call ELF_T_SHDR ec v 1 l
     in if ec = ELFCLASS32 then
       put_ehdr32 ehdr (\<lambda>h. h\<lparr>e_ident := ident (e_ident h), e_ehsize := of_nat ehsize, e_phentsize := of_nat phentsize,
         e_shentsize := of_nat shentsize\<rparr>) l
     else
       put_ehdr64 ehdr (\<lambda>h. h\<lparr>e_ident := ident (e_ident h), e_ehsize := of_nat ehsize, e_phentsize := of_nat phentsize,
         e_shentsize := of_nat shentsize\<rparr>) l)"

text \<open>
  The layout of the program header table: its offset and the end of the file so far, or the
  error.
\<close>

definition layout_phdrs :: "bool \<Rightarrow> int \<Rightarrow> nat \<Rightarrow> nat \<Rightarrow> nat \<Rightarrow> nat \<Rightarrow> libelf \<Rightarrow> ((Elf_Error + nat \<times> nat) \<times> libelf) option" where
  "layout_phdrs lay ec v phnum phoff rc l =
    (if phnum = 0 then Some (Inr (0, rc), l)
     else let
       (fsz, l) = fsize_call ELF_T_PHDR ec v phnum l;
       al = libelf_falign ELF_T_PHDR ec
     in if al = 0 then None
     else if lay then
       if off_greater rc phoff then Some (Inl ELF_E_HEADER, l)
       else if phoff mod al \<noteq> 0 then Some (Inl ELF_E_LAYOUT, l)
       else Some (Inr (phoff, u64 (phoff + fsz)), l)
     else let phoff = roundup2 rc al in Some (Inr (phoff, u64 (phoff + fsz)), l))"

text \<open>The same for the section header table\<close>

definition layout_shdrs :: "bool \<Rightarrow> int \<Rightarrow> nat \<Rightarrow> nat \<Rightarrow> nat \<Rightarrow> nat \<Rightarrow> libelf \<Rightarrow> ((Elf_Error + nat \<times> nat) \<times> libelf) option" where
  "layout_shdrs lay ec v shnum shoff rc l =
    (if shnum = 0 then Some (Inr (0, rc), l)
     else let
       (fsz, l) = fsize_call ELF_T_SHDR ec v 1 l;
       al = libelf_falign ELF_T_SHDR ec
     in if al = 0 then None
     else if lay \<and> shoff mod al \<noteq> 0 then Some (Inl ELF_E_LAYOUT, l)
     else let
       shoff = (if lay then shoff else roundup2 rc al);
       lim = u64 (shoff + u64 (fsz * shnum))
     in Some (Inr (shoff, if lim > rc then lim else rc), l))"

text \<open>The end of \<open>_libelf_resync_elf\<close>: counts and offsets of the tables\<close>

definition resync_finish :: "addr \<Rightarrow> addr \<Rightarrow> int \<Rightarrow> nat \<Rightarrow> nat \<Rightarrow> nat \<Rightarrow> nat \<Rightarrow> nat \<Rightarrow> libelf \<Rightarrow> (nat \<times> libelf) option" where
  "resync_finish e ehdr ec phnum shnum phoff shoff rc l =
    do {
      (_, l) \<leftarrow> libelf_setphnum e ehdr ec phnum l;
      (_, l) \<leftarrow> libelf_setshnum e ehdr ec shnum l;
      E \<leftarrow> elfs l e;
      Some (rc,
        if e_elf_flags E AND ELF_F_LAYOUT \<noteq> 0 then l
        else if ec = ELFCLASS32 then put_ehdr32 ehdr (\<lambda>h. h\<lparr>e_phoff := of_nat phoff, e_shoff := of_nat shoff\<rparr>) l
        else put_ehdr64 ehdr (\<lambda>h. h\<lparr>e_phoff := of_nat phoff, e_shoff := of_nat shoff\<rparr>) l) }"

text \<open>The middle of \<open>_libelf_resync_elf\<close>: program headers, sections, section headers\<close>

definition resync_layout :: "addr \<Rightarrow> addr \<Rightarrow> int \<Rightarrow> nat \<Rightarrow> nat \<Rightarrow> nat \<Rightarrow> nat \<Rightarrow> nat \<Rightarrow> libelf \<Rightarrow> (nat \<times> libelf) option" where
  "resync_layout e ehdr ec v phnum shnum phoff shoff l =
    do {
      let (fsz, l) = fsize_call ELF_T_EHDR ec v 1 l;
      let rc = u64 (0 + fsz);
      E \<leftarrow> elfs l e;
      (r, l) \<leftarrow> layout_phdrs (e_elf_flags E AND ELF_F_LAYOUT \<noteq> 0) ec v phnum phoff rc l;
      case r of
        Inl err \<Rightarrow> Some (OFF_MINUS_1, LIBELF_SET_ERROR err 0 l)
      | Inr (phoff, rc) \<Rightarrow> do {
          (ok, l) \<leftarrow> ensure_shdrs e ehdr l;
          if \<not> ok then Some (OFF_MINUS_1, l)
          else do {
            (rc, l) \<leftarrow> libelf_resync_sections e rc l;
            if off_neg rc then Some (OFF_MINUS_1, l)
            else do {
              E \<leftarrow> elfs l e;
              (r, l) \<leftarrow> layout_shdrs (e_elf_flags E AND ELF_F_LAYOUT \<noteq> 0) ec v shnum shoff rc l;
              case r of
                Inl err \<Rightarrow> Some (OFF_MINUS_1, LIBELF_SET_ERROR err 0 l)
              | Inr (shoff, rc) \<Rightarrow> resync_finish e ehdr ec phnum shnum phoff shoff rc l } } } }"

definition libelf_resync_elf :: "addr \<Rightarrow> libelf \<Rightarrow> (nat \<times> libelf) option" where
  "libelf_resync_elf e l =
    do {
      E \<leftarrow> elfs l e;
      let ec = e_class E;
      if \<not> (ec = ELFCLASS32 \<or> ec = ELFCLASS64) then None
      else do {
        (ehdr, l) \<leftarrow> libelf_ehdr e ec False l;
        if ehdr = NULL then Some (OFF_MINUS_1, l)
        else do {
          E \<leftarrow> elfs l e;
          let (eh_byteorder, eh_class, phoff, shoff, eh_version) = ehdr_members ec ehdr l;
          let eh_version = (if eh_version = EV_NONE then EV_CURRENT else eh_version);
          if eh_version \<noteq> e_elf_version E then Some (OFF_MINUS_1, LIBELF_SET_ERROR ELF_E_VERSION 0 l)
          else if eh_class \<noteq> e_class E then Some (OFF_MINUS_1, LIBELF_SET_ERROR ELF_E_CLASS 0 l)
          else if e_cmd E \<noteq> ELF_C_WRITE \<and> eh_byteorder \<noteq> e_byteorder E then
            Some (OFF_MINUS_1, LIBELF_SET_ERROR ELF_E_HEADER 0 l)
          else let
            l = upd_elf e (\<lambda>E. E\<lparr>e_byteorder := eh_byteorder\<rparr>) l;
            l = INITIALIZE_EHDR ehdr ec eh_version (e_nphdr E) l
          in do {
            (_, l) \<leftarrow> elf_flagehdr e ELF_C_SET ELF_F_DIRTY l;
            resync_layout e ehdr ec eh_version (e_nphdr E) (e_nscn E) phoff shoff l } } } }"

section \<open>Writing\<close>

definition memset :: "memory \<Rightarrow> addr \<Rightarrow> byte \<Rightarrow> nat \<Rightarrow> memory" where
  "memset m a c n = (\<lambda>x. if a \<le> x \<and> x < a + n then c else m x)"

text \<open>\<open>if ((uint64_t) rc < off) (void) memset(nf + rc, LIBELF_PRIVATE(fillchar), off - rc);\<close>\<close>

definition fill_gap :: "addr \<Rightarrow> nat \<Rightarrow> nat \<Rightarrow> libelf \<Rightarrow> libelf" where
  "fill_gap nf rc off l =
    (if rc < off then set_mem (memset (mem l) (nf + rc) (word_of_int (libelf_fillchar l)) (off - rc)) l else l)"

text \<open>
  The addresses of the automatic variables \<open>dst\<close> and \<open>src\<close> of type \<open>Elf_Data\<close>, which exist while
  \<open>_libelf_xlate\<close> runs.
\<close>

abbreviation (input) auto_dst :: addr where "auto_dst \<equiv> 18446744073709547520"
abbreviation (input) auto_src :: addr where "auto_src \<equiv> 18446744073709547584"

definition with_autos :: "(addr \<rightharpoonup> Elf_Data) \<Rightarrow> (libelf \<Rightarrow> ('a \<times> libelf) option) \<Rightarrow> libelf \<Rightarrow> ('a \<times> libelf) option" where
  "with_autos vars f l =
    do {
      (r, l') \<leftarrow> f (l\<lparr>datas := datas l ++ vars\<rparr>);
      Some (r, l'\<lparr>datas := (\<lambda>d. if vars d = None then datas l' d else datas l d)\<rparr>) }"

definition auto_data :: "addr \<Rightarrow> nat \<Rightarrow> Elf_Type \<Rightarrow> nat \<Rightarrow> Elf_Data" where
  "auto_data buf sz t v = \<lparr>d_align = 0, d_buf = buf, d_off = 0, d_size = sz, d_type = t, d_version = v, d_scn = NULL, d_flags = 0\<rparr>"

text \<open>\<open>_libelf_xlate(&dst, &src, e->e_byteorder, ec, ELF_TOFILE)\<close> in \<open>_libelf_write_elf\<close>\<close>

definition xlate_header :: "Elf \<Rightarrow> addr \<Rightarrow> nat \<Rightarrow> addr \<Rightarrow> nat \<Rightarrow> Elf_Type \<Rightarrow> libelf \<Rightarrow> (bool \<times> libelf) option" where
  "xlate_header E dbuf dsz sbuf ssz t l =
    do {
      (r, l) \<leftarrow> with_autos [auto_dst \<mapsto> auto_data dbuf dsz ELF_T_ADDR (e_elf_version E), auto_src \<mapsto> auto_data sbuf ssz t (e_elf_version E)]
        (libelf_xlate auto_dst auto_src (e_byteorder E) (e_class E) ELF_TOFILE) l;
      Some (r \<noteq> NULL, l) }"

text \<open>The loop of \<open>_libelf_write_scn\<close> over raw data\<close>

primrec write_rawdata :: "Elf \<Rightarrow> Elf_Scn \<Rightarrow> addr \<Rightarrow> addr list \<Rightarrow> nat \<Rightarrow> libelf \<Rightarrow> (nat \<times> libelf) option" where
  "write_rawdata E S nf [] rc l = Some (rc, l)"
| "write_rawdata E S nf (d # ds) rc l =
    do {
      D \<leftarrow> datas l d;
      let off = u64 (s_offset S + d_off D);
      let l = fill_gap nf rc off l;
      if d_buf D = NULL \<or> d_type D \<noteq> ELF_T_BYTE \<or> d_version D \<noteq> e_elf_version E then None
      else write_rawdata E S nf ds (u64 (off + d_size D))
        (set_mem (memcpy (mem l) (nf + off) (e_rawfile E + s_rawoff S + d_off D) (d_size D)) l) }"

text \<open>The loop over translated data\<close>

primrec write_data :: "Elf \<Rightarrow> Elf_Scn \<Rightarrow> addr \<Rightarrow> addr list \<Rightarrow> nat \<Rightarrow> libelf \<Rightarrow> (nat \<times> libelf) option" where
  "write_data E S nf [] rc l = Some (rc, l)"
| "write_data E S nf (d # ds) rc l =
    do {
      D \<leftarrow> datas l d;
      let off = u64 (s_offset S + d_off D);
      let l = fill_gap nf rc off l;
      (msz, err) \<leftarrow> libelf_msize (d_type D) (e_class E) (e_elf_version E);
      let l = set_error_option err l;
      if d_buf D = NULL \<or> d_version D \<noteq> e_elf_version E \<or> msz = 0 \<or> d_size D mod msz \<noteq> 0 then None
      else let (fsz, l) = fsize_call (d_type D) (e_class E) (e_elf_version E) (d_size D div msz) l
      in do {
        (r, l) \<leftarrow> with_autos [auto_dst \<mapsto> auto_data (nf + off) fsz ELF_T_ADDR (e_elf_version E)]
          (libelf_xlate auto_dst d (e_byteorder E) (e_class E) ELF_TOFILE) l;
        if r = NULL then Some (OFF_MINUS_1, l)
        else write_data E S nf ds (u64 (off + fsz)) l } }"

definition libelf_write_scn :: "addr \<Rightarrow> addr \<Rightarrow> addr \<Rightarrow> nat \<Rightarrow> libelf \<Rightarrow> (nat \<times> libelf) option" where
  "libelf_write_scn e nf s rc l =
    do {
      E \<leftarrow> elfs l e;
      S \<leftarrow> scns l s;
      let ec = e_class E;
      let (type, _, _, _, sz) = extent_members ec s l;
      if type = SHT_NOBITS \<or> type = SHT_NULL \<or> sz = 0 then Some (rc, l)
      else case libelf_xlate_shtype type of
        None \<Rightarrow> None
      | Some elftype \<Rightarrow> do {
          (msz, err) \<leftarrow> libelf_msize elftype ec (e_elf_version E);
          let l = set_error_option err l;
          if libelf_falign elftype ec = 0 \<or> s_offset S mod libelf_falign elftype ec \<noteq> 0 then None
          else if s_data S = [] then do {
            (d, l) \<leftarrow> elf_rawdata s NULL l;
            if d = NULL then Some (OFF_MINUS_1, l)
            else do {
              S \<leftarrow> scns l s;
              write_rawdata E S nf (s_rawdata S) rc l } }
          else write_data E S nf (s_data S) rc l } }"

primrec write_scns :: "addr \<Rightarrow> addr \<Rightarrow> addr list \<Rightarrow> nat \<Rightarrow> libelf \<Rightarrow> (nat option \<times> libelf) option" where
  "write_scns e nf [] rc l = Some (Some rc, l)"
| "write_scns e nf (s # ss) rc l =
    do {
      (rc, l) \<leftarrow> libelf_write_scn e nf s rc l;
      if off_neg rc then Some (None, l) else write_scns e nf ss rc l }"

text \<open>The loop over the section headers\<close>

primrec write_shdrs :: "Elf \<Rightarrow> addr \<Rightarrow> nat \<Rightarrow> nat \<Rightarrow> nat \<Rightarrow> addr list \<Rightarrow> libelf \<Rightarrow> (bool \<times> libelf) option" where
  "write_shdrs E nf rc fsz msz [] l = Some (True, l)"
| "write_shdrs E nf rc fsz msz (s # ss) l =
    do {
      S \<leftarrow> scns l s;
      (ok, l) \<leftarrow> xlate_header E (nf + rc + s_ndx S * fsz) fsz s msz ELF_T_SHDR l;
      if \<not> ok then Some (False, l) else write_shdrs E nf rc fsz msz ss l }"

text \<open>The executable header, and \<open>e_phoff\<close>, \<open>e_shnum\<close> and \<open>e_shoff\<close> of it\<close>

definition write_ehdr :: "Elf \<Rightarrow> addr \<Rightarrow> addr \<Rightarrow> libelf \<Rightarrow> (nat option \<times> libelf) option" where
  "write_ehdr E nf ehdr l =
    (let (fsz, l) = fsize_call ELF_T_EHDR (e_class E) (e_elf_version E) 1 l
     in do {
       (msz, err) \<leftarrow> libelf_msize ELF_T_EHDR (e_class E) (e_elf_version E);
       (ok, l) \<leftarrow> xlate_header E nf fsz ehdr msz ELF_T_EHDR (set_error_option err l);
       Some (if ok then Some fsz else None, l) })"

definition ehdr_tables :: "int \<Rightarrow> addr \<Rightarrow> libelf \<Rightarrow> nat \<times> nat \<times> nat" where
  "ehdr_tables ec ehdr l =
    (if ec = ELFCLASS32 then let h = ehdr32 l ehdr in (unat (e_phoff h), unat (e_shnum h), unat (e_shoff h))
     else let h = ehdr64 l ehdr in (unat (e_phoff h), unat (e_shnum h), unat (e_shoff h)))"

text \<open>The program header table\<close>

definition write_phdrs :: "addr \<Rightarrow> Elf \<Rightarrow> addr \<Rightarrow> nat \<Rightarrow> nat \<Rightarrow> libelf \<Rightarrow> (nat option \<times> libelf) option" where
  "write_phdrs e E nf phoff rc l =
    (if e_nphdr E \<noteq> 0 \<and> phoff \<noteq> 0 then
       if \<not> u32 rc \<le> phoff then None
       else let
         (fsz, l) = fsize_call ELF_T_PHDR (e_class E) (e_elf_version E) (e_nphdr E) l;
         al = libelf_falign ELF_T_PHDR (e_class E)
       in if al = 0 \<or> phoff mod al \<noteq> 0 \<or> \<not> fsz > 0 then None
       else do {
         (ph, l) \<leftarrow> libelf_getphdr e (e_class E) l;
         (msz, err) \<leftarrow> libelf_msize ELF_T_PHDR (e_class E) (e_elf_version E);
         let l = fill_gap nf rc phoff (set_error_option err l);
         (ok, l) \<leftarrow> xlate_header E (nf + rc) fsz ph (u64 (e_nphdr E * msz)) ELF_T_PHDR l;
         Some (if ok then Some (u64 (phoff + fsz)) else None, l) }
     else Some (Some rc, l))"

text \<open>The section header table\<close>

definition write_shtab :: "Elf \<Rightarrow> addr \<Rightarrow> nat \<Rightarrow> nat \<Rightarrow> nat \<Rightarrow> libelf \<Rightarrow> (nat option \<times> libelf) option" where
  "write_shtab E nf shnum shoff rc l =
    (if shnum \<noteq> 0 \<and> shoff \<noteq> 0 then
       let
         l = fill_gap nf rc shoff l;
         al = libelf_falign ELF_T_SHDR (e_class E)
       in if al = 0 \<or> shoff mod al \<noteq> 0 then None
       else do {
         (msz, err) \<leftarrow> libelf_msize ELF_T_SHDR (e_class E) (e_elf_version E);
         let (fsz, l) = fsize_call ELF_T_SHDR (e_class E) (e_elf_version E) 1 (set_error_option err l);
         (ok, l) \<leftarrow> write_shdrs E nf shoff fsz msz (e_scn E) l;
         let lim = u64 (shoff + u64 (e_nscn E * fsz));
         Some (if ok then Some (if off_greater rc lim then rc else lim) else None, l) }
     else Some (Some rc, l))"

text \<open>The file image: \<open>None\<close> inside after an error, otherwise its size.\<close>

definition write_image :: "addr \<Rightarrow> addr \<Rightarrow> libelf \<Rightarrow> (nat option \<times> libelf) option" where
  "write_image e nf l =
    do {
      E \<leftarrow> elfs l e;
      (ehdr, l) \<leftarrow> libelf_ehdr e (e_class E) False l;
      if ehdr = NULL then None
      else do {
        E \<leftarrow> elfs l e;
        let (phoff, shnum, shoff) = ehdr_tables (e_class E) ehdr l;
        (rc, l) \<leftarrow> write_ehdr E nf ehdr l;
        case rc of None \<Rightarrow> Some (None, l) | Some rc \<Rightarrow> do {
          (rc, l) \<leftarrow> write_phdrs e E nf phoff rc l;
          case rc of None \<Rightarrow> Some (None, l) | Some rc \<Rightarrow> do {
            (rc, l) \<leftarrow> write_scns e nf (e_scn E) rc l;
            case rc of None \<Rightarrow> Some (None, l) | Some rc \<Rightarrow> write_shtab E nf shnum shoff rc l } } } }"

text \<open>
  \<open>write\<close> and \<open>lseek\<close>: the bytes replace the beginning of the file, which is not truncated.
\<close>

definition write_file :: "int \<Rightarrow> byte list \<Rightarrow> libelf \<Rightarrow> libelf option" where
  "write_file fd bs l =
    (case files l fd of None \<Rightarrow> None | Some old \<Rightarrow> Some (l\<lparr>files := (files l)(fd \<mapsto> bs @ drop (length bs) old)\<rparr>))"

abbreviation (input) MAP_FAILED :: addr where "MAP_FAILED \<equiv> 18446744073709551615"

text \<open>The end of \<open>_libelf_write_elf\<close>, after the file has been written\<close>

definition write_release :: "addr \<Rightarrow> nat \<Rightarrow> libelf \<Rightarrow> (nat \<times> libelf) option" where
  "write_release e rc l =
    do {
      let l = upd_elf e (\<lambda>E. E\<lparr>e_elf_flags := e_elf_flags E AND NOT ELF_F_DIRTY\<rparr>) l;
      E \<leftarrow> elfs l e;
      l \<leftarrow> release_scns (e_scn E) l;
      Some (rc, upd_elf e (\<lambda>E. E\<lparr>e_ehdr := NULL, e_phdr := NULL\<rparr>) l) }"

definition libelf_write_elf :: "addr \<Rightarrow> nat \<Rightarrow> libelf \<Rightarrow> (nat \<times> libelf) option" where
  "libelf_write_elf e newsize l =
    do {
      E \<leftarrow> elfs l e;
      if e_kind E \<noteq> ELF_K_ELF \<or> e_cmd E = ELF_C_READ \<or> e_fd E < 0 then None
      else let (newfile, l) = malloc newsize l
      in if newfile = NULL then Some (OFF_MINUS_1, LIBELF_SET_ERROR ELF_E_RESOURCE (os_errno l) l)
      else do {
        (rc, l) \<leftarrow> write_image e newfile l;
        case rc of
          None \<Rightarrow> Some (OFF_MINUS_1, l)
        | Some rc \<Rightarrow>
            if rc \<noteq> newsize then None
            else (case write_file (e_fd E) (bytes_at (mem l) newfile newsize) l of
              None \<Rightarrow> Some (OFF_MINUS_1, LIBELF_SET_ERROR ELF_E_IO (os_errno l) l)
            | Some l \<Rightarrow>
                if e_cmd E \<noteq> ELF_C_WRITE then
                  let (m, l) = mmap (e_fd E) l
                  in if m = NULL then
                    Some (OFF_MINUS_1, LIBELF_SET_ERROR ELF_E_IO (os_errno l) (upd_elf e (\<lambda>E. E\<lparr>e_rawfile := MAP_FAILED\<rparr>) l))
                  else write_release e rc (upd_elf e (\<lambda>E. E\<lparr>e_rawfile := m, e_rawsize := newsize\<rparr>) l)
                else write_release e rc l) } }"

definition elf_update :: "addr \<Rightarrow> Elf_Cmd \<Rightarrow> libelf \<Rightarrow> (int \<times> libelf) option" where
  "elf_update e c l =
    (if e = NULL then Some (-1, LIBELF_SET_ERROR ELF_E_ARGUMENT 0 l)
     else do {
       E \<leftarrow> elfs l e;
       if e_kind E \<noteq> ELF_K_ELF \<or> (c \<noteq> ELF_C_NULL \<and> c \<noteq> ELF_C_WRITE) then
         Some (-1, LIBELF_SET_ERROR ELF_E_ARGUMENT 0 l)
       else if e_class E \<noteq> ELFCLASS32 \<and> e_class E \<noteq> ELFCLASS64 then
         Some (-1, LIBELF_SET_ERROR ELF_E_CLASS 0 l)
       else let l = (if e_elf_version E = EV_NONE then upd_elf e (\<lambda>E. E\<lparr>e_elf_version := EV_CURRENT\<rparr>) l else l)
       in if c = ELF_C_WRITE \<and> e_cmd E = ELF_C_READ then Some (-1, LIBELF_SET_ERROR ELF_E_MODE 0 l)
       else do {
         (rc, l) \<leftarrow> libelf_resync_elf e l;
         if off_neg rc \<or> c = ELF_C_NULL then Some (off_t rc, l)
         else if e_cmd E = ELF_C_READ then
           Some (-1, LIBELF_SET_ERROR (if e_fd E \<noteq> 0 then ELF_E_MODE else ELF_E_ARGUMENT) 0 l)
         else if e_fd E < 0 then Some (-1, LIBELF_SET_ERROR ELF_E_SEQUENCE 0 l)
         else do { (rc, l) \<leftarrow> libelf_write_elf e rc l; Some (off_t rc, l) } } })"

end
