(* ===== verification/Libelf_Entries.thy ===== *)
theory Libelf_Entries
  imports Libelf_Gelf
begin

text \<open>
  What the class-independent functions on entries of sections promise: an entry lies inside of
  its buffer, an update followed by a read returns the structure that was written, a structure
  that a 32-bit object cannot hold is refused.  The functions for the entry types share their
  text, so the laws are stated once for a locale \<open>gelf_record\<close> and interpreted on the types.
\<close>

section \<open>Structures in memory\<close>

context elf_struct
begin

lemma stored: "ok x \<Longrightarrow> of_bytes be (bytes_at (put_bytes m p (to_bytes be x)) p msz) = x"
  unfolding of_bytes_at by (simp add: length_to_bytes of_to)

lemma length_le_msz: "ok x \<Longrightarrow> length (to_bytes be x) \<le> msz"
  using fsz_msz by (simp add: length_to_bytes)

end

section \<open>The interface\<close>

text \<open>
  \<open>fits\<close> describes the structures that have a 32-bit counterpart; \<open>narrow\<close> assigns that
  counterpart and \<open>widen\<close> is its inverse.
\<close>

locale gelf_record =
  fixes t :: Elf_Type
    and of32 :: "bool \<Rightarrow> byte list \<Rightarrow> 'n" and to32 :: "bool \<Rightarrow> 'n \<Rightarrow> byte list"
    and of64 :: "bool \<Rightarrow> byte list \<Rightarrow> 'w" and to64 :: "bool \<Rightarrow> 'w \<Rightarrow> byte list"
    and sz32 sz64 :: nat
    and widen :: "'n \<Rightarrow> 'w" and narrow :: "'w \<Rightarrow> 'n \<Rightarrow> 'n \<times> bool" and fits :: "'w \<Rightarrow> bool"
  assumes type_ok: "t \<noteq> ELF_T_NUM"
    and stored32: "of32 be (bytes_at (put_bytes m p (to32 be x)) p sz32) = x"
    and stored64: "of64 be (bytes_at (put_bytes m p (to64 be y)) p sz64) = y"
    and length32: "length (to32 be x) \<le> sz32"
    and length64: "length (to64 be y) \<le> sz64"
    and narrow_fits: "fits y \<Longrightarrow> \<exists>x'. narrow y x = (x', True) \<and> widen x' = y"
begin

lemma rd_wr32 [simp]: "rd of32 sz32 p (wr to32 p x l) = x"
  by (simp add: rd_def stored32)

lemma rd_wr64 [simp]: "rd of64 sz64 p (wr to64 p y l) = y"
  by (simp add: rd_def stored64)

lemma get_eq:
  assumes "has_entry t d ndx ec p l" "dst \<noteq> NULL"
  shows "gelf_get t of32 of64 to64 sz32 sz64 widen d ndx dst l =
    Some (dst, wr to64 dst (if ec = ELFCLASS32 then widen (rd of32 sz32 p l) else rd of64 sz64 p l) l)"
  using assms gelf_entry_Some [OF type_ok, of d ndx dst l ec p l] by (simp add: gelf_get_def)

lemma update_eq32:
  assumes "has_entry t d ndx ELFCLASS32 p l" "src \<noteq> NULL" "fits (rd of64 sz64 src l)"
  shows "\<exists>x. widen x = rd of64 sz64 src l \<and>
    gelf_update t of32 to32 of64 to64 sz32 sz64 narrow d ndx src l = Some (True, wr to32 p x l)"
proof -
  obtain x where "narrow (rd of64 sz64 src l) (rd of32 sz32 p l) = (x, True)" "widen x = rd of64 sz64 src l"
    using assms(3) narrow_fits by blast
  moreover have "gelf_entry t d ndx src l = Some (Some (ELFCLASS32, p), l)"
    using gelf_entry_Some [OF type_ok, of d ndx src l ELFCLASS32 p l] assms by blast
  ultimately show ?thesis by (auto simp: gelf_update_def Let_def)
qed

lemma update_eq64:
  assumes "has_entry t d ndx ec p l" "ec \<noteq> ELFCLASS32" "src \<noteq> NULL"
  shows "gelf_update t of32 to32 of64 to64 sz32 sz64 narrow d ndx src l =
    Some (True, wr to64 p (rd of64 sz64 src l) l)"
proof -
  have "gelf_entry t d ndx src l = Some (Some (ec, p), l)"
    using gelf_entry_Some [OF type_ok, of d ndx src l ec p l] assms by blast
  with assms show ?thesis by (simp add: gelf_update_def Let_def)
qed

text \<open>Writing an entry and reading it again, for either class.\<close>

lemma wr_get:
  assumes entry: "has_entry t d ndx ec p l" and dst: "dst \<noteq> NULL" and D: "datas l d = Some D"
    and apart: "disjoint_ranges (d_scn D) 64 p sz" and len: "length (f (host_be l) x) \<le> sz"
    and again: "(if ec = ELFCLASS32 then widen (rd of32 sz32 p (wr f p x l)) else rd of64 sz64 p (wr f p x l)) = y"
  shows "\<exists>l2. gelf_get t of32 of64 to64 sz32 sz64 widen d ndx dst (wr f p x l) = Some (dst, l2) \<and>
    rd of64 sz64 dst l2 = y"
    and "\<forall>a. a < p \<or> p + sz \<le> a \<longrightarrow> mem (wr f p x l) a = mem l a"
    and "wr f p x l = set_mem (mem (wr f p x l)) l"
proof -
  have "has_entry t d ndx ec p (wr f p x l)"
    using apart len by (intro has_entry_wr [OF entry D]) (auto simp: disjoint_ranges_def)
  from get_eq [OF this dst] again
  show "\<exists>l2. gelf_get t of32 of64 to64 sz32 sz64 widen d ndx dst (wr f p x l) = Some (dst, l2) \<and>
    rd of64 sz64 dst l2 = y" by simp
qed (use len in \<open>auto simp: wr_def set_mem_def\<close>)

lemma update_get:
  assumes entry: "has_entry t d ndx ec p l" and src: "src \<noteq> NULL" and dst: "dst \<noteq> NULL"
    and fit: "ec = ELFCLASS32 \<longrightarrow> fits (rd of64 sz64 src l)"
    and D: "datas l d = Some D"
    and apart: "disjoint_ranges (d_scn D) 64 p (if ec = ELFCLASS32 then sz32 else sz64)"
  shows "\<exists>l1 l2. gelf_update t of32 to32 of64 to64 sz32 sz64 narrow d ndx src l = Some (True, l1) \<and>
    gelf_get t of32 of64 to64 sz32 sz64 widen d ndx dst l1 = Some (dst, l2) \<and>
    rd of64 sz64 dst l2 = rd of64 sz64 src l \<and>
    (\<forall>a. a < p \<or> p + (if ec = ELFCLASS32 then sz32 else sz64) \<le> a \<longrightarrow> mem l1 a = mem l a) \<and>
    l1 = set_mem (mem l1) l"
proof (cases "ec = ELFCLASS32")
  case True
  with entry fit obtain x where x: "widen x = rd of64 sz64 src l"
    and upd: "gelf_update t of32 to32 of64 to64 sz32 sz64 narrow d ndx src l = Some (True, wr to32 p x l)"
    using update_eq32 [OF _ src] by blast
  have again: "(if ec = ELFCLASS32 then widen (rd of32 sz32 p (wr to32 p x l)) else rd of64 sz64 p (wr to32 p x l)) =
      rd of64 sz64 src l"
    using True x by simp
  note facts = wr_get [OF entry dst D apart _ again]
  show ?thesis using upd facts length32 [of "host_be l" x] True by auto
next
  case False
  let ?y = "rd of64 sz64 src l"
  have again: "(if ec = ELFCLASS32 then widen (rd of32 sz32 p (wr to64 p ?y l)) else rd of64 sz64 p (wr to64 p ?y l)) = ?y"
    using False by simp
  note facts = wr_get [OF entry dst D apart _ again]
  show ?thesis using update_eq64 [OF entry False src] facts length64 [of "host_be l" ?y] False by auto
qed

end

text \<open>Types whose 32-bit functions refuse every structure that does not fit.\<close>

locale gelf_checked = gelf_record +
  assumes narrow_refuses: "\<not> fits y \<Longrightarrow> \<not> snd (narrow y x)"
begin

lemma update_refuses:
  assumes "has_entry t d ndx ELFCLASS32 p l" "src \<noteq> NULL" "\<not> fits (rd of64 sz64 src l)"
  shows "\<exists>l'. gelf_update t of32 to32 of64 to64 sz32 sz64 narrow d ndx src l = Some (False, l') \<and>
    libelf_error l' = ELF_E_RANGE"
proof -
  have "gelf_entry t d ndx src l = Some (Some (ELFCLASS32, p), l)"
    using gelf_entry_Some [OF type_ok, of d ndx src l ELFCLASS32 p l] assms by blast
  moreover obtain x where "narrow (rd of64 sz64 src l) (rd of32 sz32 p l) = (x, False)"
    using narrow_refuses [OF assms(3)] by (metis prod.collapse)
  ultimately show ?thesis by (simp add: gelf_update_def Let_def LIBELF_SET_ERROR_def)
qed

lemma update_get_iff:
  assumes "has_entry t d ndx ELFCLASS32 p l" "src \<noteq> NULL"
  shows "(\<exists>l'. gelf_update t of32 to32 of64 to64 sz32 sz64 narrow d ndx src l = Some (True, l')) \<longleftrightarrow>
    fits (rd of64 sz64 src l)"
proof
  assume "\<exists>l'. gelf_update t of32 to32 of64 to64 sz32 sz64 narrow d ndx src l = Some (True, l')"
  then show "fits (rd of64 sz64 src l)" using update_refuses [OF assms] by fastforce
next
  assume "fits (rd of64 sz64 src l)"
  then show "\<exists>l'. gelf_update t of32 to32 of64 to64 sz32 sz64 narrow d ndx src l = Some (True, l')"
    using update_eq32 [OF assms] by blast
qed

end

section \<open>Copying members\<close>

lemma take_bit_small: "unat v < 2 ^ n \<Longrightarrow> take_bit n v = v"
  by (simp add: word_unat_eq_iff unsigned_take_bit_eq take_bit_nat_eq_self)

lemma copy_u32:
  assumes "unat v \<le> 4294967295"
  shows "ucast (ucast v :: 32 word) = (v :: 64 word)"
proof -
  have "take_bit 32 v = v" using assms by (intro take_bit_small) simp
  moreover have "ucast (ucast v :: 32 word) = take_bit 32 v" by (rule bit_word_eqI) (auto simp: bit_simps)
  ultimately show ?thesis by simp
qed

lemma copy_s32:
  assumes "sint v \<le> 2147483647" "- 2147483648 \<le> sint v"
  shows "scast (ucast v :: 32 word) = (v :: 64 word)"
proof -
  have "scast (ucast v :: 32 word) = (word_of_int (signed_take_bit 31 (sint v)) :: 64 word)"
    by (rule bit_word_eqI) (auto simp: bit_simps min_def)
  also have "signed_take_bit 31 (sint v) = sint v"
    using assms by (simp add: signed_take_bit_int_eq_self_iff)
  finally show ?thesis by simp
qed

lemma mask_literal: "(0xF :: 8 word) = mask 4" "(0xFFFFFFFF :: 64 word) = mask 32"
  by (simp_all add: mask_eq_exp_minus_1)

lemma st_info_again [simp]: "ELF64_ST_INFO (ELF32_ST_BIND i) (ELF32_ST_TYPE i) = i"
proof -
  have "push_bit 4 (drop_bit 4 i) + ((i AND 0xF) AND 0xF) = push_bit 4 (drop_bit 4 i) OR (i AND mask 4)"
    unfolding mask_literal by (subst disjunctive_add) (auto simp: bit_simps and.assoc)
  also have "\<dots> = i" by (rule bit_word_eqI) (auto simp: bit_simps)
  finally show ?thesis unfolding ELF64_ST_INFO_def ELF32_ST_BIND_def ELF32_ST_TYPE_def .
qed

lemma r_info_or:
  "ELF32_R_INFO s t = push_bit 8 s OR take_bit 8 t" "ELF64_R_INFO s t = push_bit 32 s OR take_bit 32 t"
  unfolding ELF32_R_INFO_def ELF64_R_INFO_def mask_literal
  by (subst disjunctive_add; auto simp: bit_simps intro!: bit_word_eqI)+

lemma r_info_again:
  assumes "ELF64_R_SYM i < 2 ^ 24" "ELF64_R_TYPE i < 256"
  shows "widen_r_info (ucast (ELF32_R_INFO (ELF64_R_SYM i) (ELF64_R_TYPE i))) = i"
proof -
  have "take_bit 24 (drop_bit 32 i) = drop_bit 32 i" "take_bit 8 (take_bit 32 i) = take_bit 32 i"
    using assms unfolding ELF64_R_SYM_def ELF64_R_TYPE_def mask_literal
    by (auto simp: word_less_nat_alt simp del: take_bit_take_bit simp flip: take_bit_eq_mask intro!: take_bit_small)
  then have eq: "bit (take_bit 24 (drop_bit 32 i)) n = bit (drop_bit 32 i) n"
    "bit (take_bit 8 (take_bit 32 i)) n = bit (take_bit 32 i) n" for n
    by simp_all
  have hi: "n < 24" if "bit i (32 + n)" for n using eq(1) [of n] that by (simp add: bit_simps)
  have lo: "n < 8" if "bit i n" "n < 32" for n using eq(2) [of n] that by (simp add: bit_simps)
  note defs = widen_r_info_def r_info_or ELF64_R_SYM_def ELF64_R_TYPE_def ELF32_R_SYM_def ELF32_R_TYPE_def mask_literal
  show ?thesis
  proof (rule bit_word_eqI)
    fix n :: nat
    assume "n < LENGTH(64)"
    consider "n < 8" | "8 \<le> n" "n < 32" | k where "n = 32 + k" by (metis le_add_diff_inverse not_less)
    then show "bit (widen_r_info (ucast (ELF32_R_INFO (ELF64_R_SYM i) (ELF64_R_TYPE i)))) n = bit i n"
      unfolding defs using hi lo [of n] \<open>n < LENGTH(64)\<close> by cases (auto simp: bit_simps)
  qed
qed

section \<open>The entry types\<close>

definition fits_u32 :: "64 word \<Rightarrow> bool" where
  "fits_u32 v \<longleftrightarrow> unat v \<le> 4294967295"

definition fits_s32 :: "64 word \<Rightarrow> bool" where
  "fits_s32 v \<longleftrightarrow> - 2147483648 \<le> sint v \<and> sint v \<le> 2147483647"

definition fits_r_info :: "64 word \<Rightarrow> bool" where
  "fits_r_info i \<longleftrightarrow> ELF64_R_SYM i < 2 ^ 24 \<and> ELF64_R_TYPE i < 256"

lemma copy_u32_fits:
  "fits_u32 v \<Longrightarrow> LIBELF_COPY_U32 f v h = assign (f (ucast v)) h"
  "fits_u32 v \<Longrightarrow> ucast (ucast v :: 32 word) = v"
  "\<not> fits_u32 v \<Longrightarrow> \<not> snd (LIBELF_COPY_U32 f v h)"
  "\<not> snd h \<Longrightarrow> \<not> snd (LIBELF_COPY_U32 f v h)"
  by (auto simp: fits_u32_def LIBELF_COPY_U32_def assign_def copy_u32)

lemma copy_s32_fits:
  "fits_s32 v \<Longrightarrow> LIBELF_COPY_S32 f v h = assign (f (ucast v)) h"
  "fits_s32 v \<Longrightarrow> scast (ucast v :: 32 word) = v"
  "\<not> fits_s32 v \<Longrightarrow> \<not> snd (LIBELF_COPY_S32 f v h)"
  "\<not> snd h \<Longrightarrow> \<not> snd (LIBELF_COPY_S32 f v h)"
  by (auto simp: fits_s32_def LIBELF_COPY_S32_def assign_def copy_s32)

lemma r_info_limits: "ELF32_R_SYM (NOT 0 :: 64 word) = 0xFFFFFFFFFFFFFF" "ELF32_R_TYPE (NOT 0 :: 32 word) = 0xFF"
  by (simp_all add: ELF32_R_SYM_def ELF32_R_TYPE_def mask_eq_exp_minus_1 unsigned_minus_1_eq_mask)

lemma r_info_fits:
  "fits_r_info i \<Longrightarrow>
     narrow_r_info f i h = assign (f (ucast (ELF32_R_INFO (ELF64_R_SYM i) (ELF64_R_TYPE i)))) h"
  "fits_r_info i \<Longrightarrow> widen_r_info (ucast (ELF32_R_INFO (ELF64_R_SYM i) (ELF64_R_TYPE i))) = i"
proof -
  assume fits: "fits_r_info i"
  then have "ELF64_R_SYM i \<le> ELF32_R_SYM (NOT 0)" "ELF64_R_TYPE i \<le> ucast (ELF32_R_TYPE (NOT 0 :: 32 word))"
    unfolding r_info_limits by (simp_all add: fits_r_info_def word_less_nat_alt word_le_nat_alt)
  then show "narrow_r_info f i h = assign (f (ucast (ELF32_R_INFO (ELF64_R_SYM i) (ELF64_R_TYPE i)))) h"
    by (auto simp: narrow_r_info_def assign_def)
  show "widen_r_info (ucast (ELF32_R_INFO (ELF64_R_SYM i) (ELF64_R_TYPE i))) = i"
    using fits by (simp add: fits_r_info_def r_info_again)
qed

text \<open>Any symbol index passes the check.\<close>

lemma narrow_r_info_sym:
  assumes "ELF64_R_TYPE i < 256"
  shows "narrow_r_info f i h = assign (f (ucast (ELF32_R_INFO (ELF64_R_SYM i) (ELF64_R_TYPE i)))) h"
proof -
  have "unat (ELF64_R_SYM i) < 2 ^ 32"
    using unat_drop_bit_eq [of 32 i] unsigned_less [of i, where 'a = nat]
    by (simp add: ELF64_R_SYM_def drop_bit_eq_div less_mult_imp_div_less)
  then have "ELF64_R_SYM i \<le> ELF32_R_SYM (NOT 0)" unfolding r_info_limits by (simp add: word_le_nat_alt)
  moreover have "ELF64_R_TYPE i \<le> ucast (ELF32_R_TYPE (NOT 0 :: 32 word))"
    using assms unfolding r_info_limits by (simp add: word_le_nat_alt word_less_nat_alt)
  ultimately show ?thesis by (auto simp: narrow_r_info_def assign_def)
qed

lemma assign_simps [simp]: "assign f (x, True) = (f x, True)" "snd (assign f h) = snd h"
  by (simp_all add: assign_def)

lemmas copy_fits = copy_u32_fits copy_s32_fits r_info_fits

definition fits_sym :: "Elf64_Sym \<Rightarrow> bool" where
  "fits_sym s \<longleftrightarrow> fits_u32 (st_value s) \<and> fits_u32 (st_size s)"

definition fits_rel :: "Elf64_Rel \<Rightarrow> bool" where
  "fits_rel r \<longleftrightarrow> fits_u32 (r_offset r) \<and> fits_r_info (r_info r)"

definition fits_rela :: "Elf64_Rela \<Rightarrow> bool" where
  "fits_rela r \<longleftrightarrow> fits_u32 (r_offset r) \<and> fits_r_info (r_info r) \<and> fits_s32 (r_addend r)"

definition fits_dyn :: "Elf64_Dyn \<Rightarrow> bool" where
  "fits_dyn d \<longleftrightarrow> fits_s32 (d_tag d) \<and> fits_u32 (d_ptr d)"

definition fits_move :: "Elf64_Move \<Rightarrow> bool" where
  "fits_move m \<longleftrightarrow> fits_u32 (m_info m) \<and> fits_u32 (m_poffset m)"

definition fits_cap :: "Elf64_Cap \<Rightarrow> bool" where
  "fits_cap c \<longleftrightarrow> fits_u32 (c_tag c) \<and> fits_u32 (c_val c)"

interpretation gsym: gelf_checked ELF_T_SYM Elf32_Sym_of Elf32_Sym_bytes Elf64_Sym_of Elf64_Sym_bytes
  sizeof_Elf32_Sym sizeof_Elf64_Sym widen_sym narrow_sym fits_sym
  by unfold_locales (use elf32syms.stored elf64syms.stored elf32syms.length_le_msz elf64syms.length_le_msz in
    \<open>auto simp: narrow_sym_def widen_sym_def fits_sym_def copy_fits\<close>)

interpretation grel: gelf_record ELF_T_REL Elf32_Rel_of Elf32_Rel_bytes Elf64_Rel_of Elf64_Rel_bytes
  sizeof_Elf32_Rel sizeof_Elf64_Rel widen_rel narrow_rel fits_rel
  by unfold_locales (use elf32rels.stored elf64rels.stored elf32rels.length_le_msz elf64rels.length_le_msz in
    \<open>auto simp: narrow_rel_def widen_rel_def fits_rel_def copy_fits\<close>)

interpretation grela: gelf_record ELF_T_RELA Elf32_Rela_of Elf32_Rela_bytes Elf64_Rela_of Elf64_Rela_bytes
  sizeof_Elf32_Rela sizeof_Elf64_Rela widen_rela narrow_rela fits_rela
  by unfold_locales (use elf32relas.stored elf64relas.stored elf32relas.length_le_msz elf64relas.length_le_msz in
    \<open>auto simp: narrow_rela_def widen_rela_def fits_rela_def copy_fits\<close>)

interpretation gdyn: gelf_checked ELF_T_DYN Elf32_Dyn_of Elf32_Dyn_bytes Elf64_Dyn_of Elf64_Dyn_bytes
  sizeof_Elf32_Dyn sizeof_Elf64_Dyn widen_dyn narrow_dyn fits_dyn
  by unfold_locales (use elf32dyns.stored elf64dyns.stored elf32dyns.length_le_msz elf64dyns.length_le_msz in
    \<open>auto simp: narrow_dyn_def widen_dyn_def fits_dyn_def copy_fits\<close>)

interpretation gmove: gelf_checked ELF_T_MOVE Elf32_Move_of Elf32_Move_bytes Elf64_Move_of Elf64_Move_bytes
  sizeof_Elf32_Move sizeof_Elf64_Move widen_move narrow_move fits_move
  by unfold_locales (use elf32moves.stored elf64moves.stored elf32moves.length_le_msz elf64moves.length_le_msz in
    \<open>auto simp: narrow_move_def widen_move_def fits_move_def copy_fits\<close>)

interpretation gcap: gelf_checked ELF_T_CAP Elf32_Cap_of Elf32_Cap_bytes Elf64_Cap_of Elf64_Cap_bytes
  sizeof_Elf32_Cap sizeof_Elf64_Cap widen_cap narrow_cap fits_cap
  by unfold_locales (use elf32caps.stored elf64caps.stored elf32caps.length_le_msz elf64caps.length_le_msz in
    \<open>auto simp: narrow_cap_def widen_cap_def fits_cap_def copy_fits\<close>)

interpretation gsyminfo: gelf_checked ELF_T_SYMINFO Elf32_Syminfo_of Elf32_Syminfo_bytes Elf64_Syminfo_of
  Elf64_Syminfo_bytes sizeof_Elf32_Syminfo sizeof_Elf64_Syminfo widen_syminfo narrow_syminfo "\<lambda>_. True"
  by unfold_locales (use elf32syminfos.stored elf64syminfos.stored elf32syminfos.length_le_msz
    elf64syminfos.length_le_msz in \<open>auto simp: narrow_syminfo_def widen_syminfo_def\<close>)

section \<open>Failures\<close>

lemma set_error_option_keeps [simp]:
  "mem (set_error_option err l) = mem l" "datas (set_error_option err l) = datas l"
  by (simp_all add: set_error_option_def split: option.split)

lemma gelf_entry_mem: "gelf_entry t d ndx dst l = Some (r, l') \<Longrightarrow> mem l' = mem l \<and> datas l' = datas l"
  by (auto simp: gelf_entry_def Let_def bind_eq_Some_conv split: if_splits)

lemma gelf_update_datas:
  assumes "gelf_update t of32 to32 of64 to64 sz32 sz64 narrow d ndx src l = Some (ok, l')"
  shows "datas l' = datas l"
proof -
  obtain r l1 where entry: "gelf_entry t d ndx src l = Some (r, l1)"
    using assms by (auto simp: gelf_update_def bind_eq_Some_conv)
  then have "datas l1 = datas l" by (blast dest: gelf_entry_mem)
  with assms entry show ?thesis
    by (cases r) (auto simp: gelf_update_def Let_def split: prod.splits if_splits)
qed

text \<open>A type that no section has.\<close>

lemma no_entry_fails:
  assumes "\<And>sht. libelf_xlate_shtype sht \<noteq> Some t" "t \<noteq> ELF_T_NUM"
  shows "gelf_get t of32 of64 to64 sz32 sz64 widen d ndx dst l = Some (r, l') \<Longrightarrow> r = NULL \<and> mem l' = mem l"
    and "gelf_update t of32 to32 of64 to64 sz32 sz64 narrow d ndx src l = Some (ok, l') \<Longrightarrow> \<not> ok \<and> mem l' = mem l"
proof -
  have none: "a = None" if "gelf_entry t d ndx q l = Some (a, l1)" for q a l1
    using that assms by (cases a) (auto simp: gelf_entry_Some has_entry_def)
  show "r = NULL \<and> mem l' = mem l" if "gelf_get t of32 of64 to64 sz32 sz64 widen d ndx dst l = Some (r, l')"
  proof -
    obtain a l1 where "gelf_entry t d ndx dst l = Some (a, l1)"
      using \<open>gelf_get _ _ _ _ _ _ _ _ _ _ _ = _\<close> by (auto simp: gelf_get_def bind_eq_Some_conv)
    with none [OF this] that show ?thesis by (auto simp: gelf_get_def dest: gelf_entry_mem)
  qed
  show "\<not> ok \<and> mem l' = mem l" if "gelf_update t of32 to32 of64 to64 sz32 sz64 narrow d ndx src l = Some (ok, l')"
  proof -
    obtain a l1 where "gelf_entry t d ndx src l = Some (a, l1)"
      using \<open>gelf_update _ _ _ _ _ _ _ _ _ _ _ _ = _\<close> by (auto simp: gelf_update_def bind_eq_Some_conv)
    with none [OF this] that show ?thesis by (auto simp: gelf_update_def dest: gelf_entry_mem)
  qed
qed

lemma xindex_entry_typed:
  assumes "xindex_entry (\<lambda>D I. d_type D) d idx ndx l = Some (r, l')" "datas l d = Some D" "d_type D \<noteq> ELF_T_WORD"
  shows "r = None \<and> mem l' = mem l"
  using assms by (auto simp: xindex_entry_def Let_def bind_eq_Some_conv split: if_splits)

section \<open>A sample library state\<close>

text \<open>
  An object of class \<open>ec\<close> at 1000 with a section of type \<open>sht\<close> at 2000 whose data descriptor, at
  3000, has \<open>n\<close> bytes at 4000; the byte memory holds the type of the section and \<open>bs\<close> at 5000.
\<close>

definition sample_elf :: "int \<Rightarrow> Elf" where
  "sample_elf ec =
     \<lparr>e_activations = 1, e_arhdr = NULL, e_byteorder = ELFDATA2LSB, e_class = ec, e_cmd = ELF_C_RDWR, e_fd = 3,
      e_elf_flags = 0, e_kind = ELF_K_ELF, e_parent = NULL, e_rawfile = NULL, e_rawsize = 0,
      e_elf_version = EV_CURRENT, e_next = 0, e_nchildren = 0, e_rawstrtab = NULL, e_rawstrtabsz = 0,
      e_rawsymtab = NULL, e_rawsymtabsz = 0, e_symtab = NULL, e_symtabsz = 0, e_ehdr = NULL, e_phdr = NULL,
      e_scn = [2000], e_nphdr = 0, e_nscn = 1, e_strndx = 0\<rparr>"

definition sample_scn :: "nat \<Rightarrow> Elf_Scn" where
  "sample_scn n =
     \<lparr>s_data = [3000], s_rawdata = [], s_elf = 1000, s_flags = 0, s_ndx = 1, s_offset = 0, s_rawoff = 0, s_size = n\<rparr>"

definition sample_data :: "Elf_Type \<Rightarrow> nat \<Rightarrow> Elf_Data" where
  "sample_data t n =
     \<lparr>d_align = 4, d_buf = 4000, d_off = 0, d_size = n, d_type = t, d_version = EV_CURRENT, d_scn = 2000, d_flags = 0\<rparr>"

definition sample_lib :: "int \<Rightarrow> byte \<Rightarrow> Elf_Type \<Rightarrow> nat \<Rightarrow> byte list \<Rightarrow> libelf" where
  "sample_lib ec sht t n bs =
     \<lparr>host_be = False, libelf_byteorder = ELFDATA2LSB, libelf_error = ELF_E_NONE, libelf_oserror = 0,
      libelf_fillchar = 0, libelf_version = EV_CURRENT,
      mem = put_bytes (put_bytes (\<lambda>_. 0) 2000 [0, 0, 0, 0, sht, 0, 0, 0]) 5000 bs,
      heap_next = 16000, heap_limit = 32000, elfs = [1000 \<mapsto> sample_elf ec],
      scns = [2000 \<mapsto> sample_scn n], datas = [3000 \<mapsto> sample_data t n],
      arhdrs = Map.empty, files = Map.empty, os_errno = 0\<rparr>"

lemma sample_simps [simp]:
  "elfs (sample_lib ec sht t n bs) = [1000 \<mapsto> sample_elf ec]" "host_be (sample_lib ec sht t n bs) = False"
  "scns (sample_lib ec sht t n bs) = [2000 \<mapsto> sample_scn n]"
  "datas (sample_lib ec sht t n bs) = [3000 \<mapsto> sample_data t n]"
  "e_class (sample_elf ec) = ec" "e_elf_version (sample_elf ec) = EV_CURRENT" "s_elf (sample_scn n) = 1000"
  "d_scn (sample_data t n) = 2000" "d_buf (sample_data t n) = 4000" "d_size (sample_data t n) = n"
  "d_type (sample_data t n) = t"
  by (simp_all add: sample_lib_def sample_elf_def sample_scn_def sample_data_def)

context gelf_record
begin

lemma sample_rd: "rd of64 sz64 5000 (sample_lib ec sht t' n (to64 False y)) = y"
  by (simp add: rd_def) (simp add: sample_lib_def stored64)

end

lemma sample_shtype: "entry_shtype ec 2000 (sample_lib ec' sht t n bs) = ucast sht"
proof -
  have "bytes_at (mem (sample_lib ec' sht t n bs)) 2004 4 = [sht, 0, 0, 0]"
    by (simp add: sample_lib_def put_bytes_def bytes_at_def upt_rec)
  then show ?thesis
    by (simp add: entry_shtype_def shdr32_def shdr64_def codec_defs host_word_def)
qed

lemma sample_entry:
  assumes "libelf_xlate_shtype (ucast sht) = Some t" "ec = ELFCLASS32 \<or> ec = ELFCLASS64" "0 \<le> ndx"
    and "msz_of t ec \<noteq> 0" "u64 (msz_of t ec * nat ndx) < n"
  shows "has_entry t 3000 ndx ec (4000 + nat ndx * msz_of t ec) (sample_lib ec sht t' n bs)"
  using assms by (simp add: has_entry_def sample_shtype)

definition sample_sym :: "64 word \<Rightarrow> Elf64_Sym" where
  "sample_sym v = \<lparr>st_name = 7, st_value = v, st_size = 12, st_info = 0x12, st_other = 0, st_shndx = 1\<rparr>"

definition sym_lib :: "64 word \<Rightarrow> libelf" where
  "sym_lib v = sample_lib ELFCLASS32 2 ELF_T_SYM 32 (Elf64_Sym_bytes False (sample_sym v))"

lemma sym_lib_entry:
  "has_entry ELF_T_SYM 3000 1 ELFCLASS32 4016 (sym_lib v)"
  "rd Elf64_Sym_of sizeof_Elf64_Sym 5000 (sym_lib v) = sample_sym v"
  using sample_entry [of 2 ELF_T_SYM 1 1 32 ELF_T_SYM]
  by (simp_all add: sym_lib_def libelf_xlate_shtype_def msz_of_def gsym.sample_rd)

definition sample_rela :: "64 word \<Rightarrow> Elf64_Rela" where
  "sample_rela i = \<lparr>r_offset = 0x8000, r_info = i, r_addend = - 4\<rparr>"

definition rela_lib :: "64 word \<Rightarrow> libelf" where
  "rela_lib i = sample_lib ELFCLASS32 4 ELF_T_RELA 24 (Elf64_Rela_bytes False (sample_rela i))"

lemma rela_lib_entry:
  "has_entry ELF_T_RELA 3000 1 ELFCLASS32 4012 (rela_lib i)"
  "rd Elf64_Rela_of sizeof_Elf64_Rela 5000 (rela_lib i) = sample_rela i"
  using sample_entry [of 4 ELF_T_RELA 1 1 24 ELF_T_RELA]
  by (simp_all add: rela_lib_def libelf_xlate_shtype_def msz_of_def grela.sample_rd)

section \<open>Properties\<close>

text \<open>C25. Symbols: a symbol written by \<open>gelf_update_sym\<close> is read back by \<open>gelf_getsym\<close>, for
  either class, when it fits the class of the object; only the bytes of the entry change.  A 32-bit object
  accepts a symbol exactly when its value and size fit 32 bits; otherwise \<open>gelf_update_sym\<close> reports \<open>ELF_E_RANGE\<close>.\<close>

theorem gelf_sym_update_get:
  assumes "has_entry ELF_T_SYM d ndx ec p l" "src \<noteq> NULL"
  shows "(ec = ELFCLASS32 \<longrightarrow> (\<exists>l'. gelf_update_sym d ndx src l = Some (fits_sym (rd Elf64_Sym_of sizeof_Elf64_Sym src l), l') \<and>
      (fits_sym (rd Elf64_Sym_of sizeof_Elf64_Sym src l) \<or> libelf_error l' = ELF_E_RANGE))) \<and>
    (dst \<noteq> NULL \<longrightarrow> (ec = ELFCLASS32 \<longrightarrow> fits_sym (rd Elf64_Sym_of sizeof_Elf64_Sym src l)) \<longrightarrow> datas l d = Some D \<longrightarrow>
     disjoint_ranges (d_scn D) 64 p (if ec = ELFCLASS32 then sizeof_Elf32_Sym else sizeof_Elf64_Sym) \<longrightarrow>
     (\<exists>l1 l2. gelf_update_sym d ndx src l = Some (True, l1) \<and> gelf_getsym d ndx dst l1 = Some (dst, l2) \<and>
      rd Elf64_Sym_of sizeof_Elf64_Sym dst l2 = rd Elf64_Sym_of sizeof_Elf64_Sym src l \<and>
      (\<forall>a. a < p \<or> p + (if ec = ELFCLASS32 then sizeof_Elf32_Sym else sizeof_Elf64_Sym) \<le> a \<longrightarrow> mem l1 a = mem l a) \<and>
      l1 = set_mem (mem l1) l))"
proof (intro conjI impI)
  assume "ec = ELFCLASS32"
  then have e: "has_entry ELF_T_SYM d ndx ELFCLASS32 p l" using assms(1) by simp
  show "\<exists>l'. gelf_update_sym d ndx src l = Some (fits_sym (rd Elf64_Sym_of sizeof_Elf64_Sym src l), l') \<and>
      (fits_sym (rd Elf64_Sym_of sizeof_Elf64_Sym src l) \<or> libelf_error l' = ELF_E_RANGE)"
    using gsym.update_get_iff [OF e assms(2)] gsym.update_refuses [OF e assms(2)]
    by (cases "fits_sym (rd Elf64_Sym_of sizeof_Elf64_Sym src l)") (auto simp: gelf_update_sym_def)
qed (unfold gelf_update_sym_def gelf_getsym_def, rule gsym.update_get [OF assms])

theorem gelf_sym_update_get_witness:
  "(\<exists>l1 l2. gelf_update_sym 3000 1 5000 (sym_lib 0x8000) = Some (True, l1) \<and>
     gelf_getsym 3000 1 6000 l1 = Some (6000, l2) \<and> rd Elf64_Sym_of sizeof_Elf64_Sym 6000 l2 = sample_sym 0x8000) \<and>
   (\<exists>l'. gelf_update_sym 3000 1 5000 (sym_lib (2 ^ 32)) = Some (False, l') \<and> libelf_error l' = ELF_E_RANGE)"
proof -
  have "datas (sym_lib 0x8000) 3000 = Some (sample_data ELF_T_SYM 32)" by (simp add: sym_lib_def)
  with gelf_sym_update_get [OF sym_lib_entry(1), of 5000 "0x8000" 6000 "sample_data ELF_T_SYM 32"]
    gelf_sym_update_get [OF sym_lib_entry(1), of 5000 "2 ^ 32" 6000] show ?thesis
    by (auto simp: sym_lib_entry sample_sym_def fits_sym_def fits_u32_def disjoint_ranges_def)
qed

text \<open>C26. Relocations with an addend: an update is read back when the offset and the addend fit
  32 bits, the symbol index 24 bits and the type 8 bits.\<close>

theorem gelf_rela_update_get:
  assumes "has_entry ELF_T_RELA d ndx ec p l" "src \<noteq> NULL" "dst \<noteq> NULL"
    and "ec = ELFCLASS32 \<longrightarrow> fits_rela (rd Elf64_Rela_of sizeof_Elf64_Rela src l)"
    and "datas l d = Some D"
    and "disjoint_ranges (d_scn D) 64 p (if ec = ELFCLASS32 then sizeof_Elf32_Rela else sizeof_Elf64_Rela)"
  shows "\<exists>l1 l2. gelf_update_rela d ndx src l = Some (True, l1) \<and> gelf_getrela d ndx dst l1 = Some (dst, l2) \<and>
    rd Elf64_Rela_of sizeof_Elf64_Rela dst l2 = rd Elf64_Rela_of sizeof_Elf64_Rela src l \<and>
    (\<forall>a. a < p \<or> p + (if ec = ELFCLASS32 then sizeof_Elf32_Rela else sizeof_Elf64_Rela) \<le> a \<longrightarrow> mem l1 a = mem l a) \<and>
    l1 = set_mem (mem l1) l"
  unfolding gelf_update_rela_def gelf_getrela_def using assms by (rule grela.update_get)

theorem gelf_rela_update_get_witness:
  "\<exists>l1 l2. gelf_update_rela 3000 1 5000 (rela_lib 0x500000002) = Some (True, l1) \<and>
     gelf_getrela 3000 1 6000 l1 = Some (6000, l2) \<and>
     rd Elf64_Rela_of sizeof_Elf64_Rela 6000 l2 = sample_rela 0x500000002"
proof -
  have "datas (rela_lib 0x500000002) 3000 = Some (sample_data ELF_T_RELA 24)" by (simp add: rela_lib_def)
  from gelf_rela_update_get [OF rela_lib_entry(1) _ _ _ this, of 5000 6000] show ?thesis
    by (auto simp: rela_lib_entry sample_rela_def fits_rela_def fits_u32_def fits_s32_def fits_r_info_def
        ELF64_R_SYM_def ELF64_R_TYPE_def disjoint_ranges_def)
qed

text \<open>The range check of \<open>gelf_update_rela\<close> compares the symbol index with
  \<open>ELF32_R_SYM(~0UL)\<close>, which has 56 bits: on a 32-bit object a symbol index of more than 24 bits
  is accepted and stored without its high bits.\<close>

theorem gelf_update_rela_truncates:
  assumes "has_entry ELF_T_RELA d ndx ELFCLASS32 p l" "src \<noteq> NULL"
    and "rd Elf64_Rela_of sizeof_Elf64_Rela src l = r"
    and "fits_u32 (r_offset r)" "fits_s32 (r_addend r)" "ELF64_R_TYPE (r_info r) < 256"
  shows "\<exists>l'. gelf_update_rela d ndx src l = Some (True, l') \<and>
    ELF32_R_SYM (r_info (rd Elf32_Rela_of sizeof_Elf32_Rela p l')) = ucast (take_bit 24 (ELF64_R_SYM (r_info r)))"
proof -
  let ?i = "r_info r"
  let ?v = "ucast (ELF32_R_INFO (ELF64_R_SYM ?i) (ELF64_R_TYPE ?i)) :: 32 word"
  obtain h where h: "narrow_rela r (rd Elf32_Rela_of sizeof_Elf32_Rela p l) = (h, True)" "r_info h = ?v"
    using assms(4,5) by (simp add: narrow_rela_def copy_fits narrow_r_info_sym [OF assms(6)])
  have "gelf_entry ELF_T_RELA d ndx src l = Some (Some (ELFCLASS32, p), l)"
    using gelf_entry_Some [of ELF_T_RELA d ndx src l ELFCLASS32 p l] assms(1,2) by blast
  then have "gelf_update_rela d ndx src l = Some (True, wr Elf32_Rela_bytes p h l)"
    using h assms(3) by (simp add: gelf_update_rela_def gelf_update_def Let_def)
  moreover have "ELF32_R_SYM ?v = ucast (take_bit 24 (ELF64_R_SYM ?i))"
    unfolding ELF32_R_SYM_def r_info_or by (rule bit_word_eqI) (auto simp: bit_simps)
  ultimately show ?thesis using h by simp
qed

theorem gelf_update_rela_truncates_witness:
  "\<exists>l'. gelf_update_rela 3000 1 5000 (rela_lib 0x100000500000002) = Some (True, l') \<and>
     ELF32_R_SYM (r_info (rd Elf32_Rela_of sizeof_Elf32_Rela 4012 l')) = 5"
  using gelf_update_rela_truncates [OF rela_lib_entry(1) _ rela_lib_entry(2) [of "0x100000500000002"]]
  by (simp add: sample_rela_def fits_u32_def fits_s32_def ELF64_R_SYM_def ELF64_R_TYPE_def take_bit_eq_mod drop_bit_eq_div)

text \<open>C27. An entry that the checks let pass lies inside of the buffer of its descriptor, when the
  size of the buffer is a multiple of the entry size and the index is an \<open>int\<close>; the checks do not
  change the state.\<close>

theorem gelf_entry_inside:
  assumes "gelf_entry t d ndx dst l = Some (Some (ec, p), l')" "t \<noteq> ELF_T_NUM"
    and "datas l d = Some D" "msz_of t ec dvd d_size D" "ndx < 2 ^ 31"
  shows "d_buf D \<le> p \<and> p + msz_of t ec \<le> d_buf D + d_size D \<and> l' = l"
proof -
  have "has_entry t d ndx ec p l" "l' = l" using assms(1,2) by (simp_all add: gelf_entry_Some)
  then have p: "p = d_buf D + nat ndx * msz_of t ec" and pos: "msz_of t ec \<noteq> 0"
    and lt: "u64 (msz_of t ec * nat ndx) < d_size D"
    using assms(3) by (auto simp: has_entry_def)
  have "msz_of t ec * nat ndx \<le> 64 * 2 ^ 31" using msz_bound assms(5) by (intro mult_le_mono) auto
  then have "msz_of t ec * nat ndx < d_size D" using lt by simp
  moreover obtain k where k: "d_size D = msz_of t ec * k" using assms(4) by blast
  ultimately have "Suc (nat ndx) \<le> k" using pos by simp
  then have "msz_of t ec * Suc (nat ndx) \<le> d_size D" unfolding k by (rule mult_le_mono2)
  then show ?thesis using p \<open>l' = l\<close> by (simp add: algebra_simps)
qed

theorem gelf_entry_inside_witness:
  "gelf_entry ELF_T_SYM 3000 1 5000 (sym_lib 0) = Some (Some (ELFCLASS32, 4016), sym_lib 0) \<and>
    d_buf (sample_data ELF_T_SYM 32) \<le> 4016 \<and>
    4016 + msz_of ELF_T_SYM ELFCLASS32 \<le> d_buf (sample_data ELF_T_SYM 32) + d_size (sample_data ELF_T_SYM 32)"
proof -
  have e: "gelf_entry ELF_T_SYM 3000 1 5000 (sym_lib 0) = Some (Some (ELFCLASS32, 4016), sym_lib 0)"
    using gelf_entry_Some [of ELF_T_SYM 3000 1 5000 "sym_lib 0" ELFCLASS32 4016 "sym_lib 0"] sym_lib_entry(1) [of 0]
    by simp
  from gelf_entry_inside [OF e _ _ _, of "sample_data ELF_T_SYM 32"]
  show ?thesis using e by (simp add: sym_lib_def msz_of_def)
qed

text \<open>No section type has data of type \<open>ELF_T_CAP\<close> (\<open>_libelf_xlate_shtype\<close> has no case for
  \<open>SHT_SUNW_cap\<close>): \<open>gelf_getcap\<close> and \<open>gelf_update_cap\<close> never succeed and never change memory.\<close>

theorem gelf_cap_never:
  "(gelf_getcap d ndx dst l = Some (r, l') \<longrightarrow> r = NULL \<and> mem l' = mem l) \<and>
   (gelf_update_cap d ndx src l = Some (ok, l'') \<longrightarrow> \<not> ok \<and> mem l'' = mem l)"
proof -
  have none: "libelf_xlate_shtype sht \<noteq> Some ELF_T_CAP" for sht by (simp add: libelf_xlate_shtype_def)
  have cap: "ELF_T_CAP \<noteq> ELF_T_NUM" by simp
  show ?thesis
    unfolding gelf_getcap_def gelf_update_cap_def
    by (intro conjI impI; drule no_entry_fails [OF none cap]; simp)
qed

theorem gelf_cap_never_witness:
  "\<exists>l'. gelf_getcap 3000 0 6000 (sym_lib 0) = Some (NULL, l') \<and> mem l' = mem (sym_lib 0)"
proof -
  have "\<exists>r l'. gelf_getcap 3000 0 6000 (sym_lib 0) = Some (r, l')"
    by (simp add: gelf_getcap_def gelf_get_def gelf_entry_def sym_lib_def
        sample_shtype [unfolded entry_shtype_def, of ELFCLASS32, simplified] libelf_xlate_shtype_def)
  then show ?thesis using gelf_cap_never [of 3000 0 6000 "sym_lib 0"] by auto
qed

text \<open>\<open>gelf_update_symshndx\<close> tests the data type of the symbol descriptor where it means the
  descriptor of the extended indices: on a symbol table it always fails, after the symbol
  itself has been updated.\<close>

theorem gelf_update_symshndx_fails:
  assumes "datas l d = Some D" "d_type D \<noteq> ELF_T_WORD"
    and "gelf_update_symshndx d idx ndx gs x l = Some (ok, l')"
  shows "\<not> ok \<and> (\<exists>ok' l1. gelf_update_sym d ndx gs l = Some (ok', l1) \<and> mem l' = mem l1)"
proof -
  obtain ok' l1 where upd: "gelf_update_sym d ndx gs l = Some (ok', l1)"
    using assms(3) by (auto simp: gelf_update_symshndx_def bind_eq_Some_conv)
  have "datas l1 = datas l" using upd gelf_update_datas by (auto simp: gelf_update_sym_def)
  show ?thesis
  proof (cases ok')
    case False
    with upd assms(3) have "\<not> ok" "l' = l1" by (simp_all add: gelf_update_symshndx_def)
    with upd show ?thesis by blast
  next
    case True
    then obtain r l2 where x: "xindex_entry (\<lambda>D I. d_type D) d idx ndx l1 = Some (r, l2)"
      using upd assms(3) by (auto simp: gelf_update_symshndx_def bind_eq_Some_conv)
    then have "r = None" "mem l2 = mem l1"
      using assms(1,2) \<open>datas l1 = datas l\<close> xindex_entry_typed by auto
    with upd x True assms(3) have "\<not> ok" "l' = l2" by (simp_all add: gelf_update_symshndx_def)
    with upd \<open>mem l2 = mem l1\<close> show ?thesis by blast
  qed
qed

definition symx_lib :: libelf where
  "symx_lib = (sym_lib 0)
     \<lparr>mem := put_bytes (mem (sym_lib 0)) 2100 [0, 0, 0, 0, 18, 0, 0, 0],
      scns := (scns (sym_lib 0))(2100 \<mapsto> sample_scn 8),
      datas := (datas (sym_lib 0))(3100 \<mapsto> (sample_data ELF_T_WORD 8)\<lparr>d_scn := 2100, d_buf := 4100\<rparr>)\<rparr>"

lemma symx_shtypes: "entry_shtype 1 2000 symx_lib = 2" "entry_shtype 1 2100 symx_lib = 18"
proof -
  have "bytes_at (mem symx_lib) 2004 4 = [2, 0, 0, 0]" "bytes_at (mem symx_lib) 2104 4 = [18, 0, 0, 0]"
    by (simp_all add: symx_lib_def sym_lib_def sample_lib_def put_bytes_def bytes_at_def upt_rec)
  moreover have "host_be symx_lib = False" by (simp add: symx_lib_def sym_lib_def)
  ultimately show "entry_shtype 1 2000 symx_lib = 2" "entry_shtype 1 2100 symx_lib = 18"
    by (simp_all add: entry_shtype_def shdr32_def codec_defs host_word_def)
qed

lemma symx_parts [simp]:
  "elfs symx_lib = [1000 \<mapsto> sample_elf 1]"
  "scns symx_lib = [2000 \<mapsto> sample_scn 32, 2100 \<mapsto> sample_scn 8]"
  "datas symx_lib = [3000 \<mapsto> sample_data ELF_T_SYM 32,
    3100 \<mapsto> (sample_data ELF_T_WORD 8)\<lparr>d_scn := 2100, d_buf := 4100\<rparr>]"
  by (simp_all add: symx_lib_def sym_lib_def)

theorem gelf_update_symshndx_fails_witness:
  "\<exists>l'. gelf_update_symshndx 3000 3100 1 5000 7 symx_lib = Some (False, l')"
proof -
  have "has_entry ELF_T_SYM 3000 1 1 4016 symx_lib"
    by (simp add: has_entry_def symx_shtypes libelf_xlate_shtype_def msz_of_def)
  moreover have "rd Elf64_Sym_of sizeof_Elf64_Sym 5000 symx_lib = sample_sym 0"
    unfolding sym_lib_entry(2) [symmetric] rd_def by (simp add: symx_lib_def)
  then have "fits_sym (rd Elf64_Sym_of sizeof_Elf64_Sym 5000 symx_lib)"
    by (simp add: fits_sym_def fits_u32_def sample_sym_def)
  ultimately obtain x where x: "gelf_update_sym 3000 1 5000 symx_lib = Some (True, wr Elf32_Sym_bytes 4016 x symx_lib)"
    using gsym.update_eq32 [of 3000 1 4016 symx_lib 5000] by (auto simp: gelf_update_sym_def)
  have "entry_shtype 1 2100 (wr Elf32_Sym_bytes 4016 x symx_lib) = 18"
    using entry_shtype_wr [where f = Elf32_Sym_bytes and x = x and p = 4016 and scn = 2100 and l = symx_lib and ec = 1]
    by (simp add: disjoint_ranges_def symx_shtypes(2))
  then have "sh_type (shdr32 (wr Elf32_Sym_bytes 4016 x symx_lib) 2100) = 18" by (simp add: entry_shtype_def)
  then have "\<exists>ok l'. gelf_update_symshndx 3000 3100 1 5000 7 symx_lib = Some (ok, l')"
    by (auto simp: gelf_update_symshndx_def xindex_entry_def x)
  with gelf_update_symshndx_fails [of symx_lib 3000 "sample_data ELF_T_SYM 32" 3100 1 5000 7]
  show ?thesis by auto
qed

end
