(* ===== verification/Libelf_Invariant.thy ===== *)
theory Libelf_Invariant
  imports Libelf_Entries
begin

text \<open>
  The invariant of the library's descriptors and the rules with which operations are shown to
  keep it.  The invariant speaks about the lists that link descriptors, their owners and the
  counts that decide when a descriptor is released, not about the other members.
\<close>

section \<open>The links between descriptors\<close>

text \<open>
  What the invariant reads of a descriptor: kind, activations, parent, number of children and
  sections of an object; owner, data and raw data of a section; section and the flag
  \<open>LIBELF_F_DATA_MALLOCED\<close> of data.
\<close>

record elf_links =
  l_kind :: Elf_Kind
  l_acts :: int
  l_parent :: addr
  l_nchildren :: int
  l_scns :: "addr list"

record scn_links =
  l_elf :: addr
  l_data :: "addr list"
  l_raw :: "addr list"

record data_links =
  l_scn :: addr
  l_malloced :: bool

definition view_elf :: "Elf \<Rightarrow> elf_links" where
  "view_elf E = \<lparr>l_kind = e_kind E, l_acts = e_activations E, l_parent = e_parent E, l_nchildren = e_nchildren E,
     l_scns = e_scn E\<rparr>"

definition view_scn :: "Elf_Scn \<Rightarrow> scn_links" where
  "view_scn S = \<lparr>l_elf = s_elf S, l_data = s_data S, l_raw = s_rawdata S\<rparr>"

definition view_data :: "Elf_Data \<Rightarrow> data_links" where
  "view_data D = \<lparr>l_scn = d_scn D, l_malloced = (d_flags D AND LIBELF_F_DATA_MALLOCED \<noteq> 0)\<rparr>"

definition elf_view :: "libelf \<Rightarrow> addr \<rightharpoonup> elf_links" where
  "elf_view l = (\<lambda>e. map_option view_elf (elfs l e))"

definition scn_view :: "libelf \<Rightarrow> addr \<rightharpoonup> scn_links" where
  "scn_view l = (\<lambda>s. map_option view_scn (scns l s))"

definition data_view :: "libelf \<Rightarrow> addr \<rightharpoonup> data_links" where
  "data_view l = (\<lambda>d. map_option view_data (datas l d))"

definition children :: "(addr \<rightharpoonup> elf_links) \<Rightarrow> addr \<Rightarrow> addr set" where
  "children ev e = {q. \<exists>x. ev q = Some x \<and> l_parent x = e}"

definition archive :: "(addr \<rightharpoonup> elf_links) \<Rightarrow> addr \<Rightarrow> bool" where
  "archive ev e \<longleftrightarrow> (\<exists>x. ev e = Some x \<and> l_kind x = ELF_K_AR)"

text \<open>
  An object: its sections are its own, the parent is an older archive, the number of children
  of an archive is right.
\<close>

definition elf_ok :: "(addr \<rightharpoonup> elf_links) \<Rightarrow> (addr \<rightharpoonup> scn_links) \<Rightarrow> addr \<Rightarrow> elf_links \<Rightarrow> bool" where
  "elf_ok ev sv e x \<longleftrightarrow>
     l_kind x \<noteq> ELF_K_NUM \<and> 0 \<le> l_acts x \<and>
     distinct (l_scns x) \<and> (\<forall>s\<in>set (l_scns x). \<exists>y. sv s = Some y \<and> l_elf y = e) \<and>
     (l_kind x \<noteq> ELF_K_ELF \<longrightarrow> l_scns x = []) \<and>
     (l_parent x \<noteq> NULL \<longrightarrow> l_parent x < e \<and> archive ev (l_parent x)) \<and>
     (l_kind x = ELF_K_AR \<longrightarrow> l_nchildren x = int (card (children ev e)))"

text \<open>A section: its object lists it, and its data descriptors exist and belong to it.\<close>

definition scn_ok :: "(addr \<rightharpoonup> elf_links) \<Rightarrow> (addr \<rightharpoonup> data_links) \<Rightarrow> addr \<Rightarrow> scn_links \<Rightarrow> bool" where
  "scn_ok ev dv s y \<longleftrightarrow>
     (\<exists>x. ev (l_elf y) = Some x \<and> s \<in> set (l_scns x)) \<and> distinct (l_data y @ l_raw y) \<and>
     (\<forall>d\<in>set (l_data y @ l_raw y). \<exists>z. dv d = Some z \<and> l_scn z = s) \<and>
     (\<forall>d\<in>set (l_raw y). \<exists>z. dv d = Some z \<and> \<not> l_malloced z)"

text \<open>A descriptor without activations is an archive that waits for its members to be closed.\<close>

definition in_use :: "elf_links \<Rightarrow> bool" where
  "in_use x \<longleftrightarrow> (l_acts x = 0 \<longrightarrow> l_kind x = ELF_K_AR \<and> 0 < l_nchildren x)"

definition below :: "nat \<Rightarrow> (addr \<rightharpoonup> 'a) \<Rightarrow> bool" where
  "below h f \<longleftrightarrow> (\<forall>a x. f a = Some x \<longrightarrow> 0 < a \<and> a < h)"

definition links_ok :: "addr set \<Rightarrow> nat \<Rightarrow> (addr \<rightharpoonup> elf_links) \<Rightarrow> (addr \<rightharpoonup> scn_links) \<Rightarrow> (addr \<rightharpoonup> data_links) \<Rightarrow> bool" where
  "links_ok closing h ev sv dv \<longleftrightarrow>
     0 < h \<and> finite (dom ev) \<and> below h ev \<and> below h sv \<and> below h dv \<and>
     (\<forall>e x. ev e = Some x \<longrightarrow> elf_ok ev sv e x) \<and>
     (\<forall>s y. sv s = Some y \<longrightarrow> scn_ok ev dv s y) \<and>
     (\<forall>e x. ev e = Some x \<longrightarrow> e \<notin> closing \<longrightarrow> in_use x)"

text \<open>
  The invariant.  \<open>closing\<close> holds the descriptor that \<open>elf_end\<close> is about to release; it is empty
  between calls.
\<close>

definition libelf_inv :: "addr set \<Rightarrow> libelf \<Rightarrow> bool" where
  "libelf_inv closing l \<longleftrightarrow> links_ok closing (heap_next l) (elf_view l) (scn_view l) (data_view l)"

abbreviation libelf_ok :: "libelf \<Rightarrow> bool" where
  "libelf_ok \<equiv> libelf_inv {}"

section \<open>Updates that do not touch the links\<close>

lemma links_ok_heap: "links_ok C h ev sv dv \<Longrightarrow> h \<le> h' \<Longrightarrow> links_ok C h' ev sv dv"
  unfolding links_ok_def below_def by (meson order_less_le_trans)

lemma view_simps [simp]:
  "elf_view (LIBELF_SET_ERROR x n l) = elf_view l" "scn_view (LIBELF_SET_ERROR x n l) = scn_view l"
  "data_view (LIBELF_SET_ERROR x n l) = data_view l"
  "elf_view (set_mem m l) = elf_view l" "scn_view (set_mem m l) = scn_view l" "data_view (set_mem m l) = data_view l"
  "elf_view (upd_scn s g l) = elf_view l" "data_view (upd_scn s g l) = data_view l"
  "elf_view (upd_data d i l) = elf_view l" "scn_view (upd_data d i l) = scn_view l"
  "scn_view (upd_elf e f l) = scn_view l" "data_view (upd_elf e f l) = data_view l"
  by (simp_all add: fun_eq_iff elf_view_def scn_view_def data_view_def LIBELF_SET_ERROR_def set_mem_def upd_elf_def
      upd_scn_def upd_data_def)

lemma heap_next_simps [simp]:
  "heap_next (LIBELF_SET_ERROR x n l) = heap_next l" "heap_next (set_mem m l) = heap_next l"
  "heap_next (upd_elf e f l) = heap_next l" "heap_next (upd_scn s g l) = heap_next l"
  "heap_next (upd_data d i l) = heap_next l"
  by (simp_all add: LIBELF_SET_ERROR_def set_mem_def upd_elf_def upd_scn_def upd_data_def)

lemma view_upd_elf_keep: "(\<And>E. view_elf (f E) = view_elf E) \<Longrightarrow> elf_view (upd_elf e f l) = elf_view l"
  by (simp add: fun_eq_iff elf_view_def upd_elf_def option.map_comp comp_def)

lemma view_upd_scn_keep: "(\<And>S. view_scn (g S) = view_scn S) \<Longrightarrow> scn_view (upd_scn s g l) = scn_view l"
  by (simp add: fun_eq_iff scn_view_def upd_scn_def option.map_comp comp_def)

lemma view_upd_data_keep: "(\<And>D. view_data (i D) = view_data D) \<Longrightarrow> data_view (upd_data d i l) = data_view l"
  by (simp add: fun_eq_iff data_view_def upd_data_def option.map_comp comp_def)

lemma inv_set_error [simp]: "libelf_inv C (LIBELF_SET_ERROR x n l) = libelf_inv C l"
  by (simp add: libelf_inv_def)

lemma inv_set_mem [simp]: "libelf_inv C (set_mem m l) = libelf_inv C l"
  by (simp add: libelf_inv_def)

lemma inv_wr [simp]: "libelf_inv C (wr f p x l) = libelf_inv C l"
  by (simp add: wr_def)

lemma inv_set_error_option [simp]: "libelf_inv C (set_error_option err l) = libelf_inv C l"
  by (simp add: set_error_option_def split: option.split)

lemma inv_upd_elf [simp]: "(\<And>E. view_elf (f E) = view_elf E) \<Longrightarrow> libelf_inv C (upd_elf e f l) = libelf_inv C l"
  by (simp add: libelf_inv_def view_upd_elf_keep)

lemma inv_upd_scn [simp]: "(\<And>S. view_scn (g S) = view_scn S) \<Longrightarrow> libelf_inv C (upd_scn s g l) = libelf_inv C l"
  by (simp add: libelf_inv_def view_upd_scn_keep)

lemma inv_upd_data [simp]: "(\<And>D. view_data (i D) = view_data D) \<Longrightarrow> libelf_inv C (upd_data d i l) = libelf_inv C l"
  by (simp add: libelf_inv_def view_upd_data_keep)

lemma inv_globals [simp]:
  "libelf_inv C (l\<lparr>libelf_byteorder := x\<rparr>) = libelf_inv C l" "libelf_inv C (l\<lparr>libelf_version := v\<rparr>) = libelf_inv C l"
  "libelf_inv C (l\<lparr>libelf_fillchar := y\<rparr>) = libelf_inv C l" "libelf_inv C (l\<lparr>files := z\<rparr>) = libelf_inv C l"
  "libelf_inv C (l\<lparr>libelf_error := w, libelf_oserror := o1\<rparr>) = libelf_inv C l"
  "libelf_inv C (l\<lparr>arhdrs := a\<rparr>) = libelf_inv C l"
  by (simp_all add: libelf_inv_def elf_view_def scn_view_def data_view_def)

lemma inv_mem [simp]: "libelf_inv C (l\<lparr>mem := m\<rparr>) = libelf_inv C l"
  using inv_set_mem [of C m l] by (simp add: set_mem_def)

lemma malloc_keeps: "malloc n l = (a, l') \<Longrightarrow> libelf_inv C l \<Longrightarrow> libelf_inv C l'"
  by (auto simp: malloc_def Let_def libelf_inv_def elf_view_def scn_view_def data_view_def
      intro: links_ok_heap split: if_splits)

lemma calloc_keeps: "calloc c n l = (a, l') \<Longrightarrow> libelf_inv C l \<Longrightarrow> libelf_inv C l'"
  by (auto simp: calloc_def split: if_splits prod.splits dest!: malloc_keeps)

lemma malloc_fresh: "malloc n l = (a, l') \<Longrightarrow> a \<noteq> NULL \<Longrightarrow>
   a = heap_next l \<and> elfs l' = elfs l \<and> scns l' = scns l \<and> datas l' = datas l \<and> a < heap_next l' \<and>
   arhdrs l' = arhdrs l \<and> libelf_version l' = libelf_version l"
  by (auto simp: malloc_def Let_def split: if_splits)

lemma calloc_fresh: "calloc c n l = (a, l') \<Longrightarrow> a \<noteq> NULL \<Longrightarrow>
   a = heap_next l \<and> elfs l' = elfs l \<and> scns l' = scns l \<and> datas l' = datas l \<and> a < heap_next l'"
  by (auto simp: calloc_def split: if_splits prod.splits dest: malloc_fresh)

section \<open>Updates of the links\<close>

lemma links_ok_elfD: "links_ok C h ev sv dv \<Longrightarrow> ev e = Some x \<Longrightarrow> elf_ok ev sv e x \<and> 0 < e \<and> e < h"
  by (auto simp: links_ok_def below_def)

lemma links_ok_scnD: "links_ok C h ev sv dv \<Longrightarrow> sv s = Some x \<Longrightarrow> scn_ok ev dv s x \<and> 0 < s \<and> s < h"
  by (auto simp: links_ok_def below_def)

lemma links_ok_dataD: "links_ok C h ev sv dv \<Longrightarrow> dv d = Some x \<Longrightarrow> 0 < d \<and> d < h"
  by (auto simp: links_ok_def below_def)

lemma data_owner:
  "links_ok C h ev sv dv \<Longrightarrow> sv s = Some y \<Longrightarrow> d \<in> set (l_data y @ l_raw y) \<Longrightarrow> \<exists>z. dv d = Some z \<and> l_scn z = s"
  unfolding links_ok_def scn_ok_def by blast

lemma parent_exists:
  "links_ok C h ev sv dv \<Longrightarrow> ev q = Some x \<Longrightarrow> l_parent x \<noteq> NULL \<Longrightarrow> l_parent x < q \<and> archive ev (l_parent x)"
  by (drule (1) links_ok_elfD) (simp add: elf_ok_def)

lemma children_archive: "links_ok C h ev sv dv \<Longrightarrow> e \<noteq> NULL \<Longrightarrow> \<not> archive ev e \<Longrightarrow> children ev e = {}"
  by (auto simp: children_def dest: parent_exists)

lemma finite_children: "finite (dom ev) \<Longrightarrow> finite (children ev e)"
  by (rule finite_subset [of _ "dom ev"]) (auto simp: children_def)

lemma archive_upd: "archive (ev(e \<mapsto> x)) a \<longleftrightarrow> (if a = e then l_kind x = ELF_K_AR else archive ev a)"
  by (simp add: archive_def)

text \<open>Children when one descriptor is replaced by another with the same parent.\<close>

lemma children_upd: "ev e = Some x \<Longrightarrow> l_parent x' = l_parent x \<Longrightarrow> children (ev(e \<mapsto> x')) a = children ev a"
  by (auto simp: children_def)

lemma children_new:
  "ev e = None \<Longrightarrow> children (ev(e \<mapsto> x)) a = (if a = l_parent x then insert e (children ev a) else children ev a)"
  by (auto simp: children_def)

lemma links_ok_new_elf:
  assumes ok: "links_ok C h ev sv dv" and e: "h \<le> e" "e < h'"
    and x: "l_kind x \<noteq> ELF_K_NUM" "l_acts x = 1" "l_parent x = NULL" "l_nchildren x = 0" "l_scns x = []"
  shows "links_ok C h' (ev(e \<mapsto> x)) sv dv"
proof -
  let ?ev = "ev(e \<mapsto> x)"
  have new: "ev e = None" using e links_ok_elfD [OF ok] by (metis not_None_eq leD)
  have pos: "0 < e" using ok e by (simp add: links_ok_def)
  have ch: "children ?ev a = children ev a" if "a \<noteq> NULL" for a
    using children_new [where ev = ev and e = e and x = x and a = a] new that x(3) by simp
  have none: "children ev e = {}" using children_archive [OF ok, of e] new pos by (simp add: archive_def)
  have "elf_ok ?ev sv a y" if a: "ev a = Some y" for a y
  proof -
    have "elf_ok ev sv a y" "0 < a" "a \<noteq> e" using links_ok_elfD [OF ok a] a new by auto
    then show ?thesis using ch [of a] new by (auto simp: elf_ok_def archive_def)
  qed
  moreover have "elf_ok ?ev sv e x" using x none ch [of e] pos by (simp add: elf_ok_def)
  ultimately have elfs: "\<forall>a y. ?ev a = Some y \<longrightarrow> elf_ok ?ev sv a y" using new by simp
  have "scn_ok ?ev dv s y" if "sv s = Some y" for s y
    using links_ok_scnD [OF ok that] new by (auto simp: scn_ok_def)
  then show ?thesis
    using elfs links_ok_heap [OF ok, of h'] e pos x by (auto simp: links_ok_def below_def in_use_def)
qed

lemma links_ok_upd_elf:
  assumes ok: "links_ok C h ev sv dv" and old: "ev e = Some x"
    and x': "l_kind x' \<noteq> ELF_K_NUM" "0 \<le> l_acts x'" "l_parent x' = l_parent x" "l_scns x' = l_scns x"
      "l_kind x = ELF_K_AR \<longrightarrow> l_kind x' = ELF_K_AR \<and> l_nchildren x' = l_nchildren x"
      "l_kind x' = ELF_K_AR \<and> l_kind x \<noteq> ELF_K_AR \<longrightarrow> l_nchildren x' = 0"
      "l_kind x' \<noteq> ELF_K_ELF \<longrightarrow> l_scns x = []"
    and C': "e \<notin> C' \<longrightarrow> in_use x'" "C - {e} \<subseteq> C'"
  shows "links_ok C' h (ev(e \<mapsto> x')) sv dv"
proof -
  let ?ev = "ev(e \<mapsto> x')"
  have ch: "children ?ev a = children ev a" for a using old x'(3) by (intro children_upd)
  have e: "elf_ok ev sv e x" "0 < e" "e < h" using links_ok_elfD [OF ok old] by auto
  have none: "l_kind x \<noteq> ELF_K_AR \<Longrightarrow> children ev e = {}"
    using children_archive [OF ok, of e] old e by (simp add: archive_def)
  have ar: "archive ev a \<Longrightarrow> archive ?ev a" for a using old x'(5) by (auto simp: archive_def)
  have "elf_ok ?ev sv a y" if a: "ev a = Some y" "a \<noteq> e" for a y
    using links_ok_elfD [OF ok a(1)] ch [of a] ar by (simp add: elf_ok_def)
  moreover have "elf_ok ?ev sv e x'" using e x' none ch [of e] ar by (auto simp: elf_ok_def)
  ultimately have elfs: "\<forall>a y. ?ev a = Some y \<longrightarrow> elf_ok ?ev sv a y" by simp
  have "scn_ok ?ev dv s y" if "sv s = Some y" for s y
    using links_ok_scnD [OF ok that] old x'(4) by (auto simp: scn_ok_def)
  moreover have "in_use y" if "?ev a = Some y" "a \<notin> C'" for a y
  proof (cases "a = e")
    case False
    with that C'(2) have "ev a = Some y" "a \<notin> C" by auto
    with ok show ?thesis by (simp add: links_ok_def)
  qed (use that C' in auto)
  ultimately show ?thesis using elfs ok e by (auto simp: links_ok_def below_def)
qed

lemma links_ok_adopt:
  assumes ok: "links_ok C h ev sv dv" and e: "ev e = Some x" "l_parent x = NULL"
    and p: "ev p = Some y" "l_kind y = ELF_K_AR" and "p < e"
  shows "links_ok C h (ev(p \<mapsto> y\<lparr>l_nchildren := l_nchildren y + 1\<rparr>, e \<mapsto> x\<lparr>l_parent := p\<rparr>)) sv dv"
proof -
  let ?y = "y\<lparr>l_nchildren := l_nchildren y + 1\<rparr>" and ?x = "x\<lparr>l_parent := p\<rparr>"
  let ?ev = "ev(p \<mapsto> ?y, e \<mapsto> ?x)"
  have pos: "0 < p" "0 < e" "e < h" using links_ok_elfD [OF ok p(1)] links_ok_elfD [OF ok e(1)] by auto
  have ch: "children ?ev a = (if a = p then insert e (children ev a) else children ev a)" if "a \<noteq> NULL" for a
    using that e p \<open>p < e\<close> by (auto simp: children_def)
  have fin: "finite (children ev p)" "e \<notin> children ev p"
    using ok finite_children e pos by (auto simp: links_ok_def children_def)
  have ar: "archive ev a \<Longrightarrow> archive ?ev a" for a using e p by (auto simp: archive_def)
  have "elf_ok ?ev sv a z" if a: "ev a = Some z" "a \<noteq> e" "a \<noteq> p" for a z
    using links_ok_elfD [OF ok a(1)] ch [of a] ar a(2,3) by (auto simp: elf_ok_def)
  moreover have "elf_ok ?ev sv p ?y"
    using links_ok_elfD [OF ok p(1)] ch [of p] fin ar by (auto simp: elf_ok_def)
  moreover have "elf_ok ?ev sv e ?x"
    using links_ok_elfD [OF ok e(1)] ch [of e] pos ar p \<open>p < e\<close> by (auto simp: elf_ok_def archive_def)
  ultimately have elfs: "\<forall>a z. ?ev a = Some z \<longrightarrow> elf_ok ?ev sv a z" using \<open>p < e\<close> by auto
  have scns: "scn_ok ?ev dv s z" if "sv s = Some z" for s z
    using links_ok_scnD [OF ok that] e p by (auto simp: scn_ok_def)
  have old: "in_use z" if "ev b = Some z" "b \<notin> C" for b z using ok that by (auto simp: links_ok_def)
  have "0 \<le> l_nchildren y" using links_ok_elfD [OF ok p(1)] p by (simp add: elf_ok_def)
  then have "in_use z" if "?ev a = Some z" "a \<notin> C" for a z
    using that old [OF e(1)] old [OF p(1)] old [of a z] by (auto simp: in_use_def split: if_splits)
  then show ?thesis using elfs scns ok pos \<open>p < e\<close> by (auto simp: links_ok_def below_def)
qed

lemma links_ok_new_scn:
  assumes ok: "links_ok C h ev sv dv" and s: "h \<le> s" "s < h'"
    and e: "ev e = Some x" "l_kind x = ELF_K_ELF" and y: "l_elf y = e" "l_data y = []" "l_raw y = []"
  shows "links_ok C h' (ev(e \<mapsto> x\<lparr>l_scns := l_scns x @ [s]\<rparr>)) (sv(s \<mapsto> y)) dv"
proof -
  let ?ev = "ev(e \<mapsto> x\<lparr>l_scns := l_scns x @ [s]\<rparr>)" and ?sv = "sv(s \<mapsto> y)"
  have pos: "0 < s" using s ok by (simp add: links_ok_def)
  have new: "sv s = None" using s links_ok_scnD [OF ok] by (metis not_None_eq leD)
  have ch: "children ?ev a = children ev a" for a using e(1) by (intro children_upd) simp_all
  have ar: "archive ?ev a = archive ev a" for a using e by (auto simp: archive_def)
  have notin: "s \<notin> set (l_scns z)" if "ev a = Some z" for a z
    using links_ok_elfD [OF ok that] new by (auto simp: elf_ok_def)
  have "elf_ok ?ev ?sv a z" if a: "ev a = Some z" "a \<noteq> e" for a z
    using links_ok_elfD [OF ok a(1)] ch ar notin [OF a(1)] by (auto simp: elf_ok_def)
  moreover have "elf_ok ?ev ?sv e (x\<lparr>l_scns := l_scns x @ [s]\<rparr>)"
    using links_ok_elfD [OF ok e(1)] ch ar notin [OF e(1)] e(2) y by (auto simp: elf_ok_def)
  ultimately have elfs: "\<forall>a z. ?ev a = Some z \<longrightarrow> elf_ok ?ev ?sv a z" by simp
  have "scn_ok ?ev dv a z" if "sv a = Some z" for a z
    using links_ok_scnD [OF ok that] e by (auto simp: scn_ok_def)
  moreover have "scn_ok ?ev dv s y" using y e by (auto simp: scn_ok_def)
  moreover have "in_use (x\<lparr>l_scns := l_scns x @ [s]\<rparr>) = in_use x" by (simp add: in_use_def)
  ultimately show ?thesis
    using elfs links_ok_heap [OF ok, of h'] s pos e by (auto simp: links_ok_def below_def)
qed

text \<open>A data descriptor that no section lists may change or go.\<close>

definition unlinked :: "(addr \<rightharpoonup> scn_links) \<Rightarrow> addr \<Rightarrow> bool" where
  "unlinked sv d \<longleftrightarrow> (\<forall>s y. sv s = Some y \<longrightarrow> d \<notin> set (l_data y) \<and> d \<notin> set (l_raw y))"

lemma unlinked_new: "links_ok C h ev sv dv \<Longrightarrow> h \<le> d \<Longrightarrow> unlinked sv d"
  unfolding unlinked_def using links_ok_scnD links_ok_dataD by (fastforce simp: scn_ok_def)

lemma scn_ok_unlinked: "unlinked sv d \<Longrightarrow> sv s = Some y \<Longrightarrow> scn_ok ev dv s y \<Longrightarrow> scn_ok ev (dv(d := w)) s y"
  by (auto simp: scn_ok_def unlinked_def)

lemma links_ok_new_data:
  assumes ok: "links_ok C h ev sv dv" and d: "h \<le> d" "d < h'"
  shows "links_ok C h' ev sv (dv(d \<mapsto> z))"
proof -
  have "0 < d" using d ok by (simp add: links_ok_def)
  moreover have "scn_ok ev (dv(d \<mapsto> z)) s y" if "sv s = Some y" for s y
    using scn_ok_unlinked [OF unlinked_new [OF ok d(1)]] links_ok_scnD [OF ok that] that by blast
  ultimately show ?thesis using links_ok_heap [OF ok, of h'] d by (auto simp: links_ok_def below_def)
qed

lemma links_ok_unlinked:
  assumes ok: "links_ok C h ev sv dv" and d: "unlinked sv d" "\<forall>z. w = Some z \<longrightarrow> dv d \<noteq> None"
  shows "links_ok C h ev sv (dv(d := w))"
proof -
  have "scn_ok ev (dv(d := w)) s y" if "sv s = Some y" for s y
    using scn_ok_unlinked [OF d(1)] links_ok_scnD [OF ok that] that by blast
  then show ?thesis using ok d(2) by (auto simp: links_ok_def below_def)
qed

lemma links_ok_link_data:
  assumes ok: "links_ok C h ev sv dv" and s: "sv s = Some y" and d: "unlinked sv d" "dv d = Some z" "l_scn z = s"
    and y': "l_elf y' = l_elf y"
      "(l_data y' = l_data y @ [d] \<and> l_raw y' = l_raw y) \<or> (l_data y' = l_data y \<and> l_raw y' = l_raw y @ [d] \<and> \<not> l_malloced z)"
  shows "links_ok C h ev (sv(s \<mapsto> y')) dv"
proof -
  have "elf_ok ev (sv(s \<mapsto> y')) e x" if "ev e = Some x" for e x
    using links_ok_elfD [OF ok that] s y'(1) by (auto simp: elf_ok_def)
  moreover have "scn_ok ev dv s y'"
    using links_ok_scnD [OF ok s] d y' s by (auto simp: scn_ok_def unlinked_def)
  ultimately show ?thesis using ok links_ok_scnD [OF ok s] by (auto simp: links_ok_def below_def)
qed

lemma links_ok_release_scn:
  assumes ok: "links_ok C h ev sv dv" and s: "sv s = Some y" and e: "ev (l_elf y) = Some x"
  shows "links_ok C h (ev(l_elf y \<mapsto> x\<lparr>l_scns := remove1 s (l_scns x)\<rparr>)) (sv(s := None))
    (dv |` (- set (l_data y @ l_raw y)))"
proof -
  let ?x = "x\<lparr>l_scns := remove1 s (l_scns x)\<rparr>"
  let ?ev = "ev(l_elf y \<mapsto> ?x)" and ?sv = "sv(s := None)" and ?dv = "dv |` (- set (l_data y @ l_raw y))"
  have ch: "children ?ev a = children ev a" for a using e by (intro children_upd) simp_all
  have ar: "archive ?ev a = archive ev a" for a using e by (auto simp: archive_def)
  have other: "s \<notin> set (l_scns z)" if "ev a = Some z" "a \<noteq> l_elf y" for a z
    using links_ok_elfD [OF ok that(1)] that(2) s by (auto simp: elf_ok_def)
  have "elf_ok ?ev ?sv a z" if a: "ev a = Some z" "a \<noteq> l_elf y" for a z
    using links_ok_elfD [OF ok a(1)] ch ar other [OF a] by (auto simp: elf_ok_def)
  moreover have "elf_ok ?ev ?sv (l_elf y) ?x"
    using links_ok_elfD [OF ok e] ch ar by (auto simp: elf_ok_def)
  ultimately have elfs: "\<forall>a z. ?ev a = Some z \<longrightarrow> elf_ok ?ev ?sv a z" by simp
  have scns: "scn_ok ?ev ?dv a z" if a: "?sv a = Some z" for a z
  proof -
    have z: "sv a = Some z" "a \<noteq> s" using a by (auto split: if_splits)
    have "d \<notin> set (l_data y @ l_raw y)" if "d \<in> set (l_data z @ l_raw z)" for d
      using data_owner [OF ok z(1) that] data_owner [OF ok s] z(2) by force
    then have "?dv d = dv d" if "d \<in> set (l_data z @ l_raw z)" for d using that by (auto simp: restrict_map_def)
    then show ?thesis using links_ok_scnD [OF ok z(1)] z(2) e by (auto simp: scn_ok_def)
  qed
  have used: "in_use z" if "?ev a = Some z" "a \<notin> C" for a z
  proof (cases "a = l_elf y")
    case True
    moreover have "in_use x" using ok e that True by (simp add: links_ok_def)
    ultimately show ?thesis using that by (auto simp: in_use_def)
  qed (use that ok in \<open>simp add: links_ok_def\<close>)
  have "below h ?ev" "below h ?sv" "below h ?dv" "finite (dom ?ev)"
    using ok links_ok_elfD [OF ok e] by (simp_all add: links_ok_def below_def restrict_map_def)
  then show ?thesis using elfs scns used ok by (simp add: links_ok_def)
qed

lemma links_ok_release_elf:
  assumes ok: "links_ok C h ev sv dv" and e: "ev e = Some x" "l_scns x = []" "l_kind x = ELF_K_AR \<longrightarrow> l_nchildren x \<le> 0"
    and ev': "ev' = (case ev (l_parent x) of None \<Rightarrow> ev | Some y \<Rightarrow> ev(l_parent x \<mapsto> y\<lparr>l_nchildren := l_nchildren y - 1\<rparr>))"
  shows "links_ok (C - {e} \<union> {l_parent x}) h (ev'(e := None)) sv dv"
proof -
  let ?p = "l_parent x"
  define E where "E = ev'(e := None)"
  have x: "elf_ok ev sv e x" "0 < e" using links_ok_elfD [OF ok e(1)] by auto
  have none: "children ev e = {}"
  proof (cases "archive ev e")
    case True
    then have "card (children ev e) = 0" using x e by (auto simp: elf_ok_def archive_def)
    then show ?thesis using finite_children [of ev e] ok by (auto simp: links_ok_def)
  next
    case False
    then show ?thesis using children_archive [OF ok, of e] x by simp
  qed
  have "ev NULL = None" using links_ok_elfD [OF ok] by (metis less_irrefl not_None_eq)
  have ch: "children E a = children ev a - {e}" for a
    using e(1) by (auto simp: E_def ev' children_def split: option.splits if_splits)
  have eq: "E a = (if a = e then None else if a = ?p then map_option (\<lambda>y. y\<lparr>l_nchildren := l_nchildren y - 1\<rparr>) (ev a) else ev a)" for a
    by (auto simp: E_def ev' split: option.split)
  have ne: "?p \<noteq> e" using x by (auto simp: elf_ok_def)
  have ar: "archive ev a \<Longrightarrow> a \<noteq> e \<Longrightarrow> archive E a" for a by (auto simp: archive_def eq)
  have member: "e \<in> children ev ?p" using e by (auto simp: children_def)
  have elfs: "elf_ok E sv a z" if a: "E a = Some z" for a z
  proof -
    obtain y where y: "ev a = Some y" "a \<noteq> e" "z = (if a = ?p then y\<lparr>l_nchildren := l_nchildren y - 1\<rparr> else y)"
      using a by (auto simp: eq split: if_splits)
    have pe: "l_parent y \<noteq> e" using none y by (auto simp: children_def)
    have "e \<in> children ev a \<longleftrightarrow> a = ?p" using e by (auto simp: children_def)
    moreover have "finite (children ev a)" using finite_children [of ev a] ok by (simp add: links_ok_def)
    moreover have "a = ?p \<Longrightarrow> 0 < card (children ev a)" using calculation by (auto simp: card_gt_0_iff)
    ultimately have "int (card (children E a)) = int (card (children ev a)) - (if a = ?p then 1 else 0)"
      by (auto simp: ch of_nat_diff)
    then show ?thesis using links_ok_elfD [OF ok y(1)] y pe ar by (auto simp: elf_ok_def)
  qed
  have scns: "scn_ok E dv s z" if "sv s = Some z" for s z
    using links_ok_scnD [OF ok that] e by (auto simp: scn_ok_def eq)
  have "in_use z" if "E a = Some z" "a \<notin> C - {e} \<union> {?p}" for a z
    using that ok by (auto simp: eq links_ok_def split: if_splits)
  moreover have "finite (dom E)"
    using ok by (auto simp: links_ok_def dom_def eq intro: rev_finite_subset)
  moreover have "below h E" using ok by (auto simp: links_ok_def below_def eq split: if_splits)
  ultimately show ?thesis using elfs scns ok by (simp add: links_ok_def E_def)
qed

end
