(* ===== verification/Libelf_Keeps.thy ===== *)
theory Libelf_Keeps
  imports Libelf_Invariant
begin

text \<open>
  Every operation that does not close descriptors keeps the invariant, the kinds of the
  descriptors and the existing sections.  Results of operations are analysed with a weakest
  precondition: \<open>wp x Q\<close> says that \<open>Q\<close> holds of what \<open>x\<close> returns, if it returns.
\<close>

section \<open>Weakest preconditions\<close>

definition wp :: "('a \<times> libelf) option \<Rightarrow> ('a \<Rightarrow> libelf \<Rightarrow> bool) \<Rightarrow> bool" where
  "wp x Q \<longleftrightarrow> (\<forall>r l. x = Some (r, l) \<longrightarrow> Q r l)"

lemma wp_simps [simp]: "wp (Some (r, l)) Q \<longleftrightarrow> Q r l" "wp None Q"
  by (simp_all add: wp_def)

lemma wp_Some: "Q r l \<Longrightarrow> wp (Some (r, l)) Q"
  by simp

lemma wp_None: "wp None Q"
  by simp

lemma wp_if: "(b \<Longrightarrow> wp x Q) \<Longrightarrow> (\<not> b \<Longrightarrow> wp y Q) \<Longrightarrow> wp (if b then x else y) Q"
  by simp

lemma wp_bind: "wp x (\<lambda>r l. wp (f r l) Q) \<Longrightarrow> wp (x \<bind> (\<lambda>(r, l). f r l)) Q"
  by (auto simp: wp_def bind_eq_Some_conv)

lemma wp_lookup: "(\<And>y. x = Some y \<Longrightarrow> wp (f y) Q) \<Longrightarrow> wp (x \<bind> f) Q"
  by (auto simp: wp_def bind_eq_Some_conv)

lemma wp_prod: "(\<And>a b. t = (a, b) \<Longrightarrow> wp (f a b) Q) \<Longrightarrow> wp (case t of (a, b) \<Rightarrow> f a b) Q"
  by (cases t) simp

lemma wp_option:
  "(x = None \<Longrightarrow> wp y Q) \<Longrightarrow> (\<And>z. x = Some z \<Longrightarrow> wp (f z) Q) \<Longrightarrow> wp (case x of None \<Rightarrow> y | Some z \<Rightarrow> f z) Q"
  by (cases x) simp_all

lemma wp_conseq: "wp x Q \<Longrightarrow> (\<And>r l. Q r l \<Longrightarrow> Q' r l) \<Longrightarrow> wp x Q'"
  by (auto simp: wp_def)

section \<open>Growth of the state\<close>

definition is_elf :: "libelf \<Rightarrow> addr \<Rightarrow> bool" where
  "is_elf l e \<longleftrightarrow> (\<exists>x. elf_view l e = Some x \<and> l_kind x = ELF_K_ELF)"

definition grown :: "libelf \<Rightarrow> libelf \<Rightarrow> bool" where
  "grown o0 l \<longleftrightarrow> libelf_ok l \<and>
     (\<forall>e x. elf_view o0 e = Some x \<longrightarrow> (\<exists>x'. elf_view l e = Some x' \<and> l_kind x' = l_kind x)) \<and>
     (\<forall>s y. scn_view o0 s = Some y \<longrightarrow> (\<exists>y'. scn_view l s = Some y' \<and> l_elf y' = l_elf y))"

lemma grown_refl [simp]: "grown l l = libelf_ok l"
  by (auto simp: grown_def)

lemma grown_trans: "grown o0 l \<Longrightarrow> grown l l' \<Longrightarrow> grown o0 l'"
  unfolding grown_def by (metis (no_types, lifting))

lemma grown_ok: "grown o0 l \<Longrightarrow> libelf_ok l"
  by (simp add: grown_def)

lemma grown_elf: "grown o0 l \<Longrightarrow> is_elf o0 e \<Longrightarrow> is_elf l e"
  unfolding grown_def is_elf_def by metis

text \<open>An operation that grows its state keeps growth since any earlier state.\<close>

lemma wp_grown:
  assumes "grown o0 l" "libelf_ok l \<Longrightarrow> wp x (\<lambda>_. grown l)" "\<And>r l'. grown o0 l' \<Longrightarrow> Q r l'"
  shows "wp x Q"
proof -
  have "wp x (\<lambda>_. grown l)" using assms(2) grown_ok [OF assms(1)] .
  then show ?thesis using assms(3) grown_trans [OF assms(1)] by (simp add: wp_def)
qed

lemma grown_same:
  assumes "elf_view l' = elf_view l" "scn_view l' = scn_view l" "data_view l' = data_view l" "heap_next l' = heap_next l"
  shows "grown o0 l' = grown o0 l"
  using assms by (simp add: grown_def libelf_inv_def)

lemma grown_simps [simp]:
  "grown o0 (LIBELF_SET_ERROR x n l) = grown o0 l" "grown o0 (set_mem m l) = grown o0 l"
  "grown o0 (set_error_option err l) = grown o0 l" "grown o0 (wr f p z l) = grown o0 l"
  by (rule grown_same; simp add: wr_def set_error_option_def split: option.split)+

lemma grown_upd_elf [simp]: "(\<And>E. view_elf (f E) = view_elf E) \<Longrightarrow> grown o0 (upd_elf e f l) = grown o0 l"
  by (rule grown_same) (simp_all add: view_upd_elf_keep)

lemma grown_upd_scn [simp]: "(\<And>S. view_scn (g S) = view_scn S) \<Longrightarrow> grown o0 (upd_scn s g l) = grown o0 l"
  by (rule grown_same) (simp_all add: view_upd_scn_keep)

lemma grown_upd_data [simp]: "(\<And>D. view_data (i D) = view_data D) \<Longrightarrow> grown o0 (upd_data d i l) = grown o0 l"
  by (rule grown_same) (simp_all add: view_upd_data_keep)

lemma view_elf_simps [simp]:
  "view_elf (E\<lparr>e_class := a\<rparr>) = view_elf E" "view_elf (E\<lparr>e_byteorder := b\<rparr>) = view_elf E"
  "view_elf (E\<lparr>e_elf_flags := c\<rparr>) = view_elf E" "view_elf (E\<lparr>e_ehdr := d\<rparr>) = view_elf E"
  "view_elf (E\<lparr>e_phdr := d\<rparr>) = view_elf E" "view_elf (E\<lparr>e_nphdr := f\<rparr>) = view_elf E"
  "view_elf (E\<lparr>e_nscn := f\<rparr>) = view_elf E" "view_elf (E\<lparr>e_strndx := f\<rparr>) = view_elf E"
  "view_elf (E\<lparr>e_fd := g\<rparr>) = view_elf E" "view_elf (E\<lparr>e_cmd := h\<rparr>) = view_elf E"
  "view_elf (E\<lparr>e_next := i\<rparr>) = view_elf E" "view_elf (E\<lparr>e_rawfile := d\<rparr>) = view_elf E"
  "view_elf (E\<lparr>e_rawsize := f\<rparr>) = view_elf E" "view_elf (E\<lparr>e_elf_version := f\<rparr>) = view_elf E"
  "view_elf (E\<lparr>e_rawsymtab := d\<rparr>) = view_elf E" "view_elf (E\<lparr>e_rawsymtabsz := f\<rparr>) = view_elf E"
  "view_elf (E\<lparr>e_rawstrtab := d\<rparr>) = view_elf E" "view_elf (E\<lparr>e_rawstrtabsz := f\<rparr>) = view_elf E"
  by (simp_all add: view_elf_def)

lemma view_scn_simps [simp]:
  "view_scn (S\<lparr>s_flags := a\<rparr>) = view_scn S" "view_scn (S\<lparr>s_offset := b\<rparr>) = view_scn S"
  "view_scn (S\<lparr>s_rawoff := b\<rparr>) = view_scn S" "view_scn (S\<lparr>s_size := b\<rparr>) = view_scn S"
  by (simp_all add: view_scn_def)

lemma view_data_simps [simp]:
  "view_data (D\<lparr>d_align := a\<rparr>) = view_data D" "view_data (D\<lparr>d_buf := a\<rparr>) = view_data D"
  "view_data (D\<lparr>d_off := a\<rparr>) = view_data D" "view_data (D\<lparr>d_size := a\<rparr>) = view_data D"
  "view_data (D\<lparr>d_type := b\<rparr>) = view_data D" "view_data (D\<lparr>d_version := a\<rparr>) = view_data D"
  by (simp_all add: view_data_def)

lemma grown_malloc: "malloc n l = (a, l') \<Longrightarrow> grown o0 l \<Longrightarrow> grown o0 l'"
  using malloc_keeps [of n l a l' "{}"]
  by (auto simp: malloc_def Let_def grown_def elf_view_def scn_view_def split: if_splits)

lemma grown_calloc: "calloc c n l = (a, l') \<Longrightarrow> grown o0 l \<Longrightarrow> grown o0 l'"
  by (auto simp: calloc_def set_mem_def [symmetric] split: if_splits prod.splits dest: grown_malloc)

lemma wp_malloc:
  "grown o0 l \<Longrightarrow> (\<And>a l'. malloc n l = (a, l') \<Longrightarrow> grown o0 l' \<Longrightarrow> wp (f a l') Q) \<Longrightarrow>
   wp (case malloc n l of (a, l) \<Rightarrow> f a l) Q"
  by (rule wp_prod) (blast intro: grown_malloc)

lemma wp_calloc:
  "grown o0 l \<Longrightarrow> (\<And>a l'. calloc c n l = (a, l') \<Longrightarrow> grown o0 l' \<Longrightarrow> wp (f a l') Q) \<Longrightarrow>
   wp (case calloc c n l of (a, l) \<Rightarrow> f a l) Q"
  by (rule wp_prod) (blast intro: grown_calloc)

lemmas wp_basic = wp_Some wp_None wp_bind wp_if wp_option

text \<open>Allocation of sections and data.\<close>

lemma allocate_scn_grown:
  assumes "grown o0 l" "is_elf o0 e" "libelf_allocate_scn e ndx l = Some (s, l')"
  shows "grown o0 l' \<and> (s \<noteq> NULL \<longrightarrow> (\<exists>y. scn_view l' s = Some y))"
proof -
  obtain a l1 where c: "calloc 1 sizeof_Elf_Scn l = (a, l1)" by force
  have l1: "grown o0 l1" using grown_calloc [OF c assms(1)] .
  show ?thesis
  proof (cases "a = NULL")
    case True
    with assms(3) c l1 show ?thesis by (auto simp: libelf_allocate_scn_def)
  next
    case False
    let ?S = "\<lparr>s_data = [], s_rawdata = [], s_elf = e, s_flags = 0, s_ndx = ndx, s_offset = 0, s_rawoff = 0, s_size = 0\<rparr>"
    have fresh: "a = heap_next l" "a < heap_next l1" "elfs l1 = elfs l" "scns l1 = scns l" "datas l1 = datas l"
      using calloc_fresh [OF c False] by auto
    obtain E where E: "elfs l1 e = Some E" "e_kind E = ELF_K_ELF"
      using grown_elf [OF l1 assms(2)] by (auto simp: is_elf_def elf_view_def view_elf_def)
    have l': "s = a" "l' = upd_elf e (\<lambda>E. E\<lparr>e_scn := e_scn E @ [a]\<rparr>) (l1\<lparr>scns := (scns l1)(a \<mapsto> ?S)\<rparr>)"
      using assms(3) c False E by (auto simp: libelf_allocate_scn_def Let_def)
    have views: "elf_view l' = (elf_view l)(e \<mapsto> (view_elf E)\<lparr>l_scns := l_scns (view_elf E) @ [a]\<rparr>)"
      "scn_view l' = (scn_view l)(a \<mapsto> view_scn ?S)" "data_view l' = data_view l" "heap_next l' = heap_next l1"
      using E fresh unfolding l'
      by (auto simp: fun_eq_iff scn_view_def data_view_def elf_view_def upd_elf_def view_elf_def)
    have ok: "links_ok {} (heap_next l) (elf_view l) (scn_view l) (data_view l)"
      using assms(1) by (simp add: grown_def libelf_inv_def)
    have ev: "elf_view l e = Some (view_elf E)" using E fresh by (simp add: elf_view_def)
    have new: "scn_view l a = None" using links_ok_scnD [OF ok] fresh(1) by (metis less_irrefl not_None_eq)
    have "libelf_ok l'"
      unfolding libelf_inv_def views using fresh E
      by (intro links_ok_new_scn [OF ok]) (auto simp: ev view_elf_def view_scn_def)
    then have "grown l l'" unfolding grown_def views using ev new by auto
    then show ?thesis using grown_trans [OF assms(1)] views l' by simp
  qed
qed

lemma wp_allocate_scn:
  assumes "grown o0 l" "is_elf o0 e" "\<And>s l'. grown o0 l' \<Longrightarrow> s \<noteq> NULL \<longrightarrow> (\<exists>y. scn_view l' s = Some y) \<Longrightarrow> Q s l'"
  shows "wp (libelf_allocate_scn e ndx l) Q"
  using allocate_scn_grown [OF assms(1,2)] assms(3) by (auto simp: wp_def)

lemma allocate_data_grown:
  assumes "grown o0 l" "libelf_allocate_data s l = (d, l')"
  shows "grown o0 l' \<and> (d \<noteq> NULL \<longrightarrow> unlinked (scn_view l') d \<and> data_view l' d = Some \<lparr>l_scn = s, l_malloced = False\<rparr>)"
proof -
  obtain a l1 where c: "calloc 1 sizeof_Elf_Data l = (a, l1)" by force
  have l1: "grown o0 l1" using grown_calloc [OF c assms(1)] .
  show ?thesis
  proof (cases "a = NULL")
    case True
    with assms(2) c l1 show ?thesis by (auto simp: libelf_allocate_data_def)
  next
    case False
    have fresh: "a = heap_next l" "a < heap_next l1" "elfs l1 = elfs l" "scns l1 = scns l" "datas l1 = datas l"
      using calloc_fresh [OF c False] by auto
    have views: "d = a" "elf_view l' = elf_view l" "scn_view l' = scn_view l" "heap_next l' = heap_next l1"
      "data_view l' = (data_view l)(a \<mapsto> \<lparr>l_scn = s, l_malloced = False\<rparr>)"
      using assms(2) c False fresh
      by (auto simp: libelf_allocate_data_def elf_view_def scn_view_def data_view_def view_data_def fun_eq_iff)
    have ok: "links_ok {} (heap_next l) (elf_view l) (scn_view l) (data_view l)"
      using assms(1) by (simp add: grown_def libelf_inv_def)
    have "libelf_ok l'" unfolding libelf_inv_def views using fresh by (intro links_ok_new_data [OF ok]) auto
    then show ?thesis
      using assms(1) unlinked_new [OF ok, of a] fresh views by (auto simp: grown_def)
  qed
qed

lemma wp_allocate_data:
  assumes "grown o0 l"
    and "\<And>d l'. libelf_allocate_data s l = (d, l') \<Longrightarrow> grown o0 l' \<Longrightarrow>
      d \<noteq> NULL \<longrightarrow> unlinked (scn_view l') d \<and> data_view l' d = Some \<lparr>l_scn = s, l_malloced = False\<rparr> \<Longrightarrow> wp (f d l') Q"
  shows "wp (case libelf_allocate_data s l of (d, l) \<Rightarrow> f d l) Q"
  using allocate_data_grown [OF assms(1)] by (intro wp_prod) (blast intro: assms(2))

section \<open>Flags\<close>

lemma flagelf_grown: "libelf_ok l \<Longrightarrow> wp (elf_flagelf e c fl l) (\<lambda>_. grown l)"
  unfolding elf_flagelf_def Let_def by (rule wp_basic wp_lookup | simp)+

lemmas wp_flagelf = wp_grown [OF _ flagelf_grown]

lemma flaghdr_grown: "libelf_ok l \<Longrightarrow> wp (flaghdr h e c fl l) (\<lambda>_. grown l)"
  unfolding flaghdr_def Let_def by (rule wp_basic wp_flagelf [where ?o0.0 = l] wp_lookup | simp)+

lemma flagscn_grown: "libelf_ok l \<Longrightarrow> wp (elf_flagscn s c fl l) (\<lambda>_. grown l)"
  unfolding elf_flagscn_def Let_def by (rule wp_basic wp_lookup | simp)+

lemma flagdata_grown: "libelf_ok l \<Longrightarrow> wp (elf_flagdata d c fl l) (\<lambda>_. grown l)"
  unfolding elf_flagdata_def Let_def by (rule wp_basic wp_lookup | simp)+

lemmas wp_flags = wp_flagelf wp_grown [OF _ flaghdr_grown] wp_grown [OF _ flagscn_grown]

section \<open>Headers\<close>

lemma call_xlator_grown: "libelf_ok l \<Longrightarrow> wp (call_xlator t dr ec dst dsz src n sw l) (\<lambda>_. grown l)"
  unfolding call_xlator_def by (rule wp_basic wp_lookup wp_prod | simp)+

lemmas wp_xlator = wp_grown [OF _ call_xlator_grown]

lemma put_hdr_grown [simp]:
  "grown o0 (put_ehdr32 p f l) = grown o0 l" "grown o0 (put_ehdr64 p g l) = grown o0 l"
  "grown o0 (put_shdr32 p h l) = grown o0 l" "grown o0 (put_shdr64 p k l) = grown o0 l"
  "grown o0 (EHDR_INIT32 p l) = grown o0 l" "grown o0 (EHDR_INIT64 p l) = grown o0 l"
  by (simp_all add: put_ehdr32_def put_ehdr64_def put_shdr32_def put_shdr64_def EHDR_INIT32_def EHDR_INIT64_def)

lemma is_elfI: "elfs l e = Some E \<Longrightarrow> e_kind E = ELF_K_ELF \<Longrightarrow> is_elf l e"
  by (simp add: is_elf_def elf_view_def view_elf_def)

lemma load_extended_grown:
  "libelf_ok l \<Longrightarrow> is_elf l e \<Longrightarrow> wp (libelf_load_extended e ec shoff phnum strndx l) (\<lambda>_. grown l)"
  unfolding libelf_load_extended_def Let_def
  by (rule wp_basic wp_allocate_scn [where ?o0.0 = l] wp_xlator [where ?o0.0 = l] wp_lookup wp_prod | simp)+

lemma ehdr_counts_grown:
  "libelf_ok l \<Longrightarrow> is_elf l e \<Longrightarrow> wp (libelf_ehdr_counts e ec ehdr l) (\<lambda>_. grown l)"
  unfolding libelf_ehdr_counts_def Let_def
  by (rule wp_basic wp_grown [OF _ load_extended_grown, where ?o0.0 = l] wp_lookup wp_prod | simp)+

lemma wp_ehdr_counts:
  "grown o0 l \<Longrightarrow> is_elf o0 e \<Longrightarrow> (\<And>r l'. grown o0 l' \<Longrightarrow> Q r l') \<Longrightarrow> wp (libelf_ehdr_counts e ec ehdr l) Q"
  by (rule wp_grown [OF _ ehdr_counts_grown]) (auto intro: grown_elf)

lemma ehdr_grown: "libelf_ok l \<Longrightarrow> wp (libelf_ehdr e ec allocate l) (\<lambda>_. grown l)"
  unfolding libelf_ehdr_def Let_def
  by (rule wp_basic wp_calloc [where ?o0.0 = l] wp_xlator [where ?o0.0 = l] wp_ehdr_counts [where ?o0.0 = l] wp_lookup wp_prod
      | simp add: is_elfI)+

lemmas wp_ehdr = wp_grown [OF _ ehdr_grown]

lemma gelf_fsize_grown: "libelf_ok l \<Longrightarrow> wp (gelf_fsize e t c v l) (\<lambda>_. grown l)"
  unfolding gelf_fsize_def by (rule wp_basic wp_lookup wp_prod | simp)+

lemma getphdr_grown: "libelf_ok l \<Longrightarrow> wp (libelf_getphdr e ec l) (\<lambda>_. grown l)"
  unfolding libelf_getphdr_def Let_def
  by (rule wp_basic wp_calloc [where ?o0.0 = l] wp_xlator [where ?o0.0 = l] wp_ehdr [where ?o0.0 = l]
      wp_grown [OF _ gelf_fsize_grown, where ?o0.0 = l] wp_lookup wp_prod | simp)+

lemmas wp_getphdr = wp_grown [OF _ getphdr_grown]

lemma newphdr_grown: "libelf_ok l \<Longrightarrow> wp (libelf_newphdr e ec count l) (\<lambda>_. grown l)"
  unfolding libelf_newphdr_def Let_def elf_flagphdr_def if_distrib [of "case_prod _"]
  by (rule wp_basic wp_calloc [where ?o0.0 = l] wp_ehdr [where ?o0.0 = l] wp_flags [where ?o0.0 = l] wp_lookup wp_prod
      | simp)+

section \<open>Sections\<close>

lemma load_shdrs_grown:
  "grown o0 l \<Longrightarrow> is_elf o0 e \<Longrightarrow> wp (load_shdrs n i e ec fsz src sw l) (\<lambda>_. grown o0)"
proof (induction n arbitrary: i src l)
  case 0
  then show ?case by (simp add: wp_def)
next
  case (Suc n)
  show ?case
    unfolding load_shdrs.simps Let_def
    by (rule wp_basic wp_allocate_scn [where ?o0.0 = o0] wp_xlator [where ?o0.0 = o0] Suc.IH | simp add: Suc.prems)+
qed

lemma load_section_headers_grown:
  assumes "libelf_ok l" "is_elf l e"
  shows "wp (libelf_load_section_headers e ehdr l) (\<lambda>_. grown l)"
proof -
  have loop: "grown l l' \<Longrightarrow> (\<And>r l2. grown l l2 \<Longrightarrow> Q r l2) \<Longrightarrow> wp (load_shdrs n i e ec fsz src sw l') Q"
    for l' Q n i ec fsz src sw
    by (rule wp_conseq [OF load_shdrs_grown]) (auto simp: assms(2))
  show ?thesis
    unfolding libelf_load_section_headers_def Let_def
    by (rule wp_basic loop wp_lookup wp_prod | simp add: assms)+
qed

lemma ensure_shdrs_grown: "libelf_ok l \<Longrightarrow> is_elf l e \<Longrightarrow> wp (ensure_shdrs e ehdr l) (\<lambda>_. grown l)"
  unfolding ensure_shdrs_def by (rule wp_basic load_section_headers_grown wp_lookup | simp)+

lemma wp_ensure_shdrs:
  "grown o0 l \<Longrightarrow> is_elf o0 e \<Longrightarrow> (\<And>r l'. grown o0 l' \<Longrightarrow> Q r l') \<Longrightarrow> wp (ensure_shdrs e ehdr l) Q"
  by (rule wp_grown [OF _ ensure_shdrs_grown]) (auto intro: grown_elf)

lemma getscn_grown: "libelf_ok l \<Longrightarrow> wp (elf_getscn e ndx l) (\<lambda>_. grown l)"
  unfolding elf_getscn_def Let_def
  by (rule wp_basic wp_ehdr [where ?o0.0 = l] wp_ensure_shdrs [where ?o0.0 = l] wp_lookup | simp add: is_elfI)+

lemmas wp_getscn = wp_grown [OF _ getscn_grown]

lemma newscn_grown: "libelf_ok l \<Longrightarrow> wp (elf_newscn e l) (\<lambda>_. grown l)"
  unfolding elf_newscn_def Let_def
  by (rule wp_basic wp_ehdr [where ?o0.0 = l] wp_ensure_shdrs [where ?o0.0 = l] wp_flags [where ?o0.0 = l]
      wp_allocate_scn [where ?o0.0 = l] wp_lookup | simp add: is_elfI)+

lemma nextscn_grown: "libelf_ok l \<Longrightarrow> wp (elf_nextscn e s l) (\<lambda>_. grown l)"
  unfolding elf_nextscn_def by (rule wp_basic wp_getscn [where ?o0.0 = l] wp_lookup | simp)+

lemma getscn0_grown: "libelf_ok l \<Longrightarrow> is_elf l e \<Longrightarrow> wp (libelf_getscn0 e l) (\<lambda>_. grown l)"
  unfolding libelf_getscn0_def
  by (rule wp_lookup) (auto split: list.split intro!: wp_Some wp_allocate_scn [where ?o0.0 = l])

lemma wp_getscn0:
  "grown o0 l \<Longrightarrow> is_elf o0 e \<Longrightarrow> (\<And>r l'. grown o0 l' \<Longrightarrow> Q r l') \<Longrightarrow> wp (libelf_getscn0 e l) Q"
  by (rule wp_grown [OF _ getscn0_grown]) (auto intro: grown_elf)

lemma setshstrndx_grown: "libelf_ok l \<Longrightarrow> wp (elf_setshstrndx e ndx l) (\<lambda>_. grown l)"
  unfolding elf_setshstrndx_def libelf_setshstrndx_def elf_flagshdr_def Let_def
  by (rule wp_basic wp_ehdr [where ?o0.0 = l] wp_getscn0 [where ?o0.0 = l] wp_flags [where ?o0.0 = l] wp_lookup wp_prod
      | simp add: is_elfI)+

section \<open>Data\<close>

text \<open>A fresh data descriptor may be filled in, marked, linked into its section or released.\<close>

definition fresh_data :: "addr \<Rightarrow> bool \<Rightarrow> addr \<Rightarrow> libelf \<Rightarrow> bool" where
  "fresh_data s m d l \<longleftrightarrow> unlinked (scn_view l) d \<and> data_view l d = Some \<lparr>l_scn = s, l_malloced = m\<rparr>"

lemma fresh_data_same:
  "scn_view l' = scn_view l \<Longrightarrow> data_view l' = data_view l \<Longrightarrow> fresh_data s m d l' = fresh_data s m d l"
  by (simp add: fresh_data_def)

lemma fresh_data_simps [simp]:
  "fresh_data s m d (LIBELF_SET_ERROR x n l) = fresh_data s m d l" "fresh_data s m d (set_mem y l) = fresh_data s m d l"
  "(\<And>D. view_data (i D) = view_data D) \<Longrightarrow> fresh_data s m d (upd_data b i l) = fresh_data s m d l"
  by (rule fresh_data_same; simp add: view_upd_data_keep)+

lemma fresh_data_malloc: "malloc n l = (a, l') \<Longrightarrow> fresh_data s m d l \<Longrightarrow> fresh_data s m d l'"
  by (auto simp: malloc_def Let_def fresh_data_def scn_view_def data_view_def split: if_splits)

lemma fresh_data_xlator: "call_xlator t dr ec dst dsz src n sw l = Some (r, l') \<Longrightarrow> fresh_data s m d l \<Longrightarrow> fresh_data s m d l'"
  by (auto simp: call_xlator_def bind_eq_Some_conv)

lemma grown_data_view:
  assumes "grown o0 l" "fresh_data s m d l" "elf_view l' = elf_view l" "scn_view l' = scn_view l" "heap_next l' = heap_next l"
    "data_view l' = (data_view l)(d := w)"
  shows "grown o0 l'"
proof -
  have ok: "links_ok {} (heap_next l) (elf_view l) (scn_view l) (data_view l)"
    using assms(1) by (simp add: grown_def libelf_inv_def)
  have "libelf_ok l'"
    unfolding libelf_inv_def assms(3-6) using assms(2) by (intro links_ok_unlinked [OF ok]) (auto simp: fresh_data_def)
  then show ?thesis using assms by (auto simp: grown_def)
qed

lemma grown_mark:
  assumes "grown o0 l" "fresh_data s m d l"
    and l'_def: "l' = upd_data d (\<lambda>D. D\<lparr>d_buf := buf, d_flags := d_flags D OR LIBELF_F_DATA_MALLOCED\<rparr>) l"
  shows "grown o0 l' \<and> fresh_data s True d l'"
proof -
  have bit: "(x OR 0x10000) AND 0x10000 \<noteq> 0" for x :: "32 word"
  proof -
    have "bit ((x OR 0x10000) AND 0x10000) 16" by (simp add: bit_simps)
    then show ?thesis by (metis bit_0_eq bot_apply bot_bool_def)
  qed
  obtain D where "datas l d = Some D" "view_data D = \<lparr>l_scn = s, l_malloced = m\<rparr>"
    using assms(2) by (auto simp: fresh_data_def data_view_def)
  then have v: "data_view l' = (data_view l)(d \<mapsto> \<lparr>l_scn = s, l_malloced = True\<rparr>)"
    using bit by (auto simp: l'_def fun_eq_iff data_view_def view_data_def)
  moreover have "elf_view l' = elf_view l" "scn_view l' = scn_view l" "heap_next l' = heap_next l" by (simp_all add: l'_def)
  ultimately show ?thesis
    using grown_data_view [OF assms(1,2)] assms(2) by (simp add: fresh_data_def)
qed

lemma grown_release_data:
  assumes "libelf_release_data d l = Some l'" "grown o0 l" "fresh_data s m d l"
  shows "grown o0 l'"
proof -
  have l': "l' = l\<lparr>datas := (datas l)(d := None)\<rparr>" using assms(1) by (auto simp: libelf_release_data_def bind_eq_Some_conv)
  show ?thesis
    by (rule grown_data_view [OF assms(2,3), where w = None])
      (auto simp: l' elf_view_def scn_view_def data_view_def fun_eq_iff)
qed

lemma grown_link:
  assumes "grown o0 l" "fresh_data s m d l" "scns l s = Some S"
    and f: "(f = (\<lambda>S. S\<lparr>s_data := s_data S @ [d]\<rparr>)) \<or> (\<not> m \<and> f = (\<lambda>S. S\<lparr>s_rawdata := s_rawdata S @ [d]\<rparr>))"
  shows "grown o0 (upd_scn s f l)"
proof -
  let ?l = "upd_scn s f l"
  have ok: "links_ok {} (heap_next l) (elf_view l) (scn_view l) (data_view l)"
    using assms(1) by (simp add: grown_def libelf_inv_def)
  have sv: "scn_view l s = Some (view_scn S)" using assms(3) by (simp add: scn_view_def)
  have v: "scn_view ?l = (scn_view l)(s \<mapsto> view_scn (f S))"
    using assms(3) by (auto simp: fun_eq_iff scn_view_def upd_scn_def)
  have "libelf_ok ?l"
    unfolding libelf_inv_def v using assms(2) f
    by (simp, intro links_ok_link_data [OF ok sv]) (auto simp: fresh_data_def view_scn_def)
  then have "grown l ?l" unfolding grown_def v using sv f by (auto simp: view_scn_def)
  then show ?thesis using grown_trans [OF assms(1)] by blast
qed

lemma wp_release_data:
  "grown o0 l \<Longrightarrow> fresh_data s m d l \<Longrightarrow> (\<And>l'. grown o0 l' \<Longrightarrow> wp (f l') Q) \<Longrightarrow> wp (libelf_release_data d l \<bind> f) Q"
  by (rule wp_lookup) (blast intro: grown_release_data)

lemma wp_malloc_fresh:
  assumes "grown o0 l" "fresh_data s m d l"
    and "\<And>a l'. grown o0 l' \<Longrightarrow> fresh_data s m d l' \<Longrightarrow> scns l' = scns l \<Longrightarrow> wp (f a l') Q"
  shows "wp (case malloc n l of (a, l) \<Rightarrow> f a l) Q"
proof (rule wp_prod)
  fix a l'
  assume "malloc n l = (a, l')"
  moreover from this have "scns l' = scns l" by (auto simp: malloc_def Let_def split: if_splits)
  ultimately show "wp (f a l') Q" using assms grown_malloc fresh_data_malloc by blast
qed

lemma wp_xlator_fresh:
  assumes "grown o0 l" "fresh_data s m d l"
    and "\<And>r l'. grown o0 l' \<Longrightarrow> fresh_data s m d l' \<Longrightarrow> scns l' = scns l \<Longrightarrow> Q r l'"
  shows "wp (call_xlator t dr ec dst dsz src n sw l) Q"
proof -
  have "Q r l'" if x: "call_xlator t dr ec dst dsz src n sw l = Some (r, l')" for r l'
  proof -
    have "scns l' = scns l" using x by (auto simp: call_xlator_def bind_eq_Some_conv)
    moreover have "grown o0 l'" using x wp_xlator [OF assms(1), of "\<lambda>_. grown o0"] by (simp add: wp_def)
    ultimately show ?thesis using assms(3) fresh_data_xlator [OF x assms(2)] by blast
  qed
  then show ?thesis by (simp add: wp_def)
qed

lemma fill_data_grown:
  assumes g: "grown o0 l" and s: "scns l s = Some S" and d: "fresh_data s False d l"
  shows "wp (fill_data s E t nb off al msz n d l) (\<lambda>_. grown o0)"
proof -
  let ?mark = "\<lambda>buf l. upd_data d (\<lambda>D. D\<lparr>d_buf := buf, d_flags := d_flags D OR LIBELF_F_DATA_MALLOCED\<rparr>) l"
  have conv: "wp (call_xlator t ELF_TOMEMORY ec buf dsz src n sw (?mark buf l1) \<bind> (\<lambda>(ok, l).
      if \<not> ok then libelf_release_data d l \<bind> (\<lambda>l. Some (NULL, LIBELF_SET_ERROR ELF_E_DATA 0 l))
      else Some (d, upd_scn s (\<lambda>S. S\<lparr>s_data := s_data S @ [d]\<rparr>) l))) (\<lambda>_. grown o0)"
    if l1: "grown o0 l1" "fresh_data s False d l1" "scns l1 s = Some S" for ec buf dsz src sw l1
  proof -
    have "grown o0 (?mark buf l1)" "fresh_data s True d (?mark buf l1)" using grown_mark [OF l1(1,2) refl] by auto
    then show ?thesis
      using l1(3)
      by (intro wp_bind wp_xlator_fresh [where s = s and m = True and d = d] wp_if
          wp_release_data [where s = s and m = True and d = d]) (auto intro: grown_link)
  qed
  show ?thesis
    unfolding fill_data_def Let_def
    by (rule wp_if wp_malloc_fresh [where ?o0.0 = o0 and s = s and m = False and d = d]
        wp_release_data [where ?o0.0 = o0 and s = s and m = False and d = d] conv | simp add: g d s)+
qed

lemma allocate_data_scns: "libelf_allocate_data s l = (d, l') \<Longrightarrow> scns l' = scns l"
  by (auto simp: libelf_allocate_data_def calloc_def malloc_def Let_def LIBELF_SET_ERROR_def split: if_splits prod.splits)

lemma wp_new_data:
  assumes "grown o0 l"
    and "\<And>d l'. grown o0 l' \<Longrightarrow> d \<noteq> NULL \<longrightarrow> fresh_data s False d l' \<Longrightarrow> scns l' = scns l \<Longrightarrow> wp (f d l') Q"
  shows "wp (case libelf_allocate_data s l of (d, l) \<Rightarrow> f d l) Q"
  using allocate_data_scns by (intro wp_allocate_data [OF assms(1)] assms(2)) (auto simp: fresh_data_def)

lemma load_data_grown:
  assumes "libelf_ok l" "scns l s = Some S"
  shows "wp (load_data s E t nb off sz al l) (\<lambda>_. grown l)"
proof -
  have [simp]: "scns (set_error_option err l) = scns l" for err and l :: libelf
    by (simp add: set_error_option_def split: option.split)
  show ?thesis
    unfolding load_data_def Let_def
    by (rule wp_basic wp_new_data [where ?o0.0 = l] fill_data_grown [where S = S] wp_lookup wp_prod | simp add: assms)+
qed

lemma getdata_grown: "libelf_ok l \<Longrightarrow> wp (elf_getdata s d l) (\<lambda>_. grown l)"
  unfolding elf_getdata_def Let_def
  by (rule wp_basic load_data_grown wp_lookup wp_prod | simp)+

lemmas wp_getdata = wp_grown [OF _ getdata_grown]

lemma rawdata_grown: "libelf_ok l \<Longrightarrow> wp (elf_rawdata s d l) (\<lambda>_. grown l)"
  unfolding elf_rawdata_def Let_def
  by (rule wp_basic wp_new_data [where ?o0.0 = l] wp_lookup wp_prod
      | simp | auto intro!: grown_link [where m = False and s = s])+

lemma newdata_grown:
  assumes ok: "libelf_ok l"
  shows "wp (elf_newdata s l) (\<lambda>_. grown l)"
proof (cases "scns l s")
  case None
  then show ?thesis unfolding elf_newdata_def by (simp add: wp_def ok)
next
  case (Some S)
  have link: "grown l (upd_scn s (\<lambda>S. S\<lparr>s_data := s_data S @ [d]\<rparr>) l')"
    if g: "grown l l'" and d: "fresh_data s False d l'" for d l'
  proof -
    obtain S' where "scns l' s = Some S'"
      using g Some by (force simp: grown_def scn_view_def)
    then show ?thesis using grown_link [OF g d] by blast
  qed
  show ?thesis
    unfolding elf_newdata_def Let_def
    by (rule wp_basic wp_getdata [where ?o0.0 = l] wp_new_data [where ?o0.0 = l] wp_flags [where ?o0.0 = l] wp_lookup
        | simp add: ok link)+
qed

section \<open>Strings and checksums\<close>

lemma wp_recursive: "(\<And>y. x = Some y \<Longrightarrow> grown o0 l \<longrightarrow> grown o0 (snd y)) \<Longrightarrow> grown o0 l \<Longrightarrow> wp x (\<lambda>_. grown o0)"
  by (auto simp: wp_def)

lemma wp_result: "wp x (\<lambda>_. grown o0) \<Longrightarrow> x = Some y \<Longrightarrow> grown o0 (snd y)"
  by (cases y) (auto simp: wp_def)

lemma strptr_layout_wp: "grown o0 l \<Longrightarrow> wp (strptr_layout s d off l) (\<lambda>_. grown o0)"
proof (rule wp_recursive)
  fix y
  assume "strptr_layout s d off l = Some y"
  then show "grown o0 l \<longrightarrow> grown o0 (snd y)"
  proof (rule strptr_layout.raw_induct [where P = "\<lambda>s d off l y. grown o0 l \<longrightarrow> grown o0 (snd y)", rotated])
    fix f s d off l y
    assume IH: "\<And>s d off l y. f s d off l = Some y \<Longrightarrow> grown o0 l \<longrightarrow> grown o0 (snd y)"
      and body: "elf_getdata s d l \<bind> (\<lambda>(d, l).
        if d = NULL then Some (NULL, LIBELF_SET_ERROR ELF_E_ARGUMENT 0 l)
        else datas l d \<bind> (\<lambda>D.
          if d_buf D = NULL \<or> d_size D = 0 then f s d off l
          else if d_type D \<noteq> ELF_T_BYTE then Some (NULL, LIBELF_SET_ERROR ELF_E_DATA 0 l)
          else if d_off D \<le> off \<and> off < u64 (d_off D + d_size D) then Some (d_buf D + (off - d_off D), l)
          else f s d off l)) = Some y"
    show "grown o0 l \<longrightarrow> grown o0 (snd y)"
    proof
      assume g: "grown o0 l"
      note rec = wp_recursive [OF IH]
      show "grown o0 (snd y)"
        by (rule wp_result [OF _ body]) (rule wp_basic rec wp_getdata [where ?o0.0 = o0] wp_lookup | simp add: g)+
    qed
  qed
qed simp

lemma strptr_holes_wp: "grown o0 l \<Longrightarrow> wp (strptr_holes s d count off l) (\<lambda>_. grown o0)"
proof (rule wp_recursive)
  fix y
  assume "strptr_holes s d count off l = Some y"
  then show "grown o0 l \<longrightarrow> grown o0 (snd y)"
  proof (rule strptr_holes.raw_induct [where P = "\<lambda>s d count off l y. grown o0 l \<longrightarrow> grown o0 (snd y)", rotated])
    fix f s d count off l y
    assume IH: "\<And>s d count off l y. f s d count off l = Some y \<Longrightarrow> grown o0 l \<longrightarrow> grown o0 (snd y)"
      and body: "elf_getdata s d l \<bind> (\<lambda>(d, l).
        if \<not> (d \<noteq> NULL \<and> count \<le> off) then Some (NULL, LIBELF_SET_ERROR ELF_E_ARGUMENT 0 l)
        else datas l d \<bind> (\<lambda>D.
          if d_buf D = NULL \<or> d_size D = 0 then f s d count off l
          else if d_type D \<noteq> ELF_T_BYTE then Some (NULL, LIBELF_SET_ERROR ELF_E_DATA 0 l)
          else if 1 < d_align D \<and> not_power_of_2 (d_align D) then Some (NULL, LIBELF_SET_ERROR ELF_E_DATA 0 l)
          else let count = if 1 < d_align D then roundup2 count (d_align D) else count
          in if off < count then Some (NULL, LIBELF_SET_ERROR ELF_E_ARGUMENT 0 l)
          else if off < u64 (count + d_size D) then Some (d_buf D + (off - count), l)
          else f s d (u64 (count + d_size D)) off l)) = Some y"
    show "grown o0 l \<longrightarrow> grown o0 (snd y)"
    proof
      assume g: "grown o0 l"
      note rec = wp_recursive [OF IH]
      show "grown o0 (snd y)"
        by (rule wp_result [OF _ body], unfold Let_def)
          (rule wp_basic rec wp_getdata [where ?o0.0 = o0] wp_lookup | simp add: g)+
    qed
  qed
qed simp

lemma sum_rawdata_wp: "grown o0 l \<Longrightarrow> wp (sum_rawdata scn d c l) (\<lambda>_. grown o0)"
proof (rule wp_recursive)
  fix y
  assume "sum_rawdata scn d c l = Some y"
  then show "grown o0 l \<longrightarrow> grown o0 (snd y)"
  proof (rule sum_rawdata.raw_induct [where P = "\<lambda>scn d c l y. grown o0 l \<longrightarrow> grown o0 (snd y)", rotated])
    fix f scn d c l y
    assume IH: "\<And>scn d c l y. f scn d c l = Some y \<Longrightarrow> grown o0 l \<longrightarrow> grown o0 (snd y)"
      and body: "elf_rawdata scn d l \<bind> (\<lambda>(d, l). if d = NULL then Some (c, l)
        else datas l d \<bind> (\<lambda>D. f scn d (libelf_sum c (mem l) (d_buf D) (d_size D)) l)) = Some y"
    show "grown o0 l \<longrightarrow> grown o0 (snd y)"
    proof
      assume g: "grown o0 l"
      note rec = wp_recursive [OF IH]
      show "grown o0 (snd y)"
        by (rule wp_result [OF _ body])
          (rule wp_basic rec wp_grown [OF _ rawdata_grown, where ?o0.0 = o0] wp_lookup | simp add: g)+
    qed
  qed
qed simp

lemma getshdr_grown: "libelf_ok l \<Longrightarrow> wp (libelf_getshdr s ec l) (\<lambda>_. grown l)"
  unfolding libelf_getshdr_def Let_def by (rule wp_basic wp_lookup | simp)+

lemma shdr_value_grown: "libelf_ok l \<Longrightarrow> wp (gelf_shdr_value s l) (\<lambda>_. grown l)"
  unfolding gelf_shdr_value_def Let_def
  by (rule wp_basic wp_grown [OF _ getshdr_grown, where ?o0.0 = l] wp_lookup | simp)+

lemmas wp_shdr_value = wp_grown [OF _ shdr_value_grown]

lemma ehdr_value_grown: "libelf_ok l \<Longrightarrow> wp (gelf_ehdr_value e l) (\<lambda>_. grown l)"
  unfolding gelf_ehdr_value_def Let_def by (rule wp_basic wp_ehdr [where ?o0.0 = l] wp_lookup | simp)+

lemma strptr_grown: "libelf_ok l \<Longrightarrow> wp (elf_strptr e ndx off l) (\<lambda>_. grown l)"
  unfolding elf_strptr_def Let_def
  by (rule wp_basic wp_getscn [where ?o0.0 = l] wp_shdr_value [where ?o0.0 = l] strptr_layout_wp strptr_holes_wp wp_lookup | simp)+

lemma checksum_loop_wp: "grown o0 l \<Longrightarrow> wp (checksum_loop n shn e c l) (\<lambda>_. grown o0)"
proof (induction n arbitrary: shn c l)
  case 0
  then show ?case by simp
next
  case (Suc n)
  have sum: "grown o0 l' \<Longrightarrow> (\<And>r l2. grown o0 l2 \<Longrightarrow> Q r l2) \<Longrightarrow> wp (sum_rawdata scn d c l') Q" for scn d c l' Q
    by (rule wp_conseq [OF sum_rawdata_wp])
  show ?case
    unfolding checksum_loop.simps
    by (rule wp_basic wp_getscn [where ?o0.0 = o0] wp_shdr_value [where ?o0.0 = o0] sum Suc.IH wp_lookup | simp add: Suc.prems)+
qed

lemma checksum_grown: "libelf_ok l \<Longrightarrow> wp (libelf_checksum e ec l) (\<lambda>_. grown l)"
proof -
  assume ok: "libelf_ok l"
  have loop: "grown l l' \<Longrightarrow> (\<And>r l2. grown l l2 \<Longrightarrow> Q r l2) \<Longrightarrow> wp (checksum_loop n shn e c l') Q" for n shn c l' Q
    by (rule wp_conseq [OF checksum_loop_wp])
  show ?thesis
    unfolding libelf_checksum_def
    by (rule wp_basic wp_grown [OF _ ehdr_value_grown, where ?o0.0 = l] loop wp_lookup | simp add: ok)+
qed

section \<open>The class-independent functions\<close>

lemma gelf_entry_grown: "libelf_ok l \<Longrightarrow> wp (gelf_entry t d ndx dst l) (\<lambda>_. grown l)"
  unfolding gelf_entry_def Let_def by (rule wp_basic wp_lookup wp_prod | simp)+

lemmas wp_entry = wp_grown [OF _ gelf_entry_grown]

lemma gelf_get_grown: "libelf_ok l \<Longrightarrow> wp (gelf_get t of32 of64 to64 sz32 sz64 w d ndx dst l) (\<lambda>_. grown l)"
  unfolding gelf_get_def by (rule wp_basic wp_entry [where ?o0.0 = l] wp_prod | simp)+

lemma gelf_update_grown:
  "libelf_ok l \<Longrightarrow> wp (gelf_update t of32 to32 of64 to64 sz32 sz64 w d ndx src l) (\<lambda>_. grown l)"
  unfolding gelf_update_def Let_def by (rule wp_basic wp_entry [where ?o0.0 = l] wp_prod | simp)+

lemma xindex_entry_grown: "libelf_ok l \<Longrightarrow> wp (xindex_entry ty d idx ndx l) (\<lambda>_. grown l)"
  unfolding xindex_entry_def Let_def by (rule wp_basic wp_lookup wp_prod | simp)+

lemmas wp_get_update = wp_grown [OF _ gelf_get_grown] wp_grown [OF _ gelf_update_grown] wp_grown [OF _ xindex_entry_grown]

lemma getsymshndx_grown: "libelf_ok l \<Longrightarrow> wp (gelf_getsymshndx d idx ndx dst sh l) (\<lambda>_. grown l)"
  unfolding gelf_getsymshndx_def gelf_getsym_def by (rule wp_basic wp_get_update [where ?o0.0 = l] | simp)+

lemma update_symshndx_grown: "libelf_ok l \<Longrightarrow> wp (gelf_update_symshndx d idx ndx gs x l) (\<lambda>_. grown l)"
  unfolding gelf_update_symshndx_def gelf_update_sym_def by (rule wp_basic wp_get_update [where ?o0.0 = l] | simp)+

lemma getehdr_grown: "libelf_ok l \<Longrightarrow> wp (gelf_getehdr e d l) (\<lambda>_. grown l)"
  unfolding gelf_getehdr_def by (rule wp_basic wp_grown [OF _ ehdr_value_grown, where ?o0.0 = l] | simp)+

lemma update_ehdr_grown: "libelf_ok l \<Longrightarrow> wp (gelf_update_ehdr e s l) (\<lambda>_. grown l)"
  unfolding gelf_update_ehdr_def elf_flagehdr_def Let_def
  by (rule wp_basic wp_ehdr [where ?o0.0 = l] wp_flags [where ?o0.0 = l] wp_lookup wp_prod | simp)+

lemma gelf_getphdr_grown: "libelf_ok l \<Longrightarrow> wp (gelf_getphdr e i d l) (\<lambda>_. grown l)"
  unfolding gelf_getphdr_def Let_def
  by (rule wp_basic wp_ehdr [where ?o0.0 = l] wp_getphdr [where ?o0.0 = l] wp_lookup wp_prod | simp)+

lemma update_phdr_grown: "libelf_ok l \<Longrightarrow> wp (gelf_update_phdr e i s l) (\<lambda>_. grown l)"
  unfolding gelf_update_phdr_def elf_flagphdr_def Let_def
  by (rule wp_basic wp_ehdr [where ?o0.0 = l] wp_flags [where ?o0.0 = l] wp_lookup wp_prod | simp)+

lemma gelf_getshdr_grown: "libelf_ok l \<Longrightarrow> wp (gelf_getshdr s d l) (\<lambda>_. grown l)"
  unfolding gelf_getshdr_def by (rule wp_basic wp_shdr_value [where ?o0.0 = l] | simp)+

lemma update_shdr_grown: "libelf_ok l \<Longrightarrow> wp (gelf_update_shdr s h l) (\<lambda>_. grown l)"
  unfolding gelf_update_shdr_def Let_def
  by (rule wp_basic wp_flags [where ?o0.0 = l] wp_lookup wp_prod | simp)+

lemma xlate_grown: "libelf_ok l \<Longrightarrow> wp (libelf_xlate dst src enc ec dr l) (\<lambda>_. grown l)"
  unfolding libelf_xlate_def libelf_xlate_objects_def Let_def
  by (rule wp_basic wp_lookup wp_prod | simp)+

end
