(* ===== verification/Libelf_Archive.thy ===== *)
theory Libelf_Archive
  imports Libelf_Open
begin

text \<open>
  Headers, names and symbol tables of archives: \<open>elf_hash.c\<close>, the rest of \<open>libelf_ar.c\<close> and
  \<open>libelf_ar_util.c\<close>, \<open>elf_getarhdr.c\<close> and \<open>elf_getarsym.c\<close>.
\<close>

section \<open>The symbol hash\<close>

text \<open>One character of \<open>elf_hash\<close>; \<open>unsigned long\<close> has 64 bits.\<close>

definition elf_hash_step :: "byte \<Rightarrow> 64 word \<Rightarrow> 64 word" where
  "elf_hash_step c h =
    (let h = push_bit 4 h + ucast c;
         t = h AND 0xF0000000;
         h = (if t \<noteq> 0 then h XOR drop_bit 24 t else h)
     in h AND NOT t)"

text \<open>The loop over a string without terminating null character does not end.\<close>

partial_function (option) elf_hash_loop :: "memory \<Rightarrow> addr \<Rightarrow> 64 word \<Rightarrow> 64 word option" where
  "elf_hash_loop m s h = (if m s = 0 then Some h else elf_hash_loop m (s + 1) (elf_hash_step (m s) h))"

definition elf_hash :: "memory \<Rightarrow> addr \<Rightarrow> 64 word option" where
  "elf_hash m name = elf_hash_loop m name 0"

section \<open>Names\<close>

definition strncpy :: "memory \<Rightarrow> addr \<Rightarrow> addr \<Rightarrow> nat \<Rightarrow> memory" where
  "strncpy m dst src n =
    (let bs = takeWhile (\<lambda>c. c \<noteq> 0) (bytes_at m src n) in put_bytes m dst (bs @ replicate (n - length bs) 0))"

text \<open>
  The loop over trailing blanks ends at the last character that is no blank; \<open>k\<close> is the number
  of characters up to it.
\<close>

definition libelf_ar_get_string :: "addr \<Rightarrow> nat \<Rightarrow> bool \<Rightarrow> libelf \<Rightarrow> addr \<times> libelf" where
  "libelf_ar_get_string buf bufsize rawname l =
    (let k = length (dropWhile (\<lambda>c. c = chr_space) (rev (bytes_at (mem l) buf bufsize)));
         sz = (if rawname then bufsize + 1
               else if k = 0 then 1
               else if k > 2 \<or> (k = 2 \<and> mem l buf \<noteq> chr_slash) then k else k + 1);
         (r, l) = malloc sz l
     in if r = NULL then (NULL, LIBELF_SET_ERROR ELF_E_RESOURCE 0 l)
        else let m = (if \<not> rawname \<and> k = 0 then put_bytes (mem l) r [0] else strncpy (mem l) r buf sz)
             in (r, set_mem (m(r + (sz - 1) := 0)) l))"

definition libelf_ar_get_name :: "addr \<Rightarrow> nat \<Rightarrow> addr \<Rightarrow> libelf \<Rightarrow> (addr \<times> libelf) option" where
  "libelf_ar_get_name buf bufsize e l =
    do {
      E \<leftarrow> elfs l e;
      if e_kind E \<noteq> ELF_K_AR then None
      else if mem l buf = chr_slash \<and> mem l (buf + 1) \<ge> chr_0 \<and> mem l (buf + 1) \<le> chr_9 then
        do {
          n \<leftarrow> libelf_ar_get_number (mem l) (buf + 1) (bufsize - 1) 10;
          case n of
            None \<Rightarrow> Some (NULL, LIBELF_SET_ERROR ELF_E_ARCHIVE 0 l)
          | Some offset \<Rightarrow>
              if offset > e_rawstrtabsz E then Some (NULL, LIBELF_SET_ERROR ELF_E_ARCHIVE 0 l)
              else let
                q = e_rawstrtab E + offset;
                r = e_rawstrtab E + e_rawstrtabsz E;
                len = length (takeWhile (\<lambda>c. c \<noteq> chr_slash) (bytes_at (mem l) q (r - q))) + 1;
                (s, l) = malloc len l
              in if s = NULL then Some (NULL, LIBELF_SET_ERROR ELF_E_RESOURCE 0 l)
              else if q = NULL then None
              else Some (s, set_mem ((strncpy (mem l) s q len)(s + (len - 1) := 0)) l) }
      else Some (libelf_ar_get_string buf bufsize False l) }"

section \<open>Headers of members\<close>

abbreviation (input) sizeof_Elf_Arhdr :: nat where "sizeof_Elf_Arhdr \<equiv> 48"

text \<open>Subtraction of \<open>uintptr_t\<close> values\<close>

definition u64_minus :: "nat \<Rightarrow> nat \<Rightarrow> nat" where
  "u64_minus a b = u64 (a + 18446744073709551616 - b)"

text \<open>
  The members that \<open>_libelf_ar_gethdr\<close> fills in one after the other; the result is \<open>None\<close> inside
  for its \<open>goto error\<close>.  The member \<open>ar_date\<close> is never set and not part of the model.
\<close>

definition ar_gethdr_members :: "addr \<Rightarrow> addr \<Rightarrow> libelf \<Rightarrow> (Elf_Arhdr option \<times> libelf) option" where
  "ar_gethdr_members arh parent l =
    do {
      (name, l) \<leftarrow> libelf_ar_get_name (arh + off_ar_name) 16 parent l;
      if name = NULL then Some (None, l)
      else do {
        uid \<leftarrow> libelf_ar_get_number (mem l) (arh + off_ar_uid) 6 10;
        gid \<leftarrow> libelf_ar_get_number (mem l) (arh + off_ar_gid) 6 10;
        mode \<leftarrow> libelf_ar_get_number (mem l) (arh + off_ar_mode) 8 8;
        asize \<leftarrow> libelf_ar_get_number (mem l) (arh + off_ar_size) 10 10;
        case (uid, gid, mode, asize) of
          (Some uid, Some gid, Some mode, Some asize) \<Rightarrow>
            let (rawname, l) = libelf_ar_get_string (arh + off_ar_name) 16 True l
            in if rawname = NULL then Some (None, l)
               else Some (Some \<lparr>ar_name = name, ar_gid = u32 gid, ar_mode = u32 mode, ar_rawname = rawname,
                 ar_size = asize, ar_uid = u32 uid, ar_flags = 0\<rparr>, l)
        | _ \<Rightarrow> Some (None, l) } }"

definition libelf_ar_gethdr :: "addr \<Rightarrow> libelf \<Rightarrow> (addr \<times> libelf) option" where
  "libelf_ar_gethdr e l =
    do {
      E \<leftarrow> elfs l e;
      if e_parent E = NULL then Some (NULL, LIBELF_SET_ERROR ELF_E_ARGUMENT 0 l)
      else do {
        P \<leftarrow> elfs l (e_parent E);
        let arh = u64_minus (e_rawfile E) sizeof_ar_hdr;
        if \<not> arh \<ge> e_rawfile P + SARMAG \<or> \<not> arh \<le> u64_minus (e_rawfile P + e_rawsize P) sizeof_ar_hdr then None
        else let (eh, l) = malloc sizeof_Elf_Arhdr l
        in if eh = NULL then Some (NULL, LIBELF_SET_ERROR ELF_E_RESOURCE 0 l)
        else do {
          (h, l) \<leftarrow> ar_gethdr_members arh (e_parent E) (upd_elf e (\<lambda>E. E\<lparr>e_arhdr := eh\<rparr>) l);
          case h of
            None \<Rightarrow> Some (NULL, upd_elf e (\<lambda>E. E\<lparr>e_arhdr := NULL\<rparr>) l)
          | Some h \<Rightarrow> Some (eh, l\<lparr>arhdrs := (arhdrs l)(eh \<mapsto> h)\<rparr>) } } }"

definition elf_getarhdr :: "addr \<Rightarrow> libelf \<Rightarrow> (addr \<times> libelf) option" where
  "elf_getarhdr e l =
    (if e = NULL then Some (NULL, LIBELF_SET_ERROR ELF_E_ARGUMENT 0 l)
     else do {
       E \<leftarrow> elfs l e;
       if e_arhdr E \<noteq> NULL then Some (e_arhdr E, l) else libelf_ar_gethdr e l })"

section \<open>The symbol table\<close>

abbreviation (input) INTSZ :: nat where "INTSZ \<equiv> 4"
abbreviation (input) sizeof_Elf_Arsym :: nat where "sizeof_Elf_Arsym \<equiv> 24"

definition GET_WORD :: "memory \<Rightarrow> addr \<Rightarrow> nat" where
  "GET_WORD m p =
    (let v = unat (m p) * 256;
         v = (v + unat (m (p + 1))) * 256;
         v = (v + unat (m (p + 2))) * 256
     in v + unat (m (p + 3)))"

text \<open>\<open>for (; s < end && *s++ != '\0';)\<close>\<close>

function ar_skip :: "memory \<Rightarrow> addr \<Rightarrow> addr \<Rightarrow> addr" where
  "ar_skip m s lim = (if s < lim then if m s \<noteq> 0 then ar_skip m (s + 1) lim else s + 1 else s)"
  by auto
termination by (relation "measure (\<lambda>(m, s, lim). lim - s)") auto

declare ar_skip.simps [simp del]

text \<open>The members of an \<open>Elf_Arsym\<close> at their offsets\<close>

definition put_arsym :: "addr \<Rightarrow> nat \<Rightarrow> 64 word \<Rightarrow> addr \<Rightarrow> libelf \<Rightarrow> libelf" where
  "put_arsym arsym off h name l =
    set_mem (put_bytes (mem l) arsym (host_bytes (host_be l) 8 (of_nat off :: 64 word) @ host_bytes (host_be l) 8 h @
      host_bytes (host_be l) 8 (of_nat name :: 64 word))) l"

primrec ar_symtab_loop :: "nat \<Rightarrow> addr \<Rightarrow> addr \<Rightarrow> addr \<Rightarrow> addr \<Rightarrow> libelf \<Rightarrow> (addr option \<times> libelf) option" where
  "ar_symtab_loop 0 p s lim arsym l = Some (Some arsym, l)"
| "ar_symtab_loop (Suc n) p s lim arsym l =
    do {
      h \<leftarrow> elf_hash (mem l) s;
      let l = put_arsym arsym (GET_WORD (mem l) p) h s l;
      let s = ar_skip (mem l) s lim;
      if s > lim then Some (None, LIBELF_SET_ERROR ELF_E_ARCHIVE 0 l)
      else ar_symtab_loop n (p + INTSZ) s lim (arsym + sizeof_Elf_Arsym) l }"

text \<open>Returns the table, the value stored through \<open>count\<close>, if any, and the state.\<close>

definition libelf_ar_process_symtab :: "addr \<Rightarrow> libelf \<Rightarrow> ((addr \<times> nat option) \<times> libelf) option" where
  "libelf_ar_process_symtab e l =
    (if e = NULL then None
     else do {
       E \<leftarrow> elfs l e;
       if e_rawsymtabsz E < INTSZ then Some ((NULL, None), LIBELF_SET_ERROR ELF_E_ARCHIVE 0 l)
       else let
         p = e_rawsymtab E;
         lim = p + e_rawsymtabsz E;
         nentries = GET_WORD (mem l) p;
         p = p + INTSZ
       in if nentries = 0 \<or> p + nentries * INTSZ \<ge> lim then
         Some ((NULL, None), LIBELF_SET_ERROR ELF_E_ARCHIVE 0 l)
       else let (symtab, l) = malloc (sizeof_Elf_Arsym * (nentries + 1)) l
       in if symtab = NULL then Some ((NULL, None), LIBELF_SET_ERROR ELF_E_RESOURCE 0 l)
       else do {
         (arsym, l) \<leftarrow> ar_symtab_loop nentries p (p + nentries * INTSZ) lim symtab l;
         case arsym of
           None \<Rightarrow> Some ((NULL, None), l)
         | Some arsym \<Rightarrow>
             Some ((symtab, Some (nentries + 1)),
               upd_elf e (\<lambda>E. E\<lparr>e_symtabsz := nentries + 1, e_symtab := symtab\<rparr>) (put_arsym arsym 0 (NOT 0) NULL l)) } })"

definition elf_getarsym :: "addr \<Rightarrow> libelf \<Rightarrow> ((addr \<times> nat) \<times> libelf) option" where
  "elf_getarsym ar l =
    (if ar = NULL then Some ((NULL, 0), LIBELF_SET_ERROR ELF_E_ARGUMENT 0 l)
     else do {
       A \<leftarrow> elfs l ar;
       if e_kind A \<noteq> ELF_K_AR then Some ((NULL, 0), LIBELF_SET_ERROR ELF_E_ARGUMENT 0 l)
       else if e_symtab A \<noteq> NULL then Some ((e_symtab A, e_symtabsz A), l)
       else if e_rawsymtab A \<noteq> NULL then
         do {
           ((symtab, n), l) \<leftarrow> libelf_ar_process_symtab ar l;
           Some ((symtab, case n of None \<Rightarrow> 0 | Some n \<Rightarrow> n), l) }
       else Some ((NULL, 0), LIBELF_SET_ERROR ELF_E_ARCHIVE 0 l) })"

section \<open>Lemmas on the hash\<close>

lemma elf_hash_loop_string:
  assumes "bytes_at m s (length bs) = bs" "0 \<notin> set bs" "m (s + length bs) = 0"
  shows "elf_hash_loop m s h = Some (fold elf_hash_step bs h)"
  using assms
proof (induction bs arbitrary: s h)
  case Nil
  then show ?case by (subst elf_hash_loop.simps) simp
next
  case (Cons b bs)
  have "bytes_at m s (1 + length bs) = [m s] @ bytes_at m (s + 1) (length bs)"
    by (simp only: bytes_at_add) (simp add: bytes_at_def)
  with Cons.prems have "m s = b" "bytes_at m (s + 1) (length bs) = bs" by auto
  with Cons show ?case by (subst elf_hash_loop.simps) auto
qed

lemma elf_hash_string:
  "bytes_at m s (length bs) = bs \<Longrightarrow> 0 \<notin> set bs \<Longrightarrow> m (s + length bs) = 0 \<Longrightarrow> elf_hash m s = Some (fold elf_hash_step bs 0)"
  by (simp add: elf_hash_def elf_hash_loop_string)

text \<open>The hash of the System V ABI, whose \<open>unsigned long\<close> has 32 bits.\<close>

definition abi_hash_step :: "byte \<Rightarrow> 32 word \<Rightarrow> 32 word" where
  "abi_hash_step c h =
    (let h = push_bit 4 h + ucast c; g = h AND 0xF0000000 in (h XOR drop_bit 24 g) AND NOT g)"

lemma ucast_32_add: "(ucast (a + b :: 64 word) :: 32 word) = ucast a + ucast b"
proof transfer
  fix a b :: int
  have "take_bit 32 (take_bit 64 a + take_bit 64 b) = take_bit 32 (take_bit 32 (take_bit 64 a) + take_bit 32 (take_bit 64 b))"
    by (simp only: take_bit_add)
  then show "take_bit LENGTH(32) (take_bit LENGTH(64) (a + b)) =
      take_bit LENGTH(32) (take_bit LENGTH(64) a + take_bit LENGTH(64) b)"
    by (simp add: take_bit_add)
qed

lemma elf_hash_step_low: "ucast (elf_hash_step c h) = abi_hash_step c (ucast h)"
proof -
  let ?h = "push_bit 4 h + ucast c" and ?k = "push_bit 4 (ucast h :: 32 word) + ucast c"
  have shift: "(ucast (push_bit 4 h) :: 32 word) = push_bit 4 (ucast h)" by (rule bit_word_eqI) (auto simp: bit_simps)
  have "(ucast (ucast c :: 64 word) :: 32 word) = ucast c" by (rule bit_word_eqI) (auto simp: bit_simps)
  with shift have low: "ucast ?h = ?k" by (simp only: ucast_32_add)
  have mask: "(0xF0000000 :: 64 word) = push_bit 28 (mask 4)" "(0xF0000000 :: 32 word) = push_bit 28 (mask 4)"
    by (simp_all add: mask_eq_exp_minus_1)
  have step: "elf_hash_step c h = (?h XOR drop_bit 24 (?h AND push_bit 28 (mask 4))) AND NOT (?h AND push_bit 28 (mask 4))"
    unfolding elf_hash_step_def Let_def mask(1)
    by (cases "?h AND push_bit 28 (mask 4) = 0") (simp_all only: if_False not_False_eq_True not_True_eq_False if_True
        drop_bit_of_0 xor.right_neutral if_cancel)
  have "ucast (elf_hash_step c h) =
      (ucast ?h XOR drop_bit 24 (ucast ?h AND push_bit 28 (mask 4))) AND NOT (ucast ?h AND push_bit 28 (mask 4) :: 32 word)"
    unfolding step by (rule bit_word_eqI) (auto simp: bit_simps)
  then show ?thesis by (simp only: low abi_hash_step_def Let_def mask)
qed

lemma elf_hash_low: "ucast (fold elf_hash_step bs h) = fold abi_hash_step bs (ucast h)"
  by (induction bs arbitrary: h) (simp_all add: elf_hash_step_low)

section \<open>Lemmas on numbers and names\<close>

text \<open>Decimal notation, most significant digit first.\<close>

fun decimal :: "nat \<Rightarrow> byte list" where
  "decimal n = (if n < 10 then [0x30 + of_nat n] else decimal (n div 10) @ [0x30 + of_nat (n mod 10)])"

declare decimal.simps [simp del]

lemma digit:
  assumes "d < 10"
  shows "unat (0x30 + of_nat d :: byte) = 48 + d" "0x30 + of_nat d \<noteq> (chr_space :: byte)"
    "\<not> 0x30 + of_nat d < (chr_0 :: byte)" "\<not> (chr_9 :: byte) < 0x30 + of_nat d" "0x30 + of_nat d \<noteq> (0 :: byte)"
    "0x30 + of_nat d \<noteq> (chr_slash :: byte)"
proof -
  have "d \<in> {0, 1, 2, 3, 4, 5, 6, 7, 8, 9}" using assms by auto
  then show "unat (0x30 + of_nat d :: byte) = 48 + d" "0x30 + of_nat d \<noteq> (chr_space :: byte)"
    "\<not> 0x30 + of_nat d < (chr_0 :: byte)" "\<not> (chr_9 :: byte) < 0x30 + of_nat d" "0x30 + of_nat d \<noteq> (0 :: byte)"
    "0x30 + of_nat d \<noteq> (chr_slash :: byte)"
    by auto
qed

lemma ar_digits_decimal: "n < 2 ^ 64 \<Longrightarrow> ar_digits 10 (decimal n @ xs) 0 = ar_digits 10 xs n"
proof (induction n arbitrary: xs rule: decimal.induct)
  case (1 n)
  have d: "n mod 10 < 10" by simp
  show ?case
  proof (cases "n < 10")
    case True
    then show ?thesis using digit [OF True] by (subst decimal.simps) (simp add: Let_def)
  next
    case False
    have "n div 10 < 2 ^ 64" using 1(2) by simp
    then have "ar_digits 10 (decimal n @ xs) 0 = ar_digits 10 ((0x30 + of_nat (n mod 10)) # xs) (n div 10)"
      using 1(1) [OF False] False by (subst decimal.simps) simp
    also have "\<dots> = ar_digits 10 xs n" using digit [OF d] d 1(2) by (simp add: Let_def del: mod_less_divisor)
    finally show ?thesis .
  qed
qed

lemma decimal_hd: "\<exists>d < 10. \<exists>ds. decimal n = (0x30 + of_nat d) # ds"
proof (induction n rule: decimal.induct)
  case (1 n)
  then show ?case by (cases "n < 10") (subst decimal.simps; auto)+
qed

lemma ar_digits_blanks: "ar_digits 10 (replicate k chr_space) n = Some n"
  by (cases k) simp_all

lemma get_number_decimal:
  assumes "bytes_at m s sz = replicate j chr_space @ decimal n @ replicate k chr_space" "n < 2 ^ 64"
  shows "libelf_ar_get_number m s sz 10 = Some (Some n)"
proof -
  obtain d ds where d: "d < 10" "decimal n = (0x30 + of_nat d) # ds" using decimal_hd by blast
  have "dropWhile (\<lambda>c. c = chr_space) (bytes_at m s sz) = decimal n @ replicate k chr_space"
    unfolding assms(1) using d digit(2) [OF d(1)] by (induction j) auto
  then show ?thesis using assms(2) by (simp add: libelf_ar_get_number_def ar_digits_decimal ar_digits_blanks)
qed

lemma malloc_eq:
  "0 < heap_next l \<Longrightarrow> heap_next l + (max n 1 + 15) div 16 * 16 \<le> heap_limit l \<Longrightarrow>
   malloc n l = (heap_next l, l\<lparr>heap_next := heap_next l + (max n 1 + 15) div 16 * 16\<rparr>)"
  by (simp add: malloc_def Let_def)

lemma strncpy_prefix:
  assumes "bytes_at m src n = bs" "0 \<notin> set bs"
  shows "strncpy m dst src n = put_bytes m dst bs"
proof -
  have all: "takeWhile (\<lambda>c. c \<noteq> 0) bs = bs" using assms(2) by (auto simp: takeWhile_eq_all_conv)
  have "length bs = n" using assms(1) by auto
  then show ?thesis by (simp only: strncpy_def Let_def assms(1) all diff_self_eq_0 replicate_0 append_Nil2)
qed

text \<open>A string that is copied and whose last character is overwritten by the null character.\<close>

lemma bytes_at_terminated:
  assumes "length bs = n" "0 < n"
  shows "bytes_at ((put_bytes m r bs)(r + (n - 1) := 0)) r n = butlast bs @ [0]"
  using assms by (intro nth_equalityI) (auto simp: nth_append nth_butlast put_bytes_inside)

lemma dropWhile_blanks:
  assumes "last bs \<noteq> chr_space" "bs \<noteq> []"
  shows "length (dropWhile (\<lambda>c. c = chr_space) (rev (bs @ replicate j chr_space))) = length bs"
proof -
  obtain x xs where "rev bs = x # xs" "x \<noteq> chr_space" using assms by (cases bs rule: rev_cases) auto
  then have "dropWhile (\<lambda>c. c = chr_space) (replicate j chr_space @ rev bs) = rev bs" by (induction j) auto
  then show ?thesis by (simp add: rev_replicate)
qed

lemma get_string_eq:
  assumes "bytes_at (mem l) buf n = bs @ replicate j chr_space" "last bs \<noteq> chr_space" "0 \<notin> set bs"
    and "2 < length bs \<or> length bs = 2 \<and> hd bs \<noteq> chr_slash"
    and "0 < heap_next l" "heap_next l + length bs + 16 \<le> heap_limit l"
  shows "\<exists>l'. libelf_ar_get_string buf n False l = (heap_next l, l') \<and>
    bytes_at (mem l') (heap_next l) (length bs) = butlast bs @ [0]"
proof -
  let ?k = "length bs" and ?l = "l\<lparr>heap_next := heap_next l + (max (length bs) 1 + 15) div 16 * 16\<rparr>"
  have ne: "bs \<noteq> []" using assms(4) by auto
  have len: "n = ?k + j" using arg_cong [OF assms(1), of length] by simp
  have k: "length (dropWhile (\<lambda>c. c = chr_space) (rev (bytes_at (mem l) buf n))) = ?k"
    unfolding assms(1) by (rule dropWhile_blanks [OF assms(2) ne])
  have prefix: "bytes_at (mem l) buf ?k = bs"
    using arg_cong [OF assms(1), of "take ?k"] len by simp
  then have "mem l buf = hd bs" using ne nth_bytes_at [of 0 ?k "mem l" buf] by (cases bs) auto
  moreover have "malloc ?k l = (heap_next l, ?l)" using assms(5,6) ne by (intro malloc_eq) auto
  ultimately have "libelf_ar_get_string buf n False l =
      (heap_next l, set_mem ((strncpy (mem l) (heap_next l) buf ?k)(heap_next l + (?k - 1) := 0)) ?l)"
    using k assms(4,5) ne by (auto simp: libelf_ar_get_string_def Let_def)
  then show ?thesis
    using strncpy_prefix [OF prefix assms(3)] bytes_at_terminated [of bs ?k] ne by (auto simp: set_mem_def)
qed

section \<open>Lemmas on the symbol table\<close>

text \<open>
  A symbol table as archives store it: the number of symbols, the offsets of the members that
  define them, and their names; and the array that the library makes of it.
\<close>

definition be_word :: "nat \<Rightarrow> byte list" where
  "be_word n = [of_nat (n div 16777216), of_nat (n div 65536), of_nat (n div 256), of_nat n]"

definition symtab_offsets :: "(nat \<times> byte list) list \<Rightarrow> byte list" where
  "symtab_offsets syms = concat (map (\<lambda>(off, name). be_word off) syms)"

definition symtab_names :: "(nat \<times> byte list) list \<Rightarrow> byte list" where
  "symtab_names syms = concat (map (\<lambda>(off, name). name @ [0]) syms)"

definition symtab_image :: "(nat \<times> byte list) list \<Rightarrow> byte list" where
  "symtab_image syms = be_word (length syms) @ symtab_offsets syms @ symtab_names syms"

definition arsym_bytes :: "bool \<Rightarrow> nat \<Rightarrow> 64 word \<Rightarrow> addr \<Rightarrow> byte list" where
  "arsym_bytes be off h name = host_bytes be 8 (of_nat off :: 64 word) @ host_bytes be 8 h @
     host_bytes be 8 (of_nat name :: 64 word)"

primrec arsym_array :: "bool \<Rightarrow> addr \<Rightarrow> (nat \<times> byte list) list \<Rightarrow> byte list" where
  "arsym_array be s [] = []"
| "arsym_array be s (entry # syms) =
    arsym_bytes be (fst entry) (fold elf_hash_step (snd entry) 0) s @ arsym_array be (s + length (snd entry) + 1) syms"

lemma length_be_word [simp]: "length (be_word n) = 4"
  by (simp add: be_word_def)

lemma length_arsym_bytes [simp]: "length (arsym_bytes be off h s) = 24"
  by (simp add: arsym_bytes_def)

lemma length_symtab_offsets [simp]: "length (symtab_offsets syms) = 4 * length syms"
  by (induction syms) (auto simp: symtab_offsets_def)

lemma length_arsym_array [simp]: "length (arsym_array be s syms) = 24 * length syms"
  by (induction syms arbitrary: s) auto

lemma symtab_Cons:
  "symtab_offsets (entry # syms) = be_word (fst entry) @ symtab_offsets syms"
  "symtab_names (entry # syms) = snd entry @ 0 # symtab_names syms"
  by (simp_all add: symtab_offsets_def symtab_names_def split: prod.split)

lemma GET_WORD_be_word:
  assumes "bytes_at m p 4 = be_word n" "n < 2 ^ 32"
  shows "GET_WORD m p = n"
proof -
  have b: "m p = of_nat (n div 16777216)" "m (p + 1) = of_nat (n div 65536)" "m (p + 2) = of_nat (n div 256)" "m (p + 3) = of_nat n"
    using nth_bytes_at [of 0 4 m p] nth_bytes_at [of 1 4 m p] nth_bytes_at [of 2 4 m p] nth_bytes_at [of 3 4 m p]
    unfolding assms(1) by (simp_all add: be_word_def)
  have d: "n div 16777216 = n div 256 div 256 div 256" "n div 65536 = n div 256 div 256" by (simp_all flip: div_mult2_eq)
  have "n div 16777216 < 256" using assms(2) by simp
  then have "unat (m p) = n div 256 div 256 div 256" "unat (m (p + 1)) = n div 256 div 256 mod 256"
    "unat (m (p + 2)) = n div 256 mod 256" "unat (m (p + 3)) = n mod 256"
    unfolding b d by (simp_all add: unat_of_nat)
  then show ?thesis by (simp only: GET_WORD_def Let_def div_mult_mod_eq)
qed

lemma ar_skip_name:
  assumes "bytes_at m s (length name + 1) = name @ [0]" "0 \<notin> set name" "s + length name < lim"
  shows "ar_skip m s lim = s + length name + 1"
  using assms
proof (induction name arbitrary: s)
  case Nil
  then show ?case by (subst ar_skip.simps) (simp add: bytes_at_def)
next
  case (Cons c name)
  have "bytes_at m s (1 + (length name + 1)) = [m s] @ bytes_at m (s + 1) (length name + 1)"
    by (simp only: bytes_at_add) (simp add: bytes_at_def)
  with Cons.prems have "m s = c" "bytes_at m (s + 1) (length name + 1) = name @ [0]" by auto
  with Cons show ?case by (subst ar_skip.simps) simp
qed

lemma bytes_at_split:
  assumes "bytes_at m a n = xs @ ys"
  shows "bytes_at m a (length xs) = xs" "bytes_at m (a + length xs) (length ys) = ys"
proof -
  have "n = length xs + length ys" using arg_cong [OF assms, of length] by simp
  then have "bytes_at m a (length xs) @ bytes_at m (a + length xs) (length ys) = xs @ ys"
    using assms by (simp add: bytes_at_add)
  then show "bytes_at m a (length xs) = xs" "bytes_at m (a + length xs) (length ys) = ys" by simp_all
qed

lemma ar_symtab_loop_eq:
  assumes "bytes_at (mem l) p (4 * length syms) = symtab_offsets syms" "bytes_at (mem l) s (lim - s) = symtab_names syms"
    and "p + 4 * length syms \<le> a" "s \<le> lim" "lim \<le> a" "\<forall>(off, name)\<in>set syms. off < 2 ^ 32 \<and> 0 \<notin> set name"
  shows "ar_symtab_loop (length syms) p s lim a l =
    Some (Some (a + 24 * length syms), set_mem (put_bytes (mem l) a (arsym_array (host_be l) s syms)) l)"
  using assms
proof (induction syms arbitrary: p s a l)
  case Nil
  then show ?case by (simp add: set_mem_def)
next
  case (Cons entry syms)
  obtain off name where entry: "entry = (off, name)" by force
  have off: "off < 2 ^ 32" "0 \<notin> set name" using Cons.prems(6) entry by auto
  note offs = bytes_at_split [OF Cons.prems(1) [unfolded symtab_Cons]]
  have g: "GET_WORD (mem l) p = off" using GET_WORD_be_word offs(1) off(1) entry by simp
  have "bytes_at (mem l) s (lim - s) = (name @ [0]) @ symtab_names syms" using Cons.prems(2) entry by (simp add: symtab_Cons)
  note names = bytes_at_split [OF this]
  have len: "lim - s = length name + 1 + length (symtab_names syms)"
    using arg_cong [OF Cons.prems(2), of length] entry by (simp add: symtab_Cons)
  have rest: "lim - (s + length name + 1) = length (symtab_names syms)" using len by simp
  have le: "s + length name + 1 + length (symtab_names syms) \<le> a" using len Cons.prems(4,5) by linarith
  have "bytes_at (mem l) s (length name) = name" "mem l (s + length name) = 0"
    using bytes_at_split [of "mem l" s "length name + 1" name "[0]"] names(1) by (simp_all add: bytes_at_def)
  then have h: "elf_hash (mem l) s = Some (fold elf_hash_step name 0)" using elf_hash_string off(2) by simp
  let ?bs = "arsym_bytes (host_be l) off (fold elf_hash_step name 0) s"
  let ?l = "put_arsym a off (fold elf_hash_step name 0) s l" and ?s = "s + length name + 1"
  have l: "?l = set_mem (put_bytes (mem l) a ?bs) l" by (simp add: put_arsym_def arsym_bytes_def)
  have skip: "ar_skip (mem ?l) s lim = ?s"
    using names(1) len Cons.prems(4,5) off(2) unfolding l by (intro ar_skip_name) (auto simp: set_mem_def)
  have "ar_symtab_loop (length syms) (p + 4) ?s lim (a + 24) ?l =
      Some (Some (a + 24 + 24 * length syms), set_mem (put_bytes (mem ?l) (a + 24) (arsym_array (host_be ?l) ?s syms)) ?l)"
  proof (rule Cons.IH)
    show "bytes_at (mem ?l) (p + 4) (4 * length syms) = symtab_offsets syms"
      using offs(2) Cons.prems(3) unfolding l by (simp add: set_mem_def)
    show "bytes_at (mem ?l) ?s (lim - ?s) = symtab_names syms"
      using names(2) rest le unfolding l by (simp add: set_mem_def)
  qed (use Cons.prems len in auto)
  then show ?case
    using h g skip len Cons.prems(4) entry
    by (simp add: Let_def l set_mem_def put_bytes_append)
qed

lemma takeWhile_upto: "x \<notin> set ys \<Longrightarrow> takeWhile (\<lambda>c. c \<noteq> x) (ys @ x # zs) = ys"
  by (induction ys) auto

lemma get_name_short:
  assumes E: "elfs l e = Some E" "e_kind E = ELF_K_AR" and heap: "0 < heap_next l" "heap_next l + length name + 32 \<le> heap_limit l"
    and name: "name \<noteq> []" "0 \<notin> set name" "chr_slash \<notin> set name"
    and short: "bytes_at (mem l) buf 16 = name @ [chr_slash] @ replicate j chr_space"
  shows "\<exists>l'. libelf_ar_get_name buf 16 e l = Some (heap_next l, l') \<and>
    bytes_at (mem l') (heap_next l) (length name + 1) = name @ [0]"
proof -
  let ?bs = "name @ [chr_slash]"
  have "mem l buf = hd name" using arg_cong [OF short, of "\<lambda>xs. xs ! 0"] name(1) by (simp add: hd_conv_nth nth_append)
  then have "mem l buf \<noteq> chr_slash" using name by (metis hd_in_set)
  then have "libelf_ar_get_name buf 16 e l = Some (libelf_ar_get_string buf 16 False l)" using E by (simp add: libelf_ar_get_name_def)
  moreover have "2 < length ?bs \<or> length ?bs = 2 \<and> hd ?bs \<noteq> chr_slash"
    using name by (cases name) (auto simp: hd_append neq_Nil_conv)
  then have "\<exists>l'. libelf_ar_get_string buf 16 False l = (heap_next l, l') \<and>
      bytes_at (mem l') (heap_next l) (length ?bs) = butlast ?bs @ [0]"
    using short name heap by (intro get_string_eq [where j = j]) auto
  ultimately show ?thesis by auto
qed

lemma get_name_long:
  assumes E: "elfs l e = Some E" "e_kind E = ELF_K_AR" and heap: "0 < heap_next l" "heap_next l + length name + 32 \<le> heap_limit l"
    and name: "0 \<notin> set name" "chr_slash \<notin> set name"
    and long: "bytes_at (mem l) buf 16 = chr_slash # decimal off @ replicate j chr_space" "off < 2 ^ 64"
      "e_rawstrtab E \<noteq> NULL" "off + length name < e_rawstrtabsz E"
      "bytes_at (mem l) (e_rawstrtab E + off) (length name + 1) = name @ [chr_slash]"
  shows "\<exists>l'. libelf_ar_get_name buf 16 e l = Some (heap_next l, l') \<and>
    bytes_at (mem l') (heap_next l) (length name + 1) = name @ [0]"
proof -
  let ?q = "e_rawstrtab E + off" and ?len = "length name + 1"
  have split: "bytes_at (mem l) buf 16 = [chr_slash] @ decimal off @ replicate j chr_space" using long by simp
  note parts = bytes_at_split [OF split]
  have "length (decimal off @ replicate j chr_space) = 15" using arg_cong [OF split, of length] by simp
  then have digits: "bytes_at (mem l) (buf + 1) 15 = replicate 0 chr_space @ decimal off @ replicate j chr_space"
    using parts(2) by simp
  have number: "libelf_ar_get_number (mem l) (buf + 1) 15 10 = Some (Some off)" using get_number_decimal [OF digits] long by simp
  obtain d ds where d: "d < 10" "decimal off = (0x30 + of_nat d) # ds" using decimal_hd by blast
  have "mem l buf = chr_slash" using parts(1) by (simp add: bytes_at_def)
  moreover have "mem l (buf + 1) = 0x30 + of_nat d" using arg_cong [OF digits, of "\<lambda>xs. xs ! 0"] d(2) by simp
  ultimately have first: "mem l buf = chr_slash \<and> mem l (buf + 1) \<ge> chr_0 \<and> mem l (buf + 1) \<le> chr_9"
    using digit(3,4) [OF d(1)] by (simp add: not_less)
  have tail: "e_rawstrtab E + e_rawstrtabsz E - ?q = ?len + (e_rawstrtabsz E - off - ?len)" using long by simp
  have "takeWhile (\<lambda>c. c \<noteq> chr_slash) (bytes_at (mem l) ?q (e_rawstrtab E + e_rawstrtabsz E - ?q)) = name"
    unfolding tail bytes_at_add [of _ _ ?len] long(5) using name(2) by (simp add: takeWhile_upto)
  moreover have "malloc ?len l = (heap_next l, l\<lparr>heap_next := heap_next l + (max ?len 1 + 15) div 16 * 16\<rparr>)"
    using heap by (intro malloc_eq) auto
  moreover have "strncpy (mem l) (heap_next l) ?q ?len = put_bytes (mem l) (heap_next l) (name @ [chr_slash])"
    using long name(1) by (intro strncpy_prefix) auto
  moreover have "bytes_at ((put_bytes (mem l) (heap_next l) (name @ [chr_slash]))(heap_next l + (?len - 1) := 0)) (heap_next l) ?len =
      name @ [0]"
    using bytes_at_terminated [of "name @ [chr_slash]" ?len "mem l" "heap_next l"] by simp
  ultimately show ?thesis
    using E first number long heap(1) by (simp add: libelf_ar_get_name_def Let_def set_mem_def)
qed

section \<open>Properties\<close>

text \<open>
  C36. \<open>elf_hash\<close> returns on every null-terminated name, and the low 32 bits of its result are
  the hash of the System V ABI.
\<close>

theorem elf_hash_abi:
  assumes "bytes_at m s (length name) = name" "0 \<notin> set name" "m (s + length name) = 0"
  shows "\<exists>h. elf_hash m s = Some h \<and> ucast h = fold abi_hash_step name (0 :: 32 word)"
  using elf_hash_string [OF assms] elf_hash_low [of name 0] by simp

theorem elf_hash_abi_witness:
  "\<exists>h. elf_hash (put_bytes (\<lambda>_. 0) 16 [0x6D, 0x61, 0x69, 0x6E]) 16 = Some h \<and> (ucast h :: 32 word) = 0x737FE"
  using elf_hash_abi [of "put_bytes (\<lambda>_. 0) 16 [0x6D, 0x61, 0x69, 0x6E]" 16 "[0x6D, 0x61, 0x69, 0x6E]"]
  by (simp add: abi_hash_step_def Let_def)

text \<open>
  On hosts with a 64-bit \<open>unsigned long\<close> the sum in \<open>elf_hash\<close> can carry out of 32 bits, and the
  carry is never masked: there are names whose hash is no 32-bit number, let alone a 28-bit one.
\<close>

theorem elf_hash_exceeds:
  "elf_hash (put_bytes (\<lambda>_. 0) 16 [0xFF, 0x0F, 0x0F, 0x0F, 0x0F, 0x0F, 0x12]) 16 = Some 0x100000002"
proof -
  let ?bs = "[0xFF, 0x0F, 0x0F, 0x0F, 0x0F, 0x0F, 0x12] :: byte list"
  have "elf_hash (put_bytes (\<lambda>_. 0) 16 ?bs) 16 = Some (fold elf_hash_step ?bs 0)"
  proof (rule elf_hash_string)
    show "bytes_at (put_bytes (\<lambda>_. 0) 16 ?bs) 16 (length ?bs) = ?bs" by (rule bytes_at_put_same) (rule refl)
  qed simp_all
  then show ?thesis by (simp add: elf_hash_step_def Let_def)
qed

text \<open>
  A number field of an archive header, decimal and surrounded by blanks, is read back as the
  number, for all numbers of 64 bits.
\<close>

theorem ar_get_number_decimal:
  assumes "bytes_at m s sz = replicate j chr_space @ decimal n @ replicate k chr_space" "n < 2 ^ 64"
  shows "libelf_ar_get_number m s sz 10 = Some (Some n)"
  using assms by (rule get_number_decimal)

theorem ar_get_number_decimal_witness:
  "libelf_ar_get_number (put_bytes (\<lambda>_. chr_space) 16 [0x34, 0x32]) 16 10 10 = Some (Some 42)"
proof -
  let ?m = "put_bytes (\<lambda>_. chr_space) 16 [0x34, 0x32]"
  have "bytes_at ?m 16 2 = [0x34, 0x32]" by (rule bytes_at_put_same) simp
  moreover have "bytes_at ?m 18 8 = replicate 8 chr_space" by (rule nth_equalityI) simp_all
  ultimately have "bytes_at ?m 16 10 = [0x34, 0x32] @ replicate 8 chr_space"
    using bytes_at_add [of ?m 16 2 8] by simp
  moreover have "decimal 42 = [0x34, 0x32]" by (simp add: decimal.simps)
  ultimately show ?thesis using ar_get_number_decimal [of ?m 16 10 0 42 8] by simp
qed

text \<open>
  C34. The symbol table of an archive is decoded exactly: \<open>elf_getarsym\<close> returns an array with one
  entry for each symbol, in order, with the offset of its member, the hash and the address of its
  name, and a sentinel entry behind; no other memory changes.
\<close>

theorem elf_getarsym_decodes:
  assumes A: "elfs l ar = Some A" "ar \<noteq> NULL" "e_kind A = ELF_K_AR" "e_symtab A = NULL" "e_rawsymtab A \<noteq> NULL"
    and image: "bytes_at (mem l) (e_rawsymtab A) (e_rawsymtabsz A) = symtab_image syms"
    and syms: "syms \<noteq> []" "length syms < 2 ^ 32" "\<forall>(off, name)\<in>set syms. off < 2 ^ 32 \<and> 0 \<notin> set name"
    and heap: "e_rawsymtab A + e_rawsymtabsz A \<le> heap_next l" "heap_next l + 24 * length syms + 48 \<le> heap_limit l"
  shows "\<exists>l'. elf_getarsym ar l = Some ((heap_next l, length syms + 1), l') \<and>
    mem l' = put_bytes (mem l) (heap_next l)
      (arsym_array (host_be l) (e_rawsymtab A + 4 + 4 * length syms) syms @ arsym_bytes (host_be l) 0 (NOT 0) NULL)"
proof -
  let ?n = "length syms" and ?p = "e_rawsymtab A + 4" and ?lim = "e_rawsymtab A + e_rawsymtabsz A"
  let ?l = "l\<lparr>heap_next := heap_next l + (24 * (length syms + 1) + 15) div 16 * 16\<rparr>"
  note parts = bytes_at_split [OF image [unfolded symtab_image_def]]
  note tables = bytes_at_split [OF parts(2)]
  have size: "e_rawsymtabsz A = 4 + 4 * ?n + length (symtab_names syms)"
    using arg_cong [OF image, of length] by (simp add: symtab_image_def)
  have "symtab_names syms \<noteq> []" using syms(1) by (cases syms) (auto simp: symtab_Cons)
  then have names: "0 < length (symtab_names syms)" by simp
  have count: "GET_WORD (mem l) (e_rawsymtab A) = ?n" using GET_WORD_be_word parts(1) syms(2) by simp
  have alloc: "malloc (24 * (?n + 1)) l = (heap_next l, ?l)"
    using heap A(5) malloc_eq [of l "24 * (?n + 1)"] by (simp add: max_def)
  have loop: "ar_symtab_loop ?n ?p (?p + ?n * 4) ?lim (heap_next l) ?l = Some (Some (heap_next l + 24 * ?n),
      set_mem (put_bytes (mem ?l) (heap_next l) (arsym_array (host_be ?l) (?p + ?n * 4) syms)) ?l)"
    using tables size heap syms(3) by (intro ar_symtab_loop_eq) (auto simp: mult.commute)
  have "libelf_ar_process_symtab ar l = Some ((heap_next l, Some (?n + 1)),
      upd_elf ar (\<lambda>E. E\<lparr>e_symtabsz := ?n + 1, e_symtab := heap_next l\<rparr>) (put_arsym (heap_next l + 24 * ?n) 0 (NOT 0) NULL
        (set_mem (put_bytes (mem ?l) (heap_next l) (arsym_array (host_be ?l) (?p + ?n * 4) syms)) ?l)))"
    using A(1,2,5) size names count alloc loop syms(1) heap(1) by (simp add: libelf_ar_process_symtab_def Let_def)
  then show ?thesis
    using A by (simp add: elf_getarsym_def upd_elf_def put_arsym_def arsym_bytes_def set_mem_def put_bytes_append mult.commute)
qed

definition demo_ar :: "Elf" where
  "demo_ar = \<lparr>e_activations = 1, e_arhdr = NULL, e_byteorder = ELFDATANONE, e_class = ELFCLASSNONE,
     e_cmd = ELF_C_READ, e_fd = -1, e_elf_flags = 0, e_kind = ELF_K_AR, e_parent = NULL, e_rawfile = 16, e_rawsize = 200,
     e_elf_version = EV_CURRENT, e_next = 8, e_nchildren = 0, e_rawstrtab = 512, e_rawstrtabsz = 20,
     e_rawsymtab = 256, e_rawsymtabsz = 15, e_symtab = NULL, e_symtabsz = 0, e_ehdr = NULL, e_phdr = NULL,
     e_scn = [], e_nphdr = 0, e_nscn = 0, e_strndx = 0\<rparr>"

definition demo_symtab :: libelf where
  "demo_symtab = (xlate_state (put_bytes (\<lambda>_. 0) 256 (symtab_image [(0x100, [0x61]), (0x200, [])])) [])\<lparr>
     elfs := [64 \<mapsto> demo_ar]\<rparr>"

theorem elf_getarsym_decodes_witness:
  "\<exists>l'. elf_getarsym 64 demo_symtab = Some ((65536, 3), l') \<and> bytes_at (mem l') 65536 24 =
    arsym_bytes False 0x100 0x61 268"
proof -
  let ?syms = "[(0x100, [0x61]), (0x200, [])] :: (nat \<times> byte list) list"
  have len: "length (symtab_image ?syms) = 15" by (simp add: symtab_image_def symtab_Cons) (simp add: symtab_names_def)
  then have "bytes_at (mem demo_symtab) 256 15 = symtab_image ?syms"
    by (simp add: demo_symtab_def xlate_state_def del: bytes_at_put_same) (rule bytes_at_put_same)
  then obtain l' where l': "elf_getarsym 64 demo_symtab = Some ((65536, 3), l')"
      "mem l' = put_bytes (mem demo_symtab) 65536 (arsym_array False 268 ?syms @ arsym_bytes False 0 (NOT 0) NULL)"
    using elf_getarsym_decodes [of demo_symtab 64 demo_ar ?syms]
    by (auto simp: demo_symtab_def xlate_state_def demo_ar_def)
  have "elf_hash_step 0x61 0 = 0x61" by (simp add: elf_hash_step_def)
  then show ?thesis using l' by (simp add: put_bytes_append)
qed

text \<open>
  C35. The name of a member: a short name, stored in the header with a slash behind it, and a long
  name, stored in the string table of the archive and found through the decimal offset in the
  header, are both returned as they were, null-terminated and in memory of their own.
\<close>

theorem ar_get_name_roundtrip:
  assumes E: "elfs l e = Some E" "e_kind E = ELF_K_AR" and heap: "0 < heap_next l" "heap_next l + length name + 32 \<le> heap_limit l"
    and name: "name \<noteq> []" "0 \<notin> set name" "chr_slash \<notin> set name"
    and stored: "bytes_at (mem l) buf 16 = name @ [chr_slash] @ replicate j chr_space \<or>
      (bytes_at (mem l) buf 16 = chr_slash # decimal off @ replicate j chr_space \<and> off < 2 ^ 64 \<and>
       e_rawstrtab E \<noteq> NULL \<and> off + length name < e_rawstrtabsz E \<and>
       bytes_at (mem l) (e_rawstrtab E + off) (length name + 1) = name @ [chr_slash])"
  shows "\<exists>l'. libelf_ar_get_name buf 16 e l = Some (heap_next l, l') \<and>
    bytes_at (mem l') (heap_next l) (length name + 1) = name @ [0]"
  using stored get_name_short [OF E heap name] get_name_long [OF E heap name(2,3)] by blast

definition demo_names :: libelf where
  "demo_names = (xlate_state (put_bytes (put_bytes (\<lambda>_. chr_space) 32 [0x61, 0x2F]) 64 [0x61, 0x2F]) [])\<lparr>elfs := [128 \<mapsto> demo_ar]\<rparr>"

theorem ar_get_name_roundtrip_witness:
  "\<exists>l'. libelf_ar_get_name 32 16 128 demo_names = Some (65536, l') \<and> bytes_at (mem l') 65536 (Suc (Suc 0)) = [0x61, 0]"
proof -
  let ?m = "put_bytes (put_bytes (\<lambda>_. chr_space) 32 [0x61, 0x2F]) 64 [0x61, 0x2F]"
  have "bytes_at ?m 32 2 = [0x61, 0x2F]" by (subst bytes_at_put_disjoint, simp) (rule bytes_at_put_same, simp)
  moreover have "bytes_at ?m 34 14 = replicate 14 chr_space" by (rule nth_equalityI) simp_all
  ultimately have "bytes_at ?m 32 16 = [0x61] @ [chr_slash] @ replicate 14 chr_space"
    using bytes_at_add [of ?m 32 2 14] by simp
  then show ?thesis
    using ar_get_name_roundtrip [of demo_names 128 demo_ar "[0x61]" 32 14]
    by (simp add: demo_names_def xlate_state_def demo_ar_def)
qed

text \<open>
  The last character of a short name is removed whether it is a slash or not: a name without
  the slash, as the archivers of BSD systems store it, loses its last character.
\<close>

theorem ar_get_name_truncates:
  assumes "elfs l e = Some E" "e_kind E = ELF_K_AR" "0 < heap_next l" "heap_next l + length name + 32 \<le> heap_limit l"
    and "bytes_at (mem l) buf 16 = name @ replicate j chr_space" "2 < length name" "last name \<noteq> chr_space"
    and "0 \<notin> set name" "chr_slash \<notin> set name"
  shows "\<exists>l'. libelf_ar_get_name buf 16 e l = Some (heap_next l, l') \<and>
    bytes_at (mem l') (heap_next l) (length name) = butlast name @ [0]"
proof -
  have "mem l buf = hd name" using arg_cong [OF assms(5), of "\<lambda>xs. xs ! 0"] assms(6) by (cases name) auto
  then have "mem l buf \<noteq> chr_slash" using assms(6,9) by (cases name) auto
  then have "libelf_ar_get_name buf 16 e l = Some (libelf_ar_get_string buf 16 False l)"
    using assms(1,2) by (simp add: libelf_ar_get_name_def)
  then show ?thesis using get_string_eq [OF assms(5,7,8)] assms(3,4,6) by auto
qed

theorem ar_get_name_truncates_witness:
  "\<exists>l'. libelf_ar_get_name 32 16 128 (set_mem (put_bytes (\<lambda>_. chr_space) 32 [0x61, 0x2E, 0x6F]) demo_names) = Some (65536, l') \<and>
    bytes_at (mem l') 65536 (Suc (Suc (Suc 0))) = [0x61, 0x2E, 0]"
proof -
  let ?m = "put_bytes (\<lambda>_. chr_space) 32 [0x61, 0x2E, 0x6F]"
  have "bytes_at ?m 32 3 = [0x61, 0x2E, 0x6F]" by (rule bytes_at_put_same) simp
  moreover have "bytes_at ?m 35 13 = replicate 13 chr_space" by (rule nth_equalityI) simp_all
  ultimately have "bytes_at ?m 32 16 = [0x61, 0x2E, 0x6F] @ replicate 13 chr_space"
    using bytes_at_add [of ?m 32 3 13] by simp
  then show ?thesis
    using ar_get_name_truncates [of "set_mem ?m demo_names" 128 demo_ar "[0x61, 0x2E, 0x6F]" 32 13]
    by (simp add: demo_names_def xlate_state_def demo_ar_def set_mem_def)
qed

end
