(* ===== verification/Libelf_Session.thy ===== *)
theory Libelf_Session
  imports Libelf_Keeps Libelf_Archive
begin

text \<open>
  Opening and closing keep the invariant, closing never fails an assertion, and therefore the
  invariant holds after every sequence of calls.
\<close>

section \<open>Release of sections\<close>

lemma release_datas_eq:
  assumes "distinct ds" "\<forall>d\<in>set ds. \<exists>D. datas l d = Some D \<and> (raw \<longrightarrow> d_flags D AND LIBELF_F_DATA_MALLOCED = 0)"
  shows "release_datas raw ds l = Some (l\<lparr>datas := datas l |` (- set ds)\<rparr>)"
  using assms
proof (induction ds arbitrary: l)
  case Nil
  then show ?case by (simp add: restrict_map_def)
next
  case (Cons d ds)
  let ?l = "l\<lparr>datas := (datas l)(d := None)\<rparr>"
  have "release_datas raw (d # ds) l = release_datas raw ds ?l"
    using Cons.prems by (auto simp: libelf_release_data_def)
  also have "\<dots> = Some (?l\<lparr>datas := datas ?l |` (- set ds)\<rparr>)"
    using Cons.prems by (intro Cons.IH) auto
  also have "datas ?l |` (- set ds) = datas l |` (- set (d # ds))"
    by (auto simp: restrict_map_def fun_eq_iff)
  finally show ?case by simp
qed

definition scn_data :: "addr \<Rightarrow> libelf \<Rightarrow> addr set" where
  "scn_data s l = (case scns l s of None \<Rightarrow> {} | Some S \<Rightarrow> set (s_data S @ s_rawdata S))"

text \<open>The state without the section \<open>s\<close> of the object \<open>e\<close> and its data.\<close>

definition drop_scn :: "addr \<Rightarrow> addr \<Rightarrow> libelf \<Rightarrow> libelf" where
  "drop_scn e s l = l\<lparr>elfs := (elfs l)(e := map_option (\<lambda>E. E\<lparr>e_scn := remove1 s (e_scn E)\<rparr>) (elfs l e)),
     scns := (scns l)(s := None), datas := datas l |` (- scn_data s l)\<rparr>"

lemma release_scn_eq:
  assumes inv: "libelf_inv C l" and S: "scns l s = Some S"
  shows "libelf_release_scn s l = Some (drop_scn (s_elf S) s l) \<and> libelf_inv C (drop_scn (s_elf S) s l)"
proof -
  let ?ev = "elf_view l" and ?sv = "scn_view l" and ?dv = "data_view l"
  have ok: "links_ok C (heap_next l) ?ev ?sv ?dv" using inv by (simp add: libelf_inv_def)
  have sv: "?sv s = Some (view_scn S)" using S by (simp add: scn_view_def)
  have scn: "scn_ok ?ev ?dv s (view_scn S)" "0 < s" using links_ok_scnD [OF ok sv] by auto
  obtain E where E: "elfs l (s_elf S) = Some E" "s \<in> set (e_scn E)"
    using scn by (auto simp: scn_ok_def view_scn_def elf_view_def view_elf_def)
  have e: "0 < s_elf S" using links_ok_elfD [OF ok, of "s_elf S"] E by (simp add: elf_view_def)
  have dist: "distinct (s_data S @ s_rawdata S)" using scn by (simp add: scn_ok_def view_scn_def)
  have data: "\<exists>D. datas l d = Some D" if "d \<in> set (s_data S @ s_rawdata S)" for d
    using scn that by (force simp: scn_ok_def view_scn_def data_view_def)
  have raw: "\<exists>D. datas l d = Some D \<and> d_flags D AND LIBELF_F_DATA_MALLOCED = 0" if "d \<in> set (s_rawdata S)" for d
    using scn that by (force simp: scn_ok_def view_scn_def data_view_def view_data_def)
  let ?l1 = "l\<lparr>datas := datas l |` (- set (s_data S))\<rparr>"
  have r1: "release_datas False (s_data S) l = Some ?l1"
    using dist data by (intro release_datas_eq) auto
  have r2: "release_datas True (s_rawdata S) ?l1 = Some (?l1\<lparr>datas := datas ?l1 |` (- set (s_rawdata S))\<rparr>)"
    using dist raw by (intro release_datas_eq) (auto simp: restrict_map_def)
  have both: "datas l |` (- set (s_data S)) |` (- set (s_rawdata S)) = datas l |` (- scn_data s l)"
    using S by (auto simp: scn_data_def restrict_map_def fun_eq_iff)
  have "libelf_release_scn s l = Some (drop_scn (s_elf S) s l)"
    using scn(2) S r1 r2 both e E by (simp add: libelf_release_scn_def drop_scn_def upd_elf_def)
  moreover have "libelf_inv C (drop_scn (s_elf S) s l)"
  proof -
    have ev: "?ev (l_elf (view_scn S)) = Some (view_elf E)" using E by (simp add: elf_view_def view_scn_def)
    have "elf_view (drop_scn (s_elf S) s l) =
        ?ev(l_elf (view_scn S) \<mapsto> (view_elf E)\<lparr>l_scns := remove1 s (l_scns (view_elf E))\<rparr>)"
      using E by (auto simp: fun_eq_iff elf_view_def drop_scn_def view_elf_def view_scn_def)
    moreover have "scn_view (drop_scn (s_elf S) s l) = ?sv(s := None)"
      by (auto simp: fun_eq_iff scn_view_def drop_scn_def)
    moreover have "data_view (drop_scn (s_elf S) s l) = ?dv |` (- set (l_data (view_scn S) @ l_raw (view_scn S)))"
      using S by (auto simp: fun_eq_iff data_view_def drop_scn_def scn_data_def view_scn_def restrict_map_def)
    moreover have "heap_next (drop_scn (s_elf S) s l) = heap_next l" by (simp add: drop_scn_def)
    ultimately show ?thesis
      using links_ok_release_scn [OF ok sv ev] by (simp add: libelf_inv_def)
  qed
  ultimately show ?thesis by blast
qed

text \<open>The state without any of the sections \<open>ss\<close> of the object \<open>e\<close>.\<close>

primrec drop_scns :: "addr \<Rightarrow> addr list \<Rightarrow> libelf \<Rightarrow> libelf" where
  "drop_scns e [] l = l"
| "drop_scns e (s # ss) l = drop_scns e ss (drop_scn e s l)"

lemma release_scns_eq:
  assumes "libelf_inv C l" "elfs l e = Some E" "e_scn E = ss"
  shows "release_scns ss l = Some (drop_scns e ss l) \<and> libelf_inv C (drop_scns e ss l) \<and>
    elfs (drop_scns e ss l) = (elfs l)(e \<mapsto> E\<lparr>e_scn := []\<rparr>)"
  using assms
proof (induction ss arbitrary: l E)
  case Nil
  then show ?case by (simp add: map_upd_triv)
next
  case (Cons s ss)
  have ok: "links_ok C (heap_next l) (elf_view l) (scn_view l) (data_view l)" using Cons.prems by (simp add: libelf_inv_def)
  have "elf_view l e = Some (view_elf E)" using Cons.prems by (simp add: elf_view_def)
  then have "\<exists>y. scn_view l s = Some y \<and> l_elf y = e"
    using links_ok_elfD [OF ok] Cons.prems(3) by (fastforce simp: elf_ok_def view_elf_def)
  then obtain S where S: "scns l s = Some S" "s_elf S = e" by (auto simp: scn_view_def view_scn_def)
  have "elfs (drop_scn e s l) = (elfs l)(e \<mapsto> E\<lparr>e_scn := ss\<rparr>)"
    using Cons.prems by (simp add: drop_scn_def)
  then show ?case
    using release_scn_eq [OF Cons.prems(1) S(1)] S Cons.IH [of "drop_scn e s l" "E\<lparr>e_scn := ss\<rparr>"]
    by (simp add: fun_eq_iff)
qed

section \<open>Closing\<close>

lemma inv_shrink:
  assumes "libelf_inv C l" "\<forall>c\<in>C - C'. \<forall>E. elfs l c = Some E \<longrightarrow> in_use (view_elf E)"
  shows "libelf_inv C' l"
  using assms unfolding libelf_inv_def links_ok_def elf_view_def by blast

text \<open>
  The state after one round of the loop of \<open>elf_end\<close> at \<open>e\<close>: its sections and the object are
  gone and the parent has one child less.
\<close>

definition close_elf :: "addr \<Rightarrow> Elf \<Rightarrow> libelf \<Rightarrow> libelf" where
  "close_elf e E l =
    (let l = drop_scns e (e_scn E) l;
         l = (if e_parent E \<noteq> NULL then upd_elf (e_parent E) (\<lambda>P. P\<lparr>e_nchildren := e_nchildren P - 1\<rparr>) l else l);
         l = (if e_kind E = ELF_K_ELF then l\<lparr>arhdrs := (arhdrs l)(e_arhdr E := None)\<rparr> else l)
     in l\<lparr>elfs := (elfs l)(e := None)\<rparr>)"

lemma close_elf_inv:
  assumes inv: "libelf_inv C l" and E: "elfs l e = Some E" and ar: "e_kind E = ELF_K_AR \<longrightarrow> e_nchildren E \<le> 0"
  shows "libelf_inv (C - {e} \<union> {e_parent E}) (close_elf e E l)"
proof -
  let ?l = "drop_scns e (e_scn E) l" and ?x = "view_elf (E\<lparr>e_scn := []\<rparr>)" and ?p = "e_parent E"
  have drop: "libelf_inv C ?l" "elfs ?l = (elfs l)(e \<mapsto> E\<lparr>e_scn := []\<rparr>)"
    using release_scns_eq [OF inv E refl] by auto
  have ok: "links_ok C (heap_next ?l) (elf_view ?l) (scn_view ?l) (data_view ?l)"
    using drop by (simp add: libelf_inv_def)
  have x: "elf_view ?l e = Some ?x" using drop by (simp add: elf_view_def)
  have null: "elf_view ?l NULL = None" using links_ok_elfD [OF ok] by (metis less_irrefl not_None_eq)
  have p: "l_parent ?x = ?p" by (simp add: view_elf_def)
  let ?ev = "case elf_view ?l ?p of None \<Rightarrow> elf_view ?l
    | Some y \<Rightarrow> (elf_view ?l)(?p \<mapsto> y\<lparr>l_nchildren := l_nchildren y - 1\<rparr>)"
  have "elf_view (close_elf e E l) = ?ev(e := None)"
    using null by (auto simp: fun_eq_iff close_elf_def Let_def elf_view_def upd_elf_def view_elf_def split: option.split)
  moreover have "scn_view (close_elf e E l) = scn_view ?l" "data_view (close_elf e E l) = data_view ?l"
    "heap_next (close_elf e E l) = heap_next ?l"
    by (simp_all add: fun_eq_iff scn_view_def data_view_def close_elf_def Let_def upd_elf_def)
  ultimately show ?thesis
    using links_ok_release_elf [OF ok x _ _ refl] ar unfolding p by (simp add: libelf_inv_def view_elf_def)
qed

lemma elf_end_loop_step:
  assumes inv: "libelf_inv C l" and E: "elfs l e = Some E" "e_activations E = 0" "\<not> (e_kind E = ELF_K_AR \<and> e_nchildren E > 0)"
  shows "elf_end_loop e l = elf_end_loop (e_parent E) (close_elf e E l)"
proof -
  let ?p = "e_parent E"
  have ok: "links_ok C (heap_next l) (elf_view l) (scn_view l) (data_view l)" using inv by (simp add: libelf_inv_def)
  have e: "elf_ok (elf_view l) (scn_view l) e (view_elf E)" "0 < e"
    using links_ok_elfD [OF ok, of e] E by (auto simp: elf_view_def)
  have p: "?p < e \<and> (\<exists>P. elfs l ?p = Some P)" if "?p \<noteq> NULL"
    using e that by (auto simp: elf_ok_def view_elf_def archive_def elf_view_def)
  have drop: "release_scns (e_scn E) l = Some (drop_scns e (e_scn E) l)"
    "elfs (drop_scns e (e_scn E) l) = (elfs l)(e \<mapsto> E\<lparr>e_scn := []\<rparr>)"
    using release_scns_eq [OF inv E(1) refl] by auto
  have "e_kind E \<noteq> ELF_K_NUM" "e_kind E \<noteq> ELF_K_ELF \<Longrightarrow> e_scn E = []" using e by (auto simp: elf_ok_def view_elf_def)
  then show ?thesis
    using e(2) E drop p
    by (subst elf_end_loop.simps) (auto simp: close_elf_def Let_def libelf_release_elf_def upd_elf_def)
qed

lemma elf_end_loop_ok:
  assumes "libelf_inv C l" "C \<subseteq> {e}" "e = NULL \<or> elfs l e \<noteq> None"
  shows "\<exists>l'. elf_end_loop e l = Some (0, l') \<and> libelf_ok l'"
  using assms
proof (induction e arbitrary: l C rule: less_induct)
  case (less e)
  have ok: "links_ok C (heap_next l) (elf_view l) (scn_view l) (data_view l)" using less.prems by (simp add: libelf_inv_def)
  have null: "elfs l NULL = None" using links_ok_elfD [OF ok, of NULL] by (cases "elfs l NULL") (auto simp: elf_view_def)
  show ?case
  proof (cases "elfs l e")
    case None
    then have "libelf_ok l" using less.prems by (intro inv_shrink [OF less.prems(1)]) auto
    then show ?thesis using None less.prems by (subst elf_end_loop.simps) simp
  next
    case (Some E)
    show ?thesis
    proof (cases "e_activations E \<noteq> 0 \<or> e_kind E = ELF_K_AR \<and> e_nchildren E > 0")
      case True
      then have "libelf_ok l"
        using less.prems Some by (intro inv_shrink [OF less.prems(1)]) (auto simp: in_use_def view_elf_def)
      then show ?thesis using Some True null by (subst elf_end_loop.simps) auto
    next
      case False
      have e: "elf_ok (elf_view l) (scn_view l) e (view_elf E)" "0 < e"
        using links_ok_elfD [OF ok, of e] Some by (auto simp: elf_view_def)
      have p: "e_parent E < e" "e_parent E = NULL \<or> elfs l (e_parent E) \<noteq> None"
        using e by (cases "e_parent E = NULL"; force simp: elf_ok_def view_elf_def archive_def elf_view_def)+
      have "elfs (drop_scns e (e_scn E) l) = (elfs l)(e \<mapsto> E\<lparr>e_scn := []\<rparr>)"
        using release_scns_eq [OF less.prems(1) Some refl] by auto
      then have p': "e_parent E = NULL \<or> elfs (close_elf e E l) (e_parent E) \<noteq> None"
        using p by (auto simp: close_elf_def Let_def upd_elf_def)
      have "libelf_inv (C - {e} \<union> {e_parent E}) (close_elf e E l)"
        using close_elf_inv [OF less.prems(1) Some] False by auto
      moreover have "C - {e} \<union> {e_parent E} = {e_parent E}" using less.prems by auto
      ultimately show ?thesis
        using less.IH [OF p(1) _ _ p'] elf_end_loop_step [OF less.prems(1) Some] False by auto
    qed
  qed
qed

lemma elf_end_ok:
  assumes "libelf_ok l" "e = NULL \<or> elfs l e \<noteq> None"
  shows "\<exists>r l'. elf_end e l = Some (r, l') \<and> libelf_ok l'"
proof (cases "e = NULL \<or> (\<forall>E. elfs l e = Some E \<longrightarrow> e_activations E = 0)")
  case True
  then show ?thesis using assms by (auto simp: elf_end_def)
next
  case False
  then obtain E where E: "elfs l e = Some E" "e_activations E \<noteq> 0" and e: "e \<noteq> NULL" by auto
  let ?n = "e_activations E - 1" and ?l = "upd_elf e (\<lambda>E'. E'\<lparr>e_activations := e_activations E - 1\<rparr>) l"
  have ok: "links_ok {} (heap_next l) (elf_view l) (scn_view l) (data_view l)" using assms by (simp add: libelf_inv_def)
  have x: "elf_view l e = Some (view_elf E)" using E by (simp add: elf_view_def)
  have n: "0 \<le> ?n" using links_ok_elfD [OF ok x] E by (auto simp: elf_ok_def view_elf_def)
  have view: "elf_view ?l = (elf_view l)(e \<mapsto> (view_elf E)\<lparr>l_acts := ?n\<rparr>)"
    using E by (auto simp: fun_eq_iff elf_view_def upd_elf_def view_elf_def)
  have "links_ok (if 0 < ?n then {} else {e}) (heap_next l) (elf_view ?l) (scn_view l) (data_view l)"
    unfolding view using links_ok_elfD [OF ok x] n
    by (intro links_ok_upd_elf [OF ok x]) (auto simp: elf_ok_def in_use_def)
  then have inv: "libelf_inv (if 0 < ?n then {} else {e}) ?l" by (simp add: libelf_inv_def)
  show ?thesis
  proof (cases "0 < ?n")
    case True
    then show ?thesis using inv e E by (simp add: elf_end_def Let_def)
  next
    case False
    then have inv': "libelf_inv {e} ?l" using inv by simp
    have "elfs ?l e \<noteq> None" using E by (simp add: upd_elf_def)
    then have "\<exists>l'. elf_end_loop e ?l = Some (0, l') \<and> libelf_ok l'" using elf_end_loop_ok [OF inv' subset_refl] by blast
    then show ?thesis using False n e E by (auto simp: elf_end_def)
  qed
qed

section \<open>Opening\<close>

text \<open>
  The state with one more object than \<open>l0\<close>, and what \<open>elf_memory\<close> and \<open>elf_begin\<close> promise
  about the address they return.
\<close>

definition new_elf :: "libelf \<Rightarrow> Elf_Kind \<Rightarrow> addr \<Rightarrow> libelf \<Rightarrow> bool" where
  "new_elf l0 k e l \<longleftrightarrow> libelf_ok l0 \<and> heap_next l0 \<le> e \<and> e < heap_next l \<and>
     elf_view l = (elf_view l0)(e \<mapsto> \<lparr>l_kind = k, l_acts = 1, l_parent = NULL, l_nchildren = 0, l_scns = []\<rparr>) \<and>
     scn_view l = scn_view l0 \<and> data_view l = data_view l0"

definition opened :: "libelf \<Rightarrow> addr \<Rightarrow> libelf \<Rightarrow> bool" where
  "opened l0 e l \<longleftrightarrow> grown l0 l \<and>
     (e \<noteq> NULL \<longrightarrow> heap_next l0 \<le> e \<and> (\<exists>x. elf_view l e = Some x \<and> l_parent x = NULL))"

lemma opened_NULL [simp]: "opened l0 NULL l = grown l0 l"
  by (simp add: opened_def)

lemma new_elf_same:
  assumes "elf_view l' = elf_view l" "scn_view l' = scn_view l" "data_view l' = data_view l" "heap_next l' = heap_next l"
  shows "new_elf l0 k e l' = new_elf l0 k e l"
  using assms by (simp add: new_elf_def)

lemma new_elf_simps [simp]:
  "new_elf l0 k e (LIBELF_SET_ERROR x n l) = new_elf l0 k e l"
  "(\<And>E. view_elf (f E) = view_elf E) \<Longrightarrow> new_elf l0 k e (upd_elf a f l) = new_elf l0 k e l"
  by (rule new_elf_same; simp add: view_upd_elf_keep)+

lemma new_elf_fresh: "new_elf l0 k e l \<Longrightarrow> elf_view l0 e = None \<and> 0 < e"
  using links_ok_elfD [of "{}" "heap_next l0" "elf_view l0" "scn_view l0" "data_view l0" e]
  by (cases "elf_view l0 e") (auto simp: new_elf_def libelf_inv_def links_ok_def)

lemma new_elf_opened:
  assumes "new_elf l0 k e l" "k \<noteq> ELF_K_NUM"
  shows "opened l0 e l" "grown l0 l"
proof -
  have "libelf_ok l"
    using assms links_ok_new_elf [of "{}" "heap_next l0" "elf_view l0" "scn_view l0" "data_view l0" e "heap_next l"]
    by (auto simp: new_elf_def libelf_inv_def)
  then have "grown l0 l" using assms(1) new_elf_fresh [OF assms(1)] by (auto simp: new_elf_def grown_def)
  then show "opened l0 e l" "grown l0 l" using assms(1) by (auto simp: opened_def new_elf_def)
qed

lemma new_elf_record:
  "new_elf l0 k e l \<Longrightarrow> \<exists>E. elfs l e = Some E \<and> e_kind E = k \<and> e_activations E = 1 \<and> e_parent E = NULL \<and>
     e_nchildren E = 0 \<and> e_scn E = []"
  by (auto simp: new_elf_def elf_view_def view_elf_def fun_eq_iff split: if_splits dest: spec [of _ e])

lemma new_elf_kind:
  assumes "new_elf l0 k e l" "\<And>E. view_elf E = \<lparr>l_kind = k, l_acts = 1, l_parent = NULL, l_nchildren = 0, l_scns = []\<rparr> \<Longrightarrow>
    view_elf (f E) = \<lparr>l_kind = k', l_acts = 1, l_parent = NULL, l_nchildren = 0, l_scns = []\<rparr>"
  shows "new_elf l0 k' e (upd_elf e f l)"
proof -
  obtain E where E: "elfs l e = Some E" using new_elf_record [OF assms(1)] by blast
  have "view_elf E = \<lparr>l_kind = k, l_acts = 1, l_parent = NULL, l_nchildren = 0, l_scns = []\<rparr>"
    using assms(1) E by (auto simp: new_elf_def elf_view_def dest!: fun_cong [of _ _ e])
  from assms(2) [OF this] have "elf_view (upd_elf e f l) =
      (elf_view l)(e \<mapsto> \<lparr>l_kind = k', l_acts = 1, l_parent = NULL, l_nchildren = 0, l_scns = []\<rparr>)"
    using E by (auto simp: elf_view_def upd_elf_def fun_eq_iff)
  then show ?thesis using assms(1) by (simp add: new_elf_def)
qed

lemma allocate_elf_new:
  assumes "libelf_ok l" "libelf_allocate_elf l = (e, l')"
  shows "if e = NULL then grown l l' else new_elf l ELF_K_NONE e l'"
proof -
  obtain a l1 where m: "malloc sizeof_Elf l = (a, l1)" by force
  show ?thesis
  proof (cases "a = NULL")
    case True
    then show ?thesis using assms m grown_malloc [OF m, of l] by (auto simp: libelf_allocate_elf_def)
  next
    case False
    then show ?thesis
      using assms m malloc_fresh [OF m False]
      by (auto simp: libelf_allocate_elf_def new_elf_def elf_view_def scn_view_def data_view_def view_elf_def fun_eq_iff)
  qed
qed

lemma init_elf_new:
  assumes "new_elf l0 ELF_K_NONE e l"
  shows "\<exists>l'. libelf_init_elf e k l = Some l' \<and> new_elf l0 k e l'"
proof -
  let ?f = "\<lambda>E. if k = ELF_K_ELF then E\<lparr>e_kind := k, e_scn := []\<rparr> else E\<lparr>e_kind := k\<rparr>"
  have "new_elf l0 k e (upd_elf e ?f l)" by (rule new_elf_kind [OF assms]) (auto simp: view_elf_def)
  then show ?thesis using new_elf_record [OF assms] by (auto simp: libelf_init_elf_def)
qed

lemma release_new:
  assumes "new_elf l0 k e l"
  shows "\<exists>l'. libelf_release_elf e l = Some l' \<and> grown l0 l'"
proof -
  obtain E where E: "elfs l e = Some E" "e_scn E = []" using new_elf_record [OF assms] by blast
  have "elf_view (l\<lparr>arhdrs := A, elfs := (elfs l)(e := None)\<rparr>) = elf_view l0" for A
    using new_elf_fresh [OF assms] assms by (auto simp: new_elf_def elf_view_def fun_eq_iff split: if_splits)
  moreover have "libelf_ok l0" "heap_next l0 \<le> heap_next l" "scn_view l = scn_view l0" "data_view l = data_view l0"
    using assms by (auto simp: new_elf_def)
  ultimately have "grown l0 (l\<lparr>arhdrs := A, elfs := (elfs l)(e := None)\<rparr>)" for A
    by (auto simp: grown_def libelf_inv_def scn_view_def data_view_def intro: links_ok_heap)
  from this [of "arhdrs l"] this [of "(arhdrs l)(e_arhdr E := None)"] E show ?thesis
    by (auto simp: libelf_release_elf_def)
qed

lemma wp_init_elf:
  assumes "new_elf l0 ELF_K_NONE e l" "\<And>l'. new_elf l0 k e l' \<Longrightarrow> wp (f l') Q"
  shows "wp (libelf_init_elf e k l \<bind> f) Q"
  using init_elf_new [OF assms(1), of k] assms(2) by auto

lemma wp_release_elf:
  assumes "new_elf l0 k e l" "\<And>l'. grown l0 l' \<Longrightarrow> wp (f l') Q"
  shows "wp (libelf_release_elf e l \<bind> f) Q"
  using release_new [OF assms(1)] assms(2) by auto

lemma ar_open_loop_new: "new_elf l0 ELF_K_AR e l \<Longrightarrow> wp (ar_open_loop i e s lim l) (\<lambda>_. new_elf l0 ELF_K_AR e)"
proof (induction i arbitrary: s l)
  case (Suc i)
  have upd: "wp (ar_open_loop i e s' lim l') (\<lambda>_. new_elf l0 ELF_K_AR e)" if "new_elf l0 ELF_K_AR e l'" for s' l'
    using Suc.IH that .
  show ?case
    using Suc.prems unfolding ar_open_loop.simps Let_def by (intro wp_basic wp_lookup upd) auto
qed simp

lemma ar_open_opened:
  assumes "new_elf l0 ELF_K_AR e l"
  shows "wp (libelf_ar_open e l) (opened l0)"
proof -
  have "new_elf l0 ELF_K_AR e (upd_elf e (\<lambda>E. E\<lparr>e_kind := ELF_K_AR, e_nchildren := 0, e_next := -1\<rparr>) l)"
    by (rule new_elf_kind [OF assms]) (auto simp: view_elf_def)
  note loop = ar_open_loop_new [OF this]
  show ?thesis
    unfolding libelf_ar_open_def Let_def
    by (rule wp_basic wp_lookup wp_conseq [OF loop] | (simp add: new_elf_opened; fail) | (rule new_elf_opened; simp))+
qed

lemma elf_memory_opened: "libelf_ok l \<Longrightarrow> wp (elf_memory img sz l) (opened l)"
proof -
  assume ok: "libelf_ok l"
  have new: "new_elf l ELF_K_NONE e l'" if "libelf_allocate_elf l = (e, l')" "e \<noteq> NULL" for e l'
    using allocate_elf_new [OF ok that(1)] that(2) by simp
  have old: "grown l l'" if "libelf_allocate_elf l = (NULL, l')" for l'
    using allocate_elf_new [OF ok that] by simp
  show ?thesis
    unfolding elf_memory_def Let_def
    apply (rule wp_basic wp_prod wp_init_elf [where ?l0.0 = l] wp_release_elf [where ?l0.0 = l] ar_open_opened
        | (simp add: ok new old new_elf_opened; fail) | (simp; fail))+
    done
qed

lemma adopt_member:
  assumes "libelf_ok l" "elf_view l e = Some x" "l_parent x = NULL" "elf_view l p = Some y" "l_kind y = ELF_K_AR" "p < e"
  shows "libelf_ok (upd_elf e (\<lambda>E. E\<lparr>e_parent := p\<rparr>) (upd_elf p (\<lambda>A. A\<lparr>e_nchildren := e_nchildren A + 1\<rparr>) l))"
    (is "libelf_ok ?l")
proof -
  have "elf_view ?l = (elf_view l)(p \<mapsto> y\<lparr>l_nchildren := l_nchildren y + 1\<rparr>, e \<mapsto> x\<lparr>l_parent := p\<rparr>)"
    using assms(2,4,6) by (auto simp: fun_eq_iff elf_view_def upd_elf_def view_elf_def)
  then show ?thesis
    using assms links_ok_adopt [of "{}" "heap_next l" "elf_view l" "scn_view l" "data_view l" e x p y]
    by (simp add: libelf_inv_def)
qed

lemma ar_open_member_ok:
  assumes ok: "libelf_ok l"
  shows "wp (libelf_ar_open_member fd c p l) (\<lambda>_. libelf_ok)"
proof -
  have "libelf_ok (upd_elf e (\<lambda>E. E\<lparr>e_parent := p\<rparr>)
      (upd_elf p (\<lambda>A. A\<lparr>e_nchildren := e_nchildren A + 1\<rparr>) (upd_elf e (\<lambda>E. E\<lparr>e_fd := fd, e_cmd := c\<rparr>) l')))"
    if A: "elfs l p = Some A" "e_kind A = ELF_K_AR" and l': "opened l e l'" "e \<noteq> NULL" for A e l'
  proof -
    have p: "p < heap_next l" using ok A links_ok_elfD by (fastforce simp: libelf_inv_def elf_view_def)
    obtain x y where xy: "elf_view l' e = Some x" "l_parent x = NULL" "elf_view l' p = Some y" "l_kind y = ELF_K_AR"
      using l' A by (force simp: opened_def grown_def elf_view_def view_elf_def)
    have keep: "elf_view (upd_elf e (\<lambda>E. E\<lparr>e_fd := fd, e_cmd := c\<rparr>) l') = elf_view l'"
      by (rule view_upd_elf_keep) (simp add: view_elf_def)
    show ?thesis
      using l' p xy by (intro adopt_member [where x = x and y = y]) (auto simp: keep opened_def grown_def)
  qed
  then show ?thesis
    unfolding libelf_ar_open_member_def Let_def using ok
    by (intro wp_basic wp_lookup wp_conseq [OF elf_memory_opened]) (auto simp: opened_def grown_def)
qed

lemma mmap_grown: "mmap fd l = (a, l') \<Longrightarrow> grown o0 l \<Longrightarrow> grown o0 l'"
  by (auto simp: mmap_def split: option.splits if_splits prod.splits dest: grown_malloc)

lemma elfs_upd_elf: "elfs (upd_elf a f l) e = (if a = e then map_option f (elfs l e) else elfs l e)"
  by (simp add: upd_elf_def)

lemma new_elf_ok: "new_elf l0 k e l \<Longrightarrow> k \<noteq> ELF_K_NUM \<Longrightarrow> libelf_ok l"
  by (blast dest: grown_ok new_elf_opened(2))

lemma open_object_ok:
  assumes ok: "libelf_ok l"
  shows "wp (libelf_open_object fd c l) (\<lambda>_. libelf_ok)"
proof -
  have close: "wp (elf_end e l') (\<lambda>_. libelf_ok)" if "libelf_ok l'" "elfs l' e \<noteq> None" for e l'
    using elf_end_ok [OF that(1), of e] that(2) by auto
  have map: "libelf_ok l'" if "mmap fd l = (a, l')" for a l'
    using mmap_grown [OF that, of l] ok by (auto dest: grown_ok)
  show ?thesis
    unfolding libelf_open_object_def Let_def using ok
    by (intro wp_basic wp_lookup wp_prod wp_conseq [OF elf_memory_opened] wp_conseq [OF close])
      (auto dest!: map simp: opened_def grown_def elfs_upd_elf)
qed

lemma activate_ok:
  assumes "libelf_ok l" "elfs l a = Some A"
  shows "libelf_ok (upd_elf a (\<lambda>A. A\<lparr>e_activations := e_activations A + 1\<rparr>) l)"
proof -
  have x: "elf_view l a = Some (view_elf A)" using assms by (simp add: elf_view_def)
  have ok: "links_ok {} (heap_next l) (elf_view l) (scn_view l) (data_view l)" using assms by (simp add: libelf_inv_def)
  have "elf_view (upd_elf a (\<lambda>A. A\<lparr>e_activations := e_activations A + 1\<rparr>) l) =
      (elf_view l)(a \<mapsto> (view_elf A)\<lparr>l_acts := l_acts (view_elf A) + 1\<rparr>)"
    using assms by (auto simp: fun_eq_iff elf_view_def upd_elf_def view_elf_def)
  moreover have "links_ok {} (heap_next l) ((elf_view l)(a \<mapsto> (view_elf A)\<lparr>l_acts := l_acts (view_elf A) + 1\<rparr>))
      (scn_view l) (data_view l)"
    using links_ok_elfD [OF ok x] by (intro links_ok_upd_elf [OF ok x]) (auto simp: elf_ok_def in_use_def)
  ultimately show ?thesis by (simp add: libelf_inv_def)
qed

lemma begin_read_ok: "libelf_ok l \<Longrightarrow> wp (elf_begin_read fd c a l) (\<lambda>_. libelf_ok)"
  unfolding elf_begin_read_def
  by (rule wp_basic wp_lookup open_object_ok ar_open_member_ok activate_ok | simp)+

lemma begin_write_ok:
  assumes "libelf_ok l" "\<And>l E. view_elf (f l E) = view_elf E"
  shows "wp (case libelf_allocate_elf l of (e, l) \<Rightarrow> if e = NULL then Some (NULL, l)
    else do { l \<leftarrow> libelf_init_elf e ELF_K_ELF l; Some (e, upd_elf e (f l) l) }) (\<lambda>_. libelf_ok)"
proof (rule wp_prod)
  fix e l1 assume "libelf_allocate_elf l = (e, l1)"
  from allocate_elf_new [OF assms(1) this]
  show "wp (if e = NULL then Some (NULL, l1)
    else do { l \<leftarrow> libelf_init_elf e ELF_K_ELF l1; Some (e, upd_elf e (f l) l) }) (\<lambda>_. libelf_ok)"
    using assms(2)
    by (auto intro!: wp_init_elf [where ?l0.0 = l] dest: grown_ok new_elf_ok split: if_splits)
qed

lemma elf_begin_ok: "libelf_ok l \<Longrightarrow> wp (elf_begin fd c a l) (\<lambda>_. libelf_ok)"
  unfolding elf_begin_def Let_def
  by (rule wp_if, simp, cases c; simp add: begin_read_ok begin_write_ok wp_if wp_option)

section \<open>Remaining operations\<close>

lemma elf_next_ok: "libelf_ok l \<Longrightarrow> wp (elf_next e l) (\<lambda>_. libelf_ok)"
  unfolding elf_next_def Let_def by (rule wp_basic wp_lookup | simp)+

lemma elf_rand_ok: "libelf_ok l \<Longrightarrow> wp (elf_rand e i l) (\<lambda>_. libelf_ok)"
  unfolding elf_rand_def Let_def by (rule wp_basic wp_lookup | simp)+

lemma elf_cntl_ok: "libelf_ok l \<Longrightarrow> wp (elf_cntl e c l) (\<lambda>_. libelf_ok)"
  unfolding elf_cntl_def by (rule wp_basic wp_lookup | simp)+

lemma elf_flagarhdr_ok: "libelf_ok l \<Longrightarrow> wp (elf_flagarhdr a c f l) (\<lambda>_. libelf_ok)"
  unfolding elf_flagarhdr_def Let_def by (rule wp_basic wp_lookup | simp)+

lemma view_elf_archive [simp]:
  "view_elf (E\<lparr>e_arhdr := a\<rparr>) = view_elf E" "view_elf (E\<lparr>e_symtab := a\<rparr>) = view_elf E"
  "view_elf (E\<lparr>e_symtabsz := n\<rparr>) = view_elf E"
  by (simp_all add: view_elf_def)

lemma malloc_ok: "malloc n l = (a, l') \<Longrightarrow> libelf_ok l \<Longrightarrow> libelf_ok l'"
  by (rule malloc_keeps)

lemma ar_get_string_ok: "libelf_ok l \<Longrightarrow> libelf_ar_get_string buf n raw l = (r, l') \<Longrightarrow> libelf_ok l'"
  by (auto simp: libelf_ar_get_string_def Let_def split: prod.splits if_splits dest: malloc_ok)

lemma wp_string: "libelf_ok l \<Longrightarrow> wp (Some (libelf_ar_get_string buf n raw l)) (\<lambda>_. libelf_ok)"
  by (auto simp: wp_def dest: ar_get_string_ok)

lemma ar_get_name_ok: "libelf_ok l \<Longrightarrow> wp (libelf_ar_get_name buf n e l) (\<lambda>_. libelf_ok)"
  unfolding libelf_ar_get_name_def Let_def
  by (rule wp_basic wp_string wp_lookup wp_prod | (simp add: malloc_ok; fail))+

lemma ar_gethdr_members_ok: "libelf_ok l \<Longrightarrow> wp (ar_gethdr_members a p l) (\<lambda>_. libelf_ok)"
  unfolding ar_gethdr_members_def Let_def
  by (rule wp_basic wp_conseq [OF ar_get_name_ok] wp_lookup wp_prod | simp add: ar_get_string_ok)+

lemma elf_getarhdr_ok: "libelf_ok l \<Longrightarrow> wp (elf_getarhdr e l) (\<lambda>_. libelf_ok)"
  unfolding elf_getarhdr_def libelf_ar_gethdr_def Let_def
  by (rule wp_basic wp_conseq [OF ar_gethdr_members_ok] wp_lookup wp_prod | simp add: malloc_ok)+

lemma put_arsym_ok [simp]: "libelf_ok (put_arsym a off h s l) = libelf_ok l"
  by (simp add: put_arsym_def)

lemma ar_symtab_loop_ok: "libelf_ok l \<Longrightarrow> wp (ar_symtab_loop n p s lim a l) (\<lambda>_. libelf_ok)"
  by (induction n arbitrary: p s a l) (simp_all add: Let_def wp_if wp_lookup)

lemma elf_getarsym_ok: "libelf_ok l \<Longrightarrow> wp (elf_getarsym e l) (\<lambda>_. libelf_ok)"
  unfolding elf_getarsym_def libelf_ar_process_symtab_def Let_def
  by (rule wp_basic wp_conseq [OF ar_symtab_loop_ok] wp_lookup wp_prod | simp add: malloc_ok)+

lemma elf_version_ok: "libelf_ok l \<Longrightarrow> libelf_ok (snd (elf_version v l))"
  by (simp add: elf_version_def Let_def)

lemma elf_errno_ok: "libelf_ok l \<Longrightarrow> libelf_ok (snd (elf_errno l))"
  by (simp add: elf_errno_def)

lemma elf_fill_ok: "libelf_ok l \<Longrightarrow> libelf_ok (elf_fill c l)"
  by (simp add: elf_fill_def)

lemma elf_end_wp: "libelf_ok l \<Longrightarrow> wp (elf_end e l) (\<lambda>_. libelf_ok)"
  using elf_end_ok [of l e] by (cases "e = NULL \<or> elfs l e \<noteq> None") (auto simp: elf_end_def)

end
