(* ===== verification/Libelf_Update_Keeps.thy ===== *)
theory Libelf_Update_Keeps
  imports Libelf_Update Libelf_Session
begin

text \<open>
  \<open>elf_update\<close> keeps the invariant of the descriptors when it succeeds.
\<close>

section \<open>Layout\<close>

lemma grown_fsize_call [simp]: "grown o0 (snd (fsize_call t ec v c l)) = grown o0 l"
  by (simp add: fsize_call_def case_prod_beta)

lemma wp_fsize_call:
  "grown o0 l \<Longrightarrow> (\<And>n l'. grown o0 l' \<Longrightarrow> wp (f n l') Q) \<Longrightarrow> wp (case fsize_call t ec v c l of (n, l) \<Rightarrow> f n l) Q"
  by (metis case_prod_beta grown_fsize_call)

lemma wp_fsize_or:
  "grown o0 l \<Longrightarrow> (\<And>n l'. grown o0 l' \<Longrightarrow> wp (f n l') Q) \<Longrightarrow>
     wp (case (if b then fsize_call t ec v c l else (k, l)) of (n, l) \<Rightarrow> f n l) Q"
  by (cases b) (simp_all add: wp_fsize_call)

lemma grown_put_extent [simp]: "grown o0 (put_extent ec s a b c d l) = grown o0 l"
  by (simp add: put_extent_def)

lemma layout_data_wp: "grown o0 l \<Longrightarrow> wp (layout_data lay a ds n l) (\<lambda>_. grown o0)"
proof (induction ds arbitrary: n l)
  case (Cons d ds)
  show ?case unfolding layout_data.simps Let_def
    by (rule wp_basic wp_lookup Cons.IH | simp add: Cons.prems)+
qed simp

lemma wp_layout_data: "grown o0 l \<Longrightarrow> (\<And>r l'. grown o0 l' \<Longrightarrow> Q r l') \<Longrightarrow> wp (layout_data lay a ds n l) Q"
  by (rule wp_conseq [OF layout_data_wp])

lemma wp_sum: "(\<And>a. x = Inl a \<Longrightarrow> wp (f a) Q) \<Longrightarrow> (\<And>b. x = Inr b \<Longrightarrow> wp (g b) Q) \<Longrightarrow> wp (case x of Inl a \<Rightarrow> f a | Inr b \<Rightarrow> g b) Q"
  by (cases x) simp_all

lemma compute_extents_wp: "grown o0 l \<Longrightarrow> wp (libelf_compute_section_extents e s rc l) (\<lambda>_. grown o0)"
  unfolding libelf_compute_section_extents_def Let_def
  by (rule wp_basic wp_lookup wp_sum wp_layout_data wp_fsize_or wp_prod | simp)+

lemma extents_loop_wp: "grown o0 l \<Longrightarrow> wp (extents_loop e ss rc l) (\<lambda>_. grown o0)"
proof (induction ss arbitrary: rc l)
  case (Cons s ss)
  show ?case unfolding extents_loop.simps
    by (rule wp_bind, rule wp_conseq [OF compute_extents_wp [OF Cons.prems]]) (auto intro: Cons.IH)
qed simp

section \<open>Order of sections\<close>

lemma links_ok_permute:
  assumes ok: "links_ok C h ev sv dv" and old: "ev e = Some x" and xs: "distinct xs" "set xs = set (l_scns x)"
  shows "links_ok C h (ev(e \<mapsto> x\<lparr>l_scns := xs\<rparr>)) sv dv"
proof -
  let ?ev = "ev(e \<mapsto> x\<lparr>l_scns := xs\<rparr>)"
  have ch: "children ?ev a = children ev a" for a using old by (intro children_upd) simp_all
  have ar: "archive ?ev a = archive ev a" for a using old by (auto simp: archive_def)
  have "elf_ok ?ev sv a y" if "?ev a = Some y" for a y
  proof (cases "a = e")
    case True
    then show ?thesis using that links_ok_elfD [OF ok old] xs ch ar by (auto simp: elf_ok_def)
  next
    case False
    then show ?thesis using that links_ok_elfD [OF ok] ch ar by (simp add: elf_ok_def)
  qed
  moreover have "scn_ok ?ev dv s y" if "sv s = Some y" for s y
    using links_ok_scnD [OF ok that] old xs(2) by (auto simp: scn_ok_def)
  moreover have "in_use y" if "?ev a = Some y" "a \<notin> C" for a y
    using that ok old by (auto simp: links_ok_def in_use_def split: if_splits)
  ultimately show ?thesis using ok links_ok_elfD [OF ok old] by (auto simp: links_ok_def below_def)
qed

lemma grown_permute:
  assumes g: "grown o0 l" and E: "elfs l e = Some E" and xs: "distinct xs" "set xs = set (e_scn E)"
  shows "grown o0 (l\<lparr>elfs := (elfs l)(e \<mapsto> E\<lparr>e_scn := xs\<rparr>)\<rparr>)"
proof -
  let ?l = "l\<lparr>elfs := (elfs l)(e \<mapsto> E\<lparr>e_scn := xs\<rparr>)\<rparr>"
  have v: "elf_view ?l = (elf_view l)(e \<mapsto> (view_elf E)\<lparr>l_scns := xs\<rparr>)" "scn_view ?l = scn_view l" "data_view ?l = data_view l"
    by (auto simp: fun_eq_iff elf_view_def scn_view_def data_view_def view_elf_def)
  have e: "elf_view l e = Some (view_elf E)" using E by (simp add: elf_view_def)
  have "libelf_ok ?l" using g e xs links_ok_permute [of _ _ "elf_view l" _ _ e "view_elf E" xs]
    by (simp add: grown_def libelf_inv_def v view_elf_def)
  moreover have "\<exists>x'. elf_view ?l a = Some x' \<and> l_kind x' = l_kind x" if "elf_view o0 a = Some x" for a x
    using g that e by (fastforce simp: grown_def v)
  ultimately show ?thesis using g by (simp add: grown_def v)
qed

lemma insert_after_mem: "insert_after smin smax p ts l = Some (Some q) \<Longrightarrow> q = p \<or> q \<in> set ts"
  by (induction ts arbitrary: p) (auto simp: bind_eq_Some_conv split: if_splits)

lemma stailq_insert_after_perm:
  "p \<in> set xs \<Longrightarrow> set (stailq_insert_after p s xs) = insert s (set xs)"
  "distinct xs \<Longrightarrow> s \<notin> set xs \<Longrightarrow> distinct (stailq_insert_after p s xs) \<and> set (stailq_insert_after p s xs) \<subseteq> insert s (set xs)"
  by (induction xs) auto

text \<open>A section that has been taken out of the list and inserted again\<close>

lemma reinsert_grown:
  assumes g: "grown o0 l" and E: "elfs l e = Some E" "s \<in> set (e_scn E)"
    and run: "libelf_insert_section e s (upd_elf e (\<lambda>E. E\<lparr>e_scn := remove1 s (e_scn E)\<rparr>) l) = Some (True, l')"
  shows "grown o0 l'"
proof -
  let ?l = "upd_elf e (\<lambda>E. E\<lparr>e_scn := remove1 s (e_scn E)\<rparr>) l" and ?xs = "remove1 s (e_scn E)"
  have "elf_view l e = Some (view_elf E)" using E by (simp add: elf_view_def)
  then have d: "distinct (e_scn E)"
    using g links_ok_elfD [of "{}" "heap_next l" "elf_view l" "scn_view l" "data_view l" e]
    by (auto simp: grown_def libelf_inv_def elf_ok_def view_elf_def)
  have El: "elfs ?l e = Some (E\<lparr>e_scn := ?xs\<rparr>)" using E by (simp add: upd_elf_def)
  obtain lo hi p where p: "insert_after lo hi NULL ?xs ?l = Some (Some p)"
      "l' = upd_elf e (\<lambda>E. E\<lparr>e_scn := (if p \<noteq> NULL then stailq_insert_after p s (e_scn E) else s # e_scn E)\<rparr>) ?l"
    using run El by (fastforce simp: libelf_insert_section_def bind_eq_Some_conv Let_def split: option.splits)
  define ys where "ys = (if p \<noteq> NULL then stailq_insert_after p s ?xs else s # ?xs)"
  have "p \<noteq> NULL \<Longrightarrow> p \<in> set ?xs" using insert_after_mem [OF p(1)] by blast
  then have "distinct ys \<and> set ys = set (e_scn E)"
    using d E(2) stailq_insert_after_perm(1) [of p ?xs s] stailq_insert_after_perm(2) [of ?xs s p] by (auto simp: ys_def)
  moreover have "l' = l\<lparr>elfs := (elfs l)(e \<mapsto> E\<lparr>e_scn := ys\<rparr>)\<rparr>"
    using E(1) by (simp add: p(2) upd_elf_def ys_def)
  ultimately show ?thesis using grown_permute [OF g E(1)] by blast
qed

lemma wp_reinsert:
  assumes g: "grown o0 l" and E: "elfs l e = Some E" "\<not> s \<notin> set (e_scn E)" and Q: "\<And>ok l'. (ok \<longrightarrow> grown o0 l') \<Longrightarrow> Q ok l'"
  shows "wp (libelf_insert_section e s (upd_elf e (\<lambda>E. E\<lparr>e_scn := remove1 s (e_scn E)\<rparr>) l)) Q"
proof -
  have "ok \<longrightarrow> grown o0 l'"
    if "libelf_insert_section e s (upd_elf e (\<lambda>E. E\<lparr>e_scn := remove1 s (e_scn E)\<rparr>) l) = Some (ok, l')" for ok l'
    using that reinsert_grown [OF g E(1)] E(2) by (cases ok) auto
  then show ?thesis using Q by (simp add: wp_def)
qed

abbreviation found_grown :: "libelf \<Rightarrow> 'a option \<Rightarrow> libelf \<Rightarrow> bool" where
  "found_grown o0 \<equiv> \<lambda>r l. r \<noteq> None \<longrightarrow> grown o0 l"

lemma wp_found: "(\<And>y. x = Some y \<Longrightarrow> grown o0 l \<longrightarrow> fst y \<noteq> None \<longrightarrow> grown o0 (snd y)) \<Longrightarrow> grown o0 l \<Longrightarrow> wp x (found_grown o0)"
  by (auto simp: wp_def)

lemma sort_loop_wp: "grown o0 l \<Longrightarrow> wp (sort_loop e ec s rc l) (found_grown o0)"
proof (rule wp_found)
  fix y
  assume "sort_loop e ec s rc l = Some y"
  then show "grown o0 l \<longrightarrow> fst y \<noteq> None \<longrightarrow> grown o0 (snd y)"
  proof (rule sort_loop.raw_induct [where P = "\<lambda>e ec s rc l y. grown o0 l \<longrightarrow> fst y \<noteq> None \<longrightarrow> grown o0 (snd y)", rotated])
    fix f e ec s rc l y
    assume IH: "\<And>e ec s rc l y. f e ec s rc l = Some y \<Longrightarrow> grown o0 l \<longrightarrow> fst y \<noteq> None \<longrightarrow> grown o0 (snd y)"
      and body: "(if s = NULL then Some (Some rc, l)
        else elfs l e \<bind> (\<lambda>E. scns l s \<bind> (\<lambda>S.
          let ts = stailq_next s (e_scn E); type = fst (extent_members ec s l)
          in if type = SHT_NOBITS \<or> type = SHT_NULL then f e ec ts rc l
          else if s_offset S < rc then
            if u64 (s_offset S + s_size S) < rc then
              if s \<notin> set (e_scn E) then None
              else libelf_insert_section e s (upd_elf e (\<lambda>E. E\<lparr>e_scn := remove1 s (e_scn E)\<rparr>) l) \<bind>
                (\<lambda>(ok, l). if \<not> ok then Some (None, l) else f e ec ts rc l)
            else Some (None, LIBELF_SET_ERROR ELF_E_LAYOUT 0 l)
          else f e ec ts (u64 (s_offset S + s_size S)) l))) = Some y" (is "?b = _")
    note rec = wp_found [OF IH]
    have "wp ?b (found_grown o0)" if g: "grown o0 l"
      unfolding Let_def by (rule wp_basic rec wp_lookup wp_reinsert [OF g] | simp add: g)+
    then show "grown o0 l \<longrightarrow> fst y \<noteq> None \<longrightarrow> grown o0 (snd y)" using body by (cases y) (auto simp: wp_def)
  qed
qed simp

section \<open>Resynchronisation\<close>

text \<open>The postcondition of a function that returns a negative number after an error\<close>

abbreviation size_grown :: "libelf \<Rightarrow> nat \<Rightarrow> libelf \<Rightarrow> bool" where
  "size_grown o0 \<equiv> \<lambda>r l. \<not> off_neg r \<longrightarrow> grown o0 l"

lemma off_neg_minus_1 [simp]: "off_neg OFF_MINUS_1"
  by (simp add: off_neg_def off_t_def)

lemma wp_extents_loop: "grown o0 l \<Longrightarrow> (\<And>r l'. grown o0 l' \<Longrightarrow> Q r l') \<Longrightarrow> wp (extents_loop e ss rc l) Q"
  by (rule wp_conseq [OF extents_loop_wp])

lemma wp_sort_loop: "grown o0 l \<Longrightarrow> (\<And>r l'. found_grown o0 r l' \<Longrightarrow> Q r l') \<Longrightarrow> wp (sort_loop e ec s rc l) Q"
  by (rule wp_conseq [OF sort_loop_wp])

lemma wp_map_option: "(\<And>c. x = Some c \<Longrightarrow> Q c l) \<Longrightarrow> wp (map_option (\<lambda>c. (c, l)) x) Q"
  by (auto simp: wp_def)

lemma wp_prod_app: "(\<And>a b. t = (a, b) \<Longrightarrow> wp (f a b l) Q) \<Longrightarrow> wp ((case t of (a, b) \<Rightarrow> f a b) l) Q"
  by (cases t) simp

lemma resync_sections_wp: "grown o0 l \<Longrightarrow> wp (libelf_resync_sections e rc l) (size_grown o0)"
  unfolding libelf_resync_sections_def Let_def
  by (rule wp_basic wp_lookup wp_extents_loop [where ?o0.0 = o0] wp_sort_loop [where ?o0.0 = o0]
      wp_fsize_call [where ?o0.0 = o0] wp_map_option wp_prod_app wp_prod | (drule spec, erule (1) mp) | simp)+

lemma setshnum_wp: "grown o0 l \<Longrightarrow> is_elf o0 e \<Longrightarrow> wp (libelf_setshnum e eh ec n l) (\<lambda>_. grown o0)"
  unfolding libelf_setshnum_def elf_flagshdr_def Let_def
  by (rule wp_basic wp_getscn0 [where ?o0.0 = o0] wp_flags [where ?o0.0 = o0] wp_lookup wp_prod_app wp_prod | simp)+

lemma setphnum_wp: "grown o0 l \<Longrightarrow> is_elf o0 e \<Longrightarrow> wp (libelf_setphnum e eh ec n l) (\<lambda>_. grown o0)"
  unfolding libelf_setphnum_def elf_flagshdr_def Let_def
  by (rule wp_basic wp_getscn0 [where ?o0.0 = o0] wp_flags [where ?o0.0 = o0] wp_lookup wp_prod_app wp_prod | simp)+

lemma wp_setnum:
  "grown o0 l \<Longrightarrow> is_elf o0 e \<Longrightarrow> (\<And>r l'. grown o0 l' \<Longrightarrow> Q r l') \<Longrightarrow> wp (libelf_setphnum e eh ec n l) Q"
  "grown o0 l \<Longrightarrow> is_elf o0 e \<Longrightarrow> (\<And>r l'. grown o0 l' \<Longrightarrow> Q r l') \<Longrightarrow> wp (libelf_setshnum e eh ec n l) Q"
  by (blast intro: wp_conseq [OF setphnum_wp] wp_conseq [OF setshnum_wp])+

lemma layout_tables_wp:
  "grown o0 l \<Longrightarrow> wp (layout_phdrs lay ec v n off rc l) (\<lambda>_. grown o0)"
  "grown o0 l \<Longrightarrow> wp (layout_shdrs lay ec v n off rc l) (\<lambda>_. grown o0)"
  unfolding layout_phdrs_def layout_shdrs_def Let_def
  by (rule wp_basic wp_fsize_call [where ?o0.0 = o0] | simp)+

lemma wp_layout_tables:
  "grown o0 l \<Longrightarrow> (\<And>r l'. grown o0 l' \<Longrightarrow> Q r l') \<Longrightarrow> wp (layout_phdrs lay ec v n off rc l) Q"
  "grown o0 l \<Longrightarrow> (\<And>r l'. grown o0 l' \<Longrightarrow> Q r l') \<Longrightarrow> wp (layout_shdrs lay ec v n off rc l) Q"
  by (blast intro: wp_conseq [OF layout_tables_wp(1)] wp_conseq [OF layout_tables_wp(2)])+

lemma wp_resync_sections:
  "grown o0 l \<Longrightarrow> (\<And>r l'. size_grown o0 r l' \<Longrightarrow> Q r l') \<Longrightarrow> wp (libelf_resync_sections e rc l) Q"
  by (rule wp_conseq [OF resync_sections_wp])

lemma resync_finish_wp: "grown o0 l \<Longrightarrow> is_elf o0 e \<Longrightarrow> wp (resync_finish e eh ec pn sn po so rc l) (\<lambda>_. grown o0)"
  unfolding resync_finish_def
  by (rule wp_basic wp_setnum [where ?o0.0 = o0] wp_lookup | simp)+

lemma wp_resync_finish:
  "grown o0 l \<Longrightarrow> is_elf o0 e \<Longrightarrow> (\<And>r l'. grown o0 l' \<Longrightarrow> Q r l') \<Longrightarrow> wp (resync_finish e eh ec pn sn po so rc l) Q"
  by (rule wp_conseq [OF resync_finish_wp])

lemma resync_layout_wp: "grown o0 l \<Longrightarrow> is_elf o0 e \<Longrightarrow> wp (resync_layout e eh ec v pn sn po so l) (size_grown o0)"
  unfolding resync_layout_def Let_def
  by (rule wp_basic wp_sum wp_fsize_call [where ?o0.0 = o0] wp_layout_tables [where ?o0.0 = o0] wp_ensure_shdrs [where ?o0.0 = o0]
      wp_resync_sections [where ?o0.0 = o0] wp_resync_finish [where ?o0.0 = o0] wp_lookup wp_prod_app wp_prod | simp)+

lemma grown_INITIALIZE_EHDR [simp]: "grown o0 (INITIALIZE_EHDR ehdr ec v n l) = grown o0 l"
  by (simp add: INITIALIZE_EHDR_def Let_def case_prod_beta)

lemma resync_elf_wp: "grown o0 l \<Longrightarrow> is_elf o0 e \<Longrightarrow> wp (libelf_resync_elf e l) (size_grown o0)"
  unfolding libelf_resync_elf_def elf_flagehdr_def Let_def
  by (rule wp_basic wp_ehdr [where ?o0.0 = o0] wp_flags [where ?o0.0 = o0] resync_layout_wp wp_lookup wp_prod_app wp_prod | simp)+

section \<open>Writing\<close>

text \<open>What \<open>_libelf_xlate\<close> does not touch\<close>

definition xlate_keeps_links :: "addr \<Rightarrow> libelf \<Rightarrow> libelf \<Rightarrow> bool" where
  "xlate_keeps_links dst l l' \<longleftrightarrow> elfs l' = elfs l \<and> scns l' = scns l \<and> heap_next l' = heap_next l \<and>
     (\<forall>d. d \<noteq> dst \<longrightarrow> datas l' d = datas l d)"

lemma xlate_keeps_links_simps [simp]:
  "xlate_keeps_links dst l l" "xlate_keeps_links dst l (LIBELF_SET_ERROR x n l') = xlate_keeps_links dst l l'"
  "xlate_keeps_links dst l (set_error_option err l') = xlate_keeps_links dst l l'"
  "xlate_keeps_links dst l (set_mem m l') = xlate_keeps_links dst l l'"
  "xlate_keeps_links dst l l' \<Longrightarrow> xlate_keeps_links dst l (upd_data dst f l')"
  by (simp_all add: xlate_keeps_links_def LIBELF_SET_ERROR_def set_error_option_def set_mem_def upd_data_def split: option.split)

lemma xlate_frame: "wp (libelf_xlate dst src enc ec dr l) (\<lambda>_. xlate_keeps_links dst l)"
  unfolding libelf_xlate_def libelf_xlate_objects_def Let_def
  by (rule wp_basic wp_lookup wp_prod | simp)+

lemma with_autos_wp:
  assumes g: "grown o0 l" and d: "vars dst \<noteq> None"
  shows "wp (with_autos vars (libelf_xlate dst src enc ec dr) l) (\<lambda>_. grown o0)"
proof -
  let ?l = "l\<lparr>datas := datas l ++ vars\<rparr>"
  have "grown o0 (l'\<lparr>datas := (\<lambda>d. if vars d = None then datas l' d else datas l d)\<rparr>)"
    if k: "xlate_keeps_links dst ?l l'" for l'
  proof -
    have "datas (l'\<lparr>datas := (\<lambda>d. if vars d = None then datas l' d else datas l d)\<rparr>) = datas l"
    proof (rule ext, cases)
      fix x assume "vars x = None"
      then show "datas (l'\<lparr>datas := (\<lambda>d. if vars d = None then datas l' d else datas l d)\<rparr>) x = datas l x"
        using k d by (cases "x = dst") (simp_all add: xlate_keeps_links_def map_add_def)
    qed auto
    with k g show ?thesis
      by (subst grown_same [of _ l]) (auto simp: xlate_keeps_links_def elf_view_def scn_view_def data_view_def)
  qed
  then show ?thesis unfolding with_autos_def
    by (intro wp_bind wp_conseq [OF xlate_frame]) simp
qed

lemma xlate_header_wp: "grown o0 l \<Longrightarrow> wp (xlate_header E db dn sb sn t l) (\<lambda>_. grown o0)"
  unfolding xlate_header_def by (intro wp_bind wp_conseq [OF with_autos_wp]) simp_all

lemma wp_xlate_header: "grown o0 l \<Longrightarrow> (\<And>r l'. grown o0 l' \<Longrightarrow> Q r l') \<Longrightarrow> wp (xlate_header E db dn sb sn t l) Q"
  by (rule wp_conseq [OF xlate_header_wp])

lemma wp_with_autos:
  "grown o0 l \<Longrightarrow> (\<And>r l'. grown o0 l' \<Longrightarrow> Q r l') \<Longrightarrow> vars dst \<noteq> None \<Longrightarrow> wp (with_autos vars (libelf_xlate dst src enc ec dr) l) Q"
  by (rule wp_conseq [OF with_autos_wp])

lemma grown_fill_gap [simp]: "grown o0 (fill_gap nf rc off l) = grown o0 l"
  by (simp add: fill_gap_def)

lemma write_rawdata_wp: "grown o0 l \<Longrightarrow> wp (write_rawdata E S nf ds rc l) (\<lambda>_. grown o0)"
proof (induction ds arbitrary: rc l)
  case (Cons d ds)
  show ?case unfolding write_rawdata.simps Let_def by (rule wp_basic wp_lookup Cons.IH | simp add: Cons.prems)+
qed simp

lemma write_data_wp: "grown o0 l \<Longrightarrow> wp (write_data E S nf ds rc l) (\<lambda>_. grown o0)"
proof (induction ds arbitrary: rc l)
  case (Cons d ds)
  show ?case unfolding write_data.simps Let_def
    by (rule wp_basic wp_fsize_call [where ?o0.0 = o0] wp_with_autos [where ?o0.0 = o0] Cons.IH wp_lookup wp_prod_app wp_prod
        | simp add: Cons.prems)+
qed simp

lemmas wp_rawdata = wp_grown [OF _ rawdata_grown]

lemma write_scn_wp: "grown o0 l \<Longrightarrow> wp (libelf_write_scn e nf s rc l) (\<lambda>_. grown o0)"
  unfolding libelf_write_scn_def Let_def
  by (rule wp_basic wp_rawdata [where ?o0.0 = o0] write_rawdata_wp write_data_wp wp_lookup wp_prod_app wp_prod | simp)+

lemma write_scns_wp: "grown o0 l \<Longrightarrow> wp (write_scns e nf ss rc l) (\<lambda>_. grown o0)"
proof (induction ss arbitrary: rc l)
  case (Cons s ss)
  show ?case unfolding write_scns.simps
    by (rule wp_basic wp_conseq [OF write_scn_wp [where ?o0.0 = o0]] Cons.IH | simp add: Cons.prems)+
qed simp

lemma write_shdrs_wp: "grown o0 l \<Longrightarrow> wp (write_shdrs E nf rc fsz msz ss l) (\<lambda>_. grown o0)"
proof (induction ss arbitrary: l)
  case (Cons s ss)
  show ?case unfolding write_shdrs.simps
    by (rule wp_basic wp_lookup wp_xlate_header [where ?o0.0 = o0] Cons.IH | simp add: Cons.prems)+
qed simp

lemma write_headers_wp:
  "grown o0 l \<Longrightarrow> wp (write_ehdr E nf ehdr l) (\<lambda>_. grown o0)"
  "grown o0 l \<Longrightarrow> wp (write_phdrs e E nf phoff rc l) (\<lambda>_. grown o0)"
  "grown o0 l \<Longrightarrow> wp (write_shtab E nf n off rc l) (\<lambda>_. grown o0)"
  unfolding write_ehdr_def write_phdrs_def write_shtab_def Let_def
  by (rule wp_basic wp_fsize_call [where ?o0.0 = o0] wp_xlate_header [where ?o0.0 = o0] wp_getphdr [where ?o0.0 = o0]
      wp_conseq [OF write_shdrs_wp [where ?o0.0 = o0]] wp_lookup wp_prod_app wp_prod | simp)+

lemma write_image_wp: "grown o0 l \<Longrightarrow> wp (write_image e nf l) (\<lambda>_. grown o0)"
  unfolding write_image_def Let_def
  by (rule wp_basic wp_ehdr [where ?o0.0 = o0] wp_conseq [OF write_headers_wp(1) [where ?o0.0 = o0]]
      wp_conseq [OF write_headers_wp(2) [where ?o0.0 = o0]] wp_conseq [OF write_scns_wp [where ?o0.0 = o0]]
      write_headers_wp(3) wp_lookup wp_prod_app wp_prod | simp)+

text \<open>The descriptors after a file has been written: the sections are gone.\<close>

lemma write_release_wp:
  assumes "libelf_ok l" "elfs l e = Some E"
  shows "wp (write_release e rc l) (\<lambda>_. libelf_ok)"
proof -
  let ?f = "\<lambda>E. E\<lparr>e_elf_flags := e_elf_flags E AND NOT ELF_F_DIRTY\<rparr>" and ?l = "upd_elf e (\<lambda>E. E\<lparr>e_elf_flags := e_elf_flags E AND NOT ELF_F_DIRTY\<rparr>) l"
  have l: "libelf_ok ?l" "elfs ?l e = Some (?f E)" using assms by (simp_all add: elfs_upd_elf)
  show ?thesis
    using l release_scns_eq [OF l refl] by (simp add: write_release_def Let_def)
qed

lemma wp_write_release:
  "grown o0 l \<Longrightarrow> is_elf o0 e \<Longrightarrow> wp (write_release e rc l) (\<lambda>_. libelf_ok)"
  using grown_elf [of o0 l e] write_release_wp [of l e] grown_ok [of o0 l] by (auto simp: is_elf_def elf_view_def)

lemma grown_files [simp]: "grown o0 (l\<lparr>files := fs\<rparr>) = grown o0 l"
  by (rule grown_same) (simp_all add: elf_view_def scn_view_def data_view_def)

lemma write_file_grown: "write_file fd bs l = Some l' \<Longrightarrow> grown o0 l \<Longrightarrow> grown o0 l'"
  by (auto simp: write_file_def split: option.splits)

lemma wp_write_file:
  "grown o0 l \<Longrightarrow> wp x Q \<Longrightarrow> (\<And>l'. grown o0 l' \<Longrightarrow> wp (f l') Q) \<Longrightarrow> wp (case write_file fd bs l of None \<Rightarrow> x | Some l' \<Rightarrow> f l') Q"
  by (cases "write_file fd bs l") (auto dest: write_file_grown)

lemma wp_mmap: "grown o0 l \<Longrightarrow> (\<And>a l'. grown o0 l' \<Longrightarrow> wp (f a l') Q) \<Longrightarrow> wp (case mmap fd l of (a, l) \<Rightarrow> f a l) Q"
  by (cases "mmap fd l") (auto dest: mmap_grown)

lemma write_elf_wp: "grown o0 l \<Longrightarrow> is_elf o0 e \<Longrightarrow> wp (libelf_write_elf e n l) (\<lambda>_. libelf_ok)"
  unfolding libelf_write_elf_def Let_def
  by (rule wp_Some wp_None wp_bind wp_if wp_write_file [where ?o0.0 = o0] wp_option wp_malloc [where ?o0.0 = o0] wp_mmap [where ?o0.0 = o0]
      wp_conseq [OF write_image_wp [where ?o0.0 = o0]] wp_write_release [where ?o0.0 = o0] wp_lookup wp_prod_app wp_prod
      | simp add: grown_ok)+

text \<open>
  A call that returns a size keeps the invariant.
\<close>

lemma elf_update_wp:
  assumes "libelf_ok l"
  shows "wp (elf_update e c l) (\<lambda>r l'. 0 \<le> r \<longrightarrow> libelf_ok l')"
proof (cases "elfs l e")
  case (Some E)
  show ?thesis
  proof (cases "e_kind E = ELF_K_ELF")
    case True
    then have e: "is_elf l e" using Some by (simp add: is_elf_def elf_view_def view_elf_def)
    show ?thesis unfolding elf_update_def Let_def
      by (rule wp_Some wp_bind wp_if wp_conseq [OF resync_elf_wp [OF _ e]] wp_conseq [OF write_elf_wp [OF _ e]] wp_lookup
          | simp add: assms; fail | auto simp: off_neg_def dest: grown_ok)+
  qed (use Some assms in \<open>simp add: elf_update_def\<close>)
qed (use assms in \<open>simp add: elf_update_def\<close>)

end
