(* ===== verification/Libelf_Api.thy ===== *)
theory Libelf_Api
  imports Libelf_Update_Keeps
begin

text \<open>
  The library as a state machine: the calls of its interface, the states a program can bring
  it to, and the invariant in all of them.
\<close>

section \<open>Calls\<close>

text \<open>
  The functions of \<open>libelf.h\<close> and \<open>gelf.h\<close> that change the state, with their arguments.  A call
  that fails an assertion or uses a descriptor that does not exist has no next state.
\<close>

datatype flag_target = Flag_elf | Flag_ehdr | Flag_phdr | Flag_scn | Flag_shdr | Flag_data | Flag_arhdr

datatype entry_kind = Entry_sym | Entry_rel | Entry_rela | Entry_dyn | Entry_move | Entry_cap | Entry_syminfo

datatype (plugins only: size code) call =
    Elf_version nat
  | Elf_errno
  | Elf_fill int
  | Elf_begin int Elf_Cmd addr
  | Elf_memory addr nat
  | Elf_end addr
  | Elf_cntl addr Elf_Cmd
  | Elf_next addr
  | Elf_rand addr int
  | Elf_getarhdr addr
  | Elf_getarsym addr
  | Elf_flag flag_target addr Elf_Cmd flags
  | Elf_getehdr bool addr
  | Elf_newehdr bool addr
  | Elf_getphdr bool addr
  | Elf_newphdr bool addr nat
  | Elf_getshdr bool addr
  | Elf_getscn addr nat
  | Elf_newscn addr
  | Elf_nextscn addr addr
  | Elf_setshstrndx addr nat
  | Elf_getdata addr addr
  | Elf_rawdata addr addr
  | Elf_newdata addr
  | Elf_strptr addr nat nat
  | Elf_checksum bool addr
  | Elf_xlate bool direction addr addr nat
  | Gelf_getehdr addr addr
  | Gelf_update_ehdr addr addr
  | Gelf_getphdr addr int addr
  | Gelf_update_phdr addr int addr
  | Gelf_getshdr addr addr
  | Gelf_update_shdr addr addr
  | Gelf_get entry_kind addr int addr
  | Gelf_update entry_kind addr int addr
  | Gelf_getsymshndx addr addr int addr addr
  | Gelf_update_symshndx addr addr int addr "32 word"

abbreviation state_of :: "('a \<times> libelf) option \<Rightarrow> libelf option" where
  "state_of \<equiv> map_option snd"

definition flag_call :: "flag_target \<Rightarrow> addr \<Rightarrow> Elf_Cmd \<Rightarrow> flags \<Rightarrow> libelf \<Rightarrow> (flags \<times> libelf) option" where
  "flag_call t = (case t of
     Flag_elf \<Rightarrow> elf_flagelf | Flag_ehdr \<Rightarrow> elf_flagehdr | Flag_phdr \<Rightarrow> elf_flagphdr
   | Flag_scn \<Rightarrow> elf_flagscn | Flag_shdr \<Rightarrow> elf_flagshdr | Flag_data \<Rightarrow> elf_flagdata
   | Flag_arhdr \<Rightarrow> elf_flagarhdr)"

definition get_call :: "entry_kind \<Rightarrow> addr \<Rightarrow> int \<Rightarrow> addr \<Rightarrow> libelf \<Rightarrow> (addr \<times> libelf) option" where
  "get_call k = (case k of
     Entry_sym \<Rightarrow> gelf_getsym | Entry_rel \<Rightarrow> gelf_getrel | Entry_rela \<Rightarrow> gelf_getrela
   | Entry_dyn \<Rightarrow> gelf_getdyn | Entry_move \<Rightarrow> gelf_getmove | Entry_cap \<Rightarrow> gelf_getcap
   | Entry_syminfo \<Rightarrow> gelf_getsyminfo)"

definition update_call :: "entry_kind \<Rightarrow> addr \<Rightarrow> int \<Rightarrow> addr \<Rightarrow> libelf \<Rightarrow> (bool \<times> libelf) option" where
  "update_call k = (case k of
     Entry_sym \<Rightarrow> gelf_update_sym | Entry_rel \<Rightarrow> gelf_update_rel | Entry_rela \<Rightarrow> gelf_update_rela
   | Entry_dyn \<Rightarrow> gelf_update_dyn | Entry_move \<Rightarrow> gelf_update_move | Entry_cap \<Rightarrow> gelf_update_cap
   | Entry_syminfo \<Rightarrow> gelf_update_syminfo)"

primrec exec :: "call \<Rightarrow> libelf \<Rightarrow> libelf option" where
  "exec (Elf_version v) l = Some (snd (elf_version v l))"
| "exec Elf_errno l = Some (snd (elf_errno l))"
| "exec (Elf_fill c) l = Some (elf_fill c l)"
| "exec (Elf_begin fd c a) l = state_of (elf_begin fd c a l)"
| "exec (Elf_memory img n) l = state_of (elf_memory img n l)"
| "exec (Elf_end e) l = state_of (elf_end e l)"
| "exec (Elf_cntl e c) l = state_of (elf_cntl e c l)"
| "exec (Elf_next e) l = state_of (elf_next e l)"
| "exec (Elf_rand e i) l = state_of (elf_rand e i l)"
| "exec (Elf_getarhdr e) l = state_of (elf_getarhdr e l)"
| "exec (Elf_getarsym e) l = state_of (elf_getarsym e l)"
| "exec (Elf_flag t a c f) l = state_of (flag_call t a c f l)"
| "exec (Elf_getehdr w e) l = state_of ((if w then elf64_getehdr else elf32_getehdr) e l)"
| "exec (Elf_newehdr w e) l = state_of ((if w then elf64_newehdr else elf32_newehdr) e l)"
| "exec (Elf_getphdr w e) l = state_of ((if w then elf64_getphdr else elf32_getphdr) e l)"
| "exec (Elf_newphdr w e n) l = state_of ((if w then elf64_newphdr else elf32_newphdr) e n l)"
| "exec (Elf_getshdr w s) l = state_of ((if w then elf64_getshdr else elf32_getshdr) s l)"
| "exec (Elf_getscn e n) l = state_of (elf_getscn e n l)"
| "exec (Elf_newscn e) l = state_of (elf_newscn e l)"
| "exec (Elf_nextscn e s) l = state_of (elf_nextscn e s l)"
| "exec (Elf_setshstrndx e n) l = state_of (elf_setshstrndx e n l)"
| "exec (Elf_getdata s d) l = state_of (elf_getdata s d l)"
| "exec (Elf_rawdata s d) l = state_of (elf_rawdata s d l)"
| "exec (Elf_newdata s) l = state_of (elf_newdata s l)"
| "exec (Elf_strptr e n i) l = state_of (elf_strptr e n i l)"
| "exec (Elf_checksum w e) l = state_of ((if w then elf64_checksum else elf32_checksum) e l)"
| "exec (Elf_xlate w dr dst src enc) l =
    state_of ((case dr of ELF_TOFILE \<Rightarrow> (if w then elf64_xlatetof else elf32_xlatetof)
      | ELF_TOMEMORY \<Rightarrow> (if w then elf64_xlatetom else elf32_xlatetom)) dst src enc l)"
| "exec (Gelf_getehdr e d) l = state_of (gelf_getehdr e d l)"
| "exec (Gelf_update_ehdr e s) l = state_of (gelf_update_ehdr e s l)"
| "exec (Gelf_getphdr e i d) l = state_of (gelf_getphdr e i d l)"
| "exec (Gelf_update_phdr e i s) l = state_of (gelf_update_phdr e i s l)"
| "exec (Gelf_getshdr s d) l = state_of (gelf_getshdr s d l)"
| "exec (Gelf_update_shdr s h) l = state_of (gelf_update_shdr s h l)"
| "exec (Gelf_get k d i dst) l = state_of (get_call k d i dst l)"
| "exec (Gelf_update k d i src) l = state_of (update_call k d i src l)"
| "exec (Gelf_getsymshndx d x i dst sh) l = state_of (gelf_getsymshndx d x i dst sh l)"
| "exec (Gelf_update_symshndx d x i gs sh) l = state_of (gelf_update_symshndx d x i gs sh l)"

section \<open>Every call keeps the invariant\<close>

lemma state_of_ok: "wp x (\<lambda>_. libelf_ok) \<Longrightarrow> state_of x = Some l' \<Longrightarrow> libelf_ok l'"
  by (auto simp: wp_def)

lemma state_of_grown: "wp x (\<lambda>_. grown l) \<Longrightarrow> state_of x = Some l' \<Longrightarrow> libelf_ok l'"
  by (auto simp: wp_def dest: grown_ok)

lemma flag_call_ok: "libelf_ok l \<Longrightarrow> state_of (flag_call t a c f l) = Some l' \<Longrightarrow> libelf_ok l'"
  by (cases t)
    (simp_all add: flag_call_def elf_flagehdr_def elf_flagphdr_def elf_flagshdr_def del: map_option_eq_Some,
      (blast intro: state_of_grown state_of_ok flagelf_grown flaghdr_grown flagscn_grown flagdata_grown elf_flagarhdr_ok)+)

lemma get_call_ok: "libelf_ok l \<Longrightarrow> state_of (get_call k d i dst l) = Some l' \<Longrightarrow> libelf_ok l'"
  by (cases k)
    (simp_all add: get_call_def gelf_getsym_def gelf_getrel_def gelf_getrela_def gelf_getdyn_def gelf_getmove_def
      gelf_getcap_def gelf_getsyminfo_def del: map_option_eq_Some, (blast intro: state_of_grown gelf_get_grown)+)

lemma update_call_ok: "libelf_ok l \<Longrightarrow> state_of (update_call k d i src l) = Some l' \<Longrightarrow> libelf_ok l'"
  by (cases k)
    (simp_all add: update_call_def gelf_update_sym_def gelf_update_rel_def gelf_update_rela_def gelf_update_dyn_def
      gelf_update_move_def gelf_update_cap_def gelf_update_syminfo_def del: map_option_eq_Some,
      (blast intro: state_of_grown gelf_update_grown)+)

lemma elf_memory_ok: "libelf_ok l \<Longrightarrow> wp (elf_memory img n l) (\<lambda>_. libelf_ok)"
  by (rule wp_conseq [OF elf_memory_opened]) (auto simp: opened_def dest: grown_ok)

lemmas session_defs =
  elf32_getehdr_def elf64_getehdr_def elf32_newehdr_def elf64_newehdr_def elf32_getphdr_def elf64_getphdr_def
  elf32_newphdr_def elf64_newphdr_def elf32_getshdr_def elf64_getshdr_def elf32_checksum_def elf64_checksum_def
  elf32_xlatetof_def elf64_xlatetof_def elf32_xlatetom_def elf64_xlatetom_def

lemmas session_keeps =
  elf_begin_ok [THEN state_of_ok] elf_memory_ok [THEN state_of_ok] elf_end_wp [THEN state_of_ok] elf_cntl_ok [THEN state_of_ok]
  elf_next_ok [THEN state_of_ok] elf_rand_ok [THEN state_of_ok] elf_getarhdr_ok [THEN state_of_ok]
  elf_getarsym_ok [THEN state_of_ok]
  ehdr_grown [THEN state_of_grown] getphdr_grown [THEN state_of_grown] newphdr_grown [THEN state_of_grown]
  getshdr_grown [THEN state_of_grown] getscn_grown [THEN state_of_grown] newscn_grown [THEN state_of_grown]
  nextscn_grown [THEN state_of_grown] setshstrndx_grown [THEN state_of_grown] getdata_grown [THEN state_of_grown]
  rawdata_grown [THEN state_of_grown] newdata_grown [THEN state_of_grown] strptr_grown [THEN state_of_grown]
  checksum_grown [THEN state_of_grown] xlate_grown [THEN state_of_grown] getehdr_grown [THEN state_of_grown]
  update_ehdr_grown [THEN state_of_grown] gelf_getphdr_grown [THEN state_of_grown]
  update_phdr_grown [THEN state_of_grown] gelf_getshdr_grown [THEN state_of_grown]
  update_shdr_grown [THEN state_of_grown] getsymshndx_grown [THEN state_of_grown]
  update_symshndx_grown [THEN state_of_grown] flag_call_ok get_call_ok update_call_ok

text \<open>Both classes of a function.\<close>

lemma class_keeps:
  assumes ok: "libelf_ok l"
  shows "state_of ((if w then elf64_getehdr else elf32_getehdr) e l) = Some l' \<Longrightarrow> libelf_ok l'"
    "state_of ((if w then elf64_newehdr else elf32_newehdr) e l) = Some l' \<Longrightarrow> libelf_ok l'"
    "state_of ((if w then elf64_getphdr else elf32_getphdr) e l) = Some l' \<Longrightarrow> libelf_ok l'"
    "state_of ((if w then elf64_newphdr else elf32_newphdr) e n l) = Some l' \<Longrightarrow> libelf_ok l'"
    "state_of ((if w then elf64_getshdr else elf32_getshdr) s l) = Some l' \<Longrightarrow> libelf_ok l'"
    "state_of ((if w then elf64_checksum else elf32_checksum) e l) = Some l' \<Longrightarrow> libelf_ok l'"
  by (cases w; simp only: session_defs if_True if_False; erule session_keeps [OF ok])+

lemma xlate_keeps:
  assumes ok: "libelf_ok l"
  shows "state_of ((case dr of ELF_TOFILE \<Rightarrow> (if w then elf64_xlatetof else elf32_xlatetof)
      | ELF_TOMEMORY \<Rightarrow> (if w then elf64_xlatetom else elf32_xlatetom)) dst src enc l) = Some l' \<Longrightarrow> libelf_ok l'"
  by (cases w; cases dr; simp only: session_defs if_True if_False direction.case; erule session_keeps [OF ok])

lemma exec_ok:
  assumes ok: "libelf_ok l" and c: "exec c l = Some l'"
  shows "libelf_ok l'"
proof -
  note globals = elf_version_ok [OF ok] elf_errno_ok [OF ok] elf_fill_ok [OF ok]
  show ?thesis
    using c
    by (cases c) (hypsubst_thin, unfold exec.simps,
      (drule option.inject [THEN iffD1], hypsubst, rule globals | erule session_keeps [OF ok] class_keeps [OF ok] xlate_keeps [OF ok]))+
qed

section \<open>Sessions\<close>

text \<open>
  The state of a process that has not called the library yet.
\<close>

definition start :: "libelf \<Rightarrow> bool" where
  "start l \<longleftrightarrow> libelf_version l = EV_NONE \<and> elfs l = Map.empty \<and> scns l = Map.empty \<and> datas l = Map.empty \<and>
     arhdrs l = Map.empty \<and> 0 < heap_next l"

text \<open>
  The states that a program can bring the library to: by calls, by writing to memory and by
  setting the public members of data descriptors.  The environment may change files.  Calls of
  \<open>elf_update\<close> count when they succeed: after an overlap of sections it leaves a section without
  its object.
\<close>

inductive reachable :: "libelf \<Rightarrow> bool" where
  start: "start l \<Longrightarrow> reachable l"
| call: "reachable l \<Longrightarrow> exec c l = Some l' \<Longrightarrow> reachable l'"
| update: "reachable l \<Longrightarrow> elf_update e c l = Some (r, l') \<Longrightarrow> 0 \<le> r \<Longrightarrow> reachable l'"
| write_memory: "reachable l \<Longrightarrow> reachable (set_mem m l)"
| set_data: "reachable l \<Longrightarrow> reachable (upd_data d (\<lambda>D. D\<lparr>d_align := a, d_buf := b, d_off := off, d_size := n,
    d_type := t, d_version := v\<rparr>) l)"
| write_files: "reachable l \<Longrightarrow> reachable (l\<lparr>files := fs\<rparr>)"

lemma start_ok: "start l \<Longrightarrow> libelf_ok l"
  by (simp add: start_def libelf_inv_def links_ok_def below_def elf_view_def scn_view_def data_view_def)

lemma reachable_libelf_ok: "reachable l \<Longrightarrow> libelf_ok l"
proof (induction rule: reachable.induct)
  case (update l e c r l')
  then show ?case using elf_update_wp [of l e c] by (simp add: wp_def)
qed (auto intro: start_ok exec_ok)

text \<open>A sequence of calls, for examples.\<close>

primrec run :: "call list \<Rightarrow> libelf \<Rightarrow> libelf option" where
  "run [] l = Some l"
| "run (c # cs) l = exec c l \<bind> run cs"

lemma run_reachable: "run cs l = Some l' \<Longrightarrow> reachable l \<Longrightarrow> reachable l'"
  by (induction cs arbitrary: l) (auto simp: bind_eq_Some_conv intro: reachable.call)

end
