(* ===== verification/Libelf_Lifecycle.thy ===== *)
theory Libelf_Lifecycle
  imports Libelf_Api
begin

text \<open>
  The life of descriptors: what the invariant means to a program that uses the library, what
  closing releases and when, and what opening accepts.
\<close>

section \<open>Effect of closing\<close>

lemma drop_scn_fields [simp]:
  "scns (drop_scn e s l) = (scns l)(s := None)" "datas (drop_scn e s l) = datas l |` (- scn_data s l)"
  "mem (drop_scn e s l) = mem l" "arhdrs (drop_scn e s l) = arhdrs l"
  by (simp_all add: drop_scn_def)

lemma scn_data_drop: "s' \<noteq> s \<Longrightarrow> scn_data s' (drop_scn e s l) = scn_data s' l"
  by (simp add: scn_data_def)

lemma drop_scns_fields:
  "distinct ss \<Longrightarrow> scns (drop_scns e ss l) = scns l |` (- set ss) \<and>
   datas (drop_scns e ss l) = datas l |` (- (\<Union>s\<in>set ss. scn_data s l)) \<and> mem (drop_scns e ss l) = mem l"
proof (induction ss arbitrary: l)
  case Nil
  then show ?case by (simp add: restrict_map_def)
next
  case (Cons s ss)
  have "(\<Union>s'\<in>set ss. scn_data s' (drop_scn e s l)) = (\<Union>s'\<in>set ss. scn_data s' l)"
    using Cons.prems by (intro SUP_cong refl scn_data_drop) auto
  then show ?case using Cons by (auto simp: restrict_map_def fun_eq_iff)
qed

lemma elf_end_last:
  assumes "libelf_ok l" "elfs l e = Some E" "e_activations E = 1"
  shows "elf_end e l = elf_end_loop e (upd_elf e (\<lambda>E. E\<lparr>e_activations := 0\<rparr>) l)"
    and "libelf_inv {e} (upd_elf e (\<lambda>E. E\<lparr>e_activations := 0\<rparr>) l)"
proof -
  have ok: "links_ok {} (heap_next l) (elf_view l) (scn_view l) (data_view l)" using assms by (simp add: libelf_inv_def)
  have x: "elf_view l e = Some (view_elf E)" using assms by (simp add: elf_view_def)
  have "0 < e" using links_ok_elfD [OF ok x] by simp
  then show "elf_end e l = elf_end_loop e (upd_elf e (\<lambda>E. E\<lparr>e_activations := 0\<rparr>) l)"
    using assms by (simp add: elf_end_def)
  have "elf_view (upd_elf e (\<lambda>E. E\<lparr>e_activations := 0\<rparr>) l) = (elf_view l)(e \<mapsto> (view_elf E)\<lparr>l_acts := 0\<rparr>)"
    using assms by (auto simp: fun_eq_iff elf_view_def upd_elf_def view_elf_def)
  moreover have "links_ok {e} (heap_next l) ((elf_view l)(e \<mapsto> (view_elf E)\<lparr>l_acts := 0\<rparr>)) (scn_view l) (data_view l)"
    using links_ok_elfD [OF ok x] by (intro links_ok_upd_elf [OF ok x]) (auto simp: elf_ok_def)
  ultimately show "libelf_inv {e} (upd_elf e (\<lambda>E. E\<lparr>e_activations := 0\<rparr>) l)" by (simp add: libelf_inv_def)
qed

lemma ok_elf_record:
  assumes "libelf_ok l" "elfs l e = Some E"
  shows "0 < e" "distinct (e_scn E)" "e_kind E \<noteq> ELF_K_NUM" "0 \<le> e_activations E"
    "e_kind E \<noteq> ELF_K_ELF \<longrightarrow> e_scn E = []"
    "e_parent E \<noteq> NULL \<longrightarrow> e_parent E < e \<and> (\<exists>P. elfs l (e_parent E) = Some P \<and> e_kind P = ELF_K_AR)"
    "e_kind E = ELF_K_AR \<longrightarrow> e_nchildren E = int (card {q. \<exists>Q. elfs l q = Some Q \<and> e_parent Q = e})"
    "e_activations E = 0 \<longrightarrow> e_kind E = ELF_K_AR \<and> 0 < e_nchildren E"
proof -
  have ok: "links_ok {} (heap_next l) (elf_view l) (scn_view l) (data_view l)" using assms by (simp add: libelf_inv_def)
  have x: "elf_view l e = Some (view_elf E)" using assms by (simp add: elf_view_def)
  have "elf_ok (elf_view l) (scn_view l) e (view_elf E)" "0 < e" using links_ok_elfD [OF ok x] by auto
  moreover have "children (elf_view l) e = {q. \<exists>Q. elfs l q = Some Q \<and> e_parent Q = e}"
    by (auto simp: children_def elf_view_def view_elf_def)
  moreover have "in_use (view_elf E)" using ok x by (simp add: links_ok_def)
  ultimately show "0 < e" "distinct (e_scn E)" "e_kind E \<noteq> ELF_K_NUM" "0 \<le> e_activations E"
    "e_kind E \<noteq> ELF_K_ELF \<longrightarrow> e_scn E = []"
    "e_parent E \<noteq> NULL \<longrightarrow> e_parent E < e \<and> (\<exists>P. elfs l (e_parent E) = Some P \<and> e_kind P = ELF_K_AR)"
    "e_kind E = ELF_K_AR \<longrightarrow> e_nchildren E = int (card {q. \<exists>Q. elfs l q = Some Q \<and> e_parent Q = e})"
    "e_activations E = 0 \<longrightarrow> e_kind E = ELF_K_AR \<and> 0 < e_nchildren E"
    by (auto simp: elf_ok_def in_use_def archive_def elf_view_def view_elf_def)
qed

lemma close_elf_fields:
  assumes "libelf_inv C l" "elfs l e = Some E" "distinct (e_scn E)"
  shows "elfs (close_elf e E l) = (\<lambda>a. if a = e then None
      else if a = e_parent E \<and> a \<noteq> NULL then map_option (\<lambda>P. P\<lparr>e_nchildren := e_nchildren P - 1\<rparr>) (elfs l a)
      else elfs l a)"
    "scns (close_elf e E l) = scns l |` (- set (e_scn E))"
    "datas (close_elf e E l) = datas l |` (- (\<Union>s\<in>set (e_scn E). scn_data s l))"
    "mem (close_elf e E l) = mem l"
  using release_scns_eq [OF assms(1,2) refl] drop_scns_fields [OF assms(3), of e l]
  by (auto simp: close_elf_def Let_def upd_elf_def fun_eq_iff)

lemma upd_elf_fields [simp]:
  "scns (upd_elf e f l) = scns l" "datas (upd_elf e f l) = datas l" "mem (upd_elf e f l) = mem l"
  by (simp_all add: upd_elf_def)

section \<open>Examples\<close>

text \<open>An ELF identification and the magic number of archives in memory, before the first call.\<close>

definition demo_start :: libelf where
  "demo_start = \<lparr>host_be = False, libelf_byteorder = 0, libelf_error = ELF_E_NONE, libelf_oserror = 0,
     libelf_fillchar = 0, libelf_version = EV_NONE,
     mem = put_bytes (put_bytes (\<lambda>_. 0) 16 [0x7F, 0x45, 0x4C, 0x46, 1, 1, 1]) 64 (ARMAG @ [0x41]),
     heap_next = 4096, heap_limit = 65536, elfs = Map.empty, scns = Map.empty, datas = Map.empty,
     arhdrs = Map.empty, files = Map.empty, os_errno = 0\<rparr>"

definition demo_calls :: "call list" where
  "demo_calls = [Elf_version EV_CURRENT, Elf_memory 16 52]"

definition demo_open :: libelf where
  "demo_open = the (run demo_calls demo_start)"

lemmas demo_defs = demo_start_def elf_version_def elf_memory_def libelf_allocate_elf_def malloc_def Let_def
  LIBELF_IS_ELF_def put_bytes_def ARMAG_def libelf_init_elf_def upd_elf_def

lemma demo_open:
  "run demo_calls demo_start = Some demo_open"
  "\<exists>E. elfs demo_open 4096 = Some E \<and> e_kind E = ELF_K_ELF \<and> e_activations E = 1 \<and> e_parent E = NULL \<and>
     e_cmd E = ELF_C_READ \<and> e_fd E = -1"
  by (simp_all add: demo_open_def demo_calls_def demo_defs)

lemma demo_reachable: "reachable demo_open"
  by (rule run_reachable [OF demo_open(1)], rule reachable.start) (simp add: start_def demo_start_def)

text \<open>
  Descriptors for examples: an object with one section and its data; an archive and its only
  open member.
\<close>

definition demo_elf :: "Elf_Kind \<Rightarrow> int \<Rightarrow> addr \<Rightarrow> addr list \<Rightarrow> Elf" where
  "demo_elf k n p ss = \<lparr>e_activations = 1, e_arhdr = NULL, e_byteorder = ELFDATA2LSB, e_class = ELFCLASS32,
     e_cmd = ELF_C_READ, e_fd = 3, e_elf_flags = 0, e_kind = k, e_parent = p, e_rawfile = 64, e_rawsize = 512,
     e_elf_version = EV_CURRENT, e_next = 8, e_nchildren = n, e_rawstrtab = NULL, e_rawstrtabsz = 0,
     e_rawsymtab = NULL, e_rawsymtabsz = 0, e_symtab = NULL, e_symtabsz = 0, e_ehdr = NULL, e_phdr = NULL,
     e_scn = ss, e_nphdr = 0, e_nscn = 1, e_strndx = 0\<rparr>"

definition demo_scn :: "addr \<Rightarrow> addr list \<Rightarrow> Elf_Scn" where
  "demo_scn e ds = \<lparr>s_data = ds, s_rawdata = [], s_elf = e, s_flags = 0, s_ndx = 0, s_offset = 0, s_rawoff = 0, s_size = 0\<rparr>"

definition demo_sections :: libelf where
  "demo_sections = demo_start\<lparr>libelf_version := EV_CURRENT, elfs := [256 \<mapsto> demo_elf ELF_K_ELF 0 NULL [512]],
     scns := [512 \<mapsto> demo_scn 256 [1024]], datas := [1024 \<mapsto> (data_at 64 8 ELF_T_BYTE)\<lparr>d_scn := 512\<rparr>]\<rparr>"

definition demo_archive :: libelf where
  "demo_archive = demo_start\<lparr>libelf_version := EV_CURRENT,
     elfs := [256 \<mapsto> demo_elf ELF_K_AR 1 NULL [], 512 \<mapsto> demo_elf ELF_K_NONE 0 256 []]\<rparr>"

lemmas demo_ok_defs = libelf_inv_def links_ok_def below_def elf_view_def scn_view_def data_view_def view_elf_def
  view_scn_def view_data_def elf_ok_def scn_ok_def in_use_def archive_def demo_start_def demo_elf_def demo_scn_def data_at_def

lemma demo_sections_ok: "libelf_ok demo_sections"
proof -
  have "elf_view demo_sections = [256 \<mapsto> \<lparr>l_kind = ELF_K_ELF, l_acts = 1, l_parent = NULL, l_nchildren = 0, l_scns = [512]\<rparr>]"
    "scn_view demo_sections = [512 \<mapsto> \<lparr>l_elf = 256, l_data = [1024], l_raw = []\<rparr>]"
    "data_view demo_sections = [1024 \<mapsto> \<lparr>l_scn = 512, l_malloced = False\<rparr>]" "heap_next demo_sections = 4096"
    by (auto simp: fun_eq_iff demo_sections_def demo_ok_defs)
  then show ?thesis by (simp add: libelf_inv_def links_ok_def below_def elf_ok_def scn_ok_def in_use_def)
qed

lemma demo_archive_ok: "libelf_ok demo_archive"
proof -
  have views: "elf_view demo_archive = [256 \<mapsto> \<lparr>l_kind = ELF_K_AR, l_acts = 1, l_parent = NULL, l_nchildren = 1, l_scns = []\<rparr>,
      512 \<mapsto> \<lparr>l_kind = ELF_K_NONE, l_acts = 1, l_parent = 256, l_nchildren = 0, l_scns = []\<rparr>]"
    "scn_view demo_archive = Map.empty" "data_view demo_archive = Map.empty" "heap_next demo_archive = 4096"
    by (auto simp: fun_eq_iff demo_archive_def demo_ok_defs)
  have "children (elf_view demo_archive) 256 = {512}" by (auto simp: views children_def split: if_splits)
  then show ?thesis by (simp add: libelf_inv_def views links_ok_def below_def elf_ok_def in_use_def archive_def)
qed

section \<open>Properties\<close>

text \<open>
  C2. In every state that calls of the interface, successful calls of \<open>elf_update\<close> among them,
  writes to memory and to the public members of data descriptors can produce, the descriptors are consistent: sections belong to the object
  that lists them, data to their section, a member to an older archive, an archive counts its
  open members, and a descriptor without activations is an archive with open members.
\<close>

theorem reachable_invariant:
  assumes "reachable l"
  shows "libelf_ok l"
  using assms by (rule reachable_libelf_ok)

theorem reachable_invariant_witness: "libelf_ok demo_open \<and> elfs demo_open 4096 \<noteq> None"
  using reachable_invariant [OF demo_reachable] demo_open(2) by auto

text \<open>
  C3. \<open>elf_end\<close> on a null pointer or an existing descriptor always returns: its assertions hold
  (\<open>e_activations == 0\<close>, no raw data with \<open>LIBELF_F_DATA_MALLOCED\<close>, no section left when the object is
  released), its loop over the parents ends and it follows no dangling pointer.
\<close>

theorem elf_end_safe:
  assumes "reachable l" "e = NULL \<or> elfs l e \<noteq> None"
  shows "\<exists>n l'. elf_end e l = Some (n, l') \<and> reachable l'"
proof -
  obtain n l' where "elf_end e l = Some (n, l')" using elf_end_ok [OF reachable_libelf_ok [OF assms(1)] assms(2)] by blast
  moreover from this have "reachable l'" using reachable.call [OF assms(1), of "Elf_end e" l'] by simp
  ultimately show ?thesis by blast
qed

theorem elf_end_safe_witness: "\<exists>n l'. elf_end 4096 demo_open = Some (n, l') \<and> reachable l'"
  using elf_end_safe [OF demo_reachable, of 4096] demo_open(2) by auto

text \<open>
  C29. The last \<open>elf_end\<close> of an ELF object (\<open>ELF_K_ELF\<close>) that is no member of an archive (no parent)
  releases the object, its sections and the data of the sections, and nothing else.
\<close>

theorem elf_end_releases:
  assumes "libelf_ok l" "elfs l e = Some E" "e_kind E = ELF_K_ELF" "e_activations E = 1" "e_parent E = NULL"
  shows "\<exists>l'. elf_end e l = Some (0, l') \<and> elfs l' = (elfs l)(e := None) \<and> scns l' = scns l |` (- set (e_scn E)) \<and>
    datas l' = datas l |` (- (\<Union>s\<in>set (e_scn E). scn_data s l)) \<and> mem l' = mem l"
proof -
  let ?E = "E\<lparr>e_activations := 0\<rparr>" and ?l = "upd_elf e (\<lambda>E. E\<lparr>e_activations := 0\<rparr>) l"
  have E: "elfs ?l e = Some ?E" using assms(2) by (simp add: upd_elf_def)
  have "elf_end e l = elf_end_loop (e_parent ?E) (close_elf e ?E ?l)"
    using elf_end_last [OF assms(1,2,4)] elf_end_loop_step [OF elf_end_last(2) [OF assms(1,2,4)] E] assms(3) by simp
  also have "\<dots> = Some (0, close_elf e ?E ?l)" using assms(5) by (subst elf_end_loop.simps) simp
  finally have "elf_end e l = Some (0, close_elf e ?E ?l)" .
  moreover have "scn_data s ?l = scn_data s l" for s by (simp add: scn_data_def)
  ultimately show ?thesis
    using close_elf_fields [OF elf_end_last(2) [OF assms(1,2,4)] E] ok_elf_record(2) [OF assms(1,2)] assms(5)
    by (auto simp: upd_elf_def fun_eq_iff)
qed

theorem elf_end_releases_witness:
  "\<exists>l'. elf_end 256 demo_sections = Some (0, l') \<and> elfs l' = Map.empty \<and> scns l' 512 = None \<and> datas l' 1024 = None"
  using elf_end_releases [OF demo_sections_ok, of 256 "demo_elf ELF_K_ELF 0 NULL [512]"]
  by (auto simp: demo_sections_def demo_elf_def demo_start_def demo_scn_def scn_data_def restrict_map_def)

text \<open>
  C30. Reference counting, for an object that is no archive and was opened for reading: opening it
  again (\<open>elf_begin\<close> for reading with its descriptor and its file descriptor) returns the same descriptor, and
  the matching \<open>elf_end\<close> returns the number of remaining activations and restores the state exactly.
\<close>

theorem elf_begin_end:
  assumes "libelf_ok l" "elfs l a = Some A" "e_kind A \<noteq> ELF_K_AR" "e_cmd A = ELF_C_READ" "e_fd A = -1 \<or> e_fd A = fd"
    "libelf_version l \<noteq> EV_NONE" "0 < e_activations A"
  shows "\<exists>l1. elf_begin fd ELF_C_READ a l = Some (a, l1) \<and> elf_end a l1 = Some (e_activations A, l)"
proof -
  have a: "0 < a" using ok_elf_record(1) [OF assms(1,2)] .
  have "l\<lparr>elfs := (elfs l)(a \<mapsto> A)\<rparr> = l" using assms(2) by (simp add: fun_upd_idem)
  then show ?thesis
    using a assms by (auto simp: elf_begin_def elf_begin_read_def elf_end_def upd_elf_def)
qed

theorem elf_begin_end_witness:
  "\<exists>l1. elf_begin 7 ELF_C_READ 4096 demo_open = Some (4096, l1) \<and> elf_end 4096 l1 = Some (1, demo_open)"
proof -
  obtain E where E: "elfs demo_open 4096 = Some E" "e_kind E = ELF_K_ELF" "e_activations E = 1" "e_cmd E = ELF_C_READ" "e_fd E = -1"
    using demo_open(2) by blast
  have "libelf_version demo_open \<noteq> EV_NONE" by (simp add: demo_open_def demo_calls_def demo_defs)
  then show ?thesis using elf_begin_end [OF reachable_libelf_ok [OF demo_reachable] E(1), of 7] E by simp
qed

text \<open>
  An archive outlives the descriptors of its members: closing the archive first keeps it,
  closing its last open member then releases both.
\<close>

theorem elf_end_archive:
  assumes "libelf_ok l" "elfs l a = Some A" "e_kind A = ELF_K_AR" "e_activations A = 1" "e_parent A = NULL"
    and "elfs l m = Some M" "e_parent M = a" "e_activations M = 1" "e_kind M \<noteq> ELF_K_AR" "e_nchildren A = 1"
  shows "\<exists>l1 l2. elf_end a l = Some (0, l1) \<and> elfs l1 a = Some (A\<lparr>e_activations := 0\<rparr>) \<and>
    elf_end m l1 = Some (0, l2) \<and> elfs l2 a = None \<and> elfs l2 m = None"
proof -
  let ?A = "A\<lparr>e_activations := 0\<rparr>" and ?l1 = "upd_elf a (\<lambda>A. A\<lparr>e_activations := 0\<rparr>) l"
  have a: "0 < a" using ok_elf_record(1) [OF assms(1,2)] .
  have ma: "m \<noteq> a" using assms(3,6,9,2) by auto
  have A: "elfs ?l1 a = Some ?A" using assms(2) by (simp add: upd_elf_def)
  have M: "elfs ?l1 m = Some M" using assms(6) ma by (simp add: upd_elf_def)
  have first: "elf_end a l = Some (0, ?l1)"
    using elf_end_last(1) [OF assms(1,2,4)] A a assms(3,10) by (subst (asm) elf_end_loop.simps) simp
  have ok1: "libelf_ok ?l1"
    using inv_shrink [OF elf_end_last(2) [OF assms(1,2,4)], of "{}"] A assms(3,10) by (auto simp: in_use_def view_elf_def)
  let ?M = "M\<lparr>e_activations := 0\<rparr>" and ?l2 = "upd_elf m (\<lambda>A. A\<lparr>e_activations := 0\<rparr>) ?l1"
  have inv2: "libelf_inv {m} ?l2" using elf_end_last(2) [OF ok1 M assms(8)] .
  have M2: "elfs ?l2 m = Some ?M" using M by (simp add: upd_elf_def)
  have step: "elf_end m ?l1 = elf_end_loop a (close_elf m ?M ?l2)"
    using elf_end_last(1) [OF ok1 M assms(8)] elf_end_loop_step [OF inv2 M2] assms(7,9) by simp
  let ?l3 = "close_elf m ?M ?l2" and ?A3 = "?A\<lparr>e_nchildren := 0\<rparr>"
  have fields: "elfs ?l3 m = None" "elfs ?l3 a = Some ?A3"
    using close_elf_fields(1) [OF inv2 M2] ok_elf_record(2) [OF ok1 M] assms(7,10) A ma a by (auto simp: upd_elf_def)
  have inv3: "libelf_inv {a} ?l3" using close_elf_inv [OF inv2 M2] assms(7,9) by simp
  have "elf_end_loop a ?l3 = elf_end_loop NULL (close_elf a ?A3 ?l3)"
    using elf_end_loop_step [OF inv3 fields(2)] assms(5) by simp
  also have "\<dots> = Some (0, close_elf a ?A3 ?l3)" by (subst elf_end_loop.simps) simp
  finally have "elf_end m ?l1 = Some (0, close_elf a ?A3 ?l3)" using step by simp
  moreover have "elfs (close_elf a ?A3 ?l3) a = None" "elfs (close_elf a ?A3 ?l3) m = None"
    using close_elf_fields(1) [OF inv3 fields(2)] ok_elf_record(2) [OF assms(1,2)] fields(1) assms(5) by auto
  ultimately show ?thesis using first A by blast
qed

theorem elf_end_archive_witness:
  "\<exists>l1 l2. elf_end 256 demo_archive = Some (0, l1) \<and> elfs l1 256 \<noteq> None \<and>
    elf_end 512 l1 = Some (0, l2) \<and> elfs l2 256 = None \<and> elfs l2 512 = None"
  using elf_end_archive [OF demo_archive_ok, of 256 "demo_elf ELF_K_AR 1 NULL []" 512 "demo_elf ELF_K_NONE 0 256 []"]
  by (auto simp: demo_archive_def demo_elf_def)

text \<open>
  C31. \<open>elf_memory\<close> on an image that starts with the ELF identification and is longer than it: with
  a valid class, byte order and version it opens a new ELF object that records them, and
  changes nothing else.  Otherwise it returns a null pointer, reports \<open>ELF_E_VERSION\<close> or \<open>ELF_E_HEADER\<close>, and leaves
  no descriptor behind.
\<close>

theorem elf_memory_identifies:
  assumes "libelf_version l \<noteq> EV_NONE" "img \<noteq> NULL" "EI_NIDENT < sz" "LIBELF_IS_ELF (mem l) img"
    and heap: "0 < heap_next l" "heap_next l + 144 \<le> heap_limit l"
  shows "if mem l (img + EI_CLASS) \<in> {1, 2} \<and> mem l (img + EI_DATA) \<in> {1, 2} \<and> mem l (img + EI_VERSION) \<le> 1
    then \<exists>l' E. elf_memory img sz l = Some (heap_next l, l') \<and> elfs l' = (elfs l)(heap_next l \<mapsto> E) \<and>
      e_kind E = ELF_K_ELF \<and> e_activations E = 1 \<and> e_parent E = NULL \<and> e_scn E = [] \<and> e_cmd E = ELF_C_READ \<and>
      e_rawfile E = img \<and> e_rawsize E = sz \<and> e_class E = int (unat (mem l (img + EI_CLASS))) \<and>
      e_byteorder E = unat (mem l (img + EI_DATA)) \<and> e_elf_version E = unat (mem l (img + EI_VERSION)) \<and>
      mem l' = mem l \<and> scns l' = scns l \<and> datas l' = datas l
    else elfs l (heap_next l) = None \<longrightarrow> (\<exists>l'. elf_memory img sz l = Some (NULL, l') \<and>
      elfs l' = elfs l \<and> scns l' = scns l \<and> datas l' = datas l \<and>
      libelf_error l' = (if 1 < mem l (img + EI_VERSION) then ELF_E_VERSION else ELF_E_HEADER))"
proof -
  let ?m = "mem l"
  have m: "malloc 136 l = (heap_next l, l\<lparr>heap_next := heap_next l + 144\<rparr>)" using heap by (simp add: malloc_def Let_def)
  have v: "unat (?m (img + EI_VERSION)) > EV_CURRENT \<longleftrightarrow> 1 < ?m (img + EI_VERSION)" by (simp add: word_less_nat_alt)
  have c: "unat x = 1 \<longleftrightarrow> x = 1" "unat x = 2 \<longleftrightarrow> x = 2" "uint x = 1 \<longleftrightarrow> x = 1" "uint x = 2 \<longleftrightarrow> x = 2" for x :: byte
    using word_unat_eq_iff [of x 1] word_unat_eq_iff [of x 2] word_uint_eq_iff [of x 1] word_uint_eq_iff [of x 2] by simp_all
  show ?thesis
  proof (cases "?m (img + EI_CLASS) \<in> {1, 2} \<and> ?m (img + EI_DATA) \<in> {1, 2} \<and> ?m (img + EI_VERSION) \<le> 1")
    case True
    then have "unat (mem l (img + EI_VERSION)) \<le> EV_CURRENT" by (simp add: word_le_nat_alt)
    with assms(1-4) True heap(1) show ?thesis
      by (auto simp: elf_memory_def libelf_allocate_elf_def m Let_def upd_elf_def libelf_init_elf_def fun_eq_iff not_le)
  next
    case False
    then have bad: "1 < ?m (img + EI_VERSION) \<or> ?m (img + EI_CLASS) \<notin> {1, 2} \<or> ?m (img + EI_DATA) \<notin> {1, 2}" by auto
    have "\<exists>l'. elf_memory img sz l = Some (NULL, l') \<and> elfs l' = elfs l \<and> scns l' = scns l \<and> datas l' = datas l \<and>
      libelf_error l' = (if 1 < mem l (img + EI_VERSION) then ELF_E_VERSION else ELF_E_HEADER)" if "elfs l (heap_next l) = None"
      using assms(1-4) bad heap(1) that m v c
      by (auto simp: elf_memory_def libelf_allocate_elf_def Let_def upd_elf_def libelf_init_elf_def libelf_release_elf_def
          LIBELF_SET_ERROR_def fun_eq_iff)
    then show ?thesis using False by (simp only: if_False) blast
  qed
qed

theorem elf_memory_identifies_witness:
  "(\<exists>l' E. elf_memory 16 52 (snd (elf_version EV_CURRENT demo_start)) = Some (4096, l') \<and> elfs l' 4096 = Some E \<and>
    e_kind E = ELF_K_ELF \<and> e_class E = ELFCLASS32) \<and>
   (\<exists>l'. elf_memory 16 52 (set_mem ((mem demo_open)(20 := 3)) demo_open) = Some (NULL, l') \<and> libelf_error l' = ELF_E_HEADER \<and>
    elfs l' = elfs demo_open)"
proof (rule conjI)
  show "\<exists>l' E. elf_memory 16 52 (snd (elf_version EV_CURRENT demo_start)) = Some (4096, l') \<and> elfs l' 4096 = Some E \<and>
    e_kind E = ELF_K_ELF \<and> e_class E = ELFCLASS32"
    using elf_memory_identifies [of "snd (elf_version EV_CURRENT demo_start)" 16 52]
    by (auto simp: elf_version_def demo_start_def put_bytes_def LIBELF_IS_ELF_def fun_eq_iff)
  have demo: "libelf_version demo_open = EV_CURRENT" "heap_next demo_open = 4240" "heap_limit demo_open = 65536"
    "mem demo_open = mem demo_start" "elfs demo_open 4240 = None"
    by (simp_all add: demo_open_def demo_calls_def demo_defs)
  from elf_memory_identifies [of "set_mem ((mem demo_open)(20 := 3)) demo_open" 16 52]
  show "\<exists>l'. elf_memory 16 52 (set_mem ((mem demo_open)(20 := 3)) demo_open) = Some (NULL, l') \<and> libelf_error l' = ELF_E_HEADER \<and>
    elfs l' = elfs demo_open"
    by (auto simp: set_mem_def demo LIBELF_IS_ELF_def demo_start_def put_bytes_def)
qed

text \<open>
  A truncated archive leaks its descriptor: \<open>elf_memory\<close> returns a null pointer and reports
  \<open>ELF_E_ARCHIVE\<close>, but the descriptor stays allocated and no program can close it.
\<close>

theorem elf_memory_archive_leak:
  assumes "libelf_version l \<noteq> EV_NONE" "img \<noteq> NULL" "SARMAG \<le> sz" "sz < SARMAG + sizeof_ar_hdr"
    and magic: "bytes_at (mem l) img SARMAG = ARMAG"
    and heap: "0 < heap_next l" "heap_next l + 144 \<le> heap_limit l"
  shows "\<exists>l' E. elf_memory img sz l = Some (NULL, l') \<and> libelf_error l' = ELF_E_ARCHIVE \<and>
    elfs l' = (elfs l)(heap_next l \<mapsto> E) \<and> e_activations E = 1"
proof -
  have m: "malloc 136 l = (heap_next l, l\<lparr>heap_next := heap_next l + 144\<rparr>)" using heap by (simp add: malloc_def Let_def)
  have "mem l img = 0x21" using nth_bytes_at [of 0 8 "mem l" img] magic by (simp add: ARMAG_def)
  then have "\<not> LIBELF_IS_ELF (mem l) img" by (simp add: LIBELF_IS_ELF_def)
  then show ?thesis
    using assms m
    by (auto simp: elf_memory_def libelf_allocate_elf_def Let_def upd_elf_def libelf_init_elf_def libelf_ar_open_def
        LIBELF_SET_ERROR_def numeral_2_eq_2 fun_eq_iff)
qed

theorem elf_memory_archive_leak_witness:
  "\<exists>l' E. elf_memory 64 20 demo_open = Some (NULL, l') \<and> libelf_error l' = ELF_E_ARCHIVE \<and> elfs l' 4240 = Some E"
proof -
  have demo: "libelf_version demo_open = EV_CURRENT" "heap_next demo_open = 4240" "heap_limit demo_open = 65536"
    "mem demo_open = mem demo_start"
    by (simp_all add: demo_open_def demo_calls_def demo_defs)
  have "put_bytes m 64 (ARMAG @ [c]) = put_bytes (put_bytes m 64 ARMAG) 72 [c]" for m c
    unfolding put_bytes_append by (simp add: ARMAG_def)
  then have "bytes_at (mem demo_open) 64 8 = ARMAG"
    unfolding demo by (simp add: demo_start_def) (rule bytes_at_put_same, simp add: ARMAG_def)
  then show ?thesis using elf_memory_archive_leak [of demo_open 64 20] demo by auto
qed

end
