(* ===== verification/Libelf_Layout.thy ===== *)
theory Libelf_Layout
  imports Libelf_Update
begin

text \<open>
  What the layout of \<open>elf_update\<close> promises when the library computes it: aligned data and
  sections that do not overlap and stay in order.
\<close>

section \<open>Rounding\<close>

lemma roundup2_props:
  assumes "0 < y" "x + y \<le> 2 ^ 64"
  shows "x \<le> roundup2 x y" "roundup2 x y < x + y" "y dvd roundup2 x y"
proof -
  let ?q = "(x + (y - 1)) div y"
  have eq: "?q * y = x + (y - 1) - (x + (y - 1)) mod y" by (rule div_mult_mod_eq [symmetric, THEN add_implies_diff [OF sym]])
  have m: "(x + (y - 1)) mod y < y" using assms(1) by simp
  then have b: "x \<le> ?q * y" "?q * y < x + y" unfolding eq using assms(1) by linarith+
  have r: "roundup2 x y = ?q * y" using assms b(2) by (simp add: roundup2_def)
  show "x \<le> roundup2 x y" "roundup2 x y < x + y" "y dvd roundup2 x y" using b by (simp_all only: r dvd_triv_right)
qed

section \<open>Data of a section\<close>

text \<open>
  The data descriptors \<open>ds\<close> lie one behind the other between the offsets \<open>lo\<close> and \<open>hi\<close>.
\<close>

primrec data_placed :: "nat \<Rightarrow> addr list \<Rightarrow> nat \<Rightarrow> (addr \<rightharpoonup> Elf_Data) \<Rightarrow> bool" where
  "data_placed lo [] hi dm \<longleftrightarrow> lo \<le> hi"
| "data_placed lo (d # ds) hi dm \<longleftrightarrow>
    (\<exists>D. dm d = Some D \<and> lo \<le> d_off D \<and> data_placed (d_off D + d_size D) ds hi dm)"

definition size_of :: "addr \<Rightarrow> libelf \<Rightarrow> nat" where
  "size_of d l = (case datas l d of None \<Rightarrow> 0 | Some D \<Rightarrow> d_size D)"

text \<open>Room for the data and the gaps between them\<close>

definition room :: "nat \<Rightarrow> addr list \<Rightarrow> libelf \<Rightarrow> nat" where
  "room al ds l = sum_list (map (\<lambda>d. size_of d l + al) ds)"

lemma data_placed_cong:
  "(\<And>d. d \<in> set ds \<Longrightarrow> dm d = dm' d) \<Longrightarrow> data_placed lo ds hi dm = data_placed lo ds hi dm'"
  by (induction ds arbitrary: lo) auto

lemma size_of_upd [simp]: "size_of d (upd_data a (\<lambda>D. D\<lparr>d_off := x\<rparr>) l) = size_of d l"
  by (simp add: size_of_def upd_data_def split: option.split)

text \<open>A data descriptor that has got an offset aligned to \<open>al\<close> and is otherwise unchanged\<close>

definition moved :: "nat \<Rightarrow> addr \<Rightarrow> libelf \<Rightarrow> libelf \<Rightarrow> bool" where
  "moved al d l l' \<longleftrightarrow> (\<exists>D x. datas l d = Some D \<and> datas l' d = Some (D\<lparr>d_off := x\<rparr>) \<and> al dvd x)"

lemma layout_data_placed:
  assumes "0 < al" "distinct ds" "\<forall>d\<in>set ds. datas l d \<noteq> None" "sz + room al ds l < 2 ^ 64"
  shows "\<exists>sz' l'. layout_data False al ds sz l = Some (sz', l') \<and> data_placed sz ds sz' (datas l') \<and>
    (\<forall>d\<in>set ds. moved al d l l') \<and> sz \<le> sz' \<and> sz' \<le> sz + room al ds l \<and> l' = l\<lparr>datas := datas l'\<rparr> \<and>
    (\<forall>d. d \<notin> set ds \<longrightarrow> datas l' d = datas l d) \<and> (\<forall>d. datas l' d = None \<longleftrightarrow> datas l d = None) \<and>
    (\<forall>d. size_of d l' = size_of d l)"
  using assms(2-)
proof (induction ds arbitrary: sz l)
  case Nil
  then show ?case by (simp add: room_def)
next
  case (Cons d ds)
  obtain D where D: "datas l d = Some D" using Cons.prems(2) by auto
  let ?o = "roundup2 sz al" and ?l = "upd_data d (\<lambda>D. D\<lparr>d_off := roundup2 sz al\<rparr>) l"
  have room: "room al (d # ds) l = d_size D + al + room al ds l" using D by (simp add: room_def size_of_def)
  have o: "sz \<le> ?o" "?o < sz + al" "al dvd ?o" using roundup2_props [OF assms(1), of sz] Cons.prems(3) room by simp_all
  have room': "room al ds ?l = room al ds l" by (simp add: room_def)
  have fits: "?o + d_size D + room al ds l < 2 ^ 64" using o(2) Cons.prems(3) room by linarith
  then have sum: "u64 (?o + d_size D) = ?o + d_size D" by simp
  have ex: "\<forall>d'\<in>set ds. datas ?l d' \<noteq> None" using Cons.prems(2) by (auto simp: upd_data_def)
  obtain sz' l' where IH: "layout_data False al ds (?o + d_size D) ?l = Some (sz', l')"
      "data_placed (?o + d_size D) ds sz' (datas l')" "\<forall>d\<in>set ds. moved al d ?l l'" "?o + d_size D \<le> sz'" "sz' \<le> ?o + d_size D + room al ds l"
      "l' = ?l\<lparr>datas := datas l'\<rparr>" "\<forall>d'. d' \<notin> set ds \<longrightarrow> datas l' d' = datas ?l d'"
      "\<forall>d'. datas l' d' = None \<longleftrightarrow> datas ?l d' = None" "\<forall>d'. size_of d' l' = size_of d' ?l"
    using Cons.IH [of ?l "?o + d_size D"] Cons.prems(1) ex fits unfolding room' by auto
  have d: "datas l' d = Some (D\<lparr>d_off := ?o\<rparr>)" using IH(7) Cons.prems(1) D by (simp add: upd_data_def)
  have "layout_data False al (d # ds) sz l = Some (sz', l')" using D IH(1) sum by (simp add: Let_def)
  moreover have "data_placed sz (d # ds) sz' (datas l')" using IH(2) d o by simp
  moreover have "moved al d l l'" unfolding moved_def using D d o(3) by blast
  moreover have "moved al d' l l'" if "d' \<in> set ds" for d'
  proof -
    have "datas ?l d' = datas l d'" using that Cons.prems(1) by (auto simp: upd_data_def)
    moreover have "moved al d' ?l l'" using IH(3) that by blast
    ultimately show ?thesis unfolding moved_def by (simp only:)
  qed
  moreover have "sz \<le> sz'" "sz' \<le> sz + room al (d # ds) l" using IH(4,5) o(1,2) room by linarith+
  moreover have "l' = l\<lparr>datas := datas l'\<rparr>" by (rule trans [OF IH(6)]) (simp add: upd_data_def)
  moreover have "\<forall>d'. d' \<notin> set (d # ds) \<longrightarrow> datas l' d' = datas l d'" using IH(7) by (simp add: upd_data_def)
  moreover have "\<forall>d'. datas l' d' = None \<longleftrightarrow> datas l d' = None" using IH(8) D by (simp add: upd_data_def)
  moreover have "\<forall>d'. size_of d' l' = size_of d' l" using IH(9) by simp
  ultimately show ?case by auto
qed

section \<open>Alignment of a section\<close>

definition align_of :: "addr \<Rightarrow> libelf \<Rightarrow> nat" where
  "align_of d l = (case datas l d of None \<Rightarrow> 0 | Some D \<Rightarrow> d_align D)"

lemma data_alignment_bounds:
  assumes "data_alignment v sh_align ds acc l = Some (Inr al)" "\<forall>d\<in>set ds. align_of d l \<le> B" "acc \<le> B" "1 \<le> B"
  shows "acc \<le> al \<and> al \<le> B \<and> (ds \<noteq> [] \<longrightarrow> 0 < al) \<and> (\<forall>d\<in>set ds. datas l d \<noteq> None)"
  using assms
proof (induction ds arbitrary: acc)
  case (Cons d ds)
  obtain D where D: "datas l d = Some D" using Cons.prems(1) by (auto simp: bind_eq_Some_conv)
  let ?al = "if d_align D = 0 then 1 else d_align D"
  let ?acc = "if ?al > acc then ?al else acc"
  have "d_align D \<le> B" using Cons.prems(2) D by (simp add: align_of_def)
  then have b: "?acc \<le> B" "0 < ?acc" "acc \<le> ?acc" using Cons.prems(3,4) by auto
  have "data_alignment v sh_align ds ?acc l = Some (Inr al)"
    using Cons.prems(1) D by (auto simp: Let_def split: if_splits)
  from Cons.IH [OF this _ b(1) Cons.prems(4)] show ?case using Cons.prems(2) b D by auto
qed simp

lemma data_alignment_dvd:
  assumes "data_alignment v sh_align ds acc l = Some (Inr al)" "acc \<le> 1 \<or> sh_align dvd acc"
  shows "al \<le> 1 \<or> sh_align dvd al"
  using assms
proof (induction ds arbitrary: acc)
  case (Cons d ds)
  then obtain D where D: "datas l d = Some D" by (auto simp: bind_eq_Some_conv)
  let ?al = "if d_align D = 0 then 1 else d_align D"
  let ?acc = "if ?al > acc then ?al else acc"
  have IH: "data_alignment v sh_align ds ?acc l = Some (Inr al)" and m: "d_align D mod sh_align = 0"
    using Cons.prems(1) D by (auto simp: Let_def split: if_splits)
  from m have "?acc \<le> 1 \<or> sh_align dvd ?acc" using Cons.prems(2) by (auto simp: mod_eq_0_iff_dvd)
  with IH show ?case by (rule Cons.IH)
qed simp

text \<open>Alignments are powers of two, so that the greatest is a multiple of each.\<close>

lemma and_pred_power: "(n :: nat) AND (n - 1) = 0 \<Longrightarrow> 0 < n \<Longrightarrow> \<exists>k. n = 2 ^ k"
proof (induction n rule: less_induct)
  case (less n)
  have rec: "n AND (n - 1) = of_bool (odd n \<and> odd (n - 1)) + 2 * ((n div 2) AND ((n - 1) div 2))" by (rule and_rec)
  show ?case
  proof (cases "even n")
    case True
    then have h: "n div 2 < n" "0 < n div 2" "(n - 1) div 2 = n div 2 - 1" using less.prems(2) by (auto elim!: evenE)
    then have "(n div 2) AND (n div 2 - 1) = 0" using less.prems(1) rec by simp
    then obtain k where "n div 2 = 2 ^ k" using less.IH h by blast
    then have "n = 2 ^ Suc k" using True by (metis dvd_mult_div_cancel power_Suc)
    then show ?thesis by blast
  next
    case False
    then have "(n - 1) div 2 = n div 2" by (auto elim!: oddE)
    then have "n div 2 = 0" using less.prems(1) rec False by simp
    then have "n = 2 ^ 0" using False by (auto elim!: oddE)
    then show ?thesis by blast
  qed
qed

lemma power_of_2:
  assumes "\<not> not_power_of_2 n" "0 < n" "n < 2 ^ 64"
  shows "\<exists>k. n = 2 ^ k"
proof -
  have "(of_nat n :: 64 word) - 1 = of_nat (n - 1)" using assms(2) by (simp add: of_nat_diff)
  then have "unat ((of_nat n :: 64 word) AND of_nat (n - 1)) = 0" using assms(1) by (simp add: not_power_of_2_def)
  moreover have "unat (of_nat n :: 64 word) = n" "unat (of_nat (n - 1) :: 64 word) = n - 1" using assms(3) by (simp_all add: unat_of_nat)
  ultimately have "n AND (n - 1) = 0" by (simp only: unsigned_and_eq)
  then show ?thesis using assms(2) by (rule and_pred_power)
qed

lemma power_dvd: "(2 :: nat) ^ i \<le> 2 ^ j \<Longrightarrow> (2 :: nat) ^ i dvd 2 ^ j"
  by (intro le_imp_power_dvd) simp

lemma data_alignment_aligned:
  assumes "data_alignment v sh_align ds acc l = Some (Inr al)" "\<forall>d\<in>set ds. align_of d l \<le> 2 ^ 31" "acc = 0 \<or> (\<exists>k. acc = 2 ^ k)"
  shows "(acc \<noteq> 0 \<longrightarrow> acc dvd al) \<and> (\<forall>d\<in>set ds. max 1 (align_of d l) dvd al)"
  using assms
proof (induction ds arbitrary: acc)
  case (Cons d ds)
  then obtain D where D: "datas l d = Some D" by (auto simp: bind_eq_Some_conv)
  let ?al = "if d_align D = 0 then 1 else d_align D"
  let ?acc = "if ?al > acc then ?al else acc"
  have al: "?al = max 1 (align_of d l)" using D by (auto simp: align_of_def)
  have run: "data_alignment v sh_align ds ?acc l = Some (Inr al)" and p: "\<not> not_power_of_2 ?al"
    using Cons.prems(1) D by (auto simp: Let_def split: if_splits)
  have "?al < 2 ^ 64" using Cons.prems(2) D by (simp add: align_of_def)
  moreover have "0 < ?al" by simp
  ultimately obtain j where j: "?al = 2 ^ j" using power_of_2 [OF p] by blast
  have acc: "?acc \<noteq> 0" "\<exists>k. ?acc = 2 ^ k" "?al dvd ?acc" "acc \<noteq> 0 \<longrightarrow> acc dvd ?acc"
    using j Cons.prems(3) power_dvd by auto
  have IH: "?acc dvd al" "\<forall>d\<in>set ds. max 1 (align_of d l) dvd al" using Cons.IH [OF run] Cons.prems(2) acc(1,2) by auto
  then show ?case using acc(3,4) unfolding al by (auto intro: dvd_trans)
qed simp

text \<open>The data descriptors that the library accepts\<close>

definition data_valid :: "nat \<Rightarrow> nat \<Rightarrow> addr \<Rightarrow> libelf \<Rightarrow> bool" where
  "data_valid v sh_align d l \<longleftrightarrow> (case datas l d of None \<Rightarrow> False | Some D \<Rightarrow>
     d_version D = v \<and> d_align D mod sh_align = 0 \<and> \<not> not_power_of_2 (if d_align D = 0 then 1 else d_align D))"

lemma data_alignment_valid:
  "(\<exists>al. data_alignment v sh_align ds acc l = Some (Inr al)) \<longleftrightarrow> (\<forall>d\<in>set ds. data_valid v sh_align d l)"
proof (induction ds arbitrary: acc)
  case (Cons d ds)
  show ?case
  proof (cases "datas l d")
    case None
    then show ?thesis by (simp add: data_valid_def)
  next
    case (Some D)
    then show ?thesis using Cons.IH by (simp add: data_valid_def Let_def)
  qed
qed simp

section \<open>Frames\<close>

lemma shdr_members_outside:
  assumes "disjoint_ranges s 64 a 64" "\<forall>x. x < s \<or> s + 64 \<le> x \<longrightarrow> mem l' x = mem l x" "host_be l' = host_be l"
  shows "extent_members ec a l' = extent_members ec a l"
proof -
  have "bytes_at (mem l') a n = bytes_at (mem l) a n" if "n \<le> 64" for n
    using assms(1,2) that by (intro bytes_at_eqI) (auto simp: disjoint_ranges_def)
  from this [of 40] this [of 64] show ?thesis
    using assms(3) by (simp add: extent_members_def shdr32_def shdr64_def)
qed

lemma extent_members_mem: "mem l' = mem l \<Longrightarrow> host_be l' = host_be l \<Longrightarrow> extent_members ec a l' = extent_members ec a l"
  by (simp add: extent_members_def shdr32_def shdr64_def)

lemma put_extent_frame:
  "x < s \<or> s + 64 \<le> x \<Longrightarrow> mem (put_extent ec s a b c d l) x = mem l x"
  "host_be (put_extent ec s a b c d l) = host_be l" "elfs (put_extent ec s a b c d l) = elfs l"
  "scns (put_extent ec s a b c d l) = scns l" "datas (put_extent ec s a b c d l) = datas l"
  by (auto simp: put_extent_def put_shdr32_def put_shdr64_def set_mem_def elf32shdr.length_to_bytes elf64shdr.length_to_bytes)

lemma put_extent_type: "fst (extent_members ec s (put_extent ec s a b c d l)) = fst (extent_members ec s l)"
  by (simp add: put_extent_def extent_members_def put_shdr32_def put_shdr64_def set_mem_def shdr32_def shdr64_def Let_def
      elf32shdr.length_to_bytes elf64shdr.length_to_bytes elf32shdr.of_to elf64shdr.of_to)

definition addralign :: "int \<Rightarrow> addr \<Rightarrow> libelf \<Rightarrow> nat" where
  "addralign ec s l = fst (snd (extent_members ec s l))"

lemma put_extent_align: "a \<le> 2 ^ 31 \<Longrightarrow> addralign ec s (put_extent ec s a b c d l) = a"
  by (simp add: addralign_def put_extent_def extent_members_def put_shdr32_def put_shdr64_def set_mem_def shdr32_def shdr64_def Let_def
      elf32shdr.length_to_bytes elf64shdr.length_to_bytes elf32shdr.of_to elf64shdr.of_to unat_of_nat)

lemma fsize_call_frame [simp]:
  "mem (snd (fsize_call t ec v c l)) = mem l" "host_be (snd (fsize_call t ec v c l)) = host_be l"
  "elfs (snd (fsize_call t ec v c l)) = elfs l" "scns (snd (fsize_call t ec v c l)) = scns l"
  "datas (snd (fsize_call t ec v c l)) = datas l"
  by (simp_all add: fsize_call_def set_error_option_def LIBELF_SET_ERROR_def split: prod.split option.split)

lemma falign_bound: "libelf_falign t ec \<le> 2 ^ 31"
  by (cases t) (simp_all add: libelf_falign_def)

lemma room_mono: "a \<le> b \<Longrightarrow> room a ds l \<le> room b ds l"
  unfolding room_def by (intro sum_list_mono) simp

section \<open>A section\<close>

text \<open>
  A section that the library lays out: modified, with data of its own and alignments of at
  most 2 GB; and the room it needs at most.
\<close>

definition plain_scn :: "int \<Rightarrow> addr \<Rightarrow> libelf \<Rightarrow> bool" where
  "plain_scn ec s l \<longleftrightarrow> (\<exists>S. scns l s = Some S \<and> s_flags S AND ELF_F_DIRTY \<noteq> 0 \<and> distinct (s_data S) \<and>
     (\<forall>d\<in>set (s_data S). datas l d \<noteq> None \<and> align_of d l \<le> 2 ^ 31) \<and> addralign ec s l \<le> 2 ^ 31)"

definition data_of :: "addr \<Rightarrow> libelf \<Rightarrow> addr list" where
  "data_of s l = (case scns l s of None \<Rightarrow> [] | Some S \<Rightarrow> s_data S)"

definition scn_room :: "addr \<Rightarrow> libelf \<Rightarrow> nat" where
  "scn_room s l = room (2 ^ 31) (data_of s l) l + 2 ^ 31"

definition no_extent :: "int \<Rightarrow> addr \<Rightarrow> libelf \<Rightarrow> bool" where
  "no_extent ec s l \<longleftrightarrow> fst (extent_members ec s l) = SHT_NULL \<or> fst (extent_members ec s l) = SHT_NOBITS"

text \<open>The section lies at or behind \<open>lo\<close>, and its data lie inside of it in order.\<close>

definition scn_placed :: "nat \<Rightarrow> Elf_Scn \<Rightarrow> (addr \<rightharpoonup> Elf_Data) \<Rightarrow> bool" where
  "scn_placed lo S dm \<longleftrightarrow> lo \<le> s_offset S \<and> data_placed 0 (s_data S) (s_size S) dm"

text \<open>
  The alignment that the library has recorded in the section header is a multiple of the one that the application
  had set and of the alignments of all data descriptors; the section lies at a multiple of it and every data
  descriptor at a multiple of its own alignment.
\<close>

definition scn_aligned :: "int \<Rightarrow> addr \<Rightarrow> libelf \<Rightarrow> libelf \<Rightarrow> bool" where
  "scn_aligned ec s l l' \<longleftrightarrow> 0 < addralign ec s l' \<and> (addralign ec s l \<noteq> 0 \<longrightarrow> addralign ec s l dvd addralign ec s l') \<and>
     (\<exists>S. scns l' s = Some S \<and> s_data S = data_of s l \<and> addralign ec s l' dvd s_offset S \<and>
       (\<forall>d\<in>set (data_of s l). max 1 (align_of d l) dvd addralign ec s l' \<and> moved (max 1 (align_of d l)) d l l'))"

text \<open>The sections that the library accepts\<close>

definition scn_valid :: "Elf \<Rightarrow> addr \<Rightarrow> libelf \<Rightarrow> bool" where
  "scn_valid E s l \<longleftrightarrow> no_extent (e_class E) s l \<or> (case libelf_xlate_shtype (fst (extent_members (e_class E) s l)) of None \<Rightarrow> False
     | Some t \<Rightarrow> let a = addralign (e_class E) s l; sh_align = (if a = 0 then libelf_falign t (e_class E) else a) in
         \<forall>d\<in>set (data_of s l). data_valid (e_elf_version E) sh_align d l)"

text \<open>What the layout of the section \<open>s\<close> does not touch\<close>

definition extent_frame :: "addr \<Rightarrow> libelf \<Rightarrow> libelf \<Rightarrow> bool" where
  "extent_frame s l l' \<longleftrightarrow> elfs l' = elfs l \<and> host_be l' = host_be l \<and> (\<forall>a. a \<noteq> s \<longrightarrow> scns l' a = scns l a) \<and>
     (\<forall>d. d \<notin> set (data_of s l) \<longrightarrow> datas l' d = datas l d) \<and> (\<forall>x. x < s \<or> s + 64 \<le> x \<longrightarrow> mem l' x = mem l x) \<and>
     data_of s l' = data_of s l \<and> (\<forall>d. size_of d l' = size_of d l)"

lemma layout_section_data:
  assumes al: "data_alignment v sh_align ds 0 l = Some (Inr al)" and ds: "distinct ds" "\<forall>d\<in>set ds. align_of d l \<le> 2 ^ 31"
    and room: "room (2 ^ 31) ds l < 2 ^ 64"
  shows "\<exists>sz l'. layout_data False al ds 0 l = Some (sz, l') \<and> data_placed 0 ds sz (datas l') \<and>
    (\<forall>d\<in>set ds. max 1 (align_of d l) dvd al \<and> moved (max 1 (align_of d l)) d l l') \<and> sz \<le> room (2 ^ 31) ds l \<and> l' = l\<lparr>datas := datas l'\<rparr> \<and> (\<forall>d. d \<notin> set ds \<longrightarrow> datas l' d = datas l d) \<and>
    (\<forall>d. size_of d l' = size_of d l)"
proof (cases "ds = []")
  case True
  then show ?thesis by (simp add: room_def)
next
  case False
  have b: "0 < al" "al \<le> 2 ^ 31" "\<forall>d\<in>set ds. datas l d \<noteq> None" using data_alignment_bounds [OF al ds(2)] False by auto
  then have "room al ds l \<le> room (2 ^ 31) ds l" by (intro room_mono)
  then obtain sz l' where r: "layout_data False al ds 0 l = Some (sz, l')" "data_placed 0 ds sz (datas l')" "\<forall>d\<in>set ds. moved al d l l'"
      "sz \<le> room (2 ^ 31) ds l" "l' = l\<lparr>datas := datas l'\<rparr>" "\<forall>d. d \<notin> set ds \<longrightarrow> datas l' d = datas l d" "\<forall>d. size_of d l' = size_of d l"
    using layout_data_placed [OF b(1) ds(1) b(3), of 0] room by fastforce
  have "max 1 (align_of d l) dvd al" if "d \<in> set ds" for d using data_alignment_aligned [OF al ds(2)] that by blast
  moreover have "moved (max 1 (align_of d l)) d l l'" if "d \<in> set ds" for d
    using r(3) that calculation [OF that] unfolding moved_def by (meson dvd_trans)
  ultimately show ?thesis using r by blast
qed

lemma section_offset:
  assumes al: "data_alignment v sh_align ds 0 l = Some (Inr al)" and sh: "0 < sh_align"
    and rc: "rc + max al sh_align \<le> 2 ^ 64"
  shows "rc \<le> roundup2 rc (max al sh_align)" "roundup2 rc (max al sh_align) < rc + max al sh_align"
    "max al sh_align dvd roundup2 rc (max al sh_align)" "sh_align dvd max al sh_align" "max 1 al dvd max al sh_align"
proof -
  let ?m = "max al sh_align"
  have m: "0 < ?m" using sh by simp
  show "rc \<le> roundup2 rc ?m" "roundup2 rc ?m < rc + ?m" "?m dvd roundup2 rc ?m" using roundup2_props [OF m rc] by blast+
  show "sh_align dvd ?m" "max 1 al dvd ?m"
    using data_alignment_dvd [OF al] sh by (auto simp: max_def dest: dvd_imp_le)
qed

text \<open>The steps of a successful computation of an extent\<close>

lemma compute_extents_run:
  assumes run: "libelf_compute_section_extents e s rc l = Some ((True, rc'), l')"
    and e: "elfs l e = Some E" "e_elf_flags E AND ELF_F_LAYOUT = 0" "e_cmd E = ELF_C_WRITE"
    and S: "scns l s = Some S" "s_flags S AND ELF_F_DIRTY \<noteq> 0"
    and s: "addralign (e_class E) s l \<le> 2 ^ 31" "\<not> no_extent (e_class E) s l"
  obtains sa al n l1 l2 ent where "0 < sa" "sa \<le> 2 ^ 31" "addralign (e_class E) s l \<noteq> 0 \<longrightarrow> addralign (e_class E) s l = sa" "scn_valid E s l"
    "data_alignment (e_elf_version E) sa (s_data S) 0 l = Some (Inr al)" "layout_data False al (s_data S) 0 l = Some (n, l1)"
    "mem l2 = mem l1" "host_be l2 = host_be l1" "elfs l2 = elfs l1" "scns l2 = scns l1" "datas l2 = datas l1"
    "rc' = extend_rc rc (roundup2 rc (max al sa)) n"
    "l' = upd_scn s (\<lambda>S. S\<lparr>s_size := n, s_offset := roundup2 rc (max al sa)\<rparr>)
       (put_extent (e_class E) s (max al sa) ent (roundup2 rc (max al sa)) n l2)"
proof -
  let ?ec = "e_class E"
  obtain ty a0 es off sz where m: "extent_members ?ec s l = (ty, a0, es, off, sz)" by (metis prod_cases5)
  have ty: "ty \<noteq> SHT_NULL" "ty \<noteq> SHT_NOBITS" using s(2) m by (auto simp: no_extent_def)
  obtain t where t: "libelf_xlate_shtype ty = Some t"
    using run e S m ty by (cases "libelf_xlate_shtype ty") (auto simp: libelf_compute_section_extents_def)
  define sa where "sa = (if a0 = 0 then libelf_falign t ?ec else a0)"
  note unfold = libelf_compute_section_extents_def sa_def [symmetric] Let_def
  have sa: "0 < sa" using run e S m ty t by (cases "sa = 0") (simp_all add: unfold)
  obtain al where al: "data_alignment (e_elf_version E) sa (s_data S) 0 l = Some (Inr al)"
  proof (cases "data_alignment (e_elf_version E) sa (s_data S) 0 l")
    case None
    then show ?thesis using run e S m ty t sa by (simp add: unfold)
  next
    case (Some r)
    then show ?thesis using that run e S m ty t sa by (cases r) (simp_all add: unfold)
  qed
  obtain n l1 where lay: "layout_data False al (s_data S) 0 l = Some (n, l1)"
    using run e S m ty t sa al by (cases "layout_data False al (s_data S) 0 l") (auto simp: unfold)
  let ?o = "roundup2 rc (max al sa)"
  define fl where "fl = (if es = 0 then fsize_call t ?ec (e_elf_version E) 1 l1 else (es, l1))"
  have fr: "mem (snd fl) = mem l1" "host_be (snd fl) = host_be l1" "elfs (snd fl) = elfs l1" "scns (snd fl) = scns l1"
    "datas (snd fl) = datas l1" by (simp_all add: fl_def)
  have "rc' = extend_rc rc ?o n"
    "l' = upd_scn s (\<lambda>S. S\<lparr>s_size := n, s_offset := ?o\<rparr>)
       (put_extent ?ec s (max al sa) (if es = 0 \<and> fst fl = 1 then 0 else fst fl) ?o n (snd fl))"
    using run e S m ty t sa al lay
    by (auto simp: libelf_compute_section_extents_def Let_def fl_def sa_def max_def split: prod.splits if_splits)
  moreover have "sa \<le> 2 ^ 31" "addralign ?ec s l \<noteq> 0 \<longrightarrow> addralign ?ec s l = sa" using s(1) m falign_bound [of t ?ec] by (simp_all add: sa_def addralign_def)
  moreover have "\<forall>d\<in>set (s_data S). data_valid (e_elf_version E) sa d l" using al data_alignment_valid [of "e_elf_version E" sa "s_data S" 0 l] by blast
  then have "scn_valid E s l" using m t S(1) by (simp add: scn_valid_def addralign_def Let_def data_of_def sa_def)
  ultimately show ?thesis using that sa al lay fr by blast
qed

text \<open>The extent of a section that the library computes, when the function succeeds\<close>

lemma compute_extents_placed:
  assumes run: "libelf_compute_section_extents e s rc l = Some ((True, rc'), l')"
    and e: "elfs l e = Some E" "e_elf_flags E AND ELF_F_LAYOUT = 0" "e_cmd E = ELF_C_WRITE"
    and s: "plain_scn (e_class E) s l" "\<not> no_extent (e_class E) s l" "rc + scn_room s l < 2 ^ 64"
  shows "\<exists>S'. scns l' s = Some S' \<and> scn_placed rc S' (datas l') \<and> rc' = s_offset S' + s_size S' \<and>
    rc' \<le> rc + scn_room s l \<and> extent_frame s l l' \<and> \<not> no_extent (e_class E) s l' \<and> scn_aligned (e_class E) s l l' \<and> scn_valid E s l"
proof -
  let ?ec = "e_class E"
  obtain S where S: "scns l s = Some S" "s_flags S AND ELF_F_DIRTY \<noteq> 0" "distinct (s_data S)"
      "\<forall>d\<in>set (s_data S). align_of d l \<le> 2 ^ 31" "addralign ?ec s l \<le> 2 ^ 31"
    using s(1) by (auto simp: plain_scn_def)
  obtain sa al n l1 l2 ent where sa: "0 < sa" "sa \<le> 2 ^ 31" "addralign ?ec s l \<noteq> 0 \<longrightarrow> addralign ?ec s l = sa" and valid: "scn_valid E s l"
    and al: "data_alignment (e_elf_version E) sa (s_data S) 0 l = Some (Inr al)"
    and lay: "layout_data False al (s_data S) 0 l = Some (n, l1)"
    and l2: "mem l2 = mem l1" "host_be l2 = host_be l1" "elfs l2 = elfs l1" "scns l2 = scns l1" "datas l2 = datas l1"
    and out: "rc' = extend_rc rc (roundup2 rc (max al sa)) n"
      "l' = upd_scn s (\<lambda>S. S\<lparr>s_size := n, s_offset := roundup2 rc (max al sa)\<rparr>)
       (put_extent ?ec s (max al sa) ent (roundup2 rc (max al sa)) n l2)"
    by (rule compute_extents_run [OF run e S(1,2,5) s(2)])
  let ?o = "roundup2 rc (max al sa)" and ?p = "put_extent ?ec s (max al sa) ent (roundup2 rc (max al sa)) n l2"
  have ds: "data_of s l = s_data S" and room: "scn_room s l = room (2 ^ 31) (s_data S) l + 2 ^ 31"
    using S(1) by (simp_all add: scn_room_def data_of_def)
  have l1: "data_placed 0 (s_data S) n (datas l1)" "n \<le> room (2 ^ 31) (s_data S) l" "l1 = l\<lparr>datas := datas l1\<rparr>"
      "\<forall>d. d \<notin> set (s_data S) \<longrightarrow> datas l1 d = datas l d" "\<forall>d. size_of d l1 = size_of d l"
      "\<forall>d\<in>set (s_data S). max 1 (align_of d l) dvd al \<and> moved (max 1 (align_of d l)) d l l1"
    using layout_section_data [OF al S(3,4)] s(3) room lay by auto
  have l1': "mem l1 = mem l" "host_be l1 = host_be l" "elfs l1 = elfs l" "scns l1 = scns l" by (subst l1(3), simp)+
  have alb: "al \<le> 2 ^ 31" using data_alignment_bounds [OF al S(4)] by simp
  have o: "rc \<le> ?o" "?o < rc + max al sa" "max al sa dvd ?o" "sa dvd max al sa" "max 1 al dvd max al sa" using section_offset [OF al sa(1), of rc] sa(2) alb s(3) room by auto
  have on: "?o + n \<le> rc + scn_room s l" using o(2) l1(2) sa(2) alb room by linarith
  then have "rc' = ?o + n" using o(1) s(3) out(1) by (auto simp: extend_rc_def)
  moreover have S': "scns l' s = Some (S\<lparr>s_size := n, s_offset := ?o\<rparr>)"
    using S(1) by (simp add: out(2) upd_scn_def put_extent_frame l2 l1')
  moreover have "scn_placed rc (S\<lparr>s_size := n, s_offset := ?o\<rparr>) (datas l')"
    using o l1(1) by (simp add: scn_placed_def out(2) upd_scn_def put_extent_frame l2)
  moreover have "extent_frame s l l'"
    using S(1) l1(4,5) S' by (simp add: extent_frame_def ds out(2) upd_scn_def put_extent_frame l2 l1' data_of_def size_of_def)
  moreover have "extent_members ?ec s l' = extent_members ?ec s ?p" "extent_members ?ec s l2 = extent_members ?ec s l"
    by (rule extent_members_mem; simp add: out(2) upd_scn_def l2 l1')+
  then have "\<not> no_extent ?ec s l'" "addralign ?ec s l' = max al sa" using s(2) put_extent_align [of "max al sa"] alb sa(2)
    by (simp_all add: no_extent_def put_extent_type addralign_def)
  moreover have "scn_aligned ?ec s l l'"
  proof -
    have "max 1 (align_of d l) dvd max al sa \<and> moved (max 1 (align_of d l)) d l l'" if "d \<in> set (s_data S)" for d
    proof -
      have "0 < al" using data_alignment_bounds [OF al S(4)] that by (cases "s_data S") auto
      then have "max 1 al = al" by simp
      then have "max 1 (align_of d l) dvd max 1 al" "moved (max 1 (align_of d l)) d l l1" using l1(6) that by (simp_all only:)
      moreover have "datas l' = datas l1" by (simp add: out(2) upd_scn_def put_extent_frame l2)
      ultimately show ?thesis using o(5) by (auto simp: moved_def intro: dvd_trans)
    qed
    then show ?thesis unfolding scn_aligned_def ds \<open>addralign ?ec s l' = max al sa\<close> using S' o(3,4) sa(1,3) by auto
  qed
  ultimately show ?thesis using on valid by (intro exI [of _ "S\<lparr>s_size := n, s_offset := ?o\<rparr>"]) simp
qed

section \<open>All sections\<close>

text \<open>
  The sections \<open>ss\<close> lie one behind the other from \<open>lo\<close> on up to \<open>hi\<close>, each aligned and with its data inside.
\<close>

primrec scns_placed :: "nat \<Rightarrow> addr list \<Rightarrow> nat \<Rightarrow> libelf \<Rightarrow> bool" where
  "scns_placed lo [] hi l \<longleftrightarrow> lo = hi"
| "scns_placed lo (s # ss) hi l \<longleftrightarrow>
    (\<exists>S. scns l s = Some S \<and> scn_placed lo S (datas l) \<and> scns_placed (s_offset S + s_size S) ss hi l)"

text \<open>Sections whose headers and data are separate objects\<close>

definition apart :: "addr \<Rightarrow> addr \<Rightarrow> libelf \<Rightarrow> bool" where
  "apart s s' l \<longleftrightarrow> s \<noteq> s' \<and> disjoint_ranges s 64 s' 64 \<and> set (data_of s l) \<inter> set (data_of s' l) = {}"

primrec all_apart :: "addr list \<Rightarrow> libelf \<Rightarrow> bool" where
  "all_apart [] l \<longleftrightarrow> True"
| "all_apart (s # ss) l \<longleftrightarrow> (\<forall>s'\<in>set ss. apart s s' l) \<and> all_apart ss l"

definition file_scns :: "int \<Rightarrow> addr list \<Rightarrow> libelf \<Rightarrow> addr list" where
  "file_scns ec ss l = filter (\<lambda>s. \<not> no_extent ec s l) ss"

definition all_room :: "addr list \<Rightarrow> libelf \<Rightarrow> nat" where
  "all_room ss l = sum_list (map (\<lambda>s. scn_room s l) ss)"

lemma scn_placed_cong:
  assumes "\<And>d. d \<in> set (s_data S) \<Longrightarrow> dm d = dm' d"
  shows "scn_placed lo S dm = scn_placed lo S dm'"
  unfolding scn_placed_def using data_placed_cong [of "s_data S" dm dm', OF assms] by simp

text \<open>The layout of the section \<open>s\<close> leaves the section \<open>s'\<close> alone.\<close>

lemma extent_frame_apart:
  assumes "extent_frame s l l'" "apart s s' l"
  shows "scns l' s' = scns l s'" "data_of s' l' = data_of s' l" "\<And>d. d \<in> set (data_of s' l) \<Longrightarrow> datas l' d = datas l d"
    "extent_members ec s' l' = extent_members ec s' l"
proof -
  show s: "scns l' s' = scns l s'" using assms by (auto simp: extent_frame_def apart_def)
  then show "data_of s' l' = data_of s' l" by (simp add: data_of_def)
  show "\<And>d. d \<in> set (data_of s' l) \<Longrightarrow> datas l' d = datas l d" using assms by (auto simp: extent_frame_def apart_def)
  show "extent_members ec s' l' = extent_members ec s' l"
    using assms by (intro shdr_members_outside [of s]) (auto simp: extent_frame_def apart_def)
qed

lemma extent_frame_room: "extent_frame s l l' \<Longrightarrow> apart s s' l \<Longrightarrow> scn_room s' l' = scn_room s' l"
  by (simp add: scn_room_def room_def extent_frame_apart(2)) (simp add: extent_frame_def)

lemma extent_frame_plain: "extent_frame s l l' \<Longrightarrow> apart s s' l \<Longrightarrow> plain_scn ec s' l \<Longrightarrow> plain_scn ec s' l'"
  by (auto simp: plain_scn_def extent_frame_apart align_of_def data_of_def addralign_def)

lemma extent_frame_no_extent: "extent_frame s l l' \<Longrightarrow> apart s s' l \<Longrightarrow> no_extent ec s' l' = no_extent ec s' l"
  by (simp add: no_extent_def extent_frame_apart(4))

text \<open>A section that has not been touched\<close>

definition same_scn :: "addr \<Rightarrow> libelf \<Rightarrow> libelf \<Rightarrow> bool" where
  "same_scn s l l' \<longleftrightarrow> scns l' s = scns l s \<and> (\<forall>d\<in>set (data_of s l). datas l' d = datas l d) \<and>
     (\<forall>ec. extent_members ec s l' = extent_members ec s l)"

lemma extent_frame_same: "extent_frame s l l' \<Longrightarrow> apart s s' l \<Longrightarrow> same_scn s' l l'"
  by (simp add: same_scn_def extent_frame_apart)

lemma same_scn_trans: "same_scn s l l1 \<Longrightarrow> same_scn s l1 l2 \<Longrightarrow> same_scn s l l2"
  by (auto simp: same_scn_def data_of_def)

lemma same_scn_facts:
  assumes "same_scn s l l1"
  shows "scns l1 s = scns l s" "data_of s l1 = data_of s l" "addralign ec s l1 = addralign ec s l" "no_extent ec s l1 = no_extent ec s l"
    "\<And>d. d \<in> set (data_of s l) \<Longrightarrow> datas l1 d = datas l d" "extent_members ec s l1 = extent_members ec s l"
  using assms by (simp_all add: same_scn_def data_of_def addralign_def no_extent_def)

lemma scn_aligned_before:
  assumes "same_scn s l l1" "scn_aligned ec s l1 l'"
  shows "scn_aligned ec s l l'"
proof -
  note F = same_scn_facts [OF assms(1)]
  have "align_of d l1 = align_of d l \<and> moved a d l1 l' = moved a d l l'" if "d \<in> set (data_of s l)" for d a
    using F(5) [OF that] by (simp add: align_of_def moved_def)
  then show ?thesis using assms(2) unfolding scn_aligned_def F(2,3) by (metis (no_types, lifting))
qed

lemma scn_aligned_after:
  assumes "same_scn s l1 l'" "scn_aligned ec s l l1"
  shows "scn_aligned ec s l l'"
proof -
  note F = same_scn_facts [OF assms(1)]
  obtain S where S: "scns l1 s = Some S" "s_data S = data_of s l" using assms(2) by (auto simp: scn_aligned_def)
  then have "moved a d l l' = moved a d l l1" if "d \<in> set (data_of s l)" for d a
    using F(5) [of d] that by (simp add: moved_def data_of_def)
  then show ?thesis using assms(2) unfolding scn_aligned_def F(1,3) by (metis (no_types, lifting))
qed

lemma scn_valid_same:
  assumes "same_scn s l l1"
  shows "scn_valid E s l1 = scn_valid E s l"
proof -
  note F = same_scn_facts [OF assms(1)]
  have "data_valid v a d l1 = data_valid v a d l" if "d \<in> set (data_of s l)" for v a d using F(5) [OF that] by (simp add: data_valid_def)
  then show ?thesis unfolding scn_valid_def F(2-4,6) Let_def by (simp cong: option.case_cong)
qed

lemma apart_commute: "apart s s' l = apart s' s l"
  by (auto simp: apart_def disjoint_ranges_def)

lemma apart_frame:
  assumes "extent_frame s l l'" "s1 = s \<or> apart s s1 l" "s2 = s \<or> apart s s2 l"
  shows "apart s1 s2 l' = apart s1 s2 l"
proof -
  have "data_of x l' = data_of x l" if "x = s \<or> apart s x l" for x
    using that extent_frame_apart(2) [OF assms(1)] assms(1) by (metis extent_frame_def)
  from this [OF assms(2)] this [OF assms(3)]
  show ?thesis by (simp add: apart_def)
qed

lemma all_apart_frame: "extent_frame s l l' \<Longrightarrow> \<forall>s'\<in>set ss. apart s s' l \<Longrightarrow> all_apart ss l' = all_apart ss l"
  by (induction ss) (auto simp: apart_frame)

lemma compute_extents_skip:
  "elfs l e = Some E \<Longrightarrow> scns l s \<noteq> None \<Longrightarrow> no_extent (e_class E) s l \<Longrightarrow>
     libelf_compute_section_extents e s rc l = Some ((True, rc), l)"
  by (auto simp: libelf_compute_section_extents_def no_extent_def Let_def split: prod.splits)

lemma extents_loop_placed:
  assumes "extents_loop e ss rc l = Some ((True, rc'), l')"
    and "elfs l e = Some E" "e_elf_flags E AND ELF_F_LAYOUT = 0" "e_cmd E = ELF_C_WRITE"
    and "all_apart ss l" "\<forall>s\<in>set ss. plain_scn (e_class E) s l" "rc + all_room ss l < 2 ^ 64"
  shows "scns_placed rc (file_scns (e_class E) ss l) rc' l' \<and> elfs l' = elfs l \<and> rc' \<le> rc + all_room ss l \<and>
    (\<forall>s\<in>set ss. scns l' s \<noteq> None \<and> no_extent (e_class E) s l' = no_extent (e_class E) s l) \<and>
    (\<forall>s'. (\<forall>s\<in>set ss. apart s s' l) \<longrightarrow> same_scn s' l l') \<and>
    (\<forall>s\<in>set (file_scns (e_class E) ss l). scn_aligned (e_class E) s l l') \<and> (\<forall>s\<in>set ss. scn_valid E s l)"
  using assms(1,2,5-)
proof (induction ss arbitrary: rc l)
  case Nil
  then show ?case by (simp add: file_scns_def same_scn_def)
next
  case (Cons s ss)
  let ?ec = "e_class E"
  have room: "all_room (s # ss) l = scn_room s l + all_room ss l" by (simp add: all_room_def)
  obtain rc1 l1 where one: "libelf_compute_section_extents e s rc l = Some ((True, rc1), l1)"
    and rest: "extents_loop e ss rc1 l1 = Some ((True, rc'), l')"
    using Cons.prems(1) by (auto simp: bind_eq_Some_conv split: if_splits)
  have ap: "\<forall>s'\<in>set ss. apart s s' l" "all_apart ss l" using Cons.prems(3) by auto
  have s: "plain_scn ?ec s l" "rc + scn_room s l < 2 ^ 64" using Cons.prems(4,5) room by auto
  have skip: "rc1 = rc \<and> l1 = l" if "no_extent ?ec s l"
    using one compute_extents_skip [OF Cons.prems(2) _ that] s(1) by (auto simp: plain_scn_def)
  have place: "\<exists>S'. scns l1 s = Some S' \<and> scn_placed rc S' (datas l1) \<and> rc1 = s_offset S' + s_size S' \<and>
    rc1 \<le> rc + scn_room s l \<and> extent_frame s l l1 \<and> \<not> no_extent ?ec s l1 \<and> scn_aligned ?ec s l l1 \<and> scn_valid E s l" if "\<not> no_extent ?ec s l"
    by (rule compute_extents_placed [OF one Cons.prems(2) assms(3,4) s(1) that s(2)])
  have fr: "extent_frame s l l1" and rc1: "rc1 \<le> rc + scn_room s l" and ne: "scns l1 s \<noteq> None" "no_extent ?ec s l1 = no_extent ?ec s l"
    using skip place s(1) by (cases "no_extent ?ec s l"; auto simp: extent_frame_def plain_scn_def)+
  have room1: "all_room ss l1 = all_room ss l" using extent_frame_room [OF fr] ap(1) by (simp add: all_room_def cong: map_cong)
  have fs: "file_scns ?ec ss l1 = file_scns ?ec ss l"
    using extent_frame_no_extent [OF fr] ap(1) by (simp add: file_scns_def cong: filter_cong)
  have "elfs l1 e = Some E" "all_apart ss l1" "\<forall>s'\<in>set ss. plain_scn ?ec s' l1" "rc1 + all_room ss l1 < 2 ^ 64"
    using fr Cons.prems ap all_apart_frame [OF fr] extent_frame_plain [OF fr] rc1 room room1 by (auto simp: extent_frame_def)
  from Cons.IH [OF rest this]
  have IH: "scns_placed rc1 (file_scns ?ec ss l) rc' l'" "elfs l' = elfs l1" "rc' \<le> rc1 + all_room ss l"
    "\<And>s'. s' \<in> set ss \<Longrightarrow> scns l' s' \<noteq> None \<and> no_extent ?ec s' l' = no_extent ?ec s' l1"
    "\<And>s'. \<forall>s2\<in>set ss. apart s2 s' l1 \<Longrightarrow> same_scn s' l1 l'"
    "\<And>s'. s' \<in> set (file_scns ?ec ss l) \<Longrightarrow> scn_aligned ?ec s' l1 l'" "\<And>s'. s' \<in> set ss \<Longrightarrow> scn_valid E s' l1" unfolding fs room1 by auto
  have sl: "same_scn s l1 l'" using apart_frame [OF fr] ap(1) apart_commute by (intro IH(5)) blast
  then have same: "scns l' s = scns l1 s" "\<And>d. d \<in> set (data_of s l1) \<Longrightarrow> datas l' d = datas l1 d" "no_extent ?ec s l' = no_extent ?ec s l1"
    by (simp_all add: same_scn_def no_extent_def)
  have "scns_placed rc (file_scns ?ec (s # ss) l) rc' l'"
  proof (cases "no_extent ?ec s l")
    case True
    then show ?thesis using skip IH(1) by (simp add: file_scns_def)
  next
    case False
    then obtain S' where S': "scns l1 s = Some S'" "scn_placed rc S' (datas l1)" "rc1 = s_offset S' + s_size S'" using place by blast
    then have "scn_placed rc S' (datas l')" using scn_placed_cong [of S' "datas l'" "datas l1"] same(2) by (simp add: data_of_def)
    then show ?thesis using False IH(1) S' same(1) by (simp add: file_scns_def)
  qed
  moreover have "same_scn s' l l'" if "\<forall>s2\<in>set (s # ss). apart s2 s' l" for s'
    using that ap(1) apart_frame [OF fr] by (intro same_scn_trans [OF extent_frame_same [OF fr] IH(5)]) auto
  moreover have "scns l' s' \<noteq> None \<and> no_extent ?ec s' l' = no_extent ?ec s' l" if "s' \<in> set (s # ss)" for s'
    using that same(1,3) ne IH(4) extent_frame_no_extent [OF fr] ap(1) by auto
  moreover have "elfs l' = elfs l" using IH(2) fr by (simp add: extent_frame_def)
  moreover have "rc' \<le> rc + all_room (s # ss) l" using IH(3) rc1 room by linarith
  moreover have "scn_aligned ?ec s' l l'" if "s' \<in> set (file_scns ?ec (s # ss) l)" for s'
  proof (cases "s' \<in> set (file_scns ?ec ss l)")
    case True
    then have "same_scn s' l l1" using ap(1) by (intro extent_frame_same [OF fr]) (simp add: file_scns_def)
    then show ?thesis using IH(6) [OF True] scn_aligned_before by blast
  next
    case False
    then have "s' = s" "\<not> no_extent ?ec s l" using that by (auto simp: file_scns_def split: if_splits)
    then show ?thesis using place scn_aligned_after [OF sl] by blast
  qed
  moreover have "scn_valid E s' l" if "s' \<in> set (s # ss)" for s'
  proof (cases "s' \<in> set ss")
    case True
    then have "same_scn s' l l1" using ap(1) by (intro extent_frame_same [OF fr]) simp
    then show ?thesis using IH(7) [OF True] scn_valid_same by blast
  next
    case False
    then have "s' = s" using that by simp
    then show ?thesis using place by (cases "no_extent ?ec s l") (simp add: scn_valid_def, blast)
  qed
  ultimately show ?case by blast
qed

subsection \<open>Totality\<close>

lemma data_alignment_total: "\<forall>d\<in>set ds. datas l d \<noteq> None \<Longrightarrow> \<exists>r. data_alignment v a ds acc l = Some r"
  by (induction ds arbitrary: acc) (auto simp: Let_def)

lemma layout_data_total: "\<forall>d\<in>set ds. datas l d \<noteq> None \<Longrightarrow> \<exists>r. layout_data lay a ds sz l = Some r"
proof (induction ds arbitrary: sz l)
  case (Cons d ds)
  then obtain D where "datas l d = Some D" by auto
  moreover have "\<exists>r. layout_data lay a ds sz' (upd_data d f l) = Some r" for f sz'
    using Cons.prems by (intro Cons.IH) (simp add: upd_data_def split: option.split)
  moreover have "\<exists>r. layout_data lay a ds sz' l = Some r" for sz' using Cons.prems by (intro Cons.IH) simp
  ultimately show ?case by (cases lay) (simp_all add: Let_def)
qed simp

text \<open>The errors of the layout of a section\<close>

definition extent_errors :: "Elf_Error set" where
  "extent_errors = {ELF_E_SECTION, ELF_E_VERSION, ELF_E_LAYOUT, ELF_E_DATA}"

text \<open>The function returns, and sets one of these errors if it fails.\<close>

definition returns_or_error :: "((bool \<times> nat) \<times> libelf) option \<Rightarrow> bool" where
  "returns_or_error x \<longleftrightarrow> (case x of None \<Rightarrow> False | Some ((r, _), l') \<Rightarrow> r \<or> libelf_error l' \<in> extent_errors)"

lemma returns_or_error_simps [simp]:
  "returns_or_error (Some ((True, n), l))" "returns_or_error (Some ((False, n), l)) \<longleftrightarrow> libelf_error l \<in> extent_errors"
  by (simp_all add: returns_or_error_def)

lemma returns_or_errorD: "returns_or_error x \<Longrightarrow> \<exists>r n l'. x = Some ((r, n), l') \<and> (\<not> r \<longrightarrow> libelf_error l' \<in> extent_errors)"
  by (auto simp: returns_or_error_def split: option.splits)

lemma data_alignment_error: "data_alignment v a ds acc l = Some (Inl err) \<Longrightarrow> err \<in> extent_errors"
  by (induction ds arbitrary: acc) (auto simp: bind_eq_Some_conv Let_def extent_errors_def split: if_splits)

lemma falign_shtype: "libelf_xlate_shtype ty = Some t \<Longrightarrow> 0 < libelf_falign t ec"
  by (auto simp: libelf_xlate_shtype_def libelf_falign_def split: if_splits)

lemma compute_extents_total:
  assumes E: "elfs l e = Some E" and S: "scns l s = Some S" "\<forall>d\<in>set (s_data S). datas l d \<noteq> None"
  shows "returns_or_error (libelf_compute_section_extents e s rc l)"
proof -
  obtain ty a0 es off sz where m: "extent_members (e_class E) s l = (ty, a0, es, off, sz)" by (metis prod_cases5)
  show ?thesis
  proof (cases "ty = SHT_NULL \<or> ty = SHT_NOBITS \<or> s_flags S AND ELF_F_DIRTY = 0 \<or> (e_cmd E = ELF_C_RDWR \<and> s_data S = [])")
    case True
    then show ?thesis using E S m by (auto simp: libelf_compute_section_extents_def Let_def)
  next
    case run: False
    show ?thesis
    proof (cases "libelf_xlate_shtype ty")
      case None
      then show ?thesis using E S m run
        by (simp add: libelf_compute_section_extents_def Let_def extent_errors_def LIBELF_SET_ERROR_def)
    next
      case (Some t)
      let ?sa = "if a0 = 0 then libelf_falign t (e_class E) else a0"
      have sa: "?sa \<noteq> 0" using falign_shtype [OF Some] by auto
      obtain r where r: "data_alignment (e_elf_version E) ?sa (s_data S) 0 l = Some r" using data_alignment_total [OF S(2)] by blast
      show ?thesis
      proof (cases r)
        case (Inl err)
        then show ?thesis using E S m run Some sa r data_alignment_error [OF r [unfolded Inl]]
          by (simp add: libelf_compute_section_extents_def LIBELF_SET_ERROR_def Let_def)
      next
        case (Inr al)
        obtain n l1 where "layout_data (e_elf_flags E AND ELF_F_LAYOUT \<noteq> 0) al (s_data S) 0 l = Some (n, l1)"
          using layout_data_total [OF S(2)] by (metis surj_pair)
        then show ?thesis using E S m run Some sa r Inr
          by (cases "e_elf_flags E AND ELF_F_LAYOUT = 0"; cases "a0 = 0")
            (simp_all add: libelf_compute_section_extents_def LIBELF_SET_ERROR_def extent_errors_def Let_def case_prod_beta)
      qed
    qed
  qed
qed

lemma compute_extents_valid:
  assumes E: "elfs l e = Some E" "e_elf_flags E AND ELF_F_LAYOUT = 0" "e_cmd E = ELF_C_WRITE" and s: "plain_scn (e_class E) s l" "scn_valid E s l"
    and run: "libelf_compute_section_extents e s rc l = Some ((r, rc1), l1)"
  shows r
proof (cases "no_extent (e_class E) s l")
  case True
  then show ?thesis using run compute_extents_skip [OF E(1) _ True, of rc] s(1) by (auto simp: plain_scn_def)
next
  case False
  obtain S where S: "scns l s = Some S" "s_flags S AND ELF_F_DIRTY \<noteq> 0" "\<forall>d\<in>set (s_data S). datas l d \<noteq> None" using s(1) by (auto simp: plain_scn_def)
  obtain ty a0 es off sz where m: "extent_members (e_class E) s l = (ty, a0, es, off, sz)" by (metis prod_cases5)
  have ty: "ty \<noteq> SHT_NULL" "ty \<noteq> SHT_NOBITS" using False m by (auto simp: no_extent_def)
  let ?sa = "\<lambda>t. if a0 = 0 then libelf_falign t (e_class E) else a0"
  obtain t where t: "libelf_xlate_shtype ty = Some t" "\<forall>d\<in>set (s_data S). data_valid (e_elf_version E) (?sa t) d l"
    using s(2) False m S(1) by (auto simp: scn_valid_def addralign_def data_of_def Let_def split: option.splits)
  have sa: "?sa t \<noteq> 0" using falign_shtype [OF t(1)] by auto
  obtain al where al: "data_alignment (e_elf_version E) (?sa t) (s_data S) 0 l = Some (Inr al)" using t(2) data_alignment_valid by blast
  obtain n l1 where "layout_data False al (s_data S) 0 l = Some (n, l1)" using layout_data_total [OF S(3)] by (metis surj_pair)
  then show ?thesis using run E S(1,2) m ty t(1) sa al
    by (cases "a0 = 0") (simp_all add: libelf_compute_section_extents_def Let_def case_prod_beta)
qed

lemma extents_loop_total:
  assumes "elfs l e = Some E" "e_elf_flags E AND ELF_F_LAYOUT = 0" "e_cmd E = ELF_C_WRITE"
    and "all_apart ss l" "\<forall>s\<in>set ss. plain_scn (e_class E) s l" "rc + all_room ss l < 2 ^ 64"
  shows "\<exists>r rc' l'. extents_loop e ss rc l = Some ((r, rc'), l') \<and> (\<not> r \<longrightarrow> libelf_error l' \<in> extent_errors) \<and>
    (r \<longleftrightarrow> (\<forall>s\<in>set ss. scn_valid E s l))"
  using assms(1,4-)
proof (induction ss arbitrary: rc l)
  case (Cons s ss)
  let ?ec = "e_class E"
  have room: "all_room (s # ss) l = scn_room s l + all_room ss l" by (simp add: all_room_def)
  have ap: "\<forall>s'\<in>set ss. apart s s' l" "all_apart ss l" using Cons.prems(2) by auto
  obtain S where S: "scns l s = Some S" "\<forall>d\<in>set (s_data S). datas l d \<noteq> None" using Cons.prems(3) by (auto simp: plain_scn_def)
  obtain r rc1 l1 where one: "libelf_compute_section_extents e s rc l = Some ((r, rc1), l1)" "\<not> r \<longrightarrow> libelf_error l1 \<in> extent_errors"
    using compute_extents_total [OF Cons.prems(1) S] by (blast dest: returns_or_errorD)
  show ?case
  proof (cases r)
    case True
    have fr: "extent_frame s l l1 \<and> rc1 \<le> rc + scn_room s l \<and> scn_valid E s l"
    proof (cases "no_extent ?ec s l")
      case n: True
      then show ?thesis using one(1) compute_extents_skip [OF Cons.prems(1) _ n, of rc] S(1) by (auto simp: extent_frame_def scn_valid_def)
    next
      case False
      then show ?thesis using compute_extents_placed [OF one(1) [unfolded eqTrueI [OF True]] Cons.prems(1) assms(2,3)] Cons.prems(3,4) room by auto
    qed
    then have v: "scn_valid E s' l1 = scn_valid E s' l" if "s' \<in> set ss" for s'
      using that ap(1) scn_valid_same [OF extent_frame_same, of s l l1 s' E] by blast
    have "\<exists>r rc' l'. extents_loop e ss rc1 l1 = Some ((r, rc'), l') \<and> (\<not> r \<longrightarrow> libelf_error l' \<in> extent_errors) \<and>
        (r \<longleftrightarrow> (\<forall>s\<in>set ss. scn_valid E s l1))"
      using Cons.prems ap fr all_apart_frame [of s l l1 ss] extent_frame_plain [of s l l1] extent_frame_room [of s l l1] room
      by (intro Cons.IH) (auto simp: extent_frame_def all_room_def cong: map_cong)
    then show ?thesis using one(1) True fr v by simp
  next
    case False
    then have "\<not> scn_valid E s l" using compute_extents_valid [OF Cons.prems(1) assms(2,3) _ _ one(1)] Cons.prems(3) by auto
    then show ?thesis using one False by auto
  qed
qed auto

subsection \<open>The list of sections is in order already\<close>

definition first_of :: "addr list \<Rightarrow> addr" where
  "first_of ss = (case ss of [] \<Rightarrow> NULL | s # _ \<Rightarrow> s)"

lemma stailq_next_mid: "s \<notin> set pre \<Longrightarrow> stailq_next s (pre @ s # ss) = first_of ss"
  by (induction pre) (auto simp: first_of_def)

lemma scns_placed_le: "scns_placed lo ss hi l \<Longrightarrow> lo \<le> hi"
  by (induction ss arbitrary: lo) (fastforce simp: scn_placed_def)+

lemma sort_loop_ordered:
  assumes "elfs l e = Some E" "e_scn E = pre @ ss" "distinct (e_scn E)" "NULL \<notin> set (e_scn E)"
    and "\<forall>s\<in>set ss. scns l s \<noteq> None" "scns_placed rc (file_scns ec ss l) rc' l" "rc' < 2 ^ 64"
  shows "sort_loop e ec (first_of ss) rc l = Some (Some rc', l)"
  using assms(2,5,6)
proof (induction ss arbitrary: pre rc)
  case Nil
  then show ?case by (simp add: first_of_def file_scns_def sort_loop.simps)
next
  case (Cons s ss)
  obtain S where S: "scns l s = Some S" using Cons.prems(2) by auto
  have s: "s \<noteq> NULL" "s \<notin> set pre" "stailq_next s (e_scn E) = first_of ss"
    using assms(3,4) Cons.prems(1) stailq_next_mid [of s pre ss] by auto
  have IH: "scns_placed r (file_scns ec ss l) rc' l \<Longrightarrow> sort_loop e ec (first_of ss) r l = Some (Some rc', l)" for r
    using Cons.IH [of "pre @ [s]" r] Cons.prems(1,2) by simp
  have first: "first_of (s # ss) = s" by (simp add: first_of_def)
  show ?case
  proof (cases "no_extent ec s l")
    case True
    then show ?thesis using S s assms(1) Cons.prems(3) IH [of rc] unfolding first
      by (subst sort_loop.simps) (auto simp: no_extent_def file_scns_def)
  next
    case False
    then have pl: "scn_placed rc S (datas l)" "scns_placed (s_offset S + s_size S) (file_scns ec ss l) rc' l"
      using Cons.prems(3) S by (simp_all add: file_scns_def)
    then have "s_offset S + s_size S < 2 ^ 64" using scns_placed_le assms(7) by fastforce
    then show ?thesis using S s assms(1) pl IH [OF pl(2)] False unfolding first
      by (subst sort_loop.simps) (auto simp: no_extent_def scn_placed_def)
  qed
qed

lemma all_apart_distinct: "all_apart ss l \<Longrightarrow> distinct ss"
  by (induction ss) (auto simp: apart_def)

section \<open>Sections that have not been modified\<close>

text \<open>Their extents are left alone.\<close>

lemma extents_loop_clean:
  assumes "elfs l e = Some E" "\<forall>s\<in>set ss. \<exists>S. scns l s = Some S \<and> s_flags S AND ELF_F_DIRTY = 0"
  shows "\<exists>rc'. extents_loop e ss rc l = Some ((True, rc'), l)"
  using assms(2)
proof (induction ss arbitrary: rc)
  case (Cons s ss)
  obtain ty a0 es off sz where m: "extent_members (e_class E) s l = (ty, a0, es, off, sz)" by (metis prod_cases5)
  have "\<exists>rc1. libelf_compute_section_extents e s rc l = Some ((True, rc1), l)"
    using assms(1) Cons.prems m by (auto simp: libelf_compute_section_extents_def Let_def)
  then show ?case using Cons.IH Cons.prems by auto
qed simp

section \<open>Properties\<close>

text \<open>
  A new 32-bit object with a section of code with two data descriptors and a string table, for
  examples.
\<close>

definition layout_shdr :: "32 word \<Rightarrow> 32 word \<Rightarrow> Elf32_Shdr" where
  "layout_shdr t n = \<lparr>sh_name = 0, sh_type = t, sh_flags = 0, sh_addr = 0, sh_offset = 0, sh_size = n, sh_link = 0, sh_info = 0,
     sh_addralign = 0, sh_entsize = 0\<rparr>"

definition layout_mem :: "32 word \<Rightarrow> 32 word \<Rightarrow> memory" where
  "layout_mem n k = put_bytes (put_bytes (\<lambda>a. of_nat a) 1024 (Elf32_Shdr_bytes False (layout_shdr SHT_PROGBITS n)))
     2048 (Elf32_Shdr_bytes False (layout_shdr SHT_STRTAB k))"

definition layout_data_at :: "addr \<Rightarrow> nat \<Rightarrow> nat \<Rightarrow> addr \<Rightarrow> Elf_Data" where
  "layout_data_at buf sz al s = \<lparr>d_align = al, d_buf = buf, d_off = 0, d_size = sz, d_type = ELF_T_BYTE,
     d_version = EV_CURRENT, d_scn = s, d_flags = 0\<rparr>"

definition layout_elf :: Elf where
  "layout_elf = \<lparr>e_activations = 1, e_arhdr = NULL, e_byteorder = ELFDATA2LSB, e_class = ELFCLASS32,
     e_cmd = ELF_C_WRITE, e_fd = 3, e_elf_flags = 0, e_kind = ELF_K_ELF, e_parent = NULL, e_rawfile = NULL, e_rawsize = 0,
     e_elf_version = EV_CURRENT, e_next = 0, e_nchildren = 0, e_rawstrtab = NULL, e_rawstrtabsz = 0,
     e_rawsymtab = NULL, e_rawsymtabsz = 0, e_symtab = NULL, e_symtabsz = 0, e_ehdr = NULL, e_phdr = NULL,
     e_scn = [1024, 2048], e_nphdr = 0, e_nscn = 2, e_strndx = 0\<rparr>"

definition layout_scn :: "addr list \<Rightarrow> nat \<Rightarrow> Elf_Scn" where
  "layout_scn ds n = \<lparr>s_data = ds, s_rawdata = [], s_elf = 16, s_flags = ELF_F_DIRTY, s_ndx = n, s_offset = 0, s_rawoff = 0, s_size = 0\<rparr>"

definition layout_example :: libelf where
  "layout_example = (xlate_state (layout_mem 0 0) [(4096, layout_data_at 8192 5 4 1024), (4160, layout_data_at 8200 3 2 1024),
      (4224, layout_data_at 8204 4 1 2048)])
    \<lparr>elfs := [16 \<mapsto> layout_elf], scns := [1024 \<mapsto> layout_scn [4096, 4160] 1, 2048 \<mapsto> layout_scn [4224] 2]\<rparr>"

lemma layout_example_simps:
  "elfs layout_example 16 = Some layout_elf" "host_be layout_example = False"
  "scns layout_example 1024 = Some (layout_scn [4096, 4160] 1)" "scns layout_example 2048 = Some (layout_scn [4224] 2)"
  "datas layout_example 4096 = Some (layout_data_at 8192 5 4 1024)" "datas layout_example 4160 = Some (layout_data_at 8200 3 2 1024)"
  "datas layout_example 4224 = Some (layout_data_at 8204 4 1 2048)" "mem layout_example = layout_mem 0 0"
  by (simp_all add: layout_example_def xlate_state_def)

lemma layout_example_members:
  "extent_members ELFCLASS32 1024 layout_example = (1, 0, 0, 0, 0)" "extent_members ELFCLASS32 2048 layout_example = (3, 0, 0, 0, 0)"
  by (simp_all add: extent_members_def shdr32_def layout_example_simps layout_mem_def elf32shdr.length_to_bytes elf32shdr.of_to
      layout_shdr_def Let_def)

text \<open>
  C32. When the library lays out the sections of a new file, \<open>_libelf_resync_sections\<close> always
  returns, without a failed assertion.  If the type of a section is unknown or a data descriptor has the wrong version or
  an alignment that is no power of two or no multiple of the alignment of its section, it returns \<open>-1\<close> with one of the errors for the
  section type, the version, the alignment or the layout of data.  Otherwise it returns the end of the
  last section, and the sections that occupy space in the file lie one behind the other in the
  order of the list, from the offset given on.  Each section lies at a multiple of the alignment in its header, which is a multiple of the
  one the application had set and of the alignments of its data, and its data lie one behind the other inside of it, every one of them at
  a multiple of its own alignment; nothing but the offset of a data descriptor has changed.
\<close>

theorem resync_sections_layout:
  assumes "elfs l e = Some E" "e_elf_flags E AND ELF_F_LAYOUT = 0" "e_cmd E = ELF_C_WRITE"
    and "NULL \<notin> set (e_scn E)" "all_apart (e_scn E) l" "\<forall>s\<in>set (e_scn E). plain_scn (e_class E) s l"
    and "rc + all_room (e_scn E) l < 2 ^ 64"
  shows "\<exists>r l'. libelf_resync_sections e rc l = Some (r, l') \<and>
    (if \<forall>s\<in>set (e_scn E). scn_valid E s l then
       elfs l' = elfs l \<and> r \<le> rc + all_room (e_scn E) l \<and> scns_placed rc (file_scns (e_class E) (e_scn E) l) r l' \<and>
       (\<forall>s\<in>set (file_scns (e_class E) (e_scn E) l). scn_aligned (e_class E) s l l')
     else r = OFF_MINUS_1 \<and> libelf_error l' \<in> extent_errors)"
proof -
  let ?ec = "e_class E"
  obtain ok rc' l' where run: "extents_loop e (e_scn E) rc l = Some ((ok, rc'), l')" "\<not> ok \<longrightarrow> libelf_error l' \<in> extent_errors"
      "ok \<longleftrightarrow> (\<forall>s\<in>set (e_scn E). scn_valid E s l)"
    using extents_loop_total [OF assms(1-3,5-7)] by blast
  show ?thesis
  proof (cases ok)
    case True
    have pl: "scns_placed rc (file_scns ?ec (e_scn E) l) rc' l'" "elfs l' = elfs l" "rc' \<le> rc + all_room (e_scn E) l"
      "\<forall>s\<in>set (file_scns ?ec (e_scn E) l). scn_aligned ?ec s l l'"
      and ne: "\<forall>s\<in>set (e_scn E). scns l' s \<noteq> None \<and> no_extent ?ec s l' = no_extent ?ec s l"
      using extents_loop_placed [OF run(1) [unfolded eqTrueI [OF True]] assms(1-3,5-7)] by blast+
    have fs: "file_scns ?ec (e_scn E) l' = file_scns ?ec (e_scn E) l" using ne by (simp add: file_scns_def cong: filter_cong)
    have "sort_loop e ?ec (first_of (e_scn E)) rc l' = Some (Some rc', l')"
      using pl(1,3) assms(1,4,7) all_apart_distinct [OF assms(5)] ne by (intro sort_loop_ordered [of _ _ E "[]"]) (simp_all add: pl(2) fs)
    then have "libelf_resync_sections e rc l = Some (rc', l')"
      using run(1) True assms(1,2) pl(2) by (simp add: libelf_resync_sections_def first_of_def)
    then show ?thesis using pl run(3) True by auto
  next
    case False
    then have "libelf_resync_sections e rc l = Some (OFF_MINUS_1, l')" using run(1) assms(1) by (simp add: libelf_resync_sections_def)
    then show ?thesis using run(2,3) False by auto
  qed
qed

theorem resync_sections_layout_witness:
  "\<exists>r l'. libelf_resync_sections 16 52 layout_example = Some (r, l') \<and> elfs l' = elfs layout_example \<and>
     scns_placed 52 [1024, 2048] r l' \<and> scn_aligned ELFCLASS32 1024 layout_example l' \<and> addralign ELFCLASS32 1024 l' mod 4 = 0"
proof -
  have "all_apart (e_scn layout_elf) layout_example" "NULL \<notin> set (e_scn layout_elf)"
    "\<forall>s\<in>set (e_scn layout_elf). plain_scn (e_class layout_elf) s layout_example"
    "52 + all_room (e_scn layout_elf) layout_example < 2 ^ 64"
    by (simp_all add: apart_def disjoint_ranges_def data_of_def plain_scn_def layout_example_simps layout_example_members
        layout_elf_def layout_scn_def layout_data_at_def addralign_def align_of_def all_room_def scn_room_def room_def size_of_def)
  moreover have "\<forall>s\<in>set (e_scn layout_elf). scn_valid layout_elf s layout_example"
    by (simp add: scn_valid_def layout_elf_def no_extent_def layout_example_members libelf_xlate_shtype_def addralign_def
        data_of_def layout_example_simps layout_scn_def data_valid_def layout_data_at_def libelf_falign_def not_power_of_2_def)
  moreover have "file_scns (e_class layout_elf) (e_scn layout_elf) layout_example = [1024, 2048]"
    by (simp add: file_scns_def layout_elf_def no_extent_def layout_example_members)
  ultimately obtain r l' where r: "libelf_resync_sections 16 52 layout_example = Some (r, l')" "elfs l' = elfs layout_example"
      "scns_placed 52 [1024, 2048] r l'" "scn_aligned (e_class layout_elf) 1024 layout_example l'"
    using resync_sections_layout [OF layout_example_simps(1), of 52] by (auto simp: layout_elf_def)
  moreover have "e_class layout_elf = ELFCLASS32" by (simp add: layout_elf_def)
  moreover have "align_of 4096 layout_example = 4" "4096 \<in> set (data_of 1024 layout_example)"
    by (simp_all add: align_of_def data_of_def layout_example_simps layout_scn_def layout_data_at_def)
  ultimately have "4 dvd addralign ELFCLASS32 1024 l'" by (force simp: scn_aligned_def)
  then show ?thesis using r \<open>e_class layout_elf = ELFCLASS32\<close> by (auto simp: mod_eq_0_iff_dvd)
qed

text \<open>
  When a section ends before the end of the section in front of it in the list but overlaps
  it, \<open>_libelf_resync_sections\<close> reports \<open>ELF_E_LAYOUT\<close>, but only after it has taken the section
  out of the list of the object: the failed call leaves an object that has lost the section.
\<close>

theorem resync_sections_overlap:
  assumes "elfs l e = Some E" "e_scn E = s1 # s2 # ss" "distinct (e_scn E)" "NULL \<notin> set (e_scn E)"
    and "\<forall>s\<in>set (e_scn E). \<exists>S. scns l s = Some S \<and> s_flags S AND ELF_F_DIRTY = 0"
    and "scns l s1 = Some S1" "scns l s2 = Some S2" "\<not> no_extent (e_class E) s1 l" "\<not> no_extent (e_class E) s2 l"
    and "rc \<le> s_offset S1" "s_offset S1 < s_offset S2 + s_size S2" "s_offset S2 + s_size S2 < s_offset S1 + s_size S1"
    and "s_offset S1 + s_size S1 < 2 ^ 64"
  shows "libelf_resync_sections e rc l =
    Some (OFF_MINUS_1, LIBELF_SET_ERROR ELF_E_LAYOUT 0 (upd_elf e (\<lambda>E. E\<lparr>e_scn := s1 # ss\<rparr>) l))"
proof -
  obtain nrc where ext: "extents_loop e (e_scn E) rc l = Some ((True, nrc), l)"
    using extents_loop_clean [OF assms(1,5)] by blast
  let ?l = "upd_elf e (\<lambda>E. E\<lparr>e_scn := remove1 s2 (e_scn E)\<rparr>) l"
  have s: "s1 \<noteq> NULL" "s2 \<noteq> NULL" "s1 \<noteq> s2" using assms(2-4) by auto
  have l: "elfs ?l e = Some (E\<lparr>e_scn := s1 # ss\<rparr>)" "scns ?l = scns l"
    using assms(1,2) s by (simp_all add: upd_elf_def)
  have "libelf_insert_section e s2 ?l = Some (False, LIBELF_SET_ERROR ELF_E_LAYOUT 0 ?l)"
    using assms(6,7,10-) by (simp add: libelf_insert_section_def l Let_def)
  then have "sort_loop e (e_class E) s2 (s_offset S1 + s_size S1) l = Some (None, LIBELF_SET_ERROR ELF_E_LAYOUT 0 ?l)"
    using assms s by (subst sort_loop.simps) (simp add: no_extent_def)
  then have "sort_loop e (e_class E) s1 rc l = Some (None, LIBELF_SET_ERROR ELF_E_LAYOUT 0 ?l)"
    using assms s by (subst sort_loop.simps) (simp add: no_extent_def)
  moreover have "?l = upd_elf e (\<lambda>E. E\<lparr>e_scn := s1 # ss\<rparr>) l" using assms(1,2) s(3) by (simp add: upd_elf_def)
  ultimately show ?thesis using assms(1,2) ext by (simp add: libelf_resync_sections_def)
qed

definition overlap_example :: libelf where
  "overlap_example = layout_example\<lparr>scns := [1024 \<mapsto> (layout_scn [] 1)\<lparr>s_flags := 0, s_offset := 64, s_size := 32\<rparr>,
     2048 \<mapsto> (layout_scn [] 2)\<lparr>s_flags := 0, s_offset := 72, s_size := 8\<rparr>]\<rparr>"

theorem resync_sections_overlap_witness:
  "libelf_resync_sections 16 52 overlap_example =
    Some (OFF_MINUS_1, LIBELF_SET_ERROR ELF_E_LAYOUT 0 (upd_elf 16 (\<lambda>E. E\<lparr>e_scn := [1024]\<rparr>) overlap_example))"
proof -
  have "extent_members ELFCLASS32 s overlap_example = extent_members ELFCLASS32 s layout_example" for s
    by (rule extent_members_mem) (simp_all add: overlap_example_def)
  then show ?thesis
    using layout_example_simps(1) layout_example_members
    by (intro resync_sections_overlap [of _ _ layout_elf _ 2048 "[]" "(layout_scn [] 1)\<lparr>s_flags := 0, s_offset := 64, s_size := 32\<rparr>"
        "(layout_scn [] 2)\<lparr>s_flags := 0, s_offset := 72, s_size := 8\<rparr>"])
      (simp_all add: overlap_example_def layout_elf_def no_extent_def)
qed

end
