(* ===== verification/Libelf_Write.thy ===== *)
theory Libelf_Write
  imports Libelf_Layout
begin

text \<open>
  What \<open>elf_update\<close> writes for sections of plain bytes: the contents of their data at the offsets
  of the layout, with the gaps filled.
\<close>

section \<open>The file image\<close>

text \<open>
  The image from the position \<open>pos\<close> on of pieces given by their offset and contents: gaps are
  filled with \<open>fc\<close>.
\<close>

primrec data_image :: "byte \<Rightarrow> nat \<Rightarrow> (nat \<times> byte list) list \<Rightarrow> byte list" where
  "data_image fc pos [] = []"
| "data_image fc pos (p # ps) = replicate (fst p - pos) fc @ snd p @ data_image fc (fst p + length (snd p)) ps"

primrec pieces_end :: "nat \<Rightarrow> (nat \<times> byte list) list \<Rightarrow> nat" where
  "pieces_end pos [] = pos"
| "pieces_end pos (p # ps) = pieces_end (fst p + length (snd p)) ps"

lemma data_image_append: "data_image fc pos (xs @ ys) = data_image fc pos xs @ data_image fc (pieces_end pos xs) ys"
  by (induction xs arbitrary: pos) simp_all

lemma pieces_end_append: "pieces_end pos (xs @ ys) = pieces_end (pieces_end pos xs) ys"
  by (induction xs arbitrary: pos) simp_all

text \<open>The pieces of a section\<close>

definition piece :: "Elf_Scn \<Rightarrow> libelf \<Rightarrow> addr \<Rightarrow> nat \<times> byte list" where
  "piece S l d = (case datas l d of None \<Rightarrow> (0, []) | Some D \<Rightarrow> (s_offset S + d_off D, bytes_at (mem l) (d_buf D) (d_size D)))"

definition pieces :: "libelf \<Rightarrow> addr \<Rightarrow> (nat \<times> byte list) list" where
  "pieces l s = (case scns l s of None \<Rightarrow> [] | Some S \<Rightarrow> map (piece S l) (s_data S))"

section \<open>Data of plain bytes\<close>

text \<open>
  Data of plain bytes in a buffer that the new file of \<open>n\<close> bytes at \<open>nf\<close> does not overlap
\<close>

definition byte_data :: "addr \<Rightarrow> nat \<Rightarrow> addr \<Rightarrow> libelf \<Rightarrow> bool" where
  "byte_data nf n d l \<longleftrightarrow> d \<noteq> NULL \<and> d \<noteq> auto_dst \<and>
     (\<exists>D. datas l d = Some D \<and> d_type D = ELF_T_BYTE \<and> d_version D = EV_CURRENT \<and> d_buf D \<noteq> NULL \<and>
       d_buf D + d_size D < 2 ^ 64 \<and> disjoint_ranges nf n (d_buf D) (d_size D))"

lemma xlate_bytes:
  assumes "datas l dst = Some D" "datas l src = Some S" "ec = ELFCLASS32 \<or> ec = ELFCLASS64"
    and "enc = ELFDATA2LSB \<or> enc = ELFDATA2MSB" "dst \<noteq> NULL" "src \<noteq> NULL" "dst \<noteq> src"
    and "d_type S = ELF_T_BYTE" "d_version S = EV_CURRENT" "d_version D = EV_CURRENT" "buffers_ok D S" "d_size D = d_size S"
    and "d_size S = 0 \<or> d_buf D \<noteq> d_buf S"
  shows "libelf_xlate dst src enc ec ELF_TOFILE l =
    Some (dst, set_mem (memcpy (mem l) (d_buf D) (d_buf S) (d_size S)) (upd_data dst (\<lambda>D. D\<lparr>d_type := ELF_T_BYTE, d_size := d_size S\<rparr>) l))"
proof -
  have sz: "fsz_of (d_type S) ec = 1" "msz_of (d_type S) ec = 1" "libelf_malign (d_type S) ec = 1"
    using assms(3,8) by (auto simp: fsz_of_def msz_of_def libelf_malign_def)
  have "d_size S < 2 ^ 64" using assms(11) by (simp add: buffers_ok_def)
  then have "libelf_xlate_objects dst D S enc ec ELF_TOFILE 1 1 l =
    Some (dst, set_mem (memcpy (mem l) (d_buf D) (d_buf S) (d_size S)) (upd_data dst (\<lambda>D. D\<lparr>d_type := ELF_T_BYTE, d_size := d_size S\<rparr>) l))"
    using assms(3,8,12,13) buffers_ok_check [OF assms(11)] sz(3)
    by (auto simp: libelf_xlate_objects_def Let_def libelf_get_translator_def total_def libelf_cvt_BYTE_tox_def memcpy_def)
  then show ?thesis
    using libelf_xlate_run [OF assms(1,2,3) _ assms(9) _ assms(4-7,10,11)] assms(8) sz by simp
qed

lemma with_autos_restore:
  assumes "f (l\<lparr>datas := datas l ++ vars\<rparr>) = Some (r, l')" "\<And>d. vars d = None \<Longrightarrow> datas l' d = datas l d"
  shows "with_autos vars f l = Some (r, l'\<lparr>datas := datas l\<rparr>)"
proof -
  have "(\<lambda>d. if vars d = None then datas l' d else datas l d) = datas l" using assms(2) by (auto simp: fun_eq_iff)
  then show ?thesis using assms(1) by (simp add: with_autos_def)
qed

lemma auto_xlate_bytes:
  assumes d: "byte_data nf n d l" "datas l d = Some D" and ec: "ec = ELFCLASS32 \<or> ec = ELFCLASS64"
    and enc: "enc = ELFDATA2LSB \<or> enc = ELFDATA2MSB" and nf: "nf \<noteq> NULL" "nf + n < 2 ^ 64" "off + d_size D \<le> n"
  shows "with_autos [auto_dst \<mapsto> auto_data (nf + off) (d_size D) ELF_T_ADDR EV_CURRENT]
      (libelf_xlate auto_dst d enc ec ELF_TOFILE) l =
    Some (auto_dst, set_mem (memcpy (mem l) (nf + off) (d_buf D) (d_size D)) l)"
proof -
  let ?v = "[auto_dst \<mapsto> auto_data (nf + off) (d_size D) ELF_T_ADDR EV_CURRENT]" and ?A = "auto_data (nf + off) (d_size D) ELF_T_ADDR EV_CURRENT"
  let ?l = "l\<lparr>datas := datas l ++ ?v\<rparr>"
  have D: "d_type D = ELF_T_BYTE" "d_version D = EV_CURRENT" "d_buf D \<noteq> NULL" "d_buf D + d_size D < 2 ^ 64"
      "disjoint_ranges nf n (d_buf D) (d_size D)" "d \<noteq> NULL" "d \<noteq> auto_dst" using d by (auto simp: byte_data_def)
  have "libelf_xlate auto_dst d enc ec ELF_TOFILE ?l =
    Some (auto_dst, set_mem (memcpy (mem ?l) (d_buf ?A) (d_buf D) (d_size D)) (upd_data auto_dst (\<lambda>A. A\<lparr>d_type := ELF_T_BYTE, d_size := d_size D\<rparr>) ?l))"
    using D nf d(2) by (intro xlate_bytes ec enc) (auto simp: auto_data_def buffers_ok_def disjoint_ranges_def)
  then have "with_autos ?v (libelf_xlate auto_dst d enc ec ELF_TOFILE) l =
    Some (auto_dst, (set_mem (memcpy (mem ?l) (d_buf ?A) (d_buf D) (d_size D)) (upd_data auto_dst (\<lambda>A. A\<lparr>d_type := ELF_T_BYTE, d_size := d_size D\<rparr>) ?l))
      \<lparr>datas := datas l\<rparr>)" by (rule with_autos_restore) (simp split: if_splits)
  then show ?thesis by (simp add: auto_data_def set_mem_def upd_data_def)
qed

lemma memset_put: "memset m a c n = put_bytes m a (replicate n c)"
  by (rule ext) (auto simp: memset_def put_bytes_def)

lemma fill_gap_eq: "fill_gap nf rc off l = set_mem (put_bytes (mem l) (nf + rc) (replicate (off - rc) (word_of_int (libelf_fillchar l)))) l"
  by (simp add: fill_gap_def memset_put)

lemma memcpy_put: "memcpy m a b n = put_bytes m a (bytes_at m b n)"
  by (rule ext) (auto simp: memcpy_def put_bytes_def)

lemma set_mem_simps2 [simp]:
  "set_mem m (set_mem m' l) = set_mem m l" "libelf_fillchar (set_mem m l) = libelf_fillchar l"
  by (simp_all add: set_mem_def)

text \<open>Memory outside of the new file does not matter to the pieces.\<close>

lemma byte_data_mem [simp]: "byte_data nf n d (set_mem m l) = byte_data nf n d l"
  by (simp add: byte_data_def)

lemma piece_put:
  "byte_data nf n d l \<Longrightarrow> nf \<le> a \<Longrightarrow> a + length bs \<le> nf + n \<Longrightarrow> piece S (set_mem (put_bytes (mem l) a bs) l) d = piece S l d"
  by (auto simp: piece_def byte_data_def disjoint_ranges_def)

lemma data_placed_le: "data_placed lo ds hi dm \<Longrightarrow> lo \<le> hi"
  by (induction ds arbitrary: lo) fastforce+

lemma write_data_image:
  assumes "\<forall>d\<in>set ds. byte_data nf n d l" "data_placed lo ds hi (datas l)" "rc \<le> s_offset S + lo" "s_offset S + hi \<le> n"
    and "e_class E = ELFCLASS32 \<or> e_class E = ELFCLASS64" "e_byteorder E = ELFDATA2LSB \<or> e_byteorder E = ELFDATA2MSB"
    and "e_elf_version E = EV_CURRENT" "nf \<noteq> NULL" "nf + n < 2 ^ 64"
  shows "write_data E S nf ds rc l =
      Some (pieces_end rc (map (piece S l) ds),
        set_mem (put_bytes (mem l) (nf + rc) (data_image (word_of_int (libelf_fillchar l)) rc (map (piece S l) ds))) l) \<and>
    pieces_end rc (map (piece S l) ds) \<le> s_offset S + hi \<and>
    rc + length (data_image (word_of_int (libelf_fillchar l)) rc (map (piece S l) ds)) = pieces_end rc (map (piece S l) ds)"
  using assms(1-4)
proof (induction ds arbitrary: rc lo l)
  case Nil
  then show ?case by simp
next
  case (Cons d ds)
  let ?fc = "word_of_int (libelf_fillchar l) :: byte"
  obtain D where D: "datas l d = Some D" "lo \<le> d_off D" "data_placed (d_off D + d_size D) ds hi (datas l)"
    using Cons.prems(2) by auto
  have d: "byte_data nf n d l" using Cons.prems(1) by simp
  let ?o = "s_offset S + d_off D" and ?n = "d_size D" and ?img = "data_image (word_of_int (libelf_fillchar l)) :: nat \<Rightarrow> _ \<Rightarrow> byte list"
  have le: "d_off D + ?n \<le> hi" using data_placed_le [OF D(3)] .
  have o: "u64 ?o = ?o" "u64 (?o + ?n) = ?o + ?n" "rc \<le> ?o" "?o + ?n \<le> n" using le Cons.prems(3,4) D(2) assms(9) by simp_all
  let ?g = "replicate (?o - rc) ?fc" and ?b = "bytes_at (mem l) (d_buf D) ?n"
  define l1 where "l1 = set_mem (put_bytes (mem l) (nf + rc) ?g) l"
  define l2 where "l2 = set_mem (put_bytes (mem l) (nf + rc) (?g @ ?b)) l"
  have b: "bytes_at (mem l1) (d_buf D) ?n = ?b"
    using d D(1) o(3,4) by (auto simp: l1_def byte_data_def disjoint_ranges_def)
  have "memcpy (mem l1) (nf + ?o) (d_buf D) ?n = mem l2"
    unfolding memcpy_put b by (simp add: l1_def l2_def put_bytes_append o(3))
  then have cp: "set_mem (memcpy (mem l1) (nf + ?o) (d_buf D) ?n) l1 = l2" by (simp add: l1_def l2_def)
  have "with_autos [auto_dst \<mapsto> auto_data (nf + ?o) ?n ELF_T_ADDR EV_CURRENT]
      (libelf_xlate auto_dst d (e_byteorder E) (e_class E) ELF_TOFILE) l1 = Some (auto_dst, l2)"
    using auto_xlate_bytes [OF _ _ assms(5,6,8,9) o(4), of d l1] d D(1) unfolding cp by (simp add: l1_def)
  moreover have gap: "fill_gap nf rc ?o l = l1" by (simp add: fill_gap_eq l1_def)
  moreover have "libelf_msize ELF_T_BYTE (e_class E) EV_CURRENT = Some (1, None)"
    using libelf_msize_current [OF assms(5), of ELF_T_BYTE] assms(5) by (auto simp: msz_of_def)
  moreover have "fsize_call ELF_T_BYTE (e_class E) EV_CURRENT ?n l1 = (?n, l1)"
    using libelf_fsize_current [of ELF_T_BYTE "e_class E" ?n] assms(5,9) o(4) by (auto simp: fsize_call_def fsz_of_def)
  moreover have "d_type D = ELF_T_BYTE" "d_version D = EV_CURRENT" "d_buf D \<noteq> NULL" using d D(1) by (auto simp: byte_data_def)
  ultimately have run: "write_data E S nf (d # ds) rc l = write_data E S nf ds (?o + ?n) l2"
    using D(1) assms(7) o(1,2) by (simp add: Let_def)
  have pc: "map (piece S l2) ds = map (piece S l) ds"
    unfolding l2_def by (rule map_cong [OF refl], rule piece_put [of nf n]) (use Cons.prems(1) o in auto)
  have l2: "mem l2 = put_bytes (mem l) (nf + rc) (?g @ ?b)" "datas l2 = datas l" "libelf_fillchar l2 = libelf_fillchar l"
    "\<forall>d\<in>set ds. byte_data nf n d l2" "\<And>m. set_mem m l2 = set_mem m l" using Cons.prems(1) by (simp_all add: l2_def)
  have p: "piece S l d = (?o, ?b)" using D(1) by (simp add: piece_def)
  have "nf + rc + length (?g @ ?b) = nf + (?o + ?n)" using o(3) by simp
  then have app: "put_bytes (mem l2) (nf + (?o + ?n)) bs = put_bytes (mem l) (nf + rc) (?g @ ?b @ bs)" for bs
    unfolding l2(1) by (metis append.assoc put_bytes_append)
  show ?case
    using Cons.IH [of l2 "d_off D + ?n" "?o + ?n", unfolded pc l2(2,3)] l2(4) D(3) Cons.prems(4) o(3)
    by (simp add: run p l2(5) app del: write_data.simps)
qed

section \<open>Sections of plain bytes\<close>

text \<open>\<open>_libelf_write_scn\<close> skips a section without a type or contents in the file.\<close>

definition written :: "int \<Rightarrow> addr \<Rightarrow> libelf \<Rightarrow> bool" where
  "written ec s l \<longleftrightarrow> \<not> no_extent ec s l \<and> snd (snd (snd (snd (extent_members ec s l)))) \<noteq> 0"

text \<open>A section with data of plain bytes, at an offset that fits the alignment of its type\<close>

definition byte_scn :: "addr \<Rightarrow> nat \<Rightarrow> int \<Rightarrow> addr \<Rightarrow> libelf \<Rightarrow> bool" where
  "byte_scn nf n ec s l \<longleftrightarrow> (\<exists>S t. scns l s = Some S \<and> s_data S \<noteq> [] \<and> (\<forall>d\<in>set (s_data S). byte_data nf n d l) \<and>
     libelf_xlate_shtype (fst (extent_members ec s l)) = Some t \<and> libelf_falign t ec dvd s_offset S)"

lemma write_scn_skip:
  "elfs l e = Some E \<Longrightarrow> scns l s \<noteq> None \<Longrightarrow> \<not> written (e_class E) s l \<Longrightarrow> libelf_write_scn e nf s rc l = Some (rc, l)"
  by (auto simp: libelf_write_scn_def written_def no_extent_def Let_def split: prod.splits)

lemma shtype_not_NUM: "libelf_xlate_shtype ty = Some t \<Longrightarrow> t \<noteq> ELF_T_NUM"
  by (auto simp: libelf_xlate_shtype_def split: if_splits)

lemma write_scn_image:
  assumes e: "elfs l e = Some E" "e_class E = ELFCLASS32 \<or> e_class E = ELFCLASS64"
      "e_byteorder E = ELFDATA2LSB \<or> e_byteorder E = ELFDATA2MSB" "e_elf_version E = EV_CURRENT"
    and s: "written (e_class E) s l" "byte_scn nf n (e_class E) s l" "scns l s = Some S" "scn_placed lo S (datas l)"
    and n: "rc \<le> lo" "s_offset S + s_size S \<le> n" "nf \<noteq> NULL" "nf + n < 2 ^ 64"
  shows "libelf_write_scn e nf s rc l = Some (pieces_end rc (pieces l s),
      set_mem (put_bytes (mem l) (nf + rc) (data_image (word_of_int (libelf_fillchar l)) rc (pieces l s))) l) \<and>
    pieces_end rc (pieces l s) \<le> s_offset S + s_size S \<and>
    rc + length (data_image (word_of_int (libelf_fillchar l)) rc (pieces l s)) = pieces_end rc (pieces l s)"
proof -
  obtain ty a0 es off sz where m: "extent_members (e_class E) s l = (ty, a0, es, off, sz)" by (metis prod_cases5)
  obtain t where t: "libelf_xlate_shtype ty = Some t" "libelf_falign t (e_class E) dvd s_offset S" "s_data S \<noteq> []"
      "\<forall>d\<in>set (s_data S). byte_data nf n d l" using s(2,3) m by (auto simp: byte_scn_def)
  have ty: "ty \<noteq> SHT_NULL" "ty \<noteq> SHT_NOBITS" "sz \<noteq> 0" using s(1) m by (auto simp: written_def no_extent_def)
  have pl: "data_placed 0 (s_data S) (s_size S) (datas l)" "lo \<le> s_offset S" using s(4) by (auto simp: scn_placed_def)
  have "libelf_msize t (e_class E) EV_CURRENT = Some (msz_of t (e_class E), None)"
    by (rule libelf_msize_current [OF e(2) shtype_not_NUM [OF t(1)]])
  then have "libelf_write_scn e nf s rc l = write_data E S nf (s_data S) rc l"
    using e(1,4) s(3) m ty t falign_shtype [OF t(1), of "e_class E"]
    by (simp add: libelf_write_scn_def mod_eq_0_iff_dvd Let_def)
  then show ?thesis
    using write_data_image [OF t(4) pl(1) _ n(2) e(2-4) n(3,4), of rc] n(1) pl(2) s(3) by (simp add: pieces_def)
qed

text \<open>Writing to the new file does not change the sections.\<close>

lemma file_write_frame:
  assumes "disjoint_ranges nf n s 64" "nf \<le> a" "a + length bs \<le> nf + n"
  shows "extent_members ec s (set_mem (put_bytes (mem l) a bs) l) = extent_members ec s l"
proof -
  have "bytes_at (put_bytes (mem l) a bs) s k = bytes_at (mem l) s k" if "k \<le> 64" for k
    using assms that by (intro bytes_at_put_disjoint) (auto simp: disjoint_ranges_def)
  from this [of 40] this [of 64] show ?thesis by (simp add: extent_members_def shdr32_def shdr64_def)
qed

lemma byte_scn_frame:
  assumes "disjoint_ranges nf n s 64" "nf \<le> a" "a + length bs \<le> nf + n"
  shows "byte_scn nf n ec s (set_mem (put_bytes (mem l) a bs) l) = byte_scn nf n ec s l"
    "written ec s (set_mem (put_bytes (mem l) a bs) l) = written ec s l"
    "byte_scn nf n ec s l \<Longrightarrow> pieces (set_mem (put_bytes (mem l) a bs) l) s = pieces l s"
  using file_write_frame [OF assms, of ec l]
  by (auto simp: byte_scn_def written_def no_extent_def pieces_def piece_put [OF _ assms(2,3)])

lemma scns_placed_mem [simp]: "scns_placed lo ss hi (set_mem m l) = scns_placed lo ss hi l"
  by (induction ss arbitrary: lo) simp_all

definition written_scns :: "int \<Rightarrow> addr list \<Rightarrow> libelf \<Rightarrow> addr list" where
  "written_scns ec ss l = filter (\<lambda>s. written ec s l) ss"

abbreviation image_of :: "nat \<Rightarrow> addr list \<Rightarrow> libelf \<Rightarrow> byte list" where
  "image_of rc ws l \<equiv> data_image (word_of_int (libelf_fillchar l)) rc (concat (map (pieces l) ws))"

lemma off_neg_small: "n < 2 ^ 63 \<Longrightarrow> \<not> off_neg n"
  by (simp add: off_neg_def off_t_def)

lemma write_scns_pieces:
  assumes E: "elfs l e = Some E" "e_class E = ELFCLASS32 \<or> e_class E = ELFCLASS64"
      "e_byteorder E = ELFDATA2LSB \<or> e_byteorder E = ELFDATA2MSB" "e_elf_version E = EV_CURRENT"
    and n: "hi \<le> n" "nf \<noteq> NULL" "nf + n < 2 ^ 63"
    and ss: "\<forall>s\<in>set ss. scns l s \<noteq> None \<and> disjoint_ranges nf n s 64 \<and> (written (e_class E) s l \<longrightarrow> byte_scn nf n (e_class E) s l)"
    and pl: "scns_placed lo (written_scns (e_class E) ss l) hi l" "rc \<le> lo"
  shows "write_scns e nf ss rc l = Some (Some (pieces_end rc (concat (map (pieces l) (written_scns (e_class E) ss l)))),
      set_mem (put_bytes (mem l) (nf + rc) (image_of rc (written_scns (e_class E) ss l) l)) l)"
  using E(1) ss pl
proof (induction ss arbitrary: rc lo l)
  case Nil
  then show ?case by (simp add: written_scns_def)
next
  case (Cons s ss)
  let ?ec = "e_class E"
  show ?case
  proof (cases "written ?ec s l")
    case False
    then have "libelf_write_scn e nf s rc l = Some (rc, l)" using write_scn_skip [OF Cons.prems(1)] Cons.prems(2) by auto
    moreover have "rc < 2 ^ 63" using Cons.prems(3,4) n scns_placed_le by fastforce
    ultimately show ?thesis using Cons.IH [OF Cons.prems(1) _ _ Cons.prems(4)] Cons.prems(2,3) False off_neg_small
      by (simp add: written_scns_def)
  next
    case True
    let ?ws = "written_scns ?ec ss l" and ?ps = "pieces l s" and ?img = "data_image (word_of_int (libelf_fillchar l)) rc (pieces l s)"
    have bs: "byte_scn nf n ?ec s l" using Cons.prems(2) True by simp
    obtain S where S: "scns l s = Some S" "scn_placed lo S (datas l)" "scns_placed (s_offset S + s_size S) ?ws hi l"
      using Cons.prems(3) True by (auto simp: written_scns_def)
    have le: "s_offset S + s_size S \<le> n" "nf + n < 2 ^ 64" using scns_placed_le [OF S(3)] n by simp_all
    define l2 where "l2 = set_mem (put_bytes (mem l) (nf + rc) ?img) l"
    have one: "libelf_write_scn e nf s rc l = Some (pieces_end rc ?ps, l2)" "pieces_end rc ?ps \<le> s_offset S + s_size S"
      "rc + length ?img = pieces_end rc ?ps"
      using write_scn_image [OF Cons.prems(1) E(2-4) True bs S(1,2) Cons.prems(4) le(1) n(2) le(2)] by (simp_all add: l2_def)
    have fr: "nf \<le> nf + rc" "nf + rc + length ?img \<le> nf + n" using one(2,3) le(1) by simp_all
    have same: "written ?ec x l2 = written ?ec x l" "byte_scn nf n ?ec x l2 = byte_scn nf n ?ec x l"
        "byte_scn nf n ?ec x l \<Longrightarrow> pieces l2 x = pieces l x" if "x \<in> set ss" for x
      using byte_scn_frame [OF _ fr, of x ?ec l] Cons.prems(2) that by (simp_all add: l2_def)
    have ws: "written_scns ?ec ss l2 = ?ws" using same by (simp add: written_scns_def cong: filter_cong)
    have ps: "map (pieces l2) ?ws = map (pieces l) ?ws" using same(3) Cons.prems(2) by (simp add: written_scns_def)
    have l2: "elfs l2 e = Some E" "libelf_fillchar l2 = libelf_fillchar l" "\<And>m. set_mem m l2 = set_mem m l"
      "mem l2 = put_bytes (mem l) (nf + rc) ?img" "scns l2 = scns l" using Cons.prems(1) by (simp_all add: l2_def)
    have "scns_placed (s_offset S + s_size S) (written_scns ?ec ss l2) hi l2" using S(3) unfolding ws by (simp add: l2_def)
    moreover have "\<forall>x\<in>set ss. scns l2 x \<noteq> None \<and> disjoint_ranges nf n x 64 \<and> (written ?ec x l2 \<longrightarrow> byte_scn nf n ?ec x l2)"
      using Cons.prems(2) same l2(5) by auto
    ultimately have IH: "write_scns e nf ss (pieces_end rc ?ps) l2 = Some (Some (pieces_end (pieces_end rc ?ps) (concat (map (pieces l) ?ws))),
        set_mem (put_bytes (mem l2) (nf + pieces_end rc ?ps) (image_of (pieces_end rc ?ps) ?ws l)) l)"
      using Cons.IH [OF l2(1) _ _ one(2)] by (simp add: ws ps l2(2,3))
    have "\<not> off_neg (pieces_end rc ?ps)" using one(2) le(1) n(3) by (intro off_neg_small) linarith
    moreover have "put_bytes (mem l2) (nf + pieces_end rc ?ps) x = put_bytes (mem l) (nf + rc) (?img @ x)" for x
      unfolding l2(4) one(3) [symmetric] by (simp add: put_bytes_append add.assoc)
    ultimately show ?thesis
      using IH one(1) True by (simp add: written_scns_def data_image_append pieces_end_append)
  qed
qed

text \<open>
  C33. Writing sections of plain bytes that lie one behind the other, as the layout leaves
  them, fills the new file from the position given on with exactly the contents of their
  data, each at its offset, and with the fill character between them, and changes no other
  memory.
\<close>

theorem write_scns_image:
  assumes "elfs l e = Some E" "e_class E = ELFCLASS32 \<or> e_class E = ELFCLASS64"
    and "e_byteorder E = ELFDATA2LSB \<or> e_byteorder E = ELFDATA2MSB" "e_elf_version E = EV_CURRENT"
    and "\<forall>s\<in>set ss. scns l s \<noteq> None \<and> disjoint_ranges nf n s 64 \<and> (written (e_class E) s l \<longrightarrow> byte_scn nf n (e_class E) s l)"
    and "scns_placed rc (written_scns (e_class E) ss l) hi l" "hi \<le> n" "nf \<noteq> NULL" "nf + n < 2 ^ 63"
  shows "let ps = concat (map (pieces l) (written_scns (e_class E) ss l)) in
    write_scns e nf ss rc l = Some (Some (pieces_end rc ps),
      set_mem (put_bytes (mem l) (nf + rc) (data_image (word_of_int (libelf_fillchar l)) rc ps)) l)"
  using write_scns_pieces [OF assms(1-4,7-9,5,6) le_refl] by (simp add: Let_def)

text \<open>Two sections with three data descriptors: the gap between the first two is filled.\<close>

definition write_example :: libelf where
  "write_example = layout_example\<lparr>mem := layout_mem 11 4, libelf_fillchar := 255,
     datas := [4096 \<mapsto> layout_data_at 8192 5 4 1024, 4160 \<mapsto> (layout_data_at 8200 3 2 1024)\<lparr>d_off := 8\<rparr>, 4224 \<mapsto> layout_data_at 8204 4 1 2048],
     scns := [1024 \<mapsto> (layout_scn [4096, 4160] 1)\<lparr>s_offset := 52, s_size := 11\<rparr>, 2048 \<mapsto> (layout_scn [4224] 2)\<lparr>s_offset := 63, s_size := 4\<rparr>]\<rparr>"

lemma write_example_members:
  "extent_members ELFCLASS32 1024 write_example = (1, 0, 0, 0, 11)" "extent_members ELFCLASS32 2048 write_example = (3, 0, 0, 0, 4)"
  by (simp_all add: extent_members_def shdr32_def layout_mem_def elf32shdr.length_to_bytes elf32shdr.of_to
      layout_shdr_def Let_def write_example_def layout_example_simps)

lemma write_example_bytes: "2088 \<le> a \<Longrightarrow> mem write_example a = of_nat a"
  by (simp add: write_example_def layout_mem_def elf32shdr.length_to_bytes)

theorem write_scns_image_witness:
  "\<exists>l'. write_scns 16 16384 [1024, 2048] 52 write_example = Some (Some 67, l') \<and>
    bytes_at (mem l') 16436 15 = [0, 1, 2, 3, 4, 255, 255, 255, 8, 9, 10, 12, 13, 14, 15]"
proof -
  let ?l = write_example and ?ps = "[(52, [0, 1, 2, 3, 4]), (60, [8, 9, 10]), (63, [12, 13, 14, 15])] :: (nat \<times> byte list) list"
  have e: "elfs ?l 16 = Some layout_elf" by (simp add: write_example_def layout_example_simps)
  have b: "bytes_at (mem ?l) 8192 5 = [0, 1, 2, 3, 4]" "bytes_at (mem ?l) 8200 3 = [8, 9, 10]" "bytes_at (mem ?l) 8204 4 = [12, 13, 14, 15]"
    by (simp_all add: bytes_at_def upt_rec write_example_bytes)
  have w: "written_scns ELFCLASS32 [1024, 2048] ?l = [1024, 2048]"
    by (simp add: written_scns_def written_def no_extent_def write_example_members)
  have ps: "concat (map (pieces ?l) [1024, 2048]) = ?ps"
    using b by (simp add: pieces_def piece_def write_example_def layout_scn_def layout_data_at_def)
  have s: "\<forall>s\<in>set [1024, 2048]. scns ?l s \<noteq> None \<and> disjoint_ranges 16384 256 s 64 \<and>
      (written ELFCLASS32 s ?l \<longrightarrow> byte_scn 16384 256 ELFCLASS32 s ?l)"
    by (simp add: disjoint_ranges_def byte_scn_def write_example_members byte_data_def)
      (simp add: write_example_def layout_scn_def layout_data_at_def disjoint_ranges_def libelf_xlate_shtype_def libelf_falign_def)
  have pl: "scns_placed 52 [1024, 2048] 67 ?l"
    by (simp add: scn_placed_def write_example_def layout_scn_def layout_data_at_def)
  have fc: "libelf_fillchar ?l = 255" by (simp add: write_example_def)
  have "write_scns 16 16384 [1024, 2048] 52 ?l =
      Some (Some (pieces_end 52 ?ps), set_mem (put_bytes (mem ?l) (16384 + 52) (data_image (word_of_int (libelf_fillchar ?l)) 52 ?ps)) ?l)"
    using write_scns_image [OF e, of "[1024, 2048]" 16384 256 52 67] s pl w ps by (simp add: layout_elf_def Let_def)
  moreover have "replicate 3 255 = ([255, 255, 255] :: byte list)" by (simp add: numeral_3_eq_3)
  ultimately show ?thesis by (simp add: fc)
qed

end
