(* ===== verification/Crc.thy ===== *)
theory Crc
  imports Prelude
begin

text \<open>
  The checksums of Symbian files: \<open>crc.c\<close> of \<open>elf2e32\<close> and \<open>makesis-4\<close>, with the parameters of
  CRC-CCITT that \<open>crc.h\<close> selects.
\<close>

unbundle bit_operations_syntax

section \<open>Definitions\<close>

abbreviation (input) POLYNOMIAL :: "16 word" where "POLYNOMIAL \<equiv> 0x1021"
abbreviation (input) INITIAL_REMAINDER :: "16 word" where "INITIAL_REMAINDER \<equiv> 0"
abbreviation (input) FINAL_XOR_VALUE :: "16 word" where "FINAL_XOR_VALUE \<equiv> 0"
abbreviation (input) TOPBIT :: "16 word" where "TOPBIT \<equiv> 0x8000"

text \<open>
  Reordering the bits of a sequence.  The shifted constant is an \<open>int\<close> that is extended to the
  64 bits of \<open>unsigned long\<close>; \<open>None\<close> is a shift by more than its width.
\<close>

definition reflect :: "64 word \<Rightarrow> nat \<Rightarrow> 64 word option" where
  "reflect data nBits =
    (if list_ex (\<lambda>b. bit data b) [0..<nBits - 32] then None
     else Some (snd (fold (\<lambda>b (data, reflection).
      (drop_bit 1 data,
       if data AND 1 \<noteq> 0 then reflection OR signed (push_bit (nBits - 1 - b) (1 :: 32 word)) else reflection))
      [0..<nBits] (data, 0))))"

text \<open>One bit of the division\<close>

definition crc_bit :: "16 word \<Rightarrow> 16 word" where
  "crc_bit remainder = (if remainder AND TOPBIT \<noteq> 0 then push_bit 1 remainder XOR POLYNOMIAL else push_bit 1 remainder)"

text \<open>\<open>for (bit = 8; bit > 0; --bit)\<close>\<close>

primrec crc_bits :: "nat \<Rightarrow> 16 word \<Rightarrow> 16 word" where
  "crc_bits 0 remainder = remainder"
| "crc_bits (Suc b) remainder = crc_bits b (crc_bit remainder)"

text \<open>The bytes of the message from \<open>p\<close> on\<close>

definition message :: "memory \<Rightarrow> addr \<Rightarrow> int \<Rightarrow> byte list" where
  "message m p nBytes = map (\<lambda>byte. m (p + byte)) [0..<nat nBytes]"

definition crcSlow_byte :: "byte \<Rightarrow> 16 word \<Rightarrow> 16 word" where
  "crcSlow_byte c remainder = crc_bits 8 (remainder XOR push_bit 8 (ucast c))"

definition crcSlow :: "memory \<Rightarrow> addr \<Rightarrow> int \<Rightarrow> 16 word" where
  "crcSlow m p nBytes = fold crcSlow_byte (message m p nBytes) INITIAL_REMAINDER XOR FINAL_XOR_VALUE"

text \<open>\<open>crcTable\<close> is a list of 256 entries.\<close>

definition crcInit :: "16 word list \<Rightarrow> 16 word list" where
  "crcInit crcTable = fold (\<lambda>dividend t. t[dividend := crc_bits 8 (push_bit 8 (of_nat dividend))]) [0..<256] crcTable"

definition crcFast_byte :: "16 word list \<Rightarrow> byte \<Rightarrow> 16 word \<Rightarrow> 16 word" where
  "crcFast_byte crcTable c remainder =
    (let data = c XOR ucast (drop_bit 8 remainder) in crcTable ! unat data XOR push_bit 8 remainder)"

definition crcFast :: "16 word list \<Rightarrow> memory \<Rightarrow> addr \<Rightarrow> int \<Rightarrow> 16 word" where
  "crcFast crcTable m p nBytes = fold (crcFast_byte crcTable) (message m p nBytes) INITIAL_REMAINDER XOR FINAL_XOR_VALUE"

section \<open>The table\<close>

lemma crc_bit_eq: "crc_bit r = push_bit 1 r XOR (if bit r 15 then POLYNOMIAL else 0)"
proof -
  have "TOPBIT = push_bit 15 1" by simp
  then have "(r AND TOPBIT \<noteq> 0) = bit r 15" by (metis bit_iff_and_push_bit_not_eq_0)
  then show ?thesis by (simp add: crc_bit_def)
qed

lemma crc_bit_xor: "crc_bit (a XOR b) = crc_bit a XOR crc_bit b"
  by (auto simp: crc_bit_eq bit_xor_iff push_bit_xor ac_simps)

lemma crc_bits_xor: "crc_bits n (a XOR b) = crc_bits n a XOR crc_bits n b"
  by (induction n arbitrary: a b) (simp_all add: crc_bit_xor)

text \<open>Low bits do not reach the top bit in eight steps.\<close>

lemma crc_bits_low: "n \<le> 8 \<Longrightarrow> (\<And>k. 16 - n \<le> k \<Longrightarrow> \<not> bit r k) \<Longrightarrow> crc_bits n r = push_bit n r"
proof (induction n arbitrary: r)
  case (Suc n)
  have "crc_bit r = push_bit 1 r" using Suc.prems(2) [of 15] Suc.prems(1) by (simp add: crc_bit_eq)
  moreover have "\<not> bit (push_bit 1 r) k" if "16 - n \<le> k" for k
    unfolding bit_push_bit_iff using Suc.prems(2) [of "k - 1"] that by linarith
  then have "crc_bits n (push_bit 1 r) = push_bit n (push_bit 1 r)" using Suc.prems(1) by (intro Suc.IH) simp
  ultimately show ?case by (simp add: push_bit_push_bit)
qed simp

lemma crc_bits_take: "crc_bits 8 (take_bit 8 r) = push_bit 8 r"
proof -
  have "crc_bits 8 (take_bit 8 r) = push_bit 8 (take_bit 8 r)" by (rule crc_bits_low) (auto simp: bit_simps)
  moreover have "push_bit 8 (take_bit 8 r) = push_bit 8 r" by (rule bit_word_eqI) (auto simp: bit_simps)
  ultimately show ?thesis by simp
qed

lemma crc_byte_split: "crc_bits 8 r = crc_bits 8 (push_bit 8 (drop_bit 8 r)) XOR push_bit 8 r"
proof -
  have "r = push_bit 8 (drop_bit 8 r) XOR take_bit 8 r"
    by (rule bit_word_eqI) (auto simp: bit_simps)
  then have "crc_bits 8 r = crc_bits 8 (push_bit 8 (drop_bit 8 r)) XOR crc_bits 8 (take_bit 8 r)"
    by (metis crc_bits_xor)
  then show ?thesis by (simp add: crc_bits_take)
qed

lemma crcInit_nth: "length t = 256 \<Longrightarrow> i < 256 \<Longrightarrow> crcInit t ! i = crc_bits 8 (push_bit 8 (of_nat i))"
proof -
  have "length (fold (\<lambda>d t. t[d := f d]) [0..<n] t) = length t \<and>
      (\<forall>i<n. i < length t \<longrightarrow> fold (\<lambda>d t. t[d := f d]) [0..<n] t ! i = f i)" for f :: "nat \<Rightarrow> 16 word" and n t
    by (induction n) (auto simp: nth_list_update less_Suc_eq)
  then show "length t = 256 \<Longrightarrow> i < 256 \<Longrightarrow> crcInit t ! i = crc_bits 8 (push_bit 8 (of_nat i))" by (simp add: crcInit_def)
qed

lemma crcFast_byte_eq:
  assumes "length t = 256"
  shows "crcFast_byte (crcInit t) c r = crcSlow_byte c r"
proof -
  let ?d = "c XOR ucast (drop_bit 8 r)"
  have "unat ?d < 256" using unsigned_less [of ?d, where 'a = nat] by simp
  then have "crcInit t ! unat ?d = crc_bits 8 (push_bit 8 (ucast ?d))" using crcInit_nth [OF assms] by (simp add: unsigned_of_nat)
  moreover have "push_bit 8 (ucast ?d) = push_bit 8 (drop_bit 8 (r XOR push_bit 8 (ucast c))) " 
    by (rule bit_word_eqI) (auto simp: bit_simps)
  moreover have "push_bit 8 r = push_bit 8 (r XOR push_bit 8 (ucast c))" for r :: "16 word"
    by (rule bit_word_eqI) (auto simp: bit_simps)
  ultimately show ?thesis
    unfolding crcFast_byte_def crcSlow_byte_def Let_def using crc_byte_split [of "r XOR push_bit 8 (ucast c)"] by metis
qed

section \<open>Properties\<close>

text \<open>
  C37. With the table that \<open>crcInit\<close> fills, whatever it held before, \<open>crcFast\<close> computes the same
  checksum as the bitwise division of \<open>crcSlow\<close>, for every message.
\<close>

theorem crcFast_crcSlow:
  assumes "length t = 256"
  shows "crcFast (crcInit t) m p n = crcSlow m p n"
proof -
  have "crcFast_byte (crcInit t) = crcSlow_byte" using crcFast_byte_eq [OF assms] by blast
  then show ?thesis by (simp add: crcFast_def crcSlow_def)
qed

theorem crcFast_crcSlow_witness: "crcFast (crcInit (replicate 256 0)) (\<lambda>a. of_nat a) 100 9 = crcSlow (\<lambda>a. of_nat a) 100 9"
  using crcFast_crcSlow [of "replicate 256 0"] by simp

text \<open>
  A message followed by its checksum, high byte first, has the checksum zero.
\<close>

theorem crcSlow_residue:
  assumes "0 \<le> n" "m (p + nat n) = ucast (drop_bit 8 (crcSlow m p n))" "m (p + nat n + 1) = ucast (crcSlow m p n)"
  shows "crcSlow m p (n + 2) = 0"
proof -
  let ?c = "crcSlow m p n"
  have "nat (n + 2) = Suc (Suc (nat n))" using assms(1) by simp
  then have "message m p (n + 2) = message m p n @ [ucast (drop_bit 8 ?c), ucast ?c]" using assms by (simp add: message_def)
  then have "crcSlow m p (n + 2) = crcSlow_byte (ucast ?c) (crcSlow_byte (ucast (drop_bit 8 ?c)) ?c)" by (simp add: crcSlow_def)
  moreover have "?c XOR push_bit 8 (ucast (ucast (drop_bit 8 ?c) :: byte)) = take_bit 8 ?c"
    by (rule bit_word_eqI) (auto simp: bit_simps)
  then have "crcSlow_byte (ucast (drop_bit 8 ?c)) ?c = push_bit 8 ?c"
    using crc_bits_take [of ?c] by (simp add: crcSlow_byte_def)
  moreover have "push_bit 8 ?c XOR push_bit 8 (ucast (ucast ?c :: byte)) = 0" by (rule bit_word_eqI) (auto simp: bit_simps)
  then have "crcSlow_byte (ucast ?c) (push_bit 8 ?c) = 0" using crc_bits_low [of 8 0] by (simp add: crcSlow_byte_def)
  ultimately show ?thesis by simp
qed

theorem crcSlow_residue_witness: "crcSlow (put_bytes (\<lambda>_. 0) 100 [0x31, 0x26, 0x72]) 100 3 = 0"
proof -
  have "crcSlow (put_bytes (\<lambda>_. 0) 100 [0x31, 0x26, 0x72]) 100 1 = 0x2672" by code_simp
  then show ?thesis using crcSlow_residue [of 1 "put_bytes (\<lambda>_. 0) 100 [0x31, 0x26, 0x72]" 100] by (simp add: put_bytes_def)
qed

text \<open>
  The checksum of the nine digits, which \<open>crc.h\<close> gives as \<open>0x29B1\<close>, is \<open>0x31C3\<close>: the constant belongs
  to the initial remainder \<open>0xFFFF\<close> of the standard, which the header replaces by zero.
\<close>

theorem crcSlow_check_value: "crcSlow (put_bytes (\<lambda>_. 0) 100 [0x31, 0x32, 0x33, 0x34, 0x35, 0x36, 0x37, 0x38, 0x39]) 100 9 = 0x31C3"
  by code_simp

end
