(* ===== verification/Genaif.thy ===== *)
theory Genaif
  imports Crc
begin

text \<open>
  The generator of application information files, \<open>genaif.c\<close>: the checksum of UIDs, changing the
  UID of an application and writing an AIF file.  Files are byte lists; an input file is a
  stream with a position.  A store outside of an array is the value \<open>None\<close>.
\<close>

section \<open>Standard input and output\<close>

record stream =
  contents :: "byte list"
  pos :: nat
  at_eof :: bool

definition fopen :: "byte list \<Rightarrow> stream" where
  "fopen bs = \<lparr>contents = bs, pos = 0, at_eof = False\<rparr>"

definition fgetc :: "stream \<Rightarrow> int \<times> stream" where
  "fgetc s = (if pos s < length (contents s) then (int (unat (contents s ! pos s)), s\<lparr>pos := pos s + 1\<rparr>)
     else (- 1, s\<lparr>at_eof := True\<rparr>))"

definition fread :: "nat \<Rightarrow> stream \<Rightarrow> byte list \<times> stream" where
  "fread n s = (let bs = take n (drop (pos s) (contents s))
     in (bs, s\<lparr>pos := pos s + length bs, at_eof := at_eof s \<or> length bs < n\<rparr>))"

definition fseek :: "int \<Rightarrow> stream \<Rightarrow> stream" where
  "fseek off s = (if off < 0 then s else s\<lparr>pos := nat off, at_eof := False\<rparr>)"

text \<open>\<open>fgets\<close> with a buffer of \<open>n + 1\<close> bytes\<close>

primrec take_line :: "nat \<Rightarrow> byte list \<Rightarrow> byte list" where
  "take_line n [] = []"
| "take_line n (b # bs) = (if n = 0 then [] else if b = 10 then [b] else b # take_line (n - 1) bs)"

text \<open>\<open>strtok\<close>: the token and the rest of the string, if there is a token\<close>

definition strtok :: "byte list \<Rightarrow> byte list \<Rightarrow> (byte list \<times> byte list) option" where
  "strtok delims str =
    (let s = dropWhile (\<lambda>b. b \<in> set delims) str; tok = takeWhile (\<lambda>b. b \<notin> set delims) s
     in if s = [] then None else Some (tok, drop (length tok + 1) s))"

definition lower :: "byte \<Rightarrow> byte" where
  "lower b = (if 0x41 \<le> b \<and> b \<le> 0x5A then b + 0x20 else b)"

definition strcasecmp_eq :: "byte list \<Rightarrow> byte list \<Rightarrow> bool" where
  "strcasecmp_eq s t \<longleftrightarrow> map lower s = map lower t"

definition ascii :: "string \<Rightarrow> byte list" where
  "ascii s = map of_char s"

text \<open>\<open>strtol(s, 0, 0)\<close>\<close>

definition digit :: "nat \<Rightarrow> byte \<Rightarrow> nat option" where
  "digit base b =
    (let v = (if 0x30 \<le> b \<and> b \<le> 0x39 then unat b - 0x30
              else if 0x61 \<le> lower b \<and> lower b \<le> 0x7A then unat (lower b) - 0x61 + 10 else base)
     in if v < base then Some v else None)"

primrec digits :: "nat \<Rightarrow> byte list \<Rightarrow> nat \<Rightarrow> nat" where
  "digits base [] acc = acc"
| "digits base (b # bs) acc = (case digit base b of None \<Rightarrow> acc | Some v \<Rightarrow> digits base bs (acc * base + v))"

definition unsigned_number :: "byte list \<Rightarrow> nat" where
  "unsigned_number s =
    (if take 1 s = [0x30] \<and> take 1 (map lower (drop 1 s)) = [0x78] \<and> drop 2 s \<noteq> [] \<and> digit 16 (s ! 2) \<noteq> None
     then digits 16 (drop 2 s) 0
     else if take 1 s = [0x30] then digits 8 s 0 else digits 10 s 0)"

definition strtol :: "byte list \<Rightarrow> int" where
  "strtol str =
    (let s = dropWhile (\<lambda>b. b = 0x20 \<or> (9 \<le> b \<and> b \<le> 13)) str;
         neg = (take 1 s = [0x2D]);
         s = (if take 1 s = [0x2D] \<or> take 1 s = [0x2B] then drop 1 s else s);
         v = (if neg then - int (unsigned_number s) else int (unsigned_number s))
     in max (- (2 ^ 63)) (min (2 ^ 63 - 1) v))"

section \<open>Integers in files\<close>

definition GetLong :: "stream \<Rightarrow> 32 word \<times> stream" where
  "GetLong fp =
    (let (a, fp) = fgetc fp;
         val = (of_int (a AND 0xFF) :: 32 word);
         (a, fp) = fgetc fp;
         val = val OR push_bit 0x08 (of_int (a AND 0xFF));
         (a, fp) = fgetc fp;
         val = val OR push_bit 0x10 (of_int (a AND 0xFF));
         (a, fp) = fgetc fp;
         val = val OR push_bit 0x18 (of_int (a AND 0xFF))
     in (val, fp))"

definition PutLong :: "32 word \<Rightarrow> byte list \<Rightarrow> byte list" where
  "PutLong val fp = fp @ [ucast (val AND 0xFF), ucast (drop_bit 0x08 val AND 0xFF), ucast (drop_bit 0x10 val AND 0xFF),
     ucast (drop_bit 0x18 val AND 0xFF)]"

section \<open>Checksum of UIDs\<close>

primrec docrc16_loop :: "nat \<Rightarrow> 32 word \<Rightarrow> 32 word" where
  "docrc16_loop 0 acc = acc"
| "docrc16_loop (Suc n) acc =
    docrc16_loop n (if acc AND 0x8000 \<noteq> 0 then push_bit 1 acc XOR 0x1021 else push_bit 1 acc)"

definition docrc16_1 :: "32 word \<Rightarrow> byte \<Rightarrow> 32 word" where
  "docrc16_1 crc c = docrc16_loop 8 (crc XOR push_bit 8 (ucast c)) AND 0xFFFF"

primrec uidcsum_loop :: "32 word list \<Rightarrow> 32 word \<Rightarrow> 32 word \<Rightarrow> 32 word \<times> 32 word" where
  "uidcsum_loop [] crc1 crc2 = (crc1, crc2)"
| "uidcsum_loop (u # us) crc1 crc2 =
    (let crc1 = docrc16_1 crc1 (ucast (u AND 0xFF));
         crc2 = docrc16_1 crc2 (ucast (drop_bit 8 u AND 0xFF));
         crc1 = docrc16_1 crc1 (ucast (drop_bit 16 u AND 0xFF));
         crc2 = docrc16_1 crc2 (ucast (drop_bit 24 u AND 0xFF))
     in uidcsum_loop us crc1 crc2)"

definition uidcsum :: "32 word list \<Rightarrow> 32 word" where
  "uidcsum u = (case uidcsum_loop (take 3 u) 0 0 of (crc1, crc2) \<Rightarrow> push_bit 16 crc2 OR crc1)"

section \<open>Changing the UID of an application\<close>

definition unread :: "stream \<Rightarrow> nat" where
  "unread s = (length (contents s) - pos s) + (if at_eof s then 0 else 1)"

lemma fgetc_unread: "unread (snd (fgetc s)) \<le> unread s" "\<not> at_eof s \<Longrightarrow> unread (snd (fgetc s)) < unread s"
  by (auto simp: fgetc_def unread_def)

lemma GetLong_unread: "\<not> at_eof s \<Longrightarrow> unread (snd (GetLong s)) < unread s"
  unfolding GetLong_def Let_def case_prod_beta snd_conv
  by (meson fgetc_unread le_less_trans)

text \<open>The loop over the rest of the file: the output and the number of replacements\<close>

function (sequential) change_loop :: "32 word \<Rightarrow> 32 word \<Rightarrow> stream \<Rightarrow> byte list \<Rightarrow> nat \<Rightarrow> byte list \<times> nat" where
  "change_loop oldid newid fpin fpout count =
    (if at_eof fpin then (fpout, count)
     else let (id, fpin) = GetLong fpin
     in if id = oldid then change_loop oldid newid fpin (PutLong newid fpout) (count + 1)
     else change_loop oldid newid fpin (PutLong id fpout) count)"
  by pat_completeness auto
termination
  by (relation "measure (\<lambda>(_, _, s, _, _). unread s)") (simp_all, metis GetLong_unread snd_conv, metis GetLong_unread snd_conv)

declare change_loop.simps [simp del]

text \<open>
  The arguments are the command line argument and the files, an input file that does not exist
  being \<open>None\<close>; the results are the exit status and the new contents of the output file.
\<close>

definition changeAppUid :: "byte list \<Rightarrow> byte list option \<Rightarrow> bool \<Rightarrow> int \<times> byte list option" where
  "changeAppUid uid3 fin fout_writable =
    (case fin of
       None \<Rightarrow> (1, None)
     | Some bs \<Rightarrow>
         if \<not> fout_writable then (1, None)
         else let
           (l0, fpin) = GetLong (fopen bs);
           (l1, fpin) = GetLong fpin;
           (l2, fpin) = GetLong fpin;
           (id, fpin) = GetLong fpin
         in if \<not> (l0 = 0x10000079 \<and> l1 = 0x1000006c) \<and> \<not> (l0 = 0x1000007a \<and> l1 = 0x100039ce) then (1, Some [])
         else let
           oldid = l2;
           l2 = word_of_int (strtol uid3);
           id = uidcsum [l0, l1, l2];
           fpout = PutLong id (PutLong l2 (PutLong l1 (PutLong l0 [])));
           (fpout, count) = change_loop oldid l2 fpin fpout 1
         in (if count \<noteq> 2 then 1 else 0, Some fpout))"

section \<open>Writing an AIF file\<close>

definition langs :: "byte list list" where
  "langs = map ascii [''ELangTest'', ''ELangEnglish'', ''ELangFrench'', ''ELangGerman'', ''ELangSpanish'', ''ELangItalian'',
     ''ELangSwedish'', ''ELangDanish'', ''ELangNorwegian'', ''ELangFinnish'', ''ELangAmerican'', ''ELangSwissFrench'',
     ''ELangSwissGerman'', ''ELangPortuguese'', ''ELangTurkish'', ''ELangIcelandic'', ''ELangRussian'', ''ELangHungarian'',
     ''ELangDutch'', ''ELangBelgianFlemish'', ''ELangAustralian'', ''ELangBelgianFrench'', ''ELangAustrian'', ''ELangNewZealand'']"

text \<open>The local variables of \<open>writeAif\<close> that the specification file sets\<close>

record aifspec =
  mbmfile :: "byte list option"
  hidden :: "32 word"
  embed :: "32 word"
  newfile :: "32 word"
  caps :: "byte list list"
  caplang :: "byte list"
  caprd :: nat

definition aifspec_initial :: aifspec where
  "aifspec_initial = \<lparr>mbmfile = None, hidden = 0, embed = 0, newfile = 0, caps = [], caplang = [], caprd = 0\<rparr>"

text \<open>The index of a language, or the number of languages\<close>

primrec lang_index :: "byte list list \<Rightarrow> byte list \<Rightarrow> nat" where
  "lang_index [] s = 0"
| "lang_index (x # xs) s = (if strcasecmp_eq x s then 0 else Suc (lang_index xs s))"

text \<open>One line of the specification file: \<open>Inl\<close> is the return with a message.\<close>

definition spec_line :: "byte list \<Rightarrow> aifspec \<Rightarrow> (int + aifspec) option" where
  "spec_line buf sp =
    (if buf = [] \<or> take 1 buf = [0x23] then Some (Inr sp)
     else case strtok [0x3D] buf of
       None \<Rightarrow> Some (Inl 1)
     | Some (s, rest) \<Rightarrow> (case strtok [0x0A, 0x0D] rest of
         None \<Rightarrow> Some (Inl 1)
       | Some (arg, _) \<Rightarrow>
           if strcasecmp_eq s (ascii ''mbmfile'') then Some (Inr (sp\<lparr>mbmfile := Some arg\<rparr>))
           else if strcasecmp_eq s (ascii ''hidden'') then Some (Inr (sp\<lparr>hidden := word_of_int (strtol arg)\<rparr>))
           else if strcasecmp_eq s (ascii ''embeddability'') then Some (Inr (sp\<lparr>embed := word_of_int (strtol arg)\<rparr>))
           else if strcasecmp_eq s (ascii ''newfile'') then Some (Inr (sp\<lparr>newfile := word_of_int (strtol arg)\<rparr>))
           else let idx = lang_index langs s
           in if length (caps sp) > 128 then Some (Inl 1)
           else if idx < length langs then
             if length arg > 63 then Some (Inl 1)
             else if length (caps sp) \<ge> 128 then None
             else Some (Inr (sp\<lparr>caprd := caprd sp + (length arg + 1), caps := caps sp @ [arg], caplang := caplang sp @ [of_nat idx]\<rparr>))
           else Some (Inl 1)))"

lemma take_line_length [simp]: "take_line 1023 bs = [] \<longleftrightarrow> bs = []"
  by (cases bs) auto

function (sequential) spec_lines :: "byte list \<Rightarrow> aifspec \<Rightarrow> (int + aifspec) option" where
  "spec_lines rest sp =
    (if rest = [] then Some (Inr sp)
     else let line = take_line 1023 rest
     in case spec_line (takeWhile (\<lambda>b. b \<noteq> 0) line) sp of
       None \<Rightarrow> None
     | Some (Inl r) \<Rightarrow> Some (Inl r)
     | Some (Inr sp) \<Rightarrow> spec_lines (drop (length line) rest) sp)"
  by pat_completeness auto
termination
  by (relation "measure (\<lambda>(rest, _). length rest)") auto

declare spec_lines.simps [simp del]

text \<open>The loop that copies the MBM file: the last count, the input and the output\<close>

function (sequential) copy_mbm :: "int \<Rightarrow> int \<Rightarrow> nat \<Rightarrow> stream \<Rightarrow> byte list \<Rightarrow> nat \<times> stream \<times> byte list" where
  "copy_mbm no idx rd fpin fpout =
    (if idx < no \<and> rd \<noteq> 0 then
       let (buf, fpin) = fread (if no - idx > 1024 then 1024 else nat (no - idx)) fpin
       in copy_mbm no (idx + int (length buf)) (length buf) fpin (fpout @ buf)
     else (rd, fpin, fpout))"
  by pat_completeness auto
termination
  by (relation "measure (\<lambda>(no, idx, rd, _, _). 2 * nat (no - idx) + (if rd = 0 then 0 else 1))") auto

declare copy_mbm.simps [simp del]

text \<open>The loop over the captions: their offsets and the output\<close>

primrec write_caps :: "bool \<Rightarrow> byte list list \<Rightarrow> 32 word \<Rightarrow> byte list \<Rightarrow> 32 word list \<times> byte list" where
  "write_caps uni [] rd fpout = ([], fpout)"
| "write_caps uni (c # cs) rd fpout =
    (let len = length c;
         fpout = fpout @ [of_nat (len * 4 + (if uni then 0 else 2))] @ c;
         (ps, fpout) = write_caps uni cs (rd + of_nat (len + 1)) fpout
     in (rd # ps, fpout))"

text \<open>The loop over the caption offsets\<close>

definition write_offsets :: "32 word list \<Rightarrow> byte list \<Rightarrow> byte list \<Rightarrow> byte list" where
  "write_offsets cappos ls fpout = fold (\<lambda>(p, lang) fpout. PutLong p fpout @ [lang, 0]) (zip cappos ls) fpout"

text \<open>The loop over the pairs of icons\<close>

function (sequential) write_icons :: "int \<Rightarrow> int \<Rightarrow> stream \<Rightarrow> byte list \<Rightarrow> stream \<times> byte list" where
  "write_icons no idx fpin fpout =
    (if idx < no then let
       (rd, fpin) = GetLong fpin;
       fpout = PutLong rd fpout;
       len = pos fpin;
       fpin = fseek (sint rd) fpin;
       (rd, fpin) = GetLong fpin;
       (rd, fpin) = GetLong fpin;
       (rd, fpin) = GetLong fpin;
       fpout = fpout @ [ucast (rd AND 0xFF), ucast (drop_bit 8 (rd AND 0xFF00))];
       fpin = fseek (int len) fpin;
       (rd, fpin) = GetLong fpin
     in write_icons no (idx + 2) fpin fpout
     else (fpin, fpout))"
  by pat_completeness auto
termination
  by (relation "measure (\<lambda>(no, idx, _, _). nat (no - idx))") auto

declare write_icons.simps [simp del]

text \<open>The part after the caption offsets\<close>

definition write_trailer :: "aifspec \<Rightarrow> stream \<Rightarrow> byte list \<Rightarrow> int \<times> byte list" where
  "write_trailer sp fpin fpout =
    (let (no, fpin) = GetLong fpin
     in if no AND 1 \<noteq> 0 \<or> no = 0 then (1, fpout)
     else let
       fpout = fpout @ [ucast no];
       (fpin, fpout) = write_icons (sint no) 0 fpin fpout
     in (0, PutLong (hidden sp) (PutLong (newfile sp) (PutLong (embed sp) (PutLong 1 fpout)))))"

text \<open>The part that reads the MBM file\<close>

definition write_mbm :: "bool \<Rightarrow> aifspec \<Rightarrow> byte list \<Rightarrow> byte list \<Rightarrow> int \<times> byte list" where
  "write_mbm uni sp mbm fpout =
    (let (no, fpin) = GetLong (fopen mbm);
         (uid, fpin) = GetLong fpin
     in if no \<noteq> 0x10000037 \<or> uid \<noteq> 0x10000042 then (1, fpout)
     else let
       (no, fpin) = GetLong fpin;
       (no, fpin) = GetLong fpin;
       (no, fpin) = GetLong fpin;
       fpout = PutLong (no + of_nat (caprd sp)) fpout;
       (rd, fpin, fpout) = copy_mbm (sint no) 20 1 fpin fpout
     in if rd = 0 then (1, fpout)
     else let
       (cappos, fpout) = write_caps uni (caps sp) no fpout;
       fpout = fpout @ [of_nat (2 * length (caps sp))];
       fpout = write_offsets cappos (caplang sp) fpout
     in write_trailer sp fpin fpout)"

text \<open>
  The files are the specification file, whether the output file can be written, and the MBM
  files by name.
\<close>

definition writeAif :: "bool \<Rightarrow> byte list \<Rightarrow> byte list option \<Rightarrow> bool \<Rightarrow> (byte list \<Rightarrow> byte list option) \<Rightarrow>
    (int \<times> byte list option) option" where
  "writeAif uni cuid fspec fout_writable mbms =
    (case fspec of
       None \<Rightarrow> Some (1, None)
     | Some spec \<Rightarrow>
         if \<not> fout_writable then Some (1, None)
         else let uid = word_of_int (strtol cuid)
         in case spec_lines spec aifspec_initial of
           None \<Rightarrow> None
         | Some (Inl r) \<Rightarrow> Some (r, Some [])
         | Some (Inr sp) \<Rightarrow>
             if uid = 0 then Some (0, Some [])
             else let
               l = [0x10000037, if uni then 0x10003a38 else 0x1000006a, uid];
               fpout = PutLong (l ! 2) (PutLong (l ! 1) (PutLong (l ! 0) []));
               fpout = PutLong (uidcsum l) fpout
             in case mbmfile sp of
               None \<Rightarrow> Some (0, Some (PutLong 0 fpout))
             | Some name \<Rightarrow> (case mbms name of
                 None \<Rightarrow> Some (1, Some fpout)
               | Some mbm \<Rightarrow> (case write_mbm uni sp mbm fpout of (r, fpout) \<Rightarrow> Some (r, Some fpout))))"

text \<open>
  \<open>main\<close> with the command line \<open>av\<close>, the name of the program included: the exit status and the
  effect.  \<open>files\<close> are the files that can be read and \<open>writable\<close> the names that can be opened for
  writing; the output file is none of the files that are read.
\<close>

datatype genaif_effect =
    Print_checksum "32 word"
  | Write_file "byte list" "byte list option"
  | Print_usage

definition genaif_main :: "(byte list \<Rightarrow> byte list option) \<Rightarrow> (byte list \<Rightarrow> bool) \<Rightarrow> byte list list \<Rightarrow> (int \<times> genaif_effect) option" where
  "genaif_main files writable av =
    (if length av = 5 \<and> av ! 1 = ascii ''-print-checksum'' then
       Some (0, Print_checksum (uidcsum [word_of_int (strtol (av ! 2)), word_of_int (strtol (av ! 3)), word_of_int (strtol (av ! 4))]))
     else if length av = 5 \<and> av ! 1 = ascii ''-change-app-uid3'' then
       (case changeAppUid (av ! 2) (files (av ! 3)) (writable (av ! 4)) of (r, out) \<Rightarrow> Some (r, Write_file (av ! 4) out))
     else let
       uni = (length av > 1 \<and> av ! 1 = ascii ''-u'');
       av = (if uni then tl av else av)
     in if length av = 4 then
       (case writeAif uni (av ! 1) (files (av ! 2)) (writable (av ! 3)) files of
          None \<Rightarrow> None
        | Some (r, out) \<Rightarrow> Some (r, Write_file (av ! 3) out))
     else Some (0, Print_usage))"

section \<open>The checksum\<close>

lemma and_bit_15: "(acc AND 0x8000 \<noteq> 0) = bit (acc :: 32 word) 15"
proof -
  have "(0x8000 :: 32 word) = push_bit 15 1" by simp
  then show ?thesis by (metis bit_iff_and_push_bit_not_eq_0)
qed

lemma ucast_push: "(ucast (push_bit k (x :: 32 word)) :: 16 word) = push_bit k (ucast x)"
  by (rule bit_word_eqI) (auto simp: bit_simps)

lemma and_16: "x AND 0xFFFF = ucast (ucast (x :: 32 word) :: 16 word)"
proof -
  have "(0xFFFF :: 32 word) = mask 16" by (simp add: mask_eq_exp_minus_1)
  then have "x AND 0xFFFF = take_bit 16 x" by (simp add: take_bit_eq_mask)
  then show ?thesis by (simp add: unsigned_ucast_eq)
qed

lemma docrc16_loop_crc: "(ucast (docrc16_loop n acc) :: 16 word) = crc_bits n (ucast acc)"
proof (induction n arbitrary: acc)
  case (Suc n)
  have "(ucast (if acc AND 0x8000 \<noteq> 0 then push_bit 1 acc XOR 0x1021 else push_bit 1 acc) :: 16 word) = crc_bit (ucast acc)"
    unfolding crc_bit_eq and_bit_15 using ucast_push [of 1 acc] by (simp add: unsigned_xor_eq bit_simps)
  then show ?case by (simp add: Suc.IH)
qed simp

lemma docrc16_1_crc: "docrc16_1 crc c = ucast (crcSlow_byte c (ucast crc))"
proof -
  have "(ucast (crc XOR push_bit 8 (ucast c)) :: 16 word) = ucast crc XOR push_bit 8 (ucast c)"
    by (rule bit_word_eqI) (auto simp: bit_simps)
  then show ?thesis unfolding docrc16_1_def and_16 docrc16_loop_crc crcSlow_byte_def by simp
qed

section \<open>Integers in files\<close>

abbreviation le32 :: "32 word \<Rightarrow> byte list" where
  "le32 w \<equiv> PutLong w []"

lemma ucast_and_FF: "(ucast (x AND 0xFF :: 32 word) :: byte) = ucast x"
proof -
  have "(0xFF :: 32 word) = mask 8" by (simp add: mask_eq_exp_minus_1)
  then have "x AND 0xFF = take_bit 8 x" by (simp add: take_bit_eq_mask)
  then show ?thesis by (simp add: unsigned_take_bit_eq) (rule bit_word_eqI, auto simp: bit_simps)
qed

lemma le32_eq: "le32 w = [ucast w, ucast (drop_bit 8 w), ucast (drop_bit 16 w), ucast (drop_bit 24 w)]"
  by (simp add: PutLong_def ucast_and_FF)

lemma length_le32 [simp]: "length (le32 w) = 4"
  by (simp add: le32_eq)

lemma PutLong_le32: "PutLong w out = out @ le32 w"
  by (simp add: PutLong_def)

lemma byte_and_FF: "word_of_int (uint (b :: byte) AND 0xFF) = (ucast b :: 32 word)"
proof -
  have "uint b < 2 ^ 8" using unsigned_less [of b, where 'a = int] by simp
  then have "take_bit 8 (uint b) = uint b" by (intro take_bit_int_eq_self) simp_all
  moreover have "uint b AND 0xFF = take_bit 8 (uint b)" by (simp add: take_bit_eq_mask mask_eq_exp_minus_1)
  ultimately show ?thesis by simp
qed

lemma word_of_bytes:
  "ucast (ucast w :: byte) OR push_bit 8 (ucast (ucast (drop_bit 8 w) :: byte)) OR push_bit 16 (ucast (ucast (drop_bit 16 w) :: byte))
     OR push_bit 24 (ucast (ucast (drop_bit 24 w) :: byte)) = (w :: 32 word)" (is "?l = w")
proof (rule bit_word_eqI)
  fix n assume "n < LENGTH(32)"
  then consider "n < 8" | "8 \<le> n" "n < 16" | "16 \<le> n" "n < 24" | "24 \<le> n" "n < 32" by fastforce
  then show "bit ?l n = bit w n" by cases (auto simp: bit_simps)
qed

lemma GetLong_word:
  assumes "drop (pos s) (contents s) = le32 w @ rest"
  shows "GetLong s = (w, s\<lparr>pos := pos s + 4\<rparr>)"
proof -
  have len: "pos s + 4 \<le> length (contents s)" using arg_cong [OF assms, of length] by (simp add: le32_eq)
  have b: "contents s ! (pos s + i) = le32 w ! i" if "i < 4" for i
  proof -
    have "contents s ! (pos s + i) = drop (pos s) (contents s) ! i" using len by (simp add: nth_drop)
    then show ?thesis unfolding assms using that by (simp add: nth_append del: append_assoc append.simps)
  qed
  from b [of 0] b [of 1] b [of 2] b [of 3]
  have c: "contents s ! pos s = ucast w" "contents s ! Suc (pos s) = ucast (drop_bit 8 w)"
    "contents s ! Suc (Suc (pos s)) = ucast (drop_bit 16 w)" "contents s ! Suc (Suc (Suc (pos s))) = ucast (drop_bit 24 w)"
    by (simp_all add: le32_eq numeral_2_eq_2 numeral_3_eq_3)
  show ?thesis
    using len c by (simp add: GetLong_def fgetc_def byte_and_FF Let_def word_of_bytes or.assoc)
qed

lemma GetLong_end:
  assumes "length (contents s) \<le> pos s"
  shows "GetLong s = (0xFFFFFFFF, s\<lparr>at_eof := True\<rparr>)"
  using assms by (simp add: GetLong_def fgetc_def Let_def)

section \<open>Properties\<close>

text \<open>The bytes of a word that enter the first and the second checksum\<close>

definition even_bytes :: "32 word \<Rightarrow> byte list" where
  "even_bytes u = [ucast u, ucast (drop_bit 16 u)]"

definition odd_bytes :: "32 word \<Rightarrow> byte list" where
  "odd_bytes u = [ucast (drop_bit 8 u), ucast (drop_bit 24 u)]"

lemma ucast_up_down: "(ucast (ucast (x :: 16 word) :: 32 word) :: 16 word) = x"
  by (rule bit_word_eqI) (auto simp: bit_simps)

lemma uidcsum_loop_crc:
  "uidcsum_loop us (ucast (c1 :: 16 word)) (ucast (c2 :: 16 word)) =
     (ucast (fold crcSlow_byte (concat (map even_bytes us)) c1), ucast (fold crcSlow_byte (concat (map odd_bytes us)) c2))"
  by (induction us arbitrary: c1 c2)
    (simp_all add: docrc16_1_crc ucast_and_FF ucast_up_down even_bytes_def odd_bytes_def Let_def)

text \<open>The contents of the output: every further word, and one word more than there are\<close>

definition changed :: "32 word \<Rightarrow> 32 word \<Rightarrow> 32 word list \<Rightarrow> 32 word list" where
  "changed oldid newid ws = map (\<lambda>w. if w = oldid then newid else w) (ws @ [0xFFFFFFFF])"

lemma change_loop_words:
  assumes "drop (pos s) (contents s) = concat (map le32 ws)" "\<not> at_eof s"
  shows "change_loop oldid newid s out n =
    (out @ concat (map le32 (changed oldid newid ws)), n + count_list (ws @ [0xFFFFFFFF]) oldid)"
  using assms
proof (induction ws arbitrary: s out n)
  case Nil
  then have "GetLong s = (0xFFFFFFFF, s\<lparr>at_eof := True\<rparr>)" by (intro GetLong_end) simp
  then show ?case using Nil.prems by (simp add: change_loop.simps [of _ _ s] change_loop.simps [of _ _ "s\<lparr>at_eof := True\<rparr>"] changed_def PutLong_le32 [of _ out])
next
  case (Cons w ws)
  let ?s = "s\<lparr>pos := pos s + 4\<rparr>"
  have g: "GetLong s = (w, ?s)" using Cons.prems by (intro GetLong_word) simp
  have "drop (pos s + 4) (contents s) = concat (map le32 ws)"
    using arg_cong [OF Cons.prems(1), of "drop 4"] by (simp add: add.commute)
  then show ?case
    using Cons.prems(2) g Cons.IH [of ?s] by (simp add: change_loop.simps [of _ _ s] changed_def PutLong_le32 [of _ out])
qed

text \<open>
  C40. Changing the UID of an application file of whole words replaces the third UID and the
  checksum, and every further word that equals the old UID, and keeps all others; it succeeds
  when there is exactly one such word.  But the output always has one word more than the input,
  \<open>0xFFFFFFFF\<close>, because the loop only sees the end of the file after it has read beyond it.
\<close>

theorem changeAppUid_words:
  assumes "u1 = 0x10000079 \<and> u2 = 0x1000006c \<or> u1 = 0x1000007a \<and> u2 = 0x100039ce"
  shows "changeAppUid arg (Some (concat (map le32 ([u1, u2, u3, csum] @ ws)))) True =
    (if count_list (ws @ [0xFFFFFFFF]) u3 = 1 then 0 else 1,
     Some (concat (map le32 ([u1, u2, word_of_int (strtol arg), uidcsum [u1, u2, word_of_int (strtol arg)]] @
       changed u3 (word_of_int (strtol arg)) ws))))"
proof -
  let ?bs = "concat (map le32 ([u1, u2, u3, csum] @ ws))" and ?new = "word_of_int (strtol arg) :: 32 word"
  define s where "s k = \<lparr>contents = ?bs, pos = k, at_eof = False\<rparr>" for k
  have upd: "(s k)\<lparr>pos := k'\<rparr> = s k'" for k k' by (simp add: s_def)
  have g: "GetLong (s 0) = (u1, s 4)" "GetLong (s 4) = (u2, s 8)" "GetLong (s 8) = (u3, s 12)" "GetLong (s 12) = (csum, s 16)"
    using GetLong_word [of "s 0" u1] GetLong_word [of "s 4" u2] GetLong_word [of "s 8" u3] GetLong_word [of "s 12" csum]
    by (simp_all add: s_def)
  have "change_loop u3 ?new (s 16) out 1 = (out @ concat (map le32 (changed u3 ?new ws)), 1 + count_list (ws @ [0xFFFFFFFF]) u3)" for out
    by (rule change_loop_words) (simp_all add: s_def)
  moreover have "fopen ?bs = s 0" by (simp add: fopen_def s_def)
  ultimately show ?thesis
    using assms g by (auto simp: changeAppUid_def PutLong_def Let_def)
qed

theorem changeAppUid_words_witness:
  "changeAppUid (ascii ''7'') (Some (concat (map le32 [0x10000079, 0x1000006c, 5, 0, 9, 5, 1]))) True =
    (0, Some (concat (map le32 [0x10000079, 0x1000006c, 7, uidcsum [0x10000079, 0x1000006c, 7], 9, 7, 1, 0xFFFFFFFF])))"
proof -
  have "strtol (ascii ''7'') = 7" by code_simp
  then show ?thesis
    using changeAppUid_words [of "0x10000079" "0x1000006c" "ascii ''7''" 5 0 "[9, 5, 1]"] by (simp add: changed_def)
qed

section \<open>The layout of AIF files\<close>

lemma drop_take_split: "a + k \<le> c \<Longrightarrow> drop a (take c xs) = take k (drop a xs) @ drop (a + k) (take c xs)"
  using take_add [of k "c - (a + k)" "drop a xs"] by (simp add: drop_take add.commute)

lemma copy_mbm_all:
  assumes "pos s = nat idx" "0 \<le> idx" "idx \<le> no" "nat no \<le> length (contents s)" "rd \<noteq> 0" "\<not> at_eof s"
  shows "\<exists>rd'. rd' \<noteq> 0 \<and> copy_mbm no idx rd s out = (rd', s\<lparr>pos := nat no\<rparr>, out @ drop (nat idx) (take (nat no) (contents s)))"
  using assms
proof (induction "nat (no - idx)" arbitrary: idx rd s out rule: less_induct)
  case less
  show ?case
  proof (cases "idx < no")
    case False
    then have "s\<lparr>pos := nat no\<rparr> = s" using less.prems by simp
    then show ?thesis using False less.prems by (simp add: copy_mbm.simps [of no])
  next
    case True
    define k where "k = (if no - idx > 1024 then 1024 else nat (no - idx))"
    have k: "0 < k" "int k \<le> no - idx" using True by (auto simp: k_def)
    let ?b = "take k (drop (nat idx) (contents s))" and ?s = "s\<lparr>pos := pos s + k\<rparr>"
    have nk: "nat (idx + int k) = nat idx + k" "nat idx + k \<le> nat no" using less.prems(2) k by linarith+
    have len: "length ?b = k" using less.prems(4) nk(2) by simp
    have "fread k s = (?b, ?s)" using less.prems(1,6) len by (simp add: fread_def Let_def)
    then have run: "copy_mbm no idx rd s out = copy_mbm no (idx + int k) k ?s (out @ ?b)"
      using True less.prems(5) len by (subst copy_mbm.simps) (simp add: k_def [symmetric])
    obtain rd' where rd': "rd' \<noteq> 0" "copy_mbm no (idx + int k) k ?s (out @ ?b) =
        (rd', ?s\<lparr>pos := nat no\<rparr>, (out @ ?b) @ drop (nat (idx + int k)) (take (nat no) (contents ?s)))"
      using less.hyps [of "idx + int k" ?s k "out @ ?b"] less.prems k nk True by auto
    have "drop (nat idx) (take (nat no) (contents s)) = ?b @ drop (nat (idx + int k)) (take (nat no) (contents s))"
      unfolding nk(1) by (rule drop_take_split) (rule nk(2))
    then show ?thesis using rd' by (simp add: run)
  qed
qed

definition cap_bytes :: "bool \<Rightarrow> byte list \<Rightarrow> byte list" where
  "cap_bytes uni c = of_nat (length c * 4 + (if uni then 0 else 2)) # c"

text \<open>The offset of the \<open>i\<close>-th caption, if the captions start at \<open>t\<close>\<close>

definition cap_offset :: "byte list list \<Rightarrow> nat \<Rightarrow> nat \<Rightarrow> nat" where
  "cap_offset cs t i = t + sum_list (map (\<lambda>c. length c + 1) (take i cs))"

lemma write_caps_eq:
  "write_caps uni cs (of_nat t) out = (map (\<lambda>i. of_nat (cap_offset cs t i)) [0..<length cs], out @ concat (map (cap_bytes uni) cs))"
proof (induction cs arbitrary: t out)
  case (Cons c cs)
  have "of_nat t + of_nat (length c + 1) = (of_nat (t + (length c + 1)) :: 32 word)" by simp
  then show ?case using Cons.IH [of "t + (length c + 1)"]
    by (simp add: cap_bytes_def cap_offset_def Let_def map_upt_Suc add.assoc del: upt_Suc of_nat_add of_nat_Suc)
qed simp

lemma write_offsets_eq:
  "write_offsets ps ls out = out @ concat (map (\<lambda>(p, l). le32 p @ [l, 0]) (zip ps ls))"
proof -
  have "fold (\<lambda>(p, lang) out. PutLong p out @ [lang, 0]) xs out = out @ concat (map (\<lambda>(p, l). le32 p @ [l, 0]) xs)" for xs
    by (induction xs arbitrary: out) (auto simp: PutLong_def)
  then show ?thesis by (simp add: write_offsets_def)
qed

lemma write_icons_append: "\<exists>rest. snd (write_icons no idx s out) = out @ rest"
proof (induction "nat (no - idx)" arbitrary: idx s out rule: less_induct)
  case less
  show ?case
  proof (cases "idx < no")
    case True
    then have "\<exists>s' xs. write_icons no idx s out = write_icons no (idx + 2) s' (out @ xs)"
      by (subst write_icons.simps) (auto simp: Let_def PutLong_def split: prod.splits)
    then obtain s' xs where "write_icons no idx s out = write_icons no (idx + 2) s' (out @ xs)" by blast
    with less [of "idx + 2" s' "out @ xs"] True show ?thesis by auto
  qed (simp add: write_icons.simps)
qed

lemma write_trailer_append: "\<exists>rest. snd (write_trailer sp s out) = out @ rest"
proof -
  obtain no s' where g: "GetLong s = (no, s')" by fastforce
  obtain s2 out2 where w: "write_icons (sint no) 0 s' (out @ [ucast no]) = (s2, out2)" by fastforce
  obtain rest where "out2 = out @ ucast no # rest" using write_icons_append [of "sint no" 0 s' "out @ [ucast no]"] w by auto
  then show ?thesis using g w by (simp add: write_trailer_def PutLong_def)
qed

lemma drop_append_length: "drop (length xs + n) (xs @ ys) = drop n ys"
  by simp

lemma chunk_at:
  assumes "i < length xs"
  shows "take (length (f (xs ! i))) (drop (length (concat (map f (take i xs)))) (concat (map f xs) @ rest)) = f (xs ! i)"
proof -
  have "concat (map f xs) = concat (map f (take i xs)) @ f (xs ! i) @ concat (map f (drop (Suc i) xs))"
    using id_take_nth_drop [OF assms] by (metis (no_types, lifting) concat.simps(2) concat_append list.simps(9) map_append)
  then show ?thesis by simp
qed

text \<open>The table of caption offsets\<close>

definition offset_table :: "byte list list \<Rightarrow> byte list \<Rightarrow> nat \<Rightarrow> byte list" where
  "offset_table cs ls t = concat (map (\<lambda>(p, l). le32 p @ [l, 0]) (zip (map (\<lambda>i. of_nat (cap_offset cs t i)) [0..<length cs]) ls))"

lemma write_mbm_output:
  assumes mbm: "mbm = concat (map le32 [0x10000037, 0x10000042, x, y, of_nat t]) @ data"
    and t: "20 \<le> t" "t \<le> length mbm" "t < 2 ^ 31"
  shows "\<exists>rest. snd (write_mbm uni sp mbm out) = out @ le32 (of_nat (t + caprd sp)) @ drop 20 (take t mbm) @
    concat (map (cap_bytes uni) (caps sp)) @ [of_nat (2 * length (caps sp))] @ offset_table (caps sp) (caplang sp) t @ rest"
proof -
  define s where "s k = \<lparr>contents = mbm, pos = k, at_eof = False\<rparr>" for k
  have g: "GetLong (s 0) = (0x10000037, s 4)" "GetLong (s 4) = (0x10000042, s 8)" "GetLong (s 8) = (x, s 12)"
    "GetLong (s 12) = (y, s 16)" "GetLong (s 16) = (of_nat t, s 20)"
    using GetLong_word [of "s 0" "0x10000037"] GetLong_word [of "s 4" "0x10000042"] GetLong_word [of "s 8" x] GetLong_word [of "s 12" y]
      GetLong_word [of "s 16" "of_nat t"]
    by (simp_all add: s_def mbm)
  have sint: "sint (of_nat t :: 32 word) = int t" using t(3) by (simp add: signed_of_nat signed_take_bit_int_eq_self)
  let ?hd = "PutLong (of_nat t + of_nat (caprd sp)) out"
  obtain rd where cp: "rd \<noteq> 0" "copy_mbm (int t) 20 1 (s 20) ?hd = (rd, s t, ?hd @ drop 20 (take t mbm))"
    using copy_mbm_all [of "s 20" 20 "int t" 1 ?hd] t(1,2) by (auto simp: s_def)
  let ?out = "?hd @ drop 20 (take t mbm) @ concat (map (cap_bytes uni) (caps sp)) @ [of_nat (2 * length (caps sp))] @
    offset_table (caps sp) (caplang sp) t"
  have "fopen mbm = s 0" by (simp add: fopen_def s_def)
  then have "write_mbm uni sp mbm out = write_trailer sp (s t) ?out"
    using g cp by (simp add: write_mbm_def sint write_caps_eq write_offsets_eq offset_table_def Let_def)
  then show ?thesis using write_trailer_append [of sp "s t" ?out] by (auto simp: PutLong_le32 [of _ out])
qed

lemma write_mbm_layout:
  assumes mbm: "mbm = concat (map le32 [0x10000037, 0x10000042, x, y, of_nat t]) @ data"
    and t: "20 \<le> t" "t \<le> length mbm" "t < 2 ^ 31"
    and sp: "caprd sp = sum_list (map (\<lambda>c. length c + 1) (caps sp))" "length (caplang sp) = length (caps sp)"
    and head: "length head = 16" and out: "out = snd (write_mbm uni sp mbm head)" and i: "i < length (caps sp)"
  shows "take 4 (drop 16 out) = le32 (of_nat (t + caprd sp)) \<and> out ! (t + caprd sp) = of_nat (2 * length (caps sp)) \<and>
    take 6 (drop (t + caprd sp + 1 + 6 * i) out) = le32 (of_nat (cap_offset (caps sp) t i)) @ [caplang sp ! i, 0] \<and>
    take (length (caps sp ! i) + 1) (drop (cap_offset (caps sp) t i) out) = cap_bytes uni (caps sp ! i)"
proof -
  let ?cs = "caps sp" and ?ls = "caplang sp" and ?m = "drop 20 (take t mbm)" and ?T = "t + caprd sp"
  let ?C = "concat (map (cap_bytes uni) (caps sp))" and ?O = "offset_table (caps sp) (caplang sp) t"
  obtain rest where o: "out = head @ le32 (of_nat ?T) @ ?m @ ?C @ [of_nat (2 * length ?cs)] @ ?O @ rest"
    using write_mbm_output [OF mbm t, of uni sp head] out by blast
  have len: "length (concat (map (cap_bytes uni) cs)) = sum_list (map (\<lambda>c. length c + 1) cs)" for cs
    by (induction cs) (simp_all add: cap_bytes_def)
  have pre: "length (head @ le32 (of_nat ?T) @ ?m) = t" using head t by simp
  have T: "length (head @ le32 (of_nat ?T) @ ?m @ ?C) = ?T" using pre len [of ?cs] sp(1) by simp
  define P where "P = (head @ le32 (of_nat ?T) @ ?m @ ?C) @ [of_nat (2 * length ?cs)]"
  have P: "out = P @ ?O @ rest" "length P = ?T + 1" using o T by (simp_all add: P_def)
  have "take 4 (drop 16 out) = le32 (of_nat ?T)" using o head by simp
  moreover have "out ! ?T = of_nat (2 * length ?cs)"
  proof -
    have "out = (head @ le32 (of_nat ?T) @ ?m @ ?C) @ of_nat (2 * length ?cs) # ?O @ rest" using o by simp
    then show ?thesis using nth_append_length T by metis
  qed
  moreover have "take 6 (drop (?T + 1 + 6 * i) out) = le32 (of_nat (cap_offset ?cs t i)) @ [?ls ! i, 0]"
  proof -
    let ?f = "\<lambda>(p, l). le32 p @ [l, 0 :: byte]" and ?xs = "zip (map (\<lambda>j. of_nat (cap_offset ?cs t j)) [0..<length ?cs]) ?ls"
    have ix: "i < length ?xs" using i sp(2) by simp
    have f6: "length (?f x) = 6" for x by (cases x) simp
    have l6: "length (concat (map ?f ys)) = 6 * length ys" for ys by (induction ys) (simp_all add: f6)
    have "drop (?T + 1 + 6 * i) out = drop (6 * i) (?O @ rest)"
      using drop_append_length [of P "6 * i" "?O @ rest"] unfolding P(2) P(1) [symmetric] .
    moreover have "take 6 (drop (6 * i) (?O @ rest)) = ?f (?xs ! i)"
      using chunk_at [OF ix, of ?f rest] ix i by (simp add: offset_table_def f6 l6)
    ultimately show ?thesis using i sp(2) by simp
  qed
  moreover have "take (length (?cs ! i) + 1) (drop (cap_offset ?cs t i) out) = cap_bytes uni (?cs ! i)"
  proof -
    let ?k = "sum_list (map (\<lambda>c. length c + 1) (take i ?cs))" and ?r = "[of_nat (2 * length ?cs)] @ ?O @ rest"
    define Q where "Q = head @ le32 (of_nat ?T) @ ?m"
    have Q: "out = Q @ ?C @ ?r" "length Q = t" using o pre by (simp_all add: Q_def)
    have "drop (cap_offset ?cs t i) out = drop ?k (?C @ ?r)"
      using drop_append_length [of Q ?k "?C @ ?r"] unfolding Q(2) Q(1) [symmetric] cap_offset_def .
    moreover have "take (length (cap_bytes uni (?cs ! i))) (drop ?k (?C @ ?r)) = cap_bytes uni (?cs ! i)"
      using chunk_at [OF i, of "cap_bytes uni" ?r] len [of "take i ?cs"] by simp
    ultimately show ?thesis by (simp add: cap_bytes_def)
  qed
  ultimately show ?thesis by blast
qed

text \<open>The captions of a specification are counted, their languages known and their total length is right.\<close>

definition aifspec_ok :: "aifspec \<Rightarrow> bool" where
  "aifspec_ok sp \<longleftrightarrow> caprd sp = sum_list (map (\<lambda>c. length c + 1) (caps sp)) \<and> length (caplang sp) = length (caps sp) \<and>
     length (caps sp) \<le> 128 \<and> (\<forall>c\<in>set (caps sp). length c \<le> 63) \<and> (\<forall>b\<in>set (caplang sp). unat b < length langs)"

lemma length_langs: "length langs = 24"
  by (simp add: langs_def)

lemma spec_line_captions:
  assumes "spec_line buf sp = Some (Inr sp')"
  shows "caps sp' = caps sp \<and> caplang sp' = caplang sp \<and> caprd sp' = caprd sp \<or>
    (\<exists>arg idx. caps sp' = caps sp @ [arg] \<and> caplang sp' = caplang sp @ [of_nat idx] \<and> caprd sp' = caprd sp + (length arg + 1) \<and>
       idx < length langs \<and> length arg \<le> 63 \<and> length (caps sp) < 128)"
  using assms by (auto simp: spec_line_def Let_def not_le split: if_splits option.splits) blast+

lemma spec_line_ok:
  assumes "aifspec_ok sp" "spec_line buf sp = Some (Inr sp')"
  shows "aifspec_ok sp'"
  using spec_line_captions [OF assms(2)]
proof
  assume "\<exists>arg idx. caps sp' = caps sp @ [arg] \<and> caplang sp' = caplang sp @ [of_nat idx] \<and> caprd sp' = caprd sp + (length arg + 1) \<and>
       idx < length langs \<and> length arg \<le> 63 \<and> length (caps sp) < 128"
  then obtain arg idx where *: "caps sp' = caps sp @ [arg]" "caplang sp' = caplang sp @ [of_nat idx]"
    "caprd sp' = caprd sp + (length arg + 1)" "idx < length langs" "length arg \<le> 63" "length (caps sp) < 128" by blast
  have "unat (of_nat idx :: byte) = idx" using *(4) by (simp add: length_langs unat_of_nat)
  then show ?thesis using assms(1) * by (simp add: aifspec_ok_def ball_Un)
qed (use assms(1) in \<open>simp add: aifspec_ok_def\<close>)

lemma spec_lines_ok: "aifspec_ok sp \<Longrightarrow> spec_lines rest sp = Some (Inr sp') \<Longrightarrow> aifspec_ok sp'"
proof (induction rest sp arbitrary: sp' rule: spec_lines.induct)
  case (1 rest sp)
  show ?case
  proof (cases "rest = []")
    case False
    let ?line = "take_line 1023 rest" and ?buf = "takeWhile (\<lambda>b. b \<noteq> 0) (take_line 1023 rest)"
    have run: "spec_lines rest sp = (case spec_line ?buf sp of None \<Rightarrow> None | Some (Inl r) \<Rightarrow> Some (Inl r)
        | Some (Inr sp1) \<Rightarrow> spec_lines (drop (length ?line) rest) sp1)"
      using False by (simp only: spec_lines.simps [of rest] Let_def if_False)
    then obtain sp1 where sp1: "spec_line ?buf sp = Some (Inr sp1)" using 1(3) by (cases "spec_line ?buf sp" rule: option.exhaust; cases "the (spec_line ?buf sp)") auto
    then show ?thesis using 1(1) [OF False refl sp1 refl spec_line_ok [OF 1(2) sp1]] 1(3) run by simp
  qed (use 1(2,3) in \<open>simp add: spec_lines.simps\<close>)
qed

text \<open>
  C39. The offsets in an AIF file that \<open>writeAif\<close> writes for a well-formed MBM file are right: the
  offset behind the checksum is that of the table of captions, whose first byte gives twice
  the number of captions, and the \<open>i\<close>-th entry of the table is the offset and the language of the \<open>i\<close>-th
  caption, which stands there with its length.
\<close>

theorem writeAif_layout:
  assumes run: "writeAif uni cuid (Some spec) True mbms = Some (r, Some out)" "word_of_int (strtol cuid) \<noteq> (0 :: 32 word)"
    and sp: "spec_lines spec aifspec_initial = Some (Inr sp)" "mbmfile sp = Some name" "mbms name = Some mbm"
    and mbm: "mbm = concat (map le32 [0x10000037, 0x10000042, x, y, of_nat t]) @ data"
    and t: "20 \<le> t" "t \<le> length mbm" "t < 2 ^ 31" and i: "i < length (caps sp)"
  shows "take 4 (drop 16 out) = le32 (of_nat (t + caprd sp)) \<and> out ! (t + caprd sp) = of_nat (2 * length (caps sp)) \<and>
    take 6 (drop (t + caprd sp + 1 + 6 * i) out) = le32 (of_nat (cap_offset (caps sp) t i)) @ [caplang sp ! i, 0] \<and>
    take (length (caps sp ! i) + 1) (drop (cap_offset (caps sp) t i) out) = cap_bytes uni (caps sp ! i)"
proof -
  have "aifspec_ok aifspec_initial" by (simp add: aifspec_ok_def aifspec_initial_def)
  then have ok: "aifspec_ok sp" using spec_lines_ok sp(1) by blast
  obtain head where head: "length head = 16" "out = snd (write_mbm uni sp mbm head)"
  proof
    let ?l = "[0x10000037, if uni then 0x10003a38 else 0x1000006a, word_of_int (strtol cuid) :: 32 word]"
    show "length (concat (map le32 (?l @ [uidcsum ?l]))) = 16" by simp
    show "out = snd (write_mbm uni sp mbm (concat (map le32 (?l @ [uidcsum ?l]))))"
      using run sp by (auto simp: writeAif_def PutLong_def Let_def split: prod.splits)
  qed
  show ?thesis
    by (rule write_mbm_layout [OF mbm t _ _ head i]) (use ok in \<open>simp_all add: aifspec_ok_def\<close>)
qed

text \<open>A specification file with two captions, and an MBM file with a pair of icons\<close>

definition example_spec :: "byte list" where
  "example_spec = ascii ''ELangTest=A'' @ [10] @ ascii ''elangenglish=BC'' @ [10] @ ascii ''mbmfile=m''"

definition example_mbm :: "byte list" where
  "example_mbm = concat (map le32 [0x10000037, 0x10000042, 0, 0, of_nat 20]) @ concat (map le32 [2, 20, 0, 0, 0])"

theorem writeAif_layout_witness:
  "\<exists>r out. writeAif True (ascii ''5'') (Some example_spec) True (\<lambda>_. Some example_mbm) = Some (r, Some out) \<and>
     take 6 (drop 32 out) = [22, 0, 0, 0, 1, 0] \<and> take 3 (drop 22 out) = [8, 0x42, 0x43]"
proof -
  let ?sp = "\<lparr>mbmfile = Some (ascii ''m''), hidden = 0, embed = 0, newfile = 0, caps = [[0x41], [0x42, 0x43]], caplang = [0, 1], caprd = 5\<rparr>"
  have sp: "spec_lines example_spec aifspec_initial = Some (Inr ?sp)" by code_simp
  have uid: "word_of_int (strtol (ascii ''5'')) \<noteq> (0 :: 32 word)" by code_simp
  obtain r out where run: "writeAif True (ascii ''5'') (Some example_spec) True (\<lambda>_. Some example_mbm) = Some (r, Some out)"
    using sp uid by (auto simp: writeAif_def Let_def case_prod_beta)
  have t: "20 \<le> (20 :: nat)" "20 \<le> length example_mbm" "(20 :: nat) < 2 ^ 31" "1 < length (caps ?sp)"
    by (simp_all add: example_mbm_def)
  have b: "le32 (of_nat (cap_offset (caps ?sp) 20 1)) @ [caplang ?sp ! 1, 0] = [22, 0, 0, 0, 1, 0]" "cap_bytes True (caps ?sp ! 1) = [8, 0x42, 0x43]"
    by code_simp+
  have "take 6 (drop (20 + caprd ?sp + 1 + 6 * 1) out) = [22, 0, 0, 0, 1, 0] \<and>
     take (length (caps ?sp ! 1) + 1) (drop (cap_offset (caps ?sp) 20 1) out) = [8, 0x42, 0x43]"
    using writeAif_layout [OF run uid sp _ refl example_mbm_def t] unfolding b by simp
  then show ?thesis using run by (auto simp: cap_offset_def numeral_3_eq_3)
qed

end
