(* ===== verification/Bitstream.thy ===== *)
theory Bitstream
  imports Prelude
begin

text \<open>
  The bit streams of the deflate code of \<open>elf2e32\<close> (\<open>encode.cpp\<close>, \<open>decode.cpp\<close>, \<open>compress.cpp\<close>).  An output
  stream is the object \<open>TFileOutput\<close>, whose buffer is emptied into a file when it is full; an input
  stream reads 32-bit words of memory.  The abstraction of both is the list of their bits, high
  bits first: writing appends to it and reading takes from its front.
\<close>

unbundle bit_operations_syntax

section \<open>Failures\<close>

text \<open>
  \<open>Panic\<close> ends the program with a message; \<open>Undefined\<close> is an access outside of an array or a failed
  \<open>assert\<close>; \<open>Exit\<close> is a program that returns with a status.
\<close>

datatype TPanic = EHuffmanTooManyCodes | EHuffmanInvalidCoding | EHuffmanBufferOverflow | EHuffmanOutOfMemory | EHuffmanCorruptFile

datatype failure = Panic TPanic | Undefined | Exit nat

section \<open>Output\<close>

text \<open>\<open>iBuf\<close> holds the bytes in front of \<open>iPtr\<close>; the buffer is full when it has \<open>KBufSize\<close> bytes.\<close>

record TFileOutput =
  iCode :: "32 word"
  iBits :: int
  iBuf :: "byte list"
  iOutStream :: "byte list"
  iDataCount :: "32 word"

abbreviation (input) KBufSize :: nat where "KBufSize \<equiv> 0x1000"

definition TFileOutput_new :: "byte list \<Rightarrow> TFileOutput" where
  "TFileOutput_new os = \<lparr>iCode = 0, iBits = - 8, iBuf = [], iOutStream = os, iDataCount = 0\<rparr>"

definition FlushL :: "TFileOutput \<Rightarrow> TFileOutput" where
  "FlushL out =
    (let len = length (iBuf out)
     in if len \<noteq> 0 then out\<lparr>iOutStream := iOutStream out @ iBuf out, iDataCount := iDataCount out + of_nat len\<rparr> else out)"

definition OverflowL :: "TFileOutput \<Rightarrow> TFileOutput" where
  "OverflowL out = (FlushL out)\<lparr>iBuf := []\<rparr>"

text \<open>The loop of \<open>DoWriteL\<close> that writes whole bytes\<close>

function write_loop :: "32 word \<Rightarrow> int \<Rightarrow> TFileOutput \<Rightarrow> 32 word \<times> int \<times> TFileOutput" where
  "write_loop code bits out =
    (let out = (if length (iBuf out) = KBufSize then OverflowL out else out);
         out = out\<lparr>iBuf := iBuf out @ [ucast (drop_bit 24 code)]\<rparr>;
         code = push_bit 8 code;
         bits = bits - 8
     in if bits \<ge> 0 then write_loop code bits out else (code, bits, out))"
  by pat_completeness auto
termination
  by (relation "measure (\<lambda>(_, bits, _). nat bits)") auto

declare write_loop.simps [simp del]

text \<open>\<open>DoWriteL\<close> without the case of more than 25 bits\<close>

definition DoWriteL_short :: "32 word \<Rightarrow> int \<Rightarrow> TFileOutput \<Rightarrow> TFileOutput" where
  "DoWriteL_short aBits aSize out =
    (let bits = iBits out;
         code = iCode out OR drop_bit (nat (bits + 8)) aBits;
         bits = bits + aSize;
         (code, bits, out) = (if bits \<ge> 0 then write_loop code bits out else (code, bits, out))
     in out\<lparr>iCode := code, iBits := bits\<rparr>)"

definition DoWriteL :: "32 word \<Rightarrow> int \<Rightarrow> TFileOutput \<Rightarrow> TFileOutput" where
  "DoWriteL aBits aSize out =
    (if aSize > 25 then DoWriteL_short (push_bit 8 aBits) (aSize - 8) (DoWriteL_short (aBits AND 0xff000000) 8 out)
     else DoWriteL_short aBits aSize out)"

definition WriteL :: "32 word \<Rightarrow> int \<Rightarrow> TFileOutput \<Rightarrow> TFileOutput" where
  "WriteL aValue aLength out = (if aLength \<noteq> 0 then DoWriteL (push_bit (nat (32 - aLength)) aValue) aLength out else out)"

text \<open>\<open>TBitOutput::HuffmanL\<close>; codes have their length in the upper five bits.\<close>

abbreviation (input) KMaxCodeLength :: nat where "KMaxCodeLength \<equiv> 27"

definition output_HuffmanL :: "32 word \<Rightarrow> TFileOutput \<Rightarrow> TFileOutput" where
  "output_HuffmanL aHuffCode out = DoWriteL (push_bit (32 - KMaxCodeLength) aHuffCode) (uint (drop_bit KMaxCodeLength aHuffCode)) out"

definition PadL :: "32 word \<Rightarrow> TFileOutput \<Rightarrow> TFileOutput" where
  "PadL aPadding out = (if iBits out > - 8 then WriteL (if aPadding \<noteq> 0 then 0xffffffff else 0) (- iBits out) out else out)"

section \<open>Input\<close>

record TBitInput =
  iCount :: int
  iBits_in :: "32 word"
  iRemain :: int
  iPtr :: addr

text \<open>A word of memory on a little-endian host\<close>

definition load_word :: "memory \<Rightarrow> addr \<Rightarrow> 32 word" where
  "load_word m a = ucast (m a) OR push_bit 8 (ucast (m (a + 1))) OR push_bit 16 (ucast (m (a + 2))) OR push_bit 24 (ucast (m (a + 3)))"

definition reverse :: "32 word \<Rightarrow> 32 word" where
  "reverse aVal =
    (let v = push_bit 16 aVal OR drop_bit 16 aVal;
         v = v XOR aVal;
         v = v AND 0xff00ffff;
         aVal = drop_bit 8 aVal OR push_bit 24 aVal
     in aVal XOR drop_bit 8 v)"

definition Set :: "memory \<Rightarrow> addr \<Rightarrow> int \<Rightarrow> int \<Rightarrow> TBitInput" where
  "Set m aPtr aLength aOffset =
    (let p = nat (int aPtr + drop_bit 3 aOffset);
         aOffset = aOffset AND 7;
         ptr = p - p mod 4;
         aOffset = aOffset + int (push_bit 3 (p mod 4))
     in if aLength = 0 then \<lparr>iCount = 0, iBits_in = 0, iRemain = aLength, iPtr = ptr\<rparr>
     else let
       bits = push_bit (nat aOffset) (reverse (load_word m ptr));
       aOffset = 32 - aOffset;
       aLength = aLength - aOffset;
       aOffset = (if aLength < 0 then aOffset + aLength else aOffset)
     in \<lparr>iCount = aOffset, iBits_in = bits, iRemain = aLength, iPtr = ptr + 4\<rparr>)"

text \<open>Shifts of 32-bit values by the count of the processor, which is taken modulo 32\<close>

definition shr :: "32 word \<Rightarrow> int \<Rightarrow> 32 word" where
  "shr w n = drop_bit (nat (n mod 32)) w"

definition shl :: "32 word \<Rightarrow> int \<Rightarrow> 32 word" where
  "shl w n = push_bit (nat (n mod 32)) w"

text \<open>The loop of \<open>ReadL(TInt)\<close>; \<open>UnderflowL\<close> panics.\<close>

function read_loop :: "memory \<Rightarrow> 32 word \<Rightarrow> 32 word \<Rightarrow> int \<Rightarrow> TBitInput \<Rightarrow> failure + 32 word \<times> TBitInput" where
  "read_loop m val bits aSize s =
    (if iCount s < 0 then
       let val = val OR shl (shr bits (32 - (iCount s + aSize))) (- iCount s);
           aSize = - iCount s
       in if iRemain s > 0 then
         let bits = reverse (load_word m (iPtr s));
             s = s\<lparr>iPtr := iPtr s + 4, iCount := iCount s + 32, iRemain := iRemain s - 32\<rparr>;
             s = (if iRemain s < 0 then s\<lparr>iCount := iCount s + iRemain s\<rparr> else s)
         in read_loop m val bits aSize s
       else Inl (Panic EHuffmanBufferOverflow)
     else Inr (val OR shr bits (32 - aSize), s\<lparr>iBits_in := shl bits aSize\<rparr>))"
  by pat_completeness auto
termination
  by (relation "measure (\<lambda>(_, _, _, _, s). nat (iRemain s))") (auto simp: Let_def split: if_splits)

declare read_loop.simps [simp del]

definition ReadL :: "memory \<Rightarrow> int \<Rightarrow> TBitInput \<Rightarrow> failure + 32 word \<times> TBitInput" where
  "ReadL m aSize s = (if aSize = 0 then Inr (0, s) else read_loop m 0 (iBits_in s) aSize (s\<lparr>iCount := iCount s - aSize\<rparr>))"

definition ReadL_bit :: "memory \<Rightarrow> TBitInput \<Rightarrow> failure + 32 word \<times> TBitInput" where
  "ReadL_bit m s =
    (let c = iCount s - 1; bits = iBits_in s
     in if c < 0 then ReadL m 1 s else Inr (drop_bit 31 bits, s\<lparr>iCount := c, iBits_in := push_bit 1 bits\<rparr>))"

text \<open>The bits that are left; every read makes them fewer.\<close>

definition bits_left :: "TBitInput \<Rightarrow> int" where
  "bits_left s = iCount s + max 0 (iRemain s)"

lemma read_loop_bits_left:
  "read_loop m val bits aSize s = Inr (v, s') \<Longrightarrow> bits_left s' = bits_left s \<and> 0 \<le> bits_left s'"
proof (induction m val bits aSize s rule: read_loop.induct)
  case (1 m val bits aSize s)
  show ?case
  proof (cases "iCount s < 0")
    case True
    then have R: "0 < iRemain s" using "1.prems" by (simp add: read_loop.simps [of m val] Let_def split: if_splits)
    show ?thesis using "1.IH" [OF True refl refl R refl refl refl] "1.prems" True R
      by (subst (asm) (2) read_loop.simps) (auto simp: Let_def bits_left_def max_def split: if_splits)
  next
    case False
    then show ?thesis using "1.prems" by (auto simp: read_loop.simps [of m val] bits_left_def)
  qed
qed

lemma ReadL_bit_bits_left: "ReadL_bit m s = Inr (b, s') \<Longrightarrow> bits_left s' = bits_left s - 1 \<and> 0 \<le> bits_left s'"
  by (auto simp: ReadL_bit_def ReadL_def Let_def bits_left_def split: if_splits dest!: read_loop_bits_left)

text \<open>
  \<open>TBitInput::HuffmanL\<close>: the tree is an array of words, the position in it an offset in bytes.
\<close>

function (sequential) huffman_loop :: "memory \<Rightarrow> 32 word list \<Rightarrow> nat \<Rightarrow> 32 word \<Rightarrow> TBitInput \<Rightarrow> failure + 32 word \<times> TBitInput" where
  "huffman_loop m tree aTree huff s =
    (let aTree = aTree + unat (drop_bit 16 huff)
     in if aTree mod 4 \<noteq> 0 \<or> aTree div 4 \<ge> length tree then Inl Undefined
     else let huff = tree ! (aTree div 4)
     in case ReadL_bit m s of
       Inl e \<Rightarrow> Inl e
     | Inr (b, s) \<Rightarrow>
         let huff = (if b = 0 then push_bit 16 huff else huff)
         in if huff AND 0x10000 = 0 then huffman_loop m tree aTree huff s else Inr (drop_bit 17 huff, s))"
  by pat_completeness auto
termination
  by (relation "measure (\<lambda>(_, _, _, _, s). nat (bits_left s))") (auto dest!: ReadL_bit_bits_left)

declare huffman_loop.simps [simp del]

definition input_HuffmanL :: "memory \<Rightarrow> 32 word list \<Rightarrow> TBitInput \<Rightarrow> failure + 32 word \<times> TBitInput" where
  "input_HuffmanL m aTree s = huffman_loop m aTree 0 0 s"

lemma huffman_loop_bits_left: "huffman_loop m tree p huff s = Inr (v, s') \<Longrightarrow> bits_left s' < bits_left s \<and> 0 \<le> bits_left s'"
proof (induction m tree p huff s rule: huffman_loop.induct)
  case (1 m tree p huff s)
  let ?p = "p + unat (drop_bit 16 huff)"
  from "1.prems" obtain b s1 where r: "\<not> (?p mod 4 \<noteq> 0 \<or> ?p div 4 \<ge> length tree)" "ReadL_bit m s = Inr (b, s1)"
    by (subst (asm) huffman_loop.simps) (auto simp: Let_def split: if_splits sum.splits)
  let ?h = "if b = 0 then push_bit 16 (tree ! (?p div 4)) else tree ! (?p div 4)"
  have step: "huffman_loop m tree p huff s = (if ?h AND 0x10000 = 0 then huffman_loop m tree ?p ?h s1 else Inr (drop_bit 17 ?h, s1))"
    using r by (subst huffman_loop.simps) (simp add: Let_def)
  show ?case
  proof (cases "?h AND 0x10000 = 0")
    case True
    then show ?thesis
      using "1.IH" [OF refl r(1) refl r(2) refl refl True] step "1.prems" ReadL_bit_bits_left [OF r(2)] by simp
  next
    case False
    then have "s' = s1" using step "1.prems" by simp
    then show ?thesis using ReadL_bit_bits_left [OF r(2)] by simp
  qed
qed

section \<open>Lists of bits\<close>

definition byte_bits :: "byte \<Rightarrow> bool list" where
  "byte_bits b = map (\<lambda>i. bit b (7 - i)) [0..<8]"

text \<open>The upper \<open>n\<close> bits of a word\<close>

definition top_bits :: "nat \<Rightarrow> 32 word \<Rightarrow> bool list" where
  "top_bits n w = map (\<lambda>i. bit w (31 - i)) [0..<n]"

definition bytes_bits :: "byte list \<Rightarrow> bool list" where
  "bytes_bits bs = concat (map byte_bits bs)"

lemma length_top_bits [simp]: "length (top_bits n w) = n"
  by (simp add: top_bits_def)

lemma length_byte_bits [simp]: "length (byte_bits b) = 8"
  by (simp add: byte_bits_def)

lemma bytes_bits_simps [simp]: "bytes_bits [] = []" "bytes_bits (b # bs) = byte_bits b @ bytes_bits bs"
  "bytes_bits (as @ bs) = bytes_bits as @ bytes_bits bs"
  by (simp_all add: bytes_bits_def)

lemma length_bytes_bits [simp]: "length (bytes_bits bs) = 8 * length bs"
  by (induction bs) simp_all

lemma nth_top_bits [simp]: "i < n \<Longrightarrow> top_bits n w ! i = bit w (31 - i)"
  by (simp add: top_bits_def)

lemma top_bits_0 [simp]: "top_bits 0 w = []"
  by (simp add: top_bits_def)

lemma drop_top_bits: "k + n \<le> 32 \<Longrightarrow> drop k (top_bits (k + n) w) = top_bits n (push_bit k w)"
  by (rule nth_equalityI) (auto simp: bit_simps add.commute)

lemma take_top_bits: "take k (top_bits (k + n) w) = top_bits k w"
  by (rule nth_equalityI) auto

lemma top_bits_add: "k + n \<le> 32 \<Longrightarrow> top_bits (k + n) w = top_bits k w @ top_bits n (push_bit k w)"
  by (metis append_take_drop_id drop_top_bits take_top_bits)

text \<open>Only the upper \<open>n\<close> bits are set.\<close>

definition only_top :: "nat \<Rightarrow> 32 word \<Rightarrow> bool" where
  "only_top n w \<longleftrightarrow> (\<forall>i. bit w i \<longrightarrow> 32 \<le> i + n)"

lemma only_topD: "only_top n w \<Longrightarrow> bit w i \<Longrightarrow> 32 \<le> i + n"
  by (simp add: only_top_def)

lemma only_top_0: "only_top 0 w \<longleftrightarrow> w = 0"
proof
  assume w: "only_top 0 w"
  have "\<not> bit w i" for i using only_topD [OF w, of i] bit_imp_le_length [of w i] by auto
  then show "w = 0" by (intro bit_eqI) simp
qed (simp add: only_top_def)

lemma only_top_or:
  assumes "only_top k c" "only_top n w" "k + n \<le> 32"
  shows "only_top (k + n) (c OR drop_bit k w)"
  unfolding only_top_def
proof (intro allI impI)
  fix i assume "bit (c OR drop_bit k w) i"
  then consider "bit c i" | "bit w (k + i)" by (auto simp: bit_simps)
  then show "32 \<le> i + (k + n)"
    using only_topD [OF assms(1), of i] only_topD [OF assms(2), of "k + i"] by cases auto
qed

lemma top_bits_or:
  assumes "only_top k c" "k + n \<le> 32"
  shows "top_bits (k + n) (c OR drop_bit k w) = top_bits k c @ top_bits n w"
proof (rule nth_equalityI)
  fix i assume i: "i < length (top_bits (k + n) (c OR drop_bit k w))"
  show "top_bits (k + n) (c OR drop_bit k w) ! i = (top_bits k c @ top_bits n w) ! i"
  proof (cases "i < k")
    case True
    then have "\<not> bit w (k + (31 - i))" using assms(2) bit_imp_le_length [of w "k + (31 - i)"] by auto
    then show ?thesis using True i by (simp add: nth_append bit_simps)
  next
    case False
    then have "\<not> bit c (31 - i)" using only_topD [OF assms(1), of "31 - i"] i assms(2) by auto
    moreover have "k + (31 - i) = 31 - (i - k)" using False i assms(2) by simp
    ultimately show ?thesis using False i by (simp add: nth_append bit_simps)
  qed
qed simp

lemma byte_bits_top: "byte_bits (ucast (drop_bit 24 w)) = top_bits 8 w"
  by (rule nth_equalityI) (auto simp: byte_bits_def bit_simps)

lemma only_top_push: "only_top (8 + n) w \<Longrightarrow> only_top n (push_bit 8 w)"
  by (auto simp: only_top_def bit_simps)

section \<open>Writing appends bits\<close>

text \<open>The bytes that have been written\<close>

definition stream :: "TFileOutput \<Rightarrow> byte list" where
  "stream out = iOutStream out @ iBuf out"

definition out_bits :: "TFileOutput \<Rightarrow> bool list" where
  "out_bits out = bytes_bits (stream out) @ top_bits (nat (iBits out + 8)) (iCode out)"

definition out_ok :: "TFileOutput \<Rightarrow> bool" where
  "out_ok out \<longleftrightarrow> - 8 \<le> iBits out \<and> iBits out < 0 \<and> only_top (nat (iBits out + 8)) (iCode out)"

lemma stream_OverflowL [simp]: "stream (OverflowL out) = stream out"
  by (simp add: stream_def OverflowL_def FlushL_def Let_def)

lemma stream_put [simp]: "stream (out\<lparr>iBuf := iBuf out @ bs\<rparr>) = stream out @ bs"
  by (simp add: stream_def)

lemma stream_state [simp]: "stream (out\<lparr>iCode := c\<rparr>) = stream out" "stream (out\<lparr>iBits := b\<rparr>) = stream out"
  by (simp_all add: stream_def)

lemma write_loop_bits:
  assumes "write_loop code bits out = (code', bits', out')" "0 \<le> bits" "bits \<le> 24" "only_top (nat (bits + 8)) code"
  shows "- 8 \<le> bits' \<and> bits' < 0 \<and> only_top (nat (bits' + 8)) code' \<and>
    bytes_bits (stream out') @ top_bits (nat (bits' + 8)) code' =
    bytes_bits (stream out) @ top_bits (nat (bits + 8)) code"
  using assms
proof (induction code bits out arbitrary: code' bits' out' rule: write_loop.induct)
  case (1 code bits out)
  let ?o = "if length (iBuf out) = KBufSize then OverflowL out else out"
  let ?out = "?o\<lparr>iBuf := iBuf ?o @ [ucast (drop_bit 24 code)]\<rparr>"
  have bytes: "stream ?out = stream out @ [ucast (drop_bit 24 code)]" unfolding stream_put by simp
  have n: "nat (bits + 8) = 8 + nat bits" using "1.prems" by simp
  have top: "top_bits (nat (bits + 8)) code = byte_bits (ucast (drop_bit 24 code)) @ top_bits (nat bits) (push_bit 8 code)"
    unfolding n byte_bits_top using "1.prems"(3) by (intro top_bits_add) simp
  have only: "only_top (nat bits) (push_bit 8 code)" using "1.prems"(4) unfolding n by (rule only_top_push)
  have run: "write_loop code bits out = (if bits - 8 \<ge> 0 then write_loop (push_bit 8 code) (bits - 8) ?out else (push_bit 8 code, bits - 8, ?out))"
    by (subst write_loop.simps) (simp add: Let_def)
  show ?case
  proof (cases "bits - 8 \<ge> 0")
    case True
    have e: "nat (bits - 8 + 8) = nat bits" by simp
    have "write_loop (push_bit 8 code) (bits - 8) ?out = (code', bits', out')" using run True "1.prems"(1) by simp
    then show ?thesis
      using "1.IH" [OF refl refl refl refl True, of code' bits' out'] True "1.prems"(3) only unfolding e bytes top
      by (simp add: Let_def)
  next
    case False
    have e: "nat (bits - 8 + 8) = nat bits" by simp
    have "code' = push_bit 8 code" "bits' = bits - 8" "out' = ?out" using run False "1.prems"(1) by simp_all
    then show ?thesis using False "1.prems"(2) only unfolding bytes top by (simp only: e bytes) simp
  qed
qed

lemma DoWriteL_short_bits:
  assumes "out_ok out" "0 \<le> n" "n \<le> 25" "only_top (nat n) w"
  shows "out_ok (DoWriteL_short w n out) \<and> out_bits (DoWriteL_short w n out) = out_bits out @ top_bits (nat n) w"
proof -
  let ?k = "nat (iBits out + 8)" and ?c = "iCode out OR drop_bit (nat (iBits out + 8)) w"
  have k: "?k + nat n \<le> 32" "nat (iBits out + n + 8) = ?k + nat n" using assms by (auto simp: out_ok_def)
  have only: "only_top (?k + nat n) ?c" using assms k by (intro only_top_or) (auto simp: out_ok_def)
  have top: "top_bits (?k + nat n) ?c = top_bits ?k (iCode out) @ top_bits (nat n) w"
    using assms k by (intro top_bits_or) (auto simp: out_ok_def)
  show ?thesis
  proof (cases "iBits out + n \<ge> 0")
    case True
    obtain c b o' where w: "write_loop ?c (iBits out + n) out = (c, b, o')" by (metis prod_cases3)
    have "iBits out + n \<le> 24" using assms by (simp add: out_ok_def)
    from write_loop_bits [OF w True this] only k(2) top show ?thesis
      using True w by (simp add: DoWriteL_short_def out_ok_def out_bits_def Let_def)
  next
    case False
    then show ?thesis using only top k assms by (simp add: DoWriteL_short_def out_ok_def out_bits_def Let_def)
  qed
qed

lemma DoWriteL_bits:
  assumes "out_ok out" "0 \<le> n" "n \<le> 32" "only_top (nat n) w"
  shows "out_ok (DoWriteL w n out) \<and> out_bits (DoWriteL w n out) = out_bits out @ top_bits (nat n) w"
proof (cases "n > 25")
  case True
  let ?hi = "w AND 0xff000000" and ?o = "DoWriteL_short (w AND 0xff000000) 8 out"
  have m: "(0xff000000 :: 32 word) = push_bit 24 (mask 8)" by (simp add: mask_eq_exp_minus_1)
  have hi: "only_top 8 ?hi" "top_bits 8 ?hi = top_bits 8 w"
    unfolding m by (auto simp: only_top_def top_bits_def bit_simps bit_mask_iff)
  have n: "nat n = 8 + nat (n - 8)" using True by simp
  have lo: "only_top (nat (n - 8)) (push_bit 8 w)" using assms(4) unfolding n by (rule only_top_push)
  have o: "out_ok ?o \<and> out_bits ?o = out_bits out @ top_bits 8 w"
    using DoWriteL_short_bits [of out 8 ?hi] assms(1) hi by simp
  have "top_bits (nat n) w = top_bits 8 w @ top_bits (nat (n - 8)) (push_bit 8 w)"
    unfolding n using assms(3) True by (subst top_bits_add) simp_all
  then show ?thesis
    using DoWriteL_short_bits [of ?o "n - 8" "push_bit 8 w"] o lo True assms(3) by (simp add: DoWriteL_def)
next
  case False
  then show ?thesis using assms DoWriteL_short_bits by (simp add: DoWriteL_def)
qed

text \<open>The lower \<open>n\<close> bits of a value\<close>

definition low_bits :: "nat \<Rightarrow> 32 word \<Rightarrow> bool list" where
  "low_bits n w = map (\<lambda>i. bit w (n - 1 - i)) [0..<n]"

lemma length_low_bits [simp]: "length (low_bits n w) = n"
  by (simp add: low_bits_def)

lemma WriteL_bits:
  assumes "out_ok out" "0 \<le> n" "n \<le> 32"
  shows "out_ok (WriteL v n out) \<and> out_bits (WriteL v n out) = out_bits out @ low_bits (nat n) v"
proof (cases "n = 0")
  case False
  let ?w = "push_bit (nat (32 - n)) v"
  have "only_top (nat n) ?w" using assms False by (auto simp: only_top_def bit_simps)
  moreover have "top_bits (nat n) ?w = low_bits (nat n) v"
  proof (rule nth_equalityI)
    fix i assume i: "i < length (top_bits (nat n) ?w)"
    have "31 - i - nat (32 - n) = nat n - 1 - i" "nat (32 - n) \<le> 31 - i" using i assms False by simp_all
    moreover have "31 - i < 32" by simp
    ultimately show "top_bits (nat n) ?w ! i = low_bits (nat n) v ! i" using i by (simp add: low_bits_def bit_push_bit_iff)
  qed simp
  ultimately show ?thesis using DoWriteL_bits [OF assms(1), of n ?w] assms False by (simp add: WriteL_def)
qed (use assms in \<open>simp add: WriteL_def low_bits_def\<close>)

text \<open>The bits of a code: its length stands in the upper bits, the code itself is left-aligned below.\<close>

definition code_bits :: "32 word \<Rightarrow> bool list" where
  "code_bits c = top_bits (unat (drop_bit 27 c)) (push_bit 5 c)"

lemma length_code_bits: "length (code_bits c) \<le> 31"
proof -
  have "unat c < 2 ^ 32" using unsigned_less [of c] by simp
  then have "unat c div 2 ^ 27 \<le> 31" by simp
  then show ?thesis by (simp only: code_bits_def length_top_bits unat_drop_bit_eq drop_bit_eq_div [where 'a = nat])
qed

definition code_ok :: "32 word \<Rightarrow> bool" where
  "code_ok c \<longleftrightarrow> only_top (unat (drop_bit 27 c)) (push_bit 5 c)"

lemma output_HuffmanL_bits:
  assumes "out_ok out" "code_ok c"
  shows "out_ok (output_HuffmanL c out) \<and> out_bits (output_HuffmanL c out) = out_bits out @ code_bits c"
proof -
  let ?n = "uint (drop_bit 27 c)"
  have "uint (drop_bit 27 c) \<le> 31"
  proof -
    have "uint c < 2 ^ 32" using unsigned_less [of c, where 'a = int] by simp
    then have "uint c div 2 ^ 27 \<le> 31" by simp
    then show ?thesis unfolding drop_bit_eq_div by (simp only: uint_div_distrib) simp
  qed
  then show ?thesis
    using DoWriteL_bits [OF assms(1), of ?n "push_bit 5 c"] assms(2)
    by (simp add: output_HuffmanL_def code_bits_def code_ok_def flip: nat_uint_eq)
qed

lemma PadL_bits:
  assumes "out_ok out"
  shows "\<exists>pad. out_bits out @ pad = bytes_bits (stream (PadL p out)) \<and> length pad < 8"
proof (cases "iBits out > - 8")
  case True
  let ?n = "- iBits out" and ?v = "if p \<noteq> 0 then 0xffffffff else 0 :: 32 word"
  have n: "0 \<le> ?n" "?n < 8" using assms True by (auto simp: out_ok_def)
  have P: "PadL p out = WriteL ?v ?n out" using True by (simp add: PadL_def)
  have W: "out_ok (PadL p out)" "out_bits (PadL p out) = out_bits out @ low_bits (nat ?n) ?v"
    using WriteL_bits [OF assms, of ?n ?v] n unfolding P by simp_all
  have "length (out_bits (PadL p out)) = length (out_bits out) + nat ?n" by (simp add: W(2))
  then have "8 * length (stream (PadL p out)) + nat (iBits (PadL p out) + 8) = 8 * length (stream out) + nat (iBits out + 8) + nat ?n"
    by (simp add: out_bits_def)
  moreover have "nat (iBits out + 8) + nat ?n = 8" using n by simp
  moreover have "a mod 8 = 0" if "8 * x + a = 8 * y + b + c" "b + c = 8" for a b c x y :: nat using that by presburger
  ultimately have "nat (iBits (PadL p out) + 8) mod 8 = 0" by blast
  moreover have "nat (iBits (PadL p out) + 8) < 8" using W(1) unfolding out_ok_def by linarith
  ultimately have "nat (iBits (PadL p out) + 8) = 0" by (metis mod_less)
  then show ?thesis using W(2) n by (intro exI [of _ "low_bits (nat ?n) ?v"]) (simp add: out_bits_def)
next
  case False
  then show ?thesis using assms by (simp add: PadL_def out_bits_def out_ok_def)
qed

lemma TFileOutput_new_ok [simp]: "out_ok (TFileOutput_new os)" "out_bits (TFileOutput_new os) = bytes_bits os"
  by (simp_all add: TFileOutput_new_def out_ok_def out_bits_def stream_def only_top_0)

lemma FlushL_stream: "iOutStream (FlushL out) = stream out"
  by (simp add: FlushL_def stream_def Let_def)

section \<open>Reading takes bits\<close>

text \<open>The first \<open>n\<close> bits of memory from an address on\<close>

definition mem_bits :: "memory \<Rightarrow> addr \<Rightarrow> nat \<Rightarrow> bool list" where
  "mem_bits m a n = map (\<lambda>i. bit (m (a + i div 8)) (7 - i mod 8)) [0..<n]"

lemma length_mem_bits [simp]: "length (mem_bits m a n) = n"
  by (simp add: mem_bits_def)

lemma mem_bits_0 [simp]: "mem_bits m a 0 = []"
  by (simp add: mem_bits_def)

lemma take_mem_bits: "n \<le> k \<Longrightarrow> take n (mem_bits m a k) = mem_bits m a n"
  by (rule nth_equalityI) (auto simp: mem_bits_def)

lemma drop_mem_bits: "drop (8 * k) (mem_bits m a (8 * k + n)) = mem_bits m (a + k) n"
  by (rule nth_equalityI) (auto simp: mem_bits_def add.assoc)

lemma mem_bits_add: "mem_bits m a (8 * k + n) = mem_bits m a (8 * k) @ mem_bits m (a + k) n"
  by (metis append_take_drop_id drop_mem_bits le_add1 take_mem_bits)

lemma mem_bits_bytes: "mem_bits m a (8 * n) = bytes_bits (map m [a..<a + n])"
proof (induction n)
  case (Suc n)
  have "mem_bits m a (8 * n + 8) = mem_bits m a (8 * n) @ mem_bits m (a + n) 8" by (rule mem_bits_add)
  moreover have "mem_bits m (a + n) 8 = byte_bits (m (a + n))"
    by (rule nth_equalityI) (auto simp: mem_bits_def byte_bits_def)
  ultimately show ?case using Suc by (simp add: add.commute)
qed simp

lemma bit_reverse:
  assumes "i < 32"
  shows "bit (reverse w) i = bit w (8 * (3 - i div 8) + i mod 8)"
proof -
  have mask: "(0xff00ffff :: 32 word) = push_bit 24 (mask 8) OR mask 16" by (simp add: mask_eq_exp_minus_1)
  obtain q r where i: "i = 8 * q + r" "i div 8 = q" "i mod 8 = r" "r < 8" using that [of "i div 8" "i mod 8"] by simp
  then have "q = 0 \<or> q = 1 \<or> q = 2 \<or> q = 3" using assms by auto
  moreover have "\<not> bit w (32 + r)" "\<not> bit w (40 + r)" using bit_imp_le_length [of w] by force+
  ultimately show ?thesis
    unfolding i(2,3) unfolding i(1) reverse_def Let_def mask using i(4) by (elim disjE) (auto simp: bit_simps bit_mask_iff)
qed

lemma bit_load_word:
  assumes "j < 8" "q < 4"
  shows "bit (load_word m a) (8 * q + j) = bit (m (a + q)) j"
proof -
  have "q = 0 \<or> q = 1 \<or> q = 2 \<or> q = 3" using assms by auto
  then show ?thesis
    using assms by (elim disjE) (auto simp: load_word_def bit_simps dest: bit_imp_le_length)
qed

lemma top_bits_load: "k \<le> 32 \<Longrightarrow> top_bits k (reverse (load_word m a)) = mem_bits m a k"
proof (rule nth_equalityI)
  fix i assume k: "k \<le> 32" and i: "i < length (top_bits k (reverse (load_word m a)))"
  obtain q r where qr: "i = 8 * q + r" "i div 8 = q" "i mod 8 = r" "r < 8" using that [of "i div 8" "i mod 8"] by simp
  have q: "q < 4" using k i qr by simp
  have e: "31 - i = 8 * (3 - q) + (7 - r)" using q qr(1,4) by simp
  then have "(31 - i) div 8 = 3 - q" "(31 - i) mod 8 = 7 - r" by simp_all
  then have "bit (reverse (load_word m a)) (31 - i) = bit (load_word m a) (8 * q + (7 - r))"
    using bit_reverse [of "31 - i" "load_word m a"] q by simp
  then show "top_bits k (reverse (load_word m a)) ! i = mem_bits m a k ! i"
    using i bit_load_word [of "7 - r" q m a] q by (simp add: mem_bits_def qr(2,3))
qed simp

text \<open>The bits that are left in an input stream\<close>

definition in_bits :: "memory \<Rightarrow> TBitInput \<Rightarrow> bool list" where
  "in_bits m s = top_bits (nat (iCount s)) (iBits_in s) @ mem_bits m (iPtr s) (nat (iRemain s))"

definition in_ok :: "TBitInput \<Rightarrow> bool" where
  "in_ok s \<longleftrightarrow> 0 \<le> iCount s \<and> iCount s \<le> 32 \<and> (iRemain s > 0 \<longrightarrow> only_top (nat (iCount s)) (iBits_in s))"

lemma Set_bits:
  assumes "0 \<le> n"
  shows "in_ok (Set m a n 0) \<and> in_bits m (Set m a n 0) = mem_bits m a (nat n)"
proof (cases "n = 0")
  case False
  let ?o = "8 * (a mod 4)" and ?p = "a - a mod 4"
  let ?w = "push_bit ?o (reverse (load_word m ?p))"
  let ?c = "if n < 32 - int ?o then n else 32 - int ?o"
  have S: "Set m a n 0 = \<lparr>iCount = ?c, iBits_in = ?w, iRemain = n - (32 - int ?o), iPtr = ?p + 4\<rparr>"
  proof -
    have "nat (int (a mod 4) * 8) = ?o" by linarith
    then show ?thesis using False by (simp add: Set_def Let_def push_bit_eq_mult)
  qed
  have "a mod 4 < 4" by simp
  then have o: "?o \<le> 24" by linarith
  have top: "top_bits k ?w = mem_bits m a k" if "?o + k \<le> 32" for k
  proof -
    have "top_bits k ?w = drop ?o (mem_bits m ?p (?o + k))"
      using drop_top_bits [of ?o k "reverse (load_word m ?p)"] top_bits_load [of "?o + k" m ?p] that by simp
    then show ?thesis using drop_mem_bits [of "a mod 4" m ?p k] by simp
  qed
  have "only_top (32 - ?o) ?w" by (auto simp: only_top_def bit_simps)
  moreover have "nat (32 - int ?o) = 32 - ?o" by simp
  ultimately have ok: "in_ok (Set m a n 0)" using assms o by (auto simp: in_ok_def S)
  show ?thesis
  proof (cases "n < 32 - int ?o")
    case True
    have "in_bits m (Set m a n 0) = top_bits (nat n) ?w" using True by (simp add: in_bits_def S)
    then show ?thesis using ok top [of "nat n"] True assms by (simp add: nat_le_iff)
  next
    case False
    have e: "32 - ?o = 8 * (4 - a mod 4)" "?p + 4 = a + (4 - a mod 4)" by simp_all
    have n: "nat n = 8 * (4 - a mod 4) + nat (n - (32 - int ?o))" using False o by (simp add: nat_diff_distrib)
    have c: "nat (32 - int ?o) = 8 * (4 - a mod 4)" using o by simp
    have "mem_bits m a (nat n) = mem_bits m a (8 * (4 - a mod 4)) @ mem_bits m (?p + 4) (nat (n - (32 - int ?o)))"
      unfolding e(2) by (subst n) (rule mem_bits_add)
    moreover have "top_bits (8 * (4 - a mod 4)) ?w = mem_bits m a (8 * (4 - a mod 4))" using o by (intro top) simp
    ultimately show ?thesis using False ok c by (simp add: in_bits_def S)
  qed
qed (simp add: Set_def in_ok_def in_bits_def Let_def)

lemma low_bits_drop: "n \<le> 32 \<Longrightarrow> low_bits n (drop_bit (32 - n) w) = top_bits n w"
  by (rule nth_equalityI) (auto simp: low_bits_def bit_simps)

lemma low_bits_or:
  assumes "c + r \<le> 32" "\<And>i. bit x i \<Longrightarrow> i < c"
  shows "low_bits (c + r) (push_bit r x OR drop_bit (32 - r) w) = low_bits c x @ top_bits r w"
proof (rule nth_equalityI)
  fix i assume "i < length (low_bits (c + r) (push_bit r x OR drop_bit (32 - r) w))"
  then have i: "i < c + r" by simp
  let ?k = "c + r - 1 - i"
  have k: "?k < 32" "low_bits (c + r) (push_bit r x OR drop_bit (32 - r) w) ! i = bit (push_bit r x OR drop_bit (32 - r) w) ?k"
    using i assms(1) by (simp_all add: low_bits_def)
  show "low_bits (c + r) (push_bit r x OR drop_bit (32 - r) w) ! i = (low_bits c x @ top_bits r w) ! i"
  proof (cases "i < c")
    case True
    then have e: "r \<le> ?k" "?k - r = c - 1 - i" "32 \<le> 32 - r + ?k" using assms(1) by auto
    then have "\<not> bit w (32 - r + ?k)" using bit_imp_le_length [of w "32 - r + ?k"] by auto
    then show ?thesis
      using True e k(1) unfolding k(2) by (simp add: nth_append low_bits_def bit_or_iff bit_push_bit_iff bit_drop_bit_eq)
  next
    case False
    then have e: "\<not> r \<le> ?k" "32 - r + ?k = 31 - (i - c)" using i assms(1) by auto
    then show ?thesis
      using False i unfolding k(2) by (simp add: nth_append bit_or_iff bit_push_bit_iff bit_drop_bit_eq)
  qed
qed simp

lemma shr_eq [simp]: "0 \<le> n \<Longrightarrow> n < 32 \<Longrightarrow> shr w n = drop_bit (nat n) w"
  by (simp add: shr_def)

lemma shl_eq [simp]: "0 \<le> n \<Longrightarrow> n < 32 \<Longrightarrow> shl w n = push_bit (nat n) w"
  by (simp add: shl_def)

text \<open>\<open>reads n m s v s'\<close>: the value \<open>v\<close> of \<open>n\<close> bits is taken from the front.\<close>

definition reads :: "nat \<Rightarrow> memory \<Rightarrow> TBitInput \<Rightarrow> 32 word \<Rightarrow> TBitInput \<Rightarrow> bool" where
  "reads n m s v s' \<longleftrightarrow> in_ok s' \<and> in_bits m s = low_bits n v @ in_bits m s' \<and> (\<forall>i. bit v i \<longrightarrow> i < n)"

lemma reads_here:
  assumes "in_ok s" "0 < n" "n < 32" "int n \<le> iCount s"
  shows "reads n m s (drop_bit (32 - n) (iBits_in s)) (s\<lparr>iCount := iCount s - int n, iBits_in := push_bit n (iBits_in s)\<rparr>)"
proof -
  have c: "nat (iCount s) = n + nat (iCount s - int n)" using assms by simp
  have "top_bits (nat (iCount s)) (iBits_in s) = top_bits n (iBits_in s) @ top_bits (nat (iCount s - int n)) (push_bit n (iBits_in s))"
    using assms unfolding c by (intro top_bits_add) (auto simp: in_ok_def)
  moreover have "only_top (nat (iCount s - int n)) (push_bit n (iBits_in s))" if "only_top (nat (iCount s)) (iBits_in s)"
    using that unfolding only_top_def c by (auto simp: bit_simps)
  moreover have "\<forall>i. bit (drop_bit (32 - n) (iBits_in s)) i \<longrightarrow> i < n"
    using bit_imp_le_length [of "iBits_in s"] assms(3) by (force simp: bit_drop_bit_eq)
  ultimately show ?thesis using assms by (simp add: reads_def in_ok_def in_bits_def low_bits_drop)
qed

lemma ReadL_spec:
  assumes "in_ok s" "0 < n" "n < 32" "n \<le> length (in_bits m s)"
  shows "\<exists>v s'. ReadL m (int n) s = Inr (v, s') \<and> reads n m s v s'"
proof (cases "int n \<le> iCount s")
  case True
  then show ?thesis
    using reads_here [OF assms(1,2,3) True, of m] assms by (simp add: ReadL_def read_loop.simps nat_diff_distrib)
next
  case False
  define c where "c = nat (iCount s)"
  define r where "r = n - c"
  define k where "k = min 32 (nat (iRemain s))"
  define W where "W = reverse (load_word m (iPtr s))"
  define x where "x = shr (iBits_in s) (32 - int c)"
  have c: "iCount s = int c" "c < n" using False assms(1) by (auto simp: c_def in_ok_def)
  have r: "0 < r" "n = c + r" "r < 32" "r \<le> nat (iRemain s)" using c assms(3,4) by (auto simp: r_def in_bits_def)
  have R: "iRemain s > 0" "only_top c (iBits_in s)" using r assms(1) c by (auto simp: in_ok_def)
  have k: "r \<le> k" "k \<le> 32" "k \<le> nat (iRemain s)" using r by (auto simp: k_def)
  have x: "low_bits c x = top_bits c (iBits_in s)" "\<And>i. bit x i \<Longrightarrow> i < c"
  proof -
    show "low_bits c x = top_bits c (iBits_in s)"
      using c assms(3) R(2) low_bits_drop [of c "iBits_in s"] by (cases "c = 0") (auto simp: x_def low_bits_def nat_diff_distrib)
    fix i assume i: "bit x i"
    show "i < c"
    proof (cases "c = 0")
      case True
      then show ?thesis using i R(2) by (simp add: x_def only_top_0 shr_def)
    next
      case False
      then have "x = drop_bit (32 - c) (iBits_in s)" using c assms(3) by (simp add: x_def nat_diff_distrib)
      then show ?thesis using i c assms(3) bit_imp_le_length [of "iBits_in s" "32 - c + i"] by (auto simp: bit_drop_bit_eq)
    qed
  qed
  let ?s = "s\<lparr>iPtr := iPtr s + 4, iCount := int (k - r), iRemain := iRemain s - 32, iBits_in := push_bit r W\<rparr>"
  let ?v = "push_bit r x OR drop_bit (32 - r) W"
  have cnt: "int c - int n + 32 + (if iRemain s - 32 < 0 then iRemain s - 32 else 0) = int (k - r)"
    using k r R by (auto simp: k_def)
  have run: "ReadL m (int n) s = Inr (?v, ?s)"
    using c r R cnt k
    by (simp add: ReadL_def read_loop.simps [of m 0] read_loop.simps [of m "push_bit r x" W] Let_def x_def [symmetric] W_def [symmetric] nat_diff_distrib split: if_splits)
  have mem: "mem_bits m (iPtr s) (nat (iRemain s)) = top_bits r W @ top_bits (k - r) (push_bit r W) @ mem_bits m (iPtr s + 4) (nat (iRemain s - 32))"
  proof -
    have "top_bits r W @ top_bits (k - r) (push_bit r W) = mem_bits m (iPtr s) k"
      using k top_bits_add [of r "k - r" W] by (simp add: W_def top_bits_load)
    moreover have "mem_bits m (iPtr s) (nat (iRemain s)) = mem_bits m (iPtr s) k @ mem_bits m (iPtr s + 4) (nat (iRemain s - 32))"
    proof (cases "iRemain s < 32")
      case False
      then have "k = 8 * 4" "nat (iRemain s) = 8 * 4 + nat (iRemain s - 32)" by (auto simp: k_def)
      then show ?thesis using mem_bits_add by metis
    qed (simp add: k_def)
    ultimately show ?thesis by (metis append.assoc)
  qed
  have only: "only_top (k - r) (push_bit r W)" if "iRemain s > 32"
    using that k unfolding only_top_def by (auto simp: bit_simps k_def)
  have v: "\<forall>i. bit ?v i \<longrightarrow> i < n"
  proof (intro allI impI)
    fix i assume "bit ?v i"
    then have "bit x (i - r) \<and> r \<le> i \<or> bit W (32 - r + i)" by (auto simp: bit_simps)
    then show "i < n" using x(2) [of "i - r"] bit_imp_le_length [of W "32 - r + i"] r by auto
  qed
  have "in_bits m s = low_bits n ?v @ in_bits m ?s"
    using low_bits_or [of c r x W] x r assms(3) mem c by (simp add: in_bits_def)
  moreover have "nat (int k - int r) = k - r" by simp
  ultimately have "reads n m s ?v ?s" using only v k by (auto simp: reads_def in_ok_def)
  then show ?thesis using run by blast
qed

lemma ReadL_bit_spec:
  assumes "in_ok s" "in_bits m s = b # bs"
  shows "\<exists>s'. ReadL_bit m s = Inr (of_bool b, s') \<and> in_ok s' \<and> in_bits m s' = bs"
proof -
  have "\<exists>v s'. ReadL_bit m s = Inr (v, s') \<and> reads 1 m s v s'"
  proof (cases "iCount s < 1")
    case True
    then show ?thesis using ReadL_spec [OF assms(1), of 1 m] assms(2) by (simp add: ReadL_bit_def)
  next
    case False
    then show ?thesis using reads_here [OF assms(1), of 1 m] by (simp add: ReadL_bit_def Let_def)
  qed
  then obtain v s' where v: "ReadL_bit m s = Inr (v, s')" "reads 1 m s v s'" by blast
  then have "bit v 0 = b" "in_bits m s' = bs" using assms(2) by (auto simp: reads_def low_bits_def)
  moreover have "v = of_bool (bit v 0)" using v(2) by (intro bit_word_eqI) (auto simp: reads_def bit_simps)
  ultimately show ?thesis using v by (auto simp: reads_def)
qed

lemma ReadL_bits_left: "0 \<le> n \<Longrightarrow> ReadL m n s = Inr (v, s') \<Longrightarrow> bits_left s' \<le> bits_left s"
  by (cases "n = 0") (auto simp: ReadL_def bits_left_def dest!: read_loop_bits_left)

section \<open>Codes that are read as they are written\<close>

text \<open>
  A table of codes and a decoding tree belong together for the symbols that are in use: every code
  is well-formed, and the tree leads from its bits to the symbol and no further.
\<close>

locale symbol_code =
  fixes table :: "32 word list" and tree :: "32 word list" and base :: nat and used :: "nat \<Rightarrow> bool"
  assumes code_ok: "used k \<Longrightarrow> code_ok (table ! k)"
    and code_read: "used k \<Longrightarrow> in_ok s \<Longrightarrow> in_bits m s = code_bits (table ! k) @ rest \<Longrightarrow>
      \<exists>s'. input_HuffmanL m tree s = Inr (of_nat (k + base), s') \<and> in_ok s' \<and> in_bits m s' = rest"
begin

lemma code_write:
  "used k \<Longrightarrow> out_ok out \<Longrightarrow> out_ok (output_HuffmanL (table ! k) out) \<and>
    out_bits (output_HuffmanL (table ! k) out) = out_bits out @ code_bits (table ! k)"
  using output_HuffmanL_bits code_ok by blast

lemma roundtrip:
  assumes "used k" "out_ok out" "out_bits out = []" "in_ok s" "in_bits m s = out_bits (output_HuffmanL (table ! k) out) @ rest"
  shows "\<exists>s'. input_HuffmanL m tree s = Inr (of_nat (k + base), s') \<and> in_bits m s' = rest"
  using code_read [OF assms(1,4), of m rest] code_write [OF assms(1,2)] assms(3,5) by auto

end

end
