(* ===== verification/Huffman.thy ===== *)
theory Huffman
  imports Bitstream
begin

text \<open>
  Huffman codes of the deflate code (\<open>class Huffman\<close> in \<open>encode.cpp\<close> and \<open>decode.cpp\<close>): generation of code
  lengths from frequencies, the canonical encoding and the decoding tree of a table of lengths,
  and the stored form of such a table.
\<close>

section \<open>Generation of code lengths\<close>

abbreviation (input) KLeaf :: "16 word" where "KLeaf \<equiv> 0x8000"
abbreviation (input) KMaxCodes :: nat where "KMaxCodes \<equiv> 0x8000"

record TNode =
  iCount_node :: "32 word"
  iLeft :: "16 word"
  iRight :: "16 word"

text \<open>The recursion over the node tree; it ends because the depth is limited.\<close>

function (sequential) HuffmanLengthsL :: "32 word list \<Rightarrow> TNode list \<Rightarrow> nat \<Rightarrow> nat \<Rightarrow> failure + 32 word list" where
  "HuffmanLengthsL aLengths aNodes aNode aLen =
    (let aLen = aLen + 1
     in if aLen > KMaxCodeLength then Inl (Panic EHuffmanBufferOverflow)
     else let node = aNodes ! aNode;
              x = iLeft node
     in case (if x AND KLeaf \<noteq> 0 then Inr (aLengths[unat (x AND NOT KLeaf) := of_nat aLen])
              else HuffmanLengthsL aLengths aNodes (unat x) aLen) of
       Inl e \<Rightarrow> Inl e
     | Inr aLengths \<Rightarrow>
         let x = iRight node
         in if x AND KLeaf \<noteq> 0 then Inr (aLengths[unat (x AND NOT KLeaf) := of_nat aLen])
         else HuffmanLengthsL aLengths aNodes (unat x) aLen)"
  by pat_completeness auto
termination
  by (relation "measure (\<lambda>(_, _, _, aLen). 28 - aLen)") auto

declare HuffmanLengthsL.simps [simp del]

text \<open>The binary search of \<open>InsertInOrder\<close>\<close>

function (sequential) insert_place :: "TNode list \<Rightarrow> 32 word \<Rightarrow> nat \<Rightarrow> nat \<Rightarrow> nat" where
  "insert_place aNodes aCount l r =
    (if l < r then let m = drop_bit 1 (l + r)
       in if iCount_node (aNodes ! m) < aCount then insert_place aNodes aCount l m else insert_place aNodes aCount (m + 1) r
     else l)"
  by pat_completeness auto
termination
  by (relation "measure (\<lambda>(_, _, l, r). r - l)") (auto simp: drop_bit_Suc)

declare insert_place.simps [simp del]

definition shift_up :: "nat \<Rightarrow> nat \<Rightarrow> 'a list \<Rightarrow> 'a list" where
  "shift_up a b xs = fold (\<lambda>i xs. xs[i + 1 := xs ! i]) (rev [a..<b]) xs"

definition InsertInOrder :: "TNode list \<Rightarrow> nat \<Rightarrow> 32 word \<Rightarrow> 16 word \<Rightarrow> TNode list" where
  "InsertInOrder aNodes aSize aCount aVal =
    (let l = insert_place aNodes aCount 0 aSize;
         aNodes = shift_up l aSize aNodes
     in aNodes[l := (aNodes ! l)\<lparr>iCount_node := aCount, iRight := aVal\<rparr>])"

text \<open>The loop that sorts the values with a frequency into the nodes: their number and the nodes\<close>

definition sort_codes :: "32 word list \<Rightarrow> nat \<Rightarrow> TNode list \<Rightarrow> nat \<times> TNode list" where
  "sort_codes aFrequency aNumCodes nodes =
    fold (\<lambda>ii (lCount, nodes).
      let c = aFrequency ! ii
      in if c \<noteq> 0 then (lCount + 1, InsertInOrder nodes lCount c (of_nat ii OR KLeaf)) else (lCount, nodes))
      [0..<aNumCodes] (0, nodes)"

text \<open>The loop that pairs off the least frequent nodes\<close>

function (sequential) pair_off :: "nat \<Rightarrow> TNode list \<Rightarrow> TNode list" where
  "pair_off lCount nodes =
    (let lCount = lCount - 1;
         c = iCount_node (nodes ! lCount) + iCount_node (nodes ! (lCount - 1));
         nodes = nodes[lCount := (nodes ! lCount)\<lparr>iLeft := iRight (nodes ! (lCount - 1))\<rparr>];
         nodes = InsertInOrder nodes (lCount - 1) c (of_nat lCount)
     in if lCount > 1 then pair_off lCount nodes else nodes)"
  by pat_completeness auto
termination
  by (relation "measure fst") auto

declare pair_off.simps [simp del]

text \<open>The loop of \<open>IsValid\<close>: what remains of the code space and the total length, or \<open>None\<close> for a return\<close>

primrec valid_loop :: "32 word list \<Rightarrow> 32 word \<Rightarrow> int \<Rightarrow> (32 word \<times> int) option" where
  "valid_loop [] remain totlen = Some (remain, totlen)"
| "valid_loop (p # ps) remain totlen =
    (let len = sint p
     in if len > 0 then
       let totlen = totlen + len
       in if len > int KMaxCodeLength then None
       else let c = push_bit (nat (int KMaxCodeLength - len)) 1
       in if c > remain then None else valid_loop ps (remain - c) totlen
     else valid_loop ps remain totlen)"

definition IsValid :: "32 word list \<Rightarrow> nat \<Rightarrow> bool" where
  "IsValid aHuffman aNumCodes =
    (case valid_loop (rev (take aNumCodes aHuffman)) (push_bit KMaxCodeLength 1) 0 of
       None \<Rightarrow> False
     | Some (remain, totlen) \<Rightarrow> remain = 0 \<or> totlen \<le> 1)"

text \<open>
  \<open>Huffman::HuffmanL\<close>, with the table of lengths in place of the table of frequencies; the new nodes
  are uninitialised memory that is not read before it is set.
\<close>

definition HuffmanL :: "32 word list \<Rightarrow> nat \<Rightarrow> failure + 32 word list" where
  "HuffmanL aFrequency aNumCodes =
    (if aNumCodes > KMaxCodes then Inl (Panic EHuffmanTooManyCodes)
     else let
       nodes = replicate aNumCodes \<lparr>iCount_node = 0, iLeft = 0, iRight = 0\<rparr>;
       (lCount, nodes) = sort_codes aFrequency aNumCodes nodes;
       aHuffman = replicate aNumCodes 0
     in case (if lCount = 0 then Inr aHuffman
              else if lCount = 1 then Inr (aHuffman[unat (iRight (nodes ! 0) AND NOT KLeaf) := 1])
              else HuffmanLengthsL aHuffman (pair_off lCount nodes) 1 0) of
       Inl e \<Rightarrow> Inl e
     | Inr aHuffman \<Rightarrow> if IsValid aHuffman aNumCodes then Inr aHuffman else Inl (Panic EHuffmanInvalidCoding))"

section \<open>The canonical encoding\<close>

definition count_lengths :: "32 word list \<Rightarrow> nat \<Rightarrow> int list" where
  "count_lengths aHuffman aNumCodes =
    fold (\<lambda>ii lenCount.
      let len = sint (aHuffman ! ii - 1) in if len \<ge> 0 then lenCount[nat len := lenCount ! nat len + 1] else lenCount)
      [0..<aNumCodes] (replicate KMaxCodeLength 0)"

definition next_codes :: "int list \<Rightarrow> 32 word list" where
  "next_codes lenCount =
    snd (fold (\<lambda>ii (code, nextCode).
      let code = push_bit 1 code; nextCode = nextCode[ii := code] in (code + word_of_int (lenCount ! ii), nextCode))
      [0..<KMaxCodeLength] (0, replicate KMaxCodeLength 0))"

definition Encoding :: "32 word list \<Rightarrow> nat \<Rightarrow> failure + 32 word list" where
  "Encoding aHuffman aNumCodes =
    (if \<not> IsValid aHuffman aNumCodes then Inl (Panic EHuffmanInvalidCoding)
     else Inr (snd (fold (\<lambda>ii (nextCode, aEncodeTable).
       let len = aHuffman ! ii
       in if len = 0 then (nextCode, aEncodeTable[ii := 0])
       else let i = unat (len - 1)
       in (nextCode[i := nextCode ! i + 1],
           aEncodeTable[ii := push_bit (27 - unat len) (nextCode ! i) OR push_bit KMaxCodeLength len]))
       [0..<aNumCodes] (next_codes (count_lengths aHuffman aNumCodes), aHuffman))))"

section \<open>The decoding tree\<close>

text \<open>
  Pointers into the decoding tree are indices; writing below index 0 or reading a level behind the
  last is \<open>Undefined\<close>.  The entries of \<open>level\<close> are indices of the array, not negative; the two branches
  that read the tree have \<open>l \<le> aValue\<close>, the last one \<open>l < aValue\<close>, so that they never read below index 0.
\<close>

function (sequential) HuffmanSubTree :: "nat list \<Rightarrow> 32 word list \<Rightarrow> int \<Rightarrow> int \<Rightarrow> nat \<Rightarrow> failure + int \<times> 32 word list" where
  "HuffmanSubTree level tree aPtr aValue aLevel =
    (if aLevel \<ge> length level then Inl Undefined
     else let l = int (level ! aLevel); aLevel = aLevel + 1
     in if l > aValue then
       (case HuffmanSubTree level tree aPtr aValue aLevel of
          Inl e \<Rightarrow> Inl e
        | Inr (sub0, tree) \<Rightarrow> (case HuffmanSubTree level tree sub0 (aValue - (aPtr - sub0) - 1) aLevel of
            Inl e \<Rightarrow> Inl e
          | Inr (aPtr, tree) \<Rightarrow>
              let branch0 = 4 * (sub0 - (aPtr - 1))
              in if aPtr < 1 then Inl Undefined
              else Inr (aPtr - 1, tree[nat (aPtr - 1) := 0x40000 OR word_of_int branch0])))
     else if l = aValue then
       let term0 = tree ! nat aValue; aValue = aValue - 1
       in (case HuffmanSubTree level tree aPtr aValue aLevel of
          Inl e \<Rightarrow> Inl e
        | Inr (aPtr, tree) \<Rightarrow>
            if aPtr < 1 then Inl Undefined
            else Inr (aPtr - 1, tree[nat (aPtr - 1) := 0x40000 OR drop_bit 16 term0]))
     else
       let term0 = tree ! nat aValue; aValue = aValue - 1;
           term1 = tree ! nat aValue
       in if aPtr < 1 then Inl Undefined
       else Inr (aPtr - 1, tree[nat (aPtr - 1) := push_bit 16 (drop_bit 16 term1) OR drop_bit 16 term0]))"
  by pat_completeness auto
termination
  by (relation "measure (\<lambda>(level, _, _, _, aLevel). length level - aLevel)") auto

declare HuffmanSubTree.simps [simp del]

text \<open>The first loop of \<open>Decoding\<close>: the numbers of codes of each length, and of all\<close>

definition count_codes :: "32 word list \<Rightarrow> nat \<Rightarrow> int list \<times> nat" where
  "count_codes aHuffman aNumCodes =
    fold (\<lambda>ii (counts, codes).
      let len = sint (aHuffman ! ii) - 1 in if len \<ge> 0 then (counts[nat len := counts ! nat len + 1], codes + 1) else (counts, codes))
      [0..<aNumCodes] (replicate KMaxCodeLength 0, 0)"

definition level_starts :: "int list \<Rightarrow> nat \<Rightarrow> nat list" where
  "level_starts counts codes =
    snd (fold (\<lambda>ii (lit, level). (lit - nat (counts ! ii), level[ii := lit])) [0..<KMaxCodeLength] (codes, replicate KMaxCodeLength 0))"

text \<open>The loop that enters the symbols\<close>

definition fill_levels :: "nat \<Rightarrow> 32 word \<Rightarrow> nat list \<Rightarrow> 32 word list \<Rightarrow> nat list \<times> 32 word list" where
  "fill_levels aNumCodes aSymbolBase level aDecodeTree =
    fold (\<lambda>ii (level, tree).
      let len = unat (ucast (tree ! ii) :: byte)
      in if len \<noteq> 0 then
        let p = level ! (len - 1) - 1
        in (level[len - 1 := p], tree[p := tree ! p OR (push_bit 17 (of_nat ii) + aSymbolBase)])
      else (level, tree))
      [0..<aNumCodes] (level, aDecodeTree)"

text \<open>\<open>Huffman::Decoding\<close>, with the tree in place of the table of lengths\<close>

definition Decoding :: "32 word list \<Rightarrow> nat \<Rightarrow> 32 word \<Rightarrow> failure + 32 word list" where
  "Decoding aHuffman aNumCodes aSymbolBase =
    (if \<not> IsValid aHuffman aNumCodes then Inl (Panic EHuffmanInvalidCoding)
     else let
       (counts, codes) = count_codes aHuffman aNumCodes;
       level = level_starts counts codes;
       aSymbolBase = push_bit 17 aSymbolBase + 0x10000;
       (level, tree) = fill_levels aNumCodes aSymbolBase level aHuffman
     in if codes = 1 then
       let t = drop_bit 16 (tree ! 0) in Inr (tree[0 := t OR push_bit 16 t])
     else if codes > 1 then
       (case HuffmanSubTree level tree (int codes - 1) (int codes - 1) 0 of
          Inl e \<Rightarrow> Inl e
        | Inr (_, tree) \<Rightarrow> Inr tree)
     else Inr tree)"

end
