(* ===== verification/Huffman_Lengths.thy ===== *)
theory Huffman_Lengths
  imports Huffman "HOL-Library.Multiset"
begin

text \<open>
  Code lengths made by \<open>HuffmanL\<close> are complete: they are the depths of the leaves of a binary tree,
  so that they fill the code space.
\<close>

section \<open>Shifting and inserting\<close>

lemma length_shift_up [simp]: "length (shift_up a b xs) = length xs"
proof -
  have "length (fold (\<lambda>i xs. xs[i + 1 := xs ! i]) is xs) = length xs" for "is" and xs :: "'a list"
    by (induction "is" arbitrary: xs) auto
  then show ?thesis by (simp add: shift_up_def)
qed

lemma shift_up_Suc: "a \<le> b \<Longrightarrow> shift_up a (Suc b) xs = shift_up a b (xs[Suc b := xs ! b])"
  by (simp add: shift_up_def)

lemma nth_shift_up:
  "b < length xs \<Longrightarrow> k < length xs \<Longrightarrow> shift_up a b xs ! k = (if a < k \<and> k \<le> b then xs ! (k - 1) else xs ! k)"
proof (induction b arbitrary: xs)
  case 0
  then show ?case by (simp add: shift_up_def)
next
  case (Suc b)
  show ?case
  proof (cases "a \<le> b")
    case True
    then have "shift_up a (Suc b) xs ! k = shift_up a b (xs[Suc b := xs ! b]) ! k" by (simp add: shift_up_Suc)
    also have "\<dots> = (if a < k \<and> k \<le> b then xs[Suc b := xs ! b] ! (k - 1) else xs[Suc b := xs ! b] ! k)"
      using Suc by simp
    also have "\<dots> = (if a < k \<and> k \<le> Suc b then xs ! (k - 1) else xs ! k)"
      using True Suc.prems by (auto simp: nth_list_update le_Suc_eq)
    finally show ?thesis .
  qed (use Suc.prems in \<open>auto simp: shift_up_def\<close>)
qed

lemma insert_place_le: "l \<le> r \<Longrightarrow> l \<le> insert_place ns c l r \<and> insert_place ns c l r \<le> r"
proof (induction ns c l r rule: insert_place.induct)
  case (1 ns c l r)
  show ?case
  proof (cases "l < r")
    case True
    let ?m = "drop_bit 1 (l + r)"
    have "l \<le> ?m" "?m < r" using True by (auto simp: drop_bit_Suc)
    then show ?thesis
      using "1.IH" [OF True refl] True by (cases "iCount_node (ns ! ?m) < c") (auto simp: insert_place.simps [of ns c l r] Let_def)
  qed (use 1 in \<open>simp add: insert_place.simps\<close>)
qed

lemma InsertInOrder_nth:
  assumes "n < length ns" "k < length ns"
  shows "InsertInOrder ns n c v ! k = (let l = insert_place ns c 0 n in
    if k < l then ns ! k else if k = l then (ns ! l)\<lparr>iCount_node := c, iRight := v\<rparr> else if k \<le> n then ns ! (k - 1) else ns ! k)"
  using assms insert_place_le [of 0 n ns c] by (auto simp: InsertInOrder_def Let_def nth_list_update nth_shift_up)

lemma length_InsertInOrder [simp]: "length (InsertInOrder ns n c v) = length ns"
  by (simp add: InsertInOrder_def Let_def)

text \<open>A member of the nodes in front of the inserted one, at it and behind it\<close>

lemma InsertInOrder_map:
  assumes "n < length ns" "\<And>x. f (x\<lparr>iCount_node := c, iRight := v\<rparr>) = y" "l = insert_place ns c 0 n"
  shows "map f (take (Suc n) (InsertInOrder ns n c v)) = take l (map f (take n ns)) @ y # drop l (map f (take n ns))"
proof (rule nth_equalityI)
  have l: "l \<le> n" using insert_place_le [of 0 n ns c] assms(3) by simp
  then show "length (map f (take (Suc n) (InsertInOrder ns n c v))) = length (take l (map f (take n ns)) @ y # drop l (map f (take n ns)))"
    using assms(1) by simp
  fix k assume "k < length (map f (take (Suc n) (InsertInOrder ns n c v)))"
  then have k: "k < Suc n" "k < length ns" using assms(1) by simp_all
  show "map f (take (Suc n) (InsertInOrder ns n c v)) ! k = (take l (map f (take n ns)) @ y # drop l (map f (take n ns))) ! k"
    using InsertInOrder_nth [OF assms(1) k(2), of c v] k l assms(1,2) unfolding assms(3) [symmetric]
    by (auto simp: nth_append nth_Cons' Let_def)
qed

lemma InsertInOrder_drop: "n < length ns \<Longrightarrow> n < k \<Longrightarrow> k < length ns \<Longrightarrow> InsertInOrder ns n c v ! k = ns ! k"
  using insert_place_le [of 0 n ns c] by (simp add: InsertInOrder_nth Let_def)

section \<open>Trees in the array of nodes\<close>

datatype htree = Leaf nat | Node htree htree

primrec leaves :: "htree \<Rightarrow> nat list" where
  "leaves (Leaf s) = [s]"
| "leaves (Node l r) = leaves l @ leaves r"

primrec tree_height :: "htree \<Rightarrow> nat" where
  "tree_height (Leaf s) = 0"
| "tree_height (Node l r) = max (tree_height l) (tree_height r) + 1"

primrec depths :: "htree \<Rightarrow> nat \<Rightarrow> (nat \<times> nat) list" where
  "depths (Leaf s) d = [(s, d)]"
| "depths (Node l r) d = depths l (d + 1) @ depths r (d + 1)"

lemma bit_15: "bit v 15 \<longleftrightarrow> 0x8000 \<le> unat (v :: 16 word)"
proof -
  have "bit v 15 = odd (unat v div 2 ^ 15)" using bit_iff_odd [of "unat v" 15] by (simp add: bit_unsigned_iff)
  moreover have "unat v < 2 ^ 16" using unsigned_less [of v, where 'a = nat] by simp
  then have "unat v div 2 ^ 15 < 2" by simp
  ultimately show ?thesis by (auto simp: less_2_cases_iff)
qed

text \<open>\<open>represents k ns v t\<close>: the value \<open>v\<close> stands for \<open>t\<close>, whose inner nodes have indices from \<open>k\<close> on.\<close>

primrec represents :: "nat \<Rightarrow> TNode list \<Rightarrow> 16 word \<Rightarrow> htree \<Rightarrow> bool" where
  "represents k ns v (Leaf s) \<longleftrightarrow> v = of_nat s OR KLeaf \<and> s < 0x8000"
| "represents k ns v (Node l r) \<longleftrightarrow> \<not> bit v 15 \<and> k \<le> unat v \<and> unat v < length ns \<and>
     represents k ns (iLeft (ns ! unat v)) l \<and> represents k ns (iRight (ns ! unat v)) r"

lemma represents_frame:
  assumes "represents k ns v t" "k' \<le> k" "length ns' = length ns" "\<And>i. k \<le> i \<Longrightarrow> i < length ns \<Longrightarrow> ns' ! i = ns ! i"
  shows "represents k' ns' v t"
  using assms by (induction t arbitrary: v) auto

text \<open>The first \<open>k\<close> nodes stand for the trees \<open>ts\<close>.\<close>

definition forest :: "nat \<Rightarrow> TNode list \<Rightarrow> htree list \<Rightarrow> bool" where
  "forest k ns ts \<longleftrightarrow> k \<le> length ns \<and> list_all2 (represents k ns) (map iRight (take k ns)) ts"

lemma list_all2_insert:
  "list_all2 P xs ys \<Longrightarrow> P x y \<Longrightarrow> list_all2 P (take l xs @ x # drop l xs) (take l ys @ y # drop l ys)"
  by (simp add: list_all2_appendI list_all2_dropI list_all2_takeI)

lemma concat_insert: "mset (concat (map f (take l xs @ x # drop l xs))) = mset (f x) + mset (concat (map f xs))"
proof -
  have "mset (concat (map f xs)) = mset (concat (map f (take l xs))) + mset (concat (map f (drop l xs)))"
    by (metis append_take_drop_id concat_append map_append mset_append)
  then show ?thesis by simp
qed

lemma pair_off_step:
  assumes f: "forest (Suc k) ns ts" and k: "1 \<le> k" "k < 0x8000"
    and ns1: "ns1 = ns[k := (ns ! k)\<lparr>iLeft := iRight (ns ! (k - 1))\<rparr>]" and ns2: "ns2 = InsertInOrder ns1 (k - 1) c (of_nat k)"
    and l: "l = insert_place ns1 c 0 (k - 1)" and ts': "ts' = take l (take (k - 1) ts) @ Node (ts ! (k - 1)) (ts ! k) # drop l (take (k - 1) ts)"
  shows "forest k ns2 ts' \<and> mset (concat (map leaves ts')) = mset (concat (map leaves ts)) \<and>
    (k = 1 \<longrightarrow> (\<exists>a b. ts' = [Node a b])) \<and> length ns2 = length ns"
proof -
  have len: "Suc k \<le> length ns" using f by (simp add: forest_def)
  have lts: "length ts = Suc k" using f len by (simp add: forest_def list_all2_lengthD [symmetric])
  define ts0 where "ts0 = take (k - 1) ts"
  have ts: "ts = ts0 @ [ts ! (k - 1), ts ! k]"
  proof -
    have "drop (k - 1) ts = [ts ! (k - 1), ts ! k]"
      using lts k Cons_nth_drop_Suc [of "k - 1" ts] Cons_nth_drop_Suc [of k ts] by simp
    then show ?thesis by (metis append_take_drop_id ts0_def)
  qed
  have rep: "represents (Suc k) ns (iRight (ns ! j)) (ts ! j)" if "j \<le> k" for j
    using f that len by (auto simp: forest_def list_all2_conv_all_nth)
  have fr: "represents k ns1 v t" if "represents (Suc k) ns v t" for v t
    using that by (rule represents_frame) (auto simp: ns1)
  have uk: "unat (of_nat k :: 16 word) = k" "\<not> bit (of_nat k :: 16 word) 15"
  proof -
    show "unat (of_nat k :: 16 word) = k" using k by (simp add: unat_of_nat)
    then show "\<not> bit (of_nat k :: 16 word) 15" using k by (simp add: bit_15)
  qed
  let ?n = "Node (ts ! (k - 1)) (ts ! k)" and ?l = "insert_place ns1 c 0 (k - 1)"
  have new: "represents k ns1 (of_nat k) ?n"
    using fr [OF rep, of "k - 1"] fr [OF rep, of k] len uk by (simp add: ns1)
  have old: "list_all2 (represents k ns1) (map iRight (take (k - 1) ns1)) ts0"
    using fr [OF rep] len lts by (auto simp: list_all2_conv_all_nth ts0_def ns1)
  let ?ts = "take ?l ts0 @ ?n # drop ?l ts0"
  have R: "map iRight (take k ns2) = take ?l (map iRight (take (k - 1) ns1)) @ of_nat k # drop ?l (map iRight (take (k - 1) ns1))"
    using InsertInOrder_map [where n = "k - 1" and ns = ns1 and f = iRight and c = c and v = "of_nat k" and y = "of_nat k" and l = ?l] len k by (simp add: ns1 ns2)
  have "list_all2 (represents k ns1) (map iRight (take k ns2)) ?ts"
    unfolding R by (rule list_all2_insert [OF old new])
  then have "list_all2 (represents k ns2) (map iRight (take k ns2)) ?ts"
  proof (rule list_all2_mono)
    fix v t assume "represents k ns1 v t"
    then show "represents k ns2 v t"
      by (rule represents_frame) (use len k in \<open>auto simp: ns2 ns1 intro!: InsertInOrder_drop\<close>)
  qed
  then have "forest k ns2 ?ts" using len by (simp add: forest_def ns1 ns2)
  moreover have "mset (concat (map leaves ?ts)) = mset (leaves ?n) + mset (concat (map leaves ts0))" by (rule concat_insert)
  then have "mset (concat (map leaves ?ts)) = mset (concat (map leaves ts))" by (subst ts) simp
  moreover have "k = 1 \<longrightarrow> ?ts = [?n]" by (simp add: ts0_def)
  ultimately show ?thesis using ns1 ns2 l ts' by (auto simp: ts0_def)
qed

text \<open>One round of the loop of \<open>HuffmanL\<close>, and what it keeps until one tree is left\<close>

definition pair_node :: "nat \<Rightarrow> TNode list \<Rightarrow> TNode list" where
  "pair_node k ns = InsertInOrder (ns[k := (ns ! k)\<lparr>iLeft := iRight (ns ! (k - 1))\<rparr>]) (k - 1) (iCount_node (ns ! k) + iCount_node (ns ! (k - 1))) (of_nat k)"

definition pair_trees :: "nat \<Rightarrow> TNode list \<Rightarrow> htree list \<Rightarrow> htree list" where
  "pair_trees k ns ts =
    (let l = insert_place (ns[k := (ns ! k)\<lparr>iLeft := iRight (ns ! (k - 1))\<rparr>]) (iCount_node (ns ! k) + iCount_node (ns ! (k - 1))) 0 (k - 1)
     in take l (take (k - 1) ts) @ Node (ts ! (k - 1)) (ts ! k) # drop l (take (k - 1) ts))"

lemma pair_node_forest:
  assumes "forest (Suc k) ns ts" "1 \<le> k" "k < 0x8000"
  shows "forest k (pair_node k ns) (pair_trees k ns ts)" "mset (concat (map leaves (pair_trees k ns ts))) = mset (concat (map leaves ts))"
    "k = 1 \<longrightarrow> (\<exists>a b. pair_trees k ns ts = [Node a b])"
  using pair_off_step [OF assms refl refl refl refl] unfolding pair_node_def pair_trees_def Let_def by simp_all

lemma pair_off_invariant:
  assumes "P n ns ts" "2 \<le> n" "n \<le> 0x8000"
    and forest: "\<And>k ns ts. P k ns ts \<Longrightarrow> forest k ns ts"
    and step: "\<And>k ns ts. P (Suc k) ns ts \<Longrightarrow> 1 \<le> k \<Longrightarrow> k < 0x8000 \<Longrightarrow> \<exists>ts'. P k (pair_node k ns) ts' \<and> (k = 1 \<longrightarrow> (\<exists>a b. ts' = [Node a b]))"
  shows "\<exists>a b. represents 1 (pair_off n ns) 1 (Node a b) \<and> P 1 (pair_off n ns) [Node a b]"
  using assms(1-3)
proof (induction n ns arbitrary: ts rule: pair_off.induct)
  case (1 n ns)
  obtain k where n: "n = Suc k" "1 \<le> k" "k < 0x8000" using "1.prems" by (cases n) auto
  obtain ts' where ts': "P k (pair_node k ns) ts'" "k = 1 \<longrightarrow> (\<exists>a b. ts' = [Node a b])"
    using step "1.prems"(1) n by blast
  have run: "pair_off n ns = (if k > 1 then pair_off k (pair_node k ns) else pair_node k ns)"
    by (subst pair_off.simps) (simp add: n(1) Let_def pair_node_def)
  show ?case
  proof (cases "k > 1")
    case True
    then show ?thesis
      using "1.IH" [OF refl refl refl refl, of ts'] ts' n run by (simp add: pair_node_def)
  next
    case False
    then have "k = 1" using n(2) by simp
    then obtain a b where ab: "ts' = [Node a b]" using ts'(2) by blast
    have f: "forest 1 (pair_node 1 ns) [Node a b]" using forest [OF ts'(1)] ab \<open>k = 1\<close> by simp
    then have "represents 1 (pair_node 1 ns) (iRight (pair_node 1 ns ! 0)) (Node a b)" by (cases "pair_node 1 ns") (auto simp: forest_def)
    moreover have "iRight (pair_node 1 ns ! 0) = 1"
    proof -
      have "length (pair_node 1 ns) > 0" using f unfolding forest_def by linarith
      then have "length ns > 0" by (simp add: pair_node_def)
      then show ?thesis using InsertInOrder_nth [of 0 "ns[1 := (ns ! 1)\<lparr>iLeft := iRight (ns ! 0)\<rparr>]" 0 "iCount_node (ns ! 1) + iCount_node (ns ! 0)" 1]
        insert_place_le [of 0 0] by (simp add: pair_node_def Let_def)
    qed
    ultimately show ?thesis using run False ts' ab \<open>k = 1\<close> by auto
  qed
qed

lemma pair_off_tree:
  assumes "forest n ns ts" "2 \<le> n" "n \<le> 0x8000"
  shows "\<exists>a b. represents 1 (pair_off n ns) 1 (Node a b) \<and> mset (leaves (Node a b)) = mset (concat (map leaves ts))"
proof -
  have "\<exists>a b. represents 1 (pair_off n ns) 1 (Node a b) \<and> (\<lambda>k ns' ts'. forest k ns' ts' \<and> mset (concat (map leaves ts')) = mset (concat (map leaves ts)))
      1 (pair_off n ns) [Node a b]"
  proof (rule pair_off_invariant [OF _ assms(2,3)])
    fix k ns' ts'
    assume k: "1 \<le> k" "k < 0x8000" and f: "forest (Suc k) ns' ts' \<and> mset (concat (map leaves ts')) = mset (concat (map leaves ts))"
    show "\<exists>ts''. (forest k (pair_node k ns') ts'' \<and> mset (concat (map leaves ts'')) = mset (concat (map leaves ts))) \<and> (k = 1 \<longrightarrow> (\<exists>a b. ts'' = [Node a b]))"
      using pair_node_forest [OF conjunct1 [OF f] k] f by (intro exI [of _ "pair_trees k ns' ts'"]) simp
  qed (use assms in auto)
  then show ?thesis by auto
qed

section \<open>Lengths\<close>

definition set_lengths :: "(nat \<times> nat) list \<Rightarrow> 32 word list \<Rightarrow> 32 word list" where
  "set_lengths ds L = fold (\<lambda>(s, d) L. L[s := of_nat d]) ds L"

lemma set_lengths_simps [simp]: "set_lengths [] L = L" "set_lengths ((s, d) # ds) L = set_lengths ds (L[s := of_nat d])"
  "set_lengths (as @ bs) L = set_lengths bs (set_lengths as L)"
  by (simp_all add: set_lengths_def)

lemma bit_KLeaf: "bit (0x8000 :: 16 word) n \<longleftrightarrow> n = 15" "bit (0x8000 :: int) n \<longleftrightarrow> n = 15" "bit (0x8000 :: nat) n \<longleftrightarrow> n = 15"
proof -
  have "(0x8000 :: 16 word) = push_bit 15 1" "(0x8000 :: int) = push_bit 15 1" "(0x8000 :: nat) = push_bit 15 1" by simp_all
  then show "bit (0x8000 :: 16 word) n \<longleftrightarrow> n = 15" "bit (0x8000 :: int) n \<longleftrightarrow> n = 15" "bit (0x8000 :: nat) n \<longleftrightarrow> n = 15"
    by (simp_all only: bit_push_bit_iff bit_1_iff) auto
qed

lemma leaf_value:
  assumes "s < 0x8000"
  shows "(of_nat s OR KLeaf) AND KLeaf \<noteq> 0" "unat ((of_nat s OR KLeaf) AND NOT KLeaf) = s"
proof -
  have "\<not> bit (of_nat s :: 16 word) 15" using assms by (simp add: bit_15 unat_of_nat)
  then have "(of_nat s OR KLeaf) AND NOT KLeaf = of_nat s"
    by (intro bit_word_eqI) (auto simp: bit_simps bit_KLeaf)
  then show "unat ((of_nat s OR KLeaf) AND NOT KLeaf) = s" using assms by (simp add: unat_of_nat)
  have "bit ((of_nat s OR KLeaf) AND KLeaf) 15" by (simp add: bit_simps bit_KLeaf)
  then show "(of_nat s OR KLeaf) AND KLeaf \<noteq> 0" by force
qed

lemma inner_value: "\<not> bit (v :: 16 word) 15 \<Longrightarrow> v AND KLeaf = 0"
  by (intro bit_word_eqI) (auto simp: bit_simps bit_KLeaf)

lemma HuffmanLengthsL_tree:
  assumes "represents k ns v t" "d \<le> 27"
  shows "(if v AND KLeaf \<noteq> 0 then Inr (L[unat (v AND NOT KLeaf) := of_nat d]) else HuffmanLengthsL L ns (unat v) d) =
    (if d + tree_height t > 27 then Inl (Panic EHuffmanBufferOverflow) else Inr (set_lengths (depths t d) L))"
  using assms
proof (induction t arbitrary: v d L)
  case (Leaf s)
  then show ?case using leaf_value [of s] by simp
next
  case (Node l r)
  let ?n = "ns ! unat v"
  have v: "v AND KLeaf = 0" using Node.prems(1) by (intro inner_value) simp
  show ?case
  proof (cases "d + 1 > 27")
    case True
    then show ?thesis using v by (simp add: HuffmanLengthsL.simps)
  next
    case False
    then have d: "d + 1 \<le> 27" by simp
    have r: "represents k ns (iLeft ?n) l" "represents k ns (iRight ?n) r" using Node.prems(1) by simp_all
    show ?thesis
      unfolding HuffmanLengthsL.simps [of L ns "unat v" d] Let_def Node.IH(1) [OF r(1) d] using v d
      by (auto simp: Node.IH(2) [OF r(2) d, simplified])
  qed
qed

text \<open>The share of the code space that a length takes\<close>

definition share :: "32 word \<Rightarrow> nat" where
  "share l = (if l = 0 then 0 else 2 ^ (27 - unat l))"

lemma depths_share: "d + tree_height t \<le> 27 \<Longrightarrow> (\<Sum>(s, d)\<leftarrow>depths t d. 2 ^ (27 - d)) = (2 ^ (27 - d) :: nat)"
proof (induction t arbitrary: d)
  case (Node l r)
  have e: "27 - d = Suc (27 - Suc d)" using Node.prems by simp
  show ?case using Node by (simp add: e)
qed simp

lemma depths_leaves: "map fst (depths t d) = leaves t"
  by (induction t arbitrary: d) simp_all

lemma depths_bounds: "(s, e) \<in> set (depths t d) \<Longrightarrow> d \<le> e \<and> e \<le> d + tree_height t"
  by (induction t arbitrary: d) fastforce+

lemma length_set_lengths [simp]: "length (set_lengths ds L) = length L"
  by (induction ds arbitrary: L) auto

lemma set_lengths_nth:
  assumes "distinct (map fst ds)" "i < length L"
  shows "set_lengths ds L ! i = (case map_of ds i of None \<Rightarrow> L ! i | Some d \<Rightarrow> of_nat d)"
  using assms
proof (induction ds arbitrary: L)
  case (Cons x ds)
  obtain s d where x: "x = (s, d)" by fastforce
  have "map_of ds s = None" using Cons.prems(1) x by (simp add: map_of_eq_None_iff)
  then show ?case using Cons x by (auto simp: nth_list_update split: option.splits)
qed simp

lemma set_lengths_share:
  assumes "distinct (map fst ds)" "\<forall>(s, d)\<in>set ds. s < length L \<and> L ! s = 0 \<and> 0 < d \<and> d \<le> 27"
  shows "sum_list (map share (set_lengths ds L)) = sum_list (map share L) + (\<Sum>(s, d)\<leftarrow>ds. 2 ^ (27 - d))"
  using assms
proof (induction ds arbitrary: L)
  case (Cons x ds)
  obtain s d where x: "x = (s, d)" by fastforce
  have s: "s < length L" "L ! s = 0" "0 < d" "d \<le> 27" using Cons.prems(2) x by auto
  have "unat (of_nat d :: 32 word) = d" using s by (simp add: unat_of_nat)
  then have "share (of_nat d) = 2 ^ (27 - d)" using s by (auto simp: share_def)
  then have "sum_list (map share (L[s := of_nat d])) = sum_list (map share L) + 2 ^ (27 - d)"
    using s by (simp add: map_update sum_list_update share_def)
  moreover have "\<forall>(s', d')\<in>set ds. s' < length (L[s := of_nat d]) \<and> L[s := of_nat d] ! s' = 0 \<and> 0 < d' \<and> d' \<le> 27"
  proof -
    have "s' \<noteq> s" if "(s', d') \<in> set ds" for s' d' using that Cons.prems(1) x by (force simp: image_iff)
    then show ?thesis using Cons.prems(2) x by fastforce
  qed
  ultimately show ?case using Cons.IH [of "L[s := of_nat d]"] Cons.prems(1) x by simp
qed simp

section \<open>Validity\<close>

lemma sint_small: "unat (w :: 32 word) < 2 ^ 31 \<Longrightarrow> sint w = uint w"
proof -
  assume "unat w < 2 ^ 31"
  then have "int (unat w) < int (2 ^ 31)" by (simp only: of_nat_less_iff)
  then have "uint w < 2 ^ 31" by simp
  moreover have "- (2 ^ 31) \<le> uint w" by (rule order_trans [of _ 0]) simp_all
  ultimately have "signed_take_bit 31 (uint w) = uint w" by (intro signed_take_bit_int_eq_self)
  then show "sint w = uint w" by (simp add: sint_uint)
qed

lemma valid_loop_sum:
  assumes "\<forall>l\<in>set ps. unat l \<le> 27" "sum_list (map share ps) \<le> unat r"
  shows "valid_loop ps r t = Some (r - of_nat (sum_list (map share ps)), t + (\<Sum>l\<leftarrow>ps. uint l))"
  using assms
proof (induction ps arbitrary: r t)
  case (Cons p ps)
  have p: "unat p \<le> 27" using Cons.prems(1) by simp
  then have s: "sint p = uint p" by (intro sint_small) simp
  show ?case
  proof (cases "p = 0")
    case True
    then show ?thesis using Cons by (simp add: share_def)
  next
    case False
    let ?c = "push_bit (27 - unat p) 1 :: 32 word"
    have "int (unat p) \<le> int 27" using p by (simp only: of_nat_le_iff)
    moreover have "uint p \<noteq> 0" "0 \<le> uint p" using False unsigned_eq_0_iff [of p, where 'a = int] by simp_all
    ultimately have u: "0 < uint p" "uint p \<le> 27" "nat (27 - uint p) = 27 - unat p"
      by (simp_all only: order_less_le) (simp_all add: nat_diff_distrib)
    have "2 ^ (27 - unat p) \<le> (2 ^ 27 :: nat)" by (intro power_increasing) simp_all
    then have "2 ^ (27 - unat p) < (2 ^ 32 :: nat)" by simp
    then have c: "unat ?c = 2 ^ (27 - unat p)" using unat_of_nat [where 'a = 32, of "2 ^ (27 - unat p)"] by (simp add: push_bit_of_1)
    have "?c \<le> r" using Cons.prems(2) c False by (simp add: word_le_nat_alt share_def)
    moreover have "?c = of_nat (share p)" using False by (simp add: share_def push_bit_of_1)
    moreover have "unat (r - ?c) = unat r - share p" using \<open>?c \<le> r\<close> c False by (simp add: unat_sub share_def)
    ultimately show ?thesis
      using Cons.IH [of "r - ?c" "t + uint p"] Cons.prems s u by (simp add: Let_def not_less algebra_simps)
  qed
qed simp

text \<open>The tables that \<open>HuffmanL\<close> makes: the lengths fill the code space, or there is one code or none.\<close>

definition complete :: "32 word list \<Rightarrow> bool" where
  "complete L \<longleftrightarrow> (\<forall>l\<in>set L. unat l \<le> 27) \<and>
     (sum_list (map share L) = 2 ^ 27 \<or> (\<exists>s<length L. L = (replicate (length L) 0)[s := 1]) \<or> L = replicate (length L) 0)"

lemma sum_list_map_unit: "s < n \<Longrightarrow> f 0 = 0 \<Longrightarrow> sum_list (map f ((replicate n 0)[s := x])) = (f x :: nat)"
  by (simp add: map_update sum_list_update sum_list_replicate)

lemma complete_valid:
  assumes "complete L" "length L = n"
  shows "IsValid L n"
proof -
  have len: "\<forall>l\<in>set (rev L). unat l \<le> 27" using assms(1) by (simp add: complete_def)
  have one: "unat (push_bit 27 1 :: 32 word) = 2 ^ 27" by simp
  have rev: "sum_list (map share (rev L)) = sum_list (map share L)" by (simp add: rev_map [symmetric])
  have tot: "(\<Sum>l\<leftarrow>rev L. uint l) = int (\<Sum>l\<leftarrow>L. unat l)" by (induction L) simp_all
  consider "sum_list (map share L) = 2 ^ 27" | s where "s < length L" "L = (replicate (length L) 0)[s := 1]" | "L = replicate (length L) 0"
    using assms(1) by (auto simp: complete_def)
  then have "sum_list (map share L) \<le> 2 ^ 27 \<and> (sum_list (map share L) = 2 ^ 27 \<or> (\<Sum>l\<leftarrow>L. unat l) \<le> 1)"
  proof cases
    case 2
    have "sum_list (map share L) = share 1" "(\<Sum>l\<leftarrow>L. unat l) = unat (1 :: 32 word)"
      using sum_list_map_unit [OF 2(1), of share 1] sum_list_map_unit [OF 2(1), of "unat :: 32 word \<Rightarrow> nat" 1] 2(2) by (simp_all add: share_def)
    then show ?thesis by (simp add: share_def)
  next
    case 3
    have "sum_list (map share L) = 0" "(\<Sum>l\<leftarrow>L. unat l) = 0" by (subst 3, simp add: sum_list_replicate share_def)+
    then show ?thesis by linarith
  qed simp
  then have "IsValid L n" if "valid_loop (rev L) (push_bit 27 1) 0 = Some (push_bit 27 1 - of_nat (sum_list (map share L)), int (\<Sum>l\<leftarrow>L. unat l))"
    using that assms(2) by (auto simp: IsValid_def)
  then show ?thesis
    using valid_loop_sum [OF len, of "push_bit 27 1" 0] unfolding rev tot one
    using \<open>sum_list (map share L) \<le> 2 ^ 27 \<and> _\<close> by simp
qed

text \<open>The nodes after sorting: one for each symbol with a frequency\<close>

lemma sort_codes_nodes:
  assumes "n \<le> length ns" "n \<le> 0x8000" "sort_codes f n ns = (k, ns')"
  shows "length ns' = length ns \<and> k \<le> n \<and> (\<exists>ss. map iRight (take k ns') = map (\<lambda>s. of_nat s OR KLeaf) ss \<and> distinct ss \<and>
    set ss = {s. s < n \<and> f ! s \<noteq> 0})"
  using assms
proof (induction n arbitrary: k ns')
  case (Suc n)
  obtain k0 ns0 where r: "sort_codes f n ns = (k0, ns0)" by fastforce
  then obtain ss where ih: "length ns0 = length ns" "k0 \<le> n" "map iRight (take k0 ns0) = map (\<lambda>s. of_nat s OR KLeaf) ss"
    "distinct ss" "set ss = {s. s < n \<and> f ! s \<noteq> 0}" using Suc by auto
  have step: "sort_codes f (Suc n) ns = (if f ! n \<noteq> 0 then (k0 + 1, InsertInOrder ns0 k0 (f ! n) (of_nat n OR KLeaf)) else (k0, ns0))"
    using r by (simp add: sort_codes_def Let_def)
  show ?case
  proof (cases "f ! n = 0")
    case True
    then have "{s. s < Suc n \<and> f ! s \<noteq> 0} = {s. s < n \<and> f ! s \<noteq> 0}" by (auto simp: less_Suc_eq)
    then show ?thesis using True step Suc.prems(3) ih by auto
  next
    case False
    let ?l = "insert_place ns0 (f ! n) 0 k0"
    have "k = Suc k0" "ns' = InsertInOrder ns0 k0 (f ! n) (of_nat n OR KLeaf)" using step Suc.prems(3) False by simp_all
    moreover have "map iRight (take (Suc k0) (InsertInOrder ns0 k0 (f ! n) (of_nat n OR KLeaf))) =
        map (\<lambda>s. of_nat s OR KLeaf) (take ?l ss @ n # drop ?l ss)"
      using InsertInOrder_map [where f = iRight and n = k0 and ns = ns0 and c = "f ! n" and v = "of_nat n OR KLeaf" and l = ?l] ih Suc.prems(1)
      by (simp add: take_map drop_map)
    moreover have "set (take ?l ss @ n # drop ?l ss) = {s. s < Suc n \<and> f ! s \<noteq> 0}"
      using False ih(5) set_append [of "take ?l ss" "drop ?l ss"] by (auto simp: less_Suc_eq)
    moreover have "distinct (take ?l ss @ n # drop ?l ss)"
    proof -
      have "n \<notin> set ss" using ih(5) by simp
      then show ?thesis using ih(4) distinct_append [of "take ?l ss" "drop ?l ss"] by (auto dest: in_set_takeD in_set_dropD)
    qed
    ultimately show ?thesis using ih by (intro conjI exI [of _ "take ?l ss @ n # drop ?l ss"]) simp_all
  qed
qed (simp add: sort_codes_def)

text \<open>
  What \<open>HuffmanL\<close> returns: a length for every symbol with a frequency and for no other, and a complete
  code.  It can only fail because a code would be longer than 27 bits, or for more than
  \<open>KMaxCodes\<close> symbols.
\<close>

definition lengths_for :: "32 word list \<Rightarrow> 32 word list \<Rightarrow> bool" where
  "lengths_for f L \<longleftrightarrow> length L = length f \<and> complete L \<and> (\<forall>s<length f. (L ! s \<noteq> 0) = (f ! s \<noteq> 0))"

lemma tree_lengths:
  assumes "distinct (leaves t)" "set (leaves t) = {s. s < n \<and> f ! s \<noteq> 0}" "0 < tree_height t" "tree_height t \<le> 27" "length f = n"
  shows "lengths_for f (set_lengths (depths t 0) (replicate n 0))"
proof -
  let ?L = "set_lengths (depths t 0) (replicate n 0)"
  have pos: "0 < d" if "(s, d) \<in> set (depths t 0)" for s d
  proof -
    obtain l r where "t = Node l r" using assms(3) by (cases t) auto
    then show ?thesis using that depths_bounds [of s d l 1] depths_bounds [of s d r 1] by auto
  qed
  have dist: "distinct (map fst (depths t 0))" by (simp add: depths_leaves assms(1))
  have mem: "s < n \<and> 0 < d \<and> d \<le> 27" if "(s, d) \<in> set (depths t 0)" for s d
  proof -
    have "s \<in> set (leaves t)" using that depths_leaves [of t 0] by (metis fst_conv image_eqI set_map)
    then show ?thesis using assms(2,4) pos [OF that] depths_bounds [OF that] by auto
  qed
  have nth: "?L ! s = (case map_of (depths t 0) s of None \<Rightarrow> 0 | Some d \<Rightarrow> of_nat d)" if "s < n" for s
    using set_lengths_nth [OF dist, of s "replicate n 0"] that by (simp split: option.splits)
  have val: "unat (of_nat d :: 32 word) = d" if "d \<le> 27" for d using that by (simp add: unat_of_nat)
  have le: "unat (?L ! s) \<le> 27" if "s < n" for s
    using nth [OF that] mem map_of_SomeD by (fastforce simp: val split: option.splits)
  have "sum_list (map share ?L) = 2 ^ 27"
    using set_lengths_share [OF dist, of "replicate n 0"] mem depths_share [of 0 t] assms(4)
    by (fastforce simp: sum_list_replicate share_def)
  then have "complete ?L" using le by (auto simp: complete_def in_set_conv_nth)
  moreover have "(?L ! s \<noteq> 0) = (f ! s \<noteq> 0)" if "s < n" for s
  proof (cases "map_of (depths t 0) s")
    case None
    then have "s \<notin> set (leaves t)" using depths_leaves [of t 0] by (metis map_of_eq_None_iff set_map)
    then show ?thesis using None nth [OF that] assms(2) that by simp
  next
    case (Some d)
    then have m: "(s, d) \<in> set (depths t 0)" by (rule map_of_SomeD)
    then have "s \<in> set (leaves t)" using depths_leaves [of t 0] by (metis fst_conv image_eqI set_map)
    moreover have "(of_nat d :: 32 word) \<noteq> 0" using mem [OF m] val [of d] by auto
    ultimately show ?thesis using Some nth [OF that] assms(2) by simp
  qed
  ultimately show ?thesis using assms(5) by (simp add: lengths_for_def)
qed

lemma HuffmanL_complete:
  assumes "length f = n" "n \<le> 0x8000"
  shows "case HuffmanL f n of Inl e \<Rightarrow> e = Panic EHuffmanBufferOverflow | Inr L \<Rightarrow> lengths_for f L"
proof -
  let ?ns = "replicate n \<lparr>iCount_node = 0, iLeft = 0, iRight = 0\<rparr>"
  obtain k ns where r: "sort_codes f n ?ns = (k, ns)" by fastforce
  obtain ss where ns: "length ns = n" "k \<le> n" "map iRight (take k ns) = map (\<lambda>s. of_nat s OR KLeaf) ss" "distinct ss"
    "set ss = {s. s < n \<and> f ! s \<noteq> 0}"
    using sort_codes_nodes [OF _ assms(2) r] by auto
  have lss: "length ss = k" using arg_cong [OF ns(3), of length] ns(1,2) by simp
  have fin: "IsValid L n" if "lengths_for f L" for L
    using that complete_valid [of L n] assms(1) by (simp add: lengths_for_def)
  consider "k = 0" | "k = 1" | "2 \<le> k" by linarith
  then show ?thesis
  proof cases
    case 1
    then have "\<forall>s<n. f ! s = 0" using ns(5) lss by auto
    then have "lengths_for f (replicate n 0)" using assms(1) by (auto simp: lengths_for_def complete_def)
    then show ?thesis using 1 assms(2) r fin by (simp add: HuffmanL_def Let_def)
  next
    case 2
    obtain s where s: "ss = [s]" using lss 2 by (auto simp: length_Suc_conv)
    then have sn: "s < n" "f ! s \<noteq> 0" "\<forall>s'<n. f ! s' \<noteq> 0 \<longrightarrow> s' = s" using ns(5) by auto
    have "iRight (ns ! 0) = of_nat s OR KLeaf" using ns(1,2,3) s 2 by (cases ns) auto
    then have "unat (iRight (ns ! 0) AND NOT KLeaf) = s" using leaf_value(2) [of s] sn(1) assms(2) by simp
    moreover have "lengths_for f ((replicate n 0)[s := 1])"
    proof -
      have "set ((replicate n 0)[s := 1 :: 32 word]) \<subseteq> {0, 1}" using set_update_subset_insert [of "replicate n 0" s 1] by auto
      then have "\<forall>l\<in>set ((replicate n 0)[s := 1 :: 32 word]). unat l \<le> 27" by force
      then have "complete ((replicate n 0)[s := 1])" unfolding complete_def length_list_update length_replicate using sn(1) by blast
      moreover have "(((replicate n 0)[s := 1 :: 32 word]) ! s' \<noteq> 0) = (f ! s' \<noteq> 0)" if "s' < n" for s'
      proof (cases "s' = s")
        case True
        then show ?thesis using sn(1,2) by simp
      next
        case False
        then have "f ! s' = 0" using sn(3) that by blast
        then show ?thesis using False that by simp
      qed
      ultimately show ?thesis using assms(1) by (simp add: lengths_for_def)
    qed
    ultimately show ?thesis using 2 assms(2) r fin by (simp add: HuffmanL_def Let_def)
  next
    case 3
    have f: "forest k ns (map Leaf ss)"
    proof -
      have "\<forall>s\<in>set ss. s < 0x8000" using ns(5) assms(2) by auto
      then have "list_all2 (represents k ns) (map (\<lambda>s. of_nat s OR KLeaf) ss) (map Leaf ss)"
        by (simp add: list_all2_map1 list_all2_map2 list.rel_refl_strong)
      then show ?thesis using ns(1,2,3) by (simp add: forest_def)
    qed
    obtain a b where t: "represents 1 (pair_off k ns) 1 (Node a b)" "mset (leaves (Node a b)) = mset (concat (map leaves (map Leaf ss)))"
      using pair_off_tree [OF f 3] ns(2) assms(2) by auto
    have "concat (map leaves (map Leaf ss)) = ss" by (induction ss) simp_all
    then have m: "mset (leaves (Node a b)) = mset ss" using t(2) by simp
    then have d: "distinct (leaves (Node a b))" "set (leaves (Node a b)) = {s. s < n \<and> f ! s \<noteq> 0}"
      using ns(4,5) mset_eq_imp_distinct_iff [OF m] mset_eq_setD [OF m] by auto
    have run: "HuffmanLengthsL (replicate n 0) (pair_off k ns) 1 0 =
        (if tree_height (Node a b) > 27 then Inl (Panic EHuffmanBufferOverflow) else Inr (set_lengths (depths (Node a b) 0) (replicate n 0)))"
      using HuffmanLengthsL_tree [OF t(1), of 0 "replicate n 0"] inner_value [of 1] by (simp add: bit_1_iff)
    show ?thesis
    proof (cases "tree_height (Node a b) > 27")
      case True
      then show ?thesis using 3 assms(2) r run by (simp add: HuffmanL_def)
    next
      case False
      then have "lengths_for f (set_lengths (depths (Node a b) 0) (replicate n 0))"
        by (intro tree_lengths [OF d _ _ assms(1)]) auto
      then show ?thesis using False 3 assms(2) r run fin by (simp add: HuffmanL_def Let_def)
    qed
  qed
qed

end
