(* ===== verification/Huffman_Depth.thy ===== *)
theory Huffman_Depth
  imports Huffman_Lengths
begin

text \<open>
  The depth of the trees that \<open>HuffmanL\<close> builds: the nodes are kept in the order of their counts, so
  that the weight of a tree grows with its height like the Fibonacci numbers.  A code is longer
  than 27 bits only if the frequencies add up to at least 832040.
\<close>

section \<open>The order of the nodes\<close>

definition counts :: "nat \<Rightarrow> TNode list \<Rightarrow> nat list" where
  "counts k ns = map (\<lambda>x. unat (iCount_node x)) (take k ns)"

lemma insert_place_order:
  assumes "l \<le> r" "r \<le> n" "n \<le> length ns" "sorted_wrt (\<ge>) (counts n ns)"
    and "\<And>i. i < l \<Longrightarrow> unat c \<le> counts n ns ! i" "\<And>i. r \<le> i \<Longrightarrow> i < n \<Longrightarrow> counts n ns ! i < unat c"
  shows "(\<forall>i<insert_place ns c l r. unat c \<le> counts n ns ! i) \<and> (\<forall>i. insert_place ns c l r \<le> i \<and> i < n \<longrightarrow> counts n ns ! i < unat c)"
  using assms
proof (induction ns c l r rule: insert_place.induct)
  case (1 ns c l r)
  show ?case
  proof (cases "l < r")
    case True
    let ?m = "drop_bit 1 (l + r)"
    have m: "l \<le> ?m" "?m < r" using True by (auto simp: drop_bit_Suc)
    have nth: "counts n ns ! ?m = unat (iCount_node (ns ! ?m))" using m "1.prems"(2,3) by (simp add: counts_def)
    have le: "counts n ns ! j \<le> counts n ns ! i" if "i \<le> j" "j < n" for i j
      using "1.prems"(3,4) that sorted_wrt_nth_less [of "(\<ge>)" "counts n ns" i j] by (cases "i = j") (auto simp: counts_def)
    show ?thesis
    proof (cases "iCount_node (ns ! ?m) < c")
      case less: True
      have "counts n ns ! i < unat c" if "?m \<le> i" "i < n" for i
        using le [OF that] nth less that by (simp add: word_less_nat_alt)
      then show ?thesis using "1.IH"(1) [OF True refl less] "1.prems" m less True by (simp add: insert_place.simps [of ns c l r] Let_def)
    next
      case False
      have "unat c \<le> counts n ns ! i" if "i < ?m + 1" for i
        using le [of i ?m] nth False that m "1.prems"(2) by (simp add: word_le_nat_alt not_less)
      then show ?thesis using "1.IH"(2) [OF True refl False] "1.prems" m False True by (simp add: insert_place.simps [of ns c l r] Let_def)
    qed
  next
    case False
    then have "insert_place ns c l r = l" by (subst insert_place.simps) simp
    moreover have "l = r" using False "1.prems"(1) by simp
    ultimately show ?thesis using "1.prems"(5,6) by simp
  qed
qed

lemma sorted_insert:
  assumes "sorted_wrt (\<ge>) xs" "\<And>i. i < l \<Longrightarrow> c \<le> xs ! i" "\<And>i. l \<le> i \<Longrightarrow> i < length xs \<Longrightarrow> xs ! i < c" "l \<le> length xs"
  shows "sorted_wrt (\<ge>) (take l xs @ c # drop l (xs :: nat list))"
proof -
  have "sorted_wrt (\<ge>) (take l xs @ drop l xs)" using assms(1) by simp
  then have s: "sorted_wrt (\<ge>) (take l xs)" "sorted_wrt (\<ge>) (drop l xs)" by (simp_all add: sorted_wrt_append)
  have hi: "\<forall>x\<in>set (take l xs). c \<le> x" using assms(2,4) by (auto simp: in_set_conv_nth)
  have lo: "\<forall>x\<in>set (drop l xs). x < c" using assms(3) by (auto simp: in_set_conv_nth)
  show ?thesis using s hi lo by (fastforce simp: sorted_wrt_append)
qed

lemma InsertInOrder_counts:
  assumes "n < length ns" "sorted_wrt (\<ge>) (counts n ns)" and l_def: "l = insert_place ns c 0 n"
  shows "counts (Suc n) (InsertInOrder ns n c v) = take l (counts n ns) @ unat c # drop l (counts n ns)"
    "sorted_wrt (\<ge>) (counts (Suc n) (InsertInOrder ns n c v))"
proof -
  show e: "counts (Suc n) (InsertInOrder ns n c v) = take l (counts n ns) @ unat c # drop l (counts n ns)"
    unfolding counts_def l_def by (rule InsertInOrder_map [OF assms(1) _ refl]) simp
  have "(\<forall>i<l. unat c \<le> counts n ns ! i) \<and> (\<forall>i. l \<le> i \<and> i < n \<longrightarrow> counts n ns ! i < unat c)"
    unfolding l_def using assms(1,2) by (intro insert_place_order) auto
  moreover have "l \<le> n" using insert_place_le [of 0 n ns c] by (simp add: l_def)
  moreover have "length (counts n ns) = n" using assms(1) by (simp add: counts_def)
  ultimately show "sorted_wrt (\<ge>) (counts (Suc n) (InsertInOrder ns n c v))"
    unfolding e using assms(2) by (intro sorted_insert) auto
qed

section \<open>Weights and heights\<close>

primrec weight :: "32 word list \<Rightarrow> htree \<Rightarrow> nat" where
  "weight f (Leaf s) = unat (f ! s)"
| "weight f (Node l r) = weight f l + weight f r"

fun growth :: "nat \<Rightarrow> nat" where
  "growth 0 = 1"
| "growth (Suc 0) = 2"
| "growth (Suc (Suc n)) = growth (Suc n) + growth n"

lemma growth_pair: "((\<lambda>(a, b). (b, b + a)) ^^ n) (1, 2) = (growth n, growth (Suc n))"
  by (induction n) simp_all

lemma funpow_numeral_step: "f ^^ numeral k = f \<circ> f ^^ pred_numeral k"
  by (simp add: numeral_eq_Suc)

lemma growth_28: "growth 28 = 832040"
proof -
  have "((\<lambda>(a, b). (b, b + a)) ^^ 28) (1 :: nat, 2) = (832040, 1346269)" by (simp add: funpow_numeral_step)
  then show ?thesis unfolding growth_pair by simp
qed

lemma growth_Suc: "growth n \<le> growth (Suc n)"
  by (induction n rule: growth.induct) simp_all

lemma growth_mono: "m \<le> n \<Longrightarrow> growth m \<le> growth n"
  by (rule lift_Suc_mono_le [of growth]) (auto intro: growth_Suc)

text \<open>Every tree in it weighs enough for its height.\<close>

primrec heavy :: "32 word list \<Rightarrow> htree \<Rightarrow> bool" where
  "heavy f (Leaf s) \<longleftrightarrow> 1 \<le> unat (f ! s)"
| "heavy f (Node l r) \<longleftrightarrow> heavy f l \<and> heavy f r \<and> growth (tree_height (Node l r)) \<le> weight f (Node l r)"

lemma heavy_weight: "heavy f t \<Longrightarrow> growth (tree_height t) \<le> weight f t"
  by (cases t) simp_all

primrec parts_below :: "32 word list \<Rightarrow> nat \<Rightarrow> htree \<Rightarrow> bool" where
  "parts_below f w (Leaf s) \<longleftrightarrow> True"
| "parts_below f w (Node l r) \<longleftrightarrow> weight f l \<le> w \<and> weight f r \<le> w"

text \<open>Neither tree is lighter than a part of the other.\<close>

definition matched :: "32 word list \<Rightarrow> htree \<Rightarrow> htree \<Rightarrow> bool" where
  "matched f t u \<longleftrightarrow> parts_below f (weight f u) t \<and> parts_below f (weight f t) u"

lemma part_growth:
  assumes "heavy f t" "parts_below f w t" "1 \<le> w"
  shows "growth (Suc (tree_height t)) \<le> weight f t + w"
proof (cases t)
  case (Leaf s)
  then show ?thesis using assms by simp
next
  case (Node l r)
  have "growth (max (tree_height l) (tree_height r)) \<le> w"
    using Node assms heavy_weight [of f l] heavy_weight [of f r] by (simp add: max_def)
  then show ?thesis using heavy_weight [OF assms(1)] Node by simp
qed

lemma heavy_Node:
  assumes "heavy f t" "heavy f u" "matched f t u"
  shows "heavy f (Node t u)"
proof -
  have one: "1 \<le> weight f x" if "heavy f x" for x
    using heavy_weight [OF that] growth_mono [of 0 "tree_height x"] by simp
  have "growth (Suc (tree_height t)) \<le> weight f t + weight f u" "growth (Suc (tree_height u)) \<le> weight f u + weight f t"
    using assms by (intro part_growth one; simp add: matched_def)+
  then show ?thesis using assms(1,2) by (simp add: max_def)
qed

lemma matched_Node:
  assumes "matched f v t" "weight f t \<le> weight f v" "weight f u \<le> weight f v"
  shows "matched f (Node t u) v"
proof -
  have "parts_below f (weight f t) v" using assms(1) by (simp add: matched_def)
  then have "parts_below f (weight f t + weight f u) v" by (cases v) auto
  then show ?thesis using assms(2,3) by (simp add: matched_def)
qed

lemma matched_sym: "matched f t u \<Longrightarrow> matched f u t"
  by (simp add: matched_def)

lemma sorted_wrt_insert_sym:
  assumes "sorted_wrt R xs" "\<forall>x\<in>set xs. R y x" "\<And>x y. R x y \<Longrightarrow> R y x"
  shows "sorted_wrt R (take l xs @ y # drop l xs)"
proof -
  have "sorted_wrt R (take l xs @ drop l xs)" using assms(1) by simp
  then show ?thesis using assms(2,3) unfolding sorted_wrt_append by (auto dest: in_set_takeD in_set_dropD)
qed

section \<open>The loop\<close>

definition weighted :: "32 word list \<Rightarrow> nat \<Rightarrow> nat \<Rightarrow> TNode list \<Rightarrow> htree list \<Rightarrow> bool" where
  "weighted f w k ns ts \<longleftrightarrow> forest k ns ts \<and> counts k ns = map (weight f) ts \<and> sorted_wrt (\<ge>) (map (weight f) ts) \<and>
     sorted_wrt (matched f) ts \<and> (\<forall>t\<in>set ts. heavy f t) \<and> sum_list (map (weight f) ts) = w"

lemma weighted_split:
  assumes "weighted f w (Suc k) ns ts" "1 \<le> k"
  shows "Suc k \<le> length ns" "ts = take (k - 1) ts @ [ts ! (k - 1), ts ! k]"
    "unat (iCount_node (ns ! k)) = weight f (ts ! k)" "unat (iCount_node (ns ! (k - 1))) = weight f (ts ! (k - 1))"
    "counts (k - 1) ns = map (weight f) (take (k - 1) ts)"
proof -
  show len: "Suc k \<le> length ns" using assms by (simp add: weighted_def forest_def)
  have c: "counts (Suc k) ns = map (weight f) ts" using assms(1) by (simp add: weighted_def)
  then have lts: "length ts = Suc k" using len arg_cong [OF c, of length] unfolding counts_def length_map length_take by simp
  then have "drop (k - 1) ts = [ts ! (k - 1), ts ! k]" using assms(2) Cons_nth_drop_Suc [of "k - 1" ts] Cons_nth_drop_Suc [of k ts] by simp
  then show "ts = take (k - 1) ts @ [ts ! (k - 1), ts ! k]" by (metis append_take_drop_id)
  have "counts (Suc k) ns ! k = unat (iCount_node (ns ! k))" "counts (Suc k) ns ! (k - 1) = unat (iCount_node (ns ! (k - 1)))"
    using len assms(2) nth_take [of "k - 1" "Suc k" ns] by (simp_all add: counts_def)
  then show "unat (iCount_node (ns ! k)) = weight f (ts ! k)" "unat (iCount_node (ns ! (k - 1))) = weight f (ts ! (k - 1))"
    using c lts by simp_all
  have "counts (k - 1) ns = take (k - 1) (counts (Suc k) ns)" using assms(2) by (simp add: counts_def take_map min_absorb1 le_diff_conv)
  then show "counts (k - 1) ns = map (weight f) (take (k - 1) ts)" using c by (simp add: take_map)
qed

lemma unat_add_small: "unat a + unat b < 2 ^ 32 \<Longrightarrow> unat (a + b :: 32 word) = unat a + unat b"
  by (simp add: unat_word_ariths)

lemma pair_node_weighted:
  assumes w: "weighted f w (Suc k) ns ts" and k: "1 \<le> k" "k < 0x8000" and "w < 2 ^ 32"
  shows "weighted f w k (pair_node k ns) (pair_trees k ns ts)"
proof -
  note S = weighted_split [OF w k(1)]
  let ?ts0 = "take (k - 1) ts" and ?b = "ts ! (k - 1)" and ?a = "ts ! k"
  let ?ns1 = "ns[k := (ns ! k)\<lparr>iLeft := iRight (ns ! (k - 1))\<rparr>]" and ?c = "iCount_node (ns ! k) + iCount_node (ns ! (k - 1))"
  define l where "l = insert_place ?ns1 ?c 0 (k - 1)"
  have W: "forest (Suc k) ns ts" "sorted_wrt (\<ge>) (map (weight f) (?ts0 @ [?b, ?a]))" "sorted_wrt (matched f) (?ts0 @ [?b, ?a])"
    "\<forall>t\<in>set (?ts0 @ [?b, ?a]). heavy f t" "sum_list (map (weight f) (?ts0 @ [?b, ?a])) = w"
    using w S(2) unfolding weighted_def by auto
  have ts': "pair_trees k ns ts = take l ?ts0 @ Node ?b ?a # drop l ?ts0" by (simp add: pair_trees_def l_def Let_def)
  have sum: "sum_list (map (weight f) (pair_trees k ns ts)) = w"
  proof -
    have "sum_list (map (weight f) ?ts0) = sum_list (map (weight f) (take l ?ts0)) + sum_list (map (weight f) (drop l ?ts0))"
      by (metis append_take_drop_id map_append sum_list_append)
    then show ?thesis using W(5) unfolding ts' by simp
  qed
  have uc: "unat ?c = weight f (Node ?b ?a)" using W(5) assms(4) S(3,4) by (subst unat_add_small) simp_all
  have c1: "counts (k - 1) ?ns1 = map (weight f) ?ts0" using S(5) by (simp add: counts_def take_update_cancel)
  have s1: "sorted_wrt (\<ge>) (counts (k - 1) ?ns1)" unfolding c1 using W(2) by (simp add: sorted_wrt_append)
  have "counts k (pair_node k ns) = map (weight f) (pair_trees k ns ts) \<and> sorted_wrt (\<ge>) (counts k (pair_node k ns))"
    using InsertInOrder_counts [OF _ s1 l_def, of "of_nat k"] S(1) k(1) unfolding c1 uc pair_node_def ts' by (simp add: take_map drop_map)
  moreover have "matched f ?b ?a" "\<forall>u\<in>set ?ts0. matched f u ?b \<and> weight f ?b \<le> weight f u \<and> weight f ?a \<le> weight f u"
    using W(2,3) by (auto simp: sorted_wrt_append)
  then have "heavy f (Node ?b ?a)" "\<forall>u\<in>set ?ts0. matched f (Node ?b ?a) u"
    using heavy_Node W(4) matched_Node by auto
  moreover have "sorted_wrt (matched f) (pair_trees k ns ts)"
    unfolding ts' using W(3) calculation(3) by (intro sorted_wrt_insert_sym) (auto simp: sorted_wrt_append intro: matched_sym)
  moreover have "\<forall>t\<in>set (pair_trees k ns ts). heavy f t"
    unfolding ts' using W(4) calculation(2) by (auto simp del: take_take dest: in_set_takeD in_set_dropD)
  ultimately show ?thesis using pair_node_forest(1) [OF W(1) k] sum unfolding weighted_def by auto
qed

lemma pair_off_weighted:
  assumes "weighted f w n ns ts" "2 \<le> n" "n \<le> 0x8000" "w < 2 ^ 32"
  shows "\<exists>a b. represents 1 (pair_off n ns) 1 (Node a b) \<and> heavy f (Node a b) \<and> weight f (Node a b) = w"
proof -
  have "\<exists>a b. represents 1 (pair_off n ns) 1 (Node a b) \<and> weighted f w 1 (pair_off n ns) [Node a b]"
  proof (rule pair_off_invariant [where P = "weighted f w", OF assms(1-3)])
    fix k ns ts assume k: "weighted f w (Suc k) ns ts" "1 \<le> k" "k < 0x8000"
    then have "forest (Suc k) ns ts" by (simp add: weighted_def)
    then show "\<exists>ts'. weighted f w k (pair_node k ns) ts' \<and> (k = 1 \<longrightarrow> (\<exists>a b. ts' = [Node a b]))"
      using pair_node_weighted [OF k assms(4)] pair_node_forest(3) [OF _ k(2,3)] by blast
  qed (simp add: weighted_def)
  then show ?thesis by (auto simp: weighted_def)
qed

section \<open>The sorted symbols\<close>

lemma sort_codes_counts:
  assumes "n \<le> length ns" "sort_codes f n ns = (k, ns')"
  shows "k \<le> n \<and> length ns' = length ns \<and> sorted_wrt (\<ge>) (counts k ns') \<and> (\<forall>i<k. \<exists>s<n. f ! s \<noteq> 0 \<and> iRight (ns' ! i) = of_nat s OR KLeaf \<and> iCount_node (ns' ! i) = f ! s) \<and>
    sum_list (counts k ns') = (\<Sum>s<n. unat (f ! s))"
  using assms
proof (induction n arbitrary: k ns')
  case (Suc n)
  obtain k0 ns0 where r: "sort_codes f n ns = (k0, ns0)" by fastforce
  then have ih: "k0 \<le> n" "length ns0 = length ns" "sorted_wrt (\<ge>) (counts k0 ns0)"
    "\<forall>i<k0. \<exists>s<n. f ! s \<noteq> 0 \<and> iRight (ns0 ! i) = of_nat s OR KLeaf \<and> iCount_node (ns0 ! i) = f ! s" "sum_list (counts k0 ns0) = (\<Sum>s<n. unat (f ! s))"
    using Suc by auto
  have step: "sort_codes f (Suc n) ns = (if f ! n \<noteq> 0 then (k0 + 1, InsertInOrder ns0 k0 (f ! n) (of_nat n OR KLeaf)) else (k0, ns0))"
    using r by (simp add: sort_codes_def Let_def)
  show ?case
  proof (cases "f ! n = 0")
    case True
    then show ?thesis using step Suc.prems(2) ih by (auto intro: less_SucI)
  next
    case False
    let ?l = "insert_place ns0 (f ! n) 0 k0"
    let ?ns = "InsertInOrder ns0 k0 (f ! n) (of_nat n OR KLeaf)"
    have kn: "k = Suc k0" "ns' = ?ns" using step Suc.prems(2) False by simp_all
    have k0: "k0 < length ns0" using ih Suc.prems(1) by simp
    note C = InsertInOrder_counts [OF k0 ih(3) refl, of "f ! n" "of_nat n OR KLeaf"]
    have "sum_list (counts k0 ns0) = sum_list (take ?l (counts k0 ns0)) + sum_list (drop ?l (counts k0 ns0))"
      by (metis append_take_drop_id sum_list_append)
    then have "sum_list (counts k ns') = (\<Sum>s<Suc n. unat (f ! s))" unfolding kn C(1) using ih(5) by simp
    moreover have "\<exists>s<Suc n. f ! s \<noteq> 0 \<and> iRight (ns' ! i) = of_nat s OR KLeaf \<and> iCount_node (ns' ! i) = f ! s" if "i < k" for i
    proof -
      have i: "i < Suc k0" "i < length ns0" using that kn k0 by simp_all
      have le: "?l \<le> k0" using insert_place_le [of 0 k0 ns0 "f ! n"] by simp
      consider "i < ?l" | "i = ?l" | "?l < i" by linarith
      then show ?thesis
      proof cases
        case 1
        then have "i < k0" "ns' ! i = ns0 ! i" using le InsertInOrder_nth [OF k0 i(2), of "f ! n"] unfolding kn by (simp_all add: Let_def)
        then show ?thesis using ih(4) less_SucI by metis
      next
        case 2
        then show ?thesis using InsertInOrder_nth [OF k0 i(2), of "f ! n"] False unfolding kn by (auto simp: Let_def)
      next
        case 3
        then have "i - 1 < k0" "ns' ! i = ns0 ! (i - 1)" using i InsertInOrder_nth [OF k0 i(2), of "f ! n"] unfolding kn by (simp_all add: Let_def)
        then show ?thesis using ih(4) less_SucI by metis
      qed
    qed
    ultimately show ?thesis using ih kn C(2) by auto
  qed
qed (simp add: sort_codes_def counts_def)

lemma sort_codes_weighted:
  assumes "n = length f" "n \<le> 0x8000" "sort_codes f n (replicate n x) = (k, ns)"
  shows "\<exists>ts. weighted f (\<Sum>s<n. unat (f ! s)) k ns ts"
proof -
  note C = sort_codes_counts [OF _ assms(3)]
  have c: "k \<le> n" "length ns = n" "sorted_wrt (\<ge>) (counts k ns)" "sum_list (counts k ns) = (\<Sum>s<n. unat (f ! s))"
    "\<And>i. i < k \<Longrightarrow> \<exists>s<n. f ! s \<noteq> 0 \<and> iRight (ns ! i) = of_nat s OR KLeaf \<and> iCount_node (ns ! i) = f ! s" using C by auto
  then obtain sy where sy: "\<And>i. i < k \<Longrightarrow> sy i < n \<and> f ! sy i \<noteq> 0 \<and> iRight (ns ! i) = of_nat (sy i) OR KLeaf \<and> iCount_node (ns ! i) = f ! sy i" by metis
  define ts where "ts = map (\<lambda>i. Leaf (sy i)) [0..<k]"
  have cn: "counts k ns = map (weight f) ts"
    by (rule nth_equalityI) (use c(1,2) sy in \<open>auto simp: counts_def ts_def\<close>)
  have "forest k ns ts" using c(1,2) sy assms(2) unfolding forest_def by (auto simp: list_all2_conv_all_nth ts_def dest: order_less_le_trans)
  moreover have "\<forall>t\<in>set ts. heavy f t" using sy by (auto simp: ts_def Suc_le_eq unat_gt_0)
  moreover have "sorted_wrt (matched f) ts" unfolding ts_def by (auto simp: sorted_wrt_map matched_def intro: sorted_wrt_mono_rel [OF _ sorted_wrt_upt])
  ultimately show ?thesis using c(3,4) cn unfolding weighted_def by auto
qed

text \<open>\<open>HuffmanL\<close> does not fail as long as the frequencies add up to less than 832040.\<close>

lemma HuffmanL_succeeds:
  assumes "length f = n" "n \<le> 0x8000" "(\<Sum>s<n. unat (f ! s)) < 832040"
  shows "\<exists>L. HuffmanL f n = Inr L \<and> lengths_for f L"
proof -
  let ?ns = "replicate n \<lparr>iCount_node = 0, iLeft = 0, iRight = 0\<rparr>"
  obtain k ns where r: "sort_codes f n ?ns = (k, ns)" by fastforce
  obtain ts where w: "weighted f (\<Sum>s<n. unat (f ! s)) k ns ts" using sort_codes_weighted [OF assms(1) [symmetric] assms(2) r] by blast
  have "HuffmanL f n \<noteq> Inl (Panic EHuffmanBufferOverflow)"
  proof (cases "2 \<le> k")
    case True
    have k: "k \<le> 0x8000" using sort_codes_counts [OF _ r] assms(2) by auto
    obtain a b where t: "represents 1 (pair_off k ns) 1 (Node a b)" "heavy f (Node a b)" "weight f (Node a b) = (\<Sum>s<n. unat (f ! s))"
      using pair_off_weighted [OF w True k] assms(3) by auto
    have "tree_height (Node a b) \<le> 27"
    proof (rule ccontr)
      assume "\<not> tree_height (Node a b) \<le> 27"
      then have "growth 28 \<le> growth (tree_height (Node a b))" by (intro growth_mono) linarith
      then show False using heavy_weight [OF t(2)] t(3) assms(3) growth_28 by linarith
    qed
    then have "HuffmanLengthsL (replicate n 0) (pair_off k ns) 1 0 = Inr (set_lengths (depths (Node a b) 0) (replicate n 0))"
      using HuffmanLengthsL_tree [OF t(1), of 0 "replicate n 0"] inner_value [of 1] by (simp add: bit_1_iff max_def)
    then show ?thesis using True assms(2) r by (simp add: HuffmanL_def Let_def)
  next
    case False
    then consider "k = 0" | "k = 1" by linarith
    then show ?thesis using assms(2) r by cases (simp_all add: HuffmanL_def Let_def)
  qed
  then show ?thesis using HuffmanL_complete [OF assms(1,2)] by (cases "HuffmanL f n") auto
qed

end
