(* ===== verification/Huffman_Canonical.thy ===== *)
theory Huffman_Canonical
  imports Huffman_Depth
begin

text \<open>
  The canonical code of a table of lengths: \<open>Encoding\<close> gives every symbol the sum of the shares of the
  code space of all symbols in front of it, and \<open>Decoding\<close> builds the tree in which walking along the
  bits of a code leads to its symbol.
\<close>

section \<open>The order of symbols\<close>

text \<open>Symbols of length \<open>l\<close> below \<open>n\<close>; all coded symbols in canonical order\<close>

definition symbols :: "32 word list \<Rightarrow> nat \<Rightarrow> nat \<Rightarrow> nat list" where
  "symbols L l n = filter (\<lambda>s. unat (L ! s) = l) [0..<n]"

definition canon :: "32 word list \<Rightarrow> nat list" where
  "canon L = concat (map (\<lambda>l. symbols L l (length L)) [1..<28])"

text \<open>The number of symbols of length at most \<open>l\<close>; the place of a symbol in the order\<close>

definition cumul :: "32 word list \<Rightarrow> nat \<Rightarrow> nat" where
  "cumul L l = (\<Sum>l'\<leftarrow>[1..<Suc l]. length (symbols L l' (length L)))"

definition place :: "32 word list \<Rightarrow> nat \<Rightarrow> nat" where
  "place L s = cumul L (unat (L ! s) - 1) + length (symbols L (unat (L ! s)) s)"

lemma symbols_Suc: "symbols L l (Suc n) = symbols L l n @ (if unat (L ! n) = l then [n] else [])"
  by (simp add: symbols_def)

lemma cumul_0 [simp]: "cumul L 0 = 0"
  by (simp add: cumul_def)

lemma cumul_Suc: "cumul L (Suc l) = cumul L l + length (symbols L (Suc l) (length L))"
  by (simp add: cumul_def)

lemma upt_split: "a \<le> k \<Longrightarrow> k < n \<Longrightarrow> [a..<n] = [a..<k] @ k # [Suc k..<n]"
  using upt_add_eq_append [of a k "n - k"] by (simp add: upt_conv_Cons)

lemma symbols_nth:
  assumes "s < n" "unat (L ! s) = l"
  shows "symbols L l n ! length (symbols L l s) = s" "length (symbols L l s) < length (symbols L l n)"
proof -
  have "[0..<n] = [0..<s] @ s # [Suc s..<n]" using assms(1) by (intro upt_split) simp_all
  then have "symbols L l n = symbols L l s @ s # filter (\<lambda>s. unat (L ! s) = l) [Suc s..<n]"
    using assms(2) by (simp add: symbols_def)
  then show "symbols L l n ! length (symbols L l s) = s" "length (symbols L l s) < length (symbols L l n)" by simp_all
qed

lemma symbols_take:
  assumes "s < n" "unat (L ! s) = l"
  shows "take (length (symbols L l s)) (symbols L l n) = symbols L l s"
proof -
  have "[0..<n] = [0..<s] @ [s..<n]" using upt_add_eq_append [of 0 s "n - s"] assms(1) by simp
  then have "symbols L l n = symbols L l s @ filter (\<lambda>s. unat (L ! s) = l) [s..<n]" by (simp add: symbols_def)
  then show ?thesis by simp
qed

lemma canon_split:
  assumes "1 \<le> l" "l \<le> 27"
  shows "\<exists>B. canon L = concat (map (\<lambda>l. symbols L l (length L)) [1..<l]) @ symbols L l (length L) @ B \<and>
    length (concat (map (\<lambda>l. symbols L l (length L)) [1..<l])) = cumul L (l - 1)"
proof -
  have "[1..<28] = [1..<l] @ l # [Suc l..<28]"
    using assms by (intro upt_split) simp_all
  then have "canon L = concat (map (\<lambda>l. symbols L l (length L)) [1..<l]) @ symbols L l (length L) @
      concat (map (\<lambda>l. symbols L l (length L)) [Suc l..<28])" by (simp add: canon_def)
  moreover have "length (concat (map (\<lambda>l. symbols L l (length L)) [1..<l])) = cumul L (l - 1)"
    using assms by (simp add: cumul_def length_concat comp_def)
  ultimately show ?thesis by auto
qed

lemma set_canon: "(\<forall>l\<in>set L. unat l \<le> 27) \<Longrightarrow> set (canon L) = {s. s < length L \<and> L ! s \<noteq> 0}"
proof -
  assume le: "\<forall>l\<in>set L. unat l \<le> 27"
  have "unat (L ! s) \<in> {1..<28} \<longleftrightarrow> L ! s \<noteq> 0" if "s < length L" for s
  proof -
    have "unat (L ! s) \<le> 27" using le that by simp
    moreover have "unat (L ! s) = 0 \<longleftrightarrow> L ! s = 0" using unsigned_eq_0_iff [of "L ! s", where 'a = nat] by simp
    ultimately show ?thesis by auto
  qed
  then show ?thesis by (auto simp: canon_def symbols_def)
qed

lemma place_nth:
  assumes "s < length L" "L ! s \<noteq> 0" "unat (L ! s) \<le> 27"
  shows "canon L ! place L s = s \<and> place L s < length (canon L)"
proof -
  have "1 \<le> unat (L ! s)" using assms(2) unsigned_eq_0_iff [of "L ! s", where 'a = nat] by linarith
  then obtain A B where "canon L = A @ symbols L (unat (L ! s)) (length L) @ B" "length A = cumul L (unat (L ! s) - 1)"
    using canon_split [of "unat (L ! s)" L] assms(3) by blast
  then show ?thesis using symbols_nth [OF assms(1) refl, of L] by (simp add: place_def nth_append)
qed

lemma length_canon: "length (canon L) = cumul L 27"
  by (simp add: canon_def cumul_def length_concat comp_def)

lemma distinct_canon: "distinct (canon L)"
proof -
  have "distinct (concat (map (\<lambda>l. symbols L l (length L)) ls))" if "distinct ls" for ls
    using that by (induction ls) (auto simp: symbols_def)
  then show ?thesis by (simp add: canon_def)
qed

section \<open>The encoding\<close>

text \<open>The share of the code space in front of a symbol\<close>

definition code_value :: "32 word list \<Rightarrow> nat \<Rightarrow> nat" where
  "code_value L s = (\<Sum>l\<leftarrow>[1..<unat (L ! s)]. length (symbols L l (length L)) * 2 ^ (27 - l)) +
     length (symbols L (unat (L ! s)) s) * 2 ^ (27 - unat (L ! s))"

lemma word_minus_1:
  assumes "w \<noteq> (0 :: 32 word)" "unat w \<le> 27"
  shows "unat (w - 1) = unat w - 1" "sint (w - 1) = int (unat w - 1)"
proof -
  have "1 \<le> w" using assms(1) unsigned_eq_0_iff [of w, where 'a = nat] by (simp add: word_le_nat_alt)
  then show u: "unat (w - 1) = unat w - 1" by (simp add: unat_sub)
  then have "sint (w - 1) = uint (w - 1)" using assms(2) by (intro sint_small) simp
  moreover have "uint (w - 1) = int (unat (w - 1))" by simp
  ultimately show "sint (w - 1) = int (unat w - 1)" unfolding u by simp
qed

lemma count_lengths_eq:
  assumes "n \<le> length L" "\<forall>l\<in>set L. unat l \<le> 27"
  shows "count_lengths L n = map (\<lambda>i. int (length (symbols L (Suc i) n))) [0..<27]"
  using assms(1)
proof (induction n)
  case (Suc n)
  let ?c = "map (\<lambda>i. int (length (symbols L (Suc i) n))) [0..<27]"
  have le: "unat (L ! n) \<le> 27" using assms(2) Suc.prems by simp
  have "count_lengths L (Suc n) = (let len = sint (L ! n - 1); c = count_lengths L n in if len \<ge> 0 then c[nat len := c ! nat len + 1] else c)"
    by (simp add: count_lengths_def Let_def)
  then have step: "count_lengths L (Suc n) = (let len = sint (L ! n - 1) in if len \<ge> 0 then ?c[nat len := ?c ! nat len + 1] else ?c)"
    using Suc by (simp only: Let_def)
  show ?case
  proof (cases "L ! n = 0")
    case True
    then show ?thesis unfolding step by (simp add: symbols_Suc)
  next
    case False
    then have p: "1 \<le> unat (L ! n)" using unsigned_eq_0_iff [of "L ! n", where 'a = nat] by linarith
    have "count_lengths L (Suc n) = ?c[unat (L ! n) - 1 := ?c ! (unat (L ! n) - 1) + 1]"
      unfolding step using word_minus_1(2) [OF False le] by simp
    also have "\<dots> = map (\<lambda>i. int (length (symbols L (Suc i) (Suc n)))) [0..<27]"
      using p le by (intro nth_equalityI) (auto simp: nth_list_update symbols_Suc)
    finally show ?thesis .
  qed
qed (simp add: count_lengths_def symbols_def map_replicate_const)

text \<open>The first code of each length\<close>

lemma next_codes_eq:
  assumes "\<And>i. i < 27 \<Longrightarrow> c ! i = int (k i)"
  shows "length (next_codes c) = 27 \<and> (\<forall>i<27. next_codes c ! i = of_nat (\<Sum>j\<leftarrow>[0..<i]. k j * 2 ^ (i - j)))"
proof -
  define step where "step ii = (\<lambda>(code, nextCode). let code = push_bit 1 code; nextCode = nextCode[ii := code] in
    (code + word_of_int (c ! ii) :: 32 word, nextCode))" for ii
  define run where "run n = fold step [0..<n] (0, replicate 27 0)" for n
  have run_Suc: "run (Suc n) = step n (run n)" for n by (simp add: run_def)
  have "\<exists>nc. run n = (of_nat (\<Sum>j\<leftarrow>[0..<n]. k j * 2 ^ (n - 1 - j)), nc) \<and> length nc = 27 \<and>
      (\<forall>i<n. nc ! i = of_nat (\<Sum>j\<leftarrow>[0..<i]. k j * 2 ^ (i - j)))" if "n \<le> 27" for n
    using that
  proof (induction n)
    case 0
    then show ?case by (simp add: run_def)
  next
    case (Suc n)
    let ?code = "of_nat (\<Sum>j\<leftarrow>[0..<n]. k j * 2 ^ (n - 1 - j)) :: 32 word"
    obtain nc where ih: "run n = (?code, nc)" "length nc = 27" "\<forall>i<n. nc ! i = of_nat (\<Sum>j\<leftarrow>[0..<i]. k j * 2 ^ (i - j))"
      using Suc by auto
    have double: "2 * (\<Sum>j\<leftarrow>[0..<n]. k j * 2 ^ (n - 1 - j)) = (\<Sum>j\<leftarrow>[0..<n]. k j * 2 ^ (n - j))"
    proof -
      have "2 * (k j * 2 ^ (n - 1 - j)) = k j * 2 ^ (n - j)" if "j < n" for j
      proof -
        have "n - j = Suc (n - 1 - j)" using that by simp
        then show ?thesis by simp
      qed
      then have "map (\<lambda>j. 2 * (k j * 2 ^ (n - 1 - j))) [0..<n] = map (\<lambda>j. k j * 2 ^ (n - j)) [0..<n]" by simp
      then show ?thesis by (metis sum_list_const_mult)
    qed
    have sh: "push_bit 1 ?code = of_nat (\<Sum>j\<leftarrow>[0..<n]. k j * 2 ^ (n - j))"
      unfolding double [symmetric] by (simp add: push_bit_eq_mult mult.commute)
    have "run (Suc n) = (push_bit 1 ?code + of_nat (k n), nc[n := push_bit 1 ?code])"
      unfolding run_Suc ih(1) step_def using assms [of n] Suc.prems by (simp add: Let_def)
    then show ?case
      unfolding sh using ih(2,3) Suc.prems by (auto simp: nth_list_update less_Suc_eq)
  qed
  from this [of 27] show ?thesis by (auto simp: next_codes_def run_def step_def [abs_def])
qed

lemma code_shift:
  assumes "1 \<le> l" "l \<le> 27"
  shows "push_bit (27 - l) (of_nat (\<Sum>j\<leftarrow>[0..<l - 1]. k (Suc j) * 2 ^ (l - 1 - j)) + of_nat b) =
    (of_nat ((\<Sum>j\<leftarrow>[1..<l]. k j * 2 ^ (27 - j)) + b * 2 ^ (27 - l)) :: 32 word)"
proof -
  have "k (Suc j) * 2 ^ (l - 1 - j) * 2 ^ (27 - l) = k (Suc j) * 2 ^ (27 - Suc j)" if "j < l - 1" for j
  proof -
    have "(l - 1 - j) + (27 - l) = 27 - Suc j" using that assms by simp
    then show ?thesis by (metis mult.assoc power_add)
  qed
  then have "map (\<lambda>j. k (Suc j) * 2 ^ (l - 1 - j) * 2 ^ (27 - l)) [0..<l - 1] = map (\<lambda>j. k (Suc j) * 2 ^ (27 - Suc j)) [0..<l - 1]" by simp
  then have "(\<Sum>j\<leftarrow>[0..<l - 1]. k (Suc j) * 2 ^ (l - 1 - j)) * 2 ^ (27 - l) = (\<Sum>j\<leftarrow>[0..<l - 1]. k (Suc j) * 2 ^ (27 - Suc j))"
    unfolding sum_list_mult_const [symmetric] by (rule arg_cong)
  also have "\<dots> = (\<Sum>j\<leftarrow>map Suc [0..<l - 1]. k j * 2 ^ (27 - j))" by (simp add: comp_def)
  also have "map Suc [0..<l - 1] = [1..<l]" using assms by (simp add: map_Suc_upt)
  finally have e: "((\<Sum>j\<leftarrow>[0..<l - 1]. k (Suc j) * 2 ^ (l - 1 - j)) + b) * 2 ^ (27 - l) = (\<Sum>j\<leftarrow>[1..<l]. k j * 2 ^ (27 - j)) + b * 2 ^ (27 - l)"
    by (simp add: add_mult_distrib)
  have pb: "push_bit (27 - l) (of_nat x) = (of_nat (x * 2 ^ (27 - l)) :: 32 word)" for x :: nat by (simp add: push_bit_eq_mult)
  show ?thesis unfolding of_nat_add [symmetric] pb e ..
qed

lemma Encoding_nth:
  assumes "complete L"
  shows "\<exists>T. Encoding L (length L) = Inr T \<and> length T = length L \<and>
    (\<forall>s<length L. T ! s = (if L ! s = 0 then 0 else of_nat (code_value L s) OR push_bit 27 (L ! s)))"
proof -
  let ?n = "length L"
  have le: "\<forall>l\<in>set L. unat l \<le> 27" using assms by (simp add: complete_def)
  let ?first = "\<lambda>i. of_nat (\<Sum>j\<leftarrow>[0..<i]. length (symbols L (Suc j) ?n) * 2 ^ (i - j)) :: 32 word"
  let ?nc = "next_codes (count_lengths L ?n)"
  have first: "?nc ! i = ?first i" if "i < 27" for i
    using next_codes_eq [of "count_lengths L ?n" "\<lambda>i. length (symbols L (Suc i) ?n)"] that by (simp add: count_lengths_eq [OF _ le])
  have len: "length ?nc = 27"
    using next_codes_eq [of "count_lengths L ?n" "\<lambda>i. length (symbols L (Suc i) ?n)"] by (simp add: count_lengths_eq [OF _ le])
  define step where "step ii = (\<lambda>(nextCode, aEncodeTable).
       let len = L ! ii
       in if len = 0 then (nextCode, aEncodeTable[ii := 0])
       else let i = unat (len - 1)
       in (nextCode[i := nextCode ! i + 1],
           aEncodeTable[ii := push_bit (27 - unat len) (nextCode ! i) OR push_bit KMaxCodeLength len]))" for ii
  define go where "go n = fold step [0..<n] (?nc, L)" for n
  have go_Suc: "go (Suc n) = step n (go n)" for n by (simp add: go_def)
  have run: "\<exists>nc T. go n = (nc, T) \<and> length nc = 27 \<and> length T = ?n \<and>
      (\<forall>i<27. nc ! i = ?first i + of_nat (length (symbols L (Suc i) n))) \<and>
      (\<forall>s<n. T ! s = (if L ! s = 0 then 0 else of_nat (code_value L s) OR push_bit 27 (L ! s)))" if "n \<le> ?n" for n
    using that
  proof (induction n)
    case 0
    then show ?case using first len by (simp add: symbols_def go_def)
  next
    case (Suc n)
    then obtain nc T where r: "go n = (nc, T)" "length nc = 27" "length T = ?n"
      "\<And>i. i < 27 \<Longrightarrow> nc ! i = ?first i + of_nat (length (symbols L (Suc i) n))"
      "\<And>s. s < n \<Longrightarrow> T ! s = (if L ! s = 0 then 0 else of_nat (code_value L s) OR push_bit 27 (L ! s))" by auto
    show ?case
    proof (cases "L ! n = 0")
      case True
      then have "go (Suc n) = (nc, T[n := 0])" by (simp add: go_Suc r(1) step_def)
      then show ?thesis using True r(2-) Suc.prems by (auto simp: symbols_Suc nth_list_update less_Suc_eq)
    next
      case False
      let ?l = "unat (L ! n)"
      have l: "?l \<le> 27" "1 \<le> ?l" "unat (L ! n - 1) = ?l - 1" "Suc (?l - 1) = ?l"
        using le Suc.prems False unsigned_eq_0_iff [of "L ! n", where 'a = nat] word_minus_1(1) [OF False] by auto
      have "nc ! (?l - 1) = ?first (?l - 1) + of_nat (length (symbols L ?l n))" using r(4) [of "?l - 1"] l by simp
      then have "push_bit (27 - ?l) (nc ! (?l - 1)) = of_nat (code_value L n)"
        unfolding code_value_def using code_shift [OF l(2,1), of "\<lambda>l. length (symbols L l ?n)"] by simp
      then have "go (Suc n) = (nc[?l - 1 := nc ! (?l - 1) + 1], T[n := of_nat (code_value L n) OR push_bit 27 (L ! n)])"
        using False l(3) by (simp add: go_Suc r(1) step_def Let_def)
      then show ?thesis
        using False r(2-) Suc.prems l by (auto simp: symbols_Suc nth_list_update less_Suc_eq)
    qed
  qed
  from this [of ?n] show ?thesis using complete_valid [OF assms refl] by (auto simp: Encoding_def go_def step_def [abs_def])
qed

section \<open>Places and values of codes\<close>

text \<open>The length and the value of the code at a place of the order\<close>

definition place_length :: "32 word list \<Rightarrow> nat \<Rightarrow> nat" where
  "place_length L j = unat (L ! (canon L ! j))"

definition place_value :: "32 word list \<Rightarrow> nat \<Rightarrow> nat" where
  "place_value L j = sum_list (map (\<lambda>s. share (L ! s)) (take j (canon L)))"

lemma canon_nth:
  assumes "\<forall>l\<in>set L. unat l \<le> 27" "j < length (canon L)"
  shows "canon L ! j < length L" "L ! (canon L ! j) \<noteq> 0" "1 \<le> place_length L j" "place_length L j \<le> 27" "place L (canon L ! j) = j"
proof -
  have m: "canon L ! j \<in> set (canon L)" using assms(2) by simp
  then show s: "canon L ! j < length L" "L ! (canon L ! j) \<noteq> 0" by (auto simp: set_canon [OF assms(1)])
  show "place_length L j \<le> 27" using assms(1) s(1) by (simp add: place_length_def)
  show "1 \<le> place_length L j" using s(2) unsigned_eq_0_iff [of "L ! (canon L ! j)", where 'a = nat] by (simp add: place_length_def)
  have "unat (L ! (canon L ! j)) \<le> 27" using assms(1) s(1) by simp
  then show "place L (canon L ! j) = j"
    using place_nth [OF s] assms(2) nth_eq_iff_index_eq [OF distinct_canon, of "place L (canon L ! j)" L j] by simp
qed

lemma cumul_mono: "l \<le> l' \<Longrightarrow> cumul L l \<le> cumul L l'"
  by (rule lift_Suc_mono_le) (simp_all add: cumul_Suc)

lemma cumul_place:
  assumes "\<forall>l\<in>set L. unat l \<le> 27" "j < length (canon L)"
  shows "j < cumul L l \<longleftrightarrow> place_length L j \<le> l"
proof -
  let ?l = "place_length L j" and ?s = "canon L ! j"
  note c = canon_nth [OF assms]
  have "j = cumul L (?l - 1) + length (symbols L ?l ?s)" using c(5) by (simp add: place_def place_length_def)
  moreover have "length (symbols L ?l ?s) < length (symbols L ?l (length L))"
    using symbols_nth(2) [OF c(1)] by (simp add: place_length_def)
  ultimately have lo: "cumul L (?l - 1) \<le> j" and hi: "j < cumul L ?l" using cumul_Suc [of L "?l - 1"] c(3) by simp_all
  show ?thesis
  proof
    assume "j < cumul L l"
    then have "\<not> cumul L l \<le> cumul L (?l - 1)" using lo by simp
    then show "?l \<le> l" using cumul_mono [of l "?l - 1" L] by linarith
  next
    assume "?l \<le> l"
    then show "j < cumul L l" using hi cumul_mono [of ?l l L] by simp
  qed
qed

lemma place_length_mono:
  "\<forall>l\<in>set L. unat l \<le> 27 \<Longrightarrow> i \<le> j \<Longrightarrow> j < length (canon L) \<Longrightarrow> place_length L i \<le> place_length L j"
  using cumul_place [of L j "place_length L j"] cumul_place [of L i "place_length L j"] by simp

lemma place_value_Suc:
  assumes "\<forall>l\<in>set L. unat l \<le> 27" "j < length (canon L)"
  shows "place_value L (Suc j) = place_value L j + 2 ^ (27 - place_length L j)"
  using assms(2) canon_nth(2) [OF assms] by (simp add: place_value_def take_Suc_conv_app_nth share_def place_length_def)

lemma place_value_less:
  assumes "\<forall>l\<in>set L. unat l \<le> 27" "j' \<le> length (canon L)"
  shows "j < j' \<Longrightarrow> place_value L j < place_value L j'"
  using assms(2)
proof (induction j')
  case (Suc j')
  have "place_value L j' < place_value L (Suc j')" using place_value_Suc [OF assms(1), of j'] Suc.prems by simp
  moreover have "j < j' \<or> j = j'" using Suc.prems by auto
  ultimately show ?case using Suc by auto
qed simp

lemma place_value_mono:
  "\<forall>l\<in>set L. unat l \<le> 27 \<Longrightarrow> j' \<le> length (canon L) \<Longrightarrow> j \<le> j' \<Longrightarrow> place_value L j \<le> place_value L j'"
  using place_value_less by (metis le_less order_refl)

lemma code_value_place:
  assumes "\<forall>l\<in>set L. unat l \<le> 27" "s < length L" "L ! s \<noteq> 0"
  shows "code_value L s = place_value L (place L s)"
proof -
  let ?l = "unat (L ! s)"
  have l: "1 \<le> ?l" "?l \<le> 27" using assms unsigned_eq_0_iff [of "L ! s", where 'a = nat] by (auto simp: Suc_le_eq)
  define A where "A = concat (map (\<lambda>l. symbols L l (length L)) [1..<?l])"
  obtain B where B: "canon L = A @ symbols L ?l (length L) @ B" "length A = cumul L (?l - 1)" using canon_split [OF l, of L] A_def by blast
  have "take (place L s) (canon L) = A @ symbols L ?l s"
    using symbols_take [OF assms(2) refl, of L] symbols_nth(2) [OF assms(2) refl, of L] using B(2) by (simp add: B(1) place_def)
  moreover have sym: "sum_list (map (\<lambda>s. share (L ! s)) (symbols L l n)) = length (symbols L l n) * 2 ^ (27 - l)" if "1 \<le> l" for l n
  proof -
    have "share (L ! s) = 2 ^ (27 - l)" if "s \<in> set (symbols L l n)" for s
      using that \<open>1 \<le> l\<close> by (auto simp: symbols_def share_def)
    then have "map (\<lambda>s. share (L ! s)) (symbols L l n) = map (\<lambda>_. 2 ^ (27 - l)) (symbols L l n)" by simp
    then show ?thesis by (simp add: sum_list_triv del: map_eq_conv)
  qed
  moreover have "sum_list (map (\<lambda>s. share (L ! s)) (concat (map (\<lambda>l. symbols L l (length L)) ls))) =
      (\<Sum>l\<leftarrow>ls. length (symbols L l (length L)) * 2 ^ (27 - l))" if "\<forall>l\<in>set ls. 1 \<le> l" for ls
    using that by (induction ls) (simp_all add: sym)
  ultimately show ?thesis using l(1) by (simp add: place_value_def code_value_def A_def)
qed

lemma place_value_all: "\<forall>l\<in>set L. unat l \<le> 27 \<Longrightarrow> place_value L (length (canon L)) = sum_list (map share L)"
proof -
  assume le: "\<forall>l\<in>set L. unat l \<le> 27"
  have "place_value L (length (canon L)) = sum (\<lambda>s. share (L ! s)) (set (canon L))"
    by (simp add: place_value_def sum_list_distinct_conv_sum_set distinct_canon)
  also have "\<dots> = sum (\<lambda>s. share (L ! s)) {..<length L}"
    unfolding set_canon [OF le] by (rule sum.mono_neutral_left) (auto simp: share_def)
  also have "\<dots> = sum_list (map share L)" by (simp add: sum_list_sum_nth atLeast0LessThan)
  finally show "place_value L (length (canon L)) = sum_list (map share L)" .
qed

end
