(* ===== verification/Huffman_Decode.thy ===== *)
theory Huffman_Decode
  imports Huffman_Canonical
begin

text \<open>
  The decoding tree: \<open>Decoding\<close> writes the tree of the canonical code over the table of lengths, and
  \<open>TBitInput::HuffmanL\<close> finds in it the symbol of every code that \<open>Encoding\<close> gave.
\<close>

section \<open>Walking a tree\<close>

fun walk :: "htree \<Rightarrow> bool list \<Rightarrow> (nat \<times> bool list) option" where
  "walk (Leaf s) bs = Some (s, bs)"
| "walk (Node l r) [] = None"
| "walk (Node l r) (b # bs) = walk (if b then r else l) bs"

definition lo_half :: "32 word \<Rightarrow> nat" where
  "lo_half w = unat w mod 65536"

definition hi_half :: "32 word \<Rightarrow> nat" where
  "hi_half w = unat (drop_bit 16 w)"

text \<open>
  \<open>half a b arr p h t\<close>: the half word \<open>h\<close> of the entry at \<open>p\<close> leads to \<open>t\<close>; a leaf is an odd number, a
  branch an offset in bytes to an entry between \<open>a\<close> and \<open>b\<close>.
\<close>

primrec half :: "nat \<Rightarrow> nat \<Rightarrow> 32 word list \<Rightarrow> nat \<Rightarrow> nat \<Rightarrow> htree \<Rightarrow> bool" where
  "half a b arr p h (Leaf s) \<longleftrightarrow> h = 2 * s + 1"
| "half a b arr p h (Node l r) \<longleftrightarrow> h mod 4 = 0 \<and> (let q = p + h div 4 in a \<le> q \<and> q < b \<and>
     half a b arr q (lo_half (arr ! q)) l \<and> half a b arr q (hi_half (arr ! q)) r)"

lemma half_mono:
  "half a b arr p h t \<Longrightarrow> a' \<le> a \<Longrightarrow> b \<le> b' \<Longrightarrow> (\<And>q. a \<le> q \<Longrightarrow> q < b \<Longrightarrow> arr' ! q = arr ! q) \<Longrightarrow> half a' b' arr' p h t"
  by (induction t arbitrary: p h) (auto simp: Let_def)

lemma half_node:
  "a \<le> p \<Longrightarrow> p < b \<Longrightarrow> lo_half (arr ! p) = x \<Longrightarrow> hi_half (arr ! p) = y \<Longrightarrow> half a b arr p x l \<Longrightarrow> half a b arr p y r \<Longrightarrow>
    half a b arr p 0 (Node l r)"
  by simp

lemma half_move: "half a b arr (p + k) 0 (Node l r) \<Longrightarrow> half a b arr p (4 * k) (Node l r)"
  by (simp add: Let_def)

lemma lo_half_push: "unat (drop_bit 16 (push_bit 16 w)) = lo_half w"
proof -
  have "drop_bit 16 (push_bit 16 w) = take_bit 16 w" by (rule bit_word_eqI) (auto simp: bit_simps)
  moreover have "unat (take_bit 16 w) = take_bit 16 (unat w)" by (simp add: unsigned_take_bit_eq)
  ultimately show ?thesis using take_bit_eq_mod [of 16 "unat w"] by (simp add: lo_half_def)
qed

lemma and_10000: "w AND 0x10000 = 0 \<longleftrightarrow> even (hi_half (w :: 32 word))"
proof -
  have "(0x10000 :: 32 word) = push_bit 16 1" by simp
  then have "(w AND 0x10000 \<noteq> 0) = bit w 16" by (metis bit_iff_and_push_bit_not_eq_0)
  moreover have "bit w 16 = bit (drop_bit 16 w) 0" by (simp add: bit_simps)
  moreover have "\<dots> = odd (unat (drop_bit 16 w))" using bit_iff_odd [of "unat (drop_bit 16 w)" 0] by (simp add: bit_unsigned_iff)
  ultimately show ?thesis by (simp add: hi_half_def)
qed

lemma leaf_symbol:
  assumes "hi_half w = 2 * x + 1"
  shows "drop_bit 17 w = of_nat x"
proof -
  have "drop_bit 17 w = drop_bit 1 (drop_bit 16 w)" by simp
  then have "unat (drop_bit 17 w) = drop_bit 1 (hi_half w)" unfolding hi_half_def by (simp only: unat_drop_bit_eq)
  also have "\<dots> = x" using assms by (simp add: drop_bit_Suc)
  finally have "(of_nat (unat (drop_bit 17 w)) :: 32 word) = of_nat x" by (simp only:)
  then show ?thesis by simp
qed

lemma lo_half_take: "lo_half w = unat (take_bit 16 w)"
  using take_bit_eq_mod [of 16 "unat w"] by (simp add: lo_half_def unsigned_take_bit_eq)

lemma small_drop: "x < 65536 \<Longrightarrow> drop_bit 16 (of_nat x :: 32 word) = 0" "x < 65536 \<Longrightarrow> take_bit 16 (of_nat x :: 32 word) = of_nat x"
proof -
  assume x: "x < 65536"
  then have u: "unat (of_nat x :: 32 word) = x" by (simp add: unat_of_nat)
  have "unat (drop_bit 16 (of_nat x :: 32 word)) = 0" unfolding unat_drop_bit_eq u using x by (simp add: drop_bit_eq_div)
  then show "drop_bit 16 (of_nat x :: 32 word) = 0" by (simp only: unsigned_eq_0_iff)
  show "take_bit 16 (of_nat x :: 32 word) = of_nat x" using x by (simp only: take_bit_of_nat) (simp add: take_bit_nat_eq_self)
qed

lemma mod_4_even: "n mod 4 = 0 \<Longrightarrow> even (n :: nat)"
  by presburger

lemma huffman_loop_walk:
  assumes "half a b arr p (hi_half huff) (Node l r)" "b \<le> length arr" "walk (Node l r) bs = Some (sy, rest)" "in_ok s" "in_bits m s = bs"
  shows "\<exists>s'. huffman_loop m arr (4 * p) huff s = Inr (of_nat sy, s') \<and> in_ok s' \<and> in_bits m s' = rest"
  using assms
proof (induction bs arbitrary: p huff l r s)
  case (Cons b' bs)
  let ?q = "p + hi_half huff div 4" and ?t = "if b' then r else l"
  have q: "hi_half huff mod 4 = 0" "?q < b" "half a b arr ?q (lo_half (arr ! ?q)) l" "half a b arr ?q (hi_half (arr ! ?q)) r"
    using Cons.prems(1) by (simp_all add: Let_def)
  obtain s1 where s1: "ReadL_bit m s = Inr (of_bool b', s1)" "in_ok s1" "in_bits m s1 = bs"
    using ReadL_bit_spec [OF Cons.prems(4,5)] by blast
  let ?h = "if b' then arr ! ?q else push_bit 16 (arr ! ?q)"
  have addr: "4 * p + unat (drop_bit 16 huff) = 4 * ?q" using q(1) mult_div_mod_eq [of 4 "hi_half huff"] by (simp add: hi_half_def)
  have run: "huffman_loop m arr (4 * p) huff s = (if even (hi_half ?h) then huffman_loop m arr (4 * ?q) ?h s1 else Inr (drop_bit 17 ?h, s1))"
    using q(2) Cons.prems(2) s1(1) by (subst huffman_loop.simps) (simp add: Let_def addr and_10000)
  have h: "half a b arr ?q (hi_half ?h) ?t" using q(3,4) lo_half_push [of "arr ! ?q"] by (simp add: hi_half_def)
  have w: "walk ?t bs = Some (sy, rest)" using Cons.prems(3) by simp
  show ?case
  proof (cases ?t)
    case (Leaf x)
    then have v: "hi_half ?h = 2 * x + 1" using h by (simp only: half.simps)
    then have "drop_bit 17 ?h = of_nat x" by (rule leaf_symbol)
    then show ?thesis using run v w Leaf s1 by simp
  next
    case (Node l' r')
    then have "hi_half ?h mod 4 = 0" using h by simp
    then have "even (hi_half ?h)" by (rule mod_4_even)
    then show ?thesis using Cons.IH [of ?q ?h l' r' s1] h w s1 Cons.prems(2) run unfolding Node by simp
  qed
qed simp

text \<open>On any input the walk stays in the tree: it ends at a leaf or the input is exhausted.\<close>

lemma read_loop_fails: "read_loop m val bits n s = Inl e \<Longrightarrow> e = Panic EHuffmanBufferOverflow"
proof (induction m val bits n s rule: read_loop.induct)
  case (1 m val bits n s)
  show ?case
  proof (cases "iCount s < 0 \<and> 0 < iRemain s")
    case True
    then show ?thesis using "1.IH" [OF _ refl refl _ refl refl refl] "1.prems" by (subst (asm) (2) read_loop.simps) (auto simp: Let_def)
  next
    case False
    then show ?thesis using "1.prems" by (subst (asm) read_loop.simps) (auto split: if_splits)
  qed
qed

lemma ReadL_fails: "ReadL m n s = Inl e \<Longrightarrow> e = Panic EHuffmanBufferOverflow"
  by (auto simp: ReadL_def split: if_splits dest: read_loop_fails)

lemma ReadL_bit_fails: "ReadL_bit m s = Inl e \<Longrightarrow> e = Panic EHuffmanBufferOverflow"
  by (auto simp: ReadL_bit_def Let_def split: if_splits dest: ReadL_fails)

lemma huffman_loop_step:
  assumes "hi_half huff mod 4 = 0" "q = p + hi_half huff div 4" "q < length arr"
  shows "huffman_loop m arr (4 * p) huff s = (case ReadL_bit m s of Inl e \<Rightarrow> Inl e
    | Inr (b, s) \<Rightarrow> let h = (if b = 0 then push_bit 16 (arr ! q) else arr ! q)
        in if even (hi_half h) then huffman_loop m arr (4 * q) h s else Inr (drop_bit 17 h, s))"
proof -
  have "4 * p + unat (drop_bit 16 huff) = 4 * q" using assms(1,2) mult_div_mod_eq [of 4 "hi_half huff"] by (simp add: hi_half_def)
  then show ?thesis using assms(3) by (subst huffman_loop.simps) (simp add: Let_def and_10000 split: sum.split)
qed

lemma huffman_loop_safe:
  assumes "half a b arr p (hi_half huff) (Node l r)" "b \<le> length arr"
  shows "case huffman_loop m arr (4 * p) huff s of Inl e \<Rightarrow> e = Panic EHuffmanBufferOverflow
    | Inr (v, s') \<Rightarrow> \<exists>x\<in>set (leaves (Node l r)). v = of_nat x"
  using assms
proof (induction "Node l r" arbitrary: l r p huff s)
  case (Node l r)
  let ?q = "p + hi_half huff div 4"
  have q: "hi_half huff mod 4 = 0" "?q < b" "half a b arr ?q (lo_half (arr ! ?q)) l" "half a b arr ?q (hi_half (arr ! ?q)) r"
    using Node.prems(1) by (simp_all add: Let_def)
  note run = huffman_loop_step [OF q(1), of ?q p arr m s]
  show ?case
  proof (cases "ReadL_bit m s")
    case (Inl e)
    then show ?thesis using run q(2) Node.prems(2) ReadL_bit_fails [OF Inl] by simp
  next
    case (Inr bs)
    obtain b' s1 where bs: "bs = (b', s1)" by fastforce
    let ?h = "if b' = 0 then push_bit 16 (arr ! ?q) else arr ! ?q" and ?t = "if b' = 0 then l else r"
    have h: "half a b arr ?q (hi_half ?h) ?t" using q(3,4) lo_half_push [of "arr ! ?q"] by (simp add: hi_half_def)
    have run': "huffman_loop m arr (4 * p) huff s = (if even (hi_half ?h) then huffman_loop m arr (4 * ?q) ?h s1 else Inr (drop_bit 17 ?h, s1))"
      using run q(2) Node.prems(2) Inr bs by (simp add: Let_def)
    show ?thesis
    proof (cases ?t)
      case (Leaf x)
      then have v: "hi_half ?h = 2 * x + 1" using h by (simp only: half.simps)
      have x: "x \<in> set (leaves (Node l r))" using Leaf by (auto split: if_splits)
      from v have "huffman_loop m arr (4 * p) huff s = Inr (of_nat x, s1)" using run' leaf_symbol [OF v] by simp
      then show ?thesis using x by auto
    next
      case (Node l' r')
      then have "hi_half ?h mod 4 = 0" using h by simp
      then have e: "even (hi_half ?h)" by (rule mod_4_even)
      have sub: "set (leaves (Node l' r')) \<subseteq> set (leaves (Node l r))" using Node by (auto split: if_splits)
      have "case huffman_loop m arr (4 * ?q) ?h s1 of Inl e \<Rightarrow> e = Panic EHuffmanBufferOverflow
          | Inr (v, s') \<Rightarrow> \<exists>x\<in>set (leaves (Node l' r')). v = of_nat x"
      proof (cases "b' = 0")
        case True
        then have "l = Node l' r'" using Node by simp
        from Node.hyps(1) [OF this _ Node.prems(2), of ?q ?h s1] show ?thesis using h Node by simp
      next
        case False
        then have "r = Node l' r'" using Node by simp
        from Node.hyps(2) [OF this _ Node.prems(2), of ?q ?h s1] show ?thesis using h Node by simp
      qed
      then show ?thesis using run' e sub by (auto split: sum.splits)
    qed
  qed
qed

section \<open>Building the tree\<close>

text \<open>The bits of a left-aligned code from depth \<open>d\<close> to its length\<close>

definition path_bits :: "nat \<Rightarrow> nat \<Rightarrow> nat \<Rightarrow> bool list" where
  "path_bits d l x = map (\<lambda>i. bit x (26 - i)) [d..<l]"

lemma path_bits_Cons: "d < l \<Longrightarrow> path_bits d l x = bit x (26 - d) # path_bits (Suc d) l x"
  by (simp add: path_bits_def upt_conv_Cons)

lemma path_bits_self [simp]: "path_bits l l x = []"
  by (simp add: path_bits_def)

lemma bit_low:
  assumes "2 ^ Suc k dvd K" "K \<le> x" "x < K + 2 ^ k"
  shows "\<not> bit (x :: nat) k"
proof -
  obtain c where c: "K = 2 ^ Suc k * c" using assms(1) by (rule dvdE)
  have "x div 2 ^ k = 2 * c"
  proof (rule div_nat_eqI)
    show "2 ^ k * (2 * c) \<le> x" using assms(2) c by (simp add: ac_simps)
    show "x < 2 ^ k * Suc (2 * c)" using assms(3) c by (simp add: ac_simps)
  qed
  then show ?thesis by (simp add: bit_iff_odd)
qed

lemma bit_high:
  assumes "2 ^ Suc k dvd K" "K + 2 ^ k \<le> x" "x < K + 2 ^ Suc k"
  shows "bit (x :: nat) k"
proof -
  obtain c where c: "K = 2 ^ Suc k * c" using assms(1) by (rule dvdE)
  have "x div 2 ^ k = Suc (2 * c)"
  proof (rule div_nat_eqI)
    show "2 ^ k * Suc (2 * c) \<le> x" using assms(2) c by (simp add: ac_simps)
    show "x < 2 ^ k * Suc (Suc (2 * c))" using assms(3) c by (simp add: ac_simps)
  qed
  then show ?thesis by (simp add: bit_iff_odd)
qed

lemma branch_word:
  assumes "x < 65536"
  shows "lo_half (0x40000 OR of_nat x) = x" "hi_half (0x40000 OR of_nat x) = 4"
  using small_drop [OF assms] assms by (simp_all add: lo_half_take hi_half_def unat_of_nat)

lemma leaf_words:
  "lo_half (push_bit 16 (drop_bit 16 a) OR drop_bit 16 b) = hi_half b" "hi_half (push_bit 16 (drop_bit 16 a) OR drop_bit 16 b) = hi_half a"
proof -
  have "take_bit 16 (push_bit 16 (drop_bit 16 a) OR drop_bit 16 b) = drop_bit 16 b"
    "drop_bit 16 (push_bit 16 (drop_bit 16 a) OR drop_bit 16 b) = drop_bit 16 a"
    by (rule bit_word_eqI; auto simp: bit_simps dest: bit_imp_le_length)+
  then show "lo_half (push_bit 16 (drop_bit 16 a) OR drop_bit 16 b) = hi_half b"
    "hi_half (push_bit 16 (drop_bit 16 a) OR drop_bit 16 b) = hi_half a" unfolding lo_half_take hi_half_def by simp_all
qed

text \<open>
  \<open>subtree_ok L base P i d tree n t tree'\<close>: the subtree at depth \<open>d\<close> takes the \<open>n\<close> codes from place \<open>i\<close> on
  and has been written below \<open>P\<close>.
\<close>

definition subtree_ok :: "32 word list \<Rightarrow> nat \<Rightarrow> nat \<Rightarrow> nat \<Rightarrow> nat \<Rightarrow> 32 word list \<Rightarrow> nat \<Rightarrow> htree \<Rightarrow> 32 word list \<Rightarrow> bool" where
  "subtree_ok L base P i d tree n t tree' \<longleftrightarrow> 2 \<le> n \<and> i + n \<le> length (canon L) \<and>
     place_value L (i + n) = place_value L i + 2 ^ (27 - d) \<and> length tree' = length tree \<and>
     (\<forall>p. p < P + 1 - n \<or> P \<le> p \<longrightarrow> tree' ! p = tree ! p) \<and> half (P + 1 - n) P tree' (P + 1 - n) 0 t \<and> (\<exists>l r. t = Node l r) \<and>
     set (leaves t) \<subseteq> (\<lambda>j. canon L ! j + base) ` {i..<i + n} \<and>
     (\<forall>j rest. i \<le> j \<and> j < i + n \<longrightarrow>
        walk t (path_bits d (place_length L j) (place_value L j) @ rest) = Some (canon L ! j + base, rest))"

lemma subtree_okI:
  assumes "2 \<le> n" "i + n \<le> length (canon L)" "place_value L (i + n) = place_value L i + 2 ^ (27 - d)" "length tree' = length tree"
    "\<And>p. p < P + 1 - n \<or> P \<le> p \<Longrightarrow> tree' ! p = tree ! p" "half (P + 1 - n) P tree' (P + 1 - n) 0 (Node l r)"
    "set (leaves (Node l r)) \<subseteq> (\<lambda>j. canon L ! j + base) ` {i..<i + n}"
    "\<And>j rest. i \<le> j \<Longrightarrow> j < i + n \<Longrightarrow>
        walk (Node l r) (path_bits d (place_length L j) (place_value L j) @ rest) = Some (canon L ! j + base, rest)"
  shows "subtree_ok L base P i d tree n (Node l r) tree'"
  unfolding subtree_ok_def using assms by blast

lemma pow_Suc_27: "d < 27 \<Longrightarrow> 2 ^ (27 - d) = 2 * (2 ^ (26 - d) :: nat)" "d < 27 \<Longrightarrow> 27 - Suc d = 26 - d" "d < 27 \<Longrightarrow> Suc (26 - d) = 27 - d"
proof -
  assume "d < 27"
  then show "Suc (26 - d) = 27 - d" "27 - Suc d = 26 - d" by simp_all
  then show "2 ^ (27 - d) = 2 * (2 ^ (26 - d) :: nat)" by (metis power_Suc)
qed

lemma path_left:
  assumes "d < 27" "2 ^ (27 - d) dvd place_value L i" "d < place_length L j" "place_value L i \<le> place_value L j"
    "place_value L j < place_value L i + 2 ^ (26 - d)"
  shows "path_bits d (place_length L j) (place_value L j) = False # path_bits (Suc d) (place_length L j) (place_value L j)"
  using bit_low [of "26 - d" "place_value L i" "place_value L j"] assms pow_Suc_27 [OF assms(1)] by (simp add: path_bits_Cons)

lemma path_right:
  assumes "d < 27" "2 ^ (27 - d) dvd place_value L i" "d < place_length L j" "place_value L i + 2 ^ (26 - d) \<le> place_value L j"
    "place_value L j < place_value L i + 2 ^ (27 - d)"
  shows "path_bits d (place_length L j) (place_value L j) = True # path_bits (Suc d) (place_length L j) (place_value L j)"
  using bit_high [of "26 - d" "place_value L i" "place_value L j"] assms pow_Suc_27 [OF assms(1)] by (simp add: path_bits_Cons)

lemma subtree_both:
  assumes le: "\<forall>l\<in>set L. unat l \<le> 27"
    and s0: "subtree_ok L base P i (Suc d) tree n0 t0 tree0" and s1: "subtree_ok L base (P + 1 - n0) (i + n0) (Suc d) tree0 n1 t1 tree1"
    and d: "d < 27" "2 ^ (27 - d) dvd place_value L i" "\<forall>j. i \<le> j \<and> j < length (canon L) \<longrightarrow> d < place_length L j"
    and P: "n0 + n1 \<le> P + 1" "P \<le> length tree" and N: "length (canon L) < 2 ^ 14"
  shows "subtree_ok L base P i d tree (n0 + n1) (Node t0 t1) (tree1[P + 1 - (n0 + n1) := 0x40000 OR of_nat (4 * n1)])"
proof -
  let ?q = "P + 1 - (n0 + n1)" and ?tree = "tree1[P + 1 - (n0 + n1) := 0x40000 OR of_nat (4 * n1)]" and ?pv = "place_value L"
  note S0 = s0 [unfolded subtree_ok_def] and S1 = s1 [unfolded subtree_ok_def]
  have n: "2 \<le> n0" "2 \<le> n1" "i + n0 + n1 \<le> length (canon L)" using S0 S1 by auto
  have q: "?q < P" "?q + 1 = P + 1 - n0 + 1 - n1" "P + 1 - n0 = ?q + n1" using P n by auto
  have pv: "?pv (i + n0) = ?pv i + 2 ^ (26 - d)" "?pv (i + (n0 + n1)) = ?pv i + 2 ^ (27 - d)"
    using S0 S1 pow_Suc_27 [OF d(1)] by (simp_all add: add.assoc)
  have len: "length tree1 = length tree" using S0 S1 by simp
  have w: "?tree ! ?q = 0x40000 OR of_nat (4 * n1)" using q(1) P(2) len by simp
  have keep: "?tree ! p = tree1 ! p" if "p \<noteq> ?q" for p using that by simp
  have h1: "half ?q P ?tree ?q 4 t1"
  proof -
    obtain l r where t1: "t1 = Node l r" using S1 by blast
    have "half (?q + 1) (P + 1 - n0) tree1 (?q + 1) 0 t1" using S1 q(2) by simp
    then have "half ?q P ?tree (?q + 1) 0 t1" by (rule half_mono) (use keep n q in auto)
    then show ?thesis using half_move [of ?q P ?tree ?q 1 l r] t1 by simp
  qed
  have h0: "half ?q P ?tree ?q (4 * n1) t0"
  proof -
    obtain l r where t0: "t0 = Node l r" using S0 by blast
    have "half (P + 1 - n0) P tree0 (P + 1 - n0) 0 t0" using S0 by simp
    then have "half ?q P ?tree (?q + n1) 0 t0" unfolding q(3) by (rule half_mono) (use S1 keep n q in auto)
    then show ?thesis using half_move [of ?q P ?tree ?q n1 l r] t0 by simp
  qed
  have "4 * n1 < 65536" using n N by simp
  note bw = branch_word [OF this]
  have "lo_half (?tree ! ?q) = 4 * n1" "hi_half (?tree ! ?q) = 4" unfolding w by (rule bw)+
  then have hf: "half ?q P ?tree ?q 0 (Node t0 t1)" by (rule half_node [OF order_refl q(1) _ _ h0 h1])
  have walk: "walk (Node t0 t1) (path_bits d (place_length L j) (?pv j) @ rest) = Some (canon L ! j + base, rest)"
    if j: "i \<le> j" "j < i + (n0 + n1)" for j rest
  proof -
    have dj: "d < place_length L j" using d(3) j n by simp
    have lo: "?pv i \<le> ?pv j" using place_value_mono [OF le] j n by simp
    show ?thesis
    proof (cases "j < i + n0")
      case True
      then have "?pv j < ?pv i + 2 ^ (26 - d)" using place_value_less [OF le, of "i + n0" j] n pv(1) by simp
      then have "path_bits d (place_length L j) (?pv j) = False # path_bits (Suc d) (place_length L j) (?pv j)"
        by (intro path_left [OF d(1,2) dj lo])
      then show ?thesis using S0 j True by simp
    next
      case False
      then have "?pv i + 2 ^ (26 - d) \<le> ?pv j" using place_value_mono [OF le, of j "i + n0"] j n pv(1) by simp
      moreover have "?pv j < ?pv i + 2 ^ (27 - d)" using place_value_less [OF le, of "i + (n0 + n1)" j] j n pv(2) by simp
      ultimately have "path_bits d (place_length L j) (?pv j) = True # path_bits (Suc d) (place_length L j) (?pv j)"
        by (intro path_right [OF d(1,2) dj])
      then show ?thesis using S1 j False by (simp add: add.assoc)
    qed
  qed
  have frame: "?tree ! p = tree ! p" if "p < ?q \<or> P \<le> p" for p
  proof -
    have "tree0 ! p = tree ! p" if "p < P + 1 - n0 \<or> P \<le> p" using S0 that by blast
    moreover have "tree1 ! p = tree0 ! p" if "p < P + 1 - n0 + 1 - n1 \<or> P + 1 - n0 \<le> p" using S1 that by blast
    moreover have "p < P + 1 - n0 \<or> P \<le> p" "p < P + 1 - n0 + 1 - n1 \<or> P + 1 - n0 \<le> p" "p \<noteq> ?q" using that n q by linarith+
    ultimately show ?thesis using keep by metis
  qed
  have "set (leaves t0) \<subseteq> (\<lambda>j. canon L ! j + base) ` {i..<i + n0}" "set (leaves t1) \<subseteq> (\<lambda>j. canon L ! j + base) ` {i + n0..<i + n0 + n1}"
    using S0 S1 by blast+
  moreover have "{i..<i + (n0 + n1)} = {i..<i + n0} \<union> {i + n0..<i + n0 + n1}" by auto
  ultimately have lv: "set (leaves (Node t0 t1)) \<subseteq> (\<lambda>j. canon L ! j + base) ` {i..<i + (n0 + n1)}" by (simp only: image_Un) auto
  show ?thesis by (rule subtree_okI [OF _ _ pv(2) _ frame hf lv walk]) (use n len in auto)
qed

lemma subtree_leaf:
  assumes le: "\<forall>l\<in>set L. unat l \<le> 27" and i: "i < length (canon L)" "place_length L i = Suc d"
    and s1: "subtree_ok L base P (Suc i) (Suc d) tree n1 t1 tree1" and x: "x = 2 * (canon L ! i + base) + 1" "x < 65536"
    and d: "d < 27" "2 ^ (27 - d) dvd place_value L i" "\<forall>j. i \<le> j \<and> j < length (canon L) \<longrightarrow> d < place_length L j"
    and P: "n1 + 1 \<le> P + 1" "P \<le> length tree"
  shows "subtree_ok L base P i d tree (n1 + 1) (Node (Leaf (canon L ! i + base)) t1) (tree1[P + 1 - (n1 + 1) := 0x40000 OR of_nat x])"
proof -
  let ?q = "P + 1 - (n1 + 1)" and ?tree = "tree1[P + 1 - (n1 + 1) := 0x40000 OR of_nat x]" and ?pv = "place_value L"
  note S1 = s1 [unfolded subtree_ok_def]
  have n: "2 \<le> n1" "i + n1 < length (canon L)" using S1 by auto
  have q: "?q < P" "?q + 1 = P + 1 - n1" using P n by auto
  have pv: "?pv (Suc i) = ?pv i + 2 ^ (26 - d)" "?pv (i + (n1 + 1)) = ?pv i + 2 ^ (27 - d)"
    using S1 place_value_Suc [OF le i(1)] pow_Suc_27 [OF d(1)] i(2) by simp_all
  have len: "length tree1 = length tree" using S1 by simp
  have w: "?tree ! ?q = 0x40000 OR of_nat x" using q(1) P(2) len by simp
  have keep: "?tree ! p = tree1 ! p" if "p \<noteq> ?q" for p using that by simp
  have h1: "half ?q P ?tree ?q 4 t1"
  proof -
    obtain l r where t1: "t1 = Node l r" using S1 by blast
    have "half (?q + 1) P tree1 (?q + 1) 0 t1" using S1 q(2) by simp
    then have "half ?q P ?tree (?q + 1) 0 t1" by (rule half_mono) (use keep n q in auto)
    then show ?thesis using half_move [of ?q P ?tree ?q 1 l r] t1 by simp
  qed
  have hf: "half ?q P ?tree ?q 0 (Node (Leaf (canon L ! i + base)) t1)"
  proof (rule half_node [OF order_refl q(1) _ _ _ h1, of x])
    show "lo_half (?tree ! ?q) = x" "hi_half (?tree ! ?q) = 4" unfolding w by (rule branch_word [OF x(2)])+
  qed (simp add: x(1))
  have walk: "walk (Node (Leaf (canon L ! i + base)) t1) (path_bits d (place_length L j) (?pv j) @ rest) = Some (canon L ! j + base, rest)"
    if j: "i \<le> j" "j < i + (n1 + 1)" for j rest
  proof (cases "j = i")
    case True
    then show ?thesis using path_left [OF d(1,2), of i] i(2) by simp
  next
    case False
    have "?pv i + 2 ^ (26 - d) \<le> ?pv j" using place_value_mono [OF le, of j "Suc i"] False j n pv(1) by simp
    moreover have "?pv j < ?pv i + 2 ^ (27 - d)" using place_value_less [OF le, of "i + (n1 + 1)" j] j n pv(2) by simp
    moreover have "d < place_length L j" using d(3) j n by simp
    ultimately have "path_bits d (place_length L j) (?pv j) = True # path_bits (Suc d) (place_length L j) (?pv j)"
      by (intro path_right [OF d(1,2)])
    then show ?thesis using S1 j False by simp
  qed
  have frame: "?tree ! p = tree ! p" if "p < ?q \<or> P \<le> p" for p
  proof -
    have "tree1 ! p = tree ! p" if "p < P + 1 - n1 \<or> P \<le> p" using S1 that by blast
    moreover have "p < P + 1 - n1 \<or> P \<le> p" "p \<noteq> ?q" using that n q by linarith+
    ultimately show ?thesis using keep by metis
  qed
  have "set (leaves t1) \<subseteq> (\<lambda>j. canon L ! j + base) ` {Suc i..<Suc i + n1}" using S1 by blast
  moreover have "{i..<i + (n1 + 1)} = insert i {Suc i..<Suc i + n1}" by auto
  ultimately have lv: "set (leaves (Node (Leaf (canon L ! i + base)) t1)) \<subseteq> (\<lambda>j. canon L ! j + base) ` {i..<i + (n1 + 1)}"
    by (simp only: image_insert) auto
  show ?thesis by (rule subtree_okI [OF _ _ pv(2) _ frame hf lv walk]) (use n len in auto)
qed

lemma subtree_leaves:
  assumes le: "\<forall>l\<in>set L. unat l \<le> 27" and i: "Suc i < length (canon L)" "place_length L i = Suc d" "place_length L (Suc i) = Suc d"
    and x: "hi_half a = 2 * (canon L ! i + base) + 1" "hi_half b = 2 * (canon L ! Suc i + base) + 1"
    and d: "d < 27" "2 ^ (27 - d) dvd place_value L i" and P: "1 \<le> P" "P \<le> length tree"
  shows "subtree_ok L base P i d tree 2 (Node (Leaf (canon L ! i + base)) (Leaf (canon L ! Suc i + base)))
    (tree[P - 1 := push_bit 16 (drop_bit 16 b) OR drop_bit 16 a])"
proof -
  let ?tree = "tree[P - 1 := push_bit 16 (drop_bit 16 b) OR drop_bit 16 a]" and ?pv = "place_value L"
  have pv: "?pv (Suc i) = ?pv i + 2 ^ (26 - d)" "?pv (i + 2) = ?pv i + 2 ^ (27 - d)"
    using place_value_Suc [OF le, of i] place_value_Suc [OF le, of "Suc i"] i pow_Suc_27 [OF d(1)] by simp_all
  have w: "?tree ! (P - 1) = push_bit 16 (drop_bit 16 b) OR drop_bit 16 a" using P by simp
  have hf: "half (P - 1) P ?tree (P - 1) 0 (Node (Leaf (canon L ! i + base)) (Leaf (canon L ! Suc i + base)))"
  proof (rule half_node [of _ _ _ _ "hi_half a" "hi_half b"])
    show "lo_half (?tree ! (P - 1)) = hi_half a" "hi_half (?tree ! (P - 1)) = hi_half b" unfolding w by (rule leaf_words)+
  qed (use P x in simp_all)
  have "path_bits d (Suc d) (?pv i) = [False]" using path_left [OF d(1,2), of i] i(2) by simp
  moreover have "path_bits d (Suc d) (?pv (Suc i)) = [True]"
    using path_right [OF d(1,2), of "Suc i"] i(3) pv(1) pow_Suc_27 [OF d(1)] by simp
  ultimately have "walk (Node (Leaf (canon L ! i + base)) (Leaf (canon L ! Suc i + base))) (path_bits d (place_length L j) (?pv j) @ rest) =
      Some (canon L ! j + base, rest)" if "i \<le> j" "j < i + 2" for j rest
  proof -
    have "j = i \<or> j = Suc i" using that by auto
    then show ?thesis
      using \<open>path_bits d (Suc d) (?pv i) = [False]\<close> \<open>path_bits d (Suc d) (?pv (Suc i)) = [True]\<close> i(2,3) by auto
  qed
  moreover have "{i..<i + 2} = {i, Suc i}" by auto
  ultimately show ?thesis unfolding subtree_ok_def using hf pv(2) i(1) P by auto
qed

lemma HuffmanSubTree_tree:
  assumes le: "\<forall>l\<in>set L. unat l \<le> 27" and N: "length (canon L) < 2 ^ 14"
    and level: "length level = 27" "\<And>d. d < 27 \<Longrightarrow> level ! d = length (canon L) - cumul L (Suc d)"
    and sy: "\<And>j. j < length (canon L) \<Longrightarrow> canon L ! j + base < 2 ^ 15"
    and "d < 27" "i < length (canon L)" "\<forall>j. i \<le> j \<and> j < length (canon L) \<longrightarrow> d < place_length L j"
    and "place_value L i + 2 ^ (27 - d) \<le> place_value L (length (canon L))" "2 ^ (27 - d) dvd place_value L i"
    and "length (canon L) - 1 - i \<le> P" "P < length (canon L)" "length (canon L) \<le> length tree"
    and "\<forall>j. i \<le> j \<and> j < length (canon L) \<longrightarrow> hi_half (tree ! (length (canon L) - 1 - j)) = 2 * (canon L ! j + base) + 1"
  shows "\<exists>n t tree'. HuffmanSubTree level tree (int P) (int (length (canon L)) - 1 - int i) d = Inr (int (P + 1 - n), tree') \<and>
    subtree_ok L base P i d tree n t tree'"
  using assms(6-)
proof (induction "27 - d" arbitrary: d i P tree rule: less_induct)
  case less
  let ?N = "length (canon L)" and ?pv = "place_value L"
  note prems = less.prems
  have lv: "int (level ! d) = int ?N - int (cumul L (Suc d))"
    using level(2) [OF prems(1)] cumul_mono [of "Suc d" 27 L] prems(1) by (simp add: length_canon of_nat_diff)
  have pl: "d < place_length L i" using prems(2,3) by blast
  have C: "i < cumul L (Suc d) \<longleftrightarrow> place_length L i = Suc d" using cumul_place [OF le prems(2), of "Suc d"] pl by auto
  have hi_i: "hi_half (tree ! (?N - 1 - i)) = 2 * (canon L ! i + base) + 1" using prems(2,9) by blast
  have e27: "27 - Suc d < 27 - d" using prems(1) by simp
  note p27 = pow_Suc_27 [OF prems(1)]
  have unf: "HuffmanSubTree level tree (int P) v d =
    (let l = int (level ! d)
     in if l > v then
       (case HuffmanSubTree level tree (int P) v (Suc d) of
          Inl e \<Rightarrow> Inl e
        | Inr (sub0, tree) \<Rightarrow> (case HuffmanSubTree level tree sub0 (v - (int P - sub0) - 1) (Suc d) of
            Inl e \<Rightarrow> Inl e
          | Inr (aPtr, tree) \<Rightarrow>
              if aPtr < 1 then Inl Undefined
              else Inr (aPtr - 1, tree[nat (aPtr - 1) := 0x40000 OR word_of_int (4 * (sub0 - (aPtr - 1)))])))
     else if l = v then
       (case HuffmanSubTree level tree (int P) (v - 1) (Suc d) of
          Inl e \<Rightarrow> Inl e
        | Inr (aPtr, tree1) \<Rightarrow>
            if aPtr < 1 then Inl Undefined
            else Inr (aPtr - 1, tree1[nat (aPtr - 1) := 0x40000 OR drop_bit 16 (tree ! nat v)]))
     else
       if int P < 1 then Inl Undefined
       else Inr (int P - 1, tree[nat (int P - 1) := push_bit 16 (drop_bit 16 (tree ! nat (v - 1))) OR drop_bit 16 (tree ! nat v)]))" for v
    unfolding HuffmanSubTree.simps [of level tree "int P" v d] Let_def Suc_eq_plus1 [symmetric] using level(1) prems(1) by simp
  consider (none) "cumul L (Suc d) \<le> i" | (one) "cumul L (Suc d) = Suc i" | (two) "Suc i < cumul L (Suc d)" by linarith
  then show ?case
  proof cases
    case none
    have pl1: "\<forall>j. i \<le> j \<and> j < ?N \<longrightarrow> Suc d < place_length L j"
      using C none pl place_length_mono [OF le, of i] by fastforce
    then have d1: "Suc d < 27" using canon_nth(4) [OF le prems(2)] prems(2) by fastforce
    have dv: "2 ^ (27 - Suc d) dvd ?pv i" using prems(5) p27 by (simp add: dvd_mult_right)
    obtain n0 t0 tree0 where r0: "HuffmanSubTree level tree (int P) (int ?N - 1 - int i) (Suc d) = Inr (int (P + 1 - n0), tree0)"
      "subtree_ok L base P i (Suc d) tree n0 t0 tree0"
      using less.hyps [OF e27 d1 prems(2) pl1 _ dv prems(6-9)] prems(4) p27 by auto
    note S0 = r0(2) [unfolded subtree_ok_def]
    have pv0: "?pv (i + n0) = ?pv i + 2 ^ (26 - d)" using S0 p27 by simp
    have i1: "i + n0 < ?N"
    proof (rule ccontr)
      assume "\<not> i + n0 < ?N"
      then have "i + n0 = ?N" using S0 by linarith
      then show False using pv0 prems(4) p27(1) by simp
    qed
    have n0P: "n0 \<le> P" "?N - 1 - (i + n0) \<le> P + 1 - n0" "P + 1 - n0 < ?N" using i1 prems(6,7) S0 by auto
    have keep: "\<forall>j. i + n0 \<le> j \<and> j < ?N \<longrightarrow> hi_half (tree0 ! (?N - 1 - j)) = 2 * (canon L ! j + base) + 1"
    proof (intro allI impI)
      fix j assume j: "i + n0 \<le> j \<and> j < ?N"
      then have "?N - 1 - j < P + 1 - n0" using prems(6) n0P(1) by auto
      then have "tree0 ! (?N - 1 - j) = tree ! (?N - 1 - j)" using S0 by blast
      then show "hi_half (tree0 ! (?N - 1 - j)) = 2 * (canon L ! j + base) + 1" using prems(9) j by auto
    qed
    have "?pv (i + n0) + 2 ^ (27 - Suc d) \<le> ?pv ?N" using pv0 prems(4) p27 by simp
    moreover have "2 ^ (27 - Suc d) dvd ?pv (i + n0)" using dv pv0 p27 by simp
    moreover have "\<forall>j. i + n0 \<le> j \<and> j < ?N \<longrightarrow> Suc d < place_length L j" using pl1 by auto
    moreover have "?N \<le> length tree0" using S0 prems(8) by simp
    ultimately obtain n1 t1 tree1 where r1: "HuffmanSubTree level tree0 (int (P + 1 - n0)) (int ?N - 1 - int (i + n0)) (Suc d) =
        Inr (int (P + 1 - n0 + 1 - n1), tree1)" "subtree_ok L base (P + 1 - n0) (i + n0) (Suc d) tree0 n1 t1 tree1"
      using less.hyps [OF e27 d1 i1 _ _ _ n0P(2,3) _ keep] by auto
    note S1 = r1(2) [unfolded subtree_ok_def]
    have nP: "n0 + n1 \<le> P + 1" using S1 prems(6) n0P by auto
    have v1: "int ?N - 1 - int i - (int P - int (P + 1 - n0)) - 1 = int ?N - 1 - int (i + n0)" using n0P(1) by simp
    have a1: "int (P + 1 - n0 + 1 - n1) - 1 = int (P + 1 - (n0 + n1))" "\<not> int (P + 1 - n0 + 1 - n1) < 1" using nP S0 S1 by auto
    have b0: "word_of_int (4 * (int (P + 1 - n0) - int (P + 1 - (n0 + n1)))) = (of_nat (4 * n1) :: 32 word)"
    proof -
      have "4 * (int (P + 1 - n0) - int (P + 1 - (n0 + n1))) = int (4 * n1)" using nP by simp
      then show ?thesis by (metis of_int_of_nat_eq)
    qed
    have gt: "int (level ! d) > int ?N - 1 - int i" using none lv by simp
    have run: "HuffmanSubTree level tree (int P) (int ?N - 1 - int i) d =
        Inr (int (P + 1 - (n0 + n1)), tree1[P + 1 - (n0 + n1) := 0x40000 OR of_nat (4 * n1)])"
      unfolding unf Let_def r0(1) using gt by (simp only: if_True sum.case prod.case v1 r1(1) a1 if_False b0 nat_int)
    moreover have "subtree_ok L base P i d tree (n0 + n1) (Node t0 t1) (tree1[P + 1 - (n0 + n1) := 0x40000 OR of_nat (4 * n1)])"
      using prems(7,8) by (intro subtree_both [OF le r0(2) r1(2) prems(1,5,3) nP _ N]) simp
    ultimately show ?thesis by blast
  next
    case one
    have pli: "place_length L i = Suc d" using C one by simp
    have pv0: "?pv (Suc i) = ?pv i + 2 ^ (26 - d)" using place_value_Suc [OF le prems(2)] pli p27 by simp
    have i1: "Suc i < ?N"
    proof (rule ccontr)
      assume "\<not> Suc i < ?N"
      then have "Suc i = ?N" using prems(2) by linarith
      then show False using pv0 prems(4) p27(1) by simp
    qed
    have "\<not> place_length L (Suc i) \<le> Suc d" using cumul_place [OF le i1, of "Suc d"] one by simp
    then have pl1: "\<forall>j. Suc i \<le> j \<and> j < ?N \<longrightarrow> Suc d < place_length L j"
      using place_length_mono [OF le, of "Suc i"] by fastforce
    then have d1: "Suc d < 27" using canon_nth(4) [OF le i1] i1 by fastforce
    have "?pv (Suc i) + 2 ^ (27 - Suc d) \<le> ?pv ?N" using pv0 prems(4) p27 by simp
    moreover have "2 ^ (27 - Suc d) dvd ?pv i" using prems(5) p27 by (simp add: dvd_mult_right)
    then have "2 ^ (27 - Suc d) dvd ?pv (Suc i)" using pv0 p27 by simp
    moreover have "?N - 1 - Suc i \<le> P" using prems(6) by simp
    moreover have "\<forall>j. Suc i \<le> j \<and> j < ?N \<longrightarrow> hi_half (tree ! (?N - 1 - j)) = 2 * (canon L ! j + base) + 1" using prems(9) by auto
    ultimately obtain n1 t1 tree1 where r1: "HuffmanSubTree level tree (int P) (int ?N - 1 - int (Suc i)) (Suc d) = Inr (int (P + 1 - n1), tree1)"
      "subtree_ok L base P (Suc i) (Suc d) tree n1 t1 tree1"
      using less.hyps [OF e27 d1 i1 pl1 _ _ _ prems(7,8)] by auto
    note S1 = r1(2) [unfolded subtree_ok_def]
    have nP: "n1 + 1 \<le> P + 1" using S1 prems(6) by auto
    have v1: "int ?N - 1 - int i - 1 = int ?N - 1 - int (Suc i)" "nat (int ?N - 1 - int i) = ?N - 1 - i" using prems(2) by auto
    have a1: "int (P + 1 - n1) - 1 = int (P + 1 - (n1 + 1))" "\<not> int (P + 1 - n1) < 1" using nP by auto
    have eq: "\<not> int (level ! d) > int ?N - 1 - int i" "int (level ! d) = int ?N - 1 - int i" using one lv by simp_all
    let ?x = "2 * (canon L ! i + base) + 1"
    have x: "?x < 65536" using sy [OF prems(2)] by simp
    have t0: "drop_bit 16 (tree ! (?N - 1 - i)) = of_nat ?x"
      using hi_i unfolding hi_half_def by (metis of_nat_unat ucast_id)
    have run: "HuffmanSubTree level tree (int P) (int ?N - 1 - int i) d =
        Inr (int (P + 1 - (n1 + 1)), tree1[P + 1 - (n1 + 1) := 0x40000 OR of_nat ?x])"
      unfolding unf Let_def using eq by (simp only: if_True if_False simp_thms less_irrefl v1 r1(1) sum.case prod.case a1 t0 nat_int)
    moreover have "subtree_ok L base P i d tree (n1 + 1) (Node (Leaf (canon L ! i + base)) t1) (tree1[P + 1 - (n1 + 1) := 0x40000 OR of_nat ?x])"
      using prems(7,8) by (intro subtree_leaf [OF le prems(2) pli r1(2) refl x prems(1,5,3) nP]) simp
    ultimately show ?thesis by blast
  next
    case two
    have i1: "Suc i < ?N" using two cumul_mono [of "Suc d" 27 L] prems(1) by (simp add: length_canon)
    have pli: "place_length L i = Suc d" using C two by simp
    moreover have "place_length L (Suc i) \<le> Suc d" using cumul_place [OF le i1, of "Suc d"] two by simp
    ultimately have pls: "place_length L (Suc i) = Suc d" using place_length_mono [OF le, of i "Suc i"] i1 by simp
    have P1: "1 \<le> P" using prems(6) i1 by simp
    have v1: "nat (int ?N - 1 - int i - 1) = ?N - 1 - Suc i" "nat (int ?N - 1 - int i) = ?N - 1 - i" using i1 by auto
    have lt: "\<not> int (level ! d) > int ?N - 1 - int i" "int (level ! d) \<noteq> int ?N - 1 - int i" using two lv by simp_all
    have a1: "int P - 1 = int (P + 1 - 2)" "\<not> int P < 1" "P + 1 - 2 = P - 1" using P1 by auto
    have run: "HuffmanSubTree level tree (int P) (int ?N - 1 - int i) d =
        Inr (int (P + 1 - 2), tree[P - 1 := push_bit 16 (drop_bit 16 (tree ! (?N - 1 - Suc i))) OR drop_bit 16 (tree ! (?N - 1 - i))])"
      unfolding unf Let_def using lt by (simp only: if_False v1 a1(1,2) nat_int) (simp only: a1(3))
    have hi1: "hi_half (tree ! (?N - 1 - Suc i)) = 2 * (canon L ! Suc i + base) + 1" using prems(9) i1 by auto
    have "P \<le> length tree" using prems(7,8) by simp
    then show ?thesis using run subtree_leaves [OF le i1 pli pls hi_i hi1 prems(1,5) P1] by blast
  qed
qed

end
