(* ===== verification/Huffman_Coding.thy ===== *)
theory Huffman_Coding
  imports Huffman_Decode
begin

text \<open>
  Encoding and decoding are inverse: a code that \<open>Encoding\<close> gives to a symbol is read back by
  \<open>TBitInput::HuffmanL\<close> with the tree that \<open>Decoding\<close> makes of the same table of lengths.
\<close>

section \<open>Filling the levels\<close>

lemma count_codes_eq:
  assumes "n \<le> length L" "\<forall>l\<in>set L. unat l \<le> 27"
  shows "count_codes L n = (map (\<lambda>i. int (length (symbols L (Suc i) n))) [0..<27], length (filter (\<lambda>s. L ! s \<noteq> 0) [0..<n]))"
  using assms(1)
proof (induction n)
  case (Suc n)
  let ?c = "map (\<lambda>i. int (length (symbols L (Suc i) n))) [0..<27]" and ?k = "length (filter (\<lambda>s. L ! s \<noteq> 0) [0..<n])"
  have le: "unat (L ! n) \<le> 27" using assms(2) Suc.prems by simp
  have "count_codes L (Suc n) = (case count_codes L n of (c, k) \<Rightarrow>
      let len = sint (L ! n) - 1 in if len \<ge> 0 then (c[nat len := c ! nat len + 1], k + 1) else (c, k))"
    by (simp add: count_codes_def Let_def)
  then have step: "count_codes L (Suc n) = (let len = sint (L ! n) - 1 in if len \<ge> 0 then (?c[nat len := ?c ! nat len + 1], ?k + 1) else (?c, ?k))"
    using Suc by simp
  show ?case
  proof (cases "L ! n = 0")
    case True
    then show ?thesis unfolding step by (simp add: symbols_Suc)
  next
    case False
    then have p: "1 \<le> unat (L ! n)" using unsigned_eq_0_iff [of "L ! n", where 'a = nat] by linarith
    have "sint (L ! n) = int (unat (L ! n))" using le sint_small [of "L ! n"] by simp
    then have "count_codes L (Suc n) = (?c[unat (L ! n) - 1 := ?c ! (unat (L ! n) - 1) + 1], ?k + 1)"
      unfolding step using p by (simp add: Let_def nat_diff_distrib del: of_nat_unat)
    moreover have "?c[unat (L ! n) - 1 := ?c ! (unat (L ! n) - 1) + 1] = map (\<lambda>i. int (length (symbols L (Suc i) (Suc n)))) [0..<27]"
      using p le by (intro nth_equalityI) (auto simp: nth_list_update symbols_Suc)
    ultimately show ?thesis using False by simp
  qed
qed (simp add: count_codes_def symbols_def map_replicate_const)

lemma coded_canon:
  assumes "\<forall>l\<in>set L. unat l \<le> 27"
  shows "length (filter (\<lambda>s. L ! s \<noteq> 0) [0..<length L]) = length (canon L)"
proof -
  have "set (filter (\<lambda>s. L ! s \<noteq> 0) [0..<length L]) = set (canon L)" using set_canon [OF assms] by auto
  then show ?thesis using distinct_card [OF distinct_canon, of L] distinct_card [of "filter (\<lambda>s. L ! s \<noteq> 0) [0..<length L]"] by simp
qed

lemma length_canon_le: "\<forall>l\<in>set L. unat l \<le> 27 \<Longrightarrow> length (canon L) \<le> length L"
  using coded_canon [of L] length_filter_le [of "\<lambda>s. L ! s \<noteq> 0" "[0..<length L]"] by simp

lemma level_starts_eq:
  assumes "\<And>i. i < 27 \<Longrightarrow> c ! i = int (length (symbols L (Suc i) (length L)))"
  shows "length (level_starts c N) = 27 \<and> (\<forall>i<27. level_starts c N ! i = N - cumul L i)"
proof -
  define step where "step ii = (\<lambda>(lit, level). (lit - nat (c ! ii), level[ii := lit]))" for ii
  define run where "run n = fold step [0..<n] (N, replicate 27 0)" for n
  have run_Suc: "run (Suc n) = step n (run n)" for n by (simp add: run_def)
  have "\<exists>lv. run n = (N - cumul L n, lv) \<and> length lv = 27 \<and> (\<forall>i<n. lv ! i = N - cumul L i)" if "n \<le> 27" for n
    using that
  proof (induction n)
    case (Suc n)
    then obtain lv where "run n = (N - cumul L n, lv)" "length lv = 27" "\<forall>i<n. lv ! i = N - cumul L i" by auto
    then show ?case using Suc.prems assms [of n] by (auto simp: run_Suc step_def cumul_Suc nth_list_update less_Suc_eq)
  qed (simp add: run_def)
  from this [of 27] show ?thesis by (auto simp: level_starts_def run_def step_def [abs_def])
qed

text \<open>A symbol in the upper half of a word\<close>

definition leaf_word :: "nat \<Rightarrow> nat \<Rightarrow> 32 word" where
  "leaf_word base s = push_bit 17 (of_nat s) + (push_bit 17 (of_nat base) + 0x10000)"

lemma leaf_word_eq: "leaf_word base s = push_bit 16 (of_nat (2 * (s + base) + 1))"
proof -
  have "push_bit 17 x = push_bit 16 (2 * x)" for x :: "32 word" by (simp add: push_bit_eq_mult)
  then show ?thesis by (simp add: leaf_word_def push_bit_eq_mult algebra_simps)
qed

lemma unat_of_nat_small: "x < 65536 \<Longrightarrow> unat (of_nat x :: 32 word) = x"
  by (simp add: unat_of_nat)

lemma leaf_word_or:
  assumes "unat w \<le> 27" "s + base < 2 ^ 15"
  shows "hi_half (w OR leaf_word base s) = 2 * (s + base) + 1" "(ucast (w OR leaf_word base s) :: byte) = ucast w"
proof -
  let ?x = "2 * (s + base) + 1"
  have x: "?x < 65536" using assms(2) by simp
  have "drop_bit 16 w = 0" using small_drop(1) [of "unat w"] assms(1) by simp
  moreover have "drop_bit 16 (push_bit 16 (of_nat ?x :: 32 word)) = of_nat ?x"
    using lo_half_push small_drop(2) [OF x] by (metis of_nat_unat ucast_id lo_half_take)
  ultimately have "drop_bit 16 (w OR leaf_word base s) = of_nat ?x" unfolding leaf_word_eq by simp
  then show "hi_half (w OR leaf_word base s) = ?x" unfolding hi_half_def using unat_of_nat_small [of ?x] x by (simp only:)
  show "(ucast (w OR leaf_word base s) :: byte) = ucast w" unfolding leaf_word_eq by (rule bit_word_eqI) (auto simp: bit_simps)
qed

lemma ucast_len: "unat w \<le> 27 \<Longrightarrow> unat (ucast (w :: 32 word) :: byte) = unat w"
  by (simp add: unsigned_ucast_eq take_bit_nat_eq_self)

lemma fill_levels_eq:
  assumes le: "\<forall>l\<in>set L. unat l \<le> 27" and base: "\<And>s. s < length L \<Longrightarrow> s + base < 2 ^ 15"
    and level: "length level = 27" "\<And>i. i < 27 \<Longrightarrow> level ! i = length (canon L) - cumul L i" and n: "n \<le> length L"
  shows "\<exists>lv tree. fill_levels n (push_bit 17 (of_nat base) + 0x10000) level L = (lv, tree) \<and> length lv = 27 \<and> length tree = length L \<and>
    (\<forall>i<27. lv ! i = length (canon L) - cumul L i - length (symbols L (Suc i) n)) \<and>
    (\<forall>p<length L. tree ! p = (if p < length (canon L) \<and> canon L ! (length (canon L) - 1 - p) < n
       then L ! p OR leaf_word base (canon L ! (length (canon L) - 1 - p)) else L ! p))"
  using n
proof (induction n)
  case 0
  then show ?case using level by (simp add: fill_levels_def symbols_def)
next
  case (Suc n)
  let ?N = "length (canon L)" and ?c = "\<lambda>p. canon L ! (length (canon L) - 1 - p)" and ?B = "push_bit 17 (of_nat base) + 0x10000 :: 32 word"
  obtain lv tree where ih: "fill_levels n ?B level L = (lv, tree)" "length lv = 27" "length tree = length L"
    "\<And>i. i < 27 \<Longrightarrow> lv ! i = ?N - cumul L i - length (symbols L (Suc i) n)"
    "\<And>p. p < length L \<Longrightarrow> tree ! p = (if p < ?N \<and> ?c p < n then L ! p OR leaf_word base (?c p) else L ! p)"
    using Suc by auto
  have ln: "unat (L ! n) \<le> 27" "n < length L" using le Suc.prems by simp_all
  have "?c n < length L" if "n < ?N" using canon_nth(1) [OF le, of "?N - 1 - n"] that by simp
  then have "(ucast (tree ! n) :: byte) = ucast (L ! n)"
    using ih(5) [OF ln(2)] leaf_word_or(2) [OF ln(1) base, of "?c n"] by auto
  then have len: "unat (ucast (tree ! n) :: byte) = unat (L ! n)" using ucast_len [OF ln(1)] by simp
  have "fill_levels (Suc n) ?B level L = (case fill_levels n ?B level L of (level, tree) \<Rightarrow>
      let len = unat (ucast (tree ! n) :: byte)
      in if len \<noteq> 0 then
        let p = level ! (len - 1) - 1
        in (level[len - 1 := p], tree[p := tree ! p OR (push_bit 17 (of_nat n) + ?B)])
      else (level, tree))" by (simp add: fill_levels_def)
  then have step: "fill_levels (Suc n) ?B level L = (if unat (L ! n) \<noteq> 0 then
        (lv[unat (L ! n) - 1 := lv ! (unat (L ! n) - 1) - 1],
         tree[lv ! (unat (L ! n) - 1) - 1 := tree ! (lv ! (unat (L ! n) - 1) - 1) OR leaf_word base n])
      else (lv, tree))" using ih(1) len by (simp add: Let_def leaf_word_def)
  show ?case
  proof (cases "L ! n = 0")
    case True
    have "n \<notin> set (canon L)" using set_canon [OF le] True by simp
    then have "?c p < Suc n \<longleftrightarrow> ?c p < n" if "p < ?N" for p using that nth_mem [of "?N - 1 - p" "canon L"] by (metis diff_Suc_less diff_diff_left less_Suc_eq less_nat_zero_code not_gr_zero plus_1_eq_Suc)
    then show ?thesis using True step ih(2-) by (auto simp: symbols_Suc)
  next
    case False
    let ?l = "unat (L ! n)" and ?p = "?N - 1 - place L n"
    have l1: "1 \<le> ?l" using False unsigned_eq_0_iff [of "L ! n", where 'a = nat] by linarith
    have pl: "canon L ! place L n = n" "place L n < ?N" using place_nth [OF ln(2) False ln(1)] by simp_all
    have "lv ! (?l - 1) = ?N - place L n" using ih(4) [of "?l - 1"] l1 ln(1) by (simp add: place_def)
    then have p: "lv ! (?l - 1) - 1 = ?p" "?p < ?N" "?c ?p = n" "?p < length L"
      using pl length_canon_le [OF le] by auto
    have tp: "tree ! ?p = L ! ?p" using ih(5) [OF p(4)] p(3) by simp
    have new: "fill_levels (Suc n) ?B level L = (lv[?l - 1 := ?p], tree[?p := L ! ?p OR leaf_word base n])"
      using step l1 p(1) tp by simp
    have lv': "lv[?l - 1 := ?p] ! i = ?N - cumul L i - length (symbols L (Suc i) (Suc n))" if "i < 27" for i
      using that ih(2,4) l1 p(1) by (cases "i = ?l - 1") (auto simp: symbols_Suc)
    have tree': "tree[?p := L ! ?p OR leaf_word base n] ! q = (if q < ?N \<and> ?c q < Suc n then L ! q OR leaf_word base (?c q) else L ! q)"
      if q: "q < length L" for q
    proof (cases "q = ?p")
      case True
      then show ?thesis using p ih(3) by simp
    next
      case False
      have "?c q \<noteq> n" if "q < ?N"
      proof
        assume "?c q = n"
        then have "?N - 1 - q = place L n" using pl that nth_eq_iff_index_eq [OF distinct_canon, of "?N - 1 - q" L "place L n"] by simp
        then show False using False that by simp
      qed
      then show ?thesis using False ih(5) [OF q] by (auto simp: less_Suc_eq)
    qed
    show ?thesis using new lv' tree' ih(2,3) by simp
  qed
qed

section \<open>Codes are read back\<close>

lemma place_value_dvd:
  assumes le: "\<forall>l\<in>set L. unat l \<le> 27" and j: "j < length (canon L)"
  shows "2 ^ (27 - place_length L j) dvd place_value L j"
proof -
  have "2 ^ (27 - place_length L j) dvd place_value L i" if "i \<le> j" for i
    using that
  proof (induction i)
    case (Suc i)
    have "place_length L i \<le> place_length L j" using place_length_mono [OF le, of i j] Suc.prems j by simp
    then have "(2 :: nat) ^ (27 - place_length L j) dvd 2 ^ (27 - place_length L i)" by (simp add: le_imp_power_dvd)
    then show ?case using Suc place_value_Suc [OF le, of i] j by (simp add: dvd_add)
  qed (simp add: place_value_def)
  then show ?thesis by simp
qed

lemma complete_total: "complete L \<Longrightarrow> place_value L (length (canon L)) \<le> 2 ^ 27"
proof -
  assume c: "complete L"
  then have le: "\<forall>l\<in>set L. unat l \<le> 27" by (simp add: complete_def)
  consider "sum_list (map share L) = 2 ^ 27" | s where "s < length L" "L = (replicate (length L) 0)[s := 1]" | "L = replicate (length L) 0"
    using c by (auto simp: complete_def)
  then have "sum_list (map share L) \<le> 2 ^ 27"
  proof cases
    case 2
    have "sum_list (map share L) = share 1" using sum_list_map_unit [OF 2(1), of share 1] 2(2) by (simp add: share_def)
    then show ?thesis by (simp add: share_def)
  next
    case 3
    have "sum_list (map share L) = 0" by (subst 3, simp add: sum_list_replicate share_def)
    then show ?thesis by linarith
  qed simp
  then show "place_value L (length (canon L)) \<le> 2 ^ 27" using place_value_all [OF le] by simp
qed

lemma bit_of_nat_32: "n < 32 \<Longrightarrow> bit (of_nat x :: 32 word) n = bit x n"
  by (simp add: bit_of_nat_iff)

lemma bit_above: "x < 2 ^ k \<Longrightarrow> k \<le> i \<Longrightarrow> \<not> bit (x :: nat) i"
proof -
  assume "x < 2 ^ k" "k \<le> i"
  then have "x < 2 ^ i" by (meson less_le_trans one_le_numeral power_increasing)
  then show "\<not> bit x i" by (simp add: bit_iff_odd)
qed

lemma bit_below: "2 ^ k dvd x \<Longrightarrow> i < k \<Longrightarrow> \<not> bit (x :: nat) i"
proof -
  assume "2 ^ k dvd x" "i < k"
  then have "2 ^ Suc i dvd x" by (meson Suc_leI dvd_trans le_imp_power_dvd)
  then obtain c where "x = 2 ^ i * (2 * c)" by (auto elim: dvdE)
  then show "\<not> bit x i" by (simp add: bit_iff_odd)
qed

lemma code_bits_path:
  assumes "complete L" "s < length L" "L ! s \<noteq> 0"
  shows "code_bits (of_nat (code_value L s) OR push_bit 27 (L ! s)) = path_bits 0 (unat (L ! s)) (code_value L s) \<and>
    code_ok (of_nat (code_value L s) OR push_bit 27 (L ! s))"
proof -
  have le: "\<forall>l\<in>set L. unat l \<le> 27" using assms(1) by (simp add: complete_def)
  let ?l = "unat (L ! s)" and ?K = "code_value L s" and ?j = "place L s"
  let ?c = "of_nat ?K OR push_bit 27 (L ! s) :: 32 word"
  have l: "?l \<le> 27" "1 \<le> ?l" using le assms(2,3) unsigned_eq_0_iff [of "L ! s", where 'a = nat] by (auto simp: Suc_le_eq)
  have j: "canon L ! ?j = s" "?j < length (canon L)" using place_nth [OF assms(2,3) l(1)] by simp_all
  then have pj: "place_length L ?j = ?l" "?K = place_value L ?j" using code_value_place [OF le assms(2,3)] by (simp_all add: place_length_def)
  have K: "?K < 2 ^ 27" using place_value_less [OF le order_refl j(2)] complete_total [OF assms(1)] pj(2) by linarith
  have Kbit: "\<not> bit ?K i" if "27 \<le> i" for i
    using K that by (rule bit_above)
  have "unat (L ! s) < 2 ^ 5" using l by simp
  then have lbit: "\<not> bit (L ! s) i" if "5 \<le> i" for i
    using bit_above [of "unat (L ! s)" 5 i] that by (simp add: bit_unsigned_iff)
  have lb: "i < 5" if "bit (L ! s) i" for i using lbit [of i] that by linarith
  have "drop_bit 27 ?c = L ! s"
    using Kbit by (intro bit_word_eqI) (auto simp: bit_simps bit_of_nat_32 dest: bit_imp_le_length lb)
  moreover have p5: "bit (push_bit 5 ?c) i = (5 \<le> i \<and> i < 32 \<and> bit ?K (i - 5))" for i
    by (auto simp: bit_simps bit_of_nat_32)
  moreover have "only_top ?l (push_bit 5 ?c)"
    unfolding only_top_def p5
  proof (intro allI impI)
    fix i assume i: "5 \<le> i \<and> i < 32 \<and> bit ?K (i - 5)"
    have "2 ^ (27 - ?l) dvd ?K" using place_value_dvd [OF le j(2)] pj by simp
    then have "\<not> bit ?K (i - 5)" if "i - 5 < 27 - ?l" using that by (rule bit_below)
    then show "32 \<le> i + ?l" using i by linarith
  qed
  moreover have "top_bits ?l (push_bit 5 ?c) = path_bits 0 ?l ?K"
  proof (rule nth_equalityI)
    fix i assume "i < length (top_bits ?l (push_bit 5 ?c))"
    then have i: "i < ?l" by simp
    then have "5 \<le> 31 - i" "31 - i < 32" "31 - i - 5 = 26 - i" using l by auto
    then have "bit (push_bit 5 ?c) (31 - i) = bit ?K (26 - i)" by (simp only: p5 simp_thms)
    then show "top_bits ?l (push_bit 5 ?c) ! i = path_bits 0 ?l ?K ! i" using i by (simp only: nth_top_bits) (simp add: path_bits_def)
  qed (simp add: path_bits_def)
  ultimately show ?thesis by (simp add: code_bits_def code_ok_def)
qed

text \<open>The tree \<open>D\<close> leads along the code of every symbol of \<open>L\<close> to that symbol, counted from \<open>base\<close> on.\<close>

definition tree_decodes :: "32 word list \<Rightarrow> nat \<Rightarrow> 32 word list \<Rightarrow> bool" where
  "tree_decodes L base D \<longleftrightarrow> (\<forall>s<length L. L ! s \<noteq> 0 \<longrightarrow> (\<exists>b l r. half 0 b D 0 0 (Node l r) \<and> b \<le> length D \<and>
     (\<forall>rest. walk (Node l r) (path_bits 0 (unat (L ! s)) (code_value L s) @ rest) = Some (s + base, rest))))"

lemma tree_decodes_read:
  assumes "tree_decodes L base D" "s < length L" "L ! s \<noteq> 0" "in_ok st" "in_bits m st = path_bits 0 (unat (L ! s)) (code_value L s) @ rest"
  shows "\<exists>st'. input_HuffmanL m D st = Inr (of_nat (s + base), st') \<and> in_ok st' \<and> in_bits m st' = rest"
proof -
  obtain b l r where t: "half 0 b D 0 0 (Node l r)" "b \<le> length D"
    "walk (Node l r) (path_bits 0 (unat (L ! s)) (code_value L s) @ rest) = Some (s + base, rest)"
    using assms(1-3) unfolding tree_decodes_def by blast
  have "hi_half 0 = 0" by (simp add: hi_half_def)
  then show ?thesis
    using huffman_loop_walk [of 0 b D 0 0 l r, OF _ t(2,3) assms(4,5)] t(1) by (simp add: input_HuffmanL_def)
qed

text \<open>On any input the tree \<open>D\<close> leads to one of \<open>n\<close> symbols, counted from \<open>base\<close> on, or the input is exhausted.\<close>

definition tree_safe :: "nat \<Rightarrow> nat \<Rightarrow> 32 word list \<Rightarrow> bool" where
  "tree_safe base n D \<longleftrightarrow> (\<forall>m s. case input_HuffmanL m D s of Inl e \<Rightarrow> e = Panic EHuffmanBufferOverflow
     | Inr (v, s') \<Rightarrow> base \<le> unat v \<and> unat v < base + n)"

lemma sum_case_weaken:
  "(\<And>x v. x \<in> A \<Longrightarrow> v = f x \<Longrightarrow> P v) \<Longrightarrow> (case r of Inl e \<Rightarrow> e = c | Inr (v, s') \<Rightarrow> \<exists>x\<in>A. v = f x) \<Longrightarrow>
    (case r of Inl e \<Rightarrow> e = c | Inr (v, s') \<Rightarrow> P v)"
  by (auto split: sum.splits)

lemma tree_safe_half:
  assumes "half 0 b D 0 0 (Node l r)" "b \<le> length D" "set (leaves (Node l r)) \<subseteq> {base..<base + n}" "base + n \<le> 2 ^ 15"
  shows "tree_safe base n D"
proof -
  have "base \<le> unat v \<and> unat v < base + n" if x: "x \<in> set (leaves (Node l r))" "v = of_nat x" for x and v :: "32 word"
  proof -
    have "base \<le> x" "x < base + n" using x(1) assms(3) by auto
    then show ?thesis using unat_of_nat_small [of x] assms(4) x(2) by simp
  qed
  moreover have "case input_HuffmanL m D s of Inl e \<Rightarrow> e = Panic EHuffmanBufferOverflow | Inr (v, s') \<Rightarrow> \<exists>x\<in>set (leaves (Node l r)). v = of_nat x" for m s
    using huffman_loop_safe [of 0 b D 0 0 l r m s, OF _ assms(2)] assms(1) unfolding input_HuffmanL_def by (simp add: hi_half_def)
  ultimately have "case input_HuffmanL m D s of Inl e \<Rightarrow> e = Panic EHuffmanBufferOverflow | Inr (v, s') \<Rightarrow> base \<le> unat v \<and> unat v < base + n" for m s
    by (rule sum_case_weaken)
  then show ?thesis by (simp add: tree_safe_def)
qed

text \<open>A tree without codes uses up the input.\<close>

lemma tree_safe_zero:
  assumes "D \<noteq> []" "D ! 0 = 0"
  shows "tree_safe base n D"
proof -
  have z: "hi_half 0 = 0" by (simp add: hi_half_def)
  have "huffman_loop m D 0 0 s = Inl (Panic EHuffmanBufferOverflow)" for m s
  proof (induction "nat (bits_left s)" arbitrary: s rule: less_induct)
    case less
    have run: "huffman_loop m D 0 0 s = (case ReadL_bit m s of Inl e \<Rightarrow> Inl e | Inr (b, s) \<Rightarrow> huffman_loop m D 0 0 s)"
      using huffman_loop_step [of 0 0 0 D m s] assms z by (simp add: Let_def split: sum.split)
    show ?case
    proof (cases "ReadL_bit m s")
      case (Inl e)
      then show ?thesis using run ReadL_bit_fails by simp
    next
      case (Inr r)
      obtain b s1 where r: "r = (b, s1)" by fastforce
      have "nat (bits_left s1) < nat (bits_left s)" using ReadL_bit_bits_left [of m s b s1] Inr r by simp
      then show ?thesis using run less Inr r by simp
    qed
  qed
  then show ?thesis by (simp add: tree_safe_def input_HuffmanL_def)
qed

lemma Decoding_tree:
  assumes c: "complete L" and base: "\<And>s. s < length L \<Longrightarrow> s + base < 2 ^ 15" and n: "length L < 2 ^ 14"
  shows "\<exists>D. Decoding L (length L) (of_nat base) = Inr D \<and> length D = length L \<and> tree_decodes L base D \<and>
    (L \<noteq> [] \<longrightarrow> tree_safe base (length L) D)"
proof -
  have le: "\<forall>l\<in>set L. unat l \<le> 27" using c by (simp add: complete_def)
  let ?N = "length (canon L)" and ?n = "length L" and ?B = "push_bit 17 (of_nat base) + 0x10000 :: 32 word"
  let ?c = "map (\<lambda>i. int (length (symbols L (Suc i) ?n))) [0..<27]"
  have cc: "count_codes L ?n = (?c, ?N)" using count_codes_eq [OF order_refl le] coded_canon [OF le] by simp
  have ls: "length (level_starts ?c ?N) = 27" "\<And>i. i < 27 \<Longrightarrow> level_starts ?c ?N ! i = ?N - cumul L i"
    using level_starts_eq [of ?c L ?N] by auto
  obtain lv tree where f: "fill_levels ?n ?B (level_starts ?c ?N) L = (lv, tree)" "length lv = 27" "length tree = ?n"
    "\<forall>i<27. lv ! i = ?N - cumul L i - length (symbols L (Suc i) ?n)"
    "\<forall>p<?n. tree ! p = (if p < ?N \<and> canon L ! (?N - 1 - p) < ?n then L ! p OR leaf_word base (canon L ! (?N - 1 - p)) else L ! p)"
    using fill_levels_eq [OF le base ls order_refl] by blast
  have N: "?N \<le> ?n" using length_canon_le [OF le] .
  have hi: "hi_half (tree ! (?N - 1 - j)) = 2 * (canon L ! j + base) + 1" if j: "j < ?N" for j
  proof -
    let ?p = "?N - 1 - j"
    have p: "?p < ?N" "?p < ?n" "?N - 1 - ?p = j" using j N by auto
    have s: "canon L ! j < ?n" using canon_nth(1) [OF le j] .
    then have "tree ! ?p = L ! ?p OR leaf_word base (canon L ! j)" using f(5) p by simp
    then show ?thesis using leaf_word_or(1) [OF _ base [OF s], of "L ! ?p"] le p(2) by simp
  qed
  have run: "Decoding L ?n (of_nat base) = (if ?N = 1 then
       let t = drop_bit 16 (tree ! 0) in Inr (tree[0 := t OR push_bit 16 t])
     else if ?N > 1 then (case HuffmanSubTree lv tree (int ?N - 1) (int ?N - 1) 0 of Inl e \<Rightarrow> Inl e | Inr (_, tree) \<Rightarrow> Inr tree)
     else Inr tree)"
    using complete_valid [OF c refl] cc f(1) by (simp add: Decoding_def)
  consider (none) "?N = 0" | (one) "?N = 1" | (more) "?N > 1" by linarith
  then show ?thesis
  proof cases
    case none
    then have "\<forall>s<?n. L ! s = 0" using set_canon [OF le] by auto
    then have "tree_decodes L base tree" "L \<noteq> [] \<longrightarrow> tree ! 0 = 0" using f(5) by (auto simp: tree_decodes_def none)
    moreover have "tree \<noteq> [] \<longleftrightarrow> L \<noteq> []" using f(3) by (metis length_0_conv)
    ultimately show ?thesis using none run f(3) tree_safe_zero [of tree base ?n] by auto
  next
    case one
    let ?t = "drop_bit 16 (tree ! 0)" and ?s = "canon L ! 0"
    let ?D = "tree[0 := ?t OR push_bit 16 ?t]"
    have s: "?s < ?n" "L ! ?s \<noteq> 0" "place L ?s = 0" using canon_nth [OF le, of 0] one by simp_all
    have only: "s = ?s" if "s < ?n" "L ! s \<noteq> 0" for s
    proof -
      have "s \<in> set (canon L)" using that set_canon [OF le] by simp
      then show ?thesis using one by (auto simp: in_set_conv_nth)
    qed
    have D0: "?D ! 0 = push_bit 16 (drop_bit 16 (tree ! 0)) OR drop_bit 16 (tree ! 0)" using one N f(3) by (subst nth_list_update_eq) (auto simp: or.commute)
    have "lo_half (?D ! 0) = 2 * (?s + base) + 1" "hi_half (?D ! 0) = 2 * (?s + base) + 1"
      unfolding D0 leaf_words using hi [of 0] one by simp_all
    then have h: "half 0 1 ?D 0 0 (Node (Leaf (?s + base)) (Leaf (?s + base)))" by (intro half_node) simp_all
    have "L = (replicate ?n 0)[?s := 1]"
    proof -
      have "place_value L ?N < 2 ^ 27"
      proof -
        have "2 ^ (27 - place_length L 0) \<le> (2 ^ 26 :: nat)" using canon_nth(3) [OF le, of 0] one by (intro power_increasing) simp_all
        moreover have "place_value L 1 = 2 ^ (27 - place_length L 0)" using place_value_Suc [OF le, of 0] one by (simp add: place_value_def)
        ultimately show ?thesis using one by simp
      qed
      then have "sum_list (map share L) \<noteq> 2 ^ 27" using place_value_all [OF le] by simp
      moreover have "L \<noteq> replicate ?n 0" using s by (metis nth_replicate)
      ultimately obtain s' where s': "s' < ?n" "L = (replicate ?n 0)[s' := 1]" using c unfolding complete_def by blast
      then have "L ! s' \<noteq> 0" by (metis length_replicate nth_list_update_eq zero_neq_one)
      then show ?thesis using s' only by blast
    qed
    then have "unat (L ! ?s) = 1" using s(1) by (metis length_replicate nth_list_update_eq unsigned_1)
    moreover have "code_value L ?s = 0" using code_value_place [OF le s(1,2)] s(3) by (simp add: place_value_def)
    ultimately have "walk (Node (Leaf (?s + base)) (Leaf (?s + base))) (path_bits 0 (unat (L ! ?s)) (code_value L ?s) @ rest) = Some (?s + base, rest)" for rest
      by (simp add: path_bits_def)
    then have "tree_decodes L base ?D"
      unfolding tree_decodes_def using h only N one f(3) by (metis One_nat_def length_list_update)
    moreover have "tree_safe base ?n ?D"
    proof (rule tree_safe_half [OF h])
      have "?n - 1 + base < 2 ^ 15" using s(1) by (intro base) simp
      then show "base + ?n \<le> 2 ^ 15" by simp
    qed (use s(1) N one f(3) in auto)
    ultimately show ?thesis using one run f(3) by (simp add: Let_def)
  next
    case more
    have "place_value L ?N = 2 ^ 27"
    proof -
      have "L \<noteq> replicate ?n 0" using canon_nth(1,2) [OF le, of 0] more by (metis nth_replicate order_less_trans zero_less_one)
      moreover have False if "s < ?n" "L = (replicate ?n 0)[s := 1]" for s
      proof -
        have "canon L ! 0 = s" "canon L ! 1 = s"
          using canon_nth(1,2) [OF le, of 0] canon_nth(1,2) [OF le, of 1] more that(2) by (metis length_replicate nth_list_update_neq nth_replicate order_less_trans zero_less_one)+
        moreover have "canon L ! 0 = canon L ! 1 \<longleftrightarrow> (0 :: nat) = 1"
          by (intro nth_eq_iff_index_eq distinct_canon) (use more in linarith)+
        ultimately show False by simp
      qed
      ultimately have "sum_list (map share L) = 2 ^ 27" using c unfolding complete_def by blast
      then show ?thesis using place_value_all [OF le] by simp
    qed
    have lv: "lv ! d = ?N - cumul L (Suc d)" if "d < 27" for d using f(4) that by (simp add: cumul_Suc)
    have sy: "canon L ! j + base < 2 ^ 15" if "j < ?N" for j using base canon_nth(1) [OF le that] by blast
    have pl: "\<forall>j. 0 \<le> j \<and> j < ?N \<longrightarrow> 0 < place_length L j" using canon_nth(3) [OF le] by fastforce
    have "canon L \<noteq> []" using more by (cases "canon L") simp_all
    moreover have "place_value L 0 = 0" by (simp add: place_value_def)
    ultimately obtain k t tree' where st: "HuffmanSubTree lv tree (int (?N - 1)) (int ?N - 1 - int 0) 0 = Inr (int (?N - 1 + 1 - k), tree')"
      "subtree_ok L base (?N - 1) 0 0 tree k t tree'"
      using HuffmanSubTree_tree [OF le _ f(2) lv sy, of 0 0 "?N - 1" tree] pl \<open>place_value L ?N = 2 ^ 27\<close> hi more N n f(3) by auto
    note S = st(2) [unfolded subtree_ok_def]
    have "place_value L k = place_value L ?N" using S \<open>place_value L ?N = 2 ^ 27\<close> \<open>place_value L 0 = 0\<close> by simp
    then have k: "k = ?N" using place_value_less [OF le order_refl, of k] conjunct1 [OF conjunct2 [OF S]] by (metis add_0 le_neq_implies_less less_irrefl)
    have "\<exists>l r. t = Node l r" using S by (elim conjE)
    then obtain l r where t: "t = Node l r" by blast
    have h: "half 0 (?N - 1) tree' 0 0 (Node l r)" using S k t more by simp
    have w: "walk (Node l r) (path_bits 0 (unat (L ! s)) (code_value L s) @ rest) = Some (s + base, rest)"
      if s: "s < ?n" "L ! s \<noteq> 0" for s rest
    proof -
      have "unat (L ! s) \<le> 27" using le s(1) by simp
      then have p: "canon L ! place L s = s" "place L s < 0 + k" using place_nth [OF s] k by simp_all
      then have "walk t (path_bits 0 (place_length L (place L s)) (place_value L (place L s)) @ rest) = Some (canon L ! place L s + base, rest)"
        using S by blast
      then show ?thesis unfolding place_length_def p(1) t code_value_place [OF le s] .
    qed
    have len: "length tree' = length tree" using S by blast
    then have "?N - 1 \<le> length tree'" using N f(3) by simp
    then have "tree_decodes L base tree'" unfolding tree_decodes_def using h w by blast
    moreover have "tree_safe base ?n tree'"
    proof (rule tree_safe_half [OF h \<open>?N - 1 \<le> length tree'\<close>])
      have "set (leaves (Node l r)) \<subseteq> (\<lambda>j. canon L ! j + base) ` {0..<?N}" using S k t by auto
      moreover have "canon L ! j + base \<in> {base..<base + ?n}" if "j < ?N" for j using canon_nth(1) [OF le that] by simp
      ultimately show "set (leaves (Node l r)) \<subseteq> {base..<base + ?n}" by auto
      have "?n - 1 + base < 2 ^ 15" using more N by (intro base) simp
      then show "base + ?n \<le> 2 ^ 15" by simp
    qed
    moreover have "int (?N - 1) = int ?N - 1" using more by simp
    ultimately show ?thesis using run more st(1) len f(3) by simp
  qed
qed

lemma Decoding_decodes:
  assumes "complete L" "\<And>s. s < length L \<Longrightarrow> s + base < 2 ^ 15" "length L < 2 ^ 14"
  shows "\<exists>D. Decoding L (length L) (of_nat base) = Inr D \<and> length D = length L \<and> tree_decodes L base D"
  using Decoding_tree [OF assms] by blast

section \<open>Messages\<close>

text \<open>Canonical codes of a complete table are read as they are written.\<close>

interpretation canonical: symbol_code "projr (Encoding L (length L))" "projr (Decoding L (length L) (of_nat base))" base
  "\<lambda>s. complete L \<and> length L < 2 ^ 14 \<and> base \<le> 512 \<and> s < length L \<and> L ! s \<noteq> 0" for L base
proof
  fix s assume u: "complete L \<and> length L < 2 ^ 14 \<and> base \<le> 512 \<and> s < length L \<and> L ! s \<noteq> 0"
  obtain T where T: "Encoding L (length L) = Inr T" "T ! s = of_nat (code_value L s) OR push_bit 27 (L ! s)"
    using Encoding_nth [of L] u by auto
  note P = code_bits_path [of L s]
  then show "code_ok (projr (Encoding L (length L)) ! s)" using T u by simp
  fix st m rest
  assume st: "in_ok st" "in_bits m st = code_bits (projr (Encoding L (length L)) ! s) @ rest"
  obtain D where D: "Decoding L (length L) (of_nat base) = Inr D" "tree_decodes L base D"
    using Decoding_decodes [of L base] u by force
  show "\<exists>s'. input_HuffmanL m (projr (Decoding L (length L) (of_nat base))) st = Inr (of_nat (s + base), s') \<and> in_ok s' \<and> in_bits m s' = rest"
    using tree_decodes_read [OF D(2), of s st m rest] D(1) T u st P by simp
qed

text \<open>Reading \<open>n\<close> symbols with calls of \<open>TBitInput::HuffmanL\<close>\<close>

primrec read_symbols :: "memory \<Rightarrow> 32 word list \<Rightarrow> nat \<Rightarrow> TBitInput \<Rightarrow> failure + 32 word list \<times> TBitInput" where
  "read_symbols m D 0 st = Inr ([], st)"
| "read_symbols m D (Suc n) st =
    (case input_HuffmanL m D st of Inl e \<Rightarrow> Inl e
     | Inr (v, st) \<Rightarrow> (case read_symbols m D n st of Inl e \<Rightarrow> Inl e | Inr (vs, st) \<Rightarrow> Inr (v # vs, st)))"

text \<open>The file that \<open>TFileOutput\<close> writes for a list of codes, with padding at its end\<close>

definition coded_file :: "32 word list \<Rightarrow> byte list" where
  "coded_file codes = iOutStream (FlushL (PadL 1 (fold output_HuffmanL codes (TFileOutput_new []))))"

context symbol_code
begin

lemma write_message:
  assumes "\<forall>s\<in>set syms. used s" "out_ok out"
  shows "out_ok (fold output_HuffmanL (map ((!) table) syms) out) \<and>
    out_bits (fold output_HuffmanL (map ((!) table) syms) out) = out_bits out @ concat (map (\<lambda>s. code_bits (table ! s)) syms)"
  using assms
proof (induction syms arbitrary: out)
  case (Cons s syms)
  then show ?case using code_write [of s out] Cons.IH [of "output_HuffmanL (table ! s) out"] by simp
qed simp

lemma read_message:
  assumes "\<forall>s\<in>set syms. used s" "in_ok st" "in_bits m st = concat (map (\<lambda>s. code_bits (table ! s)) syms) @ rest"
  shows "\<exists>st'. read_symbols m tree (length syms) st = Inr (map (\<lambda>s. of_nat (s + base)) syms, st')"
  using assms
proof (induction syms arbitrary: st)
  case (Cons s syms)
  then obtain st1 where "input_HuffmanL m tree st = Inr (of_nat (s + base), st1)" "in_ok st1"
    "in_bits m st1 = concat (map (\<lambda>s. code_bits (table ! s)) syms) @ rest"
    using code_read [of s st m "concat (map (\<lambda>s. code_bits (table ! s)) syms) @ rest"] by auto
  then show ?case using Cons.IH [of st1] Cons.prems(1) by auto
qed simp

lemma message_roundtrip:
  assumes "\<forall>s\<in>set syms. used s" "bytes = coded_file (map ((!) table) syms)" "map m [a..<a + length bytes] = bytes"
  shows "\<exists>st'. read_symbols m tree (length syms) (Set m a (int (8 * length bytes)) 0) = Inr (map (\<lambda>s. of_nat (s + base)) syms, st')"
proof -
  let ?out = "fold output_HuffmanL (map ((!) table) syms) (TFileOutput_new [])"
  have w: "out_ok ?out" "out_bits ?out = concat (map (\<lambda>s. code_bits (table ! s)) syms)"
    using write_message [OF assms(1), of "TFileOutput_new []"] by simp_all
  then obtain pad where p: "concat (map (\<lambda>s. code_bits (table ! s)) syms) @ pad = bytes_bits bytes"
    using PadL_bits [OF w(1), of 1] assms(2) by (auto simp: coded_file_def FlushL_stream)
  have "in_ok (Set m a (int (8 * length bytes)) 0)" "in_bits m (Set m a (int (8 * length bytes)) 0) = bytes_bits bytes"
    using Set_bits [of "int (8 * length bytes)" m a] mem_bits_bytes [of m a "length bytes"] assms(3) by (simp_all del: of_nat_mult)
  then show ?thesis using read_message [OF assms(1), of "Set m a (int (8 * length bytes)) 0" m pad] p by simp
qed

end

text \<open>
  C6. Huffman coding is inverse to decoding: for any table of frequencies that add up to less than 832040, \<open>Huffman::HuffmanL\<close>
  makes a table of code lengths from which \<open>Encoding\<close> makes codes and \<open>Decoding\<close> a tree, and every message of symbols
  with a frequency that is written with these codes by \<open>TBitOutput::HuffmanL\<close> and padded is read back symbol for symbol with
  the tree by \<open>TBitInput::HuffmanL\<close>, from any address of memory.
\<close>

theorem HuffmanL_roundtrip:
  assumes "length f < 2 ^ 14" "(\<Sum>s<length f. unat (f ! s)) < 832040" "base \<le> 512"
  shows "\<exists>L T D. HuffmanL f (length f) = Inr L \<and> Encoding L (length f) = Inr T \<and> Decoding L (length f) (of_nat base) = Inr D \<and>
    (\<forall>syms m a. (\<forall>s\<in>set syms. s < length f \<and> f ! s \<noteq> 0) \<longrightarrow>
      (let bytes = coded_file (map ((!) T) syms); m' = put_bytes m a bytes in
       \<exists>st. read_symbols m' D (length syms) (Set m' a (int (8 * length bytes)) 0) = Inr (map (\<lambda>s. of_nat (s + base)) syms, st)))"
proof -
  obtain L where L: "HuffmanL f (length f) = Inr L" "lengths_for f L" using HuffmanL_succeeds [of f "length f"] assms by auto
  then have c: "complete L" "length L = length f" "\<forall>s<length f. (L ! s \<noteq> 0) = (f ! s \<noteq> 0)" by (simp_all add: lengths_for_def)
  obtain T where T: "Encoding L (length L) = Inr T" using Encoding_nth [OF c(1)] by blast
  obtain D where D: "Decoding L (length L) (of_nat base) = Inr D" using Decoding_decodes [OF c(1), of base] c(2) assms(1,3) by fastforce
  show ?thesis
    using canonical.message_roundtrip [of _ L base] L(1) T D c assms(1,3) bytes_at_put_same [unfolded bytes_at_def, OF refl] by (auto simp: Let_def)
qed

theorem HuffmanL_roundtrip_witness:
  "\<exists>L T D. HuffmanL [3, 1, 0, 1] 4 = Inr L \<and> Encoding L 4 = Inr T \<and> Decoding L 4 0 = Inr D \<and>
    (let bytes = coded_file [T ! 0, T ! 3, T ! 0, T ! 1]; m' = put_bytes (\<lambda>_. 0) 2 bytes in
     \<exists>st. read_symbols m' D 4 (Set m' 2 (int (8 * length bytes)) 0) = Inr ([0, 3, 0, 1], st))"
proof -
  let ?f = "[3, 1, 0, 1] :: 32 word list"
  have four: "length ?f = 4" by simp
  have "{..<4 :: nat} = {0, 1, 2, 3}" by auto
  then have "(\<Sum>s<4. unat (?f ! s)) < 832040" by simp
  then have "length ?f < 2 ^ 14" "(\<Sum>s<length ?f. unat (?f ! s)) < 832040" "(0 :: nat) \<le> 512" unfolding four by simp_all
  from HuffmanL_roundtrip [OF this] obtain L T D where r: "HuffmanL ?f 4 = Inr L" "Encoding L 4 = Inr T" "Decoding L 4 (of_nat 0) = Inr D"
    "\<forall>syms m a. (\<forall>s\<in>set syms. s < 4 \<and> ?f ! s \<noteq> 0) \<longrightarrow>
      (let bytes = coded_file (map ((!) T) syms); m' = put_bytes m a bytes in
       \<exists>st. read_symbols m' D (length syms) (Set m' a (int (8 * length bytes)) 0) = Inr (map (\<lambda>s. of_nat (s + 0)) syms, st))"
    unfolding four by blast
  have "\<forall>s\<in>set [0, 3, 0, 1]. s < 4 \<and> ?f ! s \<noteq> 0" by simp
  note m = mp [OF spec [OF spec [OF spec [OF r(4), of "[0, 3, 0, 1]"], of "\<lambda>_. 0"], of 2] this]
  have "length [0, 3, 0, 1 :: nat] = 4" "map (\<lambda>s. of_nat (s + 0)) [0, 3, 0, 1] = ([0, 3, 0, 1] :: 32 word list)"
    "map ((!) T) [0, 3, 0, 1] = [T ! 0, T ! 3, T ! 0, T ! 1]" by simp_all
  note m = m [unfolded this]
  have "Decoding L 4 0 = Inr D" using r(3) by simp
  then show ?thesis using r(1,2) m by blast
qed

end
