(* ===== verification/Huffman_Store.thy ===== *)
theory Huffman_Store
  imports Huffman_Coding
begin

text \<open>
  The stored form of a table of code lengths (\<open>Huffman::ExternalizeL\<close> in \<open>encode.cpp\<close> and
  \<open>Huffman::InternalizeL\<close> in \<open>decode.cpp\<close>): the lengths go through a move-to-front coder, runs of
  equal lengths become numbers in a base-2 notation, and the symbols are written with a fixed
  Huffman code.  What \<open>ExternalizeL\<close> writes is read back by \<open>InternalizeL\<close>.
\<close>

section \<open>Writing the table\<close>

definition HuffmanEncoding :: "32 word list" where
  "HuffmanEncoding = [0x10000000, 0x1c000000, 0x12000000, 0x1d000000, 0x26000000, 0x26800000, 0x2f000000, 0x37400000,
    0x37600000, 0x37800000, 0x3fa00000, 0x3fb00000, 0x3fc00000, 0x3fd00000, 0x47e00000, 0x47e80000,
    0x47f00000, 0x4ff80000, 0x57fc0000, 0x5ffe0000, 0x67ff0000, 0x77ff8000, 0x7fffa000, 0x7fffb000,
    0x7fffc000, 0x7fffd000, 0x7fffe000, 0x87fff000, 0x87fff800]"

function (sequential) EncodeRunLengthL :: "TFileOutput \<Rightarrow> nat \<Rightarrow> TFileOutput" where
  "EncodeRunLengthL aOutput aLength =
    (if aLength > 0 then
       let aOutput = EncodeRunLengthL aOutput (drop_bit 1 (aLength - 1))
       in output_HuffmanL (HuffmanEncoding ! (1 - (aLength AND 1))) aOutput
     else aOutput)"
  by pat_completeness auto
termination
  by (relation "measure snd") (auto simp: drop_bit_Suc)

declare EncodeRunLengthL.simps [simp del]

abbreviation (input) KMetaCodes :: nat where "KMetaCodes \<equiv> 28"

text \<open>The search in the list of the move-to-front coder; the range of an index is checked by an assertion.\<close>

function (sequential) find_code :: "byte list \<Rightarrow> 32 word \<Rightarrow> nat \<Rightarrow> nat option" where
  "find_code list c j =
    (if j \<ge> length list then None else if ucast (list ! j) \<noteq> c then find_code list c (j + 1) else Some j)"
  by pat_completeness auto
termination
  by (relation "measure (\<lambda>(list, _, j). length list - j)") auto

declare find_code.simps [simp del]

primrec externalize_loop :: "32 word list \<Rightarrow> byte list \<Rightarrow> 32 word \<Rightarrow> nat \<Rightarrow> TFileOutput \<Rightarrow> failure + nat \<times> TFileOutput" where
  "externalize_loop [] list last_c rl aOutput = Inr (rl, aOutput)"
| "externalize_loop (c # cs) list last_c rl aOutput =
    (if c = last_c then externalize_loop cs list last_c (rl + 1) aOutput
     else let aOutput = EncodeRunLengthL aOutput rl
     in case find_code list c 1 of
       None \<Rightarrow> Inl Undefined
     | Some j \<Rightarrow>
         let aOutput = output_HuffmanL (HuffmanEncoding ! (j + 1)) aOutput;
             list = shift_up 1 j list
         in externalize_loop cs (list[1 := ucast last_c]) c 0 aOutput)"

definition ExternalizeL :: "TFileOutput \<Rightarrow> 32 word list \<Rightarrow> nat \<Rightarrow> failure + TFileOutput" where
  "ExternalizeL aOutput aHuffman aNumCodes =
    (case externalize_loop (take aNumCodes aHuffman) (map of_nat [0..<KMetaCodes]) 0 0 aOutput of
       Inl e \<Rightarrow> Inl e
     | Inr (rl, aOutput) \<Rightarrow> Inr (EncodeRunLengthL aOutput rl))"

section \<open>Reading the table\<close>

definition HuffmanDecoding :: "32 word list" where
  "HuffmanDecoding = [0x0004006c, 0x00040064, 0x0004005c, 0x00040050, 0x00040044, 0x0004003c, 0x00040034, 0x00040021,
    0x00040023, 0x00040025, 0x00040027, 0x00040029, 0x00040014, 0x0004000c, 0x00040035, 0x00390037,
    0x00330031, 0x0004002b, 0x002f002d, 0x001f001d, 0x001b0019, 0x00040013, 0x00170015, 0x0004000d,
    0x0011000f, 0x000b0009, 0x00070003, 0x00050001]"

text \<open>
  One length is stored at index \<open>p\<close>.  The check is made for \<open>p > end\<close> and lets a length through that
  belongs one word behind the array.
\<close>

definition put_length :: "nat \<Rightarrow> 32 word \<Rightarrow> nat \<times> 32 word list \<Rightarrow> failure + nat \<times> 32 word list" where
  "put_length aNumCodes last_c st =
    (let (p, aHuffman) = st
     in if p > aNumCodes then Inl (Panic EHuffmanCorruptFile)
     else if p \<ge> length aHuffman then Inl Undefined
     else Inr (p + 1, aHuffman[p := last_c]))"

primrec put_run :: "nat \<Rightarrow> 32 word \<Rightarrow> nat \<Rightarrow> nat \<times> 32 word list \<Rightarrow> failure + nat \<times> 32 word list" where
  "put_run aNumCodes last_c 0 st = Inr st"
| "put_run aNumCodes last_c (Suc rl) st =
    (case put_length aNumCodes last_c st of Inl e \<Rightarrow> Inl e | Inr st \<Rightarrow> put_run aNumCodes last_c rl st)"

function (sequential) internalize_loop ::
  "memory \<Rightarrow> nat \<Rightarrow> byte list \<Rightarrow> 32 word \<Rightarrow> nat \<Rightarrow> nat \<times> 32 word list \<Rightarrow> TBitInput \<Rightarrow> failure + 32 word list \<times> TBitInput" where
  "internalize_loop m aNumCodes list last_c rl st aInput =
    (if fst st + rl < aNumCodes then
      (case input_HuffmanL m HuffmanDecoding aInput of
         Inl e \<Rightarrow> Inl e
       | Inr (c, aInput) \<Rightarrow>
           if c < 2 then internalize_loop m aNumCodes list last_c (rl + rl + unat c + 1) st aInput
           else (case put_run aNumCodes last_c rl st of
              Inl e \<Rightarrow> Inl e
            | Inr st \<Rightarrow>
                let c = unat c - 1;
                    list = list[0 := ucast last_c]
                in if c \<ge> length list then Inl Undefined
                else let
                  last_c = ucast (list ! c);
                  list = shift_up 0 c list
                in case put_length aNumCodes last_c st of
                  Inl e \<Rightarrow> Inl e
                | Inr st \<Rightarrow> internalize_loop m aNumCodes list last_c 0 st aInput))
     else case put_run aNumCodes last_c rl st of
       Inl e \<Rightarrow> Inl e
     | Inr (_, aHuffman) \<Rightarrow> Inr (aHuffman, aInput))"
  by pat_completeness auto
termination
  by (relation "measure (\<lambda>(_, _, _, _, _, _, s). nat (bits_left s))") (auto simp: input_HuffmanL_def dest!: huffman_loop_bits_left)

declare internalize_loop.simps [simp del]

definition InternalizeL :: "memory \<Rightarrow> TBitInput \<Rightarrow> 32 word list \<Rightarrow> nat \<Rightarrow> failure + 32 word list \<times> TBitInput" where
  "InternalizeL m aInput aHuffman aNumCodes = internalize_loop m aNumCodes (map of_nat [0..<KMetaCodes]) 0 0 (0, aHuffman) aInput"

section \<open>The fixed code\<close>

text \<open>The tree that \<open>HuffmanDecoding\<close> stands for\<close>

definition fixed_tree :: htree where
  "fixed_tree =
     Node (Node (Leaf 0) (Leaf 2)) (Node (Node (Leaf 1) (Leaf 3)) (Node (Node (Leaf 4) (Leaf 5)) (Node (Node (Leaf
     6) (Node (Leaf 7) (Leaf 8))) (Node (Node (Leaf 9) (Node (Leaf 10) (Leaf 11))) (Node (Node (Leaf 12) (Leaf 13))
     (Node (Node (Leaf 14) (Leaf 15)) (Node (Leaf 16) (Node (Leaf 17) (Node (Leaf 18) (Node (Leaf 19) (Node (Leaf
     20) (Node (Node (Leaf 21) (Node (Leaf 22) (Leaf 23))) (Node (Node (Leaf 24) (Leaf 25)) (Node (Leaf 26) (Node
     (Leaf 27) (Leaf 28))))))))))))))))"

text \<open>The halves of the entries of the table\<close>

lemma fixed_halves:
  "lo_half (HuffmanDecoding ! 0) = 108" "hi_half (HuffmanDecoding ! 0) = 4"
  "lo_half (HuffmanDecoding ! (Suc 0)) = 100" "hi_half (HuffmanDecoding ! (Suc 0)) = 4"
  "lo_half (HuffmanDecoding ! 2) = 92" "hi_half (HuffmanDecoding ! 2) = 4"
  "lo_half (HuffmanDecoding ! 3) = 80" "hi_half (HuffmanDecoding ! 3) = 4"
  "lo_half (HuffmanDecoding ! 4) = 68" "hi_half (HuffmanDecoding ! 4) = 4"
  "lo_half (HuffmanDecoding ! 5) = 60" "hi_half (HuffmanDecoding ! 5) = 4"
  "lo_half (HuffmanDecoding ! 6) = 52" "hi_half (HuffmanDecoding ! 6) = 4"
  "lo_half (HuffmanDecoding ! 7) = 33" "hi_half (HuffmanDecoding ! 7) = 4"
  "lo_half (HuffmanDecoding ! 8) = 35" "hi_half (HuffmanDecoding ! 8) = 4"
  "lo_half (HuffmanDecoding ! 9) = 37" "hi_half (HuffmanDecoding ! 9) = 4"
  "lo_half (HuffmanDecoding ! 10) = 39" "hi_half (HuffmanDecoding ! 10) = 4"
  "lo_half (HuffmanDecoding ! 11) = 41" "hi_half (HuffmanDecoding ! 11) = 4"
  "lo_half (HuffmanDecoding ! 12) = 20" "hi_half (HuffmanDecoding ! 12) = 4"
  "lo_half (HuffmanDecoding ! 13) = 12" "hi_half (HuffmanDecoding ! 13) = 4"
  "lo_half (HuffmanDecoding ! 14) = 53" "hi_half (HuffmanDecoding ! 14) = 4"
  "lo_half (HuffmanDecoding ! 15) = 55" "hi_half (HuffmanDecoding ! 15) = 57"
  "lo_half (HuffmanDecoding ! 16) = 49" "hi_half (HuffmanDecoding ! 16) = 51"
  "lo_half (HuffmanDecoding ! 17) = 43" "hi_half (HuffmanDecoding ! 17) = 4"
  "lo_half (HuffmanDecoding ! 18) = 45" "hi_half (HuffmanDecoding ! 18) = 47"
  "lo_half (HuffmanDecoding ! 19) = 29" "hi_half (HuffmanDecoding ! 19) = 31"
  "lo_half (HuffmanDecoding ! 20) = 25" "hi_half (HuffmanDecoding ! 20) = 27"
  "lo_half (HuffmanDecoding ! 21) = 19" "hi_half (HuffmanDecoding ! 21) = 4"
  "lo_half (HuffmanDecoding ! 22) = 21" "hi_half (HuffmanDecoding ! 22) = 23"
  "lo_half (HuffmanDecoding ! 23) = 13" "hi_half (HuffmanDecoding ! 23) = 4"
  "lo_half (HuffmanDecoding ! 24) = 15" "hi_half (HuffmanDecoding ! 24) = 17"
  "lo_half (HuffmanDecoding ! 25) = 9" "hi_half (HuffmanDecoding ! 25) = 11"
  "lo_half (HuffmanDecoding ! 26) = 3" "hi_half (HuffmanDecoding ! 26) = 7"
  "lo_half (HuffmanDecoding ! 27) = 1" "hi_half (HuffmanDecoding ! 27) = 5"
  by (simp_all add: HuffmanDecoding_def lo_half_def hi_half_def)

lemma half_branch: "half a b arr p h (Node l r) \<longleftrightarrow> h mod 4 = 0 \<and> a \<le> p + h div 4 \<and> p + h div 4 < b \<and>
    half a b arr (p + h div 4) (lo_half (arr ! (p + h div 4))) l \<and> half a b arr (p + h div 4) (hi_half (arr ! (p + h div 4))) r"
  by (simp add: Let_def)

lemma HuffmanDecoding_half: "half 0 28 HuffmanDecoding 0 0 fixed_tree"
  unfolding fixed_tree_def by (simp add: fixed_halves half_branch numeral_2_eq_2 [symmetric] del: half.simps(2))

lemma fixed_codes:
  "map (\<lambda>c. walk fixed_tree (code_bits c)) HuffmanEncoding = map (\<lambda>k. Some (k, [])) [0..<29]"
  by (simp add: HuffmanEncoding_def fixed_tree_def code_bits_def top_bits_def upt_rec)

lemma walk_append: "walk t bs = Some (k, []) \<Longrightarrow> walk t (bs @ rest) = Some (k, rest)"
  by (induction t bs rule: walk.induct) auto

lemma only_top_push_0: "only_top n w \<longleftrightarrow> push_bit n w = 0"
proof
  assume w: "only_top n w"
  have "\<not> bit (push_bit n w) i" for i using only_topD [OF w, of "i - n"] by (auto simp: bit_simps)
  then show "push_bit n w = 0" by (intro bit_eqI) simp
next
  assume "push_bit n w = 0"
  then have "bit (push_bit n w) (n + i) \<longleftrightarrow> False" for i by simp
  then show "only_top n w" unfolding only_top_def by (simp add: bit_push_bit_iff) (metis add.commute not_le)
qed

lemma code_ok_iff: "code_ok c \<longleftrightarrow> push_bit (unat (drop_bit 27 c)) (push_bit 5 c) = 0"
  by (simp only: code_ok_def only_top_push_0)

lemma fixed_code_ok: "list_all (\<lambda>c. push_bit (unat (drop_bit 27 c)) (push_bit 5 c) = 0) HuffmanEncoding"
  by (simp add: HuffmanEncoding_def)

lemma fixed_code_read:
  assumes "k < 29" "in_ok s" "in_bits m s = code_bits (HuffmanEncoding ! k) @ rest"
  shows "\<exists>s'. input_HuffmanL m HuffmanDecoding s = Inr (of_nat k, s') \<and> in_ok s' \<and> in_bits m s' = rest"
proof -
  have n: "length HuffmanEncoding = 29" "length HuffmanDecoding = 28" by (simp_all add: HuffmanEncoding_def HuffmanDecoding_def)
  have "walk fixed_tree (code_bits (HuffmanEncoding ! k)) = map (\<lambda>c. walk fixed_tree (code_bits c)) HuffmanEncoding ! k"
    using assms(1) n(1) by simp
  then have "walk fixed_tree (code_bits (HuffmanEncoding ! k)) = Some (k, [])" using assms(1) unfolding fixed_codes by simp
  then have w: "walk fixed_tree (code_bits (HuffmanEncoding ! k) @ rest) = Some (k, rest)" by (rule walk_append)
  obtain l r where t: "fixed_tree = Node l r" by (simp add: fixed_tree_def)
  have "half 0 28 HuffmanDecoding 0 (hi_half 0) (Node l r)" using HuffmanDecoding_half t by (simp add: hi_half_def)
  from huffman_loop_walk [OF this _ w [unfolded t] assms(2,3)] show ?thesis using n(2) by (simp add: input_HuffmanL_def)
qed

interpretation fixed: symbol_code HuffmanEncoding HuffmanDecoding 0 "\<lambda>k. k < 29"
proof
  fix k :: nat assume "k < 29"
  moreover have "length HuffmanEncoding = 29" by (simp add: HuffmanEncoding_def)
  ultimately show "code_ok (HuffmanEncoding ! k)" using fixed_code_ok unfolding code_ok_iff by (simp add: list_all_length)
qed (use fixed_code_read in simp)

section \<open>The symbols of a table\<close>

definition sym_bits :: "nat list \<Rightarrow> bool list" where
  "sym_bits ks = concat (map (\<lambda>k. code_bits (HuffmanEncoding ! k)) ks)"

lemma sym_bits_simps [simp]: "sym_bits [] = []" "sym_bits (k # ks) = code_bits (HuffmanEncoding ! k) @ sym_bits ks"
  "sym_bits (ks @ ks') = sym_bits ks @ sym_bits ks'"
  by (simp_all add: sym_bits_def)

fun run_syms :: "nat \<Rightarrow> nat list" where
  "run_syms n = (if n > 0 then run_syms ((n - 1) div 2) @ [1 - n mod 2] else [])"

declare run_syms.simps [simp del]

fun table_syms :: "32 word list \<Rightarrow> byte list \<Rightarrow> 32 word \<Rightarrow> nat \<Rightarrow> nat list" where
  "table_syms [] list last_c rl = run_syms rl"
| "table_syms (c # cs) list last_c rl =
    (if c = last_c then table_syms cs list last_c (rl + 1)
     else let j = the (find_code list c 1)
     in run_syms rl @ (j + 1) # table_syms cs ((shift_up 1 j list)[1 := ucast last_c]) c 0)"

lemma length_run_syms: "length (run_syms n) \<le> n"
proof (induction n rule: run_syms.induct)
  case (1 n)
  show ?case
  proof (cases "n > 0")
    case True
    then have "length (run_syms ((n - 1) div 2)) \<le> n - 1" using "1.IH" div_le_dividend [of "n - 1" 2] by (meson le_trans)
    then show ?thesis using True by (simp add: run_syms.simps [of n])
  qed (simp add: run_syms.simps)
qed

lemma length_table_syms: "length (table_syms cs list last_c rl) \<le> rl + length cs"
proof (induction cs list last_c rl rule: table_syms.induct)
  case (2 c cs list last_c rl)
  then show ?case using length_run_syms [of rl] by (auto simp: Let_def)
qed (simp add: length_run_syms)

lemma length_sym_bits: "length (sym_bits ks) \<le> 31 * length ks"
proof (induction ks)
  case (Cons k ks)
  then show ?case using length_code_bits [of "HuffmanEncoding ! k"] by simp
qed simp

lemma EncodeRunLengthL_bits:
  "out_ok out \<Longrightarrow> out_ok (EncodeRunLengthL out n) \<and> out_bits (EncodeRunLengthL out n) = out_bits out @ sym_bits (run_syms n)"
proof (induction n rule: run_syms.induct)
  case (1 n)
  show ?case
  proof (cases "n > 0")
    case True
    let ?o = "EncodeRunLengthL out ((n - 1) div 2)"
    have "EncodeRunLengthL out n = output_HuffmanL (HuffmanEncoding ! (1 - n mod 2)) ?o"
      using True by (simp add: EncodeRunLengthL.simps [of _ n] Let_def drop_bit_Suc and_one_eq)
    then show ?thesis using "1.IH" [OF True "1.prems"] fixed.code_write [of "1 - n mod 2" ?o] True
      by (simp add: run_syms.simps [of n])
  next
    case False
    then show ?thesis using "1.prems" by (simp add: EncodeRunLengthL.simps run_syms.simps)
  qed
qed

text \<open>All lengths that can occur are the last length or stand in the list behind the first place.\<close>

definition mtf_ok :: "byte list \<Rightarrow> 32 word \<Rightarrow> bool" where
  "mtf_ok list last_c \<longleftrightarrow> length list = 28 \<and> unat last_c < 28 \<and>
     (\<forall>c. unat c < 28 \<longrightarrow> c = last_c \<or> (\<exists>j. 1 \<le> j \<and> j < 28 \<and> ucast (list ! j) = c))"

lemma find_code_Some: "find_code list c j = Some i \<Longrightarrow> j \<le> i \<and> i < length list \<and> ucast (list ! i) = c"
proof (induction list c j rule: find_code.induct)
  case (1 list c j)
  then show ?case by (subst (asm) (2) find_code.simps) (auto split: if_splits)
qed

lemma find_code_ex: "j \<le> i \<Longrightarrow> i < length list \<Longrightarrow> ucast (list ! i) = c \<Longrightarrow> \<exists>k. find_code list c j = Some k"
proof (induction list c j rule: find_code.induct)
  case (1 list c j)
  show ?case
  proof (cases "ucast (list ! j) = c")
    case True
    then show ?thesis using 1 by (subst find_code.simps) auto
  next
    case False
    then have "Suc j \<le> i" using 1 by (metis le_antisym not_less_eq_eq)
    then show ?thesis using 1 False by (subst find_code.simps) auto
  qed
qed

lemma unat_take_byte: "unat (c :: 32 word) < 256 \<Longrightarrow> take_bit 8 c = c"
  by (rule word_unat_eq_iff [THEN iffD2]) (simp only: unsigned_take_bit_eq, simp add: take_bit_nat_eq_self)

lemma ucast_byte: "unat (c :: 32 word) < 28 \<Longrightarrow> ucast (ucast c :: byte) = c"
  by (simp add: unat_take_byte unsigned_ucast_eq)

lemma mtf_step:
  assumes "mtf_ok list last_c" "unat c < 28" "c \<noteq> last_c"
  obtains j where "find_code list c 1 = Some j" "1 \<le> j" "j < 28" "ucast (list ! j) = c"
    "mtf_ok ((shift_up 1 j list)[1 := ucast last_c]) c"
proof -
  have l: "length list = 28" using assms(1) by (simp add: mtf_ok_def)
  obtain i where i: "1 \<le> i" "i < 28" "ucast (list ! i) = c" using assms by (auto simp: mtf_ok_def)
  then obtain j where j: "find_code list c 1 = Some j" using find_code_ex l by metis
  from find_code_Some [OF this] have j': "1 \<le> j" "j < 28" "ucast (list ! j) = c" using l by auto
  let ?l = "(shift_up 1 j list)[1 := ucast last_c]"
  have "\<exists>k. 1 \<le> k \<and> k < 28 \<and> ucast (?l ! k) = d" if d: "unat d < 28" "d \<noteq> c" for d :: "32 word"
  proof (cases "d = last_c")
    case True
    then show ?thesis using ucast_byte [OF d(1)] l by (intro exI [of _ 1]) simp
  next
    case False
    then obtain k where k: "1 \<le> k" "k < 28" "ucast (list ! k) = d" using assms(1) d by (auto simp: mtf_ok_def)
    show ?thesis
    proof (cases "k < j")
      case True
      then show ?thesis using k l j' by (intro exI [of _ "k + 1"]) (simp add: nth_shift_up)
    next
      case False
      moreover have "k \<noteq> j" using k j' d by auto
      ultimately show ?thesis using k l j' by (intro exI [of _ k]) (simp add: nth_shift_up)
    qed
  qed
  then have "mtf_ok ?l c" using l assms(2) unfolding mtf_ok_def by auto
  then show ?thesis using j j' that by blast
qed

lemma externalize_loop_bits:
  assumes "\<forall>c\<in>set cs. unat c < 28" "mtf_ok list last_c" "out_ok out"
  shows "\<exists>rl' out'. externalize_loop cs list last_c rl out = Inr (rl', out') \<and> out_ok out' \<and>
    out_bits (EncodeRunLengthL out' rl') = out_bits out @ sym_bits (table_syms cs list last_c rl)"
  using assms
proof (induction cs arbitrary: list last_c rl out)
  case Nil
  then show ?case using EncodeRunLengthL_bits by simp
next
  case (Cons c cs)
  show ?case
  proof (cases "c = last_c")
    case True
    then show ?thesis using Cons.IH [of list last_c out "rl + 1"] Cons.prems by simp
  next
    case False
    obtain j where j: "find_code list c 1 = Some j" "1 \<le> j" "j < 28" "mtf_ok ((shift_up 1 j list)[1 := ucast last_c]) c"
      using mtf_step [OF Cons.prems(2) _ False] Cons.prems(1) by auto
    let ?o = "EncodeRunLengthL out rl"
    note E = EncodeRunLengthL_bits [OF Cons.prems(3), of rl]
    note W = fixed.code_write [of "j + 1" ?o]
    show ?thesis using Cons.IH [OF _ j(4), of "output_HuffmanL (HuffmanEncoding ! (j + 1)) ?o" 0] Cons.prems(1) E W j False
      by (simp add: Let_def)
  qed
qed

section \<open>Reading a table back\<close>

lemma put_run_eq:
  "p + r \<le> n \<Longrightarrow> n \<le> length A \<Longrightarrow> put_run n c r (p, A) = Inr (p + r, take p A @ replicate r c @ drop (p + r) A)"
proof (induction r arbitrary: p A)
  case (Suc r)
  have "take (Suc p) (A[p := c]) = take p A @ [c]" using Suc.prems by (simp add: take_Suc_conv_app_nth)
  then show ?case using Suc.IH [of "Suc p" "A[p := c]"] Suc.prems by (simp add: put_length_def)
qed simp

lemma run_step: "0 < r \<Longrightarrow> (r - 1) div 2 + (r - 1) div 2 + (1 - r mod 2) + 1 = (r :: nat)"
proof (cases "even r")
  case True
  then obtain b where b: "r = 2 * b" by (rule evenE)
  assume "0 < r"
  then obtain a where "b = Suc a" using b by (cases b) auto
  then show ?thesis using b by simp
qed (auto elim!: oddE)

lemma internalize_run:
  assumes "in_ok s" "in_bits m s = sym_bits (run_syms r) @ rest" "0 < r \<Longrightarrow> p + (r - 1) div 2 < n"
  shows "\<exists>s'. internalize_loop m n list c 0 (p, A) s = internalize_loop m n list c r (p, A) s' \<and> in_ok s' \<and> in_bits m s' = rest"
  using assms
proof (induction r arbitrary: rest rule: run_syms.induct)
  case (1 r)
  show ?case
  proof (cases "r > 0")
    case True
    let ?q = "(r - 1) div 2" and ?k = "1 - r mod 2"
    have bits: "in_bits m s = sym_bits (run_syms ?q) @ code_bits (HuffmanEncoding ! ?k) @ rest"
      using "1.prems"(2) True by (simp add: run_syms.simps [of r])
    have q: "p + ?q < n" "?q + ?q + ?k + 1 = r" using "1.prems"(3) run_step [OF True] True by linarith+
    have "p + (?q - 1) div 2 < n" using q(1) div_le_dividend [of "?q - 1" 2] by linarith
    with "1.IH" [OF True "1.prems"(1) bits] obtain s1 where s1:
      "internalize_loop m n list c 0 (p, A) s = internalize_loop m n list c ?q (p, A) s1" "in_ok s1"
      "in_bits m s1 = code_bits (HuffmanEncoding ! ?k) @ rest"
      by blast
    have "?k < 29" by (rule order.strict_trans1 [OF diff_le_self]) simp
    then obtain s2 where s2: "input_HuffmanL m HuffmanDecoding s1 = Inr (of_nat ?k, s2)" "in_ok s2" "in_bits m s2 = rest"
      using fixed.code_read [OF _ s1(2,3)] by (metis add_0_right)
    have k: "(of_nat ?k :: 32 word) < 2" "unat (of_nat ?k :: 32 word) = ?k" by (cases "even r"; simp add: odd_iff_mod_2_eq_one)+
    then have "internalize_loop m n list c ?q (p, A) s1 = internalize_loop m n list c (?q + ?q + ?k + 1) (p, A) s2"
      using q(1) s2(1) by (subst internalize_loop.simps) simp
    then show ?thesis using s1(1) s2(2,3) q(2) by auto
  next
    case False
    then show ?thesis using "1.prems" by (auto simp: run_syms.simps)
  qed
qed

lemma internalize_loop_reads:
  assumes "\<forall>c\<in>set cs. unat c < 28" "mtf_ok list last_c" "length dlist = 28" "\<And>i. 1 \<le> i \<Longrightarrow> i < 28 \<Longrightarrow> dlist ! i = list ! i"
    and "in_ok s" "in_bits m s = sym_bits (table_syms cs list last_c rl) @ rest" "p + rl + length cs = n" "n \<le> length A"
  shows "\<exists>s'. internalize_loop m n dlist last_c 0 (p, A) s = Inr (take p A @ replicate rl last_c @ cs @ drop n A, s') \<and>
    in_ok s' \<and> in_bits m s' = rest"
  using assms
proof (induction cs arbitrary: list last_c dlist s rl p A)
  case Nil
  have "p + (rl - 1) div 2 < n" if "0 < rl" using Nil.prems(7) that run_step [OF that] by simp
  then obtain s' where s': "internalize_loop m n dlist last_c 0 (p, A) s = internalize_loop m n dlist last_c rl (p, A) s'"
    "in_ok s'" "in_bits m s' = rest"
    using Nil internalize_run [of s m rl rest p n dlist last_c A] by auto
  show ?case using s' Nil.prems put_run_eq [of p rl n A last_c] by (subst (asm) (2) internalize_loop.simps) auto
next
  case (Cons c cs)
  show ?case
  proof (cases "c = last_c")
    case True
    then show ?thesis using Cons.IH [OF _ Cons.prems(2-5), of "rl + 1" p A] Cons.prems
      by (simp add: replicate_append_same [symmetric])
  next
    case False
    obtain j where j: "find_code list c 1 = Some j" "1 \<le> j" "j < 28" "ucast (list ! j) = c" "mtf_ok ((shift_up 1 j list)[1 := ucast last_c]) c"
      using mtf_step [OF Cons.prems(2) _ False] Cons.prems(1) by auto
    let ?l = "(shift_up 1 j list)[1 := ucast last_c]" and ?d = "shift_up 0 j (dlist[0 := ucast last_c])"
    have n: "p + rl < n" using Cons.prems(7) by simp
    then have half: "p + (rl - 1) div 2 < n" using div_le_dividend [of "rl - 1" 2] by linarith
    have len: "length list = 28" using Cons.prems(2) by (simp add: mtf_ok_def)
    have bits: "in_bits m s = sym_bits (run_syms rl) @ code_bits (HuffmanEncoding ! (j + 1)) @ sym_bits (table_syms cs ?l c 0) @ rest"
      using Cons.prems(6) False j(1) by (simp add: Let_def)
    obtain s1 where s1: "internalize_loop m n dlist last_c 0 (p, A) s = internalize_loop m n dlist last_c rl (p, A) s1" "in_ok s1"
      "in_bits m s1 = code_bits (HuffmanEncoding ! (j + 1)) @ sym_bits (table_syms cs ?l c 0) @ rest"
      using internalize_run [OF Cons.prems(5) bits, of p n dlist last_c A] half by auto
    obtain s2 where s2: "input_HuffmanL m HuffmanDecoding s1 = Inr (of_nat (j + 1), s2)" "in_ok s2"
      "in_bits m s2 = sym_bits (table_syms cs ?l c 0) @ rest"
      using fixed.code_read [OF _ s1(2,3)] j(3) by auto
    have k: "unat (of_nat (j + 1) :: 32 word) = j + 1" "\<not> (of_nat (j + 1) :: 32 word) < 2"
    proof -
      show u: "unat (of_nat (j + 1) :: 32 word) = j + 1" using j(3) by (intro unat_of_nat_small) simp
      show "\<not> (of_nat (j + 1) :: 32 word) < 2" unfolding word_less_nat_alt u using j(2) by simp
    qed
    define A' where "A' = (take p A @ replicate rl last_c @ drop (p + rl) A)[p + rl := c]"
    have run: "internalize_loop m n dlist last_c rl (p, A) s1 = internalize_loop m n ?d c 0 (p + rl + 1, A') s2"
      using n s2(1) k put_run_eq [of p rl n A last_c] Cons.prems(3,4,8) j
      by (subst internalize_loop.simps) (simp add: Let_def put_length_def A'_def)
    have d: "?d ! i = ?l ! i" if "1 \<le> i" "i < 28" for i
      using that Cons.prems(3,4) len j(2,3) by (simp add: nth_shift_up nth_list_update)
    have A': "length A' = length A" "take (p + rl + 1) A' = take p A @ replicate rl last_c @ [c]" "drop n A' = drop n A"
      using n Cons.prems(8) by (simp_all add: A'_def take_Suc_conv_app_nth)
    show ?thesis
      using Cons.IH [OF _ j(5) _ d s2(2,3), of "p + rl + 1" A'] Cons.prems A' run s1(1) by simp
  qed
qed

lemma put_run_overrun: "p \<le> n \<Longrightarrow> length A = n \<Longrightarrow> n < p + r \<Longrightarrow> put_run n c r (p, A) = Inl Undefined"
proof (induction r arbitrary: p A)
  case (Suc r)
  then show ?case using Suc.IH [of "Suc p" "A[p := c]"] by (cases "p = n") (simp_all add: put_length_def)
qed simp

text \<open>
  C28. A corrupt table overruns the array: if the first run of the stored table is longer than the
  array, \<open>InternalizeL\<close> does not stop with \<open>EHuffmanCorruptFile\<close>, because its check compares \<open>p > end\<close>; it
  writes the word behind the array first.
\<close>

theorem InternalizeL_overrun:
  assumes "in_ok s" "in_bits m s = sym_bits (run_syms r) @ rest" "(r - 1) div 2 < length A" "length A < r"
  shows "InternalizeL m s A (length A) = Inl Undefined"
proof -
  let ?list = "map of_nat [0..<KMetaCodes] :: byte list"
  obtain s' where "internalize_loop m (length A) ?list 0 0 (0, A) s = internalize_loop m (length A) ?list 0 r (0, A) s'"
    using internalize_run [OF assms(1,2), of 0 "length A" ?list 0 A] assms(3) by auto
  then show ?thesis using assms(4) put_run_overrun [of 0 "length A" A r 0]
    by (simp add: InternalizeL_def internalize_loop.simps [of m "length A" ?list 0 r])
qed

theorem InternalizeL_overrun_witness:
  "InternalizeL (\<lambda>_. 0) \<lparr>iCount = int (length (code_bits (HuffmanEncoding ! 1))), iBits_in = push_bit 5 (HuffmanEncoding ! 1), iRemain = 0, iPtr = 0\<rparr> [0] 1 = Inl Undefined"
proof -
  let ?s = "\<lparr>iCount = int (length (code_bits (HuffmanEncoding ! 1))), iBits_in = push_bit 5 (HuffmanEncoding ! 1), iRemain = 0, iPtr = 0\<rparr>"
  have "in_ok ?s" using length_code_bits [of "HuffmanEncoding ! 1"] by (simp add: in_ok_def)
  moreover have "in_bits (\<lambda>_. 0) ?s = sym_bits (run_syms 2) @ []"
    by (simp add: in_bits_def run_syms.simps [of 2] run_syms.simps [of 0]) (simp add: code_bits_def)
  ultimately show ?thesis using InternalizeL_overrun [of ?s "\<lambda>_. 0" 2 "[]" "[0]"] by simp
qed

lemma ExternalizeL_restores:
  assumes "\<forall>l\<in>set L. unat l \<le> 27" "out_ok out"
  shows "\<exists>out' bits. ExternalizeL out L (length L) = Inr out' \<and> out_ok out' \<and> out_bits out' = out_bits out @ bits \<and> length bits \<le> 31 * length L \<and>
    (\<forall>m s A rest. in_ok s \<longrightarrow> in_bits m s = bits @ rest \<longrightarrow> length A = length L \<longrightarrow>
      (\<exists>s'. InternalizeL m s A (length L) = Inr (L, s') \<and> in_ok s' \<and> in_bits m s' = rest))"
proof -
  let ?list = "map of_nat [0..<KMetaCodes] :: byte list"
  have L: "\<forall>c\<in>set L. unat c < 28" using assms(1) by auto
  have m: "mtf_ok ?list 0" unfolding mtf_ok_def
  proof (intro conjI allI impI)
    fix c :: "32 word" assume c: "unat c < 28"
    then have "?list ! unat c = ucast c" by simp
    then have "ucast (?list ! unat c) = c" using ucast_byte [OF c] by simp
    moreover have "1 \<le> unat c" if "c \<noteq> 0" using that by (simp add: Suc_le_eq unat_gt_0)
    ultimately show "c = 0 \<or> (\<exists>j. 1 \<le> j \<and> j < 28 \<and> ucast (?list ! j) = c)" using c by blast
  qed simp_all
  obtain rl out' where e: "externalize_loop L ?list 0 0 out = Inr (rl, out')" "out_ok out'"
    "out_bits (EncodeRunLengthL out' rl) = out_bits out @ sym_bits (table_syms L ?list 0 0)"
    using externalize_loop_bits [OF L m assms(2), of 0] by blast
  have "\<exists>s'. InternalizeL m s A (length L) = Inr (L, s') \<and> in_ok s' \<and> in_bits m s' = rest"
    if "in_ok s" "in_bits m s = sym_bits (table_syms L ?list 0 0) @ rest" "length A = length L" for m s A rest
    using internalize_loop_reads [OF L m _ _ that(1,2), of ?list 0 "length L" A] that(3) by (simp add: InternalizeL_def)
  moreover have "length (sym_bits (table_syms L ?list 0 0)) \<le> 31 * length L"
    using length_sym_bits [of "table_syms L ?list 0 0"] length_table_syms [of L ?list 0 0] by simp
  ultimately show ?thesis using e EncodeRunLengthL_bits [OF e(2), of rl]
    by (intro exI [of _ "EncodeRunLengthL out' rl"] exI [of _ "sym_bits (table_syms L ?list 0 0)"]) (simp add: ExternalizeL_def)
qed

text \<open>
  C14. A table of code lengths is restored: \<open>InternalizeL\<close> reads what \<open>ExternalizeL\<close> wrote, takes exactly
  those bits from the stream and fills the array with the same lengths.
\<close>

theorem ExternalizeL_roundtrip:
  assumes "\<forall>l\<in>set L. unat l \<le> 27" "out_ok out"
  shows "\<exists>out' bits. ExternalizeL out L (length L) = Inr out' \<and> out_ok out' \<and> out_bits out' = out_bits out @ bits \<and> length bits \<le> 31 * length L \<and>
    (\<forall>m s A rest. in_ok s \<longrightarrow> in_bits m s = bits @ rest \<longrightarrow> length A = length L \<longrightarrow>
      (\<exists>s'. InternalizeL m s A (length L) = Inr (L, s') \<and> in_ok s' \<and> in_bits m s' = rest))"
  using assms by (rule ExternalizeL_restores)

theorem ExternalizeL_roundtrip_witness:
  "\<exists>out' bits. ExternalizeL (TFileOutput_new []) [1, 2, 2] 3 = Inr out' \<and> out_bits out' = bits \<and>
    (\<forall>m s. in_ok s \<longrightarrow> in_bits m s = bits \<longrightarrow> (\<exists>s'. InternalizeL m s [0, 0, 0] 3 = Inr ([1, 2, 2], s')))"
proof -
  have "\<forall>l\<in>set [1, 2, 2 :: 32 word]. unat l \<le> 27" by simp
  from ExternalizeL_roundtrip [OF this TFileOutput_new_ok(1), of "[]"] obtain out' bits where
    e: "ExternalizeL (TFileOutput_new []) [1, 2, 2] 3 = Inr out'" "out_bits out' = bits"
    and r: "\<And>m s A rest. in_ok s \<Longrightarrow> in_bits m s = bits @ rest \<Longrightarrow> length A = 3 \<Longrightarrow> \<exists>s'. InternalizeL m s A 3 = Inr ([1, 2, 2], s') \<and> in_ok s' \<and> in_bits m s' = rest"
    by (auto simp: numeral_3_eq_3)
  have "\<exists>s'. InternalizeL m s [0, 0, 0] 3 = Inr ([1, 2, 2], s')" if "in_ok s" "in_bits m s = bits" for m s
    using r [OF that(1), of m "[]" "[0, 0, 0]"] that(2) by auto
  then show ?thesis using e by blast
qed

end
