(* ===== verification/Deflate.thy ===== *)
theory Deflate
  imports Huffman_Store
begin

text \<open>
  The compressor of \<open>elf2e32\<close> (\<open>deflate.cpp\<close> and \<open>compress.cpp\<close> in \<open>deflate/deflate\<close>): matches are found by
  chains of positions with an equal hash, the output of the generic algorithm goes to virtual
  methods that either count symbols or write codes.  The data is memory from \<open>aBase\<close> on; pointers
  are addresses.
\<close>

abbreviation (input) KDeflateMinLength :: nat where "KDeflateMinLength \<equiv> 3"
abbreviation (input) KDeflateMaxLength :: nat where "KDeflateMaxLength \<equiv> 258"
abbreviation (input) KDeflateMaxDistance :: nat where "KDeflateMaxDistance \<equiv> 4096"
abbreviation (input) KDeflateDistCodeBase :: nat where "KDeflateDistCodeBase \<equiv> 512"
abbreviation (input) ELiterals :: nat where "ELiterals \<equiv> 256"
abbreviation (input) EEos :: nat where "EEos \<equiv> 284"
abbreviation (input) ELitLens :: nat where "ELitLens \<equiv> 285"
abbreviation (input) EDistances :: nat where "EDistances \<equiv> 44"
abbreviation (input) KDeflationCodes :: nat where "KDeflationCodes \<equiv> 329"

section \<open>Chains of positions with equal hash\<close>

record HDeflateHash =
  iHash :: "int list"
  iOffset :: "16 word list"

definition HDeflateHash_NewLC :: "nat \<Rightarrow> HDeflateHash" where
  "HDeflateHash_NewLC aLinks =
    \<lparr>iHash = replicate 256 (- int KDeflateMaxDistance - 1), iOffset = replicate (min aLinks KDeflateMaxDistance) 0\<rparr>"

definition Hash :: "memory \<Rightarrow> addr \<Rightarrow> nat" where
  "Hash m aPtr =
    (let x = ucast (m aPtr) OR push_bit 8 (ucast (m (aPtr + 1))) OR push_bit 16 (ucast (m (aPtr + 2))) :: 32 word
     in unat (drop_bit 24 (x * 0xAC4B9B19)))"

definition First :: "memory \<Rightarrow> addr \<Rightarrow> nat \<Rightarrow> HDeflateHash \<Rightarrow> int \<times> HDeflateHash" where
  "First m aPtr aPos aHash =
    (let h = Hash m aPtr;
         offset = min (int aPos - iHash aHash ! h) (push_bit 1 (int KDeflateMaxDistance))
     in (offset, aHash\<lparr>iHash := (iHash aHash)[h := int aPos],
           iOffset := (iOffset aHash)[aPos AND (KDeflateMaxDistance - 1) := word_of_int offset]\<rparr>))"

definition Next :: "nat \<Rightarrow> nat \<Rightarrow> HDeflateHash \<Rightarrow> nat" where
  "Next aPos aOffset aHash = aOffset + unat (iOffset aHash ! ((aPos - aOffset) AND (KDeflateMaxDistance - 1)))"

section \<open>Matches\<close>

text \<open>The inner loop of \<open>Match\<close>: whether the end was reached, and the pointer \<open>m\<close> after the loop\<close>

function (sequential) compare_loop :: "memory \<Rightarrow> addr \<Rightarrow> addr \<Rightarrow> addr \<Rightarrow> bool \<times> addr" where
  "compare_loop mem p m aEnd =
    (let eq = (mem p = mem m); p = p + 1; m = m + 1
     in if \<not> eq then (False, m) else if m < aEnd then compare_loop mem p m aEnd else (True, m))"
  by pat_completeness auto
termination
  by (relation "measure (\<lambda>(_, _, m, aEnd). aEnd - m)") auto

declare compare_loop.simps [simp del]

text \<open>
  The outer loop of \<open>Match\<close>; \<open>None\<close> is a loop that does not end.  A match is its length, shifted by 16
  bits, with the offset in the lower bits.
\<close>

partial_function (option) match_loop ::
  "memory \<Rightarrow> addr \<Rightarrow> addr \<Rightarrow> nat \<Rightarrow> HDeflateHash \<Rightarrow> nat \<Rightarrow> byte \<Rightarrow> nat \<Rightarrow> nat option" where
  "match_loop mem aPtr aEnd aPos aHash match' c offset =
    (let p = aPtr - offset;
         (ret, match', c) =
           (if mem (p + drop_bit 16 match') = c then
              let (full, m) = compare_loop mem p aPtr aEnd
              in if full then (True, push_bit 16 (m - aPtr) OR offset, c)
              else let l = m - aPtr - 1
              in if l > drop_bit 16 match' then (False, push_bit 16 l OR offset, mem (m - 1)) else (False, match', c)
            else (False, match', c))
     in if ret then Some match'
     else let offset = Next aPos offset aHash
     in if offset \<le> KDeflateMaxDistance then match_loop mem aPtr aEnd aPos aHash match' c offset else Some match')"

definition Match :: "memory \<Rightarrow> addr \<Rightarrow> addr \<Rightarrow> nat \<Rightarrow> HDeflateHash \<Rightarrow> (nat \<times> HDeflateHash) option" where
  "Match mem aPtr aEnd aPos aHash =
    (let (offset, aHash) = First mem aPtr aPos aHash
     in if offset > int KDeflateMaxDistance then Some (0, aHash)
     else let aEnd = min aEnd (aPtr + KDeflateMaxLength)
     in case match_loop mem aPtr aEnd aPos aHash 0 (mem aPtr) (nat offset) of
       None \<Rightarrow> None
     | Some match' \<Rightarrow> Some (match', aHash))"

section \<open>The generic algorithm\<close>

text \<open>The virtual methods of \<open>MDeflater\<close>, on a state of their class\<close>

record 's MDeflater =
  LitLenL :: "nat \<Rightarrow> 's \<Rightarrow> 's"
  OffsetL :: "nat \<Rightarrow> 's \<Rightarrow> 's"
  ExtraL :: "nat \<Rightarrow> 32 word \<Rightarrow> 's \<Rightarrow> 's"

fun extra_loop :: "nat \<Rightarrow> nat \<Rightarrow> nat \<times> nat" where
  "extra_loop extralen len = (if len \<ge> 8 then extra_loop (extralen + 1) (len div 2) else (extralen, len))"

declare extra_loop.simps [simp del]

definition SegmentL :: "'s MDeflater \<Rightarrow> nat \<Rightarrow> nat \<Rightarrow> 's \<Rightarrow> 's" where
  "SegmentL this aLength aDistance s =
    (let aLength = aLength - KDeflateMinLength;
         (extralen, len) = extra_loop 0 aLength;
         s = LitLenL this (push_bit 2 extralen + len + ELiterals) s;
         s = (if extralen \<noteq> 0 then ExtraL this extralen (of_nat aLength) s else s);
         aDistance = aDistance - 1;
         (extralen, dist) = extra_loop 0 aDistance;
         s = OffsetL this (push_bit 2 extralen + dist) s
     in if extralen \<noteq> 0 then ExtraL this extralen (of_nat aDistance) s else s)"

text \<open>The loop that fills in hash entries for the data of a segment\<close>

function (sequential) fill_loop :: "memory \<Rightarrow> addr \<Rightarrow> addr \<Rightarrow> addr \<Rightarrow> HDeflateHash \<Rightarrow> addr \<times> HDeflateHash" where
  "fill_loop mem aBase e ptr aHash =
    (let ptr = ptr + 1;
         aHash = snd (First mem ptr (ptr - aBase) aHash)
     in if ptr < e then fill_loop mem aBase e ptr aHash else (ptr, aHash))"
  by pat_completeness auto
termination
  by (relation "measure (\<lambda>(_, _, e, ptr, _). e - ptr)") auto

declare fill_loop.simps [simp del]

lemma fill_loop_ptr: "ptr < fst (fill_loop mem aBase e ptr aHash)"
proof (induction mem aBase e ptr aHash rule: fill_loop.induct)
  case (1 mem aBase e ptr aHash)
  then show ?case by (subst fill_loop.simps) (force simp: Let_def)
qed

text \<open>The body of the loop of \<open>MDeflater::DoDeflateL\<close>, without the final increment\<close>

definition deflate_step ::
  "'s MDeflater \<Rightarrow> memory \<Rightarrow> addr \<Rightarrow> nat \<Rightarrow> addr \<Rightarrow> nat \<Rightarrow> HDeflateHash \<Rightarrow> 's \<Rightarrow> addr \<times> nat \<times> HDeflateHash \<times> 's" where
  "deflate_step this mem aBase match' ptr prev aHash s =
    (if drop_bit 16 match' < drop_bit 16 prev then
       let len = drop_bit 16 prev;
           s = SegmentL this len (prev - push_bit 16 len) s;
           e = ptr + len - 2;
           (ptr, aHash) = fill_loop mem aBase e ptr aHash
       in (ptr, 0, aHash, s)
     else if match' \<le> push_bit 16 KDeflateMinLength then (ptr, prev, aHash, LitLenL this (unat (mem ptr)) s)
     else let s = (if prev \<noteq> 0 then LitLenL this (unat (mem (ptr - 1))) s else s)
       in (ptr, match', aHash, s))"

lemma deflate_step_ptr: "ptr \<le> fst (deflate_step this mem aBase match' ptr prev aHash s)"
  using fill_loop_ptr [of ptr mem aBase "ptr + drop_bit 16 prev - 2" aHash]
  by (auto simp: deflate_step_def Let_def split: prod.splits)

function (sequential) deflate_loop ::
  "'s MDeflater \<Rightarrow> memory \<Rightarrow> addr \<Rightarrow> addr \<Rightarrow> addr \<Rightarrow> nat \<Rightarrow> HDeflateHash \<Rightarrow> 's \<Rightarrow> (addr \<times> nat \<times> 's) option" where
  "deflate_loop this mem aBase aEnd ptr prev aHash s =
    (case Match mem ptr aEnd (ptr - aBase) aHash of
       None \<Rightarrow> None
     | Some (match', aHash) \<Rightarrow>
         let (ptr, prev, aHash, s) = deflate_step this mem aBase match' ptr prev aHash s;
             ptr = ptr + 1
         in if ptr + KDeflateMinLength - 1 < aEnd then deflate_loop this mem aBase aEnd ptr prev aHash s else Some (ptr, prev, s))"
  by pat_completeness auto
termination
proof (relation "measure (\<lambda>(_, _, _, aEnd, ptr, _). aEnd - ptr)", goal_cases)
  case (2 this mem aBase aEnd ptr prev aHash s a match' aHash' x ptr' y prev' z aHash'' s' ptr'')
  then have "ptr \<le> ptr'" using deflate_step_ptr [of ptr this mem aBase match' prev aHash' s] by (metis fst_conv)
  then show ?case using 2 by simp
qed simp

declare deflate_loop.simps [simp del]

definition DoDeflateL :: "'s MDeflater \<Rightarrow> memory \<Rightarrow> addr \<Rightarrow> addr \<Rightarrow> HDeflateHash \<Rightarrow> 's \<Rightarrow> (addr \<times> 's) option" where
  "DoDeflateL this mem aBase aEnd aHash s =
    (case deflate_loop this mem aBase aEnd aBase 0 aHash s of
       None \<Rightarrow> None
     | Some (ptr, prev, s) \<Rightarrow>
         if prev \<noteq> 0 then
           let len = drop_bit 16 prev
           in Some (ptr + len - 1, SegmentL this len (prev - push_bit 16 len) s)
         else Some (ptr, s))"

definition MDeflater_DeflateL :: "'s MDeflater \<Rightarrow> memory \<Rightarrow> addr \<Rightarrow> nat \<Rightarrow> 's \<Rightarrow> 's option" where
  "MDeflater_DeflateL this mem aBase aLength s =
    (let end' = aBase + aLength
     in case (if aLength > KDeflateMinLength then DoDeflateL this mem aBase end' (HDeflateHash_NewLC aLength) s
              else Some (aBase, s)) of
       None \<Rightarrow> None
     | Some (aBase, s) \<Rightarrow>
         Some (LitLenL this EEos (fold (\<lambda>p. LitLenL this (unat (mem p))) [aBase..<end'] s)))"

section \<open>The two passes\<close>

record TEncoding =
  iLitLen :: "32 word list"
  iDistance :: "32 word list"

definition TDeflateStats :: "TEncoding MDeflater" where
  "TDeflateStats = \<lparr>
     LitLenL = (\<lambda>aCode enc. enc\<lparr>iLitLen := (iLitLen enc)[aCode := iLitLen enc ! aCode + 1]\<rparr>),
     OffsetL = (\<lambda>aCode enc. enc\<lparr>iDistance := (iDistance enc)[aCode := iDistance enc ! aCode + 1]\<rparr>),
     ExtraL = (\<lambda>_ _ enc. enc)\<rparr>"

definition TDeflater :: "TEncoding \<Rightarrow> TFileOutput MDeflater" where
  "TDeflater enc = \<lparr>
     LitLenL = (\<lambda>aCode. output_HuffmanL (iLitLen enc ! aCode)),
     OffsetL = (\<lambda>aCode. output_HuffmanL (iDistance enc ! aCode)),
     ExtraL = (\<lambda>aLen aBits. WriteL aBits (int aLen))\<rparr>"

text \<open>
  A run of the compressor that does not end is \<open>None\<close>.  \<open>ExternalizeL\<close> is given \<open>iLitLen\<close> with the
  number of all codes and goes on into \<open>iDistance\<close>, which follows in the object.
\<close>

definition DeflateL_encode :: "memory \<Rightarrow> addr \<Rightarrow> nat \<Rightarrow> TFileOutput \<Rightarrow> TEncoding \<Rightarrow> (failure + TFileOutput) option" where
  "DeflateL_encode m aBuf aLength aOutput aEncoding =
    (case MDeflater_DeflateL TDeflateStats m aBuf aLength aEncoding of
       None \<Rightarrow> None
     | Some aEncoding \<Rightarrow>
    (case HuffmanL (iLitLen aEncoding) ELitLens of
       Inl e \<Rightarrow> Some (Inl e)
     | Inr litLen \<Rightarrow>
    (case HuffmanL (iDistance aEncoding) EDistances of
       Inl e \<Rightarrow> Some (Inl e)
     | Inr distance \<Rightarrow>
    (case ExternalizeL aOutput (litLen @ distance) KDeflationCodes of
       Inl e \<Rightarrow> Some (Inl e)
     | Inr aOutput \<Rightarrow>
    (case Encoding litLen ELitLens of
       Inl e \<Rightarrow> Some (Inl e)
     | Inr litLen \<Rightarrow>
    (case Encoding distance EDistances of
       Inl e \<Rightarrow> Some (Inl e)
     | Inr distance \<Rightarrow>
    (case MDeflater_DeflateL (TDeflater \<lparr>iLitLen = litLen, iDistance = distance\<rparr>) m aBuf aLength aOutput of
       None \<Rightarrow> None
     | Some aOutput \<Rightarrow> Some (Inr (PadL 1 aOutput)))))))))"

definition DeflateL :: "memory \<Rightarrow> addr \<Rightarrow> nat \<Rightarrow> TFileOutput \<Rightarrow> (failure + TFileOutput) option" where
  "DeflateL m aBuf aLength aOutput =
    DeflateL_encode m aBuf aLength aOutput \<lparr>iLitLen = replicate ELitLens 0, iDistance = replicate EDistances 0\<rparr>"

definition DeflateCompressCheck :: "memory \<Rightarrow> addr \<Rightarrow> nat \<Rightarrow> byte list \<Rightarrow> (failure + byte list \<times> 32 word) option" where
  "DeflateCompressCheck m bytes size' os =
    (case DeflateL m bytes size' (TFileOutput_new os) of
       None \<Rightarrow> None
     | Some (Inl e) \<Rightarrow> Some (Inl e)
     | Some (Inr output) \<Rightarrow> let output = FlushL output in Some (Inr (iOutStream output, iDataCount output)))"

definition DeflateCompress :: "memory \<Rightarrow> addr \<Rightarrow> nat \<Rightarrow> byte list \<Rightarrow> (failure + byte list) option" where
  "DeflateCompress m bytes size' os =
    (case DeflateL m bytes size' (TFileOutput_new os) of
       None \<Rightarrow> None
     | Some (Inl e) \<Rightarrow> Some (Inl e)
     | Some (Inr output) \<Rightarrow> Some (Inr (iOutStream (FlushL output))))"

end
