(* ===== verification/Deflate_Match.thy ===== *)
theory Deflate_Match
  imports Deflate
begin

text \<open>
  Matches of the compressor: the chains of positions lead back within the data, so that the search
  of \<open>Match\<close> ends and what it returns is a segment that occurs before.
\<close>

section \<open>The chains\<close>

text \<open>The link of position \<open>p\<close> leads to an earlier position, or too far back.\<close>

definition link_ok :: "nat \<Rightarrow> nat \<Rightarrow> bool" where
  "link_ok p off \<longleftrightarrow> 0 < off \<and> (off \<le> p \<or> KDeflateMaxDistance < off)"

text \<open>All positions in front of \<open>pos\<close> of data of length \<open>n\<close> have been entered.\<close>

definition hash_ok :: "HDeflateHash \<Rightarrow> nat \<Rightarrow> nat \<Rightarrow> bool" where
  "hash_ok aHash pos n \<longleftrightarrow> length (iHash aHash) = 256 \<and> length (iOffset aHash) = min n KDeflateMaxDistance \<and>
     (\<forall>h<256. iHash aHash ! h = - 4097 \<or> 0 \<le> iHash aHash ! h \<and> iHash aHash ! h < int pos) \<and>
     (\<forall>p<pos. pos \<le> p + KDeflateMaxDistance \<longrightarrow> link_ok p (unat (iOffset aHash ! (p mod KDeflateMaxDistance))))"

lemma hash_ok_new: "hash_ok (HDeflateHash_NewLC n) 0 n"
  by (simp add: hash_ok_def HDeflateHash_NewLC_def)

lemma Hash_less: "Hash m p < 256"
proof -
  have "unat (drop_bit 24 (w :: 32 word)) < 256" for w
  proof -
    have "unat w < 2 ^ 32" using unsigned_less [of w] by simp
    then show ?thesis by (simp only: unat_drop_bit_eq drop_bit_eq_div [where 'a = nat]) simp
  qed
  then show ?thesis unfolding Hash_def Let_def .
qed

lemma and_4095: "n AND 4095 = n mod KDeflateMaxDistance" for n :: nat
proof -
  have "(4095 :: nat) = mask 12" by (simp add: mask_eq_exp_minus_1)
  then have "n AND 4095 = take_bit 12 n" by (simp only: take_bit_eq_mask)
  then show ?thesis by (simp add: take_bit_eq_mod)
qed

lemma mod_near:
  assumes "p < q" "q < p + k"
  shows "p mod k \<noteq> q mod (k :: nat)"
proof
  assume "p mod k = q mod k"
  then have "k dvd q - p" using mod_eq_dvd_iff_nat [of p q k] assms by simp
  then show False using dvd_imp_le [of k "q - p"] assms by simp
qed

lemma First_ok:
  assumes "hash_ok aHash pos n" "pos < n" "First m ptr pos aHash = (off, aHash')"
  shows "hash_ok aHash' (Suc pos) n" "0 < off" "off \<le> 8192" "link_ok pos (nat off)"
proof -
  let ?h = "Hash m ptr"
  let ?v = "iHash aHash ! ?h"
  have off: "off = min (int pos - ?v) 8192"
    and h': "iHash aHash' = (iHash aHash)[?h := int pos]" "iOffset aHash' = (iOffset aHash)[pos mod 4096 := word_of_int off]"
    using assms(3) and_4095 [of pos] by (auto simp: First_def Let_def)
  have v: "?v = - 4097 \<or> 0 \<le> ?v \<and> ?v < int pos" using assms(1) Hash_less [of m ptr] by (simp add: hash_ok_def)
  then show o: "0 < off" "off \<le> 8192" "link_ok pos (nat off)" using off by (auto simp: link_ok_def)
  have l: "length (iHash aHash) = 256" "length (iOffset aHash) = min n 4096" using assms(1) by (simp_all add: hash_ok_def)
  have u: "unat (word_of_int off :: 16 word) = nat off" using o(1,2) by (simp add: unat_eq_nat_uint uint_word_of_int)
  have "pos mod 4096 < length (iOffset aHash)" using l(2) assms(2) mod_less_eq_dividend [of pos 4096] by simp
  then have "link_ok p (unat (iOffset aHash' ! (p mod 4096)))" if p: "p < Suc pos" "Suc pos \<le> p + 4096" for p
  proof (cases "p = pos")
    case True
    then show ?thesis using o(3) u h'(2) \<open>pos mod 4096 < length (iOffset aHash)\<close> by simp
  next
    case False
    then have "p mod 4096 \<noteq> pos mod 4096" using p by (intro mod_near) auto
    moreover have "link_ok p (unat (iOffset aHash ! (p mod 4096)))" using assms(1) p False by (simp add: hash_ok_def)
    ultimately show ?thesis using h'(2) by simp
  qed
  moreover have "iHash aHash' ! h = - 4097 \<or> 0 \<le> iHash aHash' ! h \<and> iHash aHash' ! h < int (Suc pos)" if "h < 256" for h
  proof -
    have "iHash aHash ! h = - 4097 \<or> 0 \<le> iHash aHash ! h \<and> iHash aHash ! h < int pos" using assms(1) that by (simp add: hash_ok_def)
    then show ?thesis using h'(1) l(1) Hash_less [of m ptr] by (cases "h = ?h") auto
  qed
  ultimately show "hash_ok aHash' (Suc pos) n" using l h' by (simp add: hash_ok_def)
qed

section \<open>The search\<close>

text \<open>\<open>l\<close> bytes at \<open>ptr\<close> are equal to those at the distance \<open>off\<close>.\<close>

definition same :: "memory \<Rightarrow> addr \<Rightarrow> nat \<Rightarrow> nat \<Rightarrow> bool" where
  "same mem ptr off l \<longleftrightarrow> (\<forall>i<l. mem (ptr - off + i) = mem (ptr + i))"

lemma compare_loop_spec:
  assumes "compare_loop mem p q e = (full, q')" "q < e"
  shows "q < q' \<and> q' \<le> e \<and> (\<forall>i<q' - q - (if full then 0 else 1). mem (p + i) = mem (q + i))"
  using assms
proof (induction mem p q e rule: compare_loop.induct)
  case (1 mem p q e)
  show ?case
  proof (cases "mem p = mem q \<and> q + 1 < e")
    case True
    then have r: "compare_loop mem (p + 1) (q + 1) e = (full, q')" using "1.prems"(1) by (subst (asm) compare_loop.simps) simp
    note IH = "1.IH" [OF refl refl refl _ _ r]
    have "mem (p + i) = mem (q + i)" if i: "i < q' - q - (if full then 0 else 1)" for i
      using IH True i by (cases i) auto
    then show ?thesis using IH True by auto
  next
    case False
    then show ?thesis using "1.prems" by (subst (asm) compare_loop.simps) (auto simp: Let_def split: if_splits)
  qed
qed

text \<open>A packed match: none, or a length and an offset that are right\<close>

definition match_ok :: "memory \<Rightarrow> addr \<Rightarrow> addr \<Rightarrow> nat \<Rightarrow> nat \<Rightarrow> bool" where
  "match_ok mem ptr e pos mt \<longleftrightarrow> mt = 0 \<or> (\<exists>l off. mt = l * 65536 + off \<and> 0 < l \<and> ptr + l \<le> e \<and> l \<le> KDeflateMaxLength \<and>
     0 < off \<and> off \<le> KDeflateMaxDistance \<and> off \<le> pos \<and> same mem ptr off l)"

lemma pack: "off \<le> KDeflateMaxDistance \<Longrightarrow> push_bit 16 l OR off = l * 65536 + (off :: nat)"
proof -
  assume o: "off \<le> KDeflateMaxDistance"
  have "\<not> bit off i" if "16 \<le> i" for i
    using o that power_increasing [OF that, of "2 :: nat"] by (simp add: bit_iff_odd)
  then have "push_bit 16 l AND off = 0" by (intro bit_eqI) (auto simp: bit_simps)
  from disjunctive_add_eq_or [OF this] show ?thesis by (simp add: push_bit_eq_mult)
qed

lemma drop_pack: "off < 65536 \<Longrightarrow> drop_bit 16 (l * 65536 + off) = (l :: nat)"
  by (simp add: drop_bit_eq_div)

lemma match_loop_ok:
  assumes h: "hash_ok aHash (Suc pos) n" and p: "ptr < e" "e \<le> ptr + KDeflateMaxLength" "pos \<le> ptr"
    and o: "0 < off" "off \<le> pos" "off \<le> KDeflateMaxDistance" and mt: "match_ok mem ptr e pos mt"
  shows "\<exists>r. match_loop mem ptr e pos aHash mt c off = Some r \<and> match_ok mem ptr e pos r"
  using o mt
proof (induction "KDeflateMaxDistance - off" arbitrary: off mt c rule: less_induct)
  case less
  have new: "match_ok mem ptr e pos (push_bit 16 l OR off)" if "0 < l" "ptr + l \<le> e" "same mem ptr off l" for l
    using that less.prems p(2) unfolding match_ok_def pack [OF less.prems(3)] by (intro disjI2 exI [of _ l] exI [of _ off]) auto
  obtain full q where q: "compare_loop mem (ptr - off) ptr e = (full, q)" by force
  note C = compare_loop_spec [OF q p(1)]
  have sm: "same mem ptr off (q - ptr - (if full then 0 else 1))" using C by (simp add: same_def)
  let ?o = "Next pos off aHash"
  have nx: "off < ?o \<and> (?o \<le> KDeflateMaxDistance \<longrightarrow> ?o \<le> pos)"
  proof (cases "off = KDeflateMaxDistance")
    case True
    have "(pos - off) mod 4096 = pos mod 4096" using True less.prems(2) by (metis le_mod_geq)
    moreover have "link_ok pos (unat (iOffset aHash ! (pos mod 4096)))" using h by (simp add: hash_ok_def)
    ultimately show ?thesis using True by (simp add: Next_def and_4095 link_ok_def)
  next
    case False
    then have "link_ok (pos - off) (unat (iOffset aHash ! ((pos - off) mod 4096)))" using h less.prems by (simp add: hash_ok_def)
    then show ?thesis using less.prems by (auto simp: Next_def and_4095 link_ok_def)
  qed
  have go: "\<exists>r. (if ?o \<le> KDeflateMaxDistance then match_loop mem ptr e pos aHash mt' c' ?o else Some mt') = Some r \<and> match_ok mem ptr e pos r"
    if "match_ok mem ptr e pos mt'" for mt' c'
    using less.hyps [of ?o mt' c'] nx that less.prems by auto
  show ?case
  proof (cases "mem (ptr - off + drop_bit 16 mt) = c")
    case True
    show ?thesis
    proof (cases full)
      case True
      then show ?thesis using \<open>mem (ptr - off + drop_bit 16 mt) = c\<close> new [of "q - ptr"] C sm q
        by (subst match_loop.simps) (simp add: Let_def)
    next
      case False
      let ?l = "q - ptr - 1"
      have "match_ok mem ptr e pos (push_bit 16 ?l OR off)" if "drop_bit 16 mt < ?l"
        using that sm False C by (intro new) auto
      then show ?thesis using \<open>mem (ptr - off + drop_bit 16 mt) = c\<close> False q go less.prems(4)
        by (subst match_loop.simps) (simp add: Let_def)
    qed
  next
    case False
    then show ?thesis using go [OF less.prems(4)] by (subst match_loop.simps) (simp add: Let_def)
  qed
qed

lemma Match_ok:
  assumes "hash_ok aHash pos n" "pos < n" "ptr < e" "pos \<le> ptr"
  shows "\<exists>mt aHash'. Match mem ptr e pos aHash = Some (mt, aHash') \<and> hash_ok aHash' (Suc pos) n \<and> match_ok mem ptr e pos mt"
proof -
  obtain off aHash' where f: "First mem ptr pos aHash = (off, aHash')" by force
  note F = First_ok [OF assms(1,2) f]
  let ?e = "min e (ptr + KDeflateMaxLength)"
  show ?thesis
  proof (cases "off > int KDeflateMaxDistance")
    case True
    then show ?thesis using f F(1) by (simp add: Match_def match_ok_def)
  next
    case False
    then have "0 < nat off" "nat off \<le> pos" "nat off \<le> KDeflateMaxDistance" using F by (auto simp: link_ok_def)
    moreover have "match_ok mem ptr ?e pos 0" by (simp add: match_ok_def)
    ultimately obtain r where r: "match_loop mem ptr ?e pos aHash' 0 (mem ptr) (nat off) = Some r" "match_ok mem ptr ?e pos r"
      using match_loop_ok [OF F(1), of ptr ?e "nat off" mem 0 "mem ptr"] assms(3,4) by auto
    have "match_ok mem ptr e pos r" using r(2) unfolding match_ok_def by auto
    then show ?thesis using f False r(1) F(1) by (simp add: Match_def)
  qed
qed

end
