(* ===== verification/Deflate_Segments.thy ===== *)
theory Deflate_Segments
  imports Deflate_Match
begin

text \<open>
  What the generic algorithm emits: both passes over the data make the same calls, and the calls
  spell literals and copies whose expansion is the data.
\<close>

section \<open>The calls of a pass\<close>

datatype token = Litlen nat | Dist nat | Extra nat "32 word"

primrec emit :: "'s MDeflater \<Rightarrow> token \<Rightarrow> 's \<Rightarrow> 's" where
  "emit this (Litlen c) s = LitLenL this c s"
| "emit this (Dist c) s = OffsetL this c s"
| "emit this (Extra n b) s = ExtraL this n b s"

text \<open>A pass that records its calls\<close>

definition recorder :: "token list MDeflater" where
  "recorder = \<lparr>LitLenL = (\<lambda>c ts. ts @ [Litlen c]), OffsetL = (\<lambda>c ts. ts @ [Dist c]), ExtraL = (\<lambda>n b ts. ts @ [Extra n b])\<rparr>"

lemma recorder_simps [simp]: "LitLenL recorder c ts = ts @ [Litlen c]" "OffsetL recorder c ts = ts @ [Dist c]"
  "ExtraL recorder n b ts = ts @ [Extra n b]"
  by (simp_all add: recorder_def)

lemma SegmentL_emit: "SegmentL this l d (fold (emit this) ts s) = fold (emit this) (SegmentL recorder l d ts) s"
  by (simp add: SegmentL_def Let_def split_beta)

lemma deflate_step_emit:
  "deflate_step this mem aBase mt ptr prev h (fold (emit this) ts s) =
    (case deflate_step recorder mem aBase mt ptr prev h ts of (p, r, h, ts) \<Rightarrow> (p, r, h, fold (emit this) ts s))"
  by (simp add: deflate_step_def SegmentL_emit Let_def split_beta)

lemma deflate_loop_emit:
  "deflate_loop this mem aBase aEnd ptr prev h (fold (emit this) ts s) =
    map_option (\<lambda>(p, r, ts). (p, r, fold (emit this) ts s)) (deflate_loop recorder mem aBase aEnd ptr prev h ts)"
proof (induction "aEnd - ptr" arbitrary: ptr prev h ts rule: less_induct)
  case less
  show ?case
  proof (cases "Match mem ptr aEnd (ptr - aBase) h")
    case None
    then show ?thesis by (simp add: deflate_loop.simps)
  next
    case (Some a)
    obtain mt h' where a: "a = (mt, h')" by force
    obtain p r h'' ts' where st: "deflate_step recorder mem aBase mt ptr prev h' ts = (p, r, h'', ts')" by (metis prod_cases4)
    then have st': "deflate_step this mem aBase mt ptr prev h' (fold (emit this) ts s) = (p, r, h'', fold (emit this) ts' s)"
      by (simp add: deflate_step_emit)
    have "ptr \<le> p" using deflate_step_ptr [of ptr recorder mem aBase mt prev h' ts] st by simp
    then have "p + 1 + KDeflateMinLength - 1 < aEnd \<Longrightarrow> aEnd - (p + 1) < aEnd - ptr" by simp
    from less [OF this] show ?thesis using Some a st st'
      by (simp add: deflate_loop.simps [of _ mem aBase aEnd ptr] Let_def)
  qed
qed

lemma MDeflater_DeflateL_emit:
  "MDeflater_DeflateL this mem aBase n s = map_option (\<lambda>ts. fold (emit this) ts s) (MDeflater_DeflateL recorder mem aBase n [])"
proof -
  have lit: "fold (\<lambda>p. LitLenL this (f p)) ps (fold (emit this) ts s) =
      fold (emit this) (fold (\<lambda>p. LitLenL recorder (f p)) ps ts) s" for f :: "nat \<Rightarrow> nat" and ps ts
  proof (induction ps arbitrary: ts)
    case (Cons p ps)
    show ?case using Cons [of "ts @ [Litlen (f p)]"] by simp
  qed simp
  have "DoDeflateL this mem aBase e h s = map_option (\<lambda>(p, ts). (p, fold (emit this) ts s)) (DoDeflateL recorder mem aBase e h [])" for e h
    using deflate_loop_emit [of this mem aBase e aBase 0 h "[]" s] SegmentL_emit [of this _ _ _ s]
    by (auto simp: DoDeflateL_def Let_def split: option.splits prod.splits)
  then show ?thesis using lit [of _ _ "[]"] lit
    by (auto simp: MDeflater_DeflateL_def Let_def split: option.splits prod.splits)
qed

section \<open>Literals and copies\<close>

datatype segment = Literal byte | Copy nat nat

primrec copy :: "nat \<Rightarrow> nat \<Rightarrow> byte list \<Rightarrow> byte list" where
  "copy 0 d out = out"
| "copy (Suc l) d out = copy l d (out @ [out ! (length out - d)])"

text \<open>The expansion of segments; a copy must not reach behind the front of the output.\<close>

primrec unpack :: "segment list \<Rightarrow> byte list \<Rightarrow> byte list option" where
  "unpack [] out = Some out"
| "unpack (sg # sgs) out =
    (case sg of
       Literal b \<Rightarrow> unpack sgs (out @ [b])
     | Copy l d \<Rightarrow>
         if KDeflateMinLength \<le> l \<and> l \<le> KDeflateMaxLength \<and> 1 \<le> d \<and> d \<le> KDeflateMaxDistance \<and> d \<le> length out
         then unpack sgs (copy l d out) else None)"

primrec seg_tokens :: "segment \<Rightarrow> token list" where
  "seg_tokens (Literal b) = [Litlen (unat b)]"
| "seg_tokens (Copy l d) = SegmentL recorder l d []"

lemma unpack_append: "unpack (as @ bs) out = Option.bind (unpack as out) (unpack bs)"
  by (induction as arbitrary: out) (auto split: segment.splits)

lemma SegmentL_recorder: "SegmentL recorder l d ts = ts @ SegmentL recorder l d []"
  by (simp add: SegmentL_def Let_def split_beta)

lemma copy_same:
  assumes "same mem q d l" "0 < d" "b + d \<le> q"
  shows "copy l d (map mem [b..<q]) = map mem [b..<q + l]"
  using assms
proof (induction l arbitrary: q)
  case (Suc l)
  have "map mem [b..<q] ! (q - b - d) = mem (q - d)" using Suc.prems(2,3) by simp
  also have "\<dots> = mem q" using Suc.prems(1) by (auto simp: same_def dest: spec [of _ 0])
  finally have "map mem [b..<q] @ [map mem [b..<q] ! (q - b - d)] = map mem [b..<Suc q]" using Suc.prems(3) by simp
  moreover have "same mem (Suc q) d l"
    using Suc.prems(1,3) unfolding same_def by (metis Suc_diff_le Suc_less_eq add_Suc add_Suc_right add_leD2)
  ultimately show ?case using Suc.IH [of "Suc q"] Suc.prems(2,3) by simp
qed simp

text \<open>The tokens spell segments that expand to the data between two addresses.\<close>

definition spells :: "memory \<Rightarrow> addr \<Rightarrow> addr \<Rightarrow> token list \<Rightarrow> bool" where
  "spells mem b q ts \<longleftrightarrow> (\<exists>sgs. ts = concat (map seg_tokens sgs) \<and> unpack sgs [] = Some (map mem [b..<q]))"

lemma spells_Nil: "spells mem b b []"
  unfolding spells_def by (intro exI [of _ "[]"]) simp

lemma spells_Literal:
  assumes "spells mem b q ts" "b \<le> q"
  shows "spells mem b (Suc q) (ts @ [Litlen (unat (mem q))])"
proof -
  from assms(1) obtain sgs where "ts = concat (map seg_tokens sgs)" "unpack sgs [] = Some (map mem [b..<q])" by (auto simp: spells_def)
  then show ?thesis unfolding spells_def using assms(2) by (intro exI [of _ "sgs @ [Literal (mem q)]"]) (simp add: unpack_append)
qed

lemma spells_Copy:
  assumes "spells mem b q ts" "b + d \<le> q" "same mem q d l" "KDeflateMinLength \<le> l" "l \<le> KDeflateMaxLength" "0 < d" "d \<le> KDeflateMaxDistance"
  shows "spells mem b (q + l) (SegmentL recorder l d ts)"
proof -
  from assms(1) obtain sgs where "ts = concat (map seg_tokens sgs)" "unpack sgs [] = Some (map mem [b..<q])" by (auto simp: spells_def)
  moreover have "copy l d (map mem [b..<q]) = map mem [b..<q + l]" using copy_same assms(2,3,6) by blast
  ultimately show ?thesis unfolding spells_def using assms(2,4-7)
    by (intro exI [of _ "sgs @ [Copy l d]"]) (simp add: unpack_append SegmentL_recorder [of _ _ "concat _"])
qed

section \<open>The loop\<close>

lemma fill_loop_ok:
  assumes "hash_ok h (Suc ptr - b) n" "b \<le> ptr" "ptr < e" "e < b + n"
  shows "\<exists>h'. fill_loop mem b e ptr h = (e, h') \<and> hash_ok h' (Suc e - b) n"
  using assms
proof (induction "e - ptr" arbitrary: ptr h rule: less_induct)
  case less
  obtain o' h' where f: "First mem (ptr + 1) (ptr + 1 - b) h = (o', h')" by force
  have "hash_ok h' (Suc (ptr + 1) - b) n" using First_ok(1) [OF _ _ f] less.prems by (simp add: Suc_diff_le)
  then show ?case using less.hyps [of "ptr + 1" h'] less.prems f
    by (subst fill_loop.simps) (cases "ptr + 1 = e"; simp add: Let_def)
qed

text \<open>A saved match is one at the address in front of \<open>ptr\<close>, and the output stops there.\<close>

definition loop_ok :: "memory \<Rightarrow> addr \<Rightarrow> nat \<Rightarrow> addr \<Rightarrow> nat \<Rightarrow> token list \<Rightarrow> bool" where
  "loop_ok mem b n ptr prev ts \<longleftrightarrow> b \<le> ptr \<and> ptr \<le> b + n \<and>
     (if prev = 0 then spells mem b ptr ts
      else b < ptr \<and> push_bit 16 KDeflateMinLength \<le> prev \<and> match_ok mem (ptr - 1) (b + n) (ptr - 1 - b) prev \<and> spells mem b (ptr - 1) ts)"

lemma match_okE:
  assumes "match_ok mem ptr e pos mt" "push_bit 16 KDeflateMinLength \<le> mt"
  obtains l d where "mt = l * 65536 + d" "drop_bit 16 mt = l" "mt - push_bit 16 l = d" "KDeflateMinLength \<le> l" "l \<le> KDeflateMaxLength"
    "ptr + l \<le> e" "0 < d" "d \<le> KDeflateMaxDistance" "d \<le> pos" "same mem ptr d l"
proof -
  obtain l d where m: "mt = l * 65536 + d" "ptr + l \<le> e" "l \<le> KDeflateMaxLength" "0 < d" "d \<le> KDeflateMaxDistance" "d \<le> pos" "same mem ptr d l"
    using assms by (auto simp: match_ok_def push_bit_eq_mult)
  moreover have "drop_bit 16 mt = l" using m by (simp add: drop_pack)
  moreover have "KDeflateMinLength \<le> l" using assms(2) m(1,5) by (simp add: push_bit_eq_mult)
  moreover have "mt - push_bit 16 l = d" using m(1) by (simp add: push_bit_eq_mult)
  ultimately show ?thesis using that by blast
qed

lemma deflate_step_ok:
  assumes "loop_ok mem b n ptr prev ts" "ptr < b + n" "hash_ok h (Suc (ptr - b)) n" "match_ok mem ptr (b + n) (ptr - b) mt"
    and st: "deflate_step recorder mem b mt ptr prev h ts = (ptr', prev', h', ts')"
  shows "loop_ok mem b n (ptr' + 1) prev' ts' \<and> hash_ok h' (ptr' + 1 - b) n"
proof -
  have b: "b \<le> ptr" using assms(1) by (simp add: loop_ok_def)
  consider (seg) "drop_bit 16 mt < drop_bit 16 prev"
    | (lit) "\<not> drop_bit 16 mt < drop_bit 16 prev" "mt \<le> push_bit 16 KDeflateMinLength"
    | (save) "\<not> drop_bit 16 mt < drop_bit 16 prev" "\<not> mt \<le> push_bit 16 KDeflateMinLength" by blast
  then show ?thesis
  proof cases
    case seg
    then have "prev \<noteq> 0" by (cases "prev = 0") auto
    then have p: "b < ptr" "push_bit 16 KDeflateMinLength \<le> prev" "match_ok mem (ptr - 1) (b + n) (ptr - 1 - b) prev" "spells mem b (ptr - 1) ts"
      using assms(1) by (auto simp: loop_ok_def)
    from p(3,2) obtain l d where l: "drop_bit 16 prev = l" "prev - push_bit 16 l = d" "KDeflateMinLength \<le> l" "l \<le> KDeflateMaxLength"
      "ptr - 1 + l \<le> b + n" "0 < d" "d \<le> KDeflateMaxDistance" "d \<le> ptr - 1 - b" "same mem (ptr - 1) d l" by (rule match_okE)
    obtain h1 where f: "fill_loop mem b (ptr + l - 2) ptr h = (ptr + l - 2, h1)" "hash_ok h1 (Suc (ptr + l - 2) - b) n"
    proof -
      have e: "ptr < ptr + l - 2" "ptr + l - 2 < b + n" using l(3,5) p(1) by linarith+
      have "hash_ok h (Suc ptr - b) n" using assms(3) b by (simp add: Suc_diff_le)
      from fill_loop_ok [OF this b e] show ?thesis using that by blast
    qed
    have "spells mem b (ptr - 1 + l) (SegmentL recorder l d ts)" using spells_Copy [OF p(4) _ l(9,3,4,6,7)] l(8) p(1) by simp
    moreover have "ptr' = ptr + l - 2" "prev' = 0" "h' = h1" "ts' = SegmentL recorder l d ts"
      using st seg f(1) l(1,2) by (auto simp: deflate_step_def Let_def)
    moreover have "ptr + l - 2 + 1 = ptr - 1 + l" using p(1) l(3) by simp
    ultimately show ?thesis using f(2) l(5) b p(1) by (simp add: loop_ok_def)
  next
    case lit
    have "prev = 0"
    proof (rule ccontr)
      assume "prev \<noteq> 0"
      then have "drop_bit 16 prev \<ge> (3 :: nat)" using assms(1) by (auto simp: loop_ok_def drop_bit_eq_div push_bit_eq_mult)
      then have "push_bit 16 KDeflateMinLength \<le> mt" "mt = push_bit 16 KDeflateMinLength"
        using lit by (auto simp: drop_bit_eq_div push_bit_eq_mult)
      then show False using match_okE [OF assms(4)] by (auto simp: push_bit_eq_mult)
    qed
    moreover have "ptr' = ptr" "prev' = prev" "h' = h" "ts' = ts @ [Litlen (unat (mem ptr))]" using st lit by (auto simp: deflate_step_def)
    ultimately show ?thesis using assms(1-3) spells_Literal [of mem b ptr ts] b by (simp add: loop_ok_def Suc_diff_le)
  next
    case save
    have "spells mem b ptr ts'"
    proof (cases "prev = 0")
      case True
      then show ?thesis using st save assms(1) by (auto simp: deflate_step_def loop_ok_def)
    next
      case False
      then have "b < ptr" "spells mem b (ptr - 1) ts" using assms(1) by (auto simp: loop_ok_def)
      then show ?thesis using st save False spells_Literal [of mem b "ptr - 1" ts] by (auto simp: deflate_step_def Let_def)
    qed
    moreover have "ptr' = ptr" "prev' = mt" "h' = h" using st save by (auto simp: deflate_step_def Let_def)
    ultimately show ?thesis using save assms(2-4) b by (auto simp: loop_ok_def Suc_diff_le)
  qed
qed

lemma deflate_loop_ok:
  assumes "loop_ok mem b n ptr prev ts" "ptr < b + n" "hash_ok h (ptr - b) n"
  shows "\<exists>ptr' prev' ts'. deflate_loop recorder mem b (b + n) ptr prev h ts = Some (ptr', prev', ts') \<and> loop_ok mem b n ptr' prev' ts'"
  using assms
proof (induction "b + n - ptr" arbitrary: ptr prev h ts rule: less_induct)
  case less
  have b: "b \<le> ptr" using less.prems(1) by (simp add: loop_ok_def)
  obtain mt h1 where m: "Match mem ptr (b + n) (ptr - b) h = Some (mt, h1)" "hash_ok h1 (Suc (ptr - b)) n" "match_ok mem ptr (b + n) (ptr - b) mt"
  proof -
    have "ptr - b < n" "ptr - b \<le> ptr" using less.prems(2) b by linarith+
    from Match_ok [OF less.prems(3) this(1) less.prems(2) this(2)] show ?thesis using that by blast
  qed
  obtain p r h2 ts2 where st: "deflate_step recorder mem b mt ptr prev h1 ts = (p, r, h2, ts2)" by (metis prod_cases4)
  have ok: "loop_ok mem b n (p + 1) r ts2" "hash_ok h2 (p + 1 - b) n"
    using deflate_step_ok [OF less.prems(1,2) m(2,3) st] by auto
  have "ptr \<le> p" using deflate_step_ptr [of ptr recorder mem b mt prev h1 ts] st by simp
  then show ?case using less.hyps [of "p + 1" r ts2 h2] ok m(1) st less.prems(2)
    by (simp add: deflate_loop.simps [of _ mem b "b + n" ptr])
qed

lemma DoDeflateL_ok:
  assumes "0 < n"
  shows "\<exists>p ts. DoDeflateL recorder mem b (b + n) (HDeflateHash_NewLC n) [] = Some (p, ts) \<and> b \<le> p \<and> p \<le> b + n \<and> spells mem b p ts"
proof -
  obtain p r ts where l: "deflate_loop recorder mem b (b + n) b 0 (HDeflateHash_NewLC n) [] = Some (p, r, ts)" "loop_ok mem b n p r ts"
    using deflate_loop_ok [of mem b n b 0 "[]" "HDeflateHash_NewLC n"] assms hash_ok_new [of n] spells_Nil [of mem b] by (auto simp: loop_ok_def)
  show ?thesis
  proof (cases "r = 0")
    case True
    then show ?thesis using l by (auto simp: DoDeflateL_def loop_ok_def)
  next
    case False
    then have r: "b < p" "push_bit 16 KDeflateMinLength \<le> r" "match_ok mem (p - 1) (b + n) (p - 1 - b) r" "spells mem b (p - 1) ts"
      using l(2) by (auto simp: loop_ok_def)
    from r(3,2) obtain k d where k: "drop_bit 16 r = k" "r - push_bit 16 k = d" "KDeflateMinLength \<le> k" "k \<le> KDeflateMaxLength"
      "p - 1 + k \<le> b + n" "0 < d" "d \<le> KDeflateMaxDistance" "d \<le> p - 1 - b" "same mem (p - 1) d k" by (rule match_okE)
    have "spells mem b (p - 1 + k) (SegmentL recorder k d ts)" using spells_Copy [OF r(4) _ k(9,3,4,6,7)] k(8) r(1) by simp
    then show ?thesis using False l(1) k r(1) by (simp add: DoDeflateL_def)
  qed
qed

lemma spells_rest:
  "spells mem b p ts \<Longrightarrow> b \<le> p \<Longrightarrow> spells mem b (p + k) (fold (\<lambda>q. LitLenL recorder (unat (mem q))) [p..<p + k] ts)"
proof (induction k)
  case (Suc k)
  then show ?case using spells_Literal [of mem b "p + k"] by simp
qed simp

lemma MDeflater_DeflateL_spells:
  "\<exists>ts. MDeflater_DeflateL recorder mem b n [] = Some (ts @ [Litlen EEos]) \<and> spells mem b (b + n) ts"
proof -
  obtain p ts where d: "(if n > KDeflateMinLength then DoDeflateL recorder mem b (b + n) (HDeflateHash_NewLC n) [] else Some (b, [])) = Some (p, ts)"
    "b \<le> p" "p \<le> b + n" "spells mem b p ts"
    using DoDeflateL_ok [of n mem b] spells_Nil [of mem b] by (cases "n > KDeflateMinLength") auto
  have "spells mem b (b + n) (fold (\<lambda>q. LitLenL recorder (unat (mem q))) [p..<b + n] ts)"
    using spells_rest [OF d(4,2), of "b + n - p"] d(3) by simp
  then show ?thesis using d(1) by (simp add: MDeflater_DeflateL_def Let_def)
qed

lemma DeflateL_tokens:
  "\<exists>sgs. (MDeflater_DeflateL recorder mem b n [] = Some (concat (map seg_tokens sgs) @ [Litlen EEos])) \<and>
    unpack sgs [] = Some (map mem [b..<b + n])"
  using MDeflater_DeflateL_spells [of mem b n] by (auto simp: spells_def)

text \<open>
  C5. The compressor finds segments of the data: the search for matches always ends, and the calls of
  \<open>MDeflater::DeflateL\<close> are those of literals and copies, followed by the end marker, whose expansion is
  the data; all lengths are between 3 and 258, and all distances at most 4096 and within the output
  so far.
\<close>

theorem MDeflater_DeflateL_segments:
  "\<exists>sgs. MDeflater_DeflateL this mem b n s = Some (LitLenL this EEos (fold (emit this) (concat (map seg_tokens sgs)) s)) \<and>
    unpack sgs [] = Some (map mem [b..<b + n])"
  using DeflateL_tokens [of mem b n] MDeflater_DeflateL_emit [of this mem b n s] by auto

end
