(* ===== verification/Inflate.thy ===== *)
theory Inflate
  imports Deflate
begin

text \<open>
  The decompressor of \<open>elf2e32\<close> (\<open>CInflater\<close> in \<open>inflate.cpp\<close>).  The output goes through a circular
  buffer of 4096 bytes; pointers into it are indices.
\<close>

record CInflater =
  iBits_inf :: TBitInput
  iRptr :: nat
  iLen :: int
  iAvail :: nat
  iLimit :: nat
  iEncoding :: TEncoding
  iOut :: "byte list"

section \<open>Construction\<close>

text \<open>\<open>InternalizeL\<close> is given \<open>iLitLen\<close> and goes on into \<open>iDistance\<close>; the new \<open>TEncoding\<close> is uninitialised memory.\<close>

definition InitL :: "memory \<Rightarrow> TBitInput \<Rightarrow> TEncoding \<Rightarrow> failure + TEncoding \<times> TBitInput" where
  "InitL m aInput enc =
    (case InternalizeL m aInput (iLitLen enc @ iDistance enc) KDeflationCodes of
       Inl e \<Rightarrow> Inl e
     | Inr (codes, aInput) \<Rightarrow>
         let litLen = take ELitLens codes; distance = drop ELitLens codes
         in if \<not> IsValid litLen ELitLens \<or> \<not> IsValid distance EDistances then Inl (Panic EHuffmanCorruptFile)
         else case Decoding litLen ELitLens 0 of
           Inl e \<Rightarrow> Inl e
         | Inr litLen \<Rightarrow> (case Decoding distance EDistances (of_nat KDeflateDistCodeBase) of
             Inl e \<Rightarrow> Inl e
           | Inr distance \<Rightarrow> Inr (\<lparr>iLitLen = litLen, iDistance = distance\<rparr>, aInput)))"

definition NewLC :: "memory \<Rightarrow> TBitInput \<Rightarrow> TEncoding \<Rightarrow> byte list \<Rightarrow> failure + CInflater" where
  "NewLC m aInput enc out =
    (case InitL m aInput enc of
       Inl e \<Rightarrow> Inl e
     | Inr (enc, aInput) \<Rightarrow> Inr \<lparr>iBits_inf = aInput, iRptr = 0, iLen = 0, iAvail = 0, iLimit = 0, iEncoding = enc, iOut = out\<rparr>)"

section \<open>Decoding into the buffer\<close>

text \<open>The loop at \<open>useHistory\<close>: the output index, the source index and the buffer after copying\<close>

primrec copy_history :: "nat \<Rightarrow> nat \<Rightarrow> nat \<Rightarrow> byte list \<Rightarrow> nat \<times> nat \<times> byte list" where
  "copy_history 0 out from buf = (out, from, buf)"
| "copy_history (Suc tfr) out from buf =
    (let buf = buf[out := buf ! from]; out = out + 1; from = from + 1;
         from = (if from = KDeflateMaxDistance then from - KDeflateMaxDistance else from)
     in copy_history tfr out from buf)"

text \<open>A transfer of no bytes would make the loop run away.\<close>

definition useHistory :: "nat \<Rightarrow> CInflater \<Rightarrow> failure + nat \<times> CInflater" where
  "useHistory out this =
    (let tfr = min (int KDeflateMaxDistance - int out) (iLen this)
     in if tfr \<le> 0 then Inl Undefined
     else let (out, from, buf) = copy_history (nat tfr) out (iRptr this) (iOut this)
     in Inr (out, this\<lparr>iLen := iLen this - tfr, iRptr := from, iOut := buf\<rparr>))"

text \<open>The extra bits of a code\<close>

definition extra_bits :: "memory \<Rightarrow> int \<Rightarrow> TBitInput \<Rightarrow> failure + int \<times> TBitInput" where
  "extra_bits m code s =
    (if code \<ge> 8 then
       let xtra = drop_bit 2 code - 1;
           code = code - push_bit 2 xtra;
           code = push_bit (nat xtra) code
       in case ReadL m xtra s of
         Inl e \<Rightarrow> Inl e
       | Inr (b, s) \<Rightarrow> Inr (code OR uint b, s)
     else Inr (code, s))"

lemma extra_bits_left: "extra_bits m code s = Inr (c, s') \<Longrightarrow> bits_left s' \<le> bits_left s"
  by (auto simp: extra_bits_def Let_def drop_bit_eq_div split: if_splits sum.splits dest!: ReadL_bits_left [rotated])

function (sequential) inflate_loop :: "memory \<Rightarrow> nat \<Rightarrow> bool \<Rightarrow> CInflater \<Rightarrow> failure + nat \<times> CInflater" where
  "inflate_loop m out distance this =
    (if \<not> out < KDeflateMaxDistance then Inr (out, this)
     else case input_HuffmanL m (if distance then iDistance (iEncoding this) else iLitLen (iEncoding this)) (iBits_inf this) of
       Inl e \<Rightarrow> Inl e
     | Inr (v, s) \<Rightarrow>
         let val = sint v - int ELiterals
         in if val < 0 then inflate_loop m (out + 1) distance (this\<lparr>iBits_inf := s, iOut := (iOut this)[out := word_of_int val]\<rparr>)
         else if val = int EEos - int ELiterals then Inr (out, this\<lparr>iBits_inf := s, iLen := - 1\<rparr>)
         else case extra_bits m (val AND 0xff) s of
           Inl e \<Rightarrow> Inl e
         | Inr (code, s) \<Rightarrow>
             let this = this\<lparr>iBits_inf := s\<rparr>
             in if val < int KDeflateDistCodeBase - int ELiterals
             then inflate_loop m out True (this\<lparr>iLen := code + int KDeflateMinLength\<rparr>)
             else let
               rptr = int out - (code + 1);
               rptr = (if rptr < 0 then rptr + int KDeflateMaxDistance else rptr)
             in if rptr < 0 then Inl Undefined
             else case useHistory out (this\<lparr>iRptr := nat rptr\<rparr>) of
               Inl e \<Rightarrow> Inl e
             | Inr (out, this) \<Rightarrow> inflate_loop m out False this)"
  by pat_completeness auto
termination
  by (relation "measure (\<lambda>(_, _, _, this). nat (bits_left (iBits_inf this)))")
    (auto simp: input_HuffmanL_def useHistory_def Let_def split: if_splits prod.splits dest!: huffman_loop_bits_left extra_bits_left)

declare inflate_loop.simps [simp del]

definition InflateL :: "memory \<Rightarrow> CInflater \<Rightarrow> failure + nat \<times> CInflater" where
  "InflateL m this =
    (if iLen this < 0 then Inr (0, this)
     else if iLen this > 0 then
       (case useHistory 0 this of Inl e \<Rightarrow> Inl e | Inr (out, this) \<Rightarrow> inflate_loop m out False this)
     else inflate_loop m 0 False this)"

section \<open>Reading\<close>

text \<open>\<open>CInflater::ReadL\<close>: the bytes that were copied so far\<close>

function (sequential) inflater_ReadL :: "memory \<Rightarrow> nat \<Rightarrow> byte list \<Rightarrow> CInflater \<Rightarrow> failure + byte list \<times> CInflater" where
  "inflater_ReadL m aLength tfr this =
    (let len = min aLength (iLimit this - iAvail this);
         tfr = tfr @ take len (drop (iAvail this) (iOut this));
         aLength = aLength - len;
         this = this\<lparr>iAvail := iAvail this + len\<rparr>
     in if aLength = 0 then Inr (tfr, this)
     else case InflateL m this of
       Inl e \<Rightarrow> Inl e
     | Inr (len, this) \<Rightarrow>
         if len = 0 then Inr (tfr, this)
         else inflater_ReadL m aLength tfr (this\<lparr>iAvail := 0, iLimit := len\<rparr>))"
  by pat_completeness auto
termination
  by (relation "measure (\<lambda>(_, aLength, _, this). 2 * aLength + (if iLimit this \<le> iAvail this then 1 else 0))") auto

declare inflater_ReadL.simps [simp del]

text \<open>\<open>SkipL\<close> reads without a buffer.\<close>

definition SkipL :: "memory \<Rightarrow> nat \<Rightarrow> CInflater \<Rightarrow> failure + nat \<times> CInflater" where
  "SkipL m aLength this =
    (case inflater_ReadL m aLength [] this of Inl e \<Rightarrow> Inl e | Inr (tfr, this) \<Rightarrow> Inr (length tfr, this))"

end
