(* ===== verification/Deflate_Codes.thy ===== *)
theory Deflate_Codes
  imports Deflate_Segments Inflate
begin

text \<open>
  Compressed data as bits: what the second pass writes for the segments, and how the loop of
  \<open>InflateL\<close> reads the codes of one segment.
\<close>

section \<open>Lengths and distances as codes\<close>

lemma of_nat_small:
  assumes "x < 65536"
  shows "uint (of_nat x :: 32 word) = int x" "sint (of_nat x :: 32 word) = int x"
proof -
  have u: "unat (of_nat x :: 32 word) = x" using assms by (rule unat_of_nat_small)
  show "uint (of_nat x :: 32 word) = int x" using arg_cong [OF u, of int] by simp
  moreover have "unat (of_nat x :: 32 word) < 2 ^ 31" unfolding u using assms by simp
  ultimately show "sint (of_nat x :: 32 word) = int x" using sint_small by metis
qed

lemma extra_loop_eq:
  "extra_loop k x = (k', y) \<Longrightarrow> k \<le> k' \<and> y = x div 2 ^ (k' - k) \<and> y < 8 \<and> (k < k' \<longrightarrow> 4 \<le> y)"
proof (induction k x arbitrary: k' y rule: extra_loop.induct)
  case (1 k x)
  show ?case
  proof (cases "8 \<le> x")
    case True
    then have r: "extra_loop (k + 1) (x div 2) = (k', y)" using "1.prems" by (simp add: extra_loop.simps [of k])
    note IH = "1.IH" [OF True r]
    then have p: "k' - k = Suc (k' - (k + 1))" by linarith
    have "y = x div 2 ^ (k' - k)" using IH unfolding p by (simp add: div_mult2_eq)
    moreover have "4 \<le> y" using IH True extra_loop.simps [of "k + 1" "x div 2"] r by (cases "k + 1 < k'") (auto split: if_splits)
    ultimately show ?thesis using IH by simp
  next
    case False
    then show ?thesis using "1.prems" by (simp add: extra_loop.simps [of k])
  qed
qed

lemma extra_loop_bound:
  assumes "extra_loop 0 x = (k, y)" "x < 2 ^ (n + 3)"
  shows "k \<le> n"
proof (rule ccontr)
  assume "\<not> k \<le> n"
  then have k: "0 < k" "Suc n \<le> k" by simp_all
  note e = extra_loop_eq [OF assms(1)]
  have "4 * 2 ^ k \<le> x"
  proof -
    have "4 * 2 ^ k \<le> x div 2 ^ k * 2 ^ k" using e k(1) by simp
    also have "\<dots> \<le> x" by (rule div_times_less_eq_dividend)
    finally show ?thesis .
  qed
  moreover have "(2 :: nat) ^ Suc n \<le> 2 ^ k" using k(2) by (intro power_increasing) simp_all
  ultimately show False using assms(2) by (simp add: power_add)
qed

lemma low_bits_eqI:
  assumes "low_bits n v = low_bits n w" "\<And>i. bit v i \<Longrightarrow> i < n"
  shows "v = take_bit n w"
proof (rule bit_word_eqI)
  fix i
  show "bit v i = bit (take_bit n w) i"
  proof (cases "i < n")
    case True
    then have "low_bits n v ! (n - 1 - i) = low_bits n w ! (n - 1 - i)" using assms(1) by simp
    then show ?thesis using True by (simp add: low_bits_def bit_take_bit_iff)
  next
    case False
    then show ?thesis using assms(2) by (auto simp: bit_take_bit_iff)
  qed
qed

lemma extra_bits_spec:
  assumes e: "extra_loop 0 x = (k, y)" and x: "x < 2 ^ 16" and "in_ok s"
    and "in_bits m s = (if k \<noteq> 0 then low_bits k (of_nat x) else []) @ rest"
  shows "\<exists>s'. extra_bits m (int (4 * k + y)) s = Inr (int x, s') \<and> in_ok s' \<and> in_bits m s' = rest"
proof (cases "k = 0")
  case True
  then show ?thesis using extra_loop_eq [OF e] assms by (simp add: extra_bits_def)
next
  case False
  note E = extra_loop_eq [OF e]
  have k: "k \<le> 13" using extra_loop_bound [OF e, of 13] x by simp
  let ?w = "of_nat x :: 32 word"
  have "k \<le> length (in_bits m s)" using assms(4) False by simp
  then obtain v s' where v: "ReadL m (int k) s = Inr (v, s')" "reads k m s v s'"
    using ReadL_spec [OF assms(3), of k m] False k by auto
  have "low_bits k v = low_bits k ?w" "in_bits m s' = rest" using v(2) assms(4) False by (auto simp: reads_def)
  moreover have "v = take_bit k ?w" using low_bits_eqI [OF calculation(1)] v(2) by (auto simp: reads_def)
  moreover have "uint (take_bit k ?w) = take_bit k (int x)"
  proof -
    have "uint (take_bit k ?w) = take_bit k (uint ?w)" by (simp only: unsigned_take_bit_eq)
    moreover have "uint ?w = int x" using x by (intro of_nat_small(1)) simp
    ultimately show ?thesis by (simp only:)
  qed
  ultimately have r: "uint v = take_bit k (int x)" "in_bits m s' = rest" "in_ok s'" using v(2) by (auto simp: reads_def)
  have c: "8 \<le> 4 * k + y" "(4 * k + y) div 4 = Suc k" using E False by auto
  have y: "int y = drop_bit k (int x)" using E by (simp add: drop_bit_eq_div zdiv_int)
  have "push_bit k (drop_bit k (int x)) OR take_bit k (int x) = int x"
    by (rule bit_eqI) (auto simp: bit_simps)
  then have "push_bit k (int y) OR uint v = int x" using y r(1) by simp
  moreover have "drop_bit 2 (int (4 * k + y)) = int k + 1" using c(2) by (simp add: drop_bit_eq_div zdiv_int [symmetric] del: of_nat_add of_nat_mult)
  ultimately show ?thesis using c(1) v(1) r by (simp add: extra_bits_def Let_def push_bit_eq_mult)
qed

section \<open>The codes of segments\<close>

primrec tok_bits :: "TEncoding \<Rightarrow> token \<Rightarrow> bool list" where
  "tok_bits enc (Litlen c) = code_bits (iLitLen enc ! c)"
| "tok_bits enc (Dist c) = code_bits (iDistance enc ! c)"
| "tok_bits enc (Extra n b) = low_bits n b"

primrec tok_used :: "(nat \<Rightarrow> bool) \<Rightarrow> (nat \<Rightarrow> bool) \<Rightarrow> token \<Rightarrow> bool" where
  "tok_used u1 u2 (Litlen c) \<longleftrightarrow> u1 c"
| "tok_used u1 u2 (Dist c) \<longleftrightarrow> u2 c"
| "tok_used u1 u2 (Extra n b) \<longleftrightarrow> n \<le> 32"

text \<open>A segment that \<open>unpack\<close> accepts has these tokens.\<close>

lemma Copy_tokens:
  assumes "KDeflateMinLength \<le> l" "l \<le> KDeflateMaxLength" "0 < d" "d \<le> KDeflateMaxDistance"
  obtains k y k' y' where "extra_loop 0 (l - 3) = (k, y)" "extra_loop 0 (d - 1) = (k', y')" "k \<le> 5" "k' \<le> 9" "4 * k + y < 28" "4 * k' + y' < 44"
    "seg_tokens (Copy l d) = Litlen (4 * k + y + 256) # (if k \<noteq> 0 then [Extra k (of_nat (l - 3))] else []) @
       Dist (4 * k' + y') # (if k' \<noteq> 0 then [Extra k' (of_nat (d - 1))] else [])"
proof -
  obtain k y k' y' where e: "extra_loop 0 (l - 3) = (k, y)" "extra_loop 0 (d - 1) = (k', y')" by fastforce
  have k: "k \<le> 5" "k' \<le> 9" using extra_loop_bound [OF e(1), of 5] extra_loop_bound [OF e(2), of 9] assms by simp_all
  have "y < 8" "y' < 8" using extra_loop_eq [OF e(1)] extra_loop_eq [OF e(2)] by simp_all
  then have "4 * k + y < 28" "4 * k' + y' < 44" using k by linarith+
  moreover have "seg_tokens (Copy l d) = Litlen (4 * k + y + 256) # (if k \<noteq> 0 then [Extra k (of_nat (l - 3))] else []) @
       Dist (4 * k' + y') # (if k' \<noteq> 0 then [Extra k' (of_nat (d - 1))] else [])"
    using e by (simp add: SegmentL_def Let_def push_bit_eq_mult mult.commute)
  ultimately show ?thesis using that e k by blast
qed

section \<open>Two codes\<close>

locale deflate_codes = lit: symbol_code "iLitLen enc" "iLitLen dec" 0 u1 + dist: symbol_code "iDistance enc" "iDistance dec" 512 u2
  for enc dec :: TEncoding and u1 u2 :: "nat \<Rightarrow> bool"
begin

lemma write_tokens:
  "list_all (tok_used u1 u2) ts \<Longrightarrow> out_ok out \<Longrightarrow> out_ok (fold (emit (TDeflater enc)) ts out) \<and>
    out_bits (fold (emit (TDeflater enc)) ts out) = out_bits out @ concat (map (tok_bits enc) ts)"
proof (induction ts arbitrary: out)
  case (Cons t ts)
  have "out_ok (emit (TDeflater enc) t out) \<and> out_bits (emit (TDeflater enc) t out) = out_bits out @ tok_bits enc t"
    using Cons.prems lit.code_write dist.code_write WriteL_bits [of out] by (cases t) (auto simp: TDeflater_def)
  then show ?case using Cons.IH [of "emit (TDeflater enc) t out"] Cons.prems by simp
qed simp

lemma read_litlen:
  assumes "u1 c" "c < 2 ^ 15" "in_ok s" "in_bits m s = code_bits (iLitLen enc ! c) @ rest"
  shows "\<exists>v s'. input_HuffmanL m (iLitLen dec) s = Inr (v, s') \<and> sint v = int c \<and> in_ok s' \<and> in_bits m s' = rest"
  using lit.code_read [OF assms(1,3,4)] assms(2) by (auto simp: of_nat_small)

lemma read_distance:
  assumes "u2 c" "c < 2 ^ 14" "in_ok s" "in_bits m s = code_bits (iDistance enc ! c) @ rest"
  shows "\<exists>v s'. input_HuffmanL m (iDistance dec) s = Inr (v, s') \<and> sint v = int c + 512 \<and> in_ok s' \<and> in_bits m s' = rest"
  using dist.code_read [OF assms(1,3,4)] assms(2) of_nat_small(2) [of "c + 512"] by auto

end

end
