(* ===== verification/Inflate_Correct.thy ===== *)
theory Inflate_Correct
  imports Deflate_Codes
begin

text \<open>
  The decompressor undoes the compressor: its circular buffer holds the end of the output, and one
  call of \<open>InflateL\<close> expands the segments that the codes spell until the buffer is full.
\<close>

section \<open>The circular buffer\<close>

definition ring :: "byte list \<Rightarrow> byte list \<Rightarrow> bool" where
  "ring buf outp \<longleftrightarrow> length buf = KDeflateMaxDistance \<and>
     (\<forall>i<length outp. length outp \<le> i + KDeflateMaxDistance \<longrightarrow> buf ! (i mod KDeflateMaxDistance) = outp ! i)"

lemma ring_Nil: "length buf = KDeflateMaxDistance \<Longrightarrow> ring buf []"
  by (simp add: ring_def)

lemma ring_put:
  assumes "ring buf outp"
  shows "ring (buf[length outp mod KDeflateMaxDistance := b]) (outp @ [b])"
  unfolding ring_def
proof (intro conjI allI impI)
  fix i assume i: "i < length (outp @ [b])" "length (outp @ [b]) \<le> i + KDeflateMaxDistance"
  show "buf[length outp mod KDeflateMaxDistance := b] ! (i mod KDeflateMaxDistance) = (outp @ [b]) ! i"
  proof (cases "i = length outp")
    case False
    then have "i mod 4096 \<noteq> length outp mod 4096" using i by (intro mod_near) auto
    then show ?thesis using assms False i by (simp add: ring_def nth_append)
  qed (use assms in \<open>simp add: ring_def\<close>)
qed (use assms in \<open>simp add: ring_def\<close>)

lemma length_copy [simp]: "length (copy n d outp) = length outp + n"
  by (induction n arbitrary: outp) simp_all

lemma copy_add: "copy (a + b) d outp = copy b d (copy a d outp)"
  by (induction a arbitrary: outp) simp_all

lemma copy_prefix: "\<exists>new. copy n d outp = outp @ new"
proof (induction n arbitrary: outp)
  case (Suc n)
  then obtain new where "copy n d (outp @ [outp ! (length outp - d)]) = (outp @ [outp ! (length outp - d)]) @ new" by blast
  then show ?case by simp
qed simp

lemma copy_history_ring:
  assumes "ring buf outp" "out + n \<le> KDeflateMaxDistance" "out \<le> length outp" "KDeflateMaxDistance dvd length outp - out"
    and "0 < d" "d \<le> KDeflateMaxDistance" "d \<le> length outp" "fr = (length outp - d) mod KDeflateMaxDistance"
  shows "\<exists>buf'. copy_history n out fr buf = (out + n, (length outp + n - d) mod KDeflateMaxDistance, buf') \<and> ring buf' (copy n d outp)"
  using assms
proof (induction n arbitrary: out fr buf outp)
  case (Suc n)
  obtain q where q: "length outp = out + 4096 * q" using Suc.prems(3,4) by (metis dvdE le_add_diff_inverse)
  have out: "length outp mod 4096 = out" using Suc.prems(2) q by simp
  let ?b = "outp ! (length outp - d)" and ?fr = "if fr + 1 = 4096 then fr + 1 - 4096 else fr + 1"
  have b: "buf ! fr = ?b" using Suc.prems(1,5-8) by (simp add: ring_def)
  have "(length outp - d + 1) mod 4096 = ?fr" using Suc.prems(8) by (simp add: mod_Suc)
  then have f: "?fr = (length (outp @ [?b]) - d) mod 4096" using Suc.prems(7) by (simp add: Suc_diff_le)
  have r: "ring (buf[out := ?b]) (outp @ [?b])" using ring_put [OF Suc.prems(1)] out by simp
  have "length (outp @ [?b]) - (out + 1) = length outp - out" by simp
  then have "\<exists>buf'. copy_history n (out + 1) ?fr (buf[out := ?b]) = (out + 1 + n, (length (outp @ [?b]) + n - d) mod 4096, buf') \<and>
      ring buf' (copy n d (outp @ [?b]))"
    using Suc.prems(2-7) by (intro Suc.IH [OF r _ _ _ _ _ _ f]) simp_all
  moreover have "copy_history (Suc n) out fr buf = copy_history n (out + 1) ?fr (buf[out := ?b])" using b by (simp add: Let_def)
  ultimately show ?case by simp
qed simp

lemma useHistory_ring:
  assumes "ring (iOut this) outp" "out < KDeflateMaxDistance" "out \<le> length outp" "KDeflateMaxDistance dvd length outp - out"
    and "0 < d" "d \<le> KDeflateMaxDistance" "d \<le> length outp" "iRptr this = (length outp - d) mod KDeflateMaxDistance"
    and "iLen this = int l" "0 < l"
  defines "t \<equiv> min (KDeflateMaxDistance - out) l"
  shows "\<exists>buf. useHistory out this = Inr (out + t, this\<lparr>iLen := int (l - t), iRptr := (length outp + t - d) mod KDeflateMaxDistance, iOut := buf\<rparr>) \<and>
    ring buf (copy t d outp)"
proof -
  have "out + t \<le> KDeflateMaxDistance" using assms(2) by (simp add: t_def)
  from copy_history_ring [OF assms(1) this assms(3-8)] obtain buf where
    "copy_history t out (iRptr this) (iOut this) = (out + t, (length outp + t - d) mod KDeflateMaxDistance, buf)" "ring buf (copy t d outp)"
    by blast
  moreover have "min (int KDeflateMaxDistance - int out) (iLen this) = int t" using assms(2,9) by (simp add: t_def)
  moreover have "0 < t" "t \<le> l" using assms(2,10) by (simp_all add: t_def)
  ultimately show ?thesis using assms(9) by (intro exI [of _ buf]) (simp add: useHistory_def of_nat_diff)
qed

text \<open>The bytes of the last call are at the front of the buffer.\<close>

lemma ring_take:
  assumes "ring buf (outp @ new)" "length new \<le> KDeflateMaxDistance" "KDeflateMaxDistance dvd length outp"
  shows "take (length new) buf = new"
proof (rule nth_equalityI)
  show "length (take (length new) buf) = length new" using assms by (simp add: ring_def)
  fix i assume "i < length (take (length new) buf)"
  then have i: "i < length new" by simp
  obtain q where q: "length outp = 4096 * q" using assms(3) by (rule dvdE)
  have "buf ! ((length outp + i) mod 4096) = (outp @ new) ! (length outp + i)" using assms(1,2) i by (simp add: ring_def)
  then show "take (length new) buf ! i = new ! i" using i q assms(2) by (simp add: nth_append)
qed

section \<open>Expanding segments\<close>

definition seg_bits :: "TEncoding \<Rightarrow> segment list \<Rightarrow> bool list" where
  "seg_bits enc sgs = concat (map (tok_bits enc) (concat (map seg_tokens sgs)))"

lemma seg_bits_simps [simp]: "seg_bits enc [] = []" "seg_bits enc (sg # sgs) = concat (map (tok_bits enc) (seg_tokens sg)) @ seg_bits enc sgs"
  by (simp_all add: seg_bits_def)

text \<open>
  The output is \<open>outp\<close>, and what is left of the input makes it \<open>data\<close>; a copy may be under way.
\<close>

definition inflating :: "TEncoding \<Rightarrow> (nat \<Rightarrow> bool) \<Rightarrow> (nat \<Rightarrow> bool) \<Rightarrow> memory \<Rightarrow> CInflater \<Rightarrow> byte list \<Rightarrow> byte list \<Rightarrow> bool" where
  "inflating enc u1 u2 m this outp data \<longleftrightarrow> in_ok (iBits_inf this) \<and> ring (iOut this) outp \<and>
     (if iLen this < 0 then outp = data
      else \<exists>d sgs rest. list_all (tok_used u1 u2) (concat (map seg_tokens sgs)) \<and>
        in_bits m (iBits_inf this) = seg_bits enc sgs @ code_bits (iLitLen enc ! EEos) @ rest \<and>
        (0 < iLen this \<longrightarrow> 0 < d \<and> d \<le> KDeflateMaxDistance \<and> d \<le> length outp \<and> iRptr this = (length outp - d) mod KDeflateMaxDistance) \<and>
        unpack sgs (copy (nat (iLen this)) d outp) = Some data)"

text \<open>The outcome of a call: the buffer is full or the end was reached.\<close>

definition inflated :: "TEncoding \<Rightarrow> (nat \<Rightarrow> bool) \<Rightarrow> (nat \<Rightarrow> bool) \<Rightarrow> memory \<Rightarrow> nat \<times> CInflater \<Rightarrow> nat \<Rightarrow> byte list \<Rightarrow> byte list \<Rightarrow> bool" where
  "inflated enc u1 u2 m r out outp data \<longleftrightarrow> (\<exists>new. inflating enc u1 u2 m (snd r) (outp @ new) data \<and> fst r = out + length new \<and>
     fst r \<le> KDeflateMaxDistance \<and> (fst r = KDeflateMaxDistance \<or> iLen (snd r) < 0))"

lemma inflated_append:
  "inflated enc u1 u2 m r (out + length new) (outp @ new) data \<Longrightarrow> inflated enc u1 u2 m r out outp data"
  unfolding inflated_def by (metis append.assoc length_append add.assoc)

lemma rptr_eq:
  assumes "out < KDeflateMaxDistance" "out \<le> length outp" "KDeflateMaxDistance dvd length outp - out" "d \<le> KDeflateMaxDistance" "d \<le> length outp"
  shows "(length outp - d) mod KDeflateMaxDistance = nat (if int out - int d < 0 then int out - int d + int KDeflateMaxDistance else int out - int d)"
proof -
  obtain q where q: "length outp = out + 4096 * q" using assms(2,3) by (metis dvdE le_add_diff_inverse)
  show ?thesis
  proof (cases "out < d")
    case True
    then obtain p where p: "q = Suc p" using q assms(5) by (cases q) auto
    then have "length outp - d = (out + 4096 - d) + 4096 * p" using q assms(4) by simp
    then have "(length outp - d) mod 4096 = out + 4096 - d" using True by simp
    then show ?thesis using True assms(4) by simp
  next
    case False
    then have "length outp - d = (out - d) + 4096 * q" using q by simp
    then have "(length outp - d) mod 4096 = out - d" using assms(1) by simp
    then show ?thesis using False by simp
  qed
qed

lemma and_255: "(x :: int) AND 255 = x mod 256"
proof -
  have "(255 :: int) = mask 8" by (simp add: mask_eq_exp_minus_1)
  then have "x AND 255 = take_bit 8 x" by (simp only: take_bit_eq_mask)
  then show ?thesis by (simp add: take_bit_eq_mod)
qed

locale deflate_stream = deflate_codes +
  assumes eos: "u1 EEos"

context deflate_stream
begin

lemma history_step:
  assumes "ring (iOut this) outp" "out < KDeflateMaxDistance" "out \<le> length outp" "KDeflateMaxDistance dvd length outp - out"
    and "0 < d" "d \<le> KDeflateMaxDistance" "d \<le> length outp" "iRptr this = (length outp - d) mod KDeflateMaxDistance"
    and "iLen this = int l" "0 < l" "iEncoding this = dec" "in_ok (iBits_inf this)"
    and "list_all (tok_used u1 u2) (concat (map seg_tokens sgs))" "unpack sgs (copy l d outp) = Some data"
    and "in_bits m (iBits_inf this) = seg_bits enc sgs @ code_bits (iLitLen enc ! EEos) @ rest"
    and loop: "\<And>this' out' outp'. iEncoding this' = dec \<Longrightarrow> out' \<le> KDeflateMaxDistance \<Longrightarrow> out' \<le> length outp' \<Longrightarrow>
      KDeflateMaxDistance dvd length outp' - out' \<Longrightarrow> in_ok (iBits_inf this') \<Longrightarrow> iLen this' = 0 \<Longrightarrow> ring (iOut this') outp' \<Longrightarrow>
      unpack sgs outp' = Some data \<Longrightarrow> in_bits m (iBits_inf this') = seg_bits enc sgs @ code_bits (iLitLen enc ! EEos) @ rest \<Longrightarrow>
      \<exists>r. inflate_loop m out' False this' = Inr r \<and> inflated enc u1 u2 m r out' outp' data \<and> iEncoding (snd r) = dec"
  shows "\<exists>r. (case useHistory out this of Inl e \<Rightarrow> Inl e | Inr (out, this) \<Rightarrow> inflate_loop m out False this) = Inr r \<and>
    inflated enc u1 u2 m r out outp data \<and> iEncoding (snd r) = dec"
proof -
  define t where "t = min (KDeflateMaxDistance - out) l"
  obtain buf where h: "useHistory out this = Inr (out + t, this\<lparr>iLen := int (l - t), iRptr := (length outp + t - d) mod KDeflateMaxDistance, iOut := buf\<rparr>)"
    "ring buf (copy t d outp)"
    using useHistory_ring [OF assms(1-10)] unfolding t_def by blast
  let ?st = "this\<lparr>iLen := int (l - t), iRptr := (length outp + t - d) mod KDeflateMaxDistance, iOut := buf\<rparr>"
  obtain new where new: "copy t d outp = outp @ new" using copy_prefix by blast
  then have len: "length new = t" using length_copy [of t d outp] by simp
  have c: "copy l d outp = copy (l - t) d (outp @ new)" using copy_add [of t "l - t" d outp] new by (simp add: t_def)
  show ?thesis
  proof (cases "t = l")
    case True
    have dv: "length (outp @ new) - (out + t) = length outp - out" using len by simp
    have "\<exists>r. inflate_loop m (out + t) False ?st = Inr r \<and> inflated enc u1 u2 m r (out + t) (outp @ new) data \<and> iEncoding (snd r) = dec"
    proof (rule loop)
      show "KDeflateMaxDistance dvd length (outp @ new) - (out + t)" unfolding dv by (rule assms(4))
      show "out + t \<le> KDeflateMaxDistance" using assms(2) by (simp add: t_def)
    qed (use assms True c new h(2) len in auto)
    then show ?thesis using h(1) inflated_append [of enc u1 u2 m _ out new outp data] len by auto
  next
    case False
    then have t: "out + t = KDeflateMaxDistance" "t < l" using assms(2) by (auto simp: t_def min_def split: if_splits)
    have "inflating enc u1 u2 m ?st (outp @ new) data"
      unfolding inflating_def using assms(5-7,12-15) t(2) h(2) new c len
      by (auto intro!: exI [of _ d] exI [of _ sgs] simp: nat_diff_distrib)
    then have "inflated enc u1 u2 m (out + t, ?st) out outp data" unfolding inflated_def using t len by auto
    moreover have "inflate_loop m (out + t) False ?st = Inr (out + t, ?st)" using t(1) by (simp add: inflate_loop.simps)
    ultimately show ?thesis using h(1) assms(11) by auto
  qed
qed

lemma loop_literal:
  assumes "iEncoding this = dec" "out < KDeflateMaxDistance" "u1 (unat b)" "in_ok (iBits_inf this)"
    and "in_bits m (iBits_inf this) = code_bits (iLitLen enc ! unat b) @ rest"
  shows "\<exists>s. inflate_loop m out False this = inflate_loop m (out + 1) False (this\<lparr>iBits_inf := s, iOut := (iOut this)[out := b]\<rparr>) \<and>
    in_ok s \<and> in_bits m s = rest"
proof -
  have b: "unat b < 256" using unsigned_less [of b] by simp
  then obtain v s where v: "input_HuffmanL m (iLitLen dec) (iBits_inf this) = Inr (v, s)" "sint v = int (unat b)" "in_ok s" "in_bits m s = rest"
    using read_litlen [OF assms(3) _ assms(4,5)] by auto
  have "(256 :: byte) = 0" by simp
  then have w: "word_of_int (sint v - 256) = b" using v(2) by simp
  have "sint v - 256 < 0" using v(2) b by (simp only: diff_less_0_iff_less)
  then show ?thesis using assms(1,2) v(1,3,4) w by (intro exI [of _ s]) (subst inflate_loop.simps, simp add: Let_def)
qed

lemma loop_eos:
  assumes "iEncoding this = dec" "out < KDeflateMaxDistance" "in_ok (iBits_inf this)"
    and "in_bits m (iBits_inf this) = code_bits (iLitLen enc ! EEos) @ rest"
  shows "\<exists>s. inflate_loop m out False this = Inr (out, this\<lparr>iBits_inf := s, iLen := - 1\<rparr>) \<and> in_ok s"
proof -
  obtain v s where "input_HuffmanL m (iLitLen dec) (iBits_inf this) = Inr (v, s)" "sint v = int EEos" "in_ok s"
    using read_litlen [OF eos _ assms(3,4)] by auto
  then show ?thesis using assms(1,2) by (intro exI [of _ s]) (subst inflate_loop.simps, simp add: Let_def)
qed

lemma loop_distance:
  assumes "iEncoding this = dec" "out < KDeflateMaxDistance" "input_HuffmanL m (iDistance dec) (iBits_inf this) = Inr (v, s)"
    "sint v = int c + 512" "c < 44" "extra_bits m (int c) s = Inr (int (d - 1), s')" "0 < d" "d \<le> KDeflateMaxDistance"
  shows "inflate_loop m out True this =
      (case useHistory out (this\<lparr>iBits_inf := s', iRptr := nat (if int out - int d < 0 then int out - int d + int KDeflateMaxDistance else int out - int d)\<rparr>) of
         Inl e \<Rightarrow> Inl e | Inr (out, this) \<Rightarrow> inflate_loop m out False this)"
proof -
  obtain e where d: "d = Suc e" using assms(7) by (cases d) auto
  show ?thesis
  proof (cases "out < d")
    case True
    then have "\<not> int out - int d + 4096 < 0" using assms(8) by simp
    then show ?thesis using assms(1-3,5,6) True d by (subst inflate_loop.simps) (simp add: Let_def assms(4) and_255 algebra_simps)
  next
    case False
    then show ?thesis using assms(1-3,5,6) d by (subst inflate_loop.simps) (simp add: Let_def assms(4) and_255 algebra_simps)
  qed
qed

lemma loop_copy:
  assumes "iEncoding this = dec" "out < KDeflateMaxDistance" "out \<le> length outp" "KDeflateMaxDistance dvd length outp - out"
    and l: "KDeflateMinLength \<le> l" "l \<le> KDeflateMaxLength" "0 < d" "d \<le> KDeflateMaxDistance" and "d \<le> length outp"
    and "list_all (tok_used u1 u2) (seg_tokens (Copy l d))" "in_ok (iBits_inf this)"
    and "in_bits m (iBits_inf this) = concat (map (tok_bits enc) (seg_tokens (Copy l d))) @ rest"
  shows "\<exists>s. inflate_loop m out False this =
      (case useHistory out (this\<lparr>iBits_inf := s, iLen := int l, iRptr := (length outp - d) mod KDeflateMaxDistance\<rparr>) of
         Inl e \<Rightarrow> Inl e | Inr (out, this) \<Rightarrow> inflate_loop m out False this) \<and> in_ok s \<and> in_bits m s = rest"
proof -
  obtain k y k' y' where c: "extra_loop 0 (l - 3) = (k, y)" "extra_loop 0 (d - 1) = (k', y')" "4 * k + y < 28" "4 * k' + y' < 44"
    and t: "seg_tokens (Copy l d) = Litlen (4 * k + y + 256) # (if k \<noteq> 0 then [Extra k (of_nat (l - 3))] else []) @
       Dist (4 * k' + y') # (if k' \<noteq> 0 then [Extra k' (of_nat (d - 1))] else [])"
    using Copy_tokens [OF l] by metis
  let ?c = "4 * k + y + 256" and ?c' = "4 * k' + y'"
  let ?x = "if k \<noteq> 0 then low_bits k (of_nat (l - 3)) else []" and ?x' = "if k' \<noteq> 0 then low_bits k' (of_nat (d - 1)) else []"
  have u: "u1 ?c" "u2 ?c'" using assms(10) unfolding t by simp_all
  have bits: "in_bits m (iBits_inf this) = code_bits (iLitLen enc ! ?c) @ ?x @ code_bits (iDistance enc ! ?c') @ ?x' @ rest"
    using assms(12) unfolding t by simp
  obtain v s1 where v: "input_HuffmanL m (iLitLen dec) (iBits_inf this) = Inr (v, s1)" "sint v = int ?c" "in_ok s1"
    "in_bits m s1 = ?x @ code_bits (iDistance enc ! ?c') @ ?x' @ rest"
    using read_litlen [OF u(1) _ assms(11) bits] c(3) by auto
  obtain s2 where s2: "extra_bits m (int (4 * k + y)) s1 = Inr (int (l - 3), s2)" "in_ok s2" "in_bits m s2 = code_bits (iDistance enc ! ?c') @ ?x' @ rest"
  proof -
    have "l - 3 < 2 ^ 16" using l(2) by simp
    from extra_bits_spec [OF c(1) this v(3,4)] show ?thesis using that by blast
  qed
  let ?st = "this\<lparr>iBits_inf := s2, iLen := int l\<rparr>"
  have step: "inflate_loop m out False this = inflate_loop m out True ?st"
    using assms(1,2) v(1,2) s2(1) c(3) l(1) by (subst inflate_loop.simps) (simp add: Let_def and_255 of_nat_diff)
  obtain v' s3 where v': "input_HuffmanL m (iDistance dec) s2 = Inr (v', s3)" "sint v' = int ?c' + 512" "in_ok s3" "in_bits m s3 = ?x' @ rest"
    using read_distance [OF u(2) _ s2(2,3)] c(4) by auto
  obtain s4 where s4: "extra_bits m (int ?c') s3 = Inr (int (d - 1), s4)" "in_ok s4" "in_bits m s4 = rest"
  proof -
    have "d - 1 < 2 ^ 16" using l(4) by simp
    from extra_bits_spec [OF c(2) this v'(3,4)] show ?thesis using that by blast
  qed
  have "inflate_loop m out True ?st =
      (case useHistory out (?st\<lparr>iBits_inf := s4, iRptr := (length outp - d) mod KDeflateMaxDistance\<rparr>) of
         Inl e \<Rightarrow> Inl e | Inr (out, this) \<Rightarrow> inflate_loop m out False this)"
    unfolding rptr_eq [OF assms(2-4) l(4) assms(9)] using assms(1) v'(1) by (intro loop_distance [OF _ assms(2) _ v'(2) c(4) s4(1) l(3,4)]) simp_all
  moreover have "?st\<lparr>iBits_inf := s4, iRptr := r\<rparr> = this\<lparr>iBits_inf := s4, iLen := int l, iRptr := r\<rparr>" for r by (cases this) simp
  ultimately show ?thesis using step s4(2,3) by (intro exI [of _ s4]) (simp only: simp_thms)
qed

lemma inflate_loop_spec:
  assumes "iEncoding this = dec" "out \<le> KDeflateMaxDistance" "out \<le> length outp" "KDeflateMaxDistance dvd length outp - out"
    and "in_ok (iBits_inf this)" "iLen this = 0" "ring (iOut this) outp" "unpack sgs outp = Some data"
    and "in_bits m (iBits_inf this) = seg_bits enc sgs @ code_bits (iLitLen enc ! EEos) @ rest"
    and "list_all (tok_used u1 u2) (concat (map seg_tokens sgs))"
  shows "\<exists>r. inflate_loop m out False this = Inr r \<and> inflated enc u1 u2 m r out outp data \<and> iEncoding (snd r) = dec"
  using assms
proof (induction sgs arbitrary: this out outp)
  case Nil
  show ?case
  proof (cases "out < KDeflateMaxDistance")
    case True
    then obtain s where "inflate_loop m out False this = Inr (out, this\<lparr>iBits_inf := s, iLen := - 1\<rparr>)" "in_ok s"
      using loop_eos [OF Nil.prems(1) True Nil.prems(5)] Nil.prems(9) by auto
    then show ?thesis using Nil.prems True by (auto simp: inflated_def inflating_def intro!: exI [of _ "[]"])
  next
    case False
    then have "inflating enc u1 u2 m this outp data" using Nil.prems unfolding inflating_def by (auto intro!: exI [of _ "[]"] exI [of _ rest])
    then show ?thesis using False Nil.prems(1,2) by (auto simp: inflate_loop.simps inflated_def intro!: exI [of _ "[]"])
  qed
next
  case (Cons sg sgs)
  show ?case
  proof (cases "out < KDeflateMaxDistance")
    case False
    then have "inflating enc u1 u2 m this outp data" using Cons.prems unfolding inflating_def by (auto intro!: exI [of _ "sg # sgs"])
    then show ?thesis using False Cons.prems(1,2) by (auto simp: inflate_loop.simps inflated_def intro!: exI [of _ "[]"])
  next
    case out: True
    show ?thesis
    proof (cases sg)
      case (Literal b)
      obtain q where q: "length outp = out + 4096 * q" using Cons.prems(3,4) by (metis dvdE le_add_diff_inverse)
      obtain s where s: "inflate_loop m out False this = inflate_loop m (out + 1) False (this\<lparr>iBits_inf := s, iOut := (iOut this)[out := b]\<rparr>)"
        "in_ok s" "in_bits m s = seg_bits enc sgs @ code_bits (iLitLen enc ! EEos) @ rest"
        using loop_literal [OF Cons.prems(1) out _ Cons.prems(5), of b m "seg_bits enc sgs @ code_bits (iLitLen enc ! EEos) @ rest"]
          Cons.prems(9,10) Literal by auto
      have "ring ((iOut this)[out := b]) (outp @ [b])" using ring_put [OF Cons.prems(7)] q out by simp
      then have "\<exists>r. inflate_loop m (out + 1) False (this\<lparr>iBits_inf := s, iOut := (iOut this)[out := b]\<rparr>) = Inr r \<and>
          inflated enc u1 u2 m r (out + 1) (outp @ [b]) data \<and> iEncoding (snd r) = dec"
        using Cons.prems out s Literal by (intro Cons.IH) simp_all
      then show ?thesis using s(1) inflated_append [of enc u1 u2 m _ out "[b]" outp data] by auto
    next
      case (Copy l d)
      then have l: "KDeflateMinLength \<le> l" "l \<le> KDeflateMaxLength" "0 < d" "d \<le> KDeflateMaxDistance" "d \<le> length outp"
        and u: "unpack sgs (copy l d outp) = Some data"
        using Cons.prems(8) by (auto split: if_splits)
      obtain s where s: "inflate_loop m out False this =
          (case useHistory out (this\<lparr>iBits_inf := s, iLen := int l, iRptr := (length outp - d) mod KDeflateMaxDistance\<rparr>) of
             Inl e \<Rightarrow> Inl e | Inr (out, this) \<Rightarrow> inflate_loop m out False this)"
        "in_ok s" "in_bits m s = seg_bits enc sgs @ code_bits (iLitLen enc ! EEos) @ rest"
        using loop_copy [OF Cons.prems(1) out Cons.prems(3,4) l _ Cons.prems(5), of m "seg_bits enc sgs @ code_bits (iLitLen enc ! EEos) @ rest"]
          Cons.prems(9,10) Copy by (auto simp del: seg_tokens.simps)
      show ?thesis unfolding s(1)
        by (rule history_step [where sgs = sgs and l = l and d = d and rest = rest]) (use Cons out l u s Copy in auto)
    qed
  qed
qed

text \<open>One call of \<open>InflateL\<close>, with the buffer emptied\<close>

lemma InflateL_spec:
  assumes "iEncoding this = dec" "inflating enc u1 u2 m this outp data" "KDeflateMaxDistance dvd length outp"
  shows "\<exists>r. InflateL m this = Inr r \<and> inflated enc u1 u2 m r 0 outp data \<and> iEncoding (snd r) = dec"
proof (cases "iLen this < 0")
  case True
  then show ?thesis using assms by (auto simp: InflateL_def inflated_def intro!: exI [of _ "[]"])
next
  case False
  then obtain d sgs rest where i: "in_ok (iBits_inf this)" "ring (iOut this) outp" "list_all (tok_used u1 u2) (concat (map seg_tokens sgs))"
    "in_bits m (iBits_inf this) = seg_bits enc sgs @ code_bits (iLitLen enc ! EEos) @ rest"
    "0 < iLen this \<Longrightarrow> 0 < d \<and> d \<le> KDeflateMaxDistance \<and> d \<le> length outp \<and> iRptr this = (length outp - d) mod KDeflateMaxDistance"
    "unpack sgs (copy (nat (iLen this)) d outp) = Some data"
    using assms(2) unfolding inflating_def by auto
  show ?thesis
  proof (cases "iLen this = 0")
    case True
    then show ?thesis using inflate_loop_spec [OF assms(1), of 0 outp sgs data m rest] i assms(3) by (simp add: InflateL_def)
  next
    case pos: False
    have "\<exists>r. (case useHistory 0 this of Inl e \<Rightarrow> Inl e | Inr (out, this) \<Rightarrow> inflate_loop m out False this) = Inr r \<and>
        inflated enc u1 u2 m r 0 outp data \<and> iEncoding (snd r) = dec"
      by (rule history_step [where sgs = sgs and l = "nat (iLen this)" and d = d and rest = rest])
        (use i pos False assms inflate_loop_spec in auto)
    then show ?thesis using False pos by (simp add: InflateL_def)
  qed
qed

end

end
