(* ===== verification/Deflate_Program.thy ===== *)
theory Deflate_Program
  imports Inflate_Correct
begin

text \<open>
  The programs \<open>compress\<close> and \<open>decompress\<close> of \<open>elf2e32\<close> (\<open>compress.cpp\<close>, \<open>decompress.cpp\<close>) around the compressor:
  both copy the header of an E32 image, change its compression type and process the rest.
\<close>

section \<open>The programs\<close>

abbreviation (input) HEADER_SIZE :: nat where "HEADER_SIZE \<equiv> 156"
abbreviation (input) KUidCompressionDeflate :: "32 word" where "KUidCompressionDeflate \<equiv> 0x101f7afc"

text \<open>Memory with the bytes of an array at an address\<close>

definition place_bytes :: "memory \<Rightarrow> addr \<Rightarrow> byte list \<Rightarrow> memory" where
  "place_bytes m a bs = (\<lambda>i. if a \<le> i \<and> i < a + length bs then bs ! (i - a) else m i)"

definition compression_type :: "byte list \<Rightarrow> 32 word" where
  "compression_type header =
    ucast (header ! 0x1C) OR push_bit 8 (ucast (header ! 0x1D)) OR push_bit 16 (ucast (header ! 0x1E)) OR push_bit 24 (ucast (header ! 0x1F))"

definition set_compression :: "32 word \<Rightarrow> byte list \<Rightarrow> byte list" where
  "set_compression w header =
    header[0x1C := ucast w, 0x1D := ucast (drop_bit 8 w), 0x1E := ucast (drop_bit 16 w), 0x1F := ucast (drop_bit 24 w)]"

text \<open>
  \<open>main\<close> of \<open>compress.cpp\<close>, from the input file to the output file.  A file that is shorter than the
  header leaves the header uninitialised and makes the length of the data wrap around.
\<close>

definition compress_main :: "memory \<Rightarrow> addr \<Rightarrow> byte list \<Rightarrow> (failure + byte list) option" where
  "compress_main m data file =
    (if length file < HEADER_SIZE then Some (Inl Undefined)
     else let
       header = take HEADER_SIZE file;
       m = place_bytes m data (drop HEADER_SIZE file);
       len = of_nat (length file) - of_nat HEADER_SIZE :: 32 word
     in if compression_type header \<noteq> 0 then Some (Inl (Exit 1))
     else DeflateCompress m data (nat (sint len)) (set_compression KUidCompressionDeflate header))"

text \<open>The loop of \<open>main\<close> of \<open>decompress.cpp\<close>\<close>

partial_function (option) decompress_loop :: "memory \<Rightarrow> byte list \<Rightarrow> CInflater \<Rightarrow> (failure + byte list) option" where
  "decompress_loop m out inflater =
    (case inflater_ReadL m 1024 [] inflater of
       Inl e \<Rightarrow> Some (Inl e)
     | Inr (outbuf, inflater) \<Rightarrow>
         if length outbuf \<le> 0 then Some (Inr out) else decompress_loop m (out @ outbuf) inflater)"

definition decompress_main :: "memory \<Rightarrow> addr \<Rightarrow> TEncoding \<Rightarrow> byte list \<Rightarrow> byte list \<Rightarrow> (failure + byte list) option" where
  "decompress_main m data enc buf file =
    (if length file < HEADER_SIZE then Some (Inl Undefined)
     else let
       header = take HEADER_SIZE file;
       m = place_bytes m data (drop HEADER_SIZE file);
       len = of_nat (length file) - of_nat HEADER_SIZE :: 32 word
     in if compression_type header \<noteq> KUidCompressionDeflate then Some (Inl (Exit 1))
     else case NewLC m (Set m data (sint (8 * len)) 0) enc buf of
       Inl e \<Rightarrow> Some (Inl e)
     | Inr inflater \<Rightarrow> decompress_loop m (set_compression 0 header) inflater)"

section \<open>Reading all data\<close>

lemma inflate_loop_avail:
  "inflate_loop m out dist this = Inr (out', this') \<Longrightarrow> iAvail this' = iAvail this \<and> iLimit this' = iLimit this"
proof (induction m out dist this rule: inflate_loop.induct)
  case (1 m out dist this)
  let ?tree = "if dist then iDistance (iEncoding this) else iLitLen (iEncoding this)"
  show ?case
  proof (cases "out < KDeflateMaxDistance")
    case out: True
    then obtain v s where v: "input_HuffmanL m ?tree (iBits_inf this) = Inr (v, s)"
      using "1.prems" by (subst (asm) inflate_loop.simps) (auto split: sum.splits)
    let ?val = "sint v - int ELiterals"
    consider (lit) "?val < 0" | (eos) "\<not> ?val < 0" "?val = int EEos - int ELiterals"
      | (code) "\<not> ?val < 0" "?val \<noteq> int EEos - int ELiterals" by blast
    then show ?thesis
    proof cases
      case lit
      then show ?thesis using "1.IH"(1) [OF _ v refl refl lit] "1.prems" out v by (subst (asm) (2) inflate_loop.simps) (simp add: Let_def)
    next
      case eos
      then show ?thesis using "1.prems" out v by (subst (asm) inflate_loop.simps) (auto simp: Let_def)
    next
      case code
      then obtain c s' where e: "extra_bits m (?val AND 0xff) s = Inr (c, s')"
        using "1.prems" out v by (subst (asm) inflate_loop.simps) (auto simp: Let_def split: sum.splits)
      show ?thesis
      proof (cases "?val < int KDeflateDistCodeBase - int ELiterals")
        case True
        then show ?thesis using "1.IH"(2) [OF _ v refl refl code e refl refl True] "1.prems" out v code e
          by (subst (asm) (2) inflate_loop.simps) (simp add: Let_def)
      next
        case False
        let ?r = "if int out - (c + 1) < 0 then int out - (c + 1) + int KDeflateMaxDistance else int out - (c + 1)"
        have run: "inflate_loop m out dist this = (if ?r < 0 then Inl Undefined else
            case useHistory out (this\<lparr>iBits_inf := s', iRptr := nat ?r\<rparr>) of Inl e \<Rightarrow> Inl e | Inr (out, this) \<Rightarrow> inflate_loop m out False this)"
          using out v code e False by (subst inflate_loop.simps) (simp add: Let_def)
        then obtain o2 t2 where h: "\<not> ?r < 0" "useHistory out (this\<lparr>iBits_inf := s', iRptr := nat ?r\<rparr>) = Inr (o2, t2)"
          "inflate_loop m o2 False t2 = Inr (out', this')"
          using "1.prems" by (auto split: if_splits sum.splits)
        have "iAvail t2 = iAvail this \<and> iLimit t2 = iLimit this"
          using h(2) by (auto simp: useHistory_def Let_def split: if_splits prod.splits)
        then show ?thesis using "1.IH"(3) [OF _ v refl refl code e refl refl False refl refl h(1,2) refl h(3)] out by simp
      qed
    qed
  next
    case False
    then show ?thesis using "1.prems" by (simp add: inflate_loop.simps)
  qed
qed

lemma InflateL_avail: "InflateL m this = Inr (out', this') \<Longrightarrow> iAvail this' = iAvail this \<and> iLimit this' = iLimit this"
  by (auto simp: InflateL_def useHistory_def Let_def split: if_splits sum.splits prod.splits dest!: inflate_loop_avail)

lemma unpack_prefix: "unpack sgs outp = Some data \<Longrightarrow> \<exists>new. data = outp @ new"
proof (induction sgs arbitrary: outp)
  case (Cons sg sgs)
  show ?case
  proof (cases sg)
    case (Literal b)
    then show ?thesis using Cons.IH [of "outp @ [b]"] Cons.prems by auto
  next
    case (Copy l d)
    then have "unpack sgs (copy l d outp) = Some data" using Cons.prems by (simp split: if_splits)
    then show ?thesis using Cons.IH copy_prefix [of l d outp] by (metis append.assoc)
  qed
qed simp

lemma inflating_prefix: "inflating enc u1 u2 m this outp data \<Longrightarrow> \<exists>new. data = outp @ new"
  unfolding inflating_def by (metis append.assoc append_Nil2 copy_prefix unpack_prefix)

lemma inflating_avail [simp]: "inflating enc u1 u2 m (this\<lparr>iAvail := a\<rparr>) outp data = inflating enc u1 u2 m this outp data"
  "inflating enc u1 u2 m (this\<lparr>iLimit := a\<rparr>) outp data = inflating enc u1 u2 m this outp data"
  by (simp_all add: inflating_def)

text \<open>\<open>front\<close> has been delivered; the rest of the output is still in the buffer.\<close>

definition reading :: "TEncoding \<Rightarrow> TEncoding \<Rightarrow> (nat \<Rightarrow> bool) \<Rightarrow> (nat \<Rightarrow> bool) \<Rightarrow> memory \<Rightarrow> CInflater \<Rightarrow> byte list \<Rightarrow> byte list \<Rightarrow> bool" where
  "reading enc dec u1 u2 m this front data \<longleftrightarrow> iEncoding this = dec \<and> iAvail this \<le> iLimit this \<and> iLimit this \<le> KDeflateMaxDistance \<and>
     (\<exists>outp. inflating enc u1 u2 m this outp data \<and> outp = front @ drop (iAvail this) (take (iLimit this) (iOut this)) \<and>
       (iLen this < 0 \<or> KDeflateMaxDistance dvd length outp))"

context deflate_stream
begin

lemma reading_InflateL:
  assumes "reading enc dec u1 u2 m this front data" "iAvail this = iLimit this"
  shows "\<exists>k this'. InflateL m this = Inr (k, this') \<and> (if k = 0 then front = data \<and> reading enc dec u1 u2 m this' front data
    else reading enc dec u1 u2 m (this'\<lparr>iAvail := 0, iLimit := k\<rparr>) front data)"
proof -
  have r: "iEncoding this = dec" "inflating enc u1 u2 m this front data" "iLen this < 0 \<or> KDeflateMaxDistance dvd length front" "iLimit this \<le> KDeflateMaxDistance"
    using assms by (auto simp: reading_def)
  show ?thesis
  proof (cases "iLen this < 0")
    case True
    then show ?thesis using assms(1) r(2) by (auto simp: InflateL_def inflating_def)
  next
    case False
    then have dv: "KDeflateMaxDistance dvd length front" using r(3) by simp
    obtain k this' where I: "InflateL m this = Inr (k, this')" "inflated enc u1 u2 m (k, this') 0 front data" "iEncoding this' = dec"
      using InflateL_spec [OF r(1,2) dv] by auto
    then obtain new where n: "inflating enc u1 u2 m this' (front @ new) data" "k = length new" "k \<le> KDeflateMaxDistance"
      "k = KDeflateMaxDistance \<or> iLen this' < 0"
      unfolding inflated_def by auto
    have "ring (iOut this') (front @ new)" using n(1) by (simp add: inflating_def)
    then have t: "take k (iOut this') = new" using ring_take n(2,3) dv by metis
    have av: "iAvail this' = iAvail this" "iLimit this' = iLimit this" using InflateL_avail [OF I(1)] by auto
    show ?thesis
    proof (cases "k = 0")
      case True
      then have "iLen this' < 0" "new = []" using n by auto
      then show ?thesis using I(1,3) n(1) True av assms(2) r(4) by (auto simp: reading_def inflating_def)
    next
      case k: False
      have "inflating enc u1 u2 m (this'\<lparr>iAvail := 0, iLimit := k\<rparr>) (front @ new) data" using n(1) by simp
      moreover have "iLen this' < 0 \<or> KDeflateMaxDistance dvd length (front @ new)" using n dv by auto
      ultimately show ?thesis using I(1,3) n(3) k t by (auto simp: reading_def)
    qed
  qed
qed

lemma reading_prefix: "reading enc dec u1 u2 m this front data \<Longrightarrow> \<exists>new. data = front @ drop (iAvail this) (take (iLimit this) (iOut this)) @ new"
  unfolding reading_def using inflating_prefix by fastforce

lemma inflater_ReadL_spec:
  assumes "reading enc dec u1 u2 m this front data"
  shows "\<exists>this'. inflater_ReadL m n acc this = Inr (acc @ take n (drop (length front) data), this') \<and>
    reading enc dec u1 u2 m this' (front @ take n (drop (length front) data)) data"
  using assms
proof (induction "2 * n + (if iLimit this \<le> iAvail this then 1 else 0)" arbitrary: n acc front this rule: less_induct)
  case less
  let ?av = "drop (iAvail this) (take (iLimit this) (iOut this))"
  let ?k = "min n (iLimit this - iAvail this)"
  let ?new = "take ?k (drop (iAvail this) (iOut this))"
  have r: "iAvail this \<le> iLimit this" "iLimit this \<le> KDeflateMaxDistance" "length (iOut this) = KDeflateMaxDistance"
    using less.prems by (auto simp: reading_def inflating_def ring_def)
  have len: "length ?av = iLimit this - iAvail this" using r by simp
  have new: "?new = take ?k ?av" by (simp only: drop_take take_take) (simp add: min.assoc)
  obtain tl where tl: "data = front @ ?av @ tl" using reading_prefix [OF less.prems] by auto
  let ?st = "this\<lparr>iAvail := iAvail this + ?k\<rparr>"
  have R: "reading enc dec u1 u2 m ?st (front @ ?new) data"
  proof -
    have "drop (iAvail this + ?k) (take (iLimit this) (iOut this)) = drop ?k ?av" by (simp add: add.commute)
    then have "front @ ?av = (front @ ?new) @ drop (iAvail this + ?k) (take (iLimit this) (iOut this))" unfolding new by (simp only: append.assoc append_take_drop_id)
    then show ?thesis using less.prems r unfolding reading_def by auto
  qed
  show ?case
  proof (cases "n \<le> iLimit this - iAvail this")
    case True
    then have "?k = n" "take n (drop (length front) data) = ?new" using tl new len by auto
    then show ?thesis using R by (subst inflater_ReadL.simps) (auto simp: Let_def)
  next
    case False
    then have k: "?k = iLimit this - iAvail this" "?new = ?av" using new len by auto
    have a: "iAvail ?st = iLimit ?st" using k r by simp
    obtain j this' where I: "InflateL m ?st = Inr (j, this')" "if j = 0 then front @ ?new = data \<and> reading enc dec u1 u2 m this' (front @ ?new) data
        else reading enc dec u1 u2 m (this'\<lparr>iAvail := 0, iLimit := j\<rparr>) (front @ ?new) data"
      using reading_InflateL [OF R a] by blast
    have d: "take n (drop (length front) data) = ?av @ take (n - ?k) (drop (length (front @ ?new)) data)"
      using tl k len False by simp
    show ?thesis
    proof (cases "j = 0")
      case True
      then have "take n (drop (length front) data) = ?new" using I(2) d k by simp
      then show ?thesis using True I False by (subst inflater_ReadL.simps) (auto simp: Let_def)
    next
      case j: False
      have "2 * (n - ?k) + (if j \<le> 0 then 1 else 0) < 2 * n + (if iLimit this \<le> iAvail this then 1 else 0)" using j False by auto
      then obtain this'' where "inflater_ReadL m (n - ?k) (acc @ ?new) (this'\<lparr>iAvail := 0, iLimit := j\<rparr>) =
          Inr ((acc @ ?new) @ take (n - ?k) (drop (length (front @ ?new)) data), this'')"
        "reading enc dec u1 u2 m this'' ((front @ ?new) @ take (n - ?k) (drop (length (front @ ?new)) data)) data"
        using less.hyps [of "n - ?k" "this'\<lparr>iAvail := 0, iLimit := j\<rparr>" "front @ ?new" "acc @ ?new"] I(2) j by auto
      then show ?thesis using I(1) j False d k by (subst inflater_ReadL.simps) (simp add: Let_def)
    qed
  qed
qed

lemma decompress_loop_spec:
  "reading enc dec u1 u2 m this front data \<Longrightarrow> decompress_loop m out this = Some (Inr (out @ drop (length front) data))"
proof (induction "length data - length front" arbitrary: front out this rule: less_induct)
  case less
  let ?new = "take 1024 (drop (length front) data)"
  obtain this' where r: "inflater_ReadL m 1024 [] this = Inr (?new, this')" "reading enc dec u1 u2 m this' (front @ ?new) data"
    using inflater_ReadL_spec [OF less.prems, of 1024 "[]"] by auto
  show ?case
  proof (cases "length front < length data")
    case True
    then have "decompress_loop m (out @ ?new) this' = Some (Inr ((out @ ?new) @ drop (length (front @ ?new)) data))"
      using r(2) by (intro less.hyps) auto
    moreover have "?new @ drop (length (front @ ?new)) data = drop (length front) data"
      by (simp add: min_def) (metis add.commute append_take_drop_id drop_drop)
    ultimately show ?thesis using r(1) True by (subst decompress_loop.simps) simp
  next
    case False
    then show ?thesis using r(1) by (subst decompress_loop.simps) simp
  qed
qed

end

end
