(* ===== verification/Deflate_Roundtrip.thy ===== *)
theory Deflate_Roundtrip
  imports Deflate_Program
begin

text \<open>
  Compression and decompression of a whole image: the codes that \<open>DeflateL\<close> makes for its data are
  those that \<open>CInflater::InitL\<close> restores, and \<open>decompress\<close> gives back the file that \<open>compress\<close> was given.
\<close>

section \<open>Frequencies\<close>

lemma stats_counts:
  "length (iLitLen (fold (emit TDeflateStats) ts enc)) = length (iLitLen enc) \<and>
   length (iDistance (fold (emit TDeflateStats) ts enc)) = length (iDistance enc) \<and>
   (\<forall>c<length (iLitLen enc). iLitLen (fold (emit TDeflateStats) ts enc) ! c = iLitLen enc ! c + of_nat (count_list ts (Litlen c))) \<and>
   (\<forall>c<length (iDistance enc). iDistance (fold (emit TDeflateStats) ts enc) ! c = iDistance enc ! c + of_nat (count_list ts (Dist c)))"
proof (induction ts arbitrary: enc)
  case (Cons t ts)
  show ?case using Cons [of "emit TDeflateStats t enc"]
    by (cases t) (auto simp: TDeflateStats_def nth_list_update)
qed simp

text \<open>The numbers of calls of \<open>LitLenL\<close> and of \<open>OffsetL\<close>\<close>

primrec calls :: "token list \<Rightarrow> nat \<times> nat" where
  "calls [] = (0, 0)"
| "calls (t # ts) = (let (l, d) = calls ts in case t of Litlen c \<Rightarrow> (l + 1, d) | Dist c \<Rightarrow> (l, d + 1) | Extra n b \<Rightarrow> (l, d))"

lemma calls_append [simp]: "calls (as @ bs) = (fst (calls as) + fst (calls bs), snd (calls as) + snd (calls bs))"
  by (induction as) (auto simp: Let_def split: token.splits prod.splits)

lemma sum_count_list: "inj_on g {..<n :: nat} \<Longrightarrow> (\<Sum>c<n. if x = g c then Suc (f c) else f c) \<le> (\<Sum>c<n. f c) + (if x \<in> g ` {..<n} then 1 else 0)"
proof (induction n)
  case (Suc n)
  have "\<forall>y<n. g y \<noteq> g n"
  proof (intro allI impI notI)
    fix y assume "y < n" "g y = g n"
    then show False using inj_onD [OF Suc.prems, of y n] by simp
  qed
  moreover have "inj_on g {..<n}" using Suc.prems by (auto simp: inj_on_def)
  ultimately show ?case using Suc.IH by (auto simp: lessThan_Suc split: if_splits)
qed simp

lemma count_calls: "(\<Sum>c<n. count_list ts (Litlen c)) \<le> fst (calls ts)" "(\<Sum>c<n. count_list ts (Dist c)) \<le> snd (calls ts)"
proof -
  show "(\<Sum>c<n. count_list ts (Litlen c)) \<le> fst (calls ts)"
  proof (induction ts)
    case (Cons t ts)
    then show ?case using sum_count_list [of Litlen n t "\<lambda>c. count_list ts (Litlen c)"]
      by (cases t) (auto simp: inj_on_def Let_def split: prod.splits if_splits cong: if_cong)
  qed simp
  show "(\<Sum>c<n. count_list ts (Dist c)) \<le> snd (calls ts)"
  proof (induction ts)
    case (Cons t ts)
    then show ?case using sum_count_list [of Dist n t "\<lambda>c. count_list ts (Dist c)"]
      by (cases t) (auto simp: inj_on_def Let_def split: prod.splits if_splits cong: if_cong)
  qed simp
qed

text \<open>Every segment that \<open>unpack\<close> accepts has one length or literal, at most one distance and few bits.\<close>

lemma seg_calls:
  assumes "unpack (sg # sgs) outp = Some data"
  obtains outp' where "unpack sgs outp' = Some data" "fst (calls (seg_tokens sg)) = 1" "snd (calls (seg_tokens sg)) \<le> 1"
    "length (concat (map (tok_bits enc) (seg_tokens sg))) + 31 * length outp \<le> 31 * length outp'" "length outp < length outp'"
proof (cases sg)
  case (Literal b)
  then show ?thesis using that [of "outp @ [b]"] assms length_code_bits [of "iLitLen enc ! unat b"] by simp
next
  case (Copy l d)
  then have l: "KDeflateMinLength \<le> l" "l \<le> KDeflateMaxLength" "0 < d" "d \<le> KDeflateMaxDistance" and u: "unpack sgs (copy l d outp) = Some data"
    using assms by (auto split: if_splits)
  from l obtain k y k' y' where t: "k \<le> 5" "k' \<le> 9"
    "seg_tokens (Copy l d) = Litlen (4 * k + y + 256) # (if k \<noteq> 0 then [Extra k (of_nat (l - 3))] else []) @
       Dist (4 * k' + y') # (if k' \<noteq> 0 then [Extra k' (of_nat (d - 1))] else [])"
    by (rule Copy_tokens)
  have "length (concat (map (tok_bits enc) (seg_tokens (Copy l d)))) \<le> 31 * l"
    unfolding t(3) using t(1,2) l(1) length_code_bits [of "iLitLen enc ! (4 * k + y + 256)"] length_code_bits [of "iDistance enc ! (4 * k' + y')"] by auto
  moreover have "fst (calls (seg_tokens (Copy l d))) = 1" "snd (calls (seg_tokens (Copy l d))) \<le> 1" unfolding t(3) by simp_all
  ultimately show ?thesis using that [OF u] l(1) Copy by (simp del: seg_tokens.simps)
qed

lemma unpack_calls:
  "unpack sgs outp = Some data \<Longrightarrow> fst (calls (concat (map seg_tokens sgs))) + length outp \<le> length data \<and>
    snd (calls (concat (map seg_tokens sgs))) + length outp \<le> length data \<and> length (seg_bits enc sgs) + 31 * length outp \<le> 31 * length data"
proof (induction sgs arbitrary: outp)
  case (Cons sg sgs)
  from Cons.prems obtain outp' where o: "unpack sgs outp' = Some data" "fst (calls (seg_tokens sg)) = 1" "snd (calls (seg_tokens sg)) \<le> 1"
    "length (concat (map (tok_bits enc) (seg_tokens sg))) + 31 * length outp \<le> 31 * length outp'" "length outp < length outp'" by (rule seg_calls)
  then show ?case using Cons.IH [OF o(1)] by simp
qed simp

text \<open>The codes of tokens are in range.\<close>

primrec tok_range :: "token \<Rightarrow> bool" where
  "tok_range (Litlen c) \<longleftrightarrow> c < ELitLens"
| "tok_range (Dist c) \<longleftrightarrow> c < EDistances"
| "tok_range (Extra n b) \<longleftrightarrow> n \<le> 32"

lemma tokens_range: "unpack sgs outp = Some data \<Longrightarrow> list_all tok_range (concat (map seg_tokens sgs))"
proof (induction sgs arbitrary: outp)
  case (Cons sg sgs)
  show ?case
  proof (cases sg)
    case (Literal b)
    have "unat b < 256" using unsigned_less [of b] by simp
    then show ?thesis using Literal Cons.IH [of "outp @ [b]"] Cons.prems by auto
  next
    case (Copy l d)
    then have l: "KDeflateMinLength \<le> l" "l \<le> KDeflateMaxLength" "0 < d" "d \<le> KDeflateMaxDistance" and u: "unpack sgs (copy l d outp) = Some data"
      using Cons.prems by (auto split: if_splits)
    from l have "list_all tok_range (seg_tokens (Copy l d))" by (rule Copy_tokens) auto
    then show ?thesis using Cons.IH [OF u] Copy by (auto simp del: seg_tokens.simps)
  qed
qed simp

lemma count_list_0: "count_list xs x = 0 \<longleftrightarrow> x \<notin> set xs"
  by (induction xs) auto

lemma used_tokens:
  assumes "list_all tok_range ts" "\<And>c. count_list ts (Litlen c) < 2 ^ 32 \<and> count_list ts (Dist c) < 2 ^ 32"
    and "lengths_for (iLitLen (fold (emit TDeflateStats) ts \<lparr>iLitLen = replicate ELitLens 0, iDistance = replicate EDistances 0\<rparr>)) L1"
    and "lengths_for (iDistance (fold (emit TDeflateStats) ts \<lparr>iLitLen = replicate ELitLens 0, iDistance = replicate EDistances 0\<rparr>)) L2"
  shows "list_all (tok_used (\<lambda>c. c < ELitLens \<and> L1 ! c \<noteq> 0) (\<lambda>c. c < EDistances \<and> L2 ! c \<noteq> 0)) ts"
proof -
  note S = stats_counts [of ts "\<lparr>iLitLen = replicate ELitLens 0, iDistance = replicate EDistances 0\<rparr>"]
  have nz: "(of_nat (count_list ts t) :: 32 word) \<noteq> 0" if "t \<in> set ts" "count_list ts t < 2 ^ 32" for t
  proof
    assume "(of_nat (count_list ts t) :: 32 word) = 0"
    then have "2 ^ 32 dvd count_list ts t" by (simp add: word_of_nat_eq_0_iff)
    then have "count_list ts t = 0" using that(2) by (metis dvd_imp_le leD neq0_conv)
    then show False using that(1) by (simp add: count_list_0)
  qed
  have "tok_used (\<lambda>c. c < ELitLens \<and> L1 ! c \<noteq> 0) (\<lambda>c. c < EDistances \<and> L2 ! c \<noteq> 0) t" if t: "t \<in> set ts" for t
  proof -
    have "tok_range t" using assms(1) t by (simp add: list_all_iff)
    then show ?thesis using nz [OF t] assms(2) S assms(3,4) by (cases t) (auto simp: lengths_for_def)
  qed
  then show ?thesis by (simp add: list_all_iff)
qed

section \<open>The compressed data\<close>

lemma code_pair:
  assumes "complete L1" "length L1 = ELitLens" "complete L2" "length L2 = EDistances" "L1 ! EEos \<noteq> 0"
  shows "\<exists>T1 T2 D1 D2. Encoding L1 ELitLens = Inr T1 \<and> Encoding L2 EDistances = Inr T2 \<and> Decoding L1 ELitLens 0 = Inr D1 \<and>
    Decoding L2 EDistances (of_nat KDeflateDistCodeBase) = Inr D2 \<and>
    deflate_stream \<lparr>iLitLen = T1, iDistance = T2\<rparr> \<lparr>iLitLen = D1, iDistance = D2\<rparr>
      (\<lambda>c. c < ELitLens \<and> L1 ! c \<noteq> 0) (\<lambda>c. c < EDistances \<and> L2 ! c \<noteq> 0)"
proof -
  obtain T1 T2 where T: "Encoding L1 ELitLens = Inr T1" "Encoding L2 EDistances = Inr T2"
    using Encoding_nth [OF assms(1)] Encoding_nth [OF assms(3)] unfolding assms(2,4) by blast
  obtain D1 D2 where D: "Decoding L1 ELitLens 0 = Inr D1" "Decoding L2 EDistances (of_nat KDeflateDistCodeBase) = Inr D2"
    using Decoding_decodes [OF assms(1), of 0] Decoding_decodes [OF assms(3), of 512] unfolding assms(2,4) by auto
  have "symbol_code T1 D1 0 (\<lambda>c. c < ELitLens \<and> L1 ! c \<noteq> 0)"
    using canonical.symbol_code_axioms [of L1 0] T D assms(1,2) by simp
  moreover have "symbol_code T2 D2 512 (\<lambda>c. c < EDistances \<and> L2 ! c \<noteq> 0)"
    using canonical.symbol_code_axioms [of L2 512] T D assms(3,4) by simp
  ultimately have "deflate_stream \<lparr>iLitLen = T1, iDistance = T2\<rparr> \<lparr>iLitLen = D1, iDistance = D2\<rparr>
      (\<lambda>c. c < ELitLens \<and> L1 ! c \<noteq> 0) (\<lambda>c. c < EDistances \<and> L2 ! c \<noteq> 0)"
    using assms(5) by (simp add: deflate_stream_def deflate_codes_def deflate_stream_axioms_def)
  then show ?thesis using T D by blast
qed

text \<open>A decoder that is set on the bits is ready to give the data.\<close>

definition starts :: "bool list \<Rightarrow> byte list \<Rightarrow> bool" where
  "starts bits data \<longleftrightarrow> (\<forall>m s enc0 buf. in_ok s \<and> in_bits m s = bits \<and> length (iLitLen enc0) = ELitLens \<and> length (iDistance enc0) = EDistances \<and>
     length buf = KDeflateMaxDistance \<longrightarrow> (\<exists>this enc dec u1 u2. NewLC m s enc0 buf = Inr this \<and> deflate_stream enc dec u1 u2 \<and>
       reading enc dec u1 u2 m this [] data))"

lemma starts_stream:
  assumes "complete L1" "length L1 = ELitLens" "complete L2" "length L2 = EDistances"
    and ext: "\<And>m s A rest. in_ok s \<Longrightarrow> in_bits m s = ebits @ rest \<Longrightarrow> length A = KDeflationCodes \<Longrightarrow>
      \<exists>s'. InternalizeL m s A KDeflationCodes = Inr (L1 @ L2, s') \<and> in_ok s' \<and> in_bits m s' = rest"
    and D: "Decoding L1 ELitLens 0 = Inr D1" "Decoding L2 EDistances (of_nat KDeflateDistCodeBase) = Inr D2"
    and st: "deflate_stream enc \<lparr>iLitLen = D1, iDistance = D2\<rparr> u1 u2"
    and sgs: "list_all (tok_used u1 u2) (concat (map seg_tokens sgs))" "unpack sgs [] = Some data"
  shows "starts (ebits @ seg_bits enc sgs @ code_bits (iLitLen enc ! EEos) @ pad) data"
  unfolding starts_def
proof (intro allI impI, elim conjE)
  fix m s and enc0 :: TEncoding and buf :: "byte list"
  assume s: "in_ok s" "in_bits m s = ebits @ seg_bits enc sgs @ code_bits (iLitLen enc ! EEos) @ pad"
    and l: "length (iLitLen enc0) = ELitLens" "length (iDistance enc0) = EDistances" and b: "length buf = KDeflateMaxDistance"
  obtain s' where s': "InternalizeL m s (iLitLen enc0 @ iDistance enc0) KDeflationCodes = Inr (L1 @ L2, s')" "in_ok s'"
    "in_bits m s' = seg_bits enc sgs @ code_bits (iLitLen enc ! EEos) @ pad"
    using ext [OF s, of "iLitLen enc0 @ iDistance enc0"] l by auto
  let ?dec = "\<lparr>iLitLen = D1, iDistance = D2\<rparr>"
  let ?st = "\<lparr>iBits_inf = s', iRptr = 0, iLen = 0, iAvail = 0, iLimit = 0, iEncoding = ?dec, iOut = buf\<rparr>"
  have "NewLC m s enc0 buf = Inr ?st"
    using s'(1) D complete_valid [OF assms(1,2)] complete_valid [OF assms(3,4)] assms(2) by (simp add: NewLC_def InitL_def Let_def)
  moreover have "inflating enc u1 u2 m ?st [] data"
    unfolding inflating_def using s'(2,3) ring_Nil [OF b] sgs by (auto intro!: exI [of _ sgs])
  then have "reading enc ?dec u1 u2 m ?st [] data" by (simp add: reading_def)
  ultimately show "\<exists>this enc dec u1 u2. NewLC m s enc0 buf = Inr this \<and> deflate_stream enc dec u1 u2 \<and> reading enc dec u1 u2 m this [] data"
    using st by blast
qed

lemma DeflateL_starts:
  assumes "n < 2 ^ 32 - 1" "out_ok out"
  shows "832039 \<le> n \<and> DeflateL m b n out = Some (Inl (Panic EHuffmanBufferOverflow)) \<or>
    (\<exists>out' bits. DeflateL m b n out = Some (Inr out') \<and> bytes_bits (stream out') = out_bits out @ bits \<and> starts bits (map m [b..<b + n]) \<and>
      length bits \<le> 31 * n + 10237)"
proof -
  obtain sgs where sgs: "MDeflater_DeflateL recorder m b n [] = Some (concat (map seg_tokens sgs) @ [Litlen EEos])"
    "unpack sgs [] = Some (map m [b..<b + n])"
    using DeflateL_tokens by blast
  define ts where "ts = concat (map seg_tokens sgs) @ [Litlen EEos]"
  note pass = MDeflater_DeflateL_emit [of _ m b n, unfolded sgs(1) ts_def [symmetric] option.map]
  let ?zero = "\<lparr>iLitLen = replicate ELitLens 0, iDistance = replicate EDistances 0\<rparr> :: TEncoding"
  let ?f = "fold (emit TDeflateStats) ts ?zero"
  have lf: "length (iLitLen ?f) = ELitLens" "length (iDistance ?f) = EDistances" using stats_counts [of ts ?zero] by simp_all
  note H1 = HuffmanL_complete [OF lf(1)] and H2 = HuffmanL_complete [OF lf(2)]
  have calls: "fst (calls ts) \<le> n + 1" "snd (calls ts) \<le> n" using unpack_calls [OF sgs(2)] by (simp_all add: ts_def)
  have fr: "(\<Sum>c<ELitLens. unat (iLitLen ?f ! c)) \<le> n + 1" "(\<Sum>c<EDistances. unat (iDistance ?f ! c)) \<le> n"
  proof -
    have le: "unat (of_nat x :: 32 word) \<le> x" for x by (simp add: unat_of_nat)
    have "unat (iLitLen ?f ! c) \<le> count_list ts (Litlen c)" if "c < ELitLens" for c using stats_counts [of ts ?zero] that le by simp
    then have "(\<Sum>c<ELitLens. unat (iLitLen ?f ! c)) \<le> (\<Sum>c<ELitLens. count_list ts (Litlen c))" by (intro sum_mono) simp
    then show "(\<Sum>c<ELitLens. unat (iLitLen ?f ! c)) \<le> n + 1" using count_calls(1) [of ts ELitLens] calls(1) by linarith
    have "unat (iDistance ?f ! c) \<le> count_list ts (Dist c)" if "c < EDistances" for c using stats_counts [of ts ?zero] that le by simp
    then have "(\<Sum>c<EDistances. unat (iDistance ?f ! c)) \<le> (\<Sum>c<EDistances. count_list ts (Dist c))" by (intro sum_mono) simp
    then show "(\<Sum>c<EDistances. unat (iDistance ?f ! c)) \<le> n" using count_calls(2) [of ts EDistances] calls(2) by linarith
  qed
  have big: "832039 \<le> n" if "HuffmanL (iLitLen ?f) ELitLens = Inl e \<or> HuffmanL (iDistance ?f) EDistances = Inl e" for e
    using that HuffmanL_succeeds [OF lf(1)] HuffmanL_succeeds [OF lf(2)] fr by (rule_tac ccontr) auto
  show ?thesis
  proof (cases "HuffmanL (iLitLen ?f) ELitLens")
    case (Inl e)
    then show ?thesis using H1 big [of e] pass [of TDeflateStats ?zero] by (simp add: DeflateL_def DeflateL_encode_def)
  next
    case L1: (Inr L1)
    show ?thesis
    proof (cases "HuffmanL (iDistance ?f) EDistances")
      case (Inl e)
      then show ?thesis using L1 H2 big [of e] pass [of TDeflateStats ?zero] by (simp add: DeflateL_def DeflateL_encode_def)
    next
      case L2: (Inr L2)
      have f: "lengths_for (iLitLen ?f) L1" "lengths_for (iDistance ?f) L2" using H1 H2 L1 L2 by simp_all
      then have L: "complete L1" "length L1 = ELitLens" "complete L2" "length L2 = EDistances" using lf by (simp_all add: lengths_for_def)
      have used: "list_all (tok_used (\<lambda>c. c < ELitLens \<and> L1 ! c \<noteq> 0) (\<lambda>c. c < EDistances \<and> L2 ! c \<noteq> 0)) ts"
      proof (rule used_tokens [OF _ _ f])
        show "list_all tok_range ts" using tokens_range [OF sgs(2)] by (simp add: ts_def)
        show "count_list ts (Litlen c) < 2 ^ 32 \<and> count_list ts (Dist c) < 2 ^ 32" for c
          using calls assms(1) count_calls [of ts "Suc c"] by auto
      qed
      then have "L1 ! EEos \<noteq> 0" by (simp add: ts_def)
      with L obtain T1 T2 D1 D2 where T: "Encoding L1 ELitLens = Inr T1" "Encoding L2 EDistances = Inr T2"
        and D: "Decoding L1 ELitLens 0 = Inr D1" "Decoding L2 EDistances (of_nat KDeflateDistCodeBase) = Inr D2"
        and ds: "deflate_stream \<lparr>iLitLen = T1, iDistance = T2\<rparr> \<lparr>iLitLen = D1, iDistance = D2\<rparr>
          (\<lambda>c. c < ELitLens \<and> L1 ! c \<noteq> 0) (\<lambda>c. c < EDistances \<and> L2 ! c \<noteq> 0)"
        using code_pair by blast
      let ?enc = "\<lparr>iLitLen = T1, iDistance = T2\<rparr> :: TEncoding"
      have "\<forall>l\<in>set (L1 @ L2). unat l \<le> 27" using L(1,3) by (auto simp: complete_def)
      from ExternalizeL_restores [OF this assms(2)] obtain out1 ebits where E: "ExternalizeL out (L1 @ L2) KDeflationCodes = Inr out1"
        "out_ok out1" "out_bits out1 = out_bits out @ ebits" and ebits: "length ebits \<le> 31 * KDeflationCodes"
        and ext:         "\<And>m s A rest. in_ok s \<Longrightarrow> in_bits m s = ebits @ rest \<Longrightarrow> length A = KDeflationCodes \<Longrightarrow>
          \<exists>s'. InternalizeL m s A KDeflationCodes = Inr (L1 @ L2, s') \<and> in_ok s' \<and> in_bits m s' = rest"
        using L(2,4) by auto
      let ?out2 = "fold (emit (TDeflater ?enc)) ts out1"
      note W = deflate_codes.write_tokens [OF deflate_stream.axioms(1) [OF ds] used E(2)]
      obtain pad where pad: "out_bits ?out2 @ pad = bytes_bits (stream (PadL 1 ?out2))" "length pad < 8" using PadL_bits W by blast
      have run: "DeflateL m b n out = Some (Inr (PadL 1 ?out2))"
        using pass [of TDeflateStats ?zero] pass [of "TDeflater ?enc" out1] L1 L2 T E(1) by (simp add: DeflateL_def DeflateL_encode_def)
      have "list_all (tok_used (\<lambda>c. c < ELitLens \<and> L1 ! c \<noteq> 0) (\<lambda>c. c < EDistances \<and> L2 ! c \<noteq> 0)) (concat (map seg_tokens sgs))"
        using used by (simp add: ts_def)
      from starts_stream [OF L ext D ds this sgs(2)] have "starts (ebits @ seg_bits ?enc sgs @ code_bits (iLitLen ?enc ! EEos) @ pad) (map m [b..<b + n])" .
      moreover have "bytes_bits (stream (PadL 1 ?out2)) = out_bits out @ ebits @ seg_bits ?enc sgs @ code_bits (iLitLen ?enc ! EEos) @ pad"
        unfolding pad(1) [symmetric] using W E(3) by (simp add: ts_def seg_bits_def)
      moreover have "length (ebits @ seg_bits ?enc sgs @ code_bits (iLitLen ?enc ! EEos) @ pad) \<le> 31 * n + 10237"
        using ebits pad(2) unpack_calls [OF sgs(2), of ?enc] length_code_bits [of "iLitLen ?enc ! EEos"] by simp
      ultimately show ?thesis using run by blast
    qed
  qed
qed

section \<open>Headers and files\<close>

lemma byte_bits_inj: "byte_bits a = byte_bits b \<Longrightarrow> a = b"
proof (rule bit_word_eqI)
  fix n assume e: "byte_bits a = byte_bits b" and "n < LENGTH(8)"
  then have n: "n < 8" by simp
  have "byte_bits a ! (7 - n) = byte_bits b ! (7 - n)" using e by simp
  moreover have "[0..<8] ! (7 - n) = 7 - n" by (subst nth_upt) simp_all
  ultimately show "bit a n = bit b n" using n by (simp add: byte_bits_def)
qed

lemma bytes_bits_prefix: "bytes_bits xs = bytes_bits ys @ bits \<Longrightarrow> \<exists>zs. xs = ys @ zs \<and> bytes_bits zs = bits"
proof (induction ys arbitrary: xs)
  case (Cons y ys)
  then obtain x xs' where x: "xs = x # xs'" by (cases xs) (auto dest: arg_cong [where f = length])
  then have "byte_bits x = byte_bits y" "bytes_bits xs' = bytes_bits ys @ bits" using Cons.prems by simp_all
  then show ?case using Cons.IH x byte_bits_inj by auto
qed simp

lemma set_compression_type:
  assumes "length header = HEADER_SIZE"
  shows "compression_type (set_compression w header) = w"
proof (rule bit_word_eqI)
  fix n assume "n < LENGTH(32)"
  then have "n < 32" by simp
  then consider "n < 8" | "8 \<le> n" "n < 16" | "16 \<le> n" "n < 24" | "24 \<le> n" "n < 32" by linarith
  then show "bit (compression_type (set_compression w header)) n = bit w n"
    using assms by cases (auto simp: compression_type_def set_compression_def bit_simps)
qed

lemma push_byte_0: "push_bit k (ucast (b :: byte) :: 32 word) = 0 \<Longrightarrow> k \<le> 24 \<Longrightarrow> b = 0"
proof (rule bit_word_eqI)
  fix n assume z: "push_bit k (ucast b :: 32 word) = 0" and k: "k \<le> 24" and "n < LENGTH(8)"
  then have n: "n < 8" by simp
  have "\<not> bit (push_bit k (ucast b :: 32 word)) (k + n)" using z by simp
  then show "bit b n = bit 0 n" using n k by (simp add: bit_push_bit_iff bit_ucast_iff)
qed

lemma set_compression_restore:
  assumes "length header = HEADER_SIZE" "compression_type header = 0"
  shows "set_compression 0 (set_compression w header) = header"
proof -
  have "header ! 0x1C = 0" "header ! 0x1D = 0" "header ! 0x1E = 0" "header ! 0x1F = 0"
    using assms(2) push_byte_0 [of 0 "header ! 0x1C"] push_byte_0 [of 8 "header ! 0x1D"] push_byte_0 [of 16 "header ! 0x1E"] push_byte_0 [of 24 "header ! 0x1F"]
    unfolding compression_type_def or_eq_0_iff by (simp_all only: push_bit_0_id id_apply)
  then show ?thesis using assms(1) by (intro nth_equalityI) (auto simp: set_compression_def nth_list_update)
qed

lemma place_bytes_data [simp]: "map (place_bytes m a bs) [a..<a + length bs] = bs"
  by (rule nth_equalityI) (simp_all add: place_bytes_def)

lemma sint_length: "n < 2 ^ 31 \<Longrightarrow> sint (of_nat n :: 32 word) = int n"
proof -
  assume n: "n < 2 ^ 31"
  then have u: "unat (of_nat n :: 32 word) = n" by (simp add: unat_of_nat)
  have "unat (of_nat n :: 32 word) < 2 ^ 31" unfolding u by (rule n)
  then have "sint (of_nat n :: 32 word) = uint (of_nat n :: 32 word)" by (rule sint_small)
  then show ?thesis using arg_cong [OF u, of int] by simp
qed

text \<open>The output of \<open>compress\<close>\<close>

lemma compress_main_body:
  assumes "HEADER_SIZE \<le> length file" "length file - HEADER_SIZE < 2 ^ 31" "compression_type (take HEADER_SIZE file) = 0"
  shows "832039 \<le> length file - HEADER_SIZE \<and> compress_main m a file = Some (Inl (Panic EHuffmanBufferOverflow)) \<or>
    (\<exists>body. compress_main m a file = Some (Inr (set_compression KUidCompressionDeflate (take HEADER_SIZE file) @ body)) \<and>
      starts (bytes_bits body) (drop HEADER_SIZE file) \<and> 8 * length body \<le> 31 * (length file - HEADER_SIZE) + 10237)"
proof -
  let ?h = "set_compression KUidCompressionDeflate (take HEADER_SIZE file)" and ?m = "place_bytes m a (drop HEADER_SIZE file)"
  let ?n = "length file - HEADER_SIZE"
  have len: "(of_nat (length file) - of_nat HEADER_SIZE :: 32 word) = of_nat ?n" using assms(1) by (simp add: of_nat_diff)
  have run: "compress_main m a file = DeflateCompress ?m a ?n ?h"
    using assms(1,3) sint_length [OF assms(2)] unfolding compress_main_def len by (simp add: Let_def nat_diff_distrib')
  have data: "map ?m [a..<a + ?n] = drop HEADER_SIZE file" using place_bytes_data [of m a "drop HEADER_SIZE file"] by simp
  have "?n < 2 ^ 32 - 1" using assms(2) by simp
  from DeflateL_starts [OF this TFileOutput_new_ok(1), of ?m a ?h]
  consider "832039 \<le> ?n" "DeflateL ?m a ?n (TFileOutput_new ?h) = Some (Inl (Panic EHuffmanBufferOverflow))"
    | out' bits where "DeflateL ?m a ?n (TFileOutput_new ?h) = Some (Inr out')" "bytes_bits (stream out') = bytes_bits ?h @ bits"
        "starts bits (drop HEADER_SIZE file)" "length bits \<le> 31 * ?n + 10237"
    unfolding data by auto
  then show ?thesis
  proof cases
    case 1
    then show ?thesis using run by (simp add: DeflateCompress_def)
  next
    case 2
    obtain body where b: "stream out' = ?h @ body" "bytes_bits body = bits" using bytes_bits_prefix [OF 2(2)] by blast
    have "8 * length body \<le> 31 * ?n + 10237" using 2(4) b(2) length_bytes_bits [of body] by simp
    then show ?thesis using run 2(1,3) b by (simp add: DeflateCompress_def FlushL_stream)
  qed
qed

lemma decompress_main_body:
  assumes "starts (bytes_bits body) data" "length header = HEADER_SIZE" "compression_type header = KUidCompressionDeflate"
    and "8 * length body < 2 ^ 31" "length (iLitLen enc) = ELitLens" "length (iDistance enc) = EDistances" "length buf = KDeflateMaxDistance"
  shows "decompress_main m a enc buf (header @ body) = Some (Inr (set_compression 0 header @ data))"
proof -
  let ?m = "place_bytes m a body" and ?n = "length body"
  let ?s = "Set ?m a (int (8 * ?n)) 0"
  have len: "(of_nat (length (header @ body)) - of_nat HEADER_SIZE :: 32 word) = of_nat ?n" using assms(2) by simp
  have "(8 * of_nat ?n :: 32 word) = of_nat (8 * ?n)" by simp
  then have bits8: "sint (8 * of_nat ?n :: 32 word) = int (8 * ?n)" using sint_length [OF assms(4)] by (simp only:)
  have s: "in_ok ?s" "in_bits ?m ?s = bytes_bits body"
    using Set_bits [of "int (8 * ?n)" ?m a] mem_bits_bytes [of ?m a ?n] by (simp_all del: of_nat_mult)
  then obtain this enc' dec u1 u2 where r: "NewLC ?m ?s enc buf = Inr this" "deflate_stream enc' dec u1 u2" "reading enc' dec u1 u2 ?m this [] data"
    using assms(1,5-7) unfolding starts_def by blast
  have "decompress_main m a enc buf (header @ body) = decompress_loop ?m (set_compression 0 header) this"
    using assms(2,3) r(1) unfolding decompress_main_def len bits8 by (simp add: Let_def bits8 del: of_nat_mult)
  then show ?thesis using deflate_stream.decompress_loop_spec [OF r(2,3)] by simp
qed

text \<open>
  C4. An image survives compression: \<open>compress\<close> ends on every uncompressed image of at most 64 MB and
  writes an image from which \<open>decompress\<close> restores the file, whatever is in the memory around the
  buffers and in the uninitialised tables.  The only exception is a panic because a code is longer than
  27 bits, which needs at least 832039 bytes of data.
\<close>

theorem compress_decompress:
  assumes "HEADER_SIZE \<le> length file" "length file \<le> 2 ^ 26" "compression_type (take HEADER_SIZE file) = 0"
    and "length (iLitLen enc) = ELitLens" "length (iDistance enc) = EDistances" "length buf = KDeflateMaxDistance"
  shows "832039 \<le> length file - HEADER_SIZE \<and> compress_main m a file = Some (Inl (Panic EHuffmanBufferOverflow)) \<or>
    (\<exists>img. compress_main m a file = Some (Inr img) \<and> decompress_main m' a' enc buf img = Some (Inr file))"
proof -
  let ?h = "take HEADER_SIZE file"
  let ?h' = "set_compression KUidCompressionDeflate ?h"
  have l: "length ?h = HEADER_SIZE" "length ?h' = HEADER_SIZE" using assms(1) by (simp_all add: set_compression_def)
  have "decompress_main m' a' enc buf (?h' @ body) = Some (Inr file)"
    if b: "starts (bytes_bits body) (drop HEADER_SIZE file)" "8 * length body \<le> 31 * (length file - HEADER_SIZE) + 10237" for body
  proof -
    have "8 * length body < 2 ^ 31" using b(2) assms(2) by simp
    from decompress_main_body [OF b(1) l(2) set_compression_type [OF l(1)] this assms(4-6)]
    show ?thesis unfolding set_compression_restore [OF l(1) assms(3)] by simp
  qed
  moreover have "length file - HEADER_SIZE < 2 ^ 31" using assms(2) by simp
  ultimately show ?thesis using compress_main_body [OF assms(1) _ assms(3), of m a] by blast
qed

theorem compress_decompress_witness:
  "\<exists>img. compress_main (\<lambda>_. 0) 0 (replicate 200 0) = Some (Inr img) \<and>
    decompress_main (\<lambda>_. 1) 4 \<lparr>iLitLen = replicate ELitLens 7, iDistance = replicate EDistances 7\<rparr> (replicate KDeflateMaxDistance 0) img = Some (Inr (replicate 200 0))"
proof -
  have "compression_type (take HEADER_SIZE (replicate 200 0)) = 0" by (simp add: compression_type_def)
  from compress_decompress [OF _ _ this, of "\<lparr>iLitLen = replicate ELitLens 7, iDistance = replicate EDistances 7\<rparr>" "replicate KDeflateMaxDistance 0" "\<lambda>_. 0" 0 "\<lambda>_. 1" 4]
  show ?thesis by simp
qed

text \<open>
  C15. The size of a compressed image is bounded: the output of \<open>compress\<close> has the header, with the
  compression type of the deflate algorithm, and at most 31 bits for each byte of data besides a
  table of less than 1280 bytes.
\<close>

theorem compress_main_size:
  assumes "HEADER_SIZE \<le> length file" "length file - HEADER_SIZE < 2 ^ 31" "compression_type (take HEADER_SIZE file) = 0"
    and "compress_main m a file = Some (Inr img)"
  shows "compression_type (take HEADER_SIZE img) = KUidCompressionDeflate \<and>
    8 * (length img - HEADER_SIZE) \<le> 31 * (length file - HEADER_SIZE) + 10237"
proof -
  let ?h = "take HEADER_SIZE file"
  obtain body where b: "img = set_compression KUidCompressionDeflate ?h @ body" "8 * length body \<le> 31 * (length file - HEADER_SIZE) + 10237"
    using compress_main_body [OF assms(1-3), of m a] assms(4) by auto
  have l: "length ?h = HEADER_SIZE" "length (set_compression KUidCompressionDeflate ?h) = HEADER_SIZE" using assms(1) by (simp_all add: set_compression_def)
  show ?thesis using set_compression_type [OF l(1), of KUidCompressionDeflate] l(2) b by simp
qed

theorem compress_main_size_witness:
  "\<exists>img. compress_main (\<lambda>_. 0) 0 (replicate 200 0) = Some (Inr img) \<and> compression_type (take HEADER_SIZE img) = KUidCompressionDeflate \<and>
    length img \<le> 1606"
proof -
  have t: "compression_type (take HEADER_SIZE (replicate 200 0)) = 0" by (simp add: compression_type_def)
  then obtain img where i: "compress_main (\<lambda>_. 0) 0 (replicate 200 0) = Some (Inr img)"
    using compress_main_body [OF _ _ t, of "\<lambda>_. 0" 0] by auto
  from compress_main_size [OF _ _ t i] show ?thesis using i by auto
qed

end
