(* ===== verification/Inflate_Safe.thy ===== *)
theory Inflate_Safe
  imports Deflate_Roundtrip
begin

text \<open>
  Corrupt input: a table that \<open>InternalizeL\<close> has read and \<open>IsValid\<close> has accepted is a complete code, whose tree leads
  to symbols of its alphabet only, and the extra bits of a code stay in the range that the alphabet allows.
\<close>

section \<open>Bits\<close>

lemma length_in_bits: "in_ok s \<Longrightarrow> int (length (in_bits m s)) = bits_left s"
  by (simp add: in_ok_def in_bits_def bits_left_def mem_bits_def max_def)

lemma ReadL_reads:
  assumes "in_ok s" "0 < n" "n < 32" "ReadL m (int n) s = Inr (v, s')"
  shows "reads n m s v s'"
proof -
  have "read_loop m 0 (iBits_in s) (int n) (s\<lparr>iCount := iCount s - int n\<rparr>) = Inr (v, s')" using assms(2,4) by (simp add: ReadL_def)
  from read_loop_bits_left [OF this] have "int n \<le> bits_left s" by (simp add: bits_left_def)
  then have "n \<le> length (in_bits m s)" using length_in_bits [OF assms(1), of m] by simp
  from ReadL_spec [OF assms(1-3) this] assms(4) show ?thesis by auto
qed

lemma ReadL_bit_in_ok:
  assumes "in_ok s" "ReadL_bit m s = Inr (b, s')"
  shows "in_ok s'"
proof -
  have "0 < bits_left s" using ReadL_bit_bits_left [OF assms(2)] by simp
  then have "in_bits m s \<noteq> []" using length_in_bits [OF assms(1), of m] by auto
  then obtain b' bs where "in_bits m s = b' # bs" by (cases "in_bits m s") auto
  from ReadL_bit_spec [OF assms(1) this] assms(2) show ?thesis by auto
qed

lemma huffman_loop_in_ok: "huffman_loop m tree p huff s = Inr (v, s') \<Longrightarrow> in_ok s \<Longrightarrow> in_ok s'"
proof (induction m tree p huff s rule: huffman_loop.induct)
  case (1 m tree p huff s)
  let ?p = "p + unat (drop_bit 16 huff)"
  from "1.prems" obtain b s1 where r: "\<not> (?p mod 4 \<noteq> 0 \<or> ?p div 4 \<ge> length tree)" "ReadL_bit m s = Inr (b, s1)"
    by (subst (asm) huffman_loop.simps) (auto simp: Let_def split: if_splits sum.splits)
  let ?h = "if b = 0 then push_bit 16 (tree ! (?p div 4)) else tree ! (?p div 4)"
  have step: "huffman_loop m tree p huff s = (if ?h AND 0x10000 = 0 then huffman_loop m tree ?p ?h s1 else Inr (drop_bit 17 ?h, s1))"
    using r by (subst huffman_loop.simps) (simp add: Let_def)
  have s1: "in_ok s1" using ReadL_bit_in_ok [OF "1.prems"(2) r(2)] .
  show ?case
  proof (cases "?h AND 0x10000 = 0")
    case True
    then show ?thesis using "1.IH" [OF refl r(1) refl r(2) refl refl True] step "1.prems" s1 by simp
  next
    case False
    then show ?thesis using step "1.prems" s1 by simp
  qed
qed

lemma input_HuffmanL_in_ok: "input_HuffmanL m tree s = Inr (v, s') \<Longrightarrow> in_ok s \<Longrightarrow> in_ok s'"
  unfolding input_HuffmanL_def by (rule huffman_loop_in_ok)

lemma extra_bits_fails: "extra_bits m code s = Inl e \<Longrightarrow> e = Panic EHuffmanBufferOverflow"
  by (auto simp: extra_bits_def Let_def split: if_splits sum.splits dest: ReadL_fails)

text \<open>The codes of lengths and distances stand for less than 4096.\<close>

lemma extra_bits_range:
  assumes "extra_bits m code s = Inr (c, s')" "in_ok s" "0 \<le> code" "code < 44"
  shows "0 \<le> c \<and> c < 4096 \<and> in_ok s'"
proof (cases "8 \<le> code")
  case True
  define x where "x = nat (drop_bit 2 code - 1)"
  have x: "drop_bit 2 code - 1 = int x" "1 \<le> x" "x \<le> 9" "4 * (int x + 1) \<le> code" "code < 4 * (int x + 2)"
    using True assms(4) by (auto simp: x_def drop_bit_eq_div)
  obtain b where b: "ReadL m (int x) s = Inr (b, s')" "c = push_bit x (code - push_bit 2 (int x)) OR uint b"
    using assms(1) True x(1) by (auto simp: extra_bits_def Let_def split: sum.splits)
  from ReadL_reads [OF assms(2) _ _ b(1)] x(2,3) have r: "reads x m s b s'" by simp
  let ?y = "push_bit x (code - push_bit 2 (int x))"
  have y: "0 \<le> code - push_bit 2 (int x)" "code - push_bit 2 (int x) < 8" using x by (auto simp: push_bit_eq_mult)
  have "(2 :: int) ^ x \<le> 2 ^ 9" using x(3) by (intro power_increasing) auto
  then have "(code - push_bit 2 (int x)) * 2 ^ x \<le> 7 * 2 ^ 9" using y by (intro mult_mono) auto
  then have y': "0 \<le> ?y" "?y < 2 ^ 12" using y(1) by (auto simp: push_bit_eq_mult)
  have "take_bit 9 b = b" using r x(3) by (intro bit_word_eqI) (auto simp: reads_def bit_take_bit_iff)
  then have "uint b = take_bit 9 (uint b)" by (metis unsigned_take_bit_eq)
  then have ub: "0 \<le> uint b" "uint b < 2 ^ 12" using take_bit_int_less_exp [of 9 "uint b"] by auto
  have "?y OR uint b < 2 ^ 12" using y' ub by (intro OR_upper) auto
  then show ?thesis using b(2) y'(1) ub(1) r by (simp add: reads_def)
next
  case False
  then show ?thesis using assms by (auto simp: extra_bits_def)
qed

section \<open>Tables that have been read\<close>

lemma valid_loop_le:
  "valid_loop ps r t = Some x \<Longrightarrow> \<forall>l\<in>set ps. unat l \<le> 27 \<Longrightarrow> sum_list (map share ps) \<le> unat r"
proof (induction ps arbitrary: r t)
  case (Cons p ps)
  have p: "unat p \<le> 27" using Cons.prems(2) by simp
  then have s: "sint p = int (unat p)" using sint_small [of p] by simp
  show ?case
  proof (cases "p = 0")
    case True
    then show ?thesis using Cons by (simp add: share_def)
  next
    case False
    let ?c = "push_bit (27 - unat p) 1 :: 32 word"
    have p0: "0 < unat p" using False by (simp add: unat_gt_0)
    have "nat (27 - int (unat p)) = 27 - unat p" by linarith
    then have v: "?c \<le> r" "valid_loop ps (r - ?c) (t + sint p) = Some x"
      using Cons.prems(1) p p0 s by (auto simp: Let_def not_less split: if_splits simp del: of_nat_unat)
    have "2 ^ (27 - unat p) \<le> (2 ^ 27 :: nat)" by (intro power_increasing) simp_all
    then have "2 ^ (27 - unat p) < (2 ^ 32 :: nat)" by simp
    then have c: "unat ?c = 2 ^ (27 - unat p)" using unat_of_nat [where 'a = 32, of "2 ^ (27 - unat p)"] by (simp add: push_bit_of_1)
    have "unat (r - ?c) = unat r - share p" "share p \<le> unat r" using v(1) c False by (simp_all add: unat_sub share_def word_le_nat_alt)
    then show ?thesis using Cons.IH [OF v(2)] Cons.prems(2) by simp
  qed
qed simp

lemma at_most_one:
  "(\<Sum>l\<leftarrow>L. unat (l :: 32 word)) \<le> 1 \<Longrightarrow> L = replicate (length L) 0 \<or> (\<exists>s<length L. L = (replicate (length L) 0)[s := 1])"
proof (induction L)
  case (Cons l L)
  show ?case
  proof (cases "l = 0")
    case True
    then consider "L = replicate (length L) 0" | s where "s < length L" "L = (replicate (length L) 0)[s := 1]" using Cons by auto
    then show ?thesis
    proof cases
      case 1
      then show ?thesis using True by (metis length_Cons replicate_Suc)
    next
      case 2
      have "(replicate (length (l # L)) 0)[Suc s := 1] = l # L" using True arg_cong [OF 2(2), of "(#) 0"] by simp
      then show ?thesis using 2(1) by (metis Suc_less_eq length_Cons)
    qed
  next
    case False
    then have u: "0 < unat l" by (simp add: unat_gt_0)
    have "unat l + (\<Sum>l\<leftarrow>L. unat l) \<le> 1" using Cons.prems by simp
    then have "unat l = 1" and z: "(\<Sum>l\<leftarrow>L. unat l) = 0" using u by linarith+
    then have "l = 1" by (metis unsigned_1 word_unat_eq_iff)
    moreover have "\<forall>x\<in>set L. x = 0" using z by (simp add: sum_list_eq_0_iff unsigned_eq_0_iff)
    ultimately have "l # L = (replicate (length (l # L)) 0)[0 := 1]" by (simp add: replicate_eqI)
    then show ?thesis by (metis length_greater_0_conv list.distinct(1))
  qed
qed simp

lemma valid_complete:
  assumes "IsValid L n" "length L = n" "\<forall>l\<in>set L. unat l \<le> 27"
  shows "complete L"
proof -
  obtain remain tot where v: "valid_loop (rev L) (push_bit 27 1) 0 = Some (remain, tot)" "remain = 0 \<or> tot \<le> 1"
    using assms(1,2) by (auto simp: IsValid_def split: option.splits)
  have len: "\<forall>l\<in>set (rev L). unat l \<le> 27" using assms(3) by simp
  have one: "unat (push_bit 27 1 :: 32 word) = 2 ^ 27" by simp
  have le: "sum_list (map share (rev L)) \<le> 2 ^ 27" using valid_loop_le [OF v(1) len] unfolding one .
  have rev: "sum_list (map share (rev L)) = sum_list (map share L)" by (simp add: rev_map [symmetric])
  have tot: "(\<Sum>l\<leftarrow>rev L. uint l) = int (\<Sum>l\<leftarrow>L. unat l)" by (induction L) simp_all
  from valid_loop_sum [OF len, of "push_bit 27 1" 0] le
  have r: "remain = push_bit 27 1 - of_nat (sum_list (map share L))" "tot = int (\<Sum>l\<leftarrow>L. unat l)"
    using v(1) unfolding one rev tot by simp_all
  show ?thesis
  proof (cases "remain = 0")
    case True
    then have "of_nat (sum_list (map share L)) = (push_bit 27 1 :: 32 word)" using r(1) by simp
    then have "unat (of_nat (sum_list (map share L)) :: 32 word) = 2 ^ 27" unfolding one [symmetric] by (rule arg_cong)
    moreover have "sum_list (map share L) < 2 ^ 32" using le unfolding rev by simp
    ultimately have "sum_list (map share L) = 2 ^ 27" by (simp add: unat_of_nat)
    then show ?thesis using assms(3) by (simp add: complete_def)
  next
    case False
    then have "(\<Sum>l\<leftarrow>L. unat l) \<le> 1" using v(2) r(2) by simp
    from at_most_one [OF this] show ?thesis using assms(3) unfolding complete_def by blast
  qed
qed

text \<open>The lengths that \<open>InternalizeL\<close> stores come from its list.\<close>

lemma put_length_values:
  assumes "put_length n c (p, A) = Inr (p', A')" "length A = n" "p \<le> n" "unat c \<le> 27" "\<forall>i<p. unat (A ! i) \<le> 27"
  shows "p' = Suc p \<and> p' \<le> n \<and> length A' = n \<and> (\<forall>i<p'. unat (A' ! i) \<le> 27)"
  using assms by (auto simp: put_length_def nth_list_update less_Suc_eq split: if_splits)

lemma put_run_values:
  assumes "put_run n c r (p, A) = Inr (p', A')" "length A = n" "p \<le> n" "unat c \<le> 27" "\<forall>i<p. unat (A ! i) \<le> 27"
  shows "p' = p + r \<and> p' \<le> n \<and> length A' = n \<and> (\<forall>i<p'. unat (A' ! i) \<le> 27)"
  using assms
proof (induction r arbitrary: p A)
  case (Suc r)
  obtain q B where q: "put_length n c (p, A) = Inr (q, B)" "put_run n c r (q, B) = Inr (p', A')"
    using Suc.prems(1) by (auto split: sum.splits)
  note Q = put_length_values [OF q(1) Suc.prems(2-5)]
  then show ?case using Suc.IH [OF q(2)] Suc.prems(4) by simp
qed simp

lemma internalize_loop_values:
  "internalize_loop m n list c rl st s = Inr (A', s') \<Longrightarrow> length (snd st) = n \<Longrightarrow> fst st \<le> n \<Longrightarrow> unat c \<le> 27 \<Longrightarrow>
    \<forall>b\<in>set list. unat b \<le> 27 \<Longrightarrow> \<forall>i<fst st. unat (snd st ! i) \<le> 27 \<Longrightarrow> length A' = n \<and> (\<forall>l\<in>set A'. unat l \<le> 27)"
proof (induction m n list c rl st s rule: internalize_loop.induct)
  case (1 m n list c rl st s)
  obtain p A where st: "st = (p, A)" by fastforce
  show ?case
  proof (cases "fst st + rl < n")
    case True
    then obtain v s1 where v: "input_HuffmanL m HuffmanDecoding s = Inr (v, s1)"
      using "1.prems"(1) by (subst (asm) internalize_loop.simps) (auto split: sum.splits)
    show ?thesis
    proof (cases "v < 2")
      case small: True
      then have "internalize_loop m n list c (rl + rl + unat v + 1) st s1 = Inr (A', s')"
        using "1.prems"(1) True v by (subst (asm) internalize_loop.simps) simp
      then show ?thesis using "1.IH"(1) [OF True v refl small] "1.prems"(2-) by blast
    next
      case large: False
      then obtain p1 A1 where r: "put_run n c rl st = Inr (p1, A1)"
        using "1.prems"(1) True v by (subst (asm) internalize_loop.simps) (auto split: sum.splits)
      let ?l = "list[0 := ucast c]" and ?k = "unat v - 1"
      let ?c = "ucast (?l ! ?k) :: 32 word"
      have k: "\<not> length ?l \<le> ?k"
        using "1.prems"(1) True v large r by (subst (asm) internalize_loop.simps) (auto simp: Let_def split: if_splits)
      then obtain p2 A2 where r2: "put_length n ?c (p1, A1) = Inr (p2, A2)"
        using "1.prems"(1) True v large r by (subst (asm) internalize_loop.simps) (auto simp: Let_def split: sum.splits)
      have run: "internalize_loop m n (shift_up 0 ?k ?l) ?c 0 (p2, A2) s1 = Inr (A', s')"
        using "1.prems"(1) True v large r k r2 by (subst (asm) internalize_loop.simps) (simp add: Let_def)
      have cl: "unat (ucast c :: byte) \<le> 27" using "1.prems"(4) by (simp add: unsigned_ucast_eq take_bit_nat_eq_self)
      then have l: "\<forall>b\<in>set ?l. unat b \<le> 27" using "1.prems"(5) set_update_subset_insert [of list 0 "ucast c"] by auto
      have "unat (?l ! ?k) \<le> 27" using l nth_mem [of ?k ?l] k by (meson not_le)
      then have lc: "unat ?c \<le> 27" by (simp add: unsigned_ucast_eq take_bit_nat_eq_self)
      have ls: "\<forall>b\<in>set (shift_up 0 ?k ?l). unat b \<le> 27"
      proof
        fix b assume "b \<in> set (shift_up 0 ?k ?l)"
        then obtain i where i: "i < length ?l" "b = shift_up 0 ?k ?l ! i" by (auto simp: in_set_conv_nth)
        then have "b = ?l ! i \<or> b = ?l ! (i - 1)" using nth_shift_up [of ?k ?l i 0] k by auto
        then have "b \<in> set ?l" using i(1) nth_mem [of i ?l] nth_mem [of "i - 1" ?l] by auto
        then show "unat b \<le> 27" using l by blast
      qed
      note P1 = put_run_values [OF r [unfolded st]] and P2 = put_length_values [OF r2]
      have A1: "p1 \<le> n" "length A1 = n" "\<forall>i<p1. unat (A1 ! i) \<le> 27" using P1 "1.prems"(2-4,6) st by simp_all
      have A2: "p2 \<le> n" "length A2 = n" "\<forall>i<p2. unat (A2 ! i) \<le> 27" using P2 A1 lc by simp_all
      show ?thesis
        using "1.IH"(2) [OF True v refl large r refl refl k refl refl r2 run] A2 lc ls by simp
    qed
  next
    case False
    then obtain p1 where r: "put_run n c rl (p, A) = Inr (p1, A')"
      using "1.prems"(1) st by (subst (asm) internalize_loop.simps) (auto split: sum.splits)
    from put_run_values [OF this] have "p1 = p + rl" "p1 \<le> n" "length A' = n" "\<forall>i<p1. unat (A' ! i) \<le> 27"
      using "1.prems"(2-4,6) st by simp_all
    then show ?thesis using False st by (auto simp: in_set_conv_nth)
  qed
qed

lemma InternalizeL_values:
  assumes "InternalizeL m s A n = Inr (A', s')" "length A = n"
  shows "length A' = n \<and> (\<forall>l\<in>set A'. unat l \<le> 27)"
  using internalize_loop_values [OF assms(1) [unfolded InternalizeL_def]] assms(2) by (auto simp: unat_of_nat)

text \<open>Reading a table fails because the input is exhausted or the table is too long.\<close>

lemma HuffmanDecoding_safe: "tree_safe 0 29 HuffmanDecoding"
proof -
  obtain l r where t: "fixed_tree = Node l r" by (simp add: fixed_tree_def)
  have "set (leaves fixed_tree) \<subseteq> {0..<0 + 29}" by (simp add: fixed_tree_def)
  moreover have "length HuffmanDecoding = 28" by (simp add: HuffmanDecoding_def)
  ultimately show ?thesis using HuffmanDecoding_half tree_safe_half [of 28 HuffmanDecoding l r 0 29] unfolding t by simp
qed

definition table_failure :: "failure \<Rightarrow> bool" where
  "table_failure e \<longleftrightarrow> e = Panic EHuffmanBufferOverflow \<or> e = Panic EHuffmanCorruptFile \<or> e = Undefined"

lemma put_length_fails: "put_length n c st = Inl e \<Longrightarrow> table_failure e"
  by (auto simp: put_length_def table_failure_def split: prod.splits if_splits)

lemma put_run_fails: "put_run n c r st = Inl e \<Longrightarrow> table_failure e"
  by (induction r arbitrary: st) (auto split: sum.splits dest: put_length_fails)

lemma internalize_loop_fails: "internalize_loop m n list c rl st s = Inl e \<Longrightarrow> table_failure e"
proof (induction m n list c rl st s rule: internalize_loop.induct)
  case (1 m n list c rl st s)
  show ?case
  proof (cases "fst st + rl < n")
    case True
    show ?thesis
    proof (cases "input_HuffmanL m HuffmanDecoding s")
      case (Inl e')
      then have "e' = Panic EHuffmanBufferOverflow" using HuffmanDecoding_safe [unfolded tree_safe_def, rule_format, of m s] by simp
      then show ?thesis using "1.prems" True Inl by (subst (asm) internalize_loop.simps) (simp add: table_failure_def)
    next
      case (Inr x)
      obtain v s1 where x: "x = (v, s1)" by fastforce
      note v = Inr [unfolded x]
      show ?thesis
      proof (cases "v < 2")
        case small: True
        then have "internalize_loop m n list c (rl + rl + unat v + 1) st s1 = Inl e"
          using "1.prems" True v by (subst (asm) internalize_loop.simps) simp
        then show ?thesis using "1.IH"(1) [OF True v refl small] by blast
      next
        case large: False
        let ?l = "list[0 := ucast c]" and ?k = "unat v - 1"
        let ?c = "ucast (?l ! ?k) :: 32 word"
        have run: "internalize_loop m n list c rl st s = (case put_run n c rl st of Inl e \<Rightarrow> Inl e | Inr st \<Rightarrow>
            if ?k \<ge> length ?l then Inl Undefined else case put_length n ?c st of Inl e \<Rightarrow> Inl e
            | Inr st \<Rightarrow> internalize_loop m n (shift_up 0 ?k ?l) ?c 0 st s1)"
          using True v large by (subst internalize_loop.simps) (simp add: Let_def split: sum.split)
        show ?thesis
        proof (cases "put_run n c rl st")
          case (Inl e')
          then show ?thesis using run "1.prems" put_run_fails [OF Inl] by simp
        next
          case r: (Inr st1)
          show ?thesis
          proof (cases "length ?l \<le> ?k")
            case True
            then show ?thesis using run r "1.prems" by (simp add: table_failure_def)
          next
            case k: False
            show ?thesis
            proof (cases "put_length n ?c st1")
              case (Inl e')
              then show ?thesis using run r k "1.prems" put_length_fails [OF Inl] by simp
            next
              case r2: (Inr st2)
              then show ?thesis using "1.IH"(2) [OF True v refl large r refl refl k refl refl r2] run r k "1.prems" by simp
            qed
          qed
        qed
      qed
    qed
  next
    case False
    then show ?thesis using "1.prems" put_run_fails by (subst (asm) internalize_loop.simps) (auto split: sum.splits)
  qed
qed

text \<open>The trees of a decompressor lead to symbols of their alphabets; only reading the table can leave its array.\<close>

definition safe_trees :: "TEncoding \<Rightarrow> bool" where
  "safe_trees enc \<longleftrightarrow> tree_safe 0 ELitLens (iLitLen enc) \<and> tree_safe KDeflateDistCodeBase EDistances (iDistance enc)"

lemma InitL_safe:
  assumes "length (iLitLen enc) = ELitLens" "length (iDistance enc) = EDistances"
  shows "case InitL m s enc of Inl e \<Rightarrow> table_failure e \<and> (e = Undefined \<longrightarrow> InternalizeL m s (iLitLen enc @ iDistance enc) KDeflationCodes = Inl Undefined)
    | Inr (enc', s') \<Rightarrow> safe_trees enc'"
proof (cases "InternalizeL m s (iLitLen enc @ iDistance enc) KDeflationCodes")
  case (Inr r)
  obtain codes s1 where r: "r = (codes, s1)" by fastforce
  have v: "length codes = KDeflationCodes" "\<forall>l\<in>set codes. unat l \<le> 27" using InternalizeL_values [OF Inr [unfolded r]] assms by simp_all
  let ?L = "take ELitLens codes" and ?D = "drop ELitLens codes"
  have len: "length ?L = ELitLens" "length ?D = EDistances" using v(1) by simp_all
  have small: "\<forall>l\<in>set ?L. unat l \<le> 27" "\<forall>l\<in>set ?D. unat l \<le> 27" using v(2) by (auto dest: in_set_takeD in_set_dropD)
  show ?thesis
  proof (cases "IsValid ?L ELitLens \<and> IsValid ?D EDistances")
    case True
    then have c: "complete ?L" "complete ?D" using valid_complete len small by blast+
    have "?L \<noteq> []" "?D \<noteq> []" using len by (metis list.size(3) zero_neq_numeral)+
    then obtain T1 T2 where T: "Decoding ?L ELitLens 0 = Inr T1" "tree_safe 0 ELitLens T1"
        "Decoding ?D EDistances (of_nat KDeflateDistCodeBase) = Inr T2" "tree_safe KDeflateDistCodeBase EDistances T2"
      using Decoding_tree [OF c(1), of 0] Decoding_tree [OF c(2), of 512] unfolding len by auto
    then show ?thesis using Inr r True by (simp add: InitL_def Let_def safe_trees_def)
  next
    case False
    then show ?thesis using Inr r by (auto simp: InitL_def Let_def table_failure_def)
  qed
next
  case (Inl e)
  then show ?thesis using internalize_loop_fails by (auto simp: InitL_def InternalizeL_def)
qed

text \<open>Constructing a decompressor keeps the input stream well-formed.\<close>

lemma internalize_loop_in_ok: "internalize_loop m n list c rl st s = Inr (A, s') \<Longrightarrow> in_ok s \<Longrightarrow> in_ok s'"
proof (induction m n list c rl st s rule: internalize_loop.induct)
  case (1 m n list c rl st s)
  show ?case
  proof (cases "fst st + rl < n")
    case True
    then obtain v s1 where v: "input_HuffmanL m HuffmanDecoding s = Inr (v, s1)"
      using "1.prems"(1) by (subst (asm) internalize_loop.simps) (auto split: sum.splits)
    have s1: "in_ok s1" using input_HuffmanL_in_ok [OF v "1.prems"(2)] .
    show ?thesis
    proof (cases "v < 2")
      case small: True
      then have "internalize_loop m n list c (rl + rl + unat v + 1) st s1 = Inr (A, s')"
        using "1.prems"(1) True v by (subst (asm) internalize_loop.simps) simp
      then show ?thesis using "1.IH"(1) [OF True v refl small] s1 by blast
    next
      case large: False
      then obtain st1 where r: "put_run n c rl st = Inr st1"
        using "1.prems"(1) True v by (subst (asm) internalize_loop.simps) (auto split: sum.splits)
      let ?l = "list[0 := ucast c]" and ?k = "unat v - 1"
      let ?c = "ucast (?l ! ?k) :: 32 word"
      have k: "\<not> length ?l \<le> ?k"
        using "1.prems"(1) True v large r by (subst (asm) internalize_loop.simps) (auto simp: Let_def split: if_splits)
      then obtain st2 where r2: "put_length n ?c st1 = Inr st2"
        using "1.prems"(1) True v large r by (subst (asm) internalize_loop.simps) (auto simp: Let_def split: sum.splits)
      have "internalize_loop m n (shift_up 0 ?k ?l) ?c 0 st2 s1 = Inr (A, s')"
        using "1.prems"(1) True v large r k r2 by (subst (asm) internalize_loop.simps) (simp add: Let_def)
      then show ?thesis using "1.IH"(2) [OF True v refl large r refl refl k refl refl r2] s1 by blast
    qed
  next
    case False
    then show ?thesis using "1.prems" by (subst (asm) internalize_loop.simps) (auto split: sum.splits)
  qed
qed

lemma InitL_in_ok: "InitL m s enc = Inr (enc', s') \<Longrightarrow> in_ok s \<Longrightarrow> in_ok s'"
  by (auto simp: InitL_def InternalizeL_def Let_def split: sum.splits if_splits dest: internalize_loop_in_ok)

text \<open>A stream with a negative number of bits is exhausted from the start.\<close>

lemma input_HuffmanL_empty:
  assumes "iCount s < 0" "iRemain s \<le> 0" "tree \<noteq> []"
  shows "input_HuffmanL m tree s = Inl (Panic EHuffmanBufferOverflow)"
proof -
  have "ReadL_bit m s = Inl (Panic EHuffmanBufferOverflow)"
    using assms(1,2) by (simp add: ReadL_bit_def ReadL_def read_loop.simps Let_def)
  then show ?thesis using assms(3) by (simp add: input_HuffmanL_def huffman_loop.simps [of m tree 0 0 s])
qed

lemma NewLC_empty:
  assumes "n < 0"
  shows "NewLC m (Set m a n 0) enc buf = Inl (Panic EHuffmanBufferOverflow)"
proof -
  have "iCount (Set m a n 0) < 0" "iRemain (Set m a n 0) \<le> 0" using assms by (auto simp: Set_def Let_def push_bit_eq_mult)
  then have "input_HuffmanL m HuffmanDecoding (Set m a n 0) = Inl (Panic EHuffmanBufferOverflow)"
    by (intro input_HuffmanL_empty) (simp_all add: HuffmanDecoding_def)
  then show ?thesis by (simp add: NewLC_def InitL_def InternalizeL_def internalize_loop.simps [of m KDeflationCodes])
qed

end
