(* ===== verification/Inflate_Total.thy ===== *)
theory Inflate_Total
  imports Inflate_Safe
begin

text \<open>
  The decompressor on any input: the buffer and the indices into it stay well-formed, no access leaves the
  buffer or the decoding trees, and the programs end, because every code takes bits from the input and
  stands for a bounded number of bytes.
\<close>

section \<open>The state is well-formed\<close>

definition inflater_ok :: "CInflater \<Rightarrow> bool" where
  "inflater_ok this \<longleftrightarrow> length (iOut this) = KDeflateMaxDistance \<and> iRptr this < KDeflateMaxDistance \<and>
     iAvail this \<le> iLimit this \<and> iLimit this \<le> KDeflateMaxDistance"

lemma copy_history_ok:
  assumes "copy_history n out fr buf = (out', fr', buf')" "fr < KDeflateMaxDistance" "length buf = KDeflateMaxDistance"
  shows "out' = out + n \<and> fr' < KDeflateMaxDistance \<and> length buf' = KDeflateMaxDistance"
  using assms
proof (induction n arbitrary: out fr buf)
  case (Suc n)
  let ?fr = "if Suc fr = KDeflateMaxDistance then Suc fr - KDeflateMaxDistance else Suc fr"
  have "copy_history n (Suc out) ?fr (buf[out := buf ! fr]) = (out', fr', buf')" using Suc.prems(1) by (simp add: Let_def)
  moreover have "?fr < KDeflateMaxDistance" using Suc.prems(2) by auto
  ultimately show ?case using Suc.IH [of "Suc out" ?fr "buf[out := buf ! fr]"] Suc.prems(3) by simp
qed simp

text \<open>What can still be written: the rest of a copy, and for every bit more than any code stands for\<close>

definition potential :: "CInflater \<Rightarrow> nat" where
  "potential this = 2 ^ 80 * nat (bits_left (iBits_inf this)) + nat (iLen this)"

lemma useHistory_ok:
  assumes "useHistory out this = Inr (out', this')" "length (iOut this) = KDeflateMaxDistance" "iRptr this < KDeflateMaxDistance"
    "out < KDeflateMaxDistance"
  shows "out < out'" "out' \<le> KDeflateMaxDistance" "length (iOut this') = KDeflateMaxDistance" "iRptr this' < KDeflateMaxDistance" "0 \<le> iLen this'"
    "iBits_inf this' = iBits_inf this" "potential this' + out' = potential this + out" "iAvail this' = iAvail this" "iLimit this' = iLimit this"
proof -
  define t where "t = nat (min (int KDeflateMaxDistance - int out) (iLen this))"
  obtain o2 fr buf where c: "copy_history t out (iRptr this) (iOut this) = (o2, fr, buf)" by (metis prod_cases3)
  note C = copy_history_ok [OF c assms(3,2)]
  have t: "0 < t" "int t \<le> iLen this" "int t \<le> int KDeflateMaxDistance - int out"
    and r: "out' = o2" "this' = this\<lparr>iLen := iLen this - int t, iRptr := fr, iOut := buf\<rparr>"
    using assms(1) c by (auto simp: useHistory_def Let_def t_def split: if_splits)
  show "out < out'" "out' \<le> KDeflateMaxDistance" "length (iOut this') = KDeflateMaxDistance" "iRptr this' < KDeflateMaxDistance" "0 \<le> iLen this'"
    "iBits_inf this' = iBits_inf this" "iAvail this' = iAvail this" "iLimit this' = iLimit this"
    using C t r by simp_all
  show "potential this' + out' = potential this + out" using C t r by (simp add: potential_def nat_diff_distrib)
qed

lemma extra_bits_bound:
  assumes "extra_bits m code s = Inr (c, s')" "0 \<le> code" "code \<le> 255"
  shows "0 \<le> c" "c < 2 ^ 78"
proof -
  have "0 \<le> c \<and> c < 2 ^ 78"
  proof (cases "8 \<le> code")
    case True
    define x where "x = drop_bit 2 code - 1"
    obtain b s'' where "ReadL m x s = Inr (b, s'')"
      using assms(1) True by (cases "ReadL m x s") (auto simp: extra_bits_def Let_def x_def)
    then have b: "c = push_bit (nat x) (code - push_bit 2 x) OR uint b"
      using assms(1) True by (simp add: extra_bits_def Let_def x_def)
    have x: "1 \<le> x" "x \<le> 62" "4 * (x + 1) \<le> code" "code < 4 * (x + 2)" using True assms(3) by (auto simp: x_def drop_bit_eq_div)
    let ?y = "push_bit (nat x) (code - push_bit 2 x)"
    have y: "0 \<le> ?y" "?y < 2 ^ 70"
    proof -
      have "0 \<le> code - push_bit 2 x" "code - push_bit 2 x < 8" using x by (auto simp: push_bit_eq_mult)
      moreover have "(2 :: int) ^ nat x \<le> 2 ^ 62" using x(2) by (intro power_increasing) auto
      ultimately have "(code - push_bit 2 x) * 2 ^ nat x \<le> 8 * 2 ^ 62" by (intro mult_mono) auto
      then show "0 \<le> ?y" "?y < 2 ^ 70" using \<open>0 \<le> code - push_bit 2 x\<close> by (auto simp: push_bit_eq_mult)
    qed
    have ub: "uint b < 2 ^ 32" "0 \<le> uint b" using uint_bounded [of b] by simp_all
    have "?y OR uint b < 2 ^ 70" using y ub by (intro OR_upper) auto
    then show ?thesis using b y(1) ub(2) by simp
  next
    case False
    then show ?thesis using assms by (auto simp: extra_bits_def)
  qed
  then show "0 \<le> c" "c < 2 ^ 78" by simp_all
qed

text \<open>One pass of the decoder\<close>

lemma inflate_loop_ok:
  assumes "inflate_loop m out dist this = Inr (k, this')" "out \<le> KDeflateMaxDistance" "inflater_ok this"
  shows "out \<le> k \<and> k \<le> KDeflateMaxDistance \<and> inflater_ok this' \<and> potential this' + k \<le> potential this + out"
  using assms
proof (induction m out dist this rule: inflate_loop.induct)
  case (1 m out dist this)
  note ok = "1.prems"(3) [unfolded inflater_ok_def]
  let ?tree = "if dist then iDistance (iEncoding this) else iLitLen (iEncoding this)"
  show ?case
  proof (cases "out < KDeflateMaxDistance")
    case out: True
    then obtain v s where v: "input_HuffmanL m ?tree (iBits_inf this) = Inr (v, s)"
      using "1.prems"(1) by (subst (asm) inflate_loop.simps) (auto split: sum.splits)
    have left: "bits_left s < bits_left (iBits_inf this)" "0 \<le> bits_left s"
      using v huffman_loop_bits_left unfolding input_HuffmanL_def by blast+
    let ?val = "sint v - int ELiterals"
    consider (lit) "?val < 0" | (eos) "\<not> ?val < 0" "?val = int EEos - int ELiterals"
      | (code) "\<not> ?val < 0" "?val \<noteq> int EEos - int ELiterals" by blast
    then show ?thesis
    proof cases
      case lit
      let ?t = "this\<lparr>iBits_inf := s, iOut := (iOut this)[out := word_of_int ?val]\<rparr>"
      have "inflate_loop m (out + 1) dist ?t = Inr (k, this')"
        using "1.prems"(1) out v lit by (subst (asm) inflate_loop.simps) (simp add: Let_def)
      moreover have "inflater_ok ?t" using ok by (simp add: inflater_ok_def)
      moreover have "potential ?t + 1 \<le> potential this" using left by (simp add: potential_def)
      ultimately show ?thesis using "1.IH"(1) [OF _ v refl refl lit] out by simp
    next
      case eos
      then have "k = out" "this' = this\<lparr>iBits_inf := s, iLen := - 1\<rparr>"
        using "1.prems"(1) out v by (subst (asm) inflate_loop.simps, simp add: Let_def)+
      then show ?thesis using ok out left by (simp add: inflater_ok_def potential_def)
    next
      case code
      then obtain c s' where e: "extra_bits m (?val AND 0xff) s = Inr (c, s')"
        using "1.prems"(1) out v by (subst (asm) inflate_loop.simps) (auto simp: Let_def split: sum.splits)
      have "0 \<le> ?val AND 0xff" "?val AND 0xff \<le> 255" using AND_upper2 [of 255 ?val] by simp_all
      note c = extra_bits_bound [OF e this]
      have left': "bits_left s' < bits_left (iBits_inf this)" using extra_bits_left [OF e] left by simp
      show ?thesis
      proof (cases "?val < int KDeflateDistCodeBase - int ELiterals")
        case True
        let ?t = "this\<lparr>iBits_inf := s', iLen := c + int KDeflateMinLength\<rparr>"
        have "inflate_loop m out True ?t = Inr (k, this')"
          using "1.prems"(1) out v code e True by (subst (asm) inflate_loop.simps) (simp add: Let_def)
        moreover have "inflater_ok ?t" using ok by (simp add: inflater_ok_def)
        moreover have "potential ?t \<le> potential this" using left left' c by (simp add: potential_def)
        ultimately show ?thesis using "1.IH"(2) [OF _ v refl refl code e refl refl True] out by simp
      next
        case False
        let ?r = "if int out - (c + 1) < 0 then int out - (c + 1) + int KDeflateMaxDistance else int out - (c + 1)"
        let ?t = "this\<lparr>iBits_inf := s', iRptr := nat ?r\<rparr>"
        have run: "inflate_loop m out dist this = (if ?r < 0 then Inl Undefined else
            case useHistory out ?t of Inl e \<Rightarrow> Inl e | Inr (out, this) \<Rightarrow> inflate_loop m out False this)"
          using out v code e False by (subst inflate_loop.simps) (simp add: Let_def)
        then obtain o2 t2 where h: "\<not> ?r < 0" "useHistory out ?t = Inr (o2, t2)" "inflate_loop m o2 False t2 = Inr (k, this')"
          using "1.prems"(1) by (auto split: if_splits sum.splits)
        have "nat ?r < KDeflateMaxDistance" using out c by auto
        then have "length (iOut ?t) = KDeflateMaxDistance" "iRptr ?t < KDeflateMaxDistance" using ok by simp_all
        note H = useHistory_ok [OF h(2) this out]
        have "inflater_ok t2" using ok H(3,4,8,9) by (simp add: inflater_ok_def)
        moreover have "potential ?t \<le> potential this" using left' by (simp add: potential_def)
        ultimately show ?thesis
          using "1.IH"(3) [OF _ v refl refl code e refl refl False refl refl h(1,2) refl h(3)] out H(1,2,7) by simp
      qed
    qed
  next
    case False
    then show ?thesis using "1.prems" by (simp add: inflate_loop.simps)
  qed
qed

lemma InflateL_ok:
  assumes "InflateL m this = Inr (k, this')" "inflater_ok this"
  shows "k \<le> KDeflateMaxDistance \<and> inflater_ok this' \<and> potential this' + k \<le> potential this"
proof (cases "0 < iLen this")
  case True
  then obtain out t where h: "useHistory 0 this = Inr (out, t)" "inflate_loop m out False t = Inr (k, this')"
    using assms(1) by (auto simp: InflateL_def split: sum.splits)
  have "length (iOut this) = KDeflateMaxDistance" "iRptr this < KDeflateMaxDistance" using assms(2) by (auto simp: inflater_ok_def)
  note H = useHistory_ok [OF h(1) this]
  have "inflater_ok t" using H assms(2) by (simp add: inflater_ok_def)
  then show ?thesis using inflate_loop_ok [OF h(2)] H by simp
next
  case False
  then show ?thesis using assms inflate_loop_ok [of m 0 False this k this'] by (auto simp: InflateL_def split: if_splits)
qed

text \<open>What a reader can still get\<close>

definition readable :: "CInflater \<Rightarrow> nat" where
  "readable this = potential this + (iLimit this - iAvail this)"

lemma inflater_ReadL_ok:
  assumes "inflater_ReadL m n tfr this = Inr (out, this')" "inflater_ok this"
  shows "inflater_ok this' \<and> length out \<le> length tfr + n \<and> readable this' + length out \<le> readable this + length tfr"
  using assms
proof (induction m n tfr this rule: inflater_ReadL.induct)
  case (1 m n tfr this)
  let ?len = "min n (iLimit this - iAvail this)"
  let ?tfr = "tfr @ take ?len (drop (iAvail this) (iOut this))" and ?th = "this\<lparr>iAvail := iAvail this + ?len\<rparr>"
  have ok: "inflater_ok ?th" using "1.prems"(2) by (auto simp: inflater_ok_def min_def)
  have tfr: "length ?tfr = length tfr + ?len" using "1.prems"(2) by (auto simp: inflater_ok_def min_def)
  have rd: "readable ?th + ?len = readable this" by (simp add: readable_def potential_def)
  have run: "inflater_ReadL m n tfr this = (if n - ?len = 0 then Inr (?tfr, ?th) else case InflateL m ?th of Inl e \<Rightarrow> Inl e
      | Inr (len, t) \<Rightarrow> if len = 0 then Inr (?tfr, t) else inflater_ReadL m (n - ?len) ?tfr (t\<lparr>iAvail := 0, iLimit := len\<rparr>))"
    by (subst inflater_ReadL.simps) (simp add: Let_def)
  show ?case
  proof (cases "n - ?len = 0")
    case True
    then have "out = ?tfr" "this' = ?th" using run "1.prems"(1) by simp_all
    then show ?thesis using ok tfr rd by simp
  next
    case False
    then obtain k t where i: "InflateL m ?th = Inr (k, t)" using run "1.prems"(1) by (auto split: sum.splits)
    note I = InflateL_ok [OF i ok] and A = InflateL_avail [OF i]
    have e: "iLimit ?th - iAvail ?th = 0" using False by simp
    show ?thesis
    proof (cases "k = 0")
      case True
      then have o: "out = ?tfr" "this' = t" using run False i "1.prems"(1) by simp_all
      have "readable t \<le> readable ?th" using I A by (simp add: readable_def)
      then show ?thesis using I tfr rd unfolding o by simp
    next
      case k: False
      let ?t = "t\<lparr>iAvail := 0, iLimit := k\<rparr>"
      have r: "inflater_ReadL m (n - ?len) ?tfr ?t = Inr (out, this')" using run False i k "1.prems"(1) by simp
      have t: "inflater_ok ?t" using I by (simp add: inflater_ok_def)
      have "readable ?t \<le> readable ?th" using I e by (simp add: readable_def potential_def)
      with "1.IH" [OF refl refl refl refl False i refl k r t] tfr rd False show ?thesis by linarith
    qed
  qed
qed

section \<open>No access outside of the buffer\<close>

definition inflater_safe :: "CInflater \<Rightarrow> bool" where
  "inflater_safe this \<longleftrightarrow> inflater_ok this \<and> in_ok (iBits_inf this) \<and> safe_trees (iEncoding this)"

abbreviation no_undefined :: "failure \<Rightarrow> bool" where
  "no_undefined e \<equiv> e = Panic EHuffmanBufferOverflow"

lemma useHistory_runs:
  "out < KDeflateMaxDistance \<Longrightarrow> 0 < iLen this \<Longrightarrow> \<exists>out' this'. useHistory out this = Inr (out', this') \<and> iEncoding this' = iEncoding this"
  by (auto simp: useHistory_def Let_def split: prod.split)

lemma symbol_range:
  assumes "safe_trees enc" "input_HuffmanL m (if dist then iDistance enc else iLitLen enc) s = r"
  shows "case r of Inl e \<Rightarrow> no_undefined e | Inr (v, s') \<Rightarrow>
    if dist then 256 \<le> sint v - int ELiterals \<and> sint v - int ELiterals < 300 else sint v - int ELiterals \<le> int EEos - int ELiterals"
proof -
  have v: "sint v = int (unat v)" if "unat v < 556" for v :: "32 word" using sint_small [of v] that by simp
  show ?thesis
  proof (cases dist)
    case True
    then have "tree_safe 512 44 (iDistance enc)" "input_HuffmanL m (iDistance enc) s = r" using assms by (simp_all add: safe_trees_def)
    then have t: "case r of Inl e \<Rightarrow> no_undefined e | Inr (v, s') \<Rightarrow> 512 \<le> unat v \<and> unat v < 512 + 44"
      unfolding tree_safe_def by blast
    show ?thesis
    proof (cases r)
      case (Inr x)
      obtain w s' where x: "x = (w, s')" by fastforce
      then have u: "512 \<le> unat w" "unat w < 556" using t Inr by simp_all
      then have "256 \<le> int (unat w) - 256 \<and> int (unat w) - 256 < 300" by linarith
      then have "256 \<le> sint w - 256 \<and> sint w - 256 < 300" unfolding v [OF u(2)] .
      then show ?thesis using True Inr x by simp
    qed (use t in simp)
  next
    case False
    then have "tree_safe 0 285 (iLitLen enc)" "input_HuffmanL m (iLitLen enc) s = r" using assms by (simp_all add: safe_trees_def)
    then have t: "case r of Inl e \<Rightarrow> no_undefined e | Inr (v, s') \<Rightarrow> 0 \<le> unat v \<and> unat v < 0 + 285"
      unfolding tree_safe_def by blast
    show ?thesis
    proof (cases r)
      case (Inr x)
      obtain w s' where x: "x = (w, s')" by fastforce
      then have u: "unat w < 285" using t Inr by simp
      then have "int (unat w) - 256 \<le> 28" by linarith
      moreover have "sint w = int (unat w)" using u by (intro v) simp
      ultimately have "sint w - 256 \<le> 28" by (simp only:)
      then show ?thesis using False Inr x by simp
    qed (use t in simp)
  qed
qed

lemma code_range:
  assumes "dist \<Longrightarrow> 256 \<le> x \<and> x < 300" "\<not> dist \<Longrightarrow> 0 \<le> x \<and> x < 28"
  shows "0 \<le> x AND 0xff \<and> x AND 0xff < (44 :: int)"
proof (cases dist)
  case True
  have "0 \<le> y mod 256 \<and> y mod 256 < 44" if "256 \<le> y" "y < 300" for y :: int using that by presburger
  then show ?thesis using assms(1) [OF True] by (simp add: and_255)
next
  case False
  then show ?thesis using assms(2) by (simp add: and_255)
qed

lemma inflate_loop_safe:
  assumes "out \<le> KDeflateMaxDistance" "inflater_safe this" "dist \<Longrightarrow> 0 < iLen this"
  shows "case inflate_loop m out dist this of Inl e \<Rightarrow> no_undefined e | Inr (k, this') \<Rightarrow> inflater_safe this'"
  using assms
proof (induction m out dist this rule: inflate_loop.induct)
  case (1 m out dist this)
  note safe = "1.prems"(2) [unfolded inflater_safe_def inflater_ok_def]
  let ?tree = "if dist then iDistance (iEncoding this) else iLitLen (iEncoding this)"
  show ?case
  proof (cases "out < KDeflateMaxDistance")
    case out: True
    have T: "safe_trees (iEncoding this)" using safe by simp
    show ?thesis
    proof (cases "input_HuffmanL m ?tree (iBits_inf this)")
      case (Inl e)
      then show ?thesis using symbol_range [OF T Inl] out by (subst inflate_loop.simps) simp
    next
      case (Inr r)
      obtain v s where r: "r = (v, s)" by fastforce
      note v = Inr [unfolded r]
      have s: "in_ok s" using input_HuffmanL_in_ok [OF v] safe by simp
      let ?val = "sint v - int ELiterals"
      have val: "dist \<Longrightarrow> 256 \<le> ?val \<and> ?val < 300" "\<not> dist \<Longrightarrow> ?val \<le> int EEos - int ELiterals" using symbol_range [OF T v] by simp_all
      consider (lit) "?val < 0" | (eos) "\<not> ?val < 0" "?val = int EEos - int ELiterals"
        | (code) "\<not> ?val < 0" "?val \<noteq> int EEos - int ELiterals" by blast
      then show ?thesis
      proof cases
        case lit
        let ?t = "this\<lparr>iBits_inf := s, iOut := (iOut this)[out := word_of_int ?val]\<rparr>"
        have "inflate_loop m out dist this = inflate_loop m (out + 1) dist ?t"
          using out v lit by (subst inflate_loop.simps) (simp add: Let_def)
        moreover have "inflater_safe ?t" using safe s by (simp add: inflater_safe_def inflater_ok_def)
        ultimately show ?thesis using "1.IH"(1) [OF _ v refl refl lit] out "1.prems"(3) by simp
      next
        case eos
        then have "inflate_loop m out dist this = Inr (out, this\<lparr>iBits_inf := s, iLen := - 1\<rparr>)"
          using out v by (subst inflate_loop.simps) (simp add: Let_def)
        then show ?thesis using safe s by (simp add: inflater_safe_def inflater_ok_def)
      next
        case code
        have "\<not> dist \<Longrightarrow> 0 \<le> ?val \<and> ?val < 28" using val(2) code by fastforce
        with code_range [of dist ?val] val(1) have small: "0 \<le> ?val AND 0xff" "?val AND 0xff < 44" by blast+
        show ?thesis
        proof (cases "extra_bits m (?val AND 0xff) s")
          case (Inl e)
          then show ?thesis using extra_bits_fails [OF Inl] out v code by (subst inflate_loop.simps) (simp add: Let_def)
        next
          case (Inr x)
          obtain c s' where x: "x = (c, s')" by fastforce
          note e = Inr [unfolded x]
          have c: "0 \<le> c" "c < 4096" "in_ok s'" using extra_bits_range [OF e s small] by simp_all
          show ?thesis
          proof (cases "?val < int KDeflateDistCodeBase - int ELiterals")
            case True
            let ?t = "this\<lparr>iBits_inf := s', iLen := c + int KDeflateMinLength\<rparr>"
            have "inflate_loop m out dist this = inflate_loop m out True ?t"
              using out v code e True by (subst inflate_loop.simps) (simp add: Let_def)
            moreover have "inflater_safe ?t" using safe c by (simp add: inflater_safe_def inflater_ok_def)
            ultimately show ?thesis using "1.IH"(2) [OF _ v refl refl code e refl refl True] out c by simp
          next
            case False
            then have dist using val(2) by auto
            let ?r = "if int out - (c + 1) < 0 then int out - (c + 1) + int KDeflateMaxDistance else int out - (c + 1)"
            let ?t = "this\<lparr>iBits_inf := s', iRptr := nat ?r\<rparr>"
            have R: "\<not> ?r < 0" "nat ?r < KDeflateMaxDistance" using out c by auto
            obtain o2 t2 where h: "useHistory out ?t = Inr (o2, t2)" "iEncoding t2 = iEncoding this"
              using useHistory_runs [OF out, of ?t] "1.prems"(3) [OF \<open>dist\<close>] by auto
            have run: "inflate_loop m out dist this = inflate_loop m o2 False t2"
              using out v code e False R(1) h(1) by (subst inflate_loop.simps) (simp add: Let_def)
            have "length (iOut ?t) = KDeflateMaxDistance" "iRptr ?t < KDeflateMaxDistance" using safe R(2) by simp_all
            note H = useHistory_ok [OF h(1) this out]
            have "inflater_safe t2" using safe H(3,4,6,8,9) h(2) c(3) by (simp add: inflater_safe_def inflater_ok_def)
            then show ?thesis
              using "1.IH"(3) [OF _ v refl refl code e refl refl False refl refl R(1) h(1) refl] out H(2) run by simp
          qed
        qed
      qed
    qed
  next
    case False
    then show ?thesis using "1.prems" by (simp add: inflate_loop.simps)
  qed
qed

lemma InflateL_safe:
  assumes "inflater_safe this"
  shows "case InflateL m this of Inl e \<Rightarrow> no_undefined e | Inr (k, this') \<Rightarrow> inflater_safe this'"
proof (cases "0 < iLen this")
  case True
  note safe = assms [unfolded inflater_safe_def inflater_ok_def]
  obtain out t where h: "useHistory 0 this = Inr (out, t)" "iEncoding t = iEncoding this" using useHistory_runs [OF _ True, of 0] by auto
  have "length (iOut this) = KDeflateMaxDistance" "iRptr this < KDeflateMaxDistance" using safe by auto
  note H = useHistory_ok [OF h(1) this]
  have "inflater_safe t" using H safe h(2) by (simp add: inflater_safe_def inflater_ok_def)
  then show ?thesis using inflate_loop_safe [of out t False m] H(2) True h(1) by (simp add: InflateL_def)
next
  case False
  then show ?thesis using assms inflate_loop_safe [of 0 this False m] by (simp add: InflateL_def)
qed

lemma inflater_ReadL_safe:
  assumes "inflater_safe this"
  shows "case inflater_ReadL m n tfr this of Inl e \<Rightarrow> no_undefined e | Inr (out, this') \<Rightarrow> inflater_safe this'"
  using assms
proof (induction m n tfr this rule: inflater_ReadL.induct)
  case (1 m n tfr this)
  let ?len = "min n (iLimit this - iAvail this)"
  let ?tfr = "tfr @ take ?len (drop (iAvail this) (iOut this))" and ?th = "this\<lparr>iAvail := iAvail this + ?len\<rparr>"
  have ok: "inflater_safe ?th" using "1.prems" by (auto simp: inflater_safe_def inflater_ok_def min_def)
  have run: "inflater_ReadL m n tfr this = (if n - ?len = 0 then Inr (?tfr, ?th) else case InflateL m ?th of Inl e \<Rightarrow> Inl e
      | Inr (len, t) \<Rightarrow> if len = 0 then Inr (?tfr, t) else inflater_ReadL m (n - ?len) ?tfr (t\<lparr>iAvail := 0, iLimit := len\<rparr>))"
    by (subst inflater_ReadL.simps) (simp add: Let_def)
  show ?case
  proof (cases "n - ?len = 0")
    case True
    then show ?thesis using run ok by simp
  next
    case False
    show ?thesis
    proof (cases "InflateL m ?th")
      case (Inl e)
      then show ?thesis using run False InflateL_safe [OF ok, of m] by simp
    next
      case (Inr x)
      obtain k t where x: "x = (k, t)" by fastforce
      note i = Inr [unfolded x]
      have t: "inflater_safe t" "k \<le> KDeflateMaxDistance"
        using InflateL_safe [OF ok, of m] i InflateL_ok [OF i] ok by (simp_all add: inflater_safe_def)
      show ?thesis
      proof (cases "k = 0")
        case True
        then show ?thesis using run False i t by simp
      next
        case k: False
        let ?t = "t\<lparr>iAvail := 0, iLimit := k\<rparr>"
        have "inflater_safe ?t" using t by (simp add: inflater_safe_def inflater_ok_def)
        then show ?thesis using "1.IH" [OF refl refl refl refl False i refl k] run False i k by simp
      qed
    qed
  qed
qed

section \<open>The programs end\<close>

lemma decompress_loop_returns:
  assumes "inflater_safe this"
  shows "case decompress_loop m out this of None \<Rightarrow> False | Some (Inl e) \<Rightarrow> no_undefined e | Some (Inr file) \<Rightarrow> True"
  using assms
proof (induction "readable this" arbitrary: this out rule: less_induct)
  case less
  note S = inflater_ReadL_safe [OF less.prems, of m 1024 "[]"]
  show ?case
  proof (cases "inflater_ReadL m 1024 [] this")
    case (Inl e)
    then show ?thesis using S by (subst decompress_loop.simps) simp
  next
    case (Inr r)
    obtain buf t where r: "r = (buf, t)" by (cases r)
    have "inflater_ok this" using less.prems by (simp add: inflater_safe_def)
    note R = inflater_ReadL_ok [OF Inr [unfolded r] this]
    show ?thesis
    proof (cases "buf = []")
      case True
      then show ?thesis using Inr r by (subst decompress_loop.simps) simp
    next
      case False
      then have "readable t < readable this" using R by (cases buf) auto
      moreover have "inflater_safe t" using S Inr r by simp
      ultimately have "case decompress_loop m (out @ buf) t of None \<Rightarrow> False | Some (Inl e) \<Rightarrow> no_undefined e | Some (Inr file) \<Rightarrow> True"
        using less.hyps by blast
      then show ?thesis using Inr r False by (subst decompress_loop.simps) simp
    qed
  qed
qed

text \<open>Calls of \<open>CInflater::ReadL\<close> with the lengths of a list\<close>

primrec read_calls :: "memory \<Rightarrow> nat list \<Rightarrow> CInflater \<Rightarrow> failure + byte list list \<times> CInflater" where
  "read_calls m [] this = Inr ([], this)"
| "read_calls m (n # ns) this =
    (case inflater_ReadL m n [] this of Inl e \<Rightarrow> Inl e
     | Inr (out, this) \<Rightarrow> (case read_calls m ns this of Inl e \<Rightarrow> Inl e | Inr (outs, this) \<Rightarrow> Inr (out # outs, this)))"

lemma read_calls_safe:
  assumes "inflater_safe this"
  shows "case read_calls m ns this of Inl e \<Rightarrow> no_undefined e
    | Inr (outs, this') \<Rightarrow> inflater_safe this' \<and> list_all2 (\<lambda>out n. length out \<le> n) outs ns"
  using assms
proof (induction ns arbitrary: this)
  case (Cons n ns)
  show ?case
  proof (cases "inflater_ReadL m n [] this")
    case (Inl e)
    then show ?thesis using inflater_ReadL_safe [OF Cons.prems, of m n "[]"] by simp
  next
    case (Inr r)
    obtain out t where r: "r = (out, t)" by fastforce
    have "inflater_safe t" "length out \<le> n"
      using inflater_ReadL_safe [OF Cons.prems, of m n "[]"] inflater_ReadL_ok [OF Inr [unfolded r]] Cons.prems Inr r
      by (simp_all add: inflater_safe_def)
    then show ?thesis using Cons.IH [of t] Inr r by (auto split: sum.splits)
  qed
qed simp

lemma NewLC_safe:
  assumes "length (iLitLen enc) = ELitLens" "length (iDistance enc) = EDistances" "length buf = KDeflateMaxDistance" "in_ok s"
  shows "case NewLC m s enc buf of Inl e \<Rightarrow> table_failure e \<and> (e = Undefined \<longrightarrow> InternalizeL m s (iLitLen enc @ iDistance enc) KDeflationCodes = Inl Undefined)
    | Inr this \<Rightarrow> inflater_safe this"
proof (cases "InitL m s enc")
  case (Inl e)
  then show ?thesis using InitL_safe [OF assms(1,2), of m s] by (simp add: NewLC_def)
next
  case (Inr r)
  obtain enc' s' where r: "r = (enc', s')" by fastforce
  then have "safe_trees enc'" "in_ok s'" using InitL_safe [OF assms(1,2), of m s] InitL_in_ok [of m s enc enc' s'] assms(4) Inr by simp_all
  then show ?thesis using Inr r assms(3) by (simp add: NewLC_def inflater_safe_def inflater_ok_def)
qed

text \<open>
  C17. The decompressor is safe on any data: once \<open>CInflater::NewLC\<close> has accepted the table at the start of a stream, every
  sequence of calls of \<open>ReadL\<close> either ends with the panic for an exhausted input, or every call returns at most as many bytes as it was
  asked for and leaves the circular buffer at its size with the read pointer and the bounds of the available data inside
  of it; no access leaves the buffer or a decoding tree, and no copy of zero bytes runs away.
\<close>

theorem inflater_ReadL_type:
  assumes "NewLC m (Set m a n 0) enc buf = Inr this"
    and "length (iLitLen enc) = ELitLens" "length (iDistance enc) = EDistances" "length buf = KDeflateMaxDistance"
  shows "case read_calls m' ns this of Inl e \<Rightarrow> e = Panic EHuffmanBufferOverflow
    | Inr (outs, this') \<Rightarrow> list_all2 (\<lambda>out n. length out \<le> n) outs ns \<and> length (iOut this') = KDeflateMaxDistance \<and>
        iRptr this' < KDeflateMaxDistance \<and> iAvail this' \<le> iLimit this' \<and> iLimit this' \<le> KDeflateMaxDistance"
proof -
  have "0 \<le> n" using assms(1) NewLC_empty [of n m a enc buf] by (cases "n < 0") auto
  then have "in_ok (Set m a n 0)" using Set_bits by blast
  then have "inflater_safe this" using NewLC_safe [OF assms(2-4), of "Set m a n 0" m] assms(1) by simp
  then show ?thesis using read_calls_safe [of this, where m = m' and ns = ns] by (auto simp: inflater_safe_def inflater_ok_def split: sum.splits)
qed


theorem inflater_ReadL_type_witness:
  "\<exists>m n this outs this'. NewLC m (Set m 4 n 0) \<lparr>iLitLen = replicate ELitLens 7, iDistance = replicate EDistances 7\<rparr> (replicate KDeflateMaxDistance 0) = Inr this \<and>
    read_calls m [10] this = Inr (outs, this') \<and> outs = [replicate 10 0] \<and> list_all2 (\<lambda>out n. length out \<le> n) outs [10] \<and> iRptr this' < KDeflateMaxDistance"
proof -
  let ?enc = "\<lparr>iLitLen = replicate ELitLens 7, iDistance = replicate EDistances 7\<rparr>" and ?buf = "replicate KDeflateMaxDistance 0"
  have len: "length (iLitLen ?enc) = ELitLens" "length (iDistance ?enc) = EDistances" "length ?buf = KDeflateMaxDistance" by simp_all
  have "compression_type (take HEADER_SIZE (replicate 200 0)) = 0" by (simp add: compression_type_def)
  then obtain body where b: "starts (bytes_bits body) (replicate 44 0)"
    using compress_main_body [of "replicate 200 0" "\<lambda>_. 0" 0] by auto
  let ?m = "place_bytes (\<lambda>_. 0) 4 body"
  let ?s = "Set ?m 4 (int (8 * length body)) 0"
  have "in_ok ?s" "in_bits ?m ?s = bytes_bits body"
    using Set_bits [of "int (8 * length body)" ?m 4] mem_bits_bytes [of ?m 4 "length body"] by (simp_all del: of_nat_mult)
  then obtain this enc dec u1 u2 where r: "NewLC ?m ?s ?enc ?buf = Inr this" "deflate_stream enc dec u1 u2"
      "reading enc dec u1 u2 ?m this [] (replicate 44 0)"
    using b len unfolding starts_def by blast
  obtain this' where i: "inflater_ReadL ?m 10 [] this = Inr (replicate 10 0, this')"
    using deflate_stream.inflater_ReadL_spec [OF r(2,3), of 10 "[]"] by auto
  then have "read_calls ?m [10] this = Inr ([replicate 10 0], this')" by simp
  then show ?thesis using r(1) inflater_ReadL_type [OF r(1) len, where m' = ?m and ns = "[10]"] by auto
qed

text \<open>
  C16. Both programs end on every file with a header and less than 2 GB of data, with one exception by defined behaviour.  \<open>compress\<close>
  writes an image, or ends with status 1 because the image is not uncompressed, or panics because a code is longer than 27 bits, which needs at least
  832039 bytes of data.  \<open>decompress\<close> writes an image, ends with status 1 because the image is not compressed, or
  panics; the only undefined behaviour on corrupt data is that of \<open>InternalizeL\<close>, which may store behind the end of the table.
\<close>

theorem programs_return:
  assumes "HEADER_SIZE \<le> length file" "length file - HEADER_SIZE < 2 ^ 31"
    and "length (iLitLen enc) = ELitLens" "length (iDistance enc) = EDistances" "length buf = KDeflateMaxDistance"
  shows "(case compress_main m a file of None \<Rightarrow> False | Some (Inr img) \<Rightarrow> True
      | Some (Inl e) \<Rightarrow> e = Exit 1 \<and> compression_type (take HEADER_SIZE file) \<noteq> 0 \<or>
          e = Panic EHuffmanBufferOverflow \<and> 832039 \<le> length file - HEADER_SIZE) \<and>
    (case decompress_main m a enc buf file of None \<Rightarrow> False | Some (Inr img) \<Rightarrow> True
      | Some (Inl e) \<Rightarrow> e = Exit 1 \<and> compression_type (take HEADER_SIZE file) \<noteq> KUidCompressionDeflate \<or>
          e = Panic EHuffmanBufferOverflow \<or> e = Panic EHuffmanCorruptFile \<or>
          e = Undefined \<and> (let m' = place_bytes m a (drop HEADER_SIZE file); len = of_nat (length file) - of_nat HEADER_SIZE :: 32 word in
            InternalizeL m' (Set m' a (sint (8 * len)) 0) (iLitLen enc @ iDistance enc) KDeflationCodes = Inl Undefined))"
proof
  show "case compress_main m a file of None \<Rightarrow> False | Some (Inr img) \<Rightarrow> True
      | Some (Inl e) \<Rightarrow> e = Exit 1 \<and> compression_type (take HEADER_SIZE file) \<noteq> 0 \<or>
          e = Panic EHuffmanBufferOverflow \<and> 832039 \<le> length file - HEADER_SIZE"
  proof (cases "compression_type (take HEADER_SIZE file) = 0")
    case True
    from compress_main_body [OF assms(1,2) this, of m a] show ?thesis by auto
  next
    case False
    then show ?thesis using assms(1) by (simp add: compress_main_def Let_def)
  qed
  show "case decompress_main m a enc buf file of None \<Rightarrow> False | Some (Inr img) \<Rightarrow> True
      | Some (Inl e) \<Rightarrow> e = Exit 1 \<and> compression_type (take HEADER_SIZE file) \<noteq> KUidCompressionDeflate \<or>
          e = Panic EHuffmanBufferOverflow \<or> e = Panic EHuffmanCorruptFile \<or>
          e = Undefined \<and> (let m' = place_bytes m a (drop HEADER_SIZE file); len = of_nat (length file) - of_nat HEADER_SIZE :: 32 word in
            InternalizeL m' (Set m' a (sint (8 * len)) 0) (iLitLen enc @ iDistance enc) KDeflationCodes = Inl Undefined)"
  proof (cases "compression_type (take HEADER_SIZE file) = KUidCompressionDeflate")
    case True
    let ?m = "place_bytes m a (drop HEADER_SIZE file)" and ?n = "sint (8 * (of_nat (length file) - of_nat HEADER_SIZE) :: 32 word)"
    have run: "decompress_main m a enc buf file = (case NewLC ?m (Set ?m a ?n 0) enc buf of Inl e \<Rightarrow> Some (Inl e)
        | Inr inflater \<Rightarrow> decompress_loop ?m (set_compression 0 (take HEADER_SIZE file)) inflater)"
      using leD [OF assms(1)] True unfolding decompress_main_def Let_def by (simp only: if_False simp_thms)
    show ?thesis
    proof (cases "?n < 0")
      case True
      show ?thesis unfolding run NewLC_empty [OF True] by simp
    next
      case False
      then have "in_ok (Set ?m a ?n 0)" using Set_bits [of ?n ?m a] by simp
      note N = NewLC_safe [OF assms(3-5) this, of ?m]
      show ?thesis
      proof (cases "NewLC ?m (Set ?m a ?n 0) enc buf")
        case (Inl e)
        show ?thesis using N unfolding run Inl Let_def table_failure_def by auto
      next
        case (Inr this)
        then have "inflater_safe this" using N by simp
        from decompress_loop_returns [OF this, of ?m "set_compression 0 (take HEADER_SIZE file)"]
        show ?thesis unfolding run Inr by (auto split: option.splits sum.splits)
      qed
    qed
  next
    case False
    then show ?thesis using assms(1) by (simp add: decompress_main_def Let_def)
  qed
qed

theorem programs_return_witness:
  "(\<exists>img. compress_main (\<lambda>_. 0) 0 (replicate 200 0) = Some (Inr img)) \<and>
    decompress_main (\<lambda>_. 0) 0 \<lparr>iLitLen = replicate ELitLens 7, iDistance = replicate EDistances 7\<rparr> (replicate KDeflateMaxDistance 0) (replicate 200 0) = Some (Inl (Exit 1))"
proof -
  let ?enc = "\<lparr>iLitLen = replicate ELitLens 7, iDistance = replicate EDistances 7\<rparr>" and ?buf = "replicate KDeflateMaxDistance (0 :: byte)" and ?file = "replicate 200 0"
  have "compression_type (take HEADER_SIZE ?file) = 0" by (simp add: compression_type_def)
  then show ?thesis using programs_return [of ?file ?enc ?buf "\<lambda>_. 0" 0]
    by (auto simp: decompress_main_def Let_def split: option.splits sum.splits)
qed

end
