(* ===== verification/Bmconv_Rle.thy ===== *)
theory Bmconv_Rle
  imports Prelude
begin

text \<open>
  Run-length compression of bitmaps in \<open>bmconv\<close>: the compressors of \<open>BitmapCompiler\<close> (\<open>pbmcomp.cpp\<close>) and the
  expanders of \<open>EpocLoader\<close> (\<open>pbmtobm.cpp\<close>).  Source pointers are addresses; a destination pointer is the list
  of bytes that have been written.  Values of 16 bits are in the byte order of the host (\<open>be\<close>: big-endian).
  An expander that writes behind its destination is \<open>None\<close>.
\<close>

datatype Errors = NoCompression | NoError | NoMemory | Arg | Files | SourceFile | DestFile | CommandFile | OutOfRange | TooManyArgs
  | UnknownCompression | CompressionError | DecompressionError | Bpp | PaletteFile | PaletteSupportNotImplemented

section \<open>Bytes\<close>

fun WriteCompressedByteData :: "memory \<Rightarrow> byte list \<Rightarrow> addr \<Rightarrow> nat \<Rightarrow> Errors \<times> byte list" where
  "WriteCompressedByteData m aDest aData aLength =
    (if aLength > 128 then WriteCompressedByteData m (aDest @ [- 128] @ bytes_at m aData 128) (aData + 128) (aLength - 128)
     else if aLength < 1 then (CompressionError, aDest)
     else (NoError, aDest @ [- of_nat aLength] @ bytes_at m aData aLength))"

fun WriteCompressedByteValues :: "byte list \<Rightarrow> byte \<Rightarrow> nat \<Rightarrow> Errors \<times> byte list" where
  "WriteCompressedByteValues aDest aValue aLength =
    (if aLength < 1 then (CompressionError, aDest)
     else if aLength > 128 then WriteCompressedByteValues (aDest @ [127, aValue]) aValue (aLength - 128)
     else (NoError, aDest @ [of_nat (aLength - 1), aValue]))"

text \<open>The two inner loops of \<open>CompressByteData\<close>\<close>

function (sequential) byte_run :: "memory \<Rightarrow> addr \<Rightarrow> byte \<Rightarrow> addr \<Rightarrow> addr" where
  "byte_run m limitmargin value bytepointer =
    (if m bytepointer = value \<and> bytepointer < limitmargin then byte_run m limitmargin value (bytepointer + 1) else bytepointer)"
  by pat_completeness auto
termination
  by (relation "measure (\<lambda>(_, limit, _, p). limit - p)") auto

function (sequential) byte_data :: "memory \<Rightarrow> addr \<Rightarrow> byte \<Rightarrow> addr \<Rightarrow> addr" where
  "byte_data m limitmargin value bytepointer =
    (if bytepointer < limitmargin \<and> (m (bytepointer + 1) \<noteq> value \<or> m (bytepointer + 2) \<noteq> value)
     then byte_data m limitmargin (m (bytepointer + 1)) (bytepointer + 1) else bytepointer)"
  by pat_completeness auto
termination
  by (relation "measure (\<lambda>(_, limit, _, p). limit - p)") auto

declare WriteCompressedByteData.simps [simp del] WriteCompressedByteValues.simps [simp del] byte_run.simps [simp del] byte_data.simps [simp del]

lemma byte_run_le:
  "p \<le> byte_run m limit v p" "byte_run m limit v p \<le> max limit p" "p \<le> i \<Longrightarrow> i < byte_run m limit v p \<Longrightarrow> m i = v"
proof (induction m limit v p rule: byte_run.induct)
  case (1 m limit v p)
  have e: "byte_run m limit v p = (if m p = v \<and> p < limit then byte_run m limit v (p + 1) else p)" by (subst byte_run.simps) simp
  {
    case 1
    show ?case using "1.IH"(1) by (auto simp: e)
  next
    case 2
    show ?case using "1.IH"(2) by (auto simp: e)
  next
    case 3
    have c: "m p = v \<and> p < limit" using 3 e by (auto split: if_splits)
    have "m i = v" if "p + 1 \<le> i" using that "1.IH"(3) [OF c] 3 c by (simp add: e)
    then show ?case using 3 c by (cases "p = i") auto
  }
qed

lemma byte_data_le: "p \<le> byte_data m limit v p \<and> (byte_data m limit v p \<le> limit \<or> byte_data m limit v p = p)"
proof (induction m limit v p rule: byte_data.induct)
  case (1 m limit v p)
  then show ?case by (auto simp: byte_data.simps [of m limit v p])
qed

text \<open>It stops at the limit or where a run starts.\<close>

lemma byte_data_stops:
  assumes "e = byte_data m limit (m p) p"
  shows "limit \<le> e \<or> m (e + 1) = m e \<and> m (e + 2) = m e"
  using assms
proof (induction "limit - p" arbitrary: p rule: less_induct)
  case less
  show ?case
  proof (cases "p < limit \<and> (m (p + 1) \<noteq> m p \<or> m (p + 2) \<noteq> m p)")
    case True
    then have "e = byte_data m limit (m (p + 1)) (p + 1)" using less.prems by (subst (asm) byte_data.simps) simp
    then show ?thesis using less.hyps [of "p + 1"] True by auto
  next
    case False
    then have "byte_data m limit (m p) p = p" by (subst byte_data.simps) auto
    then have "e = p" using less.prems by simp
    then show ?thesis using False by auto
  qed
qed

lemma byte_data_less:
  assumes "p < limit" "m (p + 1) \<noteq> v \<or> m (p + 2) \<noteq> v"
  shows "p < byte_data m limit v p" "byte_data m limit v p \<le> limit"
  using assms byte_data_le [of "p + 1" m limit "m (p + 1)"] by (auto simp: byte_data.simps [of m limit v p])

function (sequential) byte_loop :: "memory \<Rightarrow> addr \<Rightarrow> nat \<Rightarrow> addr \<Rightarrow> byte list \<Rightarrow> Errors \<times> addr \<times> byte list" where
  "byte_loop m limitmargin cutoff bytepointer aDest =
    (if \<not> bytepointer < limitmargin then (NoError, bytepointer, aDest)
     else let value = m bytepointer; oldbytepointer = bytepointer;
       run = (m (bytepointer + 1) = value \<and> m (bytepointer + 2) = value);
       bytepointer = (if run then byte_run m limitmargin value (bytepointer + 3) else byte_data m limitmargin value bytepointer);
       (ret, aDest) =
         (if run then WriteCompressedByteValues aDest value (bytepointer - oldbytepointer)
          else WriteCompressedByteData m aDest oldbytepointer (bytepointer - oldbytepointer))
     in if ret \<noteq> NoError then (ret, bytepointer, aDest)
     else if length aDest > cutoff then (NoCompression, bytepointer, aDest)
     else byte_loop m limitmargin cutoff bytepointer aDest)"
  by pat_completeness auto
termination
proof (relation "measure (\<lambda>(_, limit, _, p, _). limit - p)", goal_cases)
  case (2 m limit cutoff p aDest v q run p' x ret d)
  have "p < p'" using 2 byte_run_le(1) [of "p + 3" m limit v] byte_data_less [of p limit m v] by (auto split: if_splits)
  then show ?case using 2 by simp
qed simp

declare byte_loop.simps [simp del]

definition CompressByteData :: "memory \<Rightarrow> byte list \<Rightarrow> addr \<Rightarrow> nat \<Rightarrow> Errors \<times> byte list" where
  "CompressByteData m aDest aSrce aSize =
    (let limitpointer = aSrce + aSize;
         margin = drop_bit 6 aSize;
         limitmargin = limitpointer - (if margin > 4 then margin else 4);
         cutoff = length aDest + drop_bit 1 aSize + drop_bit 2 aSize;
         (ret, bytepointer, aDest) = byte_loop m limitmargin cutoff aSrce aDest
     in if ret \<noteq> NoError then (ret, aDest)
     else let remaining = limitpointer - bytepointer
     in if remaining > 0 then
       (if length aDest + remaining > cutoff then (NoCompression, aDest) else WriteCompressedByteData m aDest bytepointer remaining)
     else (NoError, aDest))"

section \<open>Twelve bits\<close>

text \<open>A value is read or written through a pointer to \<open>unsigned short\<close>.\<close>

definition get_short :: "bool \<Rightarrow> memory \<Rightarrow> addr \<Rightarrow> 16 word" where
  "get_short be m p = host_word be (bytes_at m p 2)"

fun WriteCompressedTwelveBitData :: "bool \<Rightarrow> byte list \<Rightarrow> 16 word \<Rightarrow> nat \<Rightarrow> byte list" where
  "WriteCompressedTwelveBitData be aDest aData aLength =
    (let aData = aData AND 0x0fff; maxLengthData = aData OR 0xf000
     in if aLength > 16 then WriteCompressedTwelveBitData be (aDest @ host_bytes be 2 maxLengthData) aData (aLength - 16)
     else if aLength > 0 then aDest @ host_bytes be 2 (aData OR push_bit 12 (of_nat (aLength - 1)))
     else aDest)"

function (sequential) short_run :: "bool \<Rightarrow> memory \<Rightarrow> addr \<Rightarrow> 16 word \<Rightarrow> addr \<Rightarrow> addr" where
  "short_run be m srceLimitPtr value srcePtr =
    (let srcePtr = srcePtr + 2
     in if srcePtr < srceLimitPtr \<and> get_short be m srcePtr = value then short_run be m srceLimitPtr value srcePtr else srcePtr)"
  by pat_completeness auto
termination
  by (relation "measure (\<lambda>(_, _, limit, _, p). limit - p)") auto

declare WriteCompressedTwelveBitData.simps [simp del] short_run.simps [simp del]

lemma short_run_gt: "p < short_run be m limit v p"
proof (induction be m limit v p rule: short_run.induct)
  case (1 be m limit v p)
  then show ?case by (subst short_run.simps) (force simp: Let_def)
qed

function (sequential) twelve_loop :: "bool \<Rightarrow> memory \<Rightarrow> addr \<Rightarrow> addr \<Rightarrow> byte list \<Rightarrow> byte list" where
  "twelve_loop be m srceLimitPtr srcePtr dest =
    (if \<not> srcePtr < srceLimitPtr then dest
     else let runStartPtr = srcePtr; value = get_short be m srcePtr;
       srcePtr = short_run be m srceLimitPtr value srcePtr
     in twelve_loop be m srceLimitPtr srcePtr
          (WriteCompressedTwelveBitData be dest (get_short be m runStartPtr) ((srcePtr - runStartPtr) div 2)))"
  by pat_completeness auto
termination
proof (relation "measure (\<lambda>(_, _, limit, p, _). limit - p)", goal_cases)
  case (2 be m limit p d q v p')
  then show ?case using short_run_gt [of p be m limit v] by simp
qed simp

declare twelve_loop.simps [simp del]

definition CompressTwelveBitData :: "bool \<Rightarrow> memory \<Rightarrow> byte list \<Rightarrow> addr \<Rightarrow> nat \<Rightarrow> Errors \<times> byte list" where
  "CompressTwelveBitData be m aDest aSrce aSizeInBytes =
    (NoError, twelve_loop be m (aSrce + 2 * (aSizeInBytes div 2)) aSrce aDest)"

section \<open>Sixteen bits\<close>

text \<open>The low byte of a value is written first, whatever the byte order of the host.\<close>

definition short_bytes :: "bool \<Rightarrow> memory \<Rightarrow> addr \<Rightarrow> nat \<Rightarrow> byte list" where
  "short_bytes be m p n = concat (map (\<lambda>i. le_bytes 2 (get_short be m (p + 2 * i))) [0..<n])"

fun WriteCompressedSixteenBitData :: "bool \<Rightarrow> memory \<Rightarrow> byte list \<Rightarrow> addr \<Rightarrow> nat \<Rightarrow> Errors \<times> byte list" where
  "WriteCompressedSixteenBitData be m aDest aData aLength =
    (if aLength < 1 then (CompressionError, aDest)
     else if aLength > 128 then
       WriteCompressedSixteenBitData be m (aDest @ [- 128] @ short_bytes be m aData 128) (aData + 256) (aLength - 128)
     else (NoError, aDest @ [- of_nat aLength] @ short_bytes be m aData aLength))"

fun WriteCompressedSixteenBitValues :: "byte list \<Rightarrow> 16 word \<Rightarrow> nat \<Rightarrow> Errors \<times> byte list" where
  "WriteCompressedSixteenBitValues aDest aValue aLength =
    (if aLength < 1 then (CompressionError, aDest)
     else let lowByte = ucast aValue; highByte = ucast (drop_bit 8 aValue)
     in if aLength > 128 then WriteCompressedSixteenBitValues (aDest @ [127, lowByte, highByte]) aValue (aLength - 128)
     else (NoError, aDest @ [of_nat (aLength - 1), lowByte, highByte]))"

text \<open>The inner loops of \<open>CompressSixteenBitData\<close>; the first one reads before it compares with the limit.\<close>

function (sequential) sixteen_run :: "bool \<Rightarrow> memory \<Rightarrow> addr \<Rightarrow> 16 word \<Rightarrow> addr \<Rightarrow> addr" where
  "sixteen_run be m srceLimitPtr value srcePtr =
    (let srcePtr = srcePtr + 2
     in if get_short be m srcePtr = value \<and> srcePtr < srceLimitPtr then sixteen_run be m srceLimitPtr value srcePtr else srcePtr)"
  by pat_completeness auto
termination
  by (relation "measure (\<lambda>(_, _, limit, _, p). limit - p)") auto

function (sequential) sixteen_data :: "bool \<Rightarrow> memory \<Rightarrow> addr \<Rightarrow> 16 word \<Rightarrow> addr \<Rightarrow> addr" where
  "sixteen_data be m srceLimitPtrMinusOne value srcePtr =
    (if srcePtr < srceLimitPtrMinusOne \<and> get_short be m (srcePtr + 2) \<noteq> value
     then sixteen_data be m srceLimitPtrMinusOne (get_short be m (srcePtr + 2)) (srcePtr + 2) else srcePtr)"
  by pat_completeness auto
termination
  by (relation "measure (\<lambda>(_, _, limit, _, p). limit - p)") auto

declare WriteCompressedSixteenBitData.simps [simp del] WriteCompressedSixteenBitValues.simps [simp del]
  sixteen_run.simps [simp del] sixteen_data.simps [simp del]

lemma sixteen_run_short_run: "sixteen_run be m limit v p = short_run be m limit v p"
proof (induction be m limit v p rule: short_run.induct)
  case (1 be m limit v p)
  then show ?case by (subst short_run.simps, subst sixteen_run.simps) (auto simp: Let_def)
qed

lemma sixteen_data_ge: "p \<le> sixteen_data be m limit v p"
proof (induction be m limit v p rule: sixteen_data.induct)
  case (1 be m limit v p)
  then show ?case by (subst sixteen_data.simps) auto
qed

function (sequential) sixteen_loop ::
  "bool \<Rightarrow> memory \<Rightarrow> addr \<Rightarrow> nat \<Rightarrow> addr \<Rightarrow> byte list \<Rightarrow> Errors \<times> addr \<times> byte list" where
  "sixteen_loop be m srceLimitPtr destLimit srcePtr aDest =
    (if \<not> srcePtr < srceLimitPtr - 2 then (NoError, srcePtr, aDest)
     else let value = get_short be m srcePtr; runStartPtr = srcePtr; srcePtr = srcePtr + 2;
       run = (get_short be m srcePtr = value);
       srcePtr = (if run then sixteen_run be m srceLimitPtr value srcePtr
                  else sixteen_data be m (srceLimitPtr - 2) (get_short be m srcePtr) srcePtr);
       (ret, aDest) =
         (if run then WriteCompressedSixteenBitValues aDest value ((srcePtr - runStartPtr) div 2)
          else WriteCompressedSixteenBitData be m aDest runStartPtr ((srcePtr - runStartPtr) div 2))
     in if ret \<noteq> NoError then (ret, srcePtr, aDest)
     else if length aDest > destLimit then (NoCompression, srcePtr, aDest)
     else sixteen_loop be m srceLimitPtr destLimit srcePtr aDest)"
  by pat_completeness auto
termination
proof (relation "measure (\<lambda>(_, _, limit, _, p, _). limit - p)", goal_cases)
  case (2 be m limit dl p d v q p1 run p2 x ret d')
  have "p < p2" using 2 short_run_gt [of "p + 2" be m limit v] sixteen_data_ge [of "p + 2" be m "limit - 2" "get_short be m (p + 2)"]
    by (auto simp: sixteen_run_short_run)
  then show ?case using 2 by simp
qed simp

declare sixteen_loop.simps [simp del]

definition CompressSixteenBitData :: "bool \<Rightarrow> memory \<Rightarrow> byte list \<Rightarrow> addr \<Rightarrow> nat \<Rightarrow> Errors \<times> byte list" where
  "CompressSixteenBitData be m aDest aSrce aSizeInBytes =
    (let srceLimitPtr = aSrce + 2 * (aSizeInBytes div 2);
         destLimit = length aDest + aSizeInBytes * 7 div 8;
         (ret, srcePtr, aDest) = sixteen_loop be m srceLimitPtr destLimit aSrce aDest
     in if ret \<noteq> NoError then (ret, aDest)
     else let (ret, aDest) =
         (if srcePtr < srceLimitPtr then WriteCompressedSixteenBitData be m aDest srcePtr ((srceLimitPtr - srcePtr) div 2)
          else (NoError, aDest))
     in if ret \<noteq> NoError then (ret, aDest)
     else if length aDest > destLimit then (NoCompression, aDest)
     else (NoError, aDest))"

section \<open>Twenty-four bits\<close>

definition TrueColorPointerCompare :: "memory \<Rightarrow> addr \<Rightarrow> byte \<Rightarrow> byte \<Rightarrow> byte \<Rightarrow> bool" where
  "TrueColorPointerCompare m aColorPointer aComponent1 aComponent2 aComponent3 \<longleftrightarrow>
    m aColorPointer = aComponent1 \<and> m (aColorPointer + 1) = aComponent2 \<and> m (aColorPointer + 2) = aComponent3"

fun WriteCompressedTwentyFourBitData :: "memory \<Rightarrow> byte list \<Rightarrow> addr \<Rightarrow> nat \<Rightarrow> Errors \<times> byte list" where
  "WriteCompressedTwentyFourBitData m aDest aData aLength =
    (if aLength < 1 then (CompressionError, aDest)
     else if aLength > 128 then
       WriteCompressedTwentyFourBitData m (aDest @ [- 128] @ bytes_at m aData 384) (aData + 384) (aLength - 128)
     else (NoError, aDest @ [- of_nat aLength] @ bytes_at m aData (aLength * 3)))"

fun WriteCompressedTwentyFourBitValues :: "byte list \<Rightarrow> byte \<Rightarrow> byte \<Rightarrow> byte \<Rightarrow> nat \<Rightarrow> Errors \<times> byte list" where
  "WriteCompressedTwentyFourBitValues aDest aComponent1 aComponent2 aComponent3 aLength =
    (if aLength < 1 then (CompressionError, aDest)
     else if aLength > 128 then
       WriteCompressedTwentyFourBitValues (aDest @ [127, aComponent1, aComponent2, aComponent3]) aComponent1 aComponent2 aComponent3 (aLength - 128)
     else (NoError, aDest @ [of_nat (aLength - 1), aComponent1, aComponent2, aComponent3]))"

text \<open>The inner loops of \<open>CompressTwentyFourBitData\<close>\<close>

function (sequential) colour_run :: "memory \<Rightarrow> addr \<Rightarrow> byte \<Rightarrow> byte \<Rightarrow> byte \<Rightarrow> addr \<Rightarrow> addr" where
  "colour_run m srceLimitPtr component1 component2 component3 aSrce =
    (let aSrce = aSrce + 3
     in if aSrce < srceLimitPtr \<and> TrueColorPointerCompare m aSrce component1 component2 component3
     then colour_run m srceLimitPtr component1 component2 component3 aSrce else aSrce)"
  by pat_completeness auto
termination
  by (relation "measure (\<lambda>(_, limit, _, _, _, p). limit - p)") auto

function (sequential) colour_data :: "memory \<Rightarrow> addr \<Rightarrow> byte \<Rightarrow> byte \<Rightarrow> byte \<Rightarrow> addr \<Rightarrow> addr" where
  "colour_data m srceLimitPtrMinusThree component1 component2 component3 aSrce =
    (if aSrce < srceLimitPtrMinusThree \<and> \<not> TrueColorPointerCompare m (aSrce + 3) component1 component2 component3
     then let aSrce = aSrce + 3; component1 = m aSrce; component2 = m (aSrce + 1); component3 = m (aSrce + 2)
       in colour_data m srceLimitPtrMinusThree component1 component2 component3 aSrce
     else aSrce)"
  by pat_completeness auto
termination
  by (relation "measure (\<lambda>(_, limit, _, _, _, p). limit - p)") auto

declare WriteCompressedTwentyFourBitData.simps [simp del] WriteCompressedTwentyFourBitValues.simps [simp del]
  colour_run.simps [simp del] colour_data.simps [simp del]

lemma colour_run_gt: "p < colour_run m limit c1 c2 c3 p"
proof (induction m limit c1 c2 c3 p rule: colour_run.induct)
  case (1 m limit c1 c2 c3 p)
  then show ?case by (subst colour_run.simps) (force simp: Let_def)
qed

lemma colour_data_ge: "p \<le> colour_data m limit c1 c2 c3 p"
proof (induction m limit c1 c2 c3 p rule: colour_data.induct)
  case (1 m limit c1 c2 c3 p)
  then show ?case by (subst colour_data.simps) (force simp: Let_def)
qed

function (sequential) colour_loop :: "memory \<Rightarrow> addr \<Rightarrow> nat \<Rightarrow> addr \<Rightarrow> byte list \<Rightarrow> Errors \<times> addr \<times> byte list" where
  "colour_loop m srceLimitPtr destLimit aSrce aDest =
    (if \<not> aSrce < srceLimitPtr - 3 then (NoError, aSrce, aDest)
     else let runStartPtr = aSrce;
       component1 = m aSrce; component2 = m (aSrce + 1); component3 = m (aSrce + 2); aSrce = aSrce + 3;
       run = TrueColorPointerCompare m aSrce component1 component2 component3;
       aSrce = (if run then colour_run m srceLimitPtr component1 component2 component3 aSrce
                else colour_data m (srceLimitPtr - 3) (m aSrce) (m (aSrce + 1)) (m (aSrce + 2)) (aSrce + 3));
       (ret, aDest) =
         (if run then WriteCompressedTwentyFourBitValues aDest component1 component2 component3 ((aSrce - runStartPtr) div 3)
          else WriteCompressedTwentyFourBitData m aDest runStartPtr ((aSrce - runStartPtr) div 3))
     in if ret \<noteq> NoError then (ret, aSrce, aDest)
     else if length aDest > destLimit then (NoCompression, aSrce, aDest)
     else colour_loop m srceLimitPtr destLimit aSrce aDest)"
  by pat_completeness auto
termination
proof (relation "measure (\<lambda>(_, limit, _, p, _). limit - p)", goal_cases)
  case (2 m limit dl p d q c1 c2 c3 p1 run p2 x ret d')
  have "p < p2" using 2 colour_run_gt [of "p + 3" m limit c1 c2 c3]
      colour_data_ge [of "p + 3 + 3" m "limit - 3" "m (p + 3)" "m (p + 3 + 1)" "m (p + 3 + 2)"]
    by auto
  then show ?case using 2 by simp
qed simp

declare colour_loop.simps [simp del]

definition CompressTwentyFourBitData :: "memory \<Rightarrow> byte list \<Rightarrow> addr \<Rightarrow> nat \<Rightarrow> Errors \<times> byte list" where
  "CompressTwentyFourBitData m aDest aSrce aSizeInBytes =
    (let srceLimitPtr = aSrce + aSizeInBytes;
         destLimit = length aDest + aSizeInBytes * 7 div 8;
         (ret, aSrce, aDest) = colour_loop m srceLimitPtr destLimit aSrce aDest
     in if ret \<noteq> NoError then (ret, aDest)
     else let (ret, aDest) =
         (if aSrce < srceLimitPtr then WriteCompressedTwentyFourBitData m aDest aSrce ((srceLimitPtr - aSrce) div 3)
          else (NoError, aDest))
     in if ret \<noteq> NoError then (ret, aDest)
     else if length aDest > destLimit then (NoCompression, aDest)
     else (NoError, aDest))"

section \<open>Expansion\<close>

text \<open>
  The loops of the expanders: where reading stopped and what was written, \<open>None\<close> if that would be more than the
  destination can take.
\<close>

function (sequential) expand_byte_loop :: "memory \<Rightarrow> addr \<Rightarrow> nat \<Rightarrow> addr \<Rightarrow> byte list \<Rightarrow> (addr \<times> byte list) option" where
  "expand_byte_loop m srcelimit aDestSize aSrce aDest =
    (if \<not> (aSrce < srcelimit \<and> length aDest < aDestSize) then Some (aSrce, aDest)
     else let count = sint (m aSrce); aSrce = aSrce + 1
     in if count < 0 then
       let runLength = nat (- count)
       in if length aDest + runLength > aDestSize then None
       else expand_byte_loop m srcelimit aDestSize (aSrce + runLength) (aDest @ bytes_at m aSrce runLength)
     else let value = m aSrce
       in if length aDest + (nat count + 1) > aDestSize then None
       else expand_byte_loop m srcelimit aDestSize (aSrce + 1) (aDest @ replicate (nat count + 1) value))"
  by pat_completeness auto
termination
  by (relation "measure (\<lambda>(_, limit, _, p, _). limit - p)") auto

definition ExpandByteRLEData :: "memory \<Rightarrow> nat \<Rightarrow> addr \<Rightarrow> nat \<Rightarrow> (Errors \<times> byte list) option" where
  "ExpandByteRLEData m aDestSize aSrce aSrceSize =
    (case expand_byte_loop m (aSrce + aSrceSize) aDestSize aSrce [] of
       None \<Rightarrow> None
     | Some (s, d) \<Rightarrow> Some (if s \<noteq> aSrce + aSrceSize \<or> length d \<noteq> aDestSize then DecompressionError else NoError, d))"

definition get_u16 :: "memory \<Rightarrow> addr \<Rightarrow> 16 word" where
  "get_u16 m p = ucast (m p) OR push_bit 8 (ucast (m (p + 1)))"

definition get_u32 :: "memory \<Rightarrow> addr \<Rightarrow> 32 word" where
  "get_u32 m p = ucast (m p) OR push_bit 8 (ucast (m (p + 1))) OR push_bit 16 (ucast (m (p + 2))) OR push_bit 24 (ucast (m (p + 3)))"

text \<open>The destination of the next two is an array of shorts, of which the expander fills whole entries.\<close>

function (sequential) expand_twelve_loop ::
  "bool \<Rightarrow> memory \<Rightarrow> addr \<Rightarrow> nat \<Rightarrow> addr \<Rightarrow> byte list \<Rightarrow> (addr \<times> byte list) option" where
  "expand_twelve_loop be m srcePtrLimit destLimit srcePtr dest =
    (if \<not> (srcePtr < srcePtrLimit \<and> length dest < destLimit) then Some (srcePtr, dest)
     else let value = get_u16 m srcePtr; srcePtr = srcePtr + 2; runLength = unat (drop_bit 12 value) + 1; value = value AND 0x0fff
     in if length dest + 2 * runLength > destLimit then None
     else expand_twelve_loop be m srcePtrLimit destLimit srcePtr (dest @ concat (replicate runLength (host_bytes be 2 value))))"
  by pat_completeness auto
termination
  by (relation "measure (\<lambda>(_, _, limit, _, p, _). limit - p)") auto

definition ExpandTwelveBitRLEData :: "bool \<Rightarrow> memory \<Rightarrow> nat \<Rightarrow> addr \<Rightarrow> nat \<Rightarrow> (Errors \<times> byte list) option" where
  "ExpandTwelveBitRLEData be m aDestSizeInBytes aSrce aSrceSizeInBytes =
    (let srcePtrLimit = aSrce + 2 * (aSrceSizeInBytes div 2); destLimit = 2 * (aDestSizeInBytes div 2)
     in case expand_twelve_loop be m srcePtrLimit destLimit aSrce [] of
       None \<Rightarrow> None
     | Some (s, d) \<Rightarrow> Some (if s \<noteq> srcePtrLimit \<or> length d \<noteq> destLimit then DecompressionError else NoError, d))"

function (sequential) expand_sixteen_loop ::
  "bool \<Rightarrow> memory \<Rightarrow> addr \<Rightarrow> nat \<Rightarrow> addr \<Rightarrow> byte list \<Rightarrow> (addr \<times> byte list) option" where
  "expand_sixteen_loop be m srcePtrLimit destLimit aSrce dest =
    (if \<not> (aSrce < srcePtrLimit \<and> length dest < destLimit) then Some (aSrce, dest)
     else let runLength = sint (m aSrce); aSrce = aSrce + 1
     in if runLength \<ge> 0 then
       let value = get_short be m aSrce; runLength = nat runLength + 1
       in if length dest + 2 * runLength > destLimit then None
       else expand_sixteen_loop be m srcePtrLimit destLimit (aSrce + 2) (dest @ concat (replicate runLength (host_bytes be 2 value)))
     else let runLength = nat (- runLength); byteLength = runLength * 2
       in if length dest + byteLength > destLimit then None
       else expand_sixteen_loop be m srcePtrLimit destLimit (aSrce + byteLength) (dest @ bytes_at m aSrce byteLength))"
  by pat_completeness auto
termination
  by (relation "measure (\<lambda>(_, _, limit, _, p, _). limit - p)") auto

definition ExpandSixteenBitRLEData :: "bool \<Rightarrow> memory \<Rightarrow> nat \<Rightarrow> addr \<Rightarrow> nat \<Rightarrow> (Errors \<times> byte list) option" where
  "ExpandSixteenBitRLEData be m aDestSizeInBytes aSrce aSrceSizeInBytes =
    (let srcePtrLimit = aSrce + aSrceSizeInBytes; destLimit = 2 * (aDestSizeInBytes div 2)
     in case expand_sixteen_loop be m srcePtrLimit destLimit aSrce [] of
       None \<Rightarrow> None
     | Some (s, d) \<Rightarrow> Some (if s \<noteq> srcePtrLimit \<or> length d \<noteq> destLimit then DecompressionError else NoError, d))"

function (sequential) expand_colour_loop :: "memory \<Rightarrow> addr \<Rightarrow> nat \<Rightarrow> addr \<Rightarrow> byte list \<Rightarrow> (addr \<times> byte list) option" where
  "expand_colour_loop m srcePtrLimit aDestSize aSrce aDest =
    (if \<not> (aSrce < srcePtrLimit \<and> length aDest < aDestSize) then Some (aSrce, aDest)
     else let runLength = sint (m aSrce); aSrce = aSrce + 1
     in if runLength \<ge> 0 then
       let component1 = m aSrce; component2 = m (aSrce + 1); component3 = m (aSrce + 2); runLength = nat runLength + 1
       in if length aDest + 3 * runLength > aDestSize then None
       else expand_colour_loop m srcePtrLimit aDestSize (aSrce + 3) (aDest @ concat (replicate runLength [component1, component2, component3]))
     else let runLength = nat (- runLength); byteLength = runLength * 3
       in if length aDest + byteLength > aDestSize then None
       else expand_colour_loop m srcePtrLimit aDestSize (aSrce + byteLength) (aDest @ bytes_at m aSrce byteLength))"
  by pat_completeness auto
termination
  by (relation "measure (\<lambda>(_, limit, _, p, _). limit - p)") auto

declare expand_byte_loop.simps [simp del] expand_twelve_loop.simps [simp del] expand_sixteen_loop.simps [simp del] expand_colour_loop.simps [simp del]

definition ExpandTwentyFourBitRLEData :: "memory \<Rightarrow> nat \<Rightarrow> addr \<Rightarrow> nat \<Rightarrow> (Errors \<times> byte list) option" where
  "ExpandTwentyFourBitRLEData m aDestSizeInBytes aSrce aSrceSizeInBytes =
    (case expand_colour_loop m (aSrce + aSrceSizeInBytes) aDestSizeInBytes aSrce [] of
       None \<Rightarrow> None
     | Some (s, d) \<Rightarrow> Some (if s \<noteq> aSrce + aSrceSizeInBytes \<or> length d \<noteq> aDestSizeInBytes then DecompressionError else NoError, d))"

end
