(* ===== verification/Bmconv.thy ===== *)
theory Bmconv
  imports Bmconv_Rle
begin

text \<open>
  Multi-bitmap files of \<open>bmconv\<close>: \<open>BitmapCompiler::FileImage\<close> with the functions it calls (\<open>pbmcomp.cpp\<close>) and the
  loader of such files, \<open>EpocLoader\<close> (\<open>pbmtobm.cpp\<close>).  A bitmap is its header with the bytes that follow it in
  memory, a file is a list of bytes.  \<open>None\<close> stands for an access outside of a buffer and for an allocation of a
  negative size.
\<close>

record SEpocBitmapHeader =
  iBitmapSize :: "32 word"
  iStructSize :: "32 word"
  iWidthInPixels :: "32 word"
  iHeightInPixels :: "32 word"
  iWidthInTwips :: "32 word"
  iHeightInTwips :: "32 word"
  iBitsPerPixel :: "32 word"
  iColor :: "32 word"
  iPaletteEntries :: "32 word"
  iCompression :: "32 word"

type_synonym pbm = "SEpocBitmapHeader \<times> byte list"

abbreviation (input) KWriteOnceFileStoreUid :: "32 word" where "KWriteOnceFileStoreUid \<equiv> 268435511"
abbreviation (input) KMultiBitmapRomImageUid :: "32 word" where "KMultiBitmapRomImageUid \<equiv> 268435521"
abbreviation (input) KMultiBitmapFileImageUid :: "32 word" where "KMultiBitmapFileImageUid \<equiv> 268435522"
abbreviation (input) KMultiBitmapFileImageChecksum :: "32 word" where "KMultiBitmapFileImageChecksum \<equiv> 1194943545"
abbreviation (input) EMonochromeBitmap :: "32 word" where "EMonochromeBitmap \<equiv> 0"
abbreviation (input) EColorBitmap :: "32 word" where "EColorBitmap \<equiv> 1"
abbreviation (input) ENoBitmapCompression :: "32 word" where "ENoBitmapCompression \<equiv> 0"
abbreviation (input) EByteRLECompression :: "32 word" where "EByteRLECompression \<equiv> 1"
abbreviation (input) ETwelveBitRLECompression :: "32 word" where "ETwelveBitRLECompression \<equiv> 2"
abbreviation (input) ESixteenBitRLECompression :: "32 word" where "ESixteenBitRLECompression \<equiv> 3"
abbreviation (input) ETwentyFourBitRLECompression :: "32 word" where "ETwentyFourBitRLECompression \<equiv> 4"

text \<open>The size of a header\<close>

abbreviation (input) headerSize :: nat where "headerSize \<equiv> 40"

section \<open>The width of a line\<close>

text \<open>Division of integers rounds towards zero.\<close>

definition quot :: "int \<Rightarrow> int \<Rightarrow> int" where
  "quot a b = (if a < 0 then - (- a div b) else a div b)"

definition ByteWidth :: "int \<Rightarrow> int \<Rightarrow> int" where
  "ByteWidth aPixelWidth aBitsPerPixel =
    (let wordWidth =
       (if aBitsPerPixel = 1 then quot (aPixelWidth + 31) 32
        else if aBitsPerPixel = 2 then quot (aPixelWidth + 15) 16
        else if aBitsPerPixel = 4 then quot (aPixelWidth + 7) 8
        else if aBitsPerPixel = 8 then quot (aPixelWidth + 3) 4
        else if aBitsPerPixel = 12 \<or> aBitsPerPixel = 16 then quot (aPixelWidth + 1) 2
        else if aBitsPerPixel = 24 then quot (aPixelWidth * 3 + 11) 12 * 3
        else if aBitsPerPixel = 32 then aPixelWidth
        else 0)
     in wordWidth * 4)"

section \<open>Compression of a bitmap\<close>

text \<open>
  The bits of the bitmap are at address \<open>a\<close> of memory \<open>m\<close>.  The new bits go to a buffer of the size of the old ones,
  filled with \<open>0xff\<close>.
\<close>

definition CompressBitmap :: "bool \<Rightarrow> memory \<Rightarrow> addr \<Rightarrow> pbm \<Rightarrow> (Errors \<times> pbm) option" where
  "CompressBitmap be m a aPbm =
    (let (header, bits) = aPbm;
         m = put_bytes m a bits;
         originalsize = nat (sint (iBitmapSize header) - int headerSize);
         bpp = sint (iBitsPerPixel header);
         (compression, ret, newbits) =
           (if bpp \<le> 8 then (EByteRLECompression, CompressByteData m [] a originalsize)
            else if bpp = 12 then (ETwelveBitRLECompression, CompressTwelveBitData be m [] a originalsize)
            else if bpp = 16 then (ESixteenBitRLECompression, CompressSixteenBitData be m [] a originalsize)
            else if bpp = 24 then (ETwentyFourBitRLECompression, CompressTwentyFourBitData m [] a originalsize)
            else (ENoBitmapCompression, NoCompression, []))
     in if length newbits > originalsize then None
     else if ret \<noteq> NoError then Some (if ret = NoCompression then NoError else ret, aPbm)
     else Some (NoError, header\<lparr>iBitmapSize := of_nat (length newbits + headerSize), iCompression := compression\<rparr>,
       newbits @ replicate (originalsize - length newbits) 0xff))"

section \<open>Writing\<close>

definition Write16 :: "byte list \<Rightarrow> 16 word \<Rightarrow> byte list" where
  "Write16 iDestFile v = iDestFile @ [ucast (drop_bit 0 v AND 0xff), ucast (drop_bit 8 v AND 0xff)]"

definition Write32 :: "byte list \<Rightarrow> 32 word \<Rightarrow> byte list" where
  "Write32 iDestFile v = iDestFile @
    [ucast (drop_bit 0 v AND 0xff), ucast (drop_bit 8 v AND 0xff), ucast (drop_bit 16 v AND 0xff), ucast (drop_bit 24 v AND 0xff)]"

definition WriteBuf16 :: "bool \<Rightarrow> byte list \<Rightarrow> byte list \<Rightarrow> nat \<Rightarrow> byte list" where
  "WriteBuf16 be iDestFile buf sz = fold (\<lambda>i f. Write16 f (host_word be (take 2 (drop (2 * i) buf)))) [0..<sz div 2] iDestFile"

definition WriteBuf32 :: "bool \<Rightarrow> byte list \<Rightarrow> byte list \<Rightarrow> nat \<Rightarrow> byte list" where
  "WriteBuf32 be iDestFile buf sz = fold (\<lambda>i f. Write32 f (host_word be (take 4 (drop (4 * i) buf)))) [0..<sz div 4] iDestFile"

text \<open>The header in the memory of the host\<close>

definition header_members :: "SEpocBitmapHeader \<Rightarrow> 32 word list" where
  "header_members h = [iBitmapSize h, iStructSize h, iWidthInPixels h, iHeightInPixels h, iWidthInTwips h, iHeightInTwips h,
     iBitsPerPixel h, iColor h, iPaletteEntries h, iCompression h]"

definition WriteFileheader :: "pbm list \<Rightarrow> byte list \<Rightarrow> byte list" where
  "WriteFileheader iPbmSources f =
    (let f = Write32 f KWriteOnceFileStoreUid;
         f = Write32 f KMultiBitmapFileImageUid;
         f = Write32 f 0;
         f = Write32 f KMultiBitmapFileImageChecksum;
         byteswritten = fold (\<lambda>pbm n. n + iBitmapSize (fst pbm)) iPbmSources 16
     in Write32 f (byteswritten + 4))"

definition WriteFilebitmap :: "bool \<Rightarrow> pbm \<Rightarrow> bool \<Rightarrow> byte list \<Rightarrow> Errors \<times> byte list" where
  "WriteFilebitmap be aPbm aCompress f =
    (let (header, bits) = aPbm
     in if iPaletteEntries header \<noteq> 0 then (PaletteSupportNotImplemented, f)
     else let dataSize = nat (sint (iBitmapSize header) - int headerSize);
       f = WriteBuf32 be f (concat (map (host_bytes be 4) (header_members header))) headerSize;
       bpp = sint (iBitsPerPixel header)
     in (NoError, if bpp = 12 \<or> bpp = 16 \<and> \<not> aCompress then WriteBuf16 be f bits dataSize else f @ take dataSize bits))"

definition WriteHeadStream :: "pbm list \<Rightarrow> byte list \<Rightarrow> byte list" where
  "WriteHeadStream iPbmSources f =
    snd (fold (\<lambda>pbm (byteswritten, f). (byteswritten + iBitmapSize (fst pbm), Write32 f byteswritten))
      iPbmSources (20, Write32 f (of_nat (length iPbmSources))))"

text \<open>The loops of \<open>FileImage\<close> over the sources\<close>

fun compress_sources :: "bool \<Rightarrow> memory \<Rightarrow> addr \<Rightarrow> pbm list \<Rightarrow> (Errors \<times> pbm list) option" where
  "compress_sources be m a [] = Some (NoError, [])"
| "compress_sources be m a (pbm # pbms) =
    (case CompressBitmap be m a pbm of
       None \<Rightarrow> None
     | Some (ret, pbm) \<Rightarrow>
         if ret \<noteq> NoError then Some (ret, pbm # pbms)
         else map_option (\<lambda>(ret, pbms). (ret, pbm # pbms)) (compress_sources be m a pbms))"

fun write_sources :: "bool \<Rightarrow> bool \<Rightarrow> pbm list \<Rightarrow> byte list \<Rightarrow> Errors \<times> byte list" where
  "write_sources be aCompress [] f = (NoError, f)"
| "write_sources be aCompress (pbm # pbms) f =
    (let (ret, f) = WriteFilebitmap be pbm aCompress f in if ret \<noteq> NoError then (ret, f) else write_sources be aCompress pbms f)"

definition FileImage :: "bool \<Rightarrow> memory \<Rightarrow> addr \<Rightarrow> bool \<Rightarrow> pbm list \<Rightarrow> (Errors \<times> byte list) option" where
  "FileImage be m a aCompress iPbmSources =
    (case (if aCompress then compress_sources be m a iPbmSources else Some (NoError, iPbmSources)) of
       None \<Rightarrow> None
     | Some (ret, iPbmSources) \<Rightarrow>
         if ret \<noteq> NoError then Some (ret, [])
         else let (ret, f) = write_sources be aCompress iPbmSources (WriteFileheader iPbmSources [])
         in if ret \<noteq> NoError then Some (ret, f) else Some (NoError, WriteHeadStream iPbmSources f))"

section \<open>Loading\<close>

record EpocLoader =
  iOriginalPbmHeader :: SEpocBitmapHeader
  iPbmHeader :: SEpocBitmapHeader
  iPbmBits :: "byte list"

text \<open>Up to \<open>n\<close> bytes of the file from a position on, and what \<open>get_u32\<close> makes of a buffer\<close>

definition read_at :: "byte list \<Rightarrow> nat \<Rightarrow> nat \<Rightarrow> byte list" where
  "read_at f p n = take n (drop p f)"

definition buffer_u32 :: "byte list \<Rightarrow> nat \<Rightarrow> 32 word" where
  "buffer_u32 buf i = get_u32 (\<lambda>j. buf ! j) i"

text \<open>A word of the file, \<open>None\<close> at its end\<close>

definition read_u32 :: "byte list \<Rightarrow> nat \<Rightarrow> 32 word option" where
  "read_u32 f p = (let wordbuffer = read_at f p 4 in if length wordbuffer \<noteq> 4 then None else Some (buffer_u32 wordbuffer 0))"

definition parse_header :: "byte list \<Rightarrow> SEpocBitmapHeader" where
  "parse_header epocbmhdr = \<lparr>
     iBitmapSize = buffer_u32 epocbmhdr 0,
     iStructSize = buffer_u32 epocbmhdr 4,
     iWidthInPixels = buffer_u32 epocbmhdr 8,
     iHeightInPixels = buffer_u32 epocbmhdr 12,
     iWidthInTwips = buffer_u32 epocbmhdr 16,
     iHeightInTwips = buffer_u32 epocbmhdr 20,
     iBitsPerPixel = buffer_u32 epocbmhdr 24,
     iColor = buffer_u32 epocbmhdr 28,
     iPaletteEntries = buffer_u32 epocbmhdr 32,
     iCompression = buffer_u32 epocbmhdr 36\<rparr>"

definition DoLoadFile :: "bool \<Rightarrow> memory \<Rightarrow> addr \<Rightarrow> byte list \<Rightarrow> nat \<Rightarrow> (Errors + Errors \<times> EpocLoader) option" where
  "DoLoadFile be m a f p =
    (let epocbmhdr = read_at f p headerSize
     in if length epocbmhdr \<noteq> headerSize then Some (Inl SourceFile)
     else let header = parse_header epocbmhdr;
       sz = sint (iBitmapSize header) - sint (iStructSize header)
     in if sz < 0 then None
     else let bits = read_at f (p + headerSize) (nat sz)
     in if length bits \<noteq> nat sz then Some (Inl SourceFile)
     else if iCompression header \<noteq> ENoBitmapCompression then
       let byteWidth = ByteWidth (sint (iWidthInPixels header)) (sint (iBitsPerPixel header));
           expandedsize = byteWidth * sint (iHeightInPixels header);
           m = put_bytes m a bits
       in if expandedsize < 0 then None
       else let compression = iCompression header
       in case (if compression = EByteRLECompression then ExpandByteRLEData m (nat expandedsize) a (nat sz)
             else if compression = ETwelveBitRLECompression then ExpandTwelveBitRLEData be m (nat expandedsize) a (nat sz)
             else if compression = ESixteenBitRLECompression then ExpandSixteenBitRLEData be m (nat expandedsize) a (nat sz)
             else if compression = ETwentyFourBitRLECompression then ExpandTwentyFourBitRLEData m (nat expandedsize) a (nat sz)
             else Some (UnknownCompression, [])) of
           None \<Rightarrow> None
         | Some (ret, newbits) \<Rightarrow> Some (Inr (ret,
             \<lparr>iOriginalPbmHeader = header,
              iPbmHeader = header\<lparr>iCompression := ENoBitmapCompression, iBitmapSize := iBitmapSize header + word_of_int (expandedsize - sz)\<rparr>,
              iPbmBits = newbits @ replicate (nat expandedsize - length newbits) 0xff\<rparr>))
     else Some (Inr (NoError, \<lparr>iOriginalPbmHeader = header, iPbmHeader = header, iPbmBits = bits\<rparr>)))"

text \<open>\<open>LoadFile\<close>, from the identification of the file to the offset of the bitmap\<close>

definition LoadFile :: "bool \<Rightarrow> memory \<Rightarrow> addr \<Rightarrow> byte list \<Rightarrow> nat \<Rightarrow> (Errors + Errors \<times> EpocLoader) option" where
  "LoadFile be m a f aIndex =
    (if read_u32 f 0 \<noteq> Some KWriteOnceFileStoreUid \<or> read_u32 f 4 \<noteq> Some KMultiBitmapFileImageUid \<or>
        read_u32 f 8 \<noteq> Some 0 \<or> read_u32 f 12 \<noteq> Some KMultiBitmapFileImageChecksum then Some (Inl SourceFile)
     else case read_u32 f 16 of
       None \<Rightarrow> Some (Inl SourceFile)
     | Some head \<Rightarrow> (case read_u32 f (unat head) of
         None \<Rightarrow> Some (Inl SourceFile)
       | Some numsources \<Rightarrow>
           if int aIndex \<ge> sint numsources then Some (Inl OutOfRange)
           else case read_u32 f (unat head + 4 + aIndex * 4) of
             None \<Rightarrow> Some (Inl SourceFile)
           | Some offset \<Rightarrow> DoLoadFile be m a f (unat offset)))"

text \<open>The number of bitmaps and whether the file has the format of the ROM\<close>

definition EpocBitmapCount :: "byte list \<Rightarrow> Errors + 32 word \<times> bool" where
  "EpocBitmapCount f =
    (case read_u32 f 0 of
       None \<Rightarrow> Inl SourceFile
     | Some w \<Rightarrow>
         if w = KMultiBitmapRomImageUid then
           (case read_u32 f 4 of None \<Rightarrow> Inl SourceFile | Some count \<Rightarrow> Inr (count, True))
         else if w \<noteq> KWriteOnceFileStoreUid \<or> read_u32 f 4 \<noteq> Some KMultiBitmapFileImageUid \<or>
           read_u32 f 8 \<noteq> Some 0 \<or> read_u32 f 12 \<noteq> Some KMultiBitmapFileImageChecksum then Inl SourceFile
         else case read_u32 f 16 of
           None \<Rightarrow> Inl SourceFile
         | Some head \<Rightarrow> (case read_u32 f (unat head) of None \<Rightarrow> Inl SourceFile | Some count \<Rightarrow> Inr (count, False)))"

definition DupBitmap :: "EpocLoader \<Rightarrow> pbm option" where
  "DupBitmap this =
    (let n = sint (iBitmapSize (iPbmHeader this)) - int headerSize
     in if n < 0 \<or> nat n > length (iPbmBits this) then None else Some (iPbmHeader this, take (nat n) (iPbmBits this)))"

end
