(* ===== verification/Bmconv_Expand.thy ===== *)
theory Bmconv_Expand
  imports Bmconv_Rle
begin

text \<open>
  What the compressors of \<open>bmconv\<close> write is what its expanders read: both follow one format of packets, with
  pixels of one, two or three bytes, and another one for pixels of twelve bits.
\<close>

section \<open>The format\<close>

text \<open>
  \<open>rle u enc out\<close>: the packets \<open>enc\<close> stand for the pixels \<open>out\<close> of \<open>u\<close> bytes each.  A packet is a count
  with one pixel that is repeated or with pixels that are copied.
\<close>

inductive rle :: "nat \<Rightarrow> byte list \<Rightarrow> byte list \<Rightarrow> bool" for u where
  rle_Nil: "rle u [] []"
| rle_run: "rle u enc out \<Longrightarrow> length px = u \<Longrightarrow> n < 128 \<Longrightarrow> rle u (of_nat n # px @ enc) (concat (replicate (n + 1) px) @ out)"
| rle_data: "rle u enc out \<Longrightarrow> length px = n * u \<Longrightarrow> 0 < n \<Longrightarrow> n \<le> 128 \<Longrightarrow> rle u (- of_nat n # px @ enc) (px @ out)"

lemmas rle_intros = rle_Nil rle_run rle_data

lemma rle_append: "rle u enc out \<Longrightarrow> rle u enc' out' \<Longrightarrow> rle u (enc @ enc') (out @ out')"
proof (induction rule: rle.induct)
  case (rle_run enc out px n)
  then show ?case using rle.rle_run [of u "enc @ enc'" "out @ out'" px n] by simp
qed (auto intro: rle_intros)

lemma rle_run_packet: "length px = u \<Longrightarrow> 0 < n \<Longrightarrow> n \<le> 128 \<Longrightarrow> rle u (of_nat (n - 1) # px) (concat (replicate n px))"
  using rle_run [OF rle_Nil, of px u "n - 1"] by simp

lemma rle_data_packet: "length px = n * u \<Longrightarrow> 0 < n \<Longrightarrow> n \<le> 128 \<Longrightarrow> rle u (- of_nat n # px) px"
  using rle_data [OF rle_Nil, of px n u] by simp

lemma sint_count:
  assumes "n \<le> 128"
  shows "n < 128 \<Longrightarrow> sint (of_nat n :: byte) = int n" "sint (- of_nat n :: byte) = - int n"
proof -
  show "n < 128 \<Longrightarrow> sint (of_nat n :: byte) = int n" by (simp add: signed_of_nat signed_take_bit_int_eq_self)
  have "(- of_nat n :: byte) = word_of_int (- int n)" by simp
  then show "sint (- of_nat n :: byte) = - int n"
    using assms by (simp only: signed_of_int) (simp add: signed_take_bit_int_eq_self)
qed

lemma bytes_at_packet:
  assumes "bytes_at m p (length (b # px @ enc)) = b # px @ enc"
  shows "m p = b" "bytes_at m (p + 1) (length px) = px" "bytes_at m (p + 1 + length px) (length enc) = enc"
proof -
  have "length (b # px @ enc) = 1 + (length px + length enc)" by simp
  with assms have e: "bytes_at m p 1 @ bytes_at m (p + 1) (length px) @ bytes_at m (p + 1 + length px) (length enc) = [b] @ px @ enc"
    by (simp only: bytes_at_add) simp
  then show "m p = b" by (simp add: bytes_at_def)
  from e show "bytes_at m (p + 1) (length px) = px" "bytes_at m (p + 1 + length px) (length enc) = enc"
    by (simp_all add: bytes_at_def [of m p "Suc 0"])
qed

section \<open>Expanders\<close>

text \<open>
  The contract of a loop that expands packets for pixels of \<open>u\<close> bytes: what it does with one packet whose
  pixels fit the destination, and where it stops.
\<close>

locale rle_expander =
  fixes u :: nat and loop :: "memory \<Rightarrow> addr \<Rightarrow> nat \<Rightarrow> addr \<Rightarrow> byte list \<Rightarrow> (addr \<times> byte list) option"
  assumes u: "0 < u"
    and stop: "\<not> p < limit \<Longrightarrow> loop m limit room p d = Some (p, d)"
    and run: "p < limit \<Longrightarrow> length d < room \<Longrightarrow> sint (m p) = int n \<Longrightarrow> length d + (n + 1) * u \<le> room \<Longrightarrow>
      loop m limit room p d = loop m limit room (p + 1 + u) (d @ concat (replicate (n + 1) (bytes_at m (p + 1) u)))"
    and data: "p < limit \<Longrightarrow> length d < room \<Longrightarrow> sint (m p) = - int n \<Longrightarrow> 0 < n \<Longrightarrow> length d + n * u \<le> room \<Longrightarrow>
      loop m limit room p d = loop m limit room (p + 1 + n * u) (d @ bytes_at m (p + 1) (n * u))"
begin

lemma expands:
  assumes "rle u enc out" "bytes_at m p (length enc) = enc" "limit = p + length enc" "room = length d + length out"
  shows "loop m limit room p d = Some (limit, d @ out)"
  using assms
proof (induction arbitrary: p d)
  case rle_Nil
  then show ?case by (simp add: stop)
next
  case (rle_run enc out px n)
  note b = bytes_at_packet [OF rle_run.prems(1), unfolded rle_run.hyps(2)]
  have "sint (m p) = int n" using sint_count(1) [of n] rle_run.hyps(3) by (simp add: b(1))
  moreover have "length d + (n + 1) * u \<le> room" "length d < room"
    using rle_run.prems(3) rle_run.hyps(2) u by (simp_all add: length_concat sum_list_replicate)
  ultimately have "loop m limit room p d = loop m limit room (p + 1 + u) (d @ concat (replicate (n + 1) px))"
    using run [of p limit d room m n, unfolded b(2)] rle_run.prems(2) by simp
  also have "\<dots> = Some (limit, (d @ concat (replicate (n + 1) px)) @ out)"
    using rle_run.IH [OF b(3)] rle_run.prems(2,3) rle_run.hyps(2) by simp
  finally show ?case by simp
next
  case (rle_data enc out px n)
  note b = bytes_at_packet [OF rle_data.prems(1), unfolded rle_data.hyps(2)]
  have "sint (m p) = - int n" using sint_count(2) [of n] rle_data.hyps(4) by (simp add: b(1))
  moreover have "length d + n * u \<le> room" "length d < room" using rle_data.prems(3) rle_data.hyps(2,3) u by simp_all
  ultimately have "loop m limit room p d = loop m limit room (p + 1 + n * u) (d @ px)"
    using data [of p limit d room m n, unfolded b(2)] rle_data.prems(2) rle_data.hyps(3) by simp
  also have "\<dots> = Some (limit, (d @ px) @ out)"
    using rle_data.IH [OF b(3)] rle_data.prems(2,3) rle_data.hyps(2) by simp
  finally show ?case by simp
qed

end

interpretation bytes: rle_expander 1 expand_byte_loop
proof (unfold_locales, goal_cases)
  case (3 p limit d room m n)
  then show ?case by (subst expand_byte_loop.simps) (simp add: Let_def bytes_at_def)
next
  case (4 p limit d room m n)
  then show ?case by (subst expand_byte_loop.simps) (simp add: Let_def)
qed (simp_all add: expand_byte_loop.simps)

interpretation shorts: rle_expander 2 "expand_sixteen_loop be" for be
proof (unfold_locales, goal_cases)
  case (3 p limit d room m n)
  then show ?case by (subst expand_sixteen_loop.simps) (simp add: Let_def get_short_def mult.commute)
next
  case (4 p limit d room m n)
  then show ?case by (subst expand_sixteen_loop.simps) (simp add: Let_def)
qed (simp_all add: expand_sixteen_loop.simps)

interpretation colours: rle_expander 3 expand_colour_loop
proof (unfold_locales, goal_cases)
  case (3 p limit d room m n)
  have "bytes_at m (p + 1) 3 = [m (p + 1), m (p + 1 + 1), m (p + 1 + 2)]" by (simp add: bytes_at_def upt_rec numeral_3_eq_3)
  then show ?case using 3 by (subst expand_colour_loop.simps) (simp add: Let_def mult.commute)
next
  case (4 p limit d room m n)
  then show ?case by (subst expand_colour_loop.simps) (simp add: Let_def)
qed (simp_all add: expand_colour_loop.simps)

section \<open>Writers of packets\<close>

text \<open>
  The contract of the functions that write packets: \<open>pixels\<close> are the bytes of pixels in memory in the order of
  the format.
\<close>

locale rle_writer =
  fixes u :: nat and pixels :: "memory \<Rightarrow> addr \<Rightarrow> nat \<Rightarrow> byte list"
    and write_data :: "memory \<Rightarrow> byte list \<Rightarrow> addr \<Rightarrow> nat \<Rightarrow> Errors \<times> byte list"
    and write_values :: "byte list \<Rightarrow> 'v \<Rightarrow> nat \<Rightarrow> Errors \<times> byte list" and val :: "'v \<Rightarrow> byte list"
  assumes pixels_length: "length (pixels m p n) = n * u" and val_length: "length (val v) = u"
    and pixels_add: "pixels m p (k + n) = pixels m p k @ pixels m (p + k * u) n"
    and data_more: "n > 128 \<Longrightarrow> write_data m d p n = write_data m (d @ - of_nat 128 # pixels m p 128) (p + 128 * u) (n - 128)"
    and data_last: "0 < n \<Longrightarrow> n \<le> 128 \<Longrightarrow> write_data m d p n = (NoError, d @ - of_nat n # pixels m p n)"
    and values_more: "n > 128 \<Longrightarrow> write_values d v n = write_values (d @ of_nat (128 - 1) # val v) v (n - 128)"
    and values_last: "0 < n \<Longrightarrow> n \<le> 128 \<Longrightarrow> write_values d v n = (NoError, d @ of_nat (n - 1) # val v)"
begin

text \<open>The number of packets for \<open>n\<close> pixels\<close>

lemma packets_more:
  assumes "n > 128"
  shows "(n + 127) div 128 = Suc ((n - 128 + 127) div 128)"
proof -
  have "n + 127 = 128 + (n - 128 + 127)" using assms by simp
  then show ?thesis by (simp only: div_add_self1)
qed

lemma packets_last: "0 < n \<Longrightarrow> n \<le> 128 \<Longrightarrow> (n + 127) div 128 = 1" for n :: nat
  by (rule div_nat_eqI) simp_all

lemma write_data_rle:
  "0 < n \<Longrightarrow> \<exists>enc. write_data m d p n = (NoError, d @ enc) \<and> rle u enc (pixels m p n) \<and> length enc = n * u + (n + 127) div 128"
proof (induction n arbitrary: d p rule: less_induct)
  case (less n)
  show ?case
  proof (cases "n > 128")
    case True
    let ?e = "- of_nat 128 # pixels m p 128"
    have n: "n = 128 + (n - 128)" using True by simp
    obtain enc where e: "write_data m (d @ ?e) (p + 128 * u) (n - 128) = (NoError, (d @ ?e) @ enc)"
      "rle u enc (pixels m (p + 128 * u) (n - 128))" "length enc = (n - 128) * u + (n - 128 + 127) div 128"
      using less.IH [of "n - 128" "d @ ?e" "p + 128 * u"] True by auto
    have "rle u (?e @ enc) (pixels m p 128 @ pixels m (p + 128 * u) (n - 128))"
      using rle_append [OF rle_data_packet e(2), of "pixels m p 128" 128] by (simp add: pixels_length)
    moreover have "pixels m p n = pixels m p 128 @ pixels m (p + 128 * u) (n - 128)" using pixels_add [of m p 128 "n - 128"] n by simp
    moreover have "n * u = 128 * u + (n - 128) * u" using n by (metis add_mult_distrib)
    ultimately show ?thesis
      using e(1,3) data_more [OF True, of m d p] packets_more [OF True] by (intro exI [of _ "?e @ enc"]) (simp add: pixels_length)
  next
    case False
    then show ?thesis
      using data_last [of n m d p] less.prems rle_data_packet [of "pixels m p n" n u] packets_last [of n]
      by (intro exI [of _ "- of_nat n # pixels m p n"]) (simp add: pixels_length)
  qed
qed

lemma write_values_rle:
  "0 < n \<Longrightarrow> \<exists>enc. write_values d v n = (NoError, d @ enc) \<and> rle u enc (concat (replicate n (val v))) \<and> length enc = (u + 1) * ((n + 127) div 128)"
proof (induction n arbitrary: d rule: less_induct)
  case (less n)
  show ?case
  proof (cases "n > 128")
    case True
    let ?e = "of_nat (128 - 1) # val v"
    have n: "n = 128 + (n - 128)" using True by simp
    obtain enc where e: "write_values (d @ ?e) v (n - 128) = (NoError, (d @ ?e) @ enc)"
      "rle u enc (concat (replicate (n - 128) (val v)))" "length enc = (u + 1) * ((n - 128 + 127) div 128)"
      using less.IH [of "n - 128" "d @ ?e"] True by auto
    have "rle u (?e @ enc) (concat (replicate 128 (val v)) @ concat (replicate (n - 128) (val v)))"
      using rle_append [OF rle_run_packet e(2), of "val v" 128] by (simp add: val_length)
    moreover have "concat (replicate n (val v)) = concat (replicate 128 (val v)) @ concat (replicate (n - 128) (val v))"
      using n by (metis concat_append replicate_add)
    ultimately show ?thesis
      using e(1,3) values_more [OF True, of d v] packets_more [OF True] by (intro exI [of _ "?e @ enc"]) (simp add: val_length)
  next
    case False
    then show ?thesis
      using values_last [of n d v] less.prems rle_run_packet [of "val v" u n] packets_last [of n]
      by (intro exI [of _ "of_nat (n - 1) # val v"]) (simp add: val_length)
  qed
qed

text \<open>Pixels that were written before and the next ones\<close>

lemma extend_data:
  assumes "rle u enc (pixels m a k)" "p = a + k * u" "0 < n" "write_data m (d @ enc) p n = (ret, d')"
  shows "ret = NoError \<and> (\<exists>enc'. d' = d @ enc' \<and> rle u enc' (pixels m a (k + n)) \<and> length enc' = length enc + n * u + (n + 127) div 128)"
proof -
  obtain e where e: "write_data m (d @ enc) p n = (NoError, (d @ enc) @ e)" "rle u e (pixels m p n)" "length e = n * u + (n + 127) div 128"
    using write_data_rle [OF assms(3)] by blast
  have "rle u (enc @ e) (pixels m a (k + n))" using rle_append [OF assms(1) e(2)] by (simp add: pixels_add assms(2))
  then show ?thesis using e(1,3) assms(4) by auto
qed

lemma extend_values:
  assumes "rle u enc (pixels m a k)" "p = a + k * u" "0 < n" "write_values (d @ enc) v n = (ret, d')"
    and "pixels m p n = concat (replicate n (val v))"
  shows "ret = NoError \<and> (\<exists>enc'. d' = d @ enc' \<and> rle u enc' (pixels m a (k + n)) \<and> length enc' = length enc + (u + 1) * ((n + 127) div 128))"
proof -
  obtain e where e: "write_values (d @ enc) v n = (NoError, (d @ enc) @ e)" "rle u e (concat (replicate n (val v)))"
      "length e = (u + 1) * ((n + 127) div 128)"
    using write_values_rle [OF assms(3)] by blast
  have "rle u (enc @ e) (pixels m a (k + n))" using rle_append [OF assms(1) e(2)] by (simp add: pixels_add assms(2,5) [symmetric])
  then show ?thesis using e(1,3) assms(4) by auto
qed

end

interpretation byte_writer: rle_writer 1 bytes_at WriteCompressedByteData WriteCompressedByteValues "\<lambda>v. [v]"
  by unfold_locales (simp_all add: bytes_at_add WriteCompressedByteData.simps WriteCompressedByteValues.simps)

lemma length_short_bytes [simp]: "length (short_bytes be m p n) = n * 2"
  by (simp add: short_bytes_def length_concat comp_def sum_list_triv)

lemma short_bytes_add: "short_bytes be m p (k + n) = short_bytes be m p k @ short_bytes be m (p + k * 2) n"
proof -
  have "map (\<lambda>i. le_bytes 2 (get_short be m (p + 2 * i))) [k..<k + n] = map (\<lambda>i. le_bytes 2 (get_short be m (p + k * 2 + 2 * i))) [0..<n]"
    by (rule nth_equalityI) (auto simp: algebra_simps)
  then show ?thesis by (simp add: short_bytes_def upt_add_eq_append [of 0 k n, simplified])
qed

lemma le_bytes_2: "le_bytes 2 v = [ucast v, ucast (drop_bit 8 v)]"
  by (simp add: le_bytes_def upt_rec numeral_2_eq_2)

interpretation short_writer: rle_writer 2 "short_bytes be" "WriteCompressedSixteenBitData be" WriteCompressedSixteenBitValues "le_bytes 2" for be
  by unfold_locales
    (simp_all add: short_bytes_add le_bytes_2 WriteCompressedSixteenBitData.simps WriteCompressedSixteenBitValues.simps Let_def)

interpretation colour_writer: rle_writer 3 "\<lambda>m p n. bytes_at m p (n * 3)" WriteCompressedTwentyFourBitData
    "\<lambda>d (c1, c2, c3). WriteCompressedTwentyFourBitValues d c1 c2 c3" "\<lambda>(c1, c2, c3). [c1, c2, c3]"
  by unfold_locales
    (auto simp add: add_mult_distrib bytes_at_add WriteCompressedTwentyFourBitData.simps WriteCompressedTwentyFourBitValues.simps split: prod.split)

end
