(* ===== verification/Bmconv_Compress.thy ===== *)
theory Bmconv_Compress
  imports Bmconv_Expand
begin

text \<open>
  The compressors of \<open>bmconv\<close> write packets that stand for the pixels of the bitmap, and the one for bytes
  stays inside of a buffer of the size of the bitmap.
\<close>

section \<open>Bytes\<close>

lemma concat_replicate_single: "concat (replicate n [x]) = replicate n x"
  by (induction n) simp_all

text \<open>One pass of the loop of \<open>CompressByteData\<close>\<close>

lemma byte_segment:
  assumes "p < lim" "rle 1 enc (bytes_at m a (p - a))" "a \<le> p" "run \<longleftrightarrow> m (p + 1) = m p \<and> m (p + 2) = m p"
    and q: "q = (if run then byte_run m lim (m p) (p + 3) else byte_data m lim (m p) p)"
    and w: "(if run then WriteCompressedByteValues (d @ enc) (m p) (q - p) else WriteCompressedByteData m (d @ enc) p (q - p)) = (ret, d')"
  shows "ret = NoError \<and> p < q \<and> q \<le> lim + 2 \<and> (\<exists>enc'. d' = d @ enc' \<and> rle 1 enc' (bytes_at m a (q - a)) \<and>
    (if run then 3 \<le> q - p \<and> length enc' = length enc + 2 * ((q - p + 127) div 128)
     else q \<le> lim \<and> (lim \<le> q \<or> m (q + 1) = m q \<and> m (q + 2) = m q) \<and> length enc' = length enc + (q - p) + (q - p + 127) div 128))"
proof (cases run)
  case True
  have q': "p + 3 \<le> q" "q \<le> lim + 2" using q True assms(1) byte_run_le(1,2) [where p = "p + 3" and m = m and limit = lim and v = "m p"] by auto
  have v: "m i = m p" if "p \<le> i" "i < q" for i
  proof (cases "p + 3 \<le> i")
    case False
    then have "i = p \<or> i = p + 1 \<or> i = p + 2" using that by auto
    then show ?thesis using True assms(4) by auto
  qed (use byte_run_le(3) [where p = "p + 3" and i = i and m = m and limit = lim and v = "m p"] that q True in simp)
  have c: "bytes_at m p (q - p) = concat (replicate (q - p) [m p])"
    unfolding concat_replicate_single
  proof (rule nth_equalityI)
    fix i assume "i < length (bytes_at m p (q - p))"
    then show "bytes_at m p (q - p) ! i = replicate (q - p) (m p) ! i" using v [of "p + i"] by simp
  qed simp
  have w': "WriteCompressedByteValues (d @ enc) (m p) (q - p) = (ret, d')" using w True by simp
  have "p = a + (p - a) * 1" "0 < q - p" using assms(3) q' by simp_all
  from byte_writer.extend_values [OF assms(2) this w' c] have E: "ret = NoError" "\<exists>enc'. d' = d @ enc' \<and>
      rle 1 enc' (bytes_at m a (p - a + (q - p))) \<and> length enc' = length enc + 2 * ((q - p + 127) div 128)" by (simp_all add: mult_2)
  have "p - a + (q - p) = q - a" using assms(3) q' by simp
  note E = E [unfolded this]
  have "3 \<le> q - p" using q' by simp
  then show ?thesis using E q' True by auto
next
  case False
  then have "m (p + 1) \<noteq> m p \<or> m (p + 2) \<noteq> m p" using assms(4) by simp
  note l = byte_data_less [OF assms(1) this]
  have w': "WriteCompressedByteData m (d @ enc) p (q - p) = (ret, d')" using w False by simp
  have "p = a + (p - a) * 1" "0 < q - p" using assms(3) l q False by simp_all
  from byte_writer.extend_data [OF assms(2) this w'] have E: "ret = NoError" "\<exists>enc'. d' = d @ enc' \<and>
      rle 1 enc' (bytes_at m a (p - a + (q - p))) \<and> length enc' = length enc + (q - p) + (q - p + 127) div 128" by simp_all
  have e: "p - a + (q - p) = q - a" using assms(3) l q False by simp
  have "lim \<le> q \<or> m (q + 1) = m q \<and> m (q + 2) = m q" using byte_data_stops [of q m lim p] q False by simp
  then show ?thesis using E [unfolded e] l q False by simp
qed

text \<open>The bytes written for those read so far: a run makes up for the count of the data before it.\<close>

definition byte_excess :: "memory \<Rightarrow> addr \<Rightarrow> addr \<Rightarrow> addr \<Rightarrow> nat \<Rightarrow> bool" where
  "byte_excess m a lim p n \<longleftrightarrow> 128 * n \<le> 129 * (p - a) \<or>
    128 * n \<le> 129 * (p - a) + 127 \<and> p \<le> lim \<and> (lim \<le> p \<or> m (p + 1) = m p \<and> m (p + 2) = m p)"

lemma byte_loop_rle:
  assumes "byte_loop m lim cutoff p (d @ enc) = (ret, p', d')" "rle 1 enc (bytes_at m a (p - a))" "a \<le> p" "byte_excess m a lim p (length enc)"
  shows "ret \<in> {NoError, NoCompression} \<and> p \<le> p' \<and> (p' = p \<or> p < lim \<and> p' \<le> lim + 2) \<and> (ret = NoError \<longrightarrow> lim \<le> p') \<and>
    (\<exists>enc'. d' = d @ enc' \<and> rle 1 enc' (bytes_at m a (p' - a)) \<and> byte_excess m a lim p' (length enc'))"
  using assms
proof (induction "lim - p" arbitrary: p enc rule: less_induct)
  case less
  show ?case
  proof (cases "p < lim")
    case True
    define run where "run \<longleftrightarrow> m (p + 1) = m p \<and> m (p + 2) = m p"
    define q where "q = (if run then byte_run m lim (m p) (p + 3) else byte_data m lim (m p) p)"
    obtain ret1 d1 where w: "(if run then WriteCompressedByteValues (d @ enc) (m p) (q - p) else WriteCompressedByteData m (d @ enc) p (q - p)) = (ret1, d1)"
      by (metis surj_pair)
    have S: "ret1 = NoError" "p < q" "q \<le> lim + 2" using byte_segment [OF True less.prems(2,3) run_def q_def w] by simp_all
    obtain e where e: "d1 = d @ e" "rle 1 e (bytes_at m a (q - a))"
      and l: "if run then 3 \<le> q - p \<and> length e = length enc + 2 * ((q - p + 127) div 128)
        else q \<le> lim \<and> (lim \<le> q \<or> m (q + 1) = m q \<and> m (q + 2) = m q) \<and> length e = length enc + (q - p) + (q - p + 127) div 128"
      using byte_segment [OF True less.prems(2,3) run_def q_def w] by blast
    have q: "q - a = p - a + (q - p)" using less.prems(3) S(2) by simp
    have x: "byte_excess m a lim q (length e)"
    proof (cases run)
      case True
      then have "128 * length e \<le> 129 * (q - a)" using l less.prems(4) unfolding byte_excess_def q by (simp split: if_splits) linarith
      then show ?thesis by (simp add: byte_excess_def)
    next
      case False
      then have "128 * length enc \<le> 129 * (p - a)" using less.prems(4) \<open>p < lim\<close> by (auto simp: byte_excess_def run_def)
      then have "128 * length e \<le> 129 * (q - a) + 127" using l False unfolding q by (simp split: if_splits)
      then show ?thesis using l False by (auto simp: byte_excess_def)
    qed
    have "byte_loop m lim cutoff p (d @ enc) =
        (case if run then WriteCompressedByteValues (d @ enc) (m p) (q - p) else WriteCompressedByteData m (d @ enc) p (q - p) of
          (ret, aDest) \<Rightarrow> if ret \<noteq> NoError then (ret, q, aDest) else if length aDest > cutoff then (NoCompression, q, aDest)
            else byte_loop m lim cutoff q aDest)"
      by (subst byte_loop.simps) (simp only: Let_def True run_def q_def not_True_eq_False if_False)
    then have step: "byte_loop m lim cutoff p (d @ enc) = (if length d1 > cutoff then (NoCompression, q, d1) else byte_loop m lim cutoff q d1)"
      by (simp only: w S(1)) simp
    show ?thesis
    proof (cases "length d1 > cutoff")
      case True
      then have "ret = NoCompression" "p' = q" "d' = d1" using step less.prems(1) by simp_all
      then show ?thesis using e x S \<open>p < lim\<close> by auto
    next
      case False
      then have "byte_loop m lim cutoff q (d @ e) = (ret, p', d')" using step less.prems(1) e(1) by simp
      moreover have "lim - q < lim - p" "a \<le> q" using S True less.prems(3) by simp_all
      ultimately show ?thesis using less.hyps [of q e] e(2) x S by auto
    qed
  next
    case False
    then have "byte_loop m lim cutoff p (d @ enc) = (NoError, p, d @ enc)" by (simp add: byte_loop.simps)
    then show ?thesis using less.prems False by auto
  qed
qed

lemma CompressByteData_rle:
  assumes "CompressByteData m d a n = (ret, d')"
  shows "ret \<in> {NoError, NoCompression} \<and> length d' \<le> length d + n \<and> (ret = NoError \<longrightarrow> (\<exists>enc. d' = d @ enc \<and> rle 1 enc (bytes_at m a n)))"
proof -
  define M where "M = (if drop_bit 6 n > 4 then drop_bit 6 n else 4)"
  define cutoff where "cutoff = length d + drop_bit 1 n + drop_bit 2 n"
  obtain r p d1 where L: "byte_loop m (a + n - M) cutoff a d = (r, p, d1)" by (metis prod_cases3)
  have run: "CompressByteData m d a n = (if r \<noteq> NoError then (r, d1) else if a + n - p > 0 then
      if length d1 + (a + n - p) > cutoff then (NoCompression, d1) else WriteCompressedByteData m d1 p (a + n - p) else (NoError, d1))"
    using L by (simp add: CompressByteData_def Let_def M_def cutoff_def)
  have "byte_excess m a (a + n - M) a 0" by (simp add: byte_excess_def)
  note B = byte_loop_rle [of m "a + n - M" cutoff a d "[]" r p d1 a, simplified, OF L rle_Nil this]
  obtain e where e: "d1 = d @ e" "rle 1 e (bytes_at m a (p - a))" "byte_excess m a (a + n - M) p (length e)" using B by auto
  have M: "4 \<le> M" "n \<le> 64 * M + 63" "64 * M \<le> n \<or> M = 4" by (auto simp: M_def drop_bit_eq_div)
  have "p = a \<or> a < a + n - M \<and> p \<le> a + n - M + 2" "a \<le> p" using B by auto
  then have p: "a \<le> p" "p \<le> a \<or> p + M \<le> a + n + 2" by auto
  have fit: "length e \<le> n"
  proof (cases "p \<le> a")
    case True
    then show ?thesis using e(3) p(1) by (auto simp: byte_excess_def)
  next
    case False
    then have "p - a + M \<le> n + 2" using p by simp
    moreover have "128 * length e \<le> 129 * (p - a) \<or> 128 * length e \<le> 129 * (p - a) + 127 \<and> p - a + M \<le> n"
      using e(3) False unfolding byte_excess_def by auto
    ultimately show ?thesis using M by linarith
  qed
  show ?thesis
  proof (cases "r = NoError \<and> a + n - p > 0 \<and> \<not> length d1 + (a + n - p) > cutoff")
    case True
    have c: "cutoff = length d + n div 2 + n div 4" by (simp add: cutoff_def drop_bit_eq_div)
    have w: "WriteCompressedByteData m (d @ e) p (a + n - p) = (ret, d')"
      using run True assms e(1) by (simp only: simp_thms if_True if_False)
    obtain e' where e': "ret = NoError" "d' = d @ e'" "rle 1 e' (bytes_at m a (p - a + (a + n - p)))"
      "length e' = length e + (a + n - p) + (a + n - p + 127) div 128"
      using byte_writer.extend_data [OF e(2) _ _ w] p True by auto
    have "p - a + (a + n - p) = n" using p M by auto
    moreover have "length e' \<le> n" using e'(4) True unfolding c e(1) by simp linarith
    ultimately show ?thesis using e' by simp
  next
    case False
    then have "d' = d1" "ret \<in> {NoError, NoCompression}" "ret = NoError \<Longrightarrow> a + n \<le> p"
      using run assms B by (auto split: if_splits)
    moreover have "p - a = n" if "a + n \<le> p" using that p M by auto
    ultimately show ?thesis using e fit by auto
  qed
qed

section \<open>Pixels of several bytes\<close>

text \<open>
  The contract of the loop of a compressor: as long as two pixels are left, a pass writes the next pixels as data or,
  when they are equal, as a value.
\<close>

locale rle_compressor = rle_writer u pixels write_data write_values val
  for u :: nat and pixels write_data and write_values :: "byte list \<Rightarrow> 'v \<Rightarrow> nat \<Rightarrow> Errors \<times> byte list" and val +
  fixes loop :: "memory \<Rightarrow> addr \<Rightarrow> nat \<Rightarrow> addr \<Rightarrow> byte list \<Rightarrow> Errors \<times> addr \<times> byte list"
  assumes stop: "\<not> k + 1 < K \<Longrightarrow> loop m (a + K * u) limit (a + k * u) d = (NoError, a + k * u, d)"
    and step: "k + 1 < K \<Longrightarrow> \<exists>n r d'. 0 < n \<and> k + n \<le> K \<and>
      (write_data m d (a + k * u) n = (r, d') \<or> (\<exists>v. write_values d v n = (r, d') \<and> pixels m (a + k * u) n = concat (replicate n (val v)))) \<and>
      loop m (a + K * u) limit (a + k * u) d = (if r \<noteq> NoError then (r, a + (k + n) * u, d') else
        if length d' > limit then (NoCompression, a + (k + n) * u, d') else loop m (a + K * u) limit (a + (k + n) * u) d')"
begin

lemma loop_rle:
  assumes "loop m (a + K * u) limit (a + k * u) (d @ enc) = (ret, p, d')" "rle u enc (pixels m a k)" "k \<le> K"
  shows "ret \<in> {NoError, NoCompression} \<and> (\<exists>k'. k' \<le> K \<and> p = a + k' * u \<and> (ret = NoError \<longrightarrow> K \<le> k' + 1) \<and>
    (\<exists>enc'. d' = d @ enc' \<and> rle u enc' (pixels m a k')))"
  using assms
proof (induction "K - k" arbitrary: k enc rule: less_induct)
  case less
  show ?case
  proof (cases "k + 1 < K")
    case True
    obtain n r d1 where n: "0 < n" "k + n \<le> K"
      and w: "write_data m (d @ enc) (a + k * u) n = (r, d1) \<or>
        (\<exists>v. write_values (d @ enc) v n = (r, d1) \<and> pixels m (a + k * u) n = concat (replicate n (val v)))"
      and l: "loop m (a + K * u) limit (a + k * u) (d @ enc) = (if r \<noteq> NoError then (r, a + (k + n) * u, d1) else
        if length d1 > limit then (NoCompression, a + (k + n) * u, d1) else loop m (a + K * u) limit (a + (k + n) * u) d1)"
      using step [OF True] by blast
    have "r = NoError \<and> (\<exists>e. d1 = d @ e \<and> rle u e (pixels m a (k + n)))"
      using w extend_data [OF less.prems(2) refl n(1)] extend_values [OF less.prems(2) refl n(1)] by blast
    then obtain e where e: "r = NoError" "d1 = d @ e" "rle u e (pixels m a (k + n))" by blast
    show ?thesis
    proof (cases "length d1 > limit")
      case True
      then have "ret = NoCompression" "p = a + (k + n) * u" "d' = d1" using l e(1) less.prems(1) by simp_all
      then show ?thesis using e n by blast
    next
      case False
      then have "loop m (a + K * u) limit (a + (k + n) * u) (d @ e) = (ret, p, d')" using l e(1,2) less.prems(1) by simp
      then show ?thesis using less.hyps [OF _ _ e(3) n(2)] n by simp
    qed
  next
    case False
    from stop [OF False] have "ret = NoError" "p = a + k * u" "d' = d @ enc" using less.prems(1) by simp_all
    then show ?thesis using less.prems(2,3) False by auto
  qed
qed

text \<open>The last pixel is written after the loop.\<close>

lemma loop_finish:
  assumes "loop m (a + K * u) limit a d = (NoError, p, d1)" "0 < u"
    and "(if p < a + K * u then write_data m d1 p ((a + K * u - p) div u) else (NoError, d1)) = (ret, d')"
  shows "ret = NoError \<and> (\<exists>enc. d' = d @ enc \<and> rle u enc (pixels m a K))"
proof -
  have z: "pixels m a 0 = []" using pixels_length [of m a 0] by simp
  obtain k e where k: "k \<le> K" "p = a + k * u" "d1 = d @ e" "rle u e (pixels m a k)"
    using loop_rle [of m a K limit 0 d "[]" NoError p d1] assms(1) z rle_Nil by auto
  show ?thesis
  proof (cases "k < K")
    case True
    have n: "(a + K * u - p) div u = K - k" using True assms(2) k(2) by (simp flip: diff_mult_distrib)
    have "write_data m (d @ e) (a + k * u) (K - k) = (ret, d')" using assms(2,3) True n k(2,3) by simp
    from extend_data [OF k(4) refl _ this] show ?thesis using True by auto
  next
    case False
    then show ?thesis using assms(3) k by auto
  qed
qed

end

subsection \<open>Sixteen bits\<close>

lemma short_run_spec:
  "0 < j \<Longrightarrow> \<exists>k. 0 < k \<and> k \<le> j \<and> short_run be m (p + j * 2) v p = p + k * 2 \<and> (\<forall>i. 0 < i \<longrightarrow> i < k \<longrightarrow> get_short be m (p + 2 * i) = v)"
proof (induction j arbitrary: p)
  case (Suc j)
  show ?case
  proof (cases "0 < j \<and> get_short be m (p + 2) = v")
    case True
    then obtain k where k: "0 < k" "k \<le> j" "short_run be m (p + 2 + j * 2) v (p + 2) = p + 2 + k * 2"
      "\<forall>i. 0 < i \<longrightarrow> i < k \<longrightarrow> get_short be m (p + 2 + 2 * i) = v" using Suc.IH [of "p + 2"] by blast
    have "short_run be m (p + Suc j * 2) v p = p + Suc k * 2" using k(3) True by (subst short_run.simps) (simp add: Let_def add.assoc)
    moreover have "get_short be m (p + 2 * i) = v" if "0 < i" "i < Suc k" for i
    proof (cases "i = 1")
      case False
      then have e: "p + 2 + 2 * (i - 1) = p + 2 * i" using that by simp
      have "get_short be m (p + 2 + 2 * (i - 1)) = v" using k(4) [rule_format, of "i - 1"] that False by simp
      then show ?thesis unfolding e .
    qed (use True in simp)
    ultimately show ?thesis using k by (intro exI [of _ "Suc k"]) simp
  next
    case False
    then have "short_run be m (p + Suc j * 2) v p = p + 1 * 2" by (subst short_run.simps) (auto simp: Let_def)
    then show ?thesis by (intro exI [of _ 1]) simp
  qed
qed simp

lemma sixteen_data_spec: "\<exists>k\<le>j. sixteen_data be m (p + j * 2) v p = p + k * 2"
proof (induction j arbitrary: p v)
  case 0
  then show ?case by (simp add: sixteen_data.simps)
next
  case (Suc j)
  show ?case
  proof (cases "get_short be m (p + 2) \<noteq> v")
    case True
    obtain k where "k \<le> j" "sixteen_data be m (p + 2 + j * 2) (get_short be m (p + 2)) (p + 2) = p + 2 + k * 2" using Suc.IH by blast
    then show ?thesis using True by (intro exI [of _ "Suc k"], subst sixteen_data.simps) (simp add: add.assoc)
  next
    case False
    then show ?thesis by (intro exI [of _ 0], subst sixteen_data.simps) simp
  qed
qed

interpretation shorts16: rle_compressor 2 "short_bytes be" "WriteCompressedSixteenBitData be" WriteCompressedSixteenBitValues "le_bytes 2" "sixteen_loop be" for be
proof (unfold_locales, goal_cases)
  case (1 k K m a limit d)
  then have "\<not> a + k * 2 < a + K * 2 - 2" by simp
  then show ?case by (subst sixteen_loop.simps) (simp only: not_False_eq_True if_True)
next
  case (2 k K m d a limit)
  let ?p = "a + k * 2" and ?lim = "a + K * 2"
  have lim: "?p < ?lim - 2" "?lim = ?p + 2 + (K - k - 1) * 2" "?lim - 2 = ?p + 2 + (K - k - 2) * 2" using 2 by auto
  show ?case
  proof (cases "get_short be m (?p + 2) = get_short be m ?p")
    case True
    let ?v = "get_short be m ?p"
    obtain j where j: "0 < j" "j \<le> K - k - 1" "sixteen_run be m ?lim ?v (?p + 2) = ?p + 2 + j * 2"
      "\<And>i. 0 < i \<Longrightarrow> i < j \<Longrightarrow> get_short be m (?p + 2 + 2 * i) = ?v"
      using short_run_spec [of "K - k - 1" be m "?p + 2" ?v] 2 unfolding sixteen_run_short_run lim(2) by auto
    have v: "get_short be m (?p + 2 * i) = ?v" if "i < Suc j" for i
    proof (cases "i \<le> 1")
      case False
      then have e: "?p + 2 + 2 * (i - 1) = ?p + 2 * i" by simp
      have "get_short be m (?p + 2 + 2 * (i - 1)) = ?v" using j(4) [of "i - 1"] that False by simp
      then show ?thesis unfolding e .
    qed (use True in \<open>auto simp: le_Suc_eq\<close>)
    have c: "short_bytes be m ?p (Suc j) = concat (replicate (Suc j) (le_bytes 2 ?v))"
      unfolding short_bytes_def by (intro arg_cong [where f = concat] nth_equalityI) (simp_all add: v del: upt_Suc replicate_Suc)
    obtain r d' where w: "WriteCompressedSixteenBitValues d ?v (Suc j) = (r, d')" by fastforce
    have "sixteen_loop be m ?lim limit ?p d = (if r \<noteq> NoError then (r, a + (k + Suc j) * 2, d') else
        if length d' > limit then (NoCompression, a + (k + Suc j) * 2, d') else sixteen_loop be m ?lim limit (a + (k + Suc j) * 2) d')"
      using lim(1) True j(3) w by (subst sixteen_loop.simps) (simp add: Let_def algebra_simps)
    then show ?thesis using c w j(1,2) 2 by (intro exI [of _ "Suc j"] exI [of _ r] exI [of _ d']) auto
  next
    case False
    obtain j where j: "j \<le> K - k - 2" "sixteen_data be m (?lim - 2) (get_short be m (?p + 2)) (?p + 2) = ?p + 2 + j * 2"
      using sixteen_data_spec [of "K - k - 2" be m "?p + 2"] unfolding lim(3) by blast
    obtain r d' where w: "WriteCompressedSixteenBitData be m d ?p (Suc j) = (r, d')" by fastforce
    have "sixteen_loop be m ?lim limit ?p d = (if r \<noteq> NoError then (r, a + (k + Suc j) * 2, d') else
        if length d' > limit then (NoCompression, a + (k + Suc j) * 2, d') else sixteen_loop be m ?lim limit (a + (k + Suc j) * 2) d')"
      using lim(1) False j(2) w by (subst sixteen_loop.simps) (simp add: Let_def algebra_simps)
    then show ?thesis using w j(1) 2 by (intro exI [of _ "Suc j"] exI [of _ r] exI [of _ d']) auto
  qed
qed

subsection \<open>Twenty-four bits\<close>

lemma TrueColorPointerCompare_bytes: "TrueColorPointerCompare m p c1 c2 c3 \<longleftrightarrow> bytes_at m p 3 = [c1, c2, c3]"
  by (simp add: TrueColorPointerCompare_def bytes_at_def upt_rec numeral_3_eq_3)

lemma colour_run_spec:
  "0 < j \<Longrightarrow> \<exists>k. 0 < k \<and> k \<le> j \<and> colour_run m (p + j * 3) c1 c2 c3 p = p + k * 3 \<and> (\<forall>i. 0 < i \<longrightarrow> i < k \<longrightarrow> bytes_at m (p + i * 3) 3 = [c1, c2, c3])"
proof (induction j arbitrary: p)
  case (Suc j)
  show ?case
  proof (cases "0 < j \<and> TrueColorPointerCompare m (p + 3) c1 c2 c3")
    case True
    then obtain k where k: "0 < k" "k \<le> j" "colour_run m (p + 3 + j * 3) c1 c2 c3 (p + 3) = p + 3 + k * 3"
      "\<forall>i. 0 < i \<longrightarrow> i < k \<longrightarrow> bytes_at m (p + 3 + i * 3) 3 = [c1, c2, c3]" using Suc.IH [of "p + 3"] by blast
    have "colour_run m (p + Suc j * 3) c1 c2 c3 p = p + Suc k * 3" using k(3) True by (subst colour_run.simps) (simp add: Let_def add.assoc)
    moreover have "bytes_at m (p + i * 3) 3 = [c1, c2, c3]" if "0 < i" "i < Suc k" for i
    proof (cases "i = 1")
      case False
      then have e: "p + 3 + (i - 1) * 3 = p + i * 3" using that by simp
      have "bytes_at m (p + 3 + (i - 1) * 3) 3 = [c1, c2, c3]" using k(4) [rule_format, of "i - 1"] that False by simp
      then show ?thesis unfolding e .
    qed (use True in \<open>simp add: TrueColorPointerCompare_bytes\<close>)
    ultimately show ?thesis using k by (intro exI [of _ "Suc k"]) simp
  next
    case False
    then have "colour_run m (p + Suc j * 3) c1 c2 c3 p = p + 1 * 3" by (subst colour_run.simps) (auto simp: Let_def)
    then show ?thesis by (intro exI [of _ 1]) simp
  qed
qed simp

lemma colour_data_spec: "\<exists>k\<le>j. colour_data m (p + j * 3) c1 c2 c3 p = p + k * 3"
proof (induction j arbitrary: p c1 c2 c3)
  case 0
  then show ?case by (simp add: colour_data.simps)
next
  case (Suc j)
  show ?case
  proof (cases "\<not> TrueColorPointerCompare m (p + 3) c1 c2 c3")
    case True
    obtain k where k: "k \<le> j" "colour_data m (p + 3 + j * 3) (m (p + 3)) (m (p + 3 + 1)) (m (p + 3 + 2)) (p + 3) = p + 3 + k * 3" using Suc.IH by blast
    have "colour_data m (p + Suc j * 3) c1 c2 c3 p = p + Suc k * 3" using True k(2) by (subst colour_data.simps) (simp add: Let_def add.assoc)
    then show ?thesis using k(1) by (intro exI [of _ "Suc k"]) simp
  next
    case False
    then show ?thesis by (intro exI [of _ 0], subst colour_data.simps) simp
  qed
qed

text \<open>Pixels that are all equal\<close>

lemma bytes_at_equal:
  assumes "\<And>i. i < n \<Longrightarrow> bytes_at m (p + i * 3) 3 = px"
  shows "bytes_at m p (n * 3) = concat (replicate n px)"
  unfolding bytes_at_concat by (intro arg_cong [where f = concat] nth_equalityI) (simp_all add: assms)

interpretation colours24: rle_compressor 3 "\<lambda>m p n. bytes_at m p (n * 3)" WriteCompressedTwentyFourBitData
    "\<lambda>d (c1, c2, c3). WriteCompressedTwentyFourBitValues d c1 c2 c3" "\<lambda>(c1, c2, c3). [c1, c2, c3]" colour_loop
proof (unfold_locales, goal_cases)
  case (1 k K m a limit d)
  then have "\<not> a + k * 3 < a + K * 3 - 3" by simp
  then show ?case by (subst colour_loop.simps) (simp only: not_False_eq_True if_True)
next
  case (2 k K m d a limit)
  let ?p = "a + k * 3" and ?lim = "a + K * 3"
  let ?c1 = "m ?p" and ?c2 = "m (?p + 1)" and ?c3 = "m (?p + 2)"
  have px: "bytes_at m ?p 3 = [?c1, ?c2, ?c3]" using TrueColorPointerCompare_bytes [of m ?p ?c1 ?c2 ?c3] by (simp add: TrueColorPointerCompare_def)
  have lim: "?p < ?lim - 3" "?lim = ?p + 3 + (K - k - 1) * 3" "?lim - 3 = ?p + 3 + (K - k - 2) * 3" using 2 by auto
  show ?case
  proof (cases "TrueColorPointerCompare m (?p + 3) ?c1 ?c2 ?c3")
    case True
    obtain j where j: "0 < j" "j \<le> K - k - 1" "colour_run m ?lim ?c1 ?c2 ?c3 (?p + 3) = ?p + 3 + j * 3"
      "\<And>i. 0 < i \<Longrightarrow> i < j \<Longrightarrow> bytes_at m (?p + 3 + i * 3) 3 = [?c1, ?c2, ?c3]"
      using colour_run_spec [of "K - k - 1" m "?p + 3" ?c1 ?c2 ?c3] 2 unfolding lim(2) by auto
    have v: "bytes_at m (?p + i * 3) 3 = [?c1, ?c2, ?c3]" if "i < Suc j" for i
    proof (cases "i \<le> 1")
      case False
      then have e: "?p + 3 + (i - 1) * 3 = ?p + i * 3" by simp
      have "bytes_at m (?p + 3 + (i - 1) * 3) 3 = [?c1, ?c2, ?c3]" using j(4) [of "i - 1"] that False by simp
      then show ?thesis unfolding e .
    qed (use True px in \<open>auto simp: le_Suc_eq TrueColorPointerCompare_bytes\<close>)
    obtain r d' where w: "WriteCompressedTwentyFourBitValues d ?c1 ?c2 ?c3 (Suc j) = (r, d')" by fastforce
    have "colour_loop m ?lim limit ?p d = (if r \<noteq> NoError then (r, a + (k + Suc j) * 3, d') else
        if length d' > limit then (NoCompression, a + (k + Suc j) * 3, d') else colour_loop m ?lim limit (a + (k + Suc j) * 3) d')"
      using lim(1) True j(3) w by (subst colour_loop.simps) (simp add: Let_def algebra_simps)
    moreover have "bytes_at m ?p (Suc j * 3) = concat (replicate (Suc j) [?c1, ?c2, ?c3])" by (rule bytes_at_equal) (rule v)
    ultimately show ?thesis using w j(1,2) 2
      by (intro exI [of _ "Suc j"] exI [of _ r] exI [of _ d'] conjI disjI2 exI [of _ "(?c1, ?c2, ?c3)"]) simp_all
  next
    case False
    let ?q = "?p + 3"
    obtain j where j: "j \<le> K - k - 2" "colour_data m (?lim - 3) (m ?q) (m (?q + 1)) (m (?q + 2)) (?q + 3) = ?p + Suc (Suc j) * 3"
    proof (cases "k + 2 < K")
      case True
      then have l: "?lim - 3 = ?q + 3 + (K - k - 3) * 3" by simp
      obtain j where "j \<le> K - k - 3" "colour_data m (?lim - 3) (m ?q) (m (?q + 1)) (m (?q + 2)) (?q + 3) = ?q + 3 + j * 3"
        using colour_data_spec [of "K - k - 3" m "?q + 3"] unfolding l by blast
      then show thesis using that [of j] by simp
    next
      case False
      then have "\<not> ?q + 3 < ?lim - 3" using 2 by simp
      then have "colour_data m (?lim - 3) (m ?q) (m (?q + 1)) (m (?q + 2)) (?q + 3) = ?q + 3" by (subst colour_data.simps) (simp only: simp_thms if_False)
      then show thesis using that [of 0] by simp
    qed
    obtain r d' where w: "WriteCompressedTwentyFourBitData m d ?p (Suc (Suc j)) = (r, d')" by fastforce
    have "colour_loop m ?lim limit ?p d = (if r \<noteq> NoError then (r, a + (k + Suc (Suc j)) * 3, d') else
        if length d' > limit then (NoCompression, a + (k + Suc (Suc j)) * 3, d') else colour_loop m ?lim limit (a + (k + Suc (Suc j)) * 3) d')"
      using lim(1) False j(2) w by (subst colour_loop.simps) (simp add: Let_def algebra_simps)
    then show ?thesis using w j(1) 2 by (intro exI [of _ "Suc (Suc j)"] exI [of _ r] exI [of _ d']) auto
  qed
qed

section \<open>Compressed data\<close>

lemma CompressSixteenBitData_rle:
  assumes "CompressSixteenBitData be m d a (2 * K) = (ret, d')"
  shows "ret \<in> {NoError, NoCompression} \<and> (ret = NoError \<longrightarrow> (\<exists>enc. d' = d @ enc \<and> rle 2 enc (short_bytes be m a K)))"
proof -
  let ?lim = "a + K * 2" and ?cut = "length d + 2 * K * 7 div 8"
  obtain r p d1 where L: "sixteen_loop be m ?lim ?cut a d = (r, p, d1)" by (metis prod_cases3)
  obtain r2 d2 where W: "(if p < ?lim then WriteCompressedSixteenBitData be m d1 p ((?lim - p) div 2) else (NoError, d1)) = (r2, d2)" by fastforce
  have run: "CompressSixteenBitData be m d a (2 * K) = (if r \<noteq> NoError then (r, d1) else if r2 \<noteq> NoError then (r2, d2) else
      if length d2 > ?cut then (NoCompression, d2) else (NoError, d2))"
    using L W by (simp add: CompressSixteenBitData_def Let_def mult.commute)
  have "r \<in> {NoError, NoCompression}" using shorts16.loop_rle [of be m a K ?cut 0 d "[]" r p d1] L by (simp add: short_bytes_def rle_Nil)
  moreover have "r2 = NoError \<and> (\<exists>enc. d2 = d @ enc \<and> rle 2 enc (short_bytes be m a K))" if "r = NoError"
    using shorts16.loop_finish [OF L [unfolded that] _ W] by simp
  ultimately show ?thesis using run assms by (auto split: if_splits)
qed

lemma CompressTwentyFourBitData_rle:
  assumes "CompressTwentyFourBitData m d a (3 * K) = (ret, d')"
  shows "ret \<in> {NoError, NoCompression} \<and> (ret = NoError \<longrightarrow> (\<exists>enc. d' = d @ enc \<and> rle 3 enc (bytes_at m a (K * 3))))"
proof -
  let ?lim = "a + K * 3" and ?cut = "length d + 3 * K * 7 div 8"
  obtain r p d1 where L: "colour_loop m ?lim ?cut a d = (r, p, d1)" by (metis prod_cases3)
  obtain r2 d2 where W: "(if p < ?lim then WriteCompressedTwentyFourBitData m d1 p ((?lim - p) div 3) else (NoError, d1)) = (r2, d2)" by fastforce
  have run: "CompressTwentyFourBitData m d a (3 * K) = (if r \<noteq> NoError then (r, d1) else if r2 \<noteq> NoError then (r2, d2) else
      if length d2 > ?cut then (NoCompression, d2) else (NoError, d2))"
    using L W by (simp add: CompressTwentyFourBitData_def Let_def mult.commute)
  have "r \<in> {NoError, NoCompression}" using colours24.loop_rle [of m a K ?cut 0 d "[]" r p d1] L by (simp add: rle_Nil)
  moreover have "r2 = NoError \<and> (\<exists>enc. d2 = d @ enc \<and> rle 3 enc (bytes_at m a (K * 3)))" if "r = NoError"
    using colours24.loop_finish [OF L [unfolded that] _ W] by simp
  ultimately show ?thesis using run assms by (auto split: if_splits)
qed

text \<open>Expanding packets into a destination of the right size\<close>

lemma expand_rle:
  assumes "bytes_at m s (length enc) = enc"
  shows "rle 1 enc out \<Longrightarrow> ExpandByteRLEData m (length out) s (length enc) = Some (NoError, out)"
    "rle 2 enc out \<Longrightarrow> even (length out) \<Longrightarrow> ExpandSixteenBitRLEData be m (length out) s (length enc) = Some (NoError, out)"
    "rle 3 enc out \<Longrightarrow> ExpandTwentyFourBitRLEData m (length out) s (length enc) = Some (NoError, out)"
proof -
  show "rle 1 enc out \<Longrightarrow> ExpandByteRLEData m (length out) s (length enc) = Some (NoError, out)"
    using bytes.expands [OF _ assms refl, of out "length out" "[]"] by (simp add: ExpandByteRLEData_def)
  show "rle 2 enc out \<Longrightarrow> even (length out) \<Longrightarrow> ExpandSixteenBitRLEData be m (length out) s (length enc) = Some (NoError, out)"
    using shorts.expands [OF _ assms refl, of out "length out" "[]" be] by (simp add: ExpandSixteenBitRLEData_def Let_def)
  show "rle 3 enc out \<Longrightarrow> ExpandTwentyFourBitRLEData m (length out) s (length enc) = Some (NoError, out)"
    using colours.expands [OF _ assms refl, of out "length out" "[]"] by (simp add: ExpandTwentyFourBitRLEData_def)
qed

lemma short_bytes_little: "short_bytes False m p n = bytes_at m p (n * 2)"
proof -
  have "le_bytes 2 (get_short False m q) = bytes_at m q 2" for q using le_bytes_le_word [of 2 "bytes_at m q 2", where 'a = 16] by (simp add: get_short_def host_word_def)
  then show ?thesis by (simp add: short_bytes_def bytes_at_concat mult.commute)
qed

end
