(* ===== verification/Bmconv_Twelve.thy ===== *)
theory Bmconv_Twelve
  imports Bmconv_Compress
begin

text \<open>
  Bitmaps of twelve bits for each pixel: a short holds the number of repetitions in its upper four bits and the pixel below.
\<close>

definition shorts_bytes :: "bool \<Rightarrow> 16 word list \<Rightarrow> byte list" where
  "shorts_bytes be ws = concat (map (host_bytes be 2) ws)"

definition expand12 :: "16 word list \<Rightarrow> 16 word list" where
  "expand12 ws = concat (map (\<lambda>w. replicate (unat (drop_bit 12 w) + 1) (w AND 0x0fff)) ws)"

lemma shorts_bytes_simps [simp]: "shorts_bytes be [] = []" "shorts_bytes be (w # ws) = host_bytes be 2 w @ shorts_bytes be ws"
  "shorts_bytes be (vs @ ws) = shorts_bytes be vs @ shorts_bytes be ws"
  by (simp_all add: shorts_bytes_def)

lemma expand12_simps [simp]: "expand12 [] = []" "expand12 (vs @ ws) = expand12 vs @ expand12 ws"
  by (simp_all add: expand12_def)

lemma length_shorts_bytes [simp]: "length (shorts_bytes be ws) = 2 * length ws"
  by (induction ws) simp_all

lemma twelve_word:
  assumes "r < 16"
  shows "unat (drop_bit 12 ((v AND 0x0fff) OR push_bit 12 (of_nat r)) :: 16 word) = r"
    "((v AND 0x0fff) OR push_bit 12 (of_nat r)) AND 0x0fff = (v AND 0x0fff :: 16 word)"
proof -
  have m: "(0x0fff :: 16 word) = mask 12" by (simp add: mask_eq_exp_minus_1)
  have r: "take_bit 4 (of_nat r :: 16 word) = of_nat r"
    using assms by (simp add: take_bit_of_nat take_bit_nat_eq_self)
  have "drop_bit 12 ((v AND mask 12) OR push_bit 12 (of_nat r)) = take_bit 4 (of_nat r :: 16 word)"
    by (rule bit_word_eqI) (auto simp: bit_simps)
  then show "unat (drop_bit 12 ((v AND 0x0fff) OR push_bit 12 (of_nat r)) :: 16 word) = r"
    using assms by (simp only: m r) (simp add: unat_of_nat)
  show "((v AND 0x0fff) OR push_bit 12 (of_nat r)) AND 0x0fff = (v AND 0x0fff :: 16 word)"
    unfolding m by (rule bit_word_eqI) (auto simp: bit_simps)
qed

lemma WriteCompressedTwelveBitData_expand:
  "0 < n \<Longrightarrow> \<exists>ws. WriteCompressedTwelveBitData be d v n = d @ shorts_bytes be ws \<and> expand12 ws = replicate n (v AND 0x0fff) \<and> length ws \<le> n"
proof (induction n arbitrary: d v rule: less_induct)
  case (less n)
  let ?w = "\<lambda>r. (v AND 0x0fff) OR push_bit 12 (of_nat r)"
  show ?case
  proof (cases "n > 16")
    case True
    have n: "n = 16 + (n - 16)" using True by simp
    obtain ws where ws: "WriteCompressedTwelveBitData be (d @ host_bytes be 2 (?w 15)) (v AND 0x0fff) (n - 16) = (d @ host_bytes be 2 (?w 15)) @ shorts_bytes be ws"
      "expand12 ws = replicate (n - 16) (v AND 0x0fff AND 0x0fff)" "length ws \<le> n - 16"
      using less.IH [of "n - 16" "d @ host_bytes be 2 (?w 15)" "v AND 0x0fff"] True by auto
    have "WriteCompressedTwelveBitData be d v n = d @ shorts_bytes be (?w 15 # ws)"
      using ws(1) True by (subst WriteCompressedTwelveBitData.simps) (simp add: Let_def)
    moreover have "expand12 (?w 15 # ws) = replicate 16 (v AND 0x0fff) @ expand12 ws"
      unfolding expand12_def using twelve_word [of 15 v] by (simp flip: replicate_Suc)
    moreover have "\<dots> = replicate n (v AND 0x0fff)" using ws(2) replicate_add [of 16 "n - 16" "v AND 0x0fff"] n by (simp add: and.assoc)
    ultimately show ?thesis using ws(3) True by (intro exI [of _ "?w 15 # ws"]) simp
  next
    case False
    have "WriteCompressedTwelveBitData be d v n = d @ shorts_bytes be [?w (n - 1)]"
      using False less.prems by (subst WriteCompressedTwelveBitData.simps) (simp add: Let_def)
    moreover have "expand12 [?w (n - 1)] = replicate n (v AND 0x0fff)"
      unfolding expand12_def using twelve_word [of "n - 1" v] False less.prems by (simp flip: replicate_Suc)
    ultimately show ?thesis using less.prems by (intro exI [of _ "[?w (n - 1)]"]) simp
  qed
qed

lemma twelve_loop_expand:
  assumes "expand12 ws = map (\<lambda>i. get_short be m (a + 2 * i) AND 0x0fff) [0..<k]" "length ws \<le> k" "k \<le> K"
  shows "\<exists>ws'. twelve_loop be m (a + K * 2) (a + k * 2) (d @ shorts_bytes be ws) = d @ shorts_bytes be ws' \<and>
    expand12 ws' = map (\<lambda>i. get_short be m (a + 2 * i) AND 0x0fff) [0..<K] \<and> length ws' \<le> K"
  using assms
proof (induction "K - k" arbitrary: k ws rule: less_induct)
  case less
  show ?case
  proof (cases "k < K")
    case True
    let ?p = "a + k * 2" and ?lim = "a + K * 2"
    let ?v = "get_short be m ?p"
    have lim: "?lim = ?p + (K - k) * 2" using True by simp
    obtain j where j: "0 < j" "j \<le> K - k" "short_run be m ?lim ?v ?p = ?p + j * 2" "\<And>i. 0 < i \<Longrightarrow> i < j \<Longrightarrow> get_short be m (?p + 2 * i) = ?v"
      using short_run_spec [of "K - k" be m ?p ?v] True unfolding lim by auto
    obtain vs where vs: "WriteCompressedTwelveBitData be (d @ shorts_bytes be ws) ?v j = (d @ shorts_bytes be ws) @ shorts_bytes be vs"
      "expand12 vs = replicate j (?v AND 0x0fff)" "length vs \<le> j"
      using WriteCompressedTwelveBitData_expand [OF j(1)] by blast
    have "replicate j (?v AND 0x0fff) = map (\<lambda>i. get_short be m (a + 2 * i) AND 0x0fff) [k..<k + j]"
    proof (rule nth_equalityI)
      fix i assume "i < length (replicate j (?v AND 0x0fff))"
      then show "replicate j (?v AND 0x0fff) ! i = map (\<lambda>i. get_short be m (a + 2 * i) AND 0x0fff) [k..<k + j] ! i"
        using j(4) [of i] by (cases "i = 0") (auto simp: algebra_simps)
    qed simp
    then have e: "expand12 (ws @ vs) = map (\<lambda>i. get_short be m (a + 2 * i) AND 0x0fff) [0..<k + j]"
      using less.prems(1) vs(2) by (simp add: upt_add_eq_append [of 0 k j, simplified])
    have "twelve_loop be m ?lim ?p (d @ shorts_bytes be ws) = twelve_loop be m ?lim (a + (k + j) * 2) (d @ shorts_bytes be (ws @ vs))"
      using True j(3) vs(1) by (subst twelve_loop.simps) (simp add: Let_def algebra_simps)
    then show ?thesis using less.hyps [OF _ e] j(1,2) vs(3) less.prems(2) True by simp
  next
    case False
    then have "k = K" using less.prems(3) by simp
    then show ?thesis using less.prems by (subst twelve_loop.simps) auto
  qed
qed

lemma CompressTwelveBitData_expand:
  obtains ws where "CompressTwelveBitData be m d a (2 * K) = (NoError, d @ shorts_bytes be ws)"
    "expand12 ws = map (\<lambda>i. get_short be m (a + 2 * i) AND 0x0fff) [0..<K]" "length ws \<le> K"
  using twelve_loop_expand [of "[]" be m a 0 K d] by (auto simp: CompressTwelveBitData_def mult.commute)

lemma get_u16_le_word: "get_u16 m p = le_word (bytes_at m p 2)"
  by (simp add: get_u16_def bytes_at_def upt_rec)

lemma expand_twelve_loop_expand12:
  assumes "bytes_at m p (2 * length ws) = shorts_bytes False ws"
  shows "expand_twelve_loop be m (p + 2 * length ws) (length d + 2 * length (expand12 ws)) p d = Some (p + 2 * length ws, d @ shorts_bytes be (expand12 ws))"
  using assms
proof (induction ws arbitrary: p d)
  case Nil
  then show ?case by (subst expand_twelve_loop.simps) simp
next
  case (Cons w ws)
  let ?n = "unat (drop_bit 12 w) + 1" and ?v = "w AND 0x0fff"
  have "2 * length (w # ws) = 2 + 2 * length ws" by simp
  with Cons.prems have b: "bytes_at m p 2 @ bytes_at m (p + 2) (2 * length ws) = le_bytes 2 w @ shorts_bytes False ws"
    by (simp only: bytes_at_add) (simp add: host_bytes_def)
  then have g: "get_u16 m p = w" by (simp add: get_u16_le_word le_word_le_bytes)
  have e: "expand12 (w # ws) = replicate ?n ?v @ expand12 ws" by (simp add: expand12_def)
  have c: "concat (replicate n (host_bytes be 2 ?v)) = shorts_bytes be (replicate n ?v)" for n by (induction n) simp_all
  have "expand_twelve_loop be m (p + 2 * length (w # ws)) (length d + 2 * length (expand12 (w # ws))) p d =
      expand_twelve_loop be m (p + 2 + 2 * length ws) (length (d @ shorts_bytes be (replicate ?n ?v)) + 2 * length (expand12 ws)) (p + 2) (d @ shorts_bytes be (replicate ?n ?v))"
    by (subst expand_twelve_loop.simps) (simp add: Let_def g e c [symmetric] algebra_simps length_concat sum_list_replicate)
  also have "\<dots> = Some (p + 2 + 2 * length ws, (d @ shorts_bytes be (replicate ?n ?v)) @ shorts_bytes be (expand12 ws))"
    using b by (intro Cons.IH) simp
  finally show ?case by (simp add: e)
qed

lemma ExpandTwelveBitRLEData_expand12:
  assumes "bytes_at m s (2 * length ws) = shorts_bytes False ws"
  shows "ExpandTwelveBitRLEData be m (2 * length (expand12 ws)) s (2 * length ws) = Some (NoError, shorts_bytes be (expand12 ws))"
  using expand_twelve_loop_expand12 [OF assms, of be "[]"] by (simp add: ExpandTwelveBitRLEData_def Let_def)

end
