(* ===== verification/Bmconv_Roundtrip.thy ===== *)
theory Bmconv_Roundtrip
  imports Bmconv Bmconv_Twelve
begin

text \<open>
  The bitmaps that \<open>bmconv\<close> packs into a file are loaded as they were, compressed or not, on a little-endian host.
\<close>

section \<open>Words of a file\<close>

lemma ucast_low_byte: "ucast (x AND 0xff) = (ucast x :: byte)" for x :: "'a::len word"
proof -
  have m: "(0xff :: 'a word) = mask 8" by (simp add: mask_eq_exp_minus_1)
  show ?thesis unfolding m by (auto intro!: bit_word_eqI simp: bit_simps dest: bit_imp_le_length)
qed

lemma Write32_le_bytes: "Write32 f v = f @ le_bytes 4 v"
  by (simp add: Write32_def ucast_low_byte le_bytes_def upt_rec numeral_eq_Suc)

lemma Write16_le_bytes: "Write16 f v = f @ le_bytes 2 v"
  by (simp add: Write16_def ucast_low_byte le_bytes_def upt_rec numeral_eq_Suc)

lemma get_u32_le_word: "get_u32 m p = le_word (bytes_at m p 4)"
proof -
  have "bytes_at m p 4 = [m p, m (p + 1), m (p + 2), m (p + 3)]" by (simp add: bytes_at_def upt_rec numeral_eq_Suc)
  then show ?thesis by (simp add: get_u32_def push_bit_or or.assoc)
qed

lemma buffer_u32_mid: "buffer_u32 (xs @ le_bytes 4 w @ ys) (length xs) = w"
proof -
  have "bytes_at ((!) (xs @ le_bytes 4 w @ ys)) (length xs) 4 = le_bytes 4 w"
    by (rule nth_equalityI) (simp_all add: nth_append)
  then show ?thesis by (simp add: buffer_u32_def get_u32_le_word le_word_le_bytes)
qed

lemma read_u32_mid: "f = xs @ le_bytes 4 w @ ys \<Longrightarrow> p = length xs \<Longrightarrow> read_u32 f p = Some w"
  using buffer_u32_mid [of "[]" w "[]"] by (simp add: read_u32_def read_at_def)

lemma read_at_mid: "f = xs @ bs @ ys \<Longrightarrow> p = length xs \<Longrightarrow> n = length bs \<Longrightarrow> read_at f p n = bs"
  by (simp add: read_at_def)

definition words :: "32 word list \<Rightarrow> byte list" where
  "words ws = concat (map (le_bytes 4) ws)"

lemma words_simps [simp]: "words [] = []" "words (w # ws) = le_bytes 4 w @ words ws" "words (vs @ ws) = words vs @ words ws"
  by (simp_all add: words_def)

lemma length_words [simp]: "length (words ws) = 4 * length ws"
  by (induction ws) simp_all

lemma words_nth: "i < length ws \<Longrightarrow> words ws = words (take i ws) @ le_bytes 4 (ws ! i) @ words (drop (Suc i) ws)"
  by (metis id_take_nth_drop words_simps(2,3))

lemma buffer_u32_words:
  assumes "i < length ws"
  shows "buffer_u32 (words ws) (4 * i) = ws ! i"
  using buffer_u32_mid [of "words (take i ws)" "ws ! i"] words_nth [OF assms] assms by simp

lemma read_u32_words:
  assumes "f = xs @ words ws @ ys" "i < length ws" "p = length xs + 4 * i"
  shows "read_u32 f p = Some (ws ! i)"
proof (rule read_u32_mid)
  show "f = (xs @ words (take i ws)) @ le_bytes 4 (ws ! i) @ words (drop (Suc i) ws) @ ys" using assms(1) words_nth [OF assms(2)] by simp
qed (use assms in simp)

lemma parse_header_members: "parse_header (words (header_members h)) = h"
proof -
  have b: "buffer_u32 (words (header_members h)) (4 * i) = header_members h ! i" if "i < 10" for i
    using that by (intro buffer_u32_words) (simp add: header_members_def)
  show ?thesis
    using b [of 0] b [of 1] b [of 2] b [of 3] b [of 4] b [of 5] b [of 6] b [of 7] b [of 8] b [of 9]
    by (simp add: parse_header_def header_members_def)
qed

section \<open>Writing\<close>

lemma WriteBuf32_words: "WriteBuf32 be f (concat (map (host_bytes be 4) ws)) (4 * length ws) = f @ words ws"
proof -
  have d: "take 4 (drop (4 * i) (concat (map (host_bytes be 4) ws))) = host_bytes be 4 (ws ! i)" if "i < length ws" for i ws
    using that
  proof (induction ws arbitrary: i)
    case (Cons w ws)
    then show ?case by (cases i) auto
  qed simp
  have "fold (\<lambda>i f. Write32 f (host_word be (take 4 (drop (4 * i) (concat (map (host_bytes be 4) ws)))))) [0..<n] f = f @ words (take n ws)"
    if "n \<le> length ws" for n
    using that by (induction n) (simp_all add: d Write32_le_bytes take_Suc_conv_app_nth)
  then show ?thesis by (simp add: WriteBuf32_def)
qed

lemma WriteBuf16_little: "even n \<Longrightarrow> n \<le> length buf \<Longrightarrow> WriteBuf16 False f buf n = f @ take n buf"
proof -
  have w: "le_bytes 2 (host_word False (take 2 (drop (2 * i) buf)) :: 16 word) = take 2 (drop (2 * i) buf)" if "2 * Suc i \<le> length buf" for i
    using that by (simp add: host_word_def le_bytes_le_word)
  have "fold (\<lambda>i f. Write16 f (host_word False (take 2 (drop (2 * i) buf)))) [0..<k] f = f @ take (2 * k) buf" if "2 * k \<le> length buf" for k
    using that
  proof (induction k)
    case (Suc k)
    have "take (2 * Suc k) buf = take (2 * k) buf @ take 2 (drop (2 * k) buf)" by (metis mult_Suc_right add.commute take_add)
    then show ?case using Suc w [of k] by (simp add: Write16_le_bytes)
  qed simp
  then show "even n \<Longrightarrow> n \<le> length buf \<Longrightarrow> WriteBuf16 False f buf n = f @ take n buf" by (auto simp: WriteBuf16_def elim!: evenE)
qed

text \<open>A bitmap in the file\<close>

definition stored_bits :: "pbm \<Rightarrow> byte list" where
  "stored_bits pbm = take (nat (sint (iBitmapSize (fst pbm)) - int headerSize)) (snd pbm)"

definition bitmap_bytes :: "pbm \<Rightarrow> byte list" where
  "bitmap_bytes pbm = words (header_members (fst pbm)) @ stored_bits pbm"

text \<open>What has to hold of the sizes\<close>

definition sized :: "pbm \<Rightarrow> bool" where
  "sized pbm \<longleftrightarrow> iPaletteEntries (fst pbm) = 0 \<and> int headerSize \<le> sint (iBitmapSize (fst pbm)) \<and>
     sint (iBitmapSize (fst pbm)) - int headerSize \<le> int (length (snd pbm)) \<and>
     (sint (iBitsPerPixel (fst pbm)) \<in> {12, 16} \<longrightarrow> iCompression (fst pbm) \<noteq> ESixteenBitRLECompression \<longrightarrow> even (sint (iBitmapSize (fst pbm))))"

lemma WriteFilebitmap_bytes:
  assumes "sized pbm" "iCompression (fst pbm) = ESixteenBitRLECompression \<longrightarrow> c \<and> sint (iBitsPerPixel (fst pbm)) = 16"
  shows "WriteFilebitmap False pbm c f = (NoError, f @ bitmap_bytes pbm)"
proof -
  obtain h bits where p: "pbm = (h, bits)" by (cases pbm)
  let ?n = "nat (sint (iBitmapSize h) - 40)"
  have w: "WriteBuf32 False f (concat (map (host_bytes False 4) (header_members h))) 40 = f @ words (header_members h)" for f
    using WriteBuf32_words [of False f "header_members h"] by (simp add: header_members_def)
  have "WriteBuf16 False g bits ?n = g @ take ?n bits" if "sint (iBitsPerPixel h) = 12 \<or> sint (iBitsPerPixel h) = 16 \<and> \<not> c" for g
  proof (rule WriteBuf16_little)
    have "even (sint (iBitmapSize h))" using assms that p by (auto simp: sized_def)
    then show "even ?n" using assms(1) p by (auto simp: sized_def even_nat_iff)
    show "?n \<le> length bits" using assms(1) p by (auto simp: sized_def)
  qed
  then show ?thesis using assms(1) p by (auto simp: WriteFilebitmap_def Let_def w sized_def bitmap_bytes_def stored_bits_def)
qed

section \<open>Compressing\<close>

text \<open>A bitmap as the loader of BMP files makes it\<close>

definition pbm_ok :: "pbm \<Rightarrow> bool" where
  "pbm_ok pbm \<longleftrightarrow> iStructSize (fst pbm) = 40 \<and> iPaletteEntries (fst pbm) = 0 \<and> iCompression (fst pbm) = 0 \<and>
     sint (iBitsPerPixel (fst pbm)) \<in> {1, 2, 4, 8, 12, 16, 24, 32} \<and>
     0 \<le> sint (iWidthInPixels (fst pbm)) \<and> 0 \<le> sint (iHeightInPixels (fst pbm)) \<and>
     int (length (snd pbm)) = ByteWidth (sint (iWidthInPixels (fst pbm))) (sint (iBitsPerPixel (fst pbm))) * sint (iHeightInPixels (fst pbm)) \<and>
     sint (iBitmapSize (fst pbm)) = 40 + int (length (snd pbm))"

text \<open>The bits that are loaded: compression clears the upper four bits of pixels of twelve bits.\<close>

definition mask12 :: "byte list \<Rightarrow> byte list" where
  "mask12 bits = map (\<lambda>i. if odd i then bits ! i AND 0x0f else bits ! i) [0..<length bits]"

definition loaded_bits :: "bool \<Rightarrow> pbm \<Rightarrow> byte list" where
  "loaded_bits c pbm = (if c \<and> sint (iBitsPerPixel (fst pbm)) = 12 then mask12 (snd pbm) else snd pbm)"

text \<open>\<open>pbm'\<close> is \<open>pbm\<close> with its bits in a form that expands to \<open>out\<close>.\<close>

definition packed :: "pbm \<Rightarrow> pbm \<Rightarrow> byte list \<Rightarrow> bool" where
  "packed pbm pbm' out \<longleftrightarrow> sized pbm' \<and> length out = length (snd pbm) \<and>
     (\<exists>n c. fst pbm' = (fst pbm)\<lparr>iBitmapSize := of_nat (n + headerSize), iCompression := c\<rparr> \<and> n \<le> length (snd pbm) \<and>
       length (stored_bits pbm') = n \<and>
       (c = 0 \<and> stored_bits pbm' = out \<or>
        c = 1 \<and> rle 1 (stored_bits pbm') out \<or>
        c = 2 \<and> (\<exists>ws. stored_bits pbm' = shorts_bytes False ws \<and> out = shorts_bytes False (expand12 ws)) \<or>
        c = 3 \<and> sint (iBitsPerPixel (fst pbm)) = 16 \<and> even (length out) \<and> rle 2 (stored_bits pbm') out \<or>
        c = 4 \<and> rle 3 (stored_bits pbm') out))"

lemma ByteWidth_multiples:
  "0 \<le> w \<Longrightarrow> 0 \<le> ByteWidth w b" "even (ByteWidth w b)" "b = 24 \<Longrightarrow> 3 dvd ByteWidth w b"
  by (auto simp: ByteWidth_def quot_def Let_def)

lemma pbm_ok_sizes:
  assumes "pbm_ok pbm"
  shows "nat (sint (iBitmapSize (fst pbm)) - 40) = length (snd pbm)" "length (snd pbm) < 2 ^ 31 - 40" "even (length (snd pbm))"
    "sint (iBitsPerPixel (fst pbm)) = 24 \<Longrightarrow> 3 dvd length (snd pbm)" "iBitmapSize (fst pbm) = of_nat (length (snd pbm) + headerSize)"
proof -
  have s: "sint (iBitmapSize (fst pbm)) = int (length (snd pbm) + 40)" using assms by (simp add: pbm_ok_def)
  have "sint (iBitmapSize (fst pbm)) < 2 ^ 31" using sint_lt [of "iBitmapSize (fst pbm)"] by simp
  with s show "nat (sint (iBitmapSize (fst pbm)) - 40) = length (snd pbm)" "length (snd pbm) < 2 ^ 31 - 40" by simp_all
  have l: "int (length (snd pbm)) = ByteWidth (sint (iWidthInPixels (fst pbm))) (sint (iBitsPerPixel (fst pbm))) * sint (iHeightInPixels (fst pbm))"
    using assms by (simp add: pbm_ok_def)
  then have "even (int (length (snd pbm)))" using ByteWidth_multiples(2) by simp
  then show "even (length (snd pbm))" by simp
  show "3 dvd length (snd pbm)" if "sint (iBitsPerPixel (fst pbm)) = 24"
  proof -
    have "3 dvd int (length (snd pbm))" unfolding l using ByteWidth_multiples(3) that by simp
    then show ?thesis by (metis int_dvd_int_iff of_nat_numeral)
  qed
  have "word_of_int (sint (iBitmapSize (fst pbm))) = (of_nat (length (snd pbm) + 40) :: 32 word)" unfolding s by simp
  then show "iBitmapSize (fst pbm) = of_nat (length (snd pbm) + headerSize)" by (simp only: of_int_sint scast_id)
qed

lemma sint_size: "n < 2 ^ 31 - 40 \<Longrightarrow> sint (of_nat (n + headerSize) :: 32 word) = int (n + headerSize)"
  by (simp only: signed_of_nat) (simp add: signed_take_bit_int_eq_self)

lemma packed_plain: "pbm_ok pbm \<Longrightarrow> packed pbm pbm (snd pbm)"
proof -
  assume ok: "pbm_ok pbm"
  note S = pbm_ok_sizes [OF ok]
  have b: "stored_bits pbm = snd pbm" using S(1) by (simp add: stored_bits_def)
  have z: "sint (iBitmapSize (fst pbm)) = 40 + int (length (snd pbm))" "iPaletteEntries (fst pbm) = 0" using ok unfolding pbm_ok_def by blast+
  then have "sized pbm" using S(3) by (simp add: sized_def)
  moreover have "fst pbm = (fst pbm)\<lparr>iBitmapSize := of_nat (length (snd pbm) + headerSize), iCompression := 0\<rparr>"
    using S(5) ok by (cases "fst pbm") (simp add: pbm_ok_def)
  ultimately show ?thesis unfolding packed_def b by blast
qed

text \<open>The new header and bits after compression\<close>

lemma packed_compressed:
  assumes "pbm_ok pbm" "length enc \<le> length (snd pbm)" "length out = length (snd pbm)"
    and "c = 3 \<or> even (length enc) \<or> sint (iBitsPerPixel (fst pbm)) \<notin> {12, 16}"
    and "c = 1 \<and> rle 1 enc out \<or> c = 2 \<and> (\<exists>ws. enc = shorts_bytes False ws \<and> out = shorts_bytes False (expand12 ws)) \<or>
      c = 3 \<and> sint (iBitsPerPixel (fst pbm)) = 16 \<and> even (length out) \<and> rle 2 enc out \<or> c = 4 \<and> rle 3 enc out"
  shows "packed pbm ((fst pbm)\<lparr>iBitmapSize := of_nat (length enc + headerSize), iCompression := c\<rparr>, enc @ rest) out"
proof -
  let ?p = "((fst pbm)\<lparr>iBitmapSize := of_nat (length enc + headerSize), iCompression := c\<rparr>, enc @ rest)"
  have s: "sint (of_nat (length enc + headerSize) :: 32 word) = int (length enc + headerSize)"
    using pbm_ok_sizes(2) [OF assms(1)] assms(2) by (intro sint_size) simp
  have s: "sint (iBitmapSize (fst ?p)) = int (length enc + headerSize)" using s by simp
  have b: "stored_bits ?p = enc" unfolding stored_bits_def s by simp
  have "iPaletteEntries (fst pbm) = 0" using assms(1) unfolding pbm_ok_def by blast
  then have "sized ?p" unfolding sized_def s using assms(4) by auto
  then show ?thesis unfolding packed_def b using assms(2,3,5) by (intro conjI exI [of _ "length enc"] exI [of _ c]) auto
qed

lemma mask12_shorts: "shorts_bytes False (map (\<lambda>i. get_short False m (a + 2 * i) AND 0x0fff) [0..<K]) = mask12 (bytes_at m a (2 * K))"
proof (induction K)
  case (Suc K)
  let ?x = "m (a + 2 * K)" and ?y = "m (a + 2 * K + 1)"
  have "bytes_at m (a + 2 * K) 2 = [?x, ?y]" by (simp add: bytes_at_def upt_rec)
  then have g: "get_short False m (a + 2 * K) = ucast ?x OR push_bit 8 (ucast ?y)" by (simp add: get_short_def host_word_def)
  have m: "(0x0fff :: 16 word) = mask 12" "(0x0f :: byte) = mask 4" by (simp_all add: mask_eq_exp_minus_1)
  have "ucast (get_short False m (a + 2 * K) AND 0x0fff) = ?x" unfolding g m by (rule bit_word_eqI) (auto simp: bit_simps)
  moreover have "ucast (drop_bit 8 (get_short False m (a + 2 * K) AND 0x0fff)) = ?y AND 0x0f"
    unfolding g m by (rule bit_word_eqI) (auto simp: bit_simps dest: bit_imp_le_length)
  ultimately have h: "host_bytes False 2 (get_short False m (a + 2 * K) AND 0x0fff) = [?x, ?y AND 0x0f]" by (simp add: host_bytes_def le_bytes_2)
  have l: "2 * Suc K = 2 * K + 2" by simp
  have c: "map (\<lambda>i. if odd i then bytes_at m a (2 * K + 2) ! i AND 0x0f else bytes_at m a (2 * K + 2) ! i) [0..<2 * K] = mask12 (bytes_at m a (2 * K))"
    unfolding mask12_def by simp
  show ?case unfolding l using c by (simp add: Suc h mask12_def)
qed (simp add: mask12_def)

lemma CompressBitmap_packed:
  assumes "pbm_ok pbm" "CompressBitmap False m a pbm = Some (r, pbm')"
  shows "r = NoError \<and> packed pbm pbm' (loaded_bits True pbm)"
proof -
  obtain h bits where p: "pbm = (h, bits)" by (cases pbm)
  let ?m = "put_bytes m a bits" and ?n = "length bits" and ?bpp = "sint (iBitsPerPixel h)"
  note S = pbm_ok_sizes [OF assms(1), unfolded p fst_conv snd_conv]
  have bits: "bytes_at ?m a ?n = bits" by simp
  let ?R = "if ?bpp \<le> 8 then (1 :: 32 word, CompressByteData ?m [] a ?n) else if ?bpp = 12 then (2, CompressTwelveBitData False ?m [] a ?n)
    else if ?bpp = 16 then (3, CompressSixteenBitData False ?m [] a ?n) else if ?bpp = 24 then (4, CompressTwentyFourBitData ?m [] a ?n)
    else (0, NoCompression, [])"
  obtain c ret enc where R: "?R = (c, ret, enc)" by (metis prod_cases3)
  have run: "CompressBitmap False m a pbm = (if length enc > ?n then None else
      if ret \<noteq> NoError then Some (if ret = NoCompression then NoError else ret, pbm)
      else Some (NoError, h\<lparr>iBitmapSize := of_nat (length enc + headerSize), iCompression := c\<rparr>, enc @ replicate (?n - length enc) 0xff))"
    using R by (simp add: CompressBitmap_def p Let_def S(1) cong: if_cong)
  have L: "length enc \<le> ?n" using run assms(2) by (auto split: if_splits)
  have out: "loaded_bits True pbm = (if ?bpp = 12 then mask12 bits else bits)" by (simp add: loaded_bits_def p)
  have K: "?R = (c, ret, enc) \<Longrightarrow> ret \<in> {NoError, NoCompression} \<and> (ret \<noteq> NoError \<longrightarrow> ?bpp \<noteq> 12) \<and>
      (ret = NoError \<longrightarrow> (c = 3 \<or> even (length enc) \<or> ?bpp \<notin> {12, 16}) \<and>
        (c = 1 \<and> rle 1 enc (loaded_bits True pbm) \<or> c = 2 \<and> (\<exists>ws. enc = shorts_bytes False ws \<and> loaded_bits True pbm = shorts_bytes False (expand12 ws)) \<or>
         c = 3 \<and> ?bpp = 16 \<and> even (length (loaded_bits True pbm)) \<and> rle 2 enc (loaded_bits True pbm) \<or> c = 4 \<and> rle 3 enc (loaded_bits True pbm)))"
  proof -
    assume R: "?R = (c, ret, enc)"
    consider (b) "?bpp \<le> 8" | (t) "?bpp = 12" | (s) "?bpp = 16" | (f) "?bpp = 24" | (o) "?bpp > 8" "?bpp \<notin> {12, 16, 24}" by fastforce
    then show ?thesis
    proof cases
      case b
      then have "c = 1" "CompressByteData ?m [] a ?n = (ret, enc)" using R by simp_all
      then show ?thesis using CompressByteData_rle [of ?m "[]" a ?n ret enc] b out bits by auto
    next
      case t
      obtain ws where ws: "CompressTwelveBitData False ?m [] a (2 * (?n div 2)) = (NoError, shorts_bytes False ws)"
        "expand12 ws = map (\<lambda>i. get_short False ?m (a + 2 * i) AND 0x0fff) [0..<?n div 2]"
        using CompressTwelveBitData_expand [of False ?m "[]" a "?n div 2"] by auto
      have n: "2 * (?n div 2) = ?n" using S(3) by simp
      have "c = 2" "ret = NoError" "enc = shorts_bytes False ws" using R t ws(1) n by simp_all
      moreover have "shorts_bytes False (expand12 ws) = mask12 bits" unfolding ws(2) mask12_shorts n bits ..
      ultimately show ?thesis using t out by auto
    next
      case s
      have n: "2 * (?n div 2) = ?n" "?n div 2 * 2 = ?n" using S(3) by simp_all
      have "c = 3" "CompressSixteenBitData False ?m [] a ?n = (ret, enc)" using R s by simp_all
      then show ?thesis using CompressSixteenBitData_rle [of False ?m "[]" a "?n div 2" ret enc, unfolded short_bytes_little n] s out S(3) bits
        by auto
    next
      case f
      have n: "3 * (?n div 3) = ?n" "?n div 3 * 3 = ?n" using S(4) f by simp_all
      have "c = 4" "CompressTwentyFourBitData ?m [] a ?n = (ret, enc)" using R f by simp_all
      then show ?thesis using CompressTwentyFourBitData_rle [of ?m "[]" a "?n div 3" ret enc, unfolded n] f out bits by auto
    next
      case o
      then show ?thesis using R by simp
    qed
  qed
  note K = K [OF R]
  show ?thesis
  proof (cases "ret = NoError")
    case True
    have "length (loaded_bits True pbm) = length (snd pbm)" by (simp add: loaded_bits_def mask12_def)
    from packed_compressed [OF assms(1) _ this, of enc c "replicate (?n - length enc) 0xff"] K True L p run assms(2) show ?thesis by auto
  next
    case False
    then have "pbm' = pbm" "r = NoError" using run assms(2) K L by (auto split: if_splits)
    then show ?thesis using packed_plain [OF assms(1)] False K by (simp add: loaded_bits_def p)
  qed
qed

section \<open>Loading\<close>

lemma DoLoadFile_packed:
  assumes "pbm_ok pbm" "packed pbm pbm' out" "f = xs @ bitmap_bytes pbm' @ ys"
  shows "DoLoadFile False m a f (length xs) =
    Some (Inr (NoError, \<lparr>iOriginalPbmHeader = fst pbm', iPbmHeader = fst pbm, iPbmBits = out\<rparr>))"
proof -
  let ?h' = "fst pbm'" and ?h = "fst pbm" and ?enc = "stored_bits pbm'"
  obtain n c where h': "?h' = ?h\<lparr>iBitmapSize := of_nat (n + headerSize), iCompression := c\<rparr>" and n: "n \<le> length (snd pbm)" "length ?enc = n"
    and out: "length out = length (snd pbm)" and e: "c = 0 \<and> ?enc = out \<or> c = 1 \<and> rle 1 ?enc out \<or>
        c = 2 \<and> (\<exists>ws. ?enc = shorts_bytes False ws \<and> out = shorts_bytes False (expand12 ws)) \<or>
        c = 3 \<and> sint (iBitsPerPixel ?h) = 16 \<and> even (length out) \<and> rle 2 ?enc out \<or> c = 4 \<and> rle 3 ?enc out"
    using assms(2) unfolding packed_def by blast
  note S = pbm_ok_sizes [OF assms(1)]
  have ok: "iStructSize ?h = 40" "iCompression ?h = 0" "int (length (snd pbm)) = ByteWidth (sint (iWidthInPixels ?h)) (sint (iBitsPerPixel ?h)) * sint (iHeightInPixels ?h)"
    using assms(1) unfolding pbm_ok_def by blast+
  have f: "f = xs @ words (header_members ?h') @ ?enc @ ys" using assms(3) by (simp add: bitmap_bytes_def)
  have hdr: "read_at f (length xs) 40 = words (header_members ?h')" using f by (intro read_at_mid) (auto simp: header_members_def)
  have bd: "read_at f (length xs + 40) n = ?enc" using f n(2) by (intro read_at_mid [of f "xs @ words (header_members ?h')"]) (auto simp: header_members_def)
  have "sint (of_nat (n + headerSize) :: 32 word) = int (n + headerSize)" using S(2) n(1) by (intro sint_size) simp
  then have sz: "sint (iBitmapSize ?h') - sint (iStructSize ?h') = int n" using ok(1) by (simp add: h')
  let ?m = "put_bytes m a ?enc" and ?x = "ByteWidth (sint (iWidthInPixels ?h)) (sint (iBitsPerPixel ?h)) * sint (iHeightInPixels ?h)"
  have x: "?x = int (length out)" using ok(3) out by simp
  have mem: "bytes_at ?m a (length ?enc) = ?enc" by simp
  have "iBitmapSize ?h = of_nat (n + headerSize) + word_of_int (?x - int n)"
    unfolding S(5) x by (simp add: out)
  then have bk: "?h'\<lparr>iCompression := ENoBitmapCompression, iBitmapSize := iBitmapSize ?h' + word_of_int (?x - int n)\<rparr> = ?h"
    using ok(2) by (cases "?h") (simp add: h')
  have E: "(if c = 1 then ExpandByteRLEData ?m (nat ?x) a n else if c = 2 then ExpandTwelveBitRLEData False ?m (nat ?x) a n
      else if c = 3 then ExpandSixteenBitRLEData False ?m (nat ?x) a n else if c = 4 then ExpandTwentyFourBitRLEData ?m (nat ?x) a n
      else Some (UnknownCompression, [])) = Some (NoError, out)" if "c \<noteq> 0"
  proof -
    have t: "ExpandTwelveBitRLEData False ?m (length out) a n = Some (NoError, out)" if "?enc = shorts_bytes False ws" "out = shorts_bytes False (expand12 ws)" for ws
    proof -
      have "bytes_at ?m a (2 * length ws) = shorts_bytes False ws" using mem that(1) by simp
      from ExpandTwelveBitRLEData_expand12 [OF this, of False] show ?thesis using that n(2) by simp
    qed
    show ?thesis unfolding x nat_int using e that t expand_rle [OF mem, unfolded n(2)] by auto
  qed
  have w: "iCompression ?h' = c" "iWidthInPixels ?h' = iWidthInPixels ?h" "iHeightInPixels ?h' = iHeightInPixels ?h" "iBitsPerPixel ?h' = iBitsPerPixel ?h"
    by (simp_all add: h')
  have l: "length (words (header_members ?h')) = 40" by (simp add: header_members_def)
  show ?thesis
  proof (cases "c = 0")
    case True
    have "?h' = ?h" using ok(2) bk e True n out x h' S(5) by (cases "?h") auto
    then show ?thesis unfolding DoLoadFile_def Let_def hdr l parse_header_members sz nat_int bd n(2) w using True e by simp
  next
    case False
    show ?thesis unfolding DoLoadFile_def Let_def hdr l parse_header_members sz nat_int bd n(2) w E [OF False] bk
      using False x by simp
  qed
qed

section \<open>The file\<close>

definition offsets :: "pbm list \<Rightarrow> nat \<Rightarrow> nat" where
  "offsets pbms i = 20 + length (concat (map bitmap_bytes (take i pbms)))"

lemma length_bitmap_bytes:
  assumes "sized pbm"
  shows "int (length (bitmap_bytes pbm)) = sint (iBitmapSize (fst pbm))" "of_nat (length (bitmap_bytes pbm)) = iBitmapSize (fst pbm)"
proof -
  show e: "int (length (bitmap_bytes pbm)) = sint (iBitmapSize (fst pbm))"
    using assms by (auto simp: bitmap_bytes_def stored_bits_def header_members_def sized_def min_def)
  have "(of_nat (length (bitmap_bytes pbm)) :: 32 word) = word_of_int (int (length (bitmap_bytes pbm)))" by simp
  then show "of_nat (length (bitmap_bytes pbm)) = iBitmapSize (fst pbm)" unfolding e by (simp only: of_int_sint scast_id)
qed

lemma offsets_Suc: "i < length pbms \<Longrightarrow> offsets pbms (Suc i) = offsets pbms i + length (bitmap_bytes (pbms ! i))"
  by (simp add: offsets_def take_Suc_conv_app_nth)

lemma sizes_sum:
  assumes "\<forall>pbm\<in>set pbms. sized pbm"
  shows "fold (\<lambda>pbm n. n + iBitmapSize (fst pbm)) pbms w = w + of_nat (length (concat (map bitmap_bytes pbms)))"
  using assms by (induction pbms arbitrary: w) (simp_all add: length_bitmap_bytes(2) add.assoc)

lemma WriteFileheader_words:
  assumes "\<forall>pbm\<in>set pbms. sized pbm"
  shows "WriteFileheader pbms [] = words [KWriteOnceFileStoreUid, KMultiBitmapFileImageUid, 0, KMultiBitmapFileImageChecksum, of_nat (offsets pbms (length pbms))]"
proof -
  have "(16 + of_nat n + 4 :: 32 word) = of_nat (20 + n)" for n by simp
  then show ?thesis unfolding WriteFileheader_def Let_def sizes_sum [OF assms] by (simp add: Write32_le_bytes offsets_def)
qed

lemma WriteHeadStream_words:
  assumes "\<forall>pbm\<in>set pbms. sized pbm"
  shows "WriteHeadStream pbms f = f @ words (of_nat (length pbms) # map (of_nat \<circ> offsets pbms) [0..<length pbms])"
proof -
  let ?step = "\<lambda>pbm (byteswritten, f). (byteswritten + iBitmapSize (fst pbm), Write32 f byteswritten)"
  have "fold ?step (take k pbms) (20, g) = (of_nat (offsets pbms k), g @ words (map (of_nat \<circ> offsets pbms) [0..<k]))" if "k \<le> length pbms" for k g
    using that
  proof (induction k)
    case 0
    then show ?case by (simp add: offsets_def)
  next
    case (Suc k)
    then have k: "k < length pbms" "take (Suc k) pbms = take k pbms @ [pbms ! k]" by (simp_all add: take_Suc_conv_app_nth)
    have "of_nat (offsets pbms (Suc k)) = of_nat (offsets pbms k) + iBitmapSize (fst (pbms ! k))"
      using length_bitmap_bytes(2) assms k(1) by (simp add: offsets_Suc)
    then show ?case using Suc k by (simp add: Write32_le_bytes)
  qed
  from this [of "length pbms"] show ?thesis by (simp add: WriteHeadStream_def Write32_le_bytes)
qed

lemma write_sources_bytes:
  assumes "\<forall>pbm\<in>set pbms. sized pbm \<and> (iCompression (fst pbm) = ESixteenBitRLECompression \<longrightarrow> c \<and> sint (iBitsPerPixel (fst pbm)) = 16)"
  shows "write_sources False c pbms f = (NoError, f @ concat (map bitmap_bytes pbms))"
  using assms
proof (induction pbms arbitrary: f)
  case (Cons pbm pbms)
  then have "WriteFilebitmap False pbm c f = (NoError, f @ bitmap_bytes pbm)" for f by (intro WriteFilebitmap_bytes) simp_all
  moreover have "write_sources False c pbms (f @ bitmap_bytes pbm) = (NoError, (f @ bitmap_bytes pbm) @ concat (map bitmap_bytes pbms))"
    using Cons.prems by (intro Cons.IH) simp
  ultimately show ?case by simp
qed simp

text \<open>The file that is written, and what its loader finds\<close>

definition file_bytes :: "pbm list \<Rightarrow> byte list" where
  "file_bytes pbms = words [KWriteOnceFileStoreUid, KMultiBitmapFileImageUid, 0, KMultiBitmapFileImageChecksum, of_nat (offsets pbms (length pbms))] @
     concat (map bitmap_bytes pbms) @ words (of_nat (length pbms) # map (of_nat \<circ> offsets pbms) [0..<length pbms])"

lemma LoadFile_bitmap:
  assumes "length (file_bytes pbms) < 2 ^ 31" "i < length pbms"
  shows "\<exists>xs ys. file_bytes pbms = xs @ bitmap_bytes (pbms ! i) @ ys \<and> LoadFile False m a (file_bytes pbms) i = DoLoadFile False m a (file_bytes pbms) (length xs)"
proof -
  let ?f = "file_bytes pbms" and ?n = "length pbms"
  let ?head = "words [KWriteOnceFileStoreUid, KMultiBitmapFileImageUid, 0, KMultiBitmapFileImageChecksum, of_nat (offsets pbms ?n)]"
  have len: "offsets pbms ?n + 4 + 4 * ?n < 2 ^ 31" using assms(1) by (simp add: file_bytes_def offsets_def)
  have mono: "offsets pbms i \<le> offsets pbms ?n"
  proof -
    have "concat (map bitmap_bytes pbms) = concat (map bitmap_bytes (take i pbms)) @ concat (map bitmap_bytes (drop i pbms))"
      by (metis append_take_drop_id concat_append map_append)
    then show ?thesis by (simp add: offsets_def)
  qed
  have u: "unat (of_nat (offsets pbms k) :: 32 word) = offsets pbms k" if "offsets pbms k \<le> offsets pbms ?n" for k
    using that len by (simp add: unat_of_nat)
  have R: "read_u32 ?f (4 * i) = Some ([KWriteOnceFileStoreUid, KMultiBitmapFileImageUid, 0, KMultiBitmapFileImageChecksum, of_nat (offsets pbms ?n)] ! i)"
    if "i < 5" for i
  proof -
    have F: "?f = [] @ ?head @ concat (map bitmap_bytes pbms) @ words (of_nat ?n # map (of_nat \<circ> offsets pbms) [0..<?n])"
      unfolding file_bytes_def by (simp only: append_Nil)
    show ?thesis using read_u32_words [OF F, of i "4 * i"] that by simp
  qed
  have r: "read_u32 ?f 0 = Some KWriteOnceFileStoreUid" "read_u32 ?f 4 = Some KMultiBitmapFileImageUid" "read_u32 ?f 8 = Some 0"
    "read_u32 ?f 12 = Some KMultiBitmapFileImageChecksum" "read_u32 ?f 16 = Some (of_nat (offsets pbms ?n))"
    using R [of 0] R [of 1] R [of 2] R [of 3] R [of 4] by simp_all
  let ?xs = "?head @ concat (map bitmap_bytes pbms)"
  have xs: "length ?xs = offsets pbms ?n" by (simp add: offsets_def)
  have f: "?f = ?xs @ words (of_nat ?n # map (of_nat \<circ> offsets pbms) [0..<?n]) @ []" by (simp add: file_bytes_def)
  have n: "read_u32 ?f (offsets pbms ?n) = Some (of_nat ?n)" using read_u32_words [OF f, of 0 "offsets pbms ?n"] xs by simp
  have o: "read_u32 ?f (offsets pbms ?n + 4 + i * 4) = Some (of_nat (offsets pbms i))"
  proof -
    have p: "offsets pbms ?n + 4 + i * 4 = length ?xs + 4 * Suc i" unfolding xs by simp
    have "Suc i < length (of_nat ?n # map (of_nat \<circ> offsets pbms) [0..<?n] :: 32 word list)" using assms(2) by simp
    from read_u32_words [OF f this p] assms(2) show ?thesis by simp
  qed
  have s: "sint (of_nat ?n :: 32 word) = int ?n" using len by (simp add: signed_of_nat signed_take_bit_int_eq_self)
  have L: "LoadFile False m a ?f i = DoLoadFile False m a ?f (offsets pbms i)"
    using assms(2) mono by (simp add: LoadFile_def r u n o s)
  have "concat (map bitmap_bytes pbms) = concat (map bitmap_bytes (take i pbms)) @ bitmap_bytes (pbms ! i) @ concat (map bitmap_bytes (drop (Suc i) pbms))"
    using id_take_nth_drop [OF assms(2)] by (metis append.assoc concat.simps(2) concat_append list.simps(9) map_append)
  then have "?f = (?head @ concat (map bitmap_bytes (take i pbms))) @ bitmap_bytes (pbms ! i) @
      concat (map bitmap_bytes (drop (Suc i) pbms)) @ words (of_nat ?n # map (of_nat \<circ> offsets pbms) [0..<?n])"
    by (simp add: file_bytes_def)
  moreover have "length (?head @ concat (map bitmap_bytes (take i pbms))) = offsets pbms i" by (simp add: offsets_def)
  ultimately show ?thesis using L by metis
qed

lemma packed_sized: "packed pbm pbm' out \<Longrightarrow> sized pbm' \<and> (iCompression (fst pbm') = ESixteenBitRLECompression \<longrightarrow> sint (iBitsPerPixel (fst pbm')) = 16)"
  unfolding packed_def by auto

lemma compress_sources_packed:
  assumes "\<forall>pbm\<in>set pbms. pbm_ok pbm" "compress_sources False m a pbms = Some (r, pbms')"
  shows "r = NoError \<and> list_all2 (\<lambda>pbm pbm'. packed pbm pbm' (loaded_bits True pbm)) pbms pbms'"
  using assms
proof (induction pbms arbitrary: r pbms')
  case (Cons pbm pbms)
  then obtain r1 p1 where c: "CompressBitmap False m a pbm = Some (r1, p1)" by (auto split: option.splits)
  from CompressBitmap_packed [OF _ this] Cons.prems(1) have p: "r1 = NoError" "packed pbm p1 (loaded_bits True pbm)" by simp_all
  then obtain r2 ps where "compress_sources False m a pbms = Some (r2, ps)" "r = r2" "pbms' = p1 # ps"
    using Cons.prems(2) c by auto
  then show ?case using Cons.IH [of r2 ps] Cons.prems(1) p by simp
qed simp

lemma FileImage_bytes:
  assumes "\<forall>pbm\<in>set pbms. pbm_ok pbm" "FileImage False m a c pbms = Some (r, f)"
  obtains pbms' where "r = NoError" "f = file_bytes pbms'" "list_all2 (\<lambda>pbm pbm'. packed pbm pbm' (loaded_bits c pbm)) pbms pbms'"
proof -
  obtain r1 ps where s: "(if c then compress_sources False m a pbms else Some (NoError, pbms)) = Some (r1, ps)"
    using assms(2) by (cases "if c then compress_sources False m a pbms else Some (NoError, pbms)") (auto simp: FileImage_def)
  have p: "r1 = NoError" "list_all2 (\<lambda>pbm pbm'. packed pbm pbm' (loaded_bits c pbm)) pbms ps"
  proof -
    have "list_all2 (\<lambda>pbm pbm'. packed pbm pbm' (loaded_bits False pbm)) pbms pbms"
      using assms(1) packed_plain by (auto simp: list_all2_same loaded_bits_def)
    then show "r1 = NoError" "list_all2 (\<lambda>pbm pbm'. packed pbm pbm' (loaded_bits c pbm)) pbms ps"
      using s compress_sources_packed [OF assms(1)] by (cases c, auto)+
  qed
  have "\<forall>q\<in>set ps. sized q \<and> (iCompression (fst q) = ESixteenBitRLECompression \<longrightarrow> c \<and> sint (iBitsPerPixel (fst q)) = 16)"
  proof
    fix q assume "q \<in> set ps"
    then obtain i where i: "i < length ps" "q = ps ! i" by (metis in_set_conv_nth)
    then have q: "packed (pbms ! i) q (loaded_bits c (pbms ! i))" using p(2) by (simp add: list_all2_conv_all_nth)
    have "iCompression (fst q) = 0" if "\<not> c"
    proof -
      have "q \<in> set pbms" using s that \<open>q \<in> set ps\<close> by simp
      then show ?thesis using assms(1) unfolding pbm_ok_def by blast
    qed
    then show "sized q \<and> (iCompression (fst q) = ESixteenBitRLECompression \<longrightarrow> c \<and> sint (iBitsPerPixel (fst q)) = 16)"
      using packed_sized [OF q] by (cases c) auto
  qed
  note w = write_sources_bytes [OF this] and z = this
  then have z: "\<forall>q\<in>set ps. sized q" using z by blast
  have "f = file_bytes ps" "r = NoError"
    using assms(2) s p(1) w unfolding FileImage_def file_bytes_def by (simp_all add: WriteHeadStream_words [OF z] WriteFileheader_words [OF z])
  then show thesis using that p(2) by blast
qed

text \<open>
  C11. Bitmaps survive \<open>bmconv\<close>: every bitmap of a file that \<open>FileImage\<close> has written is loaded with its header and its
  bits, whether the file is compressed or not; only the unused upper bits of pixels of twelve bits are cleared by compression.
\<close>

theorem FileImage_LoadFile:
  assumes "\<forall>pbm\<in>set pbms. pbm_ok pbm" "FileImage False m a c pbms = Some (r, f)" "length f < 2 ^ 31" "i < length pbms"
  shows "r = NoError \<and> (\<exists>h. LoadFile False m' a' f i =
    Some (Inr (NoError, \<lparr>iOriginalPbmHeader = h, iPbmHeader = fst (pbms ! i), iPbmBits = loaded_bits c (pbms ! i)\<rparr>)))"
proof -
  obtain ps where p: "r = NoError" "f = file_bytes ps" "list_all2 (\<lambda>pbm pbm'. packed pbm pbm' (loaded_bits c pbm)) pbms ps"
    using FileImage_bytes [OF assms(1,2)] by blast
  then have i: "i < length ps" "packed (pbms ! i) (ps ! i) (loaded_bits c (pbms ! i))" "pbm_ok (pbms ! i)"
    using assms(1,4) by (auto simp: list_all2_conv_all_nth)
  obtain xs ys where x: "f = xs @ bitmap_bytes (ps ! i) @ ys" "LoadFile False m' a' f i = DoLoadFile False m' a' f (length xs)"
    using LoadFile_bitmap [OF assms(3) [unfolded p(2)] i(1)] unfolding p(2) by blast
  show ?thesis using DoLoadFile_packed [OF i(3,2) x(1)] x(2) p(1) by auto
qed

text \<open>A bitmap of eight gray pixels\<close>

definition sample_pbm :: pbm where
  "sample_pbm = (\<lparr>iBitmapSize = 48, iStructSize = 40, iWidthInPixels = 8, iHeightInPixels = 1, iWidthInTwips = 0, iHeightInTwips = 0,
     iBitsPerPixel = 8, iColor = 0, iPaletteEntries = 0, iCompression = 0\<rparr>, replicate 8 7)"

lemma sample_pbm_ok: "pbm_ok sample_pbm"
  by (simp add: sample_pbm_def pbm_ok_def ByteWidth_def quot_def)

lemma CompressBitmap_succeeds:
  assumes "pbm_ok pbm" "sint (iBitsPerPixel (fst pbm)) \<in> {1, 2, 4, 8, 12, 32}"
  shows "\<exists>pbm'. CompressBitmap False m a pbm = Some (NoError, pbm')"
proof -
  obtain h bits where p: "pbm = (h, bits)" by (cases pbm)
  let ?m = "put_bytes m a bits" and ?n = "length bits" and ?bpp = "sint (iBitsPerPixel h)"
  note S = pbm_ok_sizes [OF assms(1), unfolded p fst_conv snd_conv]
  have b: "length (snd (CompressByteData ?m [] a ?n)) \<le> ?n" using CompressByteData_rle [of ?m "[]" a ?n] by (metis add_0 list.size(3) prod.collapse)
  have t: "length (snd (CompressTwelveBitData False ?m [] a ?n)) \<le> ?n"
  proof -
    have n: "2 * (?n div 2) = ?n" using S(3) by simp
    from CompressTwelveBitData_expand [of False ?m "[]" a "?n div 2"] obtain ws where
      "CompressTwelveBitData False ?m [] a ?n = (NoError, [] @ shorts_bytes False ws)" "length ws \<le> ?n div 2" unfolding n by blast
    then show ?thesis by simp
  qed
  have "CompressBitmap False m a pbm \<noteq> None"
  proof -
    consider "?bpp \<le> 8" | "?bpp = 12" | "?bpp = 32" using assms(2) p by auto
    then show ?thesis
    proof cases
      case 1
      obtain ret enc where "CompressByteData ?m [] a ?n = (ret, enc)" by fastforce
      then show ?thesis using 1 b by (simp add: CompressBitmap_def p Let_def S(1))
    next
      case 2
      obtain ret enc where "CompressTwelveBitData False ?m [] a ?n = (ret, enc)" by fastforce
      then show ?thesis using 2 t by (simp add: CompressBitmap_def p Let_def S(1))
    next
      case 3
      then show ?thesis by (simp add: CompressBitmap_def p Let_def S(1))
    qed
  qed
  then obtain r pbm' where "CompressBitmap False m a pbm = Some (r, pbm')" by auto
  then show ?thesis using CompressBitmap_packed [OF assms(1)] by blast
qed

lemma FileImage_None: "FileImage be m a c pbms = None \<longleftrightarrow> c \<and> compress_sources be m a pbms = None"
  by (auto simp: FileImage_def Let_def split: option.splits prod.splits if_splits)

lemma FileImage_returns:
  assumes "\<forall>pbm\<in>set pbms. pbm_ok pbm" "c \<longrightarrow> (\<forall>pbm\<in>set pbms. sint (iBitsPerPixel (fst pbm)) \<in> {1, 2, 4, 8, 12, 32})"
  shows "\<exists>f. FileImage False m a c pbms = Some (NoError, f) \<and> length f \<le> 24 + (\<Sum>pbm\<leftarrow>pbms. 44 + length (snd pbm))"
proof -
  have "compress_sources False m a ps \<noteq> None" if "\<forall>pbm\<in>set ps. pbm_ok pbm \<and> sint (iBitsPerPixel (fst pbm)) \<in> {1, 2, 4, 8, 12, 32}" for ps
    using that
  proof (induction ps)
    case (Cons p ps)
    then have "\<exists>p'. CompressBitmap False m a p = Some (NoError, p')" by (intro CompressBitmap_succeeds) simp_all
    then obtain p' where "CompressBitmap False m a p = Some (NoError, p')" by blast
    then show ?case using Cons by simp
  qed simp
  then have "compress_sources False m a pbms \<noteq> None" if c using assms that by blast
  then have "FileImage False m a c pbms \<noteq> None" by (auto simp: FileImage_None)
  then obtain r f where f: "FileImage False m a c pbms = Some (r, f)" by auto
  obtain ps where ps: "r = NoError" "f = file_bytes ps" "list_all2 (\<lambda>pbm pbm'. packed pbm pbm' (loaded_bits c pbm)) pbms ps"
    by (rule FileImage_bytes [OF assms(1) f])
  have b: "length (bitmap_bytes q) \<le> 40 + length (snd p)" if "packed p q out" for p q out
    using that by (auto simp: packed_def bitmap_bytes_def header_members_def)
  have "length (concat (map bitmap_bytes ps)) + 4 * length ps \<le> (\<Sum>pbm\<leftarrow>pbms. 44 + length (snd pbm))"
    using ps(3)
  proof (induction rule: list_all2_induct)
    case (Cons p pbms q ps)
    then show ?case using b [of p q "loaded_bits c p"] by simp
  qed simp
  then have "length f \<le> 24 + (\<Sum>pbm\<leftarrow>pbms. 44 + length (snd pbm))" unfolding ps(2) file_bytes_def by simp
  then show ?thesis using f ps(1) by blast
qed

text \<open>
  C18. \<open>FileImage\<close> always succeeds without compression and for bitmaps of up to twelve and of 32 bits: no buffer overflows, there is no
  error, and the file is at most as long as the uncompressed bitmaps with their headers and offsets.
\<close>

theorem FileImage_succeeds:
  assumes "\<forall>pbm\<in>set pbms. pbm_ok pbm" "c \<longrightarrow> (\<forall>pbm\<in>set pbms. sint (iBitsPerPixel (fst pbm)) \<in> {1, 2, 4, 8, 12, 32})"
  shows "\<exists>f. FileImage False m a c pbms = Some (NoError, f) \<and> length f \<le> 24 + (\<Sum>pbm\<leftarrow>pbms. 44 + length (snd pbm))"
  using assms by (rule FileImage_returns)

theorem FileImage_succeeds_witness: "\<exists>f. FileImage False (\<lambda>_. 0) 0 True [sample_pbm] = Some (NoError, f) \<and> length f \<le> 76"
  using FileImage_succeeds [of "[sample_pbm]" True "\<lambda>_. 0" 0] sample_pbm_ok by (simp add: sample_pbm_def)

lemma sample_file: "\<exists>f. FileImage False (\<lambda>_. 0) 0 True [sample_pbm] = Some (NoError, f) \<and> length f < 2 ^ 31"
  using FileImage_returns [of "[sample_pbm]" True "\<lambda>_. 0" 0] sample_pbm_ok by (auto simp: sample_pbm_def)

theorem FileImage_LoadFile_witness:
  "\<exists>f h. FileImage False (\<lambda>_. 0) 0 True [sample_pbm] = Some (NoError, f) \<and>
    LoadFile False (\<lambda>_. 1) 4 f 0 = Some (Inr (NoError, \<lparr>iOriginalPbmHeader = h, iPbmHeader = fst sample_pbm, iPbmBits = replicate 8 7\<rparr>))"
proof -
  obtain f where f: "FileImage False (\<lambda>_. 0) 0 True [sample_pbm] = Some (NoError, f)" "length f < 2 ^ 31" using sample_file by blast
  have "\<forall>pbm\<in>set [sample_pbm]. pbm_ok pbm" "loaded_bits True sample_pbm = replicate 8 7" using sample_pbm_ok by (simp_all add: loaded_bits_def sample_pbm_def)
  then show ?thesis using FileImage_LoadFile [OF _ f, of 0 "\<lambda>_. 1" 4] f(1) by auto
qed

section \<open>Data that does not compress\<close>

lemma sixteen_data_all:
  assumes "\<And>i. i < j \<Longrightarrow> get_short be m (p + 2 * i + 2) \<noteq> get_short be m (p + 2 * i)"
  shows "sixteen_data be m (p + j * 2) (get_short be m p) p = p + j * 2"
  using assms
proof (induction j arbitrary: p)
  case 0
  then show ?case by (simp add: sixteen_data.simps)
next
  case (Suc j)
  have "sixteen_data be m (p + 2 + j * 2) (get_short be m (p + 2)) (p + 2) = p + 2 + j * 2"
    using Suc.prems [of "Suc _"] by (intro Suc.IH) (simp add: algebra_simps)
  moreover have "get_short be m (p + 2) \<noteq> get_short be m p" using Suc.prems [of 0] by simp
  ultimately show ?case by (subst sixteen_data.simps) (simp add: add.assoc)
qed

lemma CompressSixteenBitData_overrun:
  assumes "258 \<le> K" "\<And>i. i + 1 < K \<Longrightarrow> get_short be m (a + 2 * i + 2) \<noteq> get_short be m (a + 2 * i)"
  shows "2 * K < length (snd (CompressSixteenBitData be m [] a (2 * K)))"
proof -
  let ?lim = "a + 2 * K" and ?v = "get_short be m (a + 2)"
  have l: "?lim - 2 = a + 2 + (K - 2) * 2" using assms(1) by simp
  have d: "sixteen_data be m (?lim - 2) ?v (a + 2) = ?lim - 2"
    unfolding l
  proof (rule sixteen_data_all)
    fix i assume "i < K - 2"
    then show "get_short be m (a + 2 + 2 * i + 2) \<noteq> get_short be m (a + 2 + 2 * i)" using assms(2) [of "Suc i"] by (simp add: algebra_simps)
  qed
  obtain enc where e: "WriteCompressedSixteenBitData be m [] a (K - 1) = (NoError, enc)" "length enc = (K - 1) * 2 + (K - 1 + 127) div 128"
    using short_writer.write_data_rle [of "K - 1" be m "[]" a] assms(1) by auto
  have "3 \<le> (K - 1 + 127) div 128" using assms(1) by (simp add: less_eq_div_iff_mult_less_eq)
  then have n: "2 * K < length enc" using e(2) assms(1) by linarith
  have "(?lim - 2 - a) div 2 = K - 1" using assms(1) by simp
  moreover have "?v \<noteq> get_short be m a" using assms(2) [of 0] assms(1) by simp
  moreover have "a < ?lim - 2" "2 * K * 7 div 8 < length enc" using assms(1) n by linarith+
  ultimately have "sixteen_loop be m ?lim (2 * K * 7 div 8) a [] = (NoCompression, ?lim - 2, enc)"
    using d e(1) by (subst sixteen_loop.simps) (simp add: Let_def)
  then show ?thesis using n by (simp add: CompressSixteenBitData_def Let_def)
qed

text \<open>
  C19. Compression of a bitmap of sixteen bits in which no two neighbouring pixels are equal writes behind the end of its
  buffer, from 258 pixels on: the size of the output is only compared with the limit after a packet has been written.
\<close>

theorem CompressBitmap_overrun:
  assumes "pbm_ok pbm" "sint (iBitsPerPixel (fst pbm)) = 16" "516 \<le> length (snd pbm)"
    and "\<And>i. 2 * i + 3 < length (snd pbm) \<Longrightarrow> (snd pbm ! (2 * i), snd pbm ! (2 * i + 1)) \<noteq> (snd pbm ! (2 * i + 2), snd pbm ! (2 * i + 3))"
  shows "CompressBitmap False m a pbm = None"
proof -
  obtain h bits where p: "pbm = (h, bits)" by (cases pbm)
  let ?m = "put_bytes m a bits" and ?n = "length bits"
  note S = pbm_ok_sizes [OF assms(1), unfolded p fst_conv snd_conv]
  have n: "2 * (?n div 2) = ?n" using S(3) by simp
  have g: "get_short False ?m (a + 2 * i + 2) \<noteq> get_short False ?m (a + 2 * i)" if "i + 1 < ?n div 2" for i
  proof
    have i: "2 * i + 3 < ?n" using that n by linarith
    assume "get_short False ?m (a + 2 * i + 2) = get_short False ?m (a + 2 * i)"
    then have "host_bytes False 2 (get_short False ?m (a + 2 * i + 2)) = host_bytes False 2 (get_short False ?m (a + 2 * i))" by simp
    then have "bytes_at ?m (a + 2 * i + 2) 2 = bytes_at ?m (a + 2 * i) 2" unfolding get_short_def by simp
    moreover have "bytes_at ?m (a + k) 2 = [bits ! k, bits ! (k + 1)]" if "k + 1 < ?n" for k
      using that put_bytes_inside [of k bits m a] put_bytes_inside [of "k + 1" bits m a] by (simp add: bytes_at_def upt_rec)
    from this [of "2 * i"] this [of "2 * i + 2"] have "bytes_at ?m (a + 2 * i) 2 = [bits ! (2 * i), bits ! (2 * i + 1)]"
      "bytes_at ?m (a + 2 * i + 2) 2 = [bits ! (2 * i + 2), bits ! (2 * i + 3)]" using i by (simp_all add: add.assoc numeral_3_eq_3)
    ultimately show False using assms(4) [of i] i p by simp
  qed
  have "258 \<le> ?n div 2" using assms(3) p by simp
  from CompressSixteenBitData_overrun [OF this g] have "?n < length (snd (CompressSixteenBitData False ?m [] a ?n))" unfolding n by simp
  moreover obtain ret enc where "CompressSixteenBitData False ?m [] a ?n = (ret, enc)" by fastforce
  ultimately show ?thesis using assms(2) p by (simp add: CompressBitmap_def Let_def S(1))
qed

text \<open>A line of 260 pixels that are black and nearly black in turn\<close>

definition sample_stripes :: pbm where
  "sample_stripes = (\<lparr>iBitmapSize = 560, iStructSize = 40, iWidthInPixels = 260, iHeightInPixels = 1, iWidthInTwips = 0, iHeightInTwips = 0,
     iBitsPerPixel = 16, iColor = 1, iPaletteEntries = 0, iCompression = 0\<rparr>, map (\<lambda>i. if i mod 4 = 2 then 1 else 0) [0..<520])"

theorem CompressBitmap_overrun_witness: "CompressBitmap False (\<lambda>_. 0) 0 sample_stripes = None"
proof (rule CompressBitmap_overrun)
  show "pbm_ok sample_stripes" by (simp add: sample_stripes_def pbm_ok_def ByteWidth_def quot_def)
  show "sint (iBitsPerPixel (fst sample_stripes)) = 16" "516 \<le> length (snd sample_stripes)" by (simp_all add: sample_stripes_def)
  fix i assume "2 * i + 3 < length (snd sample_stripes)"
  then have "2 * i < 520" "2 * i + 2 < 520" by (simp_all add: sample_stripes_def)
  moreover have "(2 * i mod 4 = 2) \<noteq> ((2 * i + 2) mod 4 = 2)" by presburger
  ultimately show "(snd sample_stripes ! (2 * i), snd sample_stripes ! (2 * i + 1)) \<noteq> (snd sample_stripes ! (2 * i + 2), snd sample_stripes ! (2 * i + 3))"
    by (auto simp: sample_stripes_def)
qed

end
