(* ===== verification/E32image.thy ===== *)
theory E32image
  imports Crc "HOL-Library.Monad_Syntax"
begin

text \<open>
  The file format of E32 images: \<open>e32image.cpp\<close> and \<open>e32image.h\<close> of \<open>elf2e32\<close> with \<open>stricmp\<close> of
  \<open>caseinsensitive.cpp\<close>: integers and headers in files, the capabilities of a program and the checksum of its
  identifiers.
\<close>

unbundle bit_operations_syntax

section \<open>Files\<close>

text \<open>
  A \<open>FILE\<close> of the standard library that is open for reading and writing: the bytes of the file and the
  position.  Writing beyond the end fills the gap with zeros.
\<close>

record FILE =
  fdata :: "byte list"
  fpos :: nat

definition f_write :: "byte list \<Rightarrow> FILE \<Rightarrow> FILE" where
  "f_write bs f =
    (if bs = [] then f
     else let d = fdata f @ replicate (fpos f - length (fdata f)) 0 in
       f\<lparr>fdata := take (fpos f) d @ bs @ drop (fpos f + length bs) d, fpos := fpos f + length bs\<rparr>)"

definition f_read :: "nat \<Rightarrow> FILE \<Rightarrow> byte list \<times> FILE" where
  "f_read n f = (let bs = take n (drop (fpos f) (fdata f)) in (bs, f\<lparr>fpos := fpos f + length bs\<rparr>))"

text \<open>\<open>fread\<close> into an uninitialised buffer of which every byte is used afterwards; \<open>None\<close> is a file that is too short\<close>

definition f_fill :: "nat \<Rightarrow> FILE \<Rightarrow> (byte list \<times> FILE) option" where
  "f_fill n f = (let (bs, f) = f_read n f in if length bs < n then None else Some (bs, f))"

section \<open>Integers in files\<close>

definition writeUint32 :: "32 word \<Rightarrow> FILE \<Rightarrow> FILE" where
  "writeUint32 value out = f_write [ucast value, ucast (drop_bit 8 value), ucast (drop_bit 16 value), ucast (drop_bit 24 value)] out"

definition writeUint16 :: "16 word \<Rightarrow> FILE \<Rightarrow> FILE" where
  "writeUint16 value out = f_write [ucast value, ucast (drop_bit 8 value)] out"

definition writeUint8 :: "byte \<Rightarrow> FILE \<Rightarrow> FILE" where
  "writeUint8 value out = f_write [value] out"

definition readUint32 :: "FILE \<Rightarrow> (32 word \<times> FILE) option" where
  "readUint32 f =
    do {
      (buf, f) \<leftarrow> f_fill 4 f;
      Some (ucast (buf ! 0) OR push_bit 8 (ucast (buf ! 1)) OR push_bit 16 (ucast (buf ! 2)) OR push_bit 24 (ucast (buf ! 3)), f)
    }"

definition readUint16 :: "FILE \<Rightarrow> (16 word \<times> FILE) option" where
  "readUint16 f =
    do {
      (buf, f) \<leftarrow> f_fill 2 f;
      Some (ucast (buf ! 0) OR push_bit 8 (ucast (buf ! 1)), f)
    }"

definition readUint8 :: "FILE \<Rightarrow> (byte \<times> FILE) option" where
  "readUint8 f = do { (buf, f) \<leftarrow> f_fill 1 f; Some (buf ! 0, f) }"

section \<open>Headers\<close>

text \<open>Signed and unsigned members alike are words; their signedness matters where they are compared.\<close>

record E32ImageHeader =
  uid1 :: "32 word"
  uid2 :: "32 word"
  uid3 :: "32 word"
  uidChecksum :: "32 word"
  signature :: "32 word"
  headerCrc :: "32 word"
  moduleVersion :: "32 word"
  compressionType :: "32 word"
  toolsVersion :: "32 word"
  timeLo :: "32 word"
  timeHi :: "32 word"
  hflags :: "32 word"
  codeSize :: "32 word"
  dataSize :: "32 word"
  heapSizeMin :: "32 word"
  heapSizeMax :: "32 word"
  stackSize :: "32 word"
  bssSize :: "32 word"
  entryPoint :: "32 word"
  codeBase :: "32 word"
  dataBase :: "32 word"
  dllRefTableCount :: "32 word"
  exportDirOffset :: "32 word"
  exportDirCount :: "32 word"
  textSize :: "32 word"
  codeOffset :: "32 word"
  dataOffset :: "32 word"
  importOffset :: "32 word"
  codeRelocOffset :: "32 word"
  dataRelocOffset :: "32 word"
  processPriority :: "16 word"
  cpuIdentifier :: "16 word"

record E32ImageHeaderComp =
  uncompressedSize :: "32 word"

record E32ImageHeaderV =
  secureId :: "32 word"
  vendorId :: "32 word"
  hcaps :: "32 word \<times> 32 word"
  exceptionDescriptor :: "32 word"
  spare2 :: "32 word"
  exportDescSize :: "16 word"
  exportDescType :: byte
  exportDesc :: byte

definition writeHeaders :: "FILE \<Rightarrow> E32ImageHeader \<Rightarrow> E32ImageHeaderComp \<Rightarrow> E32ImageHeaderV \<Rightarrow> FILE" where
  "writeHeaders out header headerComp headerV =
    (let
      out = writeUint32 (uid1 header) out;
      out = writeUint32 (uid2 header) out;
      out = writeUint32 (uid3 header) out;
      out = writeUint32 (uidChecksum header) out;
      out = writeUint32 (signature header) out;
      out = writeUint32 (headerCrc header) out;
      out = writeUint32 (moduleVersion header) out;
      out = writeUint32 (compressionType header) out;
      out = writeUint32 (toolsVersion header) out;
      out = writeUint32 (timeLo header) out;
      out = writeUint32 (timeHi header) out;
      out = writeUint32 (hflags header) out;
      out = writeUint32 (codeSize header) out;
      out = writeUint32 (dataSize header) out;
      out = writeUint32 (heapSizeMin header) out;
      out = writeUint32 (heapSizeMax header) out;
      out = writeUint32 (stackSize header) out;
      out = writeUint32 (bssSize header) out;
      out = writeUint32 (entryPoint header) out;
      out = writeUint32 (codeBase header) out;
      out = writeUint32 (dataBase header) out;
      out = writeUint32 (dllRefTableCount header) out;
      out = writeUint32 (exportDirOffset header) out;
      out = writeUint32 (exportDirCount header) out;
      out = writeUint32 (textSize header) out;
      out = writeUint32 (codeOffset header) out;
      out = writeUint32 (dataOffset header) out;
      out = writeUint32 (importOffset header) out;
      out = writeUint32 (codeRelocOffset header) out;
      out = writeUint32 (dataRelocOffset header) out;
      out = writeUint16 (processPriority header) out;
      out = writeUint16 (cpuIdentifier header) out;
      out = writeUint32 (uncompressedSize headerComp) out;
      out = writeUint32 (secureId headerV) out;
      out = writeUint32 (vendorId headerV) out;
      out = writeUint32 (fst (hcaps headerV)) out;
      out = writeUint32 (snd (hcaps headerV)) out;
      out = writeUint32 (exceptionDescriptor headerV) out;
      out = writeUint32 (spare2 headerV) out;
      out = writeUint16 (exportDescSize headerV) out;
      out = writeUint8 (exportDescType headerV) out;
      out = writeUint8 (exportDesc headerV) out
    in out)"

definition readHeaders :: "FILE \<Rightarrow> ((E32ImageHeader \<times> E32ImageHeaderComp \<times> E32ImageHeaderV) \<times> FILE) option" where
  "readHeaders f =
    do {
      (a1, f) \<leftarrow> readUint32 f;
      (a2, f) \<leftarrow> readUint32 f;
      (a3, f) \<leftarrow> readUint32 f;
      (a4, f) \<leftarrow> readUint32 f;
      (a5, f) \<leftarrow> readUint32 f;
      (a6, f) \<leftarrow> readUint32 f;
      (a7, f) \<leftarrow> readUint32 f;
      (a8, f) \<leftarrow> readUint32 f;
      (a9, f) \<leftarrow> readUint32 f;
      (a10, f) \<leftarrow> readUint32 f;
      (a11, f) \<leftarrow> readUint32 f;
      (a12, f) \<leftarrow> readUint32 f;
      (a13, f) \<leftarrow> readUint32 f;
      (a14, f) \<leftarrow> readUint32 f;
      (a15, f) \<leftarrow> readUint32 f;
      (a16, f) \<leftarrow> readUint32 f;
      (a17, f) \<leftarrow> readUint32 f;
      (a18, f) \<leftarrow> readUint32 f;
      (a19, f) \<leftarrow> readUint32 f;
      (a20, f) \<leftarrow> readUint32 f;
      (a21, f) \<leftarrow> readUint32 f;
      (a22, f) \<leftarrow> readUint32 f;
      (a23, f) \<leftarrow> readUint32 f;
      (a24, f) \<leftarrow> readUint32 f;
      (a25, f) \<leftarrow> readUint32 f;
      (a26, f) \<leftarrow> readUint32 f;
      (a27, f) \<leftarrow> readUint32 f;
      (a28, f) \<leftarrow> readUint32 f;
      (a29, f) \<leftarrow> readUint32 f;
      (a30, f) \<leftarrow> readUint32 f;
      (a31, f) \<leftarrow> readUint16 f;
      (a32, f) \<leftarrow> readUint16 f;
      (c, f) \<leftarrow> readUint32 f;
      (v1, f) \<leftarrow> readUint32 f;
      (v2, f) \<leftarrow> readUint32 f;
      (v3, f) \<leftarrow> readUint32 f;
      (v4, f) \<leftarrow> readUint32 f;
      (v5, f) \<leftarrow> readUint32 f;
      (v6, f) \<leftarrow> readUint32 f;
      (v7, f) \<leftarrow> readUint16 f;
      (v8, f) \<leftarrow> readUint8 f;
      (v9, f) \<leftarrow> readUint8 f;
      Some
       ((\<lparr>uid1 = a1, uid2 = a2, uid3 = a3, uidChecksum = a4, signature = a5, headerCrc = a6, moduleVersion = a7, compressionType = a8,
          toolsVersion = a9, timeLo = a10, timeHi = a11, hflags = a12, codeSize = a13, dataSize = a14, heapSizeMin = a15, heapSizeMax = a16,
          stackSize = a17, bssSize = a18, entryPoint = a19, codeBase = a20, dataBase = a21, dllRefTableCount = a22, exportDirOffset = a23,
          exportDirCount = a24, textSize = a25, codeOffset = a26, dataOffset = a27, importOffset = a28, codeRelocOffset = a29,
          dataRelocOffset = a30, processPriority = a31, cpuIdentifier = a32\<rparr>,
         \<lparr>uncompressedSize = c\<rparr>,
         \<lparr>secureId = v1, vendorId = v2, hcaps = (v3, v4), exceptionDescriptor = v5, spare2 = v6, exportDescSize = v7, exportDescType = v8,
          exportDesc = v9\<rparr>), f)
    }"

section \<open>Capabilities\<close>

text \<open>Strings are the bytes before the terminating zero; \<open>char\<close> is signed and the locale is that of C.\<close>

definition cstr :: "string \<Rightarrow> byte list" where
  "cstr s = map of_char s"

definition toupper :: "int \<Rightarrow> int" where
  "toupper c = (if 97 \<le> c \<and> c \<le> 122 then c - 32 else c)"

definition char_at :: "byte list \<Rightarrow> int" where
  "char_at s = (case s of [] \<Rightarrow> 0 | c # cs \<Rightarrow> sint c)"

function stricmp :: "byte list \<Rightarrow> byte list \<Rightarrow> int" where
  "stricmp s1 s2 =
    (let c1 = toupper (char_at s1); c2 = toupper (char_at s2) in
     if c1 < c2 then -1
     else if c1 > c2 then 1
     else if c1 = 0 then 0
     else stricmp (tl s1) (tl s2))"
  by auto

termination
proof (relation "measure (\<lambda>(s1, s2). length s1)", goal_cases)
  case (2 s1 s2 c1 c2)
  then show ?case by (cases s1) (auto simp: char_at_def toupper_def)
qed auto

declare stricmp.simps [simp del]

definition capabilityNames :: "(byte list \<times> int) list" where
  "capabilityNames =
    [(cstr ''TCB'', 0), (cstr ''CommDD'', 1), (cstr ''PowerMgmt'', 2), (cstr ''MultimediaDD'', 3), (cstr ''ReadDeviceData'', 4),
     (cstr ''WriteDeviceData'', 5), (cstr ''DRM'', 6), (cstr ''TrustedUI'', 7), (cstr ''ProtServ'', 8), (cstr ''DiskAdmin'', 9),
     (cstr ''NetworkControl'', 10), (cstr ''AllFiles'', 11), (cstr ''SwEvent'', 12), (cstr ''NetworkServices'', 13),
     (cstr ''LocalServices'', 14), (cstr ''ReadUserData'', 15), (cstr ''WriteUserData'', 16), (cstr ''Location'', 17),
     (cstr ''SurroundingsDD'', 18), (cstr ''UserEnvironment'', 19)]"

primrec findCapabilityBit_loop :: "byte list \<Rightarrow> (byte list \<times> int) list \<Rightarrow> int" where
  "findCapabilityBit_loop name [] = -1"
| "findCapabilityBit_loop name (cap # cs) = (if stricmp name (fst cap) = 0 then snd cap else findCapabilityBit_loop name cs)"

definition findCapabilityBit :: "byte list \<Rightarrow> int" where
  "findCapabilityBit name = findCapabilityBit_loop name capabilityNames"

primrec findCapabilityName_loop :: "int \<Rightarrow> (byte list \<times> int) list \<Rightarrow> byte list option" where
  "findCapabilityName_loop b [] = None"
| "findCapabilityName_loop b (cap # cs) = (if snd cap = b then Some (fst cap) else findCapabilityName_loop b cs)"

definition findCapabilityName :: "int \<Rightarrow> byte list option" where
  "findCapabilityName b = findCapabilityName_loop b capabilityNames"

text \<open>The array of the two words of the capabilities is a pair.\<close>

definition setBit :: "int \<Rightarrow> 32 word \<times> 32 word \<Rightarrow> 32 word \<times> 32 word" where
  "setBit b c =
    (if 0 \<le> b \<and> b < 32 then (fst c OR push_bit (nat b) 1, snd c)
     else if 32 \<le> b \<and> b < 64 then (fst c, snd c OR push_bit (nat (b - 32)) 1)
     else c)"

definition clearBit :: "int \<Rightarrow> 32 word \<times> 32 word \<Rightarrow> 32 word \<times> 32 word" where
  "clearBit b c =
    (if 0 \<le> b \<and> b < 32 then (fst c AND NOT (push_bit (nat b) 1), snd c)
     else if 32 \<le> b \<and> b < 64 then (fst c, snd c AND NOT (push_bit (nat (b - 32)) 1))
     else c)"

definition setCapability :: "byte list \<Rightarrow> 32 word \<times> 32 word \<Rightarrow> 32 word \<times> 32 word" where
  "setCapability name c =
    (if stricmp name (cstr ''all'') = 0 then fold (\<lambda>cap. setBit (snd cap)) capabilityNames c
     else if stricmp name (cstr ''none'') = 0 then c
     else let b = findCapabilityBit name in if 0 \<le> b then setBit b c else c)"

definition clearCapability :: "byte list \<Rightarrow> 32 word \<times> 32 word \<Rightarrow> 32 word \<times> 32 word" where
  "clearCapability name c = (let b = findCapabilityBit name in if 0 \<le> b then clearBit b c else c)"

text \<open>The loop of \<open>getCapabilities\<close>: the string from \<open>ptr\<close> on and the string from \<open>start\<close> to \<open>ptr\<close>\<close>

primrec getCapabilities_loop :: "byte list \<Rightarrow> byte list \<Rightarrow> bool \<Rightarrow> 32 word \<times> 32 word \<Rightarrow> 32 word \<times> 32 word" where
  "getCapabilities_loop [] start set' c = (if set' then setCapability start c else clearCapability start c)"
| "getCapabilities_loop (p # ps) start set' c =
    (if p = 0x2B \<or> p = 0x20 then getCapabilities_loop ps [] True (if set' then setCapability start c else clearCapability start c)
     else if p = 0x2D then getCapabilities_loop ps [] False (if set' then setCapability start c else clearCapability start c)
     else getCapabilities_loop ps (start @ [p]) set' c)"

text \<open>\<open>memset(caps, 0, 2)\<close> clears the first two of the eight bytes.\<close>

definition getCapabilities :: "bool \<Rightarrow> byte list \<Rightarrow> 32 word \<times> 32 word \<Rightarrow> 32 word \<times> 32 word" where
  "getCapabilities be str c =
    getCapabilities_loop str [] True (host_word be (replicate 2 0 @ drop 2 (host_bytes be 4 (fst c))), snd c)"

text \<open>The names that \<open>dumpE32Image\<close> prints for the capabilities\<close>

definition dump_capabilities :: "32 word \<times> 32 word \<Rightarrow> byte list list" where
  "dump_capabilities c =
    concat (map (\<lambda>i. let val = (if i < 32 then fst c else snd c) in
      if val AND push_bit (i mod 32) 1 \<noteq> 0
      then (case findCapabilityName (int i) of None \<Rightarrow> [] | Some name \<Rightarrow> [name]) else []) [0..<64])"

section \<open>Checksum of the identifiers\<close>

definition uidCrc :: "32 word \<Rightarrow> 32 word \<Rightarrow> 32 word \<Rightarrow> 32 word" where
  "uidCrc u1 u2 u3 =
    (let
      buf1 = [ucast (drop_bit 8 u1), ucast (drop_bit 24 u1), ucast (drop_bit 8 u2), ucast (drop_bit 24 u2), ucast (drop_bit 8 u3), ucast (drop_bit 24 u3)];
      buf2 = [ucast u1, ucast (drop_bit 16 u1), ucast u2, ucast (drop_bit 16 u2), ucast u3, ucast (drop_bit 16 u3)];
      crc1 = crcSlow (put_bytes (\<lambda>_. 0) 0 buf1) 0 6;
      crc2 = crcSlow (put_bytes (\<lambda>_. 0) 0 buf2) 0 6
    in push_bit 16 (ucast crc1) OR ucast crc2)"

section \<open>Files as sequences of bytes\<close>

lemma f_write_data:
  "fpos f \<le> length (fdata f) \<Longrightarrow> f_write bs f = f\<lparr>fdata := take (fpos f) (fdata f) @ bs @ drop (fpos f + length bs) (fdata f), fpos := fpos f + length bs\<rparr>"
  by (auto simp: f_write_def Let_def)

lemma f_write_fpos [simp]: "fpos (f_write bs f) = fpos f + length bs"
  by (simp add: f_write_def Let_def)

lemma f_write_length [simp]: "length (fdata (f_write bs f)) = (if bs = [] then length (fdata f) else max (length (fdata f)) (fpos f + length bs))"
  by (auto simp: f_write_def Let_def)

lemma f_write_append: "f_write ys (f_write xs f) = f_write (xs @ ys) f"
proof (cases "xs = [] \<or> ys = []")
  case False
  let ?d = "fdata f @ replicate (fpos f - length (fdata f)) 0"
  have "fpos f \<le> length ?d" by simp
  then show ?thesis using False by (simp add: f_write_def Let_def take_drop min_def add_ac)
qed (auto simp: f_write_def)

definition f_unread :: "FILE \<Rightarrow> byte list" where
  "f_unread f = drop (fpos f) (fdata f)"

definition f_advance :: "nat \<Rightarrow> FILE \<Rightarrow> FILE" where
  "f_advance n f = f\<lparr>fpos := fpos f + n\<rparr>"

lemma f_unread_advance [simp]: "f_unread (f_advance n f) = drop n (f_unread f)"
  by (simp add: f_unread_def f_advance_def add.commute)

lemma f_advance_advance [simp]: "f_advance n (f_advance k f) = f_advance (k + n) f"
  by (simp add: f_advance_def add_ac)

lemma f_fill_unread: "f_fill n f = (if length (f_unread f) < n then None else Some (take n (f_unread f), f_advance n f))"
  by (auto simp: f_fill_def f_read_def f_unread_def f_advance_def Let_def min_def)

lemma f_unread_seek [simp]: "f_unread ((f_write bs f)\<lparr>fpos := fpos f\<rparr>) = bs @ drop (length bs) (f_unread f)"
proof (cases "bs = []")
  case False
  have "drop (fpos f + length bs) (replicate (fpos f - length (fdata f)) 0) = []" by simp
  then show ?thesis using False by (simp add: f_write_def f_unread_def Let_def add.commute)
qed (simp add: f_write_def f_unread_def)

definition u32_bytes :: "32 word \<Rightarrow> byte list" where
  "u32_bytes w = [ucast w, ucast (drop_bit 8 w), ucast (drop_bit 16 w), ucast (drop_bit 24 w)]"

definition u16_bytes :: "16 word \<Rightarrow> byte list" where
  "u16_bytes w = [ucast w, ucast (drop_bit 8 w)]"

lemma length_u32_bytes [simp]: "length (u32_bytes w) = 4" "length (u16_bytes h) = 2"
  by (simp_all add: u32_bytes_def u16_bytes_def)

lemma u32_bytes_word:
  "ucast (ucast w :: byte) OR push_bit 8 (ucast (ucast (drop_bit 8 w) :: byte)) OR push_bit 16 (ucast (ucast (drop_bit 16 w) :: byte))
     OR push_bit 24 (ucast (ucast (drop_bit 24 w) :: byte)) = (w :: 32 word)"
proof (rule bit_word_eqI)
  fix n assume "n < LENGTH(32)"
  then consider "n < 8" | "8 \<le> n" "n < 16" | "16 \<le> n" "n < 24" | "24 \<le> n" "n < 32" by fastforce
  then show "bit (ucast (ucast w :: byte) OR push_bit 8 (ucast (ucast (drop_bit 8 w) :: byte)) OR push_bit 16 (ucast (ucast (drop_bit 16 w) :: byte))
     OR push_bit 24 (ucast (ucast (drop_bit 24 w) :: byte)) :: 32 word) n = bit w n"
    by cases (auto simp: bit_or_iff bit_push_bit_iff bit_ucast_iff bit_drop_bit_eq)
qed

lemma u16_bytes_word: "ucast (ucast w :: byte) OR push_bit 8 (ucast (ucast (drop_bit 8 w) :: byte)) = (w :: 16 word)"
proof (rule bit_word_eqI)
  fix n assume "n < LENGTH(16)"
  then consider "n < 8" | "8 \<le> n" "n < 16" by fastforce
  then show "bit (ucast (ucast w :: byte) OR push_bit 8 (ucast (ucast (drop_bit 8 w) :: byte)) :: 16 word) n = bit w n"
    by cases (auto simp: bit_or_iff bit_push_bit_iff bit_ucast_iff bit_drop_bit_eq)
qed

lemma writeUint32_bytes: "writeUint32 w f = f_write (u32_bytes w) f"
  by (simp add: writeUint32_def u32_bytes_def)

lemma writeUint16_bytes: "writeUint16 w f = f_write (u16_bytes w) f"
  by (simp add: writeUint16_def u16_bytes_def)

lemma readUint32_bytes: "f_unread f = u32_bytes w @ r \<Longrightarrow> readUint32 f = Some (w, f_advance 4 f)"
  by (simp add: readUint32_def f_fill_unread u32_bytes_def u32_bytes_word)

lemma readUint16_bytes: "f_unread f = u16_bytes w @ r \<Longrightarrow> readUint16 f = Some (w, f_advance 2 f)"
  by (simp add: readUint16_def f_fill_unread u16_bytes_def u16_bytes_word)

lemma readUint8_bytes: "f_unread f = b # r \<Longrightarrow> readUint8 f = Some (b, f_advance 1 f)"
  by (simp add: readUint8_def f_fill_unread)

section \<open>Headers survive writing and reading\<close>

definition header_bytes :: "E32ImageHeader \<Rightarrow> E32ImageHeaderComp \<Rightarrow> E32ImageHeaderV \<Rightarrow> byte list" where
  "header_bytes h c v =
    u32_bytes (uid1 h) @ u32_bytes (uid2 h) @ u32_bytes (uid3 h) @ u32_bytes (uidChecksum h) @ u32_bytes (signature h) @
    u32_bytes (headerCrc h) @ u32_bytes (moduleVersion h) @ u32_bytes (compressionType h) @ u32_bytes (toolsVersion h) @
    u32_bytes (timeLo h) @ u32_bytes (timeHi h) @ u32_bytes (hflags h) @ u32_bytes (codeSize h) @ u32_bytes (dataSize h) @
    u32_bytes (heapSizeMin h) @ u32_bytes (heapSizeMax h) @ u32_bytes (stackSize h) @ u32_bytes (bssSize h) @ u32_bytes (entryPoint h) @
    u32_bytes (codeBase h) @ u32_bytes (dataBase h) @ u32_bytes (dllRefTableCount h) @ u32_bytes (exportDirOffset h) @
    u32_bytes (exportDirCount h) @ u32_bytes (textSize h) @ u32_bytes (codeOffset h) @ u32_bytes (dataOffset h) @
    u32_bytes (importOffset h) @ u32_bytes (codeRelocOffset h) @ u32_bytes (dataRelocOffset h) @ u16_bytes (processPriority h) @
    u16_bytes (cpuIdentifier h) @ u32_bytes (uncompressedSize c) @ u32_bytes (secureId v) @ u32_bytes (vendorId v) @
    u32_bytes (fst (hcaps v)) @ u32_bytes (snd (hcaps v)) @ u32_bytes (exceptionDescriptor v) @ u32_bytes (spare2 v) @
    u16_bytes (exportDescSize v) @ [exportDescType v, exportDesc v]"

lemma length_header_bytes [simp]: "length (header_bytes h c v) = 156"
  by (simp add: header_bytes_def)

lemma writeHeaders_bytes: "writeHeaders out h c v = f_write (header_bytes h c v) out"
  by (simp add: writeHeaders_def Let_def writeUint32_bytes writeUint16_bytes writeUint8_def f_write_append header_bytes_def)

lemma readHeaders_bytes:
  assumes "f_unread f = header_bytes h c v @ r"
  shows "readHeaders f = Some ((h, c, v), f_advance 156 f)"
  using assms by (simp add: readHeaders_def header_bytes_def readUint32_bytes readUint16_bytes readUint8_bytes)

text \<open>
  The headers of an image survive the file: \<open>readHeaders\<close> at the position where \<open>writeHeaders\<close> wrote them gives
  every member of the three structures back, and ends where the writing ended.
\<close>

theorem headers_roundtrip:
  "readHeaders ((writeHeaders f h c v)\<lparr>fpos := fpos f\<rparr>) = Some ((h, c, v), writeHeaders f h c v)"
proof -
  have "f_advance 156 ((f_write (header_bytes h c v) f)\<lparr>fpos := fpos f\<rparr>) = f_write (header_bytes h c v) f"
    by (simp add: f_advance_def f_write_def Let_def header_bytes_def)
  then show ?thesis unfolding writeHeaders_bytes using readHeaders_bytes f_unread_seek by metis
qed

section \<open>Capabilities as sets\<close>

definition caps_set :: "32 word \<times> 32 word \<Rightarrow> nat set" where
  "caps_set c = {i. i < 64 \<and> bit (if i < 32 then fst c else snd c) (i mod 32)}"

definition upcase :: "byte list \<Rightarrow> int list" where
  "upcase s = map (\<lambda>c. toupper (sint c)) s"

lemma toupper_0 [simp]: "toupper 0 = 0" "toupper c = 0 \<longleftrightarrow> c = 0" "0 = toupper c \<longleftrightarrow> c = 0"
  by (auto simp: toupper_def)

lemma stricmp_step:
  "stricmp s1 s2 = 0 \<longleftrightarrow> toupper (char_at s1) = toupper (char_at s2) \<and> (char_at s1 \<noteq> 0 \<longrightarrow> stricmp (tl s1) (tl s2) = 0)"
  by (subst stricmp.simps) (auto simp: Let_def)

lemma stricmp_upcase: "0 \<notin> set s1 \<Longrightarrow> 0 \<notin> set s2 \<Longrightarrow> stricmp s1 s2 = 0 \<longleftrightarrow> upcase s1 = upcase s2"
proof (induction s1 arbitrary: s2)
  case Nil
  then show ?case by (subst stricmp_step, cases s2) (auto simp: char_at_def upcase_def signed_eq_0_iff)
next
  case (Cons a s1)
  then have "sint a \<noteq> 0" by (auto simp: signed_eq_0_iff)
  then show ?case using Cons by (subst stricmp_step, cases s2) (auto simp: char_at_def upcase_def signed_eq_0_iff)
qed

text \<open>The bits of the capabilities that a name stands for, alone or as \<open>all\<close>\<close>

definition named_bits :: "byte list \<Rightarrow> nat set" where
  "named_bits name = {i. \<exists>cap \<in> set capabilityNames. snd cap = int i \<and> upcase name = upcase (fst cap)}"

definition added_bits :: "byte list \<Rightarrow> nat set" where
  "added_bits name = (if upcase name = upcase (cstr ''all'') then {0..<20} else named_bits name)"

lemma capabilityNames_upcase:
  "map (\<lambda>cap. (upcase (fst cap), snd cap)) capabilityNames =
    [([84, 67, 66], 0),
     ([67, 79, 77, 77, 68, 68], 1),
     ([80, 79, 87, 69, 82, 77, 71, 77, 84], 2),
     ([77, 85, 76, 84, 73, 77, 69, 68, 73, 65, 68, 68], 3),
     ([82, 69, 65, 68, 68, 69, 86, 73, 67, 69, 68, 65, 84, 65], 4),
     ([87, 82, 73, 84, 69, 68, 69, 86, 73, 67, 69, 68, 65, 84, 65], 5),
     ([68, 82, 77], 6),
     ([84, 82, 85, 83, 84, 69, 68, 85, 73], 7),
     ([80, 82, 79, 84, 83, 69, 82, 86], 8),
     ([68, 73, 83, 75, 65, 68, 77, 73, 78], 9),
     ([78, 69, 84, 87, 79, 82, 75, 67, 79, 78, 84, 82, 79, 76], 10),
     ([65, 76, 76, 70, 73, 76, 69, 83], 11),
     ([83, 87, 69, 86, 69, 78, 84], 12),
     ([78, 69, 84, 87, 79, 82, 75, 83, 69, 82, 86, 73, 67, 69, 83], 13),
     ([76, 79, 67, 65, 76, 83, 69, 82, 86, 73, 67, 69, 83], 14),
     ([82, 69, 65, 68, 85, 83, 69, 82, 68, 65, 84, 65], 15),
     ([87, 82, 73, 84, 69, 85, 83, 69, 82, 68, 65, 84, 65], 16),
     ([76, 79, 67, 65, 84, 73, 79, 78], 17),
     ([83, 85, 82, 82, 79, 85, 78, 68, 73, 78, 71, 83, 68, 68], 18),
     ([85, 83, 69, 82, 69, 78, 86, 73, 82, 79, 78, 77, 69, 78, 84], 19)]"
  by (simp add: capabilityNames_def cstr_def upcase_def toupper_def)

lemma capabilityNames_bits: "map snd capabilityNames = map int [0..<20]"
  by (simp add: capabilityNames_def upt_rec)

lemma capabilityNames_distinct: "distinct (map (\<lambda>cap. upcase (fst cap)) capabilityNames)"
proof -
  have "distinct (map fst (map (\<lambda>cap. (upcase (fst cap), snd cap)) capabilityNames))" unfolding capabilityNames_upcase by simp
  then show ?thesis by (simp add: comp_def)
qed

lemma capabilityNames_chars: "list_all (\<lambda>cap. 0 \<notin> set (fst cap) \<and> 0x2B \<notin> set (fst cap) \<and> 0x20 \<notin> set (fst cap) \<and> 0x2D \<notin> set (fst cap)) capabilityNames"
  by (simp add: capabilityNames_def cstr_def)

lemma capabilityNames_none: "list_all (\<lambda>cap. upcase (fst cap) \<noteq> upcase (cstr ''none'') \<and> upcase (fst cap) \<noteq> upcase (cstr ''all'')) capabilityNames"
proof -
  have "list_all (\<lambda>cap. fst cap \<noteq> upcase (cstr ''none'') \<and> fst cap \<noteq> upcase (cstr ''all'')) (map (\<lambda>cap. (upcase (fst cap), snd cap)) capabilityNames)"
    unfolding capabilityNames_upcase by (simp add: cstr_def upcase_def toupper_def)
  then show ?thesis by (simp add: list.pred_map comp_def)
qed

lemma findCapabilityBit_loop_names:
  assumes "0 \<notin> set name" "\<forall>cap \<in> set cs. 0 \<notin> set (fst cap) \<and> 0 \<le> snd cap" "distinct (map (\<lambda>cap. upcase (fst cap)) cs)"
  shows "{i. \<exists>cap \<in> set cs. snd cap = int i \<and> upcase name = upcase (fst cap)} =
    (let b = findCapabilityBit_loop name cs in if 0 \<le> b then {nat b} else {})"
  using assms
proof (induction cs)
  case (Cons cap cs)
  then have eq: "stricmp name (fst cap) = 0 \<longleftrightarrow> upcase name = upcase (fst cap)" by (simp add: stricmp_upcase)
  show ?case
  proof (cases "upcase name = upcase (fst cap)")
    case True
    then have "\<forall>cap' \<in> set cs. upcase name \<noteq> upcase (fst cap')" using Cons.prems(3) by auto
    then have "{i. \<exists>c \<in> set (cap # cs). snd c = int i \<and> upcase name = upcase (fst c)} = {i. snd cap = int i}" using True by auto
    then show ?thesis using True Cons.prems(2) eq by (auto simp: Let_def)
  next
    case False
    then have "{i. \<exists>c \<in> set (cap # cs). snd c = int i \<and> upcase name = upcase (fst c)} = {i. \<exists>c \<in> set cs. snd c = int i \<and> upcase name = upcase (fst c)}" by auto
    then show ?thesis using False eq Cons by simp
  qed
qed simp

lemma capabilityNames_zero: "\<forall>cap \<in> set capabilityNames. 0 \<notin> set (fst cap) \<and> 0 \<le> snd cap \<and> snd cap < 20"
proof
  fix cap assume c: "cap \<in> set capabilityNames"
  then have "snd cap \<in> set (map snd capabilityNames)" by force
  then have "0 \<le> snd cap \<and> snd cap < 20" unfolding capabilityNames_bits by auto
  then show "0 \<notin> set (fst cap) \<and> 0 \<le> snd cap \<and> snd cap < 20" using c capabilityNames_chars by (auto simp: list_all_iff)
qed

lemma named_bits_find: "0 \<notin> set name \<Longrightarrow> named_bits name = (let b = findCapabilityBit name in if 0 \<le> b then {nat b} else {})"
  using findCapabilityBit_loop_names [OF _ _ capabilityNames_distinct] capabilityNames_zero by (auto simp: named_bits_def findCapabilityBit_def)

lemma named_bits_less: "named_bits name \<subseteq> {0..<20}"
  using capabilityNames_zero by (auto simp: named_bits_def)

lemma bit_1_push: "bit ((2 :: 32 word) ^ k) i \<longleftrightarrow> i = k \<and> k < 32"
  by (auto simp: bit_exp_iff)

lemma mod_32: "32 \<le> i \<Longrightarrow> i < 64 \<Longrightarrow> i mod 32 = i - (32 :: nat)"
  by (simp add: mod_if)

lemma caps_set_iff:
  "i \<in> caps_set c \<longleftrightarrow> i < 32 \<and> bit (fst c) i \<or> 32 \<le> i \<and> i < 64 \<and> bit (snd c) (i - 32)"
  by (auto simp: caps_set_def mod_32)

lemma caps_set_setBit: "0 \<le> b \<Longrightarrow> b < 64 \<Longrightarrow> caps_set (setBit b c) = insert (nat b) (caps_set c)"
proof (rule set_eqI)
  fix i assume b: "0 \<le> b" "b < 64"
  then obtain k where k: "b = int k" "k < 64" by (metis nat_0_le nat_less_iff of_nat_numeral)
  then show "i \<in> caps_set (setBit b c) \<longleftrightarrow> i \<in> insert (nat b) (caps_set c)"
    by (cases "k < 32") (auto simp: caps_set_iff setBit_def bit_or_iff bit_1_push nat_diff_distrib')
qed

lemma caps_set_clearBit: "0 \<le> b \<Longrightarrow> b < 64 \<Longrightarrow> caps_set (clearBit b c) = caps_set c - {nat b}"
proof (rule set_eqI)
  fix i assume b: "0 \<le> b" "b < 64"
  then obtain k where k: "b = int k" "k < 64" by (metis nat_0_le nat_less_iff of_nat_numeral)
  then show "i \<in> caps_set (clearBit b c) \<longleftrightarrow> i \<in> caps_set c - {nat b}"
    by (cases "k < 32") (auto simp: caps_set_iff clearBit_def bit_and_iff bit_not_iff bit_1_push nat_diff_distrib')
qed

lemma caps_set_all: "caps_set (fold (\<lambda>cap. setBit (snd cap)) cs c) = (nat \<circ> snd) ` set cs \<union> caps_set c"
  if "\<forall>cap \<in> set cs. 0 \<le> snd cap \<and> snd cap < 64"
  using that by (induction cs arbitrary: c) (auto simp: caps_set_setBit)

lemma capabilityNames_all: "(nat \<circ> snd) ` set capabilityNames = {0..<20}"
proof -
  have "(nat \<circ> snd) ` set capabilityNames = nat ` set (map snd capabilityNames)" by (simp add: image_comp comp_def)
  also have "\<dots> = {0..<20}" unfolding capabilityNames_bits by (simp add: image_comp comp_def)
  finally show ?thesis .
qed

lemma cstr_no_zero: "0 \<notin> set (cstr ''all'')" "0 \<notin> set (cstr ''none'')"
  by (simp_all add: cstr_def)

lemma named_bits_none: "upcase name = upcase (cstr ''none'') \<Longrightarrow> named_bits name = {}"
  using capabilityNames_none by (auto simp: named_bits_def list_all_iff)

lemma none_all: "upcase (cstr ''none'') \<noteq> upcase (cstr ''all'')"
  by (simp add: cstr_def upcase_def)

lemma setCapability_bits: "0 \<notin> set name \<Longrightarrow> caps_set (setCapability name c) = caps_set c \<union> added_bits name"
proof -
  assume z: "0 \<notin> set name"
  have all: "caps_set (fold (\<lambda>cap. setBit (snd cap)) capabilityNames c) = caps_set c \<union> {0..<20}"
    using caps_set_all [of capabilityNames c] capabilityNames_zero capabilityNames_all by fastforce
  have "findCapabilityBit name < 64" if "0 \<le> findCapabilityBit name"
    using named_bits_find [OF z] named_bits_less [of name] that by (auto simp: Let_def)
  then show ?thesis using z all named_bits_none named_bits_find [OF z] none_all
    by (auto simp: setCapability_def added_bits_def stricmp_upcase cstr_no_zero Let_def caps_set_setBit)
qed

lemma clearCapability_bits: "0 \<notin> set name \<Longrightarrow> caps_set (clearCapability name c) = caps_set c - named_bits name"
proof -
  assume z: "0 \<notin> set name"
  have "findCapabilityBit name < 64" if "0 \<le> findCapabilityBit name"
    using named_bits_find [OF z] named_bits_less [of name] that by (auto simp: Let_def)
  then show ?thesis using named_bits_find [OF z] by (auto simp: clearCapability_def Let_def caps_set_clearBit)
qed

text \<open>The meaning of the argument: a list of names, each with the sign that stands before it\<close>

definition separator :: "byte \<Rightarrow> bool" where
  "separator p \<longleftrightarrow> p = 0x2B \<or> p = 0x20 \<or> p = 0x2D"

function capability_items :: "bool \<Rightarrow> byte list \<Rightarrow> (bool \<times> byte list) list" where
  "capability_items plus_sign s =
    (case dropWhile (\<lambda>p. \<not> separator p) s of
       [] \<Rightarrow> [(plus_sign, s)]
     | p # ps \<Rightarrow> (plus_sign, takeWhile (\<lambda>p. \<not> separator p) s) # capability_items (p \<noteq> 0x2D) ps)"
  by auto

termination
proof (relation "measure (\<lambda>(plus_sign, s). length s)", goal_cases)
  case (2 plus_sign s p ps)
  then show ?case using length_dropWhile_le [of "\<lambda>p. \<not> separator p" s] by simp
qed simp

declare capability_items.simps [simp del]

definition item_bits :: "bool \<times> byte list \<Rightarrow> nat set \<Rightarrow> nat set" where
  "item_bits item S = (if fst item then S \<union> added_bits (snd item) else S - named_bits (snd item))"

lemma capability_items_single: "list_all (\<lambda>p. \<not> separator p) s \<Longrightarrow> capability_items plus_sign s = [(plus_sign, s)]"
proof -
  assume "list_all (\<lambda>p. \<not> separator p) s"
  then have d: "dropWhile (\<lambda>p. \<not> separator p) s = []" by (simp add: list_all_iff)
  show ?thesis unfolding capability_items.simps [of plus_sign s] d by simp
qed

lemma getCapabilities_loop_items:
  assumes "0 \<notin> set start" "0 \<notin> set ps" "list_all (\<lambda>p. \<not> separator p) start"
  shows "caps_set (getCapabilities_loop ps start plus_sign c) = fold item_bits (capability_items plus_sign (start @ ps)) (caps_set c)"
  using assms
proof (induction ps arbitrary: start plus_sign c)
  case Nil
  then show ?case by (simp add: capability_items_single item_bits_def setCapability_bits clearCapability_bits)
next
  case (Cons p ps)
  show ?case
  proof (cases "separator p")
    case True
    have "dropWhile (\<lambda>p. \<not> separator p) (start @ p # ps) = p # ps" "takeWhile (\<lambda>p. \<not> separator p) (start @ p # ps) = start"
      using True Cons.prems(3) by (auto simp: list_all_iff dropWhile_append takeWhile_append)
    then have "capability_items plus_sign (start @ p # ps) = (plus_sign, start) # capability_items (p \<noteq> 0x2D) ps"
      by (subst capability_items.simps) simp
    then show ?thesis using Cons True by (auto simp: separator_def item_bits_def setCapability_bits clearCapability_bits)
  next
    case False
    then show ?thesis using Cons.IH [of "start @ [p]" plus_sign c] Cons.prems by (simp add: separator_def)
  qed
qed

lemma bit_host_word_clear:
  "bit (host_word be (replicate 2 0 @ drop 2 (host_bytes be 4 w)) :: 32 word) i \<longleftrightarrow> (if be then i < 16 else 16 \<le> i) \<and> bit (w :: 32 word) i"
proof -
  have bytes: "le_bytes 4 w = [ucast w, ucast (drop_bit 8 w), ucast (drop_bit 16 w), ucast (drop_bit 24 w)]"
    by (simp add: le_bytes_def upt_rec)
  have "i < 32" if "bit w i" using that bit_imp_le_length by fastforce
  consider "i < 8" | "8 \<le> i" "i < 16" | "16 \<le> i" "i < 24" | "24 \<le> i" "i < 32" | "32 \<le> i" by linarith
  then show ?thesis
    by cases (auto simp: host_word_def host_bytes_def bytes numeral_2_eq_2 bit_or_iff bit_push_bit_iff bit_ucast_iff bit_drop_bit_eq dest: bit_imp_le_length)
qed

lemma bit_0xFFFFF: "bit (0xFFFFF :: 32 word) i \<longleftrightarrow> i < 20"
proof -
  have "bit (0xFFFFF :: 32 word) i \<longleftrightarrow> i < 32 \<and> i < 20" using bit_mask_iff [of 20 i, where 'a = "32 word"] by (auto simp: mask_numeral)
  then show ?thesis by auto
qed

lemma caps_set_clear:
  "caps_set (host_word be (replicate 2 0 @ drop 2 (host_bytes be 4 (fst c))), snd c) = caps_set c - (if be then {16..<32} else {0..<16})"
  by (auto simp: caps_set_iff bit_host_word_clear)

lemma getCapabilities_bits:
  "0 \<notin> set str \<Longrightarrow>
    caps_set (getCapabilities be str c) = fold item_bits (capability_items True str) (caps_set c - (if be then {16..<32} else {0..<16}))"
  unfolding getCapabilities_def using getCapabilities_loop_items [of "[]" str] caps_set_clear by simp

text \<open>
  The argument of \<open>-capability\<close> means what it lists: \<open>getCapabilities\<close> adds the capabilities of every name after
  a plus sign or a space (all of them for \<open>all\<close>) and takes away that of every name after a minus sign, from left to right.  The
  set that it starts from is not empty as the call of \<open>memset\<close> intends: it clears 16 of the 64 bits, and the
  others are kept from an earlier argument or from the header of the image.
\<close>

theorem getCapabilities_items:
  "0 \<notin> set str \<Longrightarrow>
    caps_set (getCapabilities be str c) = fold item_bits (capability_items True str) (caps_set c - (if be then {16..<32} else {0..<16}))"
  by (rule getCapabilities_bits)

theorem getCapabilities_items_witness:
  "caps_set (getCapabilities False (cstr ''none'') (0xFFFFF, 0)) = {16..<20}"
proof -
  have c: "caps_set (0xFFFFF, 0) = {0..<20}" by (auto simp: caps_set_iff bit_0xFFFFF simp del: bit_numeral_word_iff)
  have n: "0 \<notin> set (cstr ''none'')" "list_all (\<lambda>p. \<not> separator p) (cstr ''none'')" by (simp_all add: cstr_def separator_def)
  then have "capability_items True (cstr ''none'') = [(True, cstr ''none'')]" by (simp add: capability_items_single)
  then show ?thesis using getCapabilities_items [OF n(1), of False "(0xFFFFF, 0)"] c none_all by (auto simp: item_bits_def added_bits_def named_bits_none)
qed

section \<open>Printed capabilities\<close>

primrec plus_joined :: "byte list list \<Rightarrow> byte list" where
  "plus_joined [] = []"
| "plus_joined (n # ns) = (if ns = [] then n else n @ 0x2B # plus_joined ns)"

lemma capability_items_joined:
  assumes "\<forall>n \<in> set (n # ns). list_all (\<lambda>p. \<not> separator p) n"
  shows "capability_items True (plus_joined (n # ns)) = map (Pair True) (n # ns)"
  using assms
proof (induction ns arbitrary: n)
  case Nil
  then show ?case by (simp add: capability_items_single)
next
  case (Cons n' ns)
  have "separator 0x2B" by (simp add: separator_def)
  then have "dropWhile (\<lambda>p. \<not> separator p) (plus_joined (n # n' # ns)) = 0x2B # plus_joined (n' # ns)"
    "takeWhile (\<lambda>p. \<not> separator p) (plus_joined (n # n' # ns)) = n"
    using Cons.prems by (auto simp: list_all_iff dropWhile_append takeWhile_append)
  then have "capability_items True (plus_joined (n # n' # ns)) = (True, n) # capability_items True (plus_joined (n' # ns))"
    by (subst capability_items.simps) simp
  then show ?case using Cons by simp
qed

lemma fold_item_bits: "fold item_bits (map (Pair True) ns) S = S \<union> \<Union> (added_bits ` set ns)"
  by (induction ns arbitrary: S) (auto simp: item_bits_def)

lemma findCapabilityName_loop_nth:
  "map snd cs = map int [k..<k + length cs] \<Longrightarrow>
    findCapabilityName_loop (int i) cs = (if k \<le> i \<and> i < k + length cs then Some (fst (cs ! (i - k))) else None)"
proof (induction cs arbitrary: k)
  case (Cons cap cs)
  have "snd cap = int k" "map snd cs = map int [Suc k..<Suc k + length cs]" using Cons.prems by (simp_all add: upt_conv_Cons del: upt_Suc)
  then show ?case using Cons.IH [of "Suc k"] by (auto simp: nth_Cons' Suc_diff_Suc)
qed simp

lemma findCapabilityName_nth: "findCapabilityName (int i) = (if i < 20 then Some (fst (capabilityNames ! i)) else None)"
proof -
  have l: "length capabilityNames = 20" by (simp add: capabilityNames_def)
  show ?thesis unfolding findCapabilityName_def using findCapabilityName_loop_nth [of capabilityNames 0 i] capabilityNames_bits l by simp
qed

lemma capabilityNames_nth: "i < 20 \<Longrightarrow> capabilityNames ! i \<in> set capabilityNames \<and> snd (capabilityNames ! i) = int i"
proof -
  assume i: "i < 20"
  have l: "length capabilityNames = 20" by (simp add: capabilityNames_def)
  have "map snd capabilityNames ! i = int i" unfolding capabilityNames_bits using i by simp
  then show ?thesis using i l by simp
qed

lemma added_bits_nth: "i < 20 \<Longrightarrow> added_bits (fst (capabilityNames ! i)) = {i}"
proof -
  assume i: "i < 20"
  let ?n = "capabilityNames ! i"
  have "?n \<in> set capabilityNames" "snd ?n = int i" using capabilityNames_nth [OF i] by auto
  then have "i \<in> named_bits (fst ?n)" "upcase (fst ?n) \<noteq> upcase (cstr ''all'')" "0 \<notin> set (fst ?n)"
    using capabilityNames_none capabilityNames_chars by (auto simp: named_bits_def list_all_iff)
  then show ?thesis using named_bits_find [of "fst ?n"] by (auto simp: added_bits_def Let_def split: if_splits)
qed

lemma dump_capabilities_names: "dump_capabilities c = concat (map (\<lambda>i. if i \<in> caps_set c \<and> i < 20 then [fst (capabilityNames ! i)] else []) [0..<64])"
proof -
  have t: "(w AND push_bit k 1 \<noteq> 0) = bit w k" for w :: "32 word" and k
    using bit_iff_and_push_bit_not_eq_0 [of w k] by simp
  show ?thesis unfolding dump_capabilities_def Let_def t
    by (intro arg_cong [of _ _ concat] map_cong) (auto simp: caps_set_def findCapabilityName_nth)
qed

lemma dump_capabilities_set: "set (dump_capabilities c) = (\<lambda>i. fst (capabilityNames ! i)) ` (caps_set c \<inter> {0..<20})"
  unfolding dump_capabilities_names by (fastforce split: if_splits)

lemma caps_set_inject: "caps_set a = caps_set b \<Longrightarrow> a = b"
proof -
  assume eq: "caps_set a = caps_set b"
  have "fst a = fst b"
  proof (rule bit_word_eqI)
    fix n assume "n < LENGTH(32)"
    then show "bit (fst a) n = bit (fst b) n" using eq caps_set_iff [of n a] caps_set_iff [of n b] by simp
  qed
  moreover have "snd a = snd b"
  proof (rule bit_word_eqI)
    fix n assume "n < LENGTH(32)"
    then show "bit (snd a) n = bit (snd b) n" using eq caps_set_iff [of "n + 32" a] caps_set_iff [of "n + 32" b] by simp
  qed
  ultimately show ?thesis by (simp add: prod_eq_iff)
qed

text \<open>
  What \<open>elftran\<close> prints of the capabilities of an image can be given to it again: the names of \<open>dumpE32Image\<close>, joined by plus signs,
  make \<open>getCapabilities\<close> set the bits of all capabilities that have a name.
\<close>

theorem capabilities_roundtrip: "getCapabilities be (plus_joined (dump_capabilities c)) (0, 0) = (fst c AND 0xFFFFF, 0)"
proof (rule caps_set_inject)
  let ?ns = "dump_capabilities c"
  have e: "caps_set (0, 0) = {}" by (auto simp: caps_set_iff)
  have n: "0 \<notin> set n \<and> list_all (\<lambda>p. \<not> separator p) n" if "n \<in> set ?ns" for n
    using that capabilityNames_chars capabilityNames_nth unfolding dump_capabilities_set by (fastforce simp: list_all_iff separator_def)
  have z: "0 \<notin> set (plus_joined ns)" if "\<forall>n \<in> set ns. 0 \<notin> set n" for ns using that by (induction ns) auto
  have "fold item_bits (capability_items True (plus_joined ?ns)) {} = \<Union> (added_bits ` set ?ns)"
  proof (cases ?ns)
    case Nil
    have "named_bits [] = {}" "upcase [] \<noteq> upcase (cstr ''all'')" using capabilityNames_upcase by (auto simp: named_bits_def cstr_def upcase_def capabilityNames_def)
    then show ?thesis using Nil by (simp add: capability_items_single item_bits_def added_bits_def)
  next
    case (Cons n ns)
    then show ?thesis using capability_items_joined [of n ns] n fold_item_bits [of "n # ns" "{}"] by simp
  qed
  also have "\<dots> = caps_set c \<inter> {0..<20}" unfolding dump_capabilities_set by (auto simp: added_bits_nth)
  also have "\<dots> = caps_set (fst c AND 0xFFFFF, 0)" by (auto simp: caps_set_iff bit_and_iff bit_0xFFFFF simp del: bit_numeral_word_iff)
  finally show "caps_set (getCapabilities be (plus_joined ?ns) (0, 0)) = caps_set (fst c AND 0xFFFFF, 0)"
    using getCapabilities_bits [of "plus_joined ?ns" be "(0, 0)"] z n e by auto
qed

end
