(* ===== verification/E32final.thy ===== *)
theory E32final
  imports E32image Deflate_Roundtrip Genaif
begin

text \<open>
  The end of the work on an image: \<open>finalizeE32Image\<close> of \<open>e32image.cpp\<close>, with its checksum and its compression, and the
  program \<open>checksum\<close>; how the programs \<open>compress\<close>, \<open>decompress\<close> and \<open>checksum\<close> act on the images of \<open>elf2e32\<close>.
\<close>

unbundle bit_operations_syntax

section \<open>Definitions\<close>

abbreviation (input) KImageCrcInitialiser :: "32 word" where "KImageCrcInitialiser \<equiv> 0xc90fdaa2"

text \<open>
  \<open>crc32\<close> of zlib is a parameter, a function of the start value and the data.  The result is the contents of the
  file, or the failure of the compressor.  \<open>m\<close> and \<open>a\<close> are the memory around the buffer of the data and its address.
\<close>

definition finalizeE32Image :: "(32 word \<Rightarrow> byte list \<Rightarrow> 32 word) \<Rightarrow> memory \<Rightarrow> addr \<Rightarrow> FILE \<Rightarrow>
    E32ImageHeader \<Rightarrow> E32ImageHeaderComp \<Rightarrow> E32ImageHeaderV \<Rightarrow> bool \<Rightarrow> (failure + byte list) option" where
  "finalizeE32Image crc32 m a out header headerComp headerV compress =
    (let
      out = out\<lparr>fpos := 0\<rparr>;
      header = header\<lparr>headerCrc := KImageCrcInitialiser\<rparr>;
      out = writeHeaders out header headerComp headerV;
      out = out\<lparr>fpos := 0\<rparr>
    in case f_fill HEADER_SIZE out of
      None \<Rightarrow> Some (Inl Undefined)
    | Some (buf, out) \<Rightarrow> let
        header = header\<lparr>headerCrc := NOT (crc32 0xffffffff buf)\<rparr>;
        out = out\<lparr>fpos := 0\<rparr>;
        out = writeHeaders out header headerComp headerV
      in if compressionType header = KUidCompressionDeflate \<and> compress then let
          out = out\<lparr>fpos := length (fdata out)\<rparr>;
          len = of_nat (fpos out) - of_nat HEADER_SIZE :: 32 word;
          out = out\<lparr>fpos := 0\<rparr>;
          (headerData, out) = f_read HEADER_SIZE out;
          (data, out) = f_read (unat len) out
        in DeflateCompress (place_bytes m a data) a (nat (sint len)) headerData
      else Some (Inr (fdata out)))"

text \<open>\<open>main\<close> of \<open>checksum.cpp\<close>, from the contents of the file to its new contents; \<open>None\<close> is a file shorter than the header\<close>

definition set_crc :: "32 word \<Rightarrow> byte list \<Rightarrow> byte list" where
  "set_crc w header =
    header[0x14 := ucast w, 0x15 := ucast (drop_bit 8 w), 0x16 := ucast (drop_bit 16 w), 0x17 := ucast (drop_bit 24 w)]"

definition checksum_main :: "(32 word \<Rightarrow> byte list \<Rightarrow> 32 word) \<Rightarrow> byte list \<Rightarrow> byte list option" where
  "checksum_main crc32 file =
    do {
      (header, f) \<leftarrow> f_fill HEADER_SIZE \<lparr>fdata = file, fpos = 0\<rparr>;
      let header = set_crc KImageCrcInitialiser header;
      let crc = NOT (crc32 0xffffffff header);
      let header = set_crc crc header;
      Some (fdata (f_write header (f\<lparr>fpos := 0\<rparr>)))
    }"

section \<open>Members of the header in its bytes\<close>

lemma update_word:
  "length pre = k \<Longrightarrow>
    (pre @ u32_bytes x @ post)[k := ucast w, Suc k := ucast (drop_bit 8 w), Suc (Suc k) := ucast (drop_bit 16 w), Suc (Suc (Suc k)) := ucast (drop_bit 24 w)] =
      pre @ u32_bytes w @ post"
  by (simp add: list_update_append u32_bytes_def)

lemma set_crc_header: "set_crc w (header_bytes h c v) = header_bytes (h\<lparr>headerCrc := w\<rparr>) c v"
proof -
  let ?pre = "u32_bytes (uid1 h) @ u32_bytes (uid2 h) @ u32_bytes (uid3 h) @ u32_bytes (uidChecksum h) @ u32_bytes (signature h)"
  obtain post where p: "header_bytes h c v = ?pre @ u32_bytes (headerCrc h) @ post" "header_bytes (h\<lparr>headerCrc := w\<rparr>) c v = ?pre @ u32_bytes w @ post"
    unfolding header_bytes_def by simp
  have "length ?pre = 20" by simp
  from update_word [OF this, of "headerCrc h" post w] show ?thesis unfolding p set_crc_def by simp
qed

lemma set_compression_header: "set_compression w (header_bytes h c v) = header_bytes (h\<lparr>compressionType := w\<rparr>) c v"
proof -
  let ?pre = "u32_bytes (uid1 h) @ u32_bytes (uid2 h) @ u32_bytes (uid3 h) @ u32_bytes (uidChecksum h) @ u32_bytes (signature h) @
    u32_bytes (headerCrc h) @ u32_bytes (moduleVersion h)"
  obtain post where p: "header_bytes h c v = ?pre @ u32_bytes (compressionType h) @ post" "header_bytes (h\<lparr>compressionType := w\<rparr>) c v = ?pre @ u32_bytes w @ post"
    unfolding header_bytes_def by simp
  have "length ?pre = 28" by simp
  from update_word [OF this, of "compressionType h" post w] show ?thesis unfolding p set_compression_def by simp
qed

lemma compression_type_header: "compression_type (header_bytes h c v) = compressionType h"
proof -
  have "header_bytes h c v = set_compression (compressionType h) (header_bytes h c v)" by (simp add: set_compression_header)
  then show ?thesis using set_compression_type [of "header_bytes h c v" "compressionType h"] by simp
qed

section \<open>The finished image\<close>

text \<open>The checksum over a header\<close>

definition image_crc :: "(32 word \<Rightarrow> byte list \<Rightarrow> 32 word) \<Rightarrow> E32ImageHeader \<Rightarrow> E32ImageHeaderComp \<Rightarrow> E32ImageHeaderV \<Rightarrow> 32 word" where
  "image_crc crc32 h c v = NOT (crc32 0xffffffff (header_bytes (h\<lparr>headerCrc := KImageCrcInitialiser\<rparr>) c v))"

definition image_header :: "(32 word \<Rightarrow> byte list \<Rightarrow> 32 word) \<Rightarrow> E32ImageHeader \<Rightarrow> E32ImageHeaderComp \<Rightarrow> E32ImageHeaderV \<Rightarrow> byte list" where
  "image_header crc32 h c v = header_bytes (h\<lparr>headerCrc := image_crc crc32 h c v\<rparr>) c v"

lemma f_write_start: "f_write bs (f\<lparr>fpos := 0\<rparr>) = \<lparr>fdata = bs @ drop (length bs) (fdata f), fpos = length bs\<rparr>" for f :: FILE
  by (cases f) (auto simp: f_write_def)

lemma finalizeE32Image_eq:
  "finalizeE32Image crc32 m a out h c v compress =
    (let data = drop HEADER_SIZE (fdata out) in
     if compressionType h = KUidCompressionDeflate \<and> compress
     then DeflateCompress (place_bytes m a (take (unat (of_nat (length data) :: 32 word)) data)) a (nat (sint (of_nat (length data) :: 32 word))) (image_header crc32 h c v)
     else Some (Inr (image_header crc32 h c v @ data)))"
proof -
  have w: "writeHeaders (out\<lparr>fpos := 0\<rparr>) h' c v = \<lparr>fdata = header_bytes h' c v @ drop HEADER_SIZE (fdata out), fpos = HEADER_SIZE\<rparr>" for out h'
    unfolding writeHeaders_bytes by (subst f_write_start) simp_all
  show ?thesis unfolding finalizeE32Image_def Let_def w
    by (simp add: f_fill_unread f_unread_def f_read_def f_advance_def w image_header_def image_crc_def Let_def)
qed

lemma checksum_main_header:
  "checksum_main crc32 (header_bytes h c v @ data) = Some (image_header crc32 h c v @ data)"
  by (simp add: checksum_main_def f_fill_unread f_unread_def f_advance_def set_crc_header f_write_start image_header_def image_crc_def Let_def)

text \<open>
  An image that \<open>finalizeE32Image\<close> does not compress is complete and consistent: \<open>readHeaders\<close> finds in it
  the headers with nothing changed but the checksum, the program \<open>checksum\<close> finds the checksum to be right (it leaves the
  file as it is), and the rest is what was written before, whatever the function \<open>crc32\<close> of zlib computes.
\<close>

theorem finalizeE32Image_consistent:
  assumes "compressionType h \<noteq> KUidCompressionDeflate \<or> \<not> compress"
  shows "\<exists>img crc f. finalizeE32Image crc32 m a out h c v compress = Some (Inr img) \<and>
    readHeaders \<lparr>fdata = img, fpos = 0\<rparr> = Some ((h\<lparr>headerCrc := crc\<rparr>, c, v), f) \<and>
    checksum_main crc32 img = Some img \<and> drop HEADER_SIZE img = drop HEADER_SIZE (fdata out)"
proof -
  let ?crc = "image_crc crc32 h c v" and ?img = "image_header crc32 h c v @ drop HEADER_SIZE (fdata out)"
  have "image_crc crc32 (h\<lparr>headerCrc := ?crc\<rparr>) c v = ?crc" by (simp add: image_crc_def)
  then have "checksum_main crc32 ?img = Some ?img"
    using checksum_main_header [of crc32 "h\<lparr>headerCrc := ?crc\<rparr>" c v] by (simp add: image_header_def)
  moreover have "f_unread \<lparr>fdata = ?img, fpos = 0\<rparr> = header_bytes (h\<lparr>headerCrc := ?crc\<rparr>) c v @ drop HEADER_SIZE (fdata out)"
    by (simp add: f_unread_def image_header_def)
  from readHeaders_bytes [OF this]
  have "readHeaders \<lparr>fdata = ?img, fpos = 0\<rparr> = Some ((h\<lparr>headerCrc := ?crc\<rparr>, c, v), f_advance 156 \<lparr>fdata = ?img, fpos = 0\<rparr>)" .
  ultimately show ?thesis using assms by (auto simp: finalizeE32Image_eq Let_def image_header_def)
qed

definition example_header :: E32ImageHeader where
  "example_header =
    \<lparr>uid1 = 0x10000079, uid2 = 0x100039ce, uid3 = 0xE0000001, uidChecksum = 0, signature = 0x434f5045, headerCrc = 0, moduleVersion = 0xA0000,
     compressionType = KUidCompressionDeflate, toolsVersion = 0x01F90002, timeLo = 0, timeHi = 0, hflags = 0x1200002A, codeSize = 8, dataSize = 0,
     heapSizeMin = 0x1000, heapSizeMax = 0x100000, stackSize = 0x2000, bssSize = 0, entryPoint = 0, codeBase = 0x8000, dataBase = 0x400000,
     dllRefTableCount = 0, exportDirOffset = 0, exportDirCount = 0, textSize = 8, codeOffset = 0x9C, dataOffset = 0, importOffset = 0xA4,
     codeRelocOffset = 0xA8, dataRelocOffset = 0, processPriority = 350, cpuIdentifier = 0x2001\<rparr>"

definition example_headerV :: E32ImageHeaderV where
  "example_headerV =
    \<lparr>secureId = 0, vendorId = 0, hcaps = (0, 0), exceptionDescriptor = 0, spare2 = 0, exportDescSize = 0, exportDescType = 1, exportDesc = 0\<rparr>"

theorem finalizeE32Image_consistent_witness:
  "\<exists>img crc f. finalizeE32Image (\<lambda>_ bs. of_nat (length bs)) (\<lambda>_. 0) 0 \<lparr>fdata = replicate 200 1, fpos = 200\<rparr>
      (example_header\<lparr>compressionType := 0\<rparr>) \<lparr>uncompressedSize = 44\<rparr> example_headerV True = Some (Inr img) \<and>
    readHeaders \<lparr>fdata = img, fpos = 0\<rparr> = Some ((example_header\<lparr>compressionType := 0, headerCrc := crc\<rparr>, \<lparr>uncompressedSize = 44\<rparr>, example_headerV), f) \<and>
    checksum_main (\<lambda>_ bs. of_nat (length bs)) img = Some img \<and> drop HEADER_SIZE img = replicate 44 1"
proof -
  have "compressionType (example_header\<lparr>compressionType := 0\<rparr>) \<noteq> KUidCompressionDeflate \<or> \<not> True" by simp
  from finalizeE32Image_consistent [OF this, of "\<lambda>_ bs. of_nat (length bs)" "\<lambda>_. 0" 0 "\<lparr>fdata = replicate 200 1, fpos = 200\<rparr>" "\<lparr>uncompressedSize = 44\<rparr>" example_headerV]
  show ?thesis by simp
qed

text \<open>
  C7. Compression of images by \<open>elf2e32\<close> loses nothing: an image that is built with compression becomes, by \<open>decompress\<close> and
  then \<open>checksum\<close>, byte for byte the image that is built with \<open>--uncompressed\<close>.  The exception is the panic of the compressor, which needs
  832039 bytes.  Without \<open>checksum\<close> the header keeps the checksum of the compressed image.
\<close>

theorem finalizeE32Image_compressed:
  assumes "compressionType h = KUidCompressionDeflate" "length (fdata out) \<le> 2 ^ 26"
    and "length (iLitLen enc) = ELitLens" "length (iDistance enc) = EDistances" "length buf = KDeflateMaxDistance"
  shows "832039 \<le> length (fdata out) - HEADER_SIZE \<and> finalizeE32Image crc32 m a out h c v True = Some (Inl (Panic EHuffmanBufferOverflow)) \<or>
    (\<exists>img img'. finalizeE32Image crc32 m a out h c v True = Some (Inr img) \<and> decompress_main m' a' enc buf img = Some (Inr img') \<and>
      map_option Inr (checksum_main crc32 img') = finalizeE32Image crc32 m a out (h\<lparr>compressionType := 0\<rparr>) c v True)"
proof -
  let ?data = "drop HEADER_SIZE (fdata out)" and ?packed = "image_header crc32 h c v"
  let ?hplain = "h\<lparr>compressionType := 0, headerCrc := image_crc crc32 h c v\<rparr>"
  let ?plain = "header_bytes ?hplain c v"
  have l: "length ?packed = HEADER_SIZE" "length ?plain = HEADER_SIZE" by (simp_all add: image_header_def)
  have h: "(h\<lparr>headerCrc := image_crc crc32 h c v\<rparr>) = ?hplain\<lparr>compressionType := KUidCompressionDeflate\<rparr>" using assms(1) by (cases h) simp
  have hd: "set_compression KUidCompressionDeflate ?plain = ?packed" unfolding set_compression_header image_header_def by (rule arg_cong [OF h [symmetric]])
  have hd0: "set_compression 0 ?packed = ?plain" unfolding image_header_def set_compression_header by (cases h) simp
  have n: "length ?data < 2 ^ 31" using assms(2) by simp
  then have n32: "unat (of_nat (length ?data) :: 32 word) = length ?data" by (simp add: unat_of_nat)
  have run: "finalizeE32Image crc32 m a out h c v True = compress_main m a (?plain @ ?data)"
    using assms(1) n n32 sint_length [OF n] hd l compression_type_header [of ?hplain c v]
    by (simp add: finalizeE32Image_eq compress_main_def Let_def)
  have t: "compression_type (take HEADER_SIZE (?plain @ ?data)) = 0" using l compression_type_header [of ?hplain c v] by simp
  have dec: "decompress_main m' a' enc buf (?packed @ body) = Some (Inr (?plain @ ?data))"
    if b: "starts (bytes_bits body) ?data" "8 * length body \<le> 31 * length ?data + 10237" for body
  proof -
    have "8 * length body < 2 ^ 31" using b(2) assms(2) by simp
    from decompress_main_body [OF b(1) l(1) _ this assms(3-5), of m' a'] show ?thesis
      using hd0 compression_type_header [of "h\<lparr>headerCrc := image_crc crc32 h c v\<rparr>" c v] assms(1) by (simp add: image_header_def)
  qed
  have same: "map_option Inr (checksum_main crc32 (?plain @ ?data)) = finalizeE32Image crc32 m a out (h\<lparr>compressionType := 0\<rparr>) c v True"
    by (simp add: checksum_main_header finalizeE32Image_eq Let_def image_header_def image_crc_def)
  have le: "HEADER_SIZE \<le> length (?plain @ ?data)" "length (?plain @ ?data) - HEADER_SIZE < 2 ^ 31" using l n by simp_all
  from compress_main_body [OF le t, of m a] show ?thesis
  proof
    assume "832039 \<le> length (?plain @ ?data) - HEADER_SIZE \<and> compress_main m a (?plain @ ?data) = Some (Inl (Panic EHuffmanBufferOverflow))"
    then show ?thesis using run l by simp
  next
    assume "\<exists>body. compress_main m a (?plain @ ?data) = Some (Inr (set_compression KUidCompressionDeflate (take HEADER_SIZE (?plain @ ?data)) @ body)) \<and>
      starts (bytes_bits body) (drop HEADER_SIZE (?plain @ ?data)) \<and> 8 * length body \<le> 31 * (length (?plain @ ?data) - HEADER_SIZE) + 10237"
    then obtain body where b: "compress_main m a (?plain @ ?data) = Some (Inr (?packed @ body))" "starts (bytes_bits body) ?data" "8 * length body \<le> 31 * length ?data + 10237"
      using l hd by auto
    have "finalizeE32Image crc32 m a out h c v True = Some (Inr (?packed @ body))" using run b(1) by simp
    then show ?thesis using dec [OF b(2,3)] same by blast
  qed
qed

theorem finalizeE32Image_compressed_witness:
  "\<exists>img img'. finalizeE32Image (\<lambda>_ bs. of_nat (length bs)) (\<lambda>_. 0) 0 \<lparr>fdata = replicate 200 1, fpos = 200\<rparr> example_header \<lparr>uncompressedSize = 44\<rparr> example_headerV True = Some (Inr img) \<and>
    decompress_main (\<lambda>_. 1) 4 \<lparr>iLitLen = replicate ELitLens 7, iDistance = replicate EDistances 7\<rparr> (replicate KDeflateMaxDistance 0) img = Some (Inr img') \<and>
    map_option Inr (checksum_main (\<lambda>_ bs. of_nat (length bs)) img') =
      finalizeE32Image (\<lambda>_ bs. of_nat (length bs)) (\<lambda>_. 0) 0 \<lparr>fdata = replicate 200 1, fpos = 200\<rparr> (example_header\<lparr>compressionType := 0\<rparr>) \<lparr>uncompressedSize = 44\<rparr> example_headerV True"
  using finalizeE32Image_compressed [of example_header "\<lparr>fdata = replicate 200 1, fpos = 200\<rparr>" "\<lparr>iLitLen = replicate ELitLens 7, iDistance = replicate EDistances 7\<rparr>"
    "replicate KDeflateMaxDistance 0" "\<lambda>_ bs. of_nat (length bs)" "\<lambda>_. 0" 0 "\<lparr>uncompressedSize = 44\<rparr>" example_headerV "\<lambda>_. 1" 4]
  by (simp add: example_header_def)

text \<open>
  C38. The checksum over three UIDs is the same in both programs that compute it: \<open>uidCrc\<close> of \<open>elf2e32\<close>, which collects the
  bytes in buffers for \<open>crc.c\<close>, and \<open>uidcsum\<close> of \<open>genaif\<close>, which has its own loop.  It is the CRC of \<open>crc.c\<close> over the bytes at odd places in the upper half
  and over those at even places in the lower half.
\<close>

theorem uidCrc_uidcsum:
  "uidCrc a b c = uidcsum [a, b, c] \<and>
    (message m p 6 = concat (map even_bytes [a, b, c]) \<longrightarrow> message m q 6 = concat (map odd_bytes [a, b, c]) \<longrightarrow>
      uidcsum [a, b, c] = push_bit 16 (ucast (crcSlow m q 6)) OR ucast (crcSlow m p 6))"
proof -
  have m: "message (put_bytes (\<lambda>_. 0) 0 bs) 0 6 = bs" if "length bs = 6" for bs
    using that bytes_at_put_same [of bs 6 "\<lambda>_. 0" 0] by (simp add: message_def bytes_at_def)
  have "uidCrc a b c = uidcsum [a, b, c]" using uidcsum_loop_crc [of "[a, b, c]" 0 0]
    by (simp add: uidCrc_def crcSlow_def m uidcsum_def even_bytes_def odd_bytes_def Let_def)
  then show ?thesis using uidcsum_loop_crc [of "[a, b, c]" 0 0] by (simp add: uidcsum_def crcSlow_def)
qed

theorem uidCrc_uidcsum_witness:
  "uidCrc 0x10000079 0x1000006c 7 =
     push_bit 16 (ucast (crcSlow (put_bytes (\<lambda>_. 0) 100 (concat (map even_bytes [0x10000079, 0x1000006c, 7]) @
       concat (map odd_bytes [0x10000079, 0x1000006c, 7]))) 106 6)) OR
     ucast (crcSlow (put_bytes (\<lambda>_. 0) 100 (concat (map even_bytes [0x10000079, 0x1000006c, 7]) @
       concat (map odd_bytes [0x10000079, 0x1000006c, 7]))) 100 6)"
proof -
  let ?m = "put_bytes (\<lambda>_. 0) 100 (concat (map even_bytes [0x10000079, 0x1000006c, 7]) @ concat (map odd_bytes [0x10000079, 0x1000006c, 7]))"
  have "message ?m 100 6 = concat (map even_bytes [0x10000079, 0x1000006c, 7])"
    "message ?m 106 6 = concat (map odd_bytes [0x10000079, 0x1000006c, 7])" by code_simp+
  then show ?thesis using uidCrc_uidcsum [of "0x10000079" "0x1000006c" 7 ?m 100 106] by (simp only: simp_thms)
qed

end
