(* ===== verification/E32reloc.thy ===== *)
theory E32reloc
  imports E32image "HOL-Library.Multiset" "HOL-Library.List_Lexorder"
begin

text \<open>
  The lists of imports, relocations and exports of an image: \<open>reloc.h\<close> and \<open>reloc.cpp\<close> of \<open>elf2e32\<close>.
\<close>

unbundle bit_operations_syntax

section \<open>Definitions\<close>

text \<open>
  \<open>std::sort\<close> is a parameter of the functions that use it, because it may leave elements that compare equal in any
  order.  This is what the standard says of it, for elements that the comparison orders.
\<close>

definition strict_weak :: "('a \<Rightarrow> 'a \<Rightarrow> bool) \<Rightarrow> 'a set \<Rightarrow> bool" where
  "strict_weak cmp A \<longleftrightarrow>
    (\<forall>x \<in> A. \<not> cmp x x) \<and> (\<forall>x \<in> A. \<forall>y \<in> A. \<forall>z \<in> A. cmp x y \<longrightarrow> cmp y z \<longrightarrow> cmp x z) \<and>
    (\<forall>x \<in> A. \<forall>y \<in> A. \<forall>z \<in> A. \<not> cmp x y \<longrightarrow> \<not> cmp y x \<longrightarrow> \<not> cmp y z \<longrightarrow> \<not> cmp z y \<longrightarrow> \<not> cmp x z \<and> \<not> cmp z x)"

definition std_sort :: "('a \<Rightarrow> 'a \<Rightarrow> bool) \<Rightarrow> ('a list \<Rightarrow> 'a list) \<Rightarrow> bool" where
  "std_sort cmp srt \<longleftrightarrow> (\<forall>xs. strict_weak cmp (set xs) \<longrightarrow> mset (srt xs) = mset xs \<and> sorted_wrt (\<lambda>x y. \<not> cmp y x) (srt xs))"

text \<open>\<open>strcmp(s1, s2) < 0\<close>: bytes are compared as unsigned.\<close>

fun strcmp_less :: "byte list \<Rightarrow> byte list \<Rightarrow> bool" where
  "strcmp_less s1 [] = False"
| "strcmp_less [] (c # s2) = True"
| "strcmp_less (a # s1) (c # s2) = (a < c \<or> a = c \<and> strcmp_less s1 s2)"

subsection \<open>Words of the file\<close>

text \<open>The value that is added to the word at an offset; \<open>None\<close> if the word is not inside the file\<close>

definition fixImportRelocation :: "32 word \<Rightarrow> FILE \<Rightarrow> 32 word \<Rightarrow> FILE option" where
  "fixImportRelocation offset out ordinal =
    do {
      (orig, f) \<leftarrow> readUint32 (out\<lparr>fpos := unat offset\<rparr>);
      let ordinal = ordinal + push_bit 16 orig;
      Some (writeUint32 ordinal (f\<lparr>fpos := unat offset\<rparr>))
    }"

definition fixRelocation :: "32 word \<Rightarrow> FILE \<Rightarrow> 32 word \<Rightarrow> (32 word \<times> FILE) option" where
  "fixRelocation offset out value =
    do {
      (orig, f) \<leftarrow> readUint32 (out\<lparr>fpos := unat offset\<rparr>);
      let value = value + orig;
      Some (value, writeUint32 value (f\<lparr>fpos := unat offset\<rparr>))
    }"

subsection \<open>Imports\<close>

text \<open>\<open>offset\<close> has no value until \<open>ImportList::write\<close> assigns it.\<close>

record Library =
  lname :: "byte list"
  addresses :: "32 word list"
  loffset :: "32 word option"

definition Library_new :: "byte list \<Rightarrow> Library" where
  "Library_new name = \<lparr>lname = name, addresses = [], loffset = None\<rparr>"

text \<open>The index of the library in the list, which may have grown\<close>

primrec findLibrary_loop :: "byte list \<Rightarrow> Library list \<Rightarrow> nat option" where
  "findLibrary_loop name [] = None"
| "findLibrary_loop name (l # ls) = (if lname l = name then Some 0 else map_option Suc (findLibrary_loop name ls))"

definition findLibrary :: "byte list \<Rightarrow> Library list \<Rightarrow> nat \<times> Library list" where
  "findLibrary name libraries =
    (case findLibrary_loop name libraries of
       Some i \<Rightarrow> (i, libraries)
     | None \<Rightarrow> (length libraries, libraries @ [Library_new name]))"

definition addImport :: "byte list \<Rightarrow> 32 word \<Rightarrow> Library list \<Rightarrow> Library list" where
  "addImport libname addr libraries =
    (let (i, libraries) = findLibrary libname libraries in
     libraries[i := (libraries ! i)\<lparr>addresses := addresses (libraries ! i) @ [addr]\<rparr>])"

definition numLibraries :: "Library list \<Rightarrow> 32 word" where
  "numLibraries libraries = of_nat (length libraries)"

definition Library_compare :: "Library \<Rightarrow> Library \<Rightarrow> bool" where
  "Library_compare lib1 lib2 = strcmp_less (lname lib1) (lname lib2)"

primrec place_names :: "Library list \<Rightarrow> 32 word \<Rightarrow> Library list \<times> 32 word" where
  "place_names [] sz = ([], sz)"
| "place_names (l # ls) sz =
    (let (ls, sz') = place_names ls (sz + (of_nat (length (lname l)) + 1)) in (l\<lparr>loffset := Some sz\<rparr> # ls, sz'))"

definition pad4 :: "32 word \<Rightarrow> 32 word" where
  "pad4 sz = (if sz AND 3 \<noteq> 0 then 4 - (sz AND 3) else 0)"

definition write_library :: "Library \<Rightarrow> FILE \<Rightarrow> FILE" where
  "write_library l out =
    fold writeUint32 (addresses l) (writeUint32 (of_nat (length (addresses l))) (writeUint32 (the (loffset l)) out))"

definition ImportList_write :: "(Library list \<Rightarrow> Library list) \<Rightarrow> FILE \<Rightarrow> bool \<Rightarrow> bool \<Rightarrow> Library list \<Rightarrow> FILE \<times> Library list" where
  "ImportList_write srt out doSort padsize libraries =
    (let
      libraries = (if doSort then srt libraries else libraries);
      sz = fold (\<lambda>l sz. sz + 8 + of_nat (length (addresses l)) * 4) libraries 4;
      (libraries, sz) = place_names libraries sz;
      padding = pad4 sz;
      sz = (if padsize then sz + padding else sz);
      out = writeUint32 sz out;
      out = fold write_library libraries out;
      out = fold (\<lambda>l. f_write (lname l @ [0])) libraries out;
      out = (writeUint8 0 ^^ unat padding) out
    in (out, libraries))"

subsection \<open>Relocations\<close>

record Relocation =
  roffset :: "16 word"
  rvalue :: "32 word"

definition Relocation_less :: "Relocation \<Rightarrow> Relocation \<Rightarrow> bool" where
  "Relocation_less a b \<longleftrightarrow> roffset a < roffset b"

text \<open>\<open>std::map\<close> from prefixes to vectors: pairs in the order of the keys\<close>

type_synonym sublists = "(32 word \<times> Relocation list) list"

fun sublist_append :: "32 word \<Rightarrow> Relocation \<Rightarrow> sublists \<Rightarrow> sublists" where
  "sublist_append prefix r [] = [(prefix, [r])]"
| "sublist_append prefix r ((p, rs) # s) =
    (if prefix < p then (prefix, [r]) # (p, rs) # s
     else if prefix = p then (p, rs @ [r]) # s
     else (p, rs) # sublist_append prefix r s)"

definition addRelocation :: "32 word \<Rightarrow> 32 word \<Rightarrow> sublists \<Rightarrow> sublists" where
  "addRelocation offset value sublists =
    sublist_append (offset AND 0xfffff000) \<lparr>roffset = ucast (offset AND 0xfff), rvalue = value\<rparr> sublists"

definition sublistSize :: "Relocation list \<Rightarrow> 32 word \<times> 32 word" where
  "sublistSize relocations =
    (let relocSize = 8 + 2 * of_nat (length relocations); relocPadding = pad4 relocSize
     in (relocSize + relocPadding, relocPadding))"

abbreviation (input) KTextRelocType :: "16 word" where "KTextRelocType \<equiv> 0x1000"
abbreviation (input) KDataRelocType :: "16 word" where "KDataRelocType \<equiv> 0x2000"

definition reloc_entry :: "E32ImageHeader \<Rightarrow> Relocation \<Rightarrow> 16 word" where
  "reloc_entry header r =
    (let reloc = roffset r; addr = rvalue r in
     if codeBase header \<le> addr \<and> addr \<le> codeBase header + codeSize header then reloc OR KTextRelocType
     else if dataBase header \<le> addr \<and> addr \<le> dataBase header + dataSize header + bssSize header then reloc OR KDataRelocType
     else reloc)"

definition writeSublist :: "(Relocation list \<Rightarrow> Relocation list) \<Rightarrow> E32ImageHeader \<Rightarrow> 32 word \<times> Relocation list \<Rightarrow> FILE \<Rightarrow> FILE" where
  "writeSublist srt header sub out =
    (let
      relocations = srt (snd sub);
      (relocSize, relocPadding) = sublistSize relocations;
      out = writeUint32 (fst sub) out;
      out = writeUint32 relocSize out;
      out = fold (\<lambda>r. writeUint16 (reloc_entry header r)) relocations out
    in (writeUint8 0 ^^ unat relocPadding) out)"

definition RelocationList_count :: "sublists \<Rightarrow> 32 word" where
  "RelocationList_count sublists = fold (\<lambda>s num. num + of_nat (length (snd s))) sublists 0"

definition RelocationList_write :: "(Relocation list \<Rightarrow> Relocation list) \<Rightarrow> FILE \<Rightarrow> E32ImageHeader \<Rightarrow> sublists \<Rightarrow> FILE" where
  "RelocationList_write srt out header sublists =
    (let
      sz = fold (\<lambda>s sz. sz + fst (sublistSize (snd s))) sublists 0;
      out = writeUint32 sz out;
      out = writeUint32 (RelocationList_count sublists) out
    in fold (writeSublist srt header) sublists out)"

subsection \<open>Exports\<close>

record Export =
  ename :: "byte list option"
  eaddress :: "32 word"
  ecode :: bool
  esize :: "32 word"

record ExportList =
  exports :: "Export list"
  presetOrdinals :: "32 word"

definition ExportList_new :: ExportList where
  "ExportList_new = \<lparr>exports = [], presetOrdinals = 0\<rparr>"

definition Export_new :: "byte list option \<Rightarrow> 32 word \<Rightarrow> bool \<Rightarrow> 32 word \<Rightarrow> Export" where
  "Export_new name value code sz = \<lparr>ename = name, eaddress = value, ecode = code, esize = sz\<rparr>"

text \<open>The operator returns \<open>-1\<close> and \<open>1\<close> as \<open>bool\<close>, so both are true.\<close>

definition Export_compare :: "Export \<Rightarrow> Export \<Rightarrow> bool" where
  "Export_compare exp1 exp2 =
    (case (ename exp1, ename exp2) of
       (None, None) \<Rightarrow> False
     | (None, Some _) \<Rightarrow> True
     | (Some _, None) \<Rightarrow> True
     | (Some n1, Some n2) \<Rightarrow> strcmp_less n1 n2)"

text \<open>\<open>None\<close> is the ordinal 0, which is an access before the start of the vector.\<close>

definition addExportOrdinal :: "byte list \<Rightarrow> 32 word \<Rightarrow> bool \<Rightarrow> 32 word \<Rightarrow> ExportList \<Rightarrow> ExportList option" where
  "addExportOrdinal name ordinal code sz this =
    (let
      n = unat ordinal;
      es = exports this @ replicate (n - length (exports this)) (Export_new None 0 True 0);
      preset = (if presetOrdinals this < ordinal then ordinal else presetOrdinals this)
    in if n = 0 then None
       else Some \<lparr>exports = es[n - 1 := (es ! (n - 1))\<lparr>ename := Some name, ecode := code, esize := sz\<rparr>], presetOrdinals = preset\<rparr>)"

primrec addExport_loop :: "byte list \<Rightarrow> 32 word \<Rightarrow> bool \<Rightarrow> 32 word \<Rightarrow> Export list \<Rightarrow> Export list option" where
  "addExport_loop name addr code sz [] = None"
| "addExport_loop name addr code sz (e # es) =
    (if ename e = Some name
     then Some ((let e = e\<lparr>eaddress := addr\<rparr> in if esize e = 0 then e\<lparr>ecode := code, esize := sz\<rparr> else e) # es)
     else map_option ((#) e) (addExport_loop name addr code sz es))"

definition addExport :: "byte list \<Rightarrow> 32 word \<Rightarrow> bool \<Rightarrow> 32 word \<Rightarrow> ExportList \<Rightarrow> ExportList" where
  "addExport name addr code sz this =
    (case addExport_loop name addr code sz (exports this) of
       Some es \<Rightarrow> this\<lparr>exports := es\<rparr>
     | None \<Rightarrow> this\<lparr>exports := exports this @ [Export_new (Some name) addr code sz]\<rparr>)"

definition warnMissing :: "ExportList \<Rightarrow> bool" where
  "warnMissing this = list_ex (\<lambda>e. eaddress e = 0) (exports this)"

definition doSort :: "(Export list \<Rightarrow> Export list) \<Rightarrow> ExportList \<Rightarrow> ExportList" where
  "doSort srt this =
    (let n = unat (presetOrdinals this) in this\<lparr>exports := take n (exports this) @ srt (drop n (exports this))\<rparr>)"

definition numExports :: "ExportList \<Rightarrow> 32 word" where
  "numExports this = of_nat (length (exports this))"

primrec ExportList_write_loop :: "Export list \<Rightarrow> FILE \<Rightarrow> E32ImageHeader \<Rightarrow> sublists \<Rightarrow> FILE \<times> sublists" where
  "ExportList_write_loop [] out header relocations = (out, relocations)"
| "ExportList_write_loop (e # es) out header relocations =
    (let addr = of_nat (fpos out) - codeOffset header;
         out = writeUint32 (eaddress e) out
     in ExportList_write_loop es out header (addRelocation addr (eaddress e) relocations))"

definition ExportList_write :: "FILE \<Rightarrow> E32ImageHeader \<Rightarrow> sublists \<Rightarrow> ExportList \<Rightarrow> FILE \<times> sublists" where
  "ExportList_write out header relocations this =
    ExportList_write_loop (exports this) (writeUint32 (numExports this) out) header relocations"

section \<open>Sorting\<close>

lemma strict_weak_key: "\<forall>x \<in> A. \<forall>y \<in> A. cmp x y \<longleftrightarrow> f x < (f y :: 'k::linorder) \<Longrightarrow> strict_weak cmp A"
  unfolding strict_weak_def by (auto dest: order_antisym)

lemma std_sort_key: "\<forall>x \<in> set xs. \<forall>y \<in> set xs. cmp x y \<longleftrightarrow> f x < (f y :: 'k::linorder) \<Longrightarrow> std_sort cmp srt \<Longrightarrow>
    mset (srt xs) = mset xs \<and> sorted_wrt (\<lambda>x y. \<not> cmp y x) (srt xs)"
  using strict_weak_key [of "set xs" cmp f] by (simp add: std_sort_def)

lemma sort_key_sorts: "\<forall>x y. cmp x y \<longleftrightarrow> f x < (f y :: 'k::linorder) \<Longrightarrow> std_sort cmp (sort_key f)"
  using sorted_sort_key [of f] by (simp add: std_sort_def sorted_map not_less)

lemma strcmp_less_lex: "strcmp_less s t \<longleftrightarrow> s < t"
  by (induction s t rule: strcmp_less.induct) auto

lemma Library_compare_key: "Library_compare a b \<longleftrightarrow> lname a < lname b"
  by (simp add: Library_compare_def strcmp_less_lex)

lemma std_sort_Library:
  "std_sort Library_compare srt \<Longrightarrow> mset (srt xs) = mset xs \<and> sorted_wrt (\<lambda>x y. \<not> Library_compare y x) (srt xs)"
  using std_sort_key [of xs Library_compare lname srt] by (simp add: Library_compare_key)

lemma std_sort_Relocation:
  "std_sort Relocation_less srt \<Longrightarrow> mset (srt xs) = mset xs \<and> sorted_wrt (\<lambda>x y. \<not> Relocation_less y x) (srt xs)"
  using std_sort_key [of xs Relocation_less roffset srt] by (simp add: Relocation_less_def)

section \<open>Writing as lists of bytes\<close>

lemma f_write_Nil [simp]: "f_write [] f = f"
  by (simp add: f_write_def)

lemma fold_f_write: "fold (\<lambda>x. f_write (g x)) xs f = f_write (concat (map g xs)) f"
  by (induction xs arbitrary: f) (simp_all add: f_write_append)

lemma writeUint8_power: "(writeUint8 b ^^ n) f = f_write (replicate n b) f"
proof (induction n arbitrary: f)
  case (Suc n)
  have "(writeUint8 b ^^ Suc n) f = writeUint8 b ((writeUint8 b ^^ n) f)" by simp
  also have "\<dots> = f_write [b] (f_write (replicate n b) f)" unfolding Suc.IH writeUint8_def by (rule refl)
  finally show ?case by (simp add: f_write_append replicate_append_same)
qed simp

lemma fold_writeUint32: "fold writeUint32 ws f = f_write (concat (map u32_bytes ws)) f"
  unfolding fold_f_write [symmetric] by (simp add: writeUint32_bytes fun_eq_iff fold_cong)

lemma fold_writeUint16: "fold (\<lambda>r. writeUint16 (g r)) rs f = f_write (concat (map (\<lambda>r. u16_bytes (g r)) rs)) f"
proof -
  have "(\<lambda>r. writeUint16 (g r)) = (\<lambda>r. f_write (u16_bytes (g r)))" by (simp add: fun_eq_iff writeUint16_bytes)
  then show ?thesis by (simp add: fold_f_write)
qed

text \<open>Words and strings in a section\<close>

definition word_at :: "byte list \<Rightarrow> nat \<Rightarrow> 32 word" where
  "word_at sec i = ucast (sec ! i) OR push_bit 8 (ucast (sec ! (i + 1))) OR push_bit 16 (ucast (sec ! (i + 2))) OR push_bit 24 (ucast (sec ! (i + 3)))"

definition half_at :: "byte list \<Rightarrow> nat \<Rightarrow> 16 word" where
  "half_at sec i = ucast (sec ! i) OR push_bit 8 (ucast (sec ! (i + 1)))"

definition string_at :: "byte list \<Rightarrow> nat \<Rightarrow> byte list" where
  "string_at sec i = takeWhile (\<lambda>b. b \<noteq> 0) (drop i sec)"

lemma word_at_append [simp]: "length pre = i \<Longrightarrow> word_at (pre @ u32_bytes w @ post) i = w"
  by (auto simp: word_at_def nth_append u32_bytes_def u32_bytes_word)

lemma half_at_append [simp]: "length pre = i \<Longrightarrow> half_at (pre @ u16_bytes w @ post) i = w"
  by (auto simp: half_at_def nth_append u16_bytes_def u16_bytes_word)

lemma string_at_append: "length pre = i \<Longrightarrow> 0 \<notin> set s \<Longrightarrow> string_at (pre @ s @ 0 # post) i = s"
  by (auto simp: string_at_def takeWhile_append)

lemma words_at:
  "length pre = i \<Longrightarrow> map (\<lambda>j. word_at (pre @ concat (map u32_bytes ws) @ post) (i + 4 * j)) [0..<length ws] = ws"
proof (induction ws arbitrary: pre i)
  case (Cons w ws)
  have "word_at (pre @ concat (map u32_bytes (w # ws)) @ post) i = w" using Cons.prems by simp
  moreover have "map (\<lambda>j. word_at ((pre @ u32_bytes w) @ concat (map u32_bytes ws) @ post) ((i + 4) + 4 * j)) [0..<length ws] = ws"
    using Cons.prems by (intro Cons.IH) simp
  ultimately show ?case by (simp add: upt_conv_Cons map_Suc_upt [symmetric] add_ac del: upt_Suc map_map) (simp add: comp_def)
qed simp

lemma halves_at:
  "length pre = i \<Longrightarrow> map (\<lambda>j. half_at (pre @ concat (map u16_bytes ws) @ post) (i + 2 * j)) [0..<length ws] = ws"
proof (induction ws arbitrary: pre i)
  case (Cons w ws)
  have "half_at (pre @ concat (map u16_bytes (w # ws)) @ post) i = w" using Cons.prems by simp
  moreover have "map (\<lambda>j. half_at ((pre @ u16_bytes w) @ concat (map u16_bytes ws) @ post) ((i + 2) + 2 * j)) [0..<length ws] = ws"
    using Cons.prems by (intro Cons.IH) simp
  ultimately show ?case by (simp add: upt_conv_Cons map_Suc_upt [symmetric] add_ac del: upt_Suc map_map) (simp add: comp_def)
qed simp

section \<open>Relocated words\<close>

lemma readUint32_at: "i + 4 \<le> length (fdata f) \<Longrightarrow> readUint32 (f\<lparr>fpos := i\<rparr>) = Some (word_at (fdata f) i, f\<lparr>fpos := i + 4\<rparr>)"
  by (simp add: readUint32_def f_fill_unread f_unread_def f_advance_def word_at_def)

lemma fix_at:
  "i + 4 \<le> length (fdata f) \<Longrightarrow>
    writeUint32 w (f\<lparr>fpos := k, fpos := i\<rparr>) = f\<lparr>fdata := take i (fdata f) @ u32_bytes w @ drop (i + 4) (fdata f), fpos := i + 4\<rparr>"
  by (simp add: writeUint32_bytes f_write_data)

text \<open>
  A relocated word is changed and nothing else: \<open>fixRelocation\<close> adds the value to the word at the offset, modulo \<open>2 ^ 32\<close>, returns the sum and
  leaves the length and all other bytes of the image alone.  A word that is not inside the file makes it use uninitialised bytes.
\<close>

theorem fixRelocation_word:
  "fixRelocation offset out value =
    (if unat offset + 4 \<le> length (fdata out)
     then let w = value + word_at (fdata out) (unat offset) in
       Some (w, \<lparr>fdata = take (unat offset) (fdata out) @ u32_bytes w @ drop (unat offset + 4) (fdata out), fpos = unat offset + 4\<rparr>)
     else None)"
proof (cases "unat offset + 4 \<le> length (fdata out)")
  case True
  then show ?thesis using readUint32_at [OF True] by (cases out) (simp add: fixRelocation_def Let_def writeUint32_bytes f_write_data)
next
  case False
  then have "length (fdata out) - unat offset < 4" by linarith
  then show ?thesis using False by (simp add: fixRelocation_def readUint32_def f_fill_unread f_unread_def)
qed

section \<open>The import section\<close>

definition library_bytes :: "Library \<Rightarrow> byte list" where
  "library_bytes l = u32_bytes (the (loffset l)) @ u32_bytes (of_nat (length (addresses l))) @ concat (map u32_bytes (addresses l))"

definition name_bytes :: "Library list \<Rightarrow> byte list" where
  "name_bytes ls = concat (map (\<lambda>l. lname l @ [0]) ls)"

lemma ImportList_write_bytes:
  assumes "place_names (if srtd then srt libs else libs) (fold (\<lambda>l sz. sz + 8 + of_nat (length (addresses l)) * 4) (if srtd then srt libs else libs) 4) = (ls, sz)"
  shows "ImportList_write srt out srtd padsize libs =
    (f_write (u32_bytes (if padsize then sz + pad4 sz else sz) @ concat (map library_bytes ls) @ name_bytes ls @ replicate (unat (pad4 sz)) 0) out, ls)"
proof -
  have w: "write_library l f = f_write (library_bytes l) f" for l f
    by (simp add: write_library_def writeUint32_bytes fold_writeUint32 f_write_append library_bytes_def)
  then have "fold write_library ls f = f_write (concat (map library_bytes ls)) f" for ls f by (induction ls arbitrary: f) (simp_all add: f_write_append)
  then show ?thesis using assms
    by (simp add: ImportList_write_def Let_def fold_f_write writeUint8_power writeUint32_bytes f_write_append name_bytes_def)
qed

text \<open>The reader of the section: the entries of \<open>n\<close> libraries from a position on\<close>

primrec import_entries :: "nat \<Rightarrow> nat \<Rightarrow> byte list \<Rightarrow> (byte list \<times> 32 word list) list" where
  "import_entries 0 pos sec = []"
| "import_entries (Suc n) pos sec =
    (let k = unat (word_at sec (pos + 4)) in
     (string_at sec (unat (word_at sec pos)), map (\<lambda>j. word_at sec (pos + 8 + 4 * j)) [0..<k]) # import_entries n (pos + 8 + 4 * k) sec)"

lemma length_library_bytes: "length (library_bytes l) = 8 + 4 * length (addresses l)"
proof -
  have "length (concat (map u32_bytes ws)) = 4 * length ws" for ws by (induction ws) simp_all
  then show ?thesis by (simp add: library_bytes_def)
qed

lemma import_entries_libraries:
  assumes "sec = pre @ concat (map library_bytes ls) @ post" "length pre = pos"
    and "\<forall>l \<in> set ls. length (addresses l) < 2 ^ 32 \<and> string_at sec (unat (the (loffset l))) = lname l"
  shows "import_entries (length ls) pos sec = map (\<lambda>l. (lname l, addresses l)) ls"
  using assms
proof (induction ls arbitrary: pre pos)
  case (Cons l ls)
  let ?k = "length (addresses l)" and ?rest = "concat (map library_bytes ls) @ post"
  have k: "unat (of_nat ?k :: 32 word) = ?k" using Cons.prems(3) by (simp add: unat_of_nat)
  have sec: "sec = pre @ u32_bytes (the (loffset l)) @ u32_bytes (of_nat ?k) @ concat (map u32_bytes (addresses l)) @ ?rest"
    using Cons.prems(1) by (simp add: library_bytes_def [of l])
  have w1: "word_at sec pos = the (loffset l)" unfolding sec using Cons.prems(2) by simp
  have "sec = (pre @ u32_bytes (the (loffset l))) @ u32_bytes (of_nat ?k) @ concat (map u32_bytes (addresses l)) @ ?rest" using sec by simp
  then have w2: "word_at sec (pos + 4) = of_nat ?k" using Cons.prems(2) word_at_append [of "pre @ u32_bytes (the (loffset l))" "pos + 4"] by simp
  have "sec = (pre @ u32_bytes (the (loffset l)) @ u32_bytes (of_nat ?k)) @ concat (map u32_bytes (addresses l)) @ ?rest" using sec by simp
  then have w3: "map (\<lambda>j. word_at sec (pos + 8 + 4 * j)) [0..<?k] = addresses l"
    using Cons.prems(2) words_at [of "pre @ u32_bytes (the (loffset l)) @ u32_bytes (of_nat ?k)" "pos + 8"] by simp
  have ih: "import_entries (length ls) (pos + 8 + 4 * ?k) sec = map (\<lambda>l. (lname l, addresses l)) ls"
    using Cons.prems by (intro Cons.IH [of "pre @ library_bytes l"]) (simp_all add: length_library_bytes)
  then show ?case using w1 w2 w3 k Cons.prems(3) by (simp add: Let_def)
qed simp

lemma place_names_spec:
  assumes "place_names libs sz = (ls, sz')" "unat sz + length (name_bytes libs) < 2 ^ 32"
  shows "map lname ls = map lname libs \<and> map addresses ls = map addresses libs \<and> unat sz' = unat sz + length (name_bytes libs)"
  using assms
proof (induction libs arbitrary: sz ls sz')
  case (Cons l libs)
  let ?n = "of_nat (length (lname l)) + 1 :: 32 word"
  obtain ls1 where p: "place_names libs (sz + ?n) = (ls1, sz')" "ls = l\<lparr>loffset := Some sz\<rparr> # ls1"
    using Cons.prems(1) by (auto simp: Let_def split: prod.splits)
  have "?n = of_nat (length (lname l) + 1)" by simp
  then have n: "unat ?n = length (lname l) + 1" using Cons.prems(2) by (simp only: unat_of_nat) (simp add: name_bytes_def)
  then have a: "unat (sz + ?n) = unat sz + (length (lname l) + 1)" using Cons.prems(2) by (simp add: unat_word_ariths name_bytes_def)
  have "unat (sz + ?n) + length (name_bytes libs) < 2 ^ 32" unfolding a using Cons.prems(2) by (simp add: name_bytes_def)
  from Cons.IH [OF p(1) this] show ?case using p(2) a by (simp add: name_bytes_def)
qed (simp add: name_bytes_def)

lemma place_names_strings:
  assumes "place_names libs sz = (ls, sz')" "unat sz + length (name_bytes libs) < 2 ^ 32"
    and "sec = pre @ name_bytes libs @ post" "length pre = unat sz" "\<forall>l \<in> set libs. 0 \<notin> set (lname l)"
  shows "\<forall>l \<in> set ls. string_at sec (unat (the (loffset l))) = lname l"
  using assms
proof (induction libs arbitrary: sz ls sz' pre)
  case (Cons l libs)
  let ?n = "of_nat (length (lname l)) + 1 :: 32 word"
  obtain ls1 where p: "place_names libs (sz + ?n) = (ls1, sz')" "ls = l\<lparr>loffset := Some sz\<rparr> # ls1"
    using Cons.prems(1) by (auto simp: Let_def split: prod.splits)
  have "?n = of_nat (length (lname l) + 1)" by simp
  then have n: "unat ?n = length (lname l) + 1" using Cons.prems(2) by (simp only: unat_of_nat) (simp add: name_bytes_def)
  then have a: "unat (sz + ?n) = unat sz + (length (lname l) + 1)" using Cons.prems(2) by (simp add: unat_word_ariths name_bytes_def)
  have "unat (sz + ?n) + length (name_bytes libs) < 2 ^ 32" unfolding a using Cons.prems(2) by (simp add: name_bytes_def)
  moreover have "sec = (pre @ lname l @ [0]) @ name_bytes libs @ post" using Cons.prems(3) by (simp add: name_bytes_def)
  ultimately have "\<forall>l \<in> set ls1. string_at sec (unat (the (loffset l))) = lname l"
    using Cons.IH [OF p(1), of "pre @ lname l @ [0]"] Cons.prems(4,5) a by simp
  moreover have "string_at sec (unat sz) = lname l"
    using Cons.prems(3-5) string_at_append [of pre "unat sz" "lname l" "name_bytes libs @ post"] by (simp add: name_bytes_def)
  ultimately show ?case using p(2) by simp
qed simp

subsection \<open>What is added is what is read\<close>

definition imports_of :: "(byte list \<times> 32 word) list \<Rightarrow> byte list \<Rightarrow> 32 word list" where
  "imports_of is name = map snd (filter (\<lambda>i. fst i = name) is)"

definition libraries_of :: "(byte list \<times> 32 word) list \<Rightarrow> Library list" where
  "libraries_of is = fold (\<lambda>i. addImport (fst i) (snd i)) is []"

lemma findLibrary_loop_index:
  "findLibrary_loop name ls = Some i \<Longrightarrow> i < length ls \<and> lname (ls ! i) = name"
  "findLibrary_loop name ls = None \<longleftrightarrow> name \<notin> set (map lname ls)"
  by (induction ls arbitrary: i) (auto split: if_splits)

text \<open>The invariant of the list: names occur once and libraries have the addresses of their imports\<close>

definition libraries_ok :: "(byte list \<times> 32 word) list \<Rightarrow> Library list \<Rightarrow> bool" where
  "libraries_ok is ls \<longleftrightarrow> distinct (map lname ls) \<and> set (map lname ls) = set (map fst is) \<and> (\<forall>l \<in> set ls. addresses l = imports_of is (lname l))"

lemma addImport_ok:
  assumes "libraries_ok is ls"
  shows "libraries_ok (is @ [(name, addr)]) (addImport name addr ls)"
proof (cases "findLibrary_loop name ls")
  case None
  then have new: "name \<notin> set (map lname ls)" using findLibrary_loop_index(2) [of name ls] by simp
  then have no: "imports_of is name = []" using assms by (auto simp: libraries_ok_def imports_of_def filter_empty_conv)
  have "addImport name addr ls = ls @ [\<lparr>lname = name, addresses = [addr], loffset = None\<rparr>]"
    using None by (simp add: addImport_def findLibrary_def Library_new_def)
  then show ?thesis using assms new no by (auto simp: libraries_ok_def imports_of_def)
next
  case (Some i)
  let ?l = "ls ! i"
  have i: "i < length ls" "lname ?l = name" using findLibrary_loop_index(1) [OF Some] by auto
  have a: "addImport name addr ls = ls[i := ?l\<lparr>addresses := addresses ?l @ [addr]\<rparr>]" using Some by (simp add: addImport_def findLibrary_def)
  have names: "map lname (addImport name addr ls) = map lname ls" unfolding a using i by (simp add: map_update list_update_same_conv)
  have d: "distinct (map lname ls)" using assms by (simp add: libraries_ok_def)
  have "addresses l = imports_of (is @ [(name, addr)]) (lname l)" if l: "l \<in> set (addImport name addr ls)" for l
  proof -
    from l obtain j where j: "j < length ls" "l = addImport name addr ls ! j" unfolding a by (auto simp: in_set_conv_nth)
    show ?thesis
    proof (cases "j = i")
      case True
      then have "l = ?l\<lparr>addresses := addresses ?l @ [addr]\<rparr>" using j i by (simp add: a)
      moreover have "addresses ?l = imports_of is name" using assms i by (auto simp: libraries_ok_def)
      ultimately show ?thesis using i by (simp add: imports_of_def)
    next
      case False
      then have lj: "l = ls ! j" using j by (simp add: a)
      then have "lname l \<noteq> name" using d i j False nth_eq_iff_index_eq [OF d, of j i] by auto
      moreover have "l \<in> set ls" unfolding lj using j(1) by simp
      then have "addresses l = imports_of is (lname l)" using assms by (simp add: libraries_ok_def)
      ultimately show ?thesis by (simp add: imports_of_def)
    qed
  qed
  moreover have "name \<in> set (map fst is)" using assms i by (auto simp: libraries_ok_def)
  ultimately show ?thesis using names d assms unfolding libraries_ok_def by auto
qed

lemma libraries_of_ok: "libraries_ok is (libraries_of is)"
proof (induction "is" rule: rev_induct)
  case Nil
  then show ?case by (simp add: libraries_of_def libraries_ok_def)
next
  case (snoc i "is")
  then show ?case using addImport_ok [of "is" "libraries_of is" "fst i" "snd i"] by (simp add: libraries_of_def)
qed

lemma libraries_ok_mset: "mset ls' = mset ls \<Longrightarrow> libraries_ok is ls \<Longrightarrow> libraries_ok is ls'"
proof -
  assume m: "mset ls' = mset ls" and ok: "libraries_ok is ls"
  have "mset (map lname ls') = mset (map lname ls)" using m by simp
  then have "distinct (map lname ls') = distinct (map lname ls)" "set (map lname ls') = set (map lname ls)"
    by (rule mset_eq_imp_distinct_iff, metis mset_eq_setD)
  then show ?thesis using ok mset_eq_setD [OF m] by (simp add: libraries_ok_def)
qed

subsection \<open>Sizes\<close>

lemma unat_and_3: "unat (w AND 3 :: 32 word) = unat w mod 4"
proof -
  have "w AND 3 = take_bit 2 w" by (simp add: take_bit_eq_mask mask_numeral)
  then show ?thesis by (simp add: take_bit_eq_mod unat_mod)
qed

lemma unat_pad4: "unat (pad4 w) = (4 - unat w mod 4) mod 4"
proof (cases "w AND 3 = 0")
  case True
  then have "unat w mod 4 = 0" using unat_and_3 [of w] by simp
  then show ?thesis using True by (simp add: pad4_def)
next
  case False
  then have z: "unat w mod 4 \<noteq> 0" using unat_and_3 [of w] by (metis unat_eq_0)
  have "unat w mod 4 < 4" by simp
  then have "(w AND 3) \<le> 4" using unat_and_3 [of w] by (simp add: word_le_nat_alt)
  then have "unat (4 - (w AND 3)) = 4 - unat w mod 4" using unat_and_3 [of w] by (simp add: unat_sub)
  then show ?thesis using False z by (simp add: pad4_def)
qed

lemma pad4_less: "unat (pad4 w) < 4"
  by (simp add: unat_pad4)

lemma pad4_aligned: "unat w + unat (pad4 w) = n \<Longrightarrow> n mod 4 = 0"
proof -
  assume n: "unat w + unat (pad4 w) = n"
  have "unat w mod 4 < 4" by simp
  then have "unat w mod 4 + (4 - unat w mod 4) = 4" by linarith
  then have "(unat w + (4 - unat w mod 4) mod 4) mod 4 = 0" by (metis mod_add_left_eq mod_add_right_eq mod_self)
  then show ?thesis using n by (simp add: unat_pad4)
qed

lemma import_size_fold:
  "fold (\<lambda>l sz. sz + 8 + of_nat (length (addresses l)) * 4) ls (of_nat k) = (of_nat (k + length (concat (map library_bytes ls))) :: 32 word)"
proof (induction ls arbitrary: k)
  case (Cons l ls)
  have "(of_nat k + 8 + of_nat (length (addresses l)) * 4 :: 32 word) = of_nat (k + length (library_bytes l))" by (simp add: length_library_bytes)
  then show ?case using Cons [of "k + length (library_bytes l)"] by (simp only: fold_simps comp_def) (simp add: add_ac)
qed simp

definition import_weight :: "Library list \<Rightarrow> nat" where
  "import_weight ls = length (concat (map library_bytes ls)) + length (name_bytes ls)"

lemma import_weight_sum: "import_weight ls = sum_list (map (\<lambda>l. 9 + length (lname l) + 4 * length (addresses l)) ls)"
  by (induction ls) (simp_all add: import_weight_def length_library_bytes name_bytes_def)

lemma import_weight_mset: "mset ls' = mset ls \<Longrightarrow> import_weight ls' = import_weight ls"
  unfolding import_weight_sum sum_mset_sum_list [symmetric] mset_map by (rule arg_cong)

lemma import_weight_update:
  "i < length ls \<Longrightarrow> import_weight (ls[i := (ls ! i)\<lparr>addresses := addresses (ls ! i) @ [a]\<rparr>]) = import_weight ls + 4"
  unfolding import_weight_sum by (induction ls arbitrary: i) (auto simp: nth_Cons split: nat.splits)

lemma import_weight_le: "import_weight (libraries_of is) \<le> sum_list (map (\<lambda>i. 13 + length (fst i)) is)"
proof (induction "is" rule: rev_induct)
  case Nil
  then show ?case by (simp add: libraries_of_def import_weight_sum)
next
  case (snoc i "is")
  let ?ls = "libraries_of is"
  have "import_weight (addImport (fst i) (snd i) ?ls) \<le> import_weight ?ls + 13 + length (fst i)"
  proof (cases "findLibrary_loop (fst i) ?ls")
    case None
    then show ?thesis by (simp add: addImport_def findLibrary_def Library_new_def import_weight_sum)
  next
    case (Some k)
    then show ?thesis using findLibrary_loop_index(1) [OF Some] by (simp add: addImport_def findLibrary_def import_weight_update)
  qed
  then show ?case using snoc by (simp add: libraries_of_def)
qed

subsection \<open>The section\<close>

lemma ImportList_write_section:
  assumes "\<forall>l \<in> set libs. 0 \<notin> set (lname l)" "import_weight libs < 2 ^ 32 - 8" and libs: "libs = (if srtd then srt ls else ls)"
  shows "\<exists>sec ls'. ImportList_write srt out srtd padsize ls = (f_write sec out, ls') \<and> length sec mod 4 = 0 \<and>
    (padsize \<longrightarrow> word_at sec 0 = of_nat (length sec)) \<and> import_entries (length libs) 4 sec = map (\<lambda>l. (lname l, addresses l)) libs"
proof -
  let ?sz0 = "fold (\<lambda>l sz. sz + 8 + of_nat (length (addresses l)) * 4) libs 4 :: 32 word"
  obtain ls' sz where p: "place_names libs ?sz0 = (ls', sz)" by fastforce
  have len: "length (concat (map library_bytes ls1)) = sum_list (map (\<lambda>as. 8 + 4 * length as) (map addresses ls1))" for ls1
    by (induction ls1) (simp_all add: length_library_bytes)
  have "?sz0 = of_nat (4 + length (concat (map library_bytes libs)))" using import_size_fold [of libs 4] by simp
  moreover have "4 + length (concat (map library_bytes libs)) < 2 ^ 32" using assms(2) by (simp add: import_weight_def)
  ultimately have sz0: "unat ?sz0 = 4 + length (concat (map library_bytes libs))" by (simp only: unat_of_nat) simp
  have fits: "unat ?sz0 + length (name_bytes libs) < 2 ^ 32" unfolding sz0 using assms(2) by (simp add: import_weight_def)
  have names: "map lname ls' = map lname libs" "map addresses ls' = map addresses libs" "unat sz = unat ?sz0 + length (name_bytes libs)"
    using place_names_spec [OF p fits] by simp_all
  have "name_bytes xs = concat (map (\<lambda>n. n @ [0]) (map lname xs))" for xs by (simp add: name_bytes_def comp_def)
  then have nb: "name_bytes ls' = name_bytes libs" by (simp only: names(1))
  have lb: "length (concat (map library_bytes ls')) = length (concat (map library_bytes libs))" unfolding len names by (rule refl)
  define sec where "sec = u32_bytes (if padsize then sz + pad4 sz else sz) @ concat (map library_bytes ls') @ name_bytes ls' @ replicate (unat (pad4 sz)) 0"
  have "ImportList_write srt out srtd padsize ls = (f_write sec out, ls')"
    unfolding sec_def using ImportList_write_bytes [of srtd srt ls ls' sz out padsize] p libs by simp
  moreover have ln: "length sec = unat sz + unat (pad4 sz)" using lb nb names(3) sz0 by (simp add: sec_def)
  then have "length sec mod 4 = 0" using pad4_aligned [of sz] by simp
  moreover have "word_at sec 0 = of_nat (length sec)" if padsize
    using that word_at_append [of "[]" 0 "sz + pad4 sz"] unfolding ln by (simp add: sec_def)
  moreover have "import_entries (length libs) 4 sec = map (\<lambda>l. (lname l, addresses l)) libs"
  proof -
    have str: "\<forall>l \<in> set ls'. string_at sec (unat (the (loffset l))) = lname l"
    proof (rule place_names_strings [OF p fits])
      show "sec = (u32_bytes (if padsize then sz + pad4 sz else sz) @ concat (map library_bytes ls')) @ name_bytes libs @ replicate (unat (pad4 sz)) 0"
        by (simp add: sec_def nb)
    qed (use lb sz0 assms(1) in simp_all)
    have adr: "length (addresses l) < 2 ^ 32" if "l \<in> set ls'" for l
    proof -
      have "length (addresses l) \<le> length (library_bytes l)" by (simp add: length_library_bytes)
      also have "\<dots> \<le> length (concat (map library_bytes ls'))" using that by (auto simp: length_concat intro!: member_le_sum_list)
      finally show ?thesis using assms(2) lb by (simp add: import_weight_def)
    qed
    have "import_entries (length ls') 4 sec = map (\<lambda>l. (lname l, addresses l)) ls'"
      by (rule import_entries_libraries [of sec "u32_bytes (if padsize then sz + pad4 sz else sz)" _ "name_bytes ls' @ replicate (unat (pad4 sz)) 0"])
        (use str adr in \<open>simp_all add: sec_def\<close>)
    moreover have "map (\<lambda>l. (lname l, addresses l)) ls' = map (\<lambda>l. (lname l, addresses l)) libs"
    proof -
      have z: "map (\<lambda>l. (lname l, addresses l)) xs = zip (map lname xs) (map addresses xs)" for xs by (induction xs) simp_all
      show ?thesis unfolding z names(1,2) by (rule refl)
    qed
    moreover have "length ls' = length libs" using names(1) map_eq_imp_length_eq by blast
    ultimately show ?thesis by simp
  qed
  ultimately show ?thesis by (intro exI [of _ sec] exI [of _ ls'] conjI impI)
qed

text \<open>
  C9. The import section of an image lists what was imported.  Whatever order \<open>addImport\<close> is called in, a reader that follows the
  offsets and counts of the section finds as many libraries as \<open>dllRefTableCount\<close> says, each name once, with exactly the addresses
  that were added for it, in their order; the libraries are in the order of their names if \<open>doSort\<close> is set.  The section
  ends at a multiple of four bytes, which its first word gives if \<open>padsize\<close> is set.  The names have no zero bytes and the section is smaller than 4 GB.
\<close>

theorem ImportList_section:
  assumes "std_sort Library_compare srt" "\<forall>i \<in> set is. 0 \<notin> set (fst i)" "sum_list (map (\<lambda>i. 13 + length (fst i)) is) < 2 ^ 32 - 8"
  shows "\<exists>sec ls ds. ImportList_write srt out srtd padsize (libraries_of is) = (f_write sec out, ls) \<and> length sec mod 4 = 0 \<and>
    (padsize \<longrightarrow> word_at sec 0 = of_nat (length sec)) \<and> ds = import_entries (unat (numLibraries (libraries_of is))) 4 sec \<and>
    distinct (map fst ds) \<and> set (map fst ds) = set (map fst is) \<and> list_all (\<lambda>d. snd d = imports_of is (fst d)) ds \<and>
    (srtd \<longrightarrow> sorted_wrt (\<lambda>d d'. \<not> strcmp_less (fst d') (fst d)) ds)"
proof -
  let ?ls = "libraries_of is"
  define libs where "libs = (if srtd then srt ?ls else ?ls)"
  have m: "mset libs = mset ?ls" using std_sort_Library [OF assms(1)] by (simp add: libs_def)
  have ok: "libraries_ok is libs" using libraries_ok_mset [OF m libraries_of_ok] .
  have w: "import_weight libs < 2 ^ 32 - 8" using import_weight_mset [OF m] import_weight_le [of "is"] assms(3) by simp
  have "lname l \<in> set (map fst is)" if "l \<in> set libs" for l using ok that by (auto simp: libraries_ok_def)
  then have z: "\<forall>l \<in> set libs. 0 \<notin> set (lname l)" using assms(2) by fastforce
  have "length libs \<le> import_weight libs" unfolding import_weight_sum by (induction libs) simp_all
  then have n: "unat (numLibraries ?ls) = length libs" using w m mset_eq_length [OF m] by (simp add: numLibraries_def unat_of_nat)
  let ?ds = "map (\<lambda>l. (lname l, addresses l)) libs"
  have "sorted_wrt (\<lambda>d d'. \<not> strcmp_less (fst d') (fst d)) ?ds" if srtd
    using std_sort_Library [OF assms(1), of ?ls] that by (simp add: libs_def Library_compare_def sorted_wrt_map)
  moreover have "distinct (map fst ?ds)" "set (map fst ?ds) = set (map fst is)" "list_all (\<lambda>d. snd d = imports_of is (fst d)) ?ds"
    using ok by (simp_all add: libraries_ok_def comp_def list_all_iff)
  moreover obtain sec ls' where "ImportList_write srt out srtd padsize ?ls = (f_write sec out, ls')" "length sec mod 4 = 0"
    "padsize \<longrightarrow> word_at sec 0 = of_nat (length sec)" "import_entries (unat (numLibraries ?ls)) 4 sec = ?ds"
    using ImportList_write_section [where srtd = srtd and srt = srt and ls = ?ls and out = out and padsize = padsize, OF z w libs_def] n by auto
  ultimately show ?thesis by (intro exI [of _ sec] exI [of _ ls'] exI [of _ ?ds] conjI impI) simp_all
qed

theorem ImportList_section_witness:
  "\<exists>sec ls. ImportList_write (sort_key lname) \<lparr>fdata = [], fpos = 0\<rparr> True True (libraries_of [(cstr ''euser.dll'', 16), (cstr ''avkon.dll'', 20), (cstr ''euser.dll'', 24)]) =
      (f_write sec \<lparr>fdata = [], fpos = 0\<rparr>, ls) \<and>
    word_at sec 0 = of_nat (length sec) \<and>
    set (map fst (import_entries (unat (numLibraries (libraries_of [(cstr ''euser.dll'', 16), (cstr ''avkon.dll'', 20), (cstr ''euser.dll'', 24)]))) 4 sec)) = {cstr ''avkon.dll'', cstr ''euser.dll''}"
proof -
  let ?is = "[(cstr ''euser.dll'', 16), (cstr ''avkon.dll'', 20), (cstr ''euser.dll'', 24)]"
  have "std_sort Library_compare (sort_key lname)" by (rule sort_key_sorts) (simp add: Library_compare_key)
  moreover have "\<forall>i \<in> set ?is. 0 \<notin> set (fst i)" by (simp add: cstr_def)
  moreover have "sum_list (map (\<lambda>i. 13 + length (fst i)) ?is) < 2 ^ 32 - 8" by (simp add: cstr_def)
  ultimately show ?thesis using ImportList_section [of "sort_key lname" ?is "\<lparr>fdata = [], fpos = 0\<rparr>" True True] by auto
qed

section \<open>The relocation section\<close>

lemma pad_halves: "(4 - (8 + 2 * n) mod 4) mod 4 = 2 * (n mod 2)" for n :: nat
proof -
  have "(8 + 2 * n) mod 4 = 2 * (n mod 2)" by presburger
  then show ?thesis by (cases "even n") (simp_all add: odd_iff_mod_2_eq_one)
qed

lemma sublistSize_bytes: "length rs < 2 ^ 30 \<Longrightarrow> unat (fst (sublistSize rs)) = 8 + 2 * length rs + unat (snd (sublistSize rs)) \<and> unat (snd (sublistSize rs)) = 2 * (length rs mod 2)"
proof -
  assume n: "length rs < 2 ^ 30"
  let ?w = "8 + 2 * of_nat (length rs) :: 32 word"
  have "?w = of_nat (8 + 2 * length rs)" by simp
  then have w: "unat ?w = 8 + 2 * length rs" using n by (simp only: unat_of_nat) simp
  have p: "unat (pad4 ?w) = 2 * (length rs mod 2)" unfolding unat_pad4 w by (rule pad_halves)
  then have "unat (?w + pad4 ?w) = unat ?w + unat (pad4 ?w)" using n w by (simp add: unat_word_ariths)
  then show ?thesis using w p by (simp add: sublistSize_def Let_def)
qed

definition sublist_bytes :: "(Relocation list \<Rightarrow> Relocation list) \<Rightarrow> E32ImageHeader \<Rightarrow> 32 word \<times> Relocation list \<Rightarrow> byte list" where
  "sublist_bytes srt h sub =
    u32_bytes (fst sub) @ u32_bytes (fst (sublistSize (srt (snd sub)))) @ concat (map u16_bytes (map (reloc_entry h) (srt (snd sub)))) @
    replicate (unat (snd (sublistSize (srt (snd sub))))) 0"

lemma writeSublist_bytes: "writeSublist srt h sub out = f_write (sublist_bytes srt h sub) out"
  by (simp add: writeSublist_def sublist_bytes_def Let_def split_beta writeUint32_bytes fold_writeUint16 writeUint8_power f_write_append comp_def)

lemma RelocationList_write_bytes:
  "RelocationList_write srt out h s =
    f_write (u32_bytes (fold (\<lambda>s sz. sz + fst (sublistSize (snd s))) s 0) @ u32_bytes (RelocationList_count s) @ concat (map (sublist_bytes srt h) s)) out"
proof -
  have "fold (writeSublist srt h) s f = f_write (concat (map (sublist_bytes srt h) s)) f" for f
    by (induction s arbitrary: f) (simp_all add: writeSublist_bytes f_write_append)
  then show ?thesis by (simp add: RelocationList_write_def Let_def writeUint32_bytes f_write_append)
qed

text \<open>
  The reader of the section, as the loader does: blocks from a position to the end, each with its page, its size and entries of
  two bytes, of which those that are zero are padding.  An entry gives the address and the kind of the relocation.
\<close>

definition block_entries :: "byte list \<Rightarrow> nat \<Rightarrow> nat \<Rightarrow> (32 word \<times> 16 word) list" where
  "block_entries sec pos sz =
    map (\<lambda>e. (word_at sec pos + ucast (e AND 0xfff), e AND 0xf000)) (filter (\<lambda>e. e \<noteq> 0) (map (\<lambda>j. half_at sec (pos + 8 + 2 * j)) [0..<(sz - 8) div 2]))"

function reloc_blocks :: "byte list \<Rightarrow> nat \<Rightarrow> (32 word \<times> 16 word) list" where
  "reloc_blocks sec pos =
    (let sz = unat (word_at sec (pos + 4)) in
     if length sec < pos + 8 \<or> sz < 8 then [] else block_entries sec pos sz @ reloc_blocks sec (pos + sz))"
  by auto

termination
  by (relation "measure (\<lambda>(sec, pos). length sec - pos)") auto

declare reloc_blocks.simps [simp del]

lemma concat_zero_halves: "concat (map u16_bytes (replicate k 0)) = replicate (2 * k) 0"
  by (induction k) (simp_all add: u16_bytes_def)

lemma length_concat_u16: "length (concat (map u16_bytes ws)) = 2 * length ws"
  by (induction ws) simp_all

definition decoded :: "32 word \<Rightarrow> 16 word list \<Rightarrow> (32 word \<times> 16 word) list" where
  "decoded p es = map (\<lambda>e. (p + ucast (e AND 0xfff), e AND 0xf000)) (filter (\<lambda>e. e \<noteq> 0) es)"

lemma length_sublist_bytes: "length (srt (snd sub)) < 2 ^ 30 \<Longrightarrow> length (sublist_bytes srt h sub) = unat (fst (sublistSize (srt (snd sub))))"
  using sublistSize_bytes [of "srt (snd sub)"] length_concat_u16 [of "map (reloc_entry h) (srt (snd sub))"] by (simp add: sublist_bytes_def)

lemma reloc_blocks_sublists:
  assumes "sec = pre @ concat (map (sublist_bytes srt h) s)" "length pre = pos" "\<forall>sub \<in> set s. length (srt (snd sub)) < 2 ^ 30"
  shows "reloc_blocks sec pos = concat (map (\<lambda>sub. decoded (fst sub) (map (reloc_entry h) (srt (snd sub)))) s)"
  using assms
proof (induction s arbitrary: pre pos)
  case Nil
  then show ?case by (simp add: reloc_blocks.simps)
next
  case (Cons sub s)
  let ?rs = "srt (snd sub)"
  let ?es = "map (reloc_entry h) ?rs" and ?k = "length ?rs mod 2" and ?rest = "concat (map (sublist_bytes srt h) s)"
  have n: "length ?rs < 2 ^ 30" using Cons.prems(3) by simp
  note sz = sublistSize_bytes [OF n]
  have pad: "replicate (unat (snd (sublistSize ?rs))) 0 = concat (map u16_bytes (replicate ?k 0))" using sz unfolding concat_zero_halves by simp
  have sec: "sec = pre @ u32_bytes (fst sub) @ u32_bytes (fst (sublistSize ?rs)) @ concat (map u16_bytes (?es @ replicate ?k 0)) @ ?rest"
    using Cons.prems(1) pad by (simp add: sublist_bytes_def [of srt h sub])
  have w1: "word_at sec pos = fst sub" unfolding sec using Cons.prems(2) by simp
  have "sec = (pre @ u32_bytes (fst sub)) @ u32_bytes (fst (sublistSize ?rs)) @ concat (map u16_bytes (?es @ replicate ?k 0)) @ ?rest" using sec by simp
  then have w2: "word_at sec (pos + 4) = fst (sublistSize ?rs)"
    using Cons.prems(2) word_at_append [of "pre @ u32_bytes (fst sub)" "pos + 4"] by simp
  have cnt: "(unat (fst (sublistSize ?rs)) - 8) div 2 = length (?es @ replicate ?k 0)" using sz by simp
  have "sec = (pre @ u32_bytes (fst sub) @ u32_bytes (fst (sublistSize ?rs))) @ concat (map u16_bytes (?es @ replicate ?k 0)) @ ?rest" using sec by simp
  then have w3: "map (\<lambda>j. half_at sec (pos + 8 + 2 * j)) [0..<length (?es @ replicate ?k 0)] = ?es @ replicate ?k 0"
    using Cons.prems(2) halves_at [of "pre @ u32_bytes (fst sub) @ u32_bytes (fst (sublistSize ?rs))" "pos + 8" "?es @ replicate ?k 0"] by simp
  have b: "block_entries sec pos (unat (fst (sublistSize ?rs))) = decoded (fst sub) ?es"
    unfolding block_entries_def cnt w3 w1 decoded_def by simp
  have l: "pos + 8 \<le> length sec" unfolding sec using Cons.prems(2) by simp
  have ih: "reloc_blocks sec (pos + unat (fst (sublistSize ?rs))) = concat (map (\<lambda>sub. decoded (fst sub) (map (reloc_entry h) (srt (snd sub)))) s)"
    using Cons.prems length_sublist_bytes [of srt sub h] by (intro Cons.IH [of "pre @ sublist_bytes srt h sub"]) simp_all
  show ?case using l sz w2 b ih by (subst reloc_blocks.simps) (simp add: Let_def)
qed

subsection \<open>What is added is what is read\<close>

definition relocations_of :: "(32 word \<times> 32 word) list \<Rightarrow> sublists" where
  "relocations_of rs = fold (\<lambda>r. addRelocation (fst r) (snd r)) rs []"

definition reloc_type :: "E32ImageHeader \<Rightarrow> 32 word \<Rightarrow> 16 word" where
  "reloc_type h addr =
    (if codeBase h \<le> addr \<and> addr \<le> codeBase h + codeSize h then KTextRelocType
     else if dataBase h \<le> addr \<and> addr \<le> dataBase h + dataSize h + bssSize h then KDataRelocType else 0)"

definition contents :: "sublists \<Rightarrow> (32 word \<times> 32 word) list" where
  "contents s = concat (map (\<lambda>sub. map (\<lambda>r. (fst sub + ucast (roffset r), rvalue r)) (snd sub)) s)"

lemma page_masks:
  "(0xfff :: 32 word) = mask 12" "(0xfffff000 :: 32 word) = NOT (mask 12)" "(0xfff :: 16 word) = mask 12" "(0xf000 :: 16 word) = NOT (mask 12)"
  by (simp_all add: mask_numeral)

lemma page_split: "(offset AND 0xfffff000) + ucast (ucast (offset AND 0xfff) :: 16 word) = (offset :: 32 word)"
proof -
  have "(ucast (ucast (offset AND 0xfff) :: 16 word) :: 32 word) = offset AND 0xfff"
    unfolding page_masks by (rule bit_word_eqI) (auto simp: bit_simps)
  moreover have "(offset AND 0xfffff000) AND (offset AND 0xfff) = 0" unfolding page_masks by (rule bit_word_eqI) (auto simp: bit_simps)
  then have "(offset AND 0xfffff000) + (offset AND 0xfff) = (offset AND 0xfffff000) OR (offset AND 0xfff)" by (simp add: disjunctive_add_eq_or)
  moreover have "(offset AND 0xfffff000) OR (offset AND 0xfff) = offset" unfolding page_masks by (rule bit_word_eqI) (auto simp: bit_simps)
  ultimately show ?thesis by simp
qed

text \<open>The invariant of the map: keys ascend, are multiples of the page size, and the vectors have offsets in the page\<close>

definition sublists_ok :: "sublists \<Rightarrow> bool" where
  "sublists_ok s \<longleftrightarrow> sorted_wrt (<) (map fst s) \<and> list_all (\<lambda>sub. fst sub AND 0xfff = 0 \<and> snd sub \<noteq> [] \<and> list_all (\<lambda>r. roffset r AND 0xf000 = 0) (snd sub)) s"

lemma sublist_append_keys: "set (map fst (sublist_append p r s)) = insert p (set (map fst s))"
  by (induction p r s rule: sublist_append.induct) auto

lemma sublist_append_ok:
  "sublists_ok s \<Longrightarrow> p AND 0xfff = 0 \<Longrightarrow> roffset r AND 0xf000 = 0 \<Longrightarrow> sublists_ok (sublist_append p r s)"
proof (induction p r s rule: sublist_append.induct)
  case (2 prefix r p rs s)
  then show ?case using sublist_append_keys [of prefix r s] by (auto simp: sublists_ok_def)
qed (simp add: sublists_ok_def)

lemma sublist_append_contents: "mset (contents (sublist_append p r s)) = add_mset (p + ucast (roffset r), rvalue r) (mset (contents s))"
  by (induction p r s rule: sublist_append.induct) (auto simp: contents_def)

lemma addRelocation_spec:
  "sublists_ok s \<Longrightarrow> sublists_ok (addRelocation offset value s)"
  "mset (contents (addRelocation offset value s)) = add_mset (offset, value) (mset (contents s))"
proof -
  have "(offset AND 0xfffff000) AND 0xfff = 0" unfolding page_masks by (rule bit_word_eqI) (auto simp: bit_simps)
  moreover have "(ucast (offset AND 0xfff) :: 16 word) AND 0xf000 = 0" unfolding page_masks by (rule bit_word_eqI) (auto simp: bit_simps)
  ultimately show "sublists_ok s \<Longrightarrow> sublists_ok (addRelocation offset value s)" by (simp add: addRelocation_def sublist_append_ok)
  show "mset (contents (addRelocation offset value s)) = add_mset (offset, value) (mset (contents s))"
    by (simp add: addRelocation_def sublist_append_contents page_split)
qed

lemma relocations_of_spec: "sublists_ok (relocations_of rs) \<and> mset (contents (relocations_of rs)) = mset rs"
proof (induction rs rule: rev_induct)
  case Nil
  then show ?case by (simp add: relocations_of_def sublists_ok_def contents_def)
next
  case (snoc r rs)
  then show ?case by (simp add: relocations_of_def addRelocation_spec)
qed

lemma reloc_entry_parts:
  assumes "roffset r AND 0xf000 = 0"
  shows "reloc_entry h r AND 0xfff = roffset r" "reloc_entry h r AND 0xf000 = reloc_type h (rvalue r)"
proof -
  have e: "reloc_entry h r = roffset r OR reloc_type h (rvalue r)" by (simp add: reloc_entry_def reloc_type_def Let_def)
  have t: "reloc_type h (rvalue r) AND 0xfff = 0" "reloc_type h (rvalue r) AND 0xf000 = reloc_type h (rvalue r)"
    by (auto simp: reloc_type_def)
  have "roffset r AND 0xfff = (roffset r AND 0xf000) OR (roffset r AND 0xfff)" using assms by simp
  also have "\<dots> = roffset r" unfolding page_masks by (rule bit_word_eqI) (auto simp: bit_simps)
  finally show "reloc_entry h r AND 0xfff = roffset r" unfolding e using t(1) by (simp add: bit.conj_disj_distrib2)
  show "reloc_entry h r AND 0xf000 = reloc_type h (rvalue r)" unfolding e using t(2) assms by (simp add: bit.conj_disj_distrib2)
qed

lemma decoded_relocations:
  assumes "list_all (\<lambda>r. roffset r AND 0xf000 = 0 \<and> reloc_type h (rvalue r) \<noteq> 0) rs"
  shows "decoded p (map (reloc_entry h) rs) = map (\<lambda>r. (p + ucast (roffset r), reloc_type h (rvalue r))) rs"
proof -
  have "reloc_entry h r \<noteq> 0" if "r \<in> set rs" for r using assms that reloc_entry_parts(2) [of r h] by (auto simp: list_all_iff)
  then have "filter (\<lambda>e. e \<noteq> 0) (map (reloc_entry h) rs) = map (reloc_entry h) rs" by (auto simp: filter_id_conv)
  then show ?thesis using assms reloc_entry_parts by (simp add: decoded_def list_all_iff)
qed

lemma page_step: "a mod 4096 = 0 \<Longrightarrow> b mod 4096 = 0 \<Longrightarrow> a < b \<Longrightarrow> a + 4096 \<le> (b :: nat)"
  by (auto simp: mod_eq_0_iff_dvd elim!: dvdE)

lemma page_address:
  assumes "p AND 0xfff = (0 :: 32 word)" "r AND 0xf000 = (0 :: 16 word)"
  shows "unat (p + ucast r) = unat p + unat r" "unat r < 4096" "unat p mod 4096 = 0"
proof -
  have "take_bit 12 p = 0" using assms(1) unfolding page_masks by (simp add: take_bit_eq_mask)
  then have "unat (take_bit 12 p) = 0" by simp
  then show p: "unat p mod 4096 = 0" by (simp add: unsigned_take_bit_eq take_bit_eq_mod unat_mod)
  have "r = (r AND 0xf000) OR (r AND 0xfff)" unfolding page_masks by (rule bit_word_eqI) (auto simp: bit_simps)
  then have t: "take_bit 12 r = r" using assms(2) unfolding page_masks by (simp add: take_bit_eq_mask)
  have "unat (take_bit 12 r) < 4096" by (simp add: take_bit_eq_mod unat_mod)
  then show r: "unat r < 4096" unfolding t .
  have "unat p < 2 ^ 32" using unsigned_less [of p, where 'a = nat] by simp
  then have "unat p + 4096 \<le> 2 ^ 32" using p by (intro page_step) simp_all
  moreover have u: "unat (ucast r :: 32 word) = unat r" using r by (simp add: unsigned_ucast_eq take_bit_nat_eq_self)
  ultimately have "unat p + unat (ucast r :: 32 word) < 2 ^ 32" using r by simp
  then show "unat (p + ucast r) = unat p + unat r" using u by (simp add: unat_word_ariths)
qed

text \<open>The entries that the reader finds\<close>

definition entries :: "(Relocation list \<Rightarrow> Relocation list) \<Rightarrow> E32ImageHeader \<Rightarrow> sublists \<Rightarrow> (32 word \<times> 16 word) list" where
  "entries srt h s = concat (map (\<lambda>sub. map (\<lambda>r. (fst sub + ucast (roffset r), reloc_type h (rvalue r))) (srt (snd sub))) s)"

lemma entries_sorted:
  assumes "std_sort Relocation_less srt" "sublists_ok s"
  shows "sorted (map fst (entries srt h s))"
  using assms(2)
proof (induction s)
  case Nil
  then show ?case by (simp add: entries_def)
next
  case (Cons sub s)
  let ?b = "map (\<lambda>r. fst sub + ucast (roffset r)) (srt (snd sub)) :: 32 word list"
  have srt: "mset (srt xs) = mset xs" "sorted_wrt (\<lambda>x y. \<not> Relocation_less y x) (srt xs)" for xs using std_sort_Relocation [OF assms(1), of xs] by simp_all
  have set: "set (srt xs) = set xs" for xs using srt(1) [of xs] by (rule mset_eq_setD)
  have ok: "fst sub' AND 0xfff = 0" "\<forall>r \<in> set (srt (snd sub')). roffset r AND 0xf000 = 0" if "sub' \<in> set (sub # s)" for sub'
    using Cons.prems that by (auto simp: sublists_ok_def list_all_iff set)
  have "sorted ?b"
    unfolding sorted_map
  proof (rule sorted_wrt_mono_rel [OF _ srt(2)])
    fix x y assume x: "x \<in> set (srt (snd sub))" "y \<in> set (srt (snd sub))" "\<not> Relocation_less y x"
    then have "unat (roffset x) \<le> unat (roffset y)" by (simp add: Relocation_less_def word_le_nat_alt not_less)
    moreover have "roffset x AND 0xf000 = 0" "roffset y AND 0xf000 = 0" "fst sub AND 0xfff = 0" using ok [of sub] x(1,2) by auto
    ultimately show "fst sub + ucast (roffset x) \<le> fst sub + ucast (roffset y)" by (simp add: page_address(1) word_le_nat_alt)
  qed
  moreover have "a \<le> a'" if a: "a \<in> set ?b" "a' \<in> set (map fst (entries srt h s))" for a a'
  proof -
    obtain r where r: "r \<in> set (srt (snd sub))" "a = fst sub + ucast (roffset r)" using a(1) by auto
    obtain sub' r' where r': "sub' \<in> set s" "r' \<in> set (srt (snd sub'))" "a' = fst sub' + ucast (roffset r')" using a(2) by (auto simp: entries_def)
    have "fst sub < fst sub'" using Cons.prems r'(1) by (auto simp: sublists_ok_def)
    then have "unat (fst sub) < unat (fst sub')" by (simp add: word_less_nat_alt)
    moreover have m: "fst sub AND 0xfff = 0" "roffset r AND 0xf000 = 0" "fst sub' AND 0xfff = 0" "roffset r' AND 0xf000 = 0"
      using r r' ok [of sub] ok [of sub'] by auto
    note pa = page_address [OF m(1,2)] page_address [OF m(3,4)]
    ultimately have "unat (fst sub) + 4096 \<le> unat (fst sub')" using page_step [OF pa(3,6)] by simp
    then have "unat a \<le> unat a'" using pa r(2) r'(3) by simp
    then show ?thesis by (simp add: word_le_nat_alt)
  qed
  moreover have "sorted (map fst (entries srt h s))" using Cons by (simp add: sublists_ok_def)
  ultimately show ?case by (auto simp: entries_def sorted_append comp_def)
qed

lemma entries_contents:
  assumes "std_sort Relocation_less srt"
  shows "mset (entries srt h s) = mset (map (\<lambda>r. (fst r, reloc_type h (snd r))) (contents s))"
proof (induction s)
  case (Cons sub s)
  have "mset (srt (snd sub)) = mset (snd sub)" using std_sort_Relocation [OF assms] by simp
  then show ?case using Cons by (simp add: entries_def contents_def comp_def)
qed (simp add: entries_def contents_def)

lemma reloc_sizes:
  assumes "std_sort Relocation_less srt" "\<forall>sub \<in> set s. length (snd sub) < 2 ^ 30 \<and> snd sub \<noteq> []"
  shows "fold (\<lambda>s sz. sz + fst (sublistSize (snd s))) s (of_nat k) = (of_nat (k + length (concat (map (sublist_bytes srt h) s))) :: 32 word)"
    "fold (\<lambda>s num. num + of_nat (length (snd s))) s (of_nat k) = (of_nat (k + length (contents s)) :: 32 word)"
    "length (concat (map (sublist_bytes srt h) s)) mod 4 = 0" "length (concat (map (sublist_bytes srt h) s)) \<le> 12 * length (contents s)"
proof -
  have l: "length (srt xs) = length xs" for xs using std_sort_Relocation [OF assms(1), of xs] mset_eq_length by blast
  have b: "length (sublist_bytes srt h sub) = unat (fst (sublistSize (snd sub)))" "unat (fst (sublistSize (snd sub))) = 8 + 2 * length (snd sub) + 2 * (length (snd sub) mod 2)"
    if "sub \<in> set s" for sub
    using that assms(2) length_sublist_bytes [of srt sub h] sublistSize_bytes [of "snd sub"] l [of "snd sub"] by (auto simp: sublistSize_def)
  have "fst (sublistSize (snd sub)) = of_nat (length (sublist_bytes srt h sub))" if "sub \<in> set s" for sub using b(1) [OF that] by simp
  then show "fold (\<lambda>s sz. sz + fst (sublistSize (snd s))) s (of_nat k) = (of_nat (k + length (concat (map (sublist_bytes srt h) s))) :: 32 word)"
  proof (induction s arbitrary: k)
    case (Cons sub s)
    then show ?case using Cons.IH [of "k + length (sublist_bytes srt h sub)"] by (simp add: add_ac)
  qed simp
  show "fold (\<lambda>s num. num + of_nat (length (snd s))) s (of_nat k) = (of_nat (k + length (contents s)) :: 32 word)"
  proof (induction s arbitrary: k)
    case (Cons sub s)
    then show ?case using Cons [of "k + length (snd sub)"] by (simp add: contents_def add_ac)
  qed (simp add: contents_def)
  have "length (sublist_bytes srt h sub) mod 4 = 0" if "sub \<in> set s" for sub using b [OF that] by presburger
  then show "length (concat (map (sublist_bytes srt h) s)) mod 4 = 0" by (induction s) (simp_all add: mod_add_eq [symmetric])
  have "length (sublist_bytes srt h sub) \<le> 12 * length (snd sub)" if "sub \<in> set s" for sub
  proof -
    have "0 < length (snd sub)" using that assms(2) by simp
    then show ?thesis using b [OF that] by presburger
  qed
  then show "length (concat (map (sublist_bytes srt h) s)) \<le> 12 * length (contents s)" by (induction s) (fastforce simp: contents_def)+
qed

definition example_segments :: E32ImageHeader where
  "example_segments =
    \<lparr>uid1 = 0, uid2 = 0, uid3 = 0, uidChecksum = 0, signature = 0, headerCrc = 0, moduleVersion = 0, compressionType = 0, toolsVersion = 0, timeLo = 0,
     timeHi = 0, hflags = 0, codeSize = 0x1000, dataSize = 0x100, heapSizeMin = 0, heapSizeMax = 0, stackSize = 0, bssSize = 0x10, entryPoint = 0,
     codeBase = 0x8000, dataBase = 0x400000, dllRefTableCount = 0, exportDirOffset = 0, exportDirCount = 0, textSize = 0x1000, codeOffset = 0x9C,
     dataOffset = 0x109C, importOffset = 0x119C, codeRelocOffset = 0, dataRelocOffset = 0, processPriority = 350, cpuIdentifier = 0x2001\<rparr>"

text \<open>
  C8. The relocation section of an image lists what was added.  For relocations whose values are all inside the code or the data, a reader of the
  section finds, in the order of the addresses, every address with the kind of its segment, as often as it
  was added and nothing else, if there are less than \<open>2 ^ 28\<close>; the two words at the start are the size of the blocks and the number of relocations.
\<close>

theorem RelocationList_section:
  assumes "std_sort Relocation_less srt" "list_all (\<lambda>r. reloc_type h (snd r) \<noteq> 0) rs" "length rs < 2 ^ 28"
  shows "\<exists>sec. RelocationList_write srt out h (relocations_of rs) = f_write sec out \<and> length sec mod 4 = 0 \<and>
    word_at sec 0 = of_nat (length sec - 8) \<and> word_at sec 4 = of_nat (length rs) \<and>
    mset (reloc_blocks sec 8) = mset (map (\<lambda>r. (fst r, reloc_type h (snd r))) rs) \<and> sorted (map fst (reloc_blocks sec 8))"
proof -
  let ?s = "relocations_of rs"
  let ?body = "concat (map (sublist_bytes srt h) ?s)"
  have ok: "sublists_ok ?s" and c: "mset (contents ?s) = mset rs" using relocations_of_spec by auto
  have sub: "length (snd sub) < 2 ^ 30 \<and> snd sub \<noteq> [] \<and> list_all (\<lambda>r. roffset r AND 0xf000 = 0 \<and> reloc_type h (rvalue r) \<noteq> 0) (snd sub)"
    if "sub \<in> set ?s" for sub
  proof -
    have "length (snd sub) \<le> length (contents ?s)" using that by (auto simp: contents_def length_concat intro!: member_le_sum_list)
    then have "length (snd sub) < 2 ^ 30" using mset_eq_length [OF c] assms(3) by simp
    moreover have "(fst sub + ucast (roffset r), rvalue r) \<in> set rs" if "r \<in> set (snd sub)" for r
      using \<open>sub \<in> set ?s\<close> that mset_eq_setD [OF c] by (force simp: contents_def)
    then have "reloc_type h (rvalue r) \<noteq> 0" if "r \<in> set (snd sub)" for r using that assms(2) by (fastforce simp: list_all_iff)
    ultimately show ?thesis using ok that by (auto simp: sublists_ok_def list_all_iff)
  qed
  then have lens: "\<forall>sub \<in> set ?s. length (snd sub) < 2 ^ 30 \<and> snd sub \<noteq> []" by blast
  note sizes = reloc_sizes [OF assms(1) lens]
  define sec where "sec = u32_bytes (of_nat (length ?body)) @ u32_bytes (of_nat (length rs)) @ ?body"
  have wr: "RelocationList_write srt out h ?s = f_write sec out"
    unfolding RelocationList_write_bytes RelocationList_count_def sec_def using sizes(1) [of 0 h] sizes(2) [of 0] mset_eq_length [OF c] by simp
  have srt: "mset (srt xs) = mset xs" for xs using std_sort_Relocation [OF assms(1), of xs] by simp
  have len: "length (srt xs) = length xs" for xs using srt [of xs] by (rule mset_eq_length)
  have "reloc_blocks sec 8 = concat (map (\<lambda>sub. decoded (fst sub) (map (reloc_entry h) (srt (snd sub)))) ?s)"
    using lens len by (intro reloc_blocks_sublists [of _ "u32_bytes (of_nat (length ?body)) @ u32_bytes (of_nat (length rs))"]) (simp_all add: sec_def)
  also have "\<dots> = entries srt h ?s"
    unfolding entries_def using sub mset_eq_setD [OF srt]
    by (intro arg_cong [of _ _ concat] map_cong refl decoded_relocations) (simp add: list_all_iff)
  finally have blocks: "reloc_blocks sec 8 = entries srt h ?s" .
  have "mset (map (\<lambda>r. (fst r, reloc_type h (snd r))) (contents ?s)) = mset (map (\<lambda>r. (fst r, reloc_type h (snd r))) rs)" using c by simp
  then have m: "mset (reloc_blocks sec 8) = mset (map (\<lambda>r. (fst r, reloc_type h (snd r))) rs)"
    unfolding blocks entries_contents [OF assms(1)] .
  have "word_at sec 0 = of_nat (length sec - 8)" "word_at sec 4 = of_nat (length rs)"
    using word_at_append [of "[]" 0 "of_nat (length ?body)" "u32_bytes (of_nat (length rs)) @ ?body"]
      word_at_append [of "u32_bytes (of_nat (length ?body))" 4 "of_nat (length rs)" ?body] by (simp_all add: sec_def)
  moreover have "length sec mod 4 = 0" using sizes(3) [of h] by (simp add: sec_def mod_add_eq [symmetric])
  ultimately show ?thesis using wr m entries_sorted [OF assms(1) ok, of h] blocks by auto
qed

theorem RelocationList_section_witness:
  "\<exists>sec. RelocationList_write (sort_key roffset) \<lparr>fdata = replicate 16 7, fpos = 16\<rparr> example_segments (relocations_of [(0x2004, 0x8010), (0x10, 0x8000), (0x8, 0x400004)]) = f_write sec \<lparr>fdata = replicate 16 7, fpos = 16\<rparr> \<and>
    length sec mod 4 = 0 \<and> word_at sec 4 = 3 \<and> sorted (map fst (reloc_blocks sec 8)) \<and>
    mset (reloc_blocks sec 8) = {#(0x2004, KTextRelocType), (0x10, KTextRelocType), (0x8, KDataRelocType)#}"
proof -
  have "std_sort Relocation_less (sort_key roffset)" by (rule sort_key_sorts) (simp add: Relocation_less_def)
  moreover have "list_all (\<lambda>r. reloc_type example_segments (snd r) \<noteq> 0) [(0x2004, 0x8010), (0x10, 0x8000), (0x8 :: 32 word, 0x400004)]"
    by (simp add: reloc_type_def example_segments_def)
  ultimately show ?thesis
    using RelocationList_section [of "sort_key roffset" example_segments "[(0x2004, 0x8010), (0x10, 0x8000), (0x8, 0x400004)]" "\<lparr>fdata = replicate 16 7, fpos = 16\<rparr>"]
    by (auto simp: reloc_type_def example_segments_def)
qed

section \<open>Exports\<close>

text \<open>A symbol of the ELF file that is exported\<close>

type_synonym symbol = "byte list \<times> 32 word \<times> bool \<times> 32 word"

definition add_symbol :: "symbol \<Rightarrow> ExportList \<Rightarrow> ExportList" where
  "add_symbol x this = (case x of (name, addr, code, sz) \<Rightarrow> addExport name addr code sz this)"

lemma addExport_loop_names: "addExport_loop name addr code sz es = Some es' \<Longrightarrow> map ename es' = map ename es \<and> Some name \<in> set (map ename es)"
  by (induction es arbitrary: es') (auto simp: Let_def split: if_splits)

lemma addExport_loop_None: "addExport_loop name addr code sz es = None \<longleftrightarrow> Some name \<notin> set (map ename es)"
  by (induction es) (auto simp: Let_def)

lemma addExport_names:
  "map ename (exports (addExport name addr code sz this)) =
    map ename (exports this) @ (if Some name \<in> set (map ename (exports this)) then [] else [Some name])"
  "presetOrdinals (addExport name addr code sz this) = presetOrdinals this"
  using addExport_loop_None [of name addr code sz "exports this"] addExport_loop_names [of name addr code sz "exports this"]
  by (auto simp: addExport_def Export_new_def split: option.splits)

definition names_once :: "Export list \<Rightarrow> bool" where
  "names_once es \<longleftrightarrow> distinct (filter (\<lambda>n. n \<noteq> None) (map ename es))"

lemma addExport_loop_address:
  "addExport_loop name addr code sz es = Some es' \<Longrightarrow> names_once es \<Longrightarrow> e \<in> set es' \<Longrightarrow>
    ename e = Some name \<and> eaddress e = addr \<or> ename e \<noteq> Some name \<and> e \<in> set es"
proof (induction es arbitrary: es')
  case (Cons a es)
  show ?case
  proof (cases "ename a = Some name")
    case True
    then have "Some name \<notin> set (map ename es)" using Cons.prems(2) by (auto simp: names_once_def)
    then have "\<forall>e \<in> set es. ename e \<noteq> Some name" by force
    then show ?thesis using True Cons.prems by (auto simp: Let_def split: if_splits)
  next
    case False
    then show ?thesis using Cons by (auto simp: names_once_def split: if_splits)
  qed
qed simp

lemma addExport_address:
  assumes "names_once (exports this)" "e \<in> set (exports (addExport name addr code sz this))"
  shows "ename e = Some name \<and> eaddress e = addr \<or> ename e \<noteq> Some name \<and> e \<in> set (exports this)"
proof (cases "addExport_loop name addr code sz (exports this)")
  case None
  then have "Some name \<notin> set (map ename (exports this))" using addExport_loop_None [of name addr code sz "exports this"] by simp
  then have "\<forall>e \<in> set (exports this). ename e \<noteq> Some name" by force
  then show ?thesis using assms(2) None by (auto simp: addExport_def Export_new_def)
next
  case (Some es)
  then show ?thesis using addExport_loop_address [OF Some assms(1)] assms(2) by (simp add: addExport_def)
qed

text \<open>The state after the symbols \<open>xs\<close> were added to the frozen exports\<close>

definition symbols_added :: "ExportList \<Rightarrow> symbol list \<Rightarrow> ExportList \<Rightarrow> byte list list \<Rightarrow> bool" where
  "symbols_added frozen xs this new \<longleftrightarrow>
    presetOrdinals this = presetOrdinals frozen \<and> map ename (exports this) = map ename (exports frozen) @ map Some new \<and>
    distinct new \<and> Some ` set new = Some ` fst ` set xs - ename ` set (exports frozen) \<and>
    (\<forall>e \<in> set (exports this). case ename e of None \<Rightarrow> e \<in> set (exports frozen)
      | Some n \<Rightarrow> (case map_of (rev (map (\<lambda>x. (fst x, fst (snd x))) xs)) n of None \<Rightarrow> e \<in> set (exports frozen) | Some a \<Rightarrow> eaddress e = a))"

lemma symbols_added_once: "symbols_added frozen xs this new \<Longrightarrow> names_once (exports frozen) \<Longrightarrow> names_once (exports this)"
proof -
  assume a: "symbols_added frozen xs this new" "names_once (exports frozen)"
  then have "distinct (map Some new)" "set (map Some new) \<inter> ename ` set (exports frozen) = {}" by (auto simp: symbols_added_def distinct_map)
  then show ?thesis using a by (auto simp: symbols_added_def names_once_def)
qed

lemma symbols_added_step:
  assumes "symbols_added frozen xs this new" "names_once (exports frozen)"
  shows "\<exists>new'. symbols_added frozen (xs @ [x]) (add_symbol x this) new'"
proof -
  obtain name addr code sz where x: "x = (name, addr, code, sz)" by (cases x) auto
  let ?new = "new @ (if Some name \<in> set (map ename (exports this)) then [] else [name])"
  have "map ename (exports (add_symbol x this)) = map ename (exports frozen) @ map Some ?new"
    using assms(1) addExport_names(1) [of name addr code sz this] by (simp add: symbols_added_def add_symbol_def x)
  moreover have "presetOrdinals (add_symbol x this) = presetOrdinals frozen"
    using assms(1) addExport_names(2) [of name addr code sz this] by (simp add: symbols_added_def add_symbol_def x)
  moreover have mem: "Some name \<in> set (map ename (exports this)) \<longleftrightarrow> Some name \<in> ename ` set (exports frozen) \<or> name \<in> set new"
  proof -
    have "set (map ename (exports this)) = set (map ename (exports frozen) @ map Some new)" using assms(1) by (simp only: symbols_added_def)
    then show ?thesis by auto
  qed
  have "distinct ?new" using assms(1) mem by (auto simp: symbols_added_def)
  moreover have "Some ` set ?new = Some ` fst ` set (xs @ [x]) - ename ` set (exports frozen)"
  proof -
    have "Some ` set new = Some ` fst ` set xs - ename ` set (exports frozen)" using assms(1) by (simp add: symbols_added_def)
    then have "Some n \<in> Some ` set new \<longleftrightarrow> Some n \<in> Some ` fst ` set xs - ename ` set (exports frozen)" for n by simp
    moreover have "Some n \<in> Some ` A \<longleftrightarrow> n \<in> A" for n :: "byte list" and A by auto
    ultimately have "n \<in> set new \<longleftrightarrow> n \<in> fst ` set xs \<and> Some n \<notin> ename ` set (exports frozen)" for n by simp
    then show ?thesis unfolding mem by (auto simp: x)
  qed
  moreover have "case ename e of None \<Rightarrow> e \<in> set (exports frozen)
      | Some n \<Rightarrow> (case map_of (rev (map (\<lambda>x. (fst x, fst (snd x))) (xs @ [x]))) n of None \<Rightarrow> e \<in> set (exports frozen) | Some a \<Rightarrow> eaddress e = a)"
    if e: "e \<in> set (exports (add_symbol x this))" for e
  proof -
    consider "ename e = Some name" "eaddress e = addr" | "ename e \<noteq> Some name" "e \<in> set (exports this)"
      using addExport_address [OF symbols_added_once [OF assms], of e name addr code sz] e by (auto simp: add_symbol_def x)
    then show ?thesis
    proof cases
      case 1
      then show ?thesis by (simp add: x)
    next
      case 2
      then have "case ename e of None \<Rightarrow> e \<in> set (exports frozen)
        | Some n \<Rightarrow> (case map_of (rev (map (\<lambda>x. (fst x, fst (snd x))) xs)) n of None \<Rightarrow> e \<in> set (exports frozen) | Some a \<Rightarrow> eaddress e = a)"
        using assms(1) by (simp add: symbols_added_def)
      then show ?thesis using 2 by (cases "ename e") (auto simp: x)
    qed
  qed
  ultimately show ?thesis unfolding symbols_added_def by blast
qed

lemma symbols_added_fold:
  assumes "names_once (exports frozen)"
  shows "\<exists>new. symbols_added frozen xs (fold add_symbol xs frozen) new"
proof (induction xs rule: rev_induct)
  case Nil
  have "symbols_added frozen [] frozen []" by (auto simp: symbols_added_def split: option.splits)
  then show ?case by auto
next
  case (snoc x xs)
  then show ?case using symbols_added_step [OF _ assms] by fastforce
qed

lemma Export_compare_key:
  "ename a \<noteq> None \<Longrightarrow> ename b \<noteq> None \<Longrightarrow> Export_compare a b \<longleftrightarrow> the (ename a) < the (ename b)"
  by (auto simp: Export_compare_def strcmp_less_lex)

lemma std_sort_Export:
  "std_sort Export_compare srt \<Longrightarrow> \<forall>e \<in> set xs. ename e \<noteq> None \<Longrightarrow>
    mset (srt xs) = mset xs \<and> sorted_wrt (\<lambda>x y. \<not> Export_compare y x) (srt xs)"
  using std_sort_key [of xs Export_compare "\<lambda>e. the (ename e)" srt] Export_compare_key by blast

text \<open>
  C10. Frozen exports keep their ordinals.  Let the exports that are read from a definition file be \<open>frozen\<close>, with names that occur once, and let the symbols of the ELF file be
  added in any order and the list be sorted.  Then the first ordinals have the frozen names, in place; the others are
  the names of the remaining symbols, each once and in ascending order; every export that is a symbol of the ELF file has its last address.  All
  elements that \<open>doSort\<close> gives to \<open>std::sort\<close> have names, so that \<open>Export::compare\<close> orders them.
\<close>

theorem exports_frozen:
  assumes "std_sort Export_compare srt" "names_once (exports frozen)" "unat (presetOrdinals frozen) = length (exports frozen)"
    and "final = doSort srt (fold add_symbol xs frozen)"
  shows "map ename (take (length (exports frozen)) (exports final)) = map ename (exports frozen) \<and>
    (\<exists>new. map ename (drop (length (exports frozen)) (exports final)) = map Some new \<and> sorted_wrt strcmp_less new \<and>
      Some ` set new = Some ` fst ` set xs - ename ` set (exports frozen)) \<and>
    list_all (\<lambda>e. \<forall>n a. ename e = Some n \<longrightarrow> map_of (rev (map (\<lambda>x. (fst x, fst (snd x))) xs)) n = Some a \<longrightarrow> eaddress e = a) (exports final)"
proof -
  let ?n = "length (exports frozen)" and ?st = "fold add_symbol xs frozen"
  let ?new = "drop ?n (exports ?st)"
  obtain new where a: "symbols_added frozen xs ?st new" using symbols_added_fold [OF assms(2)] by blast
  have f: "exports final = take ?n (exports ?st) @ srt ?new"
    using a assms(3,4) by (simp add: doSort_def symbols_added_def Let_def)
  have names: "map ename (exports ?st) = map ename (exports frozen) @ map Some new" using a by (simp add: symbols_added_def)
  have len: "length (take ?n (exports ?st)) = ?n" using arg_cong [OF names, of length] by simp
  have tn: "map ename (take ?n (exports ?st)) = map ename (exports frozen)" using arg_cong [OF names, of "take ?n"] by (simp add: take_map)
  have dn: "map ename ?new = map Some new" using arg_cong [OF names, of "drop ?n"] by (simp add: drop_map)
  have named: "\<forall>e \<in> set ?new. ename e \<noteq> None"
  proof
    fix e assume "e \<in> set ?new"
    then have "ename e \<in> set (map ename ?new)" by simp
    then show "ename e \<noteq> None" unfolding dn by auto
  qed
  note s = std_sort_Export [OF assms(1) named]
  have set: "set (srt ?new) = set ?new" using s mset_eq_setD by blast
  let ?ns = "map (\<lambda>e. the (ename e)) (srt ?new)"
  have some: "map ename (srt ?new) = map Some ?ns" using named set by simp
  have "map (\<lambda>e. the (ename e)) ?new = new" using arg_cong [OF dn, of "map the"] by (simp add: comp_def)
  moreover have "mset ?ns = mset (map (\<lambda>e. the (ename e)) ?new)" using s by simp
  ultimately have m: "mset ?ns = mset new" by simp
  have "sorted_wrt (\<lambda>x y. the (ename x) \<le> the (ename y)) (srt ?new)"
    using named set Export_compare_key by (intro sorted_wrt_mono_rel [OF _ conjunct2 [OF s]]) (auto simp: not_less)
  then have "sorted ?ns" by (simp add: sorted_map)
  moreover have "distinct ?ns" using a mset_eq_imp_distinct_iff [OF m] by (simp add: symbols_added_def)
  ultimately have "sorted_wrt strcmp_less ?ns" using strict_sorted_iff [of ?ns] by (simp add: strcmp_less_lex [abs_def])
  moreover have "Some ` set ?ns = Some ` fst ` set xs - ename ` set (exports frozen)" using a mset_eq_setD [OF m] by (simp add: symbols_added_def)
  moreover have "set (exports final) \<subseteq> set (exports ?st)" unfolding f using set by (auto dest: in_set_takeD in_set_dropD)
  then have "\<forall>e \<in> set (exports final). \<forall>n a. ename e = Some n \<longrightarrow> map_of (rev (map (\<lambda>x. (fst x, fst (snd x))) xs)) n = Some a \<longrightarrow> eaddress e = a"
    using a by (fastforce simp: symbols_added_def)
  moreover have "take ?n (exports final) = take ?n (exports ?st)" "drop ?n (exports final) = srt ?new" unfolding f using len by simp_all
  ultimately show ?thesis using tn some by (intro conjI exI [of _ ?ns]) (simp_all add: list_all_iff)
qed

theorem exports_frozen_witness:
  "\<exists>new. map ename (drop 2 (exports (doSort (sort_key (\<lambda>e. the (ename e)))
      (fold add_symbol [([0x63], 4, True, 0), ([0x62], 8, True, 0), ([0x61], 12, True, 0)]
        \<lparr>exports = [Export_new (Some [0x62]) 0 True 0, Export_new None 0 True 0], presetOrdinals = 2\<rparr>)))) = map Some new \<and>
    sorted_wrt strcmp_less new \<and> Some ` set new = {Some [0x61], Some [0x63]}"
proof -
  let ?fr = "\<lparr>exports = [Export_new (Some [0x62]) 0 True 0, Export_new None 0 True 0], presetOrdinals = 2\<rparr>"
  have sort: "std_sort Export_compare (sort_key (\<lambda>e. the (ename e)))"
    unfolding std_sort_def
  proof (intro allI impI)
    fix xs assume w: "strict_weak Export_compare (set xs)"
    have nc: "\<not> Export_compare y x" if "x \<in> set xs" "y \<in> set xs" "the (ename x) \<le> the (ename y)" for x y
    proof
      assume c: "Export_compare y x"
      show False
      proof (cases "ename x = None \<longleftrightarrow> ename y = None")
        case True
        then show ?thesis using c that(3) Export_compare_key [of y x] by (cases "ename x = None") (auto simp: Export_compare_def)
      next
        case False
        then have "Export_compare x y" by (auto simp: Export_compare_def split: option.splits)
        then show ?thesis using w c that(1,2) unfolding strict_weak_def by blast
      qed
    qed
    have "sorted_wrt (\<lambda>x y. \<not> Export_compare y x) (sort_key (\<lambda>e. the (ename e)) xs)"
      by (rule sorted_wrt_mono_rel [OF _ sorted_sort_key [of "\<lambda>e. the (ename e)" xs, unfolded sorted_map]]) (use nc in simp)
    then show "mset (sort_key (\<lambda>e. the (ename e)) xs) = mset xs \<and> sorted_wrt (\<lambda>x y. \<not> Export_compare y x) (sort_key (\<lambda>e. the (ename e)) xs)" by simp
  qed
  have "names_once (exports ?fr)" "unat (presetOrdinals ?fr) = length (exports ?fr)" by (simp_all add: names_once_def Export_new_def)
  from exports_frozen [OF sort this refl, of "[([0x63], 4, True, 0), ([0x62], 8, True, 0), ([0x61], 12, True, 0)]"]
  show ?thesis by (auto simp: Export_new_def numeral_2_eq_2)
qed

end
