(* ===== verification/Spec2Isabelle.thy ===== *)
theory Spec2Isabelle
  imports Libelf_Lifecycle Libelf_Write Genaif Inflate_Total Bmconv_Roundtrip E32final E32reloc
begin

text \<open>
  \<^bold>\<open>Verification of the tools of gnupoc-package\<close>

  gnupoc-package builds the tools that make Symbian programs on a Unix host.  The central one is
  \<open>elf2e32\<close>, which turns the linker's output into an E32 image.  This development models the ELF access
  library with which it reads its input (\<open>src/tools/elf2e32/libelf-elftoolchain\<close>), the compressor with
  which it packs its output (\<open>src/tools/elf2e32/deflate\<close>) with the programs \<open>compress\<close> and \<open>decompress\<close>,
  the headers and the import, relocation and export lists of the images it writes (\<open>e32image.cpp\<close>, \<open>reloc.cpp\<close>),
  the checksums of Symbian files, the generator of application information files (\<open>genaif\<close>) and the compiler of bitmaps
  (\<open>src/tools/bmconv-1.1.0-2\<close>).

  \<^bold>\<open>Parts of the library and theories\<close>

  \<^item> \<open>Prelude\<close>: byte memory, 64-bit arithmetic on sizes, byte order of integers.
  \<^item> \<open>Elf_Types\<close>: the structures of \<open>elfdefinitions.h\<close> for both classes with their layout in
    memory, the enumerations of \<open>libelf.h\<close>.
  \<^item> \<open>Libelf_Macros\<close>: the macros \<open>SWAP_*\<close>, \<open>READ_*\<close>, \<open>WRITE_*\<close> of \<open>libelf_convert.c\<close> and the member
    sequences of its functions; the locale \<open>elf_codec\<close> of what they promise.
  \<^item> \<open>Libelf_Sizes\<close>: the tables of \<open>libelf_fsize.c\<close>, \<open>libelf_msize.c\<close>, \<open>libelf_align.c\<close> and
    \<open>_libelf_xlate_shtype\<close>.
  \<^item> \<open>Libelf_Convert\<close>, \<open>Libelf_Cvt_Gnuhash\<close>, \<open>Libelf_Cvt_Note\<close>, \<open>Libelf_Cvt_Version\<close>: the converters of
    \<open>libelf_convert.c\<close>, one definition for each function; the locales \<open>elf_struct\<close>, \<open>elf_translator\<close> and
    \<open>version_records\<close> carry their proofs.
  \<^item> \<open>Libelf_Translator\<close>: the table \<open>cvt\<close> and \<open>_libelf_get_translator\<close>.
  \<^item> \<open>Libelf_State\<close>: the state of the library, allocation of descriptors, globals, flags, queries.
  \<^item> \<open>Libelf_Xlate\<close>: \<open>_libelf_xlate\<close> and \<open>gelf_xlate.c\<close>.
  \<^item> \<open>Libelf_Open\<close>: \<open>elf_begin\<close>, \<open>elf_memory\<close>, \<open>elf_end\<close>, archives.
  \<^item> \<open>Libelf_Header\<close>: the executable header, program headers, section headers, extended numbering.
  \<^item> \<open>Libelf_Data\<close>: \<open>elf_getdata\<close>, \<open>elf_newdata\<close>, \<open>elf_rawdata\<close>, \<open>elf_strptr\<close>, section header access.
  \<^item> \<open>Libelf_Gelf\<close>: the class-independent accessors and the checksum.
  \<^item> \<open>Libelf_Archive\<close>: names, headers and symbol tables of archives (\<open>libelf_ar.c\<close>,
    \<open>libelf_ar_util.c\<close>) and \<open>elf_hash.c\<close>.
  \<^item> \<open>Libelf_Update\<close>: \<open>elf_update.c\<close>, the layout and the writing of files.
  \<^item> \<open>Libelf_Entries\<close>: what the accessors for entries of sections promise; the locales \<open>gelf_record\<close>
    and \<open>gelf_checked\<close>, interpreted for every entry type.
  \<^item> \<open>Libelf_Invariant\<close>: the invariant of the descriptors, \<open>libelf_ok\<close>, and how updates keep it.
  \<^item> \<open>Libelf_Keeps\<close>, \<open>Libelf_Session\<close>, \<open>Libelf_Update_Keeps\<close>: weakest preconditions (\<open>wp\<close>) of the operations;
    each of them keeps the invariant, \<open>elf_update\<close> when it succeeds.
  \<^item> \<open>Libelf_Api\<close>: the calls of the interface as a datatype, the relation \<open>reachable\<close>.
  \<^item> \<open>Libelf_Lifecycle\<close>: opening and closing of descriptors in reachable states.
  \<^item> \<open>Crc\<close>: \<open>crc.c\<close> of \<open>elf2e32\<close> and \<open>makesis-4\<close>; the table-driven checksum is the bitwise one.
  \<^item> \<open>Genaif\<close>: \<open>genaif.c\<close>; the layout of AIF files, the change of UIDs.
  \<^item> \<open>Libelf_Layout\<close>, \<open>Libelf_Write\<close>: what the layout of sections (\<open>scns_placed\<close>, \<open>scn_aligned\<close>) and the image of the
    written file promise.

  The compressor, one theory for each layer of \<open>src/tools/elf2e32/deflate/deflate\<close> and its proofs:
  \<^item> \<open>Bitstream\<close>: \<open>TBitOutput\<close> of \<open>encode.cpp\<close>, \<open>TBitInput\<close> of \<open>decode.cpp\<close> and the output file of
    \<open>compress.cpp\<close>; what is written and read as lists of bits; the locale \<open>symbol_code\<close> of a code whose
    symbols can be read back.
  \<^item> \<open>Huffman\<close>: code lengths (\<open>HuffmanL\<close>), codes (\<open>Encoding\<close>) and decoding trees (\<open>Decoding\<close>).
    \<open>Huffman_Lengths\<close>, \<open>Huffman_Depth\<close>, \<open>Huffman_Canonical\<close>, \<open>Huffman_Decode\<close> and \<open>Huffman_Coding\<close> show that
    the lengths are those of a complete tree and at most 27 below 832040 symbols, that the
    codes are the canonical ones and that the tree decodes them.
  \<^item> \<open>Huffman_Store\<close>: the stored form of code lengths (\<open>ExternalizeL\<close>, \<open>InternalizeL\<close>), itself coded with
    a fixed code.
  \<^item> \<open>Deflate\<close>: \<open>deflate.cpp\<close>, the hash chains, the matcher, the generic algorithm with its two clients.
    \<open>Deflate_Match\<close> and \<open>Deflate_Segments\<close> show that matches are copies of earlier data and that the
    segments unpack to the data.
  \<^item> \<open>Inflate\<close>: \<open>inflate.cpp\<close>.  \<open>Deflate_Codes\<close> and \<open>Inflate_Correct\<close> (locales \<open>deflate_codes\<close> and
    \<open>deflate_stream\<close>) show that the decoder rebuilds what the segments unpack to in its circular buffer.
  \<^item> \<open>Deflate_Program\<close>: \<open>compress.cpp\<close> and \<open>decompress.cpp\<close>; \<open>Deflate_Roundtrip\<close>: an image survives both.
  \<^item> \<open>Inflate_Safe\<close> and \<open>Inflate_Total\<close>: the decoder on arbitrary data.  Every table that \<open>InternalizeL\<close> accepts makes trees that
    cannot be left, so that no access goes outside of the circular buffer and both programs end.

  Images of \<open>elf2e32\<close>:
  \<^item> \<open>E32image\<close>: files, headers, capabilities and the checksum of UIDs (\<open>e32image.cpp\<close>, \<open>stricmp\<close> of \<open>caseinsensitive.cpp\<close>).
  \<^item> \<open>E32final\<close>: \<open>finalizeE32Image\<close> and the program \<open>checksum\<close>; compressed and uncompressed images correspond; \<open>genaif\<close> and \<open>elf2e32\<close>
    compute the same checksum of UIDs, that of \<open>crc.c\<close>.
  \<^item> \<open>E32reloc\<close>: \<open>reloc.h\<close> and \<open>reloc.cpp\<close>, the lists of imports, relocations and exports; readers of the
    sections find what was added.

  The bitmap compiler:
  \<^item> \<open>Bmconv_Rle\<close>: the run-length compressors of \<open>pbmcomp.cpp\<close> and expanders of \<open>pbmtobm.cpp\<close> for pixels of one, two and three bytes and of twelve bits.
    \<open>Bmconv_Expand\<close>, \<open>Bmconv_Compress\<close> and \<open>Bmconv_Twelve\<close> show that expanding inverts compressing.
  \<^item> \<open>Bmconv\<close>: \<open>CompressBitmap\<close>, the writing of multi-bitmap files (\<open>FileImage\<close>) and the loader \<open>EpocLoader\<close>; \<open>Bmconv_Roundtrip\<close>: bitmaps survive both.

  \<^bold>\<open>Conventions\<close>

  Memory is a function from addresses to bytes, so overlapping buffers and in-place conversions
  are those of the program.  Sizes are natural numbers, wrapped at 64 bits where the program
  computes with \<open>size_t\<close> or \<open>uint64_t\<close> (\<open>u64\<close>); members of ELF structures are words of their width.  The
  byte order of the host is a parameter.  Every operation on the library takes and returns the
  record \<open>libelf\<close>.  A failed assertion, an access through a null or dangling pointer and a loop
  that never ends are the value \<open>None\<close>; failures that the program reports set \<open>libelf_error\<close> as
  \<open>LIBELF_SET_ERROR\<close> does.  A leading underscore of a C name is dropped.  Loops whose end is not
  obvious are \<open>partial_function\<close>s; no fuel is used.  The counters \<open>e_activations\<close> and \<open>e_nchildren\<close> of descriptors are
  integers without bound, so a program that opens the same object \<open>2 ^ 31\<close> times is outside of the model.  Releasing a descriptor ends its
  life; the memory of headers and names that is freed with it is not tracked, and the archive header of a member
  (\<open>e_arhdr\<close>) exists as long as the member does.

  In the compressor pointers into arrays are indices, and a failure is the value \<open>Inl\<close> with the panic, the exit
  status or \<open>Undefined\<close>, which stands for an access outside of an array.  The loops of the matcher and of \<open>decompress\<close> are
  \<open>partial_function\<close>s; the others end by a measure, the bits that are left in the input or the length
  of the data.  The round trip is stated for files of at most \<open>2 ^ 26\<close> bytes, so that \<open>8 * len\<close> of
  \<open>decompress.cpp\<close> does not leave an \<open>int\<close>.  Statements that a program ends well never count \<open>Undefined\<close> as a result: where it can
  occur, the statement says when.

  In the bitmap compiler the host is little-endian, bitmaps are shorter than \<open>2 ^ 31\<close> bytes, widths in bytes are computed in unbounded
  integers, which makes no difference for such bitmaps, and \<open>None\<close> is a store outside of a buffer.  In \<open>reloc.cpp\<close> \<open>std::sort\<close> is a parameter with the
  specification of the standard (\<open>std_sort\<close>), in \<open>finalizeE32Image\<close> the function \<open>crc32\<close> of zlib is one without any assumption;
  a \<open>FILE\<close> is its bytes and a position, and a read beyond the end, which leaves a buffer uninitialised, is \<open>None\<close>.

  \<^bold>\<open>What the theorems show\<close>

  Conversions between file and memory are inverse to each other and stay inside their buffers
  (\<open>Libelf_Translator\<close>, \<open>Libelf_Xlate\<close> and the theories of converters); entries of sections are read
  back as they were stored (\<open>Libelf_Entries\<close>); in all reachable states the descriptors are
  consistent, and closing them is safe and complete (\<open>Libelf_Lifecycle\<close>); archives are decoded as
  their format says (\<open>Libelf_Archive\<close>); a layout computed by the library has ordered and
  separate sections at multiples of the alignments asked for, and sections of plain bytes are written at their offsets with the gaps
  filled (\<open>Libelf_Layout\<close>, \<open>Libelf_Write\<close>).  Compression loses nothing, from code lengths and their
  stored form to whole images (\<open>Huffman_Coding\<close>, \<open>Huffman_Store\<close>, \<open>Deflate_Segments\<close>, \<open>Deflate_Roundtrip\<close>), and the decoder is safe on corrupt data but for one store
  behind the table of code lengths (\<open>Inflate_Total\<close>, \<open>Huffman_Store\<close>).  The sections of imports and relocations of an image hold what was
  added, frozen exports keep their ordinals (\<open>E32reloc\<close>), compressed images can be restored (\<open>E32final\<close>), and multi-bitmap files give the bitmaps back
  (\<open>Bmconv_Roundtrip\<close>).  Where the code does not do what it means to, a theorem
  shows what happens.

  \<^bold>\<open>What is not modelled\<close>

  Error texts; the operating system beyond files as byte lists (\<open>munmap\<close> and \<open>free\<close> only end the
  life of descriptors, and neither \<open>munmap\<close> nor \<open>lseek\<close> fails); in \<open>compress.cpp\<close> of the compressor \<open>TFileInput\<close> and \<open>InflateUnCompress\<close>, which
  nothing calls, and the base class \<open>TBitOutput\<close> without a file; of \<open>elf2e32\<close> the command lines and main programs, the lookup of
  imports in libraries on disk, definition files, import libraries and the printed dump of an image; of \<open>bmconv\<close> the format of the ROM, the creation of
  header files, palettes and the loader of BMP files; the other C++ tools of the repository and the
  programs it contains from other projects.
\<close>

end
